(* ===== verification/Prelude.thy ===== *)
theory Prelude
  imports Main "HOL-Library.Word"
begin

text \<open>
  Types, collections and general lemmas shared by every component: the C integer types as words,
  results that may fault, and the lemma collections the component theories fill.
\<close>

unbundle bit_operations_syntax

subsection \<open>C integer types\<close>

type_synonym u8 = "8 word"
type_synonym u16 = "16 word"
type_synonym u32 = "32 word"
type_synonym u64 = "64 word"

text \<open>
  A C \<open>int\<close> is kept as its 32 bits; \<open>sint\<close> reads the two's complement value where the
  code compares it signed.
\<close>

type_synonym s32 = "32 word"

named_theorems hook_defs "definitions of the handlers of the module"
named_theorems frame_simps "what an operation leaves alone"

subsection \<open>Results that may fault\<close>

text \<open>\<open>Inl\<close> is the fault, \<open>Inr\<close> the value; the first fault ends the computation.\<close>

fun fbind :: "'e + 'a \<Rightarrow> ('a \<Rightarrow> 'e + 'b) \<Rightarrow> 'e + 'b" where
  "fbind (Inl e) f = Inl e"
| "fbind (Inr a) f = f a"

lemma fbind_Inr_iff: "fbind m f = Inr b \<longleftrightarrow> (\<exists>a. m = Inr a \<and> f a = Inr b)"
  by (cases m) auto

lemma fbind_assoc: "fbind (fbind m f) g = fbind m (\<lambda>a. fbind (f a) g)"
  by (cases m) auto

lemma fbind_Inr_right [simp]: "fbind m Inr = m"
  by (cases m) auto

fun is_ok :: "'e + 'a \<Rightarrow> bool" where
  "is_ok (Inl e) = False"
| "is_ok (Inr a) = True"

lemma is_ok_iff: "is_ok m \<longleftrightarrow> (\<exists>a. m = Inr a)"
  by (cases m) auto

subsection \<open>Words\<close>

lemma ucast_32_64_32 [simp]: "(ucast (ucast (v :: u32) :: u64) :: u32) = v"
  by (rule bit_word_eqI) (simp add: bit_simps)

lemma unat_plus_one_32: "unat (w + 1 :: u32) = (unat w + 1) mod 2 ^ 32"
  by (simp add: unat_word_ariths)

lemma word_add_offset_neq: "k \<noteq> l \<Longrightarrow> a + k \<noteq> (a + l :: 'n::len word)"
  by simp

text \<open>Below \<open>2 ^ 31\<close> the signed and the unsigned reading agree.\<close>

lemma sint_small: "uint (t :: u32) < 2 ^ 31 \<Longrightarrow> sint t = uint t"
proof -
  assume t: "uint t < 2 ^ 31"
  have "- (2 ^ 31) \<le> uint t" using uint_ge_0 [of t] by (rule order_trans [rotated]) simp
  with t have "signed_take_bit 31 (uint t) = uint t" by (intro signed_take_bit_int_eq_self)
  then show ?thesis by (simp add: sint_uint)
qed

lemma sint_large: "2 ^ 31 \<le> uint (t :: u32) \<Longrightarrow> sint t = uint t - 2 ^ 32"
proof -
  assume t: "2 ^ 31 \<le> uint t"
  have "uint t < 2 ^ 32" using uint_lt2p [of t] by simp
  with t have "signed_take_bit 31 (uint t) = signed_take_bit 31 (uint t - 2 ^ 32)"
    by (simp add: signed_take_bit_eq_iff_take_bit_eq take_bit_eq_mod)
  also have "\<dots> = uint t - 2 ^ 32"
    using t \<open>uint t < 2 ^ 32\<close> by (simp add: signed_take_bit_int_eq_self)
  finally show ?thesis by (simp add: sint_uint)
qed

lemma sint_neg_iff: "sint (t :: u32) < 0 \<longleftrightarrow> 0x80000000 \<le> t"
proof (cases "uint t < 2 ^ 31")
  case True
  then show ?thesis by (simp add: sint_small word_le_def not_le not_less)
next
  case False
  moreover have "uint t < 2 ^ 32" using uint_lt2p [of t] by simp
  ultimately show ?thesis by (simp add: sint_large word_le_def)
qed

lemma sint_le_iff_small: "a < 0x80000000 \<Longrightarrow> b < 0x80000000 \<Longrightarrow> sint (a :: u32) \<le> sint b \<longleftrightarrow> a \<le> b"
  by (simp add: sint_small word_le_def word_less_def)

subsection \<open>Lists\<close>

lemma list_update_nth_other: "i \<noteq> j \<Longrightarrow> xs[i := v] ! j = xs ! j"
  by simp

lemma last_notin_butlast: "distinct xs \<Longrightarrow> xs \<noteq> [] \<Longrightarrow> last xs \<notin> set (butlast xs)"
  using distinct_append [of "butlast xs" "[last xs]"] by simp

end
