(* ===== verification/Kernel_Mem.thy ===== *)
theory Kernel_Mem
  imports Prelude
begin

text \<open>
  Kernel memory as the handlers reach it through pointers (\<open>int *temperature\<close>,
  \<open>u32 *fw\<close> ... of src/src/K100PM_CHG_RUNTIME.c): a byte per mapped 64-bit address. An access
  to an unmapped byte is a fault, a value of the model. Words are little-endian
  (\<open>CONFIG_CPU_BIG_ENDIAN\<close> is not set in kheaders/include/generated/autoconf.h).
  \<open>READ_ONCE\<close> and \<open>WRITE_ONCE\<close> of a 32-bit location are one volatile load or store of it
  (kheaders/include/asm-generic/rwonce.h; \<open>CONFIG_LTO\<close> is not set, so the arm64 header only
  includes the generic one).
\<close>

datatype kfault =
    BadAddress u64
  | InstanceOverrun nat
  | ProbeIndex nat

type_synonym mem = "u64 \<Rightarrow> u8 option"

fun le32 :: "u8 \<Rightarrow> u8 \<Rightarrow> u8 \<Rightarrow> u8 \<Rightarrow> u32" where
  "le32 b0 b1 b2 b3 =
     (ucast b0 OR push_bit 8 (ucast b1) OR push_bit 16 (ucast b2) OR push_bit 24 (ucast b3))"

definition byte_of :: "nat \<Rightarrow> u32 \<Rightarrow> u8" where
  "byte_of k v = ucast (drop_bit k v)"

lemma le32_byte_of [simp]: "le32 (byte_of 0 v) (byte_of 8 v) (byte_of 16 v) (byte_of 24 v) = v"
proof (rule bit_word_eqI)
  fix n
  assume n: "n < LENGTH(32)"
  have "n < 8 \<or> 8 \<le> n \<and> n < 16 \<or> 16 \<le> n \<and> n < 24 \<or> 24 \<le> n \<and> n < 32"
    using n by auto
  then show "bit (le32 (byte_of 0 v) (byte_of 8 v) (byte_of 16 v) (byte_of 24 v)) n = bit v n"
    by (auto simp: byte_of_def bit_simps)
qed

definition mapped32 :: "mem \<Rightarrow> u64 \<Rightarrow> bool" where
  "mapped32 m a \<longleftrightarrow> m a \<noteq> None \<and> m (a + 1) \<noteq> None \<and> m (a + 2) \<noteq> None \<and> m (a + 3) \<noteq> None"

definition read_once32 :: "mem \<Rightarrow> u64 \<Rightarrow> kfault + u32" where
  "read_once32 m a =
     (case (m a, m (a + 1), m (a + 2), m (a + 3)) of
        (Some b0, Some b1, Some b2, Some b3) \<Rightarrow> Inr (le32 b0 b1 b2 b3)
      | _ \<Rightarrow> Inl (BadAddress a))"

definition write_once32 :: "mem \<Rightarrow> u64 \<Rightarrow> u32 \<Rightarrow> kfault + mem" where
  "write_once32 m a v =
     (if mapped32 m a
      then Inr (m(a \<mapsto> byte_of 0 v, a + 1 \<mapsto> byte_of 8 v, a + 2 \<mapsto> byte_of 16 v,
                  a + 3 \<mapsto> byte_of 24 v))
      else Inl (BadAddress a))"

text \<open>Two word accesses that share no byte.\<close>

definition disjoint32 :: "u64 \<Rightarrow> u64 \<Rightarrow> bool" where
  "disjoint32 a b \<longleftrightarrow> {a, a + 1, a + 2, a + 3} \<inter> {b, b + 1, b + 2, b + 3} = {}"

lemma mapped32_read: "mapped32 m a \<longleftrightarrow> (\<exists>v. read_once32 m a = Inr v)"
  by (auto simp: mapped32_def read_once32_def split: option.splits)

lemma read_once32_unmapped: "\<not> mapped32 m a \<Longrightarrow> read_once32 m a = Inl (BadAddress a)"
  by (auto simp: mapped32_def read_once32_def split: option.splits)

lemma read_write_same:
  assumes "write_once32 m a v = Inr m'"
  shows "read_once32 m' a = Inr v"
proof -
  have "m' = m(a \<mapsto> byte_of 0 v, a + 1 \<mapsto> byte_of 8 v, a + 2 \<mapsto> byte_of 16 v, a + 3 \<mapsto> byte_of 24 v)"
    using assms by (auto simp: write_once32_def split: if_splits)
  then show ?thesis by (simp add: read_once32_def del: le32.simps)
qed

lemma write_once32_frame:
  "write_once32 m a v = Inr m' \<Longrightarrow> x \<notin> {a, a + 1, a + 2, a + 3} \<Longrightarrow> m' x = m x"
  by (auto simp: write_once32_def split: if_splits)

lemma read_write_other:
  assumes "write_once32 m a v = Inr m'" and "disjoint32 a b"
  shows "read_once32 m' b = read_once32 m b"
proof -
  have "m' x = m x" if "x \<in> {b, b + 1, b + 2, b + 3}" for x
    by (rule write_once32_frame [OF assms(1)]) (use assms(2) that in \<open>auto simp: disjoint32_def\<close>)
  then show ?thesis by (simp add: read_once32_def)
qed

lemma write_once32_dom: "write_once32 m a v = Inr m' \<Longrightarrow> dom m' = dom m"
  by (auto simp: write_once32_def mapped32_def split: if_splits)

lemma mapped32_dom: "dom m' = dom m \<Longrightarrow> mapped32 m' b = mapped32 m b"
proof -
  assume "dom m' = dom m"
  then have "m' x = None \<longleftrightarrow> m x = None" for x
    by (metis domIff)
  then show ?thesis by (simp add: mapped32_def)
qed

lemma write_once32_mapped: "write_once32 m a v = Inr m' \<Longrightarrow> mapped32 m' b = mapped32 m b"
  by (rule mapped32_dom) (rule write_once32_dom)

lemma write_once32_ok: "mapped32 m a \<Longrightarrow> \<exists>m'. write_once32 m a v = Inr m'"
  by (simp add: write_once32_def)

lemma write_once32_Inr_mapped: "write_once32 m a v = Inr m' \<Longrightarrow> mapped32 m a"
  by (simp add: write_once32_def split: if_splits)

text \<open>Writing back what is there changes nothing.\<close>

lemma byte_of_le32:
  "byte_of 0 (le32 b0 b1 b2 b3) = b0" "byte_of 8 (le32 b0 b1 b2 b3) = b1"
  "byte_of 16 (le32 b0 b1 b2 b3) = b2" "byte_of 24 (le32 b0 b1 b2 b3) = b3"
  by (rule bit_word_eqI, auto simp: byte_of_def bit_simps dest: bit_imp_le_length)+

lemma write_read_same: "read_once32 m a = Inr v \<Longrightarrow> write_once32 m a v = Inr m"
  by (auto simp: read_once32_def write_once32_def mapped32_def byte_of_le32 fun_upd_idem
      simp del: le32.simps split: option.splits)

lemma read_once32_Inr_mapped: "read_once32 m a = Inr v \<Longrightarrow> mapped32 m a"
  using mapped32_read by blast

end
