(* ===== verification/Pt_Regs.thy ===== *)
theory Pt_Regs
  imports Prelude
begin

text \<open>
  The saved register frame a probe handler receives (\<open>struct pt_regs\<close>) and its accessors, from
  kheaders/arch/arm64/include/asm/ptrace.h and the PSTATE bits of the uapi header. The union of
  \<open>user_pt_regs\<close> with the anonymous struct is one set of fields here (the two views share their
  storage member by member). \<open>regs\<close> is the array \<open>regs[31]\<close>; \<open>wf_regs\<close> is its length.
\<close>

record pt_regs =
  regs :: "u64 list"
  reg_sp :: u64
  reg_pc :: u64
  pstate :: u64
  orig_x0 :: u64
  syscallno :: s32
  unused2 :: u32
  sdei_ttbr1 :: u64
  pmr_save :: u64
  stackframe :: "u64 list"
  lockdep_hardirqs :: u64
  exit_rcu :: u64

definition wf_regs :: "pt_regs \<Rightarrow> bool" where
  "wf_regs r \<longleftrightarrow> length (regs r) = 31 \<and> length (stackframe r) = 2"

definition set_reg :: "nat \<Rightarrow> u64 \<Rightarrow> pt_regs \<Rightarrow> pt_regs" where
  "set_reg i v r = r\<lparr>regs := (regs r)[i := v]\<rparr>"

lemma wf_set_reg [simp, intro]: "wf_regs r \<Longrightarrow> wf_regs (set_reg i v r)"
  by (simp add: wf_regs_def set_reg_def)

lemma regs_set_reg [simp]: "regs (set_reg i v r) = (regs r)[i := v]"
  by (simp add: set_reg_def)

lemma set_reg_frame [frame_simps, simp]:
  "reg_sp (set_reg i v r) = reg_sp r" "reg_pc (set_reg i v r) = reg_pc r"
  "pstate (set_reg i v r) = pstate r" "orig_x0 (set_reg i v r) = orig_x0 r"
  "syscallno (set_reg i v r) = syscallno r" "stackframe (set_reg i v r) = stackframe r"
  by (simp_all add: set_reg_def)

lemma set_reg_same: "i < length (regs r) \<Longrightarrow> set_reg i (regs r ! i) r = r"
  by (simp add: set_reg_def)

lemma set_reg_set_reg [simp]: "set_reg i v (set_reg i w r) = set_reg i v r"
  by (simp add: set_reg_def)

subsection \<open>PSTATE bits\<close>

definition PSR_MODE_EL0t :: u64 where "PSR_MODE_EL0t = 0x00000000"
definition PSR_MODE_EL1t :: u64 where "PSR_MODE_EL1t = 0x00000004"
definition PSR_MODE_EL1h :: u64 where "PSR_MODE_EL1h = 0x00000005"
definition PSR_MODE_EL2t :: u64 where "PSR_MODE_EL2t = 0x00000008"
definition PSR_MODE_EL2h :: u64 where "PSR_MODE_EL2h = 0x00000009"
definition PSR_MODE_MASK :: u64 where "PSR_MODE_MASK = 0x0000000f"
definition PSR_MODE32_BIT :: u64 where "PSR_MODE32_BIT = 0x00000010"
definition PSR_F_BIT :: u64 where "PSR_F_BIT = 0x00000040"
definition PSR_I_BIT :: u64 where "PSR_I_BIT = 0x00000080"
definition PSR_A_BIT :: u64 where "PSR_A_BIT = 0x00000100"
definition PSR_D_BIT :: u64 where "PSR_D_BIT = 0x00000200"
definition PSR_AA32_T_BIT :: u64 where "PSR_AA32_T_BIT = 0x00000020"
definition PSR_AA32_DIT_BIT :: u64 where "PSR_AA32_DIT_BIT = 0x01000000"
definition COMPAT_PSR_DIT_BIT :: u64 where "COMPAT_PSR_DIT_BIT = 0x00200000"
definition INIT_PSTATE_EL1 :: u64 where
  "INIT_PSTATE_EL1 = (PSR_D_BIT OR PSR_A_BIT OR PSR_I_BIT OR PSR_F_BIT OR PSR_MODE_EL1h)"
definition INIT_PSTATE_EL2 :: u64 where
  "INIT_PSTATE_EL2 = (PSR_D_BIT OR PSR_A_BIT OR PSR_I_BIT OR PSR_F_BIT OR PSR_MODE_EL2h)"

lemmas psr_defs = PSR_MODE_EL0t_def PSR_MODE_EL1t_def PSR_MODE_EL1h_def PSR_MODE_EL2t_def
  PSR_MODE_EL2h_def PSR_MODE_MASK_def PSR_MODE32_BIT_def PSR_F_BIT_def PSR_I_BIT_def
  PSR_A_BIT_def PSR_D_BIT_def PSR_AA32_T_BIT_def PSR_AA32_DIT_BIT_def COMPAT_PSR_DIT_BIT_def
  INIT_PSTATE_EL1_def INIT_PSTATE_EL2_def

definition compat_psr_to_pstate :: "u64 \<Rightarrow> u64" where
  "compat_psr_to_pstate psr =
     (let p = psr AND NOT COMPAT_PSR_DIT_BIT
      in if psr AND COMPAT_PSR_DIT_BIT \<noteq> 0 then p OR PSR_AA32_DIT_BIT else p)"

definition pstate_to_compat_psr :: "u64 \<Rightarrow> u64" where
  "pstate_to_compat_psr p =
     (let psr = p AND NOT PSR_AA32_DIT_BIT
      in if p AND PSR_AA32_DIT_BIT \<noteq> 0 then psr OR COMPAT_PSR_DIT_BIT else psr)"

subsection \<open>Mode and interrupt predicates\<close>

definition NO_SYSCALL :: s32 where "NO_SYSCALL = - 1"

definition in_syscall :: "pt_regs \<Rightarrow> bool" where
  "in_syscall r \<longleftrightarrow> syscallno r \<noteq> NO_SYSCALL"

definition forget_syscall :: "pt_regs \<Rightarrow> pt_regs" where
  "forget_syscall r = r\<lparr>syscallno := NO_SYSCALL\<rparr>"

definition compat_thumb_mode :: "pt_regs \<Rightarrow> u64" where
  "compat_thumb_mode r = pstate r AND PSR_AA32_T_BIT"

definition user_mode :: "pt_regs \<Rightarrow> bool" where
  "user_mode r \<longleftrightarrow> pstate r AND PSR_MODE_MASK = PSR_MODE_EL0t"

definition compat_user_mode :: "pt_regs \<Rightarrow> bool" where
  "compat_user_mode r \<longleftrightarrow>
     pstate r AND (PSR_MODE32_BIT OR PSR_MODE_MASK) = (PSR_MODE32_BIT OR PSR_MODE_EL0t)"

definition processor_mode :: "pt_regs \<Rightarrow> u64" where
  "processor_mode r = pstate r AND PSR_MODE_MASK"

text \<open>
  \<open>system_uses_irq_prio_masking()\<close> is a runtime CPU capability and \<open>GIC_PRIO_IRQON\<close> comes
  from the interrupt controller's header: both are arguments.
\<close>

definition irqs_priority_unmasked :: "bool \<Rightarrow> u64 \<Rightarrow> pt_regs \<Rightarrow> bool" where
  "irqs_priority_unmasked prio_masking irqon r = (if prio_masking then pmr_save r = irqon else True)"

definition interrupts_enabled :: "bool \<Rightarrow> u64 \<Rightarrow> pt_regs \<Rightarrow> bool" where
  "interrupts_enabled prio_masking irqon r \<longleftrightarrow>
     pstate r AND PSR_I_BIT = 0 \<and> irqs_priority_unmasked prio_masking irqon r"

definition fast_interrupts_enabled :: "pt_regs \<Rightarrow> bool" where
  "fast_interrupts_enabled r \<longleftrightarrow> pstate r AND PSR_F_BIT = 0"

subsection \<open>Register accessors\<close>

text \<open>\<open>compat_sp\<close> is \<open>regs[13]\<close>.\<close>

definition user_stack_pointer :: "pt_regs \<Rightarrow> u64" where
  "user_stack_pointer r = (if compat_user_mode r then regs r ! 13 else reg_sp r)"

text \<open>
  \<open>offsetof(struct pt_regs, sp) >> 3\<close> is 31, \<open>pc\<close> 32, \<open>pstate\<close> 33. \<open>WARN_ON(offset & 7)\<close>
  only prints.
\<close>

definition regs_get_register :: "pt_regs \<Rightarrow> u32 \<Rightarrow> u64" where
  "regs_get_register r offset =
     (let i = unat (drop_bit 3 offset)
      in if i \<le> 30 then regs r ! i
         else if i = 31 then reg_sp r
         else if i = 32 then reg_pc r
         else if i = 33 then pstate r
         else 0)"

text \<open>
  The register number is a C \<open>int\<close>; \<open>None\<close> is an access outside \<open>regs[31]\<close>, which the
  header does not check.
\<close>

definition pt_regs_read_reg :: "pt_regs \<Rightarrow> int \<Rightarrow> u64 option" where
  "pt_regs_read_reg r n =
     (if n = 31 then Some 0
      else if 0 \<le> n \<and> nat n < length (regs r) then Some (regs r ! nat n) else None)"

definition pt_regs_write_reg :: "pt_regs \<Rightarrow> int \<Rightarrow> u64 \<Rightarrow> pt_regs option" where
  "pt_regs_write_reg r n v =
     (if n \<noteq> 31
      then if 0 \<le> n \<and> nat n < length (regs r) then Some (set_reg (nat n) v r) else None
      else Some r)"

definition kernel_stack_pointer :: "pt_regs \<Rightarrow> u64" where
  "kernel_stack_pointer r = reg_sp r"

text \<open>\<open>sign_extend64\<close> of kheaders/include/linux/bitops.h: shift up, arithmetic shift down.\<close>

definition sign_extend64 :: "u64 \<Rightarrow> nat \<Rightarrow> u64" where
  "sign_extend64 value index =
     (let shift = 63 - index in signed_drop_bit shift (push_bit shift value))"

definition regs_return_value :: "pt_regs \<Rightarrow> u64" where
  "regs_return_value r =
     (let val = regs r ! 0 in if compat_user_mode r then sign_extend64 val 31 else val)"

definition regs_set_return_value :: "pt_regs \<Rightarrow> u64 \<Rightarrow> pt_regs" where
  "regs_set_return_value r rc = set_reg 0 rc r"

definition NR_REG_ARGUMENTS :: nat where "NR_REG_ARGUMENTS = 8"

definition regs_get_kernel_argument :: "pt_regs \<Rightarrow> u32 \<Rightarrow> u64 option" where
  "regs_get_kernel_argument r n =
     (if unat n < NR_REG_ARGUMENTS then pt_regs_read_reg r (int (unat n)) else Some 0)"

definition instruction_pointer :: "pt_regs \<Rightarrow> u64" where
  "instruction_pointer r = reg_pc r"

definition instruction_pointer_set :: "pt_regs \<Rightarrow> u64 \<Rightarrow> pt_regs" where
  "instruction_pointer_set r v = r\<lparr>reg_pc := v\<rparr>"

definition frame_pointer :: "pt_regs \<Rightarrow> u64" where
  "frame_pointer r = regs r ! 29"

definition procedure_link_pointer :: "pt_regs \<Rightarrow> u64" where
  "procedure_link_pointer r = regs r ! 30"

definition procedure_link_pointer_set :: "pt_regs \<Rightarrow> u64 \<Rightarrow> pt_regs" where
  "procedure_link_pointer_set r v = set_reg 30 v r"

subsection \<open>Lemmas\<close>

lemma read_write_reg:
  assumes "pt_regs_write_reg r n v = Some r'"
  shows "pt_regs_read_reg r' n = (if n = 31 then Some 0 else Some v)"
    and "m \<noteq> n \<Longrightarrow> pt_regs_read_reg r' m = pt_regs_read_reg r m"
  using assms
  by (auto simp: pt_regs_write_reg_def pt_regs_read_reg_def nth_list_update eq_nat_nat_iff
      split: if_splits)

lemma kernel_argument_is_reg:
  "wf_regs r \<Longrightarrow> unat n < 8 \<Longrightarrow> regs_get_kernel_argument r n = Some (regs r ! unat n)"
  using of_nat_less_iff [where 'a = int, of "unat n" 8]
  by (auto simp: regs_get_kernel_argument_def NR_REG_ARGUMENTS_def pt_regs_read_reg_def wf_regs_def)

lemma compat_psr_bits:
  "bit (compat_psr_to_pstate psr) n =
     (if n = 21 then False else if n = 24 then bit psr 21 \<or> bit psr 24 else bit psr n)"
proof -
  have "psr AND 0x00200000 \<noteq> 0 \<longleftrightarrow> bit psr 21"
    using and_exp_eq_0_iff_not_bit [of psr 21] by simp
  moreover have "bit (0x00200000 :: u64) n \<longleftrightarrow> n = 21" "bit (0x01000000 :: u64) n \<longleftrightarrow> n = 24"
    using bit_exp_iff [where 'a = "64 word", of 21 n] bit_exp_iff [where 'a = "64 word", of 24 n]
    by auto
  ultimately show ?thesis
    by (auto simp: compat_psr_to_pstate_def psr_defs Let_def bit_simps)
      (auto dest: bit_imp_le_length)
qed

lemma pstate_bits:
  "bit (pstate_to_compat_psr p) n =
     (if n = 24 then False else if n = 21 then bit p 21 \<or> bit p 24 else bit p n)"
proof -
  have "p AND 0x01000000 \<noteq> 0 \<longleftrightarrow> bit p 24"
    using and_exp_eq_0_iff_not_bit [of p 24] by simp
  moreover have "bit (0x00200000 :: u64) n \<longleftrightarrow> n = 21" "bit (0x01000000 :: u64) n \<longleftrightarrow> n = 24"
    using bit_exp_iff [where 'a = "64 word", of 21 n] bit_exp_iff [where 'a = "64 word", of 24 n]
    by auto
  ultimately show ?thesis
    by (auto simp: pstate_to_compat_psr_def psr_defs Let_def bit_simps)
      (auto dest: bit_imp_le_length)
qed

end
