(* ===== verification/Module_State.thy ===== *)
theory Module_State
  imports Kernel_Mem Pt_Regs
begin

text \<open>
  The module's own state, from the top of src/src/K100PM_CHG_RUNTIME.c: its parameters, its hit
  counters and the last raw temperature (one record field per \<open>static\<close> variable), and the
  increment of a counter; and the log messages.
\<close>

subsection \<open>Globals\<close>

record k100pm =
  armed :: bool
  boost :: bool
  pps :: bool
  thermal :: bool
  temperature_spoof :: bool
  cutoff :: bool
  observe :: bool
  temperature_ceiling :: u32
  cutoff_fw_mv :: u32
  cutoff_delay_mv :: u32
  cutoff_sw_mv :: u32
  ichg_hits :: u32
  cv_hits :: u32
  curve_hits :: u32
  pps_hits :: u32
  thermal_hits :: u32
  temperature_hits :: u32
  cutoff_hits :: u32
  raw_fg_temperature :: u32

text \<open>Static variables without an initialiser start at zero.\<close>

definition k100pm_initial :: k100pm where
  "k100pm_initial =
     \<lparr>armed = False, boost = False, pps = False, thermal = False, temperature_spoof = False,
      cutoff = False, observe = False, temperature_ceiling = 360, cutoff_fw_mv = 2600,
      cutoff_delay_mv = 2600, cutoff_sw_mv = 2550, ichg_hits = 0, cv_hits = 0, curve_hits = 0,
      pps_hits = 0, thermal_hits = 0, temperature_hits = 0, cutoff_hits = 0,
      raw_fg_temperature = 0\<rparr>"

subsection \<open>The log\<close>

text \<open>
  A \<open>pr_info\<close> or \<open>pr_err\<close> is recorded as its level, its format string (without the
  \<open>K100PM_CHG_RUNTIME: \<close> prefix and the newline all of them share) and its arguments: the
  numbers, and for the registration failure the symbol's name.
\<close>

datatype kmsg =
    Pr_info string "u32 list"
  | Pr_err string string s32

subsection \<open>What a handler sees\<close>

record kstate =
  glob :: k100pm
  kmem :: mem
  klog :: "kmsg list"

definition pr_info :: "string \<Rightarrow> u32 list \<Rightarrow> kstate \<Rightarrow> kstate" where
  "pr_info fmt args st = st\<lparr>klog := klog st @ [Pr_info fmt args]\<rparr>"

definition pr_err :: "string \<Rightarrow> string \<Rightarrow> s32 \<Rightarrow> kstate \<Rightarrow> kstate" where
  "pr_err fmt name err st = st\<lparr>klog := klog st @ [Pr_err fmt name err]\<rparr>"

lemma pr_info_frame [frame_simps, simp]:
  "glob (pr_info f a st) = glob st" "kmem (pr_info f a st) = kmem st"
  by (simp_all add: pr_info_def)

text \<open>The seven counters, as the addresses \<open>k100pm_count\<close> is called with.\<close>

datatype counter =
    Ichg_hits | Cv_hits | Curve_hits | Pps_hits | Thermal_hits | Temperature_hits | Cutoff_hits

fun counter_val :: "counter \<Rightarrow> k100pm \<Rightarrow> u32" where
  "counter_val Ichg_hits g = ichg_hits g"
| "counter_val Cv_hits g = cv_hits g"
| "counter_val Curve_hits g = curve_hits g"
| "counter_val Pps_hits g = pps_hits g"
| "counter_val Thermal_hits g = thermal_hits g"
| "counter_val Temperature_hits g = temperature_hits g"
| "counter_val Cutoff_hits g = cutoff_hits g"

fun counter_set :: "counter \<Rightarrow> u32 \<Rightarrow> k100pm \<Rightarrow> k100pm" where
  "counter_set Ichg_hits v g = g\<lparr>ichg_hits := v\<rparr>"
| "counter_set Cv_hits v g = g\<lparr>cv_hits := v\<rparr>"
| "counter_set Curve_hits v g = g\<lparr>curve_hits := v\<rparr>"
| "counter_set Pps_hits v g = g\<lparr>pps_hits := v\<rparr>"
| "counter_set Thermal_hits v g = g\<lparr>thermal_hits := v\<rparr>"
| "counter_set Temperature_hits v g = g\<lparr>temperature_hits := v\<rparr>"
| "counter_set Cutoff_hits v g = g\<lparr>cutoff_hits := v\<rparr>"

definition k100pm_count :: "counter \<Rightarrow> kstate \<Rightarrow> kstate" where
  "k100pm_count c st = st\<lparr>glob := counter_set c (counter_val c (glob st) + 1) (glob st)\<rparr>"

text \<open>The configuration and the raw temperature: everything but the counters.\<close>

definition same_config :: "k100pm \<Rightarrow> k100pm \<Rightarrow> bool" where
  "same_config g h \<longleftrightarrow>
     armed g = armed h \<and> boost g = boost h \<and> pps g = pps h \<and> thermal g = thermal h \<and>
     temperature_spoof g = temperature_spoof h \<and> cutoff g = cutoff h \<and> observe g = observe h \<and>
     temperature_ceiling g = temperature_ceiling h \<and> cutoff_fw_mv g = cutoff_fw_mv h \<and>
     cutoff_delay_mv g = cutoff_delay_mv h \<and> cutoff_sw_mv g = cutoff_sw_mv h"

lemma same_config_refl [simp, intro]: "same_config g g"
  by (simp add: same_config_def)

lemma same_config_trans: "same_config f g \<Longrightarrow> same_config g h \<Longrightarrow> same_config f h"
  by (simp add: same_config_def)

lemma same_config_counter [simp, intro]: "same_config g (counter_set c v g)"
  by (cases c) (simp_all add: same_config_def)

lemma counter_set_val [simp]:
  "counter_val d (counter_set c v g) = (if d = c then v else counter_val d g)"
  by (cases c; cases d) simp_all

lemma counter_set_fields [frame_simps, simp]:
  "armed (counter_set c v g) = armed g" "boost (counter_set c v g) = boost g"
  "pps (counter_set c v g) = pps g" "thermal (counter_set c v g) = thermal g"
  "temperature_spoof (counter_set c v g) = temperature_spoof g"
  "cutoff (counter_set c v g) = cutoff g" "observe (counter_set c v g) = observe g"
  "temperature_ceiling (counter_set c v g) = temperature_ceiling g"
  "cutoff_fw_mv (counter_set c v g) = cutoff_fw_mv g"
  "cutoff_delay_mv (counter_set c v g) = cutoff_delay_mv g"
  "cutoff_sw_mv (counter_set c v g) = cutoff_sw_mv g"
  "raw_fg_temperature (counter_set c v g) = raw_fg_temperature g"
  by (cases c; simp)+

lemma k100pm_count_frame [frame_simps, simp]:
  "kmem (k100pm_count c st) = kmem st" "klog (k100pm_count c st) = klog st"
  "same_config (glob st) (glob (k100pm_count c st))"
  "raw_fg_temperature (glob (k100pm_count c st)) = raw_fg_temperature (glob st)"
  by (simp_all add: k100pm_count_def)

lemma k100pm_count_val:
  "counter_val d (glob (k100pm_count c st)) =
     (if d = c then counter_val c (glob st) + 1 else counter_val d (glob st))"
  by (simp add: k100pm_count_def)

text \<open>The counters wrap to zero after \<open>UINT_MAX\<close> rewrites.\<close>

lemma k100pm_count_unat:
  "unat (counter_val c (glob (k100pm_count c st))) = (unat (counter_val c (glob st)) + 1) mod 2 ^ 32"
  by (simp only: k100pm_count_val unat_plus_one_32 if_True simp_thms)

end
