(* ===== verification/Charge_Maps.thy ===== *)
theory Charge_Maps
  imports Module_State
begin

text \<open>
  The temperature bands and the value tables of src/src/K100PM_CHG_RUNTIME.c
  (\<open>k100pm_temperature_band\<close> to \<open>k100pm_map_thermal\<close>). Every function takes the module's
  globals, from which the code reads \<open>raw_fg_temperature\<close>. A \<open>switch\<close> whose labels share
  one result is a membership test in the list of its labels, in the order of the source.
\<close>

subsection \<open>Temperature bands\<close>

definition k100pm_temperature_band :: "k100pm \<Rightarrow> int" where
  "k100pm_temperature_band g =
     (let temperature = raw_fg_temperature g
      in if temperature \<ge> 580 then 2
         else if temperature \<ge> 550 then 1
         else if temperature \<ge> 480 then 0
         else -1)"

subsection \<open>The tables\<close>

definition hot_current_labels :: "u32 list" where
  "hot_current_labels =
     [0, 500, 1000, 1200, 1445, 1500, 2000, 2107, 2400, 2500, 2958, 3000, 3500, 3880, 4000, 4315,
      4500, 5000, 6000, 6904, 7000, 8000, 8630, 9000, 10000, 10356, 11000, 12000, 12400, 12945,
      13500, 15000, 17500, 17600, 18300, 18400, 19400, 20500, 22000]"

definition k100pm_apply_temperature_current :: "k100pm \<Rightarrow> u32 \<Rightarrow> u32" where
  "k100pm_apply_temperature_current g value =
     (let band = k100pm_temperature_band g
      in if band = 2 then value
         else if band = 1 then (if value \<in> set hot_current_labels then 4140 else value)
         else value)"

definition k100pm_map_ichg :: "k100pm \<Rightarrow> u32 \<Rightarrow> u32" where
  "k100pm_map_ichg g value =
     (let band = k100pm_temperature_band g
      in if band = 2 then value
         else if band = 1 then k100pm_apply_temperature_current g value
         else if value = 12945 then 14270
         else if value \<in> set [17600, 18300, 17500, 18400, 4315, 3880] then 19400
         else value)"

definition k100pm_map_cv :: "k100pm \<Rightarrow> u32 \<Rightarrow> u32" where
  "k100pm_map_cv g value =
     (let band = k100pm_temperature_band g
      in if band = 2 then value
         else if band = 1 \<and> value \<ge> 4080 then 4120
         else if value = 4530 then 4540
         else if value = 4510 then 4530
         else if value \<in> set [4500, 4490, 4080] then 4520
         else value)"

definition k100pm_map_fast_curve :: "k100pm \<Rightarrow> u32 \<Rightarrow> u32" where
  "k100pm_map_fast_curve g value =
     (let band = k100pm_temperature_band g
      in if band = 2 then value
         else if band = 1 then k100pm_apply_temperature_current g value
         else if value = 18300 then 19400
         else if value = 17600 then 19400
         else if value = 12400 then 16000
         else if value = 10356 then 14000
         else if value = 8630 then 12000
         else if value = 6904 then 10000
         else if value \<in> set [2958, 2107, 1445] then 7000
         else value)"

definition k100pm_map_pps :: "k100pm \<Rightarrow> u32 \<Rightarrow> u32" where
  "k100pm_map_pps g value =
     (let band = k100pm_temperature_band g
      in if band = 2 then value
         else if band = 1 then k100pm_apply_temperature_current g value
         else if value = 4500 then 5000
         else if value = 11000 then 12000
         else if value = 18400 then 19400
         else value)"

definition thermal_labels :: "u32 list" where
  "thermal_labels =
     [13500, 11000, 9000, 8000, 7000, 6000, 5000, 4000, 3500, 3000, 2500, 2000, 1500, 1000, 500]"

definition k100pm_map_thermal :: "k100pm \<Rightarrow> u32 \<Rightarrow> u32" where
  "k100pm_map_thermal g value =
     (let band = k100pm_temperature_band g
      in if band = 2 then value
         else if band = 1 then (if value \<in> set (0 # thermal_labels) then 4140 else value)
         else if value \<in> set thermal_labels then 15000
         else value)"

lemmas map_defs = k100pm_apply_temperature_current_def k100pm_map_ichg_def k100pm_map_cv_def
  k100pm_map_fast_curve_def k100pm_map_pps_def k100pm_map_thermal_def

lemma numeral_hot_label [simp]:
  "numeral k \<in> set hot_current_labels \<longleftrightarrow> numeral k \<in> set
     [500 :: u32, 1000, 1200, 1445, 1500, 2000, 2107, 2400, 2500, 2958, 3000, 3500, 3880, 4000,
      4315, 4500, 5000, 6000, 6904, 7000, 8000, 8630, 9000, 10000, 10356, 11000, 12000, 12400,
      12945, 13500, 15000, 17500, 17600, 18300, 18400, 19400, 20500, 22000] \<or>
     (numeral k :: u32) = 0"
  by (auto simp: hot_current_labels_def)

lemmas label_defs = hot_current_labels_def thermal_labels_def

subsection \<open>Bands\<close>

lemma band_values: "k100pm_temperature_band g \<in> {-1, 0, 1, 2}"
  by (simp add: k100pm_temperature_band_def Let_def)

lemma band_2_iff: "k100pm_temperature_band g = 2 \<longleftrightarrow> 580 \<le> raw_fg_temperature g"
  by (simp add: k100pm_temperature_band_def Let_def)

lemma band_1_iff:
  "k100pm_temperature_band g = 1 \<longleftrightarrow> 550 \<le> raw_fg_temperature g \<and> raw_fg_temperature g < 580"
  by (auto simp: k100pm_temperature_band_def Let_def word_le_def word_less_def)

lemma band_0_iff:
  "k100pm_temperature_band g = 0 \<longleftrightarrow> 480 \<le> raw_fg_temperature g \<and> raw_fg_temperature g < 550"
  by (auto simp: k100pm_temperature_band_def Let_def word_le_def word_less_def)

lemma band_cool_iff:
  "k100pm_temperature_band g = -1 \<longleftrightarrow> raw_fg_temperature g < 480"
  by (auto simp: k100pm_temperature_band_def Let_def word_le_def word_less_def)

lemma band_below_55:
  assumes "raw_fg_temperature g < 550"
  shows "k100pm_temperature_band g \<noteq> 1" "k100pm_temperature_band g \<noteq> 2"
  using assms by (auto simp: band_1_iff band_2_iff word_le_def word_less_def)

text \<open>A temperature below zero reads as an enormous unsigned temperature.\<close>

lemma negative_is_huge: "sint (t :: u32) < 0 \<Longrightarrow> 580 \<le> t"
  unfolding sint_neg_iff by (rule order_trans) simp_all

subsection \<open>The contract of a map\<close>

text \<open>
  What the hooks rely on in a map \<open>f\<close>: it depends on the temperature through the band only,
  it is the identity in the stop band, it never lowers a value below the recovery band, and it
  never produces a value above \<open>lim\<close> that was not there.
\<close>

locale charge_map =
  fixes f :: "k100pm \<Rightarrow> u32 \<Rightarrow> u32" and lim :: u32
  assumes band_only: "k100pm_temperature_band g = k100pm_temperature_band h \<Longrightarrow> f g v = f h v"
    and stop: "k100pm_temperature_band g = 2 \<Longrightarrow> f g v = v"
    and cool_raises: "k100pm_temperature_band g \<noteq> 1 \<Longrightarrow> v \<le> f g v"
    and lim: "f g v = v \<or> f g v \<le> lim"
begin

lemma stop_raw: "580 \<le> raw_fg_temperature g \<Longrightarrow> f g v = v"
  by (simp add: stop band_2_iff)

lemma below_zero: "sint (raw_fg_temperature g) < 0 \<Longrightarrow> f g v = v"
  by (intro stop_raw negative_is_huge)

lemma le_max: "f g v \<le> max v lim"
  using lim [of g v] by (auto simp: max_def)

lemma lowered_only_hot: "f g v < v \<Longrightarrow> 550 \<le> raw_fg_temperature g \<and> raw_fg_temperature g < 580"
  using cool_raises [of g v] unfolding band_1_iff [symmetric] by (metis not_le)

lemma changed_not_stop: "f g v \<noteq> v \<Longrightarrow> raw_fg_temperature g < 580"
  using stop_raw [of g v] by (auto simp: not_le [symmetric])

end

text \<open>
  A map of currents has the \<open>4140\<close> mA recovery band: there a value is kept or replaced by
  \<open>4140\<close>, every value the cool table rewrites is replaced, and applying the map again changes
  nothing.
\<close>

locale current_map = charge_map +
  assumes hot: "k100pm_temperature_band g = 1 \<Longrightarrow> f g v = v \<or> f g v = 4140"
    and hot_covers: "f h v \<noteq> v \<Longrightarrow> k100pm_temperature_band g = 1 \<Longrightarrow> f g v = 4140"
    and idem: "f g (f g v) = f g v"
begin

lemma hot_le: "k100pm_temperature_band g = 1 \<Longrightarrow> f g v \<le> max v 4140"
  using hot [of g v] by (auto simp: max_def)

lemma hot_zero: "k100pm_temperature_band g = 1 \<Longrightarrow> f g 0 = 0 \<or> f g 0 = 4140"
  by (rule hot)

end

subsection \<open>The maps of the module fulfil it\<close>

lemma apply_current_hot_labels:
  "k100pm_temperature_band g = 1 \<Longrightarrow>
   k100pm_apply_temperature_current g v = (if v \<in> set hot_current_labels then 4140 else v)"
  by (simp add: k100pm_apply_temperature_current_def)

lemma apply_current_not_hot:
  "k100pm_temperature_band g \<noteq> 1 \<Longrightarrow> k100pm_apply_temperature_current g v = v"
  by (simp add: k100pm_apply_temperature_current_def Let_def)

lemma apply_current_idem [simp]:
  "k100pm_apply_temperature_current g (k100pm_apply_temperature_current g v) =
   k100pm_apply_temperature_current g v"
  by (cases "k100pm_temperature_band g = 1")
    (simp_all add: apply_current_hot_labels apply_current_not_hot hot_current_labels_def)

text \<open>
  The shape all current maps share: identity in the stop band, the recovery list in the recovery
  band (where the map is switched on at all), and a table \<open>t\<close> below, whose keys are labels of
  the recovery list.
\<close>

lemma current_mapI:
  assumes stop: "\<And>g v. k100pm_temperature_band g = 2 \<Longrightarrow> f g v = v"
    and hot: "\<And>g v. k100pm_temperature_band g = 1 \<Longrightarrow>
      f g v = (if v \<in> set ls then 4140 else v)"
    and cool: "\<And>g v. k100pm_temperature_band g \<noteq> 1 \<Longrightarrow> k100pm_temperature_band g \<noteq> 2 \<Longrightarrow>
      f g v = t v"
    and raises: "\<And>v. v \<le> t v" and lim: "\<And>v. t v = v \<or> t v \<le> lim" "4140 \<le> lim"
    and idem: "\<And>v. t (t v) = t v" and keys: "\<And>v. t v \<noteq> v \<Longrightarrow> v \<in> set ls"
    and fixpoint: "4140 \<notin> set ls"
  shows "current_map f lim"
proof unfold_locales
  show "f g v = f h v" if "k100pm_temperature_band g = k100pm_temperature_band h" for g h v
    using that stop hot cool by metis
  show "v \<le> f g v" if "k100pm_temperature_band g \<noteq> 1" for g v
    using that stop cool raises by (metis order_refl)
  show "f g v = v \<or> f g v \<le> lim" for g v
    using stop hot cool lim by metis
  show "f g v = 4140" if "f h v \<noteq> v" "k100pm_temperature_band g = 1" for h g v
    using that stop hot cool keys by metis
  show "f g (f g v) = f g v" for g v
    using stop hot cool idem fixpoint by metis
qed (use stop hot in auto)

subsection \<open>Interpretations\<close>

text \<open>The tables below the recovery band.\<close>

definition cool_ichg :: "u32 \<Rightarrow> u32" where
  "cool_ichg v = (if v = 12945 then 14270
     else if v \<in> set [17600, 18300, 17500, 18400, 4315, 3880] then 19400 else v)"

definition cool_fast_curve :: "u32 \<Rightarrow> u32" where
  "cool_fast_curve v = (if v \<in> set [18300, 17600] then 19400 else if v = 12400 then 16000
     else if v = 10356 then 14000 else if v = 8630 then 12000 else if v = 6904 then 10000
     else if v \<in> set [2958, 2107, 1445] then 7000 else v)"

definition cool_pps :: "u32 \<Rightarrow> u32" where
  "cool_pps v = (if v = 4500 then 5000 else if v = 11000 then 12000
     else if v = 18400 then 19400 else v)"

definition cool_thermal :: "u32 \<Rightarrow> u32" where
  "cool_thermal v = (if v \<in> set thermal_labels then 15000 else v)"

lemmas cool_defs = cool_ichg_def cool_fast_curve_def cool_pps_def cool_thermal_def

interpretation ichg_map: current_map k100pm_map_ichg 19400
  by (rule current_mapI [where t = cool_ichg and ls = hot_current_labels])
    (auto simp: k100pm_map_ichg_def apply_current_hot_labels cool_ichg_def Let_def
      hot_current_labels_def)

interpretation fast_curve_map: current_map k100pm_map_fast_curve 19400
  by (rule current_mapI [where t = cool_fast_curve and ls = hot_current_labels])
    (auto simp: k100pm_map_fast_curve_def apply_current_hot_labels cool_fast_curve_def Let_def
      hot_current_labels_def)

interpretation pps_map: current_map k100pm_map_pps 19400
  by (rule current_mapI [where t = cool_pps and ls = hot_current_labels])
    (auto simp: k100pm_map_pps_def apply_current_hot_labels cool_pps_def Let_def
      hot_current_labels_def)

interpretation thermal_map: current_map k100pm_map_thermal 15000
  by (rule current_mapI [where t = cool_thermal and ls = "0 # thermal_labels"])
    (auto simp: k100pm_map_thermal_def cool_thermal_def Let_def thermal_labels_def
      split: if_splits)

interpretation recovery_map: current_map k100pm_apply_temperature_current 4140
  by (rule current_mapI [where t = id and ls = hot_current_labels])
    (auto simp: apply_current_hot_labels apply_current_not_hot hot_current_labels_def)

interpretation cv_map: charge_map k100pm_map_cv 4540
  by unfold_locales (auto simp: k100pm_map_cv_def Let_def split: if_splits)

lemma map_pps_hot:
  "k100pm_temperature_band g = 1 \<Longrightarrow> k100pm_map_pps g v = k100pm_apply_temperature_current g v"
  by (simp add: k100pm_map_pps_def)

lemma map_fast_curve_hot:
  "k100pm_temperature_band g = 1 \<Longrightarrow>
   k100pm_map_fast_curve g v = k100pm_apply_temperature_current g v"
  by (simp add: k100pm_map_fast_curve_def)

lemma map_pps_cool:
  "k100pm_temperature_band g \<noteq> 1 \<Longrightarrow> k100pm_temperature_band g \<noteq> 2 \<Longrightarrow>
   k100pm_map_pps g v = cool_pps v"
  by (simp add: k100pm_map_pps_def cool_pps_def Let_def)

lemma map_fast_curve_cool:
  "k100pm_temperature_band g \<noteq> 1 \<Longrightarrow> k100pm_temperature_band g \<noteq> 2 \<Longrightarrow>
   k100pm_map_fast_curve g v = cool_fast_curve v"
  by (simp add: k100pm_map_fast_curve_def cool_fast_curve_def Let_def)

end
