(* ===== verification/Voter_Hooks.thy ===== *)
theory Voter_Hooks
  imports Charge_Maps
begin

text \<open>
  The entry handlers that rewrite an argument register of a vendor charging function
  (\<open>k100pm_ichg_entry\<close> to \<open>k100pm_thermal_entry\<close> of src/src/K100PM_CHG_RUNTIME.c), as the
  code runs them when nothing else touches the globals meanwhile (theory Interleaving drops that
  assumption). A handler maps the probe instance, the registers and the state to a fault or to
  its return value and all three updated.
\<close>

subsection \<open>Probe instances and handlers\<close>

text \<open>
  \<open>struct kretprobe_instance\<close> of kheaders/include/linux/kprobes.h (without
  \<open>CONFIG_KRETPROBE_ON_RETHOOK\<close>, which the configuration does not set): the saved return address
  and frame pointer, and the flexible array \<open>data[]\<close>, whose \<open>data_size\<close> bytes are kept as
  64-bit words. \<open>struct k100pm_probe_ctx\<close> is two of them.
\<close>

record kretprobe_instance =
  ret_addr :: u64
  fp :: u64
  data :: "u64 list"

type_synonym handler_result = "kfault + (int \<times> kretprobe_instance \<times> pt_regs \<times> kstate)"
type_synonym kretprobe_handler_t = "kretprobe_instance \<Rightarrow> pt_regs \<Rightarrow> kstate \<Rightarrow> handler_result"

text \<open>The tail every rewriting handler ends with: a line of log when \<open>observe\<close> is set.\<close>

definition observe_info :: "string \<Rightarrow> u32 list \<Rightarrow> kstate \<Rightarrow> kstate" where
  "observe_info fmt args st = (if observe (glob st) then pr_info fmt args st else st)"

lemma observe_info_frame [frame_simps, simp]:
  "glob (observe_info f a st) = glob st" "kmem (observe_info f a st) = kmem st"
  by (simp_all add: observe_info_def)

subsection \<open>The handlers\<close>

definition k100pm_ichg_entry :: kretprobe_handler_t where
  "k100pm_ichg_entry instance r st =
     (let old = (ucast (regs r ! 1) :: u32)
      in if \<not> boost (glob st) then Inr (0, instance, r, st)
         else let value = k100pm_map_ichg (glob st) old
           in if value = old then Inr (0, instance, r, st)
              else let r = set_reg 1 (ucast value) r;
                       st = k100pm_count Ichg_hits st;
                       st = observe_info ''ichg %u -> %u mA'' [old, value] st
                in Inr (0, instance, r, st))"

definition k100pm_cv_entry :: kretprobe_handler_t where
  "k100pm_cv_entry instance r st =
     (let old = (ucast (regs r ! 1) :: u32)
      in if \<not> boost (glob st) then Inr (0, instance, r, st)
         else let value = k100pm_map_cv (glob st) old
           in if value = old then Inr (0, instance, r, st)
              else let r = set_reg 1 (ucast value) r;
                       st = k100pm_count Cv_hits st;
                       st = observe_info ''cv %u -> %u mV'' [old, value] st
                in Inr (0, instance, r, st))"

definition k100pm_fast_curve_entry :: kretprobe_handler_t where
  "k100pm_fast_curve_entry instance r st =
     (let old = (ucast (regs r ! 2) :: u32);
          value = old;
          value = (if boost (glob st) then k100pm_map_fast_curve (glob st) value else value);
          value = (if pps (glob st) then k100pm_map_pps (glob st) value else value)
      in if value = old then Inr (0, instance, r, st)
         else let r = set_reg 2 (ucast value) r;
                  st = (if pps (glob st) \<and> k100pm_map_pps (glob st) old \<noteq> old
                        then k100pm_count Pps_hits st else k100pm_count Curve_hits st);
                  st = observe_info ''fast curve %u -> %u mA'' [old, value] st
           in Inr (0, instance, r, st))"

definition k100pm_div_single_entry :: kretprobe_handler_t where
  "k100pm_div_single_entry instance r st =
     (let old = (ucast (regs r ! 2) :: u32);
          value = old
      in if k100pm_temperature_band (glob st) = 2 then Inr (0, instance, r, st)
         else let value = (if boost (glob st)
                           then if value = 4500 then 5000
                                else if value = 11000 then 12000
                                else if value = 18400 then 20500
                                else value
                           else if pps (glob st) then k100pm_map_pps (glob st) value
                           else value);
                  value = (if boost (glob st) \<or> pps (glob st)
                           then k100pm_apply_temperature_current (glob st) value else value)
           in if value = old then Inr (0, instance, r, st)
              else let r = set_reg 2 (ucast value) r;
                       st = (if boost (glob st) then k100pm_count Curve_hits st
                             else k100pm_count Pps_hits st);
                       st = observe_info ''CP single %u -> %u mA'' [old, value] st
                in Inr (0, instance, r, st))"

definition k100pm_div_multi_entry :: kretprobe_handler_t where
  "k100pm_div_multi_entry instance r st =
     (let old = (ucast (regs r ! 2) :: u32);
          value = old
      in if k100pm_temperature_band (glob st) = 2 then Inr (0, instance, r, st)
         else let value = (if boost (glob st)
                           then if value = 4500 then 5000
                                else if value = 11000 then 12000
                                else if value = 18400 then 22000
                                else value
                           else if pps (glob st) then k100pm_map_pps (glob st) value
                           else value);
                  value = (if boost (glob st) \<or> pps (glob st)
                           then k100pm_apply_temperature_current (glob st) value else value)
           in if value = old then Inr (0, instance, r, st)
              else let r = set_reg 2 (ucast value) r;
                       st = (if boost (glob st) then k100pm_count Curve_hits st
                             else k100pm_count Pps_hits st);
                       st = observe_info ''CP multi %u -> %u mA'' [old, value] st
                in Inr (0, instance, r, st))"

definition k100pm_curr_max_entry :: kretprobe_handler_t where
  "k100pm_curr_max_entry instance r st =
     (let old = (ucast (regs r ! 2) :: u32);
          value = old
      in if k100pm_temperature_band (glob st) = 2 then Inr (0, instance, r, st)
         else let value = (if boost (glob st) \<and> value = 17500 then 19400
                           else if pps (glob st) then k100pm_map_pps (glob st) value
                           else value);
                  value = (if boost (glob st) \<or> pps (glob st)
                           then k100pm_apply_temperature_current (glob st) value else value)
           in if value = old then Inr (0, instance, r, st)
              else let r = set_reg 2 (ucast value) r;
                       st = (if boost (glob st) then k100pm_count Curve_hits st
                             else k100pm_count Pps_hits st);
                       st = observe_info ''current cap %u -> %u mA'' [old, value] st
                in Inr (0, instance, r, st))"

definition k100pm_thermal_entry :: kretprobe_handler_t where
  "k100pm_thermal_entry instance r st =
     (let old = (ucast (regs r ! 2) :: u32)
      in if \<not> thermal (glob st) then Inr (0, instance, r, st)
         else let value = k100pm_map_thermal (glob st) old
           in if value = old then Inr (0, instance, r, st)
              else let r = set_reg 2 (ucast value) r;
                       st = k100pm_count Thermal_hits st;
                       st = observe_info ''thermal %u -> %u mA'' [old, value] st
                in Inr (0, instance, r, st))"

lemmas voter_entry_defs [hook_defs] = k100pm_ichg_entry_def k100pm_cv_entry_def
  k100pm_fast_curve_entry_def k100pm_div_single_entry_def k100pm_div_multi_entry_def
  k100pm_curr_max_entry_def k100pm_thermal_entry_def

end
