(* ===== verification/Voter_Contract.thy ===== *)
theory Voter_Contract
  imports Voter_Hooks
begin

text \<open>
  What the rewriting hooks promise. \<open>voter_spec\<close> is the abstract hook: one argument register,
  a remapping of its low 32 bits, one counter. The locale \<open>voter_hook\<close> derives once what a
  caller may rely on; each entry handler is an interpretation of it, with its own remapping.
\<close>

subsection \<open>The abstract hook\<close>

definition voter_spec ::
  "nat \<Rightarrow> (k100pm \<Rightarrow> u32 \<Rightarrow> u32) \<Rightarrow> (k100pm \<Rightarrow> u32 \<Rightarrow> counter) \<Rightarrow> string \<Rightarrow> kretprobe_handler_t" where
  "voter_spec slot remap ctr fmt inst r st =
     (let old = ucast (regs r ! slot); value = remap (glob st) old
      in if value = old then Inr (0, inst, r, st)
         else Inr (0, inst, set_reg slot (ucast value) r,
                   observe_info fmt [old, value] (k100pm_count (ctr (glob st) old) st)))"

text \<open>The value a caller of the hooked function finds in the register afterwards.\<close>

definition arg_after :: "handler_result \<Rightarrow> nat \<Rightarrow> u64 option" where
  "arg_after res slot = (case res of Inl _ \<Rightarrow> None | Inr (_, _, r, _) \<Rightarrow> Some (regs r ! slot))"

definition total_hits :: "k100pm \<Rightarrow> u32" where
  "total_hits g = ichg_hits g + cv_hits g + curve_hits g + pps_hits g + thermal_hits g +
     temperature_hits g + cutoff_hits g"

lemma total_hits_count: "total_hits (glob (k100pm_count c st)) = total_hits (glob st) + 1"
  by (cases c) (simp_all add: total_hits_def k100pm_count_def)

locale voter_hook =
  fixes entry :: kretprobe_handler_t
    and slot :: nat
    and remap :: "k100pm \<Rightarrow> u32 \<Rightarrow> u32"
    and ctr :: "k100pm \<Rightarrow> u32 \<Rightarrow> counter"
    and fmt :: string
  assumes refines: "entry inst r st = voter_spec slot remap ctr fmt inst r st"
    and slot_arg: "slot < 31"
    and remap_stop: "k100pm_temperature_band g = 2 \<Longrightarrow> remap g v = v"
begin

lemma never_faults: "\<exists>r' st'. entry inst r st = Inr (0, inst, r', st')"
  by (simp add: refines voter_spec_def Let_def)

lemma result_cases:
  obtains (kept) "remap (glob st) (ucast (regs r ! slot)) = ucast (regs r ! slot)"
      "entry inst r st = Inr (0, inst, r, st)"
  | (rewritten) v where "v = remap (glob st) (ucast (regs r ! slot))" "v \<noteq> ucast (regs r ! slot)"
      "entry inst r st = Inr (0, inst, set_reg slot (ucast v) r,
         observe_info fmt [ucast (regs r ! slot), v]
           (k100pm_count (ctr (glob st) (ucast (regs r ! slot))) st))"
  by (cases "remap (glob st) (ucast (regs r ! slot)) = ucast (regs r ! slot)")
    (simp_all add: refines voter_spec_def Let_def)

lemma register_frame:
  assumes "entry inst r st = Inr (c, i, r', st')"
  shows "j \<noteq> slot \<Longrightarrow> regs r' ! j = regs r ! j"
    and "reg_sp r' = reg_sp r" "reg_pc r' = reg_pc r" "pstate r' = pstate r"
    and "i = inst" "c = 0"
  using assms by (cases rule: result_cases [of st r inst]; auto)+

lemma low_word:
  assumes "wf_regs r" and "entry inst r st = Inr (c, i, r', st')"
  shows "ucast (regs r' ! slot) = remap (glob st) (ucast (regs r ! slot))"
  using assms slot_arg by (cases rule: result_cases [of st r inst]) (auto simp: wf_regs_def)

lemma arg_value:
  assumes "wf_regs r"
  shows "arg_after (entry inst r st) slot =
    Some (let v = remap (glob st) (ucast (regs r ! slot))
          in if v = ucast (regs r ! slot) then regs r ! slot else ucast v)"
  using assms slot_arg
  by (simp add: refines voter_spec_def arg_after_def Let_def wf_regs_def)

lemma state_frame:
  assumes "entry inst r st = Inr (c, i, r', st')"
  shows "kmem st' = kmem st" "same_config (glob st) (glob st')"
    "raw_fg_temperature (glob st') = raw_fg_temperature (glob st)"
  using assms by (cases rule: result_cases [of st r inst]; force)+

lemma count_once:
  assumes "entry inst r st = Inr (c, i, r', st')"
  shows "total_hits (glob st') =
    total_hits (glob st) + (if remap (glob st) (ucast (regs r ! slot)) = ucast (regs r ! slot) then 0 else 1)"
  using assms by (cases rule: result_cases [of st r inst]) (auto simp: total_hits_count)

lemma stop_band_inert:
  "580 \<le> raw_fg_temperature (glob st) \<Longrightarrow> entry inst r st = Inr (0, inst, r, st)"
  by (simp add: refines voter_spec_def band_2_iff [symmetric] remap_stop)

end

subsection \<open>The remappings of the hooks\<close>

definition fast_curve_remap :: "bool \<Rightarrow> bool \<Rightarrow> k100pm \<Rightarrow> u32 \<Rightarrow> u32" where
  "fast_curve_remap b p g v =
     (let v = (if b then k100pm_map_fast_curve g v else v) in if p then k100pm_map_pps g v else v)"

text \<open>The two charge-pump hooks differ in the target of the \<open>18400\<close> mA step.\<close>

definition div_remap :: "u32 \<Rightarrow> bool \<Rightarrow> bool \<Rightarrow> k100pm \<Rightarrow> u32 \<Rightarrow> u32" where
  "div_remap high b p g v =
     (if k100pm_temperature_band g = 2 then v
      else let w = (if b then (if v = 4500 then 5000 else if v = 11000 then 12000
                               else if v = 18400 then high else v)
                    else if p then k100pm_map_pps g v else v)
        in if b \<or> p then k100pm_apply_temperature_current g w else w)"

definition curr_max_remap :: "bool \<Rightarrow> bool \<Rightarrow> k100pm \<Rightarrow> u32 \<Rightarrow> u32" where
  "curr_max_remap b p g v =
     (if k100pm_temperature_band g = 2 then v
      else let w = (if b \<and> v = 17500 then 19400 else if p then k100pm_map_pps g v else v)
        in if b \<or> p then k100pm_apply_temperature_current g w else w)"

definition gated :: "(k100pm \<Rightarrow> u32 \<Rightarrow> u32) \<Rightarrow> bool \<Rightarrow> k100pm \<Rightarrow> u32 \<Rightarrow> u32" where
  "gated f b g v = (if b then f g v else v)"

lemmas remap_defs = fast_curve_remap_def div_remap_def curr_max_remap_def gated_def

text \<open>With the switches fixed, every remapping is itself a map of the contract.\<close>

definition switched_labels :: "bool \<Rightarrow> u32 list" where
  "switched_labels b = (if b then hot_current_labels else [])"

lemma bump_recovery:
  assumes "k100pm_temperature_band g = 1" and "high \<in> set hot_current_labels"
  shows "k100pm_apply_temperature_current g
      (if v = 4500 then 5000 else if v = 11000 then 12000 else if v = 18400 then high else v) =
    k100pm_apply_temperature_current g v"
  using assms by (auto simp: apply_current_hot_labels)

lemma div_remap_hot:
  assumes "k100pm_temperature_band g = 1" and "high \<in> set hot_current_labels"
  shows "div_remap high b p g v = (if v \<in> set (switched_labels (b \<or> p)) then 4140 else v)"
  using assms bump_recovery [OF assms, of v]
  by (auto simp: div_remap_def map_pps_hot apply_current_hot_labels switched_labels_def Let_def)

definition cool_div :: "u32 \<Rightarrow> bool \<Rightarrow> bool \<Rightarrow> u32 \<Rightarrow> u32" where
  "cool_div high b p v =
     (if b then (if v = 4500 then 5000 else if v = 11000 then 12000
                 else if v = 18400 then high else v)
      else if p then cool_pps v else v)"

lemma div_remap_cool:
  "k100pm_temperature_band g \<noteq> 1 \<Longrightarrow> k100pm_temperature_band g \<noteq> 2 \<Longrightarrow>
   div_remap high b p g v = cool_div high b p v"
  by (simp add: div_remap_def cool_div_def map_pps_cool apply_current_not_hot Let_def)

lemma div_remap_current_map:
  assumes "high \<in> {20500, 22000}"
  shows "current_map (div_remap high b p) high"
proof (rule current_mapI [where t = "cool_div high b p" and ls = "switched_labels (b \<or> p)"])
  show "div_remap high b p g v = v" if "k100pm_temperature_band g = 2" for g v
    using that by (simp add: div_remap_def)
  show "div_remap high b p g v = (if v \<in> set (switched_labels (b \<or> p)) then 4140 else v)"
    if "k100pm_temperature_band g = 1" for g v
    using that assms by (intro div_remap_hot) auto
qed (use assms in \<open>auto simp: div_remap_cool cool_div_def cool_pps_def switched_labels_def
    split: if_splits\<close>)

interpretation div_single_remap: current_map "div_remap 20500 b p" 20500 for b p
  by (rule div_remap_current_map) simp

interpretation div_multi_remap: current_map "div_remap 22000 b p" 22000 for b p
  by (rule div_remap_current_map) simp

lemma fast_curve_remap_hot:
  "k100pm_temperature_band g = 1 \<Longrightarrow>
   fast_curve_remap b p g v = (if v \<in> set (switched_labels (b \<or> p)) then 4140 else v)"
  by (auto simp: fast_curve_remap_def map_pps_hot map_fast_curve_hot switched_labels_def Let_def
      apply_current_hot_labels)

lemma fast_curve_remap_cool:
  "k100pm_temperature_band g \<noteq> 1 \<Longrightarrow> k100pm_temperature_band g \<noteq> 2 \<Longrightarrow>
   fast_curve_remap b p g v =
     (let w = (if b then cool_fast_curve v else v) in if p then cool_pps w else w)"
  by (simp add: fast_curve_remap_def map_pps_cool map_fast_curve_cool)

interpretation fast_curve_remap: current_map "fast_curve_remap b p" 19400 for b p
proof (rule current_mapI [where ls = "switched_labels (b \<or> p)"
      and t = "\<lambda>v. let w = (if b then cool_fast_curve v else v) in if p then cool_pps w else w"])
  show "fast_curve_remap b p g v = v" if "k100pm_temperature_band g = 2" for g v
    using that by (simp add: fast_curve_remap_def fast_curve_map.stop pps_map.stop)
  show "fast_curve_remap b p g v = (if v \<in> set (switched_labels (b \<or> p)) then 4140 else v)"
    if "k100pm_temperature_band g = 1" for g v
    using that by (rule fast_curve_remap_hot)
qed (auto simp: fast_curve_remap_cool cool_fast_curve_def cool_pps_def switched_labels_def Let_def
    split: if_splits)

lemma curr_max_remap_hot:
  "k100pm_temperature_band g = 1 \<Longrightarrow>
   curr_max_remap b p g v = (if v \<in> set (switched_labels (b \<or> p)) then 4140 else v)"
  by (auto simp: curr_max_remap_def map_pps_hot switched_labels_def Let_def
      apply_current_hot_labels)

lemma curr_max_remap_cool:
  "k100pm_temperature_band g \<noteq> 1 \<Longrightarrow> k100pm_temperature_band g \<noteq> 2 \<Longrightarrow>
   curr_max_remap b p g v =
     (if b \<and> v = 17500 then 19400 else if p then cool_pps v else v)"
  by (simp add: curr_max_remap_def map_pps_cool apply_current_not_hot Let_def)

interpretation curr_max_remap: current_map "curr_max_remap b p" 19400 for b p
proof (rule current_mapI [where ls = "switched_labels (b \<or> p)"
      and t = "\<lambda>v. if b \<and> v = 17500 then 19400 else if p then cool_pps v else v"])
  show "curr_max_remap b p g v = v" if "k100pm_temperature_band g = 2" for g v
    using that by (simp add: curr_max_remap_def)
  show "curr_max_remap b p g v = (if v \<in> set (switched_labels (b \<or> p)) then 4140 else v)"
    if "k100pm_temperature_band g = 1" for g v
    using that by (rule curr_max_remap_hot)
qed (auto simp: curr_max_remap_cool cool_pps_def switched_labels_def split: if_splits)

subsection \<open>Every entry handler is such a hook\<close>

interpretation ichg_hook: voter_hook k100pm_ichg_entry 1 "\<lambda>g. gated k100pm_map_ichg (boost g) g"
  "\<lambda>_ _. Ichg_hits" "''ichg %u -> %u mA''"
  by unfold_locales
    (auto simp: k100pm_ichg_entry_def voter_spec_def gated_def Let_def ichg_map.stop)

interpretation cv_hook: voter_hook k100pm_cv_entry 1 "\<lambda>g. gated k100pm_map_cv (boost g) g"
  "\<lambda>_ _. Cv_hits" "''cv %u -> %u mV''"
  by unfold_locales
    (auto simp: k100pm_cv_entry_def voter_spec_def gated_def Let_def cv_map.stop)

interpretation thermal_hook: voter_hook k100pm_thermal_entry 2
  "\<lambda>g. gated k100pm_map_thermal (thermal g) g" "\<lambda>_ _. Thermal_hits" "''thermal %u -> %u mA''"
  by unfold_locales
    (auto simp: k100pm_thermal_entry_def voter_spec_def gated_def Let_def thermal_map.stop)

interpretation fast_curve_hook: voter_hook k100pm_fast_curve_entry 2
  "\<lambda>g. fast_curve_remap (boost g) (pps g) g"
  "\<lambda>g old. if pps g \<and> k100pm_map_pps g old \<noteq> old then Pps_hits else Curve_hits"
  "''fast curve %u -> %u mA''"
  by unfold_locales
    (simp_all add: k100pm_fast_curve_entry_def voter_spec_def fast_curve_remap_def Let_def
      fast_curve_map.stop pps_map.stop)

interpretation div_single_hook: voter_hook k100pm_div_single_entry 2
  "\<lambda>g. div_remap 20500 (boost g) (pps g) g"
  "\<lambda>g _. if boost g then Curve_hits else Pps_hits" "''CP single %u -> %u mA''"
  by unfold_locales
    (simp_all add: k100pm_div_single_entry_def voter_spec_def div_remap_def Let_def)

interpretation div_multi_hook: voter_hook k100pm_div_multi_entry 2
  "\<lambda>g. div_remap 22000 (boost g) (pps g) g"
  "\<lambda>g _. if boost g then Curve_hits else Pps_hits" "''CP multi %u -> %u mA''"
  by unfold_locales
    (simp_all add: k100pm_div_multi_entry_def voter_spec_def div_remap_def Let_def)

interpretation curr_max_hook: voter_hook k100pm_curr_max_entry 2
  "\<lambda>g. curr_max_remap (boost g) (pps g) g"
  "\<lambda>g _. if boost g then Curve_hits else Pps_hits" "''current cap %u -> %u mA''"
  by unfold_locales
    (simp_all add: k100pm_curr_max_entry_def voter_spec_def curr_max_remap_def Let_def)

end
