(* ===== verification/Voter_Tables.thy ===== *)
theory Voter_Tables
  imports Voter_Contract
begin

text \<open>
  The reference the rewriting hooks of src/src/K100PM_CHG_RUNTIME.c are measured against: flat
  tables of numbers, one row per request with the value that replaces it and the counter that is
  hit. There is one table per hook, switch setting and temperature range; none of them calls a
  function of the module, and the nested maps of the handlers are flattened in them. The lemmas
  lead from the remapping of a hook to its table.
\<close>

subsection \<open>Rows\<close>

type_synonym row_table = "u32 \<rightharpoonup> u32 \<times> counter"

definition rows :: "counter \<Rightarrow> (u32 \<times> u32) list \<Rightarrow> row_table" where
  "rows ctr ps = map_of (map (\<lambda>(v, w). (v, w, ctr)) ps)"

text \<open>Below 55.0 degrees one table, from there to 58.0 another, above that nothing.\<close>

definition by_temperature :: "u32 \<Rightarrow> row_table \<Rightarrow> row_table \<Rightarrow> row_table" where
  "by_temperature t cool recovery =
     (if unat t < 550 then cool else if unat t < 580 then recovery else Map.empty)"

text \<open>
  The requests the recovery band answers with 4140 mA: the multiples of 500 up to 5000 and of 1000
  up to 12000, and twenty-one single values.
\<close>

definition recovery_requests :: "u32 list" where
  "recovery_requests =
     map ((*) 500) [0, 1, 2, 3, 4, 5, 6, 7, 8, 9, 10] @ map ((*) 1000) [6, 7, 8, 9, 10, 11, 12] @
     [1200, 1445, 2107, 2400, 2958, 3880, 4315, 6904, 8630, 10356, 12400, 12945, 13500, 15000,
      17500, 17600, 18300, 18400, 19400, 20500, 22000]"

definition thermal_requests :: "u32 list" where
  "thermal_requests =
     map ((*) 500) [1, 2, 3, 4, 5, 6, 7, 8, 10] @ map ((*) 1000) [6, 7, 8, 9, 11] @ [13500]"

definition recovery_rows :: "counter \<Rightarrow> row_table" where
  "recovery_rows ctr = rows ctr (map (\<lambda>v. (v, 4140)) recovery_requests)"

subsection \<open>One table per hook\<close>

definition ichg_table :: "k100pm \<Rightarrow> row_table" where
  "ichg_table g =
     (if boost g
      then by_temperature (raw_fg_temperature g)
        (rows Ichg_hits [(3880, 19400), (4315, 19400), (12945, 14270), (17500, 19400),
           (17600, 19400), (18300, 19400), (18400, 19400)])
        (recovery_rows Ichg_hits)
      else Map.empty)"

definition cv_table :: "k100pm \<Rightarrow> row_table" where
  "cv_table g =
     (if boost g
      then by_temperature (raw_fg_temperature g)
        (rows Cv_hits [(4080, 4520), (4490, 4520), (4500, 4520), (4510, 4530), (4530, 4540)])
        (\<lambda>v. if 4080 \<le> unat v \<and> v \<noteq> 4120 then Some (4120, Cv_hits) else None)
      else Map.empty)"

definition thermal_table :: "k100pm \<Rightarrow> row_table" where
  "thermal_table g =
     (if thermal g
      then by_temperature (raw_fg_temperature g)
        (rows Thermal_hits (map (\<lambda>v. (v, 15000)) thermal_requests))
        (rows Thermal_hits (map (\<lambda>v. (v, 4140)) (0 # thermal_requests)))
      else Map.empty)"

definition pps_rows :: "counter \<Rightarrow> row_table" where
  "pps_rows ctr = rows ctr [(4500, 5000), (11000, 12000), (18400, 19400)]"

definition curve_rows :: row_table where
  "curve_rows = rows Curve_hits [(1445, 7000), (2107, 7000), (2958, 7000), (6904, 10000),
     (8630, 12000), (10356, 14000), (12400, 16000), (17600, 19400), (18300, 19400)]"

definition fast_curve_table :: "k100pm \<Rightarrow> row_table" where
  "fast_curve_table g =
     by_temperature (raw_fg_temperature g)
       ((if boost g then curve_rows else Map.empty) ++
        (if pps g then pps_rows Pps_hits else Map.empty))
       (if pps g then recovery_rows Pps_hits
        else if boost g then recovery_rows Curve_hits else Map.empty)"

text \<open>In the other hooks a hit counts for the curve whenever the boost switch is on.\<close>

definition pump_table :: "u32 \<Rightarrow> k100pm \<Rightarrow> row_table" where
  "pump_table high g =
     (if boost g
      then by_temperature (raw_fg_temperature g)
        (rows Curve_hits [(4500, 5000), (11000, 12000), (18400, high)]) (recovery_rows Curve_hits)
      else if pps g
      then by_temperature (raw_fg_temperature g) (pps_rows Pps_hits) (recovery_rows Pps_hits)
      else Map.empty)"

definition curr_max_table :: "k100pm \<Rightarrow> row_table" where
  "curr_max_table g =
     (if boost g
      then by_temperature (raw_fg_temperature g)
        (rows Curve_hits [(17500, 19400)] ++ (if pps g then pps_rows Curve_hits else Map.empty))
        (recovery_rows Curve_hits)
      else if pps g
      then by_temperature (raw_fg_temperature g) (pps_rows Pps_hits) (recovery_rows Pps_hits)
      else Map.empty)"

subsection \<open>The hook of a table\<close>

text \<open>
  A request without a row passes untouched. One with a row is replaced in the whole register, hit
  once on the row's counter and logged with both values.
\<close>

definition table_hook :: "nat \<Rightarrow> (k100pm \<Rightarrow> row_table) \<Rightarrow> string \<Rightarrow> kretprobe_handler_t" where
  "table_hook slot tab fmt inst r st =
     (case tab (glob st) (ucast (regs r ! slot)) of
        None \<Rightarrow> Inr (0, inst, r, st)
      | Some (w, ctr) \<Rightarrow> Inr (0, inst, set_reg slot (ucast w) r,
          observe_info fmt [ucast (regs r ! slot), w] (k100pm_count ctr st)))"

definition row_value :: "u32 \<Rightarrow> (u32 \<times> counter) option \<Rightarrow> u32" where
  "row_value v row = (case row of None \<Rightarrow> v | Some (w, _) \<Rightarrow> w)"

text \<open>A hook of a table is the abstract hook whose remapping looks the table up.\<close>

lemma table_hookI:
  assumes spec: "h inst r st = voter_spec slot remap ctr fmt inst r st"
    and lookup: "\<And>g v. remap g v = row_value v (tab g v)"
    and row: "\<And>g v w c. tab g v = Some (w, c) \<Longrightarrow> w \<noteq> v \<and> ctr g v = c"
  shows "h inst r st = table_hook slot tab fmt inst r st"
proof (cases "tab (glob st) (ucast (regs r ! slot))")
  case None
  then show ?thesis by (simp add: spec voter_spec_def table_hook_def lookup row_value_def)
next
  case (Some p)
  then obtain w c where p: "tab (glob st) (ucast (regs r ! slot)) = Some (w, c)" by (cases p) simp
  from row [OF p] show ?thesis
    by (simp add: spec voter_spec_def table_hook_def lookup row_value_def p)
qed

subsection \<open>Looking rows up\<close>

lemma rows_simps [simp]:
  "rows ctr [] v = None"
  "rows ctr ((k, w) # ps) v = (if v = k then Some (w, ctr) else rows ctr ps v)"
  by (auto simp: rows_def)

lemma rows_const: "rows ctr (map (\<lambda>v. (v, w)) ks) v = (if v \<in> set ks then Some (w, ctr) else None)"
  by (induction ks) auto

lemma by_temperature_simps:
  "k100pm_temperature_band g = 2 \<Longrightarrow> by_temperature (raw_fg_temperature g) a b = Map.empty"
  "k100pm_temperature_band g = 1 \<Longrightarrow> by_temperature (raw_fg_temperature g) a b = b"
  "k100pm_temperature_band g \<noteq> 1 \<Longrightarrow> k100pm_temperature_band g \<noteq> 2 \<Longrightarrow>
   by_temperature (raw_fg_temperature g) a b = a"
  by (auto simp: by_temperature_def band_1_iff band_2_iff word_le_nat_alt word_less_nat_alt)

lemma recovery_requests_labels: "set recovery_requests = set hot_current_labels"
  by (simp add: recovery_requests_def hot_current_labels_def insert_commute)

lemma thermal_requests_labels: "set thermal_requests = set thermal_labels"
  by (simp add: thermal_requests_def thermal_labels_def insert_commute)

lemma recovery_rows_simp:
  "recovery_rows ctr v = (if v \<in> set hot_current_labels then Some (4140, ctr) else None)"
  by (simp add: recovery_rows_def rows_const recovery_requests_labels)

lemmas table_simps = by_temperature_simps recovery_rows_simp pps_rows_def curve_rows_def
  row_value_def map_add_def

lemma band_cases:
  obtains (stop) "k100pm_temperature_band g = 2" | (recovery) "k100pm_temperature_band g = 1"
    | (cool) "k100pm_temperature_band g \<noteq> 1" "k100pm_temperature_band g \<noteq> 2"
  by blast

subsection \<open>The hooks of the module\<close>

lemma ichg_by_table: "k100pm_ichg_entry inst r st = table_hook 1 ichg_table ''ichg %u -> %u mA'' inst r st"
proof (rule table_hookI [OF ichg_hook.refines])
  fix g v
  show "gated k100pm_map_ichg (boost g) g v = row_value v (ichg_table g v)"
    by (cases g rule: band_cases)
      (simp_all add: gated_def ichg_table_def table_simps k100pm_map_ichg_def apply_current_hot_labels)
  show "w \<noteq> v \<and> Ichg_hits = c" if "ichg_table g v = Some (w, c)" for w c
    using that by (cases g rule: band_cases)
      (auto simp: ichg_table_def table_simps hot_current_labels_def split: if_splits)
qed

lemma cv_by_table: "k100pm_cv_entry inst r st = table_hook 1 cv_table ''cv %u -> %u mV'' inst r st"
proof (rule table_hookI [OF cv_hook.refines])
  fix g v
  show "gated k100pm_map_cv (boost g) g v = row_value v (cv_table g v)"
    by (cases g rule: band_cases)
      (auto simp: gated_def cv_table_def table_simps k100pm_map_cv_def word_le_nat_alt)
  show "w \<noteq> v \<and> Cv_hits = c" if "cv_table g v = Some (w, c)" for w c
    using that by (cases g rule: band_cases) (auto simp: cv_table_def table_simps split: if_splits)
qed

lemma thermal_by_table:
  "k100pm_thermal_entry inst r st = table_hook 2 thermal_table ''thermal %u -> %u mA'' inst r st"
proof (rule table_hookI [OF thermal_hook.refines])
  fix g v
  show "gated k100pm_map_thermal (thermal g) g v = row_value v (thermal_table g v)"
    by (cases g rule: band_cases)
      (simp_all add: gated_def thermal_table_def table_simps rows_const thermal_requests_labels
        k100pm_map_thermal_def del: list.map)
  show "w \<noteq> v \<and> Thermal_hits = c" if "thermal_table g v = Some (w, c)" for w c
    using that by (cases g rule: band_cases)
      (auto simp: thermal_table_def table_simps rows_const thermal_requests_labels thermal_labels_def
        split: if_splits simp del: list.map)
qed

lemma fast_curve_by_table:
  "k100pm_fast_curve_entry inst r st =
   table_hook 2 fast_curve_table ''fast curve %u -> %u mA'' inst r st"
proof (rule table_hookI [OF fast_curve_hook.refines])
  fix g v
  show "fast_curve_remap (boost g) (pps g) g v = row_value v (fast_curve_table g v)"
    by (cases g rule: band_cases)
      (simp_all add: fast_curve_table_def table_simps fast_curve_remap_hot fast_curve_remap_cool
        switched_labels_def cool_fast_curve_def cool_pps_def fast_curve_remap.stop)
  show "w \<noteq> v \<and> (if pps g \<and> k100pm_map_pps g v \<noteq> v then Pps_hits else Curve_hits) = c"
    if "fast_curve_table g v = Some (w, c)" for w c
    using that by (cases g rule: band_cases)
      (auto simp: fast_curve_table_def table_simps map_pps_hot map_pps_cool cool_pps_def
        apply_current_hot_labels hot_current_labels_def split: if_splits)
qed

lemma pump_value:
  assumes "high \<in> {20500, 22000}"
  shows "div_remap high (boost g) (pps g) g v = row_value v (pump_table high g v)"
proof -
  from assms have "high \<in> set hot_current_labels" by auto
  note hot = div_remap_hot [OF _ this]
  show ?thesis
    by (cases g rule: band_cases)
      (simp_all add: pump_table_def table_simps hot div_remap_cool switched_labels_def cool_div_def
        cool_pps_def, simp add: div_remap_def)
qed

lemma pump_row:
  assumes "high \<in> {20500, 22000}" and "pump_table high g v = Some (w, c)"
  shows "w \<noteq> v \<and> (if boost g then Curve_hits else Pps_hits) = c"
  using assms by (cases g rule: band_cases)
    (auto simp: pump_table_def table_simps hot_current_labels_def split: if_splits)

lemma pumps_by_table:
  "k100pm_div_single_entry inst r st = table_hook 2 (pump_table 20500) ''CP single %u -> %u mA'' inst r st"
  "k100pm_div_multi_entry inst r st = table_hook 2 (pump_table 22000) ''CP multi %u -> %u mA'' inst r st"
  by (rule table_hookI [OF div_single_hook.refines] table_hookI [OF div_multi_hook.refines];
      rule pump_value pump_row; simp)+

lemma curr_max_by_table:
  "k100pm_curr_max_entry inst r st = table_hook 2 curr_max_table ''current cap %u -> %u mA'' inst r st"
proof (rule table_hookI [OF curr_max_hook.refines])
  fix g v
  show "curr_max_remap (boost g) (pps g) g v = row_value v (curr_max_table g v)"
    by (cases g rule: band_cases)
      (simp_all add: curr_max_table_def table_simps curr_max_remap_hot curr_max_remap_cool
        switched_labels_def cool_pps_def curr_max_remap.stop)
  show "w \<noteq> v \<and> (if boost g then Curve_hits else Pps_hits) = c"
    if "curr_max_table g v = Some (w, c)" for w c
    using that by (cases g rule: band_cases)
      (auto simp: curr_max_table_def table_simps hot_current_labels_def split: if_splits)
qed

end
