(* ===== verification/Module_Params.thy ===== *)
theory Module_Params
  imports Module_State
begin

text \<open>
  The \<open>module_param\<close> declarations of src/src/K100PM_CHG_RUNTIME.c: which variable a name is
  bound to, its type and its sysfs permissions, with the compile-time permission check of
  kheaders/include/linux/kernel.h, and the settings kernelsu/profile.conf passes through
  kernelsu/service.sh. Parsing a parameter's text (\<open>param_ops_bool\<close>, \<open>param_ops_uint\<close>) is
  kernel code that is not in the repository: the model starts from the parsed value.
\<close>

datatype param_value = Vbool bool | Vuint u32

datatype param_type = Tbool | Tuint

record kernel_param =
  param_name :: string
  param_type :: param_type
  perm :: int

definition module_param :: "string \<Rightarrow> param_type \<Rightarrow> int \<Rightarrow> kernel_param" where
  "module_param n t p = \<lparr>param_name = n, param_type = t, perm = p\<rparr>"

text \<open>\<open>0600\<close> is 384 and \<open>0444\<close> is 292.\<close>

definition k100pm_params :: "kernel_param list" where
  "k100pm_params =
     [module_param ''armed'' Tbool 384, module_param ''boost'' Tbool 384,
      module_param ''pps'' Tbool 384, module_param ''thermal'' Tbool 384,
      module_param ''temperature_spoof'' Tbool 384, module_param ''cutoff'' Tbool 384,
      module_param ''observe'' Tbool 384, module_param ''temperature_ceiling'' Tuint 384,
      module_param ''cutoff_fw_mv'' Tuint 384, module_param ''cutoff_delay_mv'' Tuint 384,
      module_param ''cutoff_sw_mv'' Tuint 384, module_param ''ichg_hits'' Tuint 292,
      module_param ''cv_hits'' Tuint 292, module_param ''curve_hits'' Tuint 292,
      module_param ''pps_hits'' Tuint 292, module_param ''thermal_hits'' Tuint 292,
      module_param ''temperature_hits'' Tuint 292, module_param ''cutoff_hits'' Tuint 292,
      module_param ''raw_fg_temperature'' Tuint 292]"

text \<open>
  \<open>VERIFY_OCTAL_PERMISSIONS\<close>: every \<open>BUILD_BUG_ON_ZERO\<close> condition must be false.
\<close>

definition verify_octal_permissions :: "int \<Rightarrow> bool" where
  "verify_octal_permissions perms \<longleftrightarrow>
     \<not> perms < 0 \<and> \<not> perms > 511 \<and>
     \<not> (drop_bit 6 perms AND 4) < (drop_bit 3 perms AND 4) \<and>
     \<not> (drop_bit 3 perms AND 4) < (perms AND 4) \<and>
     \<not> (drop_bit 6 perms AND 2) < (drop_bit 3 perms AND 2) \<and>
     perms AND 2 = 0"

text \<open>The variable a parameter's name is bound to (\<open>module_param(name, ...)\<close> binds \<open>&name\<close>).\<close>

definition assign_param :: "string \<Rightarrow> param_value \<Rightarrow> k100pm \<Rightarrow> k100pm option" where
  "assign_param n v g =
     (case v of
        Vbool b \<Rightarrow>
          if n = ''armed'' then Some (g\<lparr>armed := b\<rparr>)
          else if n = ''boost'' then Some (g\<lparr>boost := b\<rparr>)
          else if n = ''pps'' then Some (g\<lparr>pps := b\<rparr>)
          else if n = ''thermal'' then Some (g\<lparr>thermal := b\<rparr>)
          else if n = ''temperature_spoof'' then Some (g\<lparr>temperature_spoof := b\<rparr>)
          else if n = ''cutoff'' then Some (g\<lparr>cutoff := b\<rparr>)
          else if n = ''observe'' then Some (g\<lparr>observe := b\<rparr>)
          else None
      | Vuint u \<Rightarrow>
          if n = ''temperature_ceiling'' then Some (g\<lparr>temperature_ceiling := u\<rparr>)
          else if n = ''cutoff_fw_mv'' then Some (g\<lparr>cutoff_fw_mv := u\<rparr>)
          else if n = ''cutoff_delay_mv'' then Some (g\<lparr>cutoff_delay_mv := u\<rparr>)
          else if n = ''cutoff_sw_mv'' then Some (g\<lparr>cutoff_sw_mv := u\<rparr>)
          else if n = ''ichg_hits'' then Some (g\<lparr>ichg_hits := u\<rparr>)
          else if n = ''cv_hits'' then Some (g\<lparr>cv_hits := u\<rparr>)
          else if n = ''curve_hits'' then Some (g\<lparr>curve_hits := u\<rparr>)
          else if n = ''pps_hits'' then Some (g\<lparr>pps_hits := u\<rparr>)
          else if n = ''thermal_hits'' then Some (g\<lparr>thermal_hits := u\<rparr>)
          else if n = ''temperature_hits'' then Some (g\<lparr>temperature_hits := u\<rparr>)
          else if n = ''cutoff_hits'' then Some (g\<lparr>cutoff_hits := u\<rparr>)
          else if n = ''raw_fg_temperature'' then Some (g\<lparr>raw_fg_temperature := u\<rparr>)
          else None)"

text \<open>
  Module load assigns any parameter it is given, whatever its permissions; a sysfs store reaches
  a parameter only when its mode has a write bit (\<open>0222\<close> is 146).
\<close>

fun load_params :: "(string \<times> param_value) list \<Rightarrow> k100pm \<Rightarrow> k100pm option" where
  "load_params [] g = Some g"
| "load_params ((n, v) # args) g =
     (case assign_param n v g of None \<Rightarrow> None | Some g' \<Rightarrow> load_params args g')"

definition perm_of :: "string \<Rightarrow> int option" where
  "perm_of n = map_option perm (find (\<lambda>p. param_name p = n) k100pm_params)"

definition sysfs_store :: "string \<Rightarrow> param_value \<Rightarrow> k100pm \<Rightarrow> k100pm option" where
  "sysfs_store n v g =
     (case perm_of n of
        None \<Rightarrow> None
      | Some p \<Rightarrow> if p AND 146 = 0 then None else assign_param n v g)"

text \<open>kernelsu/profile.conf, in the order kernelsu/service.sh passes it to \<open>insmod\<close>.\<close>

definition default_profile :: "(string \<times> param_value) list" where
  "default_profile =
     [(''armed'', Vbool True), (''boost'', Vbool True), (''pps'', Vbool True),
      (''thermal'', Vbool True), (''temperature_spoof'', Vbool True), (''cutoff'', Vbool True),
      (''observe'', Vbool False), (''temperature_ceiling'', Vuint 360),
      (''cutoff_fw_mv'', Vuint 2600), (''cutoff_delay_mv'', Vuint 2600),
      (''cutoff_sw_mv'', Vuint 2550)]"

definition default_config :: k100pm where
  "default_config = k100pm_initial\<lparr>armed := True, boost := True, pps := True, thermal := True,
     temperature_spoof := True, cutoff := True\<rparr>"

lemma load_default_profile: "load_params default_profile k100pm_initial = Some default_config"
  by (simp add: default_profile_def default_config_def k100pm_initial_def assign_param_def)

text \<open>What no store through sysfs can change: the counters and the raw temperature.\<close>

definition same_readings :: "k100pm \<Rightarrow> k100pm \<Rightarrow> bool" where
  "same_readings g h \<longleftrightarrow>
     (\<forall>c. counter_val c g = counter_val c h) \<and> raw_fg_temperature g = raw_fg_temperature h"

lemma read_only_params:
  "n \<in> {''ichg_hits'', ''cv_hits'', ''curve_hits'', ''pps_hits'', ''thermal_hits'',
     ''temperature_hits'', ''cutoff_hits'', ''raw_fg_temperature''} \<Longrightarrow> sysfs_store n v g = None"
  by (elim insertE emptyE; simp add: sysfs_store_def perm_of_def k100pm_params_def module_param_def)

lemma sysfs_store_readings: "sysfs_store n v g = Some g' \<Longrightarrow> same_readings g g'"
proof -
  assume s: "sysfs_store n v g = Some g'"
  have n: "n \<notin> {''ichg_hits'', ''cv_hits'', ''curve_hits'', ''pps_hits'', ''thermal_hits'',
     ''temperature_hits'', ''cutoff_hits'', ''raw_fg_temperature''}"
    using s read_only_params by force
  from s have a: "assign_param n v g = Some g'"
    by (auto simp: sysfs_store_def split: option.splits if_splits)
  have "counter_val c g = counter_val c g'" for c
    using a n by (cases v; cases c) (auto simp: assign_param_def split: if_splits)
  moreover have "raw_fg_temperature g = raw_fg_temperature g'"
    using a n by (cases v) (auto simp: assign_param_def split: if_splits)
  ultimately show ?thesis by (simp add: same_readings_def)
qed

end
