(* ===== verification/Charge_Claims.thy ===== *)
theory Charge_Claims
  imports Voter_Tables Module_Params
begin

text \<open>
  Properties of the value tables (theory Charge\_Maps) and of the rewriting hooks
  (theory Voter\_Contract), each with a witness at concrete settings.
\<close>

subsection \<open>Settings for the witnesses\<close>

definition at_temperature :: "u32 \<Rightarrow> k100pm" where
  "at_temperature t = default_config\<lparr>raw_fg_temperature := t\<rparr>"

definition state_at :: "u32 \<Rightarrow> kstate" where
  "state_at t = \<lparr>glob = at_temperature t, kmem = (\<lambda>_. None), klog = []\<rparr>"

definition regs_with :: "u64 \<Rightarrow> u64 \<Rightarrow> pt_regs" where
  "regs_with a b = \<lparr>regs = [0, a, b] @ replicate 28 0, reg_sp = 0, reg_pc = 0, pstate = 0,
     orig_x0 = 0, syscallno = 0, unused2 = 0, sdei_ttbr1 = 0, pmr_save = 0, stackframe = [0, 0],
     lockdep_hardirqs = 0, exit_rcu = 0\<rparr>"

definition no_data :: kretprobe_instance where
  "no_data = \<lparr>ret_addr = 0, fp = 0, data = []\<rparr>"

lemma at_temperature_simps [simp]:
  "raw_fg_temperature (at_temperature t) = t" "boost (at_temperature t)" "pps (at_temperature t)"
  "thermal (at_temperature t)" "temperature_spoof (at_temperature t)" "cutoff (at_temperature t)"
  "\<not> observe (at_temperature t)" "temperature_ceiling (at_temperature t) = 360"
  by (simp_all add: at_temperature_def default_config_def k100pm_initial_def)

lemma state_at_simps [simp]: "glob (state_at t) = at_temperature t" "kmem (state_at t) = (\<lambda>_. None)"
  by (simp_all add: state_at_def)

lemma regs_with_simps [simp]:
  "regs (regs_with a b) ! 0 = 0" "regs (regs_with a b) ! Suc 0 = a" "regs (regs_with a b) ! 2 = b"
  "wf_regs (regs_with a b)" "length (regs (regs_with a b)) = 31"
  by (simp_all add: regs_with_def wf_regs_def)

subsection \<open>The tables\<close>

text \<open>
  At a raw FG temperature of 58.0 degrees or more every table is the identity, so the
  vendor's values reach the charger unchanged; a raw temperature below zero is read unsigned,
  lands in the same band and is left alone as well.
\<close>

theorem stop_band_identity:
  assumes "580 \<le> raw_fg_temperature g \<or> sint (raw_fg_temperature g) < 0"
  shows "k100pm_temperature_band g = 2 \<and> k100pm_map_ichg g v = v \<and> k100pm_map_cv g v = v \<and>
    k100pm_map_fast_curve g v = v \<and> k100pm_map_pps g v = v \<and> k100pm_map_thermal g v = v \<and>
    k100pm_apply_temperature_current g v = v"
proof -
  have "k100pm_temperature_band g = 2"
    using assms negative_is_huge by (auto simp: band_2_iff)
  then show ?thesis
    by (simp add: ichg_map.stop cv_map.stop fast_curve_map.stop pps_map.stop thermal_map.stop
        recovery_map.stop)
qed

theorem stop_band_identity_witness:
  "k100pm_map_ichg (at_temperature 600) 18300 = 18300 \<and>
   k100pm_map_cv (at_temperature (- 50)) 4530 = 4530"
  using stop_band_identity [of "at_temperature 600" 18300]
    stop_band_identity [of "at_temperature (- 50)" 4530] by simp

text \<open>
  Below 55.0 degrees no table lowers a request, and none raises one above 19400 mA
  (15000 mA for the thermal table) or a voltage above 4540 mV.
\<close>

theorem cool_bands_raise_within_limits:
  assumes "raw_fg_temperature g < 550"
  shows "v \<le> k100pm_map_ichg g v \<and> k100pm_map_ichg g v \<le> max v 19400 \<and>
    v \<le> k100pm_map_fast_curve g v \<and> k100pm_map_fast_curve g v \<le> max v 19400 \<and>
    v \<le> k100pm_map_pps g v \<and> k100pm_map_pps g v \<le> max v 19400 \<and>
    v \<le> k100pm_map_thermal g v \<and> k100pm_map_thermal g v \<le> max v 15000 \<and>
    v \<le> k100pm_map_cv g v \<and> k100pm_map_cv g v \<le> max v 4540"
proof -
  have "k100pm_temperature_band g \<noteq> 1"
    using assms by (auto simp: band_1_iff)
  then show ?thesis
    by (simp add: ichg_map.cool_raises ichg_map.le_max fast_curve_map.cool_raises
        fast_curve_map.le_max pps_map.cool_raises pps_map.le_max thermal_map.cool_raises
        thermal_map.le_max cv_map.cool_raises cv_map.le_max)
qed

theorem cool_bands_raise_within_limits_witness:
  "12945 \<le> k100pm_map_ichg (at_temperature 300) 12945 \<and>
   k100pm_map_cv (at_temperature 300) 4510 \<le> max 4510 4540"
  using cool_bands_raise_within_limits [of "at_temperature 300" 12945]
    cool_bands_raise_within_limits [of "at_temperature 300" 4510] by simp

text \<open>
  From 55.0 to 58.0 degrees a current is kept or becomes 4140 mA, and it becomes 4140 mA
  whenever the table would rewrite it at another temperature; a request for no current becomes
  4140 mA too. A voltage of 4080 mV or more becomes 4120 mV, a lower one is kept.
\<close>

theorem recovery_band:
  assumes "550 \<le> raw_fg_temperature g" "raw_fg_temperature g < 580"
    and "f \<in> {k100pm_map_ichg, k100pm_map_fast_curve, k100pm_map_pps, k100pm_map_thermal}"
  shows "(f g v = v \<or> f g v = 4140) \<and> (f h v = v \<or> f g v = 4140) \<and> f g 0 = 4140 \<and>
    k100pm_map_cv g v = (if v < 4080 then v else 4120)"
proof -
  have hot: "k100pm_temperature_band g = 1"
    using assms(1,2) by (simp add: band_1_iff)
  have "f g v = v \<or> f g v = 4140"
    using assms(3) ichg_map.hot [OF hot, of v] fast_curve_map.hot [OF hot, of v]
      pps_map.hot [OF hot, of v] thermal_map.hot [OF hot, of v] by auto
  moreover have "f h v = v \<or> f g v = 4140"
    using assms(3) ichg_map.hot_covers [OF _ hot, of h v] fast_curve_map.hot_covers [OF _ hot, of h v]
      pps_map.hot_covers [OF _ hot, of h v] thermal_map.hot_covers [OF _ hot, of h v] by auto
  moreover have "f g 0 = 4140"
    using assms(3) hot
    by (auto simp: k100pm_map_ichg_def k100pm_map_fast_curve_def k100pm_map_pps_def
        k100pm_map_thermal_def k100pm_apply_temperature_current_def hot_current_labels_def)
  moreover have "k100pm_map_cv g v = (if v < 4080 then v else 4120)"
    using hot by (auto simp: k100pm_map_cv_def not_le Let_def)
  ultimately show ?thesis by blast
qed

theorem recovery_band_witness:
  "k100pm_map_ichg (at_temperature 560) 18300 = 4140 \<and> k100pm_map_ichg (at_temperature 560) 0 = 4140"
  using recovery_band [of "at_temperature 560" k100pm_map_ichg 18300 "at_temperature 300"]
  by (simp add: k100pm_map_ichg_def k100pm_temperature_band_def)

text \<open>
  Every current table is idempotent at every temperature, so a request that already passed
  a hook is not changed by a second pass. The voltage table is not: below 55.0 degrees 4510 mV
  becomes 4530 mV, and 4530 mV becomes 4540 mV.
\<close>

theorem current_tables_idempotent:
  "k100pm_map_ichg g (k100pm_map_ichg g v) = k100pm_map_ichg g v \<and>
   k100pm_map_fast_curve g (k100pm_map_fast_curve g v) = k100pm_map_fast_curve g v \<and>
   k100pm_map_pps g (k100pm_map_pps g v) = k100pm_map_pps g v \<and>
   k100pm_map_thermal g (k100pm_map_thermal g v) = k100pm_map_thermal g v \<and>
   k100pm_apply_temperature_current g (k100pm_apply_temperature_current g v) =
     k100pm_apply_temperature_current g v \<and>
   (if raw_fg_temperature g < 550
    then k100pm_map_cv g 4510 = 4530 \<and> k100pm_map_cv g (k100pm_map_cv g 4510) = 4540
    else k100pm_map_cv g (k100pm_map_cv g v) = k100pm_map_cv g v)"
proof -
  have "k100pm_map_cv g 4510 = 4530 \<and> k100pm_map_cv g (k100pm_map_cv g 4510) = 4540"
    if "raw_fg_temperature g < 550"
  proof -
    from that have "k100pm_temperature_band g \<noteq> 1" "k100pm_temperature_band g \<noteq> 2"
      by (rule band_below_55)+
    then show ?thesis by (simp add: k100pm_map_cv_def)
  qed
  moreover have "k100pm_map_cv g (k100pm_map_cv g v) = k100pm_map_cv g v"
    if "\<not> raw_fg_temperature g < 550"
  proof (cases "k100pm_temperature_band g = 2")
    case False
    with that have "k100pm_temperature_band g = 1"
      by (auto simp: band_1_iff band_2_iff)
    then show ?thesis by (auto simp: k100pm_map_cv_def Let_def)
  qed (simp add: cv_map.stop)
  ultimately show ?thesis
    by (auto simp: ichg_map.idem fast_curve_map.idem pps_map.idem thermal_map.idem recovery_map.idem)
qed

text \<open>
  The band from 48.0 to 55.0 degrees is not distinguished from the one below by any table:
  two temperatures below 55.0 degrees give the same value for every request. In particular
  4530 mV becomes 4540 mV at 50.0 degrees.
\<close>

theorem bands_below_55_agree:
  assumes "raw_fg_temperature g < 550" "raw_fg_temperature h < 550"
  shows "k100pm_map_ichg g v = k100pm_map_ichg h v \<and> k100pm_map_cv g v = k100pm_map_cv h v \<and>
    k100pm_map_fast_curve g v = k100pm_map_fast_curve h v \<and>
    k100pm_map_pps g v = k100pm_map_pps h v \<and> k100pm_map_thermal g v = k100pm_map_thermal h v \<and>
    k100pm_map_cv g 4530 = 4540"
proof -
  have "k100pm_temperature_band g \<noteq> 1" "k100pm_temperature_band g \<noteq> 2"
    "k100pm_temperature_band h \<noteq> 1" "k100pm_temperature_band h \<noteq> 2"
    using assms by (simp_all add: band_below_55)
  then show ?thesis
    by (simp add: k100pm_map_ichg_def k100pm_map_cv_def k100pm_map_fast_curve_def
        k100pm_map_pps_def k100pm_map_thermal_def)
qed

theorem bands_below_55_agree_witness:
  "k100pm_map_cv (at_temperature 500) 4530 = k100pm_map_cv (at_temperature 300) 4530"
  using bands_below_55_agree [of "at_temperature 500" "at_temperature 300" 4530] by simp

text \<open>
  C11: The recovery list holds most of the values the other tables produce, but not all: the
  buck target 14270 mA and the fast-curve targets 14000 mA and 16000 mA pass the recovery band
  unchanged.
\<close>

theorem recovery_list_gaps:
  assumes "550 \<le> raw_fg_temperature g" "raw_fg_temperature g < 580" "raw_fg_temperature h < 550"
  shows "k100pm_map_ichg h 12945 = 14270 \<and> k100pm_apply_temperature_current g 14270 = 14270 \<and>
    k100pm_map_fast_curve h 10356 = 14000 \<and> k100pm_apply_temperature_current g 14000 = 14000 \<and>
    k100pm_map_fast_curve h 12400 = 16000 \<and> k100pm_apply_temperature_current g 16000 = 16000 \<and>
    (\<forall>v \<in> {5000, 7000, 10000, 12000, 15000, 19400, 20500, 22000}.
       k100pm_apply_temperature_current g v = 4140)"
proof -
  have "k100pm_temperature_band g = 1"
    using assms(1,2) by (simp add: band_1_iff)
  moreover note band_below_55 [OF assms(3)]
  ultimately show ?thesis
    by (simp add: apply_current_hot_labels k100pm_map_ichg_def k100pm_map_fast_curve_def)
qed

theorem recovery_list_gaps_witness:
  "k100pm_apply_temperature_current (at_temperature 560) 16000 = 16000"
  using recovery_list_gaps [of "at_temperature 560" "at_temperature 300"] by simp

subsection \<open>The rewriting hooks\<close>

text \<open>The entry handlers, the register each may rewrite and the highest value it may put there.\<close>

definition voter_entries :: "(kretprobe_handler_t \<times> nat \<times> u32) set" where
  "voter_entries =
     {(k100pm_ichg_entry, 1, 19400), (k100pm_cv_entry, 1, 4540),
      (k100pm_div_single_entry, 2, 20500), (k100pm_div_multi_entry, 2, 22000),
      (k100pm_curr_max_entry, 2, 19400), (k100pm_fast_curve_entry, 2, 19400),
      (k100pm_thermal_entry, 2, 15000)}"

lemma gated_top:
  "(\<And>g v. f g v = v \<or> f g v \<le> lim) \<Longrightarrow> gated f b g v = v \<or> gated f b g v \<le> lim"
  by (simp add: gated_def)

definition hook_within :: "kretprobe_handler_t \<Rightarrow> nat \<Rightarrow> u32 \<Rightarrow> bool" where
  "hook_within h slot lim \<longleftrightarrow> (\<exists>remap ctr fmt. voter_hook h slot remap ctr fmt \<and>
     (\<forall>g v. remap g v = v \<or> remap g v \<le> lim) \<and>
     (\<forall>g v. \<not> boost g \<longrightarrow> \<not> pps g \<longrightarrow> \<not> thermal g \<longrightarrow> remap g v = v))"

lemma hook_withinI:
  "voter_hook h slot remap ctr fmt \<Longrightarrow> (\<And>g v. remap g v = v \<or> remap g v \<le> lim) \<Longrightarrow>
   (\<And>g v. \<not> boost g \<Longrightarrow> \<not> pps g \<Longrightarrow> \<not> thermal g \<Longrightarrow> remap g v = v) \<Longrightarrow> hook_within h slot lim"
  unfolding hook_within_def by blast

lemma voter_entries_within: "(h, slot, lim) \<in> voter_entries \<Longrightarrow> hook_within h slot lim"
proof -
  have "hook_within k100pm_ichg_entry 1 19400"
    by (rule hook_withinI [OF ichg_hook.voter_hook_axioms])
      (auto intro!: gated_top ichg_map.lim simp: gated_def)
  moreover have "hook_within k100pm_cv_entry 1 4540"
    by (rule hook_withinI [OF cv_hook.voter_hook_axioms])
      (auto intro!: gated_top cv_map.lim simp: gated_def)
  moreover have "hook_within k100pm_thermal_entry 2 15000"
    by (rule hook_withinI [OF thermal_hook.voter_hook_axioms])
      (auto intro!: gated_top thermal_map.lim simp: gated_def)
  moreover have "hook_within k100pm_fast_curve_entry 2 19400"
    by (rule hook_withinI [OF fast_curve_hook.voter_hook_axioms fast_curve_remap.lim])
      (simp add: fast_curve_remap_def)
  moreover have "hook_within k100pm_div_single_entry 2 20500"
    by (rule hook_withinI [OF div_single_hook.voter_hook_axioms div_single_remap.lim])
      (simp add: div_remap_def)
  moreover have "hook_within k100pm_div_multi_entry 2 22000"
    by (rule hook_withinI [OF div_multi_hook.voter_hook_axioms div_multi_remap.lim])
      (simp add: div_remap_def)
  moreover have "hook_within k100pm_curr_max_entry 2 19400"
    by (rule hook_withinI [OF curr_max_hook.voter_hook_axioms curr_max_remap.lim])
      (simp add: curr_max_remap_def)
  ultimately show "(h, slot, lim) \<in> voter_entries \<Longrightarrow> hook_within h slot lim"
    unfolding voter_entries_def by blast
qed

text \<open>
  C3: Each of the seven rewriting handlers follows its flat table of requests, replacements and
  counters, chosen by the switches and the raw temperature (one table below 55.0 degrees, one from
  there to 58.0, no row from 58.0 on): a request with a row is replaced in the argument register,
  counted once on the row's counter and logged; every other request passes with nothing changed.
\<close>

theorem handlers_follow_tables:
  "k100pm_ichg_entry = table_hook 1 ichg_table ''ichg %u -> %u mA'' \<and>
   k100pm_cv_entry = table_hook 1 cv_table ''cv %u -> %u mV'' \<and>
   k100pm_thermal_entry = table_hook 2 thermal_table ''thermal %u -> %u mA'' \<and>
   k100pm_fast_curve_entry = table_hook 2 fast_curve_table ''fast curve %u -> %u mA'' \<and>
   k100pm_div_single_entry = table_hook 2 (pump_table 20500) ''CP single %u -> %u mA'' \<and>
   k100pm_div_multi_entry = table_hook 2 (pump_table 22000) ''CP multi %u -> %u mA'' \<and>
   k100pm_curr_max_entry = table_hook 2 curr_max_table ''current cap %u -> %u mA''"
  by (intro conjI ext) (rule ichg_by_table cv_by_table thermal_by_table fast_curve_by_table
    pumps_by_table curr_max_by_table)+

text \<open>
  A rewriting handler never faults and returns 0 (so the call is followed to its return); it
  changes no register but its argument register, no memory, no setting, not the raw temperature
  and not the probe instance.
\<close>

theorem voter_hooks_confined:
  assumes "(h, slot, lim) \<in> voter_entries"
  shows "\<exists>r' st'. h inst r st = Inr (0, inst, r', st') \<and> (\<forall>j. j = slot \<or> regs r' ! j = regs r ! j) \<and>
    reg_sp r' = reg_sp r \<and> reg_pc r' = reg_pc r \<and> pstate r' = pstate r \<and> kmem st' = kmem st \<and>
    same_config (glob st) (glob st') \<and>
    raw_fg_temperature (glob st') = raw_fg_temperature (glob st)"
proof -
  obtain remap ctr fmt where hook: "voter_hook h slot remap ctr fmt"
    using voter_entries_within [OF assms] by (auto simp: hook_within_def)
  obtain r' st' where res: "h inst r st = Inr (0, inst, r', st')"
    using voter_hook.never_faults [OF hook] by blast
  show ?thesis
    using res voter_hook.register_frame [OF hook res] voter_hook.state_frame [OF hook res] by blast
qed

theorem voter_hooks_confined_witness:
  "\<exists>r' st'. k100pm_ichg_entry no_data (regs_with 18300 7) (state_at 300) = Inr (0, no_data, r', st') \<and>
     regs r' ! 2 = 7"
proof -
  have "(k100pm_ichg_entry, 1, 19400) \<in> voter_entries" by (simp add: voter_entries_def)
  from voter_hooks_confined [OF this, of no_data "regs_with 18300 7" "state_at 300"]
  show ?thesis by (metis one_eq_numeral_iff regs_with_simps(3) semiring_norm(85))
qed

text \<open>
  C10: After a rewriting handler its argument register holds either all 64 bits it held before or
  a value of at most the handler's limit (19400 mA for the buck current, the fast-charge curve
  and the current cap, 20500 mA and 22000 mA for the charge pumps, 15000 mA for the thermal
  voter, 4540 mV for the voltage), zero-extended.
\<close>

theorem voter_hooks_bounded:
  assumes "(h, slot, lim) \<in> voter_entries" "wf_regs r" "h inst r st = Inr (c, i, r', st')"
  shows "regs r' ! slot = regs r ! slot \<or>
    (\<exists>v. regs r' ! slot = ucast v \<and> v \<le> lim \<and> v \<noteq> ucast (regs r ! slot))"
proof -
  obtain remap ctr fmt where hook: "voter_hook h slot remap ctr fmt"
    and lim: "\<And>g v. remap g v = v \<or> remap g v \<le> lim"
    using voter_entries_within [OF assms(1)] unfolding hook_within_def by blast
  have "slot < length (regs r)"
    using assms(2) voter_hook.slot_arg [OF hook] by (simp add: wf_regs_def)
  then show ?thesis
    using assms(3) lim [of "glob st" "ucast (regs r ! slot)"]
    by (cases rule: voter_hook.result_cases [OF hook, of st r inst]) auto
qed

theorem voter_hooks_bounded_witness:
  "arg_after (k100pm_ichg_entry no_data (regs_with 18300 0) (state_at 300)) 1 = Some 19400 \<and>
   (\<exists>r' st'. k100pm_ichg_entry no_data (regs_with 18300 0) (state_at 300) = Inr (0, no_data, r', st') \<and>
     (regs r' ! 1 = 18300 \<or> (\<exists>v :: u32. regs r' ! 1 = ucast v \<and> v \<le> 19400)))"
proof
  have m: "(k100pm_ichg_entry, 1, 19400) \<in> voter_entries" by (simp add: voter_entries_def)
  obtain r' st' where res: "k100pm_ichg_entry no_data (regs_with 18300 0) (state_at 300) =
      Inr (0, no_data, r', st')"
    using ichg_hook.never_faults by blast
  from voter_hooks_bounded [OF m regs_with_simps(4) res] res
  show "\<exists>r' st'. k100pm_ichg_entry no_data (regs_with 18300 0) (state_at 300) =
      Inr (0, no_data, r', st') \<and>
      (regs r' ! 1 = 18300 \<or> (\<exists>v :: u32. regs r' ! 1 = ucast v \<and> v \<le> 19400))"
    by auto
  show "arg_after (k100pm_ichg_entry no_data (regs_with 18300 0) (state_at 300)) 1 = Some 19400"
    by (simp add: k100pm_ichg_entry_def arg_after_def Let_def k100pm_map_ichg_def
        k100pm_temperature_band_def)
qed

text \<open>
  At 58.0 degrees or more, and with the three switches off at any temperature, every
  rewriting handler returns with registers, instance and state exactly as they were.
\<close>

theorem voter_hooks_inert:
  assumes "(h, slot, lim) \<in> voter_entries"
    and "580 \<le> raw_fg_temperature (glob st) \<or>
      \<not> boost (glob st) \<and> \<not> pps (glob st) \<and> \<not> thermal (glob st)"
  shows "h inst r st = Inr (0, inst, r, st)"
proof -
  obtain remap ctr fmt where hook: "voter_hook h slot remap ctr fmt"
    and off: "\<And>g v. \<not> boost g \<Longrightarrow> \<not> pps g \<Longrightarrow> \<not> thermal g \<Longrightarrow> remap g v = v"
    using voter_entries_within [OF assms(1)] unfolding hook_within_def by blast
  from assms(2) show ?thesis
  proof
    assume "580 \<le> raw_fg_temperature (glob st)"
    then show ?thesis by (rule voter_hook.stop_band_inert [OF hook])
  next
    assume "\<not> boost (glob st) \<and> \<not> pps (glob st) \<and> \<not> thermal (glob st)"
    then show ?thesis by (simp add: voter_hook.refines [OF hook] voter_spec_def off)
  qed
qed

theorem voter_hooks_inert_witness:
  "k100pm_div_multi_entry no_data (regs_with 0 18400) (state_at 600) =
   Inr (0, no_data, regs_with 0 18400, state_at 600)"
  by (rule voter_hooks_inert [of _ 2 22000]) (simp_all add: voter_entries_def)

text \<open>
  A rewriting handler adds exactly one to the sum of the seven counters when the low word of
  its argument register changed, and nothing otherwise.
\<close>

theorem one_hit_per_rewrite:
  assumes "(h, slot, lim) \<in> voter_entries" "wf_regs r" "h inst r st = Inr (c, i, r', st')"
  shows "total_hits (glob st') = total_hits (glob st) +
    (if (ucast (regs r' ! slot) :: u32) = ucast (regs r ! slot) then 0 else 1)"
proof -
  obtain remap ctr fmt where hook: "voter_hook h slot remap ctr fmt"
    using voter_entries_within [OF assms(1)] by (auto simp: hook_within_def)
  show ?thesis
    using voter_hook.count_once [OF hook assms(3)] voter_hook.low_word [OF hook assms(2,3)] by simp
qed

theorem one_hit_per_rewrite_witness:
  "\<exists>r' st'. k100pm_thermal_entry no_data (regs_with 0 3000) (state_at 300) = Inr (0, no_data, r', st') \<and>
     total_hits (glob st') = total_hits (at_temperature 300) +
       (if (ucast (regs r' ! 2) :: u32) = 3000 then 0 else 1)"
proof -
  have m: "(k100pm_thermal_entry, 2, 15000) \<in> voter_entries" by (simp add: voter_entries_def)
  obtain r' st' where res: "k100pm_thermal_entry no_data (regs_with 0 3000) (state_at 300) =
      Inr (0, no_data, r', st')"
    using thermal_hook.never_faults by blast
  from one_hit_per_rewrite [OF m regs_with_simps(4) res] res show ?thesis by auto
qed

end
