(* ===== verification/Fg_Hooks.thy ===== *)
theory Fg_Hooks
  imports Voter_Hooks
begin

text \<open>
  The two hooks that work on memory through a pointer saved at entry: the charging FG temperature
  (\<open>k100pm_fg_temp_entry\<close>, \<open>k100pm_fg_temp_return\<close>) and the shutdown thresholds
  (\<open>k100pm_apply_cutoff\<close> and its handlers), src/src/K100PM_CHG_RUNTIME.c.
\<close>

subsection \<open>The probe context in the instance data\<close>

text \<open>
  \<open>struct k100pm_probe_ctx\<close>: two \<open>unsigned long\<close>, 16 bytes. A handler casts
  \<open>instance->data\<close> to it, so an access past the probe's \<open>data_size\<close> is an overrun.
\<close>

datatype k100pm_probe_ctx = Arg0 | Arg1

fun ctx_index :: "k100pm_probe_ctx \<Rightarrow> nat" where
  "ctx_index Arg0 = 0"
| "ctx_index Arg1 = 1"

definition sizeof_k100pm_probe_ctx :: nat where
  "sizeof_k100pm_probe_ctx = 16"

definition ctx_write :: "k100pm_probe_ctx \<Rightarrow> u64 \<Rightarrow> kretprobe_instance \<Rightarrow> kfault + kretprobe_instance" where
  "ctx_write f v inst =
     (if ctx_index f < length (data inst) then Inr (inst\<lparr>data := (data inst)[ctx_index f := v]\<rparr>)
      else Inl (InstanceOverrun (ctx_index f)))"

definition ctx_read :: "k100pm_probe_ctx \<Rightarrow> kretprobe_instance \<Rightarrow> kfault + u64" where
  "ctx_read f inst =
     (if ctx_index f < length (data inst) then Inr (data inst ! ctx_index f)
      else Inl (InstanceOverrun (ctx_index f)))"

definition has_ctx :: "kretprobe_instance \<Rightarrow> bool" where
  "has_ctx inst \<longleftrightarrow> length (data inst) = sizeof_k100pm_probe_ctx div 8"

lemma has_ctx_length: "has_ctx inst \<longleftrightarrow> length (data inst) = 2"
  by (simp add: has_ctx_def sizeof_k100pm_probe_ctx_def)

lemma ctx_index_bound: "ctx_index f < 2"
  by (cases f) simp_all

lemma ctx_write_ok [simp]:
  "has_ctx inst \<Longrightarrow> ctx_write f v inst = Inr (inst\<lparr>data := (data inst)[ctx_index f := v]\<rparr>)"
  using ctx_index_bound [of f] by (simp add: ctx_write_def has_ctx_length)

lemma ctx_read_ok [simp]: "has_ctx inst \<Longrightarrow> ctx_read f inst = Inr (data inst ! ctx_index f)"
  using ctx_index_bound [of f] by (simp add: ctx_read_def has_ctx_length)

lemma has_ctx_update [simp]: "has_ctx (inst\<lparr>data := (data inst)[k := v]\<rparr>) = has_ctx inst"
  by (simp add: has_ctx_length)

lemma ctx_read_write: "ctx_write f v inst = Inr inst' \<Longrightarrow> ctx_read f inst' = Inr v"
  by (auto simp: ctx_write_def ctx_read_def split: if_splits)

subsection \<open>FG temperature\<close>

definition k100pm_fg_temp_entry :: kretprobe_handler_t where
  "k100pm_fg_temp_entry instance r st =
     fbind (ctx_write Arg1 (regs r ! 1) instance) (\<lambda>instance. Inr (0, instance, r, st))"

definition k100pm_fg_temp_return :: kretprobe_handler_t where
  "k100pm_fg_temp_return instance r st =
     fbind (ctx_read Arg1 instance) (\<lambda>temperature.
       let ceiling = temperature_ceiling (glob st)
       in if temperature = 0 then Inr (0, instance, r, st)
          else fbind (read_once32 (kmem st) temperature) (\<lambda>raw.
            let st = st\<lparr>glob := (glob st)\<lparr>raw_fg_temperature := raw\<rparr>\<rparr>
            in if \<not> temperature_spoof (glob st) \<or> ceiling = 0 then Inr (0, instance, r, st)
               else if sint raw \<le> sint ceiling then Inr (0, instance, r, st)
               else fbind (write_once32 (kmem st) temperature ceiling) (\<lambda>m.
                 let st = st\<lparr>kmem := m\<rparr>;
                     st = k100pm_count Temperature_hits st;
                     st = observe_info ''charging FG temperature -> %u deci-C'' [ceiling] st
                 in Inr (0, instance, r, st))))"

subsection \<open>Shutdown thresholds\<close>

definition K100PM_FG_VCUTOFF_FW_OFF :: u64 where "K100PM_FG_VCUTOFF_FW_OFF = 0xa90"
definition K100PM_FG_VCUTOFF_DELAY_OFF :: u64 where "K100PM_FG_VCUTOFF_DELAY_OFF = 0xa94"
definition K100PM_FG_VCUTOFF_SW_OFF :: u64 where "K100PM_FG_VCUTOFF_SW_OFF = 0xa98"

lemmas vcutoff_off_defs = K100PM_FG_VCUTOFF_FW_OFF_def K100PM_FG_VCUTOFF_DELAY_OFF_def
  K100PM_FG_VCUTOFF_SW_OFF_def

definition k100pm_cutoff_values_valid :: "u32 \<Rightarrow> u32 \<Rightarrow> u32 \<Rightarrow> bool" where
  "k100pm_cutoff_values_valid fw delay sw \<longleftrightarrow>
     fw \<ge> 2500 \<and> fw \<le> 3300 \<and> delay \<ge> 2500 \<and> delay \<le> 3300 \<and> sw \<ge> 2500 \<and> sw \<le> 3300"

definition k100pm_apply_cutoff :: "u64 \<Rightarrow> kstate \<Rightarrow> kfault + kstate" where
  "k100pm_apply_cutoff context st =
     (let base = context
      in if \<not> cutoff (glob st) \<or> base = 0 then Inr st
         else let fw = base + K100PM_FG_VCUTOFF_FW_OFF;
                  delay = base + K100PM_FG_VCUTOFF_DELAY_OFF;
                  sw = base + K100PM_FG_VCUTOFF_SW_OFF
           in fbind (read_once32 (kmem st) fw) (\<lambda>old_fw.
              fbind (read_once32 (kmem st) delay) (\<lambda>old_delay.
              fbind (read_once32 (kmem st) sw) (\<lambda>old_sw.
              if \<not> k100pm_cutoff_values_valid old_fw old_delay old_sw then Inr st
              else if old_fw = cutoff_fw_mv (glob st) \<and> old_delay = cutoff_delay_mv (glob st) \<and>
                      old_sw = cutoff_sw_mv (glob st) then Inr st
              else fbind (write_once32 (kmem st) fw (cutoff_fw_mv (glob st))) (\<lambda>m.
                   fbind (write_once32 m delay (cutoff_delay_mv (glob st))) (\<lambda>m.
                   fbind (write_once32 m sw (cutoff_sw_mv (glob st))) (\<lambda>m.
                   let st = st\<lparr>kmem := m\<rparr>;
                       st = k100pm_count Cutoff_hits st;
                       st = observe_info ''cutoff %u/%u/%u -> %u/%u/%u mV''
                              [old_fw, old_delay, old_sw, cutoff_fw_mv (glob st),
                               cutoff_delay_mv (glob st), cutoff_sw_mv (glob st)] st
                   in Inr st)))))))"

definition k100pm_cutoff_entry :: kretprobe_handler_t where
  "k100pm_cutoff_entry instance r st =
     fbind (ctx_write Arg0 (regs r ! 0) instance) (\<lambda>instance. Inr (0, instance, r, st))"

definition k100pm_cutoff_return :: kretprobe_handler_t where
  "k100pm_cutoff_return instance r st =
     fbind (ctx_read Arg0 instance) (\<lambda>arg0.
     fbind (k100pm_apply_cutoff arg0 st) (\<lambda>st. Inr (0, instance, r, st)))"

definition k100pm_noop_return :: kretprobe_handler_t where
  "k100pm_noop_return instance r st = Inr (0, instance, r, st)"

lemmas memory_hook_defs [hook_defs] = k100pm_fg_temp_entry_def k100pm_fg_temp_return_def
  k100pm_cutoff_entry_def k100pm_cutoff_return_def k100pm_noop_return_def

subsection \<open>The temperature a caller sees\<close>

text \<open>The clamp as a function of the configuration and the raw reading.\<close>

definition clamped_temperature :: "k100pm \<Rightarrow> u32 \<Rightarrow> u32" where
  "clamped_temperature g raw =
     (if temperature_spoof g \<and> temperature_ceiling g \<noteq> 0 \<and> sint (temperature_ceiling g) < sint raw
      then temperature_ceiling g else raw)"

definition clamp_fires :: "k100pm \<Rightarrow> u32 \<Rightarrow> bool" where
  "clamp_fires g raw \<longleftrightarrow> temperature_spoof g \<and> temperature_ceiling g \<noteq> 0 \<and>
     sint (temperature_ceiling g) < sint raw"

lemma clamped_le: "sint (clamped_temperature g raw) \<le> sint raw"
  by (simp add: clamped_temperature_def)

lemma clamped_idem: "clamped_temperature g (clamped_temperature g raw) = clamped_temperature g raw"
  by (simp add: clamped_temperature_def)

lemma fg_temp_return_null:
  "has_ctx i \<Longrightarrow> data i ! 1 = 0 \<Longrightarrow> k100pm_fg_temp_return i r st = Inr (0, i, r, st)"
  by (simp add: k100pm_fg_temp_return_def)

lemma fg_temp_return_fault:
  assumes "has_ctx i" "data i ! 1 \<noteq> 0" "\<not> mapped32 (kmem st) (data i ! 1)"
  shows "k100pm_fg_temp_return i r st = Inl (BadAddress (data i ! 1))"
  using assms by (simp add: k100pm_fg_temp_return_def read_once32_unmapped Let_def)

text \<open>The state after a return whose pointer is good.\<close>

definition fg_after :: "u64 \<Rightarrow> u32 \<Rightarrow> mem \<Rightarrow> kstate \<Rightarrow> kstate" where
  "fg_after p raw m st =
     (let st1 = st\<lparr>glob := (glob st)\<lparr>raw_fg_temperature := raw\<rparr>\<rparr>
      in if clamp_fires (glob st) raw
         then observe_info ''charging FG temperature -> %u deci-C'' [temperature_ceiling (glob st)]
                (k100pm_count Temperature_hits (st1\<lparr>kmem := m\<rparr>))
         else st1)"

lemma fg_temp_return_good:
  assumes "has_ctx i" "p = data i ! 1" "p \<noteq> 0" "read_once32 (kmem st) p = Inr raw"
  obtains m where "write_once32 (kmem st) p (temperature_ceiling (glob st)) = Inr m"
    "k100pm_fg_temp_return i r st = Inr (0, i, r, fg_after p raw m st)"
proof -
  obtain m where m: "write_once32 (kmem st) p (temperature_ceiling (glob st)) = Inr m"
    using write_once32_ok read_once32_Inr_mapped [OF assms(4)] by blast
  have "k100pm_fg_temp_return i r st = Inr (0, i, r, fg_after p raw m st)"
    using assms m
    by (simp add: k100pm_fg_temp_return_def fg_after_def clamp_fires_def Let_def)
  with m show thesis by (rule that)
qed

lemma fg_after_read:
  assumes "write_once32 (kmem st) p (temperature_ceiling (glob st)) = Inr m"
    and "read_once32 (kmem st) p = Inr raw"
  shows "read_once32 (kmem (fg_after p raw m st)) p = Inr (clamped_temperature (glob st) raw)"
  using assms read_write_same [OF assms(1)]
  by (auto simp: fg_after_def clamp_fires_def clamped_temperature_def Let_def)

lemma fg_after_frame:
  assumes "write_once32 (kmem st) p (temperature_ceiling (glob st)) = Inr m"
    and "x \<notin> {p, p + 1, p + 2, p + 3}"
  shows "kmem (fg_after p raw m st) x = kmem st x"
  using write_once32_frame [OF assms] by (simp add: fg_after_def Let_def)

lemma fg_after_glob:
  "raw_fg_temperature (glob (fg_after p raw m st)) = raw"
  "same_config (glob st) (glob (fg_after p raw m st))"
  "temperature_hits (glob (fg_after p raw m st)) =
     temperature_hits (glob st) + (if clamp_fires (glob st) raw then 1 else 0)"
  by (simp_all add: fg_after_def k100pm_count_def same_config_def Let_def)

end
