(* ===== verification/Cutoff_Spec.thy ===== *)
theory Cutoff_Spec
  imports Fg_Hooks
begin

text \<open>
  The shutdown thresholds as an abstract triple, and \<open>k100pm_apply_cutoff\<close> as a step on it.
\<close>

subsection \<open>The three threshold words of a context\<close>

definition vcutoff_at :: "mem \<Rightarrow> u64 \<Rightarrow> (u32 \<times> u32 \<times> u32) option" where
  "vcutoff_at m c =
     (case (read_once32 m (c + K100PM_FG_VCUTOFF_FW_OFF), read_once32 m (c + K100PM_FG_VCUTOFF_DELAY_OFF),
            read_once32 m (c + K100PM_FG_VCUTOFF_SW_OFF)) of
        (Inr fw, Inr delay, Inr sw) \<Rightarrow> Some (fw, delay, sw)
      | _ \<Rightarrow> None)"

lemma vcutoff_at_Some:
  "vcutoff_at m c = Some (fw, delay, sw) \<longleftrightarrow>
     read_once32 m (c + K100PM_FG_VCUTOFF_FW_OFF) = Inr fw \<and>
     read_once32 m (c + K100PM_FG_VCUTOFF_DELAY_OFF) = Inr delay \<and>
     read_once32 m (c + K100PM_FG_VCUTOFF_SW_OFF) = Inr sw"
  by (auto simp: vcutoff_at_def split: sum.splits)

definition vcutoff_bytes :: "u64 \<Rightarrow> u64 set" where
  "vcutoff_bytes c = (\<lambda>k. c + 0xa90 + k) ` {0, 1, 2, 3, 4, 5, 6, 7, 8, 9, 10, 11}"

text \<open>The three words are adjacent and do not overlap, also where the address wraps around.\<close>

lemma vcutoff_disjoint [simp]:
  "disjoint32 (c + K100PM_FG_VCUTOFF_FW_OFF) (c + K100PM_FG_VCUTOFF_DELAY_OFF)"
  "disjoint32 (c + K100PM_FG_VCUTOFF_FW_OFF) (c + K100PM_FG_VCUTOFF_SW_OFF)"
  "disjoint32 (c + K100PM_FG_VCUTOFF_DELAY_OFF) (c + K100PM_FG_VCUTOFF_SW_OFF)"
  "disjoint32 (c + K100PM_FG_VCUTOFF_DELAY_OFF) (c + K100PM_FG_VCUTOFF_FW_OFF)"
  "disjoint32 (c + K100PM_FG_VCUTOFF_SW_OFF) (c + K100PM_FG_VCUTOFF_FW_OFF)"
  "disjoint32 (c + K100PM_FG_VCUTOFF_SW_OFF) (c + K100PM_FG_VCUTOFF_DELAY_OFF)"
  by (simp_all add: disjoint32_def vcutoff_off_defs add.assoc)

lemma vcutoff_cell_bytes:
  "{c + K100PM_FG_VCUTOFF_FW_OFF, c + K100PM_FG_VCUTOFF_FW_OFF + 1, c + K100PM_FG_VCUTOFF_FW_OFF + 2,
    c + K100PM_FG_VCUTOFF_FW_OFF + 3} \<subseteq> vcutoff_bytes c"
  "{c + K100PM_FG_VCUTOFF_DELAY_OFF, c + K100PM_FG_VCUTOFF_DELAY_OFF + 1,
    c + K100PM_FG_VCUTOFF_DELAY_OFF + 2, c + K100PM_FG_VCUTOFF_DELAY_OFF + 3} \<subseteq> vcutoff_bytes c"
  "{c + K100PM_FG_VCUTOFF_SW_OFF, c + K100PM_FG_VCUTOFF_SW_OFF + 1, c + K100PM_FG_VCUTOFF_SW_OFF + 2,
    c + K100PM_FG_VCUTOFF_SW_OFF + 3} \<subseteq> vcutoff_bytes c"
  by (simp_all add: vcutoff_bytes_def vcutoff_off_defs add.assoc)

text \<open>Three word writes at a context whose words are mapped.\<close>

definition write_vcutoff :: "mem \<Rightarrow> u64 \<Rightarrow> u32 \<times> u32 \<times> u32 \<Rightarrow> kfault + mem" where
  "write_vcutoff m c t =
     (case t of (fw, delay, sw) \<Rightarrow>
        fbind (write_once32 m (c + K100PM_FG_VCUTOFF_FW_OFF) fw) (\<lambda>m.
        fbind (write_once32 m (c + K100PM_FG_VCUTOFF_DELAY_OFF) delay) (\<lambda>m.
        write_once32 m (c + K100PM_FG_VCUTOFF_SW_OFF) sw)))"

lemma write_vcutoff_ok:
  assumes "vcutoff_at m c = Some old"
  obtains m' where "write_vcutoff m c t = Inr m'"
proof -
  obtain fw delay sw where t: "t = (fw, delay, sw)" by (cases t)
  obtain a b d where old: "old = (a, b, d)" by (cases old)
  have mp: "mapped32 m (c + K100PM_FG_VCUTOFF_FW_OFF)" "mapped32 m (c + K100PM_FG_VCUTOFF_DELAY_OFF)"
    "mapped32 m (c + K100PM_FG_VCUTOFF_SW_OFF)"
    using assms by (auto simp: old vcutoff_at_Some mapped32_read)
  from write_once32_ok [OF mp(1)] obtain m1
    where 1: "write_once32 m (c + K100PM_FG_VCUTOFF_FW_OFF) fw = Inr m1" by blast
  have mp1: "mapped32 m1 (c + K100PM_FG_VCUTOFF_DELAY_OFF)" "mapped32 m1 (c + K100PM_FG_VCUTOFF_SW_OFF)"
    using mp write_once32_mapped [OF 1] by simp_all
  from write_once32_ok [OF mp1(1)] obtain m2
    where 2: "write_once32 m1 (c + K100PM_FG_VCUTOFF_DELAY_OFF) delay = Inr m2" by blast
  have "mapped32 m2 (c + K100PM_FG_VCUTOFF_SW_OFF)"
    using mp1 write_once32_mapped [OF 2] by simp
  from write_once32_ok [OF this] obtain m3
    where "write_once32 m2 (c + K100PM_FG_VCUTOFF_SW_OFF) sw = Inr m3" by blast
  with 1 2 show thesis by (intro that [of m3]) (simp add: write_vcutoff_def t)
qed

lemma write_vcutoff_read:
  assumes "write_vcutoff m c t = Inr m'"
  shows "vcutoff_at m' c = Some t"
proof -
  obtain fw delay sw where t: "t = (fw, delay, sw)" by (cases t)
  obtain m1 m2 where w: "write_once32 m (c + K100PM_FG_VCUTOFF_FW_OFF) fw = Inr m1"
    "write_once32 m1 (c + K100PM_FG_VCUTOFF_DELAY_OFF) delay = Inr m2"
    "write_once32 m2 (c + K100PM_FG_VCUTOFF_SW_OFF) sw = Inr m'"
    using assms by (auto simp: write_vcutoff_def t fbind_Inr_iff)
  show ?thesis
    using read_write_same [OF w(1)] read_write_same [OF w(2)] read_write_same [OF w(3)]
      read_write_other [OF w(2) vcutoff_disjoint(4)] read_write_other [OF w(3) vcutoff_disjoint(5)]
      read_write_other [OF w(3) vcutoff_disjoint(6)]
    by (simp add: t vcutoff_at_Some)
qed

lemma write_vcutoff_frame:
  assumes "write_vcutoff m c t = Inr m'" and "x \<notin> vcutoff_bytes c"
  shows "m' x = m x"
proof -
  obtain fw delay sw where t: "t = (fw, delay, sw)" by (cases t)
  obtain m1 m2 where w: "write_once32 m (c + K100PM_FG_VCUTOFF_FW_OFF) fw = Inr m1"
    "write_once32 m1 (c + K100PM_FG_VCUTOFF_DELAY_OFF) delay = Inr m2"
    "write_once32 m2 (c + K100PM_FG_VCUTOFF_SW_OFF) sw = Inr m'"
    using assms by (auto simp: write_vcutoff_def t fbind_Inr_iff)
  have "m' x = m2 x" "m2 x = m1 x" "m1 x = m x"
    using assms(2) vcutoff_cell_bytes [of c]
    by (intro write_once32_frame [OF w(3)] write_once32_frame [OF w(2)] write_once32_frame [OF w(1)];
        blast)+
  then show ?thesis by simp
qed

lemma write_vcutoff_dom: "write_vcutoff m c t = Inr m' \<Longrightarrow> dom m' = dom m"
  by (cases t) (simp add: write_vcutoff_def fbind_Inr_iff, metis write_once32_dom)

subsection \<open>The step on the triple\<close>

definition configured :: "k100pm \<Rightarrow> u32 \<times> u32 \<times> u32" where
  "configured g = (cutoff_fw_mv g, cutoff_delay_mv g, cutoff_sw_mv g)"

fun triple_valid :: "u32 \<times> u32 \<times> u32 \<Rightarrow> bool" where
  "triple_valid (fw, delay, sw) = k100pm_cutoff_values_valid fw delay sw"

definition cutoff_step :: "k100pm \<Rightarrow> u32 \<times> u32 \<times> u32 \<Rightarrow> u32 \<times> u32 \<times> u32" where
  "cutoff_step g old = (if cutoff g \<and> triple_valid old then configured g else old)"

lemma apply_cutoff_off: "\<not> cutoff (glob st) \<or> c = 0 \<Longrightarrow> k100pm_apply_cutoff c st = Inr st"
  by (auto simp: k100pm_apply_cutoff_def)

lemma apply_cutoff_kept:
  assumes "vcutoff_at (kmem st) c = Some old"
    and "\<not> cutoff (glob st) \<or> \<not> triple_valid old \<or> old = configured (glob st)"
  shows "k100pm_apply_cutoff c st = Inr st"
  using assms
  by (cases old) (auto simp: k100pm_apply_cutoff_def vcutoff_at_Some configured_def Let_def)

lemma apply_cutoff_rewrites:
  assumes "vcutoff_at (kmem st) c = Some old" and "cutoff (glob st)" and "c \<noteq> 0"
    and "triple_valid old" and "old \<noteq> configured (glob st)"
  obtains m msg where "write_vcutoff (kmem st) c (configured (glob st)) = Inr m"
    "k100pm_apply_cutoff c st = Inr (observe_info ''cutoff %u/%u/%u -> %u/%u/%u mV'' msg
       (k100pm_count Cutoff_hits (st\<lparr>kmem := m\<rparr>)))"
proof -
  obtain a b d where old: "old = (a, b, d)" by (cases old)
  obtain m where m: "write_vcutoff (kmem st) c (configured (glob st)) = Inr m"
    using write_vcutoff_ok [OF assms(1)] by blast
  then obtain m1 m2 where w:
    "write_once32 (kmem st) (c + K100PM_FG_VCUTOFF_FW_OFF) (cutoff_fw_mv (glob st)) = Inr m1"
    "write_once32 m1 (c + K100PM_FG_VCUTOFF_DELAY_OFF) (cutoff_delay_mv (glob st)) = Inr m2"
    "write_once32 m2 (c + K100PM_FG_VCUTOFF_SW_OFF) (cutoff_sw_mv (glob st)) = Inr m"
    by (auto simp: write_vcutoff_def configured_def fbind_Inr_iff)
  have "\<not> (a = cutoff_fw_mv (glob st) \<and> b = cutoff_delay_mv (glob st) \<and> d = cutoff_sw_mv (glob st))"
    using assms(5) by (auto simp: old configured_def)
  then have "k100pm_apply_cutoff c st = Inr (observe_info ''cutoff %u/%u/%u -> %u/%u/%u mV''
      [a, b, d, cutoff_fw_mv (glob st), cutoff_delay_mv (glob st), cutoff_sw_mv (glob st)]
      (k100pm_count Cutoff_hits (st\<lparr>kmem := m\<rparr>)))"
    using assms(1-4) w
    by (auto simp: old vcutoff_at_Some k100pm_apply_cutoff_def k100pm_count_def Let_def)
  with m show thesis by (rule that)
qed

lemma apply_cutoff_unmapped:
  assumes "vcutoff_at (kmem st) c = None" "cutoff (glob st)" "c \<noteq> 0"
  shows "\<exists>a. k100pm_apply_cutoff c st = Inl (BadAddress a)"
  using assms
  by (auto simp: k100pm_apply_cutoff_def vcutoff_at_def read_once32_unmapped Let_def
      mapped32_read [symmetric] split: sum.splits) (auto simp: read_once32_def split: option.splits)

lemma apply_cutoff_cases:
  obtains (bad) a where "k100pm_apply_cutoff c st = Inl (BadAddress a)"
  | (kept) "k100pm_apply_cutoff c st = Inr st"
  | (rewritten) m msg where "write_vcutoff (kmem st) c (configured (glob st)) = Inr m"
      "k100pm_apply_cutoff c st = Inr (observe_info ''cutoff %u/%u/%u -> %u/%u/%u mV'' msg
         (k100pm_count Cutoff_hits (st\<lparr>kmem := m\<rparr>)))"
proof (cases "cutoff (glob st) \<and> c \<noteq> 0")
  case False
  with kept show thesis using apply_cutoff_off by blast
next
  case True
  show thesis
  proof (cases "vcutoff_at (kmem st) c")
    case None
    with True bad show thesis using apply_cutoff_unmapped by blast
  next
    case (Some old)
    then show thesis
      using True kept rewritten apply_cutoff_kept [OF Some] apply_cutoff_rewrites [OF Some]
      by metis
  qed
qed

text \<open>The refinement: on the triple, the code is the step.\<close>

lemma apply_cutoff_step:
  assumes "vcutoff_at (kmem st) c = Some old" and "c \<noteq> 0"
  obtains st' where "k100pm_apply_cutoff c st = Inr st'"
    "vcutoff_at (kmem st') c = Some (cutoff_step (glob st) old)"
    "\<And>x. x \<notin> vcutoff_bytes c \<Longrightarrow> kmem st' x = kmem st x"
    "same_config (glob st) (glob st')"
    "cutoff_hits (glob st') =
       cutoff_hits (glob st) + (if cutoff_step (glob st) old = old then 0 else 1)"
proof (cases "cutoff (glob st) \<and> triple_valid old \<and> old \<noteq> configured (glob st)")
  case True
  then obtain m msg where m: "write_vcutoff (kmem st) c (configured (glob st)) = Inr m"
    and st': "k100pm_apply_cutoff c st = Inr (observe_info ''cutoff %u/%u/%u -> %u/%u/%u mV'' msg
       (k100pm_count Cutoff_hits (st\<lparr>kmem := m\<rparr>)))"
    using apply_cutoff_rewrites [OF assms(1) _ assms(2)] by metis
  from True have step: "cutoff_step (glob st) old = configured (glob st)" "configured (glob st) \<noteq> old"
    by (auto simp: cutoff_step_def)
  show thesis
    by (rule that [OF st'])
      (use step write_vcutoff_read [OF m] write_vcutoff_frame [OF m] in \<open>auto simp: k100pm_count_def same_config_def\<close>)
next
  case False
  then have "k100pm_apply_cutoff c st = Inr st" "cutoff_step (glob st) old = old"
    using apply_cutoff_kept [OF assms(1)] by (auto simp: cutoff_step_def)
  then show thesis
    by (intro that [of st]) (use assms in auto)
qed

end
