(* ===== verification/Memory_Claims.thy ===== *)
theory Memory_Claims
  imports Charge_Claims Cutoff_Spec
begin

text \<open>
  Properties of the hooks that work on memory: the FG temperature pair and the shutdown
  thresholds (theories Fg\_Hooks and Cutoff\_Spec).
\<close>

subsection \<open>Settings for the witnesses\<close>

definition word_at :: "u64 \<Rightarrow> u32 \<Rightarrow> mem \<Rightarrow> mem" where
  "word_at a v m = m(a \<mapsto> byte_of 0 v, a + 1 \<mapsto> byte_of 8 v, a + 2 \<mapsto> byte_of 16 v,
     a + 3 \<mapsto> byte_of 24 v)"

lemma read_word_at [simp]: "read_once32 (word_at a v m) a = Inr v"
  by (simp add: read_once32_def word_at_def del: le32.simps)

lemma read_word_at_other: "disjoint32 a b \<Longrightarrow> read_once32 (word_at a v m) b = read_once32 m b"
  by (auto simp: read_once32_def word_at_def disjoint32_def)

text \<open>An FG context at \<open>0x1000\<close> and a temperature cell at \<open>0x100\<close>.\<close>

definition fg_memory :: "u32 \<Rightarrow> mem" where
  "fg_memory t = word_at 0x100 t (\<lambda>_. None)"

definition cutoff_memory :: mem where
  "cutoff_memory = word_at 0x1a90 3000 (word_at 0x1a94 3000 (word_at 0x1a98 2900 (\<lambda>_. None)))"

definition fg_state :: "u32 \<Rightarrow> kstate" where
  "fg_state t = (state_at 300)\<lparr>kmem := fg_memory t\<rparr>"

definition cutoff_state :: kstate where
  "cutoff_state = (state_at 300)\<lparr>kmem := cutoff_memory\<rparr>"

definition ctx_with :: "u64 \<Rightarrow> u64 \<Rightarrow> kretprobe_instance" where
  "ctx_with a b = \<lparr>ret_addr = 0, fp = 0, data = [a, b]\<rparr>"

lemma ctx_with_simps [simp]:
  "has_ctx (ctx_with a b)" "data (ctx_with a b) = [a, b]"
  by (simp_all add: has_ctx_length ctx_with_def)

lemma fg_state_simps [simp]:
  "glob (fg_state t) = at_temperature 300" "read_once32 (kmem (fg_state t)) 0x100 = Inr t"
  by (simp_all add: fg_state_def fg_memory_def)

lemma cutoff_state_simps [simp]:
  "glob cutoff_state = at_temperature 300"
  "vcutoff_at (kmem cutoff_state) 0x1000 = Some (3000, 3000, 2900)"
  by (simp_all add: cutoff_state_def vcutoff_at_Some vcutoff_off_defs cutoff_memory_def
      read_word_at_other disjoint32_def)

lemma configured_at_temperature [simp]: "configured (at_temperature t) = (2600, 2600, 2550)"
  by (simp add: configured_def at_temperature_def default_config_def k100pm_initial_def)

subsection \<open>The FG temperature\<close>

text \<open>
  C8: Across a hooked FG getter, the return handler works through the pointer the entry handler
  took from register 1, whatever happened to memory and settings in between: it publishes the
  value it finds there as the raw temperature, replaces it by the ceiling exactly when the clamp
  is on, the ceiling is not zero and the value is above it as a signed number, counts a hit then,
  and touches no other byte.
\<close>

theorem fg_temp_pair:
  assumes "has_ctx inst" "k100pm_fg_temp_entry inst r st = Inr (c, inst1, r1, st1)"
    and "regs r ! 1 \<noteq> 0" "read_once32 (kmem st2) (regs r ! 1) = Inr raw"
  shows "c = 0 \<and> r1 = r \<and> st1 = st \<and>
    (\<exists>st3. k100pm_fg_temp_return inst1 r2 st2 = Inr (0, inst1, r2, st3) \<and>
       raw_fg_temperature (glob st3) = raw \<and>
       read_once32 (kmem st3) (regs r ! 1) = Inr (clamped_temperature (glob st2) raw) \<and>
       (\<forall>x. x \<in> {regs r ! 1, regs r ! 1 + 1, regs r ! 1 + 2, regs r ! 1 + 3} \<or> kmem st3 x = kmem st2 x) \<and>
       same_config (glob st2) (glob st3) \<and>
       temperature_hits (glob st3) =
         temperature_hits (glob st2) + (if clamp_fires (glob st2) raw then 1 else 0))"
proof -
  have entry: "c = 0" "r1 = r" "st1 = st" "inst1 = inst\<lparr>data := (data inst)[1 := regs r ! 1]\<rparr>"
    using assms(1,2) by (auto simp: k100pm_fg_temp_entry_def)
  have ctx: "has_ctx inst1" and p: "regs r ! 1 = data inst1 ! 1"
    using assms(1) by (simp_all add: entry has_ctx_length)
  obtain m where m: "write_once32 (kmem st2) (regs r ! 1) (temperature_ceiling (glob st2)) = Inr m"
    "k100pm_fg_temp_return inst1 r2 st2 = Inr (0, inst1, r2, fg_after (regs r ! 1) raw m st2)"
    by (rule fg_temp_return_good [OF ctx p assms(3,4)])
  show ?thesis
    using entry(1-3) m fg_after_read [OF m(1) assms(4)] fg_after_frame [OF m(1)] fg_after_glob
    by blast
qed

theorem fg_temp_pair_witness:
  "\<exists>st3. k100pm_fg_temp_return (ctx_with 9 0x100) (regs_with 5 5) (fg_state 400) =
       Inr (0, ctx_with 9 0x100, regs_with 5 5, st3) \<and>
     raw_fg_temperature (glob st3) = 400 \<and> read_once32 (kmem st3) 0x100 = Inr 360"
proof -
  have e: "k100pm_fg_temp_entry (ctx_with 9 9) (regs_with 0x100 0) (fg_state 1) =
      Inr (0, ctx_with 9 0x100, regs_with 0x100 0, fg_state 1)"
    by (simp add: k100pm_fg_temp_entry_def ctx_write_def ctx_with_def)
  have "clamped_temperature (at_temperature 300) 400 = 360"
    by (simp add: clamped_temperature_def)
  then show ?thesis
    using fg_temp_pair [OF _ e, of "fg_state 400" 400 "regs_with 5 5"] by auto
qed

text \<open>
  The clamp only ever lowers the temperature the charging code sees, and with a ceiling
  between 1 and 2147483647 tenths of a degree that temperature is never above the ceiling while
  the clamp is on.
\<close>

theorem fg_temp_only_lowers:
  assumes "has_ctx inst" "data inst ! 1 \<noteq> 0" "read_once32 (kmem st) (data inst ! 1) = Inr raw"
    and "k100pm_fg_temp_return inst r st = Inr (c, i, r', st')"
  shows "\<exists>t. read_once32 (kmem st') (data inst ! 1) = Inr t \<and> sint t \<le> sint raw \<and>
    (if temperature_spoof (glob st) \<and> temperature_ceiling (glob st) \<noteq> 0
     then sint t \<le> sint (temperature_ceiling (glob st)) else t = raw)"
proof -
  obtain m where m: "write_once32 (kmem st) (data inst ! 1) (temperature_ceiling (glob st)) = Inr m"
    "k100pm_fg_temp_return inst r st = Inr (0, inst, r, fg_after (data inst ! 1) raw m st)"
    by (rule fg_temp_return_good [OF assms(1) refl assms(2,3)])
  then have "st' = fg_after (data inst ! 1) raw m st" using assms(4) by simp
  then have "read_once32 (kmem st') (data inst ! 1) = Inr (clamped_temperature (glob st) raw)"
    using fg_after_read [OF m(1) assms(3)] by simp
  then show ?thesis
    by (intro exI [of _ "clamped_temperature (glob st) raw"]) (auto simp: clamped_temperature_def)
qed

theorem fg_temp_only_lowers_witness:
  "\<exists>st'. k100pm_fg_temp_return (ctx_with 0 0x100) (regs_with 0 0) (fg_state 400) =
      Inr (0, ctx_with 0 0x100, regs_with 0 0, st') \<and>
     (\<exists>t. read_once32 (kmem st') 0x100 = Inr t \<and> sint t \<le> 360)"
proof -
  obtain st' where res: "k100pm_fg_temp_return (ctx_with 0 0x100) (regs_with 0 0) (fg_state 400) =
      Inr (0, ctx_with 0 0x100, regs_with 0 0, st')"
    by (rule fg_temp_return_good [of "ctx_with 0 0x100" "0x100" "fg_state 400" 400]) simp_all
  show ?thesis using fg_temp_only_lowers [OF _ _ _ res, of 400] res by auto
qed

text \<open>
  C12: A ceiling of 2147483648 or more (\<open>temperature_ceiling\<close> is unsigned and not checked) is
  negative as an \<open>int\<close>: with the clamp on, every reading above that negative temperature,
  positive or negative, is replaced by it and counted, and every other reading is left in memory
  uncounted; in both cases the reading itself is what the module publishes.
\<close>

theorem huge_ceiling_goes_negative:
  assumes "has_ctx inst" "data inst ! 1 \<noteq> 0" "read_once32 (kmem st) (data inst ! 1) = Inr raw"
    and "temperature_spoof (glob st)" "0x80000000 \<le> temperature_ceiling (glob st)"
  shows "sint (temperature_ceiling (glob st)) < 0 \<and>
    (\<exists>st'. k100pm_fg_temp_return inst r st = Inr (0, inst, r, st') \<and>
       raw_fg_temperature (glob st') = raw \<and>
       read_once32 (kmem st') (data inst ! 1) =
         Inr (if sint (temperature_ceiling (glob st)) < sint raw
              then temperature_ceiling (glob st) else raw) \<and>
       temperature_hits (glob st') = temperature_hits (glob st) +
         (if sint (temperature_ceiling (glob st)) < sint raw then 1 else 0))"
proof -
  obtain m where m: "write_once32 (kmem st) (data inst ! 1) (temperature_ceiling (glob st)) = Inr m"
    "k100pm_fg_temp_return inst r st = Inr (0, inst, r, fg_after (data inst ! 1) raw m st)"
    by (rule fg_temp_return_good [OF assms(1) refl assms(2,3)])
  have neg: "sint (temperature_ceiling (glob st)) < 0"
    using assms(5) by (simp add: sint_neg_iff)
  then have "clamped_temperature (glob st) raw =
      (if sint (temperature_ceiling (glob st)) < sint raw then temperature_ceiling (glob st) else raw)"
    using assms(4) by (auto simp: clamped_temperature_def)
  then show ?thesis
    using m(2) neg fg_after_read [OF m(1) assms(3)] assms(4,5) fg_after_glob [where st = st]
    by (auto simp: clamp_fires_def)
qed

theorem huge_ceiling_goes_negative_witness:
  "\<exists>st'. k100pm_fg_temp_return (ctx_with 0 0x100) (regs_with 0 0)
        ((fg_state (- 10))\<lparr>glob := (at_temperature 250)\<lparr>temperature_ceiling := 0xffffff38\<rparr>\<rparr>) =
      Inr (0, ctx_with 0 0x100, regs_with 0 0, st') \<and>
     read_once32 (kmem st') 0x100 = Inr 0xffffff38 \<and> sint (0xffffff38 :: u32) = - 200"
  using huge_ceiling_goes_negative [of "ctx_with 0 0x100"
      "(fg_state (- 10))\<lparr>glob := (at_temperature 250)\<lparr>temperature_ceiling := 0xffffff38\<rparr>\<rparr>" "- 10" "regs_with 0 0"]
  by auto

text \<open>
  The clamp does not look at the band: with it on and a ceiling below 58.0 degrees, a
  reading of 58.0 degrees or more puts the module into its stop band while the charging code is
  handed the ceiling.
\<close>

theorem clamp_hides_stop_temperature:
  assumes "has_ctx inst" "data inst ! 1 \<noteq> 0" "read_once32 (kmem st) (data inst ! 1) = Inr raw"
    and "temperature_spoof (glob st)" "temperature_ceiling (glob st) \<noteq> 0"
    and "temperature_ceiling (glob st) < 580" "580 \<le> raw" "raw < 0x80000000"
  shows "\<exists>st'. k100pm_fg_temp_return inst r st = Inr (0, inst, r, st') \<and>
    k100pm_temperature_band (glob st') = 2 \<and>
    read_once32 (kmem st') (data inst ! 1) = Inr (temperature_ceiling (glob st))"
proof -
  obtain m where m: "write_once32 (kmem st) (data inst ! 1) (temperature_ceiling (glob st)) = Inr m"
    "k100pm_fg_temp_return inst r st = Inr (0, inst, r, fg_after (data inst ! 1) raw m st)"
    by (rule fg_temp_return_good [OF assms(1) refl assms(2,3)])
  have c: "temperature_ceiling (glob st) < 0x80000000"
    using assms(6) by (rule order_less_trans) simp
  have "temperature_ceiling (glob st) < raw" using assms(6,7) by (rule order_less_le_trans)
  then have "\<not> sint raw \<le> sint (temperature_ceiling (glob st))"
    using sint_le_iff_small [OF assms(8) c] by simp
  then have "clamped_temperature (glob st) raw = temperature_ceiling (glob st)"
    using assms(4,5) by (simp add: clamped_temperature_def)
  then show ?thesis
    using m(2) assms(7) fg_after_read [OF m(1) assms(3)] fg_after_glob(1) [of "data inst ! 1" raw m st]
    by (auto simp: band_2_iff)
qed

theorem clamp_hides_stop_temperature_witness:
  "\<exists>st'. k100pm_fg_temp_return (ctx_with 0 0x100) (regs_with 0 0) (fg_state 600) =
      Inr (0, ctx_with 0 0x100, regs_with 0 0, st') \<and>
     k100pm_temperature_band (glob st') = 2 \<and> read_once32 (kmem st') 0x100 = Inr 360"
  using clamp_hides_stop_temperature [of "ctx_with 0 0x100" "fg_state 600" 600 "regs_with 0 0"] by simp

text \<open>
  When both hooked getters return through the same pointer (one calling the other), the
  outer return publishes the value the inner one already clamped: the raw temperature, from which
  the bands are computed, is then the clamped one.
\<close>

theorem nested_getters_publish_clamped:
  assumes "has_ctx inst" "has_ctx inst2" "data inst2 ! 1 = data inst ! 1" "data inst ! 1 \<noteq> 0"
    and "read_once32 (kmem st) (data inst ! 1) = Inr raw"
    and "k100pm_fg_temp_return inst r st = Inr (c, i, r', st1)"
  shows "\<exists>st2. k100pm_fg_temp_return inst2 r2 st1 = Inr (0, inst2, r2, st2) \<and>
    raw_fg_temperature (glob st2) = clamped_temperature (glob st) raw \<and>
    temperature_hits (glob st2) = temperature_hits (glob st1)"
proof -
  obtain m where m: "write_once32 (kmem st) (data inst ! 1) (temperature_ceiling (glob st)) = Inr m"
    "k100pm_fg_temp_return inst r st = Inr (0, inst, r, fg_after (data inst ! 1) raw m st)"
    by (rule fg_temp_return_good [OF assms(1) refl assms(4,5)])
  let ?c = "clamped_temperature (glob st) raw"
  have st1: "st1 = fg_after (data inst ! 1) raw m st" using m(2) assms(6) by simp
  have cfg: "same_config (glob st) (glob st1)" by (simp add: st1 fg_after_glob)
  have r1: "read_once32 (kmem st1) (data inst2 ! 1) = Inr ?c"
    using fg_after_read [OF m(1) assms(5)] st1 assms(3) by simp
  obtain m2 where m2: "write_once32 (kmem st1) (data inst2 ! 1) (temperature_ceiling (glob st1)) = Inr m2"
    "k100pm_fg_temp_return inst2 r2 st1 = Inr (0, inst2, r2, fg_after (data inst2 ! 1) ?c m2 st1)"
    by (rule fg_temp_return_good [OF assms(2) refl _ r1]) (use assms(3,4) in auto)
  have "\<not> clamp_fires (glob st1) ?c"
    using cfg by (auto simp: clamp_fires_def clamped_temperature_def same_config_def)
  then show ?thesis using m2(2) by (auto simp: fg_after_glob)
qed

theorem nested_getters_publish_clamped_witness:
  "\<exists>st1 st2. k100pm_fg_temp_return (ctx_with 0 0x100) (regs_with 0 0) (fg_state 600) =
      Inr (0, ctx_with 0 0x100, regs_with 0 0, st1) \<and>
    k100pm_fg_temp_return (ctx_with 7 0x100) (regs_with 0 0) st1 =
      Inr (0, ctx_with 7 0x100, regs_with 0 0, st2) \<and> raw_fg_temperature (glob st2) = 360"
proof -
  obtain st1 where res: "k100pm_fg_temp_return (ctx_with 0 0x100) (regs_with 0 0) (fg_state 600) =
      Inr (0, ctx_with 0 0x100, regs_with 0 0, st1)"
    by (rule fg_temp_return_good [of "ctx_with 0 0x100" "0x100" "fg_state 600" 600]) simp_all
  have "clamped_temperature (at_temperature 300) 600 = 360" by (simp add: clamped_temperature_def)
  then show ?thesis
    using nested_getters_publish_clamped [OF _ _ _ _ _ res, of "ctx_with 7 0x100" 600 "regs_with 0 0"] res
    by auto
qed

end
