(* ===== verification/Cutoff_Claims.thy ===== *)
theory Cutoff_Claims
  imports Memory_Claims
begin

text \<open>
  Properties of the shutdown-threshold hooks and of the pointers the memory hooks follow.
\<close>

text \<open>
  C9: Across a hooked \<open>fg_update_status\<close> or threshold update whose context pointer is not
  null and whose three threshold words are mapped, the entry and return handlers together are
  the abstract step on the triple: the configured thresholds replace valid ones when
  \<open>cutoff\<close> is on, anything else is kept; no byte outside the three words changes and a hit is
  counted exactly when the triple changes.
\<close>

theorem cutoff_refines_step:
  assumes "has_ctx inst" "k100pm_cutoff_entry inst r st = Inr (c, inst1, r1, st1)"
    and "regs r ! 0 \<noteq> 0" "vcutoff_at (kmem st2) (regs r ! 0) = Some old"
  shows "c = 0 \<and> r1 = r \<and> st1 = st \<and>
    (\<exists>st3. k100pm_cutoff_return inst1 r2 st2 = Inr (0, inst1, r2, st3) \<and>
       vcutoff_at (kmem st3) (regs r ! 0) = Some (cutoff_step (glob st2) old) \<and>
       (\<forall>x. x \<in> vcutoff_bytes (regs r ! 0) \<or> kmem st3 x = kmem st2 x) \<and>
       same_config (glob st2) (glob st3) \<and>
       cutoff_hits (glob st3) =
         cutoff_hits (glob st2) + (if cutoff_step (glob st2) old = old then 0 else 1))"
proof -
  have entry: "c = 0" "r1 = r" "st1 = st" "inst1 = inst\<lparr>data := (data inst)[0 := regs r ! 0]\<rparr>"
    using assms(1,2) by (auto simp: k100pm_cutoff_entry_def)
  have ret: "k100pm_cutoff_return inst1 r2 st2 =
      fbind (k100pm_apply_cutoff (regs r ! 0) st2) (\<lambda>st. Inr (0, inst1, r2, st))"
    using assms(1) by (simp add: entry k100pm_cutoff_return_def has_ctx_length)
  from apply_cutoff_step [OF assms(4,3)] obtain st3 where
    "k100pm_apply_cutoff (regs r ! 0) st2 = Inr st3"
    "vcutoff_at (kmem st3) (regs r ! 0) = Some (cutoff_step (glob st2) old)"
    "\<And>x. x \<notin> vcutoff_bytes (regs r ! 0) \<Longrightarrow> kmem st3 x = kmem st2 x"
    "same_config (glob st2) (glob st3)"
    "cutoff_hits (glob st3) =
       cutoff_hits (glob st2) + (if cutoff_step (glob st2) old = old then 0 else 1)"
    by metis
  with entry(1-3) ret show ?thesis by (intro conjI exI [of _ st3]) auto
qed

lemma cutoff_step_example:
  "cutoff_step (at_temperature 300) (3000, 3000, 2900) = (2600, 2600, 2550)"
  by (simp add: cutoff_step_def k100pm_cutoff_values_valid_def)

theorem cutoff_refines_step_witness:
  "\<exists>st3. k100pm_cutoff_return (ctx_with 0x1000 9) (regs_with 5 5) cutoff_state =
      Inr (0, ctx_with 0x1000 9, regs_with 5 5, st3) \<and>
    vcutoff_at (kmem st3) 0x1000 = Some (2600, 2600, 2550)"
proof -
  let ?r = "(regs_with 0 0)\<lparr>regs := (regs (regs_with 0 0))[0 := 0x1000]\<rparr>"
  have e: "k100pm_cutoff_entry (ctx_with 9 9) ?r cutoff_state =
      Inr (0, ctx_with 0x1000 9, ?r, cutoff_state)"
    by (simp add: k100pm_cutoff_entry_def ctx_write_def ctx_with_def)
  from cutoff_refines_step [OF _ e, of cutoff_state "(3000, 3000, 2900)" "regs_with 5 5"]
  show ?thesis by (auto simp: cutoff_step_example)
qed

text \<open>
  Rewriting the thresholds settles after one step: a second call of
  \<open>k100pm_apply_cutoff\<close> on the same context with the same settings changes nothing and counts
  nothing, also when the first one faulted on no word.
\<close>

theorem apply_cutoff_settles:
  "fbind (k100pm_apply_cutoff c st) (k100pm_apply_cutoff c) = k100pm_apply_cutoff c st"
proof (cases rule: apply_cutoff_cases [of c st])
  case (rewritten m msg)
  let ?st = "observe_info ''cutoff %u/%u/%u -> %u/%u/%u mV'' msg (k100pm_count Cutoff_hits (st\<lparr>kmem := m\<rparr>))"
  have "vcutoff_at (kmem ?st) c = Some (configured (glob ?st))"
    using write_vcutoff_read [OF rewritten(1)] by (simp add: configured_def k100pm_count_def)
  from apply_cutoff_kept [OF this] rewritten(2) show ?thesis by simp
qed simp_all

text \<open>
  C13: The configured thresholds are not checked: with \<open>cutoff\<close> on, a configuration outside
  2500..3300 mV is written over valid thresholds, and from then on no configuration, however
  valid, is written to that context again.
\<close>

theorem invalid_thresholds_stick:
  assumes "vcutoff_at (kmem st) c = Some old" "c \<noteq> 0" "cutoff (glob st)" "triple_valid old"
    and "\<not> triple_valid (configured (glob st))"
  shows "\<exists>st'. k100pm_apply_cutoff c st = Inr st' \<and>
    vcutoff_at (kmem st') c = Some (configured (glob st)) \<and>
    (\<forall>g. k100pm_apply_cutoff c (st'\<lparr>glob := g\<rparr>) = Inr (st'\<lparr>glob := g\<rparr>))"
proof -
  from apply_cutoff_step [OF assms(1,2)] obtain st' where
    st': "k100pm_apply_cutoff c st = Inr st'"
      "vcutoff_at (kmem st') c = Some (cutoff_step (glob st) old)"
    by metis
  have step: "cutoff_step (glob st) old = configured (glob st)"
    using assms(3,4) by (simp add: cutoff_step_def)
  have "k100pm_apply_cutoff c (st'\<lparr>glob := g\<rparr>) = Inr (st'\<lparr>glob := g\<rparr>)" for g
    using st'(2) step assms(5) by (intro apply_cutoff_kept [of _ _ "configured (glob st)"]) auto
  with st' step show ?thesis by auto
qed

theorem invalid_thresholds_stick_witness:
  "\<exists>st'. k100pm_apply_cutoff 0x1000
       (cutoff_state\<lparr>glob := (at_temperature 300)\<lparr>cutoff_sw_mv := 2400\<rparr>\<rparr>) = Inr st' \<and>
    vcutoff_at (kmem st') 0x1000 = Some (2600, 2600, 2400) \<and>
    k100pm_apply_cutoff 0x1000 (st'\<lparr>glob := at_temperature 300\<rparr>) = Inr (st'\<lparr>glob := at_temperature 300\<rparr>)"
proof -
  let ?st = "cutoff_state\<lparr>glob := (at_temperature 300)\<lparr>cutoff_sw_mv := 2400\<rparr>\<rparr>"
  have "configured (glob ?st) = (2600, 2600, 2400)"
    by (simp add: configured_def at_temperature_def default_config_def k100pm_initial_def)
  then show ?thesis
    using invalid_thresholds_stick [of ?st "0x1000" "(3000, 3000, 2900)"]
    by (auto simp: k100pm_cutoff_values_valid_def)
qed

text \<open>
  C14: What the memory hooks do with a pointer that is no good: a null pointer makes each return
  handler a no-op; a pointer to unmapped memory faults (the kernel oops of a bad access), for the
  FG temperature always, for the thresholds only when \<open>cutoff\<close> is on.
\<close>

theorem bad_pointers:
  assumes "has_ctx inst"
  shows "(data inst ! 1 = 0 \<longrightarrow> k100pm_fg_temp_return inst r st = Inr (0, inst, r, st)) \<and>
    (data inst ! 0 = 0 \<or> \<not> cutoff (glob st) \<longrightarrow> k100pm_cutoff_return inst r st = Inr (0, inst, r, st)) \<and>
    (data inst ! 1 \<noteq> 0 \<and> \<not> mapped32 (kmem st) (data inst ! 1) \<longrightarrow>
       k100pm_fg_temp_return inst r st = Inl (BadAddress (data inst ! 1))) \<and>
    (data inst ! 0 \<noteq> 0 \<and> cutoff (glob st) \<and> vcutoff_at (kmem st) (data inst ! 0) = None \<longrightarrow>
       (\<exists>a. k100pm_cutoff_return inst r st = Inl (BadAddress a)))"
  using assms fg_temp_return_null [OF assms] fg_temp_return_fault [OF assms]
    apply_cutoff_off [of st "data inst ! 0"] apply_cutoff_unmapped [of st "data inst ! 0"]
  by (auto simp: k100pm_cutoff_return_def)

theorem bad_pointers_witness:
  "k100pm_fg_temp_return (ctx_with 0x2000 0x2000) (regs_with 0 0) cutoff_state = Inl (BadAddress 0x2000) \<and>
   (\<exists>a. k100pm_cutoff_return (ctx_with 0x2000 0x2000) (regs_with 0 0) cutoff_state = Inl (BadAddress a)) \<and>
   k100pm_cutoff_return (ctx_with 0 0) (regs_with 0 0) cutoff_state =
     Inr (0, ctx_with 0 0, regs_with 0 0, cutoff_state)"
proof -
  have "kmem cutoff_state 0x2000 = None" "kmem cutoff_state 0x2a90 = None"
    by (simp_all add: cutoff_state_def cutoff_memory_def word_at_def)
  then have "\<not> mapped32 (kmem cutoff_state) 0x2000" "vcutoff_at (kmem cutoff_state) 0x2000 = None"
    by (simp_all add: mapped32_def vcutoff_at_def vcutoff_off_defs read_once32_def)
  then show ?thesis
    using bad_pointers [of "ctx_with 0x2000 0x2000" "regs_with 0 0" cutoff_state]
      bad_pointers [of "ctx_with 0 0" "regs_with 0 0" cutoff_state]
    by simp
qed

end
