(* ===== verification/Probe_Table.thy ===== *)
theory Probe_Table
  imports Voter_Contract Cutoff_Spec
begin

text \<open>
  The probe table \<open>k100pm_probes\<close> and the module's load and unload functions
  (src/src/K100PM_CHG_RUNTIME.c). The kernel's \<open>register_kretprobe\<close> and
  \<open>unregister_kretprobe\<close> are not in the repository (kheaders declares them): they are arguments,
  on a kernel state of any type \<open>'k\<close>, and \<open>kretprobe_api\<close> says what is relied on.
\<close>

subsection \<open>Probes\<close>

text \<open>
  \<open>struct kprobe\<close> and \<open>struct kretprobe\<close> of kheaders/include/linux/kprobes.h, without the
  members the module never sets (list links, addresses, the holder): a designated initialiser
  leaves them zero and only the kernel uses them. A function pointer is an optional handler,
  \<open>None\<close> for \<open>NULL\<close>.
\<close>

record kprobe =
  symbol_name :: string
  kp_flags :: u32

record kretprobe =
  kp :: kprobe
  handler :: "kretprobe_handler_t option"
  entry_handler :: "kretprobe_handler_t option"
  maxactive :: int
  data_size :: nat

definition entry_probe :: "string \<Rightarrow> kretprobe_handler_t \<Rightarrow> kretprobe" where
  "entry_probe symb entry =
     \<lparr>kp = \<lparr>symbol_name = symb, kp_flags = 0\<rparr>, handler = None, entry_handler = Some entry,
      maxactive = 0, data_size = 0\<rparr>"

definition pair_probe ::
  "string \<Rightarrow> kretprobe_handler_t \<Rightarrow> kretprobe_handler_t \<Rightarrow> kretprobe" where
  "pair_probe symb entry ret =
     \<lparr>kp = \<lparr>symbol_name = symb, kp_flags = 0\<rparr>, handler = Some ret, entry_handler = Some entry,
      maxactive = 0, data_size = sizeof_k100pm_probe_ctx\<rparr>"

definition k100pm_probes :: "kretprobe list" where
  "k100pm_probes =
     [entry_probe ''platform_class_buckchg_ops_set_ichg'' k100pm_ichg_entry,
      entry_probe ''platform_class_buckchg_ops_set_term_volt'' k100pm_cv_entry,
      entry_probe ''mca_quick_charge_div1_single_voter_cb'' k100pm_div_single_entry,
      entry_probe ''mca_quick_charge_div2_single_voter_cb'' k100pm_div_single_entry,
      entry_probe ''mca_quick_charge_div4_single_voter_cb'' k100pm_div_single_entry,
      entry_probe ''mca_quick_charge_div1_multi_voter_cb'' k100pm_div_multi_entry,
      entry_probe ''mca_quick_charge_div2_multi_voter_cb'' k100pm_div_multi_entry,
      entry_probe ''mca_quick_charge_div4_multi_voter_cb'' k100pm_div_multi_entry,
      entry_probe ''mca_quick_charge_curr_max_voter_cb'' k100pm_curr_max_entry,
      entry_probe ''mca_quick_charge_single_chg_cur_voter_cb'' k100pm_fast_curve_entry,
      entry_probe ''mca_quick_charge_multi_chg_cur_voter_cb'' k100pm_fast_curve_entry,
      entry_probe ''mca_quick_charge_thermal_flip_voter_cb'' k100pm_thermal_entry,
      pair_probe ''strategy_fg_ops_get_temp'' k100pm_fg_temp_entry k100pm_fg_temp_return,
      pair_probe ''strategy_fg_ops_get_thermal_temp'' k100pm_fg_temp_entry k100pm_fg_temp_return,
      pair_probe ''fg_update_status'' k100pm_cutoff_entry k100pm_cutoff_return,
      pair_probe ''mca_battery_shutdown_update_vcutoff_para'' k100pm_cutoff_entry
        k100pm_cutoff_return]"

subsection \<open>Load and unload\<close>

record 'k driver =
  probes :: "kretprobe list"
  registered :: u32
  kst :: kstate
  kern :: 'k

type_synonym 'k register_fn = "nat \<Rightarrow> kretprobe \<Rightarrow> 'k \<Rightarrow> int \<times> 'k"
type_synonym 'k unregister_fn = "nat \<Rightarrow> kretprobe \<Rightarrow> 'k \<Rightarrow> 'k"

definition driver_log :: "(kstate \<Rightarrow> kstate) \<Rightarrow> 'k driver \<Rightarrow> 'k driver" where
  "driver_log f d = d\<lparr>kst := f (kst d)\<rparr>"

text \<open>
  \<open>while (k100pm_registered) unregister_kretprobe(&k100pm_probes[--k100pm_registered]);\<close>
  An index outside the array is a fault.
\<close>

function k100pm_unregister_all :: "'k unregister_fn \<Rightarrow> 'k driver \<Rightarrow> kfault + 'k driver" where
  "k100pm_unregister_all unreg d =
     (if registered d \<noteq> 0
      then let d = d\<lparr>registered := registered d - 1\<rparr>;
               n = unat (registered d)
        in if n < length (probes d)
           then k100pm_unregister_all unreg (d\<lparr>kern := unreg n (probes d ! n) (kern d)\<rparr>)
           else Inl (ProbeIndex n)
      else Inr d)"
  by pat_completeness auto
termination
  by (relation "measure (\<lambda>(_, d). unat (registered d))") (auto simp: unat_minus_one unat_gt_0)

declare k100pm_unregister_all.simps [simp del]

text \<open>One pass of the registration loop's body before the call: the defaults it fills in.\<close>

definition prepare_probe :: "kretprobe \<Rightarrow> kretprobe" where
  "prepare_probe p =
     (let p = (if handler p = None then p\<lparr>handler := Some k100pm_noop_return\<rparr> else p)
      in p\<lparr>maxactive := 32\<rparr>)"

function k100pm_init_loop ::
  "'k register_fn \<Rightarrow> 'k unregister_fn \<Rightarrow> nat \<Rightarrow> 'k driver \<Rightarrow> kfault + (int \<times> 'k driver)" where
  "k100pm_init_loop reg unreg i d =
     (if i < length (probes d)
      then let d = d\<lparr>probes := (probes d)[i := prepare_probe (probes d ! i)]\<rparr>;
               (ret, k) = reg i (probes d ! i) (kern d);
               d = d\<lparr>kern := k\<rparr>
        in if ret \<noteq> 0
           then let d = driver_log (pr_err ''register %s failed: %d''
                          (symbol_name (kp (probes d ! i))) (word_of_int ret)) d
             in fbind (k100pm_unregister_all unreg d) (\<lambda>d. Inr (ret, d))
           else k100pm_init_loop reg unreg (Suc i) (d\<lparr>registered := registered d + 1\<rparr>)
      else Inr (0, d))"
  by pat_completeness auto
termination
  by (relation "measure (\<lambda>(_, _, i, d). length (probes d) - i)") auto

declare k100pm_init_loop.simps [simp del]

definition k100pm_chg_runtime_init ::
  "'k register_fn \<Rightarrow> 'k unregister_fn \<Rightarrow> 'k driver \<Rightarrow> kfault + (int \<times> 'k driver)" where
  "k100pm_chg_runtime_init reg unreg d =
     (if \<not> armed (glob (kst d))
      then Inr (0, driver_log (pr_info ''runtime rewrite build loaded inert'' []) d)
      else fbind (k100pm_init_loop reg unreg 0 d) (\<lambda>(ret, d).
        if ret \<noteq> 0 then Inr (ret, d)
        else let g = glob (kst d)
          in Inr (0, driver_log (pr_info ''ready boost=%u pps=%u thermal=%u temp=%u cutoff=%u''
                       [of_bool (boost g), of_bool (pps g), of_bool (thermal g),
                        of_bool (temperature_spoof g), of_bool (cutoff g)]) d)))"

definition k100pm_chg_runtime_exit :: "'k unregister_fn \<Rightarrow> 'k driver \<Rightarrow> kfault + 'k driver" where
  "k100pm_chg_runtime_exit unreg d =
     fbind (k100pm_unregister_all unreg d) (\<lambda>d.
       let g = glob (kst d)
       in Inr (driver_log
            (pr_info ''removed ichg=%u cv=%u curve=%u pps=%u thermal=%u temp=%u cutoff=%u''
              [ichg_hits g, cv_hits g, curve_hits g, pps_hits g, thermal_hits g,
               temperature_hits g, cutoff_hits g]) d))"

text \<open>The module as the loader maps it: the static table, no probe registered.\<close>

definition module_image :: "kstate \<Rightarrow> 'k \<Rightarrow> 'k driver" where
  "module_image s k = \<lparr>probes = k100pm_probes, registered = 0, kst = s, kern = k\<rparr>"

subsection \<open>What is relied on in the kernel\<close>

text \<open>
  \<open>active k\<close> is the set of table entries whose probe is armed in kernel state \<open>k\<close>. Registering
  returns 0 and arms the probe, or an error and arms nothing; unregistering disarms it.
\<close>

definition kretprobe_api ::
  "'k register_fn \<Rightarrow> 'k unregister_fn \<Rightarrow> ('k \<Rightarrow> nat set) \<Rightarrow> bool" where
  "kretprobe_api reg unreg active \<longleftrightarrow>
     (\<forall>i p k. (fst (reg i p k) = 0 \<longrightarrow> active (snd (reg i p k)) = insert i (active k)) \<and>
              (fst (reg i p k) \<noteq> 0 \<longrightarrow> active (snd (reg i p k)) = active k) \<and>
              active (unreg i p k) = active k - {i})"

lemma api_register:
  assumes "kretprobe_api reg unreg active" and "reg i p k = (e, k')"
  shows "e = 0 \<Longrightarrow> active k' = insert i (active k)" and "e \<noteq> 0 \<Longrightarrow> active k' = active k"
  using assms by (metis kretprobe_api_def fst_conv snd_conv)+

lemma api_unregister: "kretprobe_api reg unreg active \<Longrightarrow> active (unreg i p k) = active k - {i}"
  by (simp add: kretprobe_api_def)

subsection \<open>The loops\<close>

lemma driver_log_simps [simp]:
  "probes (driver_log f d) = probes d" "registered (driver_log f d) = registered d"
  "kern (driver_log f d) = kern d" "kst (driver_log f d) = f (kst d)"
  by (simp_all add: driver_log_def)

text \<open>
  The unregister loop never leaves the array while \<open>registered\<close> counts entries of it, and takes
  down exactly the entries below it.
\<close>

lemma unregister_all:
  assumes "unat (registered d) \<le> length (probes d)"
  shows "\<exists>d'. k100pm_unregister_all unreg d = Inr d' \<and> registered d' = 0 \<and> probes d' = probes d \<and>
    kst d' = kst d \<and>
    (kretprobe_api reg unreg active \<longrightarrow> active (kern d') = active (kern d) - {..<unat (registered d)})"
  using assms
proof (induction unreg d rule: k100pm_unregister_all.induct)
  case (1 unreg d)
  show ?case
  proof (cases "registered d = 0")
    case True
    then show ?thesis by (simp add: k100pm_unregister_all.simps [of unreg d])
  next
    case False
    let ?n = "unat (registered d - 1)"
    have n: "unat (registered d) = Suc ?n"
      using False by (simp add: unat_minus_one unat_gt_0)
    have lt: "?n < length (probes d)" using "1.prems" n by simp
    let ?d = "d\<lparr>registered := registered d - 1, kern := unreg ?n (probes d ! ?n) (kern d)\<rparr>"
    have step: "k100pm_unregister_all unreg d = k100pm_unregister_all unreg ?d"
      using False lt by (simp add: k100pm_unregister_all.simps [of unreg d] Let_def)
    have "\<exists>d'. k100pm_unregister_all unreg ?d = Inr d' \<and> registered d' = 0 \<and>
        probes d' = probes ?d \<and> kst d' = kst ?d \<and>
        (kretprobe_api reg unreg active \<longrightarrow>
          active (kern d') = active (kern ?d) - {..<unat (registered ?d)})"
      using "1.IH" [of "d\<lparr>registered := registered d - 1\<rparr>" ?n] False lt by simp
    moreover have "{..<Suc ?n} = insert ?n {..<?n}" by auto
    ultimately show ?thesis
      using step n by (auto simp: api_unregister)
  qed
qed

text \<open>What the registration loop leaves behind, from any entry on.\<close>

definition registered_up_to :: "('k \<Rightarrow> nat set) \<Rightarrow> nat set \<Rightarrow> nat \<Rightarrow> 'k driver \<Rightarrow> bool" where
  "registered_up_to active A i d \<longleftrightarrow>
     unat (registered d) = i \<and> i \<le> length (probes d) \<and> length (probes d) < 2 ^ 32 \<and>
     active (kern d) = A \<union> {..<i}"

lemma init_loop_result:
  assumes "kretprobe_api reg unreg active" and "registered_up_to active A i d"
    and "A \<inter> {..<length (probes d)} = {}"
  shows "\<exists>ret d'. k100pm_init_loop reg unreg i d = Inr (ret, d') \<and>
    glob (kst d') = glob (kst d) \<and> kmem (kst d') = kmem (kst d) \<and>
    (ret = 0 \<longrightarrow> registered_up_to active A (length (probes d)) d' \<and>
       probes d' = take i (probes d) @ map prepare_probe (drop i (probes d))) \<and>
    (ret \<noteq> 0 \<longrightarrow> registered d' = 0 \<and> active (kern d') = A)"
  using assms
proof (induction reg unreg i d rule: k100pm_init_loop.induct)
  case (1 reg unreg i d)
  let ?d1 = "d\<lparr>probes := (probes d)[i := prepare_probe (probes d ! i)]\<rparr>"
  obtain ret k where rk: "reg i (probes ?d1 ! i) (kern ?d1) = (ret, k)" by fastforce
  let ?d2 = "?d1\<lparr>kern := k\<rparr>"
  consider (finished) "\<not> i < length (probes d)" | (failed) "i < length (probes d)" "ret \<noteq> 0"
    | (ok) "i < length (probes d)" "ret = 0" by blast
  then show ?case
  proof cases
    case finished
    then have "k100pm_init_loop reg unreg i d = Inr (0, d)"
      by (simp add: k100pm_init_loop.simps [of reg unreg i d])
    with finished "1.prems" show ?thesis
      by (intro exI [of _ 0] exI [of _ d]) (auto simp: registered_up_to_def)
  next
    case failed
    let ?d3 = "driver_log (pr_err ''register %s failed: %d''
      (symbol_name (kp (probes ?d2 ! i))) (word_of_int ret)) ?d2"
    have loop: "k100pm_init_loop reg unreg i d =
        fbind (k100pm_unregister_all unreg ?d3) (\<lambda>d. Inr (ret, d))"
      using failed rk by (simp add: k100pm_init_loop.simps [of reg unreg i d])
    have "unat (registered ?d3) \<le> length (probes ?d3)"
      using "1.prems"(2) by (simp add: registered_up_to_def)
    from unregister_all [OF this, of unreg reg active] obtain d'
      where d': "k100pm_unregister_all unreg ?d3 = Inr d'" "registered d' = 0" "kst d' = kst ?d3"
        "active (kern d') = active (kern ?d3) - {..<unat (registered ?d3)}"
      using "1.prems"(1) by blast
    have "active k = A \<union> {..<i}"
      using api_register(2) [OF "1.prems"(1) rk failed(2)] "1.prems"(2)
      by (simp add: registered_up_to_def)
    moreover have "A \<inter> {..<i} = {}" using "1.prems"(3) failed(1) by auto
    ultimately have "active (kern d') = A"
      using d'(4) "1.prems"(2) by (auto simp: registered_up_to_def)
    with loop d' failed(2) show ?thesis by (simp add: pr_err_def)
  next
    case ok
    let ?d3 = "?d2\<lparr>registered := registered d + 1\<rparr>"
    have loop: "k100pm_init_loop reg unreg i d = k100pm_init_loop reg unreg (Suc i) ?d3"
      using ok rk by (simp add: k100pm_init_loop.simps [of reg unreg i d])
    have "active k = insert i (A \<union> {..<i})"
      using api_register(1) [OF "1.prems"(1) rk ok(2)] "1.prems"(2)
      by (simp add: registered_up_to_def)
    then have inv: "registered_up_to active A (Suc i) ?d3"
      using "1.prems"(2) ok(1)
      by (auto simp: registered_up_to_def unat_plus_one_32 lessThan_Suc)
    have len: "length (probes ?d3) = length (probes d)"
      and tables: "take (Suc i) (probes ?d3) @ map prepare_probe (drop (Suc i) (probes ?d3)) =
        take i (probes d) @ map prepare_probe (drop i (probes d))"
      using ok(1) by (simp_all add: take_Suc_conv_app_nth Cons_nth_drop_Suc [symmetric])
    obtain ret' d' where "k100pm_init_loop reg unreg (Suc i) ?d3 = Inr (ret', d')"
      "glob (kst d') = glob (kst ?d3)" "kmem (kst d') = kmem (kst ?d3)"
      "ret' = 0 \<longrightarrow> registered_up_to active A (length (probes ?d3)) d' \<and>
         probes d' = take (Suc i) (probes ?d3) @ map prepare_probe (drop (Suc i) (probes ?d3))"
      "ret' \<noteq> 0 \<longrightarrow> registered d' = 0 \<and> active (kern d') = A"
      using "1.IH" [of ?d1 "(ret, k)" ret k ?d2] ok rk "1.prems" inv len by auto
    then show ?thesis
      unfolding loop tables len by (intro exI [of _ ret'] exI [of _ d']) simp
  qed
qed

end
