(* ===== verification/Runtime.thy ===== *)
theory Runtime
  imports Probe_Table Module_Params
begin

text \<open>
  The loaded module as a transition system: calls of hooked vendor functions enter and return in
  any interleaving, the vendor code changes memory in between, and root stores parameters through
  sysfs. A call in flight owns a probe instance from its entry to its return. The steps of the
  kernel's kretprobe core are its documented behaviour: the entry handler gets an instance with
  \<open>data_size\<close> bytes of unspecified data; when it returns 0 the same instance is handed to the
  return handler, otherwise the call is not followed further.
\<close>

subsection \<open>The probe table after load\<close>

definition loaded_probes :: "kretprobe list" where
  "loaded_probes = map prepare_probe k100pm_probes"

text \<open>The three kinds of entries.\<close>

definition voter_probe :: "kretprobe \<Rightarrow> bool" where
  "voter_probe P \<longleftrightarrow> (\<exists>h slot remap ctr fmt. entry_handler P = Some h \<and>
     voter_hook h slot remap ctr fmt \<and> handler P = Some k100pm_noop_return \<and> data_size P = 0)"

definition fg_probe :: "kretprobe \<Rightarrow> bool" where
  "fg_probe P \<longleftrightarrow> entry_handler P = Some k100pm_fg_temp_entry \<and>
     handler P = Some k100pm_fg_temp_return \<and> data_size P = sizeof_k100pm_probe_ctx"

definition cutoff_probe :: "kretprobe \<Rightarrow> bool" where
  "cutoff_probe P \<longleftrightarrow> entry_handler P = Some k100pm_cutoff_entry \<and>
     handler P = Some k100pm_cutoff_return \<and> data_size P = sizeof_k100pm_probe_ctx"

lemma voter_probeI:
  "voter_hook h slot remap ctr fmt \<Longrightarrow> voter_probe (prepare_probe (entry_probe s h))"
  unfolding voter_probe_def prepare_probe_def entry_probe_def by force

lemma fg_probeI:
  "fg_probe (prepare_probe (pair_probe s k100pm_fg_temp_entry k100pm_fg_temp_return))"
  by (simp add: fg_probe_def prepare_probe_def pair_probe_def)

lemma cutoff_probeI:
  "cutoff_probe (prepare_probe (pair_probe s k100pm_cutoff_entry k100pm_cutoff_return))"
  by (simp add: cutoff_probe_def prepare_probe_def pair_probe_def)

lemma loaded_probe_kinds:
  assumes "P \<in> set loaded_probes"
  obtains (voter) "voter_probe P" | (fg) "fg_probe P" | (cutoff) "cutoff_probe P"
proof -
  have "\<forall>P \<in> set loaded_probes. voter_probe P \<or> fg_probe P \<or> cutoff_probe P"
    unfolding loaded_probes_def k100pm_probes_def
    by (simp only: list.map list.set ball_simps)
      (intro conjI; intro TrueI disjI1 fg_probeI [THEN disjI1, THEN disjI2]
        cutoff_probeI [THEN disjI2, THEN disjI2]
        voter_probeI [OF ichg_hook.voter_hook_axioms]
        voter_probeI [OF cv_hook.voter_hook_axioms]
        voter_probeI [OF thermal_hook.voter_hook_axioms]
        voter_probeI [OF fast_curve_hook.voter_hook_axioms]
        voter_probeI [OF div_single_hook.voter_hook_axioms]
        voter_probeI [OF div_multi_hook.voter_hook_axioms]
        voter_probeI [OF curr_max_hook.voter_hook_axioms])
  with assms that show thesis by blast
qed

subsection \<open>The system\<close>

record system =
  sst :: kstate
  inflight :: "nat \<Rightarrow> (kretprobe \<times> kretprobe_instance) option"

datatype action =
    Enter nat kretprobe pt_regs
  | Return nat pt_regs
  | Vendor mem
  | Store string param_value

inductive sys_step :: "system \<Rightarrow> action \<Rightarrow> system \<Rightarrow> bool" where
  enter: "P \<in> set loaded_probes \<Longrightarrow> inflight s c = None \<Longrightarrow> entry_handler P = Some h \<Longrightarrow>
    length (data inst) = data_size P div 8 \<Longrightarrow> h inst r (sst s) = Inr (0, inst', r', st') \<Longrightarrow>
    sys_step s (Enter c P r) (s\<lparr>sst := st', inflight := (inflight s)(c \<mapsto> (P, inst'))\<rparr>)"
| enter_dropped: "P \<in> set loaded_probes \<Longrightarrow> inflight s c = None \<Longrightarrow> entry_handler P = Some h \<Longrightarrow>
    length (data inst) = data_size P div 8 \<Longrightarrow> h inst r (sst s) = Inr (e, inst', r', st') \<Longrightarrow>
    e \<noteq> 0 \<Longrightarrow> sys_step s (Enter c P r) (s\<lparr>sst := st'\<rparr>)"
| return: "inflight s c = Some (P, inst) \<Longrightarrow> handler P = Some h \<Longrightarrow>
    h inst r (sst s) = Inr (e, inst', r', st') \<Longrightarrow>
    sys_step s (Return c r) (s\<lparr>sst := st', inflight := (inflight s)(c := None)\<rparr>)"
| vendor: "sys_step s (Vendor m) (s\<lparr>sst := (sst s)\<lparr>kmem := m\<rparr>\<rparr>)"
| param_store: "sysfs_store n v (glob (sst s)) = Some g \<Longrightarrow>
    sys_step s (Store n v) (s\<lparr>sst := (sst s)\<lparr>glob := g\<rparr>\<rparr>)"

inductive_cases enterE: "sys_step s (Enter c P r) s'"
inductive_cases returnE: "sys_step s (Return c r) s'"
inductive_cases vendorE: "sys_step s (Vendor m) s'"
inductive_cases param_storeE: "sys_step s (Store n v) s'"

inductive sys_run :: "system \<Rightarrow> action list \<Rightarrow> system \<Rightarrow> bool" where
  run_nil: "sys_run s [] s"
| run_cons: "sys_step s a s' \<Longrightarrow> sys_run s' as s'' \<Longrightarrow> sys_run s (a # as) s''"

inductive_cases run_consE: "sys_run s (a # as) s''"
inductive_cases run_nilE: "sys_run s [] s'"

definition loaded_system :: "kstate \<Rightarrow> system" where
  "loaded_system st = \<lparr>sst = st, inflight = (\<lambda>_. None)\<rparr>"

text \<open>Every instance in flight belongs to a probe of the table and has that probe's data.\<close>

definition inflight_ok :: "system \<Rightarrow> bool" where
  "inflight_ok s \<longleftrightarrow> (\<forall>c P inst. inflight s c = Some (P, inst) \<longrightarrow>
     P \<in> set loaded_probes \<and> length (data inst) = data_size P div 8)"

lemma inflight_ok_loaded: "inflight_ok (loaded_system st)"
  by (simp add: inflight_ok_def loaded_system_def)

subsection \<open>Entering a hooked function\<close>

lemma fg_entry_result:
  assumes "fg_probe P" "entry_handler P = Some h" "length (data inst) = data_size P div 8"
  shows "h inst r st = Inr (0, inst\<lparr>data := (data inst)[1 := regs r ! 1]\<rparr>, r, st)"
    and "has_ctx inst"
proof -
  show "has_ctx inst" using assms by (simp add: fg_probe_def has_ctx_def)
  then show "h inst r st = Inr (0, inst\<lparr>data := (data inst)[1 := regs r ! 1]\<rparr>, r, st)"
    using assms by (auto simp: fg_probe_def k100pm_fg_temp_entry_def)
qed

lemma cutoff_entry_result:
  assumes "cutoff_probe P" "entry_handler P = Some h" "length (data inst) = data_size P div 8"
  shows "h inst r st = Inr (0, inst\<lparr>data := (data inst)[0 := regs r ! 0]\<rparr>, r, st)"
    and "has_ctx inst"
proof -
  show "has_ctx inst" using assms by (simp add: cutoff_probe_def has_ctx_def)
  then show "h inst r st = Inr (0, inst\<lparr>data := (data inst)[0 := regs r ! 0]\<rparr>, r, st)"
    using assms by (auto simp: cutoff_probe_def k100pm_cutoff_entry_def)
qed

text \<open>
  Every entry handler of the table returns 0, keeps the size of the instance data, touches no
  memory and no setting, and counts at most one hit.
\<close>

lemma enter_result:
  assumes "P \<in> set loaded_probes" "entry_handler P = Some h"
    and "length (data inst) = data_size P div 8"
  obtains inst' r' st' where "h inst r st = Inr (0, inst', r', st')"
    "length (data inst') = length (data inst)" "kmem st' = kmem st"
    "same_config (glob st) (glob st')"
    "raw_fg_temperature (glob st') = raw_fg_temperature (glob st)"
    "total_hits (glob st') \<in> {total_hits (glob st), total_hits (glob st) + 1}"
  using assms(1)
proof (cases rule: loaded_probe_kinds)
  case voter
  then obtain slot remap ctr fmt where hook: "voter_hook h slot remap ctr fmt"
    using assms(2) by (auto simp: voter_probe_def)
  obtain r' st' where res: "h inst r st = Inr (0, inst, r', st')"
    using voter_hook.never_faults [OF hook] by blast
  show thesis
    using voter_hook.state_frame [OF hook res] voter_hook.count_once [OF hook res]
    by (intro that [OF res]) auto
next
  case fg
  show thesis by (rule that [OF fg_entry_result(1) [OF fg assms(2,3)]]) auto
next
  case cutoff
  show thesis by (rule that [OF cutoff_entry_result(1) [OF cutoff assms(2,3)]]) auto
qed

subsection \<open>Returning from a hooked function\<close>

text \<open>The bytes a return handler may write, from its kind and its instance.\<close>

definition return_bytes :: "kretprobe \<Rightarrow> kretprobe_instance \<Rightarrow> u64 set" where
  "return_bytes P inst =
     (if fg_probe P then {data inst ! 1, data inst ! 1 + 1, data inst ! 1 + 2, data inst ! 1 + 3}
      else if cutoff_probe P then vcutoff_bytes (data inst ! 0) else {})"

lemma fg_not_cutoff: "fg_probe P \<Longrightarrow> \<not> cutoff_probe P"
proof
  assume "fg_probe P" "cutoff_probe P"
  then have eq: "k100pm_fg_temp_entry = k100pm_cutoff_entry"
    by (simp add: fg_probe_def cutoff_probe_def)
  let ?i = "\<lparr>ret_addr = 0, fp = 0, data = [0, 0]\<rparr> :: kretprobe_instance"
  let ?r = "\<lparr>regs = [1, 2], reg_sp = 0, reg_pc = 0, pstate = 0, orig_x0 = 0, syscallno = 0,
    unused2 = 0, sdei_ttbr1 = 0, pmr_save = 0, stackframe = [], lockdep_hardirqs = 0,
    exit_rcu = 0\<rparr> :: pt_regs"
  have "k100pm_fg_temp_entry ?i ?r st \<noteq> k100pm_cutoff_entry ?i ?r st" for st
    by (simp add: k100pm_fg_temp_entry_def k100pm_cutoff_entry_def has_ctx_length)
  with eq show False by simp
qed

lemma return_result:
  assumes "P \<in> set loaded_probes" "handler P = Some h" "length (data inst) = data_size P div 8"
  obtains (faulted) a where "h inst r st = Inl (BadAddress a)"
  | (returned) st' where "h inst r st = Inr (0, inst, r, st')"
    "\<And>x. x \<notin> return_bytes P inst \<Longrightarrow> kmem st' x = kmem st x"
    "dom (kmem st') = dom (kmem st)"
    "same_config (glob st) (glob st')"
    "\<not> fg_probe P \<Longrightarrow> raw_fg_temperature (glob st') = raw_fg_temperature (glob st)"
    "total_hits (glob st') \<in> {total_hits (glob st), total_hits (glob st) + 1}"
  using assms(1)
proof (cases rule: loaded_probe_kinds)
  case voter
  then have "h = k100pm_noop_return" using assms(2) by (auto simp: voter_probe_def)
  then show thesis by (intro returned [of st]) (simp_all add: k100pm_noop_return_def)
next
  case fg
  then have h: "h = k100pm_fg_temp_return" and ctx: "has_ctx inst"
    using assms by (auto simp: fg_probe_def has_ctx_def)
  let ?p = "data inst ! 1"
  consider (null) "?p = 0" | (bad) "?p \<noteq> 0" "\<not> mapped32 (kmem st) ?p"
    | (good) raw where "?p \<noteq> 0" "read_once32 (kmem st) ?p = Inr raw"
    using mapped32_read by blast
  then show thesis
  proof cases
    case null
    then show thesis by (intro returned [of st]) (simp_all add: h fg_temp_return_null [OF ctx])
  next
    case bad
    then show thesis using fg_temp_return_fault [OF ctx] by (intro faulted) (simp add: h)
  next
    case good
    obtain m where m: "write_once32 (kmem st) ?p (temperature_ceiling (glob st)) = Inr m"
      "k100pm_fg_temp_return inst r st = Inr (0, inst, r, fg_after ?p raw m st)"
      by (rule fg_temp_return_good [OF ctx refl good])
    show thesis
    proof (rule returned)
      show "h inst r st = Inr (0, inst, r, fg_after ?p raw m st)" using m h by simp
      show "kmem (fg_after ?p raw m st) x = kmem st x" if "x \<notin> return_bytes P inst" for x
        using that fg fg_after_frame [OF m(1)] by (simp add: return_bytes_def)
      show "dom (kmem (fg_after ?p raw m st)) = dom (kmem st)"
        using write_once32_dom [OF m(1)] by (simp add: fg_after_def Let_def)
      show "total_hits (glob (fg_after ?p raw m st)) \<in> {total_hits (glob st), total_hits (glob st) + 1}"
        by (simp add: fg_after_def Let_def k100pm_count_def total_hits_def)
    qed (use fg in \<open>simp_all add: fg_after_glob\<close>)
  qed
next
  case cutoff
  then have h: "h = k100pm_cutoff_return" and ctx: "has_ctx inst" and nf: "\<not> fg_probe P"
    using assms fg_not_cutoff by (auto simp: cutoff_probe_def has_ctx_def)
  have res: "h inst r st = fbind (k100pm_apply_cutoff (data inst ! 0) st) (\<lambda>st. Inr (0, inst, r, st))"
    using ctx by (simp add: h k100pm_cutoff_return_def)
  show thesis
  proof (cases rule: apply_cutoff_cases [of "data inst ! 0" st])
    case (bad a)
    then show thesis by (intro faulted [of a]) (simp add: res)
  next
    case kept
    then show thesis by (intro returned [of st]) (simp_all add: res)
  next
    case (rewritten m msg)
    then show thesis
      by (intro returned [of "observe_info ''cutoff %u/%u/%u -> %u/%u/%u mV'' msg
            (k100pm_count Cutoff_hits (st\<lparr>kmem := m\<rparr>))"])
        (use nf cutoff write_vcutoff_frame [OF rewritten(1)] write_vcutoff_dom [OF rewritten(1)] in
          \<open>simp_all add: res return_bytes_def total_hits_count k100pm_count_def same_config_def
            total_hits_def\<close>)
  qed
qed

subsection \<open>Steps and runs\<close>

lemma step_inflight_ok: "sys_step s a s' \<Longrightarrow> inflight_ok s \<Longrightarrow> inflight_ok s'"
proof (induction rule: sys_step.induct)
  case (enter P s c h inst r inst' r' st')
  from enter_result [OF enter.hyps(1,3,4), of r "sst s"] enter.hyps(5)
  have "length (data inst') = data_size P div 8"
    using enter.hyps(4) by (metis Inr_inject prod.inject)
  with enter show ?case by (auto simp: inflight_ok_def split: if_splits)
qed (auto simp: inflight_ok_def split: if_splits)

lemma run_inflight_ok: "sys_run s as s' \<Longrightarrow> inflight_ok s \<Longrightarrow> inflight_ok s'"
  by (induction rule: sys_run.induct) (auto intro: step_inflight_ok)

text \<open>An instance stays as its entry left it until its own call returns.\<close>

fun returns_call :: "nat \<Rightarrow> action \<Rightarrow> bool" where
  "returns_call c (Return c' r) = (c' = c)"
| "returns_call c _ = False"

lemma step_inflight_kept:
  "sys_step s a s' \<Longrightarrow> inflight s c = Some x \<Longrightarrow> \<not> returns_call c a \<Longrightarrow> inflight s' c = Some x"
  by (induction rule: sys_step.induct) auto

lemma run_inflight_kept:
  "sys_run s as s' \<Longrightarrow> inflight s c = Some x \<Longrightarrow> \<forall>a \<in> set as. \<not> returns_call c a \<Longrightarrow>
   inflight s' c = Some x"
  by (induction rule: sys_run.induct) (auto dest: step_inflight_kept)

text \<open>The module's own steps, and what they count.\<close>

fun is_hook :: "action \<Rightarrow> bool" where
  "is_hook (Enter c P r) = True"
| "is_hook (Return c r) = True"
| "is_hook _ = False"

lemma total_hits_same_readings: "same_readings g h \<Longrightarrow> total_hits h = total_hits g"
  using counter_val.simps unfolding same_readings_def total_hits_def by metis

lemma step_hits:
  assumes "sys_step s a s'" "inflight_ok s"
  shows "\<exists>k \<le> of_bool (is_hook a). total_hits (glob (sst s')) = total_hits (glob (sst s)) + word_of_nat k"
  using assms
proof (cases rule: sys_step.cases)
  case (enter P c h inst r inst' r' st')
  from enter_result [OF enter(3,5,6), of r "sst s"] enter(7)
  have "total_hits (glob st') \<in> {total_hits (glob (sst s)), total_hits (glob (sst s)) + 1}"
    by (metis Inr_inject prod.inject)
  with enter(1,2) show ?thesis
    by (auto intro: exI [of _ 0] exI [of _ 1])
next
  case (enter_dropped P c h inst r e inst' r' st')
  from enter_result [OF enter_dropped(3,5,6), of r "sst s"] enter_dropped(7,8)
  show ?thesis by (metis Inr_inject prod.inject)
next
  case (return c P inst h r e inst' r' st')
  have P: "P \<in> set loaded_probes" "length (data inst) = data_size P div 8"
    using return(3) assms(2) by (auto simp: inflight_ok_def)
  have "total_hits (glob st') \<in> {total_hits (glob (sst s)), total_hits (glob (sst s)) + 1}"
    using return(5) by (cases rule: return_result [OF P(1) return(4) P(2), of r "sst s"]) auto
  with return(1,2) show ?thesis
    by (auto intro: exI [of _ 0] exI [of _ 1])
next
  case vendor
  then show ?thesis by simp
next
  case (param_store n v g)
  then show ?thesis using total_hits_same_readings [OF sysfs_store_readings] by simp
qed

lemma run_hits:
  "sys_run s as s' \<Longrightarrow> inflight_ok s \<Longrightarrow>
   \<exists>k \<le> length (filter is_hook as). total_hits (glob (sst s')) = total_hits (glob (sst s)) + word_of_nat k"
proof (induction rule: sys_run.induct)
  case (run_nil s)
  show ?case by simp
next
  case (run_cons s a s' as s'')
  obtain k where k: "k \<le> of_bool (is_hook a)"
    "total_hits (glob (sst s')) = total_hits (glob (sst s)) + word_of_nat k"
    using step_hits run_cons.hyps(1) run_cons.prems by blast
  obtain l where l: "l \<le> length (filter is_hook as)"
    "total_hits (glob (sst s'')) = total_hits (glob (sst s')) + word_of_nat l"
    using run_cons.IH step_inflight_ok run_cons.hyps(1) run_cons.prems by blast
  show ?case
    by (rule exI [of _ "k + l"]) (use k l in \<open>cases "is_hook a"; simp add: add.assoc\<close>)
qed

text \<open>What a step of the module may do to memory, to the settings and to the raw temperature.\<close>

lemma step_confined:
  assumes "sys_step s a s'" "inflight_ok s" "is_hook a"
  shows "same_config (glob (sst s)) (glob (sst s'))"
    and "kmem (sst s') x \<noteq> kmem (sst s) x \<Longrightarrow>
      \<exists>c r P inst. a = Return c r \<and> inflight s c = Some (P, inst) \<and> x \<in> return_bytes P inst"
    and "raw_fg_temperature (glob (sst s')) \<noteq> raw_fg_temperature (glob (sst s)) \<Longrightarrow>
      \<exists>c r P inst. a = Return c r \<and> inflight s c = Some (P, inst) \<and> fg_probe P"
proof -
  have "same_config (glob (sst s)) (glob (sst s')) \<and>
    (kmem (sst s') x \<noteq> kmem (sst s) x \<longrightarrow>
      (\<exists>c r P inst. a = Return c r \<and> inflight s c = Some (P, inst) \<and> x \<in> return_bytes P inst)) \<and>
    (raw_fg_temperature (glob (sst s')) \<noteq> raw_fg_temperature (glob (sst s)) \<longrightarrow>
      (\<exists>c r P inst. a = Return c r \<and> inflight s c = Some (P, inst) \<and> fg_probe P))"
    using assms(1)
  proof (cases rule: sys_step.cases)
    case (enter P c h inst r inst' r' st')
    show ?thesis
      by (rule enter_result [OF enter(3,5,6), of r "sst s"]) (use enter(2,7) in auto)
  next
    case (enter_dropped P c h inst r e inst' r' st')
    show ?thesis
      by (rule enter_result [OF enter_dropped(3,5,6), of r "sst s"]) (use enter_dropped(2,7) in auto)
  next
    case (return c P inst h r e inst' r' st')
    have P: "P \<in> set loaded_probes" "length (data inst) = data_size P div 8"
      using return(3) assms(2) by (auto simp: inflight_ok_def)
    show ?thesis
      using return(5)
      by (cases rule: return_result [OF P(1) return(4) P(2), of r "sst s"])
        (use return(1,2,3) in auto)
  qed (use assms(3) in auto)
  then show "same_config (glob (sst s)) (glob (sst s'))"
    and "kmem (sst s') x \<noteq> kmem (sst s) x \<Longrightarrow>
      \<exists>c r P inst. a = Return c r \<and> inflight s c = Some (P, inst) \<and> x \<in> return_bytes P inst"
    and "raw_fg_temperature (glob (sst s')) \<noteq> raw_fg_temperature (glob (sst s)) \<Longrightarrow>
      \<exists>c r P inst. a = Return c r \<and> inflight s c = Some (P, inst) \<and> fg_probe P"
    by blast+
qed

end
