(* ===== verification/Runtime_Claims.thy ===== *)
theory Runtime_Claims
  imports Cutoff_Claims Runtime
begin

text \<open>
  Properties of the loaded module over every run of hooked calls, vendor writes and sysfs stores
  (theory Runtime), and of its parameters (theory Module\_Params).
\<close>

subsection \<open>A run for the witnesses\<close>

definition fg_probe_loaded :: kretprobe where
  "fg_probe_loaded = prepare_probe
     (pair_probe ''strategy_fg_ops_get_temp'' k100pm_fg_temp_entry k100pm_fg_temp_return)"

lemma fg_probe_loaded_simps [simp]:
  "fg_probe_loaded \<in> set loaded_probes" "fg_probe fg_probe_loaded"
  "entry_handler fg_probe_loaded = Some k100pm_fg_temp_entry"
  "handler fg_probe_loaded = Some k100pm_fg_temp_return" "data_size fg_probe_loaded = 16"
  by (simp_all add: fg_probe_loaded_def loaded_probes_def k100pm_probes_def fg_probeI)
    (simp_all add: prepare_probe_def pair_probe_def sizeof_k100pm_probe_ctx_def)

definition entered :: system where
  "entered = (loaded_system (fg_state 400))\<lparr>inflight := [5 \<mapsto> (fg_probe_loaded, ctx_with 9 0x100)]\<rparr>"

lemma enter_example:
  "sys_step (loaded_system (fg_state 400)) (Enter 5 fg_probe_loaded (regs_with 0x100 0)) entered"
proof -
  have e: "k100pm_fg_temp_entry (ctx_with 9 9) (regs_with 0x100 0) (fg_state 400) =
      Inr (0, ctx_with 9 0x100, regs_with 0x100 0, fg_state 400)"
    by (simp add: k100pm_fg_temp_entry_def ctx_write_def ctx_with_def)
  have "sys_step (loaded_system (fg_state 400)) (Enter 5 fg_probe_loaded (regs_with 0x100 0))
      ((loaded_system (fg_state 400))\<lparr>sst := fg_state 400,
        inflight := (inflight (loaded_system (fg_state 400)))(5 \<mapsto> (fg_probe_loaded, ctx_with 9 0x100))\<rparr>)"
    by (rule sys_step.enter [where inst = "ctx_with 9 9" and h = k100pm_fg_temp_entry and r' = "regs_with 0x100 0"]) (use e in \<open>simp_all add: loaded_system_def\<close>)
  then show ?thesis by (simp add: entered_def loaded_system_def)
qed

lemma return_example:
  "\<exists>s. sys_step entered (Return 5 (regs_with 0 0)) s \<and> read_once32 (kmem (sst s)) 0x100 = Inr 360 \<and>
     temperature_hits (glob (sst s)) = 1"
proof -
  obtain m where m: "write_once32 (kmem (fg_state 400)) 0x100 (temperature_ceiling (glob (fg_state 400))) = Inr m"
    "k100pm_fg_temp_return (ctx_with 9 0x100) (regs_with 0 0) (fg_state 400) =
      Inr (0, ctx_with 9 0x100, regs_with 0 0, fg_after 0x100 400 m (fg_state 400))"
    by (rule fg_temp_return_good [of "ctx_with 9 0x100" "0x100" "fg_state 400" 400]) simp_all
  have "sys_step entered (Return 5 (regs_with 0 0))
      (entered\<lparr>sst := fg_after 0x100 400 m (fg_state 400), inflight := (inflight entered)(5 := None)\<rparr>)"
    by (rule sys_step.return [where inst = "ctx_with 9 0x100" and P = fg_probe_loaded and h = k100pm_fg_temp_return and e = 0
          and inst' = "ctx_with 9 0x100" and r' = "regs_with 0 0"])
      (use m in \<open>simp_all add: entered_def loaded_system_def\<close>)
  moreover have "read_once32 (kmem (fg_after 0x100 400 m (fg_state 400))) 0x100 = Inr 360"
    using fg_after_read [OF m(1), of 400] by (simp add: clamped_temperature_def)
  moreover have "temperature_hits (glob (fg_after 0x100 400 m (fg_state 400))) = 1"
    by (simp add: fg_after_glob clamp_fires_def)
      (simp add: at_temperature_def default_config_def k100pm_initial_def)
  ultimately show ?thesis by auto
qed

subsection \<open>Safety over runs\<close>

text \<open>
  C1: At every reachable state, whichever calls are in flight, every entry handler of the table
  returns 0 on a fresh instance of its probe, and the return handler of every call in flight
  either returns 0 with registers and instance untouched or faults on an address that is not
  mapped: no handler reads or writes past the data its probe asked for.
\<close>

theorem hooks_never_overrun:
  assumes "sys_run (loaded_system st) acts s"
  shows "(\<forall>P h inst r. P \<in> set loaded_probes \<and> entry_handler P = Some h \<and>
       length (data inst) = data_size P div 8 \<longrightarrow>
       (\<exists>inst' r' st'. h inst r (sst s) = Inr (0, inst', r', st') \<and>
          length (data inst') = data_size P div 8)) \<and>
     (\<forall>c P inst h r. inflight s c = Some (P, inst) \<and> handler P = Some h \<longrightarrow>
       (\<exists>a. h inst r (sst s) = Inl (BadAddress a)) \<or> (\<exists>st'. h inst r (sst s) = Inr (0, inst, r, st')))"
proof (intro conjI allI impI; elim conjE)
  fix P h r and inst :: kretprobe_instance
  assume "P \<in> set loaded_probes" "entry_handler P = Some h" "length (data inst) = data_size P div 8"
  then show "\<exists>inst' r' st'. h inst r (sst s) = Inr (0, inst', r', st') \<and>
      length (data inst') = data_size P div 8"
    using enter_result [of P h inst r "sst s"] by metis
next
  fix c P inst h r
  assume "inflight s c = Some (P, inst)" and h: "handler P = Some h"
  then have P: "P \<in> set loaded_probes" "length (data inst) = data_size P div 8"
    using run_inflight_ok [OF assms inflight_ok_loaded] by (auto simp: inflight_ok_def)
  show "(\<exists>a. h inst r (sst s) = Inl (BadAddress a)) \<or>
      (\<exists>st'. h inst r (sst s) = Inr (0, inst, r, st'))"
    by (cases rule: return_result [OF P(1) h P(2), of r "sst s"]) auto
qed

theorem hooks_never_overrun_witness:
  "\<exists>st'. k100pm_fg_temp_return (ctx_with 9 0x100) (regs_with 0 0) (sst entered) =
     Inr (0, ctx_with 9 0x100, regs_with 0 0, st')"
proof -
  have run: "sys_run (loaded_system (fg_state 400)) [Enter 5 fg_probe_loaded (regs_with 0x100 0)] entered"
    by (rule run_cons [OF enter_example run_nil])
  have good: "\<exists>m st'. k100pm_fg_temp_return (ctx_with 9 0x100) (regs_with 0 0) (fg_state 400) = Inr st'"
    by (rule fg_temp_return_good [of "ctx_with 9 0x100" "0x100" "fg_state 400" 400 "regs_with 0 0"]) auto
  have "inflight entered 5 = Some (fg_probe_loaded, ctx_with 9 0x100)" "sst entered = fg_state 400"
    by (simp_all add: entered_def loaded_system_def)
  with hooks_never_overrun [OF run] good show ?thesis
    by (metis fg_probe_loaded_simps(4) Inr_Inl_False)
qed

lemma entered_inflight:
  assumes "sys_step s (Enter c P r) s1"
  obtains h inst inst' r' st' where "P \<in> set loaded_probes" "entry_handler P = Some h"
    "length (data inst) = data_size P div 8" "h inst r (sst s) = Inr (0, inst', r', st')"
    "inflight s1 c = Some (P, inst')"
  using assms
proof (cases rule: sys_step.cases)
  case (enter h inst inst' r' st')
  then show thesis using that [of h inst inst' r' st'] by simp
next
  case (enter_dropped h inst e inst' r' st')
  from enter_result [OF enter_dropped(2,4,5), of r "sst s"] enter_dropped(6,7)
  have False by (metis Inr_inject prod.inject)
  then show thesis ..
qed

text \<open>
  C2: A hooked call writes only what its own arguments named on entry: between the entry of a
  call and its return anything may run, and the return changes memory only in the four bytes at
  the temperature pointer that was in register 1 on entry (the FG getters) or in the three
  threshold words of the context that was in register 0 (the threshold updates).
\<close>

theorem writes_named_on_entry:
  assumes "sys_run (loaded_system st) before s" "sys_step s (Enter c P r) s1"
    and "sys_run s1 acts s2" "\<not> list_ex (returns_call c) acts"
    and "sys_step s2 (Return c r2) s3" "kmem (sst s3) x \<noteq> kmem (sst s2) x"
  shows "fg_probe P \<and> x \<in> {regs r ! 1, regs r ! 1 + 1, regs r ! 1 + 2, regs r ! 1 + 3} \<or>
    cutoff_probe P \<and> x \<in> vcutoff_bytes (regs r ! 0)"
proof -
  have ok: "inflight_ok s" by (rule run_inflight_ok [OF assms(1) inflight_ok_loaded])
  then have ok2: "inflight_ok s2"
    using step_inflight_ok [OF assms(2)] run_inflight_ok [OF assms(3)] by blast
  obtain h inst inst' r' st' where e: "P \<in> set loaded_probes" "entry_handler P = Some h"
    "length (data inst) = data_size P div 8" "h inst r (sst s) = Inr (0, inst', r', st')"
    "inflight s1 c = Some (P, inst')"
    by (rule entered_inflight [OF assms(2)])
  have kept: "inflight s2 c = Some (P, inst')"
    using run_inflight_kept [OF assms(3) e(5)] assms(4) by (auto simp: list_ex_iff)
  have "x \<in> return_bytes P inst'"
    using step_confined(2) [OF assms(5) ok2 _ assms(6)] kept by auto
  then show ?thesis
    using fg_entry_result(1) [OF _ e(2,3), of r "sst s"] fg_entry_result(2) [OF _ e(2,3)]
      cutoff_entry_result(1) [OF _ e(2,3), of r "sst s"] cutoff_entry_result(2) [OF _ e(2,3)] e(4)
    by (auto simp: return_bytes_def has_ctx_length split: if_splits)
qed

theorem writes_named_on_entry_witness:
  "\<exists>s x. sys_step entered (Return 5 (regs_with 0 0)) s \<and> kmem (sst s) x \<noteq> kmem (sst entered) x \<and>
     x \<in> {0x100, 0x101, 0x102, 0x103}"
proof -
  obtain s where s: "sys_step entered (Return 5 (regs_with 0 0)) s" "read_once32 (kmem (sst s)) 0x100 = Inr 360"
    using return_example by blast
  have "read_once32 (kmem (sst entered)) 0x100 = Inr 400"
    by (simp add: entered_def loaded_system_def)
  with s(2) have "kmem (sst s) \<noteq> kmem (sst entered)" by auto
  then obtain x where x: "kmem (sst s) x \<noteq> kmem (sst entered) x" by auto
  have "x \<in> {0x100, 0x101, 0x102, 0x103}"
    using writes_named_on_entry [OF run_nil enter_example run_nil _ s(1) x] fg_not_cutoff
    by auto
  with s x show ?thesis by blast
qed

text \<open>
  No hooked call ever changes a setting, and the raw temperature changes only when a hooked
  FG getter returns.
\<close>

theorem hooks_keep_settings:
  assumes "sys_run (loaded_system st) before s" "sys_step s a s'" "is_hook a"
  shows "same_config (glob (sst s)) (glob (sst s')) \<and>
    (raw_fg_temperature (glob (sst s')) = raw_fg_temperature (glob (sst s)) \<or>
     (\<exists>c r P inst. a = Return c r \<and> inflight s c = Some (P, inst) \<and> fg_probe P))"
  using step_confined(1,3) [OF assms(2) run_inflight_ok [OF assms(1) inflight_ok_loaded] assms(3)]
  by blast

theorem hooks_keep_settings_witness:
  "same_config (glob (sst (loaded_system (fg_state 400)))) (glob (sst entered)) \<and>
   raw_fg_temperature (glob (sst entered)) = 300"
  using hooks_keep_settings [OF run_nil enter_example] by (auto simp: entered_def loaded_system_def)

text \<open>
  Hits are conserved: over any run the seven counters together grow by at most one for each
  entry and each return of a hooked call (modulo \<open>2 ^ 32\<close>); vendor code and sysfs stores add
  none.
\<close>

theorem hits_bounded_by_calls:
  assumes "sys_run (loaded_system st) acts s"
  shows "\<exists>k \<le> length (filter is_hook acts).
    total_hits (glob (sst s)) = total_hits (glob st) + word_of_nat k"
  using run_hits [OF assms inflight_ok_loaded] by (simp add: loaded_system_def)

theorem hits_bounded_by_calls_witness:
  "\<exists>s k. sys_run (loaded_system (fg_state 400))
       [Enter 5 fg_probe_loaded (regs_with 0x100 0), Vendor (kmem (fg_state 400)), Return 5 (regs_with 0 0)] s \<and>
     k \<le> (2 :: nat) \<and> total_hits (glob (sst s)) = word_of_nat k \<and> temperature_hits (glob (sst s)) = 1"
proof -
  obtain s where s: "sys_step entered (Return 5 (regs_with 0 0)) s" "temperature_hits (glob (sst s)) = 1"
    using return_example by blast
  have "sys_step entered (Vendor (kmem (fg_state 400))) (entered\<lparr>sst := (sst entered)\<lparr>kmem := kmem (fg_state 400)\<rparr>\<rparr>)"
    by (rule sys_step.vendor)
  then have "sys_step entered (Vendor (kmem (fg_state 400))) entered"
    by (simp add: entered_def loaded_system_def)
  then have run: "sys_run (loaded_system (fg_state 400))
      [Enter 5 fg_probe_loaded (regs_with 0x100 0), Vendor (kmem (fg_state 400)), Return 5 (regs_with 0 0)] s"
    by (intro run_cons [OF enter_example] run_cons [OF _ run_cons [OF s(1) run_nil]])
  have "total_hits (glob (fg_state 400)) = 0"
    by (simp add: total_hits_def at_temperature_def default_config_def k100pm_initial_def)
  with hits_bounded_by_calls [OF run] obtain k :: nat
    where "k \<le> 2" "total_hits (glob (sst s)) = word_of_nat k"
    by (force simp: numeral_2_eq_2)
  with run s(2) show ?thesis by blast
qed

subsection \<open>Parameters\<close>

text \<open>
  The parameter table is well formed (19 different names, every mode accepted by the
  compile-time check of \<open>module_param\<close>), and a store through sysfs changes no counter and not
  the raw temperature, whatever name and value root writes.
\<close>

theorem parameter_table:
  "length k100pm_params = 19 \<and> distinct (map param_name k100pm_params) \<and>
   list_all (\<lambda>p. verify_octal_permissions (perm p)) k100pm_params \<and>
   list_all (\<lambda>p. assign_param (param_name p) (case param_type p of Tbool \<Rightarrow> Vbool False | Tuint \<Rightarrow> Vuint 0) g
      \<noteq> None) k100pm_params \<and>
   (sysfs_store n v g = None \<or> same_readings g (the (sysfs_store n v g)))"
proof -
  have "sysfs_store n v g = None \<or> same_readings g (the (sysfs_store n v g))"
    using sysfs_store_readings by (cases "sysfs_store n v g") auto
  moreover have "list_all (\<lambda>p. verify_octal_permissions (perm p)) k100pm_params"
    by (simp add: k100pm_params_def module_param_def verify_octal_permissions_def drop_bit_eq_div)
  moreover have "list_all (\<lambda>p. assign_param (param_name p)
      (case param_type p of Tbool \<Rightarrow> Vbool False | Tuint \<Rightarrow> Vuint 0) g \<noteq> None) k100pm_params"
    by (simp add: k100pm_params_def module_param_def assign_param_def)
  ultimately show ?thesis
    by (simp add: k100pm_params_def module_param_def)
qed

end
