(* ===== verification/Load_Claims.thy ===== *)
theory Load_Claims
  imports Runtime Charge_Claims
begin

text \<open>
  Properties of loading and unloading the module with its probe table (theory Probe\_Table).
\<close>

subsection \<open>A kernel for the witnesses\<close>

text \<open>
  A kernel whose state is the list of armed entries; \<open>failing_at n\<close> refuses entry \<open>n\<close>
  with \<open>-ENOENT\<close>, as for a symbol that is not there.
\<close>

definition failing_at :: "nat \<Rightarrow> nat list register_fn" where
  "failing_at n i p k = (if i = n then (- 2, k) else (0, i # k))"

definition disarm :: "nat list unregister_fn" where
  "disarm i p k = removeAll i k"

lemma failing_at_api: "kretprobe_api (failing_at n) disarm set"
  by (simp add: kretprobe_api_def failing_at_def disarm_def)

lemma length_k100pm_probes [simp]: "length k100pm_probes = 16"
  by (simp add: k100pm_probes_def)

lemma length_loaded_probes [simp]: "length loaded_probes = 16"
  by (simp add: loaded_probes_def)

lemma image_simps [simp]:
  "probes (module_image s k) = k100pm_probes" "registered (module_image s k) = 0"
  "kst (module_image s k) = s" "kern (module_image s k) = k"
  by (simp_all add: module_image_def)

subsection \<open>Loading\<close>

text \<open>
  The loop returns 0 only after a successful call for every entry, and otherwise an error that
  \<open>register_kretprobe\<close> gave for an entry.
\<close>

definition outcome_of_calls :: "'k register_fn \<Rightarrow> kretprobe list \<Rightarrow> nat \<Rightarrow> int \<Rightarrow> bool" where
  "outcome_of_calls reg ps i ret \<longleftrightarrow>
     (if ret = 0 then \<forall>j \<in> {i..<length ps}. \<exists>k. fst (reg j (ps ! j) k) = 0
      else \<exists>j \<in> {i..<length ps}. \<exists>k. fst (reg j (ps ! j) k) = ret)"

lemma outcome_step:
  assumes "i < length ps" "fst (reg i (ps ! i) k) = 0"
  shows "outcome_of_calls reg ps (Suc i) ret \<Longrightarrow> outcome_of_calls reg ps i ret"
proof -
  have "{i..<length ps} = insert i {Suc i..<length ps}" using assms(1) by auto
  then show "outcome_of_calls reg ps (Suc i) ret \<Longrightarrow> outcome_of_calls reg ps i ret"
    using assms(2) by (auto simp: outcome_of_calls_def split: if_splits)
qed

lemma init_loop_outcome:
  "k100pm_init_loop reg unreg i d = Inr (ret, d') \<Longrightarrow> map prepare_probe (drop i (probes d)) = drop i ps \<Longrightarrow>
   length ps = length (probes d) \<Longrightarrow> outcome_of_calls reg ps i ret"
proof (induction reg unreg i d rule: k100pm_init_loop.induct)
  case (1 reg unreg i d)
  show ?case
  proof (cases "i < length (probes d)")
    case False
    then show ?thesis
      using "1.prems" by (auto simp: k100pm_init_loop.simps [of reg unreg i d] outcome_of_calls_def)
  next
    case True
    have p: "prepare_probe (probes d ! i) = ps ! i"
      and tail: "map prepare_probe (drop (Suc i) (probes d)) = drop (Suc i) ps"
      using "1.prems"(2) True "1.prems"(3)
      by (simp_all add: Cons_nth_drop_Suc [symmetric] del: Cons_nth_drop_Suc)
    obtain e k where rk: "reg i (ps ! i) (kern d) = (e, k)" by fastforce
    let ?d1 = "d\<lparr>probes := (probes d)[i := ps ! i]\<rparr>"
    show ?thesis
    proof (cases "e = 0")
      case ok: True
      then have "k100pm_init_loop reg unreg (Suc i) (?d1\<lparr>kern := k, registered := registered d + 1\<rparr>) =
          Inr (ret, d')"
        using "1.prems"(1) True rk p by (simp add: k100pm_init_loop.simps [of reg unreg i d])
      then have "outcome_of_calls reg ps (Suc i) ret"
        using "1.IH" [of ?d1 "(e, k)" e k "?d1\<lparr>kern := k\<rparr>"] True ok rk p tail "1.prems"(3) by simp
      then show ?thesis
        using outcome_step [of i ps reg "kern d"] True ok rk "1.prems"(3) by simp
    next
      case refused: False
      then have "ret = e"
        using "1.prems"(1) True rk p
        by (auto simp: k100pm_init_loop.simps [of reg unreg i d] fbind_Inr_iff)
      then show ?thesis
        using True refused rk "1.prems"(3)
        by (auto simp: outcome_of_calls_def intro!: bexI [of _ i] exI [of _ "kern d"])
    qed
  qed
qed

text \<open>
  C4: Loading an armed module arms all 16 probes or none: it returns 0 with all of the table
  armed, each entry with a return handler and \<open>maxactive\<close> 32, after a successful call for every
  entry; or the error \<open>register_kretprobe\<close> gave for one of the entries, with exactly the probes
  armed that were armed before. It touches no setting, counter or memory.
\<close>

theorem load_all_or_nothing:
  assumes "kretprobe_api reg unreg active" "armed (glob s)" "active k \<inter> {..<16} = {}"
  shows "\<exists>ret d. k100pm_chg_runtime_init reg unreg (module_image s k) = Inr (ret, d) \<and>
    glob (kst d) = glob s \<and> kmem (kst d) = kmem s \<and> outcome_of_calls reg loaded_probes 0 ret \<and>
    (if ret = 0
     then registered d = 16 \<and> probes d = loaded_probes \<and> active (kern d) = active k \<union> {..<16}
     else registered d = 0 \<and> active (kern d) = active k)"
proof -
  have start: "registered_up_to active (active k) 0 (module_image s k)"
    by (simp add: registered_up_to_def)
  obtain ret d where loop: "k100pm_init_loop reg unreg 0 (module_image s k) = Inr (ret, d)"
    and frame: "glob (kst d) = glob s" "kmem (kst d) = kmem s"
    and good: "ret = 0 \<longrightarrow> registered_up_to active (active k) 16 d \<and> probes d = loaded_probes"
    and bad: "ret \<noteq> 0 \<longrightarrow> registered d = 0 \<and> active (kern d) = active k"
    using init_loop_result [OF assms(1) start] assms(3) by (auto simp: loaded_probes_def)
  have "registered d = 16" if "ret = 0"
    using that good by (auto simp: registered_up_to_def word_unat_eq_iff)
  moreover have "outcome_of_calls reg loaded_probes 0 ret"
    using init_loop_outcome [OF loop, of loaded_probes] by (simp add: loaded_probes_def)
  ultimately show ?thesis
    using loop frame good bad assms(2)
    by (cases "ret = 0")
      (auto simp: k100pm_chg_runtime_init_def registered_up_to_def pr_info_def Let_def)
qed

theorem load_all_or_nothing_witness:
  "(\<exists>d. k100pm_chg_runtime_init (failing_at 99) disarm (module_image (state_at 300) [40]) = Inr (0, d) \<and>
      set (kern d) = {40} \<union> {..<16}) \<and>
   (\<exists>ret d. k100pm_chg_runtime_init (failing_at 11) disarm (module_image (state_at 300) [40]) = Inr (ret, d) \<and>
      ret = - 2 \<and> set (kern d) = {40})"
proof
  have armed: "armed (at_temperature 300)" by (simp add: at_temperature_def default_config_def)
  have all: "outcome_of_calls (failing_at 99) loaded_probes 0 ret \<Longrightarrow> ret = 0" for ret
    by (auto simp: outcome_of_calls_def failing_at_def split: if_splits)
  have some: "outcome_of_calls (failing_at 11) loaded_probes 0 ret \<Longrightarrow> ret = - 2" for ret
    by (auto simp: outcome_of_calls_def failing_at_def split: if_splits)
  show "\<exists>d. k100pm_chg_runtime_init (failing_at 99) disarm (module_image (state_at 300) [40]) = Inr (0, d) \<and>
      set (kern d) = {40} \<union> {..<16}"
    using load_all_or_nothing [OF failing_at_api [of 99], of "state_at 300" "[40]"] armed all by fastforce
  show "\<exists>ret d. k100pm_chg_runtime_init (failing_at 11) disarm (module_image (state_at 300) [40]) = Inr (ret, d) \<and>
      ret = - 2 \<and> set (kern d) = {40}"
    using load_all_or_nothing [OF failing_at_api [of 11], of "state_at 300" "[40]"] armed some by fastforce
qed

text \<open>
  C5: Whatever happened to settings, counters and memory while the module was loaded,
  unloading it after a successful load disarms exactly its 16 probes, ends with nothing
  registered and reports the counters as they are.
\<close>

theorem load_unload:
  assumes "kretprobe_api reg unreg active" "armed (glob s)" "active k \<inter> {..<16} = {}"
    and "k100pm_chg_runtime_init reg unreg (module_image s k) = Inr (0, d)"
  shows "\<exists>d'. k100pm_chg_runtime_exit unreg (d\<lparr>kst := s'\<rparr>) = Inr d' \<and> registered d' = 0 \<and>
    active (kern d') = active k \<and> glob (kst d') = glob s' \<and> kmem (kst d') = kmem s' \<and>
    (\<exists>fmt. klog (kst d') = klog s' @ [Pr_info fmt (map (\<lambda>c. counter_val c (glob s'))
       [Ichg_hits, Cv_hits, Curve_hits, Pps_hits, Thermal_hits, Temperature_hits, Cutoff_hits])])"
proof -
  let ?d = "d\<lparr>kst := s'\<rparr>"
  have start: "registered_up_to active (active k) 0 (module_image s k)"
    by (simp add: registered_up_to_def)
  have loop: "\<exists>d0. k100pm_init_loop reg unreg 0 (module_image s k) = Inr (0, d0) \<and>
      registered d0 = registered d \<and> probes d0 = probes d \<and> kern d0 = kern d"
    using assms(2,4) by (auto simp: k100pm_chg_runtime_init_def fbind_Inr_iff Let_def split: if_splits)
  have up: "registered_up_to active (active k) 16 ?d" "probes ?d = loaded_probes"
    using init_loop_result [OF assms(1) start] assms(3) loop
    by (auto simp: registered_up_to_def loaded_probes_def)
  then have "unat (registered ?d) \<le> length (probes ?d)" by (simp add: registered_up_to_def)
  from unregister_all [OF this, of unreg reg active] obtain d1
    where d1: "k100pm_unregister_all unreg ?d = Inr d1" "registered d1 = 0" "kst d1 = s'"
      "active (kern d1) = active (kern ?d) - {..<16}"
    using assms(1) up(1) by (auto simp: registered_up_to_def)
  have "active (kern d1) = active k"
    using d1(4) up(1) assms(3) by (auto simp: registered_up_to_def)
  with d1 show ?thesis
    by (simp add: k100pm_chg_runtime_exit_def pr_info_def Let_def)
qed

theorem load_unload_witness:
  "\<exists>d d'. k100pm_chg_runtime_init (failing_at 99) disarm (module_image (state_at 300) [40]) = Inr (0, d) \<and>
    k100pm_chg_runtime_exit disarm (d\<lparr>kst := state_at 600\<rparr>) = Inr d' \<and> set (kern d') = {40}"
proof -
  have armed: "armed (at_temperature 300)" by (simp add: at_temperature_def default_config_def)
  have start: "registered_up_to set (set [40]) 0 (module_image (state_at 300) [40])"
    by (simp add: registered_up_to_def)
  obtain ret d where loop: "k100pm_init_loop (failing_at 99) disarm 0 (module_image (state_at 300) [40]) =
      Inr (ret, d)" and "glob (kst d) = at_temperature 300"
    using init_loop_result [OF failing_at_api [of 99] start] by auto
  have "ret = 0"
    using init_loop_outcome [OF loop, of loaded_probes]
    by (auto simp: loaded_probes_def outcome_of_calls_def failing_at_def split: if_splits)
  then obtain d where d: "k100pm_chg_runtime_init (failing_at 99) disarm (module_image (state_at 300) [40]) = Inr (0, d)"
    using loop armed by (auto simp: k100pm_chg_runtime_init_def Let_def)
  then show ?thesis
    using load_unload [OF failing_at_api [of 99] _ _ d, of "state_at 600"] armed by auto
qed

text \<open>
  A module that is not armed loads successfully and inert: it registers no probe, changes
  no setting, counter, memory or kernel state, and unloading it calls the kernel for nothing.
\<close>

theorem unarmed_load_inert:
  assumes "\<not> armed (glob s)"
  shows "\<exists>d. k100pm_chg_runtime_init reg unreg (module_image s k) = Inr (0, d) \<and>
    registered d = 0 \<and> kern d = k \<and> glob (kst d) = glob s \<and> kmem (kst d) = kmem s \<and>
    (\<exists>d'. k100pm_chg_runtime_exit unreg d = Inr d' \<and> kern d' = k \<and> registered d' = 0)"
  using assms
  by (simp add: k100pm_chg_runtime_init_def k100pm_chg_runtime_exit_def pr_info_def Let_def
      k100pm_unregister_all.simps)

theorem unarmed_load_inert_witness:
  "\<exists>d. k100pm_chg_runtime_init (failing_at 0) disarm (module_image \<lparr>glob = k100pm_initial, kmem = Map.empty, klog = []\<rparr> [7]) =
     Inr (0, d) \<and> kern d = [7]"
  using unarmed_load_inert [of "\<lparr>glob = k100pm_initial, kmem = Map.empty, klog = []\<rparr>" "failing_at 0" disarm "[7]"]
  by (auto simp: k100pm_initial_def)

end
