(* ===== verification/Interference.thy ===== *)
theory Interference
  imports Voter_Contract
begin

text \<open>
  The rewriting hooks once more, at the granularity of the code's \<open>READ_ONCE\<close> and
  \<open>WRITE_ONCE\<close> accesses: the handlers run on every CPU, root stores parameters at any time, and
  the FG hook publishes a new raw temperature at any time, so another agent may change the state
  between any two accesses of src/src/K100PM_CHG_RUNTIME.c. A program is a tree of atomic
  accesses; registers and the probe instance are private to the call and are not part of it.
\<close>

subsection \<open>Programs of atomic accesses\<close>

datatype 'a prog = Return_p 'a | Atomic "kstate \<Rightarrow> 'a prog \<times> kstate"

primrec pbind :: "'a prog \<Rightarrow> ('a \<Rightarrow> 'b prog) \<Rightarrow> 'b prog" where
  "pbind (Return_p a) f = f a"
| "pbind (Atomic k) f = Atomic (\<lambda>s. map_prod (\<lambda>p. pbind p f) id (k s))"

definition read_once :: "(k100pm \<Rightarrow> 'a) \<Rightarrow> 'a prog" where
  "read_once x = Atomic (\<lambda>s. (Return_p (x (glob s)), s))"

definition write_once :: "(k100pm \<Rightarrow> k100pm) \<Rightarrow> unit prog" where
  "write_once u = Atomic (\<lambda>s. (Return_p (), s\<lparr>glob := u (glob s)\<rparr>))"

definition log_p :: "string \<Rightarrow> u32 list \<Rightarrow> unit prog" where
  "log_p fmt args = Atomic (\<lambda>s. (Return_p (), pr_info fmt args s))"

text \<open>Run without interference.\<close>

primrec run_alone :: "'a prog \<Rightarrow> kstate \<Rightarrow> 'a \<times> kstate" where
  "run_alone (Return_p a) = (\<lambda>s. (a, s))"
| "run_alone (Atomic k) = (\<lambda>s. case map_prod run_alone id (k s) of (f, s') \<Rightarrow> f s')"

lemma run_alone_bind:
  "run_alone (pbind p f) s = (case run_alone p s of (a, s') \<Rightarrow> run_alone (f a) s')"
proof (induction p arbitrary: s)
  case (Atomic k)
  obtain p' s' where k: "k s = (p', s')" by fastforce
  have "p' \<in> Basic_BNFs.fsts (k s)" by (simp add: k)
  then have "run_alone (pbind p' f) s' = (case run_alone p' s' of (a, s'') \<Rightarrow> run_alone (f a) s'')"
    by (intro Atomic.IH) auto
  then show ?case by (simp add: k)
qed simp

lemma run_alone_atoms [simp]:
  "run_alone (read_once x) s = (x (glob s), s)"
  "run_alone (write_once u) s = ((), s\<lparr>glob := u (glob s)\<rparr>)"
  "run_alone (log_p fmt args) s = ((), pr_info fmt args s)"
  by (simp_all add: read_once_def write_once_def log_p_def)

text \<open>
  Run with interference: before every access the environment takes any step \<open>R\<close> allows.
\<close>

inductive exec :: "(kstate \<Rightarrow> kstate \<Rightarrow> bool) \<Rightarrow> 'a prog \<Rightarrow> kstate \<Rightarrow> 'a \<Rightarrow> kstate \<Rightarrow> bool"
  for R :: "kstate \<Rightarrow> kstate \<Rightarrow> bool" where
  exec_return: "exec R (Return_p a) s a s"
| exec_atomic: "R s s1 \<Longrightarrow> k s1 = (p, s2) \<Longrightarrow> exec R p s2 a s3 \<Longrightarrow> exec R (Atomic k) s a s3"

inductive_cases exec_returnE: "exec R (Return_p b) s a s'"
inductive_cases exec_atomicE: "exec R (Atomic k) s a s'"

lemma exec_alone: "exec (=) p s a s' \<longleftrightarrow> run_alone p s = (a, s')"
proof
  show "run_alone p s = (a, s')" if "exec (=) p s a s'"
    using that by (induction rule: exec.induct) auto
  show "exec (=) p s a s'" if "run_alone p s = (a, s')"
    using that
  proof (induction p arbitrary: s)
    case (Return_p x)
    then show ?case by (auto intro: exec_return)
  next
    case (Atomic k)
    obtain p' s1 where k: "k s = (p', s1)" by fastforce
    have "p' \<in> Basic_BNFs.fsts (k s)" by (simp add: k)
    moreover have "run_alone p' s1 = (a, s')" using Atomic.prems k by simp
    ultimately have "exec (=) p' s1 a s'" using Atomic.IH by (metis rangeI)
    with k show ?case by (rule exec_atomic [OF refl])
  qed
qed

text \<open>
  \<open>always Q p\<close>: whatever the environment does between the accesses of \<open>p\<close>, its result
  satisfies \<open>Q\<close>. The rules compute it along the program.
\<close>

primrec always :: "('a \<Rightarrow> bool) \<Rightarrow> 'a prog \<Rightarrow> bool" where
  "always Q (Return_p a) = Q a"
| "always Q (Atomic k) = (\<forall>s. fst (map_prod (always Q) id (k s)))"

lemma always_sound: "exec R p s a s' \<Longrightarrow> always Q p \<Longrightarrow> Q a"
proof (induction rule: exec.induct)
  case (exec_atomic s s1 k p s2 a s3)
  have "always Q (fst (k s1))" using exec_atomic.prems by (simp add: fst_map_prod)
  with exec_atomic show ?case by simp
qed simp

lemma always_bind: "always (\<lambda>a. always Q (f a)) p \<Longrightarrow> always Q (pbind p f)"
proof (induction p)
  case (Atomic k)
  have "always Q (pbind (fst (k s)) f)" for s
  proof (rule Atomic.IH)
    show "k s \<in> range k" by simp
    show "fst (k s) \<in> Basic_BNFs.fsts (k s)" by (cases "k s") simp
    show "always (\<lambda>a. always Q (f a)) (fst (k s))" using Atomic.prems by (simp add: fst_map_prod)
  qed
  then show ?case by (simp add: fst_map_prod)
qed simp

lemma always_mono: "always Q p \<Longrightarrow> (\<And>a. Q a \<Longrightarrow> Q' a) \<Longrightarrow> always Q' p"
proof (induction p)
  case (Atomic k)
  have "always Q' (fst (k s))" for s
  proof (rule Atomic.IH)
    show "k s \<in> range k" by simp
    show "fst (k s) \<in> Basic_BNFs.fsts (k s)" by (cases "k s") simp
    show "always Q (fst (k s))" using Atomic.prems(1) by (simp add: fst_map_prod)
  qed (rule Atomic.prems(2))
  then show ?case by (simp add: fst_map_prod)
qed simp

lemma always_read [simp]: "always Q (read_once x) \<longleftrightarrow> (\<forall>s :: kstate. Q (x (glob s)))"
  by (simp add: read_once_def)

lemma always_write [simp]: "always Q (write_once u) \<longleftrightarrow> Q ()"
  by (simp add: write_once_def)

lemma always_log [simp]: "always Q (log_p fmt args) \<longleftrightarrow> Q ()"
  by (simp add: log_p_def)

subsection \<open>The code, access by access\<close>

definition band_of :: "u32 \<Rightarrow> int" where
  "band_of t = (if t \<ge> 580 then 2 else if t \<ge> 550 then 1 else if t \<ge> 480 then 0 else -1)"

definition count_write :: "counter \<Rightarrow> u32 \<Rightarrow> unit prog" where
  "count_write c v = write_once (counter_set c (v + 1))"

definition count_p :: "counter \<Rightarrow> unit prog" where
  "count_p c = pbind (read_once (counter_val c)) (count_write c)"

definition band_p :: "int prog" where
  "band_p = pbind (read_once raw_fg_temperature) (\<lambda>t. Return_p (band_of t))"

definition apply_current_p :: "u32 \<Rightarrow> u32 prog" where
  "apply_current_p value = pbind band_p (\<lambda>band.
     Return_p (if band = 2 then value
       else if band = 1 then (if value \<in> set hot_current_labels then 4140 else value)
       else value))"

definition map_ichg_p :: "u32 \<Rightarrow> u32 prog" where
  "map_ichg_p value = pbind band_p (\<lambda>band.
     if band = 2 then Return_p value
     else if band = 1 then apply_current_p value
     else Return_p (if value = 12945 then 14270
       else if value \<in> set [17600, 18300, 17500, 18400, 4315, 3880] then 19400
       else value))"

definition map_cv_p :: "u32 \<Rightarrow> u32 prog" where
  "map_cv_p value = pbind band_p (\<lambda>band.
     Return_p (if band = 2 then value
       else if band = 1 \<and> value \<ge> 4080 then 4120
       else if value = 4530 then 4540
       else if value = 4510 then 4530
       else if value \<in> set [4500, 4490, 4080] then 4520
       else value))"

definition map_fast_curve_p :: "u32 \<Rightarrow> u32 prog" where
  "map_fast_curve_p value = pbind band_p (\<lambda>band.
     if band = 2 then Return_p value
     else if band = 1 then apply_current_p value
     else Return_p (if value = 18300 then 19400
       else if value = 17600 then 19400
       else if value = 12400 then 16000
       else if value = 10356 then 14000
       else if value = 8630 then 12000
       else if value = 6904 then 10000
       else if value \<in> set [2958, 2107, 1445] then 7000
       else value))"

definition map_pps_p :: "u32 \<Rightarrow> u32 prog" where
  "map_pps_p value = pbind band_p (\<lambda>band.
     if band = 2 then Return_p value
     else if band = 1 then apply_current_p value
     else Return_p (if value = 4500 then 5000
       else if value = 11000 then 12000
       else if value = 18400 then 19400
       else value))"

definition map_thermal_p :: "u32 \<Rightarrow> u32 prog" where
  "map_thermal_p value = pbind band_p (\<lambda>band.
     Return_p (if band = 2 then value
       else if band = 1 then (if value \<in> set (0 # thermal_labels) then 4140 else value)
       else if value \<in> set thermal_labels then 15000
       else value))"

lemma run_band_p [simp]: "run_alone band_p s = (k100pm_temperature_band (glob s), s)"
  by (simp add: band_p_def run_alone_bind band_of_def k100pm_temperature_band_def Let_def)

lemma run_count_p [simp]: "run_alone (count_p c) s = ((), k100pm_count c s)"
  by (simp add: count_p_def count_write_def run_alone_bind k100pm_count_def)

lemma run_apply_current_p [simp]:
  "run_alone (apply_current_p v) s = (k100pm_apply_temperature_current (glob s) v, s)"
  by (simp add: apply_current_p_def run_alone_bind k100pm_apply_temperature_current_def)

lemma run_map_ichg_p [simp]: "run_alone (map_ichg_p v) s = (k100pm_map_ichg (glob s) v, s)"
  by (simp add: map_ichg_p_def run_alone_bind k100pm_map_ichg_def)

lemma run_map_cv_p [simp]: "run_alone (map_cv_p v) s = (k100pm_map_cv (glob s) v, s)"
  by (simp add: map_cv_p_def run_alone_bind k100pm_map_cv_def)

lemma run_map_fast_curve_p [simp]:
  "run_alone (map_fast_curve_p v) s = (k100pm_map_fast_curve (glob s) v, s)"
  by (simp add: map_fast_curve_p_def run_alone_bind k100pm_map_fast_curve_def)

lemma run_map_pps_p [simp]: "run_alone (map_pps_p v) s = (k100pm_map_pps (glob s) v, s)"
  by (simp add: map_pps_p_def run_alone_bind k100pm_map_pps_def)

lemma run_map_thermal_p [simp]: "run_alone (map_thermal_p v) s = (k100pm_map_thermal (glob s) v, s)"
  by (simp add: map_thermal_p_def run_alone_bind k100pm_map_thermal_def)

subsection \<open>The handlers, access by access\<close>

type_synonym entry_prog = "kretprobe_instance \<Rightarrow> pt_regs \<Rightarrow> (int \<times> kretprobe_instance \<times> pt_regs) prog"

definition observe_p :: "string \<Rightarrow> u32 list \<Rightarrow> unit prog" where
  "observe_p fmt args =
     pbind (read_once observe) (\<lambda>b. if b then log_p fmt args else Return_p ())"

definition ichg_entry_p :: entry_prog where
  "ichg_entry_p inst r =
     (let old = (ucast (regs r ! 1) :: u32)
      in pbind (read_once boost) (\<lambda>b.
         if \<not> b then Return_p (0, inst, r)
         else pbind (map_ichg_p old) (\<lambda>value.
           if value = old then Return_p (0, inst, r)
           else pbind (count_p Ichg_hits) (\<lambda>_.
                pbind (observe_p ''ichg %u -> %u mA'' [old, value]) (\<lambda>_.
                Return_p (0, inst, set_reg 1 (ucast value) r))))))"

definition cv_entry_p :: entry_prog where
  "cv_entry_p inst r =
     (let old = (ucast (regs r ! 1) :: u32)
      in pbind (read_once boost) (\<lambda>b.
         if \<not> b then Return_p (0, inst, r)
         else pbind (map_cv_p old) (\<lambda>value.
           if value = old then Return_p (0, inst, r)
           else pbind (count_p Cv_hits) (\<lambda>_.
                pbind (observe_p ''cv %u -> %u mV'' [old, value]) (\<lambda>_.
                Return_p (0, inst, set_reg 1 (ucast value) r))))))"

definition thermal_entry_p :: entry_prog where
  "thermal_entry_p inst r =
     (let old = (ucast (regs r ! 2) :: u32)
      in pbind (read_once thermal) (\<lambda>b.
         if \<not> b then Return_p (0, inst, r)
         else pbind (map_thermal_p old) (\<lambda>value.
           if value = old then Return_p (0, inst, r)
           else pbind (count_p Thermal_hits) (\<lambda>_.
                pbind (observe_p ''thermal %u -> %u mA'' [old, value]) (\<lambda>_.
                Return_p (0, inst, set_reg 2 (ucast value) r))))))"

text \<open>\<open>READ_ONCE(pps) && k100pm_map_pps(old) != old\<close>: the second operand is read only if needed.\<close>

definition fast_curve_entry_p :: entry_prog where
  "fast_curve_entry_p inst r =
     (let old = (ucast (regs r ! 2) :: u32)
      in pbind (read_once boost) (\<lambda>b.
         pbind (if b then map_fast_curve_p old else Return_p old) (\<lambda>value.
         pbind (read_once pps) (\<lambda>p.
         pbind (if p then map_pps_p value else Return_p value) (\<lambda>value.
         if value = old then Return_p (0, inst, r)
         else pbind (read_once pps) (\<lambda>p.
              pbind (if p then pbind (map_pps_p old) (\<lambda>v. Return_p (v \<noteq> old)) else Return_p False)
                (\<lambda>is_pps.
              pbind (count_p (if is_pps then Pps_hits else Curve_hits)) (\<lambda>_.
              pbind (observe_p ''fast curve %u -> %u mA'' [old, value]) (\<lambda>_.
              Return_p (0, inst, set_reg 2 (ucast value) r))))))))))"

text \<open>
  The tail the two charge-pump hooks and the current cap share in the source: the recovery list
  when one of the switches is on (\<open>||\<close> reads \<open>pps\<close> only if \<open>boost\<close> is off), the counter chosen
  by \<open>boost\<close>.
\<close>

definition either_p :: "bool prog" where
  "either_p = pbind (read_once boost) (\<lambda>b. if b then Return_p True else read_once pps)"

definition rewrite_tail_p :: "string \<Rightarrow> u32 \<Rightarrow> u32 \<Rightarrow> entry_prog" where
  "rewrite_tail_p fmt old value inst r =
     pbind either_p (\<lambda>e.
     pbind (if e then apply_current_p value else Return_p value) (\<lambda>value.
     if value = old then Return_p (0, inst, r)
     else pbind (read_once boost) (\<lambda>b.
          pbind (count_p (if b then Curve_hits else Pps_hits)) (\<lambda>_.
          pbind (observe_p fmt [old, value]) (\<lambda>_.
          Return_p (0, inst, set_reg 2 (ucast value) r))))))"

definition div_entry_p :: "u32 \<Rightarrow> string \<Rightarrow> entry_prog" where
  "div_entry_p high fmt inst r =
     (let old = (ucast (regs r ! 2) :: u32)
      in pbind band_p (\<lambda>band.
         if band = 2 then Return_p (0, inst, r)
         else pbind (read_once boost) (\<lambda>b.
              pbind (if b
                     then Return_p (if old = 4500 then 5000 else if old = 11000 then 12000
                                    else if old = 18400 then high else old)
                     else pbind (read_once pps) (\<lambda>p. if p then map_pps_p old else Return_p old))
                (\<lambda>value. rewrite_tail_p fmt old value inst r))))"

definition div_single_entry_p :: entry_prog where
  "div_single_entry_p = div_entry_p 20500 ''CP single %u -> %u mA''"

definition div_multi_entry_p :: entry_prog where
  "div_multi_entry_p = div_entry_p 22000 ''CP multi %u -> %u mA''"

definition curr_max_entry_p :: entry_prog where
  "curr_max_entry_p inst r =
     (let old = (ucast (regs r ! 2) :: u32)
      in pbind band_p (\<lambda>band.
         if band = 2 then Return_p (0, inst, r)
         else pbind (read_once boost) (\<lambda>b.
              pbind (if b \<and> old = 17500 then Return_p 19400
                     else pbind (read_once pps) (\<lambda>p. if p then map_pps_p old else Return_p old))
                (\<lambda>value. rewrite_tail_p ''current cap %u -> %u mA'' old value inst r))))"

lemmas entry_prog_defs = ichg_entry_p_def cv_entry_p_def thermal_entry_p_def
  fast_curve_entry_p_def div_single_entry_p_def div_multi_entry_p_def curr_max_entry_p_def
  div_entry_p_def rewrite_tail_p_def

lemma run_observe_p [simp]: "run_alone (observe_p fmt args) s = ((), observe_info fmt args s)"
  by (simp add: observe_p_def run_alone_bind observe_info_def)

lemma run_either_p [simp]: "run_alone either_p s = (boost (glob s) \<or> pps (glob s), s)"
  by (simp add: either_p_def run_alone_bind)

subsection \<open>Without interference, the handlers of the sequential model\<close>

fun as_result :: "(int \<times> kretprobe_instance \<times> pt_regs) \<times> kstate \<Rightarrow> handler_result" where
  "as_result ((c, inst, r), st) = Inr (c, inst, r, st)"

lemma run_ichg_entry_p: "as_result (run_alone (ichg_entry_p inst r) st) = k100pm_ichg_entry inst r st"
  by (simp add: ichg_entry_p_def k100pm_ichg_entry_def run_alone_bind Let_def)

lemma run_cv_entry_p: "as_result (run_alone (cv_entry_p inst r) st) = k100pm_cv_entry inst r st"
  by (simp add: cv_entry_p_def k100pm_cv_entry_def run_alone_bind Let_def)

lemma run_thermal_entry_p:
  "as_result (run_alone (thermal_entry_p inst r) st) = k100pm_thermal_entry inst r st"
  by (simp add: thermal_entry_p_def k100pm_thermal_entry_def run_alone_bind Let_def)

lemma run_if: "run_alone (if b then p else q) s = (if b then run_alone p s else run_alone q s)"
  by simp

lemma run_fast_curve_entry_p:
  "as_result (run_alone (fast_curve_entry_p inst r) st) = k100pm_fast_curve_entry inst r st"
  by (simp add: fast_curve_entry_p_def k100pm_fast_curve_entry_def run_alone_bind run_if Let_def)

lemma run_div_single_entry_p:
  "as_result (run_alone (div_single_entry_p inst r) st) = k100pm_div_single_entry inst r st"
  by (simp add: div_single_entry_p_def div_entry_p_def rewrite_tail_p_def
      k100pm_div_single_entry_def run_alone_bind run_if Let_def)

lemma run_div_multi_entry_p:
  "as_result (run_alone (div_multi_entry_p inst r) st) = k100pm_div_multi_entry inst r st"
  by (simp add: div_multi_entry_p_def div_entry_p_def rewrite_tail_p_def
      k100pm_div_multi_entry_def run_alone_bind run_if Let_def)

lemma run_curr_max_entry_p:
  "as_result (run_alone (curr_max_entry_p inst r) st) = k100pm_curr_max_entry inst r st"
  by (simp add: curr_max_entry_p_def rewrite_tail_p_def
      k100pm_curr_max_entry_def run_alone_bind run_if Let_def)

subsection \<open>What holds under any interference\<close>

lemma always_bindI: "always P p \<Longrightarrow> (\<And>a. P a \<Longrightarrow> always Q (f a)) \<Longrightarrow> always Q (pbind p f)"
  by (rule always_bind) (rule always_mono)

lemma always_True [simp]: "always (\<lambda>_. True) p"
proof (induction p)
  case (Atomic k)
  have "always (\<lambda>_. True) (fst (k s))" for s
    by (rule Atomic.IH [of "k s"]) (simp, cases "k s", simp)
  then show ?case by (simp add: fst_map_prod)
qed simp

lemma always_bind_any: "(\<And>a. always Q (f a)) \<Longrightarrow> always Q (pbind p f)"
  by (rule always_bindI [OF always_True])

lemma always_if: "always Q (if b then p else q) = (if b then always Q p else always Q q)"
  by simp

lemma always_count [simp]: "always Q (count_p c) \<longleftrightarrow> Q ()"
proof
  show "Q () \<Longrightarrow> always Q (count_p c)"
    unfolding count_p_def count_write_def by (rule always_bind) simp
  show "always Q (count_p c) \<Longrightarrow> Q ()"
    by (simp add: count_p_def count_write_def read_once_def write_once_def)
qed

lemma always_observe: "Q () \<Longrightarrow> always Q (observe_p fmt args)"
  unfolding observe_p_def by (rule always_bind) simp

lemma always_band: "(\<And>b. Q b) \<Longrightarrow> always Q band_p"
  unfolding band_p_def by (rule always_bind) simp

lemma always_either: "(\<And>b. Q b) \<Longrightarrow> always Q either_p"
  unfolding either_p_def by (rule always_bind) simp

lemma always_apply_current: "4140 \<le> lim \<Longrightarrow> v \<le> max w lim \<Longrightarrow>
    always (\<lambda>u. u \<le> max w lim) (apply_current_p v)"
  unfolding apply_current_p_def by (rule always_bind, rule always_band) (auto simp: le_max_iff_disj)

lemma always_map_ichg: "always (\<lambda>u. u \<le> max v 19400) (map_ichg_p v)"
  unfolding map_ichg_p_def
  by (rule always_bind, rule always_band)
    (auto simp: le_max_iff_disj intro!: always_apply_current [unfolded le_max_iff_disj])

lemma always_map_cv: "always (\<lambda>u. u \<le> max v 4540) (map_cv_p v)"
  unfolding map_cv_p_def by (rule always_bind, rule always_band) (auto simp: le_max_iff_disj)

lemma always_map_thermal: "always (\<lambda>u. u \<le> max v 15000) (map_thermal_p v)"
  unfolding map_thermal_p_def by (rule always_bind, rule always_band) (auto simp: le_max_iff_disj)

lemma always_map_fast_curve: "always (\<lambda>u. u \<le> max v 19400) (map_fast_curve_p v)"
  unfolding map_fast_curve_p_def
  by (rule always_bind, rule always_band)
    (auto simp: le_max_iff_disj intro!: always_apply_current [unfolded le_max_iff_disj])

lemma always_map_pps:
  "19400 \<le> lim \<Longrightarrow> v \<le> max w lim \<Longrightarrow> always (\<lambda>u. u \<le> max w lim) (map_pps_p v)"
proof -
  assume lim: "19400 \<le> lim" and v: "v \<le> max w lim"
  have "5000 \<le> lim" "12000 \<le> lim" "4140 \<le> lim" using lim by (rule order_trans [rotated]; simp)+
  with lim v show ?thesis
    unfolding map_pps_p_def
    by (intro always_bind always_band)
      (auto simp: le_max_iff_disj intro!: always_apply_current [unfolded le_max_iff_disj])
qed

text \<open>What the caller of a hooked function may rely on.\<close>

definition safe_result ::
  "kretprobe_instance \<Rightarrow> pt_regs \<Rightarrow> nat \<Rightarrow> u32 \<Rightarrow> int \<times> kretprobe_instance \<times> pt_regs \<Rightarrow> bool" where
  "safe_result inst r slot lim res =
     (case res of (c, i, r') \<Rightarrow> c = 0 \<and> i = inst \<and> (\<forall>j. j \<noteq> slot \<longrightarrow> regs r' ! j = regs r ! j) \<and>
        (ucast (regs r' ! slot) :: u32) \<le> max (ucast (regs r ! slot)) lim)"

lemma safe_kept: "safe_result inst r slot lim (0, inst, r)"
  by (simp add: safe_result_def)

lemma safe_rewritten:
  "wf_regs r \<Longrightarrow> slot < 31 \<Longrightarrow> v \<le> max (ucast (regs r ! slot)) lim \<Longrightarrow>
   safe_result inst r slot lim (0, inst, set_reg slot (ucast v) r)"
  by (simp add: safe_result_def wf_regs_def)

text \<open>A rewrite: counter, log line, register.\<close>

lemma always_rewrite:
  assumes "wf_regs r" "slot < 31" "v \<le> max (ucast (regs r ! slot)) lim"
  shows "always (safe_result inst r slot lim)
    (pbind (count_p c) (\<lambda>_. pbind (observe_p fmt args) (\<lambda>_.
       Return_p (0, inst, set_reg slot (ucast v) r))))"
  using safe_rewritten [OF assms] by (intro always_bind) (simp add: always_observe always_bind)

lemma ichg_entry_safe: "wf_regs r \<Longrightarrow> always (safe_result inst r 1 19400) (ichg_entry_p inst r)"
  unfolding ichg_entry_p_def Let_def
  by (intro always_bind always_read [THEN iffD2] allI, simp add: safe_kept, intro impI)
    (rule always_bindI [OF always_map_ichg], auto simp: safe_kept intro!: always_rewrite)

lemma cv_entry_safe: "wf_regs r \<Longrightarrow> always (safe_result inst r 1 4540) (cv_entry_p inst r)"
  unfolding cv_entry_p_def Let_def
  by (intro always_bind always_read [THEN iffD2] allI, simp add: safe_kept, intro impI)
    (rule always_bindI [OF always_map_cv], auto simp: safe_kept intro!: always_rewrite)

lemma thermal_entry_safe: "wf_regs r \<Longrightarrow> always (safe_result inst r 2 15000) (thermal_entry_p inst r)"
  unfolding thermal_entry_p_def Let_def
  by (intro always_bind always_read [THEN iffD2] allI, simp add: safe_kept, intro impI)
    (rule always_bindI [OF always_map_thermal], auto simp: safe_kept intro!: always_rewrite)

lemma fast_curve_entry_safe:
  assumes "wf_regs r"
  shows "always (safe_result inst r 2 19400) (fast_curve_entry_p inst r)"
proof -
  let ?old = "ucast (regs r ! 2) :: u32"
  have tail: "always (safe_result inst r 2 19400)
      (if value = ?old then Return_p (0, inst, r)
       else pbind (read_once pps) (\<lambda>p.
            pbind (if p then pbind (map_pps_p ?old) (\<lambda>v. Return_p (v \<noteq> ?old)) else Return_p False)
              (\<lambda>is_pps.
            pbind (count_p (if is_pps then Pps_hits else Curve_hits)) (\<lambda>_.
            pbind (observe_p ''fast curve %u -> %u mA'' [?old, value]) (\<lambda>_.
            Return_p (0, inst, set_reg 2 (ucast value) r))))))"
    if v: "value \<le> max ?old 19400" for "value"
    using assms v
    by (cases "value = ?old") (auto simp: safe_kept safe_rewritten intro!: always_bind_any)
  have pps_part: "always (\<lambda>u. u \<le> max ?old 19400) (if p then map_pps_p value else Return_p value)"
    if "value \<le> max ?old 19400" for p "value"
    using that always_map_pps [of 19400 "value" ?old] by simp
  have curve_part: "always (\<lambda>u. u \<le> max ?old 19400) (if b then map_fast_curve_p ?old else Return_p ?old)"
    for b
    using always_map_fast_curve [of ?old] by simp
  show ?thesis
    unfolding fast_curve_entry_p_def Let_def
    by (rule always_bind, simp only: always_read, intro allI, rule always_bindI [OF curve_part],
        rule always_bind, simp only: always_read, intro allI, rule always_bindI [OF pps_part],
        assumption, rule tail)
qed

lemma rewrite_tail_safe:
  assumes "wf_regs r" "4140 \<le> lim" "v \<le> max (ucast (regs r ! 2)) lim"
  shows "always (safe_result inst r 2 lim) (rewrite_tail_p fmt (ucast (regs r ! 2)) v inst r)"
proof -
  have "always (\<lambda>u. u \<le> max (ucast (regs r ! 2)) lim) (if e then apply_current_p v else Return_p v)" for e
    using always_apply_current [OF assms(2,3)] assms(3) by simp
  note recovery = this
  have "always (safe_result inst r 2 lim)
      (if u = ucast (regs r ! 2) then Return_p (0, inst, r)
       else pbind (read_once boost) (\<lambda>b.
            pbind (count_p (if b then Curve_hits else Pps_hits)) (\<lambda>_.
            pbind (observe_p fmt [ucast (regs r ! 2), u]) (\<lambda>_.
            Return_p (0, inst, set_reg 2 (ucast u) r)))))"
    if "u \<le> max (ucast (regs r ! 2)) lim" for u
    using that assms(1) by (auto simp: safe_kept safe_rewritten intro!: always_bind_any)
  note tail = this
  show ?thesis
    unfolding rewrite_tail_p_def
    by (rule always_bind_any, rule always_bindI [OF recovery], rule tail)
qed

lemma pps_choice_safe:
  "19400 \<le> lim \<Longrightarrow>
   always (\<lambda>u. u \<le> max v lim) (pbind (read_once pps) (\<lambda>p. if p then map_pps_p v else Return_p v))"
  using always_map_pps [of lim v v] by (intro always_bind_any) simp

lemma div_entry_safe:
  assumes "wf_regs r" "19400 \<le> high"
  shows "always (safe_result inst r 2 high) (div_entry_p high fmt inst r)"
proof -
  let ?old = "ucast (regs r ! 2) :: u32"
  have lim: "5000 \<le> high" "12000 \<le> high" "4140 \<le> high"
    using assms(2) by (rule order_trans [rotated]; simp)+
  have part: "always (\<lambda>u. u \<le> max ?old high)
      (if b then Return_p (if ?old = 4500 then 5000 else if ?old = 11000 then 12000
                           else if ?old = 18400 then high else ?old)
       else pbind (read_once pps) (\<lambda>p. if p then map_pps_p ?old else Return_p ?old))" for b
    using lim pps_choice_safe [OF assms(2), of ?old] by (simp add: le_max_iff_disj)
  have "always (safe_result inst r 2 high)
      (pbind (read_once boost) (\<lambda>b. pbind
        (if b then Return_p (if ?old = 4500 then 5000 else if ?old = 11000 then 12000
                             else if ?old = 18400 then high else ?old)
         else pbind (read_once pps) (\<lambda>p. if p then map_pps_p ?old else Return_p ?old))
        (\<lambda>value. rewrite_tail_p fmt ?old value inst r)))"
    by (rule always_bind, simp only: always_read, intro allI, rule always_bindI [OF part])
      (rule rewrite_tail_safe [OF assms(1) lim(3)])
  then show ?thesis
    unfolding div_entry_p_def Let_def
    by (intro always_bind always_band) (simp add: safe_kept)
qed

lemma curr_max_entry_safe:
  assumes "wf_regs r"
  shows "always (safe_result inst r 2 19400) (curr_max_entry_p inst r)"
proof -
  let ?old = "ucast (regs r ! 2) :: u32"
  have part: "always (\<lambda>u. u \<le> max ?old 19400)
      (if b \<and> ?old = 17500 then Return_p 19400
       else pbind (read_once pps) (\<lambda>p. if p then map_pps_p ?old else Return_p ?old))" for b
    using pps_choice_safe [of 19400 ?old] by (simp add: le_max_iff_disj)
  have "always (safe_result inst r 2 19400)
      (pbind (read_once boost) (\<lambda>b. pbind
        (if b \<and> ?old = 17500 then Return_p 19400
         else pbind (read_once pps) (\<lambda>p. if p then map_pps_p ?old else Return_p ?old))
        (\<lambda>value. rewrite_tail_p ''current cap %u -> %u mA'' ?old value inst r)))"
    by (rule always_bind, simp only: always_read, intro allI, rule always_bindI [OF part])
      (rule rewrite_tail_safe [OF assms], simp_all)
  then show ?thesis
    unfolding curr_max_entry_p_def Let_def
    by (intro always_bind always_band) (simp add: safe_kept)
qed

subsection \<open>Counters under races\<close>

text \<open>
  Threads that interleave access by access; a schedule lists which thread moves. A finished thread
  that is scheduled does nothing.
\<close>

definition thread_step :: "nat \<Rightarrow> unit prog list \<times> kstate \<Rightarrow> unit prog list \<times> kstate" where
  "thread_step i c =
     (case c of (ps, s) \<Rightarrow>
        if i < length ps
        then (case ps ! i of Return_p _ \<Rightarrow> (ps, s) | Atomic k \<Rightarrow> case k s of (p, s') \<Rightarrow> (ps[i := p], s'))
        else (ps, s))"

fun run_threads :: "nat list \<Rightarrow> unit prog list \<times> kstate \<Rightarrow> unit prog list \<times> kstate" where
  "run_threads [] c = c"
| "run_threads (i # sched) c = run_threads sched (thread_step i c)"

definition finished :: "unit prog \<Rightarrow> bool" where
  "finished p \<longleftrightarrow> p = Return_p ()"

definition n_finished :: "unit prog list \<Rightarrow> nat" where
  "n_finished ps = length (filter finished ps)"

text \<open>
  Each thread has not started, has read a value between the start and what the finished threads
  can have added, or is done; the counter itself is in the same range, and above the start once
  one of them is done.
\<close>

definition counting_state :: "counter \<Rightarrow> u32 \<Rightarrow> nat \<Rightarrow> unit prog \<Rightarrow> bool" where
  "counting_state c v0 n p \<longleftrightarrow>
     p = count_p c \<or> (\<exists>j \<le> n. p = count_write c (v0 + word_of_nat j)) \<or> finished p"

definition counting_inv :: "counter \<Rightarrow> u32 \<Rightarrow> unit prog list \<times> kstate \<Rightarrow> bool" where
  "counting_inv c v0 cfg \<longleftrightarrow>
     (case cfg of (ps, s) \<Rightarrow>
        (\<forall>p \<in> set ps. counting_state c v0 (n_finished ps) p) \<and>
        (\<exists>m \<le> n_finished ps. (0 < n_finished ps \<longrightarrow> 0 < m) \<and>
           counter_val c (glob s) = v0 + word_of_nat m))"

lemma count_p_unfold: "count_p c = Atomic (\<lambda>s. (count_write c (counter_val c (glob s)), s))"
  by (simp add: count_p_def read_once_def)

lemma count_write_unfold:
  "count_write c v = Atomic (\<lambda>s. (Return_p (), s\<lparr>glob := counter_set c (v + 1) (glob s)\<rparr>))"
  by (simp add: count_write_def write_once_def)

lemma n_finished_update:
  assumes "i < length ps" "\<not> finished (ps ! i)"
  shows "n_finished (ps[i := p]) = n_finished ps + of_bool (finished p)"
proof -
  have ps: "ps = take i ps @ ps ! i # drop (Suc i) ps"
    using assms(1) by (simp add: id_take_nth_drop)
  have "n_finished ps = n_finished (take i ps) + n_finished (drop (Suc i) ps)"
    using assms(2) by (subst ps) (simp add: n_finished_def)
  then show ?thesis
    using assms(1) by (simp add: n_finished_def upd_conv_take_nth_drop)
qed

lemma counting_state_mono: "counting_state c v0 n p \<Longrightarrow> n \<le> n' \<Longrightarrow> counting_state c v0 n' p"
  unfolding counting_state_def by (metis order_trans)

lemma not_finished_count [simp]: "\<not> finished (count_p c)" "\<not> finished (count_write c v)"
  by (simp_all add: finished_def count_p_unfold count_write_unfold)

lemma counting_inv_step:
  assumes inv: "counting_inv c v0 (ps, s)"
  shows "counting_inv c v0 (thread_step i (ps, s))"
proof (cases "i < length ps")
  case False
  with inv show ?thesis by (simp add: thread_step_def)
next
  case True
  from inv obtain m where m: "m \<le> n_finished ps" "0 < n_finished ps \<longrightarrow> 0 < m"
      "counter_val c (glob s) = v0 + word_of_nat m"
    and states: "\<forall>p \<in> set ps. counting_state c v0 (n_finished ps) p"
    by (auto simp: counting_inv_def)
  from states True have "counting_state c v0 (n_finished ps) (ps ! i)" by simp
  then consider (start) "ps ! i = count_p c"
    | (mid) j where "j \<le> n_finished ps" "ps ! i = count_write c (v0 + word_of_nat j)"
    | (fin) "finished (ps ! i)"
    by (auto simp: counting_state_def)
  then show ?thesis
  proof cases
    case start
    let ?p = "count_write c (v0 + word_of_nat m)"
    have step: "thread_step i (ps, s) = (ps[i := ?p], s)"
      using True start m(3) by (simp add: thread_step_def count_p_unfold)
    have n: "n_finished (ps[i := ?p]) = n_finished ps"
      using n_finished_update [OF True, of ?p] start by simp
    have "counting_state c v0 (n_finished ps) ?p"
      using m(1) unfolding counting_state_def by blast
    then show ?thesis
      using states m set_update_subset_insert [of ps i ?p]
      by (auto simp: step counting_inv_def n)
  next
    case mid
    let ?s = "s\<lparr>glob := counter_set c (v0 + word_of_nat j + 1) (glob s)\<rparr>"
    have step: "thread_step i (ps, s) = (ps[i := Return_p ()], ?s)"
      using True mid by (simp add: thread_step_def count_write_unfold)
    have n: "n_finished (ps[i := Return_p ()]) = Suc (n_finished ps)"
      using n_finished_update [OF True, of "Return_p ()"] mid
      by (simp add: finished_def [of "Return_p ()"])
    have "counting_state c v0 (Suc (n_finished ps)) p" if "p \<in> set (ps[i := Return_p ()])" for p
    proof -
      from that set_update_subset_insert [of ps i "Return_p ()"]
      have "p = Return_p () \<or> p \<in> set ps" by auto
      then show ?thesis
        using states counting_state_mono [of c v0 "n_finished ps" p "Suc (n_finished ps)"]
        by (auto simp: counting_state_def finished_def)
    qed
    moreover have "counter_val c (glob ?s) = v0 + word_of_nat (Suc j)" by simp
    ultimately show ?thesis
      using mid(1) unfolding step counting_inv_def
      by (auto simp: n intro!: exI [of _ "Suc j"])
  next
    case fin
    then have "thread_step i (ps, s) = (ps, s)"
      using True by (simp add: thread_step_def finished_def)
    with inv show ?thesis by simp
  qed
qed

lemma counting_inv_run: "counting_inv c v0 cfg \<Longrightarrow> counting_inv c v0 (run_threads sched cfg)"
proof (induction sched arbitrary: cfg)
  case (Cons i sched)
  then show ?case using counting_inv_step by (cases cfg) simp
qed simp

lemma length_run_threads: "length (fst (run_threads sched cfg)) = length (fst cfg)"
proof (induction sched arbitrary: cfg)
  case (Cons i sched)
  have "length (fst (thread_step i cfg)) = length (fst cfg)"
    by (auto simp: thread_step_def split: prod.splits prog.splits)
  with Cons show ?case by simp
qed simp

lemma counting_inv_start:
  "counting_inv c (counter_val c (glob s)) (replicate n (count_p c), s)"
proof -
  have "n_finished (replicate n (count_p c)) = 0" by (simp add: n_finished_def)
  then show ?thesis
    by (auto simp: counting_inv_def counting_state_def intro!: exI [of _ 0])
qed

end
