(* ===== verification/Temperature_Races.thy ===== *)
theory Temperature_Races
  imports Interference
begin

text \<open>
  The rewriting hooks when only the raw temperature (and memory, the counters, the log) changes
  under them: the several reads of the temperature a handler makes may see different bands, and
  the value it writes is still one a single temperature gives.
\<close>

subsection \<open>Results under interference that keeps the switches\<close>

definition same_switches :: "kstate \<Rightarrow> kstate \<Rightarrow> bool" where
  "same_switches s s' \<longleftrightarrow> boost (glob s') = boost (glob s) \<and> pps (glob s') = pps (glob s) \<and>
     thermal (glob s') = thermal (glob s)"

text \<open>
  \<open>always_with s0 Q p\<close>: with the switches of \<open>s0\<close> throughout, every result of \<open>p\<close>
  satisfies \<open>Q\<close>, and \<open>p\<close> itself does not touch the switches.
\<close>

primrec always_with :: "kstate \<Rightarrow> ('a \<Rightarrow> bool) \<Rightarrow> 'a prog \<Rightarrow> bool" where
  "always_with s0 Q (Return_p a) = Q a"
| "always_with s0 Q (Atomic k) =
     (\<forall>s. same_switches s0 s \<longrightarrow>
        (case map_prod (always_with s0 Q) id (k s) of (q, s') \<Rightarrow> q \<and> same_switches s0 s'))"

lemma always_with_Atomic [simp]:
  "always_with s0 Q (Atomic k) \<longleftrightarrow>
     (\<forall>s. same_switches s0 s \<longrightarrow> always_with s0 Q (fst (k s)) \<and> same_switches s0 (snd (k s)))"
  by (simp add: case_prod_unfold fst_map_prod snd_map_prod)

declare always_with.simps(2) [simp del]

lemma same_switches_trans: "same_switches s0 s \<Longrightarrow> same_switches s s' \<Longrightarrow> same_switches s0 s'"
  by (simp add: same_switches_def)

lemma always_with_sound:
  assumes "exec same_switches p s a s'" "always_with s0 Q p" "same_switches s0 s"
  shows "Q a"
  using assms
proof (induction rule: exec.induct)
  case (exec_atomic s s1 k p s2 a s3)
  have "same_switches s0 s1" using same_switches_trans exec_atomic by blast
  then have "always_with s0 Q p" "same_switches s0 s2"
    using exec_atomic.prems(1) exec_atomic.hyps(2) by auto
  then show ?case by (rule exec_atomic.IH)
qed simp

lemma fst_in_fsts: "fst x \<in> Basic_BNFs.fsts x"
  by (cases x) simp

lemma always_with_mono: "always_with s0 P p \<Longrightarrow> (\<And>a. P a \<Longrightarrow> Q a) \<Longrightarrow> always_with s0 Q p"
proof (induction p)
  case (Atomic k)
  have "always_with s0 Q (fst (k s))" if "same_switches s0 s" for s
    by (rule Atomic.IH [of "k s", OF _ fst_in_fsts]) (use Atomic.prems that in auto)
  with Atomic.prems(1) show ?case by simp
qed simp

lemma always_with_bind:
  "always_with s0 (\<lambda>a. always_with s0 Q (f a)) p \<Longrightarrow> always_with s0 Q (pbind p f)"
proof (induction p)
  case (Atomic k)
  have "always_with s0 Q (pbind (fst (k s)) f)" if "same_switches s0 s" for s
    by (rule Atomic.IH [of "k s", OF _ fst_in_fsts]) (use Atomic.prems that in auto)
  with Atomic.prems(1) show ?case by (simp add: fst_map_prod snd_map_prod)
qed simp

lemma always_with_bindI:
  "always_with s0 P p \<Longrightarrow> (\<And>a. P a \<Longrightarrow> always_with s0 Q (f a)) \<Longrightarrow> always_with s0 Q (pbind p f)"
  by (rule always_with_bind) (rule always_with_mono)

subsection \<open>The pieces of the handlers\<close>

lemma with_read_boost: "Q (boost (glob s0)) \<Longrightarrow> always_with s0 Q (read_once boost)"
  by (simp add: read_once_def same_switches_def)

lemma with_read_pps: "Q (pps (glob s0)) \<Longrightarrow> always_with s0 Q (read_once pps)"
  by (simp add: read_once_def same_switches_def)

lemma with_read_thermal: "Q (thermal (glob s0)) \<Longrightarrow> always_with s0 Q (read_once thermal)"
  by (simp add: read_once_def same_switches_def)

lemma with_band: "Q 2 \<Longrightarrow> Q 1 \<Longrightarrow> Q 0 \<Longrightarrow> Q (-1) \<Longrightarrow> always_with s0 Q band_p"
  by (simp add: band_p_def read_once_def band_of_def)

lemma with_either: "Q (boost (glob s0) \<or> pps (glob s0)) \<Longrightarrow> always_with s0 Q either_p"
  by (auto simp: either_p_def read_once_def same_switches_def)

lemma with_count: "Q () \<Longrightarrow> always_with s0 Q (count_p c)"
  by (cases c) (simp_all add: count_p_def count_write_def read_once_def write_once_def same_switches_def)

lemma with_observe: "Q () \<Longrightarrow> always_with s0 Q (observe_p fmt args)"
  by (auto simp: observe_p_def read_once_def log_p_def same_switches_def pr_info_def)

lemmas with_atoms = with_read_boost with_read_pps with_read_thermal with_band with_either
  with_count with_observe

lemma with_rewrite:
  "Q (0, inst, set_reg slot (ucast v) r) \<Longrightarrow> always_with s0 Q
    (pbind (count_p c) (\<lambda>_. pbind (observe_p fmt args) (\<lambda>_.
       Return_p (0, inst, set_reg slot (ucast v) r))))"
  by (rule always_with_bind, rule with_count, rule always_with_bind, rule with_observe) simp

subsection \<open>One temperature\<close>

definition at_raw :: "u32 \<Rightarrow> k100pm \<Rightarrow> k100pm" where
  "at_raw t g = g\<lparr>raw_fg_temperature := t\<rparr>"

lemma at_raw_simps [simp]:
  "raw_fg_temperature (at_raw t g) = t" "boost (at_raw t g) = boost g" "pps (at_raw t g) = pps g"
  "thermal (at_raw t g) = thermal g"
  by (simp_all add: at_raw_def)

lemma at_raw_bands [simp]:
  "k100pm_temperature_band (at_raw 580 g) = 2" "k100pm_temperature_band (at_raw 550 g) = 1"
  "k100pm_temperature_band (at_raw 0 g) = -1"
  by (simp_all add: k100pm_temperature_band_def)

text \<open>\<open>one_of f g v u\<close>: the value \<open>u\<close> is what \<open>f\<close> gives for \<open>v\<close> in one of the bands.\<close>

definition one_of :: "(k100pm \<Rightarrow> u32 \<Rightarrow> u32) \<Rightarrow> k100pm \<Rightarrow> u32 \<Rightarrow> u32 \<Rightarrow> bool" where
  "one_of f g v u \<longleftrightarrow> u = f (at_raw 580 g) v \<or> u = f (at_raw 550 g) v \<or> u = f (at_raw 0 g) v"

text \<open>
  A hook's three possible values, for a value \<open>v\<close>: untouched, the recovery current where \<open>ls\<close>
  lists it, or \<open>w\<close> from the table below the recovery band.
\<close>

definition three :: "u32 list \<Rightarrow> u32 \<Rightarrow> u32 \<Rightarrow> u32 \<Rightarrow> bool" where
  "three ls w v u \<longleftrightarrow> u = v \<or> v \<in> set ls \<and> u = 4140 \<or> u = w"

lemma one_of_three:
  assumes "\<And>g. k100pm_temperature_band g = 2 \<Longrightarrow> f g v = v"
    and "\<And>g. k100pm_temperature_band g = 1 \<Longrightarrow> f g v = (if v \<in> set ls then 4140 else v)"
    and "\<And>g. k100pm_temperature_band g = -1 \<Longrightarrow> f g v = w"
  shows "one_of f g v = three ls w v"
  by (rule ext) (auto simp: one_of_def three_def assms)

lemma with_apply_current: "always_with s0 (three hot_current_labels v v) (apply_current_p v)"
  unfolding apply_current_p_def
  by (rule always_with_bind, rule with_band) (auto simp: three_def)

lemma with_current_table:
  "always_with s0 (three hot_current_labels w v)
     (pbind band_p (\<lambda>band. if band = 2 then Return_p v else if band = 1 then apply_current_p v
        else Return_p w))"
  by (rule always_with_bind, rule with_band)
    (auto intro: always_with_mono [OF with_apply_current] simp: three_def)

lemma with_map_ichg: "always_with s0 (three hot_current_labels (cool_ichg v) v) (map_ichg_p v)"
  unfolding map_ichg_p_def cool_ichg_def [symmetric] by (rule with_current_table)

lemma fast_curve_steps: "cool_fast_curve v = (if v = 18300 then 19400
       else if v = 17600 then 19400
       else if v = 12400 then 16000
       else if v = 10356 then 14000
       else if v = 8630 then 12000
       else if v = 6904 then 10000
       else if v \<in> set [2958, 2107, 1445] then 7000
       else v)"
  by (simp add: cool_fast_curve_def)

lemma with_map_fast_curve:
  "always_with s0 (three hot_current_labels (cool_fast_curve v) v) (map_fast_curve_p v)"
  unfolding map_fast_curve_p_def fast_curve_steps [symmetric] by (rule with_current_table)

lemma with_map_pps: "always_with s0 (three hot_current_labels (cool_pps v) v) (map_pps_p v)"
  unfolding map_pps_p_def cool_pps_def [symmetric] by (rule with_current_table)

lemma with_map_cv: "always_with s0 (one_of k100pm_map_cv g v) (map_cv_p v)"
  unfolding map_cv_p_def
  by (rule always_with_bind, rule with_band; simp add: one_of_def k100pm_map_cv_def)

lemma with_map_thermal: "always_with s0 (one_of k100pm_map_thermal g v) (map_thermal_p v)"
  unfolding map_thermal_p_def
  by (rule always_with_bind, rule with_band; simp add: one_of_def k100pm_map_thermal_def)

subsection \<open>Two tables in a row, each with its own look at the temperature\<close>

lemma pps_after_fast_curve:
  "cool_fast_curve v \<noteq> v \<Longrightarrow> cool_pps (cool_fast_curve v) = cool_fast_curve v \<and> v \<in> set hot_current_labels"
  by (auto simp: cool_fast_curve_def cool_pps_def hot_current_labels_def split: if_splits)

lemma fast_curve_before_pps: "cool_pps v \<noteq> v \<Longrightarrow> cool_fast_curve v = v"
  by (auto simp: cool_fast_curve_def cool_pps_def split: if_splits)

lemma cool_recovery [simp]: "cool_pps 4140 = 4140" "4140 \<notin> set hot_current_labels"
  by (simp_all add: cool_pps_def hot_current_labels_def)

lemma fast_curve_then_pps:
  assumes "three hot_current_labels (cool_fast_curve v) v u" "three hot_current_labels (cool_pps u) u w"
  shows "three hot_current_labels (cool_pps (cool_fast_curve v)) v w"
  using assms pps_after_fast_curve [of v] fast_curve_before_pps [of v]
  by (cases "u = v"; cases "cool_fast_curve v = v"; cases "cool_pps v = v") (auto simp: three_def)

text \<open>
  The recovery list after a table \<open>w\<close> of steps that stay on it.
\<close>

lemma table_then_recovery:
  assumes "three hot_current_labels w v u" "three hot_current_labels u u x"
    and "w \<noteq> v \<Longrightarrow> v \<in> set hot_current_labels"
  shows "three hot_current_labels w v x"
  using assms cool_recovery unfolding three_def by metis

lemma pps_changes_labels: "cool_pps v \<noteq> v \<Longrightarrow> v \<in> set hot_current_labels"
  by (auto simp: cool_pps_def hot_current_labels_def split: if_splits)

subsection \<open>The hooks\<close>

text \<open>What a handler leaves for the value \<open>u\<close> it computed.\<close>

definition written ::
  "kretprobe_instance \<Rightarrow> pt_regs \<Rightarrow> nat \<Rightarrow> u32 \<Rightarrow> int \<times> kretprobe_instance \<times> pt_regs" where
  "written inst r slot u =
     (0, inst, if u = ucast (regs r ! slot) then r else set_reg slot (ucast u) r)"

definition single_temperature ::
  "(k100pm \<Rightarrow> u32 \<Rightarrow> u32) \<Rightarrow> k100pm \<Rightarrow> nat \<Rightarrow> kretprobe_instance \<Rightarrow> pt_regs \<Rightarrow>
    int \<times> kretprobe_instance \<times> pt_regs \<Rightarrow> bool" where
  "single_temperature f g slot inst r res \<longleftrightarrow>
     (\<exists>u. one_of f g (ucast (regs r ! slot)) u \<and> res = written inst r slot u)"

lemma single_temperatureI:
  "one_of f g (ucast (regs r ! slot)) u \<Longrightarrow> res = written inst r slot u \<Longrightarrow>
   single_temperature f g slot inst r res"
  by (auto simp: single_temperature_def)

lemma one_of_gated: "one_of (gated f b) g v u \<longleftrightarrow> (if b then one_of f g v u else u = v)"
  by (simp add: one_of_def gated_def)

lemma with_switch_entry:
  assumes "\<And>Q. Q (x (glob s0)) \<Longrightarrow> always_with s0 Q (read_once x)"
    and "always_with s0 (one_of f g (ucast (regs r ! slot))) p"
  shows "always_with s0 (single_temperature (gated f (x (glob s0))) g slot inst r)
    (pbind (read_once x) (\<lambda>b. if \<not> b then Return_p (0, inst, r)
       else pbind p (\<lambda>value. if value = ucast (regs r ! slot) then Return_p (0, inst, r)
         else pbind (count_p c) (\<lambda>_. pbind (observe_p fmt [ucast (regs r ! slot), value]) (\<lambda>_.
              Return_p (0, inst, set_reg slot (ucast value) r))))))"
proof (cases "x (glob s0)")
  case False
  then show ?thesis
    by (intro always_with_bind assms(1)) (auto intro!: single_temperatureI simp: one_of_gated written_def)
next
  case True
  show ?thesis
    by (rule always_with_bind, rule assms(1), simp only: True not_True_eq_False if_False,
        rule always_with_bindI [OF assms(2)])
      (auto intro!: with_rewrite single_temperatureI simp: one_of_gated written_def)
qed

lemma with_ichg_entry:
  "always_with s0 (single_temperature (gated k100pm_map_ichg (boost (glob s0))) g 1 inst r)
     (ichg_entry_p inst r)"
  unfolding ichg_entry_p_def Let_def
proof (rule with_switch_entry [OF with_read_boost])
  have "one_of k100pm_map_ichg g v = three hot_current_labels (cool_ichg v) v" for v
    by (rule one_of_three) (auto simp: k100pm_map_ichg_def cool_ichg_def apply_current_hot_labels)
  then show "always_with s0 (one_of k100pm_map_ichg g (ucast (regs r ! 1))) (map_ichg_p (ucast (regs r ! 1)))"
    by (simp add: with_map_ichg)
qed

lemma with_cv_entry:
  "always_with s0 (single_temperature (gated k100pm_map_cv (boost (glob s0))) g 1 inst r)
     (cv_entry_p inst r)"
  unfolding cv_entry_p_def Let_def by (rule with_switch_entry [OF with_read_boost with_map_cv])

lemma with_thermal_entry:
  "always_with s0 (single_temperature (gated k100pm_map_thermal (thermal (glob s0))) g 2 inst r)
     (thermal_entry_p inst r)"
  unfolding thermal_entry_p_def Let_def
  by (rule with_switch_entry [OF with_read_thermal with_map_thermal])

lemma one_of_fast_curve_remap:
  "one_of (fast_curve_remap b p) g v = three (switched_labels (b \<or> p))
     (let w = (if b then cool_fast_curve v else v) in if p then cool_pps w else w) v"
  by (rule one_of_three)
    (simp_all add: fast_curve_remap.stop fast_curve_remap_hot fast_curve_remap_cool)

lemma with_fast_curve_entry:
  "always_with s0 (single_temperature (fast_curve_remap (boost (glob s0)) (pps (glob s0))) g 2 inst r)
     (fast_curve_entry_p inst r)"
proof -
  let ?old = "ucast (regs r ! 2) :: u32" and ?b = "boost (glob s0)" and ?p = "pps (glob s0)"
  let ?Q = "single_temperature (fast_curve_remap ?b ?p) g 2 inst r"
  have tail: "always_with s0 ?Q
      (if u = ?old then Return_p (0, inst, r)
       else pbind (read_once pps) (\<lambda>p.
            pbind (if p then pbind (map_pps_p ?old) (\<lambda>v. Return_p (v \<noteq> ?old)) else Return_p False)
              (\<lambda>is_pps.
            pbind (count_p (if is_pps then Pps_hits else Curve_hits)) (\<lambda>_.
            pbind (observe_p ''fast curve %u -> %u mA'' [?old, u]) (\<lambda>_.
            Return_p (0, inst, set_reg 2 (ucast u) r))))))"
    if u: "one_of (fast_curve_remap ?b ?p) g ?old u" for u
  proof (cases "u = ?old")
    case True
    then show ?thesis using u by (auto intro!: single_temperatureI simp: written_def)
  next
    case False
    have tail: "always_with s0 ?Q (pbind (count_p c) (\<lambda>_.
        pbind (observe_p ''fast curve %u -> %u mA'' [?old, u]) (\<lambda>_.
        Return_p (0, inst, set_reg 2 (ucast u) r))))" for c
      using False by (intro with_rewrite single_temperatureI [OF u]) (simp add: written_def)
    have "always_with s0 (\<lambda>_. True) (if p then pbind (map_pps_p ?old) (\<lambda>v. Return_p (v \<noteq> ?old)) else Return_p False)" for p
      by (auto intro: always_with_bindI [OF with_map_pps])
    then show ?thesis
      using False by (auto intro!: always_with_bind with_read_pps always_with_bindI [OF _ tail])
  qed
  have first: "always_with s0 (three (switched_labels ?b) (if ?b then cool_fast_curve ?old else ?old) ?old)
      (if ?b then map_fast_curve_p ?old else Return_p ?old)"
    using with_map_fast_curve [of s0 ?old] by (simp add: switched_labels_def three_def)
  have second: "always_with s0 (one_of (fast_curve_remap ?b ?p) g ?old)
      (if ?p then map_pps_p u else Return_p u)"
    if u: "three (switched_labels ?b) (if ?b then cool_fast_curve ?old else ?old) ?old u" for u
  proof (cases ?p)
    case True
    have "always_with s0 (three hot_current_labels (cool_pps u) u) (map_pps_p u)" by (rule with_map_pps)
    then show ?thesis
      using u fast_curve_then_pps [of ?old u] True
      by (cases ?b) (auto simp: one_of_fast_curve_remap switched_labels_def three_def [of "[]"]
          elim!: always_with_mono)
  qed (use u in \<open>simp add: one_of_fast_curve_remap\<close>)
  show ?thesis
    unfolding fast_curve_entry_p_def Let_def
    by (rule always_with_bind, rule with_read_boost, rule always_with_bindI [OF first],
        rule always_with_bind, rule with_read_pps, rule always_with_bindI [OF second], assumption, rule tail)
qed

lemma with_rewrite_tail:
  assumes choice: "three ls w (ucast (regs r ! 2)) v"
    and ls: "ls = switched_labels (boost (glob s0) \<or> pps (glob s0))"
    and w: "w \<noteq> ucast (regs r ! 2) \<Longrightarrow> ucast (regs r ! 2) \<in> set ls"
    and f: "one_of f g (ucast (regs r ! 2)) = three ls w (ucast (regs r ! 2))"
  shows "always_with s0 (single_temperature f g 2 inst r)
    (rewrite_tail_p fmt (ucast (regs r ! 2)) v inst r)"
proof -
  let ?old = "ucast (regs r ! 2) :: u32"
  have recovery: "always_with s0 (one_of f g ?old) (if e then apply_current_p v else Return_p v)"
    if e: "e = (boost (glob s0) \<or> pps (glob s0))" for e
  proof (cases e)
    case True
    then have ls': "ls = hot_current_labels" using ls e by (simp add: switched_labels_def)
    have "three hot_current_labels w ?old x" if "three hot_current_labels v v x" for x
      using table_then_recovery [OF _ that, of w ?old] choice w by (simp add: ls')
    then show ?thesis
      using True f by (simp add: ls' always_with_mono [OF with_apply_current])
  qed (use choice f in simp)
  have tail: "always_with s0 (single_temperature f g 2 inst r)
      (if u = ?old then Return_p (0, inst, r)
       else pbind (read_once boost) (\<lambda>b.
            pbind (count_p (if b then Curve_hits else Pps_hits)) (\<lambda>_.
            pbind (observe_p fmt [?old, u]) (\<lambda>_.
            Return_p (0, inst, set_reg 2 (ucast u) r)))))"
    if u: "one_of f g ?old u" for u
  proof (cases "u = ?old")
    case True
    then show ?thesis using u by (auto intro!: single_temperatureI simp: written_def)
  next
    case False
    show ?thesis
      by (simp only: False if_False, rule always_with_bind, rule with_read_boost, rule with_rewrite,
          rule single_temperatureI [OF u]) (simp add: written_def False)
  qed
  show ?thesis
    unfolding rewrite_tail_p_def
    by (rule always_with_bind, rule with_either, rule always_with_bindI [OF recovery], rule refl, rule tail)
qed

lemma with_pps_choice:
  "always_with s0 (three (switched_labels (pps (glob s0))) (if pps (glob s0) then cool_pps v else v) v)
     (pbind (read_once pps) (\<lambda>p. if p then map_pps_p v else Return_p v))"
  using with_map_pps [of s0 v]
  by (intro always_with_bind with_read_pps) (auto simp: switched_labels_def three_def)

lemma one_of_div_remap:
  "high \<in> {20500, 22000} \<Longrightarrow>
   one_of (div_remap high b p) g v = three (switched_labels (b \<or> p)) (cool_div high b p v) v"
proof (rule one_of_three)
  assume high: "high \<in> {20500, 22000}"
  then have "high \<in> set hot_current_labels" by (auto simp: hot_current_labels_def)
  then show "div_remap high b p g v = (if v \<in> set (switched_labels (b \<or> p)) then 4140 else v)"
    if "k100pm_temperature_band g = 1" for g
    using that by (intro div_remap_hot)
qed (simp_all add: div_remap_cool, simp add: div_remap_def)

lemma div_changes_labels:
  "cool_div high b p v \<noteq> v \<Longrightarrow> v \<in> set (switched_labels (b \<or> p))"
  by (auto simp: cool_div_def switched_labels_def hot_current_labels_def cool_pps_def split: if_splits)

lemma with_div_entry:
  assumes high: "high \<in> {20500, 22000}"
  shows "always_with s0 (single_temperature (div_remap high (boost (glob s0)) (pps (glob s0))) g 2 inst r)
    (div_entry_p high fmt inst r)"
proof -
  let ?old = "ucast (regs r ! 2) :: u32" and ?b = "boost (glob s0)" and ?p = "pps (glob s0)"
  let ?Q = "single_temperature (div_remap high ?b ?p) g 2 inst r"
  note eq = one_of_div_remap [OF high, of ?b ?p g]
  have stop: "always_with s0 ?Q (Return_p (0, inst, r))"
    by (auto intro!: single_temperatureI [of _ _ _ _ ?old] simp: eq three_def written_def)
  have part: "always_with s0 (three (switched_labels (?b \<or> ?p)) (cool_div high ?b ?p ?old) ?old)
      (if ?b then Return_p (if ?old = 4500 then 5000 else if ?old = 11000 then 12000
                           else if ?old = 18400 then high else ?old)
       else pbind (read_once pps) (\<lambda>p. if p then map_pps_p ?old else Return_p ?old))"
    using with_pps_choice [of s0 ?old] by (auto simp: cool_div_def three_def)
  have "always_with s0 ?Q
      (pbind (read_once boost) (\<lambda>b. pbind
        (if b then Return_p (if ?old = 4500 then 5000 else if ?old = 11000 then 12000
                             else if ?old = 18400 then high else ?old)
         else pbind (read_once pps) (\<lambda>p. if p then map_pps_p ?old else Return_p ?old))
        (\<lambda>value. rewrite_tail_p fmt ?old value inst r)))"
    by (rule always_with_bind, rule with_read_boost, rule always_with_bindI [OF part],
        rule with_rewrite_tail [OF _ refl div_changes_labels eq])
  then show ?thesis
    unfolding div_entry_p_def Let_def using stop
    by (intro always_with_bind with_band) simp_all
qed

lemma one_of_curr_max_remap:
  "one_of (curr_max_remap b p) g v = three (switched_labels (b \<or> p))
     (if b \<and> v = 17500 then 19400 else if p then cool_pps v else v) v"
  by (rule one_of_three)
    (simp_all add: curr_max_remap.stop curr_max_remap_hot curr_max_remap_cool)

lemma curr_max_changes_labels:
  "(if b \<and> v = 17500 then 19400 else if p then cool_pps v else v) \<noteq> v \<Longrightarrow>
   v \<in> set (switched_labels (b \<or> p))"
  by (auto simp: switched_labels_def hot_current_labels_def cool_pps_def split: if_splits)

lemma with_curr_max_entry:
  "always_with s0 (single_temperature (curr_max_remap (boost (glob s0)) (pps (glob s0))) g 2 inst r)
    (curr_max_entry_p inst r)"
proof -
  let ?old = "ucast (regs r ! 2) :: u32" and ?b = "boost (glob s0)" and ?p = "pps (glob s0)"
  let ?Q = "single_temperature (curr_max_remap ?b ?p) g 2 inst r"
  note eq = one_of_curr_max_remap [of ?b ?p g]
  have stop: "always_with s0 ?Q (Return_p (0, inst, r))"
    by (auto intro!: single_temperatureI [of _ _ _ _ ?old] simp: eq three_def written_def)
  have part: "always_with s0 (three (switched_labels (?b \<or> ?p))
        (if ?b \<and> ?old = 17500 then 19400 else if ?p then cool_pps ?old else ?old) ?old)
      (if ?b \<and> ?old = 17500 then Return_p 19400
       else pbind (read_once pps) (\<lambda>p. if p then map_pps_p ?old else Return_p ?old))"
    using with_pps_choice [of s0 ?old]
    by (auto simp: three_def switched_labels_def elim!: always_with_mono split: if_splits)
  have "always_with s0 ?Q
      (pbind (read_once boost) (\<lambda>b. pbind
        (if b \<and> ?old = 17500 then Return_p 19400
         else pbind (read_once pps) (\<lambda>p. if p then map_pps_p ?old else Return_p ?old))
        (\<lambda>value. rewrite_tail_p ''current cap %u -> %u mA'' ?old value inst r)))"
    by (rule always_with_bind, rule with_read_boost, rule always_with_bindI [OF part],
        rule with_rewrite_tail [OF _ refl curr_max_changes_labels eq])
  then show ?thesis
    unfolding curr_max_entry_p_def Let_def using stop
    by (intro always_with_bind with_band) simp_all
qed

end
