(* ===== verification/Interference_Claims.thy ===== *)
theory Interference_Claims
  imports Temperature_Races Charge_Claims
begin

text \<open>
  Properties of the hooks when other CPUs, root and the FG hook run between their accesses
  (theories Interference and Temperature\_Races).
\<close>

lemma exec_mono: "exec R p s a s' \<Longrightarrow> (\<And>x y. R x y \<Longrightarrow> R' x y) \<Longrightarrow> exec R' p s a s'"
  by (induction rule: exec.induct) (auto intro: exec_return exec_atomic)

lemma exec_aloneI: "run_alone p s = (a, s') \<Longrightarrow> (\<And>x. R x x) \<Longrightarrow> exec R p s a s'"
  using exec_mono [of "(=)" p s a s' R] exec_alone [of p s a s'] by auto

text \<open>
  Run without interference, the seven access-by-access programs are the handlers.
\<close>

theorem programs_are_handlers:
  "as_result (run_alone (ichg_entry_p inst r) st) = k100pm_ichg_entry inst r st \<and>
   as_result (run_alone (cv_entry_p inst r) st) = k100pm_cv_entry inst r st \<and>
   as_result (run_alone (thermal_entry_p inst r) st) = k100pm_thermal_entry inst r st \<and>
   as_result (run_alone (fast_curve_entry_p inst r) st) = k100pm_fast_curve_entry inst r st \<and>
   as_result (run_alone (div_single_entry_p inst r) st) = k100pm_div_single_entry inst r st \<and>
   as_result (run_alone (div_multi_entry_p inst r) st) = k100pm_div_multi_entry inst r st \<and>
   as_result (run_alone (curr_max_entry_p inst r) st) = k100pm_curr_max_entry inst r st"
  by (simp add: run_ichg_entry_p run_cv_entry_p run_thermal_entry_p run_fast_curve_entry_p
      run_div_single_entry_p run_div_multi_entry_p run_curr_max_entry_p)

text \<open>The programs, the register each may rewrite and the highest value it may put there.\<close>

definition atomic_entries :: "(entry_prog \<times> nat \<times> u32) set" where
  "atomic_entries =
     {(ichg_entry_p, 1, 19400), (cv_entry_p, 1, 4540), (thermal_entry_p, 2, 15000),
      (fast_curve_entry_p, 2, 19400), (div_single_entry_p, 2, 20500),
      (div_multi_entry_p, 2, 22000), (curr_max_entry_p, 2, 19400)}"

lemma atomic_entries_safe:
  "(p, slot, lim) \<in> atomic_entries \<Longrightarrow> wf_regs r \<Longrightarrow> always (safe_result inst r slot lim) (p inst r)"
  unfolding atomic_entries_def
  by (auto intro: ichg_entry_safe cv_entry_safe thermal_entry_safe fast_curve_entry_safe
      curr_max_entry_safe simp: div_single_entry_p_def div_multi_entry_p_def One_nat_def [symmetric]
      simp del: One_nat_def intro!: div_entry_safe)

text \<open>
  C7: Whatever other CPUs do to the settings, the temperature, the counters and memory between
  the accesses of a rewriting handler, it returns 0, touches no other register and not its
  instance, and never raises its argument above its limit.
\<close>

theorem bounded_under_interference:
  assumes "(p, slot, lim) \<in> atomic_entries" "wf_regs r" "exec R (p inst r) st (c, i, r') st'"
  shows "c = 0 \<and> i = inst \<and> (\<forall>j. j = slot \<or> regs r' ! j = regs r ! j) \<and>
    (ucast (regs r' ! slot) :: u32) \<le> max (ucast (regs r ! slot)) lim"
  using always_sound [OF assms(3) atomic_entries_safe [OF assms(1,2)]]
  by (auto simp: safe_result_def)

theorem bounded_under_interference_witness:
  "\<exists>r' st'. exec (\<lambda>_ _. True) (cv_entry_p no_data (regs_with 4500 0)) (state_at 300) (0, no_data, r') st' \<and>
     regs r' ! 1 = 4520 \<and> (ucast (regs r' ! 1) :: u32) \<le> max 4500 4540"
proof -
  let ?r = "set_reg 1 4520 (regs_with 4500 0)"
  let ?st = "snd (run_alone (cv_entry_p no_data (regs_with 4500 0)) (state_at 300))"
  have "as_result (run_alone (cv_entry_p no_data (regs_with 4500 0)) (state_at 300)) =
      Inr (0, no_data, ?r, k100pm_count Cv_hits (state_at 300))"
    by (simp add: run_cv_entry_p k100pm_cv_entry_def k100pm_map_cv_def k100pm_temperature_band_def
        Let_def observe_info_def k100pm_count_def)
  then have "run_alone (cv_entry_p no_data (regs_with 4500 0)) (state_at 300) =
      ((0, no_data, ?r), k100pm_count Cv_hits (state_at 300))"
    by (cases "run_alone (cv_entry_p no_data (regs_with 4500 0)) (state_at 300)") (auto split: prod.splits)
  then have e: "exec (\<lambda>_ _. True) (cv_entry_p no_data (regs_with 4500 0)) (state_at 300)
      (0, no_data, ?r) (k100pm_count Cv_hits (state_at 300))"
    by (rule exec_aloneI) simp
  have "(cv_entry_p, 1, 4540) \<in> atomic_entries" by (simp add: atomic_entries_def)
  from bounded_under_interference [OF this regs_with_simps(4) e] e
  show ?thesis by (intro exI [of _ ?r] exI conjI) auto
qed

text \<open>Each program with its handler.\<close>

definition atomic_handlers :: "(entry_prog \<times> kretprobe_handler_t) set" where
  "atomic_handlers =
     {(ichg_entry_p, k100pm_ichg_entry), (cv_entry_p, k100pm_cv_entry),
      (thermal_entry_p, k100pm_thermal_entry), (fast_curve_entry_p, k100pm_fast_curve_entry),
      (div_single_entry_p, k100pm_div_single_entry), (div_multi_entry_p, k100pm_div_multi_entry),
      (curr_max_entry_p, k100pm_curr_max_entry)}"

definition with_temperature :: "u32 \<Rightarrow> kstate \<Rightarrow> kstate" where
  "with_temperature t st = st\<lparr>glob := at_raw t (glob st)\<rparr>"

lemma single_temperature_handler:
  assumes "voter_hook h slot remap ctr fmt"
    and "\<And>t. remap (at_raw t (glob st)) = f (at_raw t (glob st))"
    and "single_temperature f (glob st) slot inst r res"
  shows "\<exists>t c i r' st'. res = (c, i, r') \<and> h inst r (with_temperature t st) = Inr (c, i, r', st')"
proof -
  obtain t u where t: "u = f (at_raw t (glob st)) (ucast (regs r ! slot))" "res = written inst r slot u"
    using assms(3) by (auto simp: single_temperature_def one_of_def)
  have "h inst r (with_temperature t st) = voter_spec slot remap ctr fmt inst r (with_temperature t st)"
    by (rule voter_hook.refines [OF assms(1)])
  then show ?thesis
    using t assms(2) [of t]
    by (intro exI [of _ t]) (auto simp: voter_spec_def with_temperature_def written_def Let_def)
qed

lemma same_switches_refl: "same_switches st st"
  by (simp add: same_switches_def)

definition harmless :: "kretprobe_handler_t \<Rightarrow> kretprobe_instance \<Rightarrow> pt_regs \<Rightarrow> kstate \<Rightarrow>
    int \<times> kretprobe_instance \<times> pt_regs \<Rightarrow> bool" where
  "harmless h inst r st res \<longleftrightarrow>
     (\<exists>t c i r' st'. res = (c, i, r') \<and> h inst r (with_temperature t st) = Inr (c, i, r', st'))"

lemma races:
  "exec same_switches (ichg_entry_p inst r) st res st' \<Longrightarrow> harmless k100pm_ichg_entry inst r st res"
  "exec same_switches (cv_entry_p inst r) st res st' \<Longrightarrow> harmless k100pm_cv_entry inst r st res"
  "exec same_switches (thermal_entry_p inst r) st res st' \<Longrightarrow> harmless k100pm_thermal_entry inst r st res"
  "exec same_switches (fast_curve_entry_p inst r) st res st' \<Longrightarrow> harmless k100pm_fast_curve_entry inst r st res"
  "exec same_switches (div_single_entry_p inst r) st res st' \<Longrightarrow> harmless k100pm_div_single_entry inst r st res"
  "exec same_switches (div_multi_entry_p inst r) st res st' \<Longrightarrow> harmless k100pm_div_multi_entry inst r st res"
  "exec same_switches (curr_max_entry_p inst r) st res st' \<Longrightarrow> harmless k100pm_curr_max_entry inst r st res"
  unfolding harmless_def div_single_entry_p_def div_multi_entry_p_def
        apply (rule single_temperature_handler [OF ichg_hook.voter_hook_axioms _
          always_with_sound [OF _ with_ichg_entry same_switches_refl]]; simp)
       apply (rule single_temperature_handler [OF cv_hook.voter_hook_axioms _
          always_with_sound [OF _ with_cv_entry same_switches_refl]]; simp)
      apply (rule single_temperature_handler [OF thermal_hook.voter_hook_axioms _
          always_with_sound [OF _ with_thermal_entry same_switches_refl]]; simp)
     apply (rule single_temperature_handler [OF fast_curve_hook.voter_hook_axioms _
          always_with_sound [OF _ with_fast_curve_entry same_switches_refl]]; simp)
    apply (rule single_temperature_handler [OF div_single_hook.voter_hook_axioms _
          always_with_sound [OF _ with_div_entry [of 20500, simplified] same_switches_refl]]; simp)
   apply (rule single_temperature_handler [OF div_multi_hook.voter_hook_axioms _
          always_with_sound [OF _ with_div_entry [of 22000, simplified] same_switches_refl]]; simp)
  apply (rule single_temperature_handler [OF curr_max_hook.voter_hook_axioms _
          always_with_sound [OF _ with_curr_max_entry same_switches_refl]]; simp)
  done

text \<open>
  C6: Reading the temperature several times is harmless: while the switches stay as they are,
  a rewriting handler that runs across temperature changes leaves the registers exactly as it
  would have at one temperature, even where its reads saw different bands.
\<close>

theorem temperature_races_harmless:
  assumes "(p, h) \<in> atomic_handlers" "exec same_switches (p inst r) st (c, i, r') st'"
  shows "\<exists>t st''. h inst r (with_temperature t st) = Inr (c, i, r', st'')"
proof -
  have "harmless h inst r st (c, i, r')"
    using assms unfolding atomic_handlers_def by (auto intro: races)
  then show ?thesis by (auto simp: harmless_def)
qed

theorem temperature_races_harmless_witness:
  "\<exists>r' st' t. exec same_switches (fast_curve_entry_p no_data (regs_with 0 8630)) (state_at 300) (0, no_data, r') st' \<and>
     regs r' ! 2 = 12000 \<and>
     arg_after (k100pm_fast_curve_entry no_data (regs_with 0 8630) (with_temperature t (state_at 300))) 2 = Some 12000"
proof -
  let ?p = "fast_curve_entry_p no_data (regs_with 0 8630)" and ?r = "set_reg 2 12000 (regs_with 0 8630)"
  obtain st' where h: "k100pm_fast_curve_entry no_data (regs_with 0 8630) (state_at 300) = Inr (0, no_data, ?r, st')"
    by (simp add: k100pm_fast_curve_entry_def k100pm_map_fast_curve_def k100pm_map_pps_def
        k100pm_temperature_band_def Let_def)
  have "as_result (run_alone ?p (state_at 300)) = Inr (0, no_data, ?r, st')"
    using h by (simp add: run_fast_curve_entry_p)
  then have "run_alone ?p (state_at 300) = ((0, no_data, ?r), st')"
    by (cases "run_alone ?p (state_at 300)") auto
  then have e: "exec same_switches ?p (state_at 300) (0, no_data, ?r) st'"
    by (rule exec_aloneI) (rule same_switches_refl)
  have "(fast_curve_entry_p, k100pm_fast_curve_entry) \<in> atomic_handlers" by (simp add: atomic_handlers_def)
  from temperature_races_harmless [OF this e] obtain t st'' where
    "k100pm_fast_curve_entry no_data (regs_with 0 8630) (with_temperature t (state_at 300)) = Inr (0, no_data, ?r, st'')"
    by blast
  with e show ?thesis
    by (intro exI [of _ ?r] exI [of _ st'] exI [of _ t]) (simp add: arg_after_def)
qed

subsection \<open>The counters\<close>

text \<open>
  \<open>k100pm_count\<close> is a read and a write, not an atomic increment: when \<open>n\<close> concurrent
  hits have all finished, in whatever order their accesses interleaved, the counter has grown by
  at least one and at most \<open>n\<close>.
\<close>

theorem racing_hits_bounded:
  assumes "run_threads sched (replicate n (count_p c), s) = (ps, s')" "list_all finished ps" "0 < n"
  shows "\<exists>m. 0 < m \<and> m \<le> n \<and> counter_val c (glob s') = counter_val c (glob s) + word_of_nat m"
proof -
  have inv: "counting_inv c (counter_val c (glob s)) (ps, s')"
    using counting_inv_run [OF counting_inv_start [of c s n], of sched] assms(1) by simp
  have "length ps = n"
    using length_run_threads [of sched "(replicate n (count_p c), s)"] assms(1) by simp
  moreover have "filter finished ps = ps"
    using assms(2) by (simp add: list_all_iff filter_id_conv)
  ultimately have "n_finished ps = n" by (simp add: n_finished_def)
  with inv assms(3) show ?thesis by (auto simp: counting_inv_def)
qed

lemma two_hits_interleaved:
  "run_threads [0, 1, 0, 1] ([count_p c, count_p c], s) =
     ([Return_p (), Return_p ()], s\<lparr>glob := counter_set c (counter_val c (glob s) + 1) (glob s)\<rparr>)"
  by (cases c) (simp_all add: thread_step_def count_p_unfold count_write_unfold)

theorem racing_hits_bounded_witness:
  "\<exists>ps s' m. run_threads [0, 1, 0, 1] (replicate 2 (count_p Ichg_hits), state_at 300) = (ps, s') \<and>
     0 < m \<and> m \<le> (2 :: nat) \<and> ichg_hits (glob s') = word_of_nat m"
proof -
  have run: "run_threads [0, 1, 0, 1] (replicate 2 (count_p Ichg_hits), state_at 300) =
      ([Return_p (), Return_p ()],
       (state_at 300)\<lparr>glob := counter_set Ichg_hits (counter_val Ichg_hits (glob (state_at 300)) + 1) (glob (state_at 300))\<rparr>)"
    using two_hits_interleaved [of Ichg_hits "state_at 300"] by (simp add: numeral_2_eq_2)
  obtain m where "0 < m" "m \<le> (2 :: nat)"
    "counter_val Ichg_hits (glob ((state_at 300)\<lparr>glob := counter_set Ichg_hits (counter_val Ichg_hits (glob (state_at 300)) + 1) (glob (state_at 300))\<rparr>)) =
       counter_val Ichg_hits (glob (state_at 300)) + word_of_nat m"
    using racing_hits_bounded [OF run] by (auto simp: finished_def)
  moreover have "counter_val Ichg_hits (glob (state_at 300)) = 0"
    by (simp add: at_temperature_def default_config_def k100pm_initial_def)
  ultimately show ?thesis using run by (intro exI [of _ m] exI conjI) auto
qed

text \<open>
  Hits are lost: two handlers that count the same event on two CPUs, each reading before the
  other writes, leave the counter one higher, not two.
\<close>

theorem hits_are_lost:
  "\<exists>sched. run_threads sched ([count_p c, count_p c], s) =
     ([Return_p (), Return_p ()], k100pm_count c s)"
  using two_hits_interleaved [of c s] unfolding k100pm_count_def by (rule exI)

end
