(* ===== verification/Linked_List.thy ===== *)
theory Linked_List
  imports Kernel_Mem
begin

text \<open>
  The kernel's circular doubly linked lists (kheaders/include/linux/list.h, \<open>struct list_head\<close>
  of types.h), on which kprobes are chained. The memory of list nodes is a map for each of the
  two fields; a field access at an address that is not a node faults. The build has
  \<open>CONFIG_LIST_HARDENED\<close> and not \<open>CONFIG_DEBUG_LIST\<close>: the inline checks are made, and a failed
  check is false whatever the report function, which is not in the repository, says.
\<close>

subsection \<open>Memory\<close>

record lheap =
  nextf :: "u64 \<Rightarrow> u64 option"
  prevf :: "u64 \<Rightarrow> u64 option"

definition get_next :: "u64 \<Rightarrow> lheap \<Rightarrow> kfault + u64" where
  "get_next p h = (case nextf h p of None \<Rightarrow> Inl (BadAddress p) | Some v \<Rightarrow> Inr v)"

definition get_prev :: "u64 \<Rightarrow> lheap \<Rightarrow> kfault + u64" where
  "get_prev p h = (case prevf h p of None \<Rightarrow> Inl (BadAddress p) | Some v \<Rightarrow> Inr v)"

definition set_next :: "u64 \<Rightarrow> u64 \<Rightarrow> lheap \<Rightarrow> kfault + lheap" where
  "set_next p v h = (if nextf h p = None then Inl (BadAddress p)
                     else Inr (h\<lparr>nextf := (nextf h)(p \<mapsto> v)\<rparr>))"

definition set_prev :: "u64 \<Rightarrow> u64 \<Rightarrow> lheap \<Rightarrow> kfault + lheap" where
  "set_prev p v h = (if prevf h p = None then Inl (BadAddress p)
                     else Inr (h\<lparr>prevf := (prevf h)(p \<mapsto> v)\<rparr>))"

definition node :: "u64 \<Rightarrow> lheap \<Rightarrow> bool" where
  "node p h \<longleftrightarrow> nextf h p \<noteq> None \<and> prevf h p \<noteq> None"

text \<open>\<open>LIST_POISON1\<close> and \<open>LIST_POISON2\<close> of poison.h, with the build's pointer delta.\<close>

definition LIST_POISON1 :: u64 where "LIST_POISON1 = 0xdead000000000100"
definition LIST_POISON2 :: u64 where "LIST_POISON2 = 0xdead000000000122"

subsection \<open>Operations\<close>

definition INIT_LIST_HEAD :: "u64 \<Rightarrow> lheap \<Rightarrow> kfault + lheap" where
  "INIT_LIST_HEAD l h = fbind (set_next l l h) (set_prev l l)"

definition list_add_valid :: "u64 \<Rightarrow> u64 \<Rightarrow> u64 \<Rightarrow> lheap \<Rightarrow> kfault + bool" where
  "list_add_valid new prev nxt h =
     fbind (get_prev nxt h) (\<lambda>np. if np \<noteq> prev then Inr False
       else fbind (get_next prev h) (\<lambda>pn. Inr (pn = nxt \<and> new \<noteq> prev \<and> new \<noteq> nxt)))"

definition list_del_entry_valid :: "u64 \<Rightarrow> lheap \<Rightarrow> kfault + bool" where
  "list_del_entry_valid entry h =
     fbind (get_prev entry h) (\<lambda>prev. fbind (get_next entry h) (\<lambda>nxt.
     fbind (get_next prev h) (\<lambda>pn. if pn \<noteq> entry then Inr False
       else fbind (get_prev nxt h) (\<lambda>np. Inr (np = entry)))))"

definition list_add_between :: "u64 \<Rightarrow> u64 \<Rightarrow> u64 \<Rightarrow> lheap \<Rightarrow> kfault + lheap" where
  "list_add_between new prev nxt h =
     fbind (list_add_valid new prev nxt h) (\<lambda>valid. if \<not> valid then Inr h
       else fbind (set_prev nxt new h) (\<lambda>h. fbind (set_next new nxt h) (\<lambda>h.
            fbind (set_prev new prev h) (set_next prev new))))"

definition list_add :: "u64 \<Rightarrow> u64 \<Rightarrow> lheap \<Rightarrow> kfault + lheap" where
  "list_add new head h = fbind (get_next head h) (\<lambda>nxt. list_add_between new head nxt h)"

definition list_add_tail :: "u64 \<Rightarrow> u64 \<Rightarrow> lheap \<Rightarrow> kfault + lheap" where
  "list_add_tail new head h = fbind (get_prev head h) (\<lambda>prev. list_add_between new prev head h)"

definition list_del_between :: "u64 \<Rightarrow> u64 \<Rightarrow> lheap \<Rightarrow> kfault + lheap" where
  "list_del_between prev nxt h = fbind (set_prev nxt prev h) (set_next prev nxt)"

definition list_del_clearprev :: "u64 \<Rightarrow> lheap \<Rightarrow> kfault + lheap" where
  "list_del_clearprev entry h =
     fbind (get_prev entry h) (\<lambda>prev. fbind (get_next entry h) (\<lambda>nxt.
     fbind (list_del_between prev nxt h) (set_prev entry 0)))"

definition list_del_entry :: "u64 \<Rightarrow> lheap \<Rightarrow> kfault + lheap" where
  "list_del_entry entry h =
     fbind (list_del_entry_valid entry h) (\<lambda>valid. if \<not> valid then Inr h
       else fbind (get_prev entry h) (\<lambda>prev. fbind (get_next entry h) (\<lambda>nxt.
            list_del_between prev nxt h)))"

definition list_del :: "u64 \<Rightarrow> lheap \<Rightarrow> kfault + lheap" where
  "list_del entry h =
     fbind (list_del_entry entry h) (\<lambda>h. fbind (set_next entry LIST_POISON1 h)
       (set_prev entry LIST_POISON2))"

definition list_replace :: "u64 \<Rightarrow> u64 \<Rightarrow> lheap \<Rightarrow> kfault + lheap" where
  "list_replace old new h =
     fbind (get_next old h) (\<lambda>n. fbind (set_next new n h) (\<lambda>h. fbind (set_prev n new h) (\<lambda>h.
     fbind (get_prev old h) (\<lambda>p. fbind (set_prev new p h) (set_next p new)))))"

definition list_replace_init :: "u64 \<Rightarrow> u64 \<Rightarrow> lheap \<Rightarrow> kfault + lheap" where
  "list_replace_init old new h = fbind (list_replace old new h) (INIT_LIST_HEAD old)"

definition list_swap :: "u64 \<Rightarrow> u64 \<Rightarrow> lheap \<Rightarrow> kfault + lheap" where
  "list_swap entry1 entry2 h =
     fbind (get_prev entry2 h) (\<lambda>pos. fbind (list_del entry2 h) (\<lambda>h.
     fbind (list_replace entry1 entry2 h) (\<lambda>h.
     list_add entry1 (if pos = entry1 then entry2 else pos) h)))"

definition list_del_init :: "u64 \<Rightarrow> lheap \<Rightarrow> kfault + lheap" where
  "list_del_init entry h = fbind (list_del_entry entry h) (INIT_LIST_HEAD entry)"

definition list_move :: "u64 \<Rightarrow> u64 \<Rightarrow> lheap \<Rightarrow> kfault + lheap" where
  "list_move l head h = fbind (list_del_entry l h) (list_add l head)"

definition list_move_tail :: "u64 \<Rightarrow> u64 \<Rightarrow> lheap \<Rightarrow> kfault + lheap" where
  "list_move_tail l head h = fbind (list_del_entry l h) (list_add_tail l head)"

definition list_bulk_move_tail :: "u64 \<Rightarrow> u64 \<Rightarrow> u64 \<Rightarrow> lheap \<Rightarrow> kfault + lheap" where
  "list_bulk_move_tail head first final h =
     fbind (get_prev first h) (\<lambda>fp. fbind (get_next final h) (\<lambda>ln. fbind (set_next fp ln h) (\<lambda>h.
     fbind (get_next final h) (\<lambda>ln. fbind (get_prev first h) (\<lambda>fp. fbind (set_prev ln fp h) (\<lambda>h.
     fbind (get_prev head h) (\<lambda>hp. fbind (set_next hp first h) (\<lambda>h.
     fbind (get_prev head h) (\<lambda>hp. fbind (set_prev first hp h) (\<lambda>h.
     fbind (set_next final head h) (set_prev head final)))))))))))"

definition list_is_first :: "u64 \<Rightarrow> u64 \<Rightarrow> lheap \<Rightarrow> kfault + bool" where
  "list_is_first l head h = fbind (get_prev l h) (\<lambda>p. Inr (p = head))"

definition list_is_last :: "u64 \<Rightarrow> u64 \<Rightarrow> lheap \<Rightarrow> kfault + bool" where
  "list_is_last l head h = fbind (get_next l h) (\<lambda>n. Inr (n = head))"

definition list_is_head :: "u64 \<Rightarrow> u64 \<Rightarrow> bool" where
  "list_is_head l head \<longleftrightarrow> l = head"

definition list_empty :: "u64 \<Rightarrow> lheap \<Rightarrow> kfault + bool" where
  "list_empty head h = fbind (get_next head h) (\<lambda>n. Inr (n = head))"

definition list_del_init_careful :: "u64 \<Rightarrow> lheap \<Rightarrow> kfault + lheap" where
  "list_del_init_careful entry h =
     fbind (list_del_entry entry h) (\<lambda>h. fbind (set_prev entry entry h) (set_next entry entry))"

definition list_empty_careful :: "u64 \<Rightarrow> lheap \<Rightarrow> kfault + bool" where
  "list_empty_careful head h =
     fbind (get_next head h) (\<lambda>nxt. if \<not> list_is_head nxt head then Inr False
       else fbind (get_prev head h) (\<lambda>p. Inr (nxt = p)))"

definition list_rotate_left :: "u64 \<Rightarrow> lheap \<Rightarrow> kfault + lheap" where
  "list_rotate_left head h =
     fbind (list_empty head h) (\<lambda>e. if e then Inr h
       else fbind (get_next head h) (\<lambda>first. list_move_tail first head h))"

definition list_rotate_to_front :: "u64 \<Rightarrow> u64 \<Rightarrow> lheap \<Rightarrow> kfault + lheap" where
  "list_rotate_to_front l head h = list_move_tail head l h"

definition list_is_singular :: "u64 \<Rightarrow> lheap \<Rightarrow> kfault + bool" where
  "list_is_singular head h =
     fbind (list_empty head h) (\<lambda>e. if e then Inr False
       else fbind (get_next head h) (\<lambda>n. fbind (get_prev head h) (\<lambda>p. Inr (n = p))))"

definition list_cut_at :: "u64 \<Rightarrow> u64 \<Rightarrow> u64 \<Rightarrow> lheap \<Rightarrow> kfault + lheap" where
  "list_cut_at l head entry h =
     fbind (get_next entry h) (\<lambda>new_first. fbind (get_next head h) (\<lambda>hn.
     fbind (set_next l hn h) (\<lambda>h. fbind (set_prev hn l h) (\<lambda>h.
     fbind (set_prev l entry h) (\<lambda>h. fbind (set_next entry l h) (\<lambda>h.
     fbind (set_next head new_first h) (set_prev new_first head)))))))"

definition list_cut_position :: "u64 \<Rightarrow> u64 \<Rightarrow> u64 \<Rightarrow> lheap \<Rightarrow> kfault + lheap" where
  "list_cut_position l head entry h =
     fbind (list_empty head h) (\<lambda>e. if e then Inr h
       else fbind (list_is_singular head h) (\<lambda>s. fbind (get_next head h) (\<lambda>hn.
         if s \<and> \<not> list_is_head entry head \<and> entry \<noteq> hn then Inr h
         else if list_is_head entry head then INIT_LIST_HEAD l h
         else list_cut_at l head entry h)))"

definition list_cut_before :: "u64 \<Rightarrow> u64 \<Rightarrow> u64 \<Rightarrow> lheap \<Rightarrow> kfault + lheap" where
  "list_cut_before l head entry h =
     fbind (get_next head h) (\<lambda>hn. if hn = entry then INIT_LIST_HEAD l h
       else fbind (set_next l hn h) (\<lambda>h. fbind (set_prev hn l h) (\<lambda>h.
            fbind (get_prev entry h) (\<lambda>ep. fbind (set_prev l ep h) (\<lambda>h.
            fbind (set_next ep l h) (\<lambda>h. fbind (set_next head entry h) (set_prev entry head)))))))"

definition list_splice_between :: "u64 \<Rightarrow> u64 \<Rightarrow> u64 \<Rightarrow> lheap \<Rightarrow> kfault + lheap" where
  "list_splice_between l prev nxt h =
     fbind (get_next l h) (\<lambda>first. fbind (get_prev l h) (\<lambda>final.
     fbind (set_prev first prev h) (\<lambda>h. fbind (set_next prev first h) (\<lambda>h.
     fbind (set_next final nxt h) (set_prev nxt final)))))"

definition list_splice :: "u64 \<Rightarrow> u64 \<Rightarrow> lheap \<Rightarrow> kfault + lheap" where
  "list_splice l head h =
     fbind (list_empty l h) (\<lambda>e. if e then Inr h
       else fbind (get_next head h) (\<lambda>n. list_splice_between l head n h))"

definition list_splice_tail :: "u64 \<Rightarrow> u64 \<Rightarrow> lheap \<Rightarrow> kfault + lheap" where
  "list_splice_tail l head h =
     fbind (list_empty l h) (\<lambda>e. if e then Inr h
       else fbind (get_prev head h) (\<lambda>p. list_splice_between l p head h))"

definition list_splice_init :: "u64 \<Rightarrow> u64 \<Rightarrow> lheap \<Rightarrow> kfault + lheap" where
  "list_splice_init l head h =
     fbind (list_empty l h) (\<lambda>e. if e then Inr h
       else fbind (get_next head h) (\<lambda>n. fbind (list_splice_between l head n h) (INIT_LIST_HEAD l)))"

definition list_splice_tail_init :: "u64 \<Rightarrow> u64 \<Rightarrow> lheap \<Rightarrow> kfault + lheap" where
  "list_splice_tail_init l head h =
     fbind (list_empty l h) (\<lambda>e. if e then Inr h
       else fbind (get_prev head h) (\<lambda>p. fbind (list_splice_between l p head h) (INIT_LIST_HEAD l)))"

lemmas list_op_defs = INIT_LIST_HEAD_def list_add_valid_def list_del_entry_valid_def
  list_add_between_def list_add_def list_add_tail_def list_del_between_def list_del_clearprev_def
  list_del_entry_def list_del_def list_replace_def list_replace_init_def list_del_init_def
  list_move_def list_move_tail_def list_empty_def list_rotate_left_def list_is_singular_def
  list_splice_between_def list_splice_def list_splice_tail_def list_splice_init_def
  list_splice_tail_init_def list_cut_at_def list_cut_position_def list_cut_before_def

subsection \<open>The shape of a list\<close>

definition link :: "lheap \<Rightarrow> u64 \<Rightarrow> u64 \<Rightarrow> bool" where
  "link h p q \<longleftrightarrow> nextf h p = Some q \<and> prevf h q = Some p"

text \<open>\<open>links h xs\<close>: each node of \<open>xs\<close> and the one behind it are linked both ways.\<close>

fun links :: "lheap \<Rightarrow> u64 list \<Rightarrow> bool" where
  "links h (x # y # zs) \<longleftrightarrow> link h x y \<and> links h (y # zs)"
| "links h _ \<longleftrightarrow> True"

definition is_list :: "lheap \<Rightarrow> u64 \<Rightarrow> u64 list \<Rightarrow> bool" where
  "is_list h head xs \<longleftrightarrow> links h (head # xs @ [head]) \<and> distinct (head # xs)"

lemma get_next_Some [simp]: "nextf h p = Some v \<Longrightarrow> get_next p h = Inr v"
  by (simp add: get_next_def)

lemma get_prev_Some [simp]: "prevf h p = Some v \<Longrightarrow> get_prev p h = Inr v"
  by (simp add: get_prev_def)

lemma set_next_Some [simp]: "nextf h p = Some w \<Longrightarrow> set_next p v h = Inr (h\<lparr>nextf := (nextf h)(p \<mapsto> v)\<rparr>)"
  by (simp add: set_next_def)

lemma set_prev_Some [simp]: "prevf h p = Some w \<Longrightarrow> set_prev p v h = Inr (h\<lparr>prevf := (prevf h)(p \<mapsto> v)\<rparr>)"
  by (simp add: set_prev_def)

lemma links_Cons: "links h (x # ys) \<longleftrightarrow> links h ys \<and> (ys \<noteq> [] \<longrightarrow> link h x (hd ys))"
  by (cases ys) auto

lemma links_append:
  "links h (xs @ ys) \<longleftrightarrow> links h xs \<and> links h ys \<and> (xs \<noteq> [] \<and> ys \<noteq> [] \<longrightarrow> link h (last xs) (hd ys))"
  by (induction xs) (auto simp: links_Cons hd_append)

text \<open>Links that are not on the way can change.\<close>

lemma links_frame:
  "links h xs \<Longrightarrow> (\<And>p. p \<in> set (butlast xs) \<Longrightarrow> nextf h' p = nextf h p) \<Longrightarrow>
   (\<And>p. p \<in> set (tl xs) \<Longrightarrow> prevf h' p = prevf h p) \<Longrightarrow> links h' xs"
  by (induction h xs rule: links.induct) (auto simp: link_def)

text \<open>A list cut open in one place.\<close>

lemma is_list_join:
  "is_list h head (ys @ zs) \<longleftrightarrow>
     links h (head # ys) \<and> links h (zs @ [head]) \<and> link h (last (head # ys)) (hd (zs @ [head])) \<and>
     distinct (head # ys @ zs)"
proof -
  have eq: "head # (ys @ zs) @ [head] = (head # ys) @ zs @ [head]" by simp
  have "links h (head # (ys @ zs) @ [head]) \<longleftrightarrow>
      links h (head # ys) \<and> links h (zs @ [head]) \<and> link h (last (head # ys)) (hd (zs @ [head]))"
    unfolding eq links_append [of h "head # ys" "zs @ [head]"] by blast
  then show ?thesis unfolding is_list_def by blast
qed

lemma is_list_empty: "is_list h head [] \<longleftrightarrow> link h head head"
  by (simp add: is_list_def)

lemma is_list_head:
  assumes "is_list h head xs"
  shows "link h head (hd (xs @ [head]))" "link h (last (head # xs)) head" "distinct (head # xs)"
  using is_list_join [of h head "[]" xs] is_list_join [of h head xs "[]"] assms
  by (auto simp: is_list_def)

lemma links_nodes:
  "links h xs \<Longrightarrow> p \<in> set (butlast xs) \<Longrightarrow> nextf h p \<noteq> None"
  "links h xs \<Longrightarrow> p \<in> set (tl xs) \<Longrightarrow> prevf h p \<noteq> None"
proof (induction xs)
  case (Cons x xs)
  { case 1 then show ?case using Cons.IH(1) by (cases xs) (auto simp: link_def) }
  { case 2 then show ?case using Cons.IH(2) by (cases xs) (auto simp: link_def) }
qed auto

lemma is_list_nodes: "is_list h head xs \<Longrightarrow> p \<in> set (head # xs) \<Longrightarrow> node p h"
  using links_nodes [of h "head # xs @ [head]" p]
  by (auto simp: is_list_def node_def butlast_append)

subsection \<open>Connecting two nodes\<close>

text \<open>Every operation is a few of these.\<close>

definition connect :: "u64 \<Rightarrow> u64 \<Rightarrow> lheap \<Rightarrow> lheap" where
  "connect p n h = h\<lparr>nextf := (nextf h)(p \<mapsto> n), prevf := (prevf h)(n \<mapsto> p)\<rparr>"

lemma link_connect: "link (connect p n h) p n"
  by (simp add: link_def connect_def)

lemma link_connect_other: "p \<noteq> a \<Longrightarrow> n \<noteq> b \<Longrightarrow> link (connect p n h) a b = link h a b"
  by (simp add: link_def connect_def)

lemma links_connect_other:
  "links h xs \<Longrightarrow> p \<notin> set (butlast xs) \<Longrightarrow> n \<notin> set (tl xs) \<Longrightarrow> links (connect p n h) xs"
  by (rule links_frame) (auto simp: connect_def)

lemma node_connect [simp]: "node q (connect p n h) \<longleftrightarrow> node q h \<or>
    (p = q \<or> nextf h q \<noteq> None) \<and> (n = q \<or> prevf h q \<noteq> None)"
  by (auto simp: node_def connect_def)

lemma in_set_tlD: "x \<in> set (tl xs) \<Longrightarrow> x \<in> set xs"
  by (cases xs) auto

lemma hd_notin_tl: "distinct xs \<Longrightarrow> xs \<noteq> [] \<Longrightarrow> hd xs \<notin> set (tl xs)"
  by (cases xs) auto

lemma links_glue:
  assumes "links h xs" "links h ys" "distinct xs" "distinct ys" "xs \<noteq> []" "ys \<noteq> []"
    and "last xs \<notin> set (butlast ys)" "hd ys \<notin> set (tl xs)"
  shows "links (connect (last xs) (hd ys) h) (xs @ ys)"
  using assms links_connect_other [OF assms(1), of "last xs" "hd ys"]
    links_connect_other [OF assms(2), of "last xs" "hd ys"]
  by (simp add: links_append link_connect last_notin_butlast hd_notin_tl)

subsection \<open>Adding and deleting\<close>

lemma add_between_linked:
  assumes "link h prev nxt" "node new h" "new \<noteq> prev" "new \<noteq> nxt"
  shows "list_add_between new prev nxt h = Inr (connect prev new (connect new nxt h))"
  using assms
  by (auto simp: list_add_between_def list_add_valid_def link_def node_def connect_def fun_upd_twist)

lemma del_entry_linked:
  assumes "link h prev e" "link h e nxt"
  shows "list_del_entry e h = Inr (connect prev nxt h)"
  using assms
  by (auto simp: list_del_entry_def list_del_entry_valid_def list_del_between_def link_def connect_def)

lemma is_list_insert:
  assumes "is_list h head (ys @ zs)" "new \<notin> set (head # ys @ zs)"
  shows "is_list (connect (last (head # ys)) new (connect new (hd (zs @ [head])) h)) head (ys @ new # zs)"
proof -
  have j: "links h (head # ys)" "links h (zs @ [head])" "distinct (head # ys @ zs)"
    using assms(1) by (auto simp: is_list_join)
  let ?h1 = "connect new (hd (zs @ [head])) h"
  have 1: "links ?h1 ([new] @ zs @ [head])"
    using links_glue [of h "[new]" "zs @ [head]"] j assms(2) by (simp add: butlast_append)
  have 2: "links ?h1 (head # ys)"
    by (rule links_connect_other [OF j(1)]) (use j(3) assms(2) in \<open>auto simp: hd_append dest: in_set_butlastD\<close>)
  have "links (connect (last (head # ys)) (hd ([new] @ zs @ [head])) ?h1) ((head # ys) @ [new] @ zs @ [head])"
    by (rule links_glue [OF 2 1]) (use j(3) assms(2) in \<open>auto simp: butlast_append dest: last_in_set\<close>)
  then show ?thesis
    using j(3) assms(2) by (auto simp: is_list_def)
qed

lemma is_list_remove:
  assumes "is_list h head (ys @ e # zs)"
  shows "is_list (connect (last (head # ys)) (hd (zs @ [head])) h) head (ys @ zs)"
    and "link h (last (head # ys)) e" "link h e (hd (zs @ [head]))"
proof -
  have j: "links h (head # ys)" "links h (e # zs @ [head])" "link h (last (head # ys)) e"
    "distinct (head # ys @ e # zs)"
    using assms is_list_join [of h head ys "e # zs"] by auto
  then show "link h (last (head # ys)) e" "link h e (hd (zs @ [head]))"
    by (simp_all add: links_Cons)
  have "links (connect (last (head # ys)) (hd (zs @ [head])) h) ((head # ys) @ zs @ [head])"
    by (rule links_glue) (use j in \<open>auto simp: links_Cons hd_append butlast_append dest: last_in_set hd_in_set\<close>)
  then show "is_list (connect (last (head # ys)) (hd (zs @ [head])) h) head (ys @ zs)"
    using j(4) by (auto simp: is_list_def)
qed

text \<open>What an operation leaves alone.\<close>

definition same_outside :: "u64 set \<Rightarrow> lheap \<Rightarrow> lheap \<Rightarrow> bool" where
  "same_outside S h h' \<longleftrightarrow> (\<forall>p. p \<notin> S \<longrightarrow> nextf h' p = nextf h p \<and> prevf h' p = prevf h p)"

lemma same_outside_refl [simp]: "same_outside S h h"
  by (simp add: same_outside_def)

lemma same_outside_connect [simp]:
  "p \<in> S \<Longrightarrow> n \<in> S \<Longrightarrow> same_outside S h (connect p n h') = same_outside S h h'"
  by (auto simp: same_outside_def connect_def)

lemma is_list_outside:
  "is_list h head xs \<Longrightarrow> same_outside S h h' \<Longrightarrow> set (head # xs) \<inter> S = {} \<Longrightarrow> is_list h' head xs"
  unfolding is_list_def
  by (auto intro!: links_frame [of h "head # xs @ [head]" h'] simp: same_outside_def butlast_append
      disjoint_iff)

lemma init_linked: "node l h \<Longrightarrow> INIT_LIST_HEAD l h = Inr (connect l l h)"
  by (auto simp: INIT_LIST_HEAD_def node_def connect_def)

lemma init_is_list: "is_list (connect l l h) l []"
  by (simp add: is_list_empty link_connect)

subsection \<open>Each operation on a list\<close>

lemma hd_member: "hd (xs @ [head]) \<in> set (head # xs)"
  by (cases xs) auto

lemma last_member: "last (head # xs) \<in> set (head # xs)"
  by (rule last_in_set) simp

lemma list_add_spec:
  assumes "is_list h head xs" "node new h" "new \<notin> set (head # xs)"
  obtains h' where "list_add new head h = Inr h'" "is_list h' head (new # xs)"
    "same_outside (set (new # head # xs)) h h'"
proof -
  let ?n = "hd (xs @ [head])"
  note l = is_list_head [OF assms(1)]
  have n: "?n \<in> set (new # head # xs)" "new \<noteq> ?n" "new \<noteq> head"
    using hd_member [of xs head] assms(3) by auto
  have "list_add new head h = Inr (connect head new (connect new ?n h))"
    using add_between_linked [OF l(1) assms(2) n(3,2)] l(1) by (simp add: list_add_def link_def)
  then show thesis
    using is_list_insert [of h head "[]" xs new] assms n(1)
    by (intro that [of "connect head new (connect new ?n h)"]) simp_all
qed

lemma list_add_tail_spec:
  assumes "is_list h head xs" "node new h" "new \<notin> set (head # xs)"
  obtains h' where "list_add_tail new head h = Inr h'" "is_list h' head (xs @ [new])"
    "same_outside (set (new # head # xs)) h h'"
proof -
  let ?p = "last (head # xs)"
  note l = is_list_head [OF assms(1)]
  have p: "?p \<in> set (new # head # xs)" "new \<noteq> ?p" "new \<noteq> head"
    using last_member [of head xs] assms(3) by (auto simp del: last.simps)
  have "list_add_tail new head h = Inr (connect ?p new (connect new head h))"
    using add_between_linked [OF l(2) assms(2) p(2,3)] l(2) by (simp add: list_add_tail_def link_def)
  then show thesis
    using is_list_insert [of h head xs "[]" new] assms p(1)
    by (intro that [of "connect ?p new (connect new head h)"])
      (simp_all only: same_outside_connect list.set append_Nil2 list.sel append_Nil same_outside_refl insert_iff simp_thms)
qed

lemma list_del_entry_spec:
  assumes "is_list h head (ys @ e # zs)"
  shows "list_del_entry e h = Inr (connect (last (head # ys)) (hd (zs @ [head])) h)"
    "is_list (connect (last (head # ys)) (hd (zs @ [head])) h) head (ys @ zs)"
    "node e (connect (last (head # ys)) (hd (zs @ [head])) h)"
    "same_outside (set (head # ys @ zs)) h (connect (last (head # ys)) (hd (zs @ [head])) h)"
proof -
  note r = is_list_remove [OF assms]
  show "list_del_entry e h = Inr (connect (last (head # ys)) (hd (zs @ [head])) h)"
    by (rule del_entry_linked [OF r(2,3)])
  show "is_list (connect (last (head # ys)) (hd (zs @ [head])) h) head (ys @ zs)" by (rule r(1))
  show "node e (connect (last (head # ys)) (hd (zs @ [head])) h)"
    using is_list_nodes [OF assms, of e] by simp
  have "last (head # ys) \<in> set (head # ys @ zs)" "hd (zs @ [head]) \<in> set (head # ys @ zs)"
    using last_in_set [of "head # ys"] by (auto simp: hd_append)
  then show "same_outside (set (head # ys @ zs)) h (connect (last (head # ys)) (hd (zs @ [head])) h)"
    by simp
qed

lemma list_del_spec:
  assumes "is_list h head (ys @ e # zs)"
  obtains h' where "list_del e h = Inr h'" "is_list h' head (ys @ zs)"
    "nextf h' e = Some LIST_POISON1" "prevf h' e = Some LIST_POISON2"
    "same_outside (set (head # ys @ e # zs)) h h'"
proof -
  note d = list_del_entry_spec [OF assms]
  let ?h1 = "connect (last (head # ys)) (hd (zs @ [head])) h"
  let ?h2 = "?h1\<lparr>nextf := (nextf ?h1)(e \<mapsto> LIST_POISON1), prevf := (prevf ?h1)(e \<mapsto> LIST_POISON2)\<rparr>"
  have "list_del e h = Inr ?h2"
    using d(1,3) by (auto simp: list_del_def node_def)
  moreover have "e \<notin> set (head # ys @ zs)" using assms by (auto simp: is_list_def)
  then have "is_list ?h2 head (ys @ zs)"
    by (intro is_list_outside [OF d(2), of "{e}"]) (auto simp: same_outside_def)
  moreover have "same_outside (set (head # ys @ e # zs)) h ?h2"
    using d(4) by (auto simp: same_outside_def)
  ultimately show thesis by (intro that [of ?h2]) simp_all
qed

lemma list_del_init_spec:
  assumes "is_list h head (ys @ e # zs)"
  obtains h' where "list_del_init e h = Inr h'" "is_list h' head (ys @ zs)" "is_list h' e []"
    "same_outside (set (head # ys @ e # zs)) h h'"
proof -
  note d = list_del_entry_spec [OF assms]
  let ?h1 = "connect (last (head # ys)) (hd (zs @ [head])) h"
  have "list_del_init e h = Inr (connect e e ?h1)"
    using d(1) init_linked [OF d(3)] by (simp add: list_del_init_def)
  moreover have "e \<notin> set (head # ys @ zs)" using assms by (auto simp: is_list_def)
  then have "is_list (connect e e ?h1) head (ys @ zs)"
    by (intro is_list_outside [OF d(2), of "{e}"]) auto
  moreover have "same_outside (set (head # ys @ e # zs)) h (connect e e ?h1)"
    using d(4) by (auto simp: same_outside_def connect_def)
  ultimately show thesis by (intro that [of "connect e e ?h1"]) (simp_all only: init_is_list)
qed

lemma list_replace_spec:
  assumes "is_list h head (ys @ e # zs)" "node new h" "new \<notin> set (head # ys @ e # zs)"
  obtains h' where "list_replace e new h = Inr h'" "is_list h' head (ys @ new # zs)"
    "same_outside (set (head # ys @ new # zs)) h h'"
proof -
  let ?p = "last (head # ys)" and ?n = "hd (zs @ [head])"
  note r = is_list_remove [OF assms(1)]
  have mem: "?p \<in> set (head # ys @ new # zs)" "?n \<in> set (head # ys @ new # zs)" "new \<in> set (head # ys @ new # zs)"
    using last_in_set [of "head # ys"] by (auto simp: hd_append)
  have new: "new \<noteq> ?p" "new \<noteq> ?n" "e \<noteq> ?p" "e \<noteq> ?n"
    using assms(1,3) last_in_set [of "head # ys"] by (auto simp: hd_append is_list_def)
  have eq: "list_replace e new h = Inr (connect ?p new (connect new ?n h))"
    using r(2,3) assms(2) new
    by (auto simp: list_replace_def link_def node_def connect_def fun_upd_twist)
  have "connect ?p new (connect new ?n h) = connect ?p new (connect new ?n (connect ?p ?n h))"
    using new by (simp add: connect_def fun_upd_twist)
  moreover have "new \<notin> set (head # ys @ zs)" using assms(3) by simp
  ultimately have "is_list (connect ?p new (connect new ?n h)) head (ys @ new # zs)"
    using is_list_insert [OF r(1)] by metis
  moreover have "same_outside (set (head # ys @ new # zs)) h (connect ?p new (connect new ?n h))"
    by (simp only: same_outside_connect [OF mem(1,3)] same_outside_connect [OF mem(3,2)] same_outside_refl)
  ultimately show thesis using eq by (intro that)
qed

lemma list_replace_init_spec:
  assumes "is_list h head (ys @ e # zs)" "node new h" "new \<notin> set (head # ys @ e # zs)"
  obtains h' where "list_replace_init e new h = Inr h'" "is_list h' head (ys @ new # zs)" "is_list h' e []"
proof -
  obtain h1 where h1: "list_replace e new h = Inr h1" "is_list h1 head (ys @ new # zs)"
    "same_outside (set (head # ys @ new # zs)) h h1"
    by (rule list_replace_spec [OF assms])
  have e: "e \<notin> set (head # ys @ new # zs)" using assms(1,3) by (auto simp: is_list_def)
  then have "node e h1"
    using h1(3) is_list_nodes [OF assms(1), of e] by (simp add: same_outside_def node_def)
  then have "list_replace_init e new h = Inr (connect e e h1)"
    by (simp add: list_replace_init_def h1(1) init_linked)
  moreover have "is_list (connect e e h1) head (ys @ new # zs)"
    by (rule is_list_outside [OF h1(2), of "{e}"]) (use e in auto)
  ultimately show thesis using init_is_list by (intro that)
qed

lemma list_move_tail_spec:
  assumes "is_list h head (ys @ e # zs)"
  obtains h' where "list_move_tail e head h = Inr h'" "is_list h' head (ys @ zs @ [e])"
    "same_outside (set (head # ys @ e # zs)) h h'"
proof -
  note d = list_del_entry_spec [OF assms]
  let ?h1 = "connect (last (head # ys)) (hd (zs @ [head])) h"
  have e: "e \<notin> set (head # ys @ zs)" using assms by (auto simp: is_list_def)
  obtain h' where "list_add_tail e head ?h1 = Inr h'" "is_list h' head ((ys @ zs) @ [e])"
    "same_outside (set (e # head # ys @ zs)) ?h1 h'"
    by (rule list_add_tail_spec [OF d(2,3) e])
  then show thesis
    using d(1,4) by (intro that [of h']) (auto simp: list_move_tail_def same_outside_def)
qed

lemma list_move_spec:
  assumes "is_list h head (ys @ e # zs)"
  obtains h' where "list_move e head h = Inr h'" "is_list h' head (e # ys @ zs)"
    "same_outside (set (head # ys @ e # zs)) h h'"
proof -
  note d = list_del_entry_spec [OF assms]
  let ?h1 = "connect (last (head # ys)) (hd (zs @ [head])) h"
  have e: "e \<notin> set (head # ys @ zs)" using assms by (auto simp: is_list_def)
  obtain h' where "list_add e head ?h1 = Inr h'" "is_list h' head (e # ys @ zs)"
    "same_outside (set (e # head # ys @ zs)) ?h1 h'"
    by (rule list_add_spec [OF d(2,3) e])
  then show thesis
    using d(1,4) by (intro that [of h']) (auto simp: list_move_def same_outside_def)
qed

lemma list_empty_spec: "is_list h head xs \<Longrightarrow> list_empty head h = Inr (xs = [])"
  using is_list_head(1) [of h head xs]
  by (cases xs) (auto simp: list_empty_def link_def is_list_def)

lemma list_rotate_left_spec:
  assumes "is_list h head xs"
  obtains h' where "list_rotate_left head h = Inr h'" "is_list h' head (rotate1 xs)"
proof (cases xs)
  case Nil
  then show thesis
    using assms that list_empty_spec [OF assms] by (simp add: list_rotate_left_def)
next
  case (Cons x zs)
  then obtain h' where "list_move_tail x head h = Inr h'" "is_list h' head (zs @ [x])"
    using list_move_tail_spec [of h head "[]" x zs] assms by auto
  then show thesis
    using that list_empty_spec [OF assms] is_list_head(1) [OF assms] Cons
    by (simp add: list_rotate_left_def link_def)
qed

lemma list_is_singular_spec:
  assumes "is_list h head xs"
  shows "list_is_singular head h = Inr (length xs = 1)"
proof -
  have "xs \<noteq> [] \<Longrightarrow> distinct xs \<Longrightarrow> hd xs = last xs \<longleftrightarrow> length xs = 1"
    by (cases xs) (auto dest: last_in_set)
  then show ?thesis
    using list_empty_spec [OF assms] is_list_head [OF assms]
    by (cases "xs = []") (auto simp: list_is_singular_def link_def)
qed

subsection \<open>Splicing and cutting\<close>

lemma splice_between_linked:
  assumes "is_list h l (x # xs)" "link h prev nxt" "l \<noteq> prev"
    and "prev \<notin> set (x # xs)" "nxt \<notin> set (x # xs)"
  shows "list_splice_between l prev nxt h = Inr (connect (last (x # xs)) nxt (connect prev x h))"
proof -
  note hd = is_list_head [OF assms(1)]
  have final: "nextf h (last (x # xs)) = Some l" "prevf h l = Some (last (x # xs))"
    and first: "nextf h l = Some x" "prevf h x = Some l"
    using hd by (auto simp: link_def)
  have ne: "last (x # xs) \<noteq> prev" using assms(4) last_in_set [of "x # xs"] by auto
  have "x \<noteq> nxt" using assms(5) by auto
  then show ?thesis
    using final first ne assms(2)
    by (auto simp: list_splice_between_def link_def connect_def simp del: last.simps)
qed

text \<open>A whole segment between two neighbours of another list.\<close>

lemma is_list_insert_segment:
  assumes "is_list h head (ys @ zs)" "links h (x # xs)" "distinct (x # xs)"
    and "set (x # xs) \<inter> set (head # ys @ zs) = {}"
  shows "is_list (connect (last (x # xs)) (hd (zs @ [head])) (connect (last (head # ys)) x h))
    head (ys @ x # xs @ zs)"
proof -
  have j: "links h (head # ys)" "links h (zs @ [head])" "distinct (head # ys @ zs)"
    using assms(1) by (auto simp: is_list_join)
  let ?h1 = "connect (last (head # ys)) (hd (x # xs)) h"
  have 1: "links ?h1 ((head # ys) @ x # xs)"
    by (rule links_glue [OF j(1) assms(2)]) (use j(3) assms(3,4) in \<open>auto dest: in_set_butlastD last_in_set\<close>)
  have 2: "links ?h1 (zs @ [head])"
    by (rule links_connect_other [OF j(2)])
      (use j(3) assms(4) in \<open>auto simp: butlast_append dest: last_in_set in_set_tlD\<close>)
  have "links (connect (last ((head # ys) @ x # xs)) (hd (zs @ [head])) ?h1) (((head # ys) @ x # xs) @ zs @ [head])"
    by (rule links_glue [OF 1 2])
      (use j(3) assms(3,4) in \<open>auto simp: butlast_append hd_append dest: last_in_set hd_in_set\<close>)
  then show ?thesis
    using j(3) assms(3,4) by (auto simp: is_list_def)
qed

lemma list_splice_spec:
  assumes "is_list h l xs" "is_list h head ys" "set (l # xs) \<inter> set (head # ys) = {}"
  obtains h' where "list_splice l head h = Inr h'" "is_list h' head (xs @ ys)"
    "xs \<noteq> [] \<Longrightarrow> list_splice_init l head h = fbind (Inr h') (INIT_LIST_HEAD l)"
    "xs = [] \<Longrightarrow> list_splice_init l head h = Inr h'" "xs = [] \<Longrightarrow> h' = h"
    "same_outside (set (head # xs @ ys)) h h'"
proof (cases xs)
  case Nil
  then show thesis
    using that [of h] list_empty_spec [OF assms(1)] assms(2)
    by (simp add: list_splice_def list_splice_init_def)
next
  case (Cons x xs')
  let ?n = "hd (ys @ [head])" and ?h = "connect (last (x # xs')) (hd (ys @ [head])) (connect head x h)"
  note l = is_list_head [OF assms(2)]
  have n: "?n \<in> set (head # ys)" by (rule hd_member)
  have seg: "links h (x # xs')" "distinct (x # xs')"
    using assms(1) links_append [of h "x # xs'" "[l]"] by (auto simp: is_list_def Cons links_Cons [of h l])
  have "list_splice_between l head ?n h = Inr ?h"
    by (rule splice_between_linked) (use assms l(1) n Cons in auto)
  moreover have "is_list ?h head (xs @ ys)"
    using is_list_insert_segment [of h head "[]" ys x xs'] assms(2,3) seg Cons by simp
  moreover have "last (x # xs') \<in> set (head # xs @ ys)" "?n \<in> set (head # xs @ ys)"
    using n Cons last_in_set [of "x # xs'"] by auto
  then have "same_outside (set (head # xs @ ys)) h ?h"
    using Cons by (simp del: last.simps)
  ultimately show thesis
    using that [of ?h] l(1) list_empty_spec [OF assms(1)] Cons
    by (simp add: list_splice_def list_splice_init_def link_def)
qed

lemma list_splice_tail_spec:
  assumes "is_list h l xs" "is_list h head ys" "set (l # xs) \<inter> set (head # ys) = {}"
  obtains h' where "list_splice_tail l head h = Inr h'" "is_list h' head (ys @ xs)"
    "xs \<noteq> [] \<Longrightarrow> list_splice_tail_init l head h = fbind (Inr h') (INIT_LIST_HEAD l)"
    "xs = [] \<Longrightarrow> list_splice_tail_init l head h = Inr h'" "xs = [] \<Longrightarrow> h' = h"
    "same_outside (set (head # xs @ ys)) h h'"
proof (cases xs)
  case Nil
  then show thesis
    using that [of h] list_empty_spec [OF assms(1)] assms(2)
    by (simp add: list_splice_tail_def list_splice_tail_init_def)
next
  case (Cons x xs')
  let ?p = "last (head # ys)" and ?h = "connect (last (x # xs')) head (connect (last (head # ys)) x h)"
  note l = is_list_head [OF assms(2)]
  have p: "?p \<in> set (head # ys)" by (rule last_member)
  have seg: "links h (x # xs')" "distinct (x # xs')"
    using assms(1) links_append [of h "x # xs'" "[l]"] by (auto simp: is_list_def Cons links_Cons [of h l])
  have ne: "l \<noteq> ?p" "?p \<notin> set (x # xs')" using p assms(3) Cons by (auto simp del: last.simps)
  have "list_splice_between l ?p head h = Inr ?h"
    by (rule splice_between_linked) (use assms l(2) ne Cons in \<open>auto simp del: last.simps\<close>)
  moreover have "is_list ?h head (ys @ xs)"
    using is_list_insert_segment [of h head ys "[]" x xs'] assms(2,3) seg Cons by (simp del: last.simps)
  moreover have "last (x # xs') \<in> set (head # xs @ ys)" "?p \<in> set (head # xs @ ys)"
    using p Cons last_in_set [of "x # xs'"] by (auto simp del: last.simps)
  then have "same_outside (set (head # xs @ ys)) h ?h"
    using Cons by (simp del: last.simps)
  ultimately show thesis
    using that [of ?h] l(2) list_empty_spec [OF assms(1)] Cons
    by (simp add: list_splice_tail_def list_splice_tail_init_def link_def)
qed

text \<open>With \<open>_init\<close> the emptied list is an empty list again.\<close>

lemma splice_init_after:
  assumes "is_list h l xs" "set (l # xs) \<inter> set (head # ys) = {}" "is_list h' head zs"
    and "set zs = set xs \<union> set ys" "same_outside (set (head # xs @ ys)) h h'"
  obtains h'' where "INIT_LIST_HEAD l h' = Inr h''" "is_list h'' l []" "is_list h'' head zs"
proof -
  have l: "l \<notin> set (head # xs @ ys)" using assms(1,2) by (auto simp: is_list_def)
  then have "node l h'"
    using assms(5) is_list_nodes [OF assms(1), of l] by (simp add: same_outside_def node_def)
  moreover have "is_list (connect l l h') head zs"
    by (rule is_list_outside [OF assms(3), of "{l}"]) (use l assms(4) in auto)
  ultimately show thesis using init_is_list by (intro that [OF init_linked])
qed

lemma is_list_connect_other:
  "is_list h head xs \<Longrightarrow> p \<notin> set (head # xs) \<Longrightarrow> n \<notin> set (head # xs) \<Longrightarrow> is_list (connect p n h) head xs"
  by (rule is_list_outside [of h head xs "{p, n}"]) auto

text \<open>A linked segment closed into a list of its own.\<close>

lemma is_list_close:
  assumes "links h xs" "distinct xs" "xs \<noteq> []" "l \<notin> set xs"
  shows "is_list (connect (last xs) l (connect l (hd xs) h)) l xs"
proof -
  have 1: "links (connect l (hd xs) h) ([l] @ xs)"
    using links_glue [of h "[l]" xs] assms by (auto dest: in_set_butlastD)
  have "links (connect (last (l # xs)) (hd [l]) (connect l (hd xs) h)) (([l] @ xs) @ [l])"
    using links_glue [OF 1, of "[l]"] assms by simp
  then show ?thesis using assms by (simp add: is_list_def)
qed

text \<open>The rest of a list reconnected to its head.\<close>

lemma is_list_rest:
  assumes "links h (zs @ [head])" "distinct (head # zs)"
  shows "is_list (connect head (hd (zs @ [head])) h) head zs"
proof -
  have "links (connect head (hd (zs @ [head])) h) ([head] @ zs @ [head])"
    using links_glue [of h "[head]" "zs @ [head]"] assms by (auto simp: butlast_append)
  then show ?thesis using assms(2) by (simp add: is_list_def)
qed

lemma list_cut_at_spec:
  assumes "is_list h head (ys @ e # zs)" "node l h" "l \<notin> set (head # ys @ e # zs)"
  obtains h' where "list_cut_at l head e h = Inr h'" "is_list h' l (ys @ [e])" "is_list h' head zs"
    "same_outside (set (l # head # ys @ e # zs)) h h'"
proof -
  let ?f = "hd (ys @ [e])" and ?n = "hd (zs @ [head])"
  let ?h1 = "connect l ?f h" let ?h2 = "connect e l ?h1" let ?h3 = "connect head ?n ?h2"
  have eq: "ys @ e # zs = (ys @ [e]) @ zs" by simp
  have j: "links h (head # ys @ [e])" "links h (zs @ [head])" "link h e ?n" "distinct (head # ys @ e # zs)"
    using assms(1) is_list_join [of h head "ys @ [e]" zs] unfolding eq by auto
  have seg: "links h (ys @ [e])" "link h head ?f" using j(1) by (auto simp: links_Cons [of h head])
  have mem: "?f \<in> set (ys @ [e])" "?n \<in> set (head # zs)"
    by (cases ys; auto) (rule hd_member)
  have ne: "l \<noteq> head" "l \<noteq> e" "l \<noteq> ?f" "l \<noteq> ?n" "e \<noteq> head" "?f \<noteq> head" "?f \<noteq> ?n" "e \<noteq> ?n"
    using mem j(4) assms(3) by auto
  have tl: "?f \<notin> set (tl (zs @ [head]))" "l \<notin> set (tl (zs @ [head]))"
    using in_set_tlD [of _ "zs @ [head]"] mem j(4) assms(3) by fastforce+
  have "list_cut_at l head e h = Inr ?h3"
    using j(3) seg(2) assms(2) ne
    by (auto simp: list_cut_at_def link_def node_def connect_def fun_upd_twist)
  moreover have "is_list ?h2 l (ys @ [e])"
    using is_list_close [OF seg(1), of l] j(4) assms(3) by simp
  then have "is_list ?h3 l (ys @ [e])"
    by (rule is_list_connect_other) (use ne mem j(4) assms(3) in auto)
  moreover have "links ?h1 (zs @ [head])"
    by (rule links_connect_other [OF j(2)])
      (use ne tl j(4) assms(3) in \<open>simp_all add: butlast_append\<close>)
  then have "links ?h2 (zs @ [head])"
    by (rule links_connect_other)
      (use ne tl j(4) assms(3) in \<open>simp_all add: butlast_append\<close>)
  then have "is_list ?h3 head zs" by (rule is_list_rest) (use j(4) in auto)
  moreover have "same_outside (set (l # head # ys @ e # zs)) h ?h3"
    using mem by (intro iffD2 [OF same_outside_connect]) auto
  ultimately show thesis by (rule that)
qed

lemma list_cut_position_spec:
  assumes "is_list h head (ys @ e # zs)" "node l h" "l \<notin> set (head # ys @ e # zs)"
  obtains h' where "list_cut_position l head e h = Inr h'" "is_list h' l (ys @ [e])" "is_list h' head zs"
proof -
  obtain h' where h': "list_cut_at l head e h = Inr h'" "is_list h' l (ys @ [e])" "is_list h' head zs"
    by (rule list_cut_at_spec [OF assms])
  have hn: "get_next head h = Inr (hd (ys @ [e]))"
    using is_list_head(1) [OF assms(1)] by (cases ys) (auto simp: link_def)
  have "length (ys @ e # zs) = 1 \<Longrightarrow> ys = []" by auto
  moreover have "e \<noteq> head" using assms(1) by (auto simp: is_list_def)
  ultimately have "list_cut_position l head e h = Inr h'"
    using h'(1) hn list_empty_spec [OF assms(1)] list_is_singular_spec [OF assms(1)]
    by (auto simp: list_cut_position_def list_is_head_def)
  then show thesis using h'(2,3) by (rule that)
qed

text \<open>Cutting at the head itself moves nothing.\<close>

lemma list_cut_position_at_head:
  assumes "is_list h head (x # xs)" "node l h"
  shows "list_cut_position l head head h = Inr (connect l l h)"
  using list_empty_spec [OF assms(1)] list_is_singular_spec [OF assms(1)] is_list_head(1) [OF assms(1)]
    init_linked [OF assms(2)]
  by (auto simp: list_cut_position_def list_is_head_def link_def)

lemma list_cut_before_spec:
  assumes "is_list h head (y # ys @ e # zs)" "node l h" "l \<notin> set (head # y # ys @ e # zs)"
  obtains h' where "list_cut_before l head e h = Inr h'" "is_list h' l (y # ys)" "is_list h' head (e # zs)"
proof -
  let ?p = "last (y # ys)"
  let ?h1 = "connect l y h" let ?h2 = "connect ?p l ?h1" let ?h3 = "connect head e ?h2"
  have j: "links h (head # y # ys)" "links h ((e # zs) @ [head])" "link h ?p e" "distinct (head # y # ys @ e # zs)"
    using assms(1) is_list_join [of h head "y # ys" "e # zs"] by (auto simp del: links.simps)
  have seg: "links h (y # ys)" "link h head y" using j(1) by auto
  have mem: "?p \<in> set (y # ys)" by (rule last_in_set) simp
  have ne: "l \<noteq> head" "l \<noteq> e" "l \<noteq> y" "l \<noteq> ?p" "e \<noteq> head" "y \<noteq> head" "y \<noteq> e" "e \<noteq> ?p" "?p \<noteq> head"
    using mem j(4) assms(3) by (auto simp del: last.simps)
  have "list_cut_before l head e h = Inr ?h3"
    using j(3) seg(2) assms(2) ne
    by (auto simp: list_cut_before_def link_def node_def connect_def fun_upd_twist simp del: last.simps)
  moreover have "is_list ?h2 l (y # ys)"
    using is_list_close [OF seg(1), of l] j(4) assms(3) by (simp del: last.simps)
  then have "is_list ?h3 l (y # ys)"
    by (rule is_list_connect_other) (use ne mem j(4) assms(3) in auto)
  moreover have "links ?h1 ((e # zs) @ [head])"
    by (rule links_connect_other [OF j(2)])
      (use ne mem j(4) assms(3) in \<open>auto simp: butlast_append\<close>)
  then have "links ?h2 ((e # zs) @ [head])"
    by (rule links_connect_other)
      (use ne mem j(4) assms(3) in \<open>auto simp: butlast_append simp del: last.simps\<close>)
  then have "is_list ?h3 head (e # zs)"
    using is_list_rest [of ?h2 "e # zs" head] j(4) by simp
  ultimately show thesis by (rule that)
qed

subsection \<open>Iteration\<close>

text \<open>
  A loop over a list may never come back to its head, so it is a partial function: \<open>None\<close> is a
  loop that does not end. \<open>list_walk\<close> collects the positions a \<open>list_for_each\<close> visits, following
  \<open>step\<close> (the next or the previous pointer).
\<close>

type_synonym list_step = "u64 \<Rightarrow> lheap \<Rightarrow> kfault + u64"

fun visited :: "u64 \<Rightarrow> kfault + u64 list \<Rightarrow> kfault + u64 list" where
  "visited p (Inl e) = Inl e"
| "visited p (Inr ps) = Inr (p # ps)"

partial_function (option) list_walk ::
  "list_step \<Rightarrow> lheap \<Rightarrow> u64 \<Rightarrow> u64 \<Rightarrow> (kfault + u64 list) option" where
  "list_walk step h head pos =
     (if list_is_head pos head then Some (Inr [])
      else case step pos h of
             Inl e \<Rightarrow> Some (Inl e)
           | Inr n \<Rightarrow> Option.bind (list_walk step h head n) (\<lambda>r. Some (visited pos r)))"

definition list_for_each_from :: "list_step \<Rightarrow> u64 \<Rightarrow> u64 \<Rightarrow> lheap \<Rightarrow> (kfault + u64 list) option" where
  "list_for_each_from step pos head h =
     (case step pos h of Inl e \<Rightarrow> Some (Inl e) | Inr p \<Rightarrow> list_walk step h head p)"

definition list_for_each :: "u64 \<Rightarrow> lheap \<Rightarrow> (kfault + u64 list) option" where
  "list_for_each head h = list_for_each_from get_next head head h"

definition list_for_each_prev :: "u64 \<Rightarrow> lheap \<Rightarrow> (kfault + u64 list) option" where
  "list_for_each_prev head h = list_for_each_from get_prev head head h"

definition list_for_each_continue :: "u64 \<Rightarrow> u64 \<Rightarrow> lheap \<Rightarrow> (kfault + u64 list) option" where
  "list_for_each_continue pos head h = list_for_each_from get_next pos head h"

definition list_count_nodes :: "u64 \<Rightarrow> lheap \<Rightarrow> (kfault + u64) option" where
  "list_count_nodes head h =
     map_option (\<lambda>r. case r of Inl e \<Rightarrow> Inl e | Inr ps \<Rightarrow> Inr (word_of_nat (length ps))) (list_for_each head h)"

text \<open>
  The entries a list links: \<open>container_of\<close> subtracts the offset of the member. The loops over
  entries visit the entries of the positions the loops over positions visit.
\<close>

definition list_entry :: "u64 \<Rightarrow> u64 \<Rightarrow> u64" where
  "list_entry member ptr = ptr - member"

definition list_first_entry :: "u64 \<Rightarrow> u64 \<Rightarrow> lheap \<Rightarrow> kfault + u64" where
  "list_first_entry member ptr h = fbind (get_next ptr h) (\<lambda>p. Inr (list_entry member p))"

definition list_last_entry :: "u64 \<Rightarrow> u64 \<Rightarrow> lheap \<Rightarrow> kfault + u64" where
  "list_last_entry member ptr h = fbind (get_prev ptr h) (\<lambda>p. Inr (list_entry member p))"

text \<open>\<open>None\<close> is \<open>NULL\<close>.\<close>

definition list_first_entry_or_null :: "u64 \<Rightarrow> u64 \<Rightarrow> lheap \<Rightarrow> kfault + u64 option" where
  "list_first_entry_or_null member ptr h =
     fbind (get_next ptr h) (\<lambda>pos. Inr (if pos \<noteq> ptr then Some (list_entry member pos) else None))"

definition list_next_entry :: "u64 \<Rightarrow> u64 \<Rightarrow> lheap \<Rightarrow> kfault + u64" where
  "list_next_entry member pos h = fbind (get_next (pos + member) h) (\<lambda>p. Inr (list_entry member p))"

definition list_prev_entry :: "u64 \<Rightarrow> u64 \<Rightarrow> lheap \<Rightarrow> kfault + u64" where
  "list_prev_entry member pos h = fbind (get_prev (pos + member) h) (\<lambda>p. Inr (list_entry member p))"

definition list_next_entry_circular :: "u64 \<Rightarrow> u64 \<Rightarrow> u64 \<Rightarrow> lheap \<Rightarrow> kfault + u64" where
  "list_next_entry_circular member pos head h =
     fbind (list_is_last (pos + member) head h) (\<lambda>l.
       if l then list_first_entry member head h else list_next_entry member pos h)"

definition list_prev_entry_circular :: "u64 \<Rightarrow> u64 \<Rightarrow> u64 \<Rightarrow> lheap \<Rightarrow> kfault + u64" where
  "list_prev_entry_circular member pos head h =
     fbind (list_is_first (pos + member) head h) (\<lambda>l.
       if l then list_last_entry member head h else list_prev_entry member pos h)"

definition list_entry_is_head :: "u64 \<Rightarrow> u64 \<Rightarrow> u64 \<Rightarrow> bool" where
  "list_entry_is_head member pos head \<longleftrightarrow> list_is_head (pos + member) head"

partial_function (option) entry_walk ::
  "(u64 \<Rightarrow> lheap \<Rightarrow> kfault + u64) \<Rightarrow> u64 \<Rightarrow> lheap \<Rightarrow> u64 \<Rightarrow> u64 \<Rightarrow> (kfault + u64 list) option" where
  "entry_walk step member h head pos =
     (if list_entry_is_head member pos head then Some (Inr [])
      else case step pos h of
             Inl e \<Rightarrow> Some (Inl e)
           | Inr n \<Rightarrow> Option.bind (entry_walk step member h head n) (\<lambda>r. Some (visited pos r)))"

definition list_for_each_entry :: "u64 \<Rightarrow> u64 \<Rightarrow> lheap \<Rightarrow> (kfault + u64 list) option" where
  "list_for_each_entry member head h =
     (case list_first_entry member head h of
        Inl e \<Rightarrow> Some (Inl e) | Inr p \<Rightarrow> entry_walk (list_next_entry member) member h head p)"

definition list_for_each_entry_reverse :: "u64 \<Rightarrow> u64 \<Rightarrow> lheap \<Rightarrow> (kfault + u64 list) option" where
  "list_for_each_entry_reverse member head h =
     (case list_last_entry member head h of
        Inl e \<Rightarrow> Some (Inl e) | Inr p \<Rightarrow> entry_walk (list_prev_entry member) member h head p)"

subsection \<open>Iteration visits exactly the list\<close>

lemma walk_links:
  "links h (xs @ [head]) \<Longrightarrow> head \<notin> set xs \<Longrightarrow> list_walk get_next h head (hd (xs @ [head])) = Some (Inr xs)"
proof (induction xs)
  case Nil
  then show ?case by (simp add: list_walk.simps list_is_head_def)
next
  case (Cons x xs)
  then have "get_next x h = Inr (hd (xs @ [head]))"
    by (cases xs) (auto simp: link_def)
  moreover have "links h (xs @ [head])" using Cons.prems by (simp add: links_Cons)
  ultimately show ?case
    using Cons by (subst list_walk.simps) (auto simp: list_is_head_def)
qed

lemma list_for_each_visits:
  assumes "is_list h head xs"
  shows "list_for_each head h = Some (Inr xs)"
proof -
  have "get_next head h = Inr (hd (xs @ [head]))"
    using is_list_head(1) [OF assms] by (simp add: link_def)
  then show ?thesis
    using walk_links [of h xs head] assms
    by (simp add: list_for_each_def list_for_each_from_def is_list_def links_Cons [of h head])
qed

lemma list_count_nodes_spec:
  "is_list h head xs \<Longrightarrow> list_count_nodes head h = Some (Inr (word_of_nat (length xs)))"
  by (simp add: list_count_nodes_def list_for_each_visits)

text \<open>Backwards over the reversed list.\<close>

lemma walk_links_back:
  "links h (head # xs) \<Longrightarrow> head \<notin> set xs \<Longrightarrow>
   list_walk get_prev h head (last (head # xs)) = Some (Inr (rev xs))"
proof (induction xs rule: rev_induct)
  case Nil
  then show ?case by (simp add: list_walk.simps list_is_head_def)
next
  case (snoc x xs)
  have l: "links h (head # xs)" "link h (last (head # xs)) x"
    using snoc.prems(1) links_append [of h "head # xs" "[x]"] by auto
  have x: "last (head # xs @ [x]) = x" by simp
  have "get_prev x h = Inr (last (head # xs))" using l(2) by (simp add: link_def)
  then show ?case
    unfolding x using snoc.IH [OF l(1)] snoc.prems(2)
    by (subst list_walk.simps) (auto simp: list_is_head_def simp del: last.simps)
qed

lemma list_for_each_prev_visits:
  assumes "is_list h head xs"
  shows "list_for_each_prev head h = Some (Inr (rev xs))"
proof -
  have "links h (head # xs)" using is_list_join [of h head xs "[]"] assms by auto
  moreover have "get_prev head h = Inr (last (head # xs))"
    using is_list_head(2) [OF assms] by (simp add: link_def)
  ultimately show ?thesis
    using walk_links_back [of h head xs] assms
    by (simp add: list_for_each_prev_def list_for_each_from_def is_list_def)
qed

text \<open>Over entries: each position, minus the member's offset.\<close>

lemma entry_walk_positions:
  "list_walk get_next h head p = Some (Inr ps) \<Longrightarrow> length ps = n \<Longrightarrow>
   entry_walk (list_next_entry member) member h head (p - member) = Some (Inr (map (list_entry member) ps))"
proof (induction n arbitrary: p ps)
  case 0
  have "p = head"
  proof (rule ccontr)
    assume "p \<noteq> head"
    with 0 show False
      by (subst (asm) list_walk.simps)
        (auto simp: list_is_head_def split: sum.splits bind_splits elim: visited.elims)
  qed
  then show ?case using 0 by (simp add: entry_walk.simps list_entry_is_head_def list_is_head_def)
next
  case (Suc n)
  obtain q qs where ps: "ps = q # qs" "length qs = n" using Suc.prems(2) by (cases ps) auto
  from Suc.prems(1) ps obtain p' where step: "p \<noteq> head" "q = p" "get_next p h = Inr p'"
    "list_walk get_next h head p' = Some (Inr qs)"
    by (subst (asm) list_walk.simps)
      (auto simp: list_is_head_def split: if_splits sum.splits bind_splits elim: visited.elims)
  have "list_next_entry member (p - member) h = Inr (p' - member)"
    using step(3) by (simp add: list_next_entry_def list_entry_def)
  then show ?case
    using Suc.IH [OF step(4) ps(2)] step(1,2) ps(1)
    by (subst entry_walk.simps)
      (simp add: list_entry_is_head_def list_is_head_def list_entry_def [of member p])
qed

lemma list_for_each_entry_visits:
  assumes "is_list h head xs"
  shows "list_for_each_entry member head h = Some (Inr (map (list_entry member) xs))"
proof -
  have n: "get_next head h = Inr (hd (xs @ [head]))"
    using is_list_head(1) [OF assms] by (simp add: link_def)
  then have "list_walk get_next h head (hd (xs @ [head])) = Some (Inr xs)"
    using list_for_each_visits [OF assms] by (simp add: list_for_each_def list_for_each_from_def)
  then show ?thesis
    using entry_walk_positions [of h head "hd (xs @ [head])" xs "length xs" member] n
    by (simp add: list_for_each_entry_def list_first_entry_def list_entry_def)
qed

end
