(* ===== verification/Hash_List.thy ===== *)
theory Hash_List
  imports Linked_List
begin

text \<open>
  The null-terminated lists: the hash-bucket lists of kheaders/include/linux/list.h
  (\<open>hlist_head\<close>, \<open>hlist_node\<close>), on which kprobes are hashed by address, and the lock-less
  lists of llist.h, on which a task's kretprobe instances hang. The pointer a head or a node
  holds is its first member, so \<open>&h->first\<close> and \<open>&n->next\<close> are the addresses \<open>h\<close> and
  \<open>n\<close>, and \<open>*pprev\<close> is the cell at that address; \<open>NULL\<close> is 0.
\<close>

subsection \<open>Memory\<close>

record hheap =
  cells :: "u64 \<Rightarrow> u64 option"
  pprevs :: "u64 \<Rightarrow> u64 option"

definition get_cell :: "u64 \<Rightarrow> hheap \<Rightarrow> kfault + u64" where
  "get_cell p h = (case cells h p of None \<Rightarrow> Inl (BadAddress p) | Some v \<Rightarrow> Inr v)"

definition get_pprev :: "u64 \<Rightarrow> hheap \<Rightarrow> kfault + u64" where
  "get_pprev p h = (case pprevs h p of None \<Rightarrow> Inl (BadAddress p) | Some v \<Rightarrow> Inr v)"

definition set_cell :: "u64 \<Rightarrow> u64 \<Rightarrow> hheap \<Rightarrow> kfault + hheap" where
  "set_cell p v h = (if cells h p = None then Inl (BadAddress p)
                     else Inr (h\<lparr>cells := (cells h)(p \<mapsto> v)\<rparr>))"

definition set_pprev :: "u64 \<Rightarrow> u64 \<Rightarrow> hheap \<Rightarrow> kfault + hheap" where
  "set_pprev p v h = (if pprevs h p = None then Inl (BadAddress p)
                      else Inr (h\<lparr>pprevs := (pprevs h)(p \<mapsto> v)\<rparr>))"

definition hnode :: "u64 \<Rightarrow> hheap \<Rightarrow> bool" where
  "hnode p h \<longleftrightarrow> p \<noteq> 0 \<and> cells h p \<noteq> None \<and> pprevs h p \<noteq> None"

lemma get_cell_Some [simp]: "cells h p = Some v \<Longrightarrow> get_cell p h = Inr v"
  by (simp add: get_cell_def)

lemma get_pprev_Some [simp]: "pprevs h p = Some v \<Longrightarrow> get_pprev p h = Inr v"
  by (simp add: get_pprev_def)

lemma set_cell_Some [simp]: "cells h p = Some w \<Longrightarrow> set_cell p v h = Inr (h\<lparr>cells := (cells h)(p \<mapsto> v)\<rparr>)"
  by (simp add: set_cell_def)

lemma set_pprev_Some [simp]: "pprevs h p = Some w \<Longrightarrow> set_pprev p v h = Inr (h\<lparr>pprevs := (pprevs h)(p \<mapsto> v)\<rparr>)"
  by (simp add: set_pprev_def)

subsection \<open>Hash-bucket lists\<close>

definition INIT_HLIST_HEAD :: "u64 \<Rightarrow> hheap \<Rightarrow> kfault + hheap" where
  "INIT_HLIST_HEAD ptr h = set_cell ptr 0 h"

definition INIT_HLIST_NODE :: "u64 \<Rightarrow> hheap \<Rightarrow> kfault + hheap" where
  "INIT_HLIST_NODE n h = fbind (set_cell n 0 h) (set_pprev n 0)"

definition hlist_unhashed :: "u64 \<Rightarrow> hheap \<Rightarrow> kfault + bool" where
  "hlist_unhashed n h = fbind (get_pprev n h) (\<lambda>p. Inr (p = 0))"

definition hlist_unhashed_lockless :: "u64 \<Rightarrow> hheap \<Rightarrow> kfault + bool" where
  "hlist_unhashed_lockless n h = fbind (get_pprev n h) (\<lambda>p. Inr (p = 0))"

definition hlist_empty :: "u64 \<Rightarrow> hheap \<Rightarrow> kfault + bool" where
  "hlist_empty hh h = fbind (get_cell hh h) (\<lambda>f. Inr (f = 0))"

definition hlist_unlink :: "u64 \<Rightarrow> hheap \<Rightarrow> kfault + hheap" where
  "hlist_unlink n h =
     fbind (get_cell n h) (\<lambda>nxt. fbind (get_pprev n h) (\<lambda>pprev. fbind (set_cell pprev nxt h) (\<lambda>h.
     if nxt \<noteq> 0 then set_pprev nxt pprev h else Inr h)))"

definition hlist_del :: "u64 \<Rightarrow> hheap \<Rightarrow> kfault + hheap" where
  "hlist_del n h =
     fbind (hlist_unlink n h) (\<lambda>h. fbind (set_cell n LIST_POISON1 h) (set_pprev n LIST_POISON2))"

definition hlist_del_init :: "u64 \<Rightarrow> hheap \<Rightarrow> kfault + hheap" where
  "hlist_del_init n h =
     fbind (hlist_unhashed n h) (\<lambda>u. if u then Inr h else fbind (hlist_unlink n h) (INIT_HLIST_NODE n))"

definition hlist_add_head :: "u64 \<Rightarrow> u64 \<Rightarrow> hheap \<Rightarrow> kfault + hheap" where
  "hlist_add_head n hh h =
     fbind (get_cell hh h) (\<lambda>first. fbind (set_cell n first h) (\<lambda>h.
     fbind (if first \<noteq> 0 then set_pprev first n h else Inr h) (\<lambda>h.
     fbind (set_cell hh n h) (set_pprev n hh))))"

definition hlist_add_before :: "u64 \<Rightarrow> u64 \<Rightarrow> hheap \<Rightarrow> kfault + hheap" where
  "hlist_add_before n nxt h =
     fbind (get_pprev nxt h) (\<lambda>pp. fbind (set_pprev n pp h) (\<lambda>h. fbind (set_cell n nxt h) (\<lambda>h.
     fbind (set_pprev nxt n h) (\<lambda>h. fbind (get_pprev n h) (\<lambda>pp. set_cell pp n h)))))"

definition hlist_add_behind :: "u64 \<Rightarrow> u64 \<Rightarrow> hheap \<Rightarrow> kfault + hheap" where
  "hlist_add_behind n prev h =
     fbind (get_cell prev h) (\<lambda>nxt. fbind (set_cell n nxt h) (\<lambda>h. fbind (set_cell prev n h) (\<lambda>h.
     fbind (set_pprev n prev h) (\<lambda>h. fbind (get_cell n h) (\<lambda>nxt.
     if nxt \<noteq> 0 then set_pprev nxt n h else Inr h)))))"

definition hlist_add_fake :: "u64 \<Rightarrow> hheap \<Rightarrow> kfault + hheap" where
  "hlist_add_fake n h = set_pprev n n h"

definition hlist_fake :: "u64 \<Rightarrow> hheap \<Rightarrow> kfault + bool" where
  "hlist_fake n h = fbind (get_pprev n h) (\<lambda>p. Inr (p = n))"

definition hlist_is_singular_node :: "u64 \<Rightarrow> u64 \<Rightarrow> hheap \<Rightarrow> kfault + bool" where
  "hlist_is_singular_node n hh h =
     fbind (get_cell n h) (\<lambda>nxt. if nxt \<noteq> 0 then Inr False
       else fbind (get_pprev n h) (\<lambda>p. Inr (p = hh)))"

definition hlist_move_list :: "u64 \<Rightarrow> u64 \<Rightarrow> hheap \<Rightarrow> kfault + hheap" where
  "hlist_move_list old new h =
     fbind (get_cell old h) (\<lambda>f. fbind (set_cell new f h) (\<lambda>h. fbind (get_cell new h) (\<lambda>f.
     fbind (if f \<noteq> 0 then set_pprev f new h else Inr h) (set_cell old 0))))"

definition hlist_splice_init :: "u64 \<Rightarrow> u64 \<Rightarrow> u64 \<Rightarrow> hheap \<Rightarrow> kfault + hheap" where
  "hlist_splice_init from final to h =
     fbind (get_cell to h) (\<lambda>t. fbind (if t \<noteq> 0 then set_pprev t final h else Inr h) (\<lambda>h.
     fbind (get_cell to h) (\<lambda>t. fbind (set_cell final t h) (\<lambda>h.
     fbind (get_cell from h) (\<lambda>f. fbind (set_cell to f h) (\<lambda>h.
     fbind (get_cell from h) (\<lambda>f. fbind (set_pprev f to h) (set_cell from 0))))))))"

text \<open>The positions \<open>hlist_for_each\<close> visits; \<open>None\<close> is a loop that does not end.\<close>

partial_function (option) cell_walk :: "hheap \<Rightarrow> u64 \<Rightarrow> (kfault + u64 list) option" where
  "cell_walk h pos =
     (if pos = 0 then Some (Inr [])
      else case get_cell pos h of
             Inl e \<Rightarrow> Some (Inl e)
           | Inr n \<Rightarrow> Option.bind (cell_walk h n) (\<lambda>r. Some (visited pos r)))"

definition hlist_for_each :: "u64 \<Rightarrow> hheap \<Rightarrow> (kfault + u64 list) option" where
  "hlist_for_each hh h =
     (case get_cell hh h of Inl e \<Rightarrow> Some (Inl e) | Inr p \<Rightarrow> cell_walk h p)"

definition hlist_count_nodes :: "u64 \<Rightarrow> hheap \<Rightarrow> (kfault + u64) option" where
  "hlist_count_nodes hh h =
     map_option (\<lambda>r. case r of Inl e \<Rightarrow> Inl e | Inr ps \<Rightarrow> Inr (word_of_nat (length ps))) (hlist_for_each hh h)"

text \<open>\<open>hlist_for_each_safe\<close>: the next position is read before the body.\<close>

partial_function (option) cell_safe_walk ::
  "(u64 \<Rightarrow> hheap \<Rightarrow> kfault + hheap) \<Rightarrow> u64 \<Rightarrow> hheap \<Rightarrow> (kfault + hheap) option" where
  "cell_safe_walk body pos h =
     (if pos = 0 then Some (Inr h)
      else case get_cell pos h of
             Inl e \<Rightarrow> Some (Inl e)
           | Inr n \<Rightarrow> (case body pos h of
                 Inl e \<Rightarrow> Some (Inl e)
               | Inr h \<Rightarrow> cell_safe_walk body n h))"

definition hlist_for_each_safe ::
  "(u64 \<Rightarrow> hheap \<Rightarrow> kfault + hheap) \<Rightarrow> u64 \<Rightarrow> hheap \<Rightarrow> (kfault + hheap) option" where
  "hlist_for_each_safe body hh h =
     (case get_cell hh h of Inl e \<Rightarrow> Some (Inl e) | Inr p \<Rightarrow> cell_safe_walk body p h)"

subsection \<open>Lock-less lists\<close>

definition init_llist_head :: "u64 \<Rightarrow> hheap \<Rightarrow> kfault + hheap" where
  "init_llist_head l h = set_cell l 0 h"

definition init_llist_node :: "u64 \<Rightarrow> hheap \<Rightarrow> kfault + hheap" where
  "init_llist_node n h = set_cell n n h"

definition llist_on_list :: "u64 \<Rightarrow> hheap \<Rightarrow> kfault + bool" where
  "llist_on_list n h = fbind (get_cell n h) (\<lambda>nxt. Inr (nxt \<noteq> n))"

definition llist_empty :: "u64 \<Rightarrow> hheap \<Rightarrow> kfault + bool" where
  "llist_empty hh h = fbind (get_cell hh h) (\<lambda>f. Inr (f = 0))"

definition llist_next :: "u64 \<Rightarrow> hheap \<Rightarrow> kfault + u64" where
  "llist_next n h = get_cell n h"

definition llist_add_batch_local :: "u64 \<Rightarrow> u64 \<Rightarrow> u64 \<Rightarrow> hheap \<Rightarrow> kfault + (bool \<times> hheap)" where
  "llist_add_batch_local new_first new_last hh h =
     fbind (get_cell hh h) (\<lambda>f. fbind (set_cell new_last f h) (\<lambda>h. fbind (set_cell hh new_first h) (\<lambda>h.
     fbind (get_cell new_last h) (\<lambda>nxt. Inr (nxt = 0, h)))))"

definition llist_add_local :: "u64 \<Rightarrow> u64 \<Rightarrow> hheap \<Rightarrow> kfault + (bool \<times> hheap)" where
  "llist_add_local new hh h = llist_add_batch_local new new hh h"

definition llist_del_all :: "u64 \<Rightarrow> hheap \<Rightarrow> kfault + (u64 \<times> hheap)" where
  "llist_del_all hh h = fbind (get_cell hh h) (\<lambda>first. fbind (set_cell hh 0 h) (\<lambda>h. Inr (first, h)))"

definition llist_for_each :: "u64 \<Rightarrow> hheap \<Rightarrow> (kfault + u64 list) option" where
  "llist_for_each nd h = cell_walk h nd"

definition llist_for_each_safe ::
  "(u64 \<Rightarrow> hheap \<Rightarrow> kfault + hheap) \<Rightarrow> u64 \<Rightarrow> hheap \<Rightarrow> (kfault + hheap) option" where
  "llist_for_each_safe body nd h = cell_safe_walk body nd h"

text \<open>
  \<open>llist_add\<close> and \<open>llist_del_first\<close> call functions of lib/llist.c, which is not in the
  repository: they are arguments.
\<close>

definition llist_add ::
  "(u64 \<Rightarrow> u64 \<Rightarrow> u64 \<Rightarrow> hheap \<Rightarrow> kfault + (bool \<times> hheap)) \<Rightarrow> u64 \<Rightarrow> u64 \<Rightarrow> hheap \<Rightarrow> kfault + (bool \<times> hheap)" where
  "llist_add add_batch new hh h = add_batch new new hh h"

definition llist_del_first_init ::
  "(u64 \<Rightarrow> hheap \<Rightarrow> kfault + (u64 \<times> hheap)) \<Rightarrow> u64 \<Rightarrow> hheap \<Rightarrow> kfault + (u64 \<times> hheap)" where
  "llist_del_first_init del_first hh h =
     fbind (del_first hh h) (\<lambda>(n, h).
       if n \<noteq> 0 then fbind (init_llist_node n h) (\<lambda>h. Inr (n, h)) else Inr (n, h))"

subsection \<open>The shape of a bucket\<close>

text \<open>\<open>hchain h p xs\<close>: the cell at \<open>p\<close> leads through \<open>xs\<close> to null, with matching back pointers.\<close>

fun hchain :: "hheap \<Rightarrow> u64 \<Rightarrow> u64 list \<Rightarrow> bool" where
  "hchain h p [] \<longleftrightarrow> cells h p = Some 0"
| "hchain h p (x # xs) \<longleftrightarrow> x \<noteq> 0 \<and> cells h p = Some x \<and> pprevs h x = Some p \<and> hchain h x xs"

definition is_hlist :: "hheap \<Rightarrow> u64 \<Rightarrow> u64 list \<Rightarrow> bool" where
  "is_hlist h hh xs \<longleftrightarrow> hh \<noteq> 0 \<and> hchain h hh xs \<and> distinct (hh # xs)"

text \<open>The lock-less list is the same chain without back pointers.\<close>

fun lchain :: "hheap \<Rightarrow> u64 \<Rightarrow> u64 list \<Rightarrow> bool" where
  "lchain h p [] \<longleftrightarrow> cells h p = Some 0"
| "lchain h p (x # xs) \<longleftrightarrow> x \<noteq> 0 \<and> cells h p = Some x \<and> lchain h x xs"

lemma hchain_lchain: "hchain h p xs \<Longrightarrow> lchain h p xs"
  by (induction xs arbitrary: p) auto

lemma hchain_frame:
  "hchain h p xs \<Longrightarrow> (\<And>q. q \<in> set (p # xs) \<Longrightarrow> cells h' q = cells h q) \<Longrightarrow>
   (\<And>q. q \<in> set xs \<Longrightarrow> pprevs h' q = pprevs h q) \<Longrightarrow> hchain h' p xs"
  by (induction xs arbitrary: p) auto

lemma lchain_frame:
  "lchain h p xs \<Longrightarrow> (\<And>q. q \<in> set (p # xs) \<Longrightarrow> cells h' q = cells h q) \<Longrightarrow> lchain h' p xs"
  by (induction xs arbitrary: p) auto

text \<open>The part of a chain before some node of it.\<close>

fun hseg :: "hheap \<Rightarrow> u64 \<Rightarrow> u64 list \<Rightarrow> bool" where
  "hseg h p [] \<longleftrightarrow> True"
| "hseg h p (x # xs) \<longleftrightarrow> x \<noteq> 0 \<and> cells h p = Some x \<and> pprevs h x = Some p \<and> hseg h x xs"

lemma hchain_append: "hchain h p (as @ bs) \<longleftrightarrow> hseg h p as \<and> hchain h (last (p # as)) bs"
  by (induction as arbitrary: p) auto

lemma hseg_frame:
  "hseg h p xs \<Longrightarrow> (\<And>q. q \<in> set (butlast (p # xs)) \<Longrightarrow> cells h' q = cells h q) \<Longrightarrow>
   (\<And>q. q \<in> set xs \<Longrightarrow> pprevs h' q = pprevs h q) \<Longrightarrow> hseg h' p xs"
  by (induction xs arbitrary: p) (auto split: if_splits)

lemma hseg_snoc: "hseg h p (as @ [x]) \<longleftrightarrow>
    hseg h p as \<and> x \<noteq> 0 \<and> cells h (last (p # as)) = Some x \<and> pprevs h x = Some (last (p # as))"
  by (induction as arbitrary: p) auto

lemma hchain_cell: "hchain h p xs \<Longrightarrow> q \<in> set (p # xs) \<Longrightarrow> \<exists>v. cells h q = Some v"
  by (induction xs arbitrary: p) auto

lemma hchain_nonzero: "hchain h p xs \<Longrightarrow> 0 \<notin> set xs"
  by (induction xs arbitrary: p) auto

lemma is_hlist_nonzero: "is_hlist h hh xs \<Longrightarrow> 0 \<notin> set (hh # xs)"
  by (auto simp: is_hlist_def dest: hchain_nonzero)

lemma is_hlist_frame:
  assumes l: "is_hlist h hh xs" and n: "n \<notin> set (hh # xs)"
  shows "is_hlist (h\<lparr>cells := (cells h)(n \<mapsto> a), pprevs := (pprevs h)(n \<mapsto> b)\<rparr>) hh xs"
proof -
  have "hchain h hh xs" using l by (simp add: is_hlist_def)
  then have "hchain (h\<lparr>cells := (cells h)(n \<mapsto> a), pprevs := (pprevs h)(n \<mapsto> b)\<rparr>) hh xs"
    by (rule hchain_frame) (use n in auto)
  then show ?thesis using l by (simp add: is_hlist_def)
qed

subsection \<open>What the operations do to it\<close>

lemma hlist_empty_spec: "is_hlist h hh xs \<Longrightarrow> hlist_empty hh h = Inr (xs = [])"
  by (cases xs) (auto simp: is_hlist_def hlist_empty_def)

lemma hlist_add_head_spec:
  assumes l: "is_hlist h hh xs" and n: "hnode n h" "n \<notin> set (hh # xs)"
  obtains h' where "hlist_add_head n hh h = Inr h'" "is_hlist h' hh (n # xs)"
proof -
  obtain v w where c: "cells h n = Some v" "pprevs h n = Some w" "n \<noteq> 0"
    using n by (auto simp: hnode_def)
  show thesis
  proof (cases xs)
    case Nil
    then show thesis using l n c that
      by (auto simp: is_hlist_def hlist_add_head_def)
  next
    case (Cons x ys)
    then have y: "hchain h x ys" "x \<noteq> 0" "cells h hh = Some x" "pprevs h x = Some hh" "x \<noteq> n" "x \<noteq> hh"
      using l n by (auto simp: is_hlist_def)
    let ?h = "h\<lparr>cells := (cells h)(n \<mapsto> x, hh \<mapsto> n), pprevs := (pprevs h)(x \<mapsto> n, n \<mapsto> hh)\<rparr>"
    have e: "hlist_add_head n hh h = Inr ?h"
      using y c by (simp add: hlist_add_head_def)
    have "hchain ?h x ys"
      using y(1) by (rule hchain_frame) (use l n Cons in \<open>auto simp: is_hlist_def\<close>)
    then have "is_hlist ?h hh (n # xs)"
      using l n c y Cons by (auto simp: is_hlist_def)
    with e show thesis by (rule that)
  qed
qed

lemma hlist_unlink_spec:
  assumes l: "is_hlist h hh (as @ n # bs)"
  obtains h' where "hlist_unlink n h = Inr h'" "is_hlist h' hh (as @ bs)"
    "cells h' n = cells h n" "pprevs h' n = pprevs h n"
proof -
  let ?p = "last (hh # as)"
  have a: "hseg h hh as" "n \<noteq> 0" "cells h ?p = Some n" "pprevs h n = Some ?p" "hchain h n bs"
    and h0: "hh \<noteq> 0" and d: "distinct (hh # as @ n # bs)"
    using l by (auto simp: is_hlist_def hchain_append)
  have p: "?p \<in> set (hh # as)" by (rule last_in_set) simp
  have pn: "?p \<noteq> n" "?p \<notin> set bs" using d p by auto
  have bl: "?p \<notin> set (butlast (hh # as))" using d by (intro last_notin_butlast) auto
  show thesis
  proof (cases bs)
    case Nil
    let ?h = "h\<lparr>cells := (cells h)(?p \<mapsto> 0)\<rparr>"
    have e: "hlist_unlink n h = Inr ?h" using a Nil by (simp add: hlist_unlink_def)
    have "hseg ?h hh as" using a(1) by (rule hseg_frame) (use bl in auto)
    then have "is_hlist ?h hh (as @ [])" unfolding is_hlist_def hchain_append using d h0 by simp
    then show thesis using e pn Nil by (intro that [of ?h]) auto
  next
    case (Cons b cs)
    then have y: "b \<noteq> 0" "cells h n = Some b" "pprevs h b = Some n" "hchain h b cs" "b \<noteq> n"
      using a d by auto
    let ?h = "h\<lparr>cells := (cells h)(?p \<mapsto> b), pprevs := (pprevs h)(b \<mapsto> ?p)\<rparr>"
    have e: "hlist_unlink n h = Inr ?h" using a y by (simp add: hlist_unlink_def)
    have 1: "hseg ?h hh as" using a(1) by (rule hseg_frame) (use bl d Cons in auto)
    have 2: "hchain ?h b cs" using y(4) by (rule hchain_frame) (use pn d Cons in auto)
    have "is_hlist ?h hh (as @ bs)" using d h0 Cons 1 2 y by (simp add: is_hlist_def hchain_append)
    then show thesis using e pn y by (intro that [of ?h]) auto
  qed
qed

lemma hlist_del_init_spec:
  assumes l: "is_hlist h hh (as @ n # bs)"
  obtains h' where "hlist_del_init n h = Inr h'" "is_hlist h' hh (as @ bs)"
    "cells h' n = Some 0" "pprevs h' n = Some 0"
proof -
  obtain h1 where 1: "hlist_unlink n h = Inr h1" "is_hlist h1 hh (as @ bs)"
      "cells h1 n = cells h n" "pprevs h1 n = pprevs h n"
    using l by (rule hlist_unlink_spec)
  obtain v where v: "cells h n = Some v" and p: "pprevs h n = Some (last (hh # as))"
    using l hchain_cell [of h n bs n] by (auto simp: is_hlist_def hchain_append)
  have nz: "last (hh # as) \<noteq> 0"
    using is_hlist_nonzero [OF l] last_in_set [of "hh # as"] by (metis Un_iff list.distinct(1) list.set(2) insert_iff set_append)
  let ?h = "h1\<lparr>cells := (cells h1)(n \<mapsto> 0), pprevs := (pprevs h1)(n \<mapsto> 0)\<rparr>"
  have "hlist_del_init n h = Inr ?h"
    using 1 v p nz by (simp add: hlist_del_init_def hlist_unhashed_def INIT_HLIST_NODE_def)
  moreover have "is_hlist ?h hh (as @ bs)"
    using 1(2) by (rule is_hlist_frame) (use l in \<open>auto simp: is_hlist_def\<close>)
  ultimately show thesis by (rule that) simp_all
qed

lemma hlist_del_spec:
  assumes l: "is_hlist h hh (as @ n # bs)"
  obtains h' where "hlist_del n h = Inr h'" "is_hlist h' hh (as @ bs)"
    "cells h' n = Some LIST_POISON1" "pprevs h' n = Some LIST_POISON2"
proof -
  obtain h1 where 1: "hlist_unlink n h = Inr h1" "is_hlist h1 hh (as @ bs)"
      "cells h1 n = cells h n" "pprevs h1 n = pprevs h n"
    using l by (rule hlist_unlink_spec)
  obtain v w where v: "cells h n = Some v" and p: "pprevs h n = Some w"
    using l hchain_cell [of h n bs n] by (auto simp: is_hlist_def hchain_append)
  let ?h = "h1\<lparr>cells := (cells h1)(n \<mapsto> LIST_POISON1), pprevs := (pprevs h1)(n \<mapsto> LIST_POISON2)\<rparr>"
  have "hlist_del n h = Inr ?h"
    using 1 v p by (simp add: hlist_del_def)
  moreover have "is_hlist ?h hh (as @ bs)"
    using 1(2) by (rule is_hlist_frame) (use l in \<open>auto simp: is_hlist_def\<close>)
  ultimately show thesis by (rule that) simp_all
qed

lemma hlist_add_behind_spec:
  assumes l: "is_hlist h hh (as @ p # bs)" and n: "hnode n h" "n \<notin> set (hh # as @ p # bs)"
  obtains h' where "hlist_add_behind n p h = Inr h'" "is_hlist h' hh (as @ p # n # bs)"
proof -
  obtain v w where c: "cells h n = Some v" "pprevs h n = Some w" "n \<noteq> 0"
    using n by (auto simp: hnode_def)
  have a: "hseg h hh (as @ [p])" "hchain h p bs" and h0: "hh \<noteq> 0" and d: "distinct (hh # as @ p # bs)"
    using l by (auto simp: is_hlist_def hchain_append hseg_snoc)
  show thesis
  proof (cases bs)
    case Nil
    let ?h = "h\<lparr>cells := (cells h)(n \<mapsto> 0, p \<mapsto> n), pprevs := (pprevs h)(n \<mapsto> p)\<rparr>"
    have e: "hlist_add_behind n p h = Inr ?h" using a c Nil n by (simp add: hlist_add_behind_def)
    have "hseg ?h hh (as @ [p])" using a(1) by (rule hseg_frame) (use d n in \<open>auto simp: butlast_append dest: in_set_butlastD\<close>)
    then have "is_hlist ?h hh ((as @ [p]) @ [n])"
      unfolding is_hlist_def hchain_append using d n c Nil h0 by auto
    then show thesis using e Nil by (intro that [of ?h]) auto
  next
    case (Cons b cs)
    then have y: "b \<noteq> 0" "cells h p = Some b" "pprevs h b = Some p" "hchain h b cs" "b \<noteq> n"
      using a n by auto
    let ?h = "h\<lparr>cells := (cells h)(n \<mapsto> b, p \<mapsto> n), pprevs := (pprevs h)(n \<mapsto> p, b \<mapsto> n)\<rparr>"
    have e: "hlist_add_behind n p h = Inr ?h" using y c n by (simp add: hlist_add_behind_def)
    have 1: "hseg ?h hh (as @ [p])" using a(1)
      by (rule hseg_frame) (use d n Cons in \<open>auto simp: butlast_append dest: in_set_butlastD\<close>)
    have 2: "hchain ?h b cs" using y(4) by (rule hchain_frame) (use n d Cons in auto)
    have "is_hlist ?h hh ((as @ [p]) @ n # bs)"
      unfolding is_hlist_def hchain_append using d n c Cons 1 2 y h0 by auto
    then show thesis using e by (intro that [of ?h]) auto
  qed
qed

lemma hlist_add_before_spec:
  assumes l: "is_hlist h hh (as @ x # bs)" and n: "hnode n h" "n \<notin> set (hh # as @ x # bs)"
  obtains h' where "hlist_add_before n x h = Inr h'" "is_hlist h' hh (as @ n # x # bs)"
proof -
  let ?p = "last (hh # as)"
  obtain v w where c: "cells h n = Some v" "pprevs h n = Some w" "n \<noteq> 0"
    using n by (auto simp: hnode_def)
  have a: "hseg h hh as" "x \<noteq> 0" "cells h ?p = Some x" "pprevs h x = Some ?p" "hchain h x bs"
    and h0: "hh \<noteq> 0" and d: "distinct (hh # as @ x # bs)"
    using l by (auto simp: is_hlist_def hchain_append)
  have p: "?p \<in> set (hh # as)" by (rule last_in_set) simp
  then have pn: "?p \<noteq> n" "?p \<noteq> x" "?p \<notin> set bs" using d n by auto
  have bl: "?p \<notin> set (butlast (hh # as))" using d by (intro last_notin_butlast) auto
  let ?h = "h\<lparr>cells := (cells h)(n \<mapsto> x, ?p \<mapsto> n), pprevs := (pprevs h)(n \<mapsto> ?p, x \<mapsto> n)\<rparr>"
  have e: "hlist_add_before n x h = Inr ?h"
    using a c n pn by (simp add: hlist_add_before_def)
  have 1: "hseg ?h hh as" using a(1)
    by (rule hseg_frame) (use bl d n in \<open>auto dest: in_set_butlastD\<close>)
  have 2: "hchain ?h x bs" using a(5) by (rule hchain_frame) (use n pn d in auto)
  have "is_hlist ?h hh (as @ n # x # bs)"
    unfolding is_hlist_def hchain_append using d n c 1 2 a pn h0 by auto
  then show thesis using e by (intro that [of ?h]) auto
qed

lemma hlist_move_list_spec:
  assumes l: "is_hlist h old xs" and n: "cells h new = Some v" "new \<noteq> 0" "new \<notin> set (old # xs)"
  obtains h' where "hlist_move_list old new h = Inr h'" "is_hlist h' new xs" "is_hlist h' old []"
proof (cases xs)
  case Nil
  then show thesis using l n that
    by (auto simp: is_hlist_def hlist_move_list_def)
next
  case (Cons x ys)
  then have y: "hchain h x ys" "x \<noteq> 0" "cells h old = Some x" "pprevs h x = Some old" "old \<noteq> 0"
    using l by (auto simp: is_hlist_def)
  let ?h = "h\<lparr>cells := (cells h)(new \<mapsto> x, old \<mapsto> 0), pprevs := (pprevs h)(x \<mapsto> new)\<rparr>"
  have e: "hlist_move_list old new h = Inr ?h"
    using y n by (simp add: hlist_move_list_def)
  have "hchain ?h x ys" using y(1)
    by (rule hchain_frame) (use l n Cons in \<open>auto simp: is_hlist_def\<close>)
  then have "is_hlist ?h new xs" using l n Cons y by (auto simp: is_hlist_def)
  moreover have "is_hlist ?h old []" using y by (simp add: is_hlist_def)
  ultimately show thesis using e by (intro that [of ?h])
qed

text \<open>
  A traversal visits the nodes in order and ends. The loop that frees what it visits
  (\<open>hlist_for_each_safe\<close>) needs only that the body leaves the cells of the nodes still to
  come alone.
\<close>

fun nodes_from :: "hheap \<Rightarrow> u64 \<Rightarrow> u64 list \<Rightarrow> bool" where
  "nodes_from h q [] \<longleftrightarrow> q = 0"
| "nodes_from h q (x # xs) \<longleftrightarrow> q = x \<and> x \<noteq> 0 \<and>
     (case cells h x of None \<Rightarrow> False | Some r \<Rightarrow> nodes_from h r xs)"

lemma lchain_nodes_from: "lchain h p xs \<longleftrightarrow> (\<exists>q. cells h p = Some q \<and> nodes_from h q xs)"
  by (induction xs arbitrary: p) (auto split: option.splits)

lemma nodes_from_frame:
  "nodes_from h q xs \<Longrightarrow> (\<And>x. x \<in> set xs \<Longrightarrow> cells h' x = cells h x) \<Longrightarrow> nodes_from h' q xs"
  by (induction xs arbitrary: q) (auto split: option.splits)

lemma cell_walk_visits: "nodes_from h q xs \<Longrightarrow> cell_walk h q = Some (Inr xs)"
proof (induction xs arbitrary: q)
  case Nil
  then show ?case by (simp add: cell_walk.simps)
next
  case (Cons x xs)
  then show ?case by (subst cell_walk.simps) (auto split: option.splits)
qed

lemma hlist_for_each_visits: "is_hlist h hh xs \<Longrightarrow> hlist_for_each hh h = Some (Inr xs)"
  by (auto simp: is_hlist_def hlist_for_each_def lchain_nodes_from cell_walk_visits dest!: hchain_lchain)

lemma hlist_count_nodes_spec:
  "is_hlist h hh xs \<Longrightarrow> hlist_count_nodes hh h = Some (Inr (word_of_nat (length xs)))"
  by (simp add: hlist_count_nodes_def hlist_for_each_visits)

fun run_body :: "(u64 \<Rightarrow> hheap \<Rightarrow> kfault + hheap) \<Rightarrow> u64 list \<Rightarrow> hheap \<Rightarrow> kfault + hheap" where
  "run_body body [] h = Inr h"
| "run_body body (x # xs) h = fbind (body x h) (run_body body xs)"

lemma cell_safe_walk_runs:
  assumes keep: "\<And>x h h' q. body x h = Inr h' \<Longrightarrow> q \<noteq> x \<Longrightarrow> cells h' q = cells h q"
  shows "nodes_from h q xs \<Longrightarrow> distinct xs \<Longrightarrow> cell_safe_walk body q h = Some (run_body body xs h)"
proof (induction xs arbitrary: q h)
  case Nil
  then show ?case by (simp add: cell_safe_walk.simps)
next
  case (Cons x xs)
  then obtain r where x: "x \<noteq> 0" "q = x" "cells h x = Some r" "nodes_from h r xs"
    by (auto split: option.splits)
  show ?case
  proof (cases "body x h")
    case (Inl e)
    then show ?thesis using x by (subst cell_safe_walk.simps) simp
  next
    case (Inr h')
    have "nodes_from h' r xs" using x(4)
      by (rule nodes_from_frame) (metis keep [OF Inr] Cons.prems(2) distinct.simps(2))
    then have "cell_safe_walk body r h' = Some (run_body body xs h')"
      using Cons by simp
    then show ?thesis using x Inr by (subst cell_safe_walk.simps) simp
  qed
qed

text \<open>A task's kretprobe instances: \<open>llist_add\<close> puts the newest first.\<close>

lemma llist_add_local_spec:
  assumes l: "lchain h hh xs" and n: "cells h n = Some v" "n \<noteq> 0" "n \<notin> set (hh # xs)" "hh \<notin> set xs"
  obtains h' where "llist_add_local n hh h = Inr (xs = [], h')" "lchain h' hh (n # xs)"
proof -
  obtain q where q: "cells h hh = Some q" "nodes_from h q xs"
    using l by (auto simp: lchain_nodes_from)
  let ?h = "h\<lparr>cells := (cells h)(n \<mapsto> q, hh \<mapsto> n)\<rparr>"
  have "q = 0 \<longleftrightarrow> xs = []" using q by (cases xs) auto
  then have e: "llist_add_local n hh h = Inr (xs = [], ?h)"
    using q n by (simp add: llist_add_local_def llist_add_batch_local_def)
  have "nodes_from ?h q xs" using q(2) by (rule nodes_from_frame) (use n in auto)
  then have "lchain ?h hh (n # xs)" using n q by (simp add: lchain_nodes_from)
  with e show thesis by (rule that)
qed

lemma llist_del_all_spec:
  assumes "lchain h hh xs" "hh \<notin> set xs"
  obtains q h' where "llist_del_all hh h = Inr (q, h')" "lchain h' hh []" "llist_for_each q h' = Some (Inr xs)"
proof -
  obtain q where q: "cells h hh = Some q" "nodes_from h q xs"
    using assms by (auto simp: lchain_nodes_from)
  let ?h = "h\<lparr>cells := (cells h)(hh \<mapsto> 0)\<rparr>"
  have "llist_del_all hh h = Inr (q, ?h)" using q by (simp add: llist_del_all_def)
  moreover have "nodes_from ?h q xs" using q(2) by (rule nodes_from_frame) (use assms in auto)
  then have "llist_for_each q ?h = Some (Inr xs)"
    by (simp add: llist_for_each_def cell_walk_visits)
  ultimately show thesis by (intro that) simp_all
qed

end
