(* ===== verification/List_Walks.thy ===== *)
theory List_Walks
  imports Hash_List "HOL-Library.Sublist"
begin

text \<open>
  The rest of the loops of kheaders/include/linux/list.h and llist.h: backwards, from or after a given entry,
  and the safe ones, whose body may take the entry it runs on off the list. A safe loop gives
  the entries it ran its body on and the memory after it.
\<close>

subsection \<open>Positions and entries\<close>

definition list_for_each_reverse :: "u64 \<Rightarrow> lheap \<Rightarrow> (kfault + u64 list) option" where
  "list_for_each_reverse head h = list_for_each_from get_prev head head h"

text \<open>\<open>rcu_dereference\<close> reads the pointer once.\<close>

definition list_for_each_rcu :: "u64 \<Rightarrow> lheap \<Rightarrow> (kfault + u64 list) option" where
  "list_for_each_rcu head h = list_for_each_from get_next head head h"

text \<open>No entry given (\<open>None\<close> is \<open>NULL\<close>) means the one before the first.\<close>

definition list_prepare_entry :: "u64 \<Rightarrow> u64 option \<Rightarrow> u64 \<Rightarrow> u64" where
  "list_prepare_entry member pos head = (case pos of Some p \<Rightarrow> p | None \<Rightarrow> list_entry member head)"

definition entries_after :: "(u64 \<Rightarrow> lheap \<Rightarrow> kfault + u64) \<Rightarrow> u64 \<Rightarrow> u64 \<Rightarrow> u64 \<Rightarrow> lheap \<Rightarrow> (kfault + u64 list) option" where
  "entries_after step member pos head h =
     (case step pos h of Inl e \<Rightarrow> Some (Inl e) | Inr p \<Rightarrow> entry_walk step member h head p)"

definition list_for_each_entry_continue :: "u64 \<Rightarrow> u64 \<Rightarrow> u64 \<Rightarrow> lheap \<Rightarrow> (kfault + u64 list) option" where
  "list_for_each_entry_continue member pos head h = entries_after (list_next_entry member) member pos head h"

definition list_for_each_entry_continue_reverse :: "u64 \<Rightarrow> u64 \<Rightarrow> u64 \<Rightarrow> lheap \<Rightarrow> (kfault + u64 list) option" where
  "list_for_each_entry_continue_reverse member pos head h = entries_after (list_prev_entry member) member pos head h"

definition list_for_each_entry_from :: "u64 \<Rightarrow> u64 \<Rightarrow> u64 \<Rightarrow> lheap \<Rightarrow> (kfault + u64 list) option" where
  "list_for_each_entry_from member pos head h = entry_walk (list_next_entry member) member h head pos"

definition list_for_each_entry_from_reverse :: "u64 \<Rightarrow> u64 \<Rightarrow> u64 \<Rightarrow> lheap \<Rightarrow> (kfault + u64 list) option" where
  "list_for_each_entry_from_reverse member pos head h = entry_walk (list_prev_entry member) member h head pos"

subsection \<open>Safe loops\<close>

type_synonym list_body = "u64 \<Rightarrow> lheap \<Rightarrow> kfault + lheap"

fun ran_on :: "u64 \<Rightarrow> kfault + u64 list \<times> lheap \<Rightarrow> kfault + u64 list \<times> lheap" where
  "ran_on p (Inl e) = Inl e"
| "ran_on p (Inr (ps, h)) = Inr (p # ps, h)"

partial_function (option) safe_walk ::
  "(u64 \<Rightarrow> lheap \<Rightarrow> kfault + u64) \<Rightarrow> u64 \<Rightarrow> u64 \<Rightarrow> list_body \<Rightarrow> u64 \<Rightarrow> u64 \<Rightarrow> lheap \<Rightarrow> (kfault + u64 list \<times> lheap) option" where
  "safe_walk step member head body pos n h =
     (if list_entry_is_head member pos head then Some (Inr ([], h))
      else case body pos h of
             Inl e \<Rightarrow> Some (Inl e)
           | Inr h \<Rightarrow> (case step n h of
                 Inl e \<Rightarrow> Some (Inl e)
               | Inr n' \<Rightarrow> Option.bind (safe_walk step member head body n n' h) (\<lambda>r. Some (ran_on pos r))))"

text \<open>The next entry is read before the body runs for the first time.\<close>

definition safe_from :: "(u64 \<Rightarrow> lheap \<Rightarrow> kfault + u64) \<Rightarrow> u64 \<Rightarrow> u64 \<Rightarrow> list_body \<Rightarrow> u64 \<Rightarrow> lheap \<Rightarrow> (kfault + u64 list \<times> lheap) option" where
  "safe_from step member head body pos h =
     (case step pos h of Inl e \<Rightarrow> Some (Inl e) | Inr n \<Rightarrow> safe_walk step member head body pos n h)"

text \<open>Over positions the member is the whole entry, at offset 0.\<close>

definition list_for_each_safe :: "list_body \<Rightarrow> u64 \<Rightarrow> lheap \<Rightarrow> (kfault + u64 list \<times> lheap) option" where
  "list_for_each_safe body head h =
     (case get_next head h of Inl e \<Rightarrow> Some (Inl e) | Inr pos \<Rightarrow> safe_from get_next 0 head body pos h)"

definition list_for_each_prev_safe :: "list_body \<Rightarrow> u64 \<Rightarrow> lheap \<Rightarrow> (kfault + u64 list \<times> lheap) option" where
  "list_for_each_prev_safe body head h =
     (case get_prev head h of Inl e \<Rightarrow> Some (Inl e) | Inr pos \<Rightarrow> safe_from get_prev 0 head body pos h)"

definition list_for_each_entry_safe :: "u64 \<Rightarrow> list_body \<Rightarrow> u64 \<Rightarrow> lheap \<Rightarrow> (kfault + u64 list \<times> lheap) option" where
  "list_for_each_entry_safe member body head h =
     (case list_first_entry member head h of
        Inl e \<Rightarrow> Some (Inl e) | Inr pos \<Rightarrow> safe_from (list_next_entry member) member head body pos h)"

definition list_for_each_entry_safe_continue :: "u64 \<Rightarrow> list_body \<Rightarrow> u64 \<Rightarrow> u64 \<Rightarrow> lheap \<Rightarrow> (kfault + u64 list \<times> lheap) option" where
  "list_for_each_entry_safe_continue member body pos head h =
     (case list_next_entry member pos h of
        Inl e \<Rightarrow> Some (Inl e) | Inr pos \<Rightarrow> safe_from (list_next_entry member) member head body pos h)"

definition list_for_each_entry_safe_from :: "u64 \<Rightarrow> list_body \<Rightarrow> u64 \<Rightarrow> u64 \<Rightarrow> lheap \<Rightarrow> (kfault + u64 list \<times> lheap) option" where
  "list_for_each_entry_safe_from member body pos head h = safe_from (list_next_entry member) member head body pos h"

definition list_for_each_entry_safe_reverse :: "u64 \<Rightarrow> list_body \<Rightarrow> u64 \<Rightarrow> lheap \<Rightarrow> (kfault + u64 list \<times> lheap) option" where
  "list_for_each_entry_safe_reverse member body head h =
     (case list_last_entry member head h of
        Inl e \<Rightarrow> Some (Inl e) | Inr pos \<Rightarrow> safe_from (list_prev_entry member) member head body pos h)"

definition list_safe_reset_next :: "u64 \<Rightarrow> u64 \<Rightarrow> lheap \<Rightarrow> kfault + u64" where
  "list_safe_reset_next member pos h = list_next_entry member pos h"

subsection \<open>Buckets and lock-less lists\<close>

definition hlist_entry :: "u64 \<Rightarrow> u64 \<Rightarrow> u64" where
  "hlist_entry member ptr = ptr - member"

definition hlist_entry_safe :: "u64 \<Rightarrow> u64 \<Rightarrow> u64" where
  "hlist_entry_safe member ptr = (if ptr \<noteq> 0 then hlist_entry member ptr else 0)"

partial_function (option) hlist_entry_walk :: "u64 \<Rightarrow> hheap \<Rightarrow> u64 \<Rightarrow> (kfault + u64 list) option" where
  "hlist_entry_walk member h pos =
     (if pos = 0 then Some (Inr [])
      else case get_cell (pos + member) h of
             Inl e \<Rightarrow> Some (Inl e)
           | Inr n \<Rightarrow> Option.bind (hlist_entry_walk member h (hlist_entry_safe member n)) (\<lambda>r. Some (visited pos r)))"

definition hlist_for_each_entry :: "u64 \<Rightarrow> u64 \<Rightarrow> hheap \<Rightarrow> (kfault + u64 list) option" where
  "hlist_for_each_entry member hh h =
     (case get_cell hh h of Inl e \<Rightarrow> Some (Inl e) | Inr p \<Rightarrow> hlist_entry_walk member h (hlist_entry_safe member p))"

definition hlist_for_each_entry_continue :: "u64 \<Rightarrow> u64 \<Rightarrow> hheap \<Rightarrow> (kfault + u64 list) option" where
  "hlist_for_each_entry_continue member pos h =
     (case get_cell (pos + member) h of
        Inl e \<Rightarrow> Some (Inl e) | Inr p \<Rightarrow> hlist_entry_walk member h (hlist_entry_safe member p))"

definition hlist_for_each_entry_from :: "u64 \<Rightarrow> u64 \<Rightarrow> hheap \<Rightarrow> (kfault + u64 list) option" where
  "hlist_for_each_entry_from member pos h = hlist_entry_walk member h pos"

partial_function (option) hlist_entry_safe_walk ::
  "u64 \<Rightarrow> (u64 \<Rightarrow> hheap \<Rightarrow> kfault + hheap) \<Rightarrow> u64 \<Rightarrow> hheap \<Rightarrow> (kfault + hheap) option" where
  "hlist_entry_safe_walk member body pos h =
     (if pos = 0 then Some (Inr h)
      else case get_cell (pos + member) h of
             Inl e \<Rightarrow> Some (Inl e)
           | Inr n \<Rightarrow> (case body pos h of
                 Inl e \<Rightarrow> Some (Inl e)
               | Inr h \<Rightarrow> hlist_entry_safe_walk member body (hlist_entry_safe member n) h))"

definition hlist_for_each_entry_safe ::
  "u64 \<Rightarrow> (u64 \<Rightarrow> hheap \<Rightarrow> kfault + hheap) \<Rightarrow> u64 \<Rightarrow> hheap \<Rightarrow> (kfault + hheap) option" where
  "hlist_for_each_entry_safe member body hh h =
     (case get_cell hh h of Inl e \<Rightarrow> Some (Inl e) | Inr p \<Rightarrow> hlist_entry_safe_walk member body (hlist_entry_safe member p) h)"

definition llist_entry :: "u64 \<Rightarrow> u64 \<Rightarrow> u64" where
  "llist_entry member ptr = ptr - member"

definition member_address_is_nonnull :: "u64 \<Rightarrow> u64 \<Rightarrow> bool" where
  "member_address_is_nonnull member ptr \<longleftrightarrow> ptr + member \<noteq> 0"

partial_function (option) llist_entry_walk :: "u64 \<Rightarrow> hheap \<Rightarrow> u64 \<Rightarrow> (kfault + u64 list) option" where
  "llist_entry_walk member h pos =
     (if \<not> member_address_is_nonnull member pos then Some (Inr [])
      else case get_cell (pos + member) h of
             Inl e \<Rightarrow> Some (Inl e)
           | Inr n \<Rightarrow> Option.bind (llist_entry_walk member h (llist_entry member n)) (\<lambda>r. Some (visited pos r)))"

definition llist_for_each_entry :: "u64 \<Rightarrow> u64 \<Rightarrow> hheap \<Rightarrow> (kfault + u64 list) option" where
  "llist_for_each_entry member nd h = llist_entry_walk member h (llist_entry member nd)"

partial_function (option) llist_entry_safe_walk ::
  "u64 \<Rightarrow> (u64 \<Rightarrow> hheap \<Rightarrow> kfault + hheap) \<Rightarrow> u64 \<Rightarrow> hheap \<Rightarrow> (kfault + hheap) option" where
  "llist_entry_safe_walk member body pos h =
     (if \<not> member_address_is_nonnull member pos then Some (Inr h)
      else case get_cell (pos + member) h of
             Inl e \<Rightarrow> Some (Inl e)
           | Inr n \<Rightarrow> (case body pos h of
                 Inl e \<Rightarrow> Some (Inl e)
               | Inr h \<Rightarrow> llist_entry_safe_walk member body (llist_entry member n) h))"

definition llist_for_each_entry_safe ::
  "u64 \<Rightarrow> (u64 \<Rightarrow> hheap \<Rightarrow> kfault + hheap) \<Rightarrow> u64 \<Rightarrow> hheap \<Rightarrow> (kfault + hheap) option" where
  "llist_for_each_entry_safe member body nd h = llist_entry_safe_walk member body (llist_entry member nd) h"

text \<open>Taking all nodes off without the exchange, when nothing else uses the list.\<close>

definition plain_llist_del_all :: "u64 \<Rightarrow> hheap \<Rightarrow> kfault + (u64 \<times> hheap)" where
  "plain_llist_del_all hh h = fbind (get_cell hh h) (\<lambda>first. fbind (set_cell hh 0 h) (\<lambda>h. Inr (first, h)))"

subsection \<open>A direction\<close>

text \<open>
  Going through a list in one direction: after an element of \<open>dir xs\<close> comes the next one of it, after the last the
  head, and after the head the first.
\<close>

definition entry_step :: "list_step \<Rightarrow> u64 \<Rightarrow> u64 \<Rightarrow> lheap \<Rightarrow> kfault + u64" where
  "entry_step get member pos h = fbind (get (pos + member) h) (\<lambda>p. Inr (list_entry member p))"

text \<open>
  What a safe loop asks of its body: it takes the entry it runs on off the list when the node of the entry is in \<open>P\<close>,
  leaves it otherwise, and leaves the others.
\<close>

definition takes_off :: "(u64 \<Rightarrow> bool) \<Rightarrow> u64 \<Rightarrow> u64 \<Rightarrow> list_body \<Rightarrow> bool" where
  "takes_off P member head body \<longleftrightarrow> (\<forall>h as b bs. is_list h head (as @ b # bs) \<longrightarrow>
     (\<exists>h'. body (list_entry member b) h = Inr h' \<and> is_list h' head (as @ (if P b then bs else b # bs))))"

abbreviation kept_by :: "(u64 \<Rightarrow> bool) \<Rightarrow> u64 list \<Rightarrow> u64 list" where
  "kept_by P \<equiv> filter (\<lambda>p. \<not> P p)"

lemma takes_offD:
  "takes_off P member head body \<Longrightarrow> is_list h head (as @ b # bs) \<Longrightarrow>
   \<exists>h'. body (list_entry member b) h = Inr h' \<and> is_list h' head (as @ (if P b then bs else b # bs))"
  unfolding takes_off_def by blast

text \<open>A loop over positions computes the entry in its body.\<close>

lemma takes_off_position: "takes_off P member head body \<Longrightarrow> takes_off P 0 head (\<lambda>p. body (list_entry member p))"
  by (simp add: takes_off_def list_entry_def)

locale list_direction =
  fixes get :: list_step and dir :: "u64 list \<Rightarrow> u64 list"
  assumes dir_set: "set (dir xs) = set xs"
    and dir_split: "dir xs = as @ b # bs \<Longrightarrow> \<exists>as' bs'. xs = as' @ b # bs' \<and> dir (as' @ bs') = as @ bs"
    and get_after: "is_list h head xs \<Longrightarrow> head # dir xs @ [head] = as @ p # q # bs \<Longrightarrow> get p h = Inr q"
begin

lemma step_after:
  "is_list h head xs \<Longrightarrow> head # dir xs @ [head] = as @ p # q # bs \<Longrightarrow> entry_step get member (list_entry member p) h = Inr (list_entry member q)"
  using get_after by (simp add: entry_step_def list_entry_def)

lemma head_not_in: "is_list h head xs \<Longrightarrow> dir xs = as @ bs \<Longrightarrow> head \<notin> set bs"
  using dir_set [of xs] by (auto simp: is_list_def)

lemma walk_rest:
  assumes l: "is_list h head xs"
  shows "dir xs = as @ bs \<Longrightarrow>
    entry_walk (entry_step get member) member h head (list_entry member (hd (bs @ [head]))) = Some (Inr (map (list_entry member) bs))"
proof (induction bs arbitrary: as)
  case Nil
  then show ?case by (subst entry_walk.simps) (simp add: list_entry_is_head_def list_is_head_def list_entry_def)
next
  case (Cons b bs)
  have b: "b \<noteq> head" using head_not_in [OF l Cons.prems] by auto
  have "head # dir xs @ [head] = (head # as) @ b # hd (bs @ [head]) # tl (bs @ [head])" using Cons.prems by (cases bs) auto
  from step_after [OF l this] have s: "entry_step get member (list_entry member b) h = Inr (list_entry member (hd (bs @ [head])))" .
  have "entry_walk (entry_step get member) member h head (list_entry member (hd (bs @ [head]))) = Some (Inr (map (list_entry member) bs))"
    using Cons.IH [of "as @ [b]"] Cons.prems by simp
  then show ?case using s b by (subst entry_walk.simps) (simp add: list_entry_is_head_def list_is_head_def list_entry_def)
qed

lemma after_head:
  assumes "is_list h head xs"
  shows "get head h = Inr (hd (dir xs @ [head]))"
proof -
  have "head # dir xs @ [head] = [] @ head # hd (dir xs @ [head]) # tl (dir xs @ [head])" by (cases "dir xs") auto
  then show ?thesis by (rule get_after [OF assms])
qed

lemma after_entry:
  assumes "is_list h head xs" "dir xs = as @ b # bs"
  shows "entry_step get member (list_entry member b) h = Inr (list_entry member (hd (bs @ [head])))"
proof -
  have "head # dir xs @ [head] = (head # as) @ b # hd (bs @ [head]) # tl (bs @ [head])" using assms(2) by (cases bs) auto
  then show ?thesis by (rule step_after [OF assms(1)])
qed

lemma body_runs:
  assumes body: "takes_off P member head body" and l: "is_list h head xs" and d: "dir xs = as @ b # bs"
  shows "\<exists>h' ys. body (list_entry member b) h = Inr h' \<and> is_list h' head ys \<and> dir ys = as @ kept_by P [b] @ bs"
proof -
  obtain as' bs' where x: "xs = as' @ b # bs'" "dir (as' @ bs') = as @ bs" using dir_split [OF d] by blast
  from takes_offD [OF body l [unfolded x(1)]] show ?thesis using x d by (auto split: if_splits)
qed

lemma safe_rest:
  assumes body: "takes_off P member head body"
  shows "is_list h head xs \<Longrightarrow> dir xs = as @ bs \<Longrightarrow> bs \<noteq> [] \<longrightarrow> n = list_entry member (hd (tl bs @ [head])) \<Longrightarrow>
    \<exists>h' ys. safe_walk (entry_step get member) member head body (list_entry member (hd (bs @ [head]))) n h =
        Some (Inr (map (list_entry member) bs, h')) \<and>
      is_list h' head ys \<and> dir ys = as @ kept_by P bs"
proof (induction bs arbitrary: h xs as n)
  case Nil
  then show ?case
    by (subst safe_walk.simps) (auto simp: list_entry_is_head_def list_is_head_def list_entry_def)
next
  case (Cons b bs)
  have b: "b \<noteq> head" using head_not_in [OF Cons.prems(1,2)] by auto
  obtain h1 ys where h1: "body (list_entry member b) h = Inr h1" "is_list h1 head ys" "dir ys = as @ kept_by P [b] @ bs"
    using body_runs [OF body Cons.prems(1,2)] by blast
  define k where "k = kept_by P [b]"
  have k: "dir ys = (as @ k) @ bs" using h1(3) by (simp add: k_def)
  have n: "n = list_entry member (hd (bs @ [head]))" using Cons.prems(3) by simp
  obtain n' where n': "entry_step get member n h1 = Inr n'" "bs \<noteq> [] \<longrightarrow> n' = list_entry member (hd (tl bs @ [head]))"
  proof (cases bs)
    case Nil
    then have "entry_step get member n h1 = Inr (list_entry member (hd (dir ys @ [head])))"
      using after_head [OF h1(2)] n by (simp add: entry_step_def list_entry_def)
    then show thesis using that Nil by simp
  next
    case (Cons c cs)
    then show thesis using after_entry [OF h1(2), of "as @ k" c cs member] k n that by simp
  qed
  from Cons.IH [OF h1(2) k n'(2)] obtain h' zs where r:
    "safe_walk (entry_step get member) member head body n n' h1 = Some (Inr (map (list_entry member) bs, h'))"
    "is_list h' head zs" "dir zs = (as @ k) @ kept_by P bs" unfolding n by blast
  have "safe_walk (entry_step get member) member head body (list_entry member b) n h = Some (Inr (map (list_entry member) (b # bs), h'))"
    using h1(1) n'(1) r(1) b by (subst safe_walk.simps) (simp add: list_entry_is_head_def list_is_head_def list_entry_def)
  then show ?case using r(2,3) by (intro exI [of _ h'] exI [of _ zs]) (simp add: k_def)
qed

lemma safe_from_rest:
  assumes body: "takes_off P member head body" and l: "is_list h head xs" and d: "dir xs = as @ bs"
  shows "\<exists>h' ys. safe_from (entry_step get member) member head body (list_entry member (hd (bs @ [head]))) h =
        Some (Inr (map (list_entry member) bs, h')) \<and>
      is_list h' head ys \<and> dir ys = as @ kept_by P bs"
proof (cases bs)
  case Nil
  have "entry_step get member (list_entry member head) h = Inr (list_entry member (hd (dir xs @ [head])))"
    using after_head [OF l] by (simp add: entry_step_def list_entry_def)
  then show ?thesis using safe_rest [OF body l d] Nil by (simp add: safe_from_def)
next
  case (Cons c cs)
  then have "entry_step get member (list_entry member (hd (bs @ [head]))) h = Inr (list_entry member (hd (tl bs @ [head])))"
    using after_entry [OF l] d by simp
  then show ?thesis using safe_rest [OF body l d, of "list_entry member (hd (tl bs @ [head]))"] by (simp add: safe_from_def)
qed

end

lemma links_after: "links h (as @ p # q # bs) \<Longrightarrow> link h p q"
  by (simp add: links_append)

interpretation forwards: list_direction get_next "\<lambda>xs. xs"
proof unfold_locales
  fix h head xs as p q bs
  assume l: "is_list h head xs" "head # xs @ [head] = as @ p # q # bs"
  then show "get_next p h = Inr q" using links_after [of h as p q bs] by (auto simp: is_list_def link_def)
qed auto

interpretation backwards: list_direction get_prev rev
proof unfold_locales
  fix h head xs as p q bs
  assume l: "is_list h head xs" "head # rev xs @ [head] = as @ p # q # bs"
  have "head # xs @ [head] = rev (head # rev xs @ [head])" by simp
  then have "head # xs @ [head] = rev bs @ q # p # rev as" unfolding l(2) by simp
  then show "get_prev p h = Inr q" using l(1) links_after [of h "rev bs" q p "rev as"] by (auto simp: is_list_def link_def)
next
  fix xs as b and bs :: "u64 list"
  assume "rev xs = as @ b # bs"
  then have "xs = rev bs @ b # rev as" by (simp add: rev_swap)
  then show "\<exists>as' bs'. xs = as' @ b # bs' \<and> rev (as' @ bs') = as @ bs" by (intro exI [of _ "rev bs"] exI [of _ "rev as"]) simp
qed simp

lemma step_is_next: "entry_step get_next = list_next_entry"
  by (intro ext) (simp add: entry_step_def list_next_entry_def)

lemma step_is_prev: "entry_step get_prev = list_prev_entry"
  by (intro ext) (simp add: entry_step_def list_prev_entry_def)

lemmas forward_loops = forwards.walk_rest [unfolded step_is_next] forwards.after_entry [unfolded step_is_next]
  forwards.safe_from_rest [unfolded step_is_next]

lemmas backward_loops = backwards.walk_rest [unfolded step_is_prev] backwards.after_entry [unfolded step_is_prev]
  backwards.safe_from_rest [unfolded step_is_prev]

subsection \<open>The loops\<close>

lemma positions_are_entries: "list_entry 0 = (\<lambda>p. p)" "list_next_entry 0 = get_next" "list_prev_entry 0 = get_prev"
  by (auto simp: list_entry_def list_next_entry_def list_prev_entry_def intro!: ext)

text \<open>The loops from, or after, an entry of the list.\<close>

lemma entry_loops_visit:
  assumes l: "is_list h head (as @ b # bs)"
  shows "list_for_each_entry_from member (list_entry member b) head h = Some (Inr (map (list_entry member) (b # bs)))"
    "list_for_each_entry_continue member (list_entry member b) head h = Some (Inr (map (list_entry member) bs))"
    "list_for_each_entry_from_reverse member (list_entry member b) head h = Some (Inr (map (list_entry member) (b # rev as)))"
    "list_for_each_entry_continue_reverse member (list_entry member b) head h = Some (Inr (map (list_entry member) (rev as)))"
proof -
  have r: "rev (as @ b # bs) = rev bs @ b # rev as" by simp
  show "list_for_each_entry_from member (list_entry member b) head h = Some (Inr (map (list_entry member) (b # bs)))"
    using forward_loops(1) [OF l, of as "b # bs" member] by (simp add: list_for_each_entry_from_def)
  show "list_for_each_entry_continue member (list_entry member b) head h = Some (Inr (map (list_entry member) bs))"
    using forward_loops(1) [OF l, of "as @ [b]" bs member] forward_loops(2) [OF l refl, of member]
    by (simp add: list_for_each_entry_continue_def entries_after_def)
  show "list_for_each_entry_from_reverse member (list_entry member b) head h = Some (Inr (map (list_entry member) (b # rev as)))"
    using backward_loops(1) [OF l, of "rev bs" "b # rev as" member] by (simp add: list_for_each_entry_from_reverse_def)
  show "list_for_each_entry_continue_reverse member (list_entry member b) head h = Some (Inr (map (list_entry member) (rev as)))"
    using backward_loops(1) [OF l, of "rev bs @ [b]" "rev as" member] backward_loops(2) [OF l r, of member]
    by (simp add: list_for_each_entry_continue_reverse_def entries_after_def)
qed

lemma continue_visits:
  assumes l: "is_list h head (as @ b # bs)"
  shows "list_for_each_continue b head h = Some (Inr bs)"
proof -
  have "links h (bs @ [head])" "head \<notin> set bs" "get_next b h = Inr (hd (bs @ [head]))"
    using l links_append [of h "head # as @ [b]" "bs @ [head]"] forwards.after_entry [OF l refl, of 0]
    by (auto simp: is_list_def entry_step_def list_entry_def)
  then show ?thesis using walk_links [of h bs head] by (simp add: list_for_each_continue_def list_for_each_from_def)
qed

lemma whole_loops_visit:
  assumes l: "is_list h head xs"
  shows "list_for_each_rcu head h = Some (Inr xs)" "list_for_each_reverse head h = Some (Inr (rev xs))"
    "list_for_each_entry_reverse member head h = Some (Inr (map (list_entry member) (rev xs)))"
    "list_for_each_entry_continue member (list_prepare_entry member None head) head h = Some (Inr (map (list_entry member) xs))"
proof -
  show "list_for_each_rcu head h = Some (Inr xs)" using list_for_each_visits [OF l] by (simp add: list_for_each_rcu_def list_for_each_def)
  show "list_for_each_reverse head h = Some (Inr (rev xs))"
    using list_for_each_prev_visits [OF l] by (simp add: list_for_each_reverse_def list_for_each_prev_def)
  show "list_for_each_entry_reverse member head h = Some (Inr (map (list_entry member) (rev xs)))"
    using backward_loops(1) [OF l, of "[]" "rev xs" member] backwards.after_head [OF l]
    by (simp add: list_for_each_entry_reverse_def list_last_entry_def)
  show "list_for_each_entry_continue member (list_prepare_entry member None head) head h = Some (Inr (map (list_entry member) xs))"
    using forward_loops(1) [OF l, of "[]" xs member] forwards.after_head [OF l]
    by (simp add: list_for_each_entry_continue_def entries_after_def list_prepare_entry_def list_next_entry_def list_entry_def)
qed

lemma safe_loops_run:
  assumes l: "is_list h head (as @ b # bs)" and f: "takes_off P member head body"
  shows "\<exists>h'. list_for_each_entry_safe_from member body (list_entry member b) head h =
        Some (Inr (map (list_entry member) (b # bs), h')) \<and> is_list h' head (as @ kept_by P (b # bs))"
    "\<exists>h'. list_for_each_entry_safe_continue member body (list_entry member b) head h =
        Some (Inr (map (list_entry member) bs, h')) \<and> is_list h' head (as @ b # kept_by P bs)"
  using forward_loops(3) [OF f l, of as "b # bs"] forward_loops(3) [OF f l, of "as @ [b]" bs] forward_loops(2) [OF l refl, of member]
  by (auto simp: list_for_each_entry_safe_from_def list_for_each_entry_safe_continue_def)

lemma whole_safe_loops_run:
  assumes l: "is_list h head xs" and f: "takes_off P member head body"
  shows "\<exists>h'. list_for_each_entry_safe member body head h = Some (Inr (map (list_entry member) xs, h')) \<and> is_list h' head (kept_by P xs)"
    "\<exists>h'. list_for_each_entry_safe_reverse member body head h = Some (Inr (map (list_entry member) (rev xs), h')) \<and>
       is_list h' head (kept_by P xs)"
proof -
  show "\<exists>h'. list_for_each_entry_safe member body head h = Some (Inr (map (list_entry member) xs, h')) \<and> is_list h' head (kept_by P xs)"
    using forward_loops(3) [OF f l, of "[]" xs] forwards.after_head [OF l]
    by (auto simp: list_for_each_entry_safe_def list_first_entry_def)
  obtain h' ys where h: "list_for_each_entry_safe_reverse member body head h = Some (Inr (map (list_entry member) (rev xs), h'))"
      "is_list h' head ys" "rev ys = kept_by P (rev xs)"
    using backward_loops(3) [OF f l, of "[]" "rev xs"] backwards.after_head [OF l]
    by (auto simp: list_for_each_entry_safe_reverse_def list_last_entry_def)
  from h(3) have "ys = kept_by P xs" by (simp add: rev_filter [symmetric])
  with h(1,2) show "\<exists>h'. list_for_each_entry_safe_reverse member body head h = Some (Inr (map (list_entry member) (rev xs), h')) \<and>
       is_list h' head (kept_by P xs)" by blast
qed

lemma position_safe_loops_run:
  assumes l: "is_list h head xs" and f: "takes_off P 0 head body"
  shows "\<exists>h'. list_for_each_safe body head h = Some (Inr (xs, h')) \<and> is_list h' head (kept_by P xs)"
    "\<exists>h'. list_for_each_prev_safe body head h = Some (Inr (rev xs, h')) \<and> is_list h' head (kept_by P xs)"
proof -
  have e: "list_for_each_safe body = list_for_each_entry_safe 0 body" "list_for_each_prev_safe body = list_for_each_entry_safe_reverse 0 body"
    by (intro ext; simp add: list_for_each_safe_def list_for_each_entry_safe_def list_first_entry_def list_for_each_prev_safe_def
        list_for_each_entry_safe_reverse_def list_last_entry_def positions_are_entries split: sum.splits)+
  show "\<exists>h'. list_for_each_safe body head h = Some (Inr (xs, h')) \<and> is_list h' head (kept_by P xs)"
    "\<exists>h'. list_for_each_prev_safe body head h = Some (Inr (rev xs, h')) \<and> is_list h' head (kept_by P xs)"
    using whole_safe_loops_run [OF l f] by (simp_all add: e positions_are_entries)
qed

text \<open>A body that deletes the entries of its choice is such a body.\<close>

lemma deleting_takes_off: "takes_off P member head (\<lambda>e. if P (e + member) then list_del_init (e + member) else Inr)"
  unfolding takes_off_def
proof (intro allI impI)
  fix h as b bs
  assume l: "is_list h head (as @ b # bs)"
  then show "\<exists>h'. (if P (list_entry member b + member) then list_del_init (list_entry member b + member) else Inr) h = Inr h' \<and>
      is_list h' head (as @ (if P b then bs else b # bs))"
    using list_del_init_spec [OF l] by (auto simp: list_entry_def)
qed

subsection \<open>Buckets and lock-less lists visit their entries\<close>

lemma hlist_entry_walk_visits:
  "nodes_from h q xs \<Longrightarrow> member \<notin> set xs \<Longrightarrow>
   hlist_entry_walk member h (hlist_entry_safe member q) = Some (Inr (map (hlist_entry member) xs))"
proof (induction xs arbitrary: q)
  case Nil
  then show ?case by (simp add: hlist_entry_walk.simps hlist_entry_safe_def)
next
  case (Cons x xs)
  then show ?case
    by (subst hlist_entry_walk.simps) (auto simp: hlist_entry_safe_def hlist_entry_def split: option.splits)
qed

lemma hlist_entry_loops_visit:
  assumes l: "is_hlist h hh xs" and m: "member \<notin> set xs"
  shows "hlist_for_each_entry member hh h = Some (Inr (map (hlist_entry member) xs))"
    "xs = as @ b # bs \<Longrightarrow> hlist_for_each_entry_from member (hlist_entry member b) h = Some (Inr (map (hlist_entry member) (b # bs)))"
    "xs = as @ b # bs \<Longrightarrow> hlist_for_each_entry_continue member (hlist_entry member b) h = Some (Inr (map (hlist_entry member) bs))"
proof -
  obtain q where q: "cells h hh = Some q" "nodes_from h q xs"
    using l by (auto simp: is_hlist_def lchain_nodes_from dest!: hchain_lchain)
  show "hlist_for_each_entry member hh h = Some (Inr (map (hlist_entry member) xs))"
    using q hlist_entry_walk_visits [OF q(2) m] by (simp add: hlist_for_each_entry_def)
  have suffix: "nodes_from h p (as @ b # bs) \<Longrightarrow> nodes_from h b (b # bs)" for p as b bs
  proof (induction as arbitrary: p)
    case (Cons a as)
    then obtain r where "nodes_from h r (as @ b # bs)" by (auto split: option.splits)
    then show ?case by (rule Cons.IH)
  qed simp
  assume x: "xs = as @ b # bs"
  then have n: "nodes_from h b (b # bs)" using suffix q(2) by blast
  then have b: "b \<noteq> 0" by (auto split: option.splits)
  show "hlist_for_each_entry_from member (hlist_entry member b) h = Some (Inr (map (hlist_entry member) (b # bs)))"
    using hlist_entry_walk_visits [OF n, of member] m x b by (simp add: hlist_for_each_entry_from_def hlist_entry_safe_def)
  obtain r where "cells h b = Some r" "nodes_from h r bs" using n by (auto split: option.splits)
  then show "hlist_for_each_entry_continue member (hlist_entry member b) h = Some (Inr (map (hlist_entry member) bs))"
    using hlist_entry_walk_visits [of h r bs member] m x by (simp add: hlist_for_each_entry_continue_def hlist_entry_def)
qed

lemma hlist_entry_safe_walk_runs:
  assumes keep: "\<And>x h h' q. body (hlist_entry member x) h = Inr h' \<Longrightarrow> q \<noteq> x \<Longrightarrow> cells h' q = cells h q"
  shows "nodes_from h q xs \<Longrightarrow> distinct xs \<Longrightarrow> member \<notin> set xs \<Longrightarrow>
    hlist_entry_safe_walk member body (hlist_entry_safe member q) h = Some (run_body (\<lambda>p. body (hlist_entry member p)) xs h)"
proof (induction xs arbitrary: q h)
  case Nil
  then show ?case by (simp add: hlist_entry_safe_walk.simps hlist_entry_safe_def)
next
  case (Cons x xs)
  then obtain r where x: "x \<noteq> 0" "q = x" "cells h x = Some r" "nodes_from h r xs" by (auto split: option.splits)
  have e: "hlist_entry_safe member q = hlist_entry member x" "hlist_entry member x \<noteq> 0" "hlist_entry member x + member = x"
    using x Cons.prems(3) by (auto simp: hlist_entry_safe_def hlist_entry_def)
  show ?case
  proof (cases "body (hlist_entry member x) h")
    case (Inl err)
    then show ?thesis using x e by (subst hlist_entry_safe_walk.simps) simp
  next
    case (Inr h')
    have "nodes_from h' r xs" using x(4)
      by (rule nodes_from_frame) (metis keep [OF Inr] Cons.prems(2) distinct.simps(2))
    then have "hlist_entry_safe_walk member body (hlist_entry_safe member r) h' = Some (run_body (\<lambda>p. body (hlist_entry member p)) xs h')"
      using Cons by simp
    then show ?thesis using x e Inr by (subst hlist_entry_safe_walk.simps) simp
  qed
qed

lemma llist_entry_walk_visits:
  "nodes_from h q xs \<Longrightarrow> llist_for_each_entry member q h = Some (Inr (map (llist_entry member) xs))"
  unfolding llist_for_each_entry_def
proof (induction xs arbitrary: q)
  case Nil
  then show ?case by (simp add: llist_entry_walk.simps member_address_is_nonnull_def llist_entry_def)
next
  case (Cons x xs)
  then show ?case
    by (subst llist_entry_walk.simps) (auto simp: member_address_is_nonnull_def llist_entry_def split: option.splits)
qed

lemma llist_entry_safe_walk_runs:
  assumes keep: "\<And>x h h' q. body (llist_entry member x) h = Inr h' \<Longrightarrow> q \<noteq> x \<Longrightarrow> cells h' q = cells h q"
  shows "nodes_from h q xs \<Longrightarrow> distinct xs \<Longrightarrow>
    llist_for_each_entry_safe member body q h = Some (run_body (\<lambda>p. body (llist_entry member p)) xs h)"
  unfolding llist_for_each_entry_safe_def
proof (induction xs arbitrary: q h)
  case Nil
  then show ?case by (simp add: llist_entry_safe_walk.simps member_address_is_nonnull_def llist_entry_def)
next
  case (Cons x xs)
  then obtain r where x: "x \<noteq> 0" "q = x" "cells h x = Some r" "nodes_from h r xs" by (auto split: option.splits)
  have e: "member_address_is_nonnull member (llist_entry member x)" "llist_entry member x + member = x"
    using x by (auto simp: member_address_is_nonnull_def llist_entry_def)
  show ?case
  proof (cases "body (llist_entry member x) h")
    case (Inl err)
    then show ?thesis using x e by (subst llist_entry_safe_walk.simps) simp
  next
    case (Inr h')
    have "nodes_from h' r xs" using x(4)
      by (rule nodes_from_frame) (metis keep [OF Inr] Cons.prems(2) distinct.simps(2))
    then have "llist_entry_safe_walk member body (llist_entry member r) h' = Some (run_body (\<lambda>p. body (llist_entry member p)) xs h')"
      using Cons by simp
    then show ?thesis using x e Inr by (subst llist_entry_safe_walk.simps) simp
  qed
qed

end
