(* ===== verification/List_Claims.thy ===== *)
theory List_Claims
  imports Hash_List List_Walks
begin

text \<open>
  Properties of the kernel's lists: a run of operations on memory is the same run on a sequence,
  the iterations end and visit it in order, and the hash-bucket and lock-less lists undo and
  order what is put on them.
\<close>

subsection \<open>Operations as commands\<close>

datatype list_cmd =
  Add u64 | Add_Tail u64 | Del_Init u64 | Move u64 | Move_Tail u64 | Replace_Init u64 u64 | Rotate_Left

fun run_cmd :: "u64 \<Rightarrow> list_cmd \<Rightarrow> lheap \<Rightarrow> kfault + lheap" where
  "run_cmd head (Add n) h = list_add n head h"
| "run_cmd head (Add_Tail n) h = list_add_tail n head h"
| "run_cmd head (Del_Init e) h = list_del_init e h"
| "run_cmd head (Move e) h = list_move e head h"
| "run_cmd head (Move_Tail e) h = list_move_tail e head h"
| "run_cmd head (Replace_Init e n) h = list_replace_init e n h"
| "run_cmd head Rotate_Left h = list_rotate_left head h"

fun run_cmds :: "u64 \<Rightarrow> list_cmd list \<Rightarrow> lheap \<Rightarrow> kfault + lheap" where
  "run_cmds head [] h = Inr h"
| "run_cmds head (c # cs) h = fbind (run_cmd head c h) (run_cmds head cs)"

text \<open>What each one means for the sequence of the nodes, and when it may be called.\<close>

fun on_seq :: "list_cmd \<Rightarrow> u64 list \<Rightarrow> u64 list" where
  "on_seq (Add n) xs = n # xs"
| "on_seq (Add_Tail n) xs = xs @ [n]"
| "on_seq (Del_Init e) xs = remove1 e xs"
| "on_seq (Move e) xs = e # remove1 e xs"
| "on_seq (Move_Tail e) xs = remove1 e xs @ [e]"
| "on_seq (Replace_Init e n) xs = map (\<lambda>x. if x = e then n else x) xs"
| "on_seq Rotate_Left xs = rotate1 xs"

fun fresh_for :: "u64 set \<Rightarrow> u64 \<Rightarrow> u64 list \<Rightarrow> u64 \<Rightarrow> bool" where
  "fresh_for N head xs n \<longleftrightarrow> n \<in> N \<and> n \<notin> set (head # xs)"

fun allowed :: "u64 set \<Rightarrow> u64 \<Rightarrow> u64 list \<Rightarrow> list_cmd \<Rightarrow> bool" where
  "allowed N head xs (Add n) \<longleftrightarrow> fresh_for N head xs n"
| "allowed N head xs (Add_Tail n) \<longleftrightarrow> fresh_for N head xs n"
| "allowed N head xs (Del_Init e) \<longleftrightarrow> e \<in> set xs"
| "allowed N head xs (Move e) \<longleftrightarrow> e \<in> set xs"
| "allowed N head xs (Move_Tail e) \<longleftrightarrow> e \<in> set xs"
| "allowed N head xs (Replace_Init e n) \<longleftrightarrow> e \<in> set xs \<and> fresh_for N head xs n"
| "allowed N head xs Rotate_Left \<longleftrightarrow> True"

fun all_allowed :: "u64 set \<Rightarrow> u64 \<Rightarrow> u64 list \<Rightarrow> list_cmd list \<Rightarrow> bool" where
  "all_allowed N head xs [] \<longleftrightarrow> True"
| "all_allowed N head xs (c # cs) \<longleftrightarrow> allowed N head xs c \<and> all_allowed N head (on_seq c xs) cs"

text \<open>No operation unmaps a node.\<close>

lemma fbind_eq_Inr: "fbind x f = Inr y \<longleftrightarrow> (\<exists>a. x = Inr a \<and> f a = Inr y)"
  by (cases x) auto

lemma set_keeps_node:
  "set_next p v h = Inr h' \<Longrightarrow> node q h' \<longleftrightarrow> node q h"
  "set_prev p v h = Inr h' \<Longrightarrow> node q h' \<longleftrightarrow> node q h"
  by (auto simp: set_next_def set_prev_def node_def split: if_splits)

lemma node_kept:
  "list_add_between n p x h = Inr h' \<Longrightarrow> node q h' \<longleftrightarrow> node q h"
  "list_del_entry e h = Inr h' \<Longrightarrow> node q h' \<longleftrightarrow> node q h"
  "INIT_LIST_HEAD e h = Inr h' \<Longrightarrow> node q h' \<longleftrightarrow> node q h"
  "list_replace e n h = Inr h' \<Longrightarrow> node q h' \<longleftrightarrow> node q h"
  by (auto simp: list_add_between_def list_del_entry_def list_del_between_def INIT_LIST_HEAD_def
      list_replace_def fbind_eq_Inr set_keeps_node split: if_splits)

lemma run_cmd_keeps_nodes: "run_cmd head c h = Inr h' \<Longrightarrow> node q h' \<longleftrightarrow> node q h"
  by (cases c) (auto simp: list_add_def list_add_tail_def list_del_init_def list_move_def list_move_tail_def
      list_replace_init_def list_rotate_left_def fbind_eq_Inr node_kept split: if_splits)

lemma remove1_split: "distinct (ys @ e # zs) \<Longrightarrow> remove1 e (ys @ e # zs) = ys @ zs"
  by (simp add: remove1_append)

lemma replace_split:
  "distinct (ys @ e # zs) \<Longrightarrow> map (\<lambda>x. if x = e then n else x) (ys @ e # zs) = ys @ n # zs"
  by (auto intro!: map_idI)

lemma run_cmd_on_seq:
  assumes l: "is_list h head xs" and N: "\<forall>p\<in>N. node p h" and a: "allowed N head xs c"
  shows "\<exists>h'. run_cmd head c h = Inr h' \<and> is_list h' head (on_seq c xs)"
proof -
  have d: "distinct xs" using l by (simp add: is_list_def)
  show ?thesis
  proof (cases c)
    case (Add n)
    then show ?thesis using a N list_add_spec [OF l, of n] by auto
  next
    case (Add_Tail n)
    then show ?thesis using a N list_add_tail_spec [OF l, of n] by auto
  next
    case (Del_Init e)
    then obtain ys zs where x: "xs = ys @ e # zs" using a split_list [of e xs] by auto
    then show ?thesis using Del_Init list_del_init_spec [OF l [unfolded x]] remove1_split [OF d [unfolded x]]
      by auto
  next
    case (Move e)
    then obtain ys zs where x: "xs = ys @ e # zs" using a split_list [of e xs] by auto
    then show ?thesis using Move list_move_spec [OF l [unfolded x]] remove1_split [OF d [unfolded x]]
      by auto
  next
    case (Move_Tail e)
    then obtain ys zs where x: "xs = ys @ e # zs" using a split_list [of e xs] by auto
    then show ?thesis using Move_Tail list_move_tail_spec [OF l [unfolded x]] remove1_split [OF d [unfolded x]]
      by auto
  next
    case (Replace_Init e n)
    then obtain ys zs where x: "xs = ys @ e # zs" using a split_list [of e xs] by auto
    have n: "node n h" "n \<notin> set (head # ys @ e # zs)" using Replace_Init a N x by auto
    obtain h' where "list_replace_init e n h = Inr h'" "is_list h' head (ys @ n # zs)"
      by (rule list_replace_init_spec [OF l [unfolded x] n])
    then show ?thesis using Replace_Init x replace_split [OF d [unfolded x], of n] by simp
  next
    case Rotate_Left
    then show ?thesis using list_rotate_left_spec [OF l] by auto
  qed
qed

text \<open>C16: Any sequence of list operations on memory, each called on a node that is (or is not yet)
  on the list, succeeds without a fault or a failed hardening check and leaves in memory the
  doubly linked list of the sequence that the same operations make of the sequence before.\<close>

theorem list_ops_refine_sequences:
  "is_list h head xs \<Longrightarrow> \<forall>p\<in>N. node p h \<Longrightarrow> all_allowed N head xs cs \<Longrightarrow>
   \<exists>h'. run_cmds head cs h = Inr h' \<and> is_list h' head (fold on_seq cs xs)"
proof (induction cs arbitrary: h xs)
  case (Cons c cs)
  then obtain h1 where h1: "run_cmd head c h = Inr h1" "is_list h1 head (on_seq c xs)"
    using run_cmd_on_seq [of h head xs N c] by auto
  then have "\<forall>p\<in>N. node p h1" using Cons.prems(2) run_cmd_keeps_nodes by blast
  with Cons h1 show ?case by simp
qed simp

definition three_nodes :: lheap where
  "three_nodes = \<lparr>nextf = [1 \<mapsto> 1, 2 \<mapsto> 0, 3 \<mapsto> 0, 4 \<mapsto> 0], prevf = [1 \<mapsto> 1, 2 \<mapsto> 0, 3 \<mapsto> 0, 4 \<mapsto> 0]\<rparr>"

theorem list_ops_refine_sequences_witness:
  "\<exists>h'. run_cmds 1 [Add 2, Add_Tail 3, Add 4, Rotate_Left, Move 3, Del_Init 2] three_nodes = Inr h' \<and>
        is_list h' 1 [3, 4]"
proof -
  have "is_list three_nodes 1 []" "\<forall>p\<in>{2, 3, 4}. node p three_nodes"
    by (simp_all add: is_list_def link_def node_def three_nodes_def)
  from list_ops_refine_sequences [OF this, of "[Add 2, Add_Tail 3, Add 4, Rotate_Left, Move 3, Del_Init 2]"]
  show ?thesis by simp
qed

subsection \<open>Iteration\<close>

text \<open>C17: Every loop of list.h over a well-formed list, empty or not, ends, and runs where it should: the
  loops over positions and over entries from the first element (plain, RCU, reverse, prev, or continued from
  no entry), from an element or after it, in the order of the list or backwards, and the count is its length; the safe loops, whose
  body may take the entry it is on off the list, run it once on every entry, wherever they start and in
  both directions, and leave the list without exactly those entries the body took off.\<close>

theorem list_loops_end:
  assumes l: "is_list h head xs" and f: "takes_off P member head body"
  shows "list_for_each head h = Some (Inr xs) \<and> list_for_each_rcu head h = Some (Inr xs) \<and>
    list_for_each_prev head h = Some (Inr (rev xs)) \<and> list_for_each_reverse head h = Some (Inr (rev xs)) \<and>
    list_count_nodes head h = Some (Inr (word_of_nat (length xs))) \<and>
    list_for_each_entry member head h = Some (Inr (map (list_entry member) xs)) \<and>
    list_for_each_entry_reverse member head h = Some (Inr (map (list_entry member) (rev xs))) \<and>
    list_for_each_entry_continue member (list_prepare_entry member None head) head h = Some (Inr (map (list_entry member) xs)) \<and>
    (\<exists>h'. list_for_each_safe (\<lambda>pos. body (list_entry member pos)) head h = Some (Inr (xs, h')) \<and> is_list h' head (kept_by P xs)) \<and>
    (\<exists>h'. list_for_each_prev_safe (\<lambda>pos. body (list_entry member pos)) head h = Some (Inr (rev xs, h')) \<and>
       is_list h' head (kept_by P xs)) \<and>
    (\<exists>h'. list_for_each_entry_safe member body head h = Some (Inr (map (list_entry member) xs, h')) \<and> is_list h' head (kept_by P xs)) \<and>
    (\<exists>h'. list_for_each_entry_safe_reverse member body head h = Some (Inr (map (list_entry member) (rev xs), h')) \<and>
       is_list h' head (kept_by P xs)) \<and>
    (\<forall>as b bs. xs = as @ b # bs \<longrightarrow>
       list_for_each_continue b head h = Some (Inr bs) \<and>
       list_for_each_entry_from member (list_entry member b) head h = Some (Inr (map (list_entry member) (b # bs))) \<and>
       list_for_each_entry_continue member (list_entry member b) head h = Some (Inr (map (list_entry member) bs)) \<and>
       list_for_each_entry_from_reverse member (list_entry member b) head h = Some (Inr (map (list_entry member) (b # rev as))) \<and>
       list_for_each_entry_continue_reverse member (list_entry member b) head h = Some (Inr (map (list_entry member) (rev as))) \<and>
       (\<exists>h'. list_for_each_entry_safe_from member body (list_entry member b) head h =
          Some (Inr (map (list_entry member) (b # bs), h')) \<and> is_list h' head (as @ kept_by P (b # bs))) \<and>
       (\<exists>h'. list_for_each_entry_safe_continue member body (list_entry member b) head h =
          Some (Inr (map (list_entry member) bs, h')) \<and> is_list h' head (as @ b # kept_by P bs)))"
proof (intro conjI allI impI)
  fix as b bs
  assume "xs = as @ b # bs"
  note at = l [unfolded this]
  show "list_for_each_continue b head h = Some (Inr bs)" by (rule continue_visits [OF at])
qed (use l f in \<open>simp_all only: list_for_each_visits list_for_each_prev_visits list_count_nodes_spec list_for_each_entry_visits
      whole_loops_visit whole_safe_loops_run position_safe_loops_run takes_off_position entry_loops_visit safe_loops_run\<close>)

text \<open>In a list of three, the entry 3 is taken off when the loop comes to it.\<close>

definition ring_of_three :: lheap where
  "ring_of_three = \<lparr>nextf = [1 \<mapsto> 2, 2 \<mapsto> 3, 3 \<mapsto> 4, 4 \<mapsto> 1], prevf = [2 \<mapsto> 1, 3 \<mapsto> 2, 4 \<mapsto> 3, 1 \<mapsto> 4]\<rparr>"

theorem list_loops_end_witness:
  "list_for_each_entry_from 0 3 1 ring_of_three = Some (Inr [3, 4]) \<and>
   (\<exists>h'. list_for_each_entry_safe 0 (\<lambda>e. if e + 0 = 3 then list_del_init (e + 0) else Inr) 1 ring_of_three = Some (Inr ([2, 3, 4], h')) \<and>
     is_list h' 1 [2, 4])"
proof -
  have "is_list ring_of_three 1 [2, 3, 4]" by (simp add: is_list_def link_def ring_of_three_def)
  note loops = list_loops_end [OF this deleting_takes_off [where P = "\<lambda>p. p = 3" and member = 0 and head = 1]]
  have "[2, 3, 4 :: u64] = [2] @ 3 # [4]" by simp
  with loops have "list_for_each_entry_from 0 (list_entry 0 3) 1 ring_of_three = Some (Inr (map (list_entry 0) [3, 4]))" by blast
  then show ?thesis using loops by (simp add: list_entry_def)
qed

subsection \<open>Hash buckets and lock-less lists\<close>

text \<open>A node put into a hash bucket is visited first and the rest as before; taking it out again,
  or any other node from anywhere in the bucket, leaves the bucket without it and the node
  marked as unhashed; taking out an unhashed node again changes nothing.\<close>

theorem hlist_insert_delete:
  assumes l: "is_hlist h hh xs" and n: "hnode n h" "n \<notin> set (hh # xs)" and m: "m \<in> set (n # xs)"
  shows "\<exists>h1 h2. hlist_add_head n hh h = Inr h1 \<and> hlist_for_each hh h1 = Some (Inr (n # xs)) \<and>
    hlist_del_init m h1 = Inr h2 \<and> hlist_for_each hh h2 = Some (Inr (remove1 m (n # xs))) \<and>
    hlist_unhashed m h2 = Inr True \<and> hlist_del_init m h2 = Inr h2"
proof -
  obtain h1 where h1: "hlist_add_head n hh h = Inr h1" "is_hlist h1 hh (n # xs)"
    by (rule hlist_add_head_spec [OF l n])
  obtain as bs where s: "n # xs = as @ m # bs" using split_list [OF m] by blast
  have d: "distinct (as @ m # bs)" using h1(2) s by (simp add: is_hlist_def)
  obtain h2 where h2: "hlist_del_init m h1 = Inr h2" "is_hlist h2 hh (as @ bs)" "pprevs h2 m = Some 0"
    using hlist_del_init_spec [OF h1(2)[unfolded s]] by blast
  have "remove1 m (n # xs) = as @ bs" unfolding s using d by (simp add: remove1_append)
  then show ?thesis
    using h1 h2 hlist_for_each_visits [OF h1(2)] hlist_for_each_visits [OF h2(2)]
    by (intro exI [of _ h1] exI [of _ h2]) (simp add: hlist_unhashed_def hlist_del_init_def)
qed

definition bucket_of_one :: hheap where
  "bucket_of_one = \<lparr>cells = [1 \<mapsto> 2, 2 \<mapsto> 0, 3 \<mapsto> 0], pprevs = [2 \<mapsto> 1, 3 \<mapsto> 0]\<rparr>"

theorem hlist_insert_delete_witness:
  "\<exists>h1 h2. hlist_add_head 3 1 bucket_of_one = Inr h1 \<and> hlist_del_init 2 h1 = Inr h2 \<and>
     hlist_for_each 1 h2 = Some (Inr [3])"
proof -
  have "is_hlist bucket_of_one 1 [2]" "hnode 3 bucket_of_one"
    by (simp_all add: is_hlist_def hnode_def bucket_of_one_def)
  from hlist_insert_delete [OF this, of 2] show ?thesis by auto
qed

fun llist_add_all :: "u64 list \<Rightarrow> u64 \<Rightarrow> hheap \<Rightarrow> kfault + hheap" where
  "llist_add_all [] hh h = Inr h"
| "llist_add_all (n # ns) hh h = fbind (llist_add_local n hh h) (\<lambda>(first, h). llist_add_all ns hh h)"

lemma llist_add_all_spec:
  "lchain h hh xs \<Longrightarrow> \<forall>n\<in>set ns. cells h n \<noteq> None \<and> n \<noteq> 0 \<Longrightarrow> distinct (hh # ns @ xs) \<Longrightarrow>
   \<exists>h'. llist_add_all ns hh h = Inr h' \<and> lchain h' hh (rev ns @ xs)"
proof (induction ns arbitrary: h xs)
  case (Cons n ns)
  obtain v where v: "cells h n = Some v" "n \<noteq> 0" using Cons.prems(2) by auto
  have fr: "n \<notin> set (hh # xs)" "hh \<notin> set xs" using Cons.prems(3) by auto
  obtain h1 where h1: "llist_add_local n hh h = Inr (xs = [], h1)" "lchain h1 hh (n # xs)"
    by (rule llist_add_local_spec [OF Cons.prems(1) v fr])
  have "cells h1 m \<noteq> None" if "cells h m \<noteq> None" for m
    using that h1(1) by (auto simp: llist_add_local_def llist_add_batch_local_def set_cell_def fbind_eq_Inr split: if_splits)
  then have "\<forall>m\<in>set ns. cells h1 m \<noteq> None \<and> m \<noteq> 0" using Cons.prems(2) by simp
  then obtain h' where "llist_add_all ns hh h1 = Inr h'" "lchain h' hh (rev ns @ n # xs)"
    using Cons.IH [OF h1(2)] Cons.prems(3) by auto
  with h1(1) show ?case by simp
qed simp

text \<open>Nodes pushed onto a lock-less list come off it, all at once, newest first, before what
  was there, and leave it empty: the order in which a task's kretprobe instances unwind.\<close>

theorem llist_is_a_stack:
  assumes "lchain h hh xs" "\<forall>n\<in>set ns. cells h n \<noteq> None \<and> n \<noteq> 0" "distinct (hh # ns @ xs)"
  shows "\<exists>h1 first h2. llist_add_all ns hh h = Inr h1 \<and> llist_del_all hh h1 = Inr (first, h2) \<and>
    llist_for_each first h2 = Some (Inr (rev ns @ xs)) \<and> llist_empty hh h2 = Inr True"
proof -
  obtain h1 where h1: "llist_add_all ns hh h = Inr h1" "lchain h1 hh (rev ns @ xs)"
    using llist_add_all_spec [OF assms] by blast
  have "hh \<notin> set (rev ns @ xs)" using assms(3) by simp
  then obtain q h2 where "llist_del_all hh h1 = Inr (q, h2)" "lchain h2 hh []"
      "llist_for_each q h2 = Some (Inr (rev ns @ xs))"
    by (rule llist_del_all_spec [OF h1(2)])
  with h1(1) show ?thesis by (auto simp: llist_empty_def)
qed

theorem llist_is_a_stack_witness:
  "\<exists>h1 first h2. llist_add_all [3] 1 bucket_of_one = Inr h1 \<and> llist_del_all 1 h1 = Inr (first, h2) \<and>
    llist_for_each first h2 = Some (Inr [3, 2])"
proof -
  have "lchain bucket_of_one 1 [2]" "\<forall>n\<in>set [3]. cells bucket_of_one n \<noteq> None \<and> n \<noteq> 0"
    by (simp_all add: bucket_of_one_def)
  from llist_is_a_stack [OF this] show ?thesis by auto
qed

end
