(* ===== verification/Objpool.thy ===== *)
theory Objpool
  imports Prelude "HOL-Library.Multiset"
begin

text \<open>
  The pool the kernel takes kretprobe instances from (kheaders/include/linux/objpool.h): one ring
  per CPU with free-running 32-bit indices. The inline functions are modelled for one CPU at a
  time with interrupts off, as \<open>objpool_pop\<close> and \<open>objpool_push\<close> run them; the acquire/release
  orderings have no effect there. \<open>objpool_init\<close>, \<open>objpool_free\<close> and \<open>cpumask_next_wrap\<close> are
  not in the repository: the initial pool is described by an invariant, and the next CPU is an
  argument.
\<close>

subsection \<open>State\<close>

record objpool_slot =
  head :: u32
  tail :: u32
  last :: u32
  mask :: u32
  entries :: "u64 list"

record objpool_head =
  nr_objs :: s32
  nr_possible_cpus :: nat
  cpu_slots :: "objpool_slot list"

text \<open>
  What can go wrong: the loop of \<open>__objpool_try_get_slot\<close> re-reads \<open>head\<close> for ever when nobody
  else moves the slot, or an index leaves its array.
\<close>

datatype pool_fault = Spins | EntryOverrun nat | NoSuchCpu nat

subsection \<open>One slot\<close>

definition objpool_try_get_slot :: "u32 \<Rightarrow> objpool_slot \<Rightarrow> pool_fault + (u64 \<times> objpool_slot)" where
  "objpool_try_get_slot nr slot =
     (let h = head slot
      in if h = last slot then Inr (0, slot)
         else if last slot - h - 1 \<ge> nr then Inl Spins
         else let i = unat (h AND mask slot)
           in if i < length (entries slot)
              then Inr (entries slot ! i, slot\<lparr>head := h + 1\<rparr>)
              else Inl (EntryOverrun i))"

text \<open>The \<open>WARN_ON_ONCE\<close> of the loop only prints.\<close>

definition objpool_try_add_slot :: "u64 \<Rightarrow> objpool_slot \<Rightarrow> pool_fault + objpool_slot" where
  "objpool_try_add_slot obj slot =
     (let t = tail slot; i = unat (t AND mask slot)
      in if i < length (entries slot)
         then Inr (slot\<lparr>tail := t + 1, entries := (entries slot)[i := obj], last := t + 1\<rparr>)
         else Inl (EntryOverrun i))"

subsection \<open>The pool\<close>

fun objpool_pop_loop ::
  "(nat \<Rightarrow> nat) \<Rightarrow> nat \<Rightarrow> nat \<Rightarrow> objpool_head \<Rightarrow> pool_fault + (u64 \<times> objpool_head)" where
  "objpool_pop_loop next_cpu 0 cpu pool = Inr (0, pool)"
| "objpool_pop_loop next_cpu (Suc n) cpu pool =
     (if cpu < length (cpu_slots pool)
      then case objpool_try_get_slot (nr_objs pool) (cpu_slots pool ! cpu) of
             Inl e \<Rightarrow> Inl e
           | Inr (obj, slot) \<Rightarrow>
               (let pool = pool\<lparr>cpu_slots := (cpu_slots pool)[cpu := slot]\<rparr>
                in if obj \<noteq> 0 then Inr (obj, pool)
                   else objpool_pop_loop next_cpu n (next_cpu cpu) pool)
      else Inl (NoSuchCpu cpu))"

definition objpool_pop ::
  "(nat \<Rightarrow> nat) \<Rightarrow> nat \<Rightarrow> objpool_head \<Rightarrow> pool_fault + (u64 \<times> objpool_head)" where
  "objpool_pop next_cpu this_cpu pool =
     objpool_pop_loop next_cpu (nr_possible_cpus pool) this_cpu pool"

definition objpool_push :: "nat \<Rightarrow> u64 \<Rightarrow> objpool_head \<Rightarrow> pool_fault + (int \<times> objpool_head)" where
  "objpool_push this_cpu obj pool =
     (if this_cpu < length (cpu_slots pool)
      then case objpool_try_add_slot obj (cpu_slots pool ! this_cpu) of
             Inl e \<Rightarrow> Inl e
           | Inr slot \<Rightarrow> Inr (0, pool\<lparr>cpu_slots := (cpu_slots pool)[this_cpu := slot]\<rparr>)
      else Inl (NoSuchCpu this_cpu))"

subsection \<open>A slot is a bounded queue\<close>

text \<open>
  The ring's size is a power of two, at most \<open>nr\<close> objects are in it, and every index it holds
  is inside it.
\<close>

definition ring_size :: "objpool_slot \<Rightarrow> nat \<Rightarrow> bool" where
  "ring_size slot k \<longleftrightarrow> k < 32 \<and> mask slot = Bit_Operations.mask k \<and> length (entries slot) = 2 ^ k"

definition slot_ok :: "u32 \<Rightarrow> objpool_slot \<Rightarrow> bool" where
  "slot_ok nr slot \<longleftrightarrow> (\<exists>k. ring_size slot k \<and> unat nr \<le> 2 ^ k) \<and> tail slot = last slot \<and>
     unat (last slot - head slot) \<le> unat nr"

definition ring_at :: "objpool_slot \<Rightarrow> u32 \<Rightarrow> u64" where
  "ring_at slot i = entries slot ! unat (i AND mask slot)"

definition slot_queue :: "objpool_slot \<Rightarrow> u64 list" where
  "slot_queue slot = map (\<lambda>i. ring_at slot (head slot + word_of_nat i)) [0..<unat (last slot - head slot)]"

lemma unat_less_32: "unat (w :: u32) < 4294967296"
  by (rule order_less_le_trans [OF unsigned_less]) simp

lemma length_slot_queue: "length (slot_queue slot) = unat (last slot - head slot)"
  by (simp add: slot_queue_def)

lemma ring_index: "unat ((i :: u32) AND Bit_Operations.mask k) = unat i mod 2 ^ k"
  by (simp only: take_bit_eq_mask [symmetric] unsigned_take_bit_eq) (simp add: take_bit_eq_mod)

lemma ring_index_add:
  assumes "k < 32"
  shows "unat ((i + word_of_nat n :: u32) AND Bit_Operations.mask k) = (unat i + n) mod 2 ^ k"
proof -
  have "unat (i + word_of_nat n :: u32) mod 2 ^ k = (unat i + n) mod 2 ^ 32 mod 2 ^ k"
    by (simp add: unat_word_ariths unat_of_nat mod_simps)
  also have "\<dots> = (unat i + n) mod 2 ^ k"
    using assms by (intro mod_mod_cancel le_imp_power_dvd) simp
  finally show ?thesis by (simp add: ring_index)
qed

lemma ring_in_bounds: "ring_size slot k \<Longrightarrow> unat (i AND mask slot) < length (entries slot)"
  by (auto simp: ring_size_def ring_index)

lemma slot_ok_in_bounds: "slot_ok nr slot \<Longrightarrow> unat (i AND mask slot) < length (entries slot)"
  by (auto simp: slot_ok_def intro: ring_in_bounds)

text \<open>Different positions of a window of the ring's size are different cells.\<close>

lemma ring_cells_distinct:
  assumes "k < 32" "i < 2 ^ k" "j < 2 ^ k" "i \<noteq> j"
  shows "(h + i) mod 2 ^ k \<noteq> (h + j) mod (2 ^ k :: nat)"
proof
  assume "(h + i) mod 2 ^ k = (h + j) mod (2 ^ k :: nat)"
  then have "int (h + i) mod int (2 ^ k) = int (h + j) mod int (2 ^ k)"
    by (simp only: zmod_int [symmetric])
  then have "int i mod int (2 ^ k) = int j mod int (2 ^ k)"
    by (simp add: mod_eq_dvd_iff)
  then have "i mod 2 ^ k = j mod 2 ^ k"
    by (simp only: zmod_int [symmetric] of_nat_eq_iff)
  with assms show False by simp
qed

lemma queue_window:
  assumes "slot_ok nr slot" "ring_size slot k" "unat nr \<le> 2 ^ k"
  shows "unat (last slot - head slot) \<le> 2 ^ k"
  using assms by (auto simp: slot_ok_def)

text \<open>The position behind the newest entry, counted from \<open>head\<close>.\<close>

lemma last_from_head: "last slot = head slot + word_of_nat (unat (last slot - head slot))"
  by simp

lemma ring_at_update_other:
  assumes size: "ring_size slot k" and len: "n < 2 ^ k" and i: "i < n"
  shows "ring_at (slot\<lparr>tail := t, entries := (entries slot)[unat ((h + word_of_nat n) AND mask slot) := obj],
      last := l\<rparr>) (h + word_of_nat i) = ring_at slot (h + word_of_nat i)"
proof -
  have k: "k < 32" and m: "mask slot = Bit_Operations.mask k" using size by (auto simp: ring_size_def)
  have "i < 2 ^ k" using i len by simp
  from ring_cells_distinct [OF k this len] i
  have "unat ((h + word_of_nat i) AND mask slot) \<noteq> unat ((h + word_of_nat n) AND mask slot)"
    by (simp add: m ring_index_add [OF k])
  then show ?thesis by (simp add: ring_at_def)
qed

text \<open>
  A push appends to the queue while fewer than \<open>nr\<close> objects are in it.
\<close>

lemma add_slot_appends:
  assumes ok: "slot_ok nr slot" and room: "length (slot_queue slot) < unat nr"
  obtains slot' where "objpool_try_add_slot obj slot = Inr slot'"
    "slot_queue slot' = slot_queue slot @ [obj]" "slot_ok nr slot'"
proof -
  obtain k where size: "ring_size slot k" "unat nr \<le> 2 ^ k" and tl: "tail slot = last slot"
    using ok by (auto simp: slot_ok_def)
  let ?n = "unat (last slot - head slot)"
  let ?i = "unat (last slot AND mask slot)"
  let ?s = "slot\<lparr>tail := last slot + 1, entries := (entries slot)[?i := obj], last := last slot + 1\<rparr>"
  have n: "?n < unat nr" using room by (simp add: length_slot_queue)
  have k: "k < 32" using size by (simp add: ring_size_def)
  have i: "?i < length (entries slot)" by (rule ring_in_bounds [OF size(1)])
  have add: "objpool_try_add_slot obj slot = Inr ?s"
    using i tl by (simp add: objpool_try_add_slot_def Let_def)
  have "unat (last slot - head slot + 1) = Suc ?n"
    using n unat_less_32 [of nr] by (simp add: unat_plus_one_32)
  then have len: "unat (last ?s - head ?s) = Suc ?n"
    by (simp add: diff_add_eq)
  have old: "ring_at ?s (head slot + word_of_nat j) = ring_at slot (head slot + word_of_nat j)"
    if "j < ?n" for j
    using ring_at_update_other [OF size(1) _ that, of "last slot + 1" "head slot" obj "last slot + 1"] n size(2)
    by simp
  have new: "ring_at ?s (last slot) = obj"
    using i by (simp add: ring_at_def)
  have "slot_queue ?s = slot_queue slot @ [obj]"
    unfolding slot_queue_def len upt_Suc_append [OF le0] map_append
    using old new by simp
  moreover have "slot_ok nr ?s"
    using size n len by (auto simp: slot_ok_def ring_size_def)
  ultimately show thesis using add by (intro that)
qed

text \<open>A get from a well-formed slot never spins: it takes the oldest object.\<close>

lemma get_slot_empty:
  "slot_queue slot = [] \<Longrightarrow> objpool_try_get_slot nr slot = Inr (0, slot)"
  by (auto simp: slot_queue_def objpool_try_get_slot_def unat_eq_0)

lemma get_slot_takes_oldest:
  assumes ok: "slot_ok nr slot" and q: "slot_queue slot = obj # rest"
  obtains slot' where "objpool_try_get_slot nr slot = Inr (obj, slot')"
    "slot_queue slot' = rest" "slot_ok nr slot'"
proof -
  let ?s = "slot\<lparr>head := head slot + 1\<rparr>"
  let ?n = "unat (last slot - head slot)"
  have n: "?n = Suc (length rest)" using q length_slot_queue [of slot] by simp
  then have ne: "head slot \<noteq> last slot" by auto
  have len: "unat (last slot - head slot - 1) = length rest"
    using n ne by (simp add: unat_minus_one)
  have "length rest < unat nr" using ok n by (simp add: slot_ok_def)
  then have "\<not> nr \<le> last slot - head slot - 1"
    by (simp add: word_le_nat_alt len)
  moreover have first: "ring_at slot (head slot) = obj"
    using q n by (simp add: slot_queue_def upt_conv_Cons del: upt_Suc)
  ultimately have get: "objpool_try_get_slot nr slot = Inr (obj, ?s)"
    using ne slot_ok_in_bounds [OF ok] by (simp add: objpool_try_get_slot_def Let_def ring_at_def)
  have len': "unat (last ?s - head ?s) = length rest"
    using len by (simp add: diff_diff_add [symmetric])
  have "rest = map (\<lambda>i. ring_at slot (head slot + word_of_nat i)) [Suc 0..<Suc (length rest)]"
    using q n by (simp add: slot_queue_def upt_conv_Cons del: upt_Suc)
  also have "\<dots> = map (\<lambda>i. ring_at slot (head slot + 1 + word_of_nat i)) [0..<length rest]"
    by (simp add: map_Suc_upt [symmetric] add.assoc del: upt_Suc)
  finally have "slot_queue ?s = rest"
    unfolding slot_queue_def len' by (simp add: ring_at_def)
  moreover have "slot_ok nr ?s"
    using ok n len' by (auto simp: slot_ok_def ring_size_def)
  ultimately show thesis using get by (intro that)
qed

subsection \<open>The queue contract\<close>

text \<open>
  What a client of a slot relies on: a bounded first-in first-out queue of non-null objects.
\<close>

locale bounded_fifo =
  fixes contents :: "'s \<Rightarrow> 'a list"
    and ok :: "'s \<Rightarrow> bool"
    and room :: nat
    and enq :: "'a \<Rightarrow> 's \<Rightarrow> 's option"
    and deq :: "'s \<Rightarrow> ('a \<times> 's) option"
  assumes enq_appends: "ok s \<Longrightarrow> length (contents s) < room \<Longrightarrow>
      \<exists>s'. enq x s = Some s' \<and> contents s' = contents s @ [x] \<and> ok s'"
    and deq_takes: "ok s \<Longrightarrow> contents s = x # xs \<Longrightarrow>
      \<exists>s'. deq s = Some (x, s') \<and> contents s' = xs \<and> ok s'"
begin

fun enq_all :: "'a list \<Rightarrow> 's \<Rightarrow> 's option" where
  "enq_all [] s = Some s"
| "enq_all (x # xs) s = (case enq x s of None \<Rightarrow> None | Some s' \<Rightarrow> enq_all xs s')"

fun deq_all :: "nat \<Rightarrow> 's \<Rightarrow> ('a list \<times> 's) option" where
  "deq_all 0 s = Some ([], s)"
| "deq_all (Suc n) s = (case deq s of None \<Rightarrow> None
     | Some (x, s') \<Rightarrow> (case deq_all n s' of None \<Rightarrow> None | Some (xs, s'') \<Rightarrow> Some (x # xs, s'')))"

lemma enq_all_fills:
  "ok s \<Longrightarrow> length (contents s) + length xs \<le> room \<Longrightarrow>
   \<exists>s'. enq_all xs s = Some s' \<and> contents s' = contents s @ xs \<and> ok s'"
proof (induction xs arbitrary: s)
  case (Cons x xs)
  obtain s1 where s1: "enq x s = Some s1" "contents s1 = contents s @ [x]" "ok s1"
    using enq_appends [of s x] Cons.prems by auto
  show ?case using Cons.IH [OF s1(3)] Cons.prems(2) s1 by auto
qed simp

lemma deq_all_drains:
  "ok s \<Longrightarrow> contents s = xs @ ys \<Longrightarrow>
   \<exists>s'. deq_all (length xs) s = Some (xs, s') \<and> contents s' = ys \<and> ok s'"
proof (induction xs arbitrary: s)
  case (Cons x xs)
  obtain s1 where s1: "deq s = Some (x, s1)" "contents s1 = xs @ ys" "ok s1"
    using deq_takes [of s x "xs @ ys"] Cons.prems by auto
  show ?case using Cons.IH [OF s1(3,2)] s1 by auto
qed simp

text \<open>Objects come out in the order they went in.\<close>

lemma in_order:
  assumes "ok s" "contents s = []" "length xs \<le> room"
  shows "\<exists>s1 s2. enq_all xs s = Some s1 \<and> deq_all (length xs) s1 = Some (xs, s2) \<and> contents s2 = []"
proof -
  obtain s1 where s1: "enq_all xs s = Some s1" "contents s1 = xs" "ok s1"
    using enq_all_fills [OF assms(1), of xs] assms(2,3) by auto
  obtain s2 where "deq_all (length xs) s1 = Some (xs, s2)" "contents s2 = []"
    using deq_all_drains [OF s1(3), of xs "[]"] s1(2) by auto
  with s1 show ?thesis by blast
qed

end

fun opt_of :: "pool_fault + 'a \<Rightarrow> 'a option" where
  "opt_of (Inl e) = None"
| "opt_of (Inr x) = Some x"

interpretation slot_fifo: bounded_fifo slot_queue "slot_ok nr" "unat nr"
  "\<lambda>obj s. opt_of (objpool_try_add_slot obj s)" "\<lambda>s. opt_of (objpool_try_get_slot nr s)" for nr
proof
  fix s x
  assume "slot_ok nr s" "length (slot_queue s) < unat nr"
  then show "\<exists>s'. opt_of (objpool_try_add_slot x s) = Some s' \<and>
      slot_queue s' = slot_queue s @ [x] \<and> slot_ok nr s'"
    by (rule add_slot_appends [of nr s x]) simp
next
  fix s x xs
  assume "slot_ok nr s" "slot_queue s = x # xs"
  then show "\<exists>s'. opt_of (objpool_try_get_slot nr s) = Some (x, s') \<and>
      slot_queue s' = xs \<and> slot_ok nr s'"
    by (rule get_slot_takes_oldest) simp
qed

subsection \<open>The pool\<close>

text \<open>
  All objects in the pool, whichever CPU's slot they sit in. \<open>pool_ok\<close>: every slot is well
  formed and holds no null pointer, and the CPUs visited from any CPU stay inside the array.
\<close>

definition pool_objects :: "objpool_head \<Rightarrow> u64 multiset" where
  "pool_objects pool = (\<Sum>s\<leftarrow>cpu_slots pool. mset (slot_queue s))"

definition pool_ok :: "(nat \<Rightarrow> nat) \<Rightarrow> objpool_head \<Rightarrow> bool" where
  "pool_ok next_cpu pool \<longleftrightarrow>
     (\<forall>s \<in> set (cpu_slots pool). slot_ok (nr_objs pool) s \<and> 0 \<notin> set (slot_queue s)) \<and>
     (\<forall>c < length (cpu_slots pool). next_cpu c < length (cpu_slots pool))"

lemma sum_list_update_mset:
  "i < length xs \<Longrightarrow> (\<Sum>x\<leftarrow>xs[i := y]. f x) + f (xs ! i) = (\<Sum>x\<leftarrow>xs. f x) + (f y :: 'a multiset)"
proof (induction xs arbitrary: i)
  case (Cons x xs)
  show ?case
  proof (cases i)
    case (Suc j)
    have "(\<Sum>x\<leftarrow>xs[j := y]. f x) + f (xs ! j) = (\<Sum>x\<leftarrow>xs. f x) + f y"
      using Cons by (simp add: Suc)
    then show ?thesis by (simp add: Suc add.assoc)
  qed (simp add: add.commute add.left_commute)
qed simp

lemma pool_objects_update:
  assumes "i < length (cpu_slots pool)"
    and "mset (slot_queue s) + A = mset (slot_queue (cpu_slots pool ! i)) + B"
  shows "pool_objects (pool\<lparr>cpu_slots := (cpu_slots pool)[i := s]\<rparr>) + A = pool_objects pool + B"
proof -
  let ?f = "\<lambda>s. mset (slot_queue s)"
  have "pool_objects (pool\<lparr>cpu_slots := (cpu_slots pool)[i := s]\<rparr>) + ?f (cpu_slots pool ! i) =
      pool_objects pool + ?f s"
    using sum_list_update_mset [OF assms(1), of ?f s] by (simp add: pool_objects_def)
  then have "(pool_objects (pool\<lparr>cpu_slots := (cpu_slots pool)[i := s]\<rparr>) + A) + ?f (cpu_slots pool ! i) =
      (pool_objects pool + B) + ?f (cpu_slots pool ! i)"
    using assms(2) by (metis (no_types, lifting) add.assoc add.commute)
  then show ?thesis by simp
qed

lemma pool_ok_update:
  assumes "pool_ok next_cpu pool" "slot_ok (nr_objs pool) s" "0 \<notin> set (slot_queue s)"
  shows "pool_ok next_cpu (pool\<lparr>cpu_slots := (cpu_slots pool)[i := s]\<rparr>)"
  using assms set_update_subset_insert [of "cpu_slots pool" i s]
  by (auto simp: pool_ok_def)

lemma pool_ok_nth:
  "pool_ok next_cpu pool \<Longrightarrow> i < length (cpu_slots pool) \<Longrightarrow>
   slot_ok (nr_objs pool) (cpu_slots pool ! i) \<and> 0 \<notin> set (slot_queue (cpu_slots pool ! i))"
  by (simp add: pool_ok_def)

text \<open>
  A pop visits at most \<open>n\<close> CPUs from \<open>cpu\<close> on. It never faults; it returns an object it took
  out of the pool, or null with the pool as it was, and then every slot it visited is empty.
\<close>

lemma pop_loop:
  "pool_ok next_cpu pool \<Longrightarrow> cpu < length (cpu_slots pool) \<Longrightarrow>
   \<exists>obj pool'. objpool_pop_loop next_cpu n cpu pool = Inr (obj, pool') \<and> pool_ok next_cpu pool' \<and>
     length (cpu_slots pool') = length (cpu_slots pool) \<and> nr_objs pool' = nr_objs pool \<and>
     (if obj = 0
      then pool' = pool \<and> (\<forall>j < n. slot_queue (cpu_slots pool ! ((next_cpu ^^ j) cpu)) = [])
      else pool_objects pool = pool_objects pool' + {#obj#})"
proof (induction n arbitrary: cpu)
  case 0
  then show ?case by auto
next
  case (Suc n)
  let ?s = "cpu_slots pool ! cpu"
  have ok: "slot_ok (nr_objs pool) ?s" "0 \<notin> set (slot_queue ?s)"
    using pool_ok_nth [OF Suc.prems] by auto
  show ?case
  proof (cases "slot_queue ?s")
    case Nil
    have there: "next_cpu cpu < length (cpu_slots pool)"
      using Suc.prems by (simp add: pool_ok_def)
    have step: "objpool_pop_loop next_cpu (Suc n) cpu pool = objpool_pop_loop next_cpu n (next_cpu cpu) pool"
      using get_slot_empty [OF Nil] Suc.prems(2) by simp
    have visited: "(\<forall>j < Suc n. slot_queue (cpu_slots pool ! ((next_cpu ^^ j) cpu)) = []) \<longleftrightarrow>
        (\<forall>j < n. slot_queue (cpu_slots pool ! ((next_cpu ^^ j) (next_cpu cpu))) = [])"
      using Nil by (simp add: All_less_Suc2 funpow_swap1)
    show ?thesis
      unfolding step visited by (rule Suc.IH [OF Suc.prems(1) there])
  next
    case (Cons obj rest)
    obtain slot where slot: "objpool_try_get_slot (nr_objs pool) ?s = Inr (obj, slot)"
      "slot_queue slot = rest" "slot_ok (nr_objs pool) slot"
      by (rule get_slot_takes_oldest [OF ok(1) Cons])
    let ?pool = "pool\<lparr>cpu_slots := (cpu_slots pool)[cpu := slot]\<rparr>"
    have nz: "obj \<noteq> 0" "0 \<notin> set rest" using ok(2) Cons by auto
    have "objpool_pop_loop next_cpu (Suc n) cpu pool = Inr (obj, ?pool)"
      using slot(1) Suc.prems(2) nz by simp
    moreover have "pool_ok next_cpu ?pool"
      using pool_ok_update [OF Suc.prems(1) slot(3)] slot(2) nz by simp
    moreover have "pool_objects ?pool + {#obj#} = pool_objects pool + {#}"
      by (rule pool_objects_update [OF Suc.prems(2)]) (simp add: slot(2) Cons)
    ultimately show ?thesis using nz by simp
  qed
qed

lemma push_result:
  assumes "pool_ok next_cpu pool" "cpu < length (cpu_slots pool)" "obj \<noteq> 0"
    and "length (slot_queue (cpu_slots pool ! cpu)) < unat (nr_objs pool)"
  obtains pool' where "objpool_push cpu obj pool = Inr (0, pool')" "pool_ok next_cpu pool'"
    "pool_objects pool' = pool_objects pool + {#obj#}" "nr_objs pool' = nr_objs pool"
    "length (cpu_slots pool') = length (cpu_slots pool)"
proof -
  let ?s = "cpu_slots pool ! cpu"
  have ok: "slot_ok (nr_objs pool) ?s" "0 \<notin> set (slot_queue ?s)"
    using pool_ok_nth [OF assms(1,2)] by auto
  obtain slot where slot: "objpool_try_add_slot obj ?s = Inr slot"
    "slot_queue slot = slot_queue ?s @ [obj]" "slot_ok (nr_objs pool) slot"
    by (rule add_slot_appends [OF ok(1) assms(4)])
  let ?pool = "pool\<lparr>cpu_slots := (cpu_slots pool)[cpu := slot]\<rparr>"
  have "pool_objects ?pool + {#} = pool_objects pool + {#obj#}"
    by (rule pool_objects_update [OF assms(2)]) (simp add: slot(2))
  then show thesis
    using slot assms(2,3) ok(2) pool_ok_update [OF assms(1) slot(3)]
    by (intro that [of ?pool]) (simp_all add: objpool_push_def)
qed

text \<open>One object per push and pop: the size of the pool bounds every slot.\<close>

lemma slot_queue_in_pool:
  "s \<in> set (cpu_slots pool) \<Longrightarrow> mset (slot_queue s) \<subseteq># pool_objects pool"
proof -
  have "x \<in> set xs \<Longrightarrow> f x \<subseteq># (\<Sum>x\<leftarrow>xs. f x)" for x :: objpool_slot and xs and f :: "_ \<Rightarrow> u64 multiset"
    by (induction xs) (auto intro: subset_mset.add_increasing2 subset_mset.add_increasing)
  then show "s \<in> set (cpu_slots pool) \<Longrightarrow> mset (slot_queue s) \<subseteq># pool_objects pool"
    by (simp add: pool_objects_def)
qed

end
