(* ===== verification/Atomic_Arch.thy ===== *)
theory Atomic_Arch
  imports Prelude
begin

text \<open>
  Atomic read-modify-write operations of arm64: kheaders/arch/arm64/include/asm/atomic_lse.h
  (one instruction each, with subtraction and conjunction derived from the instructions that
  exist), atomic_ll_sc.h (load-exclusive/store-exclusive loops for CPUs without them), lse.h
  (the choice between the two) and atomic.h, cmpxchg.h (what the generic code calls).

  An operation acts on one memory cell, which other CPUs may change at any time up to the
  instruction that does the access. Its outcome is the value it returns, the value it leaves
  in the cell and the ordering of the access it made; \<open>unit\<close> stands for \<open>void\<close>. The
  list of tries holds what each pass through a loop finds: the cell's value, and whether the
  store-exclusive succeeds (by the architecture only when nothing wrote the cell in between).
  \<open>None\<close> is a loop still running when the list ends.
\<close>

subsection \<open>Instructions\<close>

datatype mem_order = Relaxed | Acquire | Release | Full

definition at_least :: "mem_order \<Rightarrow> mem_order \<Rightarrow> bool" where
  "at_least got wanted \<longleftrightarrow> got = wanted \<or> got = Full \<or> wanted = Relaxed"

type_synonym s64 = "64 word"
type_synonym 'n tries = "('n word \<times> bool) list"
type_synonym ('r, 'n) outcome = "'r \<times> 'n word \<times> mem_order"

fun map_result :: "('r \<Rightarrow> 's) \<Rightarrow> ('r, 'n) outcome \<Rightarrow> ('s, 'n) outcome" where
  "map_result f (r, new, ord) = (f r, new, ord)"

definition no_result :: "('r, 'n) outcome \<Rightarrow> (unit, 'n) outcome" where
  "no_result = map_result (\<lambda>_. ())"

text \<open>The single-copy atomic instructions: they return the old value.\<close>

definition LDADD :: "mem_order \<Rightarrow> 'n::len word \<Rightarrow> 'n word \<Rightarrow> ('n word, 'n) outcome" where
  "LDADD ord i v = (v, v + i, ord)"

definition LDCLR :: "mem_order \<Rightarrow> 'n::len word \<Rightarrow> 'n word \<Rightarrow> ('n word, 'n) outcome" where
  "LDCLR ord i v = (v, v AND NOT i, ord)"

definition LDSET :: "mem_order \<Rightarrow> 'n::len word \<Rightarrow> 'n word \<Rightarrow> ('n word, 'n) outcome" where
  "LDSET ord i v = (v, v OR i, ord)"

definition LDEOR :: "mem_order \<Rightarrow> 'n::len word \<Rightarrow> 'n word \<Rightarrow> ('n word, 'n) outcome" where
  "LDEOR ord i v = (v, v XOR i, ord)"

definition SWP :: "mem_order \<Rightarrow> 'n::len word \<Rightarrow> 'n word \<Rightarrow> ('n word, 'n) outcome" where
  "SWP ord x v = (v, x, ord)"

definition CAS :: "mem_order \<Rightarrow> 'n::len word \<Rightarrow> 'n word \<Rightarrow> 'n word \<Rightarrow> ('n word, 'n) outcome" where
  "CAS ord old new v = (v, if v = old then new else v, ord)"

text \<open>A load-exclusive/store-exclusive loop: the value loaded and the value stored.\<close>

fun exclusive :: "('n::len word \<Rightarrow> 'n word) \<Rightarrow> 'n tries \<Rightarrow> ('n word \<times> 'n word) option" where
  "exclusive f [] = None"
| "exclusive f ((v, stored) # ts) = (if stored then Some (v, f v) else exclusive f ts)"

definition lse_ll_sc_body ::
  "bool \<Rightarrow> ('n word \<Rightarrow> ('r, 'n) outcome) \<Rightarrow> ('n tries \<Rightarrow> ('r, 'n) outcome option) \<Rightarrow>
   'n tries \<Rightarrow> ('r, 'n) outcome option" where
  "lse_ll_sc_body lse f g ts =
     (if lse then (case ts of [] \<Rightarrow> None | (v, _) # _ \<Rightarrow> Some (f v)) else g ts)"

subsection \<open>32-bit operations, single instructions\<close>

definition lse_atomic_andnot :: "s32 \<Rightarrow> s32 \<Rightarrow> (unit, 32) outcome" where
  "lse_atomic_andnot i v = no_result (LDCLR Relaxed i v)"

definition lse_atomic_or :: "s32 \<Rightarrow> s32 \<Rightarrow> (unit, 32) outcome" where
  "lse_atomic_or i v = no_result (LDSET Relaxed i v)"

definition lse_atomic_xor :: "s32 \<Rightarrow> s32 \<Rightarrow> (unit, 32) outcome" where
  "lse_atomic_xor i v = no_result (LDEOR Relaxed i v)"

definition lse_atomic_add :: "s32 \<Rightarrow> s32 \<Rightarrow> (unit, 32) outcome" where
  "lse_atomic_add i v = no_result (LDADD Relaxed i v)"

definition lse_atomic_sub :: "s32 \<Rightarrow> s32 \<Rightarrow> (unit, 32) outcome" where
  "lse_atomic_sub i v = lse_atomic_add (- i) v"

definition lse_atomic_fetch_andnot :: "mem_order \<Rightarrow> s32 \<Rightarrow> s32 \<Rightarrow> (s32, 32) outcome" where
  "lse_atomic_fetch_andnot ord i v = LDCLR ord i v"

definition lse_atomic_fetch_or :: "mem_order \<Rightarrow> s32 \<Rightarrow> s32 \<Rightarrow> (s32, 32) outcome" where
  "lse_atomic_fetch_or ord i v = LDSET ord i v"

definition lse_atomic_fetch_xor :: "mem_order \<Rightarrow> s32 \<Rightarrow> s32 \<Rightarrow> (s32, 32) outcome" where
  "lse_atomic_fetch_xor ord i v = LDEOR ord i v"

definition lse_atomic_fetch_add :: "mem_order \<Rightarrow> s32 \<Rightarrow> s32 \<Rightarrow> (s32, 32) outcome" where
  "lse_atomic_fetch_add ord i v = LDADD ord i v"

definition lse_atomic_fetch_sub :: "mem_order \<Rightarrow> s32 \<Rightarrow> s32 \<Rightarrow> (s32, 32) outcome" where
  "lse_atomic_fetch_sub ord i v = lse_atomic_fetch_add ord (- i) v"

definition lse_atomic_add_return :: "mem_order \<Rightarrow> s32 \<Rightarrow> s32 \<Rightarrow> (s32, 32) outcome" where
  "lse_atomic_add_return ord i v = map_result (\<lambda>r. r + i) (lse_atomic_fetch_add ord i v)"

definition lse_atomic_sub_return :: "mem_order \<Rightarrow> s32 \<Rightarrow> s32 \<Rightarrow> (s32, 32) outcome" where
  "lse_atomic_sub_return ord i v = map_result (\<lambda>r. r - i) (lse_atomic_fetch_sub Full i v)"

definition lse_atomic_and :: "s32 \<Rightarrow> s32 \<Rightarrow> (unit, 32) outcome" where
  "lse_atomic_and i v = lse_atomic_andnot (NOT i) v"

definition lse_atomic_fetch_and :: "mem_order \<Rightarrow> s32 \<Rightarrow> s32 \<Rightarrow> (s32, 32) outcome" where
  "lse_atomic_fetch_and ord i v = lse_atomic_fetch_andnot ord (NOT i) v"

subsection \<open>32-bit operations, exclusive loops\<close>

definition ll_sc_atomic_add :: "s32 \<Rightarrow> 32 tries \<Rightarrow> (unit, 32) outcome option" where
  "ll_sc_atomic_add i ts = map_option (\<lambda>(old, new). ((), new, Relaxed)) (exclusive (\<lambda>v. v + i) ts)"

definition ll_sc_atomic_fetch_add :: "mem_order \<Rightarrow> s32 \<Rightarrow> 32 tries \<Rightarrow> (s32, 32) outcome option" where
  "ll_sc_atomic_fetch_add ord i ts = map_option (\<lambda>(old, new). (old, new, ord)) (exclusive (\<lambda>v. v + i) ts)"

definition ll_sc_atomic_sub :: "s32 \<Rightarrow> 32 tries \<Rightarrow> (unit, 32) outcome option" where
  "ll_sc_atomic_sub i ts = map_option (\<lambda>(old, new). ((), new, Relaxed)) (exclusive (\<lambda>v. v - i) ts)"

definition ll_sc_atomic_fetch_sub :: "mem_order \<Rightarrow> s32 \<Rightarrow> 32 tries \<Rightarrow> (s32, 32) outcome option" where
  "ll_sc_atomic_fetch_sub ord i ts = map_option (\<lambda>(old, new). (old, new, ord)) (exclusive (\<lambda>v. v - i) ts)"

definition ll_sc_atomic_and :: "s32 \<Rightarrow> 32 tries \<Rightarrow> (unit, 32) outcome option" where
  "ll_sc_atomic_and i ts = map_option (\<lambda>(old, new). ((), new, Relaxed)) (exclusive (\<lambda>v. v AND i) ts)"

definition ll_sc_atomic_fetch_and :: "mem_order \<Rightarrow> s32 \<Rightarrow> 32 tries \<Rightarrow> (s32, 32) outcome option" where
  "ll_sc_atomic_fetch_and ord i ts = map_option (\<lambda>(old, new). (old, new, ord)) (exclusive (\<lambda>v. v AND i) ts)"

definition ll_sc_atomic_or :: "s32 \<Rightarrow> 32 tries \<Rightarrow> (unit, 32) outcome option" where
  "ll_sc_atomic_or i ts = map_option (\<lambda>(old, new). ((), new, Relaxed)) (exclusive (\<lambda>v. v OR i) ts)"

definition ll_sc_atomic_fetch_or :: "mem_order \<Rightarrow> s32 \<Rightarrow> 32 tries \<Rightarrow> (s32, 32) outcome option" where
  "ll_sc_atomic_fetch_or ord i ts = map_option (\<lambda>(old, new). (old, new, ord)) (exclusive (\<lambda>v. v OR i) ts)"

definition ll_sc_atomic_xor :: "s32 \<Rightarrow> 32 tries \<Rightarrow> (unit, 32) outcome option" where
  "ll_sc_atomic_xor i ts = map_option (\<lambda>(old, new). ((), new, Relaxed)) (exclusive (\<lambda>v. v XOR i) ts)"

definition ll_sc_atomic_fetch_xor :: "mem_order \<Rightarrow> s32 \<Rightarrow> 32 tries \<Rightarrow> (s32, 32) outcome option" where
  "ll_sc_atomic_fetch_xor ord i ts = map_option (\<lambda>(old, new). (old, new, ord)) (exclusive (\<lambda>v. v XOR i) ts)"

definition ll_sc_atomic_andnot :: "s32 \<Rightarrow> 32 tries \<Rightarrow> (unit, 32) outcome option" where
  "ll_sc_atomic_andnot i ts = map_option (\<lambda>(old, new). ((), new, Relaxed)) (exclusive (\<lambda>v. v AND NOT i) ts)"

definition ll_sc_atomic_fetch_andnot :: "mem_order \<Rightarrow> s32 \<Rightarrow> 32 tries \<Rightarrow> (s32, 32) outcome option" where
  "ll_sc_atomic_fetch_andnot ord i ts = map_option (\<lambda>(old, new). (old, new, ord)) (exclusive (\<lambda>v. v AND NOT i) ts)"

definition ll_sc_atomic_add_return :: "mem_order \<Rightarrow> s32 \<Rightarrow> 32 tries \<Rightarrow> (s32, 32) outcome option" where
  "ll_sc_atomic_add_return ord i ts = map_option (\<lambda>(old, new). (new, new, ord)) (exclusive (\<lambda>v. v + i) ts)"

definition ll_sc_atomic_sub_return :: "mem_order \<Rightarrow> s32 \<Rightarrow> 32 tries \<Rightarrow> (s32, 32) outcome option" where
  "ll_sc_atomic_sub_return ord i ts = map_option (\<lambda>(old, new). (new, new, ord)) (exclusive (\<lambda>v. v - i) ts)"

subsection \<open>The 32-bit operations of atomic.h\<close>

definition arch_atomic_andnot :: "bool \<Rightarrow> s32 \<Rightarrow> 32 tries \<Rightarrow> (unit, 32) outcome option" where
  "arch_atomic_andnot lse i = lse_ll_sc_body lse (lse_atomic_andnot i) (ll_sc_atomic_andnot i)"

definition arch_atomic_or :: "bool \<Rightarrow> s32 \<Rightarrow> 32 tries \<Rightarrow> (unit, 32) outcome option" where
  "arch_atomic_or lse i = lse_ll_sc_body lse (lse_atomic_or i) (ll_sc_atomic_or i)"

definition arch_atomic_xor :: "bool \<Rightarrow> s32 \<Rightarrow> 32 tries \<Rightarrow> (unit, 32) outcome option" where
  "arch_atomic_xor lse i = lse_ll_sc_body lse (lse_atomic_xor i) (ll_sc_atomic_xor i)"

definition arch_atomic_add :: "bool \<Rightarrow> s32 \<Rightarrow> 32 tries \<Rightarrow> (unit, 32) outcome option" where
  "arch_atomic_add lse i = lse_ll_sc_body lse (lse_atomic_add i) (ll_sc_atomic_add i)"

definition arch_atomic_and :: "bool \<Rightarrow> s32 \<Rightarrow> 32 tries \<Rightarrow> (unit, 32) outcome option" where
  "arch_atomic_and lse i = lse_ll_sc_body lse (lse_atomic_and i) (ll_sc_atomic_and i)"

definition arch_atomic_sub :: "bool \<Rightarrow> s32 \<Rightarrow> 32 tries \<Rightarrow> (unit, 32) outcome option" where
  "arch_atomic_sub lse i = lse_ll_sc_body lse (lse_atomic_sub i) (ll_sc_atomic_sub i)"

definition arch_atomic_fetch_andnot :: "bool \<Rightarrow> mem_order \<Rightarrow> s32 \<Rightarrow> 32 tries \<Rightarrow> (s32, 32) outcome option" where
  "arch_atomic_fetch_andnot lse ord i = lse_ll_sc_body lse (lse_atomic_fetch_andnot ord i) (ll_sc_atomic_fetch_andnot ord i)"

definition arch_atomic_fetch_or :: "bool \<Rightarrow> mem_order \<Rightarrow> s32 \<Rightarrow> 32 tries \<Rightarrow> (s32, 32) outcome option" where
  "arch_atomic_fetch_or lse ord i = lse_ll_sc_body lse (lse_atomic_fetch_or ord i) (ll_sc_atomic_fetch_or ord i)"

definition arch_atomic_fetch_xor :: "bool \<Rightarrow> mem_order \<Rightarrow> s32 \<Rightarrow> 32 tries \<Rightarrow> (s32, 32) outcome option" where
  "arch_atomic_fetch_xor lse ord i = lse_ll_sc_body lse (lse_atomic_fetch_xor ord i) (ll_sc_atomic_fetch_xor ord i)"

definition arch_atomic_fetch_add :: "bool \<Rightarrow> mem_order \<Rightarrow> s32 \<Rightarrow> 32 tries \<Rightarrow> (s32, 32) outcome option" where
  "arch_atomic_fetch_add lse ord i = lse_ll_sc_body lse (lse_atomic_fetch_add ord i) (ll_sc_atomic_fetch_add ord i)"

definition arch_atomic_fetch_and :: "bool \<Rightarrow> mem_order \<Rightarrow> s32 \<Rightarrow> 32 tries \<Rightarrow> (s32, 32) outcome option" where
  "arch_atomic_fetch_and lse ord i = lse_ll_sc_body lse (lse_atomic_fetch_and ord i) (ll_sc_atomic_fetch_and ord i)"

definition arch_atomic_fetch_sub :: "bool \<Rightarrow> mem_order \<Rightarrow> s32 \<Rightarrow> 32 tries \<Rightarrow> (s32, 32) outcome option" where
  "arch_atomic_fetch_sub lse ord i = lse_ll_sc_body lse (lse_atomic_fetch_sub ord i) (ll_sc_atomic_fetch_sub ord i)"

definition arch_atomic_add_return :: "bool \<Rightarrow> mem_order \<Rightarrow> s32 \<Rightarrow> 32 tries \<Rightarrow> (s32, 32) outcome option" where
  "arch_atomic_add_return lse ord i = lse_ll_sc_body lse (lse_atomic_add_return ord i) (ll_sc_atomic_add_return ord i)"

definition arch_atomic_sub_return :: "bool \<Rightarrow> mem_order \<Rightarrow> s32 \<Rightarrow> 32 tries \<Rightarrow> (s32, 32) outcome option" where
  "arch_atomic_sub_return lse ord i = lse_ll_sc_body lse (lse_atomic_sub_return ord i) (ll_sc_atomic_sub_return ord i)"

subsection \<open>64-bit operations, single instructions\<close>

definition lse_atomic64_andnot :: "s64 \<Rightarrow> s64 \<Rightarrow> (unit, 64) outcome" where
  "lse_atomic64_andnot i v = no_result (LDCLR Relaxed i v)"

definition lse_atomic64_or :: "s64 \<Rightarrow> s64 \<Rightarrow> (unit, 64) outcome" where
  "lse_atomic64_or i v = no_result (LDSET Relaxed i v)"

definition lse_atomic64_xor :: "s64 \<Rightarrow> s64 \<Rightarrow> (unit, 64) outcome" where
  "lse_atomic64_xor i v = no_result (LDEOR Relaxed i v)"

definition lse_atomic64_add :: "s64 \<Rightarrow> s64 \<Rightarrow> (unit, 64) outcome" where
  "lse_atomic64_add i v = no_result (LDADD Relaxed i v)"

definition lse_atomic64_sub :: "s64 \<Rightarrow> s64 \<Rightarrow> (unit, 64) outcome" where
  "lse_atomic64_sub i v = lse_atomic64_add (- i) v"

definition lse_atomic64_fetch_andnot :: "mem_order \<Rightarrow> s64 \<Rightarrow> s64 \<Rightarrow> (s64, 64) outcome" where
  "lse_atomic64_fetch_andnot ord i v = LDCLR ord i v"

definition lse_atomic64_fetch_or :: "mem_order \<Rightarrow> s64 \<Rightarrow> s64 \<Rightarrow> (s64, 64) outcome" where
  "lse_atomic64_fetch_or ord i v = LDSET ord i v"

definition lse_atomic64_fetch_xor :: "mem_order \<Rightarrow> s64 \<Rightarrow> s64 \<Rightarrow> (s64, 64) outcome" where
  "lse_atomic64_fetch_xor ord i v = LDEOR ord i v"

definition lse_atomic64_fetch_add :: "mem_order \<Rightarrow> s64 \<Rightarrow> s64 \<Rightarrow> (s64, 64) outcome" where
  "lse_atomic64_fetch_add ord i v = LDADD ord i v"

definition lse_atomic64_fetch_sub :: "mem_order \<Rightarrow> s64 \<Rightarrow> s64 \<Rightarrow> (s64, 64) outcome" where
  "lse_atomic64_fetch_sub ord i v = lse_atomic64_fetch_add ord (- i) v"

definition lse_atomic64_add_return :: "mem_order \<Rightarrow> s64 \<Rightarrow> s64 \<Rightarrow> (s64, 64) outcome" where
  "lse_atomic64_add_return ord i v = map_result (\<lambda>r. r + i) (lse_atomic64_fetch_add ord i v)"

definition lse_atomic64_sub_return :: "mem_order \<Rightarrow> s64 \<Rightarrow> s64 \<Rightarrow> (s64, 64) outcome" where
  "lse_atomic64_sub_return ord i v = map_result (\<lambda>r. r - i) (lse_atomic64_fetch_sub ord i v)"

definition lse_atomic64_and :: "s64 \<Rightarrow> s64 \<Rightarrow> (unit, 64) outcome" where
  "lse_atomic64_and i v = lse_atomic64_andnot (NOT i) v"

definition lse_atomic64_fetch_and :: "mem_order \<Rightarrow> s64 \<Rightarrow> s64 \<Rightarrow> (s64, 64) outcome" where
  "lse_atomic64_fetch_and ord i v = lse_atomic64_fetch_andnot ord (NOT i) v"

subsection \<open>64-bit operations, exclusive loops\<close>

definition ll_sc_atomic64_add :: "s64 \<Rightarrow> 64 tries \<Rightarrow> (unit, 64) outcome option" where
  "ll_sc_atomic64_add i ts = map_option (\<lambda>(old, new). ((), new, Relaxed)) (exclusive (\<lambda>v. v + i) ts)"

definition ll_sc_atomic64_fetch_add :: "mem_order \<Rightarrow> s64 \<Rightarrow> 64 tries \<Rightarrow> (s64, 64) outcome option" where
  "ll_sc_atomic64_fetch_add ord i ts = map_option (\<lambda>(old, new). (old, new, ord)) (exclusive (\<lambda>v. v + i) ts)"

definition ll_sc_atomic64_sub :: "s64 \<Rightarrow> 64 tries \<Rightarrow> (unit, 64) outcome option" where
  "ll_sc_atomic64_sub i ts = map_option (\<lambda>(old, new). ((), new, Relaxed)) (exclusive (\<lambda>v. v - i) ts)"

definition ll_sc_atomic64_fetch_sub :: "mem_order \<Rightarrow> s64 \<Rightarrow> 64 tries \<Rightarrow> (s64, 64) outcome option" where
  "ll_sc_atomic64_fetch_sub ord i ts = map_option (\<lambda>(old, new). (old, new, ord)) (exclusive (\<lambda>v. v - i) ts)"

definition ll_sc_atomic64_and :: "s64 \<Rightarrow> 64 tries \<Rightarrow> (unit, 64) outcome option" where
  "ll_sc_atomic64_and i ts = map_option (\<lambda>(old, new). ((), new, Relaxed)) (exclusive (\<lambda>v. v AND i) ts)"

definition ll_sc_atomic64_fetch_and :: "mem_order \<Rightarrow> s64 \<Rightarrow> 64 tries \<Rightarrow> (s64, 64) outcome option" where
  "ll_sc_atomic64_fetch_and ord i ts = map_option (\<lambda>(old, new). (old, new, ord)) (exclusive (\<lambda>v. v AND i) ts)"

definition ll_sc_atomic64_or :: "s64 \<Rightarrow> 64 tries \<Rightarrow> (unit, 64) outcome option" where
  "ll_sc_atomic64_or i ts = map_option (\<lambda>(old, new). ((), new, Relaxed)) (exclusive (\<lambda>v. v OR i) ts)"

definition ll_sc_atomic64_fetch_or :: "mem_order \<Rightarrow> s64 \<Rightarrow> 64 tries \<Rightarrow> (s64, 64) outcome option" where
  "ll_sc_atomic64_fetch_or ord i ts = map_option (\<lambda>(old, new). (old, new, ord)) (exclusive (\<lambda>v. v OR i) ts)"

definition ll_sc_atomic64_xor :: "s64 \<Rightarrow> 64 tries \<Rightarrow> (unit, 64) outcome option" where
  "ll_sc_atomic64_xor i ts = map_option (\<lambda>(old, new). ((), new, Relaxed)) (exclusive (\<lambda>v. v XOR i) ts)"

definition ll_sc_atomic64_fetch_xor :: "mem_order \<Rightarrow> s64 \<Rightarrow> 64 tries \<Rightarrow> (s64, 64) outcome option" where
  "ll_sc_atomic64_fetch_xor ord i ts = map_option (\<lambda>(old, new). (old, new, ord)) (exclusive (\<lambda>v. v XOR i) ts)"

definition ll_sc_atomic64_andnot :: "s64 \<Rightarrow> 64 tries \<Rightarrow> (unit, 64) outcome option" where
  "ll_sc_atomic64_andnot i ts = map_option (\<lambda>(old, new). ((), new, Relaxed)) (exclusive (\<lambda>v. v AND NOT i) ts)"

definition ll_sc_atomic64_fetch_andnot :: "mem_order \<Rightarrow> s64 \<Rightarrow> 64 tries \<Rightarrow> (s64, 64) outcome option" where
  "ll_sc_atomic64_fetch_andnot ord i ts = map_option (\<lambda>(old, new). (old, new, ord)) (exclusive (\<lambda>v. v AND NOT i) ts)"

definition ll_sc_atomic64_add_return :: "mem_order \<Rightarrow> s64 \<Rightarrow> 64 tries \<Rightarrow> (s64, 64) outcome option" where
  "ll_sc_atomic64_add_return ord i ts = map_option (\<lambda>(old, new). (new, new, ord)) (exclusive (\<lambda>v. v + i) ts)"

definition ll_sc_atomic64_sub_return :: "mem_order \<Rightarrow> s64 \<Rightarrow> 64 tries \<Rightarrow> (s64, 64) outcome option" where
  "ll_sc_atomic64_sub_return ord i ts = map_option (\<lambda>(old, new). (new, new, ord)) (exclusive (\<lambda>v. v - i) ts)"

subsection \<open>The 64-bit operations of atomic.h\<close>

definition arch_atomic64_andnot :: "bool \<Rightarrow> s64 \<Rightarrow> 64 tries \<Rightarrow> (unit, 64) outcome option" where
  "arch_atomic64_andnot lse i = lse_ll_sc_body lse (lse_atomic64_andnot i) (ll_sc_atomic64_andnot i)"

definition arch_atomic64_or :: "bool \<Rightarrow> s64 \<Rightarrow> 64 tries \<Rightarrow> (unit, 64) outcome option" where
  "arch_atomic64_or lse i = lse_ll_sc_body lse (lse_atomic64_or i) (ll_sc_atomic64_or i)"

definition arch_atomic64_xor :: "bool \<Rightarrow> s64 \<Rightarrow> 64 tries \<Rightarrow> (unit, 64) outcome option" where
  "arch_atomic64_xor lse i = lse_ll_sc_body lse (lse_atomic64_xor i) (ll_sc_atomic64_xor i)"

definition arch_atomic64_add :: "bool \<Rightarrow> s64 \<Rightarrow> 64 tries \<Rightarrow> (unit, 64) outcome option" where
  "arch_atomic64_add lse i = lse_ll_sc_body lse (lse_atomic64_add i) (ll_sc_atomic64_add i)"

definition arch_atomic64_and :: "bool \<Rightarrow> s64 \<Rightarrow> 64 tries \<Rightarrow> (unit, 64) outcome option" where
  "arch_atomic64_and lse i = lse_ll_sc_body lse (lse_atomic64_and i) (ll_sc_atomic64_and i)"

definition arch_atomic64_sub :: "bool \<Rightarrow> s64 \<Rightarrow> 64 tries \<Rightarrow> (unit, 64) outcome option" where
  "arch_atomic64_sub lse i = lse_ll_sc_body lse (lse_atomic64_sub i) (ll_sc_atomic64_sub i)"

definition arch_atomic64_fetch_andnot :: "bool \<Rightarrow> mem_order \<Rightarrow> s64 \<Rightarrow> 64 tries \<Rightarrow> (s64, 64) outcome option" where
  "arch_atomic64_fetch_andnot lse ord i = lse_ll_sc_body lse (lse_atomic64_fetch_andnot ord i) (ll_sc_atomic64_fetch_andnot ord i)"

definition arch_atomic64_fetch_or :: "bool \<Rightarrow> mem_order \<Rightarrow> s64 \<Rightarrow> 64 tries \<Rightarrow> (s64, 64) outcome option" where
  "arch_atomic64_fetch_or lse ord i = lse_ll_sc_body lse (lse_atomic64_fetch_or ord i) (ll_sc_atomic64_fetch_or ord i)"

definition arch_atomic64_fetch_xor :: "bool \<Rightarrow> mem_order \<Rightarrow> s64 \<Rightarrow> 64 tries \<Rightarrow> (s64, 64) outcome option" where
  "arch_atomic64_fetch_xor lse ord i = lse_ll_sc_body lse (lse_atomic64_fetch_xor ord i) (ll_sc_atomic64_fetch_xor ord i)"

definition arch_atomic64_fetch_add :: "bool \<Rightarrow> mem_order \<Rightarrow> s64 \<Rightarrow> 64 tries \<Rightarrow> (s64, 64) outcome option" where
  "arch_atomic64_fetch_add lse ord i = lse_ll_sc_body lse (lse_atomic64_fetch_add ord i) (ll_sc_atomic64_fetch_add ord i)"

definition arch_atomic64_fetch_and :: "bool \<Rightarrow> mem_order \<Rightarrow> s64 \<Rightarrow> 64 tries \<Rightarrow> (s64, 64) outcome option" where
  "arch_atomic64_fetch_and lse ord i = lse_ll_sc_body lse (lse_atomic64_fetch_and ord i) (ll_sc_atomic64_fetch_and ord i)"

definition arch_atomic64_fetch_sub :: "bool \<Rightarrow> mem_order \<Rightarrow> s64 \<Rightarrow> 64 tries \<Rightarrow> (s64, 64) outcome option" where
  "arch_atomic64_fetch_sub lse ord i = lse_ll_sc_body lse (lse_atomic64_fetch_sub ord i) (ll_sc_atomic64_fetch_sub ord i)"

definition arch_atomic64_add_return :: "bool \<Rightarrow> mem_order \<Rightarrow> s64 \<Rightarrow> 64 tries \<Rightarrow> (s64, 64) outcome option" where
  "arch_atomic64_add_return lse ord i = lse_ll_sc_body lse (lse_atomic64_add_return ord i) (ll_sc_atomic64_add_return ord i)"

definition arch_atomic64_sub_return :: "bool \<Rightarrow> mem_order \<Rightarrow> s64 \<Rightarrow> 64 tries \<Rightarrow> (s64, 64) outcome option" where
  "arch_atomic64_sub_return lse ord i = lse_ll_sc_body lse (lse_atomic64_sub_return ord i) (ll_sc_atomic64_sub_return ord i)"

text \<open>\<open>lse\<close>: the load; \<open>subs\<close>, \<open>b.lt\<close>: leave without storing; \<open>casal\<close> succeeds or the loop repeats.\<close>

fun lse_atomic64_dec_if_positive :: "64 tries \<Rightarrow> (s64, 64) outcome option" where
  "lse_atomic64_dec_if_positive [] = None"
| "lse_atomic64_dec_if_positive ((v, unchanged) # ts) =
     (if v <s 1 then Some (v - 1, v, Relaxed)
      else if unchanged then Some (v - 1, v - 1, Full)
      else lse_atomic64_dec_if_positive ts)"

fun ll_sc_atomic64_dec_if_positive :: "64 tries \<Rightarrow> (s64, 64) outcome option" where
  "ll_sc_atomic64_dec_if_positive [] = None"
| "ll_sc_atomic64_dec_if_positive ((v, stored) # ts) =
     (if v <s 1 then Some (v - 1, v, Relaxed)
      else if stored then Some (v - 1, v - 1, Full)
      else ll_sc_atomic64_dec_if_positive ts)"

definition arch_atomic64_dec_if_positive :: "bool \<Rightarrow> 64 tries \<Rightarrow> (s64, 64) outcome option" where
  "arch_atomic64_dec_if_positive lse ts =
     (if lse then lse_atomic64_dec_if_positive ts else ll_sc_atomic64_dec_if_positive ts)"

subsection \<open>Exchange and compare-and-exchange\<close>

text \<open>
  The operations exist for 8, 16, 32 and 64 bits, one instance of a macro each, and the size
  dispatch picks the instance of the operand's type; the definitions are for any width.
\<close>

definition xchg_case :: "bool \<Rightarrow> mem_order \<Rightarrow> 'n::len word \<Rightarrow> 'n tries \<Rightarrow> ('n word, 'n) outcome option" where
  "xchg_case lse ord x =
     lse_ll_sc_body lse (SWP ord x)
       (\<lambda>ts. map_option (\<lambda>(old, new). (old, new, ord)) (exclusive (\<lambda>_. x) ts))"

definition arch_xchg :: "bool \<Rightarrow> mem_order \<Rightarrow> 'n::len word \<Rightarrow> 'n tries \<Rightarrow> ('n word, 'n) outcome option" where
  "arch_xchg lse ord x ts = xchg_case lse ord x ts"

definition lse_cmpxchg_case ::
  "mem_order \<Rightarrow> 'n::len word \<Rightarrow> 'n word \<Rightarrow> 'n word \<Rightarrow> ('n word, 'n) outcome" where
  "lse_cmpxchg_case ord old new v = CAS ord old new v"

text \<open>A mismatch leaves the loop before the store and before the barrier: only a load-acquire is left.\<close>

fun ll_sc_cmpxchg_case ::
  "mem_order \<Rightarrow> 'n::len word \<Rightarrow> 'n word \<Rightarrow> 'n tries \<Rightarrow> ('n word, 'n) outcome option" where
  "ll_sc_cmpxchg_case ord old new [] = None"
| "ll_sc_cmpxchg_case ord old new ((v, stored) # ts) =
     (if v \<noteq> old then Some (v, v, if ord = Acquire then Acquire else Relaxed)
      else if stored then Some (v, new, ord)
      else ll_sc_cmpxchg_case ord old new ts)"

definition cmpxchg_case ::
  "bool \<Rightarrow> mem_order \<Rightarrow> 'n::len word \<Rightarrow> 'n word \<Rightarrow> 'n tries \<Rightarrow> ('n word, 'n) outcome option" where
  "cmpxchg_case lse ord old new =
     lse_ll_sc_body lse (lse_cmpxchg_case ord old new) (ll_sc_cmpxchg_case ord old new)"

definition arch_cmpxchg ::
  "bool \<Rightarrow> mem_order \<Rightarrow> 'n::len word \<Rightarrow> 'n word \<Rightarrow> 'n tries \<Rightarrow> ('n word, 'n) outcome option" where
  "arch_cmpxchg lse ord old new ts = cmpxchg_case lse ord old new ts"

definition arch_cmpxchg_local ::
  "bool \<Rightarrow> 'n::len word \<Rightarrow> 'n word \<Rightarrow> 'n tries \<Rightarrow> ('n word, 'n) outcome option" where
  "arch_cmpxchg_local lse old new ts = arch_cmpxchg lse Relaxed old new ts"

text \<open>A 128-bit operand is a register pair; \<open>ldxp\<close>, \<open>stxp\<close> and \<open>casp\<close> access it as one.\<close>

definition lse_cmpxchg128 :: "mem_order \<Rightarrow> 128 word \<Rightarrow> 128 word \<Rightarrow> 128 word \<Rightarrow> (128 word, 128) outcome" where
  "lse_cmpxchg128 ord old new v = CAS ord old new v"

definition ll_sc_cmpxchg128 ::
  "mem_order \<Rightarrow> 128 word \<Rightarrow> 128 word \<Rightarrow> 128 tries \<Rightarrow> (128 word, 128) outcome option" where
  "ll_sc_cmpxchg128 ord old new ts = ll_sc_cmpxchg_case ord old new ts"

definition cmpxchg128 ::
  "bool \<Rightarrow> mem_order \<Rightarrow> 128 word \<Rightarrow> 128 word \<Rightarrow> 128 tries \<Rightarrow> (128 word, 128) outcome option" where
  "cmpxchg128 lse ord old new = lse_ll_sc_body lse (lse_cmpxchg128 ord old new) (ll_sc_cmpxchg128 ord old new)"

definition arch_cmpxchg128 :: "bool \<Rightarrow> 128 word \<Rightarrow> 128 word \<Rightarrow> 128 tries \<Rightarrow> (128 word, 128) outcome option" where
  "arch_cmpxchg128 lse old new ts = cmpxchg128 lse Full old new ts"

definition arch_cmpxchg128_local :: "bool \<Rightarrow> 128 word \<Rightarrow> 128 word \<Rightarrow> 128 tries \<Rightarrow> (128 word, 128) outcome option" where
  "arch_cmpxchg128_local lse old new ts = cmpxchg128 lse Relaxed old new ts"

subsection \<open>What an operation implements\<close>

text \<open>
  Whatever the other CPUs do, an operation that ends has acted on a value the cell had at one
  of its tries, in one indivisible access, with at least the ordering asked for; and it is
  still running only if every try was disturbed.
\<close>

definition implements ::
  "('n tries \<Rightarrow> ('r, 'n) outcome option) \<Rightarrow> ('n word \<Rightarrow> 'r) \<Rightarrow> ('n word \<Rightarrow> 'n word) \<Rightarrow> mem_order \<Rightarrow> bool" where
  "implements p g f ord \<longleftrightarrow>
     (\<forall>ts. case p ts of
             None \<Rightarrow> \<forall>t\<in>set ts. \<not> snd t
           | Some (r, new, got) \<Rightarrow> \<exists>v\<in>fst ` set ts. r = g v \<and> new = f v \<and> at_least got ord)"

lemma at_least_refl [simp]: "at_least ord ord" "at_least Full ord" "at_least ord Relaxed"
  by (simp_all add: at_least_def)

lemma exclusive_None: "exclusive f ts = None \<longleftrightarrow> (\<forall>t\<in>set ts. \<not> snd t)"
  by (induction f ts rule: exclusive.induct) auto

lemma exclusive_Some: "exclusive f ts = Some (old, new) \<Longrightarrow> (old, True) \<in> set ts \<and> new = f old"
  by (induction f ts rule: exclusive.induct) (auto split: if_splits)

lemma implementsI:
  assumes "\<And>ts. p ts = None \<Longrightarrow> \<forall>t\<in>set ts. \<not> snd t"
    and "\<And>ts r new got. p ts = Some (r, new, got) \<Longrightarrow>
           \<exists>v. v \<in> fst ` set ts \<and> r = g v \<and> new = f v \<and> at_least got ord"
  shows "implements p g f ord"
  unfolding implements_def using assms by (fastforce split: option.splits)

lemma implements_None: "implements p g f ord \<Longrightarrow> p ts = None \<Longrightarrow> \<forall>t\<in>set ts. \<not> snd t"
  unfolding implements_def by (drule spec [of _ ts]) simp

lemma implements_Some:
  assumes "implements p g f ord" "p ts = Some (r, new, got)"
  obtains v where "v \<in> fst ` set ts" "r = g v" "new = f v" "at_least got ord"
  using assms(1)[unfolded implements_def, rule_format, of ts] assms(2) by auto

text \<open>A pass nobody disturbs finishes, on the value it found.\<close>

lemma implements_once:
  assumes p: "implements p g f ord"
  obtains got where "p [(v, True)] = Some (g v, f v, got)"
proof (cases "p [(v, True)]")
  case None
  then show ?thesis using implements_None [OF p, of "[(v, True)]"] by simp
next
  case (Some x)
  then obtain r new got where x: "p [(v, True)] = Some (r, new, got)" by (cases x) auto
  then show ?thesis by (rule implements_Some [OF p]) (use x that in simp)
qed

lemma implements_exclusive:
  assumes "\<And>v. h (v, f v) = (g v, f v, got)" "at_least got ord"
  shows "implements (\<lambda>ts. map_option h (exclusive f ts)) g f ord"
proof (rule implementsI)
  fix ts r new got'
  assume "map_option h (exclusive f ts) = Some (r, new, got')"
  then obtain old st where e: "exclusive f ts = Some (old, st)" "h (old, st) = (r, new, got')" by auto
  then have "(old, True) \<in> set ts" "st = f old" by (auto dest: exclusive_Some)
  then show "\<exists>v. v \<in> fst ` set ts \<and> r = g v \<and> new = f v \<and> at_least got' ord"
    using e(2) assms by (intro exI [of _ old]) (force simp: image_iff)
qed (simp add: exclusive_None)

lemma implements_body:
  assumes h: "\<And>v. \<exists>got. h v = (g v, f v, got) \<and> at_least got ord" and k: "implements k g f ord"
  shows "implements (lse_ll_sc_body lse h k) g f ord"
proof (rule implementsI)
  fix ts r new got
  assume e: "lse_ll_sc_body lse h k ts = Some (r, new, got)"
  show "\<exists>v. v \<in> fst ` set ts \<and> r = g v \<and> new = f v \<and> at_least got ord"
  proof (cases lse)
    case True
    with e obtain v b us where "ts = (v, b) # us" "h v = (r, new, got)"
      by (auto simp: lse_ll_sc_body_def split: list.splits)
    then show ?thesis using h [of v] by auto
  next
    case False
    with e have "k ts = Some (r, new, got)" by (simp add: lse_ll_sc_body_def)
    with k show ?thesis by (rule implements_Some) blast
  qed
next
  fix ts
  assume "lse_ll_sc_body lse h k ts = None"
  then show "\<forall>t\<in>set ts. \<not> snd t" using implements_None [OF k]
    by (auto simp: lse_ll_sc_body_def split: if_splits list.splits)
qed

lemma implements_map:
  assumes "implements p g f ord"
  shows "implements (\<lambda>ts. map_option (map_result k) (p ts)) (\<lambda>v. k (g v)) f ord"
proof (rule implementsI)
  fix ts r new got
  assume "map_option (map_result k) (p ts) = Some (r, new, got)"
  then obtain r' where r: "p ts = Some (r', new, got)" "r = k r'"
    by (cases "p ts") (auto elim: map_result.elims)
  from assms r(1) show "\<exists>v. v \<in> fst ` set ts \<and> r = k (g v) \<and> new = f v \<and> at_least got ord"
    by (rule implements_Some) (auto simp: r(2))
qed (use implements_None [OF assms] in simp)

lemmas arch_simps = LDADD_def LDCLR_def LDSET_def LDEOR_def no_result_def
  lse_atomic_add_def lse_atomic_andnot_def lse_atomic_or_def lse_atomic_xor_def lse_atomic_sub_def lse_atomic_and_def lse_atomic_fetch_add_def lse_atomic_fetch_andnot_def lse_atomic_fetch_or_def lse_atomic_fetch_xor_def lse_atomic_fetch_sub_def lse_atomic_fetch_and_def lse_atomic_add_return_def lse_atomic_sub_return_def lse_atomic64_add_def lse_atomic64_andnot_def lse_atomic64_or_def lse_atomic64_xor_def lse_atomic64_sub_def lse_atomic64_and_def lse_atomic64_fetch_add_def lse_atomic64_fetch_andnot_def lse_atomic64_fetch_or_def lse_atomic64_fetch_xor_def lse_atomic64_fetch_sub_def lse_atomic64_fetch_and_def lse_atomic64_add_return_def lse_atomic64_sub_return_def

lemma arch_atomic_add: "implements (arch_atomic_add lse i) (\<lambda>_. ()) (\<lambda>v. v + i) Relaxed"
  unfolding arch_atomic_add_def ll_sc_atomic_add_def
  by (rule implements_body, simp add: arch_simps, rule implements_exclusive, simp, simp)

lemma arch_atomic_fetch_add: "implements (arch_atomic_fetch_add lse ord i) (\<lambda>v. v) (\<lambda>v. v + i) ord"
  unfolding arch_atomic_fetch_add_def ll_sc_atomic_fetch_add_def
  by (rule implements_body, simp add: arch_simps, rule implements_exclusive, simp, simp)

lemma arch_atomic_sub: "implements (arch_atomic_sub lse i) (\<lambda>_. ()) (\<lambda>v. v - i) Relaxed"
  unfolding arch_atomic_sub_def ll_sc_atomic_sub_def
  by (rule implements_body, simp add: arch_simps, rule implements_exclusive, simp, simp)

lemma arch_atomic_fetch_sub: "implements (arch_atomic_fetch_sub lse ord i) (\<lambda>v. v) (\<lambda>v. v - i) ord"
  unfolding arch_atomic_fetch_sub_def ll_sc_atomic_fetch_sub_def
  by (rule implements_body, simp add: arch_simps, rule implements_exclusive, simp, simp)

lemma arch_atomic_and: "implements (arch_atomic_and lse i) (\<lambda>_. ()) (\<lambda>v. v AND i) Relaxed"
  unfolding arch_atomic_and_def ll_sc_atomic_and_def
  by (rule implements_body, simp add: arch_simps, rule implements_exclusive, simp, simp)

lemma arch_atomic_fetch_and: "implements (arch_atomic_fetch_and lse ord i) (\<lambda>v. v) (\<lambda>v. v AND i) ord"
  unfolding arch_atomic_fetch_and_def ll_sc_atomic_fetch_and_def
  by (rule implements_body, simp add: arch_simps, rule implements_exclusive, simp, simp)

lemma arch_atomic_andnot: "implements (arch_atomic_andnot lse i) (\<lambda>_. ()) (\<lambda>v. v AND NOT i) Relaxed"
  unfolding arch_atomic_andnot_def ll_sc_atomic_andnot_def
  by (rule implements_body, simp add: arch_simps, rule implements_exclusive, simp, simp)

lemma arch_atomic_fetch_andnot: "implements (arch_atomic_fetch_andnot lse ord i) (\<lambda>v. v) (\<lambda>v. v AND NOT i) ord"
  unfolding arch_atomic_fetch_andnot_def ll_sc_atomic_fetch_andnot_def
  by (rule implements_body, simp add: arch_simps, rule implements_exclusive, simp, simp)

lemma arch_atomic_or: "implements (arch_atomic_or lse i) (\<lambda>_. ()) (\<lambda>v. v OR i) Relaxed"
  unfolding arch_atomic_or_def ll_sc_atomic_or_def
  by (rule implements_body, simp add: arch_simps, rule implements_exclusive, simp, simp)

lemma arch_atomic_fetch_or: "implements (arch_atomic_fetch_or lse ord i) (\<lambda>v. v) (\<lambda>v. v OR i) ord"
  unfolding arch_atomic_fetch_or_def ll_sc_atomic_fetch_or_def
  by (rule implements_body, simp add: arch_simps, rule implements_exclusive, simp, simp)

lemma arch_atomic_xor: "implements (arch_atomic_xor lse i) (\<lambda>_. ()) (\<lambda>v. v XOR i) Relaxed"
  unfolding arch_atomic_xor_def ll_sc_atomic_xor_def
  by (rule implements_body, simp add: arch_simps, rule implements_exclusive, simp, simp)

lemma arch_atomic_fetch_xor: "implements (arch_atomic_fetch_xor lse ord i) (\<lambda>v. v) (\<lambda>v. v XOR i) ord"
  unfolding arch_atomic_fetch_xor_def ll_sc_atomic_fetch_xor_def
  by (rule implements_body, simp add: arch_simps, rule implements_exclusive, simp, simp)

lemma arch_atomic_add_return: "implements (arch_atomic_add_return lse ord i) (\<lambda>v. v + i) (\<lambda>v. v + i) ord"
  unfolding arch_atomic_add_return_def ll_sc_atomic_add_return_def
  by (rule implements_body, simp add: arch_simps, rule implements_exclusive, simp, simp)

lemma arch_atomic_sub_return: "implements (arch_atomic_sub_return lse ord i) (\<lambda>v. v - i) (\<lambda>v. v - i) ord"
  unfolding arch_atomic_sub_return_def ll_sc_atomic_sub_return_def
  by (rule implements_body, simp add: arch_simps, rule implements_exclusive, simp, simp)

lemma arch_atomic64_add: "implements (arch_atomic64_add lse i) (\<lambda>_. ()) (\<lambda>v. v + i) Relaxed"
  unfolding arch_atomic64_add_def ll_sc_atomic64_add_def
  by (rule implements_body, simp add: arch_simps, rule implements_exclusive, simp, simp)

lemma arch_atomic64_fetch_add: "implements (arch_atomic64_fetch_add lse ord i) (\<lambda>v. v) (\<lambda>v. v + i) ord"
  unfolding arch_atomic64_fetch_add_def ll_sc_atomic64_fetch_add_def
  by (rule implements_body, simp add: arch_simps, rule implements_exclusive, simp, simp)

lemma arch_atomic64_sub: "implements (arch_atomic64_sub lse i) (\<lambda>_. ()) (\<lambda>v. v - i) Relaxed"
  unfolding arch_atomic64_sub_def ll_sc_atomic64_sub_def
  by (rule implements_body, simp add: arch_simps, rule implements_exclusive, simp, simp)

lemma arch_atomic64_fetch_sub: "implements (arch_atomic64_fetch_sub lse ord i) (\<lambda>v. v) (\<lambda>v. v - i) ord"
  unfolding arch_atomic64_fetch_sub_def ll_sc_atomic64_fetch_sub_def
  by (rule implements_body, simp add: arch_simps, rule implements_exclusive, simp, simp)

lemma arch_atomic64_and: "implements (arch_atomic64_and lse i) (\<lambda>_. ()) (\<lambda>v. v AND i) Relaxed"
  unfolding arch_atomic64_and_def ll_sc_atomic64_and_def
  by (rule implements_body, simp add: arch_simps, rule implements_exclusive, simp, simp)

lemma arch_atomic64_fetch_and: "implements (arch_atomic64_fetch_and lse ord i) (\<lambda>v. v) (\<lambda>v. v AND i) ord"
  unfolding arch_atomic64_fetch_and_def ll_sc_atomic64_fetch_and_def
  by (rule implements_body, simp add: arch_simps, rule implements_exclusive, simp, simp)

lemma arch_atomic64_andnot: "implements (arch_atomic64_andnot lse i) (\<lambda>_. ()) (\<lambda>v. v AND NOT i) Relaxed"
  unfolding arch_atomic64_andnot_def ll_sc_atomic64_andnot_def
  by (rule implements_body, simp add: arch_simps, rule implements_exclusive, simp, simp)

lemma arch_atomic64_fetch_andnot: "implements (arch_atomic64_fetch_andnot lse ord i) (\<lambda>v. v) (\<lambda>v. v AND NOT i) ord"
  unfolding arch_atomic64_fetch_andnot_def ll_sc_atomic64_fetch_andnot_def
  by (rule implements_body, simp add: arch_simps, rule implements_exclusive, simp, simp)

lemma arch_atomic64_or: "implements (arch_atomic64_or lse i) (\<lambda>_. ()) (\<lambda>v. v OR i) Relaxed"
  unfolding arch_atomic64_or_def ll_sc_atomic64_or_def
  by (rule implements_body, simp add: arch_simps, rule implements_exclusive, simp, simp)

lemma arch_atomic64_fetch_or: "implements (arch_atomic64_fetch_or lse ord i) (\<lambda>v. v) (\<lambda>v. v OR i) ord"
  unfolding arch_atomic64_fetch_or_def ll_sc_atomic64_fetch_or_def
  by (rule implements_body, simp add: arch_simps, rule implements_exclusive, simp, simp)

lemma arch_atomic64_xor: "implements (arch_atomic64_xor lse i) (\<lambda>_. ()) (\<lambda>v. v XOR i) Relaxed"
  unfolding arch_atomic64_xor_def ll_sc_atomic64_xor_def
  by (rule implements_body, simp add: arch_simps, rule implements_exclusive, simp, simp)

lemma arch_atomic64_fetch_xor: "implements (arch_atomic64_fetch_xor lse ord i) (\<lambda>v. v) (\<lambda>v. v XOR i) ord"
  unfolding arch_atomic64_fetch_xor_def ll_sc_atomic64_fetch_xor_def
  by (rule implements_body, simp add: arch_simps, rule implements_exclusive, simp, simp)

lemma arch_atomic64_add_return: "implements (arch_atomic64_add_return lse ord i) (\<lambda>v. v + i) (\<lambda>v. v + i) ord"
  unfolding arch_atomic64_add_return_def ll_sc_atomic64_add_return_def
  by (rule implements_body, simp add: arch_simps, rule implements_exclusive, simp, simp)

lemma arch_atomic64_sub_return: "implements (arch_atomic64_sub_return lse ord i) (\<lambda>v. v - i) (\<lambda>v. v - i) ord"
  unfolding arch_atomic64_sub_return_def ll_sc_atomic64_sub_return_def
  by (rule implements_body, simp add: arch_simps, rule implements_exclusive, simp, simp)

lemma arch_xchg: "implements (arch_xchg lse ord x) (\<lambda>v. v) (\<lambda>_. x) ord"
  unfolding arch_xchg_def xchg_case_def
  by (rule implements_body, simp add: SWP_def, rule implements_exclusive, simp, simp)

text \<open>A compare-and-exchange is ordered as asked when it stores.\<close>

lemma ll_sc_cmpxchg_None: "ll_sc_cmpxchg_case ord old new ts = None \<Longrightarrow> \<forall>t\<in>set ts. \<not> snd t"
  by (induction ord old new ts rule: ll_sc_cmpxchg_case.induct) (auto split: if_splits)

lemma ll_sc_cmpxchg_Some:
  "ll_sc_cmpxchg_case ord old new ts = Some (r, new', got) \<Longrightarrow>
   r \<in> fst ` set ts \<and> new' = (if r = old then new else r) \<and> (r = old \<longrightarrow> at_least got ord)"
  by (induction ord old new ts rule: ll_sc_cmpxchg_case.induct) (auto split: if_splits)

lemma arch_cmpxchg_None: "arch_cmpxchg lse ord old new ts = None \<Longrightarrow> \<forall>t\<in>set ts. \<not> snd t"
  by (auto simp: arch_cmpxchg_def cmpxchg_case_def lse_ll_sc_body_def split: if_splits list.splits
      dest: ll_sc_cmpxchg_None)

lemma arch_cmpxchg_Some:
  assumes "arch_cmpxchg lse ord old new ts = Some (r, new', got)"
  shows "r \<in> fst ` set ts" "new' = (if r = old then new else r)" "r = old \<Longrightarrow> at_least got ord"
  using assms
  by (auto simp: arch_cmpxchg_def cmpxchg_case_def lse_ll_sc_body_def lse_cmpxchg_case_def CAS_def
      split: if_splits list.splits dest: ll_sc_cmpxchg_Some)

lemma arch_cmpxchg128_is_cmpxchg: "arch_cmpxchg128 lse old new ts = arch_cmpxchg lse Full old new ts"
  by (simp add: arch_cmpxchg128_def cmpxchg128_def lse_cmpxchg128_def ll_sc_cmpxchg128_def arch_cmpxchg_def
      cmpxchg_case_def lse_cmpxchg_case_def lse_ll_sc_body_def split: list.split)

lemma dec_if_positive_variants: "lse_atomic64_dec_if_positive = ll_sc_atomic64_dec_if_positive"
proof
  show "lse_atomic64_dec_if_positive ts = ll_sc_atomic64_dec_if_positive ts" for ts
    by (induction ts rule: lse_atomic64_dec_if_positive.induct) auto
qed

end
