(* ===== verification/Atomic_Raw.thy ===== *)
theory Atomic_Raw
  imports Atomic_Arch
begin

text \<open>
  The generic atomic operations, kheaders/include/linux/atomic/atomic-arch-fallback.h. A family
  of four functions (fully ordered, acquire, release, relaxed) is one definition with the
  ordering as an argument. \<open>by_order\<close> is the preprocessor's choice each of them makes: the
  architecture's function when its macro is defined (\<open>Some\<close>), else the relaxed one between
  fences, else the fully ordered one, else the generic code. atomic.h of arm64 defines the
  additions, subtractions and bitwise operations and no increment, decrement, test or
  conditional operation; cmpxchg.h defines the exchanges. A loop takes the tries of each of its
  compare-and-exchanges.
\<close>

subsection \<open>Choosing an implementation\<close>

type_synonym ('r, 'n) atomic_op = "'n tries \<Rightarrow> ('r, 'n) outcome option"

text \<open>An operation with fences around it.\<close>

definition fenced :: "mem_order \<Rightarrow> ('r, 'n) atomic_op \<Rightarrow> ('r, 'n) atomic_op" where
  "fenced ord p ts = map_option (\<lambda>(r, new, got). (r, new, if at_least got ord then got else ord)) (p ts)"

definition by_order ::
  "(mem_order \<Rightarrow> ('r, 'n) atomic_op option) \<Rightarrow> (mem_order \<Rightarrow> ('r, 'n) atomic_op) \<Rightarrow> mem_order \<Rightarrow> ('r, 'n) atomic_op" where
  "by_order arch generic ord =
     (case arch ord of
        Some p \<Rightarrow> p
      | None \<Rightarrow>
          (case (if ord = Relaxed then None else arch Relaxed) of
             Some p \<Rightarrow> fenced ord p
           | None \<Rightarrow> (case (if ord = Full then None else arch Full) of
                        Some p \<Rightarrow> p
                      | None \<Rightarrow> generic ord)))"

text \<open>The \<open>#error\<close> branch: no architecture that builds reaches it.\<close>

definition unbuildable :: "('r, 'n) atomic_op" where
  "unbuildable ts = None"

definition returning :: "('r \<Rightarrow> 's) \<Rightarrow> ('r, 'n) atomic_op \<Rightarrow> ('s, 'n) atomic_op" where
  "returning f p ts = map_option (map_result f) (p ts)"

text \<open>Success, and the value left in \<open>*old\<close>.\<close>

definition tried :: "'n::len word \<Rightarrow> ('n word, 'n) atomic_op \<Rightarrow> (bool \<times> 'n word, 'n) atomic_op" where
  "tried old p = returning (\<lambda>r. (r = old, if r \<noteq> old then r else old)) p"

definition native_word :: "nat \<Rightarrow> bool" where
  "native_word bits \<longleftrightarrow> bits \<in> {8, 16, 32, 64}"

definition smp_load_acquire :: "'n::len word \<Rightarrow> 'n word \<times> mem_order" where
  "smp_load_acquire v = (v, Acquire)"

definition smp_store_release :: "'n::len word \<Rightarrow> 'n word \<Rightarrow> 'n word \<times> mem_order" where
  "smp_store_release v i = (i, Release)"

subsection \<open>Exchange of any width\<close>

definition raw_xchg :: "bool \<Rightarrow> mem_order \<Rightarrow> 'n::len word \<Rightarrow> ('n word, 'n) atomic_op" where
  "raw_xchg lse ord x = by_order (\<lambda>o'. Some (arch_xchg lse o' x)) (\<lambda>_. unbuildable) ord"

definition raw_cmpxchg :: "bool \<Rightarrow> mem_order \<Rightarrow> 'n::len word \<Rightarrow> 'n word \<Rightarrow> ('n word, 'n) atomic_op" where
  "raw_cmpxchg lse ord old new = by_order (\<lambda>o'. Some (arch_cmpxchg lse o' old new)) (\<lambda>_. unbuildable) ord"

definition raw_cmpxchg64 :: "bool \<Rightarrow> mem_order \<Rightarrow> s64 \<Rightarrow> s64 \<Rightarrow> (s64, 64) atomic_op" where
  "raw_cmpxchg64 lse ord old new = by_order (\<lambda>o'. Some (arch_cmpxchg lse o' old new)) (\<lambda>_. unbuildable) ord"

text \<open>Of the 128-bit operations only the fully ordered one is provided.\<close>

definition raw_cmpxchg128 :: "bool \<Rightarrow> mem_order \<Rightarrow> 128 word \<Rightarrow> 128 word \<Rightarrow> (128 word, 128) atomic_op" where
  "raw_cmpxchg128 lse ord old new =
     by_order (\<lambda>o'. if o' = Full then Some (arch_cmpxchg128 lse old new) else None) (\<lambda>_. unbuildable) ord"

definition raw_try_cmpxchg ::
  "bool \<Rightarrow> mem_order \<Rightarrow> 'n::len word \<Rightarrow> 'n word \<Rightarrow> (bool \<times> 'n word, 'n) atomic_op" where
  "raw_try_cmpxchg lse ord old new = by_order (\<lambda>_. None) (\<lambda>o'. tried old (raw_cmpxchg lse o' old new)) ord"

definition raw_try_cmpxchg64 :: "bool \<Rightarrow> mem_order \<Rightarrow> s64 \<Rightarrow> s64 \<Rightarrow> (bool \<times> s64, 64) atomic_op" where
  "raw_try_cmpxchg64 lse ord old new =
     by_order (\<lambda>_. None) (\<lambda>o'. tried old (raw_cmpxchg64 lse o' old new)) ord"

definition raw_try_cmpxchg128 ::
  "bool \<Rightarrow> mem_order \<Rightarrow> 128 word \<Rightarrow> 128 word \<Rightarrow> (bool \<times> 128 word, 128) atomic_op" where
  "raw_try_cmpxchg128 lse ord old new =
     by_order (\<lambda>_. None) (\<lambda>o'. tried old (raw_cmpxchg128 lse o' old new)) ord"

definition raw_cmpxchg_local :: "bool \<Rightarrow> 'n::len word \<Rightarrow> 'n word \<Rightarrow> ('n word, 'n) atomic_op" where
  "raw_cmpxchg_local lse old new = arch_cmpxchg_local lse old new"

definition raw_try_cmpxchg_local :: "bool \<Rightarrow> 'n::len word \<Rightarrow> 'n word \<Rightarrow> (bool \<times> 'n word, 'n) atomic_op" where
  "raw_try_cmpxchg_local lse old new = tried old (raw_cmpxchg_local lse old new)"

definition raw_cmpxchg64_local :: "bool \<Rightarrow> s64 \<Rightarrow> s64 \<Rightarrow> (s64, 64) atomic_op" where
  "raw_cmpxchg64_local lse old new = arch_cmpxchg_local lse old new"

definition raw_try_cmpxchg64_local :: "bool \<Rightarrow> s64 \<Rightarrow> s64 \<Rightarrow> (bool \<times> s64, 64) atomic_op" where
  "raw_try_cmpxchg64_local lse old new = tried old (raw_cmpxchg64_local lse old new)"

definition raw_cmpxchg128_local :: "bool \<Rightarrow> 128 word \<Rightarrow> 128 word \<Rightarrow> (128 word, 128) atomic_op" where
  "raw_cmpxchg128_local lse old new = arch_cmpxchg128_local lse old new"

definition raw_try_cmpxchg128_local :: "bool \<Rightarrow> 128 word \<Rightarrow> 128 word \<Rightarrow> (bool \<times> 128 word, 128) atomic_op" where
  "raw_try_cmpxchg128_local lse old new = tried old (raw_cmpxchg128_local lse old new)"

subsection \<open>The 32-bit operations\<close>

definition raw_atomic_read :: "s32 \<Rightarrow> s32" where
  "raw_atomic_read v = v"

definition raw_atomic_read_acquire :: "s32 \<Rightarrow> s32 \<times> mem_order" where
  "raw_atomic_read_acquire v =
     (if native_word LENGTH(32) then smp_load_acquire v else let ret = raw_atomic_read v in (ret, Acquire))"

definition raw_atomic_set :: "s32 \<Rightarrow> s32 \<Rightarrow> s32" where
  "raw_atomic_set v i = i"

definition raw_atomic_set_release :: "s32 \<Rightarrow> s32 \<Rightarrow> s32 \<times> mem_order" where
  "raw_atomic_set_release v i =
     (if native_word LENGTH(32) then smp_store_release v i else (raw_atomic_set v i, Release))"

definition raw_atomic_add :: "bool \<Rightarrow> s32 \<Rightarrow> 32 tries \<Rightarrow> (unit, 32) outcome option" where
  "raw_atomic_add lse i = arch_atomic_add lse i"

definition raw_atomic_add_return :: "bool \<Rightarrow> mem_order \<Rightarrow> s32 \<Rightarrow> 32 tries \<Rightarrow> (s32, 32) outcome option" where
  "raw_atomic_add_return lse ord i =
     by_order (\<lambda>o'. Some (arch_atomic_add_return lse o' i)) (\<lambda>_. unbuildable) ord"

definition raw_atomic_fetch_add :: "bool \<Rightarrow> mem_order \<Rightarrow> s32 \<Rightarrow> 32 tries \<Rightarrow> (s32, 32) outcome option" where
  "raw_atomic_fetch_add lse ord i =
     by_order (\<lambda>o'. Some (arch_atomic_fetch_add lse o' i)) (\<lambda>_. unbuildable) ord"

definition raw_atomic_sub :: "bool \<Rightarrow> s32 \<Rightarrow> 32 tries \<Rightarrow> (unit, 32) outcome option" where
  "raw_atomic_sub lse i = arch_atomic_sub lse i"

definition raw_atomic_sub_return :: "bool \<Rightarrow> mem_order \<Rightarrow> s32 \<Rightarrow> 32 tries \<Rightarrow> (s32, 32) outcome option" where
  "raw_atomic_sub_return lse ord i =
     by_order (\<lambda>o'. Some (arch_atomic_sub_return lse o' i)) (\<lambda>_. unbuildable) ord"

definition raw_atomic_fetch_sub :: "bool \<Rightarrow> mem_order \<Rightarrow> s32 \<Rightarrow> 32 tries \<Rightarrow> (s32, 32) outcome option" where
  "raw_atomic_fetch_sub lse ord i =
     by_order (\<lambda>o'. Some (arch_atomic_fetch_sub lse o' i)) (\<lambda>_. unbuildable) ord"

definition raw_atomic_inc :: "bool \<Rightarrow> 32 tries \<Rightarrow> (unit, 32) outcome option" where
  "raw_atomic_inc lse = raw_atomic_add lse 1"

definition raw_atomic_inc_return :: "bool \<Rightarrow> mem_order \<Rightarrow> 32 tries \<Rightarrow> (s32, 32) outcome option" where
  "raw_atomic_inc_return lse ord = by_order (\<lambda>_. None) (\<lambda>o'. raw_atomic_add_return lse o' 1) ord"

definition raw_atomic_fetch_inc :: "bool \<Rightarrow> mem_order \<Rightarrow> 32 tries \<Rightarrow> (s32, 32) outcome option" where
  "raw_atomic_fetch_inc lse ord = by_order (\<lambda>_. None) (\<lambda>o'. raw_atomic_fetch_add lse o' 1) ord"

definition raw_atomic_dec :: "bool \<Rightarrow> 32 tries \<Rightarrow> (unit, 32) outcome option" where
  "raw_atomic_dec lse = raw_atomic_sub lse 1"

definition raw_atomic_dec_return :: "bool \<Rightarrow> mem_order \<Rightarrow> 32 tries \<Rightarrow> (s32, 32) outcome option" where
  "raw_atomic_dec_return lse ord = by_order (\<lambda>_. None) (\<lambda>o'. raw_atomic_sub_return lse o' 1) ord"

definition raw_atomic_fetch_dec :: "bool \<Rightarrow> mem_order \<Rightarrow> 32 tries \<Rightarrow> (s32, 32) outcome option" where
  "raw_atomic_fetch_dec lse ord = by_order (\<lambda>_. None) (\<lambda>o'. raw_atomic_fetch_sub lse o' 1) ord"

definition raw_atomic_and :: "bool \<Rightarrow> s32 \<Rightarrow> 32 tries \<Rightarrow> (unit, 32) outcome option" where
  "raw_atomic_and lse i = arch_atomic_and lse i"

definition raw_atomic_fetch_and :: "bool \<Rightarrow> mem_order \<Rightarrow> s32 \<Rightarrow> 32 tries \<Rightarrow> (s32, 32) outcome option" where
  "raw_atomic_fetch_and lse ord i =
     by_order (\<lambda>o'. Some (arch_atomic_fetch_and lse o' i)) (\<lambda>_. unbuildable) ord"

definition raw_atomic_andnot :: "bool \<Rightarrow> s32 \<Rightarrow> 32 tries \<Rightarrow> (unit, 32) outcome option" where
  "raw_atomic_andnot lse i = arch_atomic_andnot lse i"

definition raw_atomic_fetch_andnot :: "bool \<Rightarrow> mem_order \<Rightarrow> s32 \<Rightarrow> 32 tries \<Rightarrow> (s32, 32) outcome option" where
  "raw_atomic_fetch_andnot lse ord i =
     by_order (\<lambda>o'. Some (arch_atomic_fetch_andnot lse o' i)) (\<lambda>_. unbuildable) ord"

definition raw_atomic_or :: "bool \<Rightarrow> s32 \<Rightarrow> 32 tries \<Rightarrow> (unit, 32) outcome option" where
  "raw_atomic_or lse i = arch_atomic_or lse i"

definition raw_atomic_fetch_or :: "bool \<Rightarrow> mem_order \<Rightarrow> s32 \<Rightarrow> 32 tries \<Rightarrow> (s32, 32) outcome option" where
  "raw_atomic_fetch_or lse ord i =
     by_order (\<lambda>o'. Some (arch_atomic_fetch_or lse o' i)) (\<lambda>_. unbuildable) ord"

definition raw_atomic_xor :: "bool \<Rightarrow> s32 \<Rightarrow> 32 tries \<Rightarrow> (unit, 32) outcome option" where
  "raw_atomic_xor lse i = arch_atomic_xor lse i"

definition raw_atomic_fetch_xor :: "bool \<Rightarrow> mem_order \<Rightarrow> s32 \<Rightarrow> 32 tries \<Rightarrow> (s32, 32) outcome option" where
  "raw_atomic_fetch_xor lse ord i =
     by_order (\<lambda>o'. Some (arch_atomic_fetch_xor lse o' i)) (\<lambda>_. unbuildable) ord"

definition raw_atomic_xchg :: "bool \<Rightarrow> mem_order \<Rightarrow> s32 \<Rightarrow> 32 tries \<Rightarrow> (s32, 32) outcome option" where
  "raw_atomic_xchg lse ord new = by_order (\<lambda>_. None) (\<lambda>o'. raw_xchg lse o' new) ord"

definition raw_atomic_cmpxchg :: "bool \<Rightarrow> mem_order \<Rightarrow> s32 \<Rightarrow> s32 \<Rightarrow> 32 tries \<Rightarrow> (s32, 32) outcome option" where
  "raw_atomic_cmpxchg lse ord old new = by_order (\<lambda>_. None) (\<lambda>o'. raw_cmpxchg lse o' old new) ord"

definition raw_atomic_try_cmpxchg :: "bool \<Rightarrow> mem_order \<Rightarrow> s32 \<Rightarrow> s32 \<Rightarrow> 32 tries \<Rightarrow> (bool \<times> s32, 32) outcome option" where
  "raw_atomic_try_cmpxchg lse ord old new = by_order (\<lambda>_. None) (\<lambda>o'. tried old (raw_atomic_cmpxchg lse o' old new)) ord"

definition raw_atomic_sub_and_test :: "bool \<Rightarrow> s32 \<Rightarrow> 32 tries \<Rightarrow> (bool, 32) outcome option" where
  "raw_atomic_sub_and_test lse i = returning (\<lambda>r. r = 0) (raw_atomic_sub_return lse Full i)"

definition raw_atomic_dec_and_test :: "bool \<Rightarrow> 32 tries \<Rightarrow> (bool, 32) outcome option" where
  "raw_atomic_dec_and_test lse = returning (\<lambda>r. r = 0) (raw_atomic_dec_return lse Full)"

definition raw_atomic_inc_and_test :: "bool \<Rightarrow> 32 tries \<Rightarrow> (bool, 32) outcome option" where
  "raw_atomic_inc_and_test lse = returning (\<lambda>r. r = 0) (raw_atomic_inc_return lse Full)"

definition raw_atomic_add_negative :: "bool \<Rightarrow> mem_order \<Rightarrow> s32 \<Rightarrow> 32 tries \<Rightarrow> (bool, 32) outcome option" where
  "raw_atomic_add_negative lse ord i = by_order (\<lambda>_. None) (\<lambda>o'. returning (\<lambda>r. r <s 0) (raw_atomic_add_return lse o' i)) ord"

fun raw_atomic_loop :: "bool \<Rightarrow> (s32 \<Rightarrow> bool) \<Rightarrow> (s32 \<Rightarrow> s32) \<Rightarrow> s32 \<Rightarrow> 32 tries list \<Rightarrow> (bool \<times> s32, 32) outcome option" where
  "raw_atomic_loop lse stop upd c tss =
     (if stop c then Some ((False, c), c, Relaxed)
      else case tss of
             [] \<Rightarrow> None
           | ts # tss' \<Rightarrow> (case raw_atomic_try_cmpxchg lse Full c (upd c) ts of
                 None \<Rightarrow> None
               | Some ((ok, c'), new, ord) \<Rightarrow>
                   if ok then Some ((True, c), new, ord) else raw_atomic_loop lse stop upd c' tss'))"

definition raw_atomic_fetch_add_unless :: "bool \<Rightarrow> s32 \<Rightarrow> s32 \<Rightarrow> s32 \<Rightarrow> 32 tries list \<Rightarrow> (s32, 32) outcome option" where
  "raw_atomic_fetch_add_unless lse a u v tss =
     map_option (map_result snd) (raw_atomic_loop lse (\<lambda>c. c = u) (\<lambda>c. c + a) (raw_atomic_read v) tss)"

definition raw_atomic_add_unless :: "bool \<Rightarrow> s32 \<Rightarrow> s32 \<Rightarrow> s32 \<Rightarrow> 32 tries list \<Rightarrow> (bool, 32) outcome option" where
  "raw_atomic_add_unless lse a u v tss = map_option (map_result (\<lambda>c. c \<noteq> u)) (raw_atomic_fetch_add_unless lse a u v tss)"

definition raw_atomic_inc_not_zero :: "bool \<Rightarrow> s32 \<Rightarrow> 32 tries list \<Rightarrow> (bool, 32) outcome option" where
  "raw_atomic_inc_not_zero lse v tss = raw_atomic_add_unless lse 1 0 v tss"

definition raw_atomic_inc_unless_negative :: "bool \<Rightarrow> s32 \<Rightarrow> 32 tries list \<Rightarrow> (bool, 32) outcome option" where
  "raw_atomic_inc_unless_negative lse v tss =
     map_option (map_result fst) (raw_atomic_loop lse (\<lambda>c. c <s 0) (\<lambda>c. c + 1) (raw_atomic_read v) tss)"

definition raw_atomic_dec_unless_positive :: "bool \<Rightarrow> s32 \<Rightarrow> 32 tries list \<Rightarrow> (bool, 32) outcome option" where
  "raw_atomic_dec_unless_positive lse v tss =
     map_option (map_result fst) (raw_atomic_loop lse (\<lambda>c. 0 <s c) (\<lambda>c. c - 1) (raw_atomic_read v) tss)"

definition raw_atomic_dec_if_positive :: "bool \<Rightarrow> s32 \<Rightarrow> 32 tries list \<Rightarrow> (s32, 32) outcome option" where
  "raw_atomic_dec_if_positive lse v tss =
     map_option (map_result (\<lambda>(b, c). c - 1)) (raw_atomic_loop lse (\<lambda>c. c - 1 <s 0) (\<lambda>c. c - 1) (raw_atomic_read v) tss)"

subsection \<open>The 64-bit operations\<close>

definition raw_atomic64_read :: "s64 \<Rightarrow> s64" where
  "raw_atomic64_read v = v"

definition raw_atomic64_read_acquire :: "s64 \<Rightarrow> s64 \<times> mem_order" where
  "raw_atomic64_read_acquire v =
     (if native_word LENGTH(64) then smp_load_acquire v else let ret = raw_atomic64_read v in (ret, Acquire))"

definition raw_atomic64_set :: "s64 \<Rightarrow> s64 \<Rightarrow> s64" where
  "raw_atomic64_set v i = i"

definition raw_atomic64_set_release :: "s64 \<Rightarrow> s64 \<Rightarrow> s64 \<times> mem_order" where
  "raw_atomic64_set_release v i =
     (if native_word LENGTH(64) then smp_store_release v i else (raw_atomic64_set v i, Release))"

definition raw_atomic64_add :: "bool \<Rightarrow> s64 \<Rightarrow> 64 tries \<Rightarrow> (unit, 64) outcome option" where
  "raw_atomic64_add lse i = arch_atomic64_add lse i"

definition raw_atomic64_add_return :: "bool \<Rightarrow> mem_order \<Rightarrow> s64 \<Rightarrow> 64 tries \<Rightarrow> (s64, 64) outcome option" where
  "raw_atomic64_add_return lse ord i =
     by_order (\<lambda>o'. Some (arch_atomic64_add_return lse o' i)) (\<lambda>_. unbuildable) ord"

definition raw_atomic64_fetch_add :: "bool \<Rightarrow> mem_order \<Rightarrow> s64 \<Rightarrow> 64 tries \<Rightarrow> (s64, 64) outcome option" where
  "raw_atomic64_fetch_add lse ord i =
     by_order (\<lambda>o'. Some (arch_atomic64_fetch_add lse o' i)) (\<lambda>_. unbuildable) ord"

definition raw_atomic64_sub :: "bool \<Rightarrow> s64 \<Rightarrow> 64 tries \<Rightarrow> (unit, 64) outcome option" where
  "raw_atomic64_sub lse i = arch_atomic64_sub lse i"

definition raw_atomic64_sub_return :: "bool \<Rightarrow> mem_order \<Rightarrow> s64 \<Rightarrow> 64 tries \<Rightarrow> (s64, 64) outcome option" where
  "raw_atomic64_sub_return lse ord i =
     by_order (\<lambda>o'. Some (arch_atomic64_sub_return lse o' i)) (\<lambda>_. unbuildable) ord"

definition raw_atomic64_fetch_sub :: "bool \<Rightarrow> mem_order \<Rightarrow> s64 \<Rightarrow> 64 tries \<Rightarrow> (s64, 64) outcome option" where
  "raw_atomic64_fetch_sub lse ord i =
     by_order (\<lambda>o'. Some (arch_atomic64_fetch_sub lse o' i)) (\<lambda>_. unbuildable) ord"

definition raw_atomic64_inc :: "bool \<Rightarrow> 64 tries \<Rightarrow> (unit, 64) outcome option" where
  "raw_atomic64_inc lse = raw_atomic64_add lse 1"

definition raw_atomic64_inc_return :: "bool \<Rightarrow> mem_order \<Rightarrow> 64 tries \<Rightarrow> (s64, 64) outcome option" where
  "raw_atomic64_inc_return lse ord = by_order (\<lambda>_. None) (\<lambda>o'. raw_atomic64_add_return lse o' 1) ord"

definition raw_atomic64_fetch_inc :: "bool \<Rightarrow> mem_order \<Rightarrow> 64 tries \<Rightarrow> (s64, 64) outcome option" where
  "raw_atomic64_fetch_inc lse ord = by_order (\<lambda>_. None) (\<lambda>o'. raw_atomic64_fetch_add lse o' 1) ord"

definition raw_atomic64_dec :: "bool \<Rightarrow> 64 tries \<Rightarrow> (unit, 64) outcome option" where
  "raw_atomic64_dec lse = raw_atomic64_sub lse 1"

definition raw_atomic64_dec_return :: "bool \<Rightarrow> mem_order \<Rightarrow> 64 tries \<Rightarrow> (s64, 64) outcome option" where
  "raw_atomic64_dec_return lse ord = by_order (\<lambda>_. None) (\<lambda>o'. raw_atomic64_sub_return lse o' 1) ord"

definition raw_atomic64_fetch_dec :: "bool \<Rightarrow> mem_order \<Rightarrow> 64 tries \<Rightarrow> (s64, 64) outcome option" where
  "raw_atomic64_fetch_dec lse ord = by_order (\<lambda>_. None) (\<lambda>o'. raw_atomic64_fetch_sub lse o' 1) ord"

definition raw_atomic64_and :: "bool \<Rightarrow> s64 \<Rightarrow> 64 tries \<Rightarrow> (unit, 64) outcome option" where
  "raw_atomic64_and lse i = arch_atomic64_and lse i"

definition raw_atomic64_fetch_and :: "bool \<Rightarrow> mem_order \<Rightarrow> s64 \<Rightarrow> 64 tries \<Rightarrow> (s64, 64) outcome option" where
  "raw_atomic64_fetch_and lse ord i =
     by_order (\<lambda>o'. Some (arch_atomic64_fetch_and lse o' i)) (\<lambda>_. unbuildable) ord"

definition raw_atomic64_andnot :: "bool \<Rightarrow> s64 \<Rightarrow> 64 tries \<Rightarrow> (unit, 64) outcome option" where
  "raw_atomic64_andnot lse i = arch_atomic64_andnot lse i"

definition raw_atomic64_fetch_andnot :: "bool \<Rightarrow> mem_order \<Rightarrow> s64 \<Rightarrow> 64 tries \<Rightarrow> (s64, 64) outcome option" where
  "raw_atomic64_fetch_andnot lse ord i =
     by_order (\<lambda>o'. Some (arch_atomic64_fetch_andnot lse o' i)) (\<lambda>_. unbuildable) ord"

definition raw_atomic64_or :: "bool \<Rightarrow> s64 \<Rightarrow> 64 tries \<Rightarrow> (unit, 64) outcome option" where
  "raw_atomic64_or lse i = arch_atomic64_or lse i"

definition raw_atomic64_fetch_or :: "bool \<Rightarrow> mem_order \<Rightarrow> s64 \<Rightarrow> 64 tries \<Rightarrow> (s64, 64) outcome option" where
  "raw_atomic64_fetch_or lse ord i =
     by_order (\<lambda>o'. Some (arch_atomic64_fetch_or lse o' i)) (\<lambda>_. unbuildable) ord"

definition raw_atomic64_xor :: "bool \<Rightarrow> s64 \<Rightarrow> 64 tries \<Rightarrow> (unit, 64) outcome option" where
  "raw_atomic64_xor lse i = arch_atomic64_xor lse i"

definition raw_atomic64_fetch_xor :: "bool \<Rightarrow> mem_order \<Rightarrow> s64 \<Rightarrow> 64 tries \<Rightarrow> (s64, 64) outcome option" where
  "raw_atomic64_fetch_xor lse ord i =
     by_order (\<lambda>o'. Some (arch_atomic64_fetch_xor lse o' i)) (\<lambda>_. unbuildable) ord"

definition raw_atomic64_xchg :: "bool \<Rightarrow> mem_order \<Rightarrow> s64 \<Rightarrow> 64 tries \<Rightarrow> (s64, 64) outcome option" where
  "raw_atomic64_xchg lse ord new = by_order (\<lambda>_. None) (\<lambda>o'. raw_xchg lse o' new) ord"

definition raw_atomic64_cmpxchg :: "bool \<Rightarrow> mem_order \<Rightarrow> s64 \<Rightarrow> s64 \<Rightarrow> 64 tries \<Rightarrow> (s64, 64) outcome option" where
  "raw_atomic64_cmpxchg lse ord old new = by_order (\<lambda>_. None) (\<lambda>o'. raw_cmpxchg lse o' old new) ord"

definition raw_atomic64_try_cmpxchg :: "bool \<Rightarrow> mem_order \<Rightarrow> s64 \<Rightarrow> s64 \<Rightarrow> 64 tries \<Rightarrow> (bool \<times> s64, 64) outcome option" where
  "raw_atomic64_try_cmpxchg lse ord old new = by_order (\<lambda>_. None) (\<lambda>o'. tried old (raw_atomic64_cmpxchg lse o' old new)) ord"

definition raw_atomic64_sub_and_test :: "bool \<Rightarrow> s64 \<Rightarrow> 64 tries \<Rightarrow> (bool, 64) outcome option" where
  "raw_atomic64_sub_and_test lse i = returning (\<lambda>r. r = 0) (raw_atomic64_sub_return lse Full i)"

definition raw_atomic64_dec_and_test :: "bool \<Rightarrow> 64 tries \<Rightarrow> (bool, 64) outcome option" where
  "raw_atomic64_dec_and_test lse = returning (\<lambda>r. r = 0) (raw_atomic64_dec_return lse Full)"

definition raw_atomic64_inc_and_test :: "bool \<Rightarrow> 64 tries \<Rightarrow> (bool, 64) outcome option" where
  "raw_atomic64_inc_and_test lse = returning (\<lambda>r. r = 0) (raw_atomic64_inc_return lse Full)"

definition raw_atomic64_add_negative :: "bool \<Rightarrow> mem_order \<Rightarrow> s64 \<Rightarrow> 64 tries \<Rightarrow> (bool, 64) outcome option" where
  "raw_atomic64_add_negative lse ord i = by_order (\<lambda>_. None) (\<lambda>o'. returning (\<lambda>r. r <s 0) (raw_atomic64_add_return lse o' i)) ord"

fun raw_atomic64_loop :: "bool \<Rightarrow> (s64 \<Rightarrow> bool) \<Rightarrow> (s64 \<Rightarrow> s64) \<Rightarrow> s64 \<Rightarrow> 64 tries list \<Rightarrow> (bool \<times> s64, 64) outcome option" where
  "raw_atomic64_loop lse stop upd c tss =
     (if stop c then Some ((False, c), c, Relaxed)
      else case tss of
             [] \<Rightarrow> None
           | ts # tss' \<Rightarrow> (case raw_atomic64_try_cmpxchg lse Full c (upd c) ts of
                 None \<Rightarrow> None
               | Some ((ok, c'), new, ord) \<Rightarrow>
                   if ok then Some ((True, c), new, ord) else raw_atomic64_loop lse stop upd c' tss'))"

definition raw_atomic64_fetch_add_unless :: "bool \<Rightarrow> s64 \<Rightarrow> s64 \<Rightarrow> s64 \<Rightarrow> 64 tries list \<Rightarrow> (s64, 64) outcome option" where
  "raw_atomic64_fetch_add_unless lse a u v tss =
     map_option (map_result snd) (raw_atomic64_loop lse (\<lambda>c. c = u) (\<lambda>c. c + a) (raw_atomic64_read v) tss)"

definition raw_atomic64_add_unless :: "bool \<Rightarrow> s64 \<Rightarrow> s64 \<Rightarrow> s64 \<Rightarrow> 64 tries list \<Rightarrow> (bool, 64) outcome option" where
  "raw_atomic64_add_unless lse a u v tss = map_option (map_result (\<lambda>c. c \<noteq> u)) (raw_atomic64_fetch_add_unless lse a u v tss)"

definition raw_atomic64_inc_not_zero :: "bool \<Rightarrow> s64 \<Rightarrow> 64 tries list \<Rightarrow> (bool, 64) outcome option" where
  "raw_atomic64_inc_not_zero lse v tss = raw_atomic64_add_unless lse 1 0 v tss"

definition raw_atomic64_inc_unless_negative :: "bool \<Rightarrow> s64 \<Rightarrow> 64 tries list \<Rightarrow> (bool, 64) outcome option" where
  "raw_atomic64_inc_unless_negative lse v tss =
     map_option (map_result fst) (raw_atomic64_loop lse (\<lambda>c. c <s 0) (\<lambda>c. c + 1) (raw_atomic64_read v) tss)"

definition raw_atomic64_dec_unless_positive :: "bool \<Rightarrow> s64 \<Rightarrow> 64 tries list \<Rightarrow> (bool, 64) outcome option" where
  "raw_atomic64_dec_unless_positive lse v tss =
     map_option (map_result fst) (raw_atomic64_loop lse (\<lambda>c. 0 <s c) (\<lambda>c. c - 1) (raw_atomic64_read v) tss)"

definition raw_atomic64_dec_if_positive :: "bool \<Rightarrow> 64 tries \<Rightarrow> (s64, 64) outcome option" where
  "raw_atomic64_dec_if_positive lse ts = arch_atomic64_dec_if_positive lse ts"

subsection \<open>The choice does not matter\<close>

text \<open>
  On every architecture, whatever it provides: if what it provides implements an operation and
  so does the generic code, so does what the preprocessor puts together.
\<close>

lemma implements_fenced:
  assumes p: "implements p g f ord"
  shows "implements (fenced ord' p) g f ord'"
proof (rule implementsI)
  fix ts r new got
  assume "fenced ord' p ts = Some (r, new, got)"
  then obtain got' where "p ts = Some (r, new, got')" "got = (if at_least got' ord' then got' else ord')"
    by (auto simp: fenced_def)
  with p show "\<exists>v. v \<in> fst ` set ts \<and> r = g v \<and> new = f v \<and> at_least got ord'"
    by (auto elim!: implements_Some)
qed (use implements_None [OF p] in \<open>simp add: fenced_def\<close>)

lemma implements_weaken:
  assumes p: "implements p g f Full"
  shows "implements p g f ord"
proof (rule implementsI)
  fix ts r new got
  assume "p ts = Some (r, new, got)"
  with p show "\<exists>v. v \<in> fst ` set ts \<and> r = g v \<and> new = f v \<and> at_least got ord"
    by (rule implements_Some) (auto simp: at_least_def)
qed (rule implements_None [OF p])

lemma by_order_implements:
  assumes arch: "\<And>o' p. arch o' = Some p \<Longrightarrow> implements p g f o'"
    and generic: "\<And>o'. arch Relaxed = None \<Longrightarrow> arch Full = None \<Longrightarrow> implements (generic o') g f o'"
  shows "implements (by_order arch generic ord) g f ord"
  using arch generic
  by (cases ord) (auto simp: by_order_def split: option.split intro: implements_weaken implements_fenced)

lemma by_order_all: "by_order (\<lambda>o'. Some (p o')) generic ord = p ord"
  by (simp add: by_order_def)

lemma by_order_none: "by_order (\<lambda>_. None) generic ord = generic ord"
  by (simp add: by_order_def)

lemma implements_returning: "implements p g f ord \<Longrightarrow> implements (returning k p) (\<lambda>v. k (g v)) f ord"
  unfolding returning_def [abs_def] by (rule implements_map)

subsection \<open>Compare-and-exchange under contention\<close>

lemma tried_Some:
  assumes "tried old (arch_cmpxchg lse ord old new) ts = Some ((ok, c), new', got)"
  shows "c \<in> fst ` set ts" "ok \<longleftrightarrow> c = old" "new' = (if ok then new else c)" "ok \<Longrightarrow> at_least got ord"
proof -
  obtain r where r: "arch_cmpxchg lse ord old new ts = Some (r, new', got)"
    and o: "ok \<longleftrightarrow> r = old" "c = (if r \<noteq> old then r else old)"
    using assms by (auto simp: tried_def returning_def)
  then show "c \<in> fst ` set ts" "ok \<longleftrightarrow> c = old" "new' = (if ok then new else c)" "ok \<Longrightarrow> at_least got ord"
    using arch_cmpxchg_Some [OF r] by (auto split: if_splits)
qed

lemma tried_None: "tried old (arch_cmpxchg lse ord old new) ts = None \<Longrightarrow> \<forall>t\<in>set ts. \<not> snd t"
  using arch_cmpxchg_None [of lse ord old new ts] by (simp add: tried_def returning_def)

lemma uncontended: "tried old (arch_cmpxchg lse ord old new) [(old, True)] = Some ((True, old), new, ord)"
  by (simp add: tried_def returning_def arch_cmpxchg_def cmpxchg_case_def lse_ll_sc_body_def lse_cmpxchg_case_def CAS_def)

text \<open>
  What it takes to keep a compare-and-exchange loop going: every round, either no try of the
  exchange got through, or the exchange found a value other than the one expected, which
  another CPU has put there.
\<close>

fun disturbed :: "'n::len word \<Rightarrow> 'n tries list \<Rightarrow> bool" where
  "disturbed c [] \<longleftrightarrow> True"
| "disturbed c (ts # tss) \<longleftrightarrow>
     (\<forall>t\<in>set ts. \<not> snd t) \<or> (\<exists>c'\<in>fst ` set ts. c' \<noteq> c \<and> disturbed c' tss)"

declare raw_atomic_loop.simps [simp del] raw_atomic64_loop.simps [simp del]

subsection \<open>What the 32-bit operations implement\<close>

lemma raw_atomic_add_implements: "implements (raw_atomic_add lse i) (\<lambda>_. ()) (\<lambda>v. v + i) Relaxed"
  unfolding raw_atomic_add_def by (rule arch_atomic_add)

lemma raw_atomic_fetch_add_implements: "implements (raw_atomic_fetch_add lse ord i) (\<lambda>v. v) (\<lambda>v. v + i) ord"
  unfolding raw_atomic_fetch_add_def by_order_all by (rule arch_atomic_fetch_add)

lemma raw_atomic_add_return_implements: "implements (raw_atomic_add_return lse ord i) (\<lambda>v. v + i) (\<lambda>v. v + i) ord"
  unfolding raw_atomic_add_return_def by_order_all by (rule arch_atomic_add_return)

lemma raw_atomic_sub_implements: "implements (raw_atomic_sub lse i) (\<lambda>_. ()) (\<lambda>v. v - i) Relaxed"
  unfolding raw_atomic_sub_def by (rule arch_atomic_sub)

lemma raw_atomic_fetch_sub_implements: "implements (raw_atomic_fetch_sub lse ord i) (\<lambda>v. v) (\<lambda>v. v - i) ord"
  unfolding raw_atomic_fetch_sub_def by_order_all by (rule arch_atomic_fetch_sub)

lemma raw_atomic_sub_return_implements: "implements (raw_atomic_sub_return lse ord i) (\<lambda>v. v - i) (\<lambda>v. v - i) ord"
  unfolding raw_atomic_sub_return_def by_order_all by (rule arch_atomic_sub_return)

lemma raw_atomic_and_implements: "implements (raw_atomic_and lse i) (\<lambda>_. ()) (\<lambda>v. v AND i) Relaxed"
  unfolding raw_atomic_and_def by (rule arch_atomic_and)

lemma raw_atomic_fetch_and_implements: "implements (raw_atomic_fetch_and lse ord i) (\<lambda>v. v) (\<lambda>v. v AND i) ord"
  unfolding raw_atomic_fetch_and_def by_order_all by (rule arch_atomic_fetch_and)

lemma raw_atomic_andnot_implements: "implements (raw_atomic_andnot lse i) (\<lambda>_. ()) (\<lambda>v. v AND NOT i) Relaxed"
  unfolding raw_atomic_andnot_def by (rule arch_atomic_andnot)

lemma raw_atomic_fetch_andnot_implements: "implements (raw_atomic_fetch_andnot lse ord i) (\<lambda>v. v) (\<lambda>v. v AND NOT i) ord"
  unfolding raw_atomic_fetch_andnot_def by_order_all by (rule arch_atomic_fetch_andnot)

lemma raw_atomic_or_implements: "implements (raw_atomic_or lse i) (\<lambda>_. ()) (\<lambda>v. v OR i) Relaxed"
  unfolding raw_atomic_or_def by (rule arch_atomic_or)

lemma raw_atomic_fetch_or_implements: "implements (raw_atomic_fetch_or lse ord i) (\<lambda>v. v) (\<lambda>v. v OR i) ord"
  unfolding raw_atomic_fetch_or_def by_order_all by (rule arch_atomic_fetch_or)

lemma raw_atomic_xor_implements: "implements (raw_atomic_xor lse i) (\<lambda>_. ()) (\<lambda>v. v XOR i) Relaxed"
  unfolding raw_atomic_xor_def by (rule arch_atomic_xor)

lemma raw_atomic_fetch_xor_implements: "implements (raw_atomic_fetch_xor lse ord i) (\<lambda>v. v) (\<lambda>v. v XOR i) ord"
  unfolding raw_atomic_fetch_xor_def by_order_all by (rule arch_atomic_fetch_xor)

lemma raw_atomic_inc_implements: "implements (raw_atomic_inc lse) (\<lambda>_. ()) (\<lambda>v. v + 1) Relaxed"
  unfolding raw_atomic_inc_def by (rule raw_atomic_add_implements)

lemma raw_atomic_inc_return_implements: "implements (raw_atomic_inc_return lse ord) (\<lambda>v. v + 1) (\<lambda>v. v + 1) ord"
  unfolding raw_atomic_inc_return_def by_order_none by (rule raw_atomic_add_return_implements)

lemma raw_atomic_fetch_inc_implements: "implements (raw_atomic_fetch_inc lse ord) (\<lambda>v. v) (\<lambda>v. v + 1) ord"
  unfolding raw_atomic_fetch_inc_def by_order_none by (rule raw_atomic_fetch_add_implements)

lemma raw_atomic_dec_implements: "implements (raw_atomic_dec lse) (\<lambda>_. ()) (\<lambda>v. v - 1) Relaxed"
  unfolding raw_atomic_dec_def by (rule raw_atomic_sub_implements)

lemma raw_atomic_dec_return_implements: "implements (raw_atomic_dec_return lse ord) (\<lambda>v. v - 1) (\<lambda>v. v - 1) ord"
  unfolding raw_atomic_dec_return_def by_order_none by (rule raw_atomic_sub_return_implements)

lemma raw_atomic_fetch_dec_implements: "implements (raw_atomic_fetch_dec lse ord) (\<lambda>v. v) (\<lambda>v. v - 1) ord"
  unfolding raw_atomic_fetch_dec_def by_order_none by (rule raw_atomic_fetch_sub_implements)

lemma raw_atomic_xchg_implements: "implements (raw_atomic_xchg lse ord x) (\<lambda>v. v) (\<lambda>v. x) ord"
  unfolding raw_atomic_xchg_def raw_xchg_def by_order_none by_order_all by (rule arch_xchg)

lemma raw_atomic_sub_and_test_implements: "implements (raw_atomic_sub_and_test lse i) (\<lambda>v. v - i = 0) (\<lambda>v. v - i) Full"
  unfolding raw_atomic_sub_and_test_def by (rule implements_returning [OF raw_atomic_sub_return_implements])

lemma raw_atomic_dec_and_test_implements: "implements (raw_atomic_dec_and_test lse) (\<lambda>v. v - 1 = 0) (\<lambda>v. v - 1) Full"
  unfolding raw_atomic_dec_and_test_def by (rule implements_returning [OF raw_atomic_dec_return_implements])

lemma raw_atomic_inc_and_test_implements: "implements (raw_atomic_inc_and_test lse) (\<lambda>v. v + 1 = 0) (\<lambda>v. v + 1) Full"
  unfolding raw_atomic_inc_and_test_def by (rule implements_returning [OF raw_atomic_inc_return_implements])

lemma raw_atomic_add_negative_implements: "implements (raw_atomic_add_negative lse ord i) (\<lambda>v. v + i <s 0) (\<lambda>v. v + i) ord"
  unfolding raw_atomic_add_negative_def by_order_none by (rule implements_returning [OF raw_atomic_add_return_implements])

lemma raw_atomic_try_is_tried:
  "raw_atomic_try_cmpxchg lse ord old new = tried old (arch_cmpxchg lse ord old new)"
  by (simp add: raw_atomic_try_cmpxchg_def raw_atomic_cmpxchg_def raw_cmpxchg_def by_order_none by_order_all)

lemma raw_atomic_loop_Some:
  "raw_atomic_loop lse stop upd c tss = Some ((b, c'), new, got) \<Longrightarrow>
   c' \<in> insert c (\<Union>ts\<in>set tss. fst ` set ts) \<and> (b \<longleftrightarrow> \<not> stop c') \<and>
   new = (if b then upd c' else c') \<and> (b \<longrightarrow> got = Full)"
proof (induction lse stop upd c tss rule: raw_atomic_loop.induct)
  case (1 lse stop upd c tss)
  show ?case
  proof (cases "stop c")
    case True
    then show ?thesis using "1.prems" by (subst (asm) raw_atomic_loop.simps) auto
  next
    case False
    then obtain ts tss' where t: "tss = ts # tss'"
      using "1.prems" by (subst (asm) raw_atomic_loop.simps) (auto split: list.splits)
    then obtain ok c1 v o1 where r: "raw_atomic_try_cmpxchg lse Full c (upd c) ts = Some ((ok, c1), v, o1)"
      using "1.prems" False by (subst (asm) raw_atomic_loop.simps) (auto split: option.splits)
    note s = tried_Some [OF r [unfolded raw_atomic_try_is_tried]]
    show ?thesis
    proof (cases ok)
      case True
      then show ?thesis using "1.prems" False t r s
        by (subst (asm) raw_atomic_loop.simps) (auto simp: at_least_def)
    next
      case nok: False
      then have "raw_atomic_loop lse stop upd c1 tss' = Some ((b, c'), new, got)"
        using "1.prems" False t r by (subst (asm) raw_atomic_loop.simps) simp
      from "1.IH" [OF False t r refl refl refl nok this] s(1) t show ?thesis by auto
    qed
  qed
qed

lemma raw_atomic_loop_None: "raw_atomic_loop lse stop upd c tss = None \<Longrightarrow> disturbed c tss"
proof (induction lse stop upd c tss rule: raw_atomic_loop.induct)
  case (1 lse stop upd c tss)
  then have ns: "\<not> stop c" by (subst (asm) (2) raw_atomic_loop.simps) (simp split: if_splits)
  show ?case
  proof (cases tss)
    case (Cons ts tss')
    show ?thesis
    proof (cases "raw_atomic_try_cmpxchg lse Full c (upd c) ts")
      case None
      then show ?thesis using Cons by (simp add: raw_atomic_try_is_tried tried_None)
    next
      case (Some r)
      then obtain ok c1 v o1 where r: "raw_atomic_try_cmpxchg lse Full c (upd c) ts = Some ((ok, c1), v, o1)"
        by (cases r) auto
      note s = tried_Some [OF r [unfolded raw_atomic_try_is_tried]]
      have nok: "\<not> ok" and l: "raw_atomic_loop lse stop upd c1 tss' = None"
        using "1.prems" ns Cons r by (subst (asm) raw_atomic_loop.simps; simp split: if_splits)+
      from "1.IH" [OF ns Cons r refl refl refl nok l] s nok show ?thesis using Cons by auto
    qed
  qed simp
qed

lemma raw_atomic_loop_stop: "stop c \<Longrightarrow> raw_atomic_loop lse stop upd c tss = Some ((False, c), c, Relaxed)"
  by (simp add: raw_atomic_loop.simps)

lemma raw_atomic_loop_uncontended:
  "\<not> stop c \<Longrightarrow> raw_atomic_loop lse stop upd c ([(c, True)] # tss) = Some ((True, c), upd c, Full)"
  by (subst raw_atomic_loop.simps) (simp add: raw_atomic_try_is_tried uncontended)

subsection \<open>What the 64-bit operations implement\<close>

lemma raw_atomic64_add_implements: "implements (raw_atomic64_add lse i) (\<lambda>_. ()) (\<lambda>v. v + i) Relaxed"
  unfolding raw_atomic64_add_def by (rule arch_atomic64_add)

lemma raw_atomic64_fetch_add_implements: "implements (raw_atomic64_fetch_add lse ord i) (\<lambda>v. v) (\<lambda>v. v + i) ord"
  unfolding raw_atomic64_fetch_add_def by_order_all by (rule arch_atomic64_fetch_add)

lemma raw_atomic64_add_return_implements: "implements (raw_atomic64_add_return lse ord i) (\<lambda>v. v + i) (\<lambda>v. v + i) ord"
  unfolding raw_atomic64_add_return_def by_order_all by (rule arch_atomic64_add_return)

lemma raw_atomic64_sub_implements: "implements (raw_atomic64_sub lse i) (\<lambda>_. ()) (\<lambda>v. v - i) Relaxed"
  unfolding raw_atomic64_sub_def by (rule arch_atomic64_sub)

lemma raw_atomic64_fetch_sub_implements: "implements (raw_atomic64_fetch_sub lse ord i) (\<lambda>v. v) (\<lambda>v. v - i) ord"
  unfolding raw_atomic64_fetch_sub_def by_order_all by (rule arch_atomic64_fetch_sub)

lemma raw_atomic64_sub_return_implements: "implements (raw_atomic64_sub_return lse ord i) (\<lambda>v. v - i) (\<lambda>v. v - i) ord"
  unfolding raw_atomic64_sub_return_def by_order_all by (rule arch_atomic64_sub_return)

lemma raw_atomic64_and_implements: "implements (raw_atomic64_and lse i) (\<lambda>_. ()) (\<lambda>v. v AND i) Relaxed"
  unfolding raw_atomic64_and_def by (rule arch_atomic64_and)

lemma raw_atomic64_fetch_and_implements: "implements (raw_atomic64_fetch_and lse ord i) (\<lambda>v. v) (\<lambda>v. v AND i) ord"
  unfolding raw_atomic64_fetch_and_def by_order_all by (rule arch_atomic64_fetch_and)

lemma raw_atomic64_andnot_implements: "implements (raw_atomic64_andnot lse i) (\<lambda>_. ()) (\<lambda>v. v AND NOT i) Relaxed"
  unfolding raw_atomic64_andnot_def by (rule arch_atomic64_andnot)

lemma raw_atomic64_fetch_andnot_implements: "implements (raw_atomic64_fetch_andnot lse ord i) (\<lambda>v. v) (\<lambda>v. v AND NOT i) ord"
  unfolding raw_atomic64_fetch_andnot_def by_order_all by (rule arch_atomic64_fetch_andnot)

lemma raw_atomic64_or_implements: "implements (raw_atomic64_or lse i) (\<lambda>_. ()) (\<lambda>v. v OR i) Relaxed"
  unfolding raw_atomic64_or_def by (rule arch_atomic64_or)

lemma raw_atomic64_fetch_or_implements: "implements (raw_atomic64_fetch_or lse ord i) (\<lambda>v. v) (\<lambda>v. v OR i) ord"
  unfolding raw_atomic64_fetch_or_def by_order_all by (rule arch_atomic64_fetch_or)

lemma raw_atomic64_xor_implements: "implements (raw_atomic64_xor lse i) (\<lambda>_. ()) (\<lambda>v. v XOR i) Relaxed"
  unfolding raw_atomic64_xor_def by (rule arch_atomic64_xor)

lemma raw_atomic64_fetch_xor_implements: "implements (raw_atomic64_fetch_xor lse ord i) (\<lambda>v. v) (\<lambda>v. v XOR i) ord"
  unfolding raw_atomic64_fetch_xor_def by_order_all by (rule arch_atomic64_fetch_xor)

lemma raw_atomic64_inc_implements: "implements (raw_atomic64_inc lse) (\<lambda>_. ()) (\<lambda>v. v + 1) Relaxed"
  unfolding raw_atomic64_inc_def by (rule raw_atomic64_add_implements)

lemma raw_atomic64_inc_return_implements: "implements (raw_atomic64_inc_return lse ord) (\<lambda>v. v + 1) (\<lambda>v. v + 1) ord"
  unfolding raw_atomic64_inc_return_def by_order_none by (rule raw_atomic64_add_return_implements)

lemma raw_atomic64_fetch_inc_implements: "implements (raw_atomic64_fetch_inc lse ord) (\<lambda>v. v) (\<lambda>v. v + 1) ord"
  unfolding raw_atomic64_fetch_inc_def by_order_none by (rule raw_atomic64_fetch_add_implements)

lemma raw_atomic64_dec_implements: "implements (raw_atomic64_dec lse) (\<lambda>_. ()) (\<lambda>v. v - 1) Relaxed"
  unfolding raw_atomic64_dec_def by (rule raw_atomic64_sub_implements)

lemma raw_atomic64_dec_return_implements: "implements (raw_atomic64_dec_return lse ord) (\<lambda>v. v - 1) (\<lambda>v. v - 1) ord"
  unfolding raw_atomic64_dec_return_def by_order_none by (rule raw_atomic64_sub_return_implements)

lemma raw_atomic64_fetch_dec_implements: "implements (raw_atomic64_fetch_dec lse ord) (\<lambda>v. v) (\<lambda>v. v - 1) ord"
  unfolding raw_atomic64_fetch_dec_def by_order_none by (rule raw_atomic64_fetch_sub_implements)

lemma raw_atomic64_xchg_implements: "implements (raw_atomic64_xchg lse ord x) (\<lambda>v. v) (\<lambda>v. x) ord"
  unfolding raw_atomic64_xchg_def raw_xchg_def by_order_none by_order_all by (rule arch_xchg)

lemma raw_atomic64_sub_and_test_implements: "implements (raw_atomic64_sub_and_test lse i) (\<lambda>v. v - i = 0) (\<lambda>v. v - i) Full"
  unfolding raw_atomic64_sub_and_test_def by (rule implements_returning [OF raw_atomic64_sub_return_implements])

lemma raw_atomic64_dec_and_test_implements: "implements (raw_atomic64_dec_and_test lse) (\<lambda>v. v - 1 = 0) (\<lambda>v. v - 1) Full"
  unfolding raw_atomic64_dec_and_test_def by (rule implements_returning [OF raw_atomic64_dec_return_implements])

lemma raw_atomic64_inc_and_test_implements: "implements (raw_atomic64_inc_and_test lse) (\<lambda>v. v + 1 = 0) (\<lambda>v. v + 1) Full"
  unfolding raw_atomic64_inc_and_test_def by (rule implements_returning [OF raw_atomic64_inc_return_implements])

lemma raw_atomic64_add_negative_implements: "implements (raw_atomic64_add_negative lse ord i) (\<lambda>v. v + i <s 0) (\<lambda>v. v + i) ord"
  unfolding raw_atomic64_add_negative_def by_order_none by (rule implements_returning [OF raw_atomic64_add_return_implements])

lemma raw_atomic64_try_is_tried:
  "raw_atomic64_try_cmpxchg lse ord old new = tried old (arch_cmpxchg lse ord old new)"
  by (simp add: raw_atomic64_try_cmpxchg_def raw_atomic64_cmpxchg_def raw_cmpxchg_def by_order_none by_order_all)

lemma raw_atomic64_loop_Some:
  "raw_atomic64_loop lse stop upd c tss = Some ((b, c'), new, got) \<Longrightarrow>
   c' \<in> insert c (\<Union>ts\<in>set tss. fst ` set ts) \<and> (b \<longleftrightarrow> \<not> stop c') \<and>
   new = (if b then upd c' else c') \<and> (b \<longrightarrow> got = Full)"
proof (induction lse stop upd c tss rule: raw_atomic64_loop.induct)
  case (1 lse stop upd c tss)
  show ?case
  proof (cases "stop c")
    case True
    then show ?thesis using "1.prems" by (subst (asm) raw_atomic64_loop.simps) auto
  next
    case False
    then obtain ts tss' where t: "tss = ts # tss'"
      using "1.prems" by (subst (asm) raw_atomic64_loop.simps) (auto split: list.splits)
    then obtain ok c1 v o1 where r: "raw_atomic64_try_cmpxchg lse Full c (upd c) ts = Some ((ok, c1), v, o1)"
      using "1.prems" False by (subst (asm) raw_atomic64_loop.simps) (auto split: option.splits)
    note s = tried_Some [OF r [unfolded raw_atomic64_try_is_tried]]
    show ?thesis
    proof (cases ok)
      case True
      then show ?thesis using "1.prems" False t r s
        by (subst (asm) raw_atomic64_loop.simps) (auto simp: at_least_def)
    next
      case nok: False
      then have "raw_atomic64_loop lse stop upd c1 tss' = Some ((b, c'), new, got)"
        using "1.prems" False t r by (subst (asm) raw_atomic64_loop.simps) simp
      from "1.IH" [OF False t r refl refl refl nok this] s(1) t show ?thesis by auto
    qed
  qed
qed

lemma raw_atomic64_loop_None: "raw_atomic64_loop lse stop upd c tss = None \<Longrightarrow> disturbed c tss"
proof (induction lse stop upd c tss rule: raw_atomic64_loop.induct)
  case (1 lse stop upd c tss)
  then have ns: "\<not> stop c" by (subst (asm) (2) raw_atomic64_loop.simps) (simp split: if_splits)
  show ?case
  proof (cases tss)
    case (Cons ts tss')
    show ?thesis
    proof (cases "raw_atomic64_try_cmpxchg lse Full c (upd c) ts")
      case None
      then show ?thesis using Cons by (simp add: raw_atomic64_try_is_tried tried_None)
    next
      case (Some r)
      then obtain ok c1 v o1 where r: "raw_atomic64_try_cmpxchg lse Full c (upd c) ts = Some ((ok, c1), v, o1)"
        by (cases r) auto
      note s = tried_Some [OF r [unfolded raw_atomic64_try_is_tried]]
      have nok: "\<not> ok" and l: "raw_atomic64_loop lse stop upd c1 tss' = None"
        using "1.prems" ns Cons r by (subst (asm) raw_atomic64_loop.simps; simp split: if_splits)+
      from "1.IH" [OF ns Cons r refl refl refl nok l] s nok show ?thesis using Cons by auto
    qed
  qed simp
qed

lemma raw_atomic64_loop_stop: "stop c \<Longrightarrow> raw_atomic64_loop lse stop upd c tss = Some ((False, c), c, Relaxed)"
  by (simp add: raw_atomic64_loop.simps)

lemma raw_atomic64_loop_uncontended:
  "\<not> stop c \<Longrightarrow> raw_atomic64_loop lse stop upd c ([(c, True)] # tss) = Some ((True, c), upd c, Full)"
  by (subst raw_atomic64_loop.simps) (simp add: raw_atomic64_try_is_tried uncontended)

lemmas raw_atomic_implements =
  raw_atomic_add_implements
  raw_atomic_fetch_add_implements
  raw_atomic_add_return_implements
  raw_atomic_sub_implements
  raw_atomic_fetch_sub_implements
  raw_atomic_sub_return_implements
  raw_atomic_and_implements
  raw_atomic_fetch_and_implements
  raw_atomic_andnot_implements
  raw_atomic_fetch_andnot_implements
  raw_atomic_or_implements
  raw_atomic_fetch_or_implements
  raw_atomic_xor_implements
  raw_atomic_fetch_xor_implements
  raw_atomic_inc_implements
  raw_atomic_inc_return_implements
  raw_atomic_fetch_inc_implements
  raw_atomic_dec_implements
  raw_atomic_dec_return_implements
  raw_atomic_fetch_dec_implements
  raw_atomic_xchg_implements
  raw_atomic_sub_and_test_implements
  raw_atomic_dec_and_test_implements
  raw_atomic_inc_and_test_implements
  raw_atomic_add_negative_implements

lemmas raw_atomic64_implements =
  raw_atomic64_add_implements
  raw_atomic64_fetch_add_implements
  raw_atomic64_add_return_implements
  raw_atomic64_sub_implements
  raw_atomic64_fetch_sub_implements
  raw_atomic64_sub_return_implements
  raw_atomic64_and_implements
  raw_atomic64_fetch_and_implements
  raw_atomic64_andnot_implements
  raw_atomic64_fetch_andnot_implements
  raw_atomic64_or_implements
  raw_atomic64_fetch_or_implements
  raw_atomic64_xor_implements
  raw_atomic64_fetch_xor_implements
  raw_atomic64_inc_implements
  raw_atomic64_inc_return_implements
  raw_atomic64_fetch_inc_implements
  raw_atomic64_dec_implements
  raw_atomic64_dec_return_implements
  raw_atomic64_fetch_dec_implements
  raw_atomic64_xchg_implements
  raw_atomic64_sub_and_test_implements
  raw_atomic64_dec_and_test_implements
  raw_atomic64_inc_and_test_implements
  raw_atomic64_add_negative_implements

end
