(* ===== verification/Objpool_Race.thy ===== *)
theory Objpool_Race
  imports Objpool Atomic_Raw
begin

text \<open>
  One slot of the object pool (objpool.h) under races: any number of CPUs take objects out of it
  while its own CPU puts objects in, each running \<open>__objpool_try_get_slot\<close> or
  \<open>__objpool_try_add_slot\<close> one memory access at a time. Interrupts are off in both, so the slot
  has one pusher. The compare-and-exchanges are those of the arm64 model. What a slot must look
  like to its users is a queue of objects: every step is a step of the queue or invisible.
\<close>

subsection \<open>The code, access by access\<close>

datatype popper =
    Outside
  | Rereading
  | Looked u32
  | Passed u32
  | Fetching u32
  | Taking u32 u64

datatype pusher =
    Resting
  | Read_tail u64 u32
  | Reserving u64 u32
  | Filling u64 u32
  | Publishing u64 u32

record ring_race =
  slot :: objpool_slot
  poppers :: "popper list"
  pusher :: pusher

datatype ring_event = Silent | Started u64 | Pushed u64 | Popped u64 | Nothing | Overrun nat

datatype ring_thread = Taker nat | Putter

definition at_popper :: "nat \<Rightarrow> popper \<Rightarrow> ring_race \<Rightarrow> bool" where
  "at_popper p ph s \<longleftrightarrow> p < length (poppers s) \<and> poppers s ! p = ph"

definition goto :: "nat \<Rightarrow> popper \<Rightarrow> ring_race \<Rightarrow> ring_race" where
  "goto p ph s = s\<lparr>poppers := (poppers s)[p := ph]\<rparr>"

text \<open>
  The steps of the taker \<open>p\<close> and of the putter.
\<close>

inductive ring_step :: "bool \<Rightarrow> u32 \<Rightarrow> ring_thread \<Rightarrow> ring_race \<Rightarrow> ring_event \<Rightarrow> ring_race \<Rightarrow> bool"
  for lse :: bool and nr :: u32 where
  look: "at_popper p Outside s \<or> at_popper p Rereading s \<Longrightarrow>
     ring_step lse nr (Taker p) s Silent (goto p (Looked (fst (smp_load_acquire (head (slot s))))) s)"
| empty: "at_popper p (Looked h) s \<Longrightarrow> h = last (slot s) \<Longrightarrow>
     ring_step lse nr (Taker p) s Nothing (goto p Outside s)"
| enter: "at_popper p (Looked h) s \<Longrightarrow> h \<noteq> last (slot s) \<Longrightarrow>
     ring_step lse nr (Taker p) s Silent (goto p (Passed h) s)"
| stale: "at_popper p (Passed h) s \<Longrightarrow> last (slot s) - h - 1 \<ge> nr \<Longrightarrow>
     ring_step lse nr (Taker p) s Silent (goto p Rereading s)"
| fresh: "at_popper p (Passed h) s \<Longrightarrow> \<not> last (slot s) - h - 1 \<ge> nr \<Longrightarrow>
     ring_step lse nr (Taker p) s Silent (goto p (Fetching h) s)"
| fetch: "at_popper p (Fetching h) s \<Longrightarrow> unat (h AND mask (slot s)) < length (entries (slot s)) \<Longrightarrow>
     ring_step lse nr (Taker p) s Silent (goto p (Taking h (entries (slot s) ! unat (h AND mask (slot s)))) s)"
| fetch_overrun: "at_popper p (Fetching h) s \<Longrightarrow> \<not> unat (h AND mask (slot s)) < length (entries (slot s)) \<Longrightarrow>
     ring_step lse nr (Taker p) s (Overrun (unat (h AND mask (slot s)))) s"
| take: "at_popper p (Taking h obj) s \<Longrightarrow>
     raw_try_cmpxchg lse Release h (h + 1) [(head (slot s), True)] = Some ((ok, seen), new, got) \<Longrightarrow>
     ring_step lse nr (Taker p) s (if ok then Popped obj else Silent)
       (goto p (if ok then Outside else Looked seen) (s\<lparr>slot := (slot s)\<lparr>head := new\<rparr>\<rparr>))"
| push: "pusher s = Resting \<Longrightarrow>
     ring_step lse nr Putter s (Started obj) (s\<lparr>pusher := Read_tail obj (tail (slot s))\<rparr>)"
| peek: "pusher s = Read_tail obj t \<Longrightarrow> ring_step lse nr Putter s Silent (s\<lparr>pusher := Reserving obj t\<rparr>)"
| reserve: "pusher s = Reserving obj t \<Longrightarrow>
     raw_try_cmpxchg lse Acquire t (t + 1) [(tail (slot s), True)] = Some ((ok, seen), new, got) \<Longrightarrow>
     ring_step lse nr Putter s Silent
       (s\<lparr>slot := (slot s)\<lparr>tail := new\<rparr>, pusher := (if ok then Filling obj t else Read_tail obj seen)\<rparr>)"
| fill: "pusher s = Filling obj t \<Longrightarrow> unat (t AND mask (slot s)) < length (entries (slot s)) \<Longrightarrow>
     ring_step lse nr Putter s Silent
       (s\<lparr>slot := (slot s)\<lparr>entries := (entries (slot s))[unat (t AND mask (slot s)) := obj]\<rparr>,
          pusher := Publishing obj t\<rparr>)"
| fill_overrun: "pusher s = Filling obj t \<Longrightarrow> \<not> unat (t AND mask (slot s)) < length (entries (slot s)) \<Longrightarrow>
     ring_step lse nr Putter s (Overrun (unat (t AND mask (slot s)))) s"
| publish: "pusher s = Publishing obj t \<Longrightarrow>
     ring_step lse nr Putter s (Pushed obj)
       (s\<lparr>slot := (slot s)\<lparr>last := fst (smp_store_release (last (slot s)) (t + 1))\<rparr>, pusher := Resting\<rparr>)"

text \<open>
  An object is put in only when it was out, so the ring holds fewer than \<open>nr\<close> then: what the
  users of the pool promise.
\<close>

fun contract :: "u32 \<Rightarrow> ring_race \<Rightarrow> ring_event \<Rightarrow> bool" where
  "contract nr s (Started obj) \<longleftrightarrow> unat (last (slot s) - head (slot s)) < unat nr"
| "contract nr s e \<longleftrightarrow> True"

inductive ring_run :: "bool \<Rightarrow> u32 \<Rightarrow> ring_race \<Rightarrow> ring_event list \<Rightarrow> ring_race \<Rightarrow> bool"
  for lse :: bool and nr :: u32 where
  none: "ring_run lse nr s [] s"
| more: "ring_run lse nr s es s' \<Longrightarrow> ring_step lse nr th s' e s'' \<Longrightarrow> contract nr s' e \<Longrightarrow>
     ring_run lse nr s (es @ [e]) s''"

subsection \<open>The queue\<close>

fun queue_step :: "u64 list \<Rightarrow> ring_event \<Rightarrow> u64 list option" where
  "queue_step q Silent = Some q"
| "queue_step q (Started x) = Some q"
| "queue_step q (Pushed x) = Some (q @ [x])"
| "queue_step q (Popped x) = (case q of [] \<Rightarrow> None | y # q' \<Rightarrow> if x = y then Some q' else None)"
| "queue_step q Nothing = (if q = [] then Some q else None)"
| "queue_step q (Overrun i) = None"

fun queue_run :: "u64 list \<Rightarrow> ring_event list \<Rightarrow> u64 list option" where
  "queue_run q [] = Some q"
| "queue_run q (e # es) = (case queue_step q e of None \<Rightarrow> None | Some q' \<Rightarrow> queue_run q' es)"

lemma queue_run_snoc:
  "queue_run q es = Some q' \<Longrightarrow> queue_run q (es @ [e]) = queue_step q' e"
  by (induction es arbitrary: q) (auto split: option.splits)

fun is_pop :: "ring_event \<Rightarrow> bool" where
  "is_pop (Popped x) \<longleftrightarrow> True"
| "is_pop e \<longleftrightarrow> False"

fun is_push :: "ring_event \<Rightarrow> bool" where
  "is_push (Pushed x) \<longleftrightarrow> True"
| "is_push e \<longleftrightarrow> False"

subsection \<open>Positions\<close>

text \<open>
  The indices wrap at \<open>2 ^ 32\<close>; the proof counts positions without wrapping. Two positions
  less than \<open>2 ^ 32\<close> apart have the same index only if they are the same.
\<close>

abbreviation idx :: "nat \<Rightarrow> u32" where
  "idx \<equiv> word_of_nat"

lemma idx_diff:
  assumes "n \<le> m" "m < n + 2 ^ 32"
  shows "unat (idx m - idx n) = m - n"
proof -
  obtain d where m: "m = n + d" using assms(1) by (auto simp: le_iff_add)
  have "unat (idx d) = d" using assms(2) by (simp add: unat_of_nat m)
  then show ?thesis by (simp add: m)
qed

lemma idx_eq_window:
  assumes "idx n = idx m" "b \<le> n" "n < b + 2 ^ 32" "b \<le> m" "m < b + 2 ^ 32"
  shows "n = m"
proof (rule ccontr)
  assume "n \<noteq> m"
  then consider "n < m" | "m < n" by linarith
  then show False
  proof cases
    case 1
    then have "unat (idx m - idx n) = m - n" using assms(2-) by (intro idx_diff) auto
    then show False using 1 by (simp add: assms(1))
  next
    case 2
    then have "unat (idx n - idx m) = n - m" using assms(2-) by (intro idx_diff) auto
    then show False using 2 by (simp add: assms(1))
  qed
qed

definition window :: "objpool_slot \<Rightarrow> nat \<Rightarrow> nat \<Rightarrow> u64 list" where
  "window sl n m = map (\<lambda>i. ring_at sl (idx i)) [n..<m]"

lemma queue_is_window:
  assumes "head sl = idx n" "last sl = idx m" "n \<le> m" "m < n + 2 ^ 32"
  shows "slot_queue sl = window sl n m"
proof -
  have "slot_queue sl = map (\<lambda>i. ring_at sl (idx (n + i))) [0..<m - n]"
    using idx_diff [OF assms(3,4)] by (simp add: slot_queue_def assms(1,2))
  also have "\<dots> = window sl n m"
    unfolding window_def by (rule nth_equalityI) simp_all
  finally show ?thesis .
qed

lemma window_first: "n < m \<Longrightarrow> window sl n m = ring_at sl (idx n) # window sl (Suc n) m"
  by (simp add: window_def upt_conv_Cons)

lemma window_snoc: "n \<le> m \<Longrightarrow> window sl n (Suc m) = window sl n m @ [ring_at sl (idx m)]"
  by (simp add: window_def)

lemma window_cong: "(\<And>i. n \<le> i \<Longrightarrow> i < m \<Longrightarrow> ring_at sl (idx i) = ring_at sl' (idx i)) \<Longrightarrow> window sl n m = window sl' n m"
  by (simp add: window_def)

lemma ring_at_other:
  assumes size: "ring_size sl k" and ne: "i \<noteq> j" and near: "h \<le> i" "i < h + 2 ^ k" "h \<le> j" "j < h + 2 ^ k"
  shows "unat (idx i AND mask sl) \<noteq> unat (idx j AND mask sl)"
proof -
  have k: "k < 32" and m: "mask sl = Bit_Operations.mask k" using size by (auto simp: ring_size_def)
  have "(h + (i - h)) mod 2 ^ k \<noteq> (h + (j - h)) mod (2 ^ k :: nat)"
    using ne near by (intro ring_cells_distinct [OF k]) auto
  then have "i mod 2 ^ k \<noteq> j mod (2 ^ k :: nat)" using near by simp
  moreover have "unat (idx n AND mask sl) = n mod 2 ^ k" for n
    using ring_index_add [OF k, of 0 n] by (simp add: m)
  ultimately show ?thesis by simp
qed

subsection \<open>The invariant\<close>

text \<open>
  Positions \<open>n .. m\<close> are in the ring. A popper's copy of \<open>head\<close> is a position it had since the
  start \<open>b\<close>; once past the test of the loop it is a position that was in the ring, and the object
  it has fetched is the oldest one as long as nobody has taken that.
\<close>

definition position :: "nat \<Rightarrow> nat \<Rightarrow> u32 \<Rightarrow> nat \<Rightarrow> bool" where
  "position b n h i \<longleftrightarrow> h = idx i \<and> b \<le> i \<and> i \<le> n"

fun popper_ok :: "nat \<Rightarrow> nat \<Rightarrow> nat \<Rightarrow> objpool_slot \<Rightarrow> popper \<Rightarrow> bool" where
  "popper_ok b n m sl (Looked h) \<longleftrightarrow> (\<exists>i. position b n h i)"
| "popper_ok b n m sl (Passed h) \<longleftrightarrow> (\<exists>i<m. position b n h i)"
| "popper_ok b n m sl (Fetching h) \<longleftrightarrow> (\<exists>i<m. position b n h i)"
| "popper_ok b n m sl (Taking h obj) \<longleftrightarrow> (\<exists>i<m. position b n h i \<and> (i = n \<longrightarrow> obj = ring_at sl (idx n)))"
| "popper_ok b n m sl ph \<longleftrightarrow> True"

fun pusher_ok :: "nat \<Rightarrow> nat \<Rightarrow> objpool_slot \<Rightarrow> pusher \<Rightarrow> bool" where
  "pusher_ok room m sl Resting \<longleftrightarrow> tail sl = idx m"
| "pusher_ok room m sl (Read_tail obj t) \<longleftrightarrow> tail sl = idx m \<and> t = idx m \<and> 0 < room"
| "pusher_ok room m sl (Reserving obj t) \<longleftrightarrow> tail sl = idx m \<and> t = idx m \<and> 0 < room"
| "pusher_ok room m sl (Filling obj t) \<longleftrightarrow> tail sl = idx (Suc m) \<and> t = idx m \<and> 0 < room"
| "pusher_ok room m sl (Publishing obj t) \<longleftrightarrow>
     tail sl = idx (Suc m) \<and> t = idx m \<and> 0 < room \<and> ring_at sl (idx m) = obj"

definition ring_inv :: "nat \<Rightarrow> nat \<Rightarrow> u32 \<Rightarrow> nat \<Rightarrow> nat \<Rightarrow> ring_race \<Rightarrow> bool" where
  "ring_inv b k nr n m s \<longleftrightarrow>
     ring_size (slot s) k \<and> unat nr \<le> 2 ^ k \<and> head (slot s) = idx n \<and> last (slot s) = idx m \<and>
     b \<le> n \<and> n \<le> m \<and> m \<le> n + unat nr \<and>
     pusher_ok (n + unat nr - m) m (slot s) (pusher s) \<and>
     list_all (popper_ok b n m (slot s)) (poppers s)"

lemma ring_inv_queue: "ring_inv b k nr n m s \<Longrightarrow> slot_queue (slot s) = window (slot s) n m"
  unfolding ring_inv_def using unat_less_32 [of nr] by (intro queue_is_window) auto

lemma at_popper_ok:
  "at_popper p ph s \<Longrightarrow> ring_inv b k nr n m s \<Longrightarrow> popper_ok b n m (slot s) ph"
  by (auto simp: at_popper_def ring_inv_def list_all_length)

lemma goto_inv:
  "ring_inv b k nr n m s \<Longrightarrow> popper_ok b n m (slot s) ph \<Longrightarrow> ring_inv b k nr n m (goto p ph s)"
  by (auto simp: ring_inv_def goto_def list_all_iff dest: subsetD [OF set_update_subset_insert])

lemma goto_simps [simp]: "slot (goto p ph s) = slot s" "pusher (goto p ph s) = pusher s"
  by (simp_all add: goto_def)

lemma popper_ok_pop: "popper_ok b n m sl ph \<Longrightarrow> popper_ok b (Suc n) m sl' ph"
  by (cases ph) (fastforce simp: position_def)+

lemma popper_ok_keep:
  "popper_ok b n m sl ph \<Longrightarrow> m \<le> m' \<Longrightarrow> (n < m \<Longrightarrow> ring_at sl' (idx n) = ring_at sl (idx n)) \<Longrightarrow>
   popper_ok b n m' sl' ph"
  by (cases ph) (auto simp: position_def intro: less_le_trans)

lemma pusher_ok_room: "pusher_ok room m sl pu \<Longrightarrow> room \<le> room' \<Longrightarrow> pusher_ok room' m sl pu"
  by (cases pu) auto

lemma slot_frame [simp]:
  "ring_at (sl\<lparr>head := x\<rparr>) i = ring_at sl i" "ring_at (sl\<lparr>tail := x\<rparr>) i = ring_at sl i"
  "ring_at (sl\<lparr>last := x\<rparr>) i = ring_at sl i" "ring_size (sl\<lparr>head := x\<rparr>) k = ring_size sl k"
  "ring_size (sl\<lparr>tail := x\<rparr>) k = ring_size sl k" "ring_size (sl\<lparr>last := x\<rparr>) k = ring_size sl k"
  "ring_size (sl\<lparr>entries := (entries sl)[j := v]\<rparr>) k = ring_size sl k"
  by (simp_all add: ring_at_def ring_size_def)

lemma window_frame [simp]: "window (sl\<lparr>head := x\<rparr>) = window sl" "window (sl\<lparr>tail := x\<rparr>) = window sl"
  "window (sl\<lparr>last := x\<rparr>) = window sl"
  by (simp_all add: window_def fun_eq_iff)

lemma pusher_ok_head [simp]: "pusher_ok room m (sl\<lparr>head := x\<rparr>) pu = pusher_ok room m sl pu"
  by (cases pu) simp_all

lemma popper_ok_frame [simp]:
  "popper_ok b n m (sl\<lparr>head := x\<rparr>) = popper_ok b n m sl" "popper_ok b n m (sl\<lparr>tail := x\<rparr>) = popper_ok b n m sl"
  "popper_ok b n m (sl\<lparr>last := x\<rparr>) = popper_ok b n m sl"
proof -
  have *: "popper_ok b n m sl' ph = popper_ok b n m sl ph" if "\<And>i. ring_at sl' i = ring_at sl i" for sl' ph
    by (cases ph) (simp_all add: that)
  show "popper_ok b n m (sl\<lparr>head := x\<rparr>) = popper_ok b n m sl" "popper_ok b n m (sl\<lparr>tail := x\<rparr>) = popper_ok b n m sl"
    "popper_ok b n m (sl\<lparr>last := x\<rparr>) = popper_ok b n m sl"
    by (rule ext, rule *, rule slot_frame)+
qed

lemma raw_try_is_tried: "raw_try_cmpxchg lse ord old new = tried old (arch_cmpxchg lse ord old new)"
  by (simp only: raw_try_cmpxchg_def raw_cmpxchg_def by_order_none by_order_all)

lemma try_is_atomic:
  assumes "raw_try_cmpxchg lse ord old new [(v, True)] = Some ((ok, seen), new', got)"
  shows "ok \<longleftrightarrow> v = old" "new' = (if ok then new else v)" "seen = v"
proof -
  note t = tried_Some [OF assms [unfolded raw_try_is_tried]]
  show s: "seen = v" using t(1) by simp
  show "ok \<longleftrightarrow> v = old" "new' = (if ok then new else v)" using t(2,3) s by simp_all
qed

text \<open>The two steps that move the queue.\<close>

lemma inv_take:
  assumes inv: "ring_inv b k nr n m s" and h: "position b n h i" "i < m" "head (slot s) = h"
    and short: "n + unat nr < b + 2 ^ 32"
  shows "i = n" "ring_inv b k nr (Suc n) m (goto p Outside (s\<lparr>slot := (slot s)\<lparr>head := h + 1\<rparr>\<rparr>))"
    "slot_queue (slot s) = ring_at (slot s) (idx n) # window (slot s) (Suc n) m"
proof -
  have "idx i = idx n" using inv h by (simp add: ring_inv_def position_def)
  then show i: "i = n" using h(1) inv short by (intro idx_eq_window [of i n b]) (auto simp: ring_inv_def position_def)
  show "slot_queue (slot s) = ring_at (slot s) (idx n) # window (slot s) (Suc n) m"
    using ring_inv_queue [OF inv] window_first [of n m] h(2) i by simp
  have "list_all (popper_ok b (Suc n) m ((slot s)\<lparr>head := h + 1\<rparr>)) (poppers s)"
    using inv popper_ok_pop by (fastforce simp: ring_inv_def list_all_iff)
  moreover have "h + 1 = idx (Suc n)" using h inv i by (simp add: position_def add.commute)
  ultimately have "ring_inv b k nr (Suc n) m (s\<lparr>slot := (slot s)\<lparr>head := h + 1\<rparr>\<rparr>)"
    using inv h(2) i pusher_ok_room [of "n + unat nr - m" m "slot s" "pusher s"] by (auto simp: ring_inv_def)
  then show "ring_inv b k nr (Suc n) m (goto p Outside (s\<lparr>slot := (slot s)\<lparr>head := h + 1\<rparr>\<rparr>))"
    by (rule goto_inv) simp
qed

lemma inv_publish:
  assumes inv: "ring_inv b k nr n m s" and pu: "pusher s = Publishing obj t"
  shows "ring_inv b k nr n (Suc m) (s\<lparr>slot := (slot s)\<lparr>last := t + 1\<rparr>, pusher := Resting\<rparr>)"
    "window (slot s) n (Suc m) = slot_queue (slot s) @ [obj]"
proof -
  have "list_all (popper_ok b n (Suc m) ((slot s)\<lparr>last := t + 1\<rparr>)) (poppers s)"
    using inv popper_ok_keep [of b n m "slot s" _ "Suc m"] by (auto simp: ring_inv_def list_all_iff)
  then show "ring_inv b k nr n (Suc m) (s\<lparr>slot := (slot s)\<lparr>last := t + 1\<rparr>, pusher := Resting\<rparr>)"
    using inv pu by (auto simp: ring_inv_def add.commute)
  show "window (slot s) n (Suc m) = slot_queue (slot s) @ [obj]"
    using ring_inv_queue [OF inv] window_snoc [of n m] inv pu by (simp add: ring_inv_def)
qed

lemma inv_fill:
  assumes inv: "ring_inv b k nr n m s" and pu: "pusher s = Filling obj t"
  defines "sl \<equiv> (slot s)\<lparr>entries := (entries (slot s))[unat (t AND mask (slot s)) := obj]\<rparr>"
  shows "ring_inv b k nr n m (s\<lparr>slot := sl, pusher := Publishing obj t\<rparr>)"
    "window sl n m = slot_queue (slot s)"
proof -
  have size: "ring_size (slot s) k" and t: "t = idx m" and room: "m < n + unat nr" "unat nr \<le> 2 ^ k" "n \<le> m"
    using inv pu by (auto simp: ring_inv_def)
  have old: "ring_at sl (idx i) = ring_at (slot s) (idx i)" if "n \<le> i" "i < m" for i
    using ring_at_other [OF size, of i m n] that room by (simp add: sl_def ring_at_def t)
  have new: "ring_at sl (idx m) = obj"
    using ring_in_bounds [OF size] by (simp add: sl_def ring_at_def t)
  show "window sl n m = slot_queue (slot s)"
    using window_cong [of n m sl "slot s"] old ring_inv_queue [OF inv] by simp
  have "list_all (popper_ok b n m sl) (poppers s)"
    using inv popper_ok_keep [of b n m "slot s" _ m sl] old by (auto simp: ring_inv_def list_all_iff)
  then show "ring_inv b k nr n m (s\<lparr>slot := sl, pusher := Publishing obj t\<rparr>)"
    using inv pu new by (auto simp: ring_inv_def sl_def)
qed

lemma position_index:
  assumes "position b n h i" "n + unat nr < b + 2 ^ 32" "n \<le> m" "m \<le> n + unat nr" "h = idx m"
  shows "i = m"
  using assms by (intro idx_eq_window [of i m b]) (auto simp: position_def)

lemma ring_step_refines:
  assumes "ring_step lse nr th s e s'" "ring_inv b k nr n m s" "n + unat nr < b + 2 ^ 32" "contract nr s e"
  shows "\<exists>m'. ring_inv b k nr (n + of_bool (is_pop e)) m' s' \<and>
    queue_step (slot_queue (slot s)) e = Some (slot_queue (slot s'))"
  using assms
proof (induction rule: ring_step.induct)
  case (look p s)
  then have "position b n (head (slot s)) n" by (simp add: position_def ring_inv_def)
  then show ?case using look goto_inv [of b k nr n m s] by (force simp: smp_load_acquire_def)
next
  case (empty p h s)
  then obtain i where i: "position b n h i" using at_popper_ok by fastforce
  have m: "n \<le> m" "m \<le> n + unat nr" "last (slot s) = idx m" using empty by (simp_all add: ring_inv_def)
  have "i = m" using position_index [OF i _ m(1,2)] empty m(3) by simp
  then have "n = m" using i m(1) by (simp add: position_def)
  then have "slot_queue (slot s) = []" using ring_inv_queue [of b k nr n m s] empty by (simp add: window_def)
  then show ?case using empty goto_inv [of b k nr n m s] by force
next
  case (enter p h s)
  then obtain i where i: "position b n h i" using at_popper_ok by fastforce
  have "i \<noteq> m" "n \<le> m" using i enter by (auto simp: ring_inv_def position_def)
  then have "i < m" using i by (simp add: position_def)
  then show ?case using enter i goto_inv [of b k nr n m s "Passed h"] by force
next
  case (stale p h s)
  then show ?case using goto_inv [of b k nr n m s] by force
next
  case (fresh p h s)
  then obtain i where "position b n h i" "i < m" using at_popper_ok by fastforce
  then show ?case using fresh goto_inv [of b k nr n m s "Fetching h"] by force
next
  case (fetch p h s)
  then obtain i where i: "position b n h i" "i < m" using at_popper_ok by fastforce
  then have "popper_ok b n m (slot s) (Taking h (entries (slot s) ! unat (h AND mask (slot s))))"
    by (auto simp: position_def ring_at_def)
  then show ?case using fetch goto_inv [of b k nr n m s] by force
next
  case (fetch_overrun p h s)
  then show ?case using ring_in_bounds [of "slot s" k h] by (simp add: ring_inv_def)
next
  case (take p h obj s ok seen new got)
  then obtain i where i: "position b n h i" "i < m" "i = n \<longrightarrow> obj = ring_at (slot s) (idx n)"
    using at_popper_ok by fastforce
  note r = try_is_atomic [OF take(2)]
  show ?case
  proof (cases ok)
    case True
    then have hd: "head (slot s) = h" using r by simp
    note t = inv_take [OF take(3) i(1,2) hd take(4)]
    have "slot_queue (slot (goto p Outside (s\<lparr>slot := (slot s)\<lparr>head := h + 1\<rparr>\<rparr>))) = window (slot s) (Suc n) m"
      using ring_inv_queue [OF t(2)] by simp
    then show ?thesis using True r t i(3) by (intro exI [of _ m]) simp
  next
    case False
    then have "s\<lparr>slot := (slot s)\<lparr>head := new\<rparr>\<rparr> = s" using r by simp
    moreover have "position b n seen n" using r(3) take by (simp add: position_def ring_inv_def)
    ultimately show ?thesis using False take goto_inv [of b k nr n m s "Looked seen"] by force
  qed
next
  case (push s obj)
  have "unat (last (slot s) - head (slot s)) = m - n"
    using push unat_less_32 [of nr] idx_diff [of n m] by (simp add: ring_inv_def)
  then have "ring_inv b k nr n m (s\<lparr>pusher := Read_tail obj (tail (slot s))\<rparr>)"
    using push by (auto simp: ring_inv_def)
  then show ?case by auto
next
  case (peek s obj t)
  then have "ring_inv b k nr n m (s\<lparr>pusher := Reserving obj t\<rparr>)" by (auto simp: ring_inv_def)
  then show ?case by auto
next
  case (reserve s obj t ok seen new got)
  note r = try_is_atomic [OF reserve(2)]
  have t: "tail (slot s) = idx m" "t = idx m" using reserve by (auto simp: ring_inv_def)
  then have "ok" "new = idx (Suc m)" using r by (simp_all add: add.commute)
  then have inv: "ring_inv b k nr n m (s\<lparr>slot := (slot s)\<lparr>tail := new\<rparr>, pusher := Filling obj t\<rparr>)"
    using reserve t by (auto simp: ring_inv_def)
  then show ?case using \<open>ok\<close> ring_inv_queue [OF reserve(3)] ring_inv_queue [OF inv] by (intro exI [of _ m]) simp
next
  case (fill s obj t)
  then show ?case using inv_fill [OF fill(3,1)] ring_inv_queue [OF inv_fill(1) [OF fill(3,1)]]
    by (intro exI [of _ m]) simp
next
  case (fill_overrun s obj t)
  then show ?case using ring_in_bounds [of "slot s" k t] by (simp add: ring_inv_def)
next
  case (publish s obj t)
  note i = inv_publish [OF publish(2,1)]
  show ?case using i ring_inv_queue [OF i(1)] by (auto simp: smp_store_release_def)
qed

lemma ring_run_refines:
  assumes "ring_run lse nr s es s'" "ring_inv b k nr b m s" "length (filter is_pop es) + unat nr < 2 ^ 32"
  shows "\<exists>m'. ring_inv b k nr (b + length (filter is_pop es)) m' s' \<and>
    queue_run (slot_queue (slot s)) es = Some (slot_queue (slot s'))"
  using assms
proof (induction arbitrary: m rule: ring_run.induct)
  case (none s)
  then show ?case by auto
next
  case (more s es s' th e s'')
  have "length (filter is_pop es) + unat nr < 2 ^ 32" using more(6) by simp
  then obtain m' where i: "ring_inv b k nr (b + length (filter is_pop es)) m' s'"
    and q: "queue_run (slot_queue (slot s)) es = Some (slot_queue (slot s'))"
    using more(4) [OF more(5)] by blast
  have "b + length (filter is_pop es) + unat nr < b + 2 ^ 32" using more(6) by simp
  from ring_step_refines [OF more(2) i this more(3)] queue_run_snoc [OF q, of e]
  show ?case by (cases "is_pop e") auto
qed

text \<open>A well-formed slot nobody works on satisfies the invariant.\<close>

lemma quiet_ring_inv:
  assumes "slot_ok nr (slot s)" "pusher s = Resting" "set (poppers s) \<subseteq> {Outside}"
  obtains k m where "ring_inv (unat (head (slot s))) k nr (unat (head (slot s))) m s"
proof -
  obtain k where k: "ring_size (slot s) k" "unat nr \<le> 2 ^ k" using assms(1) by (auto simp: slot_ok_def)
  let ?m = "unat (head (slot s)) + unat (last (slot s) - head (slot s))"
  have "idx ?m = last (slot s)" by simp
  moreover have "list_all (popper_ok b n m sl) (poppers s)" for b n m sl
    using assms(3) by (auto simp: list_all_iff)
  ultimately have "ring_inv (unat (head (slot s))) k nr (unat (head (slot s))) ?m s"
    using assms k by (auto simp: ring_inv_def slot_ok_def)
  then show thesis by (rule that)
qed

lemma resting_slot_ok: "ring_inv b k nr n m s \<Longrightarrow> pusher s = Resting \<Longrightarrow> slot_ok nr (slot s)"
  using idx_diff [of n m] unat_less_32 [of nr] by (auto simp: ring_inv_def slot_ok_def)

subsection \<open>What goes in and out\<close>

fun pushed :: "ring_event list \<Rightarrow> u64 list" where
  "pushed [] = []"
| "pushed (Pushed x # es) = x # pushed es"
| "pushed (e # es) = pushed es"

fun popped :: "ring_event list \<Rightarrow> u64 list" where
  "popped [] = []"
| "popped (Popped x # es) = x # popped es"
| "popped (e # es) = popped es"

lemma queue_run_fifo: "queue_run q es = Some q' \<Longrightarrow> q @ pushed es = popped es @ q'"
proof (induction es arbitrary: q)
  case (Cons e es)
  then show ?case by (cases e) (auto split: option.splits list.splits if_splits dest: Cons.IH)
qed simp

lemma queue_run_in_bounds: "queue_run q es = Some q' \<Longrightarrow> Overrun i \<notin> set es"
  by (induction es arbitrary: q) (auto split: option.splits)

text \<open>A compare-and-exchange that finds the expected value succeeds.\<close>

lemma try_once: obtains got where "raw_try_cmpxchg lse ord v new [(v, True)] = Some ((True, v), new, got)"
proof -
  have "raw_try_cmpxchg lse ord v new [(v, True)] \<noteq> None"
  proof
    assume "raw_try_cmpxchg lse ord v new [(v, True)] = None"
    from tried_None [OF this [unfolded raw_try_is_tried]] show False by simp
  qed
  then obtain x where x: "raw_try_cmpxchg lse ord v new [(v, True)] = Some x" by blast
  obtain ok seen new' got where "x = ((ok, seen), new', got)" by (metis surj_pair)
  with x have r: "raw_try_cmpxchg lse ord v new [(v, True)] = Some ((ok, seen), new', got)" by simp
  show thesis using try_is_atomic [OF r] r that by simp
qed

end
