(* ===== verification/Pool_Race.thy ===== *)
theory Pool_Race
  imports Objpool_Race
begin

text \<open>
  The whole object pool under races (objpool.h): every CPU runs \<open>objpool_pop\<close>, which visits the
  slots one after the other, or \<open>objpool_push\<close>, which puts an object it holds into its own slot,
  with interrupts off and one memory access at a time. What the ring theory asks of its users,
  that an object is put in only while there is room, follows here from the objects being as
  many as the pool was made for. \<open>cpumask_next_wrap\<close> is the argument \<open>next_cpu\<close>.
\<close>

subsection \<open>CPUs and slots\<close>

text \<open>\<open>Visiting d n\<close>: at slot \<open>d\<close>, with \<open>n\<close> passes of the loop over the possible CPUs left.\<close>

datatype cpu_phase = Between | Visiting nat nat | Putting

record pool_race =
  rings :: "ring_race list"
  cpus :: "cpu_phase list"
  outside :: "u64 multiset"

datatype pool_event = Internal | Got u64 | Gave u64 | Fault

fun after_visit :: "(nat \<Rightarrow> nat) \<Rightarrow> nat \<Rightarrow> nat \<Rightarrow> ring_event \<Rightarrow> cpu_phase" where
  "after_visit next_cpu d n (Popped obj) = (if obj \<noteq> 0 then Between else Visiting (next_cpu d) n)"
| "after_visit next_cpu d n Nothing = Visiting (next_cpu d) n"
| "after_visit next_cpu d n e = Visiting d (Suc n)"

fun got_of :: "ring_event \<Rightarrow> u64 multiset" where
  "got_of (Popped obj) = (if obj \<noteq> 0 then {#obj#} else {#})"
| "got_of e = {#}"

fun event_of :: "ring_event \<Rightarrow> pool_event" where
  "event_of (Popped obj) = (if obj \<noteq> 0 then Got obj else Internal)"
| "event_of (Pushed obj) = Gave obj"
| "event_of (Overrun i) = Fault"
| "event_of e = Internal"

definition at_cpu :: "nat \<Rightarrow> cpu_phase \<Rightarrow> pool_race \<Rightarrow> bool" where
  "at_cpu c ph s \<longleftrightarrow> c < length (cpus s) \<and> cpus s ! c = ph"

definition become :: "nat \<Rightarrow> cpu_phase \<Rightarrow> pool_race \<Rightarrow> pool_race" where
  "become c ph s = s\<lparr>cpus := (cpus s)[c := ph]\<rparr>"

definition with_ring :: "nat \<Rightarrow> ring_race \<Rightarrow> pool_race \<Rightarrow> pool_race" where
  "with_ring d r s = s\<lparr>rings := (rings s)[d := r]\<rparr>"

inductive pool_step ::
  "bool \<Rightarrow> u32 \<Rightarrow> (nat \<Rightarrow> nat) \<Rightarrow> nat \<Rightarrow> pool_race \<Rightarrow> pool_event \<Rightarrow> pool_race \<Rightarrow> bool"
  for lse :: bool and nr :: u32 and next_cpu :: "nat \<Rightarrow> nat" and possible :: nat where
  begin_pop: "at_cpu c Between s \<Longrightarrow>
     pool_step lse nr next_cpu possible s Internal (become c (Visiting c possible) s)"
| end_pop: "at_cpu c (Visiting d 0) s \<Longrightarrow>
     pool_step lse nr next_cpu possible s (Got 0) (become c Between s)"
| visit: "at_cpu c (Visiting d (Suc n)) s \<Longrightarrow> d < length (rings s) \<Longrightarrow>
     ring_step lse nr (Taker c) (rings s ! d) e r \<Longrightarrow>
     pool_step lse nr next_cpu possible s (event_of e)
       (become c (after_visit next_cpu d n e) (with_ring d r s)\<lparr>outside := outside s + got_of e\<rparr>)"
| no_slot: "at_cpu c (Visiting d (Suc n)) s \<Longrightarrow> \<not> d < length (rings s) \<Longrightarrow>
     pool_step lse nr next_cpu possible s Fault s"
| begin_push: "at_cpu c Between s \<Longrightarrow> obj \<in># outside s \<Longrightarrow> c < length (rings s) \<Longrightarrow>
     ring_step lse nr Putter (rings s ! c) (Started obj) r \<Longrightarrow>
     pool_step lse nr next_cpu possible s Internal
       (become c Putting (with_ring c r s)\<lparr>outside := outside s - {#obj#}\<rparr>)"
| push_no_slot: "at_cpu c Between s \<Longrightarrow> obj \<in># outside s \<Longrightarrow> \<not> c < length (rings s) \<Longrightarrow>
     pool_step lse nr next_cpu possible s Fault s"
| putting: "at_cpu c Putting s \<Longrightarrow> c < length (rings s) \<Longrightarrow>
     ring_step lse nr Putter (rings s ! c) e r \<Longrightarrow>
     pool_step lse nr next_cpu possible s (event_of e)
       (become c (if pusher r = Resting then Between else Putting) (with_ring c r s))"

inductive pool_steps ::
  "bool \<Rightarrow> u32 \<Rightarrow> (nat \<Rightarrow> nat) \<Rightarrow> nat \<Rightarrow> pool_race \<Rightarrow> pool_event list \<Rightarrow> pool_race \<Rightarrow> bool"
  for lse :: bool and nr :: u32 and next_cpu :: "nat \<Rightarrow> nat" and possible :: nat where
  none: "pool_steps lse nr next_cpu possible s [] s"
| more: "pool_steps lse nr next_cpu possible s es s' \<Longrightarrow> pool_step lse nr next_cpu possible s' e s'' \<Longrightarrow>
     pool_steps lse nr next_cpu possible s (es @ [e]) s''"

subsection \<open>Where the objects are\<close>

text \<open>In a ring, or with the CPU that is putting one in.\<close>

fun flight :: "pusher \<Rightarrow> u64 multiset" where
  "flight Resting = {#}"
| "flight (Read_tail obj t) = {#obj#}"
| "flight (Reserving obj t) = {#obj#}"
| "flight (Filling obj t) = {#obj#}"
| "flight (Publishing obj t) = {#obj#}"

definition ring_objects :: "ring_race \<Rightarrow> u64 multiset" where
  "ring_objects s = mset (slot_queue (slot s)) + flight (pusher s)"

definition all_objects :: "pool_race \<Rightarrow> u64 multiset" where
  "all_objects s = (\<Sum>r\<leftarrow>rings s. ring_objects r) + outside s"

fun started_of :: "ring_event \<Rightarrow> u64 multiset" where
  "started_of (Started obj) = {#obj#}"
| "started_of e = {#}"

fun pushed_of :: "ring_event \<Rightarrow> u64 multiset" where
  "pushed_of (Pushed obj) = {#obj#}"
| "pushed_of e = {#}"

fun popped_of :: "ring_event \<Rightarrow> u64 multiset" where
  "popped_of (Popped obj) = {#obj#}"
| "popped_of e = {#}"

lemma flight_step:
  "ring_step lse nr th s e s' \<Longrightarrow> flight (pusher s') + pushed_of e = flight (pusher s) + started_of e"
  by (induction rule: ring_step.induct) auto

lemma taker_keeps_pusher: "ring_step lse nr (Taker c) s e s' \<Longrightarrow> pusher s' = pusher s"
  by (cases rule: ring_step.cases) auto

lemma taker_starts_nothing: "ring_step lse nr (Taker c) s e s' \<Longrightarrow> contract nr s e \<and> started_of e = {#} \<and> pushed_of e = {#}"
  by (cases rule: ring_step.cases) auto

lemma putter_pops_nothing: "ring_step lse nr Putter s e s' \<Longrightarrow> popped_of e = {#} \<and> e \<noteq> Nothing \<and> \<not> is_pop e"
  by (cases rule: ring_step.cases) auto

lemma putter_started: "ring_step lse nr Putter s (Started obj) s' \<Longrightarrow> pusher s = Resting \<and> pusher s' \<noteq> Resting"
  by (cases rule: ring_step.cases) auto

lemma putter_goes_on:
  "ring_step lse nr Putter s e s' \<Longrightarrow> pusher s \<noteq> Resting \<Longrightarrow> contract nr s e \<and> started_of e = {#}"
  by (cases rule: ring_step.cases) auto

lemma queue_step_mset:
  "queue_step q e = Some q' \<Longrightarrow> mset q' + popped_of e = mset q + pushed_of e"
  by (cases e) (auto split: list.splits if_splits)

lemma ring_step_objects:
  assumes "ring_step lse nr th s e s'" "queue_step (slot_queue (slot s)) e = Some (slot_queue (slot s'))"
  shows "ring_objects s' + popped_of e = ring_objects s + started_of e"
proof -
  have "(ring_objects s' + popped_of e) + pushed_of e = (ring_objects s + started_of e) + pushed_of e"
    using flight_step [OF assms(1)] queue_step_mset [OF assms(2)]
    by (simp add: ring_objects_def ac_simps) (metis (no_types, lifting) add.assoc add.left_commute)
  then show ?thesis by simp
qed

subsection \<open>The invariant\<close>

definition ring_good :: "nat \<Rightarrow> nat \<Rightarrow> u32 \<Rightarrow> ring_race \<Rightarrow> bool" where
  "ring_good b p nr r \<longleftrightarrow> (\<exists>k n m. b \<le> n \<and> n \<le> b + p \<and> ring_inv b k nr n m r)"

fun inside :: "nat \<Rightarrow> cpu_phase \<Rightarrow> bool" where
  "inside n (Visiting d i) \<longleftrightarrow> d < n"
| "inside n ph \<longleftrightarrow> True"

definition cpu_good :: "pool_race \<Rightarrow> nat \<Rightarrow> bool" where
  "cpu_good s c \<longleftrightarrow> inside (length (rings s)) (cpus s ! c) \<and>
     (cpus s ! c = Putting \<longleftrightarrow> pusher (rings s ! c) \<noteq> Resting)"

text \<open>\<open>b d\<close> is where the indices of slot \<open>d\<close> started, \<open>p\<close> the number of objects taken so far.\<close>

definition pool_inv :: "(nat \<Rightarrow> nat) \<Rightarrow> (nat \<Rightarrow> nat) \<Rightarrow> u64 multiset \<Rightarrow> u32 \<Rightarrow> nat \<Rightarrow> pool_race \<Rightarrow> bool" where
  "pool_inv next_cpu b M nr p s \<longleftrightarrow>
     length (cpus s) = length (rings s) \<and> (\<forall>c < length (rings s). next_cpu c < length (rings s)) \<and>
     (\<forall>d < length (rings s). ring_good (b d) p nr (rings s ! d)) \<and> (\<forall>c < length (rings s). cpu_good s c) \<and>
     all_objects s = M \<and> size M \<le> unat nr \<and> 0 \<notin># M"

lemma at_cpu_less: "at_cpu c ph s \<Longrightarrow> pool_inv next_cpu b M nr p s \<Longrightarrow> c < length (rings s)"
  by (simp add: at_cpu_def pool_inv_def)

lemma ring_in_all:
  assumes "d < length (rings s)"
  shows "size (ring_objects (rings s ! d)) + size (outside s) \<le> size (all_objects s)"
    "x \<in># ring_objects (rings s ! d) \<Longrightarrow> x \<in># all_objects s"
proof -
  have "size (\<Sum>r\<leftarrow>rs. ring_objects r) = (\<Sum>r\<leftarrow>rs. size (ring_objects r))" for rs
    by (induction rs) simp_all
  moreover have "size (ring_objects (rings s ! d)) \<in> set (map (\<lambda>r. size (ring_objects r)) (rings s))"
    using assms by auto
  ultimately show "size (ring_objects (rings s ! d)) + size (outside s) \<le> size (all_objects s)"
    using member_le_sum_list by (fastforce simp: all_objects_def)
  show "x \<in># ring_objects (rings s ! d) \<Longrightarrow> x \<in># all_objects s"
    using assms by (auto simp: all_objects_def dest: nth_mem)
qed

lemma all_objects_update:
  assumes "d < length (rings s)" "ring_objects r + out = ring_objects (rings s ! d) + outside s"
  shows "all_objects (become c ph (with_ring d r s)\<lparr>outside := out\<rparr>) = all_objects s"
proof -
  let ?sum = "\<lambda>rs. \<Sum>r\<leftarrow>rs. ring_objects r"
  have "?sum ((rings s)[d := r]) + ring_objects (rings s ! d) = ?sum (rings s) + ring_objects r"
    by (rule sum_list_update_mset [OF assms(1)])
  then have "(?sum ((rings s)[d := r]) + out) + ring_objects (rings s ! d) =
      (?sum (rings s) + outside s) + ring_objects (rings s ! d)"
    using assms(2) by (metis (no_types, lifting) add.assoc add.commute)
  then show ?thesis by (simp add: all_objects_def become_def with_ring_def)
qed

text \<open>A step of a ring that keeps to the contract, seen from the pool.\<close>

lemma ring_good_step:
  assumes "ring_step lse nr th r e r'" "ring_good b p nr r" "p + unat nr < 2 ^ 32" "contract nr r e"
  shows "ring_good b (p + of_bool (is_pop e)) nr r'" "ring_objects r' + popped_of e = ring_objects r + started_of e"
    "\<forall>i. e \<noteq> Overrun i" "\<And>x. e = Popped x \<Longrightarrow> x \<in># ring_objects r"
proof -
  obtain k n m where n: "b \<le> n" "n \<le> b + p" "ring_inv b k nr n m r" using assms(2) by (auto simp: ring_good_def)
  have "n + unat nr < b + 2 ^ 32" using n assms(3) by simp
  from ring_step_refines [OF assms(1) n(3) this assms(4)]
  obtain m' where m: "ring_inv b k nr (n + of_bool (is_pop e)) m' r'"
    and q: "queue_step (slot_queue (slot r)) e = Some (slot_queue (slot r'))" by blast
  show "ring_good b (p + of_bool (is_pop e)) nr r'"
    unfolding ring_good_def using n m
    by (intro exI [of _ k] exI [of _ "n + of_bool (is_pop e)"] exI [of _ m']) simp
  show "ring_objects r' + popped_of e = ring_objects r + started_of e"
    by (rule ring_step_objects [OF assms(1) q])
  show "\<forall>i. e \<noteq> Overrun i" using q by auto
  show "x \<in># ring_objects r" if "e = Popped x" for x
    using q that by (auto simp: ring_objects_def split: list.splits if_splits)
qed

lemma ring_good_mono: "ring_good b p nr r \<Longrightarrow> p \<le> p' \<Longrightarrow> ring_good b p' nr r"
  unfolding ring_good_def by (meson add_left_mono order_trans)

text \<open>Room for an object that is outside.\<close>

lemma room_in_ring:
  assumes "pool_inv next_cpu b M nr p s" "obj \<in># outside s" "c < length (rings s)"
  shows "contract nr (rings s ! c) (Started obj)"
proof -
  have "0 < size (outside s)" using assms(2) by (cases "outside s") auto
  moreover have "length (slot_queue (slot (rings s ! c))) \<le> size (ring_objects (rings s ! c))"
    by (simp add: ring_objects_def)
  ultimately show ?thesis using ring_in_all(1) [OF assms(3)] assms(1)
    by (simp add: length_slot_queue pool_inv_def)
qed

lemma pool_frame [simp]:
  "rings (become c ph s) = rings s" "outside (become c ph s) = outside s" "cpus (with_ring d r s) = cpus s"
  "rings (with_ring d r s) = (rings s)[d := r]" "outside (with_ring d r s) = outside s"
  "cpus (become c ph s) = (cpus s)[c := ph]"
  by (simp_all add: become_def with_ring_def)

text \<open>A new state of one ring and one CPU keeps the invariant.\<close>

lemma pool_inv_update:
  assumes inv: "pool_inv next_cpu b M nr p s" and c: "c < length (rings s)" and d: "d < length (rings s)"
    and r: "ring_good (b d) p' nr r" "p \<le> p'"
    and out: "ring_objects r + out = ring_objects (rings s ! d) + outside s"
    and pu: "d \<noteq> c \<Longrightarrow> pusher r = pusher (rings s ! d)"
    and ph: "inside (length (rings s)) ph"
      "ph = Putting \<longleftrightarrow> pusher ((rings s)[d := r] ! c) \<noteq> Resting"
  shows "pool_inv next_cpu b M nr p' (become c ph (with_ring d r s)\<lparr>outside := out\<rparr>)"
proof -
  let ?s = "become c ph (with_ring d r s)\<lparr>outside := out\<rparr>"
  have "ring_good (b i) p' nr (rings ?s ! i)" if "i < length (rings s)" for i
    using inv r that ring_good_mono [OF _ r(2)] by (cases "i = d") (auto simp: pool_inv_def)
  moreover have "cpu_good ?s i" if "i < length (rings s)" for i
  proof (cases "i = c")
    case True
    then show ?thesis using inv ph c by (simp add: pool_inv_def cpu_good_def)
  next
    case False
    then have "pusher (rings ?s ! i) = pusher (rings s ! i)" using pu d by (cases "i = d") auto
    then show ?thesis using False inv that by (simp add: pool_inv_def cpu_good_def)
  qed
  moreover have "all_objects ?s = M" using all_objects_update [OF d out] inv by (simp add: pool_inv_def)
  ultimately show ?thesis using inv by (simp add: pool_inv_def)
qed

fun is_got :: "pool_event \<Rightarrow> bool" where
  "is_got (Got obj) \<longleftrightarrow> obj \<noteq> 0"
| "is_got e \<longleftrightarrow> False"

lemma pool_step_inv:
  assumes "pool_step lse nr next_cpu possible s e s'" "pool_inv next_cpu b M nr p s" "p + unat nr < 2 ^ 32"
  shows "pool_inv next_cpu b M nr (p + of_bool (is_got e)) s' \<and> e \<noteq> Fault \<and> length (rings s') = length (rings s)"
  using assms
proof (induction rule: pool_step.induct)
  case (begin_pop c s)
  have c: "c < length (rings s)" by (rule at_cpu_less [OF begin_pop(1,2)])
  have "pool_inv next_cpu b M nr p (become c (Visiting c possible) (with_ring c (rings s ! c) s)\<lparr>outside := outside s\<rparr>)"
    using begin_pop c by (intro pool_inv_update) (auto simp: pool_inv_def at_cpu_def cpu_good_def)
  then show ?case by (simp add: become_def with_ring_def)
next
  case (end_pop c d s)
  have c: "c < length (rings s)" by (rule at_cpu_less [OF end_pop(1,2)])
  have "pool_inv next_cpu b M nr p (become c Between (with_ring c (rings s ! c) s)\<lparr>outside := outside s\<rparr>)"
    using end_pop c by (intro pool_inv_update) (auto simp: pool_inv_def at_cpu_def cpu_good_def)
  then show ?case by (simp add: become_def with_ring_def)
next
  case (visit c d n s e r)
  have c: "c < length (rings s)" by (rule at_cpu_less [OF visit(1,4)])
  have rest: "pusher (rings s ! c) = Resting"
    using visit c by (auto simp: pool_inv_def at_cpu_def cpu_good_def)
  note t = taker_starts_nothing [OF visit(3)]
  have good: "ring_good (b d) p nr (rings s ! d)" using visit by (simp add: pool_inv_def)
  note g = ring_good_step [OF visit(3) good visit(5)] 
  have nz: "x \<noteq> 0" if "e = Popped x" for x
    using g(4) [OF _ that] t ring_in_all(2) [OF visit(2)] visit(4) by (auto simp: pool_inv_def)
  then have ev: "got_of e = popped_of e" "is_got (event_of e) = is_pop e" by (cases e; simp)+
  have "pool_inv next_cpu b M nr (p + of_bool (is_pop e))
      (become c (after_visit next_cpu d n e) (with_ring d r s)\<lparr>outside := outside s + got_of e\<rparr>)"
  proof (rule pool_inv_update [OF visit(4) c visit(2)])
    show "ring_good (b d) (p + of_bool (is_pop e)) nr r" using g(1) t by simp
    show "ring_objects r + (outside s + got_of e) = ring_objects (rings s ! d) + outside s"
      using g(2) t ev(1) by (metis add.assoc add.commute add.right_neutral)
    show "inside (length (rings s)) (after_visit next_cpu d n e)"
      using visit by (cases e) (auto simp: pool_inv_def)
    have "pusher ((rings s)[d := r] ! c) = Resting"
      using rest taker_keeps_pusher [OF visit(3)] visit(2) by (cases "c = d") auto
    then show "after_visit next_cpu d n e = Putting \<longleftrightarrow> pusher ((rings s)[d := r] ! c) \<noteq> Resting"
      by (cases e) auto
  qed (simp_all add: taker_keeps_pusher [OF visit(3)])
  moreover have "event_of e \<noteq> Fault" using g(3) t by (cases e) auto
  ultimately show ?case by (simp add: ev)
next
  case (no_slot c d n s)
  then show ?case by (auto simp: pool_inv_def cpu_good_def at_cpu_def)
next
  case (begin_push c s obj r)
  note room = room_in_ring [OF begin_push(5,2,3)] and p = putter_started [OF begin_push(4)]
  have good: "ring_good (b c) p nr (rings s ! c)" using begin_push by (simp add: pool_inv_def)
  note g = ring_good_step [OF begin_push(4) good begin_push(6) room]
  have "ring_objects r + (outside s - {#obj#}) = ring_objects (rings s ! c) + outside s"
    using g(2) begin_push(2) by simp
  then have "pool_inv next_cpu b M nr p (become c Putting (with_ring c r s)\<lparr>outside := outside s - {#obj#}\<rparr>)"
    using g(1) p begin_push(3) by (intro pool_inv_update [OF begin_push(5,3,3)]) auto
  then show ?case by simp
next
  case (push_no_slot c s obj)
  then show ?case using at_cpu_less by blast
next
  case (putting c s e r)
  have busy: "pusher (rings s ! c) \<noteq> Resting" using putting by (auto simp: pool_inv_def at_cpu_def cpu_good_def)
  note t = putter_goes_on [OF putting(3) busy] putter_pops_nothing [OF putting(3)]
  have good: "ring_good (b c) p nr (rings s ! c)" using putting by (simp add: pool_inv_def)
  note g = ring_good_step [OF putting(3) good putting(5)]
  have "pool_inv next_cpu b M nr p (become c (if pusher r = Resting then Between else Putting) (with_ring c r s)\<lparr>outside := outside s\<rparr>)"
    using g(1,2) t putting(2) by (intro pool_inv_update [OF putting(4,2,2)]) auto
  then have "pool_inv next_cpu b M nr p (become c (if pusher r = Resting then Between else Putting) (with_ring c r s))"
    by (simp add: become_def with_ring_def)
  moreover have "event_of e \<noteq> Fault" "\<not> is_got (event_of e)" using g(3) t by (cases e; auto)+
  ultimately show ?case by simp
qed

lemma pool_steps_inv:
  assumes "pool_steps lse nr next_cpu possible s es s'" "pool_inv next_cpu b M nr 0 s"
    "length (filter is_got es) + unat nr < 2 ^ 32"
  shows "pool_inv next_cpu b M nr (length (filter is_got es)) s' \<and> Fault \<notin> set es \<and> length (rings s') = length (rings s)"
  using assms
proof (induction rule: pool_steps.induct)
  case (more s es s' e s'')
  have short: "length (filter is_got es) + unat nr < 2 ^ 32" using more(5) by simp
  note ih = more(3) [OF more(4) short]
  note st = pool_step_inv [OF more(2) ih [THEN conjunct1] short]
  have "length (filter is_got (es @ [e])) = length (filter is_got es) + of_bool (is_got e)" by simp
  then show ?case using st ih by (simp only:) auto
qed simp

text \<open>A pool nobody works on.\<close>

definition quiet_pool :: "u32 \<Rightarrow> (nat \<Rightarrow> nat) \<Rightarrow> pool_race \<Rightarrow> bool" where
  "quiet_pool nr next_cpu s \<longleftrightarrow>
     (\<forall>r\<in>set (rings s). slot_ok nr (slot r) \<and> pusher r = Resting \<and> set (poppers r) \<subseteq> {Outside}) \<and>
     length (cpus s) = length (rings s) \<and> set (cpus s) \<subseteq> {Between} \<and>
     (\<forall>c < length (rings s). next_cpu c < length (rings s)) \<and>
     size (all_objects s) \<le> unat nr \<and> 0 \<notin># all_objects s"

lemma quiet_pool_inv:
  assumes quiet: "quiet_pool nr next_cpu s"
  shows "pool_inv next_cpu (\<lambda>d. unat (head (slot (rings s ! d)))) (all_objects s) nr 0 s"
proof -
  have len: "length (cpus s) = length (rings s)" using quiet by (simp add: quiet_pool_def)
  have good: "ring_good (unat (head (slot r))) 0 nr r" if "r \<in> set (rings s)" for r
  proof -
    have r: "slot_ok nr (slot r)" "pusher r = Resting" "set (poppers r) \<subseteq> {Outside}" using quiet that by (auto simp: quiet_pool_def)
    obtain k m where "ring_inv (unat (head (slot r))) k nr (unat (head (slot r))) m r" using quiet_ring_inv [OF r] .
    then show ?thesis unfolding ring_good_def by (intro exI conjI) (rule le_refl, simp, assumption)
  qed
  have idle: "cpus s ! c = Between" "pusher (rings s ! c) = Resting" if "c < length (rings s)" for c
  proof -
    have "cpus s ! c \<in> set (cpus s)" "rings s ! c \<in> set (rings s)" using len that by simp_all
    then show "cpus s ! c = Between" "pusher (rings s ! c) = Resting" using quiet by (auto simp: quiet_pool_def)
  qed
  show ?thesis unfolding pool_inv_def cpu_good_def using quiet good [OF nth_mem] idle by (simp add: quiet_pool_def)
qed

text \<open>When every CPU is between its calls, all rings are at rest.\<close>

lemma idle_pool:
  assumes "pool_inv next_cpu b M nr p s" "set (cpus s) \<subseteq> {Between}" "r \<in> set (rings s)"
  shows "slot_ok nr (slot r)" "pusher r = Resting"
proof -
  obtain c where c: "c < length (rings s)" "rings s ! c = r" using assms(3) by (auto simp: in_set_conv_nth)
  then have "cpus s ! c \<in> set (cpus s)" using assms(1) by (simp add: pool_inv_def)
  then have "cpus s ! c \<noteq> Putting" using assms(2) by auto
  then show rest: "pusher r = Resting" using assms(1) c by (auto simp: pool_inv_def cpu_good_def)
  obtain k n m where "ring_inv (b c) k nr n m r" using assms(1) c by (auto simp: pool_inv_def ring_good_def)
  then show "slot_ok nr (slot r)" using rest by (rule resting_slot_ok)
qed

end
