(* ===== verification/Refcount.thy ===== *)
theory Refcount
  imports Prelude
begin

text \<open>
  Reference counts (kheaders/include/linux/refcount.h), the saturating counters the object pool
  and the kretprobe holder are freed by. \<open>refcount_t\<close> is its \<open>int\<close>; arithmetic wraps
  (\<open>__signed_wrap\<close>). The compare-and-swap loops take the list of the values other CPUs had
  stored when each attempt was made: an attempt succeeds when the value is the expected one,
  otherwise the loop goes on with the value it found, and \<open>None\<close> is a loop still running when
  the list ends. \<open>refcount_warn_saturate\<close> (lib/refcount.c) is not in the repository: it is the
  argument \<open>warn\<close>, which gives the value it leaves in the counter.
\<close>

subsection \<open>Operations\<close>

definition REFCOUNT_MAX :: s32 where "REFCOUNT_MAX = 0x7fffffff"
definition REFCOUNT_SATURATED :: s32 where "REFCOUNT_SATURATED = 0xc0000000"

datatype refcount_saturation_type =
  REFCOUNT_ADD_NOT_ZERO_OVF | REFCOUNT_ADD_OVF | REFCOUNT_ADD_UAF | REFCOUNT_SUB_UAF
  | REFCOUNT_DEC_LEAK

type_synonym warn_fn = "refcount_saturation_type \<Rightarrow> s32 \<Rightarrow> s32"

definition refcount_set :: "s32 \<Rightarrow> s32 \<Rightarrow> s32" where
  "refcount_set n r = n"

definition refcount_set_release :: "s32 \<Rightarrow> s32 \<Rightarrow> s32" where
  "refcount_set_release n r = n"

definition refcount_read :: "s32 \<Rightarrow> u32" where
  "refcount_read r = r"

text \<open>Signed comparison with zero.\<close>

definition negative :: "s32 \<Rightarrow> bool" where
  "negative v \<longleftrightarrow> v <s 0"

text \<open>
  \<open>do { if (!old) break; } while (!try_cmpxchg(&refs, &old, old + i))\<close>: the expected value
  when the loop ends, and the counter's value then.
\<close>

fun add_loop :: "s32 \<Rightarrow> s32 \<Rightarrow> s32 list \<Rightarrow> s32 \<Rightarrow> (s32 \<times> s32) option" where
  "add_loop i old seen r =
     (if old = 0 then Some (old, r)
      else case seen of
             [] \<Rightarrow> None
           | cur # seen' \<Rightarrow> if cur = old then Some (old, old + i) else add_loop i cur seen' cur)"

definition saturate_if :: "bool \<Rightarrow> warn_fn \<Rightarrow> refcount_saturation_type \<Rightarrow> s32 \<Rightarrow> s32" where
  "saturate_if b warn t r = (if b then warn t r else r)"

definition refcount_add_not_zero ::
  "warn_fn \<Rightarrow> s32 \<Rightarrow> s32 list \<Rightarrow> s32 \<Rightarrow> (bool \<times> s32 \<times> s32) option" where
  "refcount_add_not_zero warn i seen r =
     (case add_loop i r seen r of
        None \<Rightarrow> None
      | Some (old, r) \<Rightarrow>
          Some (old \<noteq> 0, old, saturate_if (negative old \<or> negative (old + i)) warn REFCOUNT_ADD_NOT_ZERO_OVF r))"

fun limited_loop :: "s32 \<Rightarrow> s32 \<Rightarrow> s32 \<Rightarrow> s32 list \<Rightarrow> s32 \<Rightarrow> (bool \<times> s32 \<times> s32) option" where
  "limited_loop i limit old seen r =
     (if old = 0 then Some (True, old, r)
      else if limit - old <s i then Some (False, old, r)
      else case seen of
             [] \<Rightarrow> None
           | cur # seen' \<Rightarrow> if cur = old then Some (True, old, old + i)
                            else limited_loop i limit cur seen' cur)"

definition refcount_add_not_zero_limited_acquire ::
  "warn_fn \<Rightarrow> s32 \<Rightarrow> s32 \<Rightarrow> s32 list \<Rightarrow> s32 \<Rightarrow> (bool \<times> s32 \<times> s32) option" where
  "refcount_add_not_zero_limited_acquire warn i limit seen r =
     (case limited_loop i limit r seen r of
        None \<Rightarrow> None
      | Some (False, old, r) \<Rightarrow> Some (False, old, r)
      | Some (True, old, r) \<Rightarrow>
          Some (old \<noteq> 0, old, saturate_if (negative old \<or> negative (old + i)) warn REFCOUNT_ADD_NOT_ZERO_OVF r))"

definition refcount_inc_not_zero_limited_acquire ::
  "warn_fn \<Rightarrow> s32 \<Rightarrow> s32 list \<Rightarrow> s32 \<Rightarrow> (bool \<times> s32 \<times> s32) option" where
  "refcount_inc_not_zero_limited_acquire warn limit seen r =
     refcount_add_not_zero_limited_acquire warn 1 limit seen r"

definition refcount_add_not_zero_acquire ::
  "warn_fn \<Rightarrow> s32 \<Rightarrow> s32 list \<Rightarrow> s32 \<Rightarrow> (bool \<times> s32 \<times> s32) option" where
  "refcount_add_not_zero_acquire warn i seen r =
     refcount_add_not_zero_limited_acquire warn i REFCOUNT_MAX seen r"

definition refcount_inc_not_zero_acquire ::
  "warn_fn \<Rightarrow> s32 list \<Rightarrow> s32 \<Rightarrow> (bool \<times> s32 \<times> s32) option" where
  "refcount_inc_not_zero_acquire warn seen r = refcount_add_not_zero_acquire warn 1 seen r"

definition refcount_inc_not_zero ::
  "warn_fn \<Rightarrow> s32 list \<Rightarrow> s32 \<Rightarrow> (bool \<times> s32 \<times> s32) option" where
  "refcount_inc_not_zero warn seen r = refcount_add_not_zero warn 1 seen r"

text \<open>The old value through \<open>oldp\<close>, and the counter after.\<close>

definition refcount_add :: "warn_fn \<Rightarrow> s32 \<Rightarrow> s32 \<Rightarrow> s32 \<times> s32" where
  "refcount_add warn i r =
     (let old = r; r = r + i
      in (old, if old = 0 then warn REFCOUNT_ADD_UAF r
               else if negative old \<or> negative (old + i) then warn REFCOUNT_ADD_OVF r
               else r))"

definition refcount_inc :: "warn_fn \<Rightarrow> s32 \<Rightarrow> s32 \<times> s32" where
  "refcount_inc warn r = refcount_add warn 1 r"

definition refcount_sub_and_test :: "warn_fn \<Rightarrow> s32 \<Rightarrow> s32 \<Rightarrow> bool \<times> s32 \<times> s32" where
  "refcount_sub_and_test warn i r =
     (let old = r; r = r - i
      in if 0 <s old \<and> old = i then (True, old, r)
         else (False, old, saturate_if (old \<le>s 0 \<or> negative (old - i)) warn REFCOUNT_SUB_UAF r))"

definition refcount_dec_and_test :: "warn_fn \<Rightarrow> s32 \<Rightarrow> bool \<times> s32 \<times> s32" where
  "refcount_dec_and_test warn r = refcount_sub_and_test warn 1 r"

definition refcount_dec :: "warn_fn \<Rightarrow> s32 \<Rightarrow> s32 \<times> s32" where
  "refcount_dec warn r =
     (let old = r; r = r - 1 in (old, saturate_if (old \<le>s 1) warn REFCOUNT_DEC_LEAK r))"

subsection \<open>What is relied on in lib/refcount.c\<close>

text \<open>Every warning pins the counter at the middle of the negative range.\<close>

definition saturates :: "warn_fn \<Rightarrow> bool" where
  "saturates warn \<longleftrightarrow> (\<forall>t r. warn t r = REFCOUNT_SATURATED)"

lemma saturatesD: "saturates warn \<Longrightarrow> warn t r = REFCOUNT_SATURATED"
  by (simp add: saturates_def)

lemma saturated_negative: "negative REFCOUNT_SATURATED" "REFCOUNT_SATURATED \<noteq> 0"
  by (simp_all add: negative_def REFCOUNT_SATURATED_def word_sless_alt)

subsection \<open>The loops under contention\<close>

declare add_loop.simps [simp del] limited_loop.simps [simp del]

text \<open>
  Whatever the other CPUs do, the loop ends with the counter at a value it saw plus \<open>i\<close>, or
  untouched at zero: it never brings a counter at zero back.
\<close>

lemma add_loop_result:
  "add_loop i r seen r = Some (old, r') \<Longrightarrow>
   old \<in> set (r # seen) \<and> r' = (if old = 0 then 0 else old + i)"
proof (induction seen arbitrary: r)
  case Nil
  then show ?case by (simp add: add_loop.simps split: if_splits)
next
  case (Cons cur seen)
  show ?case
  proof (cases "r = 0 \<or> cur = r")
    case True
    with Cons.prems show ?thesis by (subst (asm) add_loop.simps) (auto split: if_splits)
  next
    case False
    then have "add_loop i cur seen cur = Some (old, r')"
      using Cons.prems by (subst (asm) add_loop.simps) simp
    from Cons.IH [OF this] show ?thesis by auto
  qed
qed

lemma limited_loop_result:
  "limited_loop i limit r seen r = Some (ok, old, r') \<Longrightarrow>
   old \<in> set (r # seen) \<and>
   r' = (if old = 0 \<or> limit - old <s i then old else old + i) \<and>
   ok = (old = 0 \<or> \<not> limit - old <s i)"
proof (induction seen arbitrary: r)
  case Nil
  then show ?case by (auto simp: limited_loop.simps split: if_splits)
next
  case (Cons cur seen)
  show ?case
  proof (cases "r = 0 \<or> limit - r <s i \<or> cur = r")
    case True
    with Cons.prems show ?thesis by (subst (asm) limited_loop.simps) (auto split: if_splits)
  next
    case False
    then have "limited_loop i limit cur seen cur = Some (ok, old, r')"
      using Cons.prems by (subst (asm) limited_loop.simps) simp
    from Cons.IH [OF this] show ?thesis by auto
  qed
qed

text \<open>An attempt nobody disturbs succeeds at once, so the loop ends as soon as others pause.\<close>

lemma add_loop_undisturbed: "add_loop i r (r # seen) r = Some (r, if r = 0 then 0 else r + i)"
  by (simp add: add_loop.simps)

subsection \<open>Saturation\<close>

lemma negative_sint: "negative v \<longleftrightarrow> sint v < 0"
  by (simp add: negative_def word_sless_alt)

lemma sle_zero_if_negative: "negative v \<Longrightarrow> v \<le>s 0" "negative v \<Longrightarrow> v \<le>s 1" "negative v \<Longrightarrow> \<not> 0 <s v"
  by (simp_all add: negative_sint word_sle_eq word_sless_alt)

lemma negative_not_zero: "negative v \<Longrightarrow> v \<noteq> 0"
  by (auto simp: negative_sint)

lemma saturated_is_absorbing:
  assumes "saturates warn" "negative r"
  shows "snd (refcount_add warn i r) = REFCOUNT_SATURATED"
    and "refcount_sub_and_test warn i r = (False, r, REFCOUNT_SATURATED)"
    and "snd (refcount_dec warn r) = REFCOUNT_SATURATED"
  using assms(2) negative_not_zero [OF assms(2)] sle_zero_if_negative [OF assms(2)]
  by (simp_all add: refcount_add_def refcount_sub_and_test_def refcount_dec_def saturate_if_def
      saturatesD [OF assms(1)] Let_def)

subsection \<open>Counting\<close>

text \<open>
  \<open>held n ops\<close>: the references an owner of \<open>n\<close> holds after taking and dropping them in the
  order of \<open>ops\<close>, defined while it only takes references it may take and stays within
  \<open>INT_MAX\<close>. The number of times the count has reached zero is the second component.
\<close>

datatype ref_op = Get | Put

fun held :: "nat \<Rightarrow> ref_op list \<Rightarrow> (nat \<times> nat) option" where
  "held n [] = Some (n, 0)"
| "held n (Get # ops) = (if 0 < n \<and> Suc n < 2 ^ 31 then held (Suc n) ops else None)"
| "held n (Put # ops) =
     (if 0 < n then map_option (\<lambda>(m, z). (m, if n = 1 then Suc z else z)) (held (n - 1) ops) else None)"

fun ref_run :: "warn_fn \<Rightarrow> ref_op list \<Rightarrow> s32 \<Rightarrow> s32 \<times> nat" where
  "ref_run warn [] r = (r, 0)"
| "ref_run warn (Get # ops) r = ref_run warn ops (snd (refcount_inc warn r))"
| "ref_run warn (Put # ops) r =
     (case refcount_dec_and_test warn r of (freed, _, r') \<Rightarrow>
        (case ref_run warn ops r' of (r'', z) \<Rightarrow> (r'', if freed then Suc z else z)))"

lemma sint_of_count: "n < 2 ^ 31 \<Longrightarrow> sint (word_of_nat n :: s32) = int n"
  using sint_small [of "word_of_nat n"]
  by (simp add: word_less_nat_alt unsigned_of_nat take_bit_nat_eq_self)

lemma count_eq_iff: "n < 2 ^ 31 \<Longrightarrow> m < 2 ^ 31 \<Longrightarrow> (word_of_nat n :: s32) = word_of_nat m \<longleftrightarrow> n = m"
  by (metis sint_of_count of_nat_eq_iff)

lemma inc_counts:
  assumes "0 < n" "Suc n < 2 ^ 31"
  shows "refcount_inc warn (word_of_nat n) = (word_of_nat n, word_of_nat (Suc n))"
proof -
  have "(word_of_nat n :: s32) + 1 = word_of_nat (Suc n)" by simp
  moreover have "\<not> negative (word_of_nat n)" "\<not> negative (word_of_nat (Suc n))"
    using sint_of_count [of n] sint_of_count [of "Suc n"] assms by (simp_all add: negative_sint)
  moreover have "(word_of_nat n :: s32) \<noteq> 0"
    using count_eq_iff [of n 0] assms by simp
  ultimately show ?thesis
    by (simp add: refcount_inc_def refcount_add_def Let_def add.commute)
qed

lemma dec_counts:
  assumes "0 < n" "n < 2 ^ 31"
  shows "refcount_dec_and_test warn (word_of_nat n) = (n = 1, word_of_nat n, word_of_nat (n - 1))"
proof -
  obtain m where n: "n = Suc m" using assms(1) by (cases n) auto
  have "(word_of_nat n :: s32) - 1 = word_of_nat (n - 1)" by (simp add: n)
  moreover have "0 <s (word_of_nat n :: s32)" "\<not> negative (word_of_nat (n - 1))"
    using sint_of_count [of n] sint_of_count [of m] assms by (simp_all add: negative_sint word_sless_alt n)
  moreover have "\<not> (word_of_nat n :: s32) \<le>s 0"
    using sint_of_count [of n] assms by (simp add: word_sle_eq)
  moreover have "(word_of_nat n :: s32) = 1 \<longleftrightarrow> n = 1"
    using count_eq_iff [of n 1] assms by simp
  ultimately show ?thesis
    by (simp add: refcount_dec_and_test_def refcount_sub_and_test_def saturate_if_def Let_def)
qed

lemma run_counts:
  "held n ops = Some (m, z) \<Longrightarrow> n < 2 ^ 31 \<Longrightarrow>
   ref_run warn ops (word_of_nat n) = (word_of_nat m, z) \<and> m < 2 ^ 31"
proof (induction n ops arbitrary: m z rule: held.induct)
  case (2 n ops)
  then show ?case using inc_counts [of n warn] by (simp split: if_splits)
next
  case (3 n ops)
  then obtain z' where "held (n - 1) ops = Some (m, z')" "z = (if n = 1 then Suc z' else z')" "0 < n"
    by (auto split: if_splits)
  then show ?case using "3.IH" [of m z'] "3.prems"(2) dec_counts [of n warn] by simp
qed simp

end
