(* ===== verification/Refcount_Race.thy ===== *)
theory Refcount_Race
  imports Refcount Atomic_Raw
begin

text \<open>
  Reference counts shared by several CPUs (refcount.h). Each thread runs its calls one memory
  access at a time: the atomic instruction of a call, taken from the model of the arm64
  atomics, the tries of a compare-and-swap loop, and the store with which
  \<open>refcount_warn_saturate\<close> answers a bad count. Between the atomic instruction and that store
  other threads act on a count that is wrong but not yet pinned.
\<close>

subsection \<open>Calls, access by access\<close>

datatype call = Add s32 | Sub s32 | Dec | Add_not_zero s32 | Add_limited s32 s32

datatype phase = Idle | Trying call s32 | Warning refcount_saturation_type

record race =
  cell :: s32
  threads :: "phase list"

fun amount :: "call \<Rightarrow> s32" where
  "amount (Add i) = i"
| "amount (Sub i) = i"
| "amount Dec = 1"
| "amount (Add_not_zero i) = i"
| "amount (Add_limited i limit) = i"

fun is_loop :: "call \<Rightarrow> bool" where
  "is_loop (Add_not_zero i) = True"
| "is_loop (Add_limited i limit) = True"
| "is_loop c = False"

text \<open>The one atomic access of a call without a loop: the old value and the new one.\<close>

fun access :: "bool \<Rightarrow> call \<Rightarrow> 32 tries \<Rightarrow> (s32, 32) outcome option" where
  "access lse (Add i) ts = raw_atomic_fetch_add lse Relaxed i ts"
| "access lse (Sub i) ts = raw_atomic_fetch_sub lse Release i ts"
| "access lse Dec ts = raw_atomic_fetch_sub lse Release 1 ts"
| "access lse c ts = None"

text \<open>One try of a loop.\<close>

fun try_access :: "bool \<Rightarrow> call \<Rightarrow> s32 \<Rightarrow> 32 tries \<Rightarrow> (bool \<times> s32, 32) outcome option" where
  "try_access lse (Add_not_zero i) old ts = raw_atomic_try_cmpxchg lse Relaxed old (old + i) ts"
| "try_access lse (Add_limited i limit) old ts = raw_atomic_try_cmpxchg lse Acquire old (old + i) ts"
| "try_access lse c old ts = None"

text \<open>Whether a loop stops before its try, and with which test after it.\<close>

fun breaks :: "call \<Rightarrow> s32 \<Rightarrow> bool" where
  "breaks c old \<longleftrightarrow> old = 0"

fun returns_false :: "call \<Rightarrow> s32 \<Rightarrow> bool" where
  "returns_false (Add_limited i limit) old \<longleftrightarrow> old \<noteq> 0 \<and> limit - old <s i"
| "returns_false c old \<longleftrightarrow> False"

text \<open>What is warned of after the access.\<close>

fun verdict :: "call \<Rightarrow> s32 \<Rightarrow> refcount_saturation_type option" where
  "verdict (Add i) old =
     (if old = 0 then Some REFCOUNT_ADD_UAF
      else if negative old \<or> negative (old + i) then Some REFCOUNT_ADD_OVF else None)"
| "verdict (Sub i) old =
     (if 0 <s old \<and> old = i then None
      else if old \<le>s 0 \<or> negative (old - i) then Some REFCOUNT_SUB_UAF else None)"
| "verdict Dec old = (if old \<le>s 1 then Some REFCOUNT_DEC_LEAK else None)"
| "verdict (Add_not_zero i) old =
     (if negative old \<or> negative (old + i) then Some REFCOUNT_ADD_NOT_ZERO_OVF else None)"
| "verdict (Add_limited i limit) old =
     (if negative old \<or> negative (old + i) then Some REFCOUNT_ADD_NOT_ZERO_OVF else None)"

text \<open>What the call returns, once it has acted on \<open>old\<close>; the \<open>void\<close> ones count as false.\<close>

fun returned :: "call \<Rightarrow> s32 \<Rightarrow> bool" where
  "returned (Sub i) old \<longleftrightarrow> 0 <s old \<and> old = i"
| "returned (Add_not_zero i) old \<longleftrightarrow> old \<noteq> 0"
| "returned (Add_limited i limit) old \<longleftrightarrow> old \<noteq> 0"
| "returned c old \<longleftrightarrow> False"

fun after :: "refcount_saturation_type option \<Rightarrow> phase" where
  "after None = Idle"
| "after (Some w) = Warning w"

text \<open>The amounts callers add and drop at once.\<close>

definition small :: "nat \<Rightarrow> call \<Rightarrow> bool" where
  "small k c \<longleftrightarrow> 0 \<le> sint (amount c) \<and> sint (amount c) \<le> int k"

definition put :: "race \<Rightarrow> nat \<Rightarrow> phase \<Rightarrow> race" where
  "put s t p = s\<lparr>threads := (threads s)[t := p]\<rparr>"

text \<open>
  A step carries the thread and, when it settles what the call returns, the call, that result and the old
  value the call gives to its caller.
\<close>

type_synonym answer = "call \<times> bool \<times> s32"
type_synonym race_event = "nat \<times> answer option"

text \<open>The event of a call that reports the last reference gone.\<close>

definition reports_last :: "race_event \<Rightarrow> bool" where
  "reports_last e \<longleftrightarrow> (case snd e of Some (Sub i, b, old) \<Rightarrow> b | _ \<Rightarrow> False)"

definition answer_of :: "call \<Rightarrow> s32 \<Rightarrow> answer option" where
  "answer_of c old = Some (c, returned c old, old)"

inductive race_step :: "bool \<Rightarrow> warn_fn \<Rightarrow> nat \<Rightarrow> race \<Rightarrow> race_event \<Rightarrow> race \<Rightarrow> bool"
  for lse :: bool and warn :: warn_fn and k :: nat where
  direct: "t < length (threads s) \<Longrightarrow> threads s ! t = Idle \<Longrightarrow> small k c \<Longrightarrow>
     access lse c [(cell s, True)] = Some (old, new, got) \<Longrightarrow>
     race_step lse warn k s (t, answer_of c old) (put (s\<lparr>cell := new\<rparr>) t (after (verdict c old)))"
| read: "t < length (threads s) \<Longrightarrow> threads s ! t = Idle \<Longrightarrow> small k c \<Longrightarrow> is_loop c \<Longrightarrow>
     race_step lse warn k s (t, None) (put s t (Trying c (refcount_read (cell s))))"
| stop: "t < length (threads s) \<Longrightarrow> threads s ! t = Trying c old \<Longrightarrow> breaks c old \<Longrightarrow>
     race_step lse warn k s (t, answer_of c old) (put s t (after (verdict c old)))"
| refuse: "t < length (threads s) \<Longrightarrow> threads s ! t = Trying c old \<Longrightarrow> returns_false c old \<Longrightarrow>
     race_step lse warn k s (t, Some (c, False, old)) (put s t Idle)"
| attempt: "t < length (threads s) \<Longrightarrow> threads s ! t = Trying c old \<Longrightarrow>
     \<not> breaks c old \<Longrightarrow> \<not> returns_false c old \<Longrightarrow>
     try_access lse c old [(cell s, True)] = Some ((ok, seen), new, got) \<Longrightarrow>
     race_step lse warn k s (t, if ok then answer_of c old else None)
       (put (s\<lparr>cell := new\<rparr>) t (if ok then after (verdict c old) else Trying c seen))"
| pin: "t < length (threads s) \<Longrightarrow> threads s ! t = Warning w \<Longrightarrow>
     race_step lse warn k s (t, None) (put (s\<lparr>cell := warn w (cell s)\<rparr>) t Idle)"

inductive race_run :: "bool \<Rightarrow> warn_fn \<Rightarrow> nat \<Rightarrow> race \<Rightarrow> race_event list \<Rightarrow> race \<Rightarrow> bool"
  for lse :: bool and warn :: warn_fn and k :: nat where
  none: "race_run lse warn k s [] s"
| more: "race_run lse warn k s es s' \<Longrightarrow> race_step lse warn k s' e s'' \<Longrightarrow> race_run lse warn k s (es @ [e]) s''"

subsection \<open>The accesses\<close>

lemmas fetch_add_once = implements_once [OF raw_atomic_fetch_add_implements]
lemmas fetch_sub_once = implements_once [OF raw_atomic_fetch_sub_implements]

fun updated :: "call \<Rightarrow> s32 \<Rightarrow> s32" where
  "updated (Sub i) old = old - i"
| "updated Dec old = old - 1"
| "updated c old = old + amount c"

lemma access_once: "\<not> is_loop c \<Longrightarrow> \<exists>got. access lse c [(v, True)] = Some (v, updated c v, got)"
proof (cases c)
  case (Add i)
  then show ?thesis using fetch_add_once [of lse Relaxed i v] by auto
next
  case (Sub i)
  then show ?thesis using fetch_sub_once [of lse Release i v] by auto
next
  case Dec
  then show ?thesis using fetch_sub_once [of lse Release 1 v] by auto
qed simp_all

lemma access_direct:
  assumes "access lse c [(v, True)] = Some (old, new, got)"
  shows "\<not> is_loop c" "old = v" "new = updated c v"
proof -
  show l: "\<not> is_loop c" using assms by (cases c) simp_all
  then show "old = v" "new = updated c v" using access_once [OF l, of lse v] assms by auto
qed

lemma try_is_tried:
  "raw_atomic_try_cmpxchg lse ord old new = tried old (arch_cmpxchg lse ord old new)"
  by (simp only: raw_atomic_try_cmpxchg_def raw_atomic_cmpxchg_def raw_cmpxchg_def by_order_none by_order_all)

lemma try_access_is_tried:
  "is_loop c \<Longrightarrow> \<exists>ord. try_access lse c old ts = tried old (arch_cmpxchg lse ord old (updated c old)) ts"
  by (cases c) (auto simp: try_is_tried)

lemma try_access_Some:
  assumes "try_access lse c old [(v, True)] = Some ((ok, seen), new, got)"
  shows "is_loop c" "seen = v" "ok \<longleftrightarrow> v = old" "new = (if ok then updated c old else v)"
proof -
  show l: "is_loop c" using assms by (cases c) simp_all
  then obtain ord where "tried old (arch_cmpxchg lse ord old (updated c old)) [(v, True)] = Some ((ok, seen), new, got)"
    using try_access_is_tried [OF l, of lse old "[(v, True)]"] assms by auto
  from tried_Some(1-3) [OF this] show "seen = v" "ok \<longleftrightarrow> v = old" "new = (if ok then updated c old else v)"
    by auto
qed

subsection \<open>Distance from the saturation value\<close>

lemma sint_exact:
  fixes a b :: s32
  shows "- (2 ^ 31) \<le> sint a + sint b \<Longrightarrow> sint a + sint b < 2 ^ 31 \<Longrightarrow> sint (a + b) = sint a + sint b"
    and "- (2 ^ 31) \<le> sint a - sint b \<Longrightarrow> sint a - sint b < 2 ^ 31 \<Longrightarrow> sint (a - b) = sint a - sint b"
  by (simp_all add: sint_word_ariths signed_take_bit_int_eq_self)

lemma updated_near:
  assumes "small k c" "- (2 ^ 31) + int k \<le> sint v" "sint v < 2 ^ 31 - int k"
  shows "\<bar>sint (updated c v) - sint v\<bar> \<le> int k"
  using assms sint_exact [of v "amount c"] by (cases c) (auto simp: small_def)

definition distance :: "s32 \<Rightarrow> int" where
  "distance v = \<bar>sint v - sint REFCOUNT_SATURATED\<bar>"

lemma sint_saturated: "sint REFCOUNT_SATURATED = - (2 ^ 30)"
  by (simp add: REFCOUNT_SATURATED_def)

lemma near_is_negative: "distance v < 2 ^ 30 \<Longrightarrow> negative v"
  by (auto simp: distance_def sint_saturated negative_sint)

text \<open>A call on a negative count is always noticed and never frees.\<close>

lemma negative_noticed:
  assumes "negative v"
  shows "\<exists>w. verdict c v = Some w" "\<not> reports_last (t, answer_of c v)"
  using assms negative_not_zero [OF assms] sle_zero_if_negative [OF assms]
  by (cases c; simp add: reports_last_def answer_of_def)+

lemma distance_grows:
  assumes "small k c" "distance v + int k < 2 ^ 30"
  shows "distance (updated c v) \<le> distance v + int k"
proof -
  have "\<bar>sint (updated c v) - sint v\<bar> \<le> int k"
    using assms(2) by (intro updated_near [OF assms(1)]) (auto simp: distance_def sint_saturated)
  then show ?thesis by (simp add: distance_def)
qed

subsection \<open>Threads that have noticed\<close>

fun noticed :: "phase \<Rightarrow> bool" where
  "noticed (Warning w) \<longleftrightarrow> True"
| "noticed p \<longleftrightarrow> False"

definition owing :: "race \<Rightarrow> nat" where
  "owing s = length (filter noticed (threads s))"

lemma filter_update_length:
  "t < length xs \<Longrightarrow> length (filter P (xs[t := y])) + of_bool (P (xs ! t)) = length (filter P xs) + of_bool (P y)"
proof (induction xs arbitrary: t)
  case (Cons x xs)
  then show ?case by (cases t) auto
qed simp

lemma owing_put:
  "t < length (threads s) \<Longrightarrow> owing (put s t p) + of_bool (noticed (threads s ! t)) = owing s + of_bool (noticed p)"
  by (simp add: owing_def put_def filter_update_length)

lemma owing_room: "t < length (threads s) \<Longrightarrow> \<not> noticed (threads s ! t) \<Longrightarrow> owing s < length (threads s)"
  unfolding owing_def by (rule length_filter_less [OF nth_mem])

lemma put_simps [simp]: "cell (put s t p) = cell s" "length (threads (put s t p)) = length (threads s)"
  "threads (put s t p) = (threads s)[t := p]" "owing (s\<lparr>cell := v\<rparr>) = owing s"
  by (simp_all add: put_def owing_def)

fun modest :: "nat \<Rightarrow> phase \<Rightarrow> bool" where
  "modest k (Trying c old) \<longleftrightarrow> small k c"
| "modest k p \<longleftrightarrow> True"

text \<open>
  The invariant: the count is as far from the saturation value as the threads that have noticed
  can have moved it.
\<close>

definition pinned :: "nat \<Rightarrow> race \<Rightarrow> bool" where
  "pinned k s \<longleftrightarrow> distance (cell s) \<le> int (k * owing s) \<and> list_all (modest k) (threads s)"

lemma list_all_update: "list_all P xs \<Longrightarrow> P y \<Longrightarrow> list_all P (xs[t := y])"
  by (auto simp: list_all_iff dest: subsetD [OF set_update_subset_insert])

lemma modest_after [simp]: "modest k (after v)"
  by (cases v) simp_all

lemma pinned_room:
  assumes "pinned k s" "k * length (threads s) < 2 ^ 30" "t < length (threads s)" "\<not> noticed (threads s ! t)"
  shows "distance (cell s) + int k < 2 ^ 30"
proof -
  have "k * Suc (owing s) \<le> k * length (threads s)" using owing_room [OF assms(3,4)] by (intro mult_le_mono2) simp
  then have "k * owing s + k < 2 ^ 30" using assms(2) by simp
  then have "int (k * owing s + k) < int (2 ^ 30)" by (simp only: of_nat_less_iff)
  then show ?thesis using assms(1) by (simp add: pinned_def)
qed

text \<open>A change of the count by a thread that had not noticed makes it notice.\<close>

lemma pinned_touch:
  assumes "pinned k s" "k * length (threads s) < 2 ^ 30" "t < length (threads s)" "\<not> noticed (threads s ! t)"
    "small k c"
  shows "pinned k (put (s\<lparr>cell := updated c (cell s)\<rparr>) t (after (verdict c (cell s))))"
    "\<not> reports_last (t, answer_of c (cell s))"
proof -
  note room = pinned_room [OF assms(1-4)]
  have neg: "negative (cell s)" using room by (intro near_is_negative) simp
  then obtain w where w: "verdict c (cell s) = Some w" using negative_noticed by blast
  show "\<not> reports_last (t, answer_of c (cell s))" using negative_noticed(2) [OF neg] .
  have "owing (put (s\<lparr>cell := updated c (cell s)\<rparr>) t (Warning w)) = Suc (owing s)"
    using owing_put [of t "s\<lparr>cell := updated c (cell s)\<rparr>" "Warning w"] assms(3,4) by simp
  then show "pinned k (put (s\<lparr>cell := updated c (cell s)\<rparr>) t (after (verdict c (cell s))))"
    using distance_grows [OF assms(5) room] assms(1)
    by (simp add: pinned_def w list_all_update algebra_simps)
qed

text \<open>A step that leaves the count alone and does not forget a warning.\<close>

lemma pinned_keep:
  assumes "pinned k s" "t < length (threads s)" "\<not> noticed (threads s ! t)" "modest k p"
  shows "pinned k (put s t p)"
proof -
  have "owing s \<le> owing (put s t p)" using owing_put [OF assms(2), of p] assms(3) by simp
  then have "k * owing s \<le> k * owing (put s t p)" by (rule mult_le_mono2)
  then have "int (k * owing s) \<le> int (k * owing (put s t p))" by (simp only: of_nat_le_iff)
  moreover have "distance (cell s) \<le> int (k * owing s)" using assms(1) by (simp only: pinned_def)
  ultimately have "distance (cell s) \<le> int (k * owing (put s t p))" by (rule order_trans [rotated])
  then show ?thesis using assms(1,4) by (simp add: pinned_def list_all_update)
qed

lemma trying_modest: "pinned k s \<Longrightarrow> t < length (threads s) \<Longrightarrow> threads s ! t = Trying c old \<Longrightarrow> small k c"
  by (force simp: pinned_def list_all_length)

text \<open>A call that does not get to an access reports nothing of the last reference.\<close>

lemma quiet_answers:
  "\<not> reports_last (t, None)" "\<not> reports_last (t, Some (c, False, old))" "\<not> reports_last (t, answer_of c 0)"
  by (cases c; simp add: reports_last_def answer_of_def)+

lemma pinned_step:
  assumes "saturates warn" "race_step lse warn k s e s'" "pinned k s" "k * length (threads s) < 2 ^ 30"
  shows "pinned k s' \<and> \<not> reports_last e \<and> length (threads s') = length (threads s)"
  using assms(2-)
proof (induction rule: race_step.induct)
  case (direct t s c old new got)
  then show ?case using access_direct [OF direct(4)] pinned_touch [of k s t c] by simp
next
  case (read t s c)
  then show ?case using pinned_keep [of k s t] by (simp add: quiet_answers)
next
  case (stop t s c old)
  then show ?case using pinned_keep [of k s t] by (simp add: quiet_answers)
next
  case (refuse t s c old)
  then show ?case using pinned_keep [of k s t] by (simp add: quiet_answers)
next
  case (attempt t s c old ok seen new got)
  note r = try_access_Some [OF attempt(5)] and c = trying_modest [OF attempt(6,1,2)]
  show ?case
  proof (cases ok)
    case True
    then show ?thesis using r c attempt pinned_touch [of k s t c] by simp
  next
    case False
    then show ?thesis using r c attempt pinned_keep [of k s t "Trying c seen"] by (simp add: quiet_answers)
  qed
next
  case (pin t s w)
  then show ?case using saturatesD [OF assms(1)]
    by (simp add: pinned_def list_all_update distance_def quiet_answers)
qed

lemma pinned_run:
  assumes "saturates warn" "race_run lse warn k s es s'" "pinned k s" "k * length (threads s) < 2 ^ 30"
  shows "pinned k s' \<and> (\<forall>e\<in>set es. \<not> reports_last e) \<and> length (threads s') = length (threads s)"
  using assms(2-)
proof (induction rule: race_run.induct)
  case (more s es s' e s'')
  then show ?case using pinned_step [OF assms(1), of lse k s' e s''] by auto
qed simp

subsection \<open>Undisturbed calls\<close>

text \<open>
  A thread that runs a call to its end with no other step between does what the operations of
  \<open>Refcount\<close> say.
\<close>

lemma put_put: "put (put s t p) t q = put s t q" "put (s\<lparr>cell := v\<rparr>) t p = (put s t p)\<lparr>cell := v\<rparr>"
  by (simp_all add: put_def)

lemma put_same: "t < length (threads s) \<Longrightarrow> threads s ! t = p \<Longrightarrow> put s t p = s"
  by (auto simp: put_def)

lemma run_one: "race_step lse warn k s e s' \<Longrightarrow> race_run lse warn k s [e] s'"
  using race_run.more [OF race_run.none] by fastforce

lemma run_two: "race_step lse warn k s e s' \<Longrightarrow> race_step lse warn k s' e' s'' \<Longrightarrow> race_run lse warn k s [e, e'] s''"
  using race_run.more [OF run_one] by fastforce

text \<open>What the operations of \<open>Refcount\<close> say of a call: its result, the old value and the count after it.\<close>

fun sequential :: "warn_fn \<Rightarrow> call \<Rightarrow> s32 \<Rightarrow> (bool \<times> s32 \<times> s32) option" where
  "sequential warn (Add i) v = Some (False, refcount_add warn i v)"
| "sequential warn (Sub i) v = Some (refcount_sub_and_test warn i v)"
| "sequential warn Dec v = Some (False, refcount_dec warn v)"
| "sequential warn (Add_not_zero i) v = refcount_add_not_zero warn i [v] v"
| "sequential warn (Add_limited i limit) v = refcount_add_not_zero_limited_acquire warn i limit [v] v"

definition answered :: "warn_fn \<Rightarrow> refcount_saturation_type option \<Rightarrow> s32 \<Rightarrow> s32" where
  "answered warn w v = (case w of None \<Rightarrow> v | Some t \<Rightarrow> warn t v)"

lemma sequential_result:
  "sequential warn c v =
     (if is_loop c \<and> (v = 0 \<or> returns_false c v)
      then Some (False, v, if v = 0 then answered warn (verdict c v) v else v)
      else Some (returned c v, v, answered warn (verdict c v) (updated c v)))"
  by (cases c) (auto simp: answered_def refcount_add_def refcount_sub_and_test_def refcount_dec_def
      refcount_add_not_zero_def refcount_add_not_zero_limited_acquire_def add_loop.simps limited_loop.simps
      saturate_if_def Let_def)

definition answers :: "race_event list \<Rightarrow> answer list" where
  "answers es = List.map_filter snd es"

lemma answers_simps [simp]: "answers [] = []" "answers (es @ es') = answers es @ answers es'"
  "answers [(t, a)] = (case a of None \<Rightarrow> [] | Some x \<Rightarrow> [x])"
  by (simp_all add: answers_def List.map_filter_def split: option.split)

text \<open>
  Where a thread alone stands: it has not answered and tries on the value it found, or it has given
  one answer, that of the sequential operation, and the count is that operation's, or will be with the
  warning.
\<close>

fun alone_at :: "warn_fn \<Rightarrow> s32 \<Rightarrow> answer list \<Rightarrow> phase \<Rightarrow> s32 \<Rightarrow> bool" where
  "alone_at warn v [] p u \<longleftrightarrow> u = v \<and> (p = Idle \<or> (\<exists>c. is_loop c \<and> p = Trying c v))"
| "alone_at warn v [(c, b, old)] p u \<longleftrightarrow>
     (p = Idle \<longrightarrow> sequential warn c v = Some (b, old, u)) \<and>
     (\<forall>w. p = Warning w \<longrightarrow> sequential warn c v = Some (b, old, warn w u))"
| "alone_at warn v _ p u \<longleftrightarrow> True"

definition alone :: "warn_fn \<Rightarrow> race \<Rightarrow> nat \<Rightarrow> answer list \<Rightarrow> race \<Rightarrow> bool" where
  "alone warn s t as s' \<longleftrightarrow> t < length (threads s) \<and>
     (\<exists>p. s' = put (s\<lparr>cell := cell s'\<rparr>) t p \<and> alone_at warn (cell s) as p (cell s'))"

lemma race_set: "(s :: race)\<lparr>cell := v, threads := ps\<rparr> = (s' :: race)\<lparr>cell := v, threads := ps\<rparr>"
  by (cases s; cases s') simp

lemma alone_two: "as \<noteq> [] \<Longrightarrow> alone_at warn v (as @ [x]) p u"
  by (cases as; cases "tl as") auto

lemma alone_answer:
  assumes "alone_at warn v as Idle u \<and> c' = c \<and> \<not> is_loop c \<and> x = (c, returned c u, u) \<and> n = updated c u \<or>
      alone_at warn v as (Trying c u) u' \<and> u' = u \<and> \<not> breaks c u \<and> \<not> returns_false c u \<and> is_loop c \<and>
        x = (c, returned c u, u) \<and> n = updated c u \<or>
      alone_at warn v as (Trying c u) u' \<and> breaks c u \<and> is_loop c \<and> x = (c, returned c u, u) \<and> n = u'"
  shows "alone_at warn v (as @ [x]) (after (verdict c u)) n"
proof (cases as)
  case Nil
  then show ?thesis using assms
    by (cases "verdict c u"; cases c) (auto simp: sequential_result answered_def)
next
  case (Cons a as')
  then show ?thesis by (cases a; cases as') simp_all
qed

lemma alone_step:
  assumes "race_step lse warn k s' e s''" "alone warn s t as s'" "fst e = t"
  shows "alone warn s t (as @ answers [e]) s''"
proof -
  from assms(2) obtain p where t: "t < length (threads s)" and s': "s' = put (s\<lparr>cell := cell s'\<rparr>) t p"
    and at: "alone_at warn (cell s) as p (cell s')" by (auto simp: alone_def)
  have th: "threads s' = (threads s)[t := p]" by (subst s') simp
  then have p: "threads s' ! t = p" using t by simp
  have same: "put (s'\<lparr>cell := n\<rparr>) t q = put (s\<lparr>cell := n\<rparr>) t q" for n q
    unfolding put_def using th by (simp add: race_set [where s = s' and s' = s])
  have next_: "alone warn s t as' (put (s'\<lparr>cell := n\<rparr>) t q)" if "alone_at warn (cell s) as' q n" for as' q n
    using that t unfolding alone_def by (auto simp: same)
  have stay: "alone warn s t as' (put s' t q)" if "alone_at warn (cell s) as' q (cell s')" for as' q
    using next_ [OF that] by simp
  from assms(1,3) show ?thesis
  proof (cases rule: race_step.cases)
    case (direct t' c old new got)
    note d = access_direct [OF direct(6)]
    then have "alone_at warn (cell s) (as @ [(c, returned c old, old)]) (after (verdict c old)) new"
      using alone_answer [of warn "cell s" as old c c] at p direct assms(3) by simp
    then show ?thesis using direct assms(3) next_ by (simp add: answer_of_def)
  next
    case (read t' c)
    then have "alone_at warn (cell s) as (Trying c (refcount_read (cell s'))) (cell s')"
      using at p assms(3) by (cases "(warn, cell s, as, p, cell s')" rule: alone_at.cases) (auto simp: refcount_read_def)
    then show ?thesis using read assms(3) stay by simp
  next
    case (stop t' c old)
    have p': "p = Trying c old" using p stop assms(3) by auto
    have "alone_at warn (cell s) (as @ [(c, returned c old, old)]) (after (verdict c old)) (cell s')"
    proof (cases "as = []")
      case True
      with at p' have "is_loop c" by simp
      then show ?thesis using alone_answer [of warn "cell s" as old c c] at p' stop(5) by blast
    qed (rule alone_two)
    then show ?thesis using stop assms(3) stay by (simp add: answer_of_def)
  next
    case (refuse t' c old)
    then have "alone_at warn (cell s) (as @ [(c, False, old)]) Idle (cell s')"
      using at p assms(3) by (cases "(warn, cell s, as, p, cell s')" rule: alone_at.cases) (auto simp: sequential_result elim: returns_false.elims)
    then show ?thesis using refuse assms(3) stay by simp
  next
    case (attempt t' c old ok seen new got)
    note r = try_access_Some [OF attempt(7)]
    show ?thesis
    proof (cases ok)
      case True
      then have "alone_at warn (cell s) (as @ [(c, returned c old, old)]) (after (verdict c old)) new"
        using alone_answer [of warn "cell s" as old c c] at p attempt r assms(3) by auto
      then show ?thesis using attempt assms(3) next_ True by (simp add: answer_of_def)
    next
      case False
      then have "alone_at warn (cell s) as (Trying c seen) new"
        using at p attempt r assms(3) by (cases "(warn, cell s, as, p, cell s')" rule: alone_at.cases) auto
      then show ?thesis using attempt assms(3) next_ False by simp
    qed
  next
    case (pin t' w)
    then have "alone_at warn (cell s) as Idle (warn w (cell s'))"
      using at p assms(3) by (cases "(warn, cell s, as, p, cell s')" rule: alone_at.cases) auto
    then show ?thesis using pin assms(3) next_ by simp
  qed
qed

lemma alone_run:
  "race_run lse warn k s es s' \<Longrightarrow> t < length (threads s) \<Longrightarrow> threads s ! t = Idle \<Longrightarrow> \<forall>e\<in>set es. fst e = t \<Longrightarrow>
   alone warn s t (answers es) s'"
proof (induction rule: race_run.induct)
  case (none s)
  then show ?case by (auto simp: alone_def put_same intro!: exI [of _ Idle])
next
  case (more s es s' e s'')
  then show ?case using alone_step [OF more.hyps(2), of s t "answers es"] by simp
qed

text \<open>Any call a thread runs to its end alone, with one answer, has the sequential outcome.\<close>

lemma alone_outcome:
  assumes "race_run lse warn k s es s'" "t < length (threads s)" "threads s ! t = Idle" "\<forall>e\<in>set es. fst e = t"
    and "answers es = [(c, b, old)]" "threads s' ! t = Idle"
  shows "sequential warn c (cell s) = Some (b, old, cell s')" "s' = s\<lparr>cell := cell s'\<rparr>"
proof -
  from alone_run [OF assms(1-4)] obtain p where p: "s' = put (s\<lparr>cell := cell s'\<rparr>) t p" "alone_at warn (cell s) [(c, b, old)] p (cell s')"
    by (auto simp: alone_def assms(5))
  have "threads s' = (threads s)[t := p]" by (subst p(1)) simp
  then have "p = Idle" using assms(2,6) by simp
  with p assms(2,3) show "sequential warn c (cell s) = Some (b, old, cell s')" "s' = s\<lparr>cell := cell s'\<rparr>"
    by (simp_all add: put_same)
qed

text \<open>And there is such a run of every call.\<close>

lemma answer_alone:
  assumes "t < length (threads s)" "threads s ! t = Idle"
  shows "\<exists>es. race_run lse warn k (put (s\<lparr>cell := v\<rparr>) t (after w)) es (s\<lparr>cell := answered warn w v\<rparr>) \<and>
    (\<forall>e\<in>set es. fst e = t) \<and> answers es = []"
proof (cases w)
  case None
  then show ?thesis using assms race_run.none [where s = "s\<lparr>cell := v\<rparr>"] by (intro exI [of _ "[]"]) (simp add: answered_def put_same)
next
  case (Some x)
  let ?s = "put (s\<lparr>cell := v\<rparr>) t (Warning x)"
  have "race_step lse warn k ?s (t, None) (put (?s\<lparr>cell := warn x (cell ?s)\<rparr>) t Idle)"
    using assms(1) by (intro race_step.pin) simp_all
  also have "put (?s\<lparr>cell := warn x (cell ?s)\<rparr>) t Idle = s\<lparr>cell := answered warn w v\<rparr>"
    using assms Some by (simp add: answered_def put_def list_update_same_conv)
  finally show ?thesis using run_one Some by (intro exI [of _ "[(t, None)]"]) simp
qed

lemma run_trans: "race_run lse warn k s' es' s'' \<Longrightarrow> race_run lse warn k s es s' \<Longrightarrow> race_run lse warn k s (es @ es') s''"
proof (induction rule: race_run.induct)
  case (more s1 es1 s2 e s3)
  then show ?case using race_run.more [OF more.IH [OF more.prems] more.hyps(2)] by simp
qed simp

lemma answer_run:
  assumes "race_run lse warn k s es (put (s\<lparr>cell := v\<rparr>) t (after w))" "t < length (threads s)" "threads s ! t = Idle"
    "\<forall>e\<in>set es. fst e = t"
  shows "\<exists>es'. race_run lse warn k s es' (s\<lparr>cell := answered warn w v\<rparr>) \<and> (\<forall>e\<in>set es'. fst e = t) \<and> answers es' = answers es"
proof -
  from answer_alone [OF assms(2,3), of lse warn k v w] obtain es' where
    "race_run lse warn k (put (s\<lparr>cell := v\<rparr>) t (after w)) es' (s\<lparr>cell := answered warn w v\<rparr>)" "\<forall>e\<in>set es'. fst e = t" "answers es' = []"
    by blast
  with run_trans [OF this(1) assms(1)] assms(4) show ?thesis by (intro exI [of _ "es @ es'"]) auto
qed

text \<open>What the model of the call has to give once its answer is settled.\<close>

definition runs_alone :: "bool \<Rightarrow> warn_fn \<Rightarrow> nat \<Rightarrow> race \<Rightarrow> nat \<Rightarrow> call \<Rightarrow> bool" where
  "runs_alone lse warn k s t c \<longleftrightarrow> (\<exists>es b old v. race_run lse warn k s es (s\<lparr>cell := v\<rparr>) \<and> (\<forall>e\<in>set es. fst e = t) \<and>
     answers es = [(c, b, old)] \<and> sequential warn c (cell s) = Some (b, old, v))"

lemma runs_aloneI:
  assumes "race_run lse warn k s es (put (s\<lparr>cell := v\<rparr>) t (after w))" "t < length (threads s)" "threads s ! t = Idle"
    "\<forall>e\<in>set es. fst e = t" "answers es = [(c, b, old)]" "sequential warn c (cell s) = Some (b, old, answered warn w v)"
  shows "runs_alone lse warn k s t c"
  using answer_run [OF assms(1-4)] assms(5,6) unfolding runs_alone_def by metis

lemma returned_zero: "is_loop c \<Longrightarrow> \<not> returned c 0"
  by (cases c) simp_all

lemma call_alone:
  assumes t: "t < length (threads s)" "threads s ! t = Idle" and c: "small k c"
  shows "runs_alone lse warn k s t c"
proof (cases "is_loop c")
  case False
  obtain got where "access lse c [(cell s, True)] = Some (cell s, updated c (cell s), got)" using access_once [OF False] by blast
  from run_one [OF race_step.direct [OF t c this]]
  show ?thesis by (rule runs_aloneI [OF _ t]) (use False in \<open>simp_all add: answer_of_def sequential_result\<close>)
next
  case True
  let ?s = "put s t (Trying c (cell s))"
  have at: "t < length (threads ?s)" "threads ?s ! t = Trying c (cell s)" using t by simp_all
  have begin_: "race_step lse warn k s (t, None) ?s" using race_step.read [OF t c True] by (simp add: refcount_read_def)
  have two: "answers [(t, None), (t, Some a)] = [a]" for a :: answer by (cases a) (simp add: answers_def List.map_filter_def)
  consider (stops) "cell s = 0" | (refuses) "cell s \<noteq> 0" "returns_false c (cell s)" | (tries) "cell s \<noteq> 0" "\<not> returns_false c (cell s)" by blast
  then show ?thesis
  proof cases
    case stops
    have "race_step lse warn k ?s (t, answer_of c (cell s)) (put ?s t (after (verdict c (cell s))))"
      using stops by (intro race_step.stop [OF at]) simp
    then have "race_run lse warn k s [(t, None), (t, answer_of c (cell s))] (put (s\<lparr>cell := cell s\<rparr>) t (after (verdict c (cell s))))"
      using run_two [OF begin_] by (simp add: put_put)
    then show ?thesis
      by (rule runs_aloneI [where b = False and old = 0, OF _ t]) (use stops True returned_zero in \<open>simp_all add: two answer_of_def sequential_result\<close>)
  next
    case refuses
    have "race_step lse warn k ?s (t, Some (c, False, cell s)) (put ?s t Idle)"
      using refuses by (intro race_step.refuse [OF at]) simp
    then have "race_run lse warn k s [(t, None), (t, Some (c, False, cell s))] (put (s\<lparr>cell := cell s\<rparr>) t (after None))"
      using run_two [OF begin_] by (simp add: put_put)
    then show ?thesis
      by (rule runs_aloneI [OF _ t]) (use refuses True in \<open>simp_all add: two sequential_result answered_def\<close>)
  next
    case tries
    obtain ord where "try_access lse c (cell s) [(cell s, True)] = tried (cell s) (arch_cmpxchg lse ord (cell s) (updated c (cell s))) [(cell s, True)]"
      using try_access_is_tried [OF True] by blast
    then have "try_access lse c (cell s) [(cell ?s, True)] = Some ((True, cell s), updated c (cell s), ord)" by (simp add: uncontended)
    from race_step.attempt [OF at _ tries(2) this, of warn k] tries(1)
    have "race_step lse warn k ?s (t, answer_of c (cell s)) (put (s\<lparr>cell := updated c (cell s)\<rparr>) t (after (verdict c (cell s))))"
      by (simp add: put_def)
    from run_two [OF begin_ this] show ?thesis
      by (rule runs_aloneI [OF _ t]) (use tries True in \<open>simp_all add: two answer_of_def sequential_result\<close>)
  qed
qed

end
