(* ===== verification/Pool_Claims.thy ===== *)
theory Pool_Claims
  imports Pool_Race Refcount_Race
begin

text \<open>
  Properties of what a kretprobe's instances live in: the object pool they are taken from and
  given back to, and the reference count that frees it.
\<close>

subsection \<open>The pool\<close>

text \<open>
  A run of takes and returns on any CPUs, with the objects currently outside the pool. An
  object can be returned only when it is outside; a take may find the pool empty.
\<close>

datatype pool_cmd = Take nat | Return nat u64

fun pool_run ::
  "(nat \<Rightarrow> nat) \<Rightarrow> pool_cmd list \<Rightarrow> objpool_head \<Rightarrow> u64 multiset \<Rightarrow> pool_fault + (objpool_head \<times> u64 multiset)" where
  "pool_run next_cpu [] pool out = Inr (pool, out)"
| "pool_run next_cpu (Take cpu # cs) pool out =
     (case objpool_pop next_cpu cpu pool of
        Inl e \<Rightarrow> Inl e
      | Inr (obj, pool) \<Rightarrow> pool_run next_cpu cs pool (if obj = 0 then out else out + {#obj#}))"
| "pool_run next_cpu (Return cpu obj # cs) pool out =
     (if obj \<in># out
      then case objpool_push cpu obj pool of
             Inl e \<Rightarrow> Inl e
           | Inr (_, pool) \<Rightarrow> pool_run next_cpu cs pool (out - {#obj#})
      else pool_run next_cpu cs pool out)"

fun cpu_of :: "pool_cmd \<Rightarrow> nat" where
  "cpu_of (Take cpu) = cpu"
| "cpu_of (Return cpu obj) = cpu"

text \<open>The pool together with what is outside it: as many objects as it was set up with.\<close>

definition pool_total :: "objpool_head \<Rightarrow> u64 multiset \<Rightarrow> bool" where
  "pool_total pool out \<longleftrightarrow> size (pool_objects pool + out) \<le> unat (nr_objs pool) \<and> 0 \<notin># out"

lemma room_for_outside:
  assumes "pool_total pool out" "obj \<in># out" "cpu < length (cpu_slots pool)"
  shows "length (slot_queue (cpu_slots pool ! cpu)) < unat (nr_objs pool)"
proof -
  have "mset (slot_queue (cpu_slots pool ! cpu)) \<subseteq># pool_objects pool"
    using assms(3) by (intro slot_queue_in_pool) simp
  then have "length (slot_queue (cpu_slots pool ! cpu)) \<le> size (pool_objects pool)"
    by (metis size_mset size_mset_mono)
  moreover have "0 < size out" using assms(2) by (cases out) auto
  ultimately show ?thesis using assms(1) by (simp add: pool_total_def)
qed

text \<open>Over any run of takes and returns on any CPUs no index leaves a ring and no take spins, no
  object is lost, duplicated or handed out twice: what is in the pool and what is outside is
  always what there was, and the pool stays well formed.\<close>

theorem pool_conserves_objects:
  "pool_ok next_cpu pool \<Longrightarrow> pool_total pool out \<Longrightarrow>
   \<forall>c\<in>set cs. cpu_of c < length (cpu_slots pool) \<Longrightarrow>
   \<exists>pool' out'. pool_run next_cpu cs pool out = Inr (pool', out') \<and> pool_ok next_cpu pool' \<and>
     pool_objects pool' + out' = pool_objects pool + out"
proof (induction next_cpu cs pool out rule: pool_run.induct)
  case (2 next_cpu cpu cs pool out)
  obtain obj pool1 where p: "objpool_pop next_cpu cpu pool = Inr (obj, pool1)" "pool_ok next_cpu pool1"
      "length (cpu_slots pool1) = length (cpu_slots pool)" "nr_objs pool1 = nr_objs pool"
      "if obj = 0 then pool1 = pool else pool_objects pool = pool_objects pool1 + {#obj#}"
    using pop_loop [OF "2.prems"(1), of cpu "nr_possible_cpus pool"] "2.prems"(3)
    unfolding objpool_pop_def by (metis (full_types) list.set_intros(1) cpu_of.simps(1))
  let ?out = "if obj = 0 then out else out + {#obj#}"
  have s: "pool_objects pool1 + ?out = pool_objects pool + out" using p(5) by (simp split: if_splits)
  then have t: "pool_total pool1 ?out" using "2.prems"(2) p(4) by (auto simp: pool_total_def)
  have c: "\<forall>c\<in>set cs. cpu_of c < length (cpu_slots pool1)" using "2.prems"(3) p(3) by simp
  from "2.IH" [OF p(1) refl p(2) t c] show ?case using p(1) s by simp
next
  case (3 next_cpu cpu obj cs pool out)
  show ?case
  proof (cases "obj \<in># out")
    case True
    have c: "cpu < length (cpu_slots pool)" and nz: "obj \<noteq> 0"
      using "3.prems" True by (auto simp: pool_total_def)
    obtain pool1 where p: "objpool_push cpu obj pool = Inr (0, pool1)" "pool_ok next_cpu pool1"
        "pool_objects pool1 = pool_objects pool + {#obj#}" "nr_objs pool1 = nr_objs pool"
        "length (cpu_slots pool1) = length (cpu_slots pool)"
      by (rule push_result [OF "3.prems"(1) c nz room_for_outside [OF "3.prems"(2) True c]])
    have s: "pool_objects pool1 + (out - {#obj#}) = pool_objects pool + out"
      using True p(3) by (simp add: add.assoc)
    then have t: "pool_total pool1 (out - {#obj#})"
      using "3.prems"(2) p(4) by (auto simp: pool_total_def dest: in_diffD)
    have cs: "\<forall>c\<in>set cs. cpu_of c < length (cpu_slots pool1)" using "3.prems"(3) p(5) by simp
    from "3.IH"(1) [OF True p(1) refl p(2) t cs] show ?thesis using p(1) s True by simp
  next
    case False
    then show ?thesis using "3.IH"(2) "3.prems" by simp
  qed
qed simp

definition two_cpu_pool :: objpool_head where
  "two_cpu_pool = \<lparr>nr_objs = 2, nr_possible_cpus = 2, cpu_slots =
     [\<lparr>objpool_slot.head = 0xffffffff, tail = 0, last = 0, mask = 1, entries = [0x20, 0x10]\<rparr>,
      \<lparr>objpool_slot.head = 5, tail = 6, last = 6, mask = 1, entries = [0, 0x30]\<rparr>]\<rparr>"

lemma two_cpu_pool_objects: "pool_objects two_cpu_pool = {#0x10, 0x30#}"
  by (simp add: pool_objects_def two_cpu_pool_def slot_queue_def ring_at_def)

theorem pool_conserves_objects_witness:
  "\<exists>pool' out'. pool_run (\<lambda>c. 1 - c) [Take 0, Take 0, Take 1, Return 1 0x10] two_cpu_pool {#} = Inr (pool', out') \<and>
     pool_objects pool' + out' = {#0x10, 0x30#}"
proof -
  have ok: "pool_ok (\<lambda>c. 1 - c) two_cpu_pool"
    by (auto simp: pool_ok_def two_cpu_pool_def slot_ok_def ring_size_def slot_queue_def ring_at_def
        intro!: exI [of _ "1 :: nat"])
  have t: "pool_total two_cpu_pool {#}"
    unfolding pool_total_def two_cpu_pool_objects by (simp add: two_cpu_pool_def)
  let ?cs = "[Take 0, Take 0, Take 1, Return 1 0x10]"
  have c: "\<forall>c\<in>set ?cs. cpu_of c < length (cpu_slots two_cpu_pool)" by (simp add: two_cpu_pool_def)
  show ?thesis using pool_conserves_objects [OF ok t c] by (auto simp only: two_cpu_pool_objects add_0_right)
qed

subsection \<open>One slot under races\<close>

text \<open>However the accesses of the CPUs taking from a slot and of the one putting into it
  interleave, the slot is a queue: objects come out in the order they went in, none twice and
  none lost, a CPU is told that the slot is empty only when it is, and no access leaves the
  array. This holds for runs that take fewer than \<open>2 ^ 32 - nr\<close> objects, so that no index a CPU
  still holds comes round again. At rest the slot is well formed again.\<close>

theorem slot_is_a_queue:
  assumes "slot_ok nr (slot s)" "pusher s = Resting" "set (poppers s) \<subseteq> {Outside}"
    "ring_run lse nr s es s'" "length (filter is_pop es) + unat nr < 2 ^ 32"
  shows "queue_run (slot_queue (slot s)) es = Some (slot_queue (slot s')) \<and>
    slot_queue (slot s) @ pushed es = popped es @ slot_queue (slot s') \<and> (\<forall>i. Overrun i \<notin> set es) \<and>
    (pusher s' = Resting \<longrightarrow> slot_ok nr (slot s'))"
proof -
  obtain k m where "ring_inv (unat (head (slot s))) k nr (unat (head (slot s))) m s"
    using quiet_ring_inv [OF assms(1-3)] .
  from ring_run_refines [OF assms(4) this assms(5)] show ?thesis
    using queue_run_fifo queue_run_in_bounds resting_slot_ok by blast
qed

text \<open>
  A ring of two cells whose indices are about to wrap: an object is put in, and a CPU that looks
  after it is stored but before it is published finds nothing.
\<close>

definition wrapping_slot :: objpool_slot where
  "wrapping_slot = \<lparr>head = 0xFFFFFFFF, tail = 0xFFFFFFFF, last = 0xFFFFFFFF, mask = 1, entries = [0, 0]\<rparr>"

definition filled_slot :: objpool_slot where
  "filled_slot = wrapping_slot\<lparr>tail := 0, entries := [0, 0x10]\<rparr>"

lemma push_while_looking:
  "ring_run True 1 \<lparr>slot = wrapping_slot, poppers = [Outside], pusher = Resting\<rparr>
    [Started 0x10, Silent, Silent, Silent, Silent, Nothing, Pushed 0x10]
    \<lparr>slot = filled_slot\<lparr>last := 0\<rparr>, poppers = [Outside], pusher = Resting\<rparr>"
proof -
  let ?st = "\<lambda>sl p pu. \<lparr>slot = sl, poppers = [p], pusher = pu\<rparr>"
  let ?w = wrapping_slot and ?t = "0xFFFFFFFF :: u32"
  have wrapped: "(0x100000000 :: u32) = 0" by simp
  obtain got where g: "raw_try_cmpxchg True Acquire ?t 0 [(?t, True)] = Some ((True, ?t), 0, got)"
    by (rule try_once)
  have 1: "ring_step True 1 Putter (?st ?w Outside Resting) (Started 0x10) (?st ?w Outside (Read_tail 0x10 ?t))"
    using ring_step.push [of "?st ?w Outside Resting" True 1 "0x10"] by (simp add: wrapping_slot_def)
  have 2: "ring_step True 1 Putter (?st ?w Outside (Read_tail 0x10 ?t)) Silent (?st ?w Outside (Reserving 0x10 ?t))"
    using ring_step.peek [of "?st ?w Outside (Read_tail 0x10 ?t)"] by simp
  have 3: "ring_step True 1 Putter (?st ?w Outside (Reserving 0x10 ?t)) Silent (?st (?w\<lparr>tail := 0\<rparr>) Outside (Filling 0x10 ?t))"
  proof -
    have "?t + 1 = 0" by simp
    with g have g': "raw_try_cmpxchg True Acquire ?t (?t + 1)
        [(tail (slot (?st ?w Outside (Reserving 0x10 ?t))), True)] = Some ((True, ?t), 0, got)"
      by (simp only: wrapping_slot_def objpool_slot.simps ring_race.simps)
    show ?thesis using ring_step.reserve [OF _ g', of "0x10" 1] by simp
  qed
  have 4: "ring_step True 1 Putter (?st (?w\<lparr>tail := 0\<rparr>) Outside (Filling 0x10 ?t)) Silent (?st filled_slot Outside (Publishing 0x10 ?t))"
    using ring_step.fill [of "?st (?w\<lparr>tail := 0\<rparr>) Outside (Filling 0x10 ?t)" "0x10" ?t True 1]
    by (simp add: wrapping_slot_def filled_slot_def)
  have 5: "ring_step True 1 (Taker 0) (?st filled_slot Outside (Publishing 0x10 ?t)) Silent (?st filled_slot (Looked ?t) (Publishing 0x10 ?t))"
    using ring_step.look [of 0 "?st filled_slot Outside (Publishing 0x10 ?t)" True 1]
    by (simp add: at_popper_def goto_def smp_load_acquire_def filled_slot_def wrapping_slot_def)
  have 6: "ring_step True 1 (Taker 0) (?st filled_slot (Looked ?t) (Publishing 0x10 ?t)) Nothing (?st filled_slot Outside (Publishing 0x10 ?t))"
    using ring_step.empty [of 0 ?t "?st filled_slot (Looked ?t) (Publishing 0x10 ?t)" True 1]
    by (simp add: at_popper_def goto_def filled_slot_def wrapping_slot_def)
  have 7: "ring_step True 1 Putter (?st filled_slot Outside (Publishing 0x10 ?t)) (Pushed 0x10) (?st (filled_slot\<lparr>last := 0\<rparr>) Outside Resting)"
    using ring_step.publish [of "?st filled_slot Outside (Publishing 0x10 ?t)" "0x10" ?t True 1]
    by (simp add: smp_store_release_def wrapped)
  show ?thesis
    using ring_run.more [OF ring_run.more [OF ring_run.more [OF ring_run.more [OF ring_run.more [OF ring_run.more
      [OF ring_run.more [OF ring_run.none 1] 2] 3] 4] 5] 6] 7] by (simp add: wrapping_slot_def)
qed

theorem slot_is_a_queue_witness:
  "slot_queue wrapping_slot = [] \<and> slot_queue (filled_slot\<lparr>last := 0\<rparr>) = [0x10]"
proof -
  have e: "slot_queue wrapping_slot = []" by (simp add: slot_queue_def wrapping_slot_def)
  have "ring_size wrapping_slot 1" by (simp add: ring_size_def wrapping_slot_def)
  then have "slot_ok 1 wrapping_slot" by (auto simp: slot_ok_def wrapping_slot_def)
  from slot_is_a_queue [OF _ _ _ push_while_looking] this e show ?thesis by simp
qed

subsection \<open>The whole pool under races\<close>

text \<open>C23: However the memory accesses of all CPUs interleave while they take objects from each
  other's slots and put back those they hold, no object is lost or handed out twice, no access
  leaves an array, and once every CPU is between its calls all slots are well formed again, the
  objects outside and in the slots being those there were. Only the number of objects is
  assumed, that of the pool's making, and that fewer than \<open>2 ^ 32 - nr\<close> are taken in the run;
  that no ring ever overflows follows.\<close>

theorem pool_survives_races:
  assumes "quiet_pool nr next_cpu s" "pool_steps lse nr next_cpu possible s es s'"
    "length (filter is_got es) + unat nr < 2 ^ 32"
  shows "Fault \<notin> set es \<and> all_objects s' = all_objects s \<and>
    (set (cpus s') \<subseteq> {Between} \<longrightarrow>
       (\<forall>r\<in>set (rings s'). slot_ok nr (slot r)) \<and>
       (\<Sum>r\<leftarrow>rings s'. mset (slot_queue (slot r))) + outside s' = all_objects s)"
proof -
  note p = pool_steps_inv [OF assms(2) quiet_pool_inv [OF assms(1)] assms(3)]
  then have all: "all_objects s' = all_objects s" by (simp add: pool_inv_def)
  have "slot_ok nr (slot r)" "ring_objects r = mset (slot_queue (slot r))"
    if "set (cpus s') \<subseteq> {Between}" "r \<in> set (rings s')" for r
    using idle_pool [OF p [THEN conjunct1] that] by (simp_all add: ring_objects_def)
  then have "(\<Sum>r\<leftarrow>rings s'. mset (slot_queue (slot r))) + outside s' = all_objects s'"
    if "set (cpus s') \<subseteq> {Between}"
    using that by (simp add: all_objects_def cong: map_cong)
  then show ?thesis using p all \<open>\<And>r. _ \<Longrightarrow> _ \<Longrightarrow> slot_ok nr (slot r)\<close> by auto
qed

text \<open>One CPU takes the object its slot holds.\<close>

definition loaded_slot :: objpool_slot where
  "loaded_slot = \<lparr>head = 0xFFFFFFFF, tail = 0, last = 0, mask = 1, entries = [0, 0x10]\<rparr>"

lemma take_from_slot:
  "pool_steps True 1 (\<lambda>c. c) 1 \<lparr>rings = [\<lparr>slot = loaded_slot, poppers = [Outside], pusher = Resting\<rparr>], cpus = [Between], outside = {#}\<rparr>
    [Internal, Internal, Internal, Internal, Internal, Got 0x10]
    \<lparr>rings = [\<lparr>slot = loaded_slot\<lparr>head := 0\<rparr>, poppers = [Outside], pusher = Resting\<rparr>], cpus = [Between], outside = {#0x10#}\<rparr>"
proof -
  let ?t = "0xFFFFFFFF :: u32"
  let ?r = "\<lambda>sl p. \<lparr>slot = sl, poppers = [p], pusher = Resting\<rparr>"
  let ?s = "\<lambda>p c. \<lparr>rings = [?r loaded_slot p], cpus = [c], outside = {#}\<rparr>"
  have wrapped: "(- 0x100000000 :: u32) = 0" by simp
  obtain got where g: "raw_try_cmpxchg True Release ?t 0 [(?t, True)] = Some ((True, ?t), 0, got)"
    by (rule try_once)
  have r1: "ring_step True 1 (Taker 0) (?r loaded_slot Outside) Silent (?r loaded_slot (Looked ?t))"
    using ring_step.look [of 0 "?r loaded_slot Outside" True 1]
    by (simp add: at_popper_def goto_def smp_load_acquire_def loaded_slot_def)
  have r2: "ring_step True 1 (Taker 0) (?r loaded_slot (Looked ?t)) Silent (?r loaded_slot (Passed ?t))"
    using ring_step.enter [of 0 ?t "?r loaded_slot (Looked ?t)" True 1] by (simp add: at_popper_def goto_def loaded_slot_def)
  have r3: "ring_step True 1 (Taker 0) (?r loaded_slot (Passed ?t)) Silent (?r loaded_slot (Fetching ?t))"
    using ring_step.fresh [of 0 ?t "?r loaded_slot (Passed ?t)" 1 True]
    by (simp add: at_popper_def goto_def loaded_slot_def wrapped)
  have r4: "ring_step True 1 (Taker 0) (?r loaded_slot (Fetching ?t)) Silent (?r loaded_slot (Taking ?t 0x10))"
    using ring_step.fetch [of 0 ?t "?r loaded_slot (Fetching ?t)" True 1] by (simp add: at_popper_def goto_def loaded_slot_def)
  have r5: "ring_step True 1 (Taker 0) (?r loaded_slot (Taking ?t 0x10)) (Popped 0x10) (?r (loaded_slot\<lparr>head := 0\<rparr>) Outside)"
  proof -
    have "?t + 1 = 0" by simp
    with g have g': "raw_try_cmpxchg True Release ?t (?t + 1)
        [(head (slot (?r loaded_slot (Taking ?t 0x10))), True)] = Some ((True, ?t), 0, got)"
      by (simp only: loaded_slot_def objpool_slot.simps ring_race.simps)
    show ?thesis using ring_step.take [OF _ g', of 0 "0x10" 1] by (simp add: at_popper_def goto_def)
  qed
  have 1: "pool_step True 1 (\<lambda>c. c) 1 (?s Outside Between) Internal (?s Outside (Visiting 0 1))"
    using pool_step.begin_pop [of 0 "?s Outside Between" True 1 "\<lambda>c. c" 1] by (simp add: at_cpu_def become_def)
  have silent: "pool_step True 1 (\<lambda>c. c) 1 (?s p (Visiting 0 1)) Internal (?s p' (Visiting 0 1))"
    if "ring_step True 1 (Taker 0) (?r loaded_slot p) Silent (?r loaded_slot p')" for p p'
    using pool_step.visit [of 0 0 0 "?s p (Visiting 0 1)" True 1 Silent _ "\<lambda>c. c" 1] that
    by (fastforce simp: at_cpu_def become_def with_ring_def)
  have 6: "pool_step True 1 (\<lambda>c. c) 1 (?s (Taking ?t 0x10) (Visiting 0 1)) (Got 0x10)
      \<lparr>rings = [?r (loaded_slot\<lparr>head := 0\<rparr>) Outside], cpus = [Between], outside = {#0x10#}\<rparr>"
    using pool_step.visit [of 0 0 0 "?s (Taking ?t 0x10) (Visiting 0 1)" True 1 "Popped 0x10" _ "\<lambda>c. c" 1] r5
    by (fastforce simp: at_cpu_def become_def with_ring_def)
  show ?thesis
    using pool_steps.more [OF pool_steps.more [OF pool_steps.more [OF pool_steps.more [OF pool_steps.more
      [OF pool_steps.more [OF pool_steps.none 1] silent [OF r1]] silent [OF r2]] silent [OF r3]] silent [OF r4]] 6]
    by simp
qed

theorem pool_survives_races_witness:
  "slot_ok 1 (loaded_slot\<lparr>head := 0\<rparr>) \<and> slot_queue loaded_slot = [0x10]"
proof -
  have q: "slot_queue loaded_slot = [0x10]" by (simp add: slot_queue_def ring_at_def loaded_slot_def)
  have "ring_size loaded_slot 1" by (simp add: ring_size_def loaded_slot_def)
  then have "slot_ok 1 loaded_slot" by (auto simp: slot_ok_def loaded_slot_def)
  with q have "quiet_pool 1 (\<lambda>c. c) \<lparr>rings = [\<lparr>slot = loaded_slot, poppers = [Outside], pusher = Resting\<rparr>], cpus = [Between], outside = {#}\<rparr>"
    by (simp add: quiet_pool_def all_objects_def ring_objects_def)
  from pool_survives_races [OF this take_from_slot] q show ?thesis by simp
qed

subsection \<open>The reference count\<close>

text \<open>A counter that starts at \<open>n\<close> references and is taken and dropped by owners holding one
  counts them exactly, and reports zero exactly when the last one is dropped; once it has
  left the valid range, taking and dropping leave it saturated and never report zero again.\<close>

theorem refcount_balanced:
  assumes "saturates warn" "negative r"
  shows "(held n ops = Some (m, z) \<and> n < 2 ^ 31 \<longrightarrow> ref_run warn ops (word_of_nat n) = (word_of_nat m, z)) \<and>
    refcount_inc warn r = (r, REFCOUNT_SATURATED) \<and>
    refcount_dec_and_test warn r = (False, r, REFCOUNT_SATURATED)"
  using run_counts [of n ops m z warn] saturated_is_absorbing(1) [OF assms, of 1]
    saturated_is_absorbing(2) [OF assms, of 1]
  by (auto simp: refcount_inc_def refcount_dec_and_test_def refcount_add_def Let_def prod_eq_iff)

theorem refcount_balanced_witness:
  "ref_run (\<lambda>_ _. REFCOUNT_SATURATED) [Get, Put, Put] 1 = (0, 1) \<and>
   refcount_dec_and_test (\<lambda>_ _. REFCOUNT_SATURATED) REFCOUNT_SATURATED = (False, REFCOUNT_SATURATED, REFCOUNT_SATURATED)"
proof -
  have s: "saturates (\<lambda>_ _. REFCOUNT_SATURATED)" by (simp add: saturates_def)
  have "held 1 [Get, Put, Put] = Some (0, 1)" by simp
  with refcount_balanced [OF s saturated_negative(1), of 1 "[Get, Put, Put]" 0 1] show ?thesis by simp
qed

text \<open>C24: A saturated counter is never freed, whatever the threads do. Once the count has the
  saturation value, any interleaving of the atomic accesses of increments, decrements and
  compare-and-swap loops, each by at most \<open>k\<close>, keeps it negative and makes none of them report
  the last reference gone, as long as the threads times \<open>k\<close> stay below \<open>2 ^ 30\<close>; when every
  thread that noticed has pinned it again, it has the saturation value. From there on, any call of a thread can run
  to its end without interruption, and every call, increment, decrement or loop, that does has the result, the old value and the
  count of the sequential operation, and leaves everything else as it was.\<close>

theorem saturation_survives_races:
  assumes "saturates warn" "race_run lse warn k s es s'" "cell s = REFCOUNT_SATURATED"
    "list_all (modest k) (threads s)" "k * length (threads s) < 2 ^ 30"
  shows "negative (cell s') \<and> (\<forall>e\<in>set es. \<not> reports_last e) \<and>
    (list_all (\<lambda>p. \<not> noticed p) (threads s') \<longrightarrow> cell s' = REFCOUNT_SATURATED) \<and>
    (\<forall>t. t < length (threads s') \<and> threads s' ! t = Idle \<longrightarrow>
       (\<forall>c. small k c \<longrightarrow> runs_alone lse warn k s' t c) \<and>
       (\<forall>es' s'' c b old. race_run lse warn k s' es' s'' \<and> (\<forall>e\<in>set es'. fst e = t) \<and>
          answers es' = [(c, b, old)] \<and> threads s'' ! t = Idle \<longrightarrow>
          sequential warn c (cell s') = Some (b, old, cell s'') \<and> s'' = s'\<lparr>cell := cell s''\<rparr>))"
proof -
  have "pinned k s" using assms(3,4) by (simp add: pinned_def distance_def)
  note p = pinned_run [OF assms(1,2) this assms(5)]
  have "owing s' \<le> length (threads s')" by (simp add: owing_def)
  with p have "int (k * owing s') < 2 ^ 30" using assms(5)
    by (metis (no_types, lifting) le_less_trans mult_le_mono2 of_nat_less_numeral_power_cancel_iff)
  with p have "negative (cell s')" by (intro near_is_negative) (simp add: pinned_def)
  moreover have "cell s' = REFCOUNT_SATURATED" if "list_all (\<lambda>p. \<not> noticed p) (threads s')"
  proof -
    have "owing s' = 0" using that by (simp add: owing_def list_all_iff filter_empty_conv)
    with p have "sint (cell s') = sint REFCOUNT_SATURATED" by (simp add: pinned_def distance_def)
    then show ?thesis by (rule signed_word_eqI)
  qed
  moreover have "sequential warn c (cell s') = Some (b, old, cell s'') \<and> s'' = s'\<lparr>cell := cell s''\<rparr>"
    if "race_run lse warn k s' es' s''" "t < length (threads s')" "threads s' ! t = Idle" "\<forall>e\<in>set es'. fst e = t"
      "answers es' = [(c, b, old)]" "threads s'' ! t = Idle" for t es' s'' c b old
    using alone_outcome [OF that] by (rule conjI)
  ultimately show ?thesis
    using p by (intro conjI allI impI) (elim conjE; (rule call_alone | blast); assumption)+
qed

text \<open>Two threads drop a reference each before either has pinned the count.\<close>

lemma drop_at_saturation:
  assumes "v = REFCOUNT_SATURATED \<or> v = REFCOUNT_SATURATED - 1"
  shows "verdict (Sub 1) v = Some REFCOUNT_SUB_UAF" "returned (Sub 1) v = False" "updated (Sub 1) v = v - 1"
  using assms by (auto simp: REFCOUNT_SATURATED_def word_sless_alt word_sle_eq)

lemma two_drops:
  fixes s :: race
  assumes "s = \<lparr>cell = REFCOUNT_SATURATED, threads = [Idle, Idle]\<rparr>"
  shows "race_run True warn 1 s [(0, Some (Sub 1, False, REFCOUNT_SATURATED)), (1, Some (Sub 1, False, REFCOUNT_SATURATED - 1))]
    \<lparr>cell = REFCOUNT_SATURATED - 2, threads = [Warning REFCOUNT_SUB_UAF, Warning REFCOUNT_SUB_UAF]\<rparr>"
proof -
  let ?s1 = "\<lparr>cell = REFCOUNT_SATURATED - 1, threads = [Warning REFCOUNT_SUB_UAF, Idle]\<rparr>"
  have one: "small 1 (Sub 1)" by (simp add: small_def)
  obtain g where g: "access True (Sub 1) [(cell s, True)] = Some (cell s, updated (Sub 1) (cell s), g)"
    using access_once [of "Sub 1" True "cell s"] by auto
  obtain g' where g': "access True (Sub 1) [(cell ?s1, True)] = Some (cell ?s1, updated (Sub 1) (cell ?s1), g')"
    using access_once [of "Sub 1" True "cell ?s1"] by auto
  have "race_step True warn 1 s (0, Some (Sub 1, False, REFCOUNT_SATURATED)) ?s1"
    using race_step.direct [of 0 s, OF _ _ one g, of warn] drop_at_saturation [of "cell s"]
    by (simp add: assms put_def answer_of_def del: verdict.simps returned.simps updated.simps)
  moreover have "race_step True warn 1 ?s1 (1, Some (Sub 1, False, REFCOUNT_SATURATED - 1))
      \<lparr>cell = REFCOUNT_SATURATED - 2, threads = [Warning REFCOUNT_SUB_UAF, Warning REFCOUNT_SUB_UAF]\<rparr>"
    using race_step.direct [of 1 ?s1, OF _ _ one g', of warn] drop_at_saturation [of "cell ?s1"]
    by (simp add: put_def answer_of_def del: verdict.simps returned.simps updated.simps)
  ultimately show ?thesis by (rule run_two)
qed

text \<open>Two threads drop a reference each before either has pinned the count.\<close>

theorem saturation_survives_races_witness:
  "negative (REFCOUNT_SATURATED - 2) \<and>
   race_run True (\<lambda>_ _. REFCOUNT_SATURATED) 1 \<lparr>cell = REFCOUNT_SATURATED, threads = [Idle, Idle]\<rparr>
     [(0, Some (Sub 1, False, REFCOUNT_SATURATED)), (1, Some (Sub 1, False, REFCOUNT_SATURATED - 1))]
     \<lparr>cell = REFCOUNT_SATURATED - 2, threads = [Warning REFCOUNT_SUB_UAF, Warning REFCOUNT_SUB_UAF]\<rparr>"
proof -
  have "saturates (\<lambda>_ _. REFCOUNT_SATURATED)" by (simp add: saturates_def)
  from saturation_survives_races [OF this two_drops [OF refl]] two_drops [OF refl]
  show ?thesis by simp
qed

end
