(* ===== verification/Rbtree.thy ===== *)
theory Rbtree
  imports Kernel_Mem
begin

text \<open>
  Red-black trees: the inline code of kheaders/include/linux/rbtree\_types.h, rbtree.h and
  rbtree\_augmented.h. The memory of tree nodes is a map from addresses to \<open>struct rb_node\<close>; an
  access at an address that is not a node faults. A structure that embeds a node is named by the
  address of the node, and what it holds beside the node is the field \<open>rb_data\<close>. The functions of
  lib/rbtree.c (\<open>rb_insert_color\<close>, \<open>__rb_erase_color\<close>, \<open>rb_next\<close>, \<open>rb_erase\<close> and the others
  declared \<open>extern\<close>) are not in the repository and are arguments. A loop that does not end is
  \<open>None\<close>.
\<close>

subsection \<open>Computations that may fault or not end\<close>

type_synonym 'a run = "(kfault + 'a) option"

fun rbind :: "'a run \<Rightarrow> ('a \<Rightarrow> 'b run) \<Rightarrow> 'b run" where
  "rbind None f = None"
| "rbind (Some (Inl e)) f = Some (Inl e)"
| "rbind (Some (Inr a)) f = f a"

abbreviation ok :: "'a \<Rightarrow> 'a run" where
  "ok a \<equiv> Some (Inr a)"

lemma rbind_ok_iff: "rbind m f = ok b \<longleftrightarrow> (\<exists>a. m = ok a \<and> f a = ok b)"
  by (cases "(m, f)" rule: rbind.cases) auto

subsection \<open>Nodes and the memory they are in\<close>

record rb_node =
  parent_color :: u64
  rb_right :: u64
  rb_left :: u64

record 'd rb_mem =
  rb_root :: u64
  rb_leftmost :: u64
  rb_nodes :: "u64 \<Rightarrow> rb_node option"
  rb_data :: 'd

definition rb_get :: "u64 \<Rightarrow> 'd rb_mem \<Rightarrow> kfault + rb_node" where
  "rb_get p s = (case rb_nodes s p of None \<Rightarrow> Inl (BadAddress p) | Some n \<Rightarrow> Inr n)"

definition rb_put :: "u64 \<Rightarrow> (rb_node \<Rightarrow> rb_node) \<Rightarrow> 'd rb_mem \<Rightarrow> kfault + 'd rb_mem" where
  "rb_put p f s = fbind (rb_get p s) (\<lambda>n. Inr (s\<lparr>rb_nodes := (rb_nodes s)(p \<mapsto> f n)\<rparr>))"

text \<open>\<open>RB_ROOT_CACHED\<close>, with memory around it.\<close>

definition RB_ROOT_CACHED :: "(u64 \<Rightarrow> rb_node option) \<Rightarrow> 'd \<Rightarrow> 'd rb_mem" where
  "RB_ROOT_CACHED m d = \<lparr>rb_root = 0, rb_leftmost = 0, rb_nodes = m, rb_data = d\<rparr>"

text \<open>The parent pointer and the colour share a word: \<open>__rb_parent\<close> and \<open>__rb_color\<close>.\<close>

definition RB_RED :: u64 where "RB_RED = 0"
definition RB_BLACK :: u64 where "RB_BLACK = 1"

definition rb_parent_pc :: "u64 \<Rightarrow> u64" where
  "rb_parent_pc pc = pc AND NOT 3"

definition rb_color_pc :: "u64 \<Rightarrow> u64" where
  "rb_color_pc pc = pc AND 1"

definition rb_is_black_pc :: "u64 \<Rightarrow> bool" where
  "rb_is_black_pc pc \<longleftrightarrow> rb_color_pc pc \<noteq> 0"

definition rb_is_red_pc :: "u64 \<Rightarrow> bool" where
  "rb_is_red_pc pc \<longleftrightarrow> rb_color_pc pc = 0"

definition rb_parent :: "u64 \<Rightarrow> 'd rb_mem \<Rightarrow> kfault + u64" where
  "rb_parent r s = fbind (rb_get r s) (\<lambda>n. Inr (parent_color n AND NOT 3))"

definition rb_color :: "u64 \<Rightarrow> 'd rb_mem \<Rightarrow> kfault + u64" where
  "rb_color r s = fbind (rb_get r s) (\<lambda>n. Inr (rb_color_pc (parent_color n)))"

definition rb_is_black :: "u64 \<Rightarrow> 'd rb_mem \<Rightarrow> kfault + bool" where
  "rb_is_black r s = fbind (rb_get r s) (\<lambda>n. Inr (rb_is_black_pc (parent_color n)))"

definition rb_is_red :: "u64 \<Rightarrow> 'd rb_mem \<Rightarrow> kfault + bool" where
  "rb_is_red r s = fbind (rb_get r s) (\<lambda>n. Inr (rb_is_red_pc (parent_color n)))"

definition RB_EMPTY_ROOT :: "'d rb_mem \<Rightarrow> bool" where
  "RB_EMPTY_ROOT s \<longleftrightarrow> rb_root s = 0"

definition RB_EMPTY_NODE :: "u64 \<Rightarrow> 'd rb_mem \<Rightarrow> kfault + bool" where
  "RB_EMPTY_NODE node s = fbind (rb_get node s) (\<lambda>n. Inr (parent_color n = node))"

definition RB_CLEAR_NODE :: "u64 \<Rightarrow> 'd rb_mem \<Rightarrow> kfault + 'd rb_mem" where
  "RB_CLEAR_NODE node s = rb_put node (parent_color_update (\<lambda>_. node)) s"

definition rb_set_parent :: "u64 \<Rightarrow> u64 \<Rightarrow> 'd rb_mem \<Rightarrow> kfault + 'd rb_mem" where
  "rb_set_parent rb p s = rb_put rb (\<lambda>n. n\<lparr>parent_color := rb_color_pc (parent_color n) + p\<rparr>) s"

definition rb_set_parent_color :: "u64 \<Rightarrow> u64 \<Rightarrow> u64 \<Rightarrow> 'd rb_mem \<Rightarrow> kfault + 'd rb_mem" where
  "rb_set_parent_color rb p color s = rb_put rb (\<lambda>n. n\<lparr>parent_color := p + color\<rparr>) s"

definition rb_change_child :: "u64 \<Rightarrow> u64 \<Rightarrow> u64 \<Rightarrow> 'd rb_mem \<Rightarrow> kfault + 'd rb_mem" where
  "rb_change_child old new parent s =
     (if parent \<noteq> 0 then
        fbind (rb_get parent s) (\<lambda>n.
          if rb_left n = old then rb_put parent (rb_left_update (\<lambda>_. new)) s
          else rb_put parent (rb_right_update (\<lambda>_. new)) s)
      else Inr (s\<lparr>rb_root := new\<rparr>))"

definition rb_change_child_rcu :: "u64 \<Rightarrow> u64 \<Rightarrow> u64 \<Rightarrow> 'd rb_mem \<Rightarrow> kfault + 'd rb_mem" where
  "rb_change_child_rcu old new parent s =
     (if parent \<noteq> 0 then
        fbind (rb_get parent s) (\<lambda>n.
          if rb_left n = old then rb_put parent (rb_left_update (\<lambda>_. new)) s
          else rb_put parent (rb_right_update (\<lambda>_. new)) s)
      else Inr (s\<lparr>rb_root := new\<rparr>))"

subsection \<open>Links: where a node pointer is stored\<close>

datatype rb_link = Root_link | Left_link u64 | Right_link u64

fun read_link :: "rb_link \<Rightarrow> 'd rb_mem \<Rightarrow> kfault + u64" where
  "read_link Root_link s = Inr (rb_root s)"
| "read_link (Left_link p) s = fbind (rb_get p s) (\<lambda>n. Inr (rb_left n))"
| "read_link (Right_link p) s = fbind (rb_get p s) (\<lambda>n. Inr (rb_right n))"

fun write_link :: "rb_link \<Rightarrow> u64 \<Rightarrow> 'd rb_mem \<Rightarrow> kfault + 'd rb_mem" where
  "write_link Root_link v s = Inr (s\<lparr>rb_root := v\<rparr>)"
| "write_link (Left_link p) v s = rb_put p (rb_left_update (\<lambda>_. v)) s"
| "write_link (Right_link p) v s = rb_put p (rb_right_update (\<lambda>_. v)) s"

definition rb_link_node :: "u64 \<Rightarrow> u64 \<Rightarrow> rb_link \<Rightarrow> 'd rb_mem \<Rightarrow> kfault + 'd rb_mem" where
  "rb_link_node node parent link s =
     fbind (rb_put node (parent_color_update (\<lambda>_. parent)) s) (\<lambda>s.
     fbind (rb_put node (\<lambda>n. n\<lparr>rb_right := 0, rb_left := 0\<rparr>) s) (\<lambda>s.
     write_link link node s))"

definition rb_link_node_rcu :: "u64 \<Rightarrow> u64 \<Rightarrow> rb_link \<Rightarrow> 'd rb_mem \<Rightarrow> kfault + 'd rb_mem" where
  "rb_link_node_rcu node parent link s =
     fbind (rb_put node (parent_color_update (\<lambda>_. parent)) s) (\<lambda>s.
     fbind (rb_put node (\<lambda>n. n\<lparr>rb_right := 0, rb_left := 0\<rparr>) s) (\<lambda>s.
     write_link link node s))"

subsection \<open>Insertion\<close>

type_synonym 'd rb_insert_color = "u64 \<Rightarrow> 'd rb_mem \<Rightarrow> 'd rb_mem run"

partial_function (option) rb_add_loop ::
  "(u64 \<Rightarrow> u64 \<Rightarrow> bool) \<Rightarrow> u64 \<Rightarrow> 'd rb_mem \<Rightarrow> rb_link \<Rightarrow> u64 \<Rightarrow> (rb_link \<times> u64) run" where
  "rb_add_loop lt node s link parent =
     (case read_link link s of
        Inl e \<Rightarrow> Some (Inl e)
      | Inr p \<Rightarrow>
          if p = 0 then ok (link, parent)
          else rb_add_loop lt node s (if lt node p then Left_link p else Right_link p) p)"

definition rb_add :: "'d rb_insert_color \<Rightarrow> (u64 \<Rightarrow> u64 \<Rightarrow> bool) \<Rightarrow> u64 \<Rightarrow> 'd rb_mem \<Rightarrow> 'd rb_mem run" where
  "rb_add insert_color lt node s =
     rbind (rb_add_loop lt node s Root_link 0) (\<lambda>(link, parent).
     rbind (Some (rb_link_node node parent link s)) (insert_color node))"

partial_function (option) rb_add_cached_loop ::
  "(u64 \<Rightarrow> u64 \<Rightarrow> bool) \<Rightarrow> u64 \<Rightarrow> 'd rb_mem \<Rightarrow> rb_link \<Rightarrow> u64 \<Rightarrow> bool \<Rightarrow> (rb_link \<times> u64 \<times> bool) run" where
  "rb_add_cached_loop lt node s link parent leftmost =
     (case read_link link s of
        Inl e \<Rightarrow> Some (Inl e)
      | Inr p \<Rightarrow>
          if p = 0 then ok (link, parent, leftmost)
          else if lt node p then rb_add_cached_loop lt node s (Left_link p) p leftmost
          else rb_add_cached_loop lt node s (Right_link p) p False)"

definition rb_insert_color_cached :: "'d rb_insert_color \<Rightarrow> u64 \<Rightarrow> bool \<Rightarrow> 'd rb_mem \<Rightarrow> 'd rb_mem run" where
  "rb_insert_color_cached insert_color node leftmost s =
     insert_color node (if leftmost then s\<lparr>rb_leftmost := node\<rparr> else s)"

definition rb_add_cached ::
  "'d rb_insert_color \<Rightarrow> (u64 \<Rightarrow> u64 \<Rightarrow> bool) \<Rightarrow> u64 \<Rightarrow> 'd rb_mem \<Rightarrow> (u64 \<times> 'd rb_mem) run" where
  "rb_add_cached insert_color lt node s =
     rbind (rb_add_cached_loop lt node s Root_link 0 True) (\<lambda>(link, parent, leftmost).
     rbind (Some (rb_link_node node parent link s)) (\<lambda>s.
     rbind (rb_insert_color_cached insert_color node leftmost s) (\<lambda>s.
     ok (if leftmost then node else 0, s))))"

text \<open>\<open>cmp\<close> is negative, zero or positive as a signed \<open>int\<close>. The loop ends at a node that compares
  equal (\<open>Inl\<close>) or at the empty link (\<open>Inr\<close>).\<close>

partial_function (option) rb_find_add_loop ::
  "(u64 \<Rightarrow> u64 \<Rightarrow> s32) \<Rightarrow> u64 \<Rightarrow> 'd rb_mem \<Rightarrow> rb_link \<Rightarrow> u64 \<Rightarrow> (u64 + rb_link \<times> u64) run" where
  "rb_find_add_loop cmp node s link parent =
     (case read_link link s of
        Inl e \<Rightarrow> Some (Inl e)
      | Inr p \<Rightarrow>
          if p = 0 then ok (Inr (link, parent))
          else if cmp node p <s 0 then rb_find_add_loop cmp node s (Left_link p) p
          else if 0 <s cmp node p then rb_find_add_loop cmp node s (Right_link p) p
          else ok (Inl p))"

definition rb_find_add ::
  "'d rb_insert_color \<Rightarrow> (u64 \<Rightarrow> u64 \<Rightarrow> s32) \<Rightarrow> u64 \<Rightarrow> 'd rb_mem \<Rightarrow> (u64 \<times> 'd rb_mem) run" where
  "rb_find_add insert_color cmp node s =
     rbind (rb_find_add_loop cmp node s Root_link 0) (\<lambda>r. case r of
         Inl found \<Rightarrow> ok (found, s)
       | Inr (link, parent) \<Rightarrow>
           rbind (Some (rb_link_node node parent link s)) (\<lambda>s.
           rbind (insert_color node s) (\<lambda>s. ok (0, s))))"

definition rb_find_add_rcu ::
  "'d rb_insert_color \<Rightarrow> (u64 \<Rightarrow> u64 \<Rightarrow> s32) \<Rightarrow> u64 \<Rightarrow> 'd rb_mem \<Rightarrow> (u64 \<times> 'd rb_mem) run" where
  "rb_find_add_rcu insert_color cmp node s =
     rbind (rb_find_add_loop cmp node s Root_link 0) (\<lambda>r. case r of
         Inl found \<Rightarrow> ok (found, s)
       | Inr (link, parent) \<Rightarrow>
           rbind (Some (rb_link_node_rcu node parent link s)) (\<lambda>s.
           rbind (insert_color node s) (\<lambda>s. ok (0, s))))"

subsection \<open>Search\<close>

partial_function (option) rb_find_loop ::
  "('k \<Rightarrow> u64 \<Rightarrow> s32) \<Rightarrow> 'k \<Rightarrow> 'd rb_mem \<Rightarrow> u64 \<Rightarrow> u64 run" where
  "rb_find_loop cmp key s node =
     (if node = 0 then ok 0
      else if cmp key node <s 0 then
        (case rb_get node s of Inl e \<Rightarrow> Some (Inl e) | Inr n \<Rightarrow> rb_find_loop cmp key s (rb_left n))
      else if 0 <s cmp key node then
        (case rb_get node s of Inl e \<Rightarrow> Some (Inl e) | Inr n \<Rightarrow> rb_find_loop cmp key s (rb_right n))
      else ok node)"

definition rb_find :: "('k \<Rightarrow> u64 \<Rightarrow> s32) \<Rightarrow> 'k \<Rightarrow> 'd rb_mem \<Rightarrow> u64 run" where
  "rb_find cmp key s = rb_find_loop cmp key s (rb_root s)"

definition rb_find_rcu :: "('k \<Rightarrow> u64 \<Rightarrow> s32) \<Rightarrow> 'k \<Rightarrow> 'd rb_mem \<Rightarrow> u64 run" where
  "rb_find_rcu cmp key s = rb_find_loop cmp key s (rb_root s)"

partial_function (option) rb_find_first_loop ::
  "('k \<Rightarrow> u64 \<Rightarrow> s32) \<Rightarrow> 'k \<Rightarrow> 'd rb_mem \<Rightarrow> u64 \<Rightarrow> u64 \<Rightarrow> u64 run" where
  "rb_find_first_loop cmp key s node found =
     (if node = 0 then ok found
      else case rb_get node s of
             Inl e \<Rightarrow> Some (Inl e)
           | Inr n \<Rightarrow>
               if cmp key node \<le>s 0
               then rb_find_first_loop cmp key s (rb_left n) (if cmp key node = 0 then node else found)
               else rb_find_first_loop cmp key s (rb_right n) found)"

definition rb_find_first :: "('k \<Rightarrow> u64 \<Rightarrow> s32) \<Rightarrow> 'k \<Rightarrow> 'd rb_mem \<Rightarrow> u64 run" where
  "rb_find_first cmp key s = rb_find_first_loop cmp key s (rb_root s) 0"

type_synonym 'd rb_step = "u64 \<Rightarrow> 'd rb_mem \<Rightarrow> u64 run"

definition rb_next_match ::
  "'d rb_step \<Rightarrow> ('k \<Rightarrow> u64 \<Rightarrow> s32) \<Rightarrow> 'k \<Rightarrow> u64 \<Rightarrow> 'd rb_mem \<Rightarrow> u64 run" where
  "rb_next_match next_node cmp key node s =
     rbind (next_node node s) (\<lambda>node. ok (if node \<noteq> 0 \<and> cmp key node \<noteq> 0 then 0 else node))"

text \<open>The nodes a loop body sees.\<close>

partial_function (option) match_walk ::
  "'d rb_step \<Rightarrow> ('k \<Rightarrow> u64 \<Rightarrow> s32) \<Rightarrow> 'k \<Rightarrow> 'd rb_mem \<Rightarrow> u64 \<Rightarrow> u64 list \<Rightarrow> u64 list run" where
  "match_walk next_node cmp key s node seen =
     (if node = 0 then ok seen
      else case rb_next_match next_node cmp key node s of
             None \<Rightarrow> None
           | Some (Inl e) \<Rightarrow> Some (Inl e)
           | Some (Inr n) \<Rightarrow> match_walk next_node cmp key s n (seen @ [node]))"

definition rb_for_each :: "'d rb_step \<Rightarrow> ('k \<Rightarrow> u64 \<Rightarrow> s32) \<Rightarrow> 'k \<Rightarrow> 'd rb_mem \<Rightarrow> u64 list run" where
  "rb_for_each next_node cmp key s =
     rbind (rb_find_first cmp key s) (\<lambda>node. match_walk next_node cmp key s node [])"

subsection \<open>Augmented trees\<close>

record 'd rb_augment_callbacks =
  propagate :: "u64 \<Rightarrow> u64 \<Rightarrow> 'd rb_mem \<Rightarrow> 'd rb_mem run"
  copy :: "u64 \<Rightarrow> u64 \<Rightarrow> 'd rb_mem \<Rightarrow> kfault + 'd rb_mem"
  rotate :: "u64 \<Rightarrow> u64 \<Rightarrow> 'd rb_mem \<Rightarrow> kfault + 'd rb_mem"

type_synonym 'd rotation = "u64 \<Rightarrow> u64 \<Rightarrow> 'd rb_mem \<Rightarrow> kfault + 'd rb_mem"
type_synonym 'd rb_rebalance = "u64 \<Rightarrow> 'd rotation \<Rightarrow> 'd rb_mem \<Rightarrow> 'd rb_mem run"

text \<open>\<open>insert_aug\<close> is \<open>__rb_insert_augmented\<close> of lib/rbtree.c.\<close>

definition rb_insert_augmented ::
  "'d rb_rebalance \<Rightarrow> u64 \<Rightarrow> 'd rb_augment_callbacks \<Rightarrow> 'd rb_mem \<Rightarrow> 'd rb_mem run" where
  "rb_insert_augmented insert_aug node cb s = insert_aug node (rotate cb) s"

definition rb_insert_augmented_cached ::
  "'d rb_rebalance \<Rightarrow> u64 \<Rightarrow> bool \<Rightarrow> 'd rb_augment_callbacks \<Rightarrow> 'd rb_mem \<Rightarrow> 'd rb_mem run" where
  "rb_insert_augmented_cached insert_aug node newleft cb s =
     rb_insert_augmented insert_aug node cb (if newleft then s\<lparr>rb_leftmost := node\<rparr> else s)"

definition rb_add_augmented_cached ::
  "'d rb_rebalance \<Rightarrow> (u64 \<Rightarrow> u64 \<Rightarrow> bool) \<Rightarrow> u64 \<Rightarrow> 'd rb_augment_callbacks \<Rightarrow> 'd rb_mem \<Rightarrow> (u64 \<times> 'd rb_mem) run" where
  "rb_add_augmented_cached insert_aug lt node cb s =
     rbind (rb_add_cached_loop lt node s Root_link 0 True) (\<lambda>(link, parent, leftmost).
     rbind (Some (rb_link_node node parent link s)) (\<lambda>s.
     rbind (propagate cb parent 0 s) (\<lambda>s.
     rbind (rb_insert_augmented_cached insert_aug node leftmost cb s) (\<lambda>s.
     ok (if leftmost then node else 0, s)))))"

subsection \<open>Removal\<close>

text \<open>
  The three cases of \<open>__rb_erase_augmented\<close>. Each gives the node to rebalance from, the node to
  propagate from and the memory. First: no left child.
\<close>

definition erase_no_left :: "u64 \<Rightarrow> rb_node \<Rightarrow> 'd rb_mem \<Rightarrow> kfault + u64 \<times> u64 \<times> 'd rb_mem" where
  "erase_no_left node n s =
     (let child = rb_right n; pc = parent_color n; parent = rb_parent_pc pc in
      fbind (rb_change_child node child parent s) (\<lambda>s.
      if child \<noteq> 0
      then fbind (rb_put child (parent_color_update (\<lambda>_. pc)) s) (\<lambda>s. Inr (0, parent, s))
      else Inr (if rb_is_black_pc pc then parent else 0, parent, s)))"

definition erase_no_right :: "u64 \<Rightarrow> rb_node \<Rightarrow> 'd rb_mem \<Rightarrow> kfault + u64 \<times> u64 \<times> 'd rb_mem" where
  "erase_no_right node n s =
     (let tmp = rb_left n; pc = parent_color n; parent = rb_parent_pc pc in
      fbind (rb_put tmp (parent_color_update (\<lambda>_. pc)) s) (\<lambda>s.
      fbind (rb_change_child node tmp parent s) (\<lambda>s.
      Inr (0, parent, s))))"

text \<open>The \<open>do\<close> loop to the leftmost node of the right subtree: it and its parent.\<close>

partial_function (option) successor_walk :: "'d rb_mem \<Rightarrow> u64 \<Rightarrow> u64 \<Rightarrow> (u64 \<times> u64) run" where
  "successor_walk s successor tmp =
     (case rb_get tmp s of
        Inl e \<Rightarrow> Some (Inl e)
      | Inr n \<Rightarrow> if rb_left n \<noteq> 0 then successor_walk s tmp (rb_left n) else ok (successor, tmp))"

text \<open>The successor, its parent and its right child, after it is taken out of its place.\<close>

definition take_successor ::
  "'d rb_augment_callbacks \<Rightarrow> u64 \<Rightarrow> u64 \<Rightarrow> 'd rb_mem \<Rightarrow> (u64 \<times> u64 \<times> u64 \<times> 'd rb_mem) run" where
  "take_successor cb node child s =
     rbind (Some (rb_get child s)) (\<lambda>c.
     if rb_left c = 0 then
       rbind (Some (copy cb node child s)) (\<lambda>s. ok (child, child, rb_right c, s))
     else
       rbind (successor_walk s child (rb_left c)) (\<lambda>(parent, successor).
       rbind (Some (rb_get successor s)) (\<lambda>sn.
       rbind (Some (rb_put parent (rb_left_update (\<lambda>_. rb_right sn)) s)) (\<lambda>s.
       rbind (Some (rb_put successor (rb_right_update (\<lambda>_. child)) s)) (\<lambda>s.
       rbind (Some (rb_set_parent child successor s)) (\<lambda>s.
       rbind (Some (copy cb node successor s)) (\<lambda>s.
       rbind (propagate cb parent successor s) (\<lambda>s.
       ok (successor, parent, rb_right sn, s)))))))))"

definition put_successor ::
  "u64 \<Rightarrow> u64 \<times> u64 \<times> u64 \<times> 'd rb_mem \<Rightarrow> kfault + u64 \<times> u64 \<times> 'd rb_mem" where
  "put_successor node = (\<lambda>(successor, parent, child2, s).
     fbind (rb_get node s) (\<lambda>n.
     fbind (rb_put successor (rb_left_update (\<lambda>_. rb_left n)) s) (\<lambda>s.
     fbind (rb_set_parent (rb_left n) successor s) (\<lambda>s.
     fbind (rb_get node s) (\<lambda>n.
     fbind (rb_change_child node successor (rb_parent_pc (parent_color n)) s) (\<lambda>s.
     fbind (if child2 \<noteq> 0
            then fbind (rb_set_parent_color child2 parent RB_BLACK s) (\<lambda>s. Inr (0, s))
            else fbind (rb_is_black successor s) (\<lambda>black. Inr (if black then parent else 0, s))) (\<lambda>(rebalance, s).
     fbind (rb_put successor (parent_color_update (\<lambda>_. parent_color n)) s) (\<lambda>s.
     Inr (rebalance, successor, s)))))))))"

definition erase_augmented ::
  "'d rb_augment_callbacks \<Rightarrow> u64 \<Rightarrow> 'd rb_mem \<Rightarrow> (u64 \<times> 'd rb_mem) run" where
  "erase_augmented cb node s =
     rbind (Some (rb_get node s)) (\<lambda>n.
     rbind (if rb_left n = 0 then Some (erase_no_left node n s)
            else if rb_right n = 0 then Some (erase_no_right node n s)
            else rbind (take_successor cb node (rb_right n) s) (\<lambda>r. Some (put_successor node r)))
       (\<lambda>(rebalance, tmp, s). rbind (propagate cb tmp 0 s) (\<lambda>s. ok (rebalance, s))))"

text \<open>\<open>erase_color\<close> is \<open>__rb_erase_color\<close>, \<open>next_node\<close> is \<open>rb_next\<close>.\<close>

definition rb_erase_augmented ::
  "'d rb_rebalance \<Rightarrow> 'd rb_augment_callbacks \<Rightarrow> u64 \<Rightarrow> 'd rb_mem \<Rightarrow> 'd rb_mem run" where
  "rb_erase_augmented erase_color cb node s =
     rbind (erase_augmented cb node s) (\<lambda>(rebalance, s).
     if rebalance \<noteq> 0 then erase_color rebalance (rotate cb) s else ok s)"

definition rb_erase_augmented_cached ::
  "'d rb_rebalance \<Rightarrow> 'd rb_step \<Rightarrow> 'd rb_augment_callbacks \<Rightarrow> u64 \<Rightarrow> 'd rb_mem \<Rightarrow> 'd rb_mem run" where
  "rb_erase_augmented_cached erase_color next_node cb node s =
     rbind (if rb_leftmost s = node
            then rbind (next_node node s) (\<lambda>n. ok (s\<lparr>rb_leftmost := n\<rparr>)) else ok s)
       (rb_erase_augmented erase_color cb node)"

text \<open>The cached variants of rbtree.h, over \<open>rb_erase\<close> and \<open>rb_replace_node\<close>.\<close>

definition rb_erase_cached ::
  "(u64 \<Rightarrow> 'd rb_mem \<Rightarrow> 'd rb_mem run) \<Rightarrow> 'd rb_step \<Rightarrow> u64 \<Rightarrow> 'd rb_mem \<Rightarrow> (u64 \<times> 'd rb_mem) run" where
  "rb_erase_cached erase next_node node s =
     rbind (if rb_leftmost s = node
            then rbind (next_node node s) (\<lambda>n. ok (n, s\<lparr>rb_leftmost := n\<rparr>)) else ok (0, s))
       (\<lambda>(leftmost, s). rbind (erase node s) (\<lambda>s. ok (leftmost, s)))"

definition rb_replace_node_cached ::
  "(u64 \<Rightarrow> u64 \<Rightarrow> 'd rb_mem \<Rightarrow> 'd rb_mem run) \<Rightarrow> u64 \<Rightarrow> u64 \<Rightarrow> 'd rb_mem \<Rightarrow> 'd rb_mem run" where
  "rb_replace_node_cached replace victim new s =
     replace victim new (if rb_leftmost s = victim then s\<lparr>rb_leftmost := new\<rparr> else s)"

end
