(* ===== verification/Rb_Trees.thy ===== *)
theory Rb_Trees
  imports Rbtree
begin

text \<open>
  What the memory of a red-black tree holds: the abstract tree \<open>rbt\<close> of addresses and colours, the
  path from a place in it up to the root, and the predicates that relate both to the memory.
  Search and insertion of rbtree.h are proved against the list of addresses from left to right.
\<close>

subsection \<open>The word of parent and colour\<close>

definition aligned :: "u64 \<Rightarrow> bool" where
  "aligned p \<longleftrightarrow> p AND 3 = 0"

definition pack :: "u64 \<Rightarrow> bool \<Rightarrow> u64" where
  "pack p black = p + of_bool black"

lemma aligned_0 [simp]: "aligned 0"
  by (simp add: aligned_def)

lemma pack_or: "aligned p \<Longrightarrow> pack p c = p OR of_bool c"
proof -
  assume a: "aligned p"
  have "p AND of_bool c = 0"
  proof (cases c)
    case True
    have "p AND 1 = (p AND 3) AND 1" by (simp add: and.assoc)
    with a True show ?thesis by (simp add: aligned_def)
  qed simp
  then show ?thesis unfolding pack_def by (metis add_0 word_plus_and_or)
qed

lemma unpack [simp]:
  assumes "aligned p"
  shows "rb_parent_pc (pack p c) = p" "pack p c AND NOT 3 = p" "rb_is_black_pc (pack p c) = c" "rb_color_pc (pack p c) = of_bool c"
proof -
  have three: "(3 :: u64) = mask 2" by (simp add: mask_eq_exp_minus_1)
  have "\<not> bit (p AND mask 2) n" for n using assms by (simp add: aligned_def three)
  from this [of 0] this [of 1] have bits: "bit p 0 = False" "bit p 1 = False"
    by (simp_all add: bit_simps)
  have "\<not> bit (p AND 3) n" for n using assms by (simp add: aligned_def)
  then have "p AND NOT 3 = p" by (intro bit_word_eqI) (simp only: bit_and_iff bit_not_iff, auto)
  moreover have "(of_bool c :: u64) AND NOT 3 = 0" by (cases c) simp_all
  ultimately show p: "pack p c AND NOT 3 = p"
    unfolding pack_or [OF assms] by (simp add: word_ao_dist)
  then show "rb_parent_pc (pack p c) = p" by (simp add: rb_parent_pc_def)
  have "pack p c AND 1 = of_bool c"
    unfolding pack_or [OF assms] by (rule bit_word_eqI) (use bits in \<open>auto simp: bit_simps\<close>)
  then show "rb_is_black_pc (pack p c) = c" "rb_color_pc (pack p c) = of_bool c"
    by (simp_all add: rb_is_black_pc_def rb_color_pc_def)
qed

subsection \<open>Trees of addresses\<close>

text \<open>A node has its left tree, its address, whether it is black, and its right tree.\<close>

datatype rbt = Tip | Nd rbt u64 bool rbt

text \<open>A place in a tree: the nodes above it, the nearest first, with what hangs off them.\<close>

datatype path = Top | Went_left u64 bool rbt path | Went_right rbt u64 bool path

fun addrs :: "rbt \<Rightarrow> u64 list" where
  "addrs Tip = []"
| "addrs (Nd l x c r) = addrs l @ x # addrs r"

fun root_of :: "rbt \<Rightarrow> u64" where
  "root_of Tip = 0"
| "root_of (Nd l x c r) = x"

fun paint :: "bool \<Rightarrow> rbt \<Rightarrow> rbt" where
  "paint c Tip = Tip"
| "paint c (Nd l x b r) = Nd l x c r"

fun plug :: "path \<Rightarrow> rbt \<Rightarrow> rbt" where
  "plug Top t = t"
| "plug (Went_left x c r up) t = plug up (Nd t x c r)"
| "plug (Went_right l x c up) t = plug up (Nd l x c t)"

fun before :: "path \<Rightarrow> u64 list" where
  "before Top = []"
| "before (Went_left x c r up) = before up"
| "before (Went_right l x c up) = before up @ addrs l @ [x]"

fun behind :: "path \<Rightarrow> u64 list" where
  "behind Top = []"
| "behind (Went_left x c r up) = x # addrs r @ behind up"
| "behind (Went_right l x c up) = behind up"

text \<open>The parent of the place, and the child of what is above the whole path.\<close>

fun above :: "u64 \<Rightarrow> path \<Rightarrow> u64" where
  "above p Top = p"
| "above p (Went_left x c r up) = x"
| "above p (Went_right l x c up) = x"

fun topmost :: "u64 \<Rightarrow> path \<Rightarrow> u64" where
  "topmost p Top = p"
| "topmost p (Went_left x c r up) = topmost x up"
| "topmost p (Went_right l x c up) = topmost x up"

fun path_append :: "path \<Rightarrow> path \<Rightarrow> path" where
  "path_append Top R = R"
| "path_append (Went_left x c r up) R = Went_left x c r (path_append up R)"
| "path_append (Went_right l x c up) R = Went_right l x c (path_append up R)"

lemma addrs_plug [simp]: "addrs (plug P t) = before P @ addrs t @ behind P"
  by (induction P arbitrary: t) auto

lemma root_of_plug [simp]: "root_of (plug P t) = topmost (root_of t) P"
  by (induction P arbitrary: t) auto

lemma addrs_paint [simp]: "addrs (paint c t) = addrs t" "root_of (paint c t) = root_of t"
  by (cases t; simp)+

lemma plug_append [simp]: "plug (path_append Q R) t = plug R (plug Q t)"
  by (induction Q arbitrary: t) auto

lemma path_append_parts [simp]:
  "before (path_append Q R) = before R @ before Q" "behind (path_append Q R) = behind Q @ behind R"
  "above p (path_append Q R) = above (above p R) Q" "topmost p (path_append Q R) = topmost (topmost p Q) R"
  by (induction Q arbitrary: p) auto

lemma above_cases: "P = Top \<and> above p P = p \<or> above p P \<in> set (before P) \<union> set (behind P)"
  by (cases P) auto

lemma place_of:
  assumes "x \<in> set (addrs t)"
  obtains P l c r where "t = plug P (Nd l x c r)"
proof -
  have "\<exists>P l c r. t = plug P (Nd l x c r)"
    using assms
  proof (induction t)
    case (Nd l y b r)
    then consider "x \<in> set (addrs l)" | "x = y" | "x \<in> set (addrs r)" by auto
    then show ?case
    proof cases
      case 1
      with Nd.IH(1) obtain P l' c r' where "l = plug P (Nd l' x c r')" by blast
      then have "Nd l y b r = plug (path_append P (Went_left y b r Top)) (Nd l' x c r')" by simp
      then show ?thesis by blast
    next
      case 2
      then have "Nd l y b r = plug Top (Nd l x b r)" by simp
      then show ?thesis by blast
    next
      case 3
      with Nd.IH(2) obtain P l' c r' where "r = plug P (Nd l' x c r')" by blast
      then have "Nd l y b r = plug (path_append P (Went_right l y b Top)) (Nd l' x c r')" by simp
      then show ?thesis by blast
    qed
  qed simp
  then show thesis using that by blast
qed

subsection \<open>Trees in memory\<close>

type_synonym rb_cells = "u64 \<Rightarrow> rb_node option"

definition cell :: "u64 \<Rightarrow> bool \<Rightarrow> u64 \<Rightarrow> u64 \<Rightarrow> rb_node" where
  "cell par c r l = \<lparr>parent_color = pack par c, rb_right = r, rb_left = l\<rparr>"

lemma cell_fields [simp]:
  "parent_color (cell par c r l) = pack par c" "rb_right (cell par c r l) = r" "rb_left (cell par c r l) = l"
  "rb_left_update f (cell par c r l) = cell par c r (f l)"
  "rb_right_update f (cell par c r l) = cell par c (f r) l"
  "parent_color_update (\<lambda>_. pack par' c') (cell par c r l) = cell par' c' r l"
  by (simp_all add: cell_def)

text \<open>\<open>t\<close> hangs below the node \<open>par\<close>.\<close>

fun rb_at :: "rb_cells \<Rightarrow> u64 \<Rightarrow> rbt \<Rightarrow> bool" where
  "rb_at m par Tip \<longleftrightarrow> True"
| "rb_at m par (Nd l x c r) \<longleftrightarrow> x \<noteq> 0 \<and> aligned x \<and>
     m x = Some (cell par c (root_of r) (root_of l)) \<and> rb_at m x l \<and> rb_at m x r"

text \<open>The path hangs below \<open>base\<close>, and the pointer at its end is \<open>p\<close>.\<close>

fun path_at :: "rb_cells \<Rightarrow> u64 \<Rightarrow> path \<Rightarrow> u64 \<Rightarrow> bool" where
  "path_at m base Top p \<longleftrightarrow> True"
| "path_at m base (Went_left x c r up) p \<longleftrightarrow> x \<noteq> 0 \<and> aligned x \<and>
     m x = Some (cell (above base up) c (root_of r) p) \<and> rb_at m x r \<and> path_at m base up x"
| "path_at m base (Went_right l x c up) p \<longleftrightarrow> x \<noteq> 0 \<and> aligned x \<and>
     m x = Some (cell (above base up) c p (root_of l)) \<and> rb_at m x l \<and> path_at m base up x"

definition rb_tree :: "'d rb_mem \<Rightarrow> rbt \<Rightarrow> bool" where
  "rb_tree s t \<longleftrightarrow> rb_root s = root_of t \<and> rb_at (rb_nodes s) 0 t \<and> distinct (addrs t)"

lemma cell_whole: "n\<lparr>parent_color := p, rb_right := r, rb_left := l\<rparr> = cell p False r l"
  by (simp add: cell_def pack_def)

lemma rb_at_plug: "rb_at m base (plug P t) \<longleftrightarrow> path_at m base P (root_of t) \<and> rb_at m (above base P) t"
  by (induction P arbitrary: t) auto

lemma path_at_append:
  "path_at m base (path_append Q R) p \<longleftrightarrow> path_at m (above base R) Q p \<and> path_at m base R (topmost p Q)"
  by (induction Q arbitrary: p) auto

lemma rb_at_members: "rb_at m par t \<Longrightarrow> x \<in> set (addrs t) \<Longrightarrow> x \<noteq> 0 \<and> aligned x \<and> m x \<noteq> None"
  by (induction t arbitrary: par) auto

lemma rb_at_cong: "(\<And>x. x \<in> set (addrs t) \<Longrightarrow> m' x = m x) \<Longrightarrow> rb_at m' par t \<longleftrightarrow> rb_at m par t"
  by (induction t arbitrary: par) auto

lemma path_at_cong:
  "(\<And>x. x \<in> set (before P) \<union> set (behind P) \<Longrightarrow> m' x = m x) \<Longrightarrow> path_at m' base P p \<longleftrightarrow> path_at m base P p"
proof (induction P arbitrary: p)
  case (Went_left x c r up)
  then have "rb_at m' x r \<longleftrightarrow> rb_at m x r" by (intro rb_at_cong) auto
  with Went_left show ?case by auto
next
  case (Went_right l x c up)
  then have "rb_at m' x l \<longleftrightarrow> rb_at m x l" by (intro rb_at_cong) auto
  with Went_right show ?case by auto
qed simp

lemma rb_at_upd [simp]: "x \<notin> set (addrs t) \<Longrightarrow> rb_at (m(x := v)) par t \<longleftrightarrow> rb_at m par t"
  by (rule rb_at_cong) auto

lemma path_at_upd [simp]:
  "x \<notin> set (before P) \<Longrightarrow> x \<notin> set (behind P) \<Longrightarrow> path_at (m(x := v)) base P p \<longleftrightarrow> path_at m base P p"
  by (rule path_at_cong) auto

lemma path_at_members:
  "path_at m base P p \<Longrightarrow> x \<in> set (before P) \<union> set (behind P) \<Longrightarrow> x \<noteq> 0 \<and> aligned x \<and> m x \<noteq> None"
proof (induction P arbitrary: p)
  case (Went_left y c r up)
  then show ?case using rb_at_members [of m y r x] by auto
next
  case (Went_right l y c up)
  then show ?case using rb_at_members [of m y l x] by auto
qed simp

lemma aligned_above: "path_at m base P p \<Longrightarrow> aligned base \<Longrightarrow> aligned (above base P)"
  by (cases P) auto

lemma above_zero: "path_at m 0 P p \<Longrightarrow> above 0 P = 0 \<longleftrightarrow> P = Top"
  by (cases P) auto

lemma root_of_member: "root_of t = 0 \<or> root_of t \<in> set (addrs t)"
  by (cases t) auto

lemma rb_at_root_zero: "rb_at m par t \<Longrightarrow> root_of t = 0 \<longleftrightarrow> t = Tip"
  by (cases t) auto

subsection \<open>Accesses\<close>

lemma rb_get_Some: "rb_nodes s x = Some n \<Longrightarrow> rb_get x s = Inr n"
  by (simp add: rb_get_def)

lemma rb_put_Some: "rb_nodes s x = Some n \<Longrightarrow> rb_put x f s = Inr (s\<lparr>rb_nodes := (rb_nodes s)(x \<mapsto> f n)\<rparr>)"
  by (simp add: rb_put_def rb_get_def)

fun link_of :: "path \<Rightarrow> rb_link" where
  "link_of Top = Root_link"
| "link_of (Went_left x c r up) = Left_link x"
| "link_of (Went_right l x c up) = Right_link x"

definition same_rest :: "'d rb_mem \<Rightarrow> 'd rb_mem \<Rightarrow> bool" where
  "same_rest s s' \<longleftrightarrow> rb_leftmost s' = rb_leftmost s \<and> rb_data s' = rb_data s"

lemma read_link_of:
  "path_at (rb_nodes s) 0 P p \<Longrightarrow> rb_root s = topmost p P \<Longrightarrow> read_link (link_of P) s = Inr p"
  by (cases P) (auto simp: rb_get_Some)

text \<open>Storing another pointer at the end of a path.\<close>

lemma write_link_of:
  assumes "path_at (rb_nodes s) 0 P p" "rb_root s = topmost p P" "distinct (before P @ behind P)"
  obtains s' where "write_link (link_of P) v s = Inr s'" "path_at (rb_nodes s') 0 P v"
    "rb_root s' = topmost v P" "same_rest s s'" "\<forall>x. x \<noteq> above 0 P \<longrightarrow> rb_nodes s' x = rb_nodes s x"
    "\<forall>x. x \<noteq> 0 \<longrightarrow> above 0 P \<noteq> x \<longrightarrow> rb_nodes s' x = rb_nodes s x"
  using assms by (cases P) (auto simp: rb_put_Some same_rest_def)

subsection \<open>Where a new node goes\<close>

lemma step_left: "plug (Went_left x c r P) l = plug P (Nd l x c r)"
  by simp

lemma step_right: "plug (Went_right l x c P) r = plug P (Nd l x c r)"
  by simp

text \<open>The place behind everything \<open>node\<close> is not less than.\<close>

definition add_place :: "(u64 \<Rightarrow> bool) \<Rightarrow> path \<Rightarrow> bool" where
  "add_place lt_node P \<longleftrightarrow> (\<forall>y\<in>set (before P). \<not> lt_node y) \<and> (\<forall>y\<in>set (behind P). lt_node y)"

definition insert_by :: "(u64 \<Rightarrow> bool) \<Rightarrow> u64 \<Rightarrow> u64 list \<Rightarrow> u64 list" where
  "insert_by lt_node x ys = takeWhile (\<lambda>y. \<not> lt_node y) ys @ x # dropWhile (\<lambda>y. \<not> lt_node y) ys"

lemma insert_at_place: "add_place lt_node P \<Longrightarrow> before P @ x # behind P = insert_by lt_node x (addrs (plug P Tip))"
proof -
  assume a: "add_place lt_node P"
  have "takeWhile (\<lambda>y. \<not> lt_node y) (behind P) = []" "dropWhile (\<lambda>y. \<not> lt_node y) (behind P) = behind P"
    using a by (cases "behind P"; auto simp: add_place_def)+
  then show ?thesis using a by (simp add: add_place_def insert_by_def takeWhile_append2 dropWhile_append2)
qed

definition rising :: "(u64 \<Rightarrow> bool) \<Rightarrow> u64 list \<Rightarrow> bool" where
  "rising lt_node ys \<longleftrightarrow> sorted_wrt (\<lambda>a b. lt_node a \<longrightarrow> lt_node b) ys"

lemma rising_split:
  assumes "rising f (xs @ y # zs)"
  shows "f y \<Longrightarrow> z \<in> set zs \<Longrightarrow> f z" "\<not> f y \<Longrightarrow> z \<in> set xs \<Longrightarrow> \<not> f z"
  using assms by (auto simp: rising_def sorted_wrt_append)

lemma rising_left:
  assumes "rising f (addrs (plug P (Nd l x c r)))" "f x" "add_place f P"
  shows "add_place f (Went_left x c r P)"
proof -
  have "rising f ((before P @ addrs l) @ x # (addrs r @ behind P))" using assms(1) by simp
  from rising_split(1) [OF this] assms(2,3) show ?thesis by (simp add: add_place_def)
qed

lemma rising_right:
  assumes "rising f (addrs (plug P (Nd l x c r)))" "\<not> f x" "add_place f P"
  shows "add_place f (Went_right l x c P)"
proof -
  have "rising f ((before P @ addrs l) @ x # (addrs r @ behind P))" using assms(1) by simp
  from rising_split(2) [OF this] assms(2,3) show ?thesis by (simp add: add_place_def)
qed

lemma rb_add_loop_place:
  assumes "rb_tree s (plug P t)" "rising (lt node) (addrs (plug P t))" "add_place (lt node) P"
  shows "\<exists>P'. rb_add_loop lt node s (link_of P) (above 0 P) = ok (link_of P', above 0 P') \<and>
    plug P' Tip = plug P t \<and> add_place (lt node) P'"
  using assms
proof (induction t arbitrary: P)
  case Tip
  then have "read_link (link_of P) s = Inr 0"
    by (intro read_link_of) (auto simp: rb_tree_def rb_at_plug)
  with Tip show ?case by (intro exI [of _ P]) (simp add: rb_add_loop.simps)
next
  case (Nd l x c r)
  then have "read_link (link_of P) s = Inr x" "x \<noteq> 0"
    by (auto intro!: read_link_of simp: rb_tree_def rb_at_plug)
  then have step: "rb_add_loop lt node s (link_of P) (above 0 P) =
      (if lt node x then rb_add_loop lt node s (link_of (Went_left x c r P)) (above 0 (Went_left x c r P))
       else rb_add_loop lt node s (link_of (Went_right l x c P)) (above 0 (Went_right l x c P)))"
    by (subst rb_add_loop.simps) simp
  show ?case
  proof (cases "lt node x")
    case True
    with Nd.prems have "add_place (lt node) (Went_left x c r P)" by (blast intro: rising_left)
    from Nd.IH(1) [OF _ _ this] Nd.prems step True show ?thesis by simp
  next
    case False
    with Nd.prems have "add_place (lt node) (Went_right l x c P)" by (blast intro: rising_right)
    from Nd.IH(2) [OF _ _ this] Nd.prems step False show ?thesis by simp
  qed
qed

text \<open>The loop with the flag for the leftmost place walks the same way.\<close>

lemma rb_add_cached_loop_place:
  assumes "rb_tree s (plug P t)" "rising (lt node) (addrs (plug P t))" "add_place (lt node) P"
  shows "\<exists>P'. rb_add_cached_loop lt node s (link_of P) (above 0 P) (before P = []) =
      ok (link_of P', above 0 P', before P' = []) \<and> plug P' Tip = plug P t \<and> add_place (lt node) P'"
  using assms
proof (induction t arbitrary: P)
  case Tip
  then have "read_link (link_of P) s = Inr 0"
    by (intro read_link_of) (auto simp: rb_tree_def rb_at_plug)
  with Tip show ?case by (intro exI [of _ P]) (simp add: rb_add_cached_loop.simps)
next
  case (Nd l x c r)
  then have "read_link (link_of P) s = Inr x" "x \<noteq> 0"
    by (auto intro!: read_link_of simp: rb_tree_def rb_at_plug)
  then have step: "rb_add_cached_loop lt node s (link_of P) (above 0 P) (before P = []) =
      (if lt node x
       then rb_add_cached_loop lt node s (link_of (Went_left x c r P)) (above 0 (Went_left x c r P)) (before (Went_left x c r P) = [])
       else rb_add_cached_loop lt node s (link_of (Went_right l x c P)) (above 0 (Went_right l x c P)) (before (Went_right l x c P) = []))"
    by (subst rb_add_cached_loop.simps) simp
  show ?case
  proof (cases "lt node x")
    case True
    with Nd.prems have "add_place (lt node) (Went_left x c r P)" by (blast intro: rising_left)
    from Nd.IH(1) [OF _ _ this] Nd.prems step True show ?thesis by simp
  next
    case False
    with Nd.prems have "add_place (lt node) (Went_right l x c P)" by (blast intro: rising_right)
    from Nd.IH(2) [OF _ _ this] Nd.prems step False show ?thesis by simp
  qed
qed

subsection \<open>Linking a node\<close>

definition fresh_node :: "u64 \<Rightarrow> 'd rb_mem \<Rightarrow> rbt \<Rightarrow> bool" where
  "fresh_node node s t \<longleftrightarrow> node \<noteq> 0 \<and> aligned node \<and> rb_nodes s node \<noteq> None \<and> node \<notin> set (addrs t)"

abbreviation leaf :: "u64 \<Rightarrow> rbt" where
  "leaf x \<equiv> Nd Tip x False Tip"

lemma rb_link_node_tree:
  assumes "rb_tree s (plug P Tip)" "fresh_node node s (plug P Tip)"
  obtains s' where "rb_link_node node (above 0 P) (link_of P) s = Inr s'" "rb_tree s' (plug P (leaf node))"
    "same_rest s s'"
proof -
  let ?m = "(rb_nodes s)(node \<mapsto> cell (above 0 P) False 0 0)"
  let ?s = "s\<lparr>rb_nodes := ?m\<rparr>"
  from assms have p: "path_at (rb_nodes s) 0 P 0" "rb_root s = topmost 0 P" "distinct (before P @ behind P)"
    and n: "node \<noteq> 0" "aligned node" "node \<notin> set (before P)" "node \<notin> set (behind P)" "rb_nodes s node \<noteq> None"
    by (auto simp: rb_tree_def rb_at_plug fresh_node_def)
  obtain s' where w: "write_link (link_of P) node ?s = Inr s'" "path_at (rb_nodes s') 0 P node"
      "rb_root s' = topmost node P" "same_rest ?s s'" "\<forall>x. x \<noteq> 0 \<longrightarrow> above 0 P \<noteq> x \<longrightarrow> rb_nodes s' x = ?m x"
    by (rule write_link_of [of ?s P 0 node]) (use p n in auto)
  have "above 0 P \<noteq> node" using above_cases [of P 0] n by auto
  with w n have cell: "rb_nodes s' node = Some (cell (above 0 P) False 0 0)" by simp
  have "rb_link_node node (above 0 P) (link_of P) s = Inr s'"
    using n w(1) by (auto simp: rb_link_node_def rb_put_Some cell_whole)
  moreover have "rb_tree s' (plug P (leaf node))"
    using w cell n p(3) by (auto simp: rb_tree_def rb_at_plug)
  moreover have "same_rest s s'" using w(4) by (simp add: same_rest_def)
  ultimately show thesis by (rule that)
qed

end
