(* ===== verification/Rb_Search.thy ===== *)
theory Rb_Search
  imports Rb_Trees
begin

text \<open>
  Insertion and search of rbtree.h. Insertion hands \<open>rb_insert_color\<close> a tree in which the new
  node is a red leaf at its place in the order; search finds what a scan of the nodes from left to
  right would. A comparison need only fall along the tree: what it says of two nodes is not used.
\<close>

subsection \<open>Black heights and colours\<close>

fun black_height :: "rbt \<Rightarrow> nat" where
  "black_height Tip = 0"
| "black_height (Nd l x c r) = black_height l + of_bool c"

fun even_heights :: "rbt \<Rightarrow> bool" where
  "even_heights Tip \<longleftrightarrow> True"
| "even_heights (Nd l x c r) \<longleftrightarrow> black_height l = black_height r \<and> even_heights l \<and> even_heights r"

fun black_root :: "rbt \<Rightarrow> bool" where
  "black_root Tip \<longleftrightarrow> True"
| "black_root (Nd l x c r) \<longleftrightarrow> c"

fun no_red_red :: "rbt \<Rightarrow> bool" where
  "no_red_red Tip \<longleftrightarrow> True"
| "no_red_red (Nd l x c r) \<longleftrightarrow> (c \<or> black_root l \<and> black_root r) \<and> no_red_red l \<and> no_red_red r"

definition balanced :: "rbt \<Rightarrow> bool" where
  "balanced t \<longleftrightarrow> even_heights t \<and> no_red_red t \<and> black_root t"

lemma paint_balance [simp]:
  "even_heights (paint c t) = even_heights t" "no_red_red t \<Longrightarrow> no_red_red (paint True t)"
  "black_root (paint True t)"
  by (cases t; simp)+

text \<open>A subtree may be replaced by one of the same height that is red only if it was.\<close>

lemma plug_even:
  "even_heights (plug P t) \<Longrightarrow> (even_heights t \<Longrightarrow> even_heights t' \<and> black_height t' = black_height t) \<Longrightarrow>
   even_heights (plug P t')"
proof (induction P arbitrary: t t')
  case (Went_left x c r P)
  from Went_left.IH [of "Nd t x c r" "Nd t' x c r"] Went_left.prems show ?case by auto
next
  case (Went_right l x c P)
  from Went_right.IH [of "Nd l x c t" "Nd l x c t'"] Went_right.prems show ?case by auto
qed simp

lemma even_inside: "even_heights (plug P t) \<Longrightarrow> even_heights t"
  by (induction P arbitrary: t) fastforce+

lemma no_red_red_inside: "no_red_red (plug P t) \<Longrightarrow> no_red_red t"
  by (induction P arbitrary: t) fastforce+

lemma plug_no_red_red:
  "no_red_red (plug P t) \<Longrightarrow> (no_red_red t \<Longrightarrow> no_red_red t') \<Longrightarrow> (black_root t \<Longrightarrow> black_root t') \<Longrightarrow>
   no_red_red (plug P t')"
proof (induction P arbitrary: t t')
  case (Went_left x c r P)
  from Went_left.IH [of "Nd t x c r" "Nd t' x c r"] Went_left.prems show ?case by auto
next
  case (Went_right l x c P)
  from Went_right.IH [of "Nd l x c t" "Nd l x c t'"] Went_right.prems show ?case by auto
qed simp

lemma plug_black_root:
  "black_root (plug P t) \<Longrightarrow> (black_root t \<Longrightarrow> black_root t') \<Longrightarrow> black_root (plug P t')"
proof (induction P arbitrary: t t')
  case (Went_left x c r P)
  from Went_left.IH [of "Nd t x c r" "Nd t' x c r"] Went_left.prems show ?case by auto
next
  case (Went_right l x c P)
  from Went_right.IH [of "Nd l x c t" "Nd l x c t'"] Went_right.prems show ?case by auto
qed simp

lemma plug_balanced:
  assumes "balanced (plug P t)" "even_heights t'" "black_height t' = black_height t" "no_red_red t'"
    "black_root t \<Longrightarrow> black_root t'"
  shows "balanced (plug P t')"
  using assms plug_even [of P t t'] plug_no_red_red [of P t t'] plug_black_root [of P t t']
  by (simp add: balanced_def)

subsection \<open>Insertion\<close>

definition cached :: "'d rb_mem \<Rightarrow> rbt \<Rightarrow> bool" where
  "cached s t \<longleftrightarrow> rb_leftmost s = (case addrs t of [] \<Rightarrow> 0 | x # xs \<Rightarrow> x)"

lemma rb_tree_place: "rb_tree s t = rb_tree s (plug Top t)"
  by simp

lemma new_leaf_even: "plug P Tip = t \<Longrightarrow> even_heights t \<Longrightarrow> even_heights (plug P (leaf x))"
  using plug_even [of P Tip "leaf x"] by simp

lemma rb_add_places:
  assumes "rb_tree s t" "fresh_node node s t" "rising (lt node) (addrs t)"
  obtains P s' where "rb_add insert_color lt node s = insert_color node s'" "plug P Tip = t"
    "rb_tree s' (plug P (leaf node))" "addrs (plug P (leaf node)) = insert_by (lt node) node (addrs t)" "same_rest s s'"
proof -
  obtain P where P: "rb_add_loop lt node s Root_link 0 = ok (link_of P, above 0 P)" "plug P Tip = t"
      "add_place (lt node) P"
    using rb_add_loop_place [of s Top t lt node] assms by (auto simp: add_place_def)
  obtain s' where s': "rb_link_node node (above 0 P) (link_of P) s = Inr s'"
      "rb_tree s' (plug P (leaf node))" "same_rest s s'"
    using rb_link_node_tree [of s P node] assms P(2) by auto
  have "rb_add insert_color lt node s = insert_color node s'" using P(1) s'(1) by (simp add: rb_add_def)
  moreover have "addrs (plug P (leaf node)) = insert_by (lt node) node (addrs t)"
    using insert_at_place [OF P(3)] P(2) by simp
  ultimately show thesis using s' P(2) that by blast
qed

lemma rb_add_cached_places:
  assumes "rb_tree s t" "fresh_node node s t" "rising (lt node) (addrs t)" "cached s t"
  obtains P s' where "rb_add_cached insert_color lt node s =
      rbind (insert_color node s') (\<lambda>s. ok (if before P = [] then node else 0, s))" "plug P Tip = t"
    "rb_tree s' (plug P (leaf node))" "addrs (plug P (leaf node)) = insert_by (lt node) node (addrs t)"
    "cached s' (plug P (leaf node))" "rb_data s' = rb_data s"
proof -
  obtain P where P: "rb_add_cached_loop lt node s Root_link 0 True = ok (link_of P, above 0 P, before P = [])"
      "plug P Tip = t" "add_place (lt node) P"
    using rb_add_cached_loop_place [of s Top t lt node] assms by (auto simp: add_place_def)
  obtain s' where s': "rb_link_node node (above 0 P) (link_of P) s = Inr s'"
      "rb_tree s' (plug P (leaf node))" "same_rest s s'"
    using rb_link_node_tree [of s P node] assms P(2) by auto
  let ?s = "if before P = [] then s'\<lparr>rb_leftmost := node\<rparr> else s'"
  have "rb_add_cached insert_color lt node s =
      rbind (insert_color node ?s) (\<lambda>s. ok (if before P = [] then node else 0, s))"
    using P(1) s'(1) by (simp add: rb_add_cached_def rb_insert_color_cached_def)
  moreover have "rb_tree ?s (plug P (leaf node))" using s'(2) by (simp add: rb_tree_def)
  moreover have "cached ?s (plug P (leaf node))"
    using assms(4) P(2) s'(3) by (cases "before P") (auto simp: cached_def same_rest_def)
  moreover have "addrs (plug P (leaf node)) = insert_by (lt node) node (addrs t)"
    using insert_at_place [OF P(3)] P(2) by simp
  moreover have "rb_data ?s = rb_data s" using s'(3) by (simp add: same_rest_def)
  ultimately show thesis using P(2) that by blast
qed

subsection \<open>Search\<close>

text \<open>The comparisons with the nodes from left to right, as signs, fall.\<close>

definition falling :: "(u64 \<Rightarrow> s32) \<Rightarrow> u64 list \<Rightarrow> bool" where
  "falling c ys \<longleftrightarrow> sorted_wrt (\<lambda>a b. sgn (sint (c b)) \<le> sgn (sint (c a))) ys"

lemma sgn_cases: "sgn (i :: int) = (if i < 0 then -1 else if 0 < i then 1 else 0)"
  by (simp add: sgn_if)

lemma falling_split:
  assumes "falling c (xs @ y # zs)"
  shows "c y <s 0 \<Longrightarrow> z \<in> set zs \<Longrightarrow> c z <s 0" "0 <s c y \<Longrightarrow> z \<in> set xs \<Longrightarrow> 0 <s c z"
    "c y \<le>s 0 \<Longrightarrow> z \<in> set zs \<Longrightarrow> c z \<le>s 0"
  using assms
  by (auto simp: falling_def sorted_wrt_append word_sless_alt word_sle_eq sgn_if split: if_splits)

lemma signed_zero_iff: "\<not> (c :: s32) <s 0 \<Longrightarrow> \<not> 0 <s c \<Longrightarrow> c = 0"
  by (simp add: signed.not_less_iff_gr_or_eq)

definition find_place :: "(u64 \<Rightarrow> s32) \<Rightarrow> path \<Rightarrow> bool" where
  "find_place c P \<longleftrightarrow> (\<forall>y\<in>set (before P). 0 <s c y) \<and> (\<forall>y\<in>set (behind P). c y <s 0)"

lemma find_place_left:
  assumes "falling f (addrs (plug P (Nd l x c r)))" "f x <s 0" "find_place f P"
  shows "find_place f (Went_left x c r P)"
proof -
  have "falling f ((before P @ addrs l) @ x # (addrs r @ behind P))" using assms(1) by simp
  from falling_split(1) [OF this] assms(2,3) show ?thesis by (simp add: find_place_def)
qed

lemma find_place_right:
  assumes "falling f (addrs (plug P (Nd l x c r)))" "0 <s f x" "find_place f P"
  shows "find_place f (Went_right l x c P)"
proof -
  have "falling f ((before P @ addrs l) @ x # (addrs r @ behind P))" using assms(1) by simp
  from falling_split(2) [OF this] assms(2,3) show ?thesis by (auto simp: find_place_def)
qed

lemma not_found: "find_place f P \<Longrightarrow> y \<in> set (addrs (plug P Tip)) \<Longrightarrow> f y \<noteq> 0"
  by (auto simp: find_place_def)

definition found_or_place :: "(u64 \<Rightarrow> s32) \<Rightarrow> rbt \<Rightarrow> u64 + rb_link \<times> u64 \<Rightarrow> bool" where
  "found_or_place c t res \<longleftrightarrow>
     (case res of Inl y \<Rightarrow> y \<in> set (addrs t) \<and> c y = 0
      | Inr (link, parent) \<Rightarrow> (\<exists>P. link = link_of P \<and> parent = above 0 P \<and> plug P Tip = t \<and> find_place c P))"

lemma rb_find_add_loop_place:
  assumes "rb_tree s (plug P t)" "falling (cmp node) (addrs (plug P t))" "find_place (cmp node) P"
  shows "\<exists>res. rb_find_add_loop cmp node s (link_of P) (above 0 P) = ok res \<and>
    found_or_place (cmp node) (plug P t) res"
  using assms
proof (induction t arbitrary: P)
  case Tip
  then have "read_link (link_of P) s = Inr 0"
    by (intro read_link_of) (auto simp: rb_tree_def rb_at_plug)
  with Tip show ?case by (intro exI [of _ "Inr (link_of P, above 0 P)"]) (auto simp: rb_find_add_loop.simps found_or_place_def)
next
  case (Nd l x c r)
  then have "read_link (link_of P) s = Inr x" "x \<noteq> 0"
    by (auto intro!: read_link_of simp: rb_tree_def rb_at_plug)
  then have step: "rb_find_add_loop cmp node s (link_of P) (above 0 P) =
      (if cmp node x <s 0 then rb_find_add_loop cmp node s (link_of (Went_left x c r P)) (above 0 (Went_left x c r P))
       else if 0 <s cmp node x then rb_find_add_loop cmp node s (link_of (Went_right l x c P)) (above 0 (Went_right l x c P))
       else ok (Inl x))"
    by (subst rb_find_add_loop.simps) simp
  consider "cmp node x <s 0" | "\<not> cmp node x <s 0" "0 <s cmp node x" | "\<not> cmp node x <s 0" "\<not> 0 <s cmp node x" by blast
  then show ?case
  proof cases
    case 1
    with Nd.prems have "find_place (cmp node) (Went_left x c r P)" by (blast intro: find_place_left)
    from Nd.IH(1) [OF _ _ this] Nd.prems(1,2) step 1 show ?thesis by simp
  next
    case 2
    with Nd.prems have "find_place (cmp node) (Went_right l x c P)" by (blast intro: find_place_right)
    from Nd.IH(2) [OF _ _ this] Nd.prems(1,2) step 2 show ?thesis by simp
  next
    case 3
    with signed_zero_iff [of "cmp node x"] step show ?thesis by (simp add: found_or_place_def)
  qed
qed

lemma rb_find_add_places:
  assumes "rb_tree s t" "fresh_node node s t" "falling (cmp node) (addrs t)"
  shows "(\<exists>y\<in>set (addrs t). cmp node y = 0 \<and> rb_find_add insert_color cmp node s = ok (y, s)) \<or>
    (\<exists>P s'. (\<forall>y\<in>set (addrs t). cmp node y \<noteq> 0) \<and> plug P Tip = t \<and> find_place (cmp node) P \<and>
       rb_tree s' (plug P (leaf node)) \<and> same_rest s s' \<and>
       rb_find_add insert_color cmp node s = rbind (insert_color node s') (\<lambda>s. ok (0, s)))"
proof -
  obtain res where res: "rb_find_add_loop cmp node s Root_link 0 = ok res" "found_or_place (cmp node) t res"
    using rb_find_add_loop_place [of s Top t cmp node] assms by (force simp: find_place_def)
  show ?thesis
  proof (cases res)
    case (Inl y)
    with res show ?thesis by (auto simp: rb_find_add_def found_or_place_def)
  next
    case (Inr lp)
    with res obtain P where P: "lp = (link_of P, above 0 P)" "plug P Tip = t" "find_place (cmp node) P"
      by (cases lp) (auto simp: found_or_place_def)
    obtain s' where s': "rb_link_node node (above 0 P) (link_of P) s = Inr s'"
        "rb_tree s' (plug P (leaf node))" "same_rest s s'"
      using rb_link_node_tree [of s P node] assms P(2) by auto
    have "rb_find_add insert_color cmp node s = rbind (insert_color node s') (\<lambda>s. ok (0, s))"
      using res(1) Inr P(1) s'(1) by (simp add: rb_find_add_def)
    with P s' not_found [OF P(3)] show ?thesis by blast
  qed
qed

definition sought :: "(u64 \<Rightarrow> s32) \<Rightarrow> u64 list \<Rightarrow> u64 \<Rightarrow> bool" where
  "sought c ys y \<longleftrightarrow> (if \<exists>z\<in>set ys. c z = 0 then y \<in> set ys \<and> c y = 0 else y = 0)"

lemma found_in_part:
  "sought c xs y \<Longrightarrow> set xs \<subseteq> set ys \<Longrightarrow> (\<And>z. z \<in> set ys \<Longrightarrow> z \<notin> set xs \<Longrightarrow> c z \<noteq> 0) \<Longrightarrow> sought c ys y"
  by (auto simp: sought_def split: if_splits)

lemma rb_find_loop_spec:
  assumes "rb_at (rb_nodes s) par t" "falling (cmp key) (addrs t)"
  shows "\<exists>y. rb_find_loop cmp key s (root_of t) = ok y \<and> sought (cmp key) (addrs t) y"
  using assms
proof (induction t arbitrary: par)
  case Tip
  then show ?case by (simp add: rb_find_loop.simps sought_def)
next
  case (Nd l x c r)
  let ?f = "cmp key"
  have fl: "falling ?f (addrs l)" "falling ?f (addrs r)" using Nd.prems(2) by (auto simp: falling_def sorted_wrt_append)
  have f: "falling ?f (addrs l @ x # addrs r)" using Nd.prems(2) by simp
  have step: "rb_find_loop cmp key s x = (if ?f x <s 0 then rb_find_loop cmp key s (root_of l)
      else if 0 <s ?f x then rb_find_loop cmp key s (root_of r) else ok x)"
    using Nd.prems(1) by (subst rb_find_loop.simps) (simp add: rb_get_Some)
  consider "?f x <s 0" | "\<not> ?f x <s 0" "0 <s ?f x" | "\<not> ?f x <s 0" "\<not> 0 <s ?f x" by blast
  then show ?case
  proof cases
    case 1
    obtain y where y: "rb_find_loop cmp key s (root_of l) = ok y" "sought ?f (addrs l) y"
      using Nd.IH(1) [OF _ fl(1)] Nd.prems(1) by auto
    have "sought ?f (addrs (Nd l x c r)) y"
      by (rule found_in_part [OF y(2)]) (use 1 falling_split(1) [OF f 1] in force)+
    with 1 step y(1) show ?thesis by simp
  next
    case 2
    obtain y where y: "rb_find_loop cmp key s (root_of r) = ok y" "sought ?f (addrs r) y"
      using Nd.IH(2) [OF _ fl(2)] Nd.prems(1) by auto
    have "sought ?f (addrs (Nd l x c r)) y"
      by (rule found_in_part [OF y(2)]) (use 2 falling_split(2) [OF f 2(2)] in force)+
    with 2 step y(1) show ?thesis by simp
  next
    case 3
    with signed_zero_iff [of "?f x"] step show ?thesis by (auto simp: sought_def)
  qed
qed

definition first_match :: "(u64 \<Rightarrow> s32) \<Rightarrow> u64 list \<Rightarrow> u64 \<Rightarrow> u64" where
  "first_match c ys otherwise = (case filter (\<lambda>y. c y = 0) ys of [] \<Rightarrow> otherwise | y # zs \<Rightarrow> y)"

lemma first_match_append: "first_match c (xs @ ys) z = first_match c xs (first_match c ys z)"
  by (simp add: first_match_def split: list.splits)

lemma no_match: "(\<And>y. y \<in> set ys \<Longrightarrow> c y \<noteq> 0) \<Longrightarrow> first_match c ys z = z"
  by (simp add: first_match_def)

lemma rb_find_first_loop_spec:
  assumes "rb_at (rb_nodes s) par t" "falling (cmp key) (addrs t)"
  shows "rb_find_first_loop cmp key s (root_of t) found = ok (first_match (cmp key) (addrs t) found)"
  using assms
proof (induction t arbitrary: par found)
  case Tip
  then show ?case by (simp add: rb_find_first_loop.simps first_match_def)
next
  case (Nd l x c r)
  let ?f = "cmp key"
  have fl: "falling ?f (addrs l)" "falling ?f (addrs r)" using Nd.prems(2) by (auto simp: falling_def sorted_wrt_append)
  have f: "falling ?f (addrs l @ x # addrs r)" using Nd.prems(2) by simp
  have step: "rb_find_first_loop cmp key s x found =
      (if ?f x \<le>s 0 then rb_find_first_loop cmp key s (root_of l) (if ?f x = 0 then x else found)
       else rb_find_first_loop cmp key s (root_of r) found)"
    using Nd.prems(1) by (subst rb_find_first_loop.simps) (simp add: rb_get_Some)
  show ?case
  proof (cases "?f x \<le>s 0")
    case True
    have "first_match ?f (x # addrs r) found = (if ?f x = 0 then x else found)"
    proof (cases "?f x = 0")
      case False
      with True have "?f x <s 0" by (simp add: signed.order.strict_iff_order)
      have "y \<in> set (x # addrs r) \<Longrightarrow> ?f y \<noteq> 0" for y
        using falling_split(1) [OF f \<open>?f x <s 0\<close>, of y] \<open>?f x <s 0\<close> by auto
      then have "first_match ?f (x # addrs r) found = found" by (rule no_match)
      with False show ?thesis by simp
    qed (simp add: first_match_def)
    with True step Nd.IH(1) [OF _ fl(1)] Nd.prems(1) show ?thesis by (auto simp: first_match_append)
  next
    case False
    then have "0 <s ?f x" by (simp add: signed.not_le)
    have "y \<in> set (addrs l @ [x]) \<Longrightarrow> ?f y \<noteq> 0" for y
      using falling_split(2) [OF f \<open>0 <s ?f x\<close>, of y] \<open>0 <s ?f x\<close> by auto
    then have "first_match ?f ((addrs l @ [x]) @ addrs r) found = first_match ?f (addrs r) found"
      by (subst first_match_append) (rule no_match)
    with False step Nd.IH(2) [OF _ fl(2)] Nd.prems(1) show ?thesis by auto
  qed
qed

text \<open>What \<open>rb_next\<close> promises: the next address from left to right, null at the end.\<close>

fun next_in :: "u64 list \<Rightarrow> u64 \<Rightarrow> u64" where
  "next_in (x # y # zs) a = (if x = a then y else next_in (y # zs) a)"
| "next_in xs a = 0"

definition steps_right :: "'d rb_step \<Rightarrow> 'd rb_mem \<Rightarrow> rbt \<Rightarrow> bool" where
  "steps_right next_node s t \<longleftrightarrow> (\<forall>x\<in>set (addrs t). next_node x s = ok (next_in (addrs t) x))"

lemma next_in_append: "x \<notin> set xs \<Longrightarrow> next_in (xs @ x # ys) x = (case ys of [] \<Rightarrow> 0 | y # zs \<Rightarrow> y)"
proof (induction xs)
  case Nil
  then show ?case by (cases ys) auto
next
  case (Cons a xs)
  then show ?case by (cases xs) auto
qed

lemma match_walk_spec:
  assumes "steps_right next_node s t" "rb_tree s t" "addrs t = xs @ ys @ zs"
    "\<forall>y\<in>set ys. cmp key y = 0" "\<forall>z\<in>set zs. cmp key z \<noteq> 0"
  shows "match_walk next_node cmp key s (case ys of [] \<Rightarrow> 0 | y # _ \<Rightarrow> y) seen = ok (seen @ ys)"
  using assms(3-5)
proof (induction ys arbitrary: xs seen)
  case Nil
  then show ?case by (simp add: match_walk.simps)
next
  case (Cons y ys)
  have y: "y \<in> set (addrs t)" "y \<notin> set xs" "distinct (addrs t)"
    using Cons.prems(1) assms(2) by (auto simp: rb_tree_def)
  then have y0: "y \<noteq> 0" using rb_at_members assms(2) by (auto simp: rb_tree_def)
  have "next_node y s = ok (case ys @ zs of [] \<Rightarrow> 0 | y # _ \<Rightarrow> y)"
    using assms(1) y next_in_append [of y xs "ys @ zs"] Cons.prems(1) by (simp add: steps_right_def)
  then have "rb_next_match next_node cmp key y s = ok (case ys of [] \<Rightarrow> 0 | y # _ \<Rightarrow> y)"
    using Cons.prems(2,3) by (cases ys; cases zs) (auto simp: rb_next_match_def)
  with y0 have "match_walk next_node cmp key s y seen = match_walk next_node cmp key s (case ys of [] \<Rightarrow> 0 | y # _ \<Rightarrow> y) (seen @ [y])"
    by (subst match_walk.simps) simp
  with Cons.IH [of "xs @ [y]" "seen @ [y]"] Cons.prems show ?case by simp
qed

lemma falling_blocks:
  "falling c ys \<Longrightarrow> \<exists>xs zs. ys = xs @ filter (\<lambda>y. c y = 0) ys @ zs \<and> (\<forall>x\<in>set xs. 0 <s c x) \<and> (\<forall>z\<in>set zs. c z <s 0)"
proof (induction ys)
  case (Cons y ys)
  then obtain xs zs where IH: "ys = xs @ filter (\<lambda>y. c y = 0) ys @ zs" "\<forall>x\<in>set xs. 0 <s c x" "\<forall>z\<in>set zs. c z <s 0"
    by (auto simp: falling_def)
  have f: "falling c ([] @ y # ys)" using Cons.prems by simp
  consider "c y <s 0" | "0 <s c y" | "c y = 0" using signed_zero_iff [of "c y"] by blast
  then show ?case
  proof cases
    case 1
    then have "\<forall>z\<in>set (y # ys). c z <s 0" using falling_split(1) [OF f 1] by auto
    moreover from this have "filter (\<lambda>y. c y = 0) (y # ys) = []" by (auto simp: filter_empty_conv)
    ultimately show ?thesis by (intro exI [of _ "[]"] exI [of _ "y # ys"]) simp
  next
    case 2
    with IH show ?thesis by (intro exI [of _ "y # xs"] exI [of _ zs]) auto
  next
    case 3
    then have "\<forall>z\<in>set ys. c z \<le>s 0" using falling_split(3) [OF f] by auto
    moreover have "set xs \<subseteq> set ys" by (subst IH(1)) simp
    ultimately have "xs = []" using IH(2) by (cases xs) (auto simp: signed.not_le [symmetric])
    with IH 3 show ?thesis by (intro exI [of _ "[]"] exI [of _ zs]) auto
  qed
qed simp

lemma rb_for_each_spec:
  assumes "steps_right next_node s t" "rb_tree s t" "falling (cmp key) (addrs t)"
  shows "rb_for_each next_node cmp key s = ok (filter (\<lambda>y. cmp key y = 0) (addrs t))"
proof -
  obtain xs zs where b: "addrs t = xs @ filter (\<lambda>y. cmp key y = 0) (addrs t) @ zs" "\<forall>z\<in>set zs. cmp key z <s 0"
    using falling_blocks [OF assms(3)] by blast
  have "rb_find_first cmp key s = ok (first_match (cmp key) (addrs t) 0)"
    using rb_find_first_loop_spec [of s 0 t cmp key 0] assms by (simp add: rb_find_first_def rb_tree_def)
  moreover have "\<forall>z\<in>set zs. cmp key z \<noteq> 0" using b(2) by auto
  from match_walk_spec [of next_node s t xs _ zs cmp key "[]", OF assms(1,2) b(1) _ this]
  have "match_walk next_node cmp key s (first_match (cmp key) (addrs t) 0) [] = ok (filter (\<lambda>y. cmp key y = 0) (addrs t))"
    by (simp add: first_match_def)
  ultimately show ?thesis by (simp add: rb_for_each_def)
qed

end
