(* ===== verification/Rb_Erase.thy ===== *)
theory Rb_Erase
  imports Rb_Search
begin

text \<open>
  Removal (\<open>__rb_erase_augmented\<close>), against what the augmentation callbacks promise: each node has
  a value computed from what it holds and the values of its children; \<open>copy\<close> carries a value
  over, \<open>propagate\<close> recomputes the values from a node up. Removal takes exactly the node out,
  keeps every value right, and either leaves a red-black tree or names the parent of the one
  place that lacks a black node, which is what \<open>__rb_erase_color\<close> is called for.
\<close>

subsection \<open>What a callback set promises\<close>

fun spine :: "path \<Rightarrow> u64 list" where
  "spine Top = []"
| "spine (Went_left x c r up) = x # spine up"
| "spine (Went_right l x c up) = x # spine up"

definition child_val :: "(u64 \<Rightarrow> 'v) \<Rightarrow> u64 \<Rightarrow> 'v option" where
  "child_val val p = (if p = 0 then None else Some (val p))"

definition right_at :: "('o \<Rightarrow> 'v option \<Rightarrow> 'v option \<Rightarrow> 'v) \<Rightarrow> (u64 \<Rightarrow> 'o) \<Rightarrow> (u64 \<Rightarrow> 'v) \<Rightarrow> u64 \<Rightarrow> u64 \<Rightarrow> u64 \<Rightarrow> bool" where
  "right_at calc own val x p q \<longleftrightarrow> val x = calc (own x) (child_val val p) (child_val val q)"

fun good_tree :: "('o \<Rightarrow> 'v option \<Rightarrow> 'v option \<Rightarrow> 'v) \<Rightarrow> (u64 \<Rightarrow> 'o) \<Rightarrow> (u64 \<Rightarrow> 'v) \<Rightarrow> rbt \<Rightarrow> bool" where
  "good_tree calc own val Tip \<longleftrightarrow> True"
| "good_tree calc own val (Nd l x c r) \<longleftrightarrow> right_at calc own val x (root_of l) (root_of r) \<and>
     good_tree calc own val l \<and> good_tree calc own val r"

fun good_path :: "('o \<Rightarrow> 'v option \<Rightarrow> 'v option \<Rightarrow> 'v) \<Rightarrow> (u64 \<Rightarrow> 'o) \<Rightarrow> (u64 \<Rightarrow> 'v) \<Rightarrow> path \<Rightarrow> u64 \<Rightarrow> bool" where
  "good_path calc own val Top p \<longleftrightarrow> True"
| "good_path calc own val (Went_left x c r up) p \<longleftrightarrow> right_at calc own val x p (root_of r) \<and>
     good_tree calc own val r \<and> good_path calc own val up x"
| "good_path calc own val (Went_right l x c up) p \<longleftrightarrow> right_at calc own val x (root_of l) p \<and>
     good_tree calc own val l \<and> good_path calc own val up x"

text \<open>All but the lowest node of the path is right.\<close>

fun good_above :: "('o \<Rightarrow> 'v option \<Rightarrow> 'v option \<Rightarrow> 'v) \<Rightarrow> (u64 \<Rightarrow> 'o) \<Rightarrow> (u64 \<Rightarrow> 'v) \<Rightarrow> path \<Rightarrow> bool" where
  "good_above calc own val Top \<longleftrightarrow> True"
| "good_above calc own val (Went_left x c r up) \<longleftrightarrow> good_tree calc own val r \<and> good_path calc own val up x"
| "good_above calc own val (Went_right l x c up) \<longleftrightarrow> good_tree calc own val l \<and> good_path calc own val up x"

lemma good_plug:
  "good_tree calc own val (plug P t) \<longleftrightarrow> good_path calc own val P (root_of t) \<and> good_tree calc own val t"
  by (induction P arbitrary: t) auto

lemma good_path_append:
  "good_path calc own val (path_append Q R) p \<longleftrightarrow> good_path calc own val Q p \<and> good_path calc own val R (topmost p Q)"
  by (induction Q arbitrary: p) auto

lemma good_path_above: "good_path calc own val P p \<Longrightarrow> good_above calc own val P"
  by (cases P) auto

lemma good_tree_cong:
  "(\<And>x. x \<in> set (addrs t) \<Longrightarrow> val' x = val x) \<Longrightarrow> good_tree calc own val' t \<longleftrightarrow> good_tree calc own val t"
proof (induction t)
  case (Nd l x c r)
  have "child_val val' (root_of l) = child_val val (root_of l)" "child_val val' (root_of r) = child_val val (root_of r)"
    using Nd.prems root_of_member [of l] root_of_member [of r] by (auto simp: child_val_def)
  with Nd show ?case by (simp add: right_at_def)
qed simp

lemma good_path_cong:
  assumes "\<And>x. x \<in> set (before P) \<union> set (behind P) \<Longrightarrow> val' x = val x" "child_val val' p' = child_val val p"
  shows "good_path calc own val' P p' \<longleftrightarrow> good_path calc own val P p"
  using assms
proof (induction P arbitrary: p p')
  case (Went_left x c r up)
  have "good_tree calc own val' r = good_tree calc own val r" by (rule good_tree_cong) (use Went_left.prems in simp)
  moreover have "child_val val' (root_of r) = child_val val (root_of r)" "val' x = val x"
    using Went_left.prems root_of_member [of r] by (auto simp: child_val_def)
  moreover have "good_path calc own val' up x = good_path calc own val up x"
    by (rule Went_left.IH) (use Went_left.prems in \<open>auto simp: child_val_def\<close>)
  ultimately show ?case using Went_left.prems(2) by (simp add: right_at_def)
next
  case (Went_right l x c up)
  have "good_tree calc own val' l = good_tree calc own val l" by (rule good_tree_cong) (use Went_right.prems in simp)
  moreover have "child_val val' (root_of l) = child_val val (root_of l)" "val' x = val x"
    using Went_right.prems root_of_member [of l] by (auto simp: child_val_def)
  moreover have "good_path calc own val' up x = good_path calc own val up x"
    by (rule Went_right.IH) (use Went_right.prems in \<open>auto simp: child_val_def\<close>)
  ultimately show ?case using Went_right.prems(2) by (simp add: right_at_def)
qed simp

lemma good_above_cong:
  "(\<And>x. x \<in> set (before P) \<union> set (behind P) \<Longrightarrow> val' x = val x) \<Longrightarrow>
   good_above calc own val' P \<longleftrightarrow> good_above calc own val P"
proof (cases P)
  case (Went_left x c r up)
  assume a: "\<And>x. x \<in> set (before P) \<union> set (behind P) \<Longrightarrow> val' x = val x"
  have "good_tree calc own val' r = good_tree calc own val r" by (rule good_tree_cong) (use a Went_left in simp)
  moreover have "good_path calc own val' up x = good_path calc own val up x"
    by (rule good_path_cong) (use a Went_left in \<open>auto simp: child_val_def\<close>)
  ultimately show ?thesis using Went_left by simp
next
  case (Went_right l x c up)
  assume a: "\<And>x. x \<in> set (before P) \<union> set (behind P) \<Longrightarrow> val' x = val x"
  have "good_tree calc own val' l = good_tree calc own val l" by (rule good_tree_cong) (use a Went_right in simp)
  moreover have "good_path calc own val' up x = good_path calc own val up x"
    by (rule good_path_cong) (use a Went_right in \<open>auto simp: child_val_def\<close>)
  ultimately show ?thesis using Went_right by simp
qed simp

lemma good_tree_upd [simp]: "x \<notin> set (addrs t) \<Longrightarrow> good_tree calc own (val(x := v)) t = good_tree calc own val t"
  by (rule good_tree_cong) auto

lemma good_above_upd [simp]:
  "x \<notin> set (before P) \<Longrightarrow> x \<notin> set (behind P) \<Longrightarrow> good_above calc own (val(x := v)) P = good_above calc own val P"
  by (rule good_above_cong) auto

lemma spine_nodes: "set (spine P) \<subseteq> set (before P) \<union> set (behind P)"
  by (induction P) auto

lemma good_paint [simp]: "good_tree calc own val (paint c t) \<longleftrightarrow> good_tree calc own val t"
  by (cases t) simp_all

definition upto_data :: "'d rb_mem \<Rightarrow> 'd \<Rightarrow> 'd rb_mem" where
  "upto_data s d = s\<lparr>rb_data := d\<rparr>"

lemma upto_data_fields [simp]:
  "rb_root (upto_data s d) = rb_root s" "rb_leftmost (upto_data s d) = rb_leftmost s"
  "rb_nodes (upto_data s d) = rb_nodes s" "rb_data (upto_data s d) = d"
  by (simp_all add: upto_data_def)

locale augmentation =
  fixes cb :: "'d rb_augment_callbacks"
    and has :: "'d \<Rightarrow> u64 \<Rightarrow> bool"
    and own :: "'d \<Rightarrow> u64 \<Rightarrow> 'o"
    and val :: "'d \<Rightarrow> u64 \<Rightarrow> 'v"
    and calc :: "'o \<Rightarrow> 'v option \<Rightarrow> 'v option \<Rightarrow> 'v"
  assumes copy_law: "has (rb_data s) a \<Longrightarrow> has (rb_data s) b \<Longrightarrow>
      \<exists>d. copy cb a b s = Inr (upto_data s d) \<and> has d = has (rb_data s) \<and> own d = own (rb_data s) \<and>
          val d = (val (rb_data s))(b := val (rb_data s) a)"
    and propagate_law: "path_at (rb_nodes s) u P p \<Longrightarrow> aligned u \<Longrightarrow> u \<notin> set (spine P) \<Longrightarrow>
      distinct (before P @ behind P) \<Longrightarrow> p \<notin> set (before P @ behind P) \<Longrightarrow>
      (\<forall>x\<in>set (before P) \<union> set (behind P). has (rb_data s) x) \<Longrightarrow> (p \<noteq> 0 \<longrightarrow> has (rb_data s) p) \<Longrightarrow>
      good_above calc (own (rb_data s)) (val (rb_data s)) P \<Longrightarrow>
      \<exists>d. propagate cb (above u P) u s = ok (upto_data s d) \<and> has d = has (rb_data s) \<and> own d = own (rb_data s) \<and>
          good_path calc (own d) (val d) P p \<and> (\<forall>x. x \<notin> set (spine P) \<longrightarrow> val d x = val (rb_data s) x)"

subsection \<open>Taking a node with at most one child out\<close>

lemma above_notin:
  "distinct (before P @ xs @ behind P) \<Longrightarrow> path_at m 0 P p \<Longrightarrow> 0 \<notin> set xs \<Longrightarrow> above 0 P \<notin> set xs"
  using above_cases [of P 0] by auto

lemma change_child_link:
  assumes "path_at (rb_nodes s) 0 P old" "old \<noteq> 0" "old \<notin> set (before P @ behind P)"
  shows "rb_change_child old new (above 0 P) s = write_link (link_of P) new s"
  using assms root_of_member by (cases P) (auto simp: rb_change_child_def rb_get_Some)

lemma repaint:
  assumes "rb_at m q t" "t \<noteq> Tip" "distinct (addrs t)" "m (root_of t) = Some n"
  shows "rb_at (m(root_of t \<mapsto> n\<lparr>parent_color := pack par c\<rparr>)) par (paint c t)"
  using assms by (cases t) (auto simp: cell_def)

lemma rb_at_nonzero: "rb_at m par t \<Longrightarrow> 0 \<notin> set (addrs t)"
  using rb_at_members by blast

lemma no_left_tree:
  assumes "rb_tree s (plug P (Nd Tip x c r))"
  obtains n s' where "rb_nodes s x = Some n" "rb_left n = 0"
    "erase_no_left x n s = Inr (if c \<and> r = Tip then above 0 P else 0, above 0 P, s')"
    "rb_tree s' (plug P (paint c r))" "same_rest s s'"
proof -
  let ?n = "cell (above 0 P) c (root_of r) 0"
  from assms have p: "path_at (rb_nodes s) 0 P x" "rb_root s = topmost x P" "distinct (before P @ x # addrs r @ behind P)"
    and x: "x \<noteq> 0" "rb_nodes s x = Some ?n" "rb_at (rb_nodes s) x r"
    by (auto simp: rb_tree_def rb_at_plug)
  have al: "aligned (above 0 P)" using p(1) by (rule aligned_above) simp
  obtain s1 where w: "write_link (link_of P) (root_of r) s = Inr s1" "path_at (rb_nodes s1) 0 P (root_of r)"
      "rb_root s1 = topmost (root_of r) P" "same_rest s s1" "\<forall>y. y \<noteq> 0 \<longrightarrow> above 0 P \<noteq> y \<longrightarrow> rb_nodes s1 y = rb_nodes s y"
    by (rule write_link_of [of s P x "root_of r"]) (use p in auto)
  have ch: "rb_change_child x (root_of r) (above 0 P) s = Inr s1"
    using change_child_link [of s P x] p x w(1) by simp
  have "above 0 P \<notin> set (addrs r)"
    by (rule above_notin [of P _ "rb_nodes s" x]) (use p rb_at_nonzero [OF x(3)] in auto)
  then have r1: "rb_at (rb_nodes s1) x r"
    using x(3) w(5) rb_at_nonzero [OF x(3)] by (subst rb_at_cong [of _ _ "rb_nodes s"]) (metis, assumption)
  show thesis
  proof (cases "r = Tip")
    case True
    have "erase_no_left x ?n s = Inr (if c \<and> r = Tip then above 0 P else 0, above 0 P, s1)"
      using ch al True by (simp add: erase_no_left_def Let_def)
    moreover have "rb_tree s1 (plug P (paint c r))" using w p(3) True by (auto simp: rb_tree_def rb_at_plug)
    ultimately show thesis using that x(2) w(4) by simp
  next
    case False
    then have r0: "root_of r \<noteq> 0" "root_of r \<in> set (addrs r)" using rb_at_root_zero [OF r1] root_of_member [of r] by auto
    then obtain m where m: "rb_nodes s1 (root_of r) = Some m" using rb_at_members [OF r1] by blast
    let ?s = "s1\<lparr>rb_nodes := (rb_nodes s1)(root_of r \<mapsto> m\<lparr>parent_color := pack (above 0 P) c\<rparr>)\<rparr>"
    have "erase_no_left x ?n s = Inr (0, above 0 P, ?s)"
      using ch al r0 m by (simp add: erase_no_left_def Let_def rb_put_Some)
    moreover have "rb_at (rb_nodes ?s) (above 0 P) (paint c r)"
      using repaint [OF r1 False _ m] p(3) by simp
    moreover have "root_of r \<notin> set (before P) \<and> root_of r \<notin> set (behind P)" using r0 p(3) by auto
    then have "path_at (rb_nodes ?s) 0 P (root_of r)" using w(2) by simp
    ultimately show thesis using that x(2) w(3,4) p(3) False by (simp add: rb_tree_def rb_at_plug same_rest_def)
  qed
qed

lemma no_right_tree:
  assumes "rb_tree s (plug P (Nd l x c Tip))" "l \<noteq> Tip"
  obtains n s' where "rb_nodes s x = Some n" "rb_left n \<noteq> 0" "rb_right n = 0"
    "erase_no_right x n s = Inr (0, above 0 P, s')" "rb_tree s' (plug P (paint c l))" "same_rest s s'"
proof -
  let ?n = "cell (above 0 P) c 0 (root_of l)"
  from assms have p: "path_at (rb_nodes s) 0 P x" "rb_root s = topmost x P" "distinct (before P @ addrs l @ x # behind P)"
    and x: "x \<noteq> 0" "rb_nodes s x = Some ?n" "rb_at (rb_nodes s) x l"
    by (auto simp: rb_tree_def rb_at_plug)
  have al: "aligned (above 0 P)" using p(1) by (rule aligned_above) simp
  have l0: "root_of l \<noteq> 0" "root_of l \<in> set (addrs l)" using rb_at_root_zero [OF x(3)] root_of_member [of l] assms(2) by auto
  then obtain m where m: "rb_nodes s (root_of l) = Some m" using rb_at_members [OF x(3)] by blast
  let ?s = "s\<lparr>rb_nodes := (rb_nodes s)(root_of l \<mapsto> m\<lparr>parent_color := pack (above 0 P) c\<rparr>)\<rparr>"
  have l1: "rb_at (rb_nodes ?s) (above 0 P) (paint c l)" using repaint [OF x(3) assms(2) _ m] p(3) by simp
  have "root_of l \<notin> set (before P) \<and> root_of l \<notin> set (behind P)" using l0 p(3) by auto
  then have p1: "path_at (rb_nodes ?s) 0 P x" using p by simp
  obtain s1 where w: "write_link (link_of P) (root_of l) ?s = Inr s1" "path_at (rb_nodes s1) 0 P (root_of l)"
      "rb_root s1 = topmost (root_of l) P" "same_rest ?s s1" "\<forall>y. y \<noteq> 0 \<longrightarrow> above 0 P \<noteq> y \<longrightarrow> rb_nodes s1 y = rb_nodes ?s y"
    by (rule write_link_of [of ?s P x "root_of l"]) (use p p1 in auto)
  have "rb_change_child x (root_of l) (above 0 P) ?s = Inr s1"
    using change_child_link [of ?s P x] p p1 x w(1) by simp
  then have "erase_no_right x ?n s = Inr (0, above 0 P, s1)"
    using al m by (simp add: erase_no_right_def Let_def rb_put_Some)
  moreover have "above 0 P \<notin> set (addrs l)"
    by (rule above_notin [of P _ "rb_nodes s" x]) (use p rb_at_nonzero [OF x(3)] in auto)
  then have "rb_at (rb_nodes s1) (above 0 P) (paint c l)"
    using l1 w(5) rb_at_nonzero [OF l1] by (subst rb_at_cong [of _ _ "rb_nodes ?s"]) (metis addrs_paint(1), assumption)
  ultimately show thesis using that x(2) l0 w p(3) by (simp add: rb_tree_def rb_at_plug same_rest_def)
qed

subsection \<open>Taking the successor out\<close>

lemma successor_walk_leftmost:
  assumes "rb_at (rb_nodes s) z t" "t \<noteq> Tip"
  shows "\<exists>Q y c r. t = plug Q (Nd Tip y c r) \<and> before Q = [] \<and> successor_walk s z (root_of t) = ok (above z Q, y)"
  using assms
proof (induction t arbitrary: z)
  case (Nd l x c r)
  show ?case
  proof (cases "l = Tip")
    case True
    with Nd.prems show ?thesis
      by (intro exI [of _ Top] exI [of _ x] exI [of _ c] exI [of _ r]) (simp add: successor_walk.simps rb_get_Some)
  next
    case False
    from Nd.prems have l: "rb_at (rb_nodes s) x l" "root_of l \<noteq> 0" using False rb_at_root_zero by auto
    obtain Q y c' r' where Q: "l = plug Q (Nd Tip y c' r')" "before Q = []" "successor_walk s x (root_of l) = ok (above x Q, y)"
      using Nd.IH(1) [OF l(1) False] by blast
    have "successor_walk s z x = successor_walk s x (root_of l)"
      using Nd.prems(1) l(2) by (subst successor_walk.simps) (simp add: rb_get_Some)
    with Q show ?thesis
      by (intro exI [of _ "path_append Q (Went_left x c r Top)"] exI [of _ y] exI [of _ c'] exI [of _ r']) simp
  qed
qed simp

text \<open>The memory after the stores that detach the successor \<open>y\<close>.\<close>

lemma detach_successor:
  assumes r: "rb_at (rb_nodes s) x (Nd (plug Q (Nd Tip y c r)) ch cc rr)"
    and d: "distinct (addrs (Nd (plug Q (Nd Tip y c r)) ch cc rr))" and Q: "before Q = []" and x: "aligned x"
  obtains pn s' where "rb_get y s = Inr (cell (above ch Q) c (root_of r) 0)" "rb_nodes s (above ch Q) = Some pn"
    "fbind (rb_put (above ch Q) (rb_left_update (\<lambda>_. root_of r)) s) (\<lambda>s.
     fbind (rb_put y (rb_right_update (\<lambda>_. ch)) s) (rb_set_parent ch y)) = Inr s'"
    "path_at (rb_nodes s') y (path_append Q (Went_left ch cc rr Top)) (root_of r)" "rb_at (rb_nodes s') y r"
    "rb_nodes s' y = Some (cell (above ch Q) c ch 0)" "rb_root s' = rb_root s" "same_rest s s'"
    "\<forall>z. z \<noteq> y \<longrightarrow> z \<noteq> ch \<longrightarrow> z \<notin> set (behind Q) \<longrightarrow> rb_nodes s' z = rb_nodes s z"
proof -
  have sp: "path_at (rb_nodes s) ch Q y" "rb_at (rb_nodes s) y r" "rb_nodes s y = Some (cell (above ch Q) c (root_of r) 0)"
      "rb_nodes s ch = Some (cell x cc (root_of rr) (topmost y Q))" "rb_at (rb_nodes s) ch rr" "ch \<noteq> 0" "aligned ch"
    using r by (auto simp: rb_at_plug)
  have yc: "y \<noteq> ch" "y \<notin> set (behind Q)" "y \<notin> set (addrs rr)" "y \<notin> set (addrs r)" "ch \<notin> set (behind Q)"
      "ch \<notin> set (addrs r)" "ch \<notin> set (addrs rr)" using d Q by auto
  have col: "rb_color_pc (pack x cc) + y = pack y cc" by (subst unpack(4) [OF x]) (simp add: pack_def)
  show thesis
  proof (cases Q)
    case Top
    then show thesis
      using that sp yc col by (simp add: rb_put_Some rb_get_Some rb_set_parent_def same_rest_def cell_def)
  next
    case (Went_left q cq rq up)
    have "q \<notin> set (addrs r)" "q \<notin> set (addrs rr)" "q \<notin> set (addrs rq)" "q \<notin> set (behind up)" "q \<noteq> y" "q \<noteq> ch"
      using d Q Went_left by auto
    then show thesis
      using that sp yc col Q Went_left by (simp add: rb_put_Some rb_get_Some rb_set_parent_def same_rest_def cell_def path_at_append)
  next
    case Went_right
    with Q show thesis by simp
  qed
qed

subsection \<open>Putting it in the place of the node\<close>

definition rebalance_at :: "path \<Rightarrow> bool \<Rightarrow> rbt \<Rightarrow> u64 \<Rightarrow> u64" where
  "rebalance_at Q c r y = (if c \<and> r = Tip then above y Q else 0)"

lemma set_parent_at:
  assumes "rb_at (rb_nodes s) q t" "t \<noteq> Tip" "distinct (addrs t)" "aligned q"
  obtains n s' where "rb_nodes s (root_of t) = Some n" "rb_set_parent (root_of t) p s = Inr s'" "rb_at (rb_nodes s') p t"
    "s' = s\<lparr>rb_nodes := (rb_nodes s)(root_of t \<mapsto> n\<lparr>parent_color := rb_color_pc (parent_color n) + p\<rparr>)\<rparr>"
proof -
  obtain l y c r where t: "t = Nd l y c r" using assms(2) by (cases t) auto
  have col: "rb_color_pc (pack q c) + p = pack p c" by (subst unpack(4) [OF assms(4)]) (simp add: pack_def)
  show thesis
    by (rule that [OF _ _ _ refl, of "cell q c (root_of r) (root_of l)"])
      (use assms t col in \<open>auto simp: rb_set_parent_def rb_put_Some\<close>)
qed

lemma put_successor_tree:
  assumes P: "path_at (rb_nodes s) 0 P x" "rb_root s = topmost x P"
    and x: "x \<noteq> 0" "aligned x" "rb_nodes s x = Some (cell (above 0 P) c rx (root_of l))"
    and l: "rb_at (rb_nodes s) x l" "l \<noteq> Tip"
    and Q: "path_at (rb_nodes s) y Q (root_of r)" "rb_at (rb_nodes s) y r" "before Q = []"
    and y: "y \<noteq> 0" "aligned y" "rb_nodes s y = Some (cell pp cy (topmost (root_of r) Q) 0)" "aligned pp"
    and d: "distinct (before P @ addrs l @ x # y # addrs r @ behind Q @ behind P)"
  obtains s' where "put_successor x (y, above y Q, root_of r, s) = Inr (rebalance_at Q cy r y, y, s')"
    "rb_tree s' (plug P (Nd l y c (plug Q (paint True r))))" "same_rest s s'"
proof -
  let ?lx = "root_of l" and ?q = "above y Q" and ?par = "above 0 P"
  have alpar: "aligned ?par" using P(1) by (rule aligned_above) simp
  have lx: "?lx \<noteq> 0" "?lx \<in> set (addrs l)" using rb_at_root_zero [OF l(1)] root_of_member [of l] l(2) by auto
  let ?s1 = "s\<lparr>rb_nodes := (rb_nodes s)(y \<mapsto> cell pp cy (topmost (root_of r) Q) ?lx)\<rparr>"
  have l1: "rb_at (rb_nodes ?s1) x l" using l(1) d by simp
  obtain n s2 where s2: "rb_set_parent ?lx y ?s1 = Inr s2" "rb_at (rb_nodes s2) y l"
      "s2 = ?s1\<lparr>rb_nodes := (rb_nodes ?s1)(?lx \<mapsto> n\<lparr>parent_color := rb_color_pc (parent_color n) + y\<rparr>)\<rparr>"
    by (rule set_parent_at [OF l1 l(2) _ x(2), of y]) (use d in simp)
  have lxd: "?lx \<noteq> y" "?lx \<noteq> x" "?lx \<notin> set (before P)" "?lx \<notin> set (behind P)" "?lx \<notin> set (addrs r)" "?lx \<notin> set (behind Q)"
    using lx d by auto
  have m2: "path_at (rb_nodes s2) 0 P x" "rb_root s2 = topmost x P" "path_at (rb_nodes s2) y Q (root_of r)" "rb_at (rb_nodes s2) y r"
      "rb_nodes s2 y = Some (cell pp cy (topmost (root_of r) Q) ?lx)" "rb_nodes s2 x = rb_nodes s x" "same_rest s s2"
    using P Q x d lxd by (simp_all add: s2(3) same_rest_def)
  obtain s3 where w: "write_link (link_of P) y s2 = Inr s3" "path_at (rb_nodes s3) 0 P y" "rb_root s3 = topmost y P"
      "same_rest s2 s3" "\<forall>z. z \<noteq> 0 \<longrightarrow> ?par \<noteq> z \<longrightarrow> rb_nodes s3 z = rb_nodes s2 z"
    by (rule write_link_of [of s2 P x y]) (use m2 d in auto)
  have ch: "rb_change_child x y ?par s2 = Inr s3"
    using change_child_link [of s2 P x] m2 x w(1) d by simp
  have nz: "0 \<notin> set (addrs l)" "0 \<notin> set (addrs r)" "0 \<notin> set (behind Q)"
    using rb_at_nonzero [OF l(1)] rb_at_nonzero [OF Q(2)] path_at_members [OF Q(1), of 0] by auto
  have off: "?par \<notin> set (addrs l)" "?par \<notin> set (addrs r)" "?par \<notin> set (behind Q)" "?par \<noteq> y"
    using above_cases [of P 0] nz y(1) d by (cases P; auto)+
  have m3: "rb_at (rb_nodes s3) y l" "rb_at (rb_nodes s3) y r" "path_at (rb_nodes s3) y Q (root_of r)"
      "rb_nodes s3 y = Some (cell pp cy (topmost (root_of r) Q) ?lx)"
  proof -
    have same: "z \<in> set (addrs l) \<union> set (addrs r) \<union> set (behind Q) \<union> {y} \<Longrightarrow> rb_nodes s3 z = rb_nodes s2 z" for z
    proof -
      assume "z \<in> set (addrs l) \<union> set (addrs r) \<union> set (behind Q) \<union> {y}"
      then have "z \<noteq> 0" "?par \<noteq> z" using nz off y(1) by auto
      with w(5) show ?thesis by blast
    qed
    show "rb_at (rb_nodes s3) y l" using s2(2) same by (subst rb_at_cong [of _ _ "rb_nodes s2"]) auto
    show "rb_at (rb_nodes s3) y r" using m2(4) same by (subst rb_at_cong [of _ _ "rb_nodes s2"]) auto
    show "path_at (rb_nodes s3) y Q (root_of r)"
      using m2(3) same Q(3) by (subst path_at_cong [of _ _ "rb_nodes s2"]) auto
    show "rb_nodes s3 y = Some (cell pp cy (topmost (root_of r) Q) ?lx)" using m2(5) same by simp
  qed
  text \<open>The child of the successor is painted, or its colour decides.\<close>
  obtain s4 where s4: "(if root_of r \<noteq> 0
        then fbind (rb_set_parent_color (root_of r) ?q RB_BLACK s3) (\<lambda>s. Inr (0, s))
        else fbind (rb_is_black y s3) (\<lambda>black. Inr (if black then ?q else 0, s3))) = Inr (rebalance_at Q cy r y, s4)"
      "rb_at (rb_nodes s4) ?q (paint True r)" "rb_root s4 = rb_root s3" "same_rest s3 s4"
      "\<forall>z. z \<notin> set (addrs r) \<longrightarrow> rb_nodes s4 z = rb_nodes s3 z"
  proof (cases "r = Tip")
    case True
    then show thesis
      using that [of s3] m3(4) y(4) by (simp add: rb_is_black_def rb_get_Some rebalance_at_def same_rest_def)
  next
    case False
    then have r0: "root_of r \<noteq> 0" "root_of r \<in> set (addrs r)" using rb_at_root_zero [OF m3(2)] root_of_member [of r] by auto
    then obtain m where m: "rb_nodes s3 (root_of r) = Some m" using rb_at_members [OF m3(2)] by blast
    let ?s4 = "s3\<lparr>rb_nodes := (rb_nodes s3)(root_of r \<mapsto> m\<lparr>parent_color := pack ?q True\<rparr>)\<rparr>"
    have "rb_at (rb_nodes ?s4) ?q (paint True r)" using repaint [where c = True and par = "?q", OF m3(2) False _ m] d by simp
    moreover have "rb_set_parent_color (root_of r) ?q RB_BLACK s3 = Inr ?s4"
      using m by (simp add: rb_set_parent_color_def rb_put_Some pack_def RB_BLACK_def)
    ultimately show thesis using that [of ?s4] r0 False by (simp add: rebalance_at_def same_rest_def)
  qed
  let ?s5 = "s4\<lparr>rb_nodes := (rb_nodes s4)(y \<mapsto> cell ?par c (topmost (root_of r) Q) ?lx)\<rparr>"
  have yd: "y \<notin> set (addrs r)" "y \<notin> set (behind Q)" "y \<notin> set (before P)" "y \<notin> set (behind P)" "y \<notin> set (addrs l)"
    using d by auto
  have m4: "rb_nodes s4 y = Some (cell pp cy (topmost (root_of r) Q) ?lx)" using m3(4) s4(5) yd by simp
  have "rb_at (rb_nodes s4) y l" using m3(1) s4(5) d by (subst rb_at_cong [of _ _ "rb_nodes s3"]) auto
  moreover have "path_at (rb_nodes s4) y Q (root_of r)"
    using m3(3) s4(5) d by (subst path_at_cong [of _ _ "rb_nodes s3"]) (auto simp: Q(3))
  moreover have "path_at (rb_nodes s4) 0 P y"
    using w(2) s4(5) d by (subst path_at_cong [of _ _ "rb_nodes s3"]) auto
  ultimately have "rb_tree ?s5 (plug P (Nd l y c (plug Q (paint True r))))"
    using s4(2,3) w(3) yd y d Q(3) by (simp add: rb_tree_def rb_at_plug)
  moreover have "put_successor x (y, ?q, root_of r, s) = Inr (rebalance_at Q cy r y, y, ?s5)"
  proof -
    have x2: "rb_nodes s2 x = Some (cell ?par c rx ?lx)" using m2(6) x(3) by simp
    have "rb_put y (rb_left_update (\<lambda>_. ?lx)) s = Inr ?s1" using y(3) by (simp add: rb_put_Some)
    then show ?thesis
      unfolding put_successor_def prod.case
      using x(3) x2 s2(1) ch s4(1) m4 alpar by (simp add: rb_get_Some rb_put_Some)
  qed
  moreover have "same_rest s ?s5" using m2(7) w(4) s4(4) by (simp add: same_rest_def)
  ultimately show thesis using that by blast
qed

subsection \<open>Balance after removal\<close>

lemma plug_height: "black_height t' = black_height t \<Longrightarrow> black_height (plug P t') = black_height (plug P t)"
  by (induction P arbitrary: t t') simp_all

lemma height_zero: "black_height t = 0 \<Longrightarrow> black_root t \<Longrightarrow> t = Tip"
  by (cases t) auto

lemma balanced_inside: "balanced (plug P t) \<Longrightarrow> even_heights t \<and> no_red_red t"
  by (auto simp: balanced_def dest: even_inside no_red_red_inside)

text \<open>A tree of black height 0 below nothing else is a red leaf.\<close>

lemma only_child:
  assumes "even_heights t" "no_red_red t" "black_height t = 0" "t \<noteq> Tip"
  obtains y where "t = leaf y"
proof -
  from assms obtain l y r where t: "t = Nd l y False r" by (cases t) auto
  with assms have "l = Tip" "r = Tip" by (auto intro: height_zero)
  with t show thesis using that by simp
qed

text \<open>
  The place below \<open>p\<close> lacks one black node: with a black leaf there the tree would be
  a red-black tree.
\<close>

definition short_below :: "rbt \<Rightarrow> u64 \<Rightarrow> bool" where
  "short_below t p \<longleftrightarrow> (\<exists>R. t = plug R Tip \<and> above 0 R = p \<and> (\<forall>z. balanced (plug R (Nd Tip z True Tip))))"

definition balance_after :: "rbt \<Rightarrow> u64 \<Rightarrow> bool" where
  "balance_after t p \<longleftrightarrow> (if p = 0 then balanced t else short_below t p)"

lemma no_left_balance:
  assumes "balanced (plug P (Nd Tip x c r))" "path_at m 0 P q"
  shows "balance_after (plug P (paint c r)) (if c \<and> r = Tip then above 0 P else 0)"
proof (cases "r = Tip")
  case False
  have "even_heights r" "no_red_red r" "black_height r = 0" "c \<or> black_root r"
    using balanced_inside [OF assms(1)] by auto
  moreover from this(1-3) obtain y where "r = leaf y" using only_child False by blast
  ultimately show ?thesis
    using assms(1) by (auto simp: balance_after_def elim!: plug_balanced)
next
  case True
  show ?thesis
  proof (cases "c \<and> above 0 P \<noteq> 0")
    case True
    have "balanced (plug P (Nd Tip z True Tip))" for z
      by (rule plug_balanced [OF assms(1)]) (use True \<open>r = Tip\<close> in simp_all)
    with True \<open>r = Tip\<close> show ?thesis by (auto simp: balance_after_def short_below_def)
  next
    case False
    with \<open>r = Tip\<close> above_zero [OF assms(2)] have "c \<Longrightarrow> P = Top" by simp
    moreover have "\<not> c \<Longrightarrow> balanced (plug P Tip)"
      by (rule plug_balanced [OF assms(1)]) (use \<open>r = Tip\<close> in simp_all)
    ultimately show ?thesis using \<open>r = Tip\<close> by (cases c) (auto simp: balance_after_def balanced_def)
  qed
qed

lemma no_right_balance:
  assumes "balanced (plug P (Nd l x c Tip))" "l \<noteq> Tip"
  shows "balanced (plug P (paint c l))"
proof -
  have "even_heights l" "no_red_red l" "black_height l = 0" "c \<or> black_root l"
    using balanced_inside [OF assms(1)] by auto
  moreover from this(1-3) obtain y where "l = leaf y" using only_child assms(2) by blast
  ultimately show ?thesis using assms(1) by (auto elim!: plug_balanced)
qed

lemma rename_balanced: "balanced (plug P (Nd l x c r)) \<Longrightarrow> balanced (plug P (Nd l y c r))"
  by (frule balanced_inside, erule plug_balanced) simp_all

lemma successor_balance:
  assumes "balanced (plug P (Nd l x c (plug Q (Nd Tip y cy r))))" "path_at m 0 P q" "y \<noteq> 0" "path_at m y Q q'"
  shows "balance_after (plug P (Nd l y c (plug Q (paint True r)))) (rebalance_at Q cy r y)"
proof -
  let ?R = "path_append Q (Went_right l y c P)"
  have "balanced (plug P (Nd l y c (plug Q (Nd Tip y cy r))))" using assms(1) by (rule rename_balanced)
  then have R: "balanced (plug ?R (Nd Tip y cy r))" by simp
  have in_r: "even_heights r" "no_red_red r" "black_height r = 0" "cy \<or> black_root r"
    using balanced_inside [OF R] by auto
  have "above y Q \<noteq> 0" using assms(3,4) by (cases Q) auto
  show ?thesis
  proof (cases "r = Tip")
    case False
    then obtain z where "r = leaf z" using only_child in_r by blast
    moreover from this in_r have cy by simp
    ultimately have "balanced (plug ?R (paint True r))" by (intro plug_balanced [OF R]) auto
    with False show ?thesis by (simp add: balance_after_def rebalance_at_def)
  next
    case True
    have "balanced (plug ?R Tip)" if "\<not> cy" by (rule plug_balanced [OF R]) (use that True in simp_all)
    moreover have "balanced (plug ?R (Nd Tip z True Tip))" if cy for z
      by (rule plug_balanced [OF R]) (use that True in simp_all)
    moreover have "above 0 ?R = above y Q" by simp
    ultimately show ?thesis using True \<open>above y Q \<noteq> 0\<close>
      unfolding balance_after_def rebalance_at_def short_below_def by (auto intro!: exI [of _ ?R])
  qed
qed

subsection \<open>Removal\<close>

definition all_has :: "('d \<Rightarrow> u64 \<Rightarrow> bool) \<Rightarrow> 'd \<Rightarrow> rbt \<Rightarrow> bool" where
  "all_has has d t \<longleftrightarrow> (\<forall>x\<in>set (addrs t). has d x)"

context augmentation
begin

abbreviation good :: "'d \<Rightarrow> rbt \<Rightarrow> bool" where
  "good d \<equiv> good_tree calc (own d) (val d)"

text \<open>What the successor leaves behind: its subtree's hole and the values around it.\<close>

lemma take_successor_tree:
  assumes t: "rb_at (rb_nodes s) x r" "distinct (addrs r)" "r \<noteq> Tip"
    and x: "x \<noteq> 0" "aligned x" "x \<notin> set (addrs r)" "has (rb_data s) x"
    and h: "all_has has (rb_data s) r" and g: "good (rb_data s) r"
  obtains Q y cy r2 pp s' where "r = plug Q (Nd Tip y cy r2)" "before Q = []"
    "take_successor cb x (root_of r) s = ok (y, above y Q, root_of r2, s')"
    "path_at (rb_nodes s') y Q (root_of r2)" "rb_at (rb_nodes s') y r2"
    "rb_nodes s' y = Some (cell pp cy (topmost (root_of r2) Q) 0)" "aligned pp"
    "\<forall>z. z \<notin> set (addrs r) \<longrightarrow> rb_nodes s' z = rb_nodes s z"
    "rb_root s' = rb_root s" "rb_leftmost s' = rb_leftmost s"
    "has (rb_data s') = has (rb_data s)" "own (rb_data s') = own (rb_data s)"
    "val (rb_data s') y = val (rb_data s) x" "\<forall>z. z \<notin> set (addrs r) \<longrightarrow> val (rb_data s') z = val (rb_data s) z"
    "good_path calc (own (rb_data s')) (val (rb_data s')) Q (root_of r2)" "good (rb_data s') r2"
proof -
  obtain lr ch cc rr where r: "r = Nd lr ch cc rr" using t(3) by (cases r) auto
  have c: "ch \<noteq> 0" "aligned ch" "rb_nodes s ch = Some (cell x cc (root_of rr) (root_of lr))"
      "rb_at (rb_nodes s) ch lr" "rb_at (rb_nodes s) ch rr" using t(1) r by auto
  show thesis
  proof (cases "lr = Tip")
    case True
    obtain d where d: "copy cb x ch s = Inr (upto_data s d)" "has d = has (rb_data s)" "own d = own (rb_data s)"
        "val d = (val (rb_data s))(ch := val (rb_data s) x)"
      using copy_law [of s x ch] x(4) h r by (auto simp: all_has_def)
    have "good d rr" using g t(2) r d(3,4) by simp
    then show thesis
      by (intro that [of Top ch cc rr "upto_data s d" x])
        (use r True c d x t(2) in \<open>simp_all add: take_successor_def rb_get_Some\<close>)
  next
    case False
    obtain Q y cy r2 where Q: "lr = plug Q (Nd Tip y cy r2)" "before Q = []"
        "successor_walk s ch (root_of lr) = ok (above ch Q, y)"
      using successor_walk_leftmost [OF c(4) False] by blast
    define R where "R = path_append Q (Went_left ch cc rr Top)"
    have rR: "r = plug R (Nd Tip y cy r2)" "before R = []" "above y R = above ch Q" "topmost p R = ch" for p
      using r Q(1,2) by (simp_all add: R_def)
    obtain pn s1 where s1: "rb_get y s = Inr (cell (above ch Q) cy (root_of r2) 0)"
        "rb_nodes s (above ch Q) = Some pn"
        "fbind (rb_put (above ch Q) (rb_left_update (\<lambda>_. root_of r2)) s) (\<lambda>s.
         fbind (rb_put y (rb_right_update (\<lambda>_. ch)) s) (rb_set_parent ch y)) = Inr s1"
        "path_at (rb_nodes s1) y R (root_of r2)" "rb_at (rb_nodes s1) y r2"
        "rb_nodes s1 y = Some (cell (above ch Q) cy ch 0)" "rb_root s1 = rb_root s" "same_rest s s1"
        "\<forall>z. z \<noteq> y \<longrightarrow> z \<noteq> ch \<longrightarrow> z \<notin> set (behind Q) \<longrightarrow> rb_nodes s1 z = rb_nodes s z"
      using detach_successor [of s x Q y cy r2 ch cc rr] t(1,2) r Q(1,2) x(2) unfolding R_def by (metis (no_types, lifting))
    have inr: "y \<in> set (addrs r)" "set (behind R) \<subseteq> set (addrs r)" "set (addrs r2) \<subseteq> set (addrs r)" "ch \<in> set (addrs r)"
      "set (behind Q) \<subseteq> set (addrs r)"
      using rR(1) r Q(1) by (auto simp: R_def)
    have al: "aligned y" "y \<noteq> 0" using rb_at_members [OF t(1) inr(1)] by auto
    have dist: "distinct (before R @ behind R)" "y \<notin> set (behind R)" "y \<notin> set (addrs r2)" "set (addrs r2) \<inter> set (behind R) = {}"
      using t(2) rR(1,2) by simp_all
    have d1: "rb_data s1 = rb_data s" "rb_leftmost s1 = rb_leftmost s" using s1(8) by (simp_all add: same_rest_def)
    have hr: "z \<in> set (addrs r) \<Longrightarrow> has (rb_data s) z" for z using h by (simp add: all_has_def)
    obtain d where d: "copy cb x y s1 = Inr (upto_data s1 d)" "has d = has (rb_data s)" "own d = own (rb_data s)"
        "val d = (val (rb_data s))(y := val (rb_data s) x)"
      using copy_law [of s1 x y] x(4) hr [OF inr(1)] d1 by auto
    have gR: "good_path calc (own (rb_data s)) (val (rb_data s)) R y" "good (rb_data s) r2"
      using g by (simp_all add: rR(1) good_plug)
    have ga: "good_above calc (own d) (val d) R"
      using good_path_above [OF gR(1)] dist(2) rR(2) d(3,4) by simp
    have spR: "set (spine R) \<subseteq> set (behind R)" using spine_nodes [of R] rR(2) by simp
    have r2h: "root_of r2 \<noteq> 0 \<longrightarrow> has d (root_of r2)" "root_of r2 \<notin> set (before R @ behind R)"
    proof -
      show "root_of r2 \<noteq> 0 \<longrightarrow> has d (root_of r2)"
        using root_of_member [of r2] hr inr(3) d(2) by auto
      show "root_of r2 \<notin> set (before R @ behind R)"
        using root_of_member [of r2] dist(4) rR(2) path_at_members [OF s1(4), of 0] by auto
    qed
    have spn: "y \<notin> set (spine R)" "\<forall>z\<in>set (before R) \<union> set (behind R). has d z"
      using spR dist(2) rR(2) hr inr(2) d(2) by auto
    obtain d' where d': "propagate cb (above y R) y (upto_data s1 d) = ok (upto_data (upto_data s1 d) d')"
        "has d' = has d" "own d' = own d" "good_path calc (own d') (val d') R (root_of r2)"
        "\<forall>z. z \<notin> set (spine R) \<longrightarrow> val d' z = val d z"
      using propagate_law [of "upto_data s1 d" y R "root_of r2", unfolded upto_data_fields,
          OF s1(4) al(1) spn(1) dist(1) r2h(2) spn(2) r2h(1) ga] by blast
    have "good d r2" using gR(2) d(3,4) dist(3) by simp
    then have "good d' r2"
      using d'(5) spR dist(4) unfolding d'(3) by (subst good_tree_cong [of _ _ "val d"]) blast+
    moreover have "take_successor cb x (root_of r) s = ok (y, above y R, root_of r2, upto_data s1 d')"
    proof -
      obtain s0 s0' where st: "rb_put (above ch Q) (rb_left_update (\<lambda>_. root_of r2)) s = Inr s0"
          "rb_put y (rb_right_update (\<lambda>_. ch)) s0 = Inr s0'" "rb_set_parent ch y s0' = Inr s1"
        using s1(3) by (auto simp: fbind_Inr_iff)
      then show ?thesis
        using c False s1(1) Q(3) r d(1) d'(1) rR(3) rb_at_root_zero [OF c(4)]
        by (simp add: take_successor_def rb_get_Some upto_data_def)
    qed
    moreover have "\<forall>z. z \<notin> set (addrs r) \<longrightarrow> rb_nodes s1 z = rb_nodes s z" using s1(9) inr by auto
    moreover have "\<forall>z. z \<notin> set (addrs r) \<longrightarrow> val d' z = val (rb_data s) z"
    proof (intro allI impI)
      fix z assume z: "z \<notin> set (addrs r)"
      then have "z \<notin> set (spine R)" "z \<noteq> y" using spR inr(1,2) by blast+
      then show "val d' z = val (rb_data s) z" using d'(5) d(4) by simp
    qed
    moreover have "val d' y = val (rb_data s) x" using d'(5) d(4) spR dist(2) by auto
    moreover have "aligned (above ch Q)" by (rule aligned_above [of "rb_nodes s" _ Q y]) (use c Q(1) in \<open>simp_all add: rb_at_plug\<close>)
    ultimately show thesis
      by (intro that [of R y cy r2 "upto_data s1 d'" "above ch Q"]) (use rR s1(4-7) d1 d(2,3) d'(2-4) in simp_all)
  qed
qed

text \<open>The last \<open>propagate\<close>, from the lowest node of a path.\<close>

lemma last_propagate:
  assumes "rb_tree s (plug P t)" "all_has has (rb_data s) (plug P t)" "good (rb_data s) t"
    "good_above calc (own (rb_data s)) (val (rb_data s)) P"
  obtains d where "propagate cb (above 0 P) 0 s = ok (upto_data s d)" "own d = own (rb_data s)" "has d = has (rb_data s)"
    "good d (plug P t)"
proof -
  have p: "path_at (rb_nodes s) 0 P (root_of t)" "rb_at (rb_nodes s) (above 0 P) t" "distinct (before P @ behind P)"
    and disj: "set (addrs t) \<inter> (set (before P) \<union> set (behind P)) = {}"
    using assms(1) by (auto simp: rb_tree_def rb_at_plug)
  have h: "\<forall>x\<in>set (before P) \<union> set (behind P). has (rb_data s) x" "root_of t \<noteq> 0 \<longrightarrow> has (rb_data s) (root_of t)"
    using assms(2) root_of_member [of t] by (auto simp: all_has_def)
  have "0 \<notin> set (before P) \<union> set (behind P)" using path_at_members [OF p(1), of 0] by blast
  then have z: "0 \<notin> set (spine P)" "root_of t \<notin> set (before P @ behind P)"
    using spine_nodes [of P] root_of_member [of t] disj by auto
  obtain d where d: "propagate cb (above 0 P) 0 s = ok (upto_data s d)" "has d = has (rb_data s)" "own d = own (rb_data s)"
      "good_path calc (own d) (val d) P (root_of t)" "\<forall>x. x \<notin> set (spine P) \<longrightarrow> val d x = val (rb_data s) x"
    using propagate_law [OF p(1) aligned_0 z(1) p(3) z(2) h assms(4)] by blast
  have "good d t" unfolding d(3)
    using assms(3) d(5) spine_nodes [of P] disj by (subst good_tree_cong [of _ _ "val (rb_data s)"]) blast+
  with d that show thesis by (simp add: good_plug)
qed

lemma erase_tree:
  assumes t: "rb_tree s t" "x \<in> set (addrs t)" "all_has has (rb_data s) t" "good (rb_data s) t"
  obtains p s' t' where "erase_augmented cb x s = ok (p, s')" "rb_tree s' t'" "addrs t' = remove1 x (addrs t)"
    "own (rb_data s') = own (rb_data s)" "has (rb_data s') = has (rb_data s)" "good (rb_data s') t'"
    "rb_leftmost s' = rb_leftmost s" "balanced t \<longrightarrow> balance_after t' p"
proof -
  obtain P l c r where P: "t = plug P (Nd l x c r)" using t(2) by (rule place_of)
  have d: "distinct (before P @ addrs l @ x # addrs r @ behind P)" using t(1) P by (simp add: rb_tree_def)
  have rem: "remove1 x (addrs t) = before P @ addrs l @ addrs r @ behind P"
    using d by (simp add: P remove1_append)
  have pt: "path_at (rb_nodes s) 0 P x" "rb_root s = topmost x P" "x \<noteq> 0" "aligned x"
      "rb_nodes s x = Some (cell (above 0 P) c (root_of r) (root_of l))" "rb_at (rb_nodes s) x l" "rb_at (rb_nodes s) x r"
    using t(1) by (simp_all add: P rb_tree_def rb_at_plug)
  have gp: "good_path calc (own (rb_data s)) (val (rb_data s)) P x" "good (rb_data s) l" "good (rb_data s) r"
    using t(4) by (simp_all add: P good_plug)
  have ga: "good_above calc (own (rb_data s)) (val (rb_data s)) P" using gp(1) by (rule good_path_above)
  have has_x: "has (rb_data s) x" using t(2,3) by (simp add: all_has_def)
  consider "l = Tip" | "l \<noteq> Tip" "r = Tip" | "l \<noteq> Tip" "r \<noteq> Tip" by blast
  then show thesis
  proof cases
    case 1
    obtain n s1 where s1: "rb_nodes s x = Some n" "rb_left n = 0"
        "erase_no_left x n s = Inr (if c \<and> r = Tip then above 0 P else 0, above 0 P, s1)"
        "rb_tree s1 (plug P (paint c r))" "same_rest s s1"
      using no_left_tree [of s P x c r] t(1) P 1 by blast
    have data: "rb_data s1 = rb_data s" "rb_leftmost s1 = rb_leftmost s" using s1(5) by (simp_all add: same_rest_def)
    obtain d' where d': "propagate cb (above 0 P) 0 s1 = ok (upto_data s1 d')" "own d' = own (rb_data s)"
        "has d' = has (rb_data s)" "good d' (plug P (paint c r))"
      by (rule last_propagate [OF s1(4)]) (use t(3) P ga gp data in \<open>auto simp: all_has_def\<close>)
    have "erase_augmented cb x s = ok (if c \<and> r = Tip then above 0 P else 0, upto_data s1 d')"
      using s1(1-3) d'(1) by (simp add: erase_augmented_def rb_get_Some)
    moreover have "balanced t \<longrightarrow> balance_after (plug P (paint c r)) (if c \<and> r = Tip then above 0 P else 0)"
      using no_left_balance [of P x c r] pt(1) P 1 by blast
    ultimately show thesis
      by (intro that [of _ "upto_data s1 d'" "plug P (paint c r)"])
        (use s1(4) d' data rem 1 in \<open>simp_all add: rb_tree_def\<close>)
  next
    case 2
    obtain n s1 where s1: "rb_nodes s x = Some n" "rb_left n \<noteq> 0" "rb_right n = 0"
        "erase_no_right x n s = Inr (0, above 0 P, s1)" "rb_tree s1 (plug P (paint c l))" "same_rest s s1"
      using no_right_tree [of s P l x c] t(1) P 2 by blast
    have data: "rb_data s1 = rb_data s" "rb_leftmost s1 = rb_leftmost s" using s1(6) by (simp_all add: same_rest_def)
    obtain d' where d': "propagate cb (above 0 P) 0 s1 = ok (upto_data s1 d')" "own d' = own (rb_data s)"
        "has d' = has (rb_data s)" "good d' (plug P (paint c l))"
      by (rule last_propagate [OF s1(5)]) (use t(3) P ga gp data in \<open>auto simp: all_has_def\<close>)
    have "erase_augmented cb x s = ok (0, upto_data s1 d')"
      using s1(1-4) d'(1) by (simp add: erase_augmented_def rb_get_Some)
    moreover have "balanced t \<longrightarrow> balance_after (plug P (paint c l)) 0"
      using no_right_balance [of P l x c] P 2 by (simp add: balance_after_def)
    ultimately show thesis
      by (intro that [of _ "upto_data s1 d'" "plug P (paint c l)"])
        (use s1(5) d' data rem 2 in \<open>simp_all add: rb_tree_def\<close>)
  next
    case 3
    have hr: "all_has has (rb_data s) r" using t(3) P by (simp add: all_has_def)
    have dr: "distinct (addrs r)" "x \<notin> set (addrs r)" using d by auto
    obtain Q y cy r2 pp s1 where Q: "r = plug Q (Nd Tip y cy r2)" "before Q = []"
        and take: "take_successor cb x (root_of r) s = ok (y, above y Q, root_of r2, s1)"
        and m: "path_at (rb_nodes s1) y Q (root_of r2)" "rb_at (rb_nodes s1) y r2"
          "rb_nodes s1 y = Some (cell pp cy (topmost (root_of r2) Q) 0)" "aligned pp"
          "\<forall>z. z \<notin> set (addrs r) \<longrightarrow> rb_nodes s1 z = rb_nodes s z"
          "rb_root s1 = rb_root s" "rb_leftmost s1 = rb_leftmost s"
        and v: "has (rb_data s1) = has (rb_data s)" "own (rb_data s1) = own (rb_data s)"
          "val (rb_data s1) y = val (rb_data s) x" "\<forall>z. z \<notin> set (addrs r) \<longrightarrow> val (rb_data s1) z = val (rb_data s) z"
          "good_path calc (own (rb_data s1)) (val (rb_data s1)) Q (root_of r2)" "good (rb_data s1) r2"
      by (rule take_successor_tree [OF pt(7) dr(1) 3(2) pt(3,4) dr(2) has_x hr gp(3)])
    have y: "y \<in> set (addrs r)" "y \<noteq> 0" "aligned y"
      using Q(1) rb_at_members [OF pt(7), of y] by auto
    have m1: "path_at (rb_nodes s1) 0 P x" "rb_nodes s1 x = Some (cell (above 0 P) c (root_of r) (root_of l))" "rb_at (rb_nodes s1) x l"
    proof -
      show "rb_nodes s1 x = Some (cell (above 0 P) c (root_of r) (root_of l))" using m(5) dr(2) pt(5) by simp
      show "path_at (rb_nodes s1) 0 P x"
        using pt(1) by (subst path_at_cong [of _ _ "rb_nodes s"]) (use m(5) d in auto)
      show "rb_at (rb_nodes s1) x l" using pt(6) by (subst rb_at_cong [of _ _ "rb_nodes s"]) (use m(5) d in auto)
    qed
    have d2: "distinct (before P @ addrs l @ x # y # addrs r2 @ behind Q @ behind P)" using d Q by simp
    have root1: "rb_root s1 = topmost x P" using pt(2) m(6) by simp
    let ?t = "plug P (Nd l y c (plug Q (paint True r2)))"
    obtain s2 where s2: "put_successor x (y, above y Q, root_of r2, s1) = Inr (rebalance_at Q cy r2 y, y, s2)"
        "rb_tree s2 ?t" "same_rest s1 s2"
      by (rule put_successor_tree [OF m1(1) root1 pt(3,4) m1(2,3) 3(1) m(1,2) Q(2) y(2,3) m(3,4) d2])
    have data: "rb_data s2 = rb_data s1" "rb_leftmost s2 = rb_leftmost s" using s2(3) m(7) by (simp_all add: same_rest_def)
    let ?R = "Went_left y c (plug Q (paint True r2)) P"
    have gl: "good (rb_data s1) l" unfolding v(2)
      using gp(2) by (subst good_tree_cong [of _ _ "val (rb_data s)"]) (use v(4) d in auto)
    have gP: "good_path calc (own (rb_data s1)) (val (rb_data s1)) P y" unfolding v(2)
      using gp(1) by (subst good_path_cong [of _ _ "val (rb_data s)" _ x]) (use v(3,4) d pt(3) y(2) in \<open>auto simp: child_val_def\<close>)
    have gR: "good_above calc (own (rb_data s2)) (val (rb_data s2)) ?R"
      using gP v(5,6) by (simp add: data good_plug)
    have all: "all_has has (rb_data s2) (plug ?R l)" using t(3) P Q v(1) by (auto simp: all_has_def data)
    obtain d' where d': "propagate cb y 0 s2 = ok (upto_data s2 d')" "own d' = own (rb_data s)" "has d' = has (rb_data s)" "good d' ?t"
      by (rule last_propagate [of s2 ?R l]) (use s2(2) all gl gR v(1,2) data in simp_all)
    have "erase_augmented cb x s = ok (rebalance_at Q cy r2 y, upto_data s2 d')"
      using pt(5) 3 rb_at_root_zero [OF pt(6)] rb_at_root_zero [OF pt(7)] take s2(1) d'(1)
      by (simp add: erase_augmented_def rb_get_Some)
    moreover have "balanced t \<longrightarrow> balance_after ?t (rebalance_at Q cy r2 y)"
      using successor_balance [of P l x c Q y cy r2] m1(1) y(2) m(1) P Q(1) by blast
    moreover have "addrs ?t = remove1 x (addrs t)" unfolding rem using Q by simp
    ultimately show thesis
      by (intro that [of _ "upto_data s2 d'" ?t]) (use s2(2) d' data in \<open>simp_all add: rb_tree_def\<close>)
  qed
qed

end

end
