(* ===== verification/Interval_Tree.thy ===== *)
theory Interval_Tree
  imports Rb_Erase
begin

text \<open>
  Interval trees: the callbacks that \<open>RB_DECLARE_CALLBACKS_MAX\<close> makes (rbtree\_augmented.h) and
  the functions that \<open>INTERVAL_TREE_DEFINE\<close> makes (interval\_tree\_generic.h). The macro parameters
  are arguments: the enclosing structures are a map from the address of the embedded node, a field
  is a reading and a setting function, \<open>ITTYPE\<close> is any linearly ordered type.
\<close>

subsection \<open>The callbacks\<close>

definition entry :: "u64 \<Rightarrow> (u64 \<Rightarrow> 'e option) rb_mem \<Rightarrow> kfault + 'e" where
  "entry p s = (case rb_data s p of None \<Rightarrow> Inl (BadAddress p) | Some e \<Rightarrow> Inr e)"

definition set_entry :: "u64 \<Rightarrow> ('e \<Rightarrow> 'e) \<Rightarrow> (u64 \<Rightarrow> 'e option) rb_mem \<Rightarrow> kfault + (u64 \<Rightarrow> 'e option) rb_mem" where
  "set_entry p f s = fbind (entry p s) (\<lambda>e. Inr (s\<lparr>rb_data := (rb_data s)(p \<mapsto> f e)\<rparr>))"

type_synonym 'd rb_compute = "u64 \<Rightarrow> bool \<Rightarrow> 'd rb_mem \<Rightarrow> kfault + bool \<times> 'd rb_mem"

partial_function (option) callbacks_propagate :: "'d rb_compute \<Rightarrow> u64 \<Rightarrow> u64 \<Rightarrow> 'd rb_mem \<Rightarrow> 'd rb_mem run" where
  "callbacks_propagate compute rb stop s =
     (if rb = stop then ok s
      else case compute rb True s of
             Inl e \<Rightarrow> Some (Inl e)
           | Inr (done, s) \<Rightarrow>
               if done then ok s
               else case rb_parent rb s of
                      Inl e \<Rightarrow> Some (Inl e)
                    | Inr p \<Rightarrow> callbacks_propagate compute p stop s)"

definition callbacks_copy ::
  "('e \<Rightarrow> 'v) \<Rightarrow> ('v \<Rightarrow> 'e \<Rightarrow> 'e) \<Rightarrow> u64 \<Rightarrow> u64 \<Rightarrow> (u64 \<Rightarrow> 'e option) rb_mem \<Rightarrow> kfault + (u64 \<Rightarrow> 'e option) rb_mem" where
  "callbacks_copy get set_to rb_old rb_new s =
     fbind (entry rb_old s) (\<lambda>old. set_entry rb_new (set_to (get old)) s)"

definition callbacks_rotate ::
  "('e \<Rightarrow> 'v) \<Rightarrow> ('v \<Rightarrow> 'e \<Rightarrow> 'e) \<Rightarrow> (u64 \<Rightarrow> 'e option) rb_compute \<Rightarrow> u64 \<Rightarrow> u64 \<Rightarrow> (u64 \<Rightarrow> 'e option) rb_mem \<Rightarrow> kfault + (u64 \<Rightarrow> 'e option) rb_mem" where
  "callbacks_rotate get set_to compute rb_old rb_new s =
     fbind (entry rb_old s) (\<lambda>old.
     fbind (set_entry rb_new (set_to (get old)) s) (\<lambda>s.
     fbind (compute rb_old False s) (\<lambda>(done, s). Inr s)))"

definition RB_DECLARE_CALLBACKS ::
  "('e \<Rightarrow> 'v) \<Rightarrow> ('v \<Rightarrow> 'e \<Rightarrow> 'e) \<Rightarrow> (u64 \<Rightarrow> 'e option) rb_compute \<Rightarrow> (u64 \<Rightarrow> 'e option) rb_augment_callbacks" where
  "RB_DECLARE_CALLBACKS get set_to compute =
     \<lparr>propagate = callbacks_propagate compute, copy = callbacks_copy get set_to,
      rotate = callbacks_rotate get set_to compute\<rparr>"

definition compute_max ::
  "('e \<Rightarrow> 'v :: linorder) \<Rightarrow> ('v \<Rightarrow> 'e \<Rightarrow> 'e) \<Rightarrow> ('e \<Rightarrow> 'v) \<Rightarrow> (u64 \<Rightarrow> 'e option) rb_compute" where
  "compute_max get set_to compute node exit s =
     fbind (entry node s) (\<lambda>e.
     fbind (rb_get node s) (\<lambda>n.
     let max = compute e in
     fbind (if rb_left n \<noteq> 0 then fbind (entry (rb_left n) s) (\<lambda>child. Inr (if get child > max then get child else max))
            else Inr max) (\<lambda>max.
     fbind (if rb_right n \<noteq> 0 then fbind (entry (rb_right n) s) (\<lambda>child. Inr (if get child > max then get child else max))
            else Inr max) (\<lambda>max.
     if exit \<and> get e = max then Inr (True, s)
     else fbind (set_entry node (set_to max) s) (\<lambda>s. Inr (False, s))))))"

definition RB_DECLARE_CALLBACKS_MAX ::
  "('e \<Rightarrow> 'v :: linorder) \<Rightarrow> ('v \<Rightarrow> 'e \<Rightarrow> 'e) \<Rightarrow> ('e \<Rightarrow> 'v) \<Rightarrow> (u64 \<Rightarrow> 'e option) rb_augment_callbacks" where
  "RB_DECLARE_CALLBACKS_MAX get set_to compute = RB_DECLARE_CALLBACKS get set_to (compute_max get set_to compute)"

subsection \<open>Interval trees\<close>

record 'k interval =
  it_start :: 'k
  it_last :: 'k
  it_subtree :: 'k

type_synonym 'k it_mem = "(u64 \<Rightarrow> 'k interval option) rb_mem"

definition set_subtree :: "'k \<Rightarrow> 'k interval \<Rightarrow> 'k interval" where
  "set_subtree v e = e\<lparr>it_subtree := v\<rparr>"

definition it_augment :: "(u64 \<Rightarrow> ('k :: linorder) interval option) rb_augment_callbacks" where
  "it_augment = RB_DECLARE_CALLBACKS_MAX it_subtree set_subtree it_last"

partial_function (option) it_insert_loop ::
  "('k :: linorder) \<Rightarrow> 'k \<Rightarrow> rb_link \<Rightarrow> u64 \<Rightarrow> bool \<Rightarrow> 'k it_mem \<Rightarrow> (rb_link \<times> u64 \<times> bool \<times> 'k it_mem) run" where
  "it_insert_loop start final link parent_ptr leftmost s =
     (case read_link link s of
        Inl e \<Rightarrow> Some (Inl e)
      | Inr p \<Rightarrow>
          if p = 0 then ok (link, parent_ptr, leftmost, s)
          else (case entry p s of
                  Inl e \<Rightarrow> Some (Inl e)
                | Inr parent \<Rightarrow>
                    (case if it_subtree parent < final then set_entry p (set_subtree final) s else Inr s of
                       Inl e \<Rightarrow> Some (Inl e)
                     | Inr s \<Rightarrow>
                         if start < it_start parent then it_insert_loop start final (Left_link p) p leftmost s
                         else it_insert_loop start final (Right_link p) p False s)))"

definition it_insert ::
  "(u64 \<Rightarrow> ('k :: linorder) interval option) rb_rebalance \<Rightarrow> u64 \<Rightarrow> 'k it_mem \<Rightarrow> 'k it_mem run" where
  "it_insert insert_aug node s =
     rbind (Some (entry node s)) (\<lambda>e.
     rbind (it_insert_loop (it_start e) (it_last e) Root_link 0 True s) (\<lambda>(link, parent, leftmost, s).
     rbind (Some (set_entry node (set_subtree (it_last e)) s)) (\<lambda>s.
     rbind (Some (rb_link_node node parent link s)) (\<lambda>s.
     rb_insert_augmented_cached insert_aug node leftmost it_augment s))))"

definition it_remove ::
  "(u64 \<Rightarrow> ('k :: linorder) interval option) rb_rebalance \<Rightarrow> (u64 \<Rightarrow> 'k interval option) rb_step \<Rightarrow> u64 \<Rightarrow> 'k it_mem \<Rightarrow> 'k it_mem run" where
  "it_remove erase_color next_node node s = rb_erase_augmented_cached erase_color next_node it_augment node s"

text \<open>The test both searches make of a child: it is there and some interval below it ends at \<open>start\<close> or later.\<close>

definition child_reaches :: "('k :: linorder) \<Rightarrow> u64 \<Rightarrow> 'k it_mem \<Rightarrow> kfault + bool" where
  "child_reaches start child s =
     (if child \<noteq> 0 then fbind (entry child s) (\<lambda>i. Inr (start \<le> it_subtree i)) else Inr False)"

partial_function (option) it_subtree_search ::
  "('k :: linorder) \<Rightarrow> 'k \<Rightarrow> 'k it_mem \<Rightarrow> u64 \<Rightarrow> u64 run" where
  "it_subtree_search start final s node =
     (case rb_get node s of Inl e \<Rightarrow> Some (Inl e) | Inr n \<Rightarrow>
      case child_reaches start (rb_left n) s of
        Inl e \<Rightarrow> Some (Inl e)
      | Inr go_left \<Rightarrow>
      if go_left then it_subtree_search start final s (rb_left n)
      else case entry node s of Inl e \<Rightarrow> Some (Inl e) | Inr i \<Rightarrow>
      if it_start i \<le> final then
        (if start \<le> it_last i then ok node
         else case child_reaches start (rb_right n) s of
                Inl e \<Rightarrow> Some (Inl e)
              | Inr go_right \<Rightarrow> if go_right then it_subtree_search start final s (rb_right n) else ok 0)
      else ok 0)"

definition it_iter_first :: "('k :: linorder) \<Rightarrow> 'k \<Rightarrow> 'k it_mem \<Rightarrow> u64 run" where
  "it_iter_first start final s =
     (if rb_root s = 0 then ok 0
      else rbind (Some (entry (rb_root s) s)) (\<lambda>node.
        if it_subtree node < start then ok 0
        else rbind (Some (entry (rb_leftmost s) s)) (\<lambda>leftmost.
          if it_start leftmost > final then ok 0
          else it_subtree_search start final s (rb_root s))))"

text \<open>The inner \<open>do\<close> loop: the first node above that was entered from its left side, and its right child.\<close>

partial_function (option) it_climb :: "'d rb_mem \<Rightarrow> u64 \<Rightarrow> (u64 \<times> u64) option run" where
  "it_climb s node =
     (case rb_parent node s of Inl e \<Rightarrow> Some (Inl e) | Inr rb \<Rightarrow>
      if rb = 0 then ok None
      else case rb_get rb s of Inl e \<Rightarrow> Some (Inl e) | Inr n \<Rightarrow>
      if node = rb_right n then it_climb s rb else ok (Some (rb, rb_right n)))"

partial_function (option) it_next_loop ::
  "('k :: linorder) \<Rightarrow> 'k \<Rightarrow> 'k it_mem \<Rightarrow> u64 \<Rightarrow> u64 \<Rightarrow> u64 run" where
  "it_next_loop start final s node rb =
     (case child_reaches start rb s of
        Inl e \<Rightarrow> Some (Inl e)
      | Inr inside \<Rightarrow>
      if inside then it_subtree_search start final s rb
      else case it_climb s node of
             None \<Rightarrow> None
           | Some (Inl e) \<Rightarrow> Some (Inl e)
           | Some (Inr None) \<Rightarrow> ok 0
           | Some (Inr (Some (node, rb))) \<Rightarrow>
      case entry node s of Inl e \<Rightarrow> Some (Inl e) | Inr i \<Rightarrow>
      if final < it_start i then ok 0
      else if start \<le> it_last i then ok node
      else it_next_loop start final s node rb)"

definition it_iter_next :: "u64 \<Rightarrow> ('k :: linorder) \<Rightarrow> 'k \<Rightarrow> 'k it_mem \<Rightarrow> u64 run" where
  "it_iter_next node start final s =
     rbind (Some (rb_get node s)) (\<lambda>n. it_next_loop start final s node (rb_right n))"

subsection \<open>The callbacks keep their promise\<close>

definition it_has :: "(u64 \<Rightarrow> 'k interval option) \<Rightarrow> u64 \<Rightarrow> bool" where
  "it_has d x \<longleftrightarrow> d x \<noteq> None"

definition it_own :: "(u64 \<Rightarrow> 'k interval option) \<Rightarrow> u64 \<Rightarrow> ('k \<times> 'k) option" where
  "it_own d x = map_option (\<lambda>e. (it_start e, it_last e)) (d x)"

definition it_val :: "(u64 \<Rightarrow> 'k interval option) \<Rightarrow> u64 \<Rightarrow> 'k" where
  "it_val d x = it_subtree (the (d x))"

fun larger :: "'k :: linorder \<Rightarrow> 'k option \<Rightarrow> 'k" where
  "larger m None = m"
| "larger m (Some v) = max m v"

definition it_calc :: "('k \<times> ('k :: linorder)) option \<Rightarrow> 'k option \<Rightarrow> 'k option \<Rightarrow> 'k" where
  "it_calc i l r = larger (larger (snd (the i)) l) r"

lemma it_update:
  assumes "d x = Some e"
  shows "it_has (d(x \<mapsto> set_subtree v e)) = it_has d" "it_own (d(x \<mapsto> set_subtree v e)) = it_own d"
    "it_val (d(x \<mapsto> set_subtree v e)) = (it_val d)(x := v)"
  using assms by (auto simp: fun_eq_iff it_has_def it_own_def it_val_def set_subtree_def)

lemma entry_Some: "rb_data s p = Some e \<Longrightarrow> entry p s = Inr e"
  by (simp add: entry_def)

lemma it_compute:
  assumes "rb_nodes s x = Some n" "rb_data s x = Some e"
    "rb_left n \<noteq> 0 \<longrightarrow> it_has (rb_data s) (rb_left n)" "rb_right n \<noteq> 0 \<longrightarrow> it_has (rb_data s) (rb_right n)"
  shows "compute_max it_subtree set_subtree it_last x exit s =
    (let v = it_calc (it_own (rb_data s) x) (child_val (it_val (rb_data s)) (rb_left n)) (child_val (it_val (rb_data s)) (rb_right n))
     in if exit \<and> it_val (rb_data s) x = v then Inr (True, s) else Inr (False, upto_data s ((rb_data s)(x \<mapsto> set_subtree v e))))"
  using assms
  by (auto simp: compute_max_def entry_def rb_get_def it_calc_def it_own_def child_val_def it_val_def it_has_def
      set_entry_def upto_data_def Let_def max_def)

lemma it_copy:
  assumes "it_has (rb_data s) a" "it_has (rb_data s) b"
  shows "\<exists>d. copy it_augment a b s = Inr (upto_data s d) \<and> it_has d = it_has (rb_data s) \<and> it_own d = it_own (rb_data s) \<and>
    it_val d = (it_val (rb_data s))(b := it_val (rb_data s) a)"
proof -
  obtain ea eb where e: "rb_data s a = Some ea" "rb_data s b = Some eb" using assms by (auto simp: it_has_def)
  let ?d = "(rb_data s)(b \<mapsto> set_subtree (it_subtree ea) eb)"
  have "copy it_augment a b s = Inr (upto_data s ?d)"
    using e by (simp add: it_augment_def RB_DECLARE_CALLBACKS_MAX_def RB_DECLARE_CALLBACKS_def callbacks_copy_def
        entry_Some set_entry_def upto_data_def)
  moreover have "it_val ?d = (it_val (rb_data s))(b := it_val (rb_data s) a)"
    using it_update(3) [of "rb_data s" b eb, OF e(2)] e(1) by (simp add: it_val_def)
  ultimately show ?thesis using it_update(1,2) [of "rb_data s" b eb, OF e(2)] by blast
qed

lemma it_propagate_unfold:
  "propagate it_augment rb stop s = callbacks_propagate (compute_max it_subtree set_subtree it_last) rb stop s"
  by (simp add: it_augment_def RB_DECLARE_CALLBACKS_MAX_def RB_DECLARE_CALLBACKS_def)

lemma upto_data_twice [simp]: "upto_data (upto_data s d) d' = upto_data s d'"
  by (simp add: upto_data_def)

lemma rb_parent_cell:
  "rb_nodes s x = Some (cell par c r l) \<Longrightarrow> aligned par \<Longrightarrow> rb_parent x s = Inr par"
  using unpack(2) [of par c] by (simp add: rb_parent_def rb_get_Some)

text \<open>One round at the lowest node of a path: stop, or set its value and go on above it.\<close>

lemma it_propagate_step:
  assumes "rb_nodes s x = Some (cell par c r l)" "aligned par" "it_has (rb_data s) x" "x \<noteq> u"
    "l \<noteq> 0 \<longrightarrow> it_has (rb_data s) l" "r \<noteq> 0 \<longrightarrow> it_has (rb_data s) r"
  shows "right_at it_calc (it_own (rb_data s)) (it_val (rb_data s)) x l r \<Longrightarrow> propagate it_augment x u s = ok s"
    "\<not> right_at it_calc (it_own (rb_data s)) (it_val (rb_data s)) x l r \<Longrightarrow>
     \<exists>d. propagate it_augment x u s = propagate it_augment par u (upto_data s d) \<and> it_has d = it_has (rb_data s) \<and>
       it_own d = it_own (rb_data s) \<and>
       it_val d = (it_val (rb_data s))(x := it_calc (it_own (rb_data s) x) (child_val (it_val (rb_data s)) l) (child_val (it_val (rb_data s)) r))"
proof -
  obtain e where e: "rb_data s x = Some e" using assms(3) by (auto simp: it_has_def)
  let ?v = "it_calc (it_own (rb_data s) x) (child_val (it_val (rb_data s)) l) (child_val (it_val (rb_data s)) r)"
  let ?d = "(rb_data s)(x \<mapsto> set_subtree ?v e)"
  have c: "compute_max it_subtree set_subtree it_last x True s =
      (if it_val (rb_data s) x = ?v then Inr (True, s) else Inr (False, upto_data s ?d))"
    using it_compute [OF assms(1) e, of True] assms(5,6) by (simp add: Let_def)
  show "right_at it_calc (it_own (rb_data s)) (it_val (rb_data s)) x l r \<Longrightarrow> propagate it_augment x u s = ok s"
    unfolding it_propagate_unfold using assms(4) c by (subst callbacks_propagate.simps) (simp add: right_at_def)
  assume "\<not> right_at it_calc (it_own (rb_data s)) (it_val (rb_data s)) x l r"
  then have "propagate it_augment x u s = propagate it_augment par u (upto_data s ?d)"
    unfolding it_propagate_unfold using assms(1,2,4) c
    by (subst callbacks_propagate.simps) (simp add: right_at_def rb_parent_cell)
  then show "\<exists>d. propagate it_augment x u s = propagate it_augment par u (upto_data s d) \<and> it_has d = it_has (rb_data s) \<and>
       it_own d = it_own (rb_data s) \<and> it_val d = (it_val (rb_data s))(x := ?v)"
    using it_update [of "rb_data s" x e, OF e] by blast
qed

lemma right_at_elsewhere:
  assumes "val' x = val x" "p \<noteq> 0 \<longrightarrow> val' p = val p" "q \<noteq> 0 \<longrightarrow> val' q = val q"
  shows "right_at calc own val' x p q = right_at calc own val x p q"
  using assms by (auto simp: right_at_def child_val_def)

text \<open>\<open>S\<close> are the nodes further up, \<open>G\<close> what their own rounds establish.\<close>

lemma it_propagate_level:
  fixes s :: "('k :: linorder) it_mem"
  assumes node: "rb_nodes s x = Some (cell par c r l)" "aligned par" "it_has (rb_data s) x" "x \<noteq> u"
      "l \<noteq> 0 \<longrightarrow> it_has (rb_data s) l" "r \<noteq> 0 \<longrightarrow> it_has (rb_data s) r"
    and off: "x \<noteq> l" "x \<noteq> r" "x \<notin> S" "l \<noteq> 0 \<longrightarrow> l \<notin> S" "r \<noteq> 0 \<longrightarrow> r \<notin> S"
    and further: "\<And>d v. it_has d = it_has (rb_data s) \<Longrightarrow> it_own d = it_own (rb_data s) \<Longrightarrow> it_val d = (it_val (rb_data s))(x := v) \<Longrightarrow>
      \<exists>d'. propagate it_augment par u (upto_data s d) = ok (upto_data s d') \<and> it_has d' = it_has d \<and> it_own d' = it_own d \<and>
        G d' \<and> (\<forall>z. z \<notin> S \<longrightarrow> it_val d' z = it_val d z)"
    and stop: "G (rb_data s)"
  shows "\<exists>d. propagate it_augment x u s = ok (upto_data s d) \<and> it_has d = it_has (rb_data s) \<and>
    it_own d = it_own (rb_data s) \<and> right_at it_calc (it_own d) (it_val d) x l r \<and> G d \<and>
    (\<forall>z. z \<noteq> x \<longrightarrow> z \<notin> S \<longrightarrow> it_val d z = it_val (rb_data s) z)"
proof (cases "right_at it_calc (it_own (rb_data s)) (it_val (rb_data s)) x l r")
  case True
  with it_propagate_step(1) [OF node] stop show ?thesis by (intro exI [of _ "rb_data s"]) (simp add: upto_data_def)
next
  case False
  let ?v = "it_calc (it_own (rb_data s) x) (child_val (it_val (rb_data s)) l) (child_val (it_val (rb_data s)) r)"
  obtain d where d: "propagate it_augment x u s = propagate it_augment par u (upto_data s d)"
      "it_has d = it_has (rb_data s)" "it_own d = it_own (rb_data s)" "it_val d = (it_val (rb_data s))(x := ?v)"
    using it_propagate_step(2) [OF node False] by blast
  obtain d' where d': "propagate it_augment par u (upto_data s d) = ok (upto_data s d')" "it_has d' = it_has d"
      "it_own d' = it_own d" "G d'" "\<forall>z. z \<notin> S \<longrightarrow> it_val d' z = it_val d z"
    using further [OF d(2-4)] by blast
  have "right_at it_calc (it_own d') (it_val d) x l r"
    using d'(3) d(3,4) off(1,2) by (simp add: right_at_def child_val_def)
  then have "right_at it_calc (it_own d') (it_val d') x l r"
    using d'(5) off by (subst right_at_elsewhere [of _ _ "it_val d"]) auto
  with d d' show ?thesis by (intro exI [of _ d']) simp
qed

lemma it_propagate:
  fixes s :: "('k :: linorder) it_mem"
  assumes "path_at (rb_nodes s) u P p" "aligned u" "u \<notin> set (spine P)" "distinct (before P @ behind P)"
    "p \<notin> set (before P @ behind P)" "\<forall>x\<in>set (before P) \<union> set (behind P). it_has (rb_data s) x"
    "p \<noteq> 0 \<longrightarrow> it_has (rb_data s) p" "good_above it_calc (it_own (rb_data s)) (it_val (rb_data s)) P"
  shows "\<exists>d. propagate it_augment (above u P) u s = ok (upto_data s d) \<and> it_has d = it_has (rb_data s) \<and>
    it_own d = it_own (rb_data s) \<and> good_path it_calc (it_own d) (it_val d) P p \<and>
    (\<forall>x. x \<notin> set (spine P) \<longrightarrow> it_val d x = it_val (rb_data s) x)"
  using assms
proof (induction P arbitrary: p s)
  case Top
  then show ?case
    by (intro exI [of _ "rb_data s"]) (simp add: it_propagate_unfold callbacks_propagate.simps upto_data_def)
next
  case (Went_left x c r up)
  let ?d = "rb_data s" and ?q = "root_of r" and ?G = "\<lambda>d. good_path it_calc (it_own d) (it_val d) up x"
  have al: "aligned (above u up)" using Went_left.prems(1,2) aligned_above by auto
  have sp: "set (spine up) \<subseteq> set (before up) \<union> set (behind up)" by (rule spine_nodes)
  have q: "?q \<noteq> 0 \<longrightarrow> ?q \<in> set (addrs r)" "?q \<noteq> 0 \<longrightarrow> it_has ?d ?q" "x \<noteq> ?q"
    using root_of_member [of r] Went_left.prems(1,4,6) by auto
  have node: "rb_nodes s x = Some (cell (above u up) c ?q p)" "it_has ?d x" "x \<noteq> u" "x \<noteq> p"
    using Went_left.prems by auto
  have up: "path_at (rb_nodes s) u up x" "u \<notin> set (spine up)" "distinct (before up @ behind up)"
      "x \<notin> set (before up @ behind up)" "\<forall>z\<in>set (before up) \<union> set (behind up). it_has ?d z"
    using Went_left.prems by auto
  have off: "x \<notin> set (spine up)" "p \<notin> set (spine up)" "?q \<noteq> 0 \<longrightarrow> ?q \<notin> set (spine up)"
      "set (addrs r) \<inter> set (spine up) = {}"
    using sp q(1) Went_left.prems(4,5) by auto
  then have ppup: "p \<notin> set (spine up)" "p \<noteq> 0 \<longrightarrow> p \<notin> set (spine up)" by simp_all
  have gu: "good_above it_calc (it_own ?d) (it_val ?d) up" "good_tree it_calc (it_own ?d) (it_val ?d) r" "?G ?d"
    using Went_left.prems(8) by (auto intro: good_path_above)
  have IH: "\<exists>d'. propagate it_augment (above u up) u (upto_data s d) = ok (upto_data s d') \<and> it_has d' = it_has d \<and>
      it_own d' = it_own d \<and> ?G d' \<and> (\<forall>z. z \<notin> set (spine up) \<longrightarrow> it_val d' z = it_val d z)"
    if d: "it_has d = it_has ?d" "it_own d = it_own ?d" "it_val d = (it_val ?d)(x := v)" for d v
  proof -
    have "good_above it_calc (it_own d) (it_val d) up" unfolding d(2,3) using gu(1) up(4) by simp
    then show ?thesis
      using Went_left.IH [of "upto_data s d" x, unfolded upto_data_fields, OF up(1) Went_left.prems(2) up(2-4)] up(5) node(2) d(1)
      by simp
  qed
  have "\<exists>d. propagate it_augment x u s = ok (upto_data s d) \<and> it_has d = it_has ?d \<and> it_own d = it_own ?d \<and>
      right_at it_calc (it_own d) (it_val d) x p ?q \<and> ?G d \<and>
      (\<forall>z. z \<noteq> x \<longrightarrow> z \<notin> set (spine up) \<longrightarrow> it_val d z = it_val ?d z)"
    by (rule it_propagate_level [where G = ?G, OF node(1) al node(2,3) Went_left.prems(7) q(2) node(4) q(3) off(1) ppup(2) off(3)])
      (erule (2) IH, rule gu(3))
  then obtain d where d: "propagate it_augment x u s = ok (upto_data s d)" "it_has d = it_has ?d" "it_own d = it_own ?d"
      "right_at it_calc (it_own d) (it_val d) x p ?q" "?G d"
      "\<forall>z. z \<noteq> x \<longrightarrow> z \<notin> set (spine up) \<longrightarrow> it_val d z = it_val ?d z"
    by blast
  have "x \<notin> set (addrs r)" using Went_left.prems(4) by auto
  then have same: "it_val d z = it_val ?d z" if "z \<in> set (addrs r)" for z
    using that d(6) off(4) by (metis disjoint_iff)
  have "good_tree it_calc (it_own d) (it_val d) r"
    unfolding d(3) using gu(2) by (simp only: good_tree_cong [OF same])
  with d show ?case by (intro exI [of _ d]) simp
next
  case (Went_right l x c up)
  let ?d = "rb_data s" and ?q = "root_of l" and ?G = "\<lambda>d. good_path it_calc (it_own d) (it_val d) up x"
  have al: "aligned (above u up)" using Went_right.prems(1,2) aligned_above by auto
  have sp: "set (spine up) \<subseteq> set (before up) \<union> set (behind up)" by (rule spine_nodes)
  have q: "?q \<noteq> 0 \<longrightarrow> ?q \<in> set (addrs l)" "?q \<noteq> 0 \<longrightarrow> it_has ?d ?q" "x \<noteq> ?q"
    using root_of_member [of l] Went_right.prems(1,4,6) by auto
  have node: "rb_nodes s x = Some (cell (above u up) c p ?q)" "it_has ?d x" "x \<noteq> u" "x \<noteq> p"
    using Went_right.prems by auto
  have up: "path_at (rb_nodes s) u up x" "u \<notin> set (spine up)" "distinct (before up @ behind up)"
      "x \<notin> set (before up @ behind up)" "\<forall>z\<in>set (before up) \<union> set (behind up). it_has ?d z"
    using Went_right.prems by auto
  have off: "x \<notin> set (spine up)" "p \<notin> set (spine up)" "?q \<noteq> 0 \<longrightarrow> ?q \<notin> set (spine up)"
      "set (addrs l) \<inter> set (spine up) = {}"
    using sp q(1) Went_right.prems(4,5) by auto
  then have ppup: "p \<notin> set (spine up)" "p \<noteq> 0 \<longrightarrow> p \<notin> set (spine up)" by simp_all
  have gu: "good_above it_calc (it_own ?d) (it_val ?d) up" "good_tree it_calc (it_own ?d) (it_val ?d) l" "?G ?d"
    using Went_right.prems(8) by (auto intro: good_path_above)
  have IH: "\<exists>d'. propagate it_augment (above u up) u (upto_data s d) = ok (upto_data s d') \<and> it_has d' = it_has d \<and>
      it_own d' = it_own d \<and> ?G d' \<and> (\<forall>z. z \<notin> set (spine up) \<longrightarrow> it_val d' z = it_val d z)"
    if d: "it_has d = it_has ?d" "it_own d = it_own ?d" "it_val d = (it_val ?d)(x := v)" for d v
  proof -
    have "good_above it_calc (it_own d) (it_val d) up" unfolding d(2,3) using gu(1) up(4) by simp
    then show ?thesis
      using Went_right.IH [of "upto_data s d" x, unfolded upto_data_fields, OF up(1) Went_right.prems(2) up(2-4)] up(5) node(2) d(1)
      by simp
  qed
  have "\<exists>d. propagate it_augment x u s = ok (upto_data s d) \<and> it_has d = it_has ?d \<and> it_own d = it_own ?d \<and>
      right_at it_calc (it_own d) (it_val d) x ?q p \<and> ?G d \<and>
      (\<forall>z. z \<noteq> x \<longrightarrow> z \<notin> set (spine up) \<longrightarrow> it_val d z = it_val ?d z)"
    by (rule it_propagate_level [where G = ?G, OF node(1) al node(2,3) q(2) Went_right.prems(7) q(3) node(4) off(1) off(3) ppup(2)])
      (erule (2) IH, rule gu(3))
  then obtain d where d: "propagate it_augment x u s = ok (upto_data s d)" "it_has d = it_has ?d" "it_own d = it_own ?d"
      "right_at it_calc (it_own d) (it_val d) x ?q p" "?G d"
      "\<forall>z. z \<noteq> x \<longrightarrow> z \<notin> set (spine up) \<longrightarrow> it_val d z = it_val ?d z"
    by blast
  have "x \<notin> set (addrs l)" using Went_right.prems(4) by auto
  then have same: "it_val d z = it_val ?d z" if "z \<in> set (addrs l)" for z
    using that d(6) off(4) by (metis disjoint_iff)
  have "good_tree it_calc (it_own d) (it_val d) l"
    unfolding d(3) using gu(2) by (simp only: good_tree_cong [OF same])
  with d show ?case by (intro exI [of _ d]) simp
qed

interpretation it: augmentation it_augment it_has it_own it_val it_calc
  by unfold_locales ((rule it_copy; assumption), (rule it_propagate; assumption))

end
