(* ===== verification/Interval_Search.thy ===== *)
theory Interval_Search
  imports Interval_Tree
begin

text \<open>
  What the functions of interval\_tree\_generic.h do to a well-formed tree: search and iteration give
  the overlapping intervals in order of their starts, insertion and removal keep the tree
  well formed. The cut-offs by the largest end below a node never lose an interval.
\<close>

subsection \<open>Well-formed interval trees\<close>

definition start_of :: "(u64 \<Rightarrow> 'k interval option) \<Rightarrow> u64 \<Rightarrow> 'k" where
  "start_of d x = it_start (the (d x))"

definition last_of :: "(u64 \<Rightarrow> 'k interval option) \<Rightarrow> u64 \<Rightarrow> 'k" where
  "last_of d x = it_last (the (d x))"

definition starts_sorted :: "(u64 \<Rightarrow> ('k :: linorder) interval option) \<Rightarrow> u64 list \<Rightarrow> bool" where
  "starts_sorted d xs \<longleftrightarrow> sorted_wrt (\<lambda>a b. start_of d a \<le> start_of d b) xs"

abbreviation it_good :: "(u64 \<Rightarrow> ('k :: linorder) interval option) \<Rightarrow> rbt \<Rightarrow> bool" where
  "it_good d \<equiv> good_tree it_calc (it_own d) (it_val d)"

definition it_tree :: "('k :: linorder) it_mem \<Rightarrow> rbt \<Rightarrow> bool" where
  "it_tree s t \<longleftrightarrow> rb_tree s t \<and> cached s t \<and> all_has it_has (rb_data s) t \<and> it_good (rb_data s) t \<and>
     starts_sorted (rb_data s) (addrs t)"

definition overlaps :: "(u64 \<Rightarrow> ('k :: linorder) interval option) \<Rightarrow> 'k \<Rightarrow> 'k \<Rightarrow> u64 \<Rightarrow> bool" where
  "overlaps d start final x \<longleftrightarrow> start_of d x \<le> final \<and> start \<le> last_of d x"

definition first_of :: "(u64 \<Rightarrow> bool) \<Rightarrow> u64 list \<Rightarrow> u64" where
  "first_of p xs = (case filter p xs of [] \<Rightarrow> 0 | x # _ \<Rightarrow> x)"

lemma first_of_simps [simp]:
  "first_of p [] = 0" "first_of p (x # xs) = (if p x then x else first_of p xs)"
  by (simp_all add: first_of_def)

lemma first_of_none: "(\<And>x. x \<in> set xs \<Longrightarrow> \<not> p x) \<Longrightarrow> first_of p (xs @ ys) = first_of p ys"
  by (simp add: first_of_def)

lemma first_of_zero: "(\<And>x. x \<in> set xs \<Longrightarrow> \<not> p x) \<Longrightarrow> first_of p xs = 0"
  by (simp add: first_of_def)

lemma first_of_some: "x \<in> set xs \<Longrightarrow> p x \<Longrightarrow> first_of p (xs @ ys) = first_of p xs"
proof -
  assume "x \<in> set xs" "p x"
  then have "filter p xs \<noteq> []" by (auto simp: filter_empty_conv)
  then show ?thesis by (cases "filter p xs") (simp_all add: first_of_def)
qed

lemma starts_sorted_append:
  "starts_sorted d (xs @ x # ys) \<Longrightarrow> y \<in> set ys \<Longrightarrow> start_of d x \<le> start_of d y"
  "starts_sorted d (xs @ x # ys) \<Longrightarrow> y \<in> set xs \<Longrightarrow> start_of d y \<le> start_of d x"
  by (auto simp: starts_sorted_def sorted_wrt_append)

lemma starts_sorted_parts: "starts_sorted d (xs @ ys) \<Longrightarrow> starts_sorted d xs \<and> starts_sorted d ys"
  by (auto simp: starts_sorted_def sorted_wrt_append)

lemma it_val_entry: "rb_data s x = Some e \<Longrightarrow> it_subtree e = it_val (rb_data s) x \<and> it_start e = start_of (rb_data s) x \<and> it_last e = last_of (rb_data s) x"
  by (simp add: it_val_def start_of_def last_of_def)

lemma own_parts: "d x \<noteq> None \<Longrightarrow> it_own d x = Some (start_of d x, last_of d x)"
  by (auto simp: it_own_def start_of_def last_of_def)

text \<open>The value of a node is the largest end below it.\<close>

lemma le_larger: "a \<le> larger m v \<longleftrightarrow> a \<le> m \<or> (\<exists>w. v = Some w \<and> a \<le> w)"
  by (cases v) (auto simp: le_max_iff_disj)

lemma reaches:
  assumes "it_good d t" "all_has it_has d t" "0 \<notin> set (addrs t)" "t \<noteq> Tip"
  shows "a \<le> it_val d (root_of t) \<longleftrightarrow> (\<exists>x\<in>set (addrs t). a \<le> last_of d x)"
  using assms
proof (induction t)
  case (Nd l x c r)
  have sub: "(\<exists>w. child_val (it_val d) (root_of u) = Some w \<and> a \<le> w) \<longleftrightarrow> (\<exists>y\<in>set (addrs u). a \<le> last_of d y)"
    if "u = l \<or> u = r" for u
  proof (cases "u = Tip")
    case True
    then show ?thesis by (simp add: child_val_def)
  next
    case False
    have "root_of u \<noteq> 0" using that False Nd.prems(3) by (cases u) auto
    moreover have "a \<le> it_val d (root_of u) \<longleftrightarrow> (\<exists>y\<in>set (addrs u). a \<le> last_of d y)"
      using that False Nd.IH Nd.prems(1-3) by (auto simp: all_has_def)
    ultimately show ?thesis by (simp add: child_val_def)
  qed
  have "d x \<noteq> None" using Nd.prems(2) by (simp add: all_has_def it_has_def)
  then have "it_val d x = larger (larger (last_of d x) (child_val (it_val d) (root_of l))) (child_val (it_val d) (root_of r))"
    using Nd.prems(1) by (simp add: right_at_def it_calc_def own_parts)
  then show ?case using sub [of l] sub [of r] by (auto simp: le_larger)
qed simp

lemma child_reaches_tree:
  assumes "it_good (rb_data s) t" "all_has it_has (rb_data s) t" "0 \<notin> set (addrs t)"
  shows "child_reaches start (root_of t) s = Inr (\<exists>y\<in>set (addrs t). start \<le> last_of (rb_data s) y)"
proof (cases "t = Tip")
  case False
  have n: "root_of t \<noteq> 0" "root_of t \<in> set (addrs t)" using assms(3) False by (cases t; auto)+
  then obtain i where "rb_data s (root_of t) = Some i" using assms(2) by (auto simp: all_has_def it_has_def)
  with n reaches [OF assms False, of start] show ?thesis by (simp add: child_reaches_def entry_Some it_val_entry)
qed (simp add: child_reaches_def)

subsection \<open>Search in a subtree\<close>

lemma it_subtree_search_first:
  fixes s :: "('k :: linorder) it_mem"
  assumes "rb_at (rb_nodes s) par t" "t \<noteq> Tip" "all_has it_has (rb_data s) t" "it_good (rb_data s) t"
    "starts_sorted (rb_data s) (addrs t)" "start \<le> it_val (rb_data s) (root_of t)"
  shows "it_subtree_search start final s (root_of t) = ok (first_of (overlaps (rb_data s) start final) (addrs t))"
  using assms
proof (induction t arbitrary: par)
  case (Nd l x c r)
  let ?d = "rb_data s" and ?p = "overlaps (rb_data s) start final"
  have at: "rb_nodes s x = Some (cell par c (root_of r) (root_of l))" "rb_at (rb_nodes s) x l" "rb_at (rb_nodes s) x r"
    using Nd.prems(1) by auto
  have nz: "0 \<notin> set (addrs l)" "0 \<notin> set (addrs r)" using rb_at_nonzero at(2,3) by blast+
  obtain e where e: "?d x = Some e" using Nd.prems(3) by (auto simp: all_has_def it_has_def)
  have sub: "all_has it_has ?d u" "it_good ?d u" "starts_sorted ?d (addrs u)" if "u = l \<or> u = r" for u
    using that Nd.prems(3-5) by (auto simp: all_has_def starts_sorted_def sorted_wrt_append)
  have check: "child_reaches start (root_of u) s = Inr (\<exists>y\<in>set (addrs u). start \<le> last_of ?d y)"
    if "u = l \<or> u = r" for u
    by (rule child_reaches_tree) (use that sub [of u] nz in auto)
  have px: "?p x \<longleftrightarrow> start_of ?d x \<le> final \<and> start \<le> last_of ?d x" by (simp add: overlaps_def)
  have step: "it_subtree_search start final s x =
      (if \<exists>y\<in>set (addrs l). start \<le> last_of ?d y then it_subtree_search start final s (root_of l)
       else if start_of ?d x \<le> final then
         (if start \<le> last_of ?d x then ok x
          else if \<exists>y\<in>set (addrs r). start \<le> last_of ?d y then it_subtree_search start final s (root_of r) else ok 0)
       else ok 0)"
    using at(1) e it_val_entry [OF e]
    by (subst it_subtree_search.simps) (simp add: rb_get_Some check entry_Some)
  show ?case
  proof (cases "\<exists>y\<in>set (addrs l). start \<le> last_of ?d y")
    case True
    then obtain y where y: "y \<in> set (addrs l)" "start \<le> last_of ?d y" by blast
    then have "l \<noteq> Tip" by auto
    moreover from this have "start \<le> it_val ?d (root_of l)" using reaches [OF sub(2,1) nz(1)] True by blast
    ultimately have IH: "it_subtree_search start final s (root_of l) = ok (first_of ?p (addrs l))"
      using Nd.IH(1) [OF at(2)] sub by blast
    have "first_of ?p (addrs l) = first_of ?p (addrs l @ x # addrs r)"
    proof (cases "\<exists>z\<in>set (addrs l). ?p z")
      case True
      then show ?thesis using first_of_some by metis
    next
      case False
      with y have "final < start_of ?d y" by (auto simp: overlaps_def)
      moreover have "start_of ?d y \<le> start_of ?d z" if "z \<in> set (x # addrs r)" for z
        using that starts_sorted_append [of ?d "addrs l" x "addrs r"] Nd.prems(5) y(1) by (auto intro: order_trans)
      ultimately have "\<not> ?p z" if "z \<in> set (addrs l @ x # addrs r)" for z
        using that False by (fastforce simp: overlaps_def)
      then show ?thesis using False by (simp add: first_of_zero del: set_append list.set)
    qed
    with True step IH show ?thesis by simp
  next
    case False
    then have l: "first_of ?p (addrs l @ x # addrs r) = first_of ?p (x # addrs r)"
      by (intro first_of_none) (auto simp: overlaps_def)
    show ?thesis
    proof (cases "start_of ?d x \<le> final \<and> \<not> start \<le> last_of ?d x")
      case True
      show ?thesis
      proof (cases "\<exists>y\<in>set (addrs r). start \<le> last_of ?d y")
        case in_r: True
        then have "r \<noteq> Tip" by auto
        moreover from this have "start \<le> it_val ?d (root_of r)" using reaches [of ?d r] sub [of r] nz(2) in_r by blast
        ultimately have "it_subtree_search start final s (root_of r) = ok (first_of ?p (addrs r))"
          using Nd.IH(2) [OF at(3)] sub by blast
        with False True in_r step l show ?thesis by (simp add: px)
      next
        case not_r: False
        then have "first_of ?p (addrs r) = 0" by (intro first_of_zero) (auto simp: overlaps_def)
        with False True not_r step l show ?thesis by (simp add: px)
      qed
    next
      case stop: False
      show ?thesis
      proof (cases "start_of ?d x \<le> final")
        case True
        with stop False step l show ?thesis by (simp add: px)
      next
        case after: False
        have "\<not> ?p z" if "z \<in> set (addrs r)" for z
          using that after starts_sorted_append(1) [of ?d "addrs l" x "addrs r" z] Nd.prems(5) by (auto simp: overlaps_def)
        then have "first_of ?p (addrs r) = 0" by (rule first_of_zero)
        with False after step l show ?thesis by (simp add: px)
      qed
    qed
  qed
qed simp

lemma it_iter_first_overlap:
  assumes "it_tree s t"
  shows "it_iter_first start final s = ok (first_of (overlaps (rb_data s) start final) (addrs t))"
proof (cases "t = Tip")
  case True
  with assms show ?thesis by (simp add: it_iter_first_def it_tree_def rb_tree_def)
next
  case False
  let ?d = "rb_data s" and ?p = "overlaps (rb_data s) start final"
  have at: "rb_root s = root_of t" "rb_at (rb_nodes s) 0 t" and has: "all_has it_has ?d t" and g: "it_good ?d t"
    and so: "starts_sorted ?d (addrs t)" and ca: "cached s t"
    using assms by (simp_all add: it_tree_def rb_tree_def)
  have nz: "0 \<notin> set (addrs t)" using at(2) by (rule rb_at_nonzero)
  have root: "root_of t \<noteq> 0" "root_of t \<in> set (addrs t)" using False nz by (cases t; auto)+
  obtain y ys where ys: "addrs t = y # ys" using root(2) by (cases "addrs t") auto
  then have lm: "rb_leftmost s = y" using ca by (simp add: cached_def)
  obtain e f where e: "?d (root_of t) = Some e" "?d y = Some f"
    using has root(2) ys by (fastforce simp: all_has_def it_has_def)
  have step: "it_iter_first start final s =
      (if it_val ?d (root_of t) < start then ok 0 else if final < start_of ?d y then ok 0
       else it_subtree_search start final s (root_of t))"
    using root at(1) lm e it_val_entry [OF e(1)] it_val_entry [OF e(2)]
    by (simp add: it_iter_first_def entry_Some)
  consider "it_val ?d (root_of t) < start" | "\<not> it_val ?d (root_of t) < start" "final < start_of ?d y"
    | "\<not> it_val ?d (root_of t) < start" "\<not> final < start_of ?d y" by blast
  then show ?thesis
  proof cases
    case 1
    then have "\<not> ?p z" if "z \<in> set (addrs t)" for z
      using that reaches [OF g has nz False, of start] by (auto simp: overlaps_def)
    with 1 step show ?thesis by (simp add: first_of_zero)
  next
    case 2
    then have "\<not> ?p z" if "z \<in> set (addrs t)" for z
      using that so starts_sorted_append(1) [of ?d "[]" y ys z] by (auto simp: ys overlaps_def)
    with 2 step show ?thesis by (simp add: first_of_zero)
  next
    case 3
    with step it_subtree_search_first [OF at(2) False has g so] show ?thesis by simp
  qed
qed

subsection \<open>The next interval\<close>

text \<open>Climbing leaves the right turns of the path behind.\<close>

fun climbed :: "path \<Rightarrow> path" where
  "climbed Top = Top"
| "climbed (Went_left x c r up) = Went_left x c r up"
| "climbed (Went_right l x c up) = climbed up"

lemma climbed_behind: "behind (climbed P) = behind P"
  by (induction P) auto

lemma climbed_cases: "climbed P = Top \<or> (\<exists>x c r up. climbed P = Went_left x c r up)"
  by (induction P) auto

lemma climbed_plug: "\<exists>u. plug P t = plug (climbed P) u"
  by (induction P arbitrary: t) (auto intro: exI)

lemma size_climbed: "size (climbed P) \<le> size P"
  by (induction P) auto

lemma it_climb_path:
  assumes "path_at (rb_nodes s) 0 P x" "rb_nodes s x = Some (cell (above 0 P) c r l)" "x \<noteq> 0"
    "x \<notin> set (before P @ behind P)" "distinct (before P @ behind P)"
  shows "it_climb s x = ok (case climbed P of Top \<Rightarrow> None | Went_left y c r up \<Rightarrow> Some (y, root_of r) | Went_right l y c up \<Rightarrow> None)"
  using assms
proof (induction P arbitrary: x c r l)
  case Top
  then show ?case by (subst it_climb.simps) (simp add: rb_parent_cell)
next
  case (Went_left y b t up)
  then have "rb_parent x s = Inr y" by (simp add: rb_parent_cell)
  moreover have "x \<noteq> root_of t" using Went_left.prems root_of_member [of t] by auto
  ultimately show ?case using Went_left.prems by (subst it_climb.simps) (simp add: rb_get_Some)
next
  case (Went_right t y b up)
  then have "rb_parent x s = Inr y" by (simp add: rb_parent_cell)
  then have "it_climb s x = it_climb s y" using Went_right.prems by (subst it_climb.simps) (simp add: rb_get_Some)
  also have "\<dots> = ok (case climbed up of Top \<Rightarrow> None | Went_left y c r up \<Rightarrow> Some (y, root_of r) | Went_right l y c up \<Rightarrow> None)"
    by (rule Went_right.IH) (use Went_right.prems in auto)
  finally show ?case by simp
qed

lemma it_next_loop_first:
  fixes s :: "('k :: linorder) it_mem"
  assumes "rb_tree s (plug P (Nd l x c r))" "all_has it_has (rb_data s) (plug P (Nd l x c r))"
    "it_good (rb_data s) (plug P (Nd l x c r))" "starts_sorted (rb_data s) (addrs (plug P (Nd l x c r)))"
  shows "it_next_loop start final s x (root_of r) = ok (first_of (overlaps (rb_data s) start final) (addrs r @ behind P))"
  using assms
proof (induction "size P" arbitrary: P l x c r rule: less_induct)
  case less
  let ?d = "rb_data s" and ?p = "overlaps (rb_data s) start final"
  have at: "path_at (rb_nodes s) 0 P x" "rb_nodes s x = Some (cell (above 0 P) c (root_of r) (root_of l))" "x \<noteq> 0"
      "rb_at (rb_nodes s) x r"
    using less.prems(1) by (auto simp: rb_tree_def rb_at_plug)
  have d: "distinct (before P @ addrs l @ x # addrs r @ behind P)" using less.prems(1) by (simp add: rb_tree_def)
  have r: "all_has it_has ?d r" "it_good ?d r" "starts_sorted ?d (addrs r)" "0 \<notin> set (addrs r)"
    using less.prems(2-4) rb_at_nonzero [OF at(4)] by (auto simp: all_has_def good_plug starts_sorted_def sorted_wrt_append)
  have check: "child_reaches start (root_of r) s = Inr (\<exists>y\<in>set (addrs r). start \<le> last_of ?d y)"
    by (rule child_reaches_tree [OF r(2,1,4)])
  have sorted: "starts_sorted ?d (addrs r @ behind P)"
    using less.prems(4) by (auto simp: starts_sorted_def sorted_wrt_append)
  show ?case
  proof (cases "\<exists>y\<in>set (addrs r). start \<le> last_of ?d y")
    case True
    then have "r \<noteq> Tip" by auto
    with True reaches [OF r(2,1,4)] have "start \<le> it_val ?d (root_of r)" by blast
    from it_subtree_search_first [OF at(4) \<open>r \<noteq> Tip\<close> r(1-3) this]
    have "it_next_loop start final s x (root_of r) = ok (first_of ?p (addrs r))"
      using check True by (subst it_next_loop.simps) simp
    moreover have "first_of ?p (addrs r @ behind P) = first_of ?p (addrs r)"
    proof (cases "\<exists>z\<in>set (addrs r). ?p z")
      case True
      then show ?thesis using first_of_some by metis
    next
      case none: False
      with True obtain y where y: "y \<in> set (addrs r)" "final < start_of ?d y" by (auto simp: overlaps_def)
      have "\<not> ?p z" if "z \<in> set (behind P)" for z
      proof -
        have "start_of ?d y \<le> start_of ?d z" using sorted y(1) that by (auto simp: starts_sorted_def sorted_wrt_append)
        with y(2) show ?thesis by (auto simp: overlaps_def)
      qed
      with none show ?thesis using first_of_none [of "addrs r" ?p "behind P"] by (simp add: first_of_zero)
    qed
    ultimately show ?thesis by simp
  next
    case False
    then have skip: "first_of ?p (addrs r @ behind P) = first_of ?p (behind P)"
      by (intro first_of_none) (auto simp: overlaps_def)
    have climb: "it_climb s x = ok (case climbed P of Top \<Rightarrow> None | Went_left y c r up \<Rightarrow> Some (y, root_of r) | Went_right l y c up \<Rightarrow> None)"
      by (rule it_climb_path [OF at(1-3)]) (use d in auto)
    from climbed_cases [of P] consider "climbed P = Top" | y b t up where "climbed P = Went_left y b t up" by blast
    then show ?thesis
    proof cases
      case 1
      then have "behind P = []" using climbed_behind [of P] by simp
      with 1 False check climb skip show ?thesis by (subst it_next_loop.simps) simp
    next
      case 2
      have bh: "behind P = y # addrs t @ behind up" using 2 climbed_behind [of P] by simp
      obtain u where u: "plug P (Nd l x c r) = plug up (Nd u y b t)"
        using climbed_plug [of P "Nd l x c r"] 2 by auto
      have "it_has ?d y" using less.prems(2) u by (simp add: all_has_def)
      then obtain e where e: "?d y = Some e" by (auto simp: it_has_def)
      have "size up < size P" using size_climbed [of P] 2 by simp
      then have IH: "it_next_loop start final s y (root_of t) = ok (first_of ?p (addrs t @ behind up))"
        using less.hyps [of up u y b t] less.prems u by simp
      have step: "it_next_loop start final s x (root_of r) =
          (if final < start_of ?d y then ok 0 else if start \<le> last_of ?d y then ok y
           else it_next_loop start final s y (root_of t))"
        using check False climb 2 e it_val_entry [OF e] by (subst it_next_loop.simps) (simp add: entry_Some)
      have py: "?p y \<longleftrightarrow> start_of ?d y \<le> final \<and> start \<le> last_of ?d y" by (simp add: overlaps_def)
      show ?thesis
      proof (cases "final < start_of ?d y")
        case True
        have "\<not> ?p z" if "z \<in> set (behind P)" for z
          using that True sorted starts_sorted_append(1) [of ?d "addrs r" y "addrs t @ behind up" z]
          by (auto simp: overlaps_def bh)
        with True step skip show ?thesis by (simp add: first_of_zero)
      next
        case False
        then have "start_of ?d y \<le> final" by simp
        with False step skip IH bh py show ?thesis by simp
      qed
    qed
  qed
qed

lemma it_iter_next_overlap:
  assumes "it_tree s t" "addrs t = xs @ x # ys"
  shows "it_iter_next x start final s = ok (first_of (overlaps (rb_data s) start final) ys)"
proof -
  have "x \<in> set (addrs t)" using assms(2) by simp
  then obtain P l c r where P: "t = plug P (Nd l x c r)" by (rule place_of)
  have t: "rb_tree s t" "distinct (addrs t)" using assms(1) by (simp_all add: it_tree_def rb_tree_def)
  then have "rb_nodes s x = Some (cell (above 0 P) c (root_of r) (root_of l))" by (simp add: P rb_tree_def rb_at_plug)
  moreover have "it_next_loop start final s x (root_of r) = ok (first_of (overlaps (rb_data s) start final) (addrs r @ behind P))"
    by (rule it_next_loop_first [of s P l x c r]) (use assms(1) in \<open>simp_all add: it_tree_def P\<close>)
  moreover have "addrs r @ behind P = ys"
  proof -
    have "(before P @ addrs l) @ x # (addrs r @ behind P) = xs @ x # ys" using assms(2) P by simp
    moreover have "x \<notin> set xs" using t(2) unfolding assms(2) by simp
    moreover have "x \<notin> set (before P @ addrs l)" using t(2) unfolding P by auto
    ultimately show ?thesis by (auto simp: append_eq_append_conv2 append_eq_Cons_conv Cons_eq_append_conv)
  qed
  ultimately show ?thesis by (simp add: it_iter_next_def rb_get_Some)
qed

text \<open>The loop over all overlapping intervals, and the nodes its body sees.\<close>

partial_function (option) it_visits ::
  "('k :: linorder) \<Rightarrow> 'k \<Rightarrow> 'k it_mem \<Rightarrow> u64 \<Rightarrow> u64 list \<Rightarrow> u64 list run" where
  "it_visits start final s node seen =
     (if node = 0 then ok seen
      else case it_iter_next node start final s of
             None \<Rightarrow> None
           | Some (Inl e) \<Rightarrow> Some (Inl e)
           | Some (Inr n) \<Rightarrow> it_visits start final s n (seen @ [node]))"

lemma it_visits_rest:
  assumes "it_tree s t" "addrs t = xs @ ys"
  shows "it_visits start final s (first_of (overlaps (rb_data s) start final) ys) seen =
    ok (seen @ filter (overlaps (rb_data s) start final) ys)"
  using assms(2)
proof (induction ys arbitrary: xs seen)
  case Nil
  then show ?case by (subst it_visits.simps) simp
next
  case (Cons y ys)
  let ?p = "overlaps (rb_data s) start final"
  have IH: "it_visits start final s (first_of ?p ys) seen' = ok (seen' @ filter ?p ys)" for seen'
    using Cons.IH [of "xs @ [y]"] Cons.prems by simp
  have "y \<noteq> 0" using assms(1) Cons.prems rb_at_nonzero [of "rb_nodes s" 0 t] by (auto simp: it_tree_def rb_tree_def)
  moreover have "it_iter_next y start final s = ok (first_of ?p ys)" by (rule it_iter_next_overlap [OF assms(1) Cons.prems])
  ultimately show ?case using IH by (cases "?p y") (simp_all add: it_visits.simps [of _ _ _ y])
qed

lemma it_visits_all:
  assumes "it_tree s t"
  shows "rbind (it_iter_first start final s) (\<lambda>node. it_visits start final s node []) =
    ok (filter (overlaps (rb_data s) start final) (addrs t))"
  using it_iter_first_overlap [OF assms] it_visits_rest [OF assms, of "[]"] by simp

subsection \<open>Insertion\<close>

text \<open>The path is right when a child with value \<open>v\<close> is at its end.\<close>

fun good_hole :: "('o \<Rightarrow> 'v option \<Rightarrow> 'v option \<Rightarrow> 'v) \<Rightarrow> (u64 \<Rightarrow> 'o) \<Rightarrow> (u64 \<Rightarrow> 'v) \<Rightarrow> path \<Rightarrow> 'v option \<Rightarrow> bool" where
  "good_hole calc own val Top v \<longleftrightarrow> True"
| "good_hole calc own val (Went_left x c r up) v \<longleftrightarrow> val x = calc (own x) v (child_val val (root_of r)) \<and>
     good_tree calc own val r \<and> good_hole calc own val up (Some (val x))"
| "good_hole calc own val (Went_right l x c up) v \<longleftrightarrow> val x = calc (own x) (child_val val (root_of l)) v \<and>
     good_tree calc own val l \<and> good_hole calc own val up (Some (val x))"

lemma good_hole_path:
  "0 \<notin> set (spine P) \<Longrightarrow> good_hole calc own val P (child_val val p) \<longleftrightarrow> good_path calc own val P p"
proof (induction P arbitrary: p)
  case (Went_left x c r up)
  from Went_left.IH [of x] Went_left.prems show ?case by (auto simp: right_at_def child_val_def)
next
  case (Went_right l x c up)
  from Went_right.IH [of x] Went_right.prems show ?case by (auto simp: right_at_def child_val_def)
qed simp

lemma good_hole_upd:
  assumes "x \<notin> set (before P) \<union> set (behind P)"
  shows "good_hole calc own (val(x := v)) P w = good_hole calc own val P w"
  using assms
proof (induction P arbitrary: w)
  case (Went_left y c r up)
  have off: "x \<noteq> y" "x \<notin> set (addrs r)" "x \<notin> set (before up) \<union> set (behind up)" using Went_left.prems by auto
  then have "child_val (val(x := v)) (root_of r) = child_val val (root_of r)" "(val(x := v)) y = val y"
    using root_of_member [of r] by (auto simp: child_val_def)
  with Went_left.IH [OF off(3)] good_tree_upd [OF off(2), of calc own val v] show ?case by (simp only: good_hole.simps)
next
  case (Went_right l y c up)
  have off: "x \<noteq> y" "x \<notin> set (addrs l)" "x \<notin> set (before up) \<union> set (behind up)" using Went_right.prems by auto
  then have "child_val (val(x := v)) (root_of l) = child_val val (root_of l)" "(val(x := v)) y = val y"
    using root_of_member [of l] by (auto simp: child_val_def)
  with Went_right.IH [OF off(3)] good_tree_upd [OF off(2), of calc own val v] show ?case by (simp only: good_hole.simps)
qed simp

definition with_last :: "'k :: linorder \<Rightarrow> 'k option \<Rightarrow> 'k" where
  "with_last final v = larger final v"

lemma calc_with_last:
  "it_calc i (Some (with_last a l)) r = max (it_calc i l r) a" "it_calc i l (Some (with_last a r)) = max (it_calc i l r) a"
  by (cases l; cases r; simp add: it_calc_def with_last_def ac_simps max.assoc max.commute max.left_commute)+

lemma rising_cong: "(\<And>y. y \<in> set ys \<Longrightarrow> f y = g y) \<Longrightarrow> rising f ys = rising g ys"
  by (induction ys) (auto simp: rising_def)

text \<open>The state of the insertion loop at the place \<open>P\<close> of the subtree \<open>t\<close>.\<close>

definition inserting :: "('k :: linorder) it_mem \<Rightarrow> 'k \<Rightarrow> path \<Rightarrow> rbt \<Rightarrow> bool" where
  "inserting s final P t \<longleftrightarrow> rb_tree s (plug P t) \<and> all_has it_has (rb_data s) (plug P t) \<and> it_good (rb_data s) t \<and>
     good_hole it_calc (it_own (rb_data s)) (it_val (rb_data s)) P
       (Some (with_last final (child_val (it_val (rb_data s)) (root_of t))))"

text \<open>One round: the value at the node is raised to the new end.\<close>

lemma raise_value:
  fixes s :: "('k :: linorder) it_mem"
  assumes "rb_data s x = Some e"
  obtains d where "(if it_subtree e < final then set_entry x (set_subtree final) s else Inr s) = Inr (upto_data s d)"
    "it_has d = it_has (rb_data s)" "it_own d = it_own (rb_data s)"
    "it_val d = (it_val (rb_data s))(x := max (it_val (rb_data s) x) final)"
proof (cases "it_subtree e < final")
  case True
  let ?d = "(rb_data s)(x \<mapsto> set_subtree final e)"
  show thesis
    by (rule that [of ?d])
      (use True assms it_update [of "rb_data s" x e, OF assms] it_val_entry [OF assms] in
        \<open>auto simp: set_entry_def entry_Some upto_data_def max_def\<close>)
next
  case False
  show thesis
    by (rule that [of "rb_data s"]) (use False it_val_entry [OF assms] in \<open>auto simp: upto_data_def max_def\<close>)
qed

lemma raised_step:
  assumes i: "inserting s final P (Nd l x c r)" and d: "it_has d = it_has (rb_data s)" "it_own d = it_own (rb_data s)"
    "it_val d = (it_val (rb_data s))(x := max (it_val (rb_data s) x) final)"
  shows "inserting (upto_data s d) final (Went_left x c r P) l" "inserting (upto_data s d) final (Went_right l x c P) r"
proof -
  have t: "rb_tree s (plug P (Nd l x c r))" using i by (simp add: inserting_def)
  have dist: "x \<notin> set (addrs l)" "x \<notin> set (addrs r)" "x \<notin> set (before P) \<union> set (behind P)"
    using t by (auto simp: rb_tree_def)
  have "x \<noteq> 0" using t by (auto simp: rb_tree_def rb_at_plug)
  have cv: "child_val (it_val d) (root_of l) = child_val (it_val (rb_data s)) (root_of l)"
      "child_val (it_val d) (root_of r) = child_val (it_val (rb_data s)) (root_of r)"
    using dist(1,2) root_of_member [of l] root_of_member [of r] by (auto simp: d(3) child_val_def)
  have v: "it_val (rb_data s) x = it_calc (it_own (rb_data s) x) (child_val (it_val (rb_data s)) (root_of l)) (child_val (it_val (rb_data s)) (root_of r))"
      "it_good (rb_data s) l" "it_good (rb_data s) r"
    using i by (simp_all add: inserting_def right_at_def)
  have "good_hole it_calc (it_own (rb_data s)) (it_val (rb_data s)) P (Some (max (it_val (rb_data s) x) final))"
    using i \<open>x \<noteq> 0\<close> by (simp add: inserting_def child_val_def with_last_def max.commute)
  then have up: "good_hole it_calc (it_own d) (it_val d) P (Some (it_val d x))"
    unfolding d(2,3) by (simp add: good_hole_upd [OF dist(3)])
  have g: "it_good d l" "it_good d r" using v(2,3) dist(1,2) by (simp_all add: d(2,3))
  have val: "it_val d x = max (it_calc (it_own d x) (child_val (it_val d) (root_of l)) (child_val (it_val d) (root_of r))) final"
    using v(1) unfolding cv d(2) by (simp add: d(3))
  have base: "rb_tree (upto_data s d) (plug P (Nd l x c r))" "all_has it_has d (plug P (Nd l x c r))"
    using i d(1) by (simp_all add: inserting_def rb_tree_def all_has_def)
  show "inserting (upto_data s d) final (Went_left x c r P) l"
    using base g up val by (simp add: inserting_def calc_with_last)
  show "inserting (upto_data s d) final (Went_right l x c P) r"
    using base g up val by (simp add: inserting_def calc_with_last)
qed

lemma it_insert_loop_place:
  fixes s :: "('k :: linorder) it_mem"
  assumes "inserting s final P t" "rising (\<lambda>y. start < start_of (rb_data s) y) (addrs (plug P t))"
    "add_place (\<lambda>y. start < start_of (rb_data s) y) P"
  shows "\<exists>Q d. it_insert_loop start final (link_of P) (above 0 P) (before P = []) s =
      ok (link_of Q, above 0 Q, before Q = [], upto_data s d) \<and> plug Q Tip = plug P t \<and>
      inserting (upto_data s d) final Q Tip \<and> add_place (\<lambda>y. start < start_of (rb_data s) y) Q \<and>
      it_own d = it_own (rb_data s) \<and> it_has d = it_has (rb_data s)"
  using assms
proof (induction t arbitrary: P s)
  case Tip
  then have "read_link (link_of P) s = Inr 0"
    by (intro read_link_of) (auto simp: inserting_def rb_tree_def rb_at_plug)
  with Tip show ?case
    by (intro exI [of _ P] exI [of _ "rb_data s"]) (simp add: it_insert_loop.simps upto_data_def)
next
  case (Nd l x c r)
  let ?lt = "\<lambda>y. start < start_of (rb_data s) y"
  have t: "rb_tree s (plug P (Nd l x c r))" using Nd.prems(1) by (simp add: inserting_def)
  then have link: "read_link (link_of P) s = Inr x" "x \<noteq> 0"
    by (auto intro!: read_link_of simp: rb_tree_def rb_at_plug)
  have hx: "it_has (rb_data s) x" using Nd.prems(1) by (simp add: inserting_def all_has_def)
  then obtain e where e: "rb_data s x = Some e" by (auto simp: it_has_def)
  obtain d where d: "(if it_subtree e < final then set_entry x (set_subtree final) s else Inr s) = Inr (upto_data s d)"
      "it_has d = it_has (rb_data s)" "it_own d = it_own (rb_data s)"
      "it_val d = (it_val (rb_data s))(x := max (it_val (rb_data s) x) final)"
    by (rule raise_value [OF e])
  note next_state = raised_step [OF Nd.prems(1) d(2-4)]
  have members: "it_has (rb_data s) y" if "y \<in> set (addrs (plug P (Nd l x c r)))" for y
    using Nd.prems(1) that by (auto simp: inserting_def all_has_def)
  have starts: "start_of d y = start_of (rb_data s) y" if "it_has (rb_data s) y" for y
    using that d(2,3) own_parts [of d y] own_parts [of "rb_data s" y] by (simp add: it_has_def fun_eq_iff)
  have same_rising: "rising (\<lambda>y. start < start_of d y) (addrs (plug P (Nd l x c r)))"
    using Nd.prems(2) rising_cong [of "addrs (plug P (Nd l x c r))" "\<lambda>y. start < start_of d y" ?lt] starts members by auto
  have step: "it_insert_loop start final (link_of P) (above 0 P) (before P = []) s =
      (if ?lt x
       then it_insert_loop start final (link_of (Went_left x c r P)) (above 0 (Went_left x c r P)) (before (Went_left x c r P) = []) (upto_data s d)
       else it_insert_loop start final (link_of (Went_right l x c P)) (above 0 (Went_right l x c P)) (before (Went_right l x c P) = []) (upto_data s d))"
    using link d(1) it_val_entry [OF e] by (subst it_insert_loop.simps) (simp add: entry_Some [OF e])
  have same_place: "add_place (\<lambda>y. start < start_of d y) Q = add_place ?lt Q"
    if "plug Q u = plug P (Nd l x c r)" for Q u
  proof -
    have "set (before Q) \<union> set (behind Q) \<subseteq> set (addrs (plug P (Nd l x c r)))" using that [symmetric] by auto
    then have "start_of d y = start_of (rb_data s) y" if "y \<in> set (before Q) \<union> set (behind Q)" for y
      using that by (intro starts members) blast
    then show ?thesis by (simp add: add_place_def)
  qed
  show ?case
  proof (cases "?lt x")
    case True
    have "add_place (\<lambda>y. start < start_of d y) (Went_left x c r P)"
      using rising_left [of ?lt P l x c r] Nd.prems(2,3) True same_place [of "Went_left x c r P" l] by simp
    from Nd.IH(1) [of "upto_data s d" "Went_left x c r P", OF next_state(1)] this same_rising
    obtain Q d' where "it_insert_loop start final (link_of (Went_left x c r P)) (above 0 (Went_left x c r P))
          (before (Went_left x c r P) = []) (upto_data s d) = ok (link_of Q, above 0 Q, before Q = [], upto_data s d')"
        "plug Q Tip = plug P (Nd l x c r)" "inserting (upto_data s d') final Q Tip"
        "add_place (\<lambda>y. start < start_of d y) Q" "it_own d' = it_own d" "it_has d' = it_has d"
      by auto
    with step True same_place [of Q Tip] d(2,3) show ?thesis by (intro exI [of _ Q] exI [of _ d']) simp
  next
    case False
    have "add_place (\<lambda>y. start < start_of d y) (Went_right l x c P)"
      using rising_right [of ?lt P l x c r] Nd.prems(2,3) False same_place [of "Went_right l x c P" r] by simp
    from Nd.IH(2) [of "upto_data s d" "Went_right l x c P", OF next_state(2)] this same_rising
    obtain Q d' where "it_insert_loop start final (link_of (Went_right l x c P)) (above 0 (Went_right l x c P))
          (before (Went_right l x c P) = []) (upto_data s d) = ok (link_of Q, above 0 Q, before Q = [], upto_data s d')"
        "plug Q Tip = plug P (Nd l x c r)" "inserting (upto_data s d') final Q Tip"
        "add_place (\<lambda>y. start < start_of d y) Q" "it_own d' = it_own d" "it_has d' = it_has d"
      by auto
    with step False same_place [of Q Tip] d(2,3) show ?thesis by (intro exI [of _ Q] exI [of _ d']) simp
  qed
qed

lemma set_insert_by: "set (insert_by f x ys) = insert x (set ys)"
proof -
  have "set (takeWhile (\<lambda>y. \<not> f y) ys) \<union> set (dropWhile (\<lambda>y. \<not> f y) ys) = set ys"
    by (metis set_append takeWhile_dropWhile_id)
  then show ?thesis by (auto simp: insert_by_def)
qed

lemma insert_by_sorted:
  assumes "starts_sorted d xs"
  shows "starts_sorted d (insert_by (\<lambda>y. start_of d x < start_of d y) x xs)"
  using assms
proof (induction xs)
  case (Cons y ys)
  show ?case
  proof (cases "start_of d x < start_of d y")
    case True
    with Cons.prems show ?thesis
      by (auto simp: insert_by_def starts_sorted_def intro: order_trans less_imp_le)
  next
    case False
    then have "insert_by (\<lambda>y. start_of d x < start_of d y) x (y # ys) = y # insert_by (\<lambda>y. start_of d x < start_of d y) x ys"
      by (simp add: insert_by_def)
    then show ?thesis using Cons False by (auto simp: starts_sorted_def set_insert_by)
  qed
qed (simp add: insert_by_def starts_sorted_def)

lemma starts_rising: "starts_sorted d xs \<Longrightarrow> rising (\<lambda>y. a < start_of d y) xs"
  by (induction xs) (auto simp: starts_sorted_def rising_def intro: less_le_trans)

lemma starts_cong: "it_own d = it_own d' \<Longrightarrow> it_has d y \<Longrightarrow> start_of d y = start_of d' y \<and> last_of d y = last_of d' y"
  by (drule fun_cong [of _ _ y], cases "d' y") (auto simp: it_own_def it_has_def start_of_def last_of_def)

lemma starts_sorted_cong:
  assumes "it_own d = it_own d'" "\<forall>y\<in>set ys. it_has d y"
  shows "starts_sorted d ys = starts_sorted d' ys"
  using assms(2) by (induction ys) (auto simp: starts_sorted_def starts_cong [OF assms(1)])

text \<open>
  Insertion hands \<open>__rb_insert_augmented\<close> the tree with the node at its place as a red leaf.
\<close>

lemma it_insert_tree:
  assumes t: "it_tree s t" "fresh_node node s t" "it_has (rb_data s) node"
  obtains P s' where "it_insert insert_aug node s = insert_aug node (rotate it_augment) s'" "plug P Tip = t"
    "it_tree s' (plug P (leaf node))" "it_own (rb_data s') = it_own (rb_data s)"
    "addrs (plug P (leaf node)) = insert_by (\<lambda>y. start_of (rb_data s) node < start_of (rb_data s) y) node (addrs t)"
proof -
  let ?lt = "\<lambda>y. start_of (rb_data s) node < start_of (rb_data s) y" and ?last = "last_of (rb_data s) node"
  have base: "rb_tree s t" "cached s t" "all_has it_has (rb_data s) t" "it_good (rb_data s) t" "starts_sorted (rb_data s) (addrs t)"
    using t(1) by (simp_all add: it_tree_def)
  obtain e where e: "rb_data s node = Some e" using t(3) by (auto simp: it_has_def)
  have "inserting s ?last Top t" using base by (simp add: inserting_def)
  moreover have "rising ?lt (addrs (plug Top t))" using starts_rising [OF base(5)] by simp
  moreover have "add_place ?lt Top" by (simp add: add_place_def)
  ultimately obtain P d where P: "it_insert_loop (start_of (rb_data s) node) ?last Root_link 0 True s =
        ok (link_of P, above 0 P, before P = [], upto_data s d)" "plug P Tip = t"
      "inserting (upto_data s d) ?last P Tip" "add_place ?lt P" "it_own d = it_own (rb_data s)" "it_has d = it_has (rb_data s)"
    using it_insert_loop_place [of s ?last Top t "start_of (rb_data s) node"] by auto
  obtain f where f: "d node = Some f" using P(6) t(3) by (metis it_has_def not_None_eq)
  let ?d = "d(node \<mapsto> set_subtree ?last f)"
  have d: "it_has ?d = it_has (rb_data s)" "it_own ?d = it_own (rb_data s)" "it_val ?d = (it_val d)(node := ?last)"
    using it_update [of d node f, OF f] P(5,6) by simp_all
  have off: "node \<notin> set (before P) \<union> set (behind P)" "node \<noteq> 0" using t(2) P(2) by (auto simp: fresh_node_def)
  obtain s1 where s1: "rb_link_node node (above 0 P) (link_of P) (upto_data s ?d) = Inr s1"
      "rb_tree s1 (plug P (leaf node))" "same_rest (upto_data s ?d) s1"
    using rb_link_node_tree [of "upto_data s ?d" P node] base(1) P(2) t(2) by (auto simp: rb_tree_def fresh_node_def)
  let ?s = "if before P = [] then s1\<lparr>rb_leftmost := node\<rparr> else s1"
  have data: "rb_data ?s = ?d" "rb_leftmost s1 = rb_leftmost s" using s1(3) by (simp_all add: same_rest_def)
  have "it_insert insert_aug node s = insert_aug node (rotate it_augment) ?s"
    using P(1) f s1(1) it_val_entry [OF e]
    by (simp add: it_insert_def entry_Some [OF e] set_entry_def entry_Some upto_data_def
        rb_insert_augmented_cached_def rb_insert_augmented_def)
  moreover have ad: "addrs (plug P (leaf node)) = insert_by ?lt node (addrs t)" using insert_at_place [OF P(4)] P(2) by simp
  moreover have "it_tree ?s (plug P (leaf node))"
  proof -
    have "rb_tree ?s (plug P (leaf node))" using s1(2) by (simp add: rb_tree_def)
    moreover have "cached ?s (plug P (leaf node))"
      using base(2) P(2) data(2) by (cases "before P") (auto simp: cached_def)
    moreover have has: "all_has it_has ?d (plug P (leaf node))"
      using base(3) P(2) t(3) d(1) by (auto simp: all_has_def)
    moreover have "it_good ?d (plug P (leaf node))"
    proof -
      have "good_hole it_calc (it_own d) (it_val d) P (Some ?last)"
        using P(3) by (simp add: inserting_def child_val_def with_last_def)
      then have "good_hole it_calc (it_own ?d) (it_val ?d) P (child_val (it_val ?d) node)"
        unfolding d(2,3) P(5) by (simp add: good_hole_upd [OF off(1)] child_val_def off(2))
      moreover have "0 \<notin> set (spine P)"
      proof -
        have "path_at (rb_nodes s) 0 P 0" using base(1) unfolding P(2) [symmetric] by (simp add: rb_tree_def rb_at_plug)
        from path_at_members [OF this, of 0] spine_nodes [of P] show ?thesis by auto
      qed
      ultimately have "good_path it_calc (it_own ?d) (it_val ?d) P node" by (simp add: good_hole_path)
      moreover have "it_own ?d node = Some (start_of (rb_data s) node, ?last)" using d(2) own_parts [of "rb_data s" node] e by simp
      then have "right_at it_calc (it_own ?d) (it_val ?d) node 0 0"
        by (simp add: right_at_def it_calc_def child_val_def d(3))
      ultimately show ?thesis by (simp add: good_plug)
    qed
    moreover have "starts_sorted ?d (addrs (plug P (leaf node)))"
    proof -
      have "starts_sorted (rb_data s) (addrs (plug P (leaf node)))" unfolding ad by (rule insert_by_sorted [OF base(5)])
      then show ?thesis using starts_sorted_cong [OF d(2)] has by (simp add: all_has_def)
    qed
    ultimately show ?thesis unfolding it_tree_def data(1) by blast
  qed
  moreover have "it_own (rb_data ?s) = it_own (rb_data s)" unfolding data(1) by (rule d(2))
  ultimately show thesis using P(2) that by blast
qed

subsection \<open>Removal\<close>

lemma cached_remove:
  assumes "rb_leftmost s = (case xs of [] \<Rightarrow> 0 | y # _ \<Rightarrow> y)" "distinct xs"
  shows "(if rb_leftmost s = x \<and> x \<in> set xs then next_in xs x else rb_leftmost s) = (case remove1 x xs of [] \<Rightarrow> 0 | y # _ \<Rightarrow> y)"
proof (cases xs)
  case (Cons y ys)
  then have y: "rb_leftmost s = y" using assms(1) by simp
  show ?thesis
  proof (cases "y = x")
    case True
    with Cons y show ?thesis by (cases ys) simp_all
  next
    case False
    with Cons y show ?thesis by simp
  qed
qed (use assms in simp)

lemma starts_sorted_remove: "starts_sorted d xs \<Longrightarrow> starts_sorted d (remove1 x xs)"
  by (induction xs) (auto simp: starts_sorted_def dest: notin_set_remove1 [rotated] in_set_remove1 [THEN iffD1, rotated]
      set_remove1_subset [THEN subsetD])

lemma it_remove_tree:
  assumes t: "it_tree s t" "x \<in> set (addrs t)" "steps_right next_node s t"
  obtains p s' t' where "it_remove erase_color next_node x s =
      (if p \<noteq> 0 then erase_color p (rotate it_augment) s' else ok s')"
    "it_tree s' t'" "addrs t' = remove1 x (addrs t)" "it_own (rb_data s') = it_own (rb_data s)"
    "balanced t \<longrightarrow> balance_after t' p"
proof -
  have base: "rb_tree s t" "cached s t" "all_has it_has (rb_data s) t" "it_good (rb_data s) t" "starts_sorted (rb_data s) (addrs t)"
    using t(1) by (simp_all add: it_tree_def)
  let ?s = "if rb_leftmost s = x then s\<lparr>rb_leftmost := next_in (addrs t) x\<rparr> else s"
  have data: "rb_data ?s = rb_data s" by simp
  obtain p s' t' where e: "erase_augmented it_augment x ?s = ok (p, s')" "rb_tree s' t'" "addrs t' = remove1 x (addrs t)"
      "it_own (rb_data s') = it_own (rb_data ?s)" "it_has (rb_data s') = it_has (rb_data ?s)" "it_good (rb_data s') t'"
      "rb_leftmost s' = rb_leftmost ?s" "balanced t \<longrightarrow> balance_after t' p"
    by (rule it.erase_tree [of ?s t x]) (use base t(2) in \<open>auto simp: rb_tree_def\<close>)
  have "it_remove erase_color next_node x s = (if p \<noteq> 0 then erase_color p (rotate it_augment) s' else ok s')"
    using t(2,3) e(1)
    by (auto simp: it_remove_def rb_erase_augmented_cached_def rb_erase_augmented_def steps_right_def)
  moreover have "it_tree s' t'"
  proof -
    have sub: "set (addrs t') \<subseteq> set (addrs t)" using e(3) set_remove1_subset by fastforce
    have "cached s' t'"
      using cached_remove [of s "addrs t" x] base(1,2) t(2) e(3,7) by (auto simp: cached_def rb_tree_def)
    moreover have has: "all_has it_has (rb_data s') t'" using base(3) sub e(5) data by (auto simp: all_has_def)
    moreover have "starts_sorted (rb_data s') (addrs t')"
    proof -
      have "starts_sorted (rb_data s) (addrs t')"
        unfolding e(3) by (rule starts_sorted_remove [OF base(5)])
      then show ?thesis using starts_sorted_cong [of "rb_data s'" "rb_data s"] has e(4) data by (simp add: all_has_def)
    qed
    ultimately show ?thesis using e(2,6) by (simp add: it_tree_def)
  qed
  ultimately show thesis using e(3,4,8) data that by metis
qed

end
