(* ===== verification/Tree_Claims.thy ===== *)
theory Tree_Claims
  imports Interval_Search
begin

text \<open>
  Properties of the red-black and interval trees, each with a witness on a tree of three
  intervals in memory.
\<close>

subsection \<open>A tree in memory\<close>

text \<open>The intervals 5..40, 10..20 and 15..30; the middle one is the black root.\<close>

definition three_nodes :: "u64 \<Rightarrow> rb_node option" where
  "three_nodes p = (if p = 0x1000 then Some (cell 0 True 0x3000 0x2000)
     else if p = 0x2000 then Some (cell 0x1000 False 0 0)
     else if p = 0x3000 then Some (cell 0x1000 False 0 0)
     else if p = 0x4000 then Some (cell 0 False 0 0) else None)"

definition three_intervals :: "u64 \<Rightarrow> nat interval option" where
  "three_intervals p = (if p = 0x1000 then Some \<lparr>it_start = 10, it_last = 20, it_subtree = 40\<rparr>
     else if p = 0x2000 then Some \<lparr>it_start = 5, it_last = 40, it_subtree = 40\<rparr>
     else if p = 0x3000 then Some \<lparr>it_start = 15, it_last = 30, it_subtree = 30\<rparr>
     else if p = 0x4000 then Some \<lparr>it_start = 12, it_last = 50, it_subtree = 0\<rparr> else None)"

definition three :: "nat it_mem" where
  "three = \<lparr>rb_root = 0x1000, rb_leftmost = 0x2000, rb_nodes = three_nodes, rb_data = three_intervals\<rparr>"

definition three_tree :: rbt where
  "three_tree = Nd (Nd Tip 0x2000 False Tip) 0x1000 True (Nd Tip 0x3000 False Tip)"

definition three_next :: "nat it_mem \<Rightarrow> u64 \<Rightarrow> u64 run" where
  "three_next s x = ok (next_in [0x2000, 0x1000, 0x3000] x)"

lemma three_addrs [simp]: "addrs three_tree = [0x2000, 0x1000, 0x3000]"
  by (simp add: three_tree_def)

lemma three_it_tree: "it_tree three three_tree"
  by (simp add: it_tree_def rb_tree_def cached_def all_has_def starts_sorted_def three_def three_nodes_def three_tree_def
      three_intervals_def it_has_def aligned_def right_at_def it_calc_def it_own_def it_val_def child_val_def start_of_def)

lemma three_rb_tree: "rb_tree three three_tree"
  using three_it_tree by (simp add: it_tree_def)

lemma three_steps: "steps_right (\<lambda>x s. ok (next_in [0x2000, 0x1000, 0x3000] x)) three three_tree"
  by (simp add: steps_right_def)

lemma three_balanced: "balanced three_tree"
  by (simp add: balanced_def three_tree_def)

lemma three_fresh: "fresh_node 0x4000 three three_tree"
  by (simp add: fresh_node_def aligned_def three_def three_nodes_def)

subsection \<open>Search and insertion\<close>

text \<open>Search in a red-black tree whose comparisons fall from left to right, whatever the shape: \<open>rb_find\<close>
  gives a node that compares equal exactly if there is one, \<open>rb_find_first\<close> the leftmost of them,
  and \<open>rb_for_each\<close> visits exactly those, in order, and ends.\<close>

theorem rb_search:
  assumes "rb_tree s t" "falling (cmp key) (addrs t)" "steps_right next_node s t"
  shows "(\<exists>y. rb_find cmp key s = ok y \<and>
      (if \<exists>z\<in>set (addrs t). cmp key z = 0 then y \<in> set (addrs t) \<and> cmp key y = 0 else y = 0)) \<and>
    rb_find_first cmp key s = ok (first_match (cmp key) (addrs t) 0) \<and>
    rb_for_each next_node cmp key s = ok (filter (\<lambda>y. cmp key y = 0) (addrs t))"
  using rb_find_loop_spec [of s 0 t cmp key] rb_find_first_loop_spec [of s 0 t cmp key 0]
    rb_for_each_spec [where cmp = cmp and key = key, OF assms(3,1,2)] assms(1,2)
  by (auto simp: rb_find_def rb_find_first_def rb_tree_def sought_def)

text \<open>The nodes at 0x1000 and 0x3000 compare equal.\<close>

theorem rb_search_witness:
  "rb_for_each (\<lambda>x s. ok (next_in [0x2000, 0x1000, 0x3000] x)) (\<lambda>k y. if y = 0x2000 then 1 else 0) () three = ok [0x1000, 0x3000]"
proof -
  have "falling (\<lambda>y. if y = 0x2000 then 1 else 0) (addrs three_tree)" by (simp add: falling_def)
  from rb_search [OF three_rb_tree, of "\<lambda>k y. if y = 0x2000 then 1 else 0" "()", OF this three_steps]
  show ?thesis by simp
qed

text \<open>
  What insertion makes of a balanced tree \<open>t\<close>: the node is a red leaf in the place \<open>P\<close> of \<open>t\<close>; the black
  heights stay even, the height of the tree is what it was, and with the new node black no two red nodes would
  be above each other.
\<close>

definition red_leaf_at :: "rbt \<Rightarrow> u64 \<Rightarrow> path \<Rightarrow> bool" where
  "red_leaf_at t node P \<longleftrightarrow> plug P Tip = t \<and> even_heights (plug P (leaf node)) \<and>
     black_height (plug P (leaf node)) = black_height t \<and> no_red_red (plug P (Nd Tip node True Tip))"

lemma plug_black_height: "black_height t' = black_height t \<Longrightarrow> black_height (plug P t') = black_height (plug P t)"
  by (induction P arbitrary: t t') auto

lemma balanced_red_leaf: "balanced t \<Longrightarrow> plug P Tip = t \<Longrightarrow> red_leaf_at t node P"
  using new_leaf_even [of P t node] plug_no_red_red [of P Tip "Nd Tip node True Tip"] plug_black_height [of "leaf node" Tip P]
  by (simp add: red_leaf_at_def balanced_def)

text \<open>C20: Insertion in a red-black tree: \<open>rb_add\<close> and \<open>rb_add_cached\<close> hand \<open>rb_insert_color\<close> a well-formed
  tree with the node as a red leaf behind everything it is not less than, with the cached
  leftmost node right, the black heights even and as they were and no two red nodes above each
  other but at the new node; \<open>rb_find_add\<close> inserts so only if no node compares equal, and else gives one that does.\<close>

theorem rb_insertion:
  assumes "rb_tree s t" "fresh_node node s t" "rising (lt node) (addrs t)" "cached s t" "falling (cmp node) (addrs t)" "balanced t"
  shows "(\<exists>P s'. rb_add color lt node s = color node s' \<and> rb_tree s' (plug P (leaf node)) \<and>
      addrs (plug P (leaf node)) = insert_by (lt node) node (addrs t) \<and> red_leaf_at t node P) \<and>
    (\<exists>P s'. rb_add_cached color lt node s = rbind (color node s') (\<lambda>s. ok (if before P = [] then node else 0, s)) \<and>
      rb_tree s' (plug P (leaf node)) \<and> cached s' (plug P (leaf node)) \<and>
      addrs (plug P (leaf node)) = insert_by (lt node) node (addrs t) \<and> red_leaf_at t node P) \<and>
    (if \<exists>y\<in>set (addrs t). cmp node y = 0
     then \<exists>y\<in>set (addrs t). cmp node y = 0 \<and> rb_find_add color cmp node s = ok (y, s)
     else \<exists>P s'. rb_find_add color cmp node s = rbind (color node s') (\<lambda>s. ok (0, s)) \<and>
       rb_tree s' (plug P (leaf node)) \<and> find_place (cmp node) P \<and> red_leaf_at t node P)"
proof (intro conjI)
  note red = balanced_red_leaf [OF assms(6), where node = node]
  show "\<exists>P s'. rb_add color lt node s = color node s' \<and> rb_tree s' (plug P (leaf node)) \<and>
      addrs (plug P (leaf node)) = insert_by (lt node) node (addrs t) \<and> red_leaf_at t node P"
    using rb_add_places [where lt = lt and node = node and insert_color = color, OF assms(1-3)] red by metis
  show "\<exists>P s'. rb_add_cached color lt node s = rbind (color node s') (\<lambda>s. ok (if before P = [] then node else 0, s)) \<and>
      rb_tree s' (plug P (leaf node)) \<and> cached s' (plug P (leaf node)) \<and>
      addrs (plug P (leaf node)) = insert_by (lt node) node (addrs t) \<and> red_leaf_at t node P"
    using rb_add_cached_places [where lt = lt and node = node and insert_color = color, OF assms(1-4)] red by metis
  show "if \<exists>y\<in>set (addrs t). cmp node y = 0
     then \<exists>y\<in>set (addrs t). cmp node y = 0 \<and> rb_find_add color cmp node s = ok (y, s)
     else \<exists>P s'. rb_find_add color cmp node s = rbind (color node s') (\<lambda>s. ok (0, s)) \<and>
       rb_tree s' (plug P (leaf node)) \<and> find_place (cmp node) P \<and> red_leaf_at t node P"
  proof (cases "\<exists>y\<in>set (addrs t). cmp node y = 0")
    case True
    with rb_find_add_places [where cmp = cmp and node = node and insert_color = color, OF assms(1,2,5)]
    have "\<exists>y\<in>set (addrs t). cmp node y = 0 \<and> rb_find_add color cmp node s = ok (y, s)" by blast
    with True show ?thesis by simp
  next
    case False
    with rb_find_add_places [where cmp = cmp and node = node and insert_color = color, OF assms(1,2,5)]
    have "\<exists>P s'. rb_find_add color cmp node s = rbind (color node s') (\<lambda>s. ok (0, s)) \<and>
       rb_tree s' (plug P (leaf node)) \<and> find_place (cmp node) P \<and> red_leaf_at t node P" using red by blast
    with False show ?thesis by simp
  qed
qed

theorem rb_insertion_witness:
  "\<exists>P s'. rb_add (\<lambda>x s. ok s) (\<lambda>a b. b = 0x3000) 0x4000 three = ok s' \<and> rb_tree s' (plug P (leaf 0x4000)) \<and>
     addrs (plug P (leaf 0x4000)) = [0x2000, 0x1000, 0x4000, 0x3000]"
proof -
  have "rising (\<lambda>b. b = 0x3000) (addrs three_tree)" by (simp add: rising_def)
  moreover have "cached three three_tree" using three_it_tree by (simp add: it_tree_def)
  moreover have "falling (\<lambda>y. if y = 0x3000 then - 1 else 1) (addrs three_tree)" by (simp add: falling_def)
  ultimately show ?thesis
    using rb_insertion [OF three_rb_tree three_fresh, of "\<lambda>a b. b = 0x3000" "\<lambda>a y. if y = 0x3000 then - 1 else 1" "\<lambda>x s. ok s"]
      three_balanced
    by (auto simp: insert_by_def)
qed

subsection \<open>Interval trees\<close>

text \<open>C19: Iteration over an interval tree, from \<open>iter_first\<close> by \<open>iter_next\<close>, ends and visits exactly the intervals that
  overlap the given one, in the order of their starts: the searches cut off by the largest
  end below a node and by the start lose none.\<close>

theorem interval_iteration:
  assumes "it_tree s t"
  shows "rbind (it_iter_first start final s) (\<lambda>node. it_visits start final s node []) =
    ok (filter (\<lambda>x. start_of (rb_data s) x \<le> final \<and> start \<le> last_of (rb_data s) x) (addrs t))"
  using it_visits_all [OF assms, of start final] unfolding overlaps_def .

theorem interval_iteration_witness:
  "rbind (it_iter_first 25 35 three) (\<lambda>node. it_visits 25 35 three node []) = ok [0x2000, 0x3000]"
  using interval_iteration [OF three_it_tree, of 25 35]
  by (simp add: start_of_def last_of_def three_def three_intervals_def)

text \<open>C15: Insertion in an interval tree: the tree handed to rebalancing is well formed with the node as a red leaf at its
  place by start (behind those that start equally early), every node knows the largest end below it, the leftmost node is
  cached, no interval has changed and the black heights are even and as they were.\<close>

theorem interval_insert:
  assumes "it_tree s t" "fresh_node node s t" "it_has (rb_data s) node" "balanced t"
  shows "\<exists>P s'. it_insert insert_aug node s = insert_aug node (rotate it_augment) s' \<and>
    it_tree s' (plug P (leaf node)) \<and> it_own (rb_data s') = it_own (rb_data s) \<and>
    addrs (plug P (leaf node)) = insert_by (\<lambda>y. start_of (rb_data s) node < start_of (rb_data s) y) node (addrs t) \<and>
    red_leaf_at t node P"
proof -
  obtain P s' where P: "it_insert insert_aug node s = insert_aug node (rotate it_augment) s'" "plug P Tip = t"
    "it_tree s' (plug P (leaf node))" "it_own (rb_data s') = it_own (rb_data s)"
    "addrs (plug P (leaf node)) = insert_by (\<lambda>y. start_of (rb_data s) node < start_of (rb_data s) y) node (addrs t)"
    by (rule it_insert_tree [OF assms(1-3)])
  then show ?thesis using balanced_red_leaf [OF assms(4) P(2)] by blast
qed

theorem interval_insert_witness:
  "\<exists>P s'. it_insert (\<lambda>x r s. ok s) 0x4000 three = ok s' \<and> it_tree s' (plug P (leaf 0x4000)) \<and>
     addrs (plug P (leaf 0x4000)) = [0x2000, 0x1000, 0x4000, 0x3000]"
proof -
  have h: "it_has (rb_data three) 0x4000" by (simp add: it_has_def three_def three_intervals_def)
  from interval_insert [OF three_it_tree three_fresh h three_balanced, of "\<lambda>x r s. ok s"] show ?thesis
    by (auto simp: insert_by_def start_of_def three_def three_intervals_def)
qed

text \<open>C18: Removal from an interval tree takes exactly the node out: the tree stays well formed, every node
  knows the largest end below it, the leftmost node is cached and no interval has changed; a
  red-black tree stays one, or \<open>__rb_erase_color\<close> is called with the parent of the one place
  that lacks a black node.\<close>

theorem interval_remove:
  assumes "it_tree s t" "x \<in> set (addrs t)" "steps_right next_node s t" "balanced t"
  shows "\<exists>p s' t'. it_remove erase_color next_node x s =
      (if p \<noteq> 0 then erase_color p (rotate it_augment) s' else ok s') \<and>
    it_tree s' t' \<and> addrs t' = remove1 x (addrs t) \<and> it_own (rb_data s') = it_own (rb_data s) \<and>
    (if p = 0 then balanced t'
     else \<exists>R. t' = plug R Tip \<and> above 0 R = p \<and> (\<forall>z. balanced (plug R (Nd Tip z True Tip))))"
proof -
  obtain p s' t' where r: "it_remove erase_color next_node x s =
      (if p \<noteq> 0 then erase_color p (rotate it_augment) s' else ok s')" "it_tree s' t'" "addrs t' = remove1 x (addrs t)"
    "it_own (rb_data s') = it_own (rb_data s)" "balanced t \<longrightarrow> balance_after t' p"
    by (rule it_remove_tree [OF assms(1-3)])
  from r(5) assms(4) have "balance_after t' p" by simp
  with r(1-4) show ?thesis unfolding balance_after_def short_below_def by blast
qed

theorem interval_remove_witness:
  "\<exists>p s' t'. it_tree s' t' \<and> addrs t' = [0x2000, 0x3000] \<and>
     it_remove (\<lambda>p r s. ok s) (\<lambda>x s. ok (next_in [0x2000, 0x1000, 0x3000] x)) 0x1000 three = ok s'"
  using interval_remove [OF three_it_tree _ three_steps three_balanced, of "0x1000" "\<lambda>p r s. ok s"] by auto

end
