(* ===== verification/Seqlock.thy ===== *)
theory Seqlock
  imports Atomic_Raw
begin

text \<open>
  Sequence counters (kheaders/include/linux/seqlock.h, seqlock\_types.h) as this build compiles
  them: no lock debugging, no PREEMPT\_RT, no KCSAN. The counter is \<open>unsigned\<close>, 32 bits, and
  wraps. Spinlock operations are arguments; \<open>None\<close> is one that does not return. The loop that
  waits for an even count takes the list of values it finds.
\<close>

subsection \<open>Counters\<close>

record seqcount =
  sequence :: u32

text \<open>The lock a counter is associated with; only a mutex is preemptible in this build.\<close>

datatype seq_kind = Seq_plain | Seq_raw_spinlock | Seq_spinlock | Seq_rwlock | Seq_mutex

definition seqcount_init :: "seqcount \<Rightarrow> seqcount" where
  "seqcount_init s = s\<lparr>sequence := 0\<rparr>"

definition SEQCNT_ZERO :: seqcount where
  "SEQCNT_ZERO = \<lparr>sequence = 0\<rparr>"

definition seqprop_sequence :: "seqcount \<Rightarrow> u32" where
  "seqprop_sequence s = fst (smp_load_acquire (sequence s))"

definition seqprop_preemptible :: "seq_kind \<Rightarrow> bool" where
  "seqprop_preemptible k \<longleftrightarrow> k = Seq_mutex"

fun read_seqcount_begin :: "u32 list \<Rightarrow> u32 option" where
  "read_seqcount_begin [] = None"
| "read_seqcount_begin (seq # later) = (if seq AND 1 \<noteq> 0 then read_seqcount_begin later else Some seq)"

definition raw_read_seqcount :: "seqcount \<Rightarrow> u32" where
  "raw_read_seqcount s = seqprop_sequence s"

definition raw_seqcount_try_begin :: "seqcount \<Rightarrow> bool \<times> u32" where
  "raw_seqcount_try_begin s = (let start = raw_read_seqcount s in (start AND 1 = 0, start))"

definition raw_seqcount_begin :: "seqcount \<Rightarrow> u32" where
  "raw_seqcount_begin s = raw_read_seqcount s AND NOT 1"

definition raw_read_seqcount_retry :: "seqcount \<Rightarrow> u32 \<Rightarrow> bool" where
  "raw_read_seqcount_retry s start \<longleftrightarrow> sequence s \<noteq> start"

definition read_seqcount_retry :: "seqcount \<Rightarrow> u32 \<Rightarrow> bool" where
  "read_seqcount_retry s start \<longleftrightarrow> raw_read_seqcount_retry s start"

definition do_raw_write_seqcount_begin :: "seqcount \<Rightarrow> seqcount" where
  "do_raw_write_seqcount_begin s = s\<lparr>sequence := sequence s + 1\<rparr>"

definition do_raw_write_seqcount_end :: "seqcount \<Rightarrow> seqcount" where
  "do_raw_write_seqcount_end s = s\<lparr>sequence := sequence s + 1\<rparr>"

text \<open>The macros, with the preemption count of the CPU.\<close>

definition raw_write_seqcount_begin :: "seq_kind \<Rightarrow> u32 \<times> seqcount \<Rightarrow> u32 \<times> seqcount" where
  "raw_write_seqcount_begin k = (\<lambda>(preempt, s).
     (if seqprop_preemptible k then preempt + 1 else preempt, do_raw_write_seqcount_begin s))"

definition raw_write_seqcount_end :: "seq_kind \<Rightarrow> u32 \<times> seqcount \<Rightarrow> u32 \<times> seqcount" where
  "raw_write_seqcount_end k = (\<lambda>(preempt, s).
     (if seqprop_preemptible k then preempt - 1 else preempt, do_raw_write_seqcount_end s))"

definition do_write_seqcount_begin_nested :: "seqcount \<Rightarrow> seqcount" where
  "do_write_seqcount_begin_nested s = do_raw_write_seqcount_begin s"

definition do_write_seqcount_begin :: "seqcount \<Rightarrow> seqcount" where
  "do_write_seqcount_begin s = do_write_seqcount_begin_nested s"

definition do_write_seqcount_end :: "seqcount \<Rightarrow> seqcount" where
  "do_write_seqcount_end s = do_raw_write_seqcount_end s"

definition write_seqcount_begin :: "seq_kind \<Rightarrow> u32 \<times> seqcount \<Rightarrow> u32 \<times> seqcount" where
  "write_seqcount_begin k = (\<lambda>(preempt, s).
     (if seqprop_preemptible k then preempt + 1 else preempt, do_write_seqcount_begin s))"

definition write_seqcount_end :: "seq_kind \<Rightarrow> u32 \<times> seqcount \<Rightarrow> u32 \<times> seqcount" where
  "write_seqcount_end k = (\<lambda>(preempt, s).
     (if seqprop_preemptible k then preempt - 1 else preempt, do_write_seqcount_end s))"

definition do_raw_write_seqcount_barrier :: "seqcount \<Rightarrow> seqcount" where
  "do_raw_write_seqcount_barrier s =
     (let s = s\<lparr>sequence := sequence s + 1\<rparr> in s\<lparr>sequence := sequence s + 1\<rparr>)"

definition do_write_seqcount_invalidate :: "seqcount \<Rightarrow> seqcount" where
  "do_write_seqcount_invalidate s = s\<lparr>sequence := sequence s + 2\<rparr>"

subsection \<open>Latches\<close>

definition raw_read_seqcount_latch :: "seqcount \<Rightarrow> u32" where
  "raw_read_seqcount_latch s = sequence s"

definition read_seqcount_latch :: "seqcount \<Rightarrow> u32" where
  "read_seqcount_latch s = raw_read_seqcount_latch s"

definition raw_read_seqcount_latch_retry :: "seqcount \<Rightarrow> u32 \<Rightarrow> bool" where
  "raw_read_seqcount_latch_retry s start \<longleftrightarrow> sequence s \<noteq> start"

definition read_seqcount_latch_retry :: "seqcount \<Rightarrow> u32 \<Rightarrow> bool" where
  "read_seqcount_latch_retry s start \<longleftrightarrow> raw_read_seqcount_latch_retry s start"

definition raw_write_seqcount_latch :: "seqcount \<Rightarrow> seqcount" where
  "raw_write_seqcount_latch s = s\<lparr>sequence := sequence s + 1\<rparr>"

definition write_seqcount_latch_begin :: "seqcount \<Rightarrow> seqcount" where
  "write_seqcount_latch_begin s = raw_write_seqcount_latch s"

definition write_seqcount_latch :: "seqcount \<Rightarrow> seqcount" where
  "write_seqcount_latch s = raw_write_seqcount_latch s"

definition write_seqcount_latch_end :: "seqcount \<Rightarrow> seqcount" where
  "write_seqcount_latch_end s = s"

subsection \<open>Sequence locks\<close>

record 'l seqlock =
  sl_seqcount :: seqcount
  sl_lock :: 'l

text \<open>An operation on the spinlock inside, and one that also gives the saved interrupt flags.\<close>

definition on_lock :: "('l \<Rightarrow> 'l option) \<Rightarrow> 'l seqlock \<Rightarrow> 'l seqlock option" where
  "on_lock op sl = map_option (\<lambda>l. sl\<lparr>sl_lock := l\<rparr>) (op (sl_lock sl))"

definition on_lock_flags :: "('l \<Rightarrow> (u64 \<times> 'l) option) \<Rightarrow> 'l seqlock \<Rightarrow> (u64 \<times> 'l seqlock) option" where
  "on_lock_flags op sl = map_option (\<lambda>(flags, l). (flags, sl\<lparr>sl_lock := l\<rparr>)) (op (sl_lock sl))"

definition on_count :: "(seqcount \<Rightarrow> seqcount) \<Rightarrow> 'l seqlock \<Rightarrow> 'l seqlock" where
  "on_count f sl = sl\<lparr>sl_seqcount := f (sl_seqcount sl)\<rparr>"

definition seqlock_init :: "('l \<Rightarrow> 'l option) \<Rightarrow> 'l seqlock \<Rightarrow> 'l seqlock option" where
  "seqlock_init spin_lock_init sl = map_option (on_count seqcount_init) (on_lock spin_lock_init sl)"

definition read_seqbegin :: "u32 list \<Rightarrow> u32 option" where
  "read_seqbegin found = read_seqcount_begin found"

definition read_seqretry :: "'l seqlock \<Rightarrow> u32 \<Rightarrow> bool" where
  "read_seqretry sl start = read_seqcount_retry (sl_seqcount sl) start"

definition write_seqlock :: "('l \<Rightarrow> 'l option) \<Rightarrow> 'l seqlock \<Rightarrow> 'l seqlock option" where
  "write_seqlock spin_lock sl = map_option (on_count do_write_seqcount_begin) (on_lock spin_lock sl)"

definition write_sequnlock :: "('l \<Rightarrow> 'l option) \<Rightarrow> 'l seqlock \<Rightarrow> 'l seqlock option" where
  "write_sequnlock spin_unlock sl = on_lock spin_unlock (on_count do_write_seqcount_end sl)"

definition write_seqlock_bh :: "('l \<Rightarrow> 'l option) \<Rightarrow> 'l seqlock \<Rightarrow> 'l seqlock option" where
  "write_seqlock_bh spin_lock_bh sl = map_option (on_count do_write_seqcount_begin) (on_lock spin_lock_bh sl)"

definition write_sequnlock_bh :: "('l \<Rightarrow> 'l option) \<Rightarrow> 'l seqlock \<Rightarrow> 'l seqlock option" where
  "write_sequnlock_bh spin_unlock_bh sl = on_lock spin_unlock_bh (on_count do_write_seqcount_end sl)"

definition write_seqlock_irq :: "('l \<Rightarrow> 'l option) \<Rightarrow> 'l seqlock \<Rightarrow> 'l seqlock option" where
  "write_seqlock_irq spin_lock_irq sl = map_option (on_count do_write_seqcount_begin) (on_lock spin_lock_irq sl)"

definition write_sequnlock_irq :: "('l \<Rightarrow> 'l option) \<Rightarrow> 'l seqlock \<Rightarrow> 'l seqlock option" where
  "write_sequnlock_irq spin_unlock_irq sl = on_lock spin_unlock_irq (on_count do_write_seqcount_end sl)"

definition write_seqlock_irqsave :: "('l \<Rightarrow> (u64 \<times> 'l) option) \<Rightarrow> 'l seqlock \<Rightarrow> (u64 \<times> 'l seqlock) option" where
  "write_seqlock_irqsave spin_lock_irqsave sl =
     map_option (\<lambda>(flags, sl). (flags, on_count do_write_seqcount_begin sl)) (on_lock_flags spin_lock_irqsave sl)"

definition write_sequnlock_irqrestore :: "(u64 \<Rightarrow> 'l \<Rightarrow> 'l option) \<Rightarrow> 'l seqlock \<Rightarrow> u64 \<Rightarrow> 'l seqlock option" where
  "write_sequnlock_irqrestore spin_unlock_irqrestore sl flags =
     on_lock (spin_unlock_irqrestore flags) (on_count do_write_seqcount_end sl)"

definition read_seqlock_excl :: "('l \<Rightarrow> 'l option) \<Rightarrow> 'l seqlock \<Rightarrow> 'l seqlock option" where
  "read_seqlock_excl spin_lock sl = on_lock spin_lock sl"

definition read_sequnlock_excl :: "('l \<Rightarrow> 'l option) \<Rightarrow> 'l seqlock \<Rightarrow> 'l seqlock option" where
  "read_sequnlock_excl spin_unlock sl = on_lock spin_unlock sl"

definition read_seqlock_excl_bh :: "('l \<Rightarrow> 'l option) \<Rightarrow> 'l seqlock \<Rightarrow> 'l seqlock option" where
  "read_seqlock_excl_bh spin_lock_bh sl = on_lock spin_lock_bh sl"

definition read_sequnlock_excl_bh :: "('l \<Rightarrow> 'l option) \<Rightarrow> 'l seqlock \<Rightarrow> 'l seqlock option" where
  "read_sequnlock_excl_bh spin_unlock_bh sl = on_lock spin_unlock_bh sl"

definition read_seqlock_excl_irq :: "('l \<Rightarrow> 'l option) \<Rightarrow> 'l seqlock \<Rightarrow> 'l seqlock option" where
  "read_seqlock_excl_irq spin_lock_irq sl = on_lock spin_lock_irq sl"

definition read_sequnlock_excl_irq :: "('l \<Rightarrow> 'l option) \<Rightarrow> 'l seqlock \<Rightarrow> 'l seqlock option" where
  "read_sequnlock_excl_irq spin_unlock_irq sl = on_lock spin_unlock_irq sl"

definition read_seqlock_excl_irqsave :: "('l \<Rightarrow> (u64 \<times> 'l) option) \<Rightarrow> 'l seqlock \<Rightarrow> (u64 \<times> 'l seqlock) option" where
  "read_seqlock_excl_irqsave spin_lock_irqsave sl = on_lock_flags spin_lock_irqsave sl"

definition read_sequnlock_excl_irqrestore :: "(u64 \<Rightarrow> 'l \<Rightarrow> 'l option) \<Rightarrow> 'l seqlock \<Rightarrow> u64 \<Rightarrow> 'l seqlock option" where
  "read_sequnlock_excl_irqrestore spin_unlock_irqrestore sl flags = on_lock (spin_unlock_irqrestore flags) sl"

text \<open>
  A pass without the lock when \<open>*seq\<close> is even, with it when odd: the result is the new \<open>*seq\<close>
  and the lock.
\<close>

definition read_seqbegin_or_lock :: "('l \<Rightarrow> 'l option) \<Rightarrow> u32 list \<Rightarrow> u32 \<Rightarrow> 'l seqlock \<Rightarrow> (u32 \<times> 'l seqlock) option" where
  "read_seqbegin_or_lock spin_lock found seq sl =
     (if seq AND 1 = 0 then map_option (\<lambda>seq. (seq, sl)) (read_seqbegin found)
      else map_option (\<lambda>sl. (seq, sl)) (read_seqlock_excl spin_lock sl))"

definition need_seqretry :: "'l seqlock \<Rightarrow> u32 \<Rightarrow> bool" where
  "need_seqretry sl seq \<longleftrightarrow> seq AND 1 = 0 \<and> read_seqretry sl seq"

definition done_seqretry :: "('l \<Rightarrow> 'l option) \<Rightarrow> 'l seqlock \<Rightarrow> u32 \<Rightarrow> 'l seqlock option" where
  "done_seqretry spin_unlock sl seq = (if seq AND 1 \<noteq> 0 then read_sequnlock_excl spin_unlock sl else Some sl)"

definition read_seqbegin_or_lock_irqsave ::
  "('l \<Rightarrow> (u64 \<times> 'l) option) \<Rightarrow> u32 list \<Rightarrow> u32 \<Rightarrow> 'l seqlock \<Rightarrow> (u64 \<times> u32 \<times> 'l seqlock) option" where
  "read_seqbegin_or_lock_irqsave spin_lock_irqsave found seq sl =
     (if seq AND 1 = 0 then map_option (\<lambda>seq. (0, seq, sl)) (read_seqbegin found)
      else map_option (\<lambda>(flags, sl). (flags, seq, sl)) (read_seqlock_excl_irqsave spin_lock_irqsave sl))"

definition done_seqretry_irqrestore :: "(u64 \<Rightarrow> 'l \<Rightarrow> 'l option) \<Rightarrow> 'l seqlock \<Rightarrow> u32 \<Rightarrow> u64 \<Rightarrow> 'l seqlock option" where
  "done_seqretry_irqrestore spin_unlock_irqrestore sl seq flags =
     (if seq AND 1 \<noteq> 0 then read_sequnlock_excl_irqrestore spin_unlock_irqrestore sl flags else Some sl)"

end
