(* ===== verification/Seq_Race.thy ===== *)
theory Seq_Race
  imports Seqlock
begin

text \<open>
  Sequence counters under races: one writer at a time (the callers' lock serialises them) and any
  number of readers, an access at a time. A reader takes an even count, loads what it wants of
  the data, and asks \<open>read_seqcount_retry\<close>; the writer's stores come between the increments of
  \<open>do_raw_write_seqcount_begin\<close> and \<open>do_raw_write_seqcount_end\<close>. What readers rely on: data that
  is not thrown away is the data of one moment at which no writer was inside.
\<close>

subsection \<open>Parity of a counter\<close>

lemma and_one_even: "(w :: u32) AND 1 = 0 \<longleftrightarrow> even w"
  by (simp add: and_one_eq even_iff_mod_2_eq_zero)

lemma even_plus_one: "even ((w :: u32) + 1) \<longleftrightarrow> odd w"
  by (simp add: even_word_iff [symmetric] bit_simps)

text \<open>A count seen again after fewer than \<open>2 ^ 32\<close> increments was not incremented.\<close>

lemma same_count:
  assumes "(c :: u32) + word_of_nat n = c" "n < 2 ^ 32"
  shows "n = 0"
proof -
  have "(word_of_nat n :: u32) = 0" using assms(1) by simp
  then have "unat (word_of_nat n :: u32) = 0" by simp
  with assms(2) show ?thesis by (simp add: unat_of_nat)
qed

subsection \<open>Steps\<close>

datatype seq_writer = Outside_section | In_section

datatype 'v seq_reader = Not_reading | Reading u32 "(nat \<times> 'v) list"

datatype 'v seq_event = Quiet | Counted nat | Began nat | Accepted nat "(nat \<times> 'v) list"

record 'v seq_race =
  counter :: seqcount
  cells :: "nat \<Rightarrow> 'v"
  section_of :: seq_writer
  reading :: "nat \<Rightarrow> 'v seq_reader"

definition set_reader :: "nat \<Rightarrow> 'v seq_reader \<Rightarrow> 'v seq_race \<Rightarrow> 'v seq_race" where
  "set_reader r ph s = s\<lparr>reading := (reading s)(r := ph)\<rparr>"

inductive seq_step :: "'v seq_race \<Rightarrow> 'v seq_event \<Rightarrow> 'v seq_race \<Rightarrow> bool" where
  write_begin: "section_of s = Outside_section \<Longrightarrow>
     seq_step s (Counted 1) (s\<lparr>counter := do_raw_write_seqcount_begin (counter s), section_of := In_section\<rparr>)"
| store: "section_of s = In_section \<Longrightarrow> seq_step s Quiet (s\<lparr>cells := (cells s)(i := v)\<rparr>)"
| write_end: "section_of s = In_section \<Longrightarrow>
     seq_step s (Counted 1) (s\<lparr>counter := do_raw_write_seqcount_end (counter s), section_of := Outside_section\<rparr>)"
| invalidate: "section_of s = Outside_section \<Longrightarrow>
     seq_step s (Counted 2) (s\<lparr>counter := do_write_seqcount_invalidate (counter s)\<rparr>)"
| wait: "reading s r = Not_reading \<Longrightarrow> read_seqcount_begin [seqprop_sequence (counter s)] = None \<Longrightarrow> seq_step s Quiet s"
| read_begin: "reading s r = Not_reading \<Longrightarrow> read_seqcount_begin [seqprop_sequence (counter s)] = Some c \<Longrightarrow>
     seq_step s (Began r) (set_reader r (Reading c []) s)"
| read: "reading s r = Reading c obs \<Longrightarrow> seq_step s Quiet (set_reader r (Reading c (obs @ [(i, cells s i)])) s)"
| retry: "reading s r = Reading c obs \<Longrightarrow> read_seqcount_retry (counter s) c \<Longrightarrow>
     seq_step s Quiet (set_reader r Not_reading s)"
| accept: "reading s r = Reading c obs \<Longrightarrow> \<not> read_seqcount_retry (counter s) c \<Longrightarrow>
     seq_step s (Accepted r obs) (set_reader r Not_reading s)"

text \<open>A run with its trace: every event with the state it led to.\<close>

type_synonym 'v seq_trace = "('v seq_event \<times> 'v seq_race) list"

inductive seq_run :: "'v seq_race \<Rightarrow> 'v seq_trace \<Rightarrow> 'v seq_race \<Rightarrow> bool" where
  none: "seq_run s [] s"
| more: "seq_run s tr s' \<Longrightarrow> seq_step s' e s'' \<Longrightarrow> seq_run s (tr @ [(e, s'')]) s''"

fun increments :: "'v seq_trace \<Rightarrow> nat" where
  "increments [] = 0"
| "increments ((Counted n, s) # tr) = n + increments tr"
| "increments (_ # tr) = increments tr"

lemma increments_append: "increments (xs @ ys) = increments xs + increments ys"
  by (induction xs rule: increments.induct) auto

subsection \<open>Accepted reads are snapshots\<close>

lemma begin_even: "read_seqcount_begin [w] = Some c \<longleftrightarrow> c = w \<and> even w"
  by (auto simp: and_one_even)

definition parity_ok :: "'v seq_race \<Rightarrow> bool" where
  "parity_ok s \<longleftrightarrow> (section_of s = Outside_section \<longleftrightarrow> even (sequence (counter s)))"

lemmas count_defs = do_raw_write_seqcount_begin_def do_raw_write_seqcount_end_def do_write_seqcount_invalidate_def
  seqprop_sequence_def smp_load_acquire_def set_reader_def

lemma step_parity: "seq_step s e s' \<Longrightarrow> parity_ok s \<Longrightarrow> parity_ok s'"
  by (induction rule: seq_step.induct) (auto simp: parity_ok_def count_defs even_plus_one)

lemma step_count: "seq_step s e s' \<Longrightarrow> sequence (counter s') = sequence (counter s) + word_of_nat (increments [(e, s')])"
  by (induction rule: seq_step.induct) (auto simp: count_defs)

text \<open>Without an increment a step from outside a section leaves the data alone.\<close>

lemma step_keeps_cells:
  "seq_step s e s' \<Longrightarrow> increments [(e, s')] = 0 \<Longrightarrow> section_of s = Outside_section \<Longrightarrow>
   cells s' = cells s \<and> section_of s' = Outside_section"
  by (induction rule: seq_step.induct) (auto simp: set_reader_def)

definition taken_from :: "'v seq_race \<Rightarrow> (nat \<times> 'v) list \<Rightarrow> bool" where
  "taken_from s obs \<longleftrightarrow> (\<forall>(i, v)\<in>set obs. v = cells s i)"

text \<open>Where a reader's data is from, as long as nothing was counted since it began at \<open>s1\<close>.\<close>

definition untouched :: "'v seq_race \<Rightarrow> 'v seq_trace \<Rightarrow> (nat \<times> 'v) list \<Rightarrow> 'v seq_race \<Rightarrow> bool" where
  "untouched s1 tr2 obs s \<longleftrightarrow> cells s = cells s1 \<and> section_of s = Outside_section \<and> taken_from s1 obs \<and>
     (\<forall>(e, s')\<in>set tr2. cells s' = cells s1)"

definition read_since :: "'v seq_race \<Rightarrow> 'v seq_trace \<Rightarrow> 'v seq_race \<Rightarrow> nat \<Rightarrow> u32 \<Rightarrow> (nat \<times> 'v) list \<Rightarrow> bool" where
  "read_since s1 tr2 s r c obs \<longleftrightarrow> Began r \<notin> fst ` set tr2 \<and> section_of s1 = Outside_section \<and>
     sequence (counter s) = c + word_of_nat (increments tr2) \<and> (increments tr2 = 0 \<longrightarrow> untouched s1 tr2 obs s)"

definition began_at :: "'v seq_trace \<Rightarrow> 'v seq_race \<Rightarrow> nat \<Rightarrow> u32 \<Rightarrow> (nat \<times> 'v) list \<Rightarrow> bool" where
  "began_at tr s r c obs \<longleftrightarrow> (\<exists>tr1 s1 tr2. tr = tr1 @ (Began r, s1) # tr2 \<and> read_since s1 tr2 s r c obs)"

lemma read_since_step:
  assumes "read_since s1 tr2 s r c obs" "seq_step s e s'" "e \<noteq> Began r"
  shows "read_since s1 (tr2 @ [(e, s')]) s' r c obs"
proof -
  have "increments (tr2 @ [(e, s')]) = 0 \<longrightarrow> untouched s1 (tr2 @ [(e, s')]) obs s'"
    using assms(1) step_keeps_cells [OF assms(2)] by (simp add: read_since_def untouched_def increments_append)
  then show ?thesis
    using assms(1,3) step_count [OF assms(2)] by (simp add: read_since_def increments_append image_Un)
qed

lemma began_at_step:
  assumes "began_at tr s r c obs" "seq_step s e s'" "e \<noteq> Began r"
  shows "began_at (tr @ [(e, s')]) s' r c obs"
proof -
  obtain tr1 s1 tr2 where "tr = tr1 @ (Began r, s1) # tr2" "read_since s1 tr2 s r c obs"
    using assms(1) by (auto simp: began_at_def)
  then show ?thesis using read_since_step [OF _ assms(2,3), of s1 tr2 c obs] unfolding began_at_def
    by (intro exI [of _ tr1] exI [of _ s1] exI [of _ "tr2 @ [(e, s')]"]) simp
qed

lemma began_at_read: "began_at tr s r c obs \<Longrightarrow> began_at tr s r c (obs @ [(i, cells s i)])"
proof -
  have "read_since s1 tr2 s r c obs \<Longrightarrow> read_since s1 tr2 s r c (obs @ [(i, cells s i)])" for s1 tr2
    by (auto simp: read_since_def untouched_def taken_from_def)
  then show "began_at tr s r c obs \<Longrightarrow> began_at tr s r c (obs @ [(i, cells s i)])"
    unfolding began_at_def by blast
qed

definition readers_ok :: "'v seq_trace \<Rightarrow> 'v seq_race \<Rightarrow> bool" where
  "readers_ok tr s \<longleftrightarrow> (\<forall>r c obs. reading s r = Reading c obs \<longrightarrow> began_at tr s r c obs)"

lemma step_readers:
  assumes "seq_step s e s'" "readers_ok tr s" "parity_ok s"
  shows "readers_ok (tr @ [(e, s')]) s'"
  unfolding readers_ok_def
proof (intro allI impI)
  fix r c obs
  assume now: "reading s' r = Reading c obs"
  have old: "began_at (tr @ [(e, s')]) s' r c' obs'" if "reading s r = Reading c' obs'" "e \<noteq> Began r" for c' obs'
    using began_at_step [OF _ assms(1) that(2)] assms(2) that(1) by (auto simp: readers_ok_def)
  show "began_at (tr @ [(e, s')]) s' r c obs"
  proof (cases "e = Began r")
    case True
    then have b: "section_of s = Outside_section" "c = sequence (counter s)" "obs = []" "s' = set_reader r (Reading c []) s"
      using assms(1,3) now by (auto elim!: seq_step.cases simp: parity_ok_def begin_even seqprop_sequence_def smp_load_acquire_def
          set_reader_def and_one_even split: if_splits)
    then show ?thesis
      unfolding began_at_def
      by (intro exI [of _ tr] exI [of _ s'] exI [of _ "[]"]) (use True in \<open>simp add: read_since_def untouched_def set_reader_def taken_from_def\<close>)
  next
    case False
    show ?thesis
      using assms(1) now old [OF _ False] False
    proof (cases rule: seq_step.cases)
      case (read r' c' obs' i)
      show ?thesis
      proof (cases "r' = r")
        case True
        with read now have "c = c'" "obs = obs' @ [(i, cells s i)]" by (auto simp: set_reader_def)
        moreover have "cells s' = cells s" using read by (simp add: set_reader_def)
        moreover have "began_at (tr @ [(e, s')]) s' r c' obs'" using old read True False by simp
        ultimately show ?thesis using began_at_read by metis
      next
        case False
        with read now old show ?thesis by (auto simp: set_reader_def)
      qed
    qed (auto simp: set_reader_def split: if_splits)
  qed
qed

lemma run_ok:
  assumes "seq_run s0 tr s" "parity_ok s0" "\<forall>r. reading s0 r = Not_reading"
  shows "parity_ok s \<and> readers_ok tr s"
  using assms
proof (induction rule: seq_run.induct)
  case (none s)
  then show ?case by (simp add: readers_ok_def)
next
  case (more s0 tr s e s')
  then show ?case using step_parity step_readers by blast
qed

lemma accepted_snapshot:
  assumes run: "seq_run s0 (tr @ [(Accepted r obs, s)]) s" and start: "parity_ok s0" "\<forall>r. reading s0 r = Not_reading"
    and bound: "increments tr < 2 ^ 32"
  shows "\<exists>tr1 s1 tr2. tr = tr1 @ (Began r, s1) # tr2 \<and> Began r \<notin> fst ` set tr2 \<and> section_of s1 = Outside_section \<and>
    taken_from s1 obs \<and> (\<forall>(e, s')\<in>set tr2. cells s' = cells s1)"
proof -
  obtain s' where s': "seq_run s0 tr s'" "seq_step s' (Accepted r obs) s"
    using run by (cases rule: seq_run.cases) auto
  from s'(2) obtain c where c: "reading s' r = Reading c obs" "\<not> read_seqcount_retry (counter s') c"
    by (cases rule: seq_step.cases) auto
  have "began_at tr s' r c obs" using run_ok [OF s'(1) start] c(1) by (auto simp: readers_ok_def)
  then obtain tr1 s1 tr2 where b: "tr = tr1 @ (Began r, s1) # tr2" "read_since s1 tr2 s' r c obs"
    by (auto simp: began_at_def)
  have "c + word_of_nat (increments tr2) = c"
    using c(2) b(2) by (simp add: read_seqcount_retry_def raw_read_seqcount_retry_def read_since_def)
  then have "increments tr2 = 0" by (rule same_count) (use bound b(1) in \<open>simp add: increments_append\<close>)
  with b show ?thesis
    by (intro exI [of _ tr1] exI [of _ s1] exI [of _ tr2]) (simp add: read_since_def untouched_def)
qed

end
