(* ===== verification/Latch_Tree.thy ===== *)
theory Latch_Tree
  imports Seq_Race Rb_Search
begin

text \<open>
  Latched trees (kheaders/include/linux/rbtree\_latch.h): two red-black trees with the same
  contents and a latch. An update changes one tree while lookups use the other, and then
  changes places. The memory of each tree is its own; \<open>node[idx]\<close> of a \<open>struct latch_tree_node\<close> at
  \<open>p\<close> is at \<open>p + 24 * idx\<close>. \<open>rb_insert_color\<close> and \<open>rb_erase\<close> are arguments.
\<close>

subsection \<open>The functions\<close>

record latch_tree =
  lt_seq :: seqcount
  lt_tree :: "nat \<Rightarrow> unit rb_mem"

definition sizeof_rb_node :: u64 where
  "sizeof_rb_node = 24"

definition lt_node :: "u64 \<Rightarrow> nat \<Rightarrow> u64" where
  "lt_node ltn idx = ltn + sizeof_rb_node * word_of_nat idx"

definition lt_from_rb :: "u64 \<Rightarrow> nat \<Rightarrow> u64" where
  "lt_from_rb node idx = node - sizeof_rb_node * word_of_nat idx"

type_synonym rb_change = "u64 \<Rightarrow> unit rb_mem \<Rightarrow> unit rb_mem run"

definition lt_insert :: "rb_change \<Rightarrow> (u64 \<Rightarrow> u64 \<Rightarrow> bool) \<Rightarrow> u64 \<Rightarrow> nat \<Rightarrow> unit rb_mem \<Rightarrow> unit rb_mem run" where
  "lt_insert insert_color lt ltn idx root =
     rbind (rb_add_loop (\<lambda>node parent. lt ltn (lt_from_rb parent idx)) (lt_node ltn idx) root Root_link 0) (\<lambda>(link, parent).
     rbind (Some (rb_link_node_rcu (lt_node ltn idx) parent link root)) (insert_color (lt_node ltn idx)))"

definition lt_erase :: "rb_change \<Rightarrow> u64 \<Rightarrow> nat \<Rightarrow> unit rb_mem \<Rightarrow> unit rb_mem run" where
  "lt_erase erase ltn idx root = erase (lt_node ltn idx) root"

definition lt_cmp :: "('k \<Rightarrow> u64 \<Rightarrow> s32) \<Rightarrow> nat \<Rightarrow> 'k \<Rightarrow> u64 \<Rightarrow> s32" where
  "lt_cmp cmp idx key node = cmp key (lt_from_rb node idx)"

definition lt_find :: "('k \<Rightarrow> u64 \<Rightarrow> s32) \<Rightarrow> 'k \<Rightarrow> nat \<Rightarrow> unit rb_mem \<Rightarrow> u64 run" where
  "lt_find cmp key idx root =
     rbind (rb_find_loop (lt_cmp cmp idx) key root (rb_root root)) (\<lambda>node.
     ok (if node = 0 then 0 else lt_from_rb node idx))"

text \<open>An update without its lookups: the same change to both trees, the latch moved before each.\<close>

definition latch_update :: "(nat \<Rightarrow> unit rb_mem \<Rightarrow> unit rb_mem run) \<Rightarrow> latch_tree \<Rightarrow> latch_tree run" where
  "latch_update change root =
     (let root = root\<lparr>lt_seq := raw_write_seqcount_latch (lt_seq root)\<rparr> in
      rbind (change 0 (lt_tree root 0)) (\<lambda>m.
      let root = root\<lparr>lt_tree := (lt_tree root)(0 := m), lt_seq := raw_write_seqcount_latch (lt_seq root)\<rparr> in
      rbind (change 1 (lt_tree root 1)) (\<lambda>m. ok (root\<lparr>lt_tree := (lt_tree root)(1 := m)\<rparr>))))"

definition latch_tree_insert :: "rb_change \<Rightarrow> (u64 \<Rightarrow> u64 \<Rightarrow> bool) \<Rightarrow> u64 \<Rightarrow> latch_tree \<Rightarrow> latch_tree run" where
  "latch_tree_insert insert_color lt node root = latch_update (lt_insert insert_color lt node) root"

definition latch_tree_erase :: "rb_change \<Rightarrow> u64 \<Rightarrow> latch_tree \<Rightarrow> latch_tree run" where
  "latch_tree_erase erase node root = latch_update (lt_erase erase node) root"

definition lt_index :: "u32 \<Rightarrow> nat" where
  "lt_index seq = unat (seq AND 1)"

text \<open>The lookup without updates: the count is the same when it is read again.\<close>

definition latch_tree_find :: "('k \<Rightarrow> u64 \<Rightarrow> s32) \<Rightarrow> 'k \<Rightarrow> latch_tree \<Rightarrow> u64 run" where
  "latch_tree_find cmp key root =
     (let seq = raw_read_seqcount_latch (lt_seq root) in
      rbind (lt_find cmp key (lt_index seq) (lt_tree root (lt_index seq))) (\<lambda>node.
      if raw_read_seqcount_latch_retry (lt_seq root) seq then None else ok node))"

subsection \<open>The races\<close>

datatype latch_op = Insert_node u64 | Erase_node u64

fun change_of :: "rb_change \<Rightarrow> rb_change \<Rightarrow> (u64 \<Rightarrow> u64 \<Rightarrow> bool) \<Rightarrow> latch_op \<Rightarrow> nat \<Rightarrow> unit rb_mem \<Rightarrow> unit rb_mem run" where
  "change_of insert_color erase lt (Insert_node n) = lt_insert insert_color lt n"
| "change_of insert_color erase lt (Erase_node n) = lt_erase erase n"

text \<open>
  The updater, of which there is one at a time: \<open>Changing op i m\<close> is somewhere in the change of
  tree \<open>i\<close>, which was \<open>m\<close> before it. A lookup of \<open>key\<close>: the count is loaded, the root, then a
  node at a time.
\<close>

datatype lt_updater = Resting_updater | Changing latch_op nat "unit rb_mem" | Between_trees latch_op

datatype 'k lt_lookup = No_lookup | Again 'k | Indexed 'k u32 | At_node 'k u32 u64 | Found 'k u32 u64

datatype 'k lt_event = Hidden | Started_update latch_op | Switched latch_op | Looked nat | Returned nat 'k u64 | Strayed nat

record 'k lt_race =
  shared :: latch_tree
  updater :: lt_updater
  lookups :: "nat \<Rightarrow> 'k lt_lookup"

definition set_lookup :: "nat \<Rightarrow> 'k lt_lookup \<Rightarrow> 'k lt_race \<Rightarrow> 'k lt_race" where
  "set_lookup r ph s = s\<lparr>lookups := (lookups s)(r := ph)\<rparr>"

definition move_latch :: "'k lt_race \<Rightarrow> 'k lt_race" where
  "move_latch s = s\<lparr>shared := (shared s)\<lparr>lt_seq := raw_write_seqcount_latch (lt_seq (shared s))\<rparr>\<rparr>"

definition set_tree :: "nat \<Rightarrow> unit rb_mem \<Rightarrow> 'k lt_race \<Rightarrow> 'k lt_race" where
  "set_tree i m s = s\<lparr>shared := (shared s)\<lparr>lt_tree := (lt_tree (shared s))(i := m)\<rparr>\<rparr>"

abbreviation tree_at :: "'k lt_race \<Rightarrow> nat \<Rightarrow> unit rb_mem" where
  "tree_at s i \<equiv> lt_tree (shared s) i"

abbreviation count_of :: "'k lt_race \<Rightarrow> u32" where
  "count_of s \<equiv> sequence (lt_seq (shared s))"

text \<open>
  Between the accesses of a change its tree may hold anything (\<open>meanwhile\<close>). A lookup that follows a
  pointer to no node has \<open>Strayed\<close>.
\<close>

inductive lt_step ::
  "(latch_op \<Rightarrow> nat \<Rightarrow> unit rb_mem \<Rightarrow> unit rb_mem run) \<Rightarrow> ('k \<Rightarrow> u64 \<Rightarrow> s32) \<Rightarrow> 'k lt_race \<Rightarrow> 'k lt_event \<Rightarrow> 'k lt_race \<Rightarrow> bool"
  for change :: "latch_op \<Rightarrow> nat \<Rightarrow> unit rb_mem \<Rightarrow> unit rb_mem run" and cmp :: "'k \<Rightarrow> u64 \<Rightarrow> s32" where
  first_move: "updater s = Resting_updater \<Longrightarrow>
     lt_step change cmp s (Started_update op) ((move_latch s)\<lparr>updater := Changing op 0 (tree_at s 0)\<rparr>)"
| meanwhile: "updater s = Changing op i m \<Longrightarrow> lt_step change cmp s Hidden (set_tree i m' s)"
| first_done: "updater s = Changing op 0 m \<Longrightarrow> change op 0 m = ok m' \<Longrightarrow>
     lt_step change cmp s Hidden ((set_tree 0 m' s)\<lparr>updater := Between_trees op\<rparr>)"
| second_move: "updater s = Between_trees op \<Longrightarrow>
     lt_step change cmp s (Switched op) ((move_latch s)\<lparr>updater := Changing op 1 (tree_at s 1)\<rparr>)"
| second_done: "updater s = Changing op 1 m \<Longrightarrow> change op 1 m = ok m' \<Longrightarrow>
     lt_step change cmp s Hidden ((set_tree 1 m' s)\<lparr>updater := Resting_updater\<rparr>)"
| look: "lookups s r = No_lookup \<Longrightarrow>
     lt_step change cmp s (Looked r) (set_lookup r (Indexed key (raw_read_seqcount_latch (lt_seq (shared s)))) s)"
| load_root: "lookups s r = Indexed key v \<Longrightarrow>
     lt_step change cmp s Hidden (set_lookup r (At_node key v (rb_root (tree_at s (lt_index v)))) s)"
| walk_left: "lookups s r = At_node key v node \<Longrightarrow> node \<noteq> 0 \<Longrightarrow> lt_cmp cmp (lt_index v) key node <s 0 \<Longrightarrow>
     rb_nodes (tree_at s (lt_index v)) node = Some n \<Longrightarrow>
     lt_step change cmp s Hidden (set_lookup r (At_node key v (rb_left n)) s)"
| walk_right: "lookups s r = At_node key v node \<Longrightarrow> node \<noteq> 0 \<Longrightarrow> \<not> lt_cmp cmp (lt_index v) key node <s 0 \<Longrightarrow>
     0 <s lt_cmp cmp (lt_index v) key node \<Longrightarrow> rb_nodes (tree_at s (lt_index v)) node = Some n \<Longrightarrow>
     lt_step change cmp s Hidden (set_lookup r (At_node key v (rb_right n)) s)"
| stray: "lookups s r = At_node key v node \<Longrightarrow> node \<noteq> 0 \<Longrightarrow> lt_cmp cmp (lt_index v) key node \<noteq> 0 \<Longrightarrow>
     rb_nodes (tree_at s (lt_index v)) node = None \<Longrightarrow> lt_step change cmp s (Strayed r) (set_lookup r No_lookup s)"
| match: "lookups s r = At_node key v node \<Longrightarrow> node \<noteq> 0 \<Longrightarrow> lt_cmp cmp (lt_index v) key node = 0 \<Longrightarrow>
     lt_step change cmp s Hidden (set_lookup r (Found key v (lt_from_rb node (lt_index v))) s)"
| no_match: "lookups s r = At_node key v 0 \<Longrightarrow> lt_step change cmp s Hidden (set_lookup r (Found key v 0) s)"
| again: "lookups s r = Found key v res \<Longrightarrow> raw_read_seqcount_latch_retry (lt_seq (shared s)) v \<Longrightarrow>
     lt_step change cmp s Hidden (set_lookup r (Again key) s)"
| look_again: "lookups s r = Again key \<Longrightarrow>
     lt_step change cmp s (Looked r) (set_lookup r (Indexed key (raw_read_seqcount_latch (lt_seq (shared s)))) s)"
| return: "lookups s r = Found key v res \<Longrightarrow> \<not> raw_read_seqcount_latch_retry (lt_seq (shared s)) v \<Longrightarrow>
     lt_step change cmp s (Returned r key res) (set_lookup r No_lookup s)"

inductive lt_run ::
  "(latch_op \<Rightarrow> nat \<Rightarrow> unit rb_mem \<Rightarrow> unit rb_mem run) \<Rightarrow> ('k \<Rightarrow> u64 \<Rightarrow> s32) \<Rightarrow> 'k lt_race \<Rightarrow> 'k lt_event list \<Rightarrow> 'k lt_race \<Rightarrow> bool"
  for change :: "latch_op \<Rightarrow> nat \<Rightarrow> unit rb_mem \<Rightarrow> unit rb_mem run" and cmp :: "'k \<Rightarrow> u64 \<Rightarrow> s32" where
  none: "lt_run change cmp s [] s"
| more: "lt_run change cmp s es s' \<Longrightarrow> lt_step change cmp s' e s'' \<Longrightarrow> lt_run change cmp s (es @ [e]) s''"

subsection \<open>The tree in use holds the published updates\<close>

fun moves :: "'k lt_event list \<Rightarrow> nat" where
  "moves [] = 0"
| "moves (Started_update op # es) = Suc (moves es)"
| "moves (Switched op # es) = Suc (moves es)"
| "moves (_ # es) = moves es"

fun published :: "'k lt_event list \<Rightarrow> latch_op list" where
  "published [] = []"
| "published (Switched op # es) = op # published es"
| "published (_ # es) = published es"

lemma moves_append: "moves (xs @ ys) = moves xs + moves ys"
  by (induction xs rule: moves.induct) auto

lemma published_append: "published (xs @ ys) = published xs @ published ys"
  by (induction xs rule: published.induct) auto

fun apply_all :: "(latch_op \<Rightarrow> nat \<Rightarrow> unit rb_mem \<Rightarrow> unit rb_mem run) \<Rightarrow> latch_op list \<Rightarrow> nat \<Rightarrow> unit rb_mem \<Rightarrow> unit rb_mem run" where
  "apply_all change [] i m = ok m"
| "apply_all change (op # ops) i m = rbind (change op i m) (apply_all change ops i)"

lemma rbind_assoc: "rbind (rbind m f) g = rbind m (\<lambda>a. rbind (f a) g)"
  by (cases "(m, f)" rule: rbind.cases) auto

lemma rbind_unit: "(\<And>a. f a = ok a) \<Longrightarrow> rbind m f = m"
  by (cases "(m, f)" rule: rbind.cases) auto

lemma apply_all_snoc: "apply_all change (ops @ [op]) i m = rbind (apply_all change ops i m) (change op i)"
proof (induction ops arbitrary: m)
  case Nil
  show ?case by (simp add: rbind_unit)
next
  case (Cons a ops)
  have "apply_all change (ops @ [op]) i = (\<lambda>m. rbind (apply_all change ops i m) (change op i))"
    by (rule ext) (rule Cons.IH)
  then show ?case by (simp add: rbind_assoc)
qed

fun updater_ok :: "(nat \<Rightarrow> latch_op list \<Rightarrow> unit rb_mem \<Rightarrow> bool) \<Rightarrow> latch_op list \<Rightarrow> u32 \<Rightarrow> (nat \<Rightarrow> unit rb_mem) \<Rightarrow> lt_updater \<Rightarrow> bool" where
  "updater_ok holds done c tree Resting_updater \<longleftrightarrow> even c \<and> holds 0 done (tree 0) \<and> holds 1 done (tree 1)"
| "updater_ok holds done c tree (Between_trees op) \<longleftrightarrow> odd c \<and> holds 0 (done @ [op]) (tree 0) \<and> holds 1 done (tree 1)"
| "updater_ok holds done c tree (Changing op i m) \<longleftrightarrow>
     (i = 0 \<and> odd c \<and> holds 0 done m \<and> holds 1 done (tree 1)) \<or>
     (i = 1 \<and> even c \<and> holds 0 done (tree 0) \<and> (\<exists>before. done = before @ [op] \<and> holds 1 before m))"

definition holds_from ::
  "(latch_op \<Rightarrow> nat \<Rightarrow> unit rb_mem \<Rightarrow> unit rb_mem run) \<Rightarrow> 'k lt_race \<Rightarrow> nat \<Rightarrow> latch_op list \<Rightarrow> unit rb_mem \<Rightarrow> bool" where
  "holds_from change s0 i ops m \<longleftrightarrow> apply_all change ops i (tree_at s0 i) = ok m"

lemma holds_more: "holds_from change s0 i ops m \<Longrightarrow> change op i m = ok m' \<Longrightarrow> holds_from change s0 i (ops @ [op]) m'"
  by (simp add: holds_from_def apply_all_snoc)

definition latch_ok :: "(latch_op \<Rightarrow> nat \<Rightarrow> unit rb_mem \<Rightarrow> unit rb_mem run) \<Rightarrow> 'k lt_race \<Rightarrow> 'k lt_event list \<Rightarrow> 'k lt_race \<Rightarrow> bool" where
  "latch_ok change s0 es s \<longleftrightarrow>
     updater_ok (holds_from change s0) (published es) (count_of s) (lt_tree (shared s)) (updater s)"

lemmas lt_defs = set_lookup_def move_latch_def set_tree_def raw_write_seqcount_latch_def

lemma lt_step_latch:
  assumes "lt_step change cmp s e s'" "latch_ok change s0 es s"
  shows "latch_ok change s0 (es @ [e]) s'"
  using assms
  by (cases rule: lt_step.cases)
    (auto simp: latch_ok_def lt_defs published_append even_plus_one intro: holds_more)

lemma lt_index_parity: "lt_index c = (if even c then 0 else 1)"
proof (cases "even c")
  case True
  then have "c AND 1 = 0" by (simp add: and_one_even)
  with True show ?thesis by (simp add: lt_index_def)
next
  case False
  then have "c AND 1 = 1" by (simp add: and_one_eq odd_iff_mod_2_eq_one)
  with False show ?thesis by (simp add: lt_index_def)
qed

lemma tree_in_use:
  "latch_ok change s0 es s \<Longrightarrow>
   apply_all change (published es) (lt_index (count_of s)) (tree_at s0 (lt_index (count_of s))) = ok (tree_at s (lt_index (count_of s)))"
  by (cases "updater s") (auto simp: latch_ok_def lt_index_parity holds_from_def)

text \<open>While the latch is not moved the tree in use does not change.\<close>

lemma lt_step_keeps_tree:
  assumes "lt_step change cmp s e s'" "latch_ok change s0 es s" "moves [e] = 0"
  shows "count_of s' = count_of s \<and> tree_at s' (lt_index (count_of s)) = tree_at s (lt_index (count_of s))"
  using assms
  by (cases rule: lt_step.cases) (auto simp: latch_ok_def lt_defs lt_index_parity)

lemma lt_step_count: "lt_step change cmp s e s' \<Longrightarrow> count_of s' = count_of s + word_of_nat (moves [e])"
  by (induction rule: lt_step.induct) (auto simp: lt_defs)

subsection \<open>Lookups\<close>

text \<open>What a lookup that has got so far will find in the tree \<open>m\<close>.\<close>

fun lookup_ok :: "('k \<Rightarrow> u64 \<Rightarrow> s32) \<Rightarrow> unit rb_mem \<Rightarrow> 'k lt_lookup \<Rightarrow> bool" where
  "lookup_ok cmp m (At_node key v node) \<longleftrightarrow>
     rb_find_loop (lt_cmp cmp (lt_index v)) key m node = rb_find_loop (lt_cmp cmp (lt_index v)) key m (rb_root m)"
| "lookup_ok cmp m (Found key v res) \<longleftrightarrow> lt_find cmp key (lt_index v) m = ok res"
| "lookup_ok cmp m _ \<longleftrightarrow> True"

fun index_of :: "'k lt_lookup \<Rightarrow> u32 option" where
  "index_of (Indexed key v) = Some v"
| "index_of (At_node key v node) = Some v"
| "index_of (Found key v res) = Some v"
| "index_of _ = None"

definition looked_at ::
  "(latch_op \<Rightarrow> nat \<Rightarrow> unit rb_mem \<Rightarrow> unit rb_mem run) \<Rightarrow> ('k \<Rightarrow> u64 \<Rightarrow> s32) \<Rightarrow> 'k lt_race \<Rightarrow> 'k lt_event list \<Rightarrow> 'k lt_race \<Rightarrow> nat \<Rightarrow> u32 \<Rightarrow> 'k lt_lookup \<Rightarrow> bool" where
  "looked_at change cmp s0 es s r v ph \<longleftrightarrow> (\<exists>es1 es2 s1. es = es1 @ es2 \<and> lt_run change cmp s0 es1 s1 \<and> Looked r \<notin> set es2 \<and>
     count_of s1 = v \<and> count_of s = v + word_of_nat (moves es2) \<and>
     (moves es2 = 0 \<longrightarrow> tree_at s (lt_index v) = tree_at s1 (lt_index v) \<and> lookup_ok cmp (tree_at s1 (lt_index v)) ph))"

lemma looked_at_step:
  assumes l: "looked_at change cmp s0 es s r v ph" and st: "lt_step change cmp s e s'" "latch_ok change s0 es s" "e \<noteq> Looked r"
    and ph: "lookup_ok cmp (tree_at s (lt_index v)) ph \<Longrightarrow> lookup_ok cmp (tree_at s (lt_index v)) ph'"
  shows "looked_at change cmp s0 (es @ [e]) s' r v ph'"
proof -
  obtain es1 es2 s1 where b: "es = es1 @ es2" "lt_run change cmp s0 es1 s1" "Looked r \<notin> set es2" "count_of s1 = v"
      "count_of s = v + word_of_nat (moves es2)"
      "moves es2 = 0 \<longrightarrow> tree_at s (lt_index v) = tree_at s1 (lt_index v) \<and> lookup_ok cmp (tree_at s1 (lt_index v)) ph"
    using l by (auto simp: looked_at_def)
  have "count_of s' = v + word_of_nat (moves (es2 @ [e]))"
    using lt_step_count [OF st(1)] b(5) by (simp add: moves_append)
  moreover have "moves (es2 @ [e]) = 0 \<longrightarrow> tree_at s' (lt_index v) = tree_at s1 (lt_index v) \<and> lookup_ok cmp (tree_at s1 (lt_index v)) ph'"
  proof
    assume "moves (es2 @ [e]) = 0"
    then have m: "moves es2 = 0" "moves [e] = 0" by (simp_all add: moves_append)
    with b(5,6) lt_step_keeps_tree [OF st(1,2)] ph
    show "tree_at s' (lt_index v) = tree_at s1 (lt_index v) \<and> lookup_ok cmp (tree_at s1 (lt_index v)) ph'" by simp
  qed
  ultimately show ?thesis
    using b(1-4) st(3) unfolding looked_at_def
    by (intro exI [of _ es1] exI [of _ "es2 @ [e]"] exI [of _ s1]) auto
qed

lemma looked_at_now:
  assumes "lt_run change cmp s0 es s" "count_of s = v" "lookup_ok cmp (tree_at s (lt_index v)) ph"
  shows "looked_at change cmp s0 es s r v ph"
  unfolding looked_at_def by (intro exI [of _ es] exI [of _ "[]"] exI [of _ s]) (use assms in simp)

definition lookups_ok ::
  "(latch_op \<Rightarrow> nat \<Rightarrow> unit rb_mem \<Rightarrow> unit rb_mem run) \<Rightarrow> ('k \<Rightarrow> u64 \<Rightarrow> s32) \<Rightarrow> 'k lt_race \<Rightarrow> 'k lt_event list \<Rightarrow> 'k lt_race \<Rightarrow> bool" where
  "lookups_ok change cmp s0 es s \<longleftrightarrow>
     (\<forall>r v. index_of (lookups s r) = Some v \<longrightarrow> looked_at change cmp s0 es s r v (lookups s r))"

text \<open>The walk of one lookup, on a tree that is not changing.\<close>

lemma find_step:
  assumes "node \<noteq> 0" "rb_nodes m node = Some n"
  shows "f key node <s 0 \<Longrightarrow> rb_find_loop f key m node = rb_find_loop f key m (rb_left n)"
    "\<not> f key node <s 0 \<Longrightarrow> 0 <s f key node \<Longrightarrow> rb_find_loop f key m node = rb_find_loop f key m (rb_right n)"
  using assms by (simp_all add: rb_find_loop.simps [of f key m node] rb_get_Some)

lemma find_end:
  "rb_find_loop f key m 0 = ok 0" "node \<noteq> 0 \<Longrightarrow> f key node = 0 \<Longrightarrow> rb_find_loop f key m node = ok node"
  by (simp_all add: rb_find_loop.simps)

lemma ok_find: "ok a = rb_find_loop f key m node \<longleftrightarrow> rb_find_loop f key m node = ok a"
  by auto

lemma lt_step_lookup:
  assumes st: "lt_step change cmp s e s'" and v: "index_of (lookups s' r) = Some v" and e: "e \<noteq> Looked r"
  shows "index_of (lookups s r) = Some v \<and>
    (lookup_ok cmp (tree_at s (lt_index v)) (lookups s r) \<longrightarrow> lookup_ok cmp (tree_at s (lt_index v)) (lookups s' r))"
  using st v e
  by (cases rule: lt_step.cases)
    (auto simp: lt_defs lt_find_def find_step find_end ok_find split: if_splits)

lemma lt_step_lookups:
  assumes st: "lt_step change cmp s e s'" "latch_ok change s0 es s" "lt_run change cmp s0 es s" and ok: "lookups_ok change cmp s0 es s"
  shows "lookups_ok change cmp s0 (es @ [e]) s'"
  unfolding lookups_ok_def
proof (intro allI impI)
  fix r v
  assume v: "index_of (lookups s' r) = Some v"
  show "looked_at change cmp s0 (es @ [e]) s' r v (lookups s' r)"
  proof (cases "e = Looked r")
    case True
    have "lt_run change cmp s0 (es @ [e]) s'" using st(3,1) by (rule lt_run.more)
    moreover have "count_of s' = v" "lookup_ok cmp (tree_at s' (lt_index v)) (lookups s' r)"
      using st(1) True v by (auto elim!: lt_step.cases simp: lt_defs raw_read_seqcount_latch_def)
    ultimately show ?thesis by (rule looked_at_now)
  next
    case False
    note old = lt_step_lookup [OF st(1) v False]
    with ok have "looked_at change cmp s0 es s r v (lookups s r)" by (auto simp: lookups_ok_def)
    then show ?thesis by (rule looked_at_step [OF _ st(1,2) False]) (use old in blast)
  qed
qed

lemma lt_run_ok:
  assumes "lt_run change cmp s0 es s" "latch_ok change s0 [] s0" "\<forall>r. lookups s0 r = No_lookup"
  shows "latch_ok change s0 es s \<and> lookups_ok change cmp s0 es s"
  using assms
proof (induction rule: lt_run.induct)
  case (none s)
  then show ?case by (simp add: lookups_ok_def)
next
  case (more s0 es s e s')
  then show ?case using lt_step_latch lt_step_lookups by blast
qed

lemma lookup_linearizes:
  assumes run: "lt_run change cmp s0 (es @ [Returned r key res]) s" and start: "latch_ok change s0 [] s0" "\<forall>r. lookups s0 r = No_lookup"
    and bound: "moves es < 2 ^ 32"
  shows "\<exists>es1 es2 s1 i m. es = es1 @ es2 \<and> lt_run change cmp s0 es1 s1 \<and> Looked r \<notin> set es2 \<and> i = lt_index (count_of s1) \<and>
    m = tree_at s1 i \<and> apply_all change (published es1) i (tree_at s0 i) = ok m \<and> lt_find cmp key i m = ok res"
proof -
  obtain s' where s': "lt_run change cmp s0 es s'" "lt_step change cmp s' (Returned r key res) s"
    using run by (cases rule: lt_run.cases) auto
  from s'(2) obtain v where v: "lookups s' r = Found key v res" "\<not> raw_read_seqcount_latch_retry (lt_seq (shared s')) v"
    by (cases rule: lt_step.cases) auto
  have "looked_at change cmp s0 es s' r v (lookups s' r)"
  proof -
    have "index_of (lookups s' r) = Some v" by (simp add: v(1))
    then show ?thesis using lt_run_ok [OF s'(1) start] unfolding lookups_ok_def by blast
  qed
  then have "looked_at change cmp s0 es s' r v (Found key v res)" by (simp only: v(1))
  then obtain es1 es2 s1 where b: "es = es1 @ es2" "lt_run change cmp s0 es1 s1" "Looked r \<notin> set es2" "count_of s1 = v"
      "count_of s' = v + word_of_nat (moves es2)"
      "moves es2 = 0 \<longrightarrow> lookup_ok cmp (tree_at s1 (lt_index v)) (Found key v res)"
    by (auto simp: looked_at_def)
  have "v + word_of_nat (moves es2) = v" using v(2) b(5) by (simp add: raw_read_seqcount_latch_retry_def)
  then have "moves es2 = 0" by (rule same_count) (use bound b(1) in \<open>simp add: moves_append\<close>)
  with b(6) have "lt_find cmp key (lt_index v) (tree_at s1 (lt_index v)) = ok res" by simp
  moreover have "apply_all change (published es1) (lt_index v) (tree_at s0 (lt_index v)) = ok (tree_at s1 (lt_index v))"
    using tree_in_use lt_run_ok [OF b(2) start] b(4) by metis
  ultimately show ?thesis using b(1-4) by blast
qed

end
