(* ===== verification/Seq_Claims.thy ===== *)
theory Seq_Claims
  imports Latch_Tree
begin

text \<open>
  Properties of sequence counters and latched trees under races, each with a witness run.
\<close>

subsection \<open>Sequence counters\<close>

text \<open>C27: A reader of a sequence counter whose data is not thrown away has seen one snapshot: in the run it is
  part of, all it loaded is the data in the state in which it began, the last time it did before its data was accepted, when no writer was
  inside its section, and the data did not change in any state from there to the acceptance, however writers and
  other readers interleave, as long as the counter is incremented fewer than \<open>2 ^ 32\<close> times.\<close>

theorem seqcount_snapshot:
  assumes "seq_run s0 (tr @ [(Accepted r obs, s)]) s" "section_of s0 = Outside_section" "even (sequence (counter s0))"
    "\<forall>r. reading s0 r = Not_reading" "increments tr < 2 ^ 32"
  shows "\<exists>tr1 s1 tr2. tr = tr1 @ (Began r, s1) # tr2 \<and> Began r \<notin> fst ` set tr2 \<and> section_of s1 = Outside_section \<and>
    (\<forall>(i, v)\<in>set obs. v = cells s1 i) \<and> (\<forall>(e, s')\<in>set tr2. cells s' = cells s1)"
  using accepted_snapshot [OF assms(1) _ assms(4,5)] assms(2,3) unfolding parity_ok_def taken_from_def by blast

text \<open>A writer stores 9 in cell 3, then a reader reads it.\<close>

definition quiet_counter :: "nat seq_race" where
  "quiet_counter = \<lparr>counter = SEQCNT_ZERO, cells = (\<lambda>i. 7), section_of = Outside_section, reading = (\<lambda>r. Not_reading)\<rparr>"

definition written :: "u32 \<Rightarrow> seq_writer \<Rightarrow> nat \<Rightarrow> nat seq_race" where
  "written n w v = quiet_counter\<lparr>counter := \<lparr>sequence = n\<rparr>, section_of := w, cells := (\<lambda>i. 7)(3 := v)\<rparr>"

definition written_trace :: "nat seq_trace" where
  "written_trace = [(Counted 1, written 1 In_section 7), (Quiet, written 1 In_section 9), (Counted 1, written 2 Outside_section 9),
     (Began 0, set_reader 0 (Reading 2 []) (written 2 Outside_section 9)),
     (Quiet, set_reader 0 (Reading 2 [(3, 9)]) (written 2 Outside_section 9))]"

lemma write_then_read:
  "seq_run quiet_counter (written_trace @ [(Accepted 0 [(3, 9)], written 2 Outside_section 9)]) (written 2 Outside_section 9)"
proof -
  let ?s3 = "written 2 Outside_section 9"
  have "seq_step quiet_counter (Counted 1) (written 1 In_section 7)"
    using seq_step.write_begin [of quiet_counter]
    by (simp add: quiet_counter_def written_def SEQCNT_ZERO_def do_raw_write_seqcount_begin_def fun_upd_idem)
  with seq_run.none have r: "seq_run quiet_counter ([] @ [(Counted 1, written 1 In_section 7)]) (written 1 In_section 7)" by (rule seq_run.more)
  have "seq_step (written 1 In_section 7) Quiet (written 1 In_section 9)"
    using seq_step.store [of "written 1 In_section 7" 3 9] by (simp add: written_def)
  note r = seq_run.more [OF r this]
  have "seq_step (written 1 In_section 9) (Counted 1) ?s3"
    using seq_step.write_end [of "written 1 In_section 9"] by (simp add: written_def quiet_counter_def do_raw_write_seqcount_end_def)
  note r = seq_run.more [OF r this]
  have "seq_step ?s3 (Began 0) (set_reader 0 (Reading 2 []) ?s3)"
    by (rule seq_step.read_begin) (simp_all add: written_def quiet_counter_def seqprop_sequence_def smp_load_acquire_def)
  note r = seq_run.more [OF r this]
  have "seq_step (set_reader 0 (Reading 2 []) ?s3) Quiet (set_reader 0 (Reading 2 [(3, 9)]) ?s3)"
    using seq_step.read [of "set_reader 0 (Reading 2 []) ?s3" 0 2 "[]" 3] by (simp add: set_reader_def written_def)
  note r = seq_run.more [OF r this]
  have "seq_step (set_reader 0 (Reading 2 [(3, 9)]) ?s3) (Accepted 0 [(3, 9)]) (set_reader 0 Not_reading (set_reader 0 (Reading 2 [(3, 9)]) ?s3))"
    by (rule seq_step.accept) (simp_all add: set_reader_def written_def read_seqcount_retry_def raw_read_seqcount_retry_def)
  also have "set_reader 0 Not_reading (set_reader 0 (Reading 2 [(3, 9)]) ?s3) = ?s3"
    by (simp add: set_reader_def written_def quiet_counter_def fun_upd_idem)
  finally show ?thesis using seq_run.more [OF r] by (simp add: written_trace_def)
qed

theorem seqcount_snapshot_witness:
  "\<exists>tr1 s1 tr2. written_trace = tr1 @ (Began 0, s1) # tr2 \<and> section_of s1 = Outside_section \<and> cells s1 3 = 9"
proof -
  have "increments written_trace = 2" by (simp add: written_trace_def)
  with seqcount_snapshot [OF write_then_read] show ?thesis by (fastforce simp: quiet_counter_def SEQCNT_ZERO_def)
qed

subsection \<open>Latched trees\<close>

text \<open>C28: A lookup in a latched tree that races with insertions and removals neither waits for them nor sees half of one:
  what it returns is what a lookup alone finds in a whole tree, one that holds exactly
  the updates published by some moment after the lookup last took the count. The latch may
  move fewer than \<open>2 ^ 32\<close> times.\<close>

theorem latch_lookup_linearizes:
  assumes "lt_run (change_of insert_color erase lt) cmp s0 (es @ [Returned r key res]) s" "updater s0 = Resting_updater"
    "even (sequence (lt_seq (shared s0)))" "\<forall>r. lookups s0 r = No_lookup" "moves es < 2 ^ 32"
  shows "\<exists>es1 es2 s1 i m. es = es1 @ es2 \<and> lt_run (change_of insert_color erase lt) cmp s0 es1 s1 \<and> Looked r \<notin> set es2 \<and>
    i = lt_index (sequence (lt_seq (shared s1))) \<and> m = lt_tree (shared s1) i \<and>
    apply_all (change_of insert_color erase lt) (published es1) i (lt_tree (shared s0) i) = ok m \<and> lt_find cmp key i m = ok res"
proof -
  have "latch_ok (change_of insert_color erase lt) s0 [] s0"
    using assms(2,3) by (simp add: latch_ok_def holds_from_def)
  from lookup_linearizes [OF assms(1) this assms(4,5)] show ?thesis .
qed

text \<open>A removal has started on the first tree; the lookup finds the node in the second.\<close>

definition one_latched :: "unit lt_race" where
  "one_latched = \<lparr>shared = \<lparr>lt_seq = SEQCNT_ZERO, lt_tree = (\<lambda>i.
       \<lparr>rb_root = lt_node 0x1000 i, rb_leftmost = 0,
        rb_nodes = (\<lambda>p. if p = lt_node 0x1000 i then Some (cell 0 True 0 0) else None), rb_data = ()\<rparr>)\<rparr>,
     updater = Resting_updater, lookups = (\<lambda>r. No_lookup)\<rparr>"

lemma find_during_removal:
  "\<exists>s. lt_run change (\<lambda>_ _. 0) one_latched
     [Started_update (Erase_node 0x1000), Hidden, Looked 5, Hidden, Hidden, Returned 5 () 0x1000] s"
proof -
  let ?s0 = one_latched and ?run = "lt_run change (\<lambda>_ _. 0) one_latched" and ?step = "lt_step change (\<lambda>_ _. 0)"
  let ?s1 = "(move_latch ?s0)\<lparr>updater := Changing (Erase_node 0x1000) 0 (tree_at ?s0 0)\<rparr>"
  let ?s2 = "set_tree 0 ((tree_at ?s0 0)\<lparr>rb_root := 0\<rparr>) ?s1"
  let ?s3 = "set_lookup 5 (Indexed () 1) ?s2"
  let ?s4 = "set_lookup 5 (At_node () 1 0x1018) ?s3"
  let ?s5 = "set_lookup 5 (Found () 1 0x1000) ?s4"
  have c: "count_of ?s1 = 1" by (simp add: one_latched_def move_latch_def raw_write_seqcount_latch_def SEQCNT_ZERO_def)
  have i: "lt_index 1 = 1" by (simp add: lt_index_def)
  have "?step ?s0 (Started_update (Erase_node 0x1000)) ?s1" by (rule lt_step.first_move) (simp add: one_latched_def)
  with lt_run.none have r: "?run ([] @ [Started_update (Erase_node 0x1000)]) ?s1" by (rule lt_run.more)
  have "?step ?s1 Hidden ?s2" by (rule lt_step.meanwhile) simp
  with r have r: "?run (([] @ [Started_update (Erase_node 0x1000)]) @ [Hidden]) ?s2" by (rule lt_run.more)
  have "?step ?s2 (Looked 5) ?s3"
    using lt_step.look [of ?s2 5 change "\<lambda>_ _. 0" "()"] c
    by (simp add: raw_read_seqcount_latch_def set_tree_def) (simp add: one_latched_def move_latch_def)
  with r have r: "?run ((([] @ [Started_update (Erase_node 0x1000)]) @ [Hidden]) @ [Looked 5]) ?s3" by (rule lt_run.more)
  have "?step ?s3 Hidden ?s4"
    using lt_step.load_root [of ?s3 5 "()" 1 change "\<lambda>_ _. 0"] i
    by (simp add: set_lookup_def set_tree_def move_latch_def one_latched_def lt_node_def sizeof_rb_node_def)
  with r have r: "?run (((([] @ [Started_update (Erase_node 0x1000)]) @ [Hidden]) @ [Looked 5]) @ [Hidden]) ?s4" by (rule lt_run.more)
  have "?step ?s4 Hidden ?s5"
    using lt_step.match [of ?s4 5 "()" 1 "0x1018" "\<lambda>_ _. 0" change] i
    by (simp add: set_lookup_def lt_cmp_def lt_from_rb_def sizeof_rb_node_def)
  with r have r: "?run ((((([] @ [Started_update (Erase_node 0x1000)]) @ [Hidden]) @ [Looked 5]) @ [Hidden]) @ [Hidden]) ?s5" by (rule lt_run.more)
  have "?step ?s5 (Returned 5 () 0x1000) (set_lookup 5 No_lookup ?s5)"
    by (rule lt_step.return) (use c in \<open>simp_all add: set_lookup_def set_tree_def raw_read_seqcount_latch_retry_def\<close>)
  with r have "?run (((((([] @ [Started_update (Erase_node 0x1000)]) @ [Hidden]) @ [Looked 5]) @ [Hidden]) @ [Hidden]) @ [Returned 5 () 0x1000])
      (set_lookup 5 No_lookup ?s5)" by (rule lt_run.more)
  then show ?thesis by auto
qed

theorem latch_lookup_linearizes_witness:
  "\<exists>i m ops. apply_all (change_of (\<lambda>x m. ok m) (\<lambda>x m. ok m) (\<lambda>a b. False)) ops i (lt_tree (shared one_latched) i) = ok m \<and>
     lt_find (\<lambda>_ _. 0) () i m = ok 0x1000"
proof -
  obtain s where "lt_run (change_of (\<lambda>x m. ok m) (\<lambda>x m. ok m) (\<lambda>a b. False)) (\<lambda>_ _. 0) one_latched
     ([Started_update (Erase_node 0x1000), Hidden, Looked 5, Hidden, Hidden] @ [Returned 5 () 0x1000]) s"
    using find_during_removal by auto
  from latch_lookup_linearizes [OF this] show ?thesis by (force simp: one_latched_def SEQCNT_ZERO_def)
qed

end
