(* ===== verification/Atomic_Long.thy ===== *)
theory Atomic_Long
  imports Atomic_Raw
begin

text \<open>
  Atomic operations on \<open>atomic_long_t\<close>, kheaders/include/linux/atomic/atomic-long.h, as a 64-bit
  kernel compiles them: each is the \<open>atomic64_t\<close> operation of the same name. As there, the four
  orderings of a family are one definition.
\<close>

definition raw_atomic_long_read :: "s64 \<Rightarrow> s64" where
  "raw_atomic_long_read v = raw_atomic64_read v"

definition raw_atomic_long_read_acquire :: "s64 \<Rightarrow> s64 \<times> mem_order" where
  "raw_atomic_long_read_acquire v = raw_atomic64_read_acquire v"

definition raw_atomic_long_set :: "s64 \<Rightarrow> s64 \<Rightarrow> s64" where
  "raw_atomic_long_set v i = raw_atomic64_set v i"

definition raw_atomic_long_set_release :: "s64 \<Rightarrow> s64 \<Rightarrow> s64 \<times> mem_order" where
  "raw_atomic_long_set_release v i = raw_atomic64_set_release v i"

definition raw_atomic_long_add :: "bool \<Rightarrow> s64 \<Rightarrow> 64 tries \<Rightarrow> (unit, 64) outcome option" where
  "raw_atomic_long_add lse i = raw_atomic64_add lse i"

definition raw_atomic_long_add_return :: "bool \<Rightarrow> mem_order \<Rightarrow> s64 \<Rightarrow> 64 tries \<Rightarrow> (s64, 64) outcome option" where
  "raw_atomic_long_add_return lse ord i = raw_atomic64_add_return lse ord i"

definition raw_atomic_long_fetch_add :: "bool \<Rightarrow> mem_order \<Rightarrow> s64 \<Rightarrow> 64 tries \<Rightarrow> (s64, 64) outcome option" where
  "raw_atomic_long_fetch_add lse ord i = raw_atomic64_fetch_add lse ord i"

definition raw_atomic_long_sub :: "bool \<Rightarrow> s64 \<Rightarrow> 64 tries \<Rightarrow> (unit, 64) outcome option" where
  "raw_atomic_long_sub lse i = raw_atomic64_sub lse i"

definition raw_atomic_long_sub_return :: "bool \<Rightarrow> mem_order \<Rightarrow> s64 \<Rightarrow> 64 tries \<Rightarrow> (s64, 64) outcome option" where
  "raw_atomic_long_sub_return lse ord i = raw_atomic64_sub_return lse ord i"

definition raw_atomic_long_fetch_sub :: "bool \<Rightarrow> mem_order \<Rightarrow> s64 \<Rightarrow> 64 tries \<Rightarrow> (s64, 64) outcome option" where
  "raw_atomic_long_fetch_sub lse ord i = raw_atomic64_fetch_sub lse ord i"

definition raw_atomic_long_inc :: "bool \<Rightarrow> 64 tries \<Rightarrow> (unit, 64) outcome option" where
  "raw_atomic_long_inc lse = raw_atomic64_inc lse"

definition raw_atomic_long_inc_return :: "bool \<Rightarrow> mem_order \<Rightarrow> 64 tries \<Rightarrow> (s64, 64) outcome option" where
  "raw_atomic_long_inc_return lse ord = raw_atomic64_inc_return lse ord"

definition raw_atomic_long_fetch_inc :: "bool \<Rightarrow> mem_order \<Rightarrow> 64 tries \<Rightarrow> (s64, 64) outcome option" where
  "raw_atomic_long_fetch_inc lse ord = raw_atomic64_fetch_inc lse ord"

definition raw_atomic_long_dec :: "bool \<Rightarrow> 64 tries \<Rightarrow> (unit, 64) outcome option" where
  "raw_atomic_long_dec lse = raw_atomic64_dec lse"

definition raw_atomic_long_dec_return :: "bool \<Rightarrow> mem_order \<Rightarrow> 64 tries \<Rightarrow> (s64, 64) outcome option" where
  "raw_atomic_long_dec_return lse ord = raw_atomic64_dec_return lse ord"

definition raw_atomic_long_fetch_dec :: "bool \<Rightarrow> mem_order \<Rightarrow> 64 tries \<Rightarrow> (s64, 64) outcome option" where
  "raw_atomic_long_fetch_dec lse ord = raw_atomic64_fetch_dec lse ord"

definition raw_atomic_long_and :: "bool \<Rightarrow> s64 \<Rightarrow> 64 tries \<Rightarrow> (unit, 64) outcome option" where
  "raw_atomic_long_and lse i = raw_atomic64_and lse i"

definition raw_atomic_long_fetch_and :: "bool \<Rightarrow> mem_order \<Rightarrow> s64 \<Rightarrow> 64 tries \<Rightarrow> (s64, 64) outcome option" where
  "raw_atomic_long_fetch_and lse ord i = raw_atomic64_fetch_and lse ord i"

definition raw_atomic_long_andnot :: "bool \<Rightarrow> s64 \<Rightarrow> 64 tries \<Rightarrow> (unit, 64) outcome option" where
  "raw_atomic_long_andnot lse i = raw_atomic64_andnot lse i"

definition raw_atomic_long_fetch_andnot :: "bool \<Rightarrow> mem_order \<Rightarrow> s64 \<Rightarrow> 64 tries \<Rightarrow> (s64, 64) outcome option" where
  "raw_atomic_long_fetch_andnot lse ord i = raw_atomic64_fetch_andnot lse ord i"

definition raw_atomic_long_or :: "bool \<Rightarrow> s64 \<Rightarrow> 64 tries \<Rightarrow> (unit, 64) outcome option" where
  "raw_atomic_long_or lse i = raw_atomic64_or lse i"

definition raw_atomic_long_fetch_or :: "bool \<Rightarrow> mem_order \<Rightarrow> s64 \<Rightarrow> 64 tries \<Rightarrow> (s64, 64) outcome option" where
  "raw_atomic_long_fetch_or lse ord i = raw_atomic64_fetch_or lse ord i"

definition raw_atomic_long_xor :: "bool \<Rightarrow> s64 \<Rightarrow> 64 tries \<Rightarrow> (unit, 64) outcome option" where
  "raw_atomic_long_xor lse i = raw_atomic64_xor lse i"

definition raw_atomic_long_fetch_xor :: "bool \<Rightarrow> mem_order \<Rightarrow> s64 \<Rightarrow> 64 tries \<Rightarrow> (s64, 64) outcome option" where
  "raw_atomic_long_fetch_xor lse ord i = raw_atomic64_fetch_xor lse ord i"

definition raw_atomic_long_xchg :: "bool \<Rightarrow> mem_order \<Rightarrow> s64 \<Rightarrow> 64 tries \<Rightarrow> (s64, 64) outcome option" where
  "raw_atomic_long_xchg lse ord new = raw_atomic64_xchg lse ord new"

definition raw_atomic_long_cmpxchg :: "bool \<Rightarrow> mem_order \<Rightarrow> s64 \<Rightarrow> s64 \<Rightarrow> 64 tries \<Rightarrow> (s64, 64) outcome option" where
  "raw_atomic_long_cmpxchg lse ord old new = raw_atomic64_cmpxchg lse ord old new"

definition raw_atomic_long_try_cmpxchg :: "bool \<Rightarrow> mem_order \<Rightarrow> s64 \<Rightarrow> s64 \<Rightarrow> 64 tries \<Rightarrow> (bool \<times> s64, 64) outcome option" where
  "raw_atomic_long_try_cmpxchg lse ord old new = raw_atomic64_try_cmpxchg lse ord old new"

definition raw_atomic_long_sub_and_test :: "bool \<Rightarrow> s64 \<Rightarrow> 64 tries \<Rightarrow> (bool, 64) outcome option" where
  "raw_atomic_long_sub_and_test lse i = raw_atomic64_sub_and_test lse i"

definition raw_atomic_long_dec_and_test :: "bool \<Rightarrow> 64 tries \<Rightarrow> (bool, 64) outcome option" where
  "raw_atomic_long_dec_and_test lse = raw_atomic64_dec_and_test lse"

definition raw_atomic_long_inc_and_test :: "bool \<Rightarrow> 64 tries \<Rightarrow> (bool, 64) outcome option" where
  "raw_atomic_long_inc_and_test lse = raw_atomic64_inc_and_test lse"

definition raw_atomic_long_add_negative :: "bool \<Rightarrow> mem_order \<Rightarrow> s64 \<Rightarrow> 64 tries \<Rightarrow> (bool, 64) outcome option" where
  "raw_atomic_long_add_negative lse ord i = raw_atomic64_add_negative lse ord i"

definition raw_atomic_long_fetch_add_unless :: "bool \<Rightarrow> s64 \<Rightarrow> s64 \<Rightarrow> s64 \<Rightarrow> 64 tries list \<Rightarrow> (s64, 64) outcome option" where
  "raw_atomic_long_fetch_add_unless lse a u v tss = raw_atomic64_fetch_add_unless lse a u v tss"

definition raw_atomic_long_add_unless :: "bool \<Rightarrow> s64 \<Rightarrow> s64 \<Rightarrow> s64 \<Rightarrow> 64 tries list \<Rightarrow> (bool, 64) outcome option" where
  "raw_atomic_long_add_unless lse a u v tss = raw_atomic64_add_unless lse a u v tss"

definition raw_atomic_long_inc_not_zero :: "bool \<Rightarrow> s64 \<Rightarrow> 64 tries list \<Rightarrow> (bool, 64) outcome option" where
  "raw_atomic_long_inc_not_zero lse v tss = raw_atomic64_inc_not_zero lse v tss"

definition raw_atomic_long_inc_unless_negative :: "bool \<Rightarrow> s64 \<Rightarrow> 64 tries list \<Rightarrow> (bool, 64) outcome option" where
  "raw_atomic_long_inc_unless_negative lse v tss = raw_atomic64_inc_unless_negative lse v tss"

definition raw_atomic_long_dec_unless_positive :: "bool \<Rightarrow> s64 \<Rightarrow> 64 tries list \<Rightarrow> (bool, 64) outcome option" where
  "raw_atomic_long_dec_unless_positive lse v tss = raw_atomic64_dec_unless_positive lse v tss"

definition raw_atomic_long_dec_if_positive :: "bool \<Rightarrow> 64 tries \<Rightarrow> (s64, 64) outcome option" where
  "raw_atomic_long_dec_if_positive lse ts = raw_atomic64_dec_if_positive lse ts"

text \<open>The bitwise operations, which the bit operations are made of.\<close>

lemmas raw_atomic_long_bitwise =
  raw_atomic64_or_implements [of lse i, folded raw_atomic_long_or_def]
  raw_atomic64_andnot_implements [of lse i, folded raw_atomic_long_andnot_def]
  raw_atomic64_xor_implements [of lse i, folded raw_atomic_long_xor_def]
  raw_atomic64_fetch_or_implements [of lse ord i, folded raw_atomic_long_fetch_or_def]
  raw_atomic64_fetch_andnot_implements [of lse ord i, folded raw_atomic_long_fetch_andnot_def]
  raw_atomic64_fetch_xor_implements [of lse ord i, folded raw_atomic_long_fetch_xor_def]
  for lse ord i

end
