(* ===== verification/Bits.thy ===== *)
theory Bits
  imports Prelude
begin

text \<open>
  Masks of bits: kheaders/include/linux/bits.h, vdso/bits.h, uapi/linux/bits.h and
  \<open>BITS_TO_LONGS\<close> of bitops.h. A \<open>long\<close> has 64 bits.
\<close>

definition BITS_PER_LONG :: nat where
  "BITS_PER_LONG = 64"

definition BIT :: "nat \<Rightarrow> u64" where
  "BIT nr = push_bit nr 1"

definition BIT_MASK :: "nat \<Rightarrow> u64" where
  "BIT_MASK nr = push_bit (nr mod BITS_PER_LONG) 1"

definition BIT_WORD :: "nat \<Rightarrow> nat" where
  "BIT_WORD nr = nr div BITS_PER_LONG"

definition GENMASK :: "nat \<Rightarrow> nat \<Rightarrow> u64" where
  "GENMASK h l = (NOT 0 - push_bit l 1 + 1) AND drop_bit (64 - 1 - h) (NOT 0)"

definition BITS_TO_LONGS :: "nat \<Rightarrow> nat" where
  "BITS_TO_LONGS nr = (nr + BITS_PER_LONG - 1) div BITS_PER_LONG"

end
