(* ===== verification/Bitops.thy ===== *)
theory Bitops
  imports Atomic_Long Bits
begin

text \<open>
  Bit operations: finding and counting bits (kheaders/include/asm-generic/bitops/builtin-*.h, ffz.h, fls64.h, const_hweight.h, arch_hweight.h, sched.h),
  operations on bitmaps, atomic, for locks and plain (asm-generic/bitops/atomic.h, lock.h,
  generic-non-atomic.h and their instrumented-*.h, le.h), and linux/bitops.h. Bit numbers are natural numbers; a
  bitmap is the list of its words. The instrumentation is empty in this build.
\<close>

subsection \<open>Finding and counting bits\<close>

text \<open>
  The compiler's \<open>__builtin_ctzl\<close> and \<open>__builtin_clzl\<close>; at 0 their result is undefined, here
  64. \<open>__ffs\<close>, \<open>__fls\<close> and \<open>__ffs64\<close> are \<open>ffs_long\<close>, \<open>fls_index\<close> and \<open>ffs64\<close>.
\<close>

definition builtin_ctzl :: "u64 \<Rightarrow> nat" where
  "builtin_ctzl w = length (takeWhile (\<lambda>i. \<not> bit w i) [0..<64])"

definition builtin_clzl :: "u64 \<Rightarrow> nat" where
  "builtin_clzl w = length (takeWhile (\<lambda>i. \<not> bit w (63 - i)) [0..<64])"

definition ffs_long :: "u64 \<Rightarrow> nat" where
  "ffs_long word = builtin_ctzl word"

definition fls_index :: "u64 \<Rightarrow> nat" where
  "fls_index word = 8 * 8 - 1 - builtin_clzl word"

definition ffz :: "u64 \<Rightarrow> nat" where
  "ffz x = ffs_long (NOT x)"

definition fls :: "u32 \<Rightarrow> nat" where
  "fls x = (if x \<noteq> 0 then 4 * 8 - length (takeWhile (\<lambda>i. \<not> bit x (31 - i)) [0..<32]) else 0)"

definition fls64 :: "u64 \<Rightarrow> nat" where
  "fls64 x = (if x = 0 then 0 else fls_index x + 1)"

definition fls_long :: "u64 \<Rightarrow> nat" where
  "fls_long l = fls64 l"

definition ffs64 :: "u64 \<Rightarrow> nat" where
  "ffs64 word = ffs_long word"

definition get_bitmask_order :: "u32 \<Rightarrow> nat" where
  "get_bitmask_order count = fls count"

definition get_count_order :: "u32 \<Rightarrow> int" where
  "get_count_order count = (if count = 0 then - 1 else int (fls (count - 1)))"

definition get_count_order_long :: "u64 \<Rightarrow> int" where
  "get_count_order_long l = (if l = 0 then - 1 else int (fls_long (l - 1)))"

fun fns_loop :: "u64 \<Rightarrow> nat \<Rightarrow> u64" where
  "fns_loop word 0 = word"
| "fns_loop word (Suc n) = (if word \<noteq> 0 then fns_loop (word AND (word - 1)) n else word)"

definition fns :: "u64 \<Rightarrow> nat \<Rightarrow> nat" where
  "fns word n = (let word = fns_loop word n in if word \<noteq> 0 then ffs_long word else BITS_PER_LONG)"

definition sched_find_first_bit :: "u64 list \<Rightarrow> nat" where
  "sched_find_first_bit b = (if b ! 0 \<noteq> 0 then ffs_long (b ! 0) else ffs_long (b ! 1) + 64)"

text \<open>
  Counting: constants are counted by the macro, other words by \<open>__sw_hweight64\<close> of
  lib/hweight.c, which is not in the repository and an argument (\<open>sw\<close>).
\<close>

definition const_hweight8 :: "u64 \<Rightarrow> nat" where
  "const_hweight8 w = sum_list (map (\<lambda>i. if w AND push_bit i 1 \<noteq> 0 then 1 else 0) [0..<8])"

definition const_hweight16 :: "u64 \<Rightarrow> nat" where
  "const_hweight16 w = const_hweight8 w + const_hweight8 (drop_bit 8 w)"

definition const_hweight32 :: "u64 \<Rightarrow> nat" where
  "const_hweight32 w = const_hweight16 w + const_hweight16 (drop_bit 16 w)"

definition const_hweight64 :: "u64 \<Rightarrow> nat" where
  "const_hweight64 w = const_hweight32 w + const_hweight32 (drop_bit 32 w)"

definition arch_hweight64 :: "(u64 \<Rightarrow> nat) \<Rightarrow> u64 \<Rightarrow> nat" where
  "arch_hweight64 sw w = sw w"

definition hweight64 :: "(u64 \<Rightarrow> nat) \<Rightarrow> bool \<Rightarrow> u64 \<Rightarrow> nat" where
  "hweight64 sw const w = (if const then const_hweight64 w else arch_hweight64 sw w)"

definition hweight_long :: "(u64 \<Rightarrow> nat) \<Rightarrow> bool \<Rightarrow> u64 \<Rightarrow> nat" where
  "hweight_long sw const w = hweight64 sw const w"

subsection \<open>Rotations and sign extension\<close>

definition rol64 :: "u64 \<Rightarrow> u32 \<Rightarrow> u64" where
  "rol64 word shift = push_bit (unat (shift AND 63)) word OR drop_bit (unat (- shift AND 63)) word"

definition ror64 :: "u64 \<Rightarrow> u32 \<Rightarrow> u64" where
  "ror64 word shift = drop_bit (unat (shift AND 63)) word OR push_bit (unat (- shift AND 63)) word"

definition rol32 :: "u32 \<Rightarrow> u32 \<Rightarrow> u32" where
  "rol32 word shift = push_bit (unat (shift AND 31)) word OR drop_bit (unat (- shift AND 31)) word"

definition ror32 :: "u32 \<Rightarrow> u32 \<Rightarrow> u32" where
  "ror32 word shift = drop_bit (unat (shift AND 31)) word OR push_bit (unat (- shift AND 31)) word"

definition rol16 :: "u16 \<Rightarrow> u32 \<Rightarrow> u16" where
  "rol16 word shift = push_bit (unat (shift AND 15)) word OR drop_bit (unat (- shift AND 15)) word"

definition ror16 :: "u16 \<Rightarrow> u32 \<Rightarrow> u16" where
  "ror16 word shift = drop_bit (unat (shift AND 15)) word OR push_bit (unat (- shift AND 15)) word"

definition rol8 :: "u8 \<Rightarrow> u32 \<Rightarrow> u8" where
  "rol8 word shift = push_bit (unat (shift AND 7)) word OR drop_bit (unat (- shift AND 7)) word"

definition ror8 :: "u8 \<Rightarrow> u32 \<Rightarrow> u8" where
  "ror8 word shift = drop_bit (unat (shift AND 7)) word OR push_bit (unat (- shift AND 7)) word"

definition sign_extend32 :: "u32 \<Rightarrow> nat \<Rightarrow> u32" where
  "sign_extend32 value index = (let shift = 31 - index in signed_drop_bit shift (push_bit shift value))"

subsection \<open>Plain operations on bitmaps\<close>

definition generic___set_bit :: "nat \<Rightarrow> u64 list \<Rightarrow> u64 list" where
  "generic___set_bit nr addr = addr[BIT_WORD nr := addr ! BIT_WORD nr OR BIT_MASK nr]"

definition generic___clear_bit :: "nat \<Rightarrow> u64 list \<Rightarrow> u64 list" where
  "generic___clear_bit nr addr = addr[BIT_WORD nr := addr ! BIT_WORD nr AND NOT (BIT_MASK nr)]"

definition generic___change_bit :: "nat \<Rightarrow> u64 list \<Rightarrow> u64 list" where
  "generic___change_bit nr addr = addr[BIT_WORD nr := addr ! BIT_WORD nr XOR BIT_MASK nr]"

definition generic___test_and_set_bit :: "nat \<Rightarrow> u64 list \<Rightarrow> bool \<times> u64 list" where
  "generic___test_and_set_bit nr addr =
     (let old = addr ! BIT_WORD nr in (old AND BIT_MASK nr \<noteq> 0, addr[BIT_WORD nr := old OR BIT_MASK nr]))"

definition generic___test_and_clear_bit :: "nat \<Rightarrow> u64 list \<Rightarrow> bool \<times> u64 list" where
  "generic___test_and_clear_bit nr addr =
     (let old = addr ! BIT_WORD nr in (old AND BIT_MASK nr \<noteq> 0, addr[BIT_WORD nr := old AND NOT (BIT_MASK nr)]))"

definition generic___test_and_change_bit :: "nat \<Rightarrow> u64 list \<Rightarrow> bool \<times> u64 list" where
  "generic___test_and_change_bit nr addr =
     (let old = addr ! BIT_WORD nr in (old AND BIT_MASK nr \<noteq> 0, addr[BIT_WORD nr := old XOR BIT_MASK nr]))"

definition generic_test_bit :: "nat \<Rightarrow> u64 list \<Rightarrow> bool" where
  "generic_test_bit nr addr \<longleftrightarrow> 1 AND drop_bit (nr AND (BITS_PER_LONG - 1)) (addr ! BIT_WORD nr) \<noteq> 0"

definition generic_test_bit_acquire :: "nat \<Rightarrow> u64 list \<Rightarrow> bool" where
  "generic_test_bit_acquire nr addr \<longleftrightarrow>
     1 AND drop_bit (nr AND (BITS_PER_LONG - 1)) (fst (smp_load_acquire (addr ! BIT_WORD nr))) \<noteq> 0"

definition const_test_bit :: "nat \<Rightarrow> u64 list \<Rightarrow> bool" where
  "const_test_bit nr addr \<longleftrightarrow> (let val = addr ! BIT_WORD nr in val AND BIT_MASK nr \<noteq> 0)"

text \<open>
  The macros \<open>__set_bit\<close>, \<open>__clear_bit\<close>, \<open>test_bit\<close>: \<open>bitop\<close> takes the \<open>const_\<close> function when
  number and bitmap are known to the compiler, and only \<open>test_bit\<close> has one of its own.
\<close>

definition plain_set_bit :: "nat \<Rightarrow> u64 list \<Rightarrow> u64 list" where
  "plain_set_bit nr addr = generic___set_bit nr addr"

definition plain_clear_bit :: "nat \<Rightarrow> u64 list \<Rightarrow> u64 list" where
  "plain_clear_bit nr addr = generic___clear_bit nr addr"

definition plain_assign_bit :: "nat \<Rightarrow> u64 list \<Rightarrow> bool \<Rightarrow> u64 list" where
  "plain_assign_bit nr addr value = (if value then plain_set_bit nr addr else plain_clear_bit nr addr)"

definition test_bit :: "bool \<Rightarrow> nat \<Rightarrow> u64 list \<Rightarrow> bool" where
  "test_bit const nr addr = (if const then const_test_bit nr addr else generic_test_bit nr addr)"

subsection \<open>Atomic operations on bitmaps\<close>

text \<open>The index of the word and the operation on it.\<close>

type_synonym 'r bit_access = "nat \<times> ('r, 64) atomic_op"

definition arch_set_bit :: "bool \<Rightarrow> nat \<Rightarrow> unit bit_access" where
  "arch_set_bit lse nr = (BIT_WORD nr, raw_atomic_long_or lse (BIT_MASK nr))"

definition arch_clear_bit :: "bool \<Rightarrow> nat \<Rightarrow> unit bit_access" where
  "arch_clear_bit lse nr = (BIT_WORD nr, raw_atomic_long_andnot lse (BIT_MASK nr))"

definition arch_change_bit :: "bool \<Rightarrow> nat \<Rightarrow> unit bit_access" where
  "arch_change_bit lse nr = (BIT_WORD nr, raw_atomic_long_xor lse (BIT_MASK nr))"

definition arch_test_and_set_bit :: "bool \<Rightarrow> nat \<Rightarrow> bool bit_access" where
  "arch_test_and_set_bit lse nr = (let mask = BIT_MASK nr in
     (BIT_WORD nr, returning (\<lambda>old. old AND mask \<noteq> 0) (raw_atomic_long_fetch_or lse Full mask)))"

definition arch_test_and_clear_bit :: "bool \<Rightarrow> nat \<Rightarrow> bool bit_access" where
  "arch_test_and_clear_bit lse nr = (let mask = BIT_MASK nr in
     (BIT_WORD nr, returning (\<lambda>old. old AND mask \<noteq> 0) (raw_atomic_long_fetch_andnot lse Full mask)))"

definition arch_test_and_change_bit :: "bool \<Rightarrow> nat \<Rightarrow> bool bit_access" where
  "arch_test_and_change_bit lse nr = (let mask = BIT_MASK nr in
     (BIT_WORD nr, returning (\<lambda>old. old AND mask \<noteq> 0) (raw_atomic_long_fetch_xor lse Full mask)))"

text \<open>\<open>set_bit\<close>, \<open>clear_bit\<close> and so on of instrumented-atomic.h.\<close>

definition atomic_set_bit :: "bool \<Rightarrow> nat \<Rightarrow> unit bit_access" where
  "atomic_set_bit lse nr = arch_set_bit lse nr"

definition atomic_clear_bit :: "bool \<Rightarrow> nat \<Rightarrow> unit bit_access" where
  "atomic_clear_bit lse nr = arch_clear_bit lse nr"

definition atomic_change_bit :: "bool \<Rightarrow> nat \<Rightarrow> unit bit_access" where
  "atomic_change_bit lse nr = arch_change_bit lse nr"

definition test_and_set_bit :: "bool \<Rightarrow> nat \<Rightarrow> bool bit_access" where
  "test_and_set_bit lse nr = arch_test_and_set_bit lse nr"

definition test_and_clear_bit :: "bool \<Rightarrow> nat \<Rightarrow> bool bit_access" where
  "test_and_clear_bit lse nr = arch_test_and_clear_bit lse nr"

definition test_and_change_bit :: "bool \<Rightarrow> nat \<Rightarrow> bool bit_access" where
  "test_and_change_bit lse nr = arch_test_and_change_bit lse nr"

definition assign_bit :: "bool \<Rightarrow> nat \<Rightarrow> bool \<Rightarrow> unit bit_access" where
  "assign_bit lse nr value = (if value then atomic_set_bit lse nr else atomic_clear_bit lse nr)"

text \<open>
  The lock operations. The word is first read (\<open>seen\<close>), and found set it is left alone; the
  plain unlock reads the word (\<open>seen\<close>) and stores it without the bit.
\<close>

definition arch_test_and_set_bit_lock :: "bool \<Rightarrow> nat \<Rightarrow> u64 \<Rightarrow> bool + bool bit_access" where
  "arch_test_and_set_bit_lock lse nr seen = (let mask = BIT_MASK nr in
     if seen AND mask \<noteq> 0 then Inl True
     else Inr (BIT_WORD nr, returning (\<lambda>old. old AND mask \<noteq> 0) (raw_atomic_long_fetch_or lse Acquire mask)))"

definition arch_clear_bit_unlock :: "bool \<Rightarrow> nat \<Rightarrow> unit bit_access" where
  "arch_clear_bit_unlock lse nr =
     (BIT_WORD nr, returning (\<lambda>old. ()) (raw_atomic_long_fetch_andnot lse Release (BIT_MASK nr)))"

definition arch___clear_bit_unlock :: "nat \<Rightarrow> u64 \<Rightarrow> u64 \<times> mem_order" where
  "arch___clear_bit_unlock nr seen =
     (let old = seen; old = old AND NOT (BIT_MASK nr) in raw_atomic_long_set_release seen old)"

definition arch_xor_unlock_is_negative_byte :: "bool \<Rightarrow> u64 \<Rightarrow> bool bit_access" where
  "arch_xor_unlock_is_negative_byte lse m =
     (0, returning (\<lambda>old. old AND BIT 7 \<noteq> 0) (raw_atomic_long_fetch_xor lse Release m))"

definition test_and_set_bit_lock :: "bool \<Rightarrow> nat \<Rightarrow> u64 \<Rightarrow> bool + bool bit_access" where
  "test_and_set_bit_lock lse nr seen = arch_test_and_set_bit_lock lse nr seen"

definition clear_bit_unlock :: "bool \<Rightarrow> nat \<Rightarrow> unit bit_access" where
  "clear_bit_unlock lse nr = arch_clear_bit_unlock lse nr"

definition plain_clear_bit_unlock :: "nat \<Rightarrow> u64 \<Rightarrow> u64 \<times> mem_order" where
  "plain_clear_bit_unlock nr seen = arch___clear_bit_unlock nr seen"

definition xor_unlock_is_negative_byte :: "bool \<Rightarrow> u64 \<Rightarrow> bool bit_access" where
  "xor_unlock_is_negative_byte lse m = arch_xor_unlock_is_negative_byte lse m"

text \<open>\<open>set_mask_bits\<close> and \<open>bit_clear_unless\<close>, with the tries of each compare-and-exchange.\<close>

fun set_mask_bits :: "bool \<Rightarrow> 'n::len word \<Rightarrow> 'n word \<Rightarrow> 'n word \<Rightarrow> 'n tries list \<Rightarrow> ('n word, 'n) outcome option" where
  "set_mask_bits lse m bits old [] = None"
| "set_mask_bits lse m bits old (ts # tss) =
     (case raw_try_cmpxchg lse Full old (old AND NOT m OR bits) ts of
        None \<Rightarrow> None
      | Some ((ok, old'), new, ord) \<Rightarrow> if ok then Some (old', new, ord) else set_mask_bits lse m bits old' tss)"

fun bit_clear_unless :: "bool \<Rightarrow> 'n::len word \<Rightarrow> 'n word \<Rightarrow> 'n word \<Rightarrow> 'n tries list \<Rightarrow> (bool, 'n) outcome option" where
  "bit_clear_unless lse clear test old tss =
     (if old AND test \<noteq> 0 then Some (\<not> old AND test \<noteq> 0, old, Relaxed)
      else case tss of
             [] \<Rightarrow> None
           | ts # tss \<Rightarrow> (case raw_try_cmpxchg lse Full old (old AND NOT clear) ts of
                 None \<Rightarrow> None
               | Some ((ok, old'), new, ord) \<Rightarrow>
                   if ok then Some (\<not> old' AND test \<noteq> 0, new, ord) else bit_clear_unless lse clear test old' tss))"

subsection \<open>Little-endian bitmaps\<close>

definition BITOP_LE_SWIZZLE :: nat where
  "BITOP_LE_SWIZZLE = 0"

definition test_bit_le :: "bool \<Rightarrow> nat \<Rightarrow> u64 list \<Rightarrow> bool" where
  "test_bit_le const nr addr = test_bit const (nr XOR BITOP_LE_SWIZZLE) addr"

definition set_bit_le :: "bool \<Rightarrow> nat \<Rightarrow> unit bit_access" where
  "set_bit_le lse nr = atomic_set_bit lse (nr XOR BITOP_LE_SWIZZLE)"

definition clear_bit_le :: "bool \<Rightarrow> nat \<Rightarrow> unit bit_access" where
  "clear_bit_le lse nr = atomic_clear_bit lse (nr XOR BITOP_LE_SWIZZLE)"

definition plain_set_bit_le :: "nat \<Rightarrow> u64 list \<Rightarrow> u64 list" where
  "plain_set_bit_le nr addr = plain_set_bit (nr XOR BITOP_LE_SWIZZLE) addr"

definition plain_clear_bit_le :: "nat \<Rightarrow> u64 list \<Rightarrow> u64 list" where
  "plain_clear_bit_le nr addr = plain_clear_bit (nr XOR BITOP_LE_SWIZZLE) addr"

definition test_and_set_bit_le :: "bool \<Rightarrow> nat \<Rightarrow> bool bit_access" where
  "test_and_set_bit_le lse nr = test_and_set_bit lse (nr XOR BITOP_LE_SWIZZLE)"

definition test_and_clear_bit_le :: "bool \<Rightarrow> nat \<Rightarrow> bool bit_access" where
  "test_and_clear_bit_le lse nr = test_and_clear_bit lse (nr XOR BITOP_LE_SWIZZLE)"

definition plain_test_and_set_bit_le :: "nat \<Rightarrow> u64 list \<Rightarrow> bool \<times> u64 list" where
  "plain_test_and_set_bit_le nr addr = generic___test_and_set_bit (nr XOR BITOP_LE_SWIZZLE) addr"

definition plain_test_and_clear_bit_le :: "nat \<Rightarrow> u64 list \<Rightarrow> bool \<times> u64 list" where
  "plain_test_and_clear_bit_le nr addr = generic___test_and_clear_bit (nr XOR BITOP_LE_SWIZZLE) addr"

end
