(* ===== verification/Bit_Sets.thy ===== *)
theory Bit_Sets
  imports Bitops
begin

text \<open>
  What the bit operations do, in terms of the set of the bits that are set.
\<close>

subsection \<open>Masks\<close>

definition set_bits_of :: "u64 \<Rightarrow> nat set" where
  "set_bits_of w = {i. bit w i}"

lemma in_set_bits [simp]: "i \<in> set_bits_of w \<longleftrightarrow> bit w i"
  by (simp add: set_bits_of_def)

lemma bit_below_64: "bit (w :: u64) i \<Longrightarrow> i < 64"
  using bit_imp_le_length [of w i] by simp

lemma set_bits_below: "set_bits_of w \<subseteq> {..<64}"
  by (auto dest: bit_below_64)

lemma finite_set_bits [simp]: "finite (set_bits_of w)"
  using set_bits_below by (rule finite_subset) simp

lemma set_bits_inject: "set_bits_of v = set_bits_of w \<longleftrightarrow> v = w"
  by (auto simp: set_bits_of_def intro: bit_word_eqI)

lemma set_bits_empty [simp]: "set_bits_of w = {} \<longleftrightarrow> w = 0"
  using set_bits_inject [of w 0] by (auto simp: set_bits_of_def)

lemma bit_one_64 [simp]: "bit (1 :: u64) i \<longleftrightarrow> i = 0"
  by (auto simp: bit_1_iff)

lemma bit_BIT: "bit (BIT n) i \<longleftrightarrow> i = n \<and> n < 64"
  by (auto simp: BIT_def bit_simps)

lemma bit_BIT_MASK [simp]: "bit (BIT_MASK n) i \<longleftrightarrow> i = n mod 64"
  by (auto simp: BIT_MASK_def BITS_PER_LONG_def bit_simps)

lemma and_BIT_MASK: "w AND BIT_MASK n \<noteq> 0 \<longleftrightarrow> bit w (n mod 64)"
proof -
  have "w AND BIT_MASK n = 0 \<longleftrightarrow> (\<forall>i. \<not> bit (w AND BIT_MASK n) i)"
    using set_bits_empty [of "w AND BIT_MASK n"] by (auto simp: set_bits_of_def)
  then show ?thesis by (auto simp: bit_and_iff)
qed

lemma bit_GENMASK: "h < 64 \<Longrightarrow> bit (GENMASK h l) i \<longleftrightarrow> l \<le> i \<and> i \<le> h"
proof -
  assume h: "h < 64"
  have "NOT 0 - push_bit l 1 + 1 = (- (2 ^ l) :: u64)" by (simp add: push_bit_eq_mult)
  also have "\<dots> = NOT (mask l)" by (simp add: minus_exp_eq_not_mask)
  finally show ?thesis using h by (auto simp: GENMASK_def bit_simps)
qed

lemma and_63: "n AND 63 = n mod (64 :: nat)"
  using take_bit_eq_mask [of 6 n] by (simp add: take_bit_eq_mod mask_eq_exp_minus_1)

subsection \<open>First, last and n-th bit\<close>

lemma takeWhile_upt:
  assumes "k < n" "P k" "\<forall>i<k. \<not> P i"
  shows "length (takeWhile (\<lambda>i. \<not> P i) [0..<n]) = k"
proof -
  have "takeWhile (\<lambda>i. \<not> P i) ([0..<k] @ k # [Suc k..<n]) = [0..<k]"
    using assms by (subst takeWhile_append2) auto
  moreover have "[0..<n] = [0..<k] @ k # [Suc k..<n]"
    using assms(1) upt_add_eq_append [of 0 k "n - k"] by (simp add: upt_conv_Cons [of k n])
  ultimately show ?thesis by simp
qed

lemma ffs_long_eq: "bit w k \<Longrightarrow> \<forall>i<k. \<not> bit w i \<Longrightarrow> ffs_long w = k"
  unfolding ffs_long_def builtin_ctzl_def by (rule takeWhile_upt) (auto dest: bit_below_64)

lemma ffs_long_Min: "w \<noteq> 0 \<Longrightarrow> ffs_long w = Min (set_bits_of w)"
proof -
  assume "w \<noteq> 0"
  then have "set_bits_of w \<noteq> {}" by simp
  then have "Min (set_bits_of w) \<in> set_bits_of w" by (rule Min_in [OF finite_set_bits])
  moreover have "\<forall>i < Min (set_bits_of w). i \<notin> set_bits_of w"
    using Min_le [OF finite_set_bits [of w]] by (meson leD)
  ultimately show ?thesis by (intro ffs_long_eq) auto
qed

lemma fls_index_eq:
  assumes "bit w k" "\<forall>i>k. \<not> bit w i"
  shows "fls_index w = k"
proof -
  have k: "k < 64" using assms(1) by (rule bit_below_64)
  have "builtin_clzl w = 63 - k"
    unfolding builtin_clzl_def by (rule takeWhile_upt) (use assms k in auto)
  with k show ?thesis by (simp add: fls_index_def)
qed

lemma fls_index_Max: "w \<noteq> 0 \<Longrightarrow> fls_index w = Max (set_bits_of w)"
proof -
  assume "w \<noteq> 0"
  then have "set_bits_of w \<noteq> {}" by simp
  then have "Max (set_bits_of w) \<in> set_bits_of w" by (rule Max_in [OF finite_set_bits])
  moreover have "\<forall>i > Max (set_bits_of w). i \<notin> set_bits_of w"
    using Max_ge [OF finite_set_bits [of w]] by (meson leD)
  ultimately show ?thesis by (intro fls_index_eq) auto
qed

text \<open>\<open>w & (w - 1)\<close> drops the lowest bit.\<close>

lemma minus_one_low:
  fixes w :: "'n::len word"
  assumes k: "bit w k" "\<forall>i<k. \<not> bit w i"
  shows "bit (w AND (w - 1)) i \<longleftrightarrow> bit w i \<and> i \<noteq> k"
proof -
  have kl: "k < LENGTH('n)" using k(1) by (rule bit_imp_le_length)
  let ?y = "w AND NOT (mask (Suc k))"
  have w: "w = ?y OR 2 ^ k"
    by (rule bit_word_eqI) (use k kl in \<open>auto simp: bit_simps less_Suc_eq\<close>)
  have "?y AND 2 ^ k = 0" by (rule bit_word_eqI) (auto simp: bit_simps)
  then have "w = ?y + 2 ^ k" using w by (simp add: disjunctive_add_eq_or)
  then have "w - 1 = ?y + (2 ^ k - 1)" by (metis add_diff_eq)
  also have "2 ^ k - 1 = (mask k :: 'n word)" by (simp add: mask_eq_exp_minus_1)
  also have "?y + mask k = ?y OR mask k"
    by (rule disjunctive_add_eq_or) (rule bit_word_eqI, auto simp: bit_simps)
  finally have "w AND (w - 1) = w AND (?y OR mask k)" by simp
  then show ?thesis using k kl by (auto simp: bit_simps less_Suc_eq dest: bit_imp_le_length)
qed

lemma drop_lowest:
  assumes "w \<noteq> 0"
  shows "set_bits_of (w AND (w - 1)) = set_bits_of w - {Min (set_bits_of w)}"
proof -
  have ne: "set_bits_of w \<noteq> {}" using assms by simp
  have m: "bit w (Min (set_bits_of w))" using Min_in [OF finite_set_bits ne] by simp
  have "\<forall>i < Min (set_bits_of w). \<not> bit w i"
    using Min_le [OF finite_set_bits [of w]] by (metis in_set_bits leD)
  from minus_one_low [OF m this] show ?thesis by (auto simp: set_bits_of_def)
qed

definition bit_list :: "u64 \<Rightarrow> nat list" where
  "bit_list w = sorted_list_of_set (set_bits_of w)"

lemma bit_list_Cons: "w \<noteq> 0 \<Longrightarrow> bit_list w = Min (set_bits_of w) # bit_list (w AND (w - 1))"
  unfolding bit_list_def drop_lowest by (rule sorted_list_of_set_nonempty) simp_all

lemma bit_list_fns_loop: "bit_list (fns_loop w n) = drop n (bit_list w)"
proof (induction w n rule: fns_loop.induct)
  case (2 w n)
  show ?case
  proof (cases "w = 0")
    case True
    then show ?thesis by (simp add: bit_list_def set_bits_of_def)
  next
    case False
    then show ?thesis using 2 by (simp add: bit_list_Cons)
  qed
qed simp

lemma fns_spec: "fns w n = (if n < card (set_bits_of w) then bit_list w ! n else 64)"
proof -
  let ?v = "fns_loop w n"
  have len: "length (bit_list w) = card (set_bits_of w)" by (simp add: bit_list_def)
  show ?thesis
  proof (cases "n < card (set_bits_of w)")
    case True
    then have d: "bit_list ?v = bit_list w ! n # drop (Suc n) (bit_list w)"
      using len by (simp add: bit_list_fns_loop Cons_nth_drop_Suc)
    then have v: "?v \<noteq> 0" by (auto simp: bit_list_def set_bits_of_def)
    then have "Min (set_bits_of ?v) = bit_list w ! n" using d bit_list_Cons [OF v] by simp
    then show ?thesis using True v by (simp add: fns_def ffs_long_Min)
  next
    case False
    then have "bit_list ?v = []" using len by (simp add: bit_list_fns_loop)
    then have "?v = 0" by (simp add: bit_list_def)
    then show ?thesis using False by (simp add: fns_def BITS_PER_LONG_def)
  qed
qed

text \<open>Counting: the macro counts the bits that are set.\<close>

lemma const_hweight8_card: "const_hweight8 w = card (set_bits_of w \<inter> {..<8})"
proof -
  have "w AND push_bit i 1 \<noteq> 0 \<longleftrightarrow> bit w i" if "i < 8" for i
    using and_BIT_MASK [of w i] that by (simp add: BIT_MASK_def BITS_PER_LONG_def)
  then have "const_hweight8 w = (\<Sum>i<8. if bit w i then 1 else 0)"
    unfolding const_hweight8_def by (subst interv_sum_list_conv_sum_set_nat) (auto simp: atLeast0LessThan intro!: sum.cong)
  also have "\<dots> = card (set_bits_of w \<inter> {..<8})"
    by (simp add: sum.If_cases set_bits_of_def Int_commute)
  finally show ?thesis .
qed

lemma card_split:
  "card (set_bits_of w \<inter> {..<n}) + card (set_bits_of (drop_bit n w) \<inter> {..<m}) = card (set_bits_of w \<inter> {..<n + m})"
proof -
  have "set_bits_of w \<inter> {..<n + m} = set_bits_of w \<inter> {..<n} \<union> (\<lambda>i. n + i) ` (set_bits_of (drop_bit n w) \<inter> {..<m})"
  proof (rule set_eqI)
    fix x
    show "x \<in> set_bits_of w \<inter> {..<n + m} \<longleftrightarrow>
        x \<in> set_bits_of w \<inter> {..<n} \<union> (\<lambda>i. n + i) ` (set_bits_of (drop_bit n w) \<inter> {..<m})"
    proof (cases "x < n")
      case False
      then obtain i where x: "x = n + i" by (metis le_add_diff_inverse linorder_not_less)
      show ?thesis unfolding x by (auto simp: bit_drop_bit_eq image_iff add.commute)
    qed (auto simp: image_iff)
  qed
  then show ?thesis
    by (simp add: card_Un_disjoint card_image disjoint_iff image_iff)
qed

lemma const_hweight64_card: "const_hweight64 w = card (set_bits_of w)"
proof -
  have 16: "const_hweight16 v = card (set_bits_of v \<inter> {..<16})" for v
    using card_split [of v 8 8] by (simp add: const_hweight16_def const_hweight8_card)
  have 32: "const_hweight32 v = card (set_bits_of v \<inter> {..<32})" for v
    using card_split [of v 16 16] by (simp add: const_hweight32_def 16)
  have "const_hweight64 w = card (set_bits_of w \<inter> {..<64})"
    using card_split [of w 32 32] by (simp add: const_hweight64_def 32)
  then show ?thesis using set_bits_below [of w] by (simp add: Int_absorb2)
qed

subsection \<open>Bitmaps\<close>

definition covers :: "u64 list \<Rightarrow> nat \<Rightarrow> bool" where
  "covers bm n \<longleftrightarrow> n div 64 < length bm"

definition bitmap_bits :: "u64 list \<Rightarrow> nat set" where
  "bitmap_bits bm = {n. covers bm n \<and> bit (bm ! (n div 64)) (n mod 64)}"

lemma covers_below: "covers bm n \<Longrightarrow> m \<le> n \<Longrightarrow> covers bm m"
  unfolding covers_def using div_le_mono [of m n 64] by simp

lemma in_bitmap_bits: "n \<in> bitmap_bits bm \<longleftrightarrow> covers bm n \<and> bit (bm ! (n div 64)) (n mod 64)"
  by (simp add: bitmap_bits_def)

lemma bitmap_bits_single: "bitmap_bits [w] = set_bits_of w"
proof (rule set_eqI)
  fix n
  show "n \<in> bitmap_bits [w] \<longleftrightarrow> n \<in> set_bits_of w"
    using bit_below_64 [of w n] by (cases "n < 64") (auto simp: in_bitmap_bits covers_def)
qed

lemma finite_bitmap_bits [simp]: "finite (bitmap_bits bm)"
  by (rule finite_subset [of _ "{..<64 * length bm}"]) (auto simp: in_bitmap_bits covers_def)

text \<open>A change to one word changes the bits of that word.\<close>

lemma bitmap_bits_update:
  "m \<in> bitmap_bits (bm[k := w]) \<longleftrightarrow> covers bm m \<and> bit (if m div 64 = k then w else bm ! (m div 64)) (m mod 64)"
  by (auto simp: in_bitmap_bits covers_def)

lemma same_bit: "m div 64 = n div 64 \<Longrightarrow> m mod 64 = n mod (64 :: nat) \<longleftrightarrow> m = n"
  by (metis div_mult_mod_eq)

lemma covers_update [simp]: "covers (bm[k := w]) n \<longleftrightarrow> covers bm n"
  by (simp add: covers_def)

lemmas bit_index = BIT_WORD_def BITS_PER_LONG_def

lemma one_bit_update:
  assumes "covers bm n" "\<And>i. i < 64 \<Longrightarrow> bit w i \<longleftrightarrow> (if i = n mod 64 then b else bit (bm ! (n div 64)) i)"
  shows "bitmap_bits (bm[n div 64 := w]) = (if b then insert n (bitmap_bits bm) else bitmap_bits bm - {n})"
proof (rule set_eqI)
  fix m
  show "m \<in> bitmap_bits (bm[n div 64 := w]) \<longleftrightarrow> m \<in> (if b then insert n (bitmap_bits bm) else bitmap_bits bm - {n})"
  proof (cases "m div 64 = n div 64")
    case True
    have "covers bm m" using assms(1) True by (simp add: covers_def)
    then have "m \<in> bitmap_bits (bm[n div 64 := w]) \<longleftrightarrow> (if m = n then b else m \<in> bitmap_bits bm)"
      using assms(2) [of "m mod 64"] True same_bit [OF True]
      by (simp only: bitmap_bits_update) (simp add: in_bitmap_bits)
    then show ?thesis by simp
  next
    case False
    then have "m \<noteq> n" by auto
    with False show ?thesis by (auto simp: bitmap_bits_update in_bitmap_bits)
  qed
qed

lemma set_bit_bits: "covers bm n \<Longrightarrow> bitmap_bits (generic___set_bit n bm) = insert n (bitmap_bits bm)"
  unfolding generic___set_bit_def bit_index
  using one_bit_update [of bm n "bm ! (n div 64) OR BIT_MASK n" True] by (simp add: bit_or_iff)

lemma clear_bit_bits: "covers bm n \<Longrightarrow> bitmap_bits (generic___clear_bit n bm) = bitmap_bits bm - {n}"
  unfolding generic___clear_bit_def bit_index
  using one_bit_update [of bm n "bm ! (n div 64) AND NOT (BIT_MASK n)" False] by (simp add: bit_and_iff bit_not_iff)

lemma change_bit_bits:
  "covers bm n \<Longrightarrow> bitmap_bits (generic___change_bit n bm) = (if n \<in> bitmap_bits bm then bitmap_bits bm - {n} else insert n (bitmap_bits bm))"
  unfolding generic___change_bit_def bit_index
  using one_bit_update [of bm n "bm ! (n div 64) XOR BIT_MASK n" "n \<notin> bitmap_bits bm"]
  by (simp add: bit_xor_iff in_bitmap_bits)

lemma assign_bit_bits:
  "covers bm n \<Longrightarrow> bitmap_bits (plain_assign_bit n bm v) = (if v then insert n (bitmap_bits bm) else bitmap_bits bm - {n})"
  by (simp add: plain_assign_bit_def plain_set_bit_def plain_clear_bit_def set_bit_bits clear_bit_bits)

lemma length_plain_ops [simp]:
  "length (generic___set_bit n bm) = length bm" "length (generic___clear_bit n bm) = length bm"
  "length (plain_assign_bit n bm v) = length bm"
  by (simp_all add: generic___set_bit_def generic___clear_bit_def plain_assign_bit_def plain_set_bit_def plain_clear_bit_def)

lemma test_bit_bits: "covers bm n \<Longrightarrow> test_bit const n bm \<longleftrightarrow> n \<in> bitmap_bits bm"
proof -
  assume c: "covers bm n"
  have one: "1 AND w \<noteq> 0 \<longleftrightarrow> bit w 0" for w :: u64
    using and_BIT_MASK [of w 0] by (simp add: BIT_MASK_def and.commute)
  show ?thesis using c
    by (simp add: test_bit_def const_test_bit_def generic_test_bit_def bit_index and_63 one bit_drop_bit_eq
        and_BIT_MASK in_bitmap_bits)
qed

lemma test_and_ops:
  "generic___test_and_set_bit n bm = (const_test_bit n bm, generic___set_bit n bm)"
  "generic___test_and_clear_bit n bm = (const_test_bit n bm, generic___clear_bit n bm)"
  "generic___test_and_change_bit n bm = (const_test_bit n bm, generic___change_bit n bm)"
  by (simp_all add: generic___test_and_set_bit_def generic___test_and_clear_bit_def generic___test_and_change_bit_def
      const_test_bit_def generic___set_bit_def generic___clear_bit_def generic___change_bit_def Let_def)

subsection \<open>Atomic operations\<close>

text \<open>An atomic operation that nobody disturbs, on a bitmap.\<close>

definition alone :: "'r bit_access \<Rightarrow> u64 list \<Rightarrow> ('r \<times> u64 list) option" where
  "alone = (\<lambda>(i, op) bm. map_option (\<lambda>(r, new, ord). (r, bm[i := new])) (op [(bm ! i, True)]))"

lemma alone_implements: "implements op g f ord \<Longrightarrow> alone (i, op) bm = Some (g (bm ! i), bm[i := f (bm ! i)])"
  by (rule implements_once [of op g f ord "bm ! i"]) (auto simp: alone_def)

lemmas atomic_bit_defs = atomic_set_bit_def atomic_clear_bit_def atomic_change_bit_def test_and_set_bit_def
  test_and_clear_bit_def test_and_change_bit_def arch_set_bit_def arch_clear_bit_def arch_change_bit_def
  arch_test_and_set_bit_def arch_test_and_clear_bit_def arch_test_and_change_bit_def Let_def

lemma atomic_is_plain:
  "alone (atomic_set_bit lse n) bm = Some ((), generic___set_bit n bm)"
  "alone (atomic_clear_bit lse n) bm = Some ((), generic___clear_bit n bm)"
  "alone (atomic_change_bit lse n) bm = Some ((), generic___change_bit n bm)"
  by (simp_all add: atomic_bit_defs alone_implements [OF raw_atomic_long_bitwise(1)]
      alone_implements [OF raw_atomic_long_bitwise(2)] alone_implements [OF raw_atomic_long_bitwise(3)]
      generic___set_bit_def generic___clear_bit_def generic___change_bit_def)

lemma atomic_test_is_plain:
  "alone (test_and_set_bit lse n) bm = Some (generic___test_and_set_bit n bm)"
  "alone (test_and_clear_bit lse n) bm = Some (generic___test_and_clear_bit n bm)"
  "alone (test_and_change_bit lse n) bm = Some (generic___test_and_change_bit n bm)"
  by (simp_all add: atomic_bit_defs alone_implements [OF implements_returning [OF raw_atomic_long_bitwise(4)]]
      alone_implements [OF implements_returning [OF raw_atomic_long_bitwise(5)]]
      alone_implements [OF implements_returning [OF raw_atomic_long_bitwise(6)]]
      generic___test_and_set_bit_def generic___test_and_clear_bit_def generic___test_and_change_bit_def)

end
