(* ===== verification/Find_Bit.thy ===== *)
theory Find_Bit
  imports Bit_Sets
begin

text \<open>
  Finding bits in a bitmap and iterating over them (kheaders/include/linux/find.h). A bitmap
  whose size the compiler knows (\<open>const\<close>) to be at most a word is searched inline; the
  functions of lib/find\_bit.c that search the others are not in the repository: they are the
  fields of the argument \<open>L\<close>.
\<close>

subsection \<open>Searching\<close>

record find_lib =
  lib_find_next_bit :: "u64 list \<Rightarrow> nat \<Rightarrow> nat \<Rightarrow> nat"
  lib_find_next_and_bit :: "u64 list \<Rightarrow> u64 list \<Rightarrow> nat \<Rightarrow> nat \<Rightarrow> nat"
  lib_find_next_andnot_bit :: "u64 list \<Rightarrow> u64 list \<Rightarrow> nat \<Rightarrow> nat \<Rightarrow> nat"
  lib_find_next_or_bit :: "u64 list \<Rightarrow> u64 list \<Rightarrow> nat \<Rightarrow> nat \<Rightarrow> nat"
  lib_find_next_zero_bit :: "u64 list \<Rightarrow> nat \<Rightarrow> nat \<Rightarrow> nat"
  lib_find_first_bit :: "u64 list \<Rightarrow> nat \<Rightarrow> nat"
  lib_find_nth_bit :: "u64 list \<Rightarrow> nat \<Rightarrow> nat \<Rightarrow> nat"
  lib_find_nth_and_bit :: "u64 list \<Rightarrow> u64 list \<Rightarrow> nat \<Rightarrow> nat \<Rightarrow> nat"
  lib_find_nth_andnot_bit :: "u64 list \<Rightarrow> u64 list \<Rightarrow> nat \<Rightarrow> nat \<Rightarrow> nat"
  lib_find_nth_and_andnot_bit :: "u64 list \<Rightarrow> u64 list \<Rightarrow> u64 list \<Rightarrow> nat \<Rightarrow> nat \<Rightarrow> nat"
  lib_find_first_and_bit :: "u64 list \<Rightarrow> u64 list \<Rightarrow> nat \<Rightarrow> nat"
  lib_find_first_and_and_bit :: "u64 list \<Rightarrow> u64 list \<Rightarrow> u64 list \<Rightarrow> nat \<Rightarrow> nat"
  lib_find_first_zero_bit :: "u64 list \<Rightarrow> nat \<Rightarrow> nat"
  lib_find_last_bit :: "u64 list \<Rightarrow> nat \<Rightarrow> nat"

definition small_const_nbits :: "bool \<Rightarrow> nat \<Rightarrow> bool" where
  "small_const_nbits const nbits \<longleftrightarrow> const \<and> nbits \<le> BITS_PER_LONG \<and> nbits > 0"

definition find_next_bit :: "find_lib \<Rightarrow> bool \<Rightarrow> u64 list \<Rightarrow> nat \<Rightarrow> nat \<Rightarrow> nat" where
  "find_next_bit L const addr sz offset =
     (if small_const_nbits const sz then
        if offset \<ge> sz then sz
        else let val = addr ! 0 AND GENMASK (sz - 1) offset in if val \<noteq> 0 then ffs_long val else sz
      else lib_find_next_bit L addr sz offset)"

definition find_next_and_bit :: "find_lib \<Rightarrow> bool \<Rightarrow> u64 list \<Rightarrow> u64 list \<Rightarrow> nat \<Rightarrow> nat \<Rightarrow> nat" where
  "find_next_and_bit L const addr1 addr2 sz offset =
     (if small_const_nbits const sz then
        if offset \<ge> sz then sz
        else let val = addr1 ! 0 AND addr2 ! 0 AND GENMASK (sz - 1) offset in if val \<noteq> 0 then ffs_long val else sz
      else lib_find_next_and_bit L addr1 addr2 sz offset)"

definition find_next_andnot_bit :: "find_lib \<Rightarrow> bool \<Rightarrow> u64 list \<Rightarrow> u64 list \<Rightarrow> nat \<Rightarrow> nat \<Rightarrow> nat" where
  "find_next_andnot_bit L const addr1 addr2 sz offset =
     (if small_const_nbits const sz then
        if offset \<ge> sz then sz
        else let val = addr1 ! 0 AND NOT (addr2 ! 0) AND GENMASK (sz - 1) offset in if val \<noteq> 0 then ffs_long val else sz
      else lib_find_next_andnot_bit L addr1 addr2 sz offset)"

definition find_next_or_bit :: "find_lib \<Rightarrow> bool \<Rightarrow> u64 list \<Rightarrow> u64 list \<Rightarrow> nat \<Rightarrow> nat \<Rightarrow> nat" where
  "find_next_or_bit L const addr1 addr2 sz offset =
     (if small_const_nbits const sz then
        if offset \<ge> sz then sz
        else let val = (addr1 ! 0 OR addr2 ! 0) AND GENMASK (sz - 1) offset in if val \<noteq> 0 then ffs_long val else sz
      else lib_find_next_or_bit L addr1 addr2 sz offset)"

definition find_next_zero_bit :: "find_lib \<Rightarrow> bool \<Rightarrow> u64 list \<Rightarrow> nat \<Rightarrow> nat \<Rightarrow> nat" where
  "find_next_zero_bit L const addr sz offset =
     (if small_const_nbits const sz then
        if offset \<ge> sz then sz
        else let val = addr ! 0 OR NOT (GENMASK (sz - 1) offset) in if val = NOT 0 then sz else ffz val
      else lib_find_next_zero_bit L addr sz offset)"

definition find_first_bit :: "find_lib \<Rightarrow> bool \<Rightarrow> u64 list \<Rightarrow> nat \<Rightarrow> nat" where
  "find_first_bit L const addr sz =
     (if small_const_nbits const sz then
        let val = addr ! 0 AND GENMASK (sz - 1) 0 in if val \<noteq> 0 then ffs_long val else sz
      else lib_find_first_bit L addr sz)"

definition find_nth_bit :: "find_lib \<Rightarrow> bool \<Rightarrow> u64 list \<Rightarrow> nat \<Rightarrow> nat \<Rightarrow> nat" where
  "find_nth_bit L const addr sz n =
     (if n \<ge> sz then sz
      else if small_const_nbits const sz then
        let val = addr ! 0 AND GENMASK (sz - 1) 0 in if val \<noteq> 0 then fns val n else sz
      else lib_find_nth_bit L addr sz n)"

definition find_nth_and_bit :: "find_lib \<Rightarrow> bool \<Rightarrow> u64 list \<Rightarrow> u64 list \<Rightarrow> nat \<Rightarrow> nat \<Rightarrow> nat" where
  "find_nth_and_bit L const addr1 addr2 sz n =
     (if n \<ge> sz then sz
      else if small_const_nbits const sz then
        let val = addr1 ! 0 AND addr2 ! 0 AND GENMASK (sz - 1) 0 in if val \<noteq> 0 then fns val n else sz
      else lib_find_nth_and_bit L addr1 addr2 sz n)"

definition find_nth_andnot_bit :: "find_lib \<Rightarrow> bool \<Rightarrow> u64 list \<Rightarrow> u64 list \<Rightarrow> nat \<Rightarrow> nat \<Rightarrow> nat" where
  "find_nth_andnot_bit L const addr1 addr2 sz n =
     (if n \<ge> sz then sz
      else if small_const_nbits const sz then
        let val = addr1 ! 0 AND NOT (addr2 ! 0) AND GENMASK (sz - 1) 0 in if val \<noteq> 0 then fns val n else sz
      else lib_find_nth_andnot_bit L addr1 addr2 sz n)"

definition find_nth_and_andnot_bit :: "find_lib \<Rightarrow> bool \<Rightarrow> u64 list \<Rightarrow> u64 list \<Rightarrow> u64 list \<Rightarrow> nat \<Rightarrow> nat \<Rightarrow> nat" where
  "find_nth_and_andnot_bit L const addr1 addr2 addr3 sz n =
     (if n \<ge> sz then sz
      else if small_const_nbits const sz then
        let val = addr1 ! 0 AND addr2 ! 0 AND NOT (addr3 ! 0) AND GENMASK (sz - 1) 0 in if val \<noteq> 0 then fns val n else sz
      else lib_find_nth_and_andnot_bit L addr1 addr2 addr3 sz n)"

definition find_first_and_bit :: "find_lib \<Rightarrow> bool \<Rightarrow> u64 list \<Rightarrow> u64 list \<Rightarrow> nat \<Rightarrow> nat" where
  "find_first_and_bit L const addr1 addr2 sz =
     (if small_const_nbits const sz then
        let val = addr1 ! 0 AND addr2 ! 0 AND GENMASK (sz - 1) 0 in if val \<noteq> 0 then ffs_long val else sz
      else lib_find_first_and_bit L addr1 addr2 sz)"

definition find_first_and_and_bit :: "find_lib \<Rightarrow> bool \<Rightarrow> u64 list \<Rightarrow> u64 list \<Rightarrow> u64 list \<Rightarrow> nat \<Rightarrow> nat" where
  "find_first_and_and_bit L const addr1 addr2 addr3 sz =
     (if small_const_nbits const sz then
        let val = addr1 ! 0 AND addr2 ! 0 AND addr3 ! 0 AND GENMASK (sz - 1) 0 in if val \<noteq> 0 then ffs_long val else sz
      else lib_find_first_and_and_bit L addr1 addr2 addr3 sz)"

definition find_first_zero_bit :: "find_lib \<Rightarrow> bool \<Rightarrow> u64 list \<Rightarrow> nat \<Rightarrow> nat" where
  "find_first_zero_bit L const addr sz =
     (if small_const_nbits const sz then
        let val = addr ! 0 OR NOT (GENMASK (sz - 1) 0) in if val = NOT 0 then sz else ffz val
      else lib_find_first_zero_bit L addr sz)"

definition find_last_bit :: "find_lib \<Rightarrow> bool \<Rightarrow> u64 list \<Rightarrow> nat \<Rightarrow> nat" where
  "find_last_bit L const addr sz =
     (if small_const_nbits const sz then
        let val = addr ! 0 AND GENMASK (sz - 1) 0 in if val \<noteq> 0 then fls_index val else sz
      else lib_find_last_bit L addr sz)"

text \<open>The second search of the wrapping functions ends at \<open>offset\<close> or \<open>start\<close>, known to the compiler or not (\<open>c'\<close>).\<close>

definition find_next_and_bit_wrap :: "find_lib \<Rightarrow> bool \<Rightarrow> bool \<Rightarrow> u64 list \<Rightarrow> u64 list \<Rightarrow> nat \<Rightarrow> nat \<Rightarrow> nat" where
  "find_next_and_bit_wrap L const c' addr1 addr2 sz offset =
     (let b = find_next_and_bit L const addr1 addr2 sz offset in
      if b < sz \<or> offset = 0 then b
      else let b = find_first_and_bit L c' addr1 addr2 offset in if b < offset then b else sz)"

definition find_next_bit_wrap :: "find_lib \<Rightarrow> bool \<Rightarrow> bool \<Rightarrow> u64 list \<Rightarrow> nat \<Rightarrow> nat \<Rightarrow> nat" where
  "find_next_bit_wrap L const c' addr sz offset =
     (let b = find_next_bit L const addr sz offset in
      if b < sz \<or> offset = 0 then b
      else let b = find_first_bit L c' addr offset in if b < offset then b else sz)"

definition for_each_wrap :: "find_lib \<Rightarrow> bool \<Rightarrow> bool \<Rightarrow> u64 list \<Rightarrow> nat \<Rightarrow> nat \<Rightarrow> nat \<Rightarrow> nat" where
  "for_each_wrap L const c' bitmap sz start n =
     (let wrapped = (\<lambda>n. let b = find_next_bit L c' bitmap start n in if b < start then b else sz) in
      if n > start then
        let b = find_next_bit L const bitmap sz n in if b < sz then b else wrapped 0
      else wrapped n)"

definition find_next_zero_bit_le :: "find_lib \<Rightarrow> bool \<Rightarrow> u64 list \<Rightarrow> nat \<Rightarrow> nat \<Rightarrow> nat" where
  "find_next_zero_bit_le L const addr sz offset = find_next_zero_bit L const addr sz offset"

definition find_next_bit_le :: "find_lib \<Rightarrow> bool \<Rightarrow> u64 list \<Rightarrow> nat \<Rightarrow> nat \<Rightarrow> nat" where
  "find_next_bit_le L const addr sz offset = find_next_bit L const addr sz offset"

definition find_first_zero_bit_le :: "find_lib \<Rightarrow> bool \<Rightarrow> u64 list \<Rightarrow> nat \<Rightarrow> nat" where
  "find_first_zero_bit_le L const addr sz = find_first_zero_bit L const addr sz"

subsection \<open>Iterating\<close>

text \<open>The bits a loop visits, when its body leaves the bitmap alone; \<open>None\<close> is a loop that does not end.\<close>

partial_function (option) bit_walk :: "(nat \<Rightarrow> nat) \<Rightarrow> nat \<Rightarrow> nat \<Rightarrow> nat list option" where
  "bit_walk nxt sz b =
     (let b = nxt b in
      if b < sz then Option.bind (bit_walk nxt sz (b + 1)) (\<lambda>bs. Some (b # bs)) else Some [])"

definition for_each_set_bit :: "find_lib \<Rightarrow> bool \<Rightarrow> u64 list \<Rightarrow> nat \<Rightarrow> nat list option" where
  "for_each_set_bit L const addr sz = bit_walk (find_next_bit L const addr sz) sz 0"

definition for_each_and_bit :: "find_lib \<Rightarrow> bool \<Rightarrow> u64 list \<Rightarrow> u64 list \<Rightarrow> nat \<Rightarrow> nat list option" where
  "for_each_and_bit L const addr1 addr2 sz = bit_walk (find_next_and_bit L const addr1 addr2 sz) sz 0"

definition for_each_andnot_bit :: "find_lib \<Rightarrow> bool \<Rightarrow> u64 list \<Rightarrow> u64 list \<Rightarrow> nat \<Rightarrow> nat list option" where
  "for_each_andnot_bit L const addr1 addr2 sz = bit_walk (find_next_andnot_bit L const addr1 addr2 sz) sz 0"

definition for_each_or_bit :: "find_lib \<Rightarrow> bool \<Rightarrow> u64 list \<Rightarrow> u64 list \<Rightarrow> nat \<Rightarrow> nat list option" where
  "for_each_or_bit L const addr1 addr2 sz = bit_walk (find_next_or_bit L const addr1 addr2 sz) sz 0"

definition for_each_set_bit_from :: "find_lib \<Rightarrow> bool \<Rightarrow> nat \<Rightarrow> u64 list \<Rightarrow> nat \<Rightarrow> nat list option" where
  "for_each_set_bit_from L const b addr sz = bit_walk (find_next_bit L const addr sz) sz b"

definition for_each_clear_bit :: "find_lib \<Rightarrow> bool \<Rightarrow> u64 list \<Rightarrow> nat \<Rightarrow> nat list option" where
  "for_each_clear_bit L const addr sz = bit_walk (find_next_zero_bit L const addr sz) sz 0"

definition for_each_clear_bit_from :: "find_lib \<Rightarrow> bool \<Rightarrow> nat \<Rightarrow> u64 list \<Rightarrow> nat \<Rightarrow> nat list option" where
  "for_each_clear_bit_from L const b addr sz = bit_walk (find_next_zero_bit L const addr sz) sz b"

partial_function (option) range_walk :: "(nat \<Rightarrow> nat) \<Rightarrow> (nat \<Rightarrow> nat) \<Rightarrow> nat \<Rightarrow> nat \<Rightarrow> (nat \<times> nat) list option" where
  "range_walk nxt nxt' sz b =
     (let b = nxt b; e = nxt' (b + 1) in
      if b < sz then Option.bind (range_walk nxt nxt' sz (e + 1)) (\<lambda>rs. Some ((b, e) # rs)) else Some [])"

definition for_each_set_bitrange :: "find_lib \<Rightarrow> bool \<Rightarrow> u64 list \<Rightarrow> nat \<Rightarrow> (nat \<times> nat) list option" where
  "for_each_set_bitrange L const addr sz =
     range_walk (find_next_bit L const addr sz) (find_next_zero_bit L const addr sz) sz 0"

definition for_each_set_bitrange_from :: "find_lib \<Rightarrow> bool \<Rightarrow> nat \<Rightarrow> u64 list \<Rightarrow> nat \<Rightarrow> (nat \<times> nat) list option" where
  "for_each_set_bitrange_from L const b addr sz =
     range_walk (find_next_bit L const addr sz) (find_next_zero_bit L const addr sz) sz b"

definition for_each_clear_bitrange :: "find_lib \<Rightarrow> bool \<Rightarrow> u64 list \<Rightarrow> nat \<Rightarrow> (nat \<times> nat) list option" where
  "for_each_clear_bitrange L const addr sz =
     range_walk (find_next_zero_bit L const addr sz) (find_next_bit L const addr sz) sz 0"

definition for_each_clear_bitrange_from :: "find_lib \<Rightarrow> bool \<Rightarrow> nat \<Rightarrow> u64 list \<Rightarrow> nat \<Rightarrow> (nat \<times> nat) list option" where
  "for_each_clear_bitrange_from L const b addr sz =
     range_walk (find_next_zero_bit L const addr sz) (find_next_bit L const addr sz) sz b"

text \<open>The wrapping loop: the position is found before the first test.\<close>

partial_function (option) wrap_walk :: "(nat \<Rightarrow> nat) \<Rightarrow> nat \<Rightarrow> nat \<Rightarrow> nat list option" where
  "wrap_walk nxt sz b =
     (if b < sz then Option.bind (wrap_walk nxt sz (nxt (b + 1))) (\<lambda>bs. Some (b # bs)) else Some [])"

definition for_each_set_bit_wrap :: "find_lib \<Rightarrow> bool \<Rightarrow> bool \<Rightarrow> u64 list \<Rightarrow> nat \<Rightarrow> nat \<Rightarrow> nat list option" where
  "for_each_set_bit_wrap L const c' addr sz start =
     wrap_walk (for_each_wrap L const c' addr sz start) sz (find_next_bit_wrap L const c' addr sz start)"

end
