(* ===== verification/Find_Sets.thy ===== *)
theory Find_Sets
  imports Find_Bit
begin

text \<open>
  What the searches and iterations of find.h return, in terms of the set of bits.
\<close>

subsection \<open>The first member of a set in a range\<close>

definition next_from :: "nat set \<Rightarrow> nat \<Rightarrow> nat \<Rightarrow> nat" where
  "next_from S n off = (let found = {i \<in> S. off \<le> i \<and> i < n} in if found = {} then n else Min found)"

lemma finite_found [simp]: "finite {i \<in> S. off \<le> i \<and> i < (n :: nat)}"
  by simp

lemma next_from_empty: "\<forall>i\<in>S. off \<le> i \<longrightarrow> n \<le> i \<Longrightarrow> next_from S n off = n"
  by (auto simp: next_from_def)

lemma next_from_eq: "k \<in> S \<Longrightarrow> off \<le> k \<Longrightarrow> k < n \<Longrightarrow> \<forall>i\<in>S. off \<le> i \<longrightarrow> k \<le> i \<Longrightarrow> next_from S n off = k"
  unfolding next_from_def Let_def by (subst if_not_P) (auto intro!: Min_eqI)

lemma next_from_cases:
  obtains (none) "next_from S n off = n" "\<forall>i\<in>S. off \<le> i \<longrightarrow> n \<le> i"
  | (some) k where "next_from S n off = k" "k \<in> S" "off \<le> k" "k < n" "\<forall>i\<in>S. off \<le> i \<longrightarrow> k \<le> i"
proof (cases "{i \<in> S. off \<le> i \<and> i < n} = {}")
  case True
  then show thesis by (intro none) (auto simp: next_from_def not_less [symmetric])
next
  case False
  let ?k = "Min {i \<in> S. off \<le> i \<and> i < n}"
  have "?k \<in> {i \<in> S. off \<le> i \<and> i < n}" using False by (intro Min_in) auto
  moreover have "?k \<le> i" if "i \<in> S" "off \<le> i" for i
    using that calculation by (cases "i < n") (auto intro: Min_le)
  ultimately show thesis using False by (intro some [of ?k]) (auto simp: next_from_def)
qed

lemma next_from_cong: "(\<And>i. i < n \<Longrightarrow> i \<in> S \<longleftrightarrow> i \<in> T) \<Longrightarrow> next_from S n off = next_from T n off"
  unfolding next_from_def by (metis (no_types, lifting) Collect_cong)

lemma next_from_less: "next_from S n off < n \<longleftrightarrow> (\<exists>i\<in>S. off \<le> i \<and> i < n)"
  by (cases rule: next_from_cases [of S n off]) (auto simp: not_less [symmetric])

lemma next_from_bounds:
  assumes "off \<le> n"
  shows "off \<le> next_from T n off" "next_from T n off \<le> n" "next_from T n off = n \<or> next_from T n off \<in> T"
    "i \<in> T \<Longrightarrow> off \<le> i \<Longrightarrow> next_from T n off \<le> i"
  using assms by (cases rule: next_from_cases [of T n off]; simp)+

subsection \<open>Searching one word\<close>

lemma set_bits_and [simp]: "set_bits_of (v AND w) = set_bits_of v \<inter> set_bits_of w"
  by (auto simp: bit_and_iff)

lemma set_bits_or [simp]: "set_bits_of (v OR w) = set_bits_of v \<union> set_bits_of w"
  by (auto simp: bit_or_iff)

lemma set_bits_xor: "set_bits_of (v XOR w) = (set_bits_of v - set_bits_of w) \<union> (set_bits_of w - set_bits_of v)"
  by (auto simp: bit_xor_iff)

lemma set_bits_not [simp]: "set_bits_of (NOT w) = {..<64} - set_bits_of w"
  by (auto simp: bit_not_iff)

lemma set_bits_GENMASK: "h < 64 \<Longrightarrow> set_bits_of (GENMASK h l) = {l..h}"
  by (auto simp: bit_GENMASK)

lemma word_found:
  assumes "n \<le> 64" "off < n"
  shows "set_bits_of (w AND GENMASK (n - 1) off) = {i \<in> set_bits_of w. off \<le> i \<and> i < n}"
  using assms by (auto simp: set_bits_GENMASK bit_GENMASK)

lemma word_next:
  assumes "n \<le> 64" "off < n"
  shows "(let val = w AND GENMASK (n - 1) off in if val \<noteq> 0 then ffs_long val else n) = next_from (set_bits_of w) n off"
proof (cases "w AND GENMASK (n - 1) off = 0")
  case True
  then show ?thesis using word_found [OF assms, of w] by (simp add: next_from_def set_bits_of_def)
next
  case False
  then have "set_bits_of (w AND GENMASK (n - 1) off) \<noteq> {}" by (simp only: set_bits_empty not_False_eq_True)
  with False show ?thesis unfolding next_from_def word_found [OF assms, of w, symmetric] by (simp add: ffs_long_Min)
qed

lemma word_next_zero:
  assumes "n \<le> 64" "off < n"
  shows "(let val = w OR NOT (GENMASK (n - 1) off) in if val = NOT 0 then n else ffz val) = next_from (- set_bits_of w) n off"
proof -
  have v: "NOT (w OR NOT (GENMASK (n - 1) off)) = NOT w AND GENMASK (n - 1) off"
    by (rule bit_word_eqI) (auto simp: bit_simps)
  have z: "w OR NOT (GENMASK (n - 1) off) = NOT 0 \<longleftrightarrow> NOT w AND GENMASK (n - 1) off = 0"
    using v by (metis bit.double_compl)
  have "(let val = w OR NOT (GENMASK (n - 1) off) in if val = NOT 0 then n else ffz val) = next_from (set_bits_of (NOT w)) n off"
    using word_next [OF assms, of "NOT w"] by (simp only: Let_def ffz_def v z if_not_P) (simp split: if_splits)
  also have "\<dots> = next_from (- set_bits_of w) n off"
    by (rule next_from_cong) (use assms in auto)
  finally show ?thesis .
qed

subsection \<open>Searching a bitmap\<close>

text \<open>What lib/find\_bit.c documents of the functions for sizes not known to the compiler.\<close>

definition find_lib_ok :: "find_lib \<Rightarrow> bool" where
  "find_lib_ok L \<longleftrightarrow> (\<forall>bm bm' n off. n \<le> 64 * length bm \<longrightarrow> n \<le> 64 * length bm' \<longrightarrow>
     lib_find_next_bit L bm n off = next_from (bitmap_bits bm) n off \<and>
     lib_find_next_and_bit L bm bm' n off = next_from (bitmap_bits bm \<inter> bitmap_bits bm') n off \<and>
     lib_find_next_andnot_bit L bm bm' n off = next_from (bitmap_bits bm - bitmap_bits bm') n off \<and>
     lib_find_next_or_bit L bm bm' n off = next_from (bitmap_bits bm \<union> bitmap_bits bm') n off \<and>
     lib_find_next_zero_bit L bm n off = next_from (- bitmap_bits bm) n off \<and>
     lib_find_first_bit L bm n = next_from (bitmap_bits bm) n 0 \<and>
     lib_find_first_and_bit L bm bm' n = next_from (bitmap_bits bm \<inter> bitmap_bits bm') n 0 \<and>
     lib_find_first_zero_bit L bm n = next_from (- bitmap_bits bm) n 0)"

lemma first_word: "i < 64 \<Longrightarrow> bm \<noteq> [] \<Longrightarrow> i \<in> bitmap_bits bm \<longleftrightarrow> bit (bm ! 0) i"
  by (cases bm) (auto simp: in_bitmap_bits covers_def)

lemma small_cases:
  assumes "small_const_nbits const n" "n \<le> 64 * length bm"
  shows "n \<le> 64" "bm \<noteq> []" "0 < n" "\<And>i. i < n \<Longrightarrow> i \<in> bitmap_bits bm \<longleftrightarrow> bit (bm ! 0) i"
proof -
  show n: "n \<le> 64" "bm \<noteq> []" "0 < n" using assms by (auto simp: small_const_nbits_def BITS_PER_LONG_def)
  then show "i \<in> bitmap_bits bm \<longleftrightarrow> bit (bm ! 0) i" if "i < n" for i
    using first_word [of i bm] that by linarith
qed

lemma next_from_past: "n \<le> off \<Longrightarrow> next_from S n off = n"
  by (rule next_from_empty) auto

lemma find_next_bit_spec:
  assumes "find_lib_ok L" "n \<le> 64 * length bm"
  shows "find_next_bit L const bm n off = next_from (bitmap_bits bm) n off"
proof (cases "small_const_nbits const n")
  case True
  note s = small_cases [OF True assms(2)]
  have "next_from (bitmap_bits bm) n off = next_from (set_bits_of (bm ! 0)) n off" by (rule next_from_cong) (use s in simp)
  then show ?thesis using True word_next [of n off "bm ! 0"] s by (auto simp: find_next_bit_def next_from_past)
next
  case False
  then show ?thesis using assms by (auto simp: find_next_bit_def find_lib_ok_def)
qed

lemma find_next_zero_bit_spec:
  assumes "find_lib_ok L" "n \<le> 64 * length bm"
  shows "find_next_zero_bit L const bm n off = next_from (- bitmap_bits bm) n off"
proof (cases "small_const_nbits const n")
  case True
  note s = small_cases [OF True assms(2)]
  have "next_from (- bitmap_bits bm) n off = next_from (- set_bits_of (bm ! 0)) n off" by (rule next_from_cong) (use s in simp)
  then show ?thesis using True word_next_zero [of n off "bm ! 0"] s by (auto simp: find_next_zero_bit_def next_from_past)
next
  case False
  then show ?thesis using assms by (auto simp: find_next_zero_bit_def find_lib_ok_def)
qed

lemma find_next_two_spec:
  assumes "find_lib_ok L" "n \<le> 64 * length bm" "n \<le> 64 * length bm'"
  shows "find_next_and_bit L const bm bm' n off = next_from (bitmap_bits bm \<inter> bitmap_bits bm') n off"
    "find_next_andnot_bit L const bm bm' n off = next_from (bitmap_bits bm - bitmap_bits bm') n off"
    "find_next_or_bit L const bm bm' n off = next_from (bitmap_bits bm \<union> bitmap_bits bm') n off"
proof -
  let ?all = "find_next_and_bit L const bm bm' n off = next_from (bitmap_bits bm \<inter> bitmap_bits bm') n off \<and>
    find_next_andnot_bit L const bm bm' n off = next_from (bitmap_bits bm - bitmap_bits bm') n off \<and>
    find_next_or_bit L const bm bm' n off = next_from (bitmap_bits bm \<union> bitmap_bits bm') n off"
  have ?all
  proof (cases "small_const_nbits const n")
    case True
    note s = small_cases [OF True assms(2)] and s' = small_cases [OF True assms(3)]
    have "next_from (bitmap_bits bm \<inter> bitmap_bits bm') n off = next_from (set_bits_of (bm ! 0 AND bm' ! 0)) n off"
      "next_from (bitmap_bits bm - bitmap_bits bm') n off = next_from (set_bits_of (bm ! 0 AND NOT (bm' ! 0))) n off"
      "next_from (bitmap_bits bm \<union> bitmap_bits bm') n off = next_from (set_bits_of (bm ! 0 OR bm' ! 0)) n off"
      by (rule next_from_cong; use s s' in \<open>simp add: bit_simps\<close>; use s(1) in linarith)+
    moreover note word_next [of n off "bm ! 0 AND bm' ! 0", OF s(1)] word_next [of n off "bm ! 0 AND NOT (bm' ! 0)", OF s(1)]
      word_next [of n off "bm ! 0 OR bm' ! 0", OF s(1)]
    ultimately show ?thesis using True s
      by (auto simp: find_next_and_bit_def find_next_andnot_bit_def find_next_or_bit_def next_from_past and.assoc)
  next
    case False
    then show ?thesis using assms
      unfolding find_next_and_bit_def find_next_andnot_bit_def find_next_or_bit_def find_lib_ok_def by auto
  qed
  then show "find_next_and_bit L const bm bm' n off = next_from (bitmap_bits bm \<inter> bitmap_bits bm') n off"
    "find_next_andnot_bit L const bm bm' n off = next_from (bitmap_bits bm - bitmap_bits bm') n off"
    "find_next_or_bit L const bm bm' n off = next_from (bitmap_bits bm \<union> bitmap_bits bm') n off" by simp_all
qed

text \<open>The first bit is the next one from 0.\<close>

lemma find_first_is_next:
  assumes "find_lib_ok L" "n \<le> 64 * length bm" "n \<le> 64 * length bm'"
  shows "find_first_bit L const bm n = find_next_bit L const bm n 0"
    "find_first_zero_bit L const bm n = find_next_zero_bit L const bm n 0"
    "find_first_and_bit L const bm bm' n = find_next_and_bit L const bm bm' n 0"
  using assms unfolding find_first_bit_def find_first_zero_bit_def find_first_and_bit_def find_next_bit_def
    find_next_zero_bit_def find_next_and_bit_def find_lib_ok_def
  by (auto simp: small_const_nbits_def)

subsection \<open>Iterating over a bitmap\<close>

lemma sorted_list_next:
  assumes "k \<in> S" "off \<le> k" "k < (n :: nat)" "\<forall>i\<in>S. off \<le> i \<longrightarrow> k \<le> i"
  shows "sorted_list_of_set {i \<in> S. off \<le> i \<and> i < n} = k # sorted_list_of_set {i \<in> S. k + 1 \<le> i \<and> i < n}"
proof -
  have m: "Min {i \<in> S. off \<le> i \<and> i < n} = k" using assms by (intro Min_eqI) auto
  have "{i \<in> S. off \<le> i \<and> i < n} - {k} = {i \<in> S. k + 1 \<le> i \<and> i < n}" using assms by force
  moreover have "{i \<in> S. off \<le> i \<and> i < n} \<noteq> {}" using assms by blast
  ultimately show ?thesis using sorted_list_of_set_nonempty [of "{i \<in> S. off \<le> i \<and> i < n}"] m by simp
qed

lemma bit_walk_visits:
  assumes "\<And>off. nxt off = next_from S n off"
  shows "bit_walk nxt n off = Some (sorted_list_of_set {i \<in> S. off \<le> i \<and> i < n})"
proof (induction "n - off" arbitrary: off rule: less_induct)
  case less
  show ?case
  proof (cases rule: next_from_cases [of S n off])
    case none
    then have e: "{i \<in> S. off \<le> i \<and> i < n} = {}" by auto
    show ?thesis unfolding e using none(1) by (subst bit_walk.simps) (simp add: assms)
  next
    case (some k)
    have "bit_walk nxt n (k + 1) = Some (sorted_list_of_set {i \<in> S. k + 1 \<le> i \<and> i < n})"
      using some by (intro less) linarith
    then show ?thesis using some(1,4) sorted_list_next [OF some(2-5)]
      by (subst bit_walk.simps) (simp add: assms)
  qed
qed

text \<open>Ranges: each is a run of members that goes on as far as it can.\<close>

lemma sorted_list_run:
  assumes "{b..<e} \<subseteq> S" "\<forall>i\<in>S. off \<le> i \<longrightarrow> b \<le> i" "off \<le> b" "b \<le> e" "e \<le> (n :: nat)"
  shows "sorted_list_of_set {i \<in> S. off \<le> i \<and> i < n} = [b..<e] @ sorted_list_of_set {i \<in> S. e \<le> i \<and> i < n}"
  using assms
proof (induction "e - b" arbitrary: b off)
  case 0
  then have "{i \<in> S. off \<le> i \<and> i < n} = {i \<in> S. e \<le> i \<and> i < n}" by force
  with 0 show ?case by simp
next
  case (Suc d)
  then have b: "b < e" "b \<in> S" by auto
  have "sorted_list_of_set {i \<in> S. b + 1 \<le> i \<and> i < n} = [b + 1..<e] @ sorted_list_of_set {i \<in> S. e \<le> i \<and> i < n}"
    by (rule Suc.hyps(1)) (use Suc.prems Suc.hyps(2) b in auto)
  moreover have "sorted_list_of_set {i \<in> S. off \<le> i \<and> i < n} = b # sorted_list_of_set {i \<in> S. b + 1 \<le> i \<and> i < n}"
    by (rule sorted_list_next) (use b Suc.prems in auto)
  ultimately show ?case using b by (simp add: upt_conv_Cons)
qed

definition maximal_runs :: "nat set \<Rightarrow> nat \<Rightarrow> nat \<Rightarrow> (nat \<times> nat) list \<Rightarrow> bool" where
  "maximal_runs S n off rs \<longleftrightarrow> (\<forall>(b, e)\<in>set rs. off \<le> b \<and> b < e \<and> e \<le> n \<and> {b..<e} \<subseteq> S \<and> (e = n \<or> e \<notin> S) \<and> (b = off \<or> b - 1 \<notin> S))"

lemma maximal_runs_later: "maximal_runs S n (e + 1) rs \<Longrightarrow> off \<le> e \<Longrightarrow> e = n \<or> e \<notin> S \<Longrightarrow> maximal_runs S n off rs"
  unfolding maximal_runs_def by (fastforce simp: less_eq_Suc_le)

lemma range_walk_visits:
  assumes "\<And>off. nxt off = next_from S n off" "\<And>off. nxt' off = next_from (- S) n off"
  shows "\<exists>rs. range_walk nxt nxt' n off = Some rs \<and> maximal_runs S n off rs \<and>
    concat (map (\<lambda>(b, e). [b..<e]) rs) = sorted_list_of_set {i \<in> S. off \<le> i \<and> i < n}"
proof (induction "n - off" arbitrary: off rule: less_induct)
  case less
  show ?case
  proof (cases rule: next_from_cases [of S n off])
    case none
    then have e: "{i \<in> S. off \<le> i \<and> i < n} = {}" by auto
    show ?thesis unfolding e using none(1)
      by (subst range_walk.simps) (simp add: assms Let_def maximal_runs_def)
  next
    case (some b)
    let ?e = "next_from (- S) n (b + 1)"
    have "b + 1 \<le> n" using some by simp
    note nb = next_from_bounds [OF this, where T = "- S"]
    then have e: "b < ?e" "?e \<le> n" "?e = n \<or> ?e \<notin> S" by auto
    have run: "{b..<?e} \<subseteq> S"
    proof
      fix i assume i: "i \<in> {b..<?e}"
      show "i \<in> S"
      proof (cases "i = b")
        case False
        with i nb(4) [of i] show ?thesis by force
      qed (use some in simp)
    qed
    have "n - (?e + 1) < n - off" using some e by linarith
    from less [OF this] obtain rs where rs: "range_walk nxt nxt' n (?e + 1) = Some rs" "maximal_runs S n (?e + 1) rs"
      "concat (map (\<lambda>(b, e). [b..<e]) rs) = sorted_list_of_set {i \<in> S. ?e + 1 \<le> i \<and> i < n}" by blast
    have "{i \<in> S. ?e \<le> i \<and> i < n} = {i \<in> S. ?e + 1 \<le> i \<and> i < n}"
      using e(3) by (auto simp: less_eq_Suc_le [symmetric] order_less_le)
    then have "sorted_list_of_set {i \<in> S. off \<le> i \<and> i < n} = [b..<?e] @ sorted_list_of_set {i \<in> S. ?e + 1 \<le> i \<and> i < n}"
      using sorted_list_run [OF run some(5,3) _ e(2)] e by simp
    moreover have "b = off \<or> b - 1 \<notin> S"
    proof (rule disjCI)
      assume "\<not> b - 1 \<notin> S"
      then have b1: "b - 1 \<in> S" by simp
      show "b = off"
      proof (rule ccontr)
        assume "b \<noteq> off"
        with some(3) have "off \<le> b - 1" "0 < b" by auto
        with some(5) b1 have "b \<le> b - 1" by blast
        with \<open>0 < b\<close> show False by simp
      qed
    qed
    then have "maximal_runs S n off ((b, ?e) # rs)"
      using maximal_runs_later [OF rs(2) _ e(3), of off] some e run by (auto simp: maximal_runs_def)
    moreover have "range_walk nxt nxt' n off = Some ((b, ?e) # rs)"
      using rs(1) some(1,4) by (subst range_walk.simps) (simp add: assms Let_def)
    ultimately show ?thesis using rs(3) by auto
  qed
qed

text \<open>The wrapping loop: from \<open>start\<close> to the end, then from 0 to \<open>start\<close>.\<close>

definition wrapped :: "nat set \<Rightarrow> nat \<Rightarrow> nat \<Rightarrow> nat \<Rightarrow> nat" where
  "wrapped S start n off = (let b = next_from S start off in if b < start then b else n)"

definition wrap_next :: "nat set \<Rightarrow> nat \<Rightarrow> nat \<Rightarrow> nat \<Rightarrow> nat" where
  "wrap_next S start n off =
     (if off > start then (let b = next_from S n off in if b < n then b else wrapped S start n 0) else wrapped S start n off)"

lemma wrap_walk_second:
  assumes "start \<le> n"
  shows "off \<le> start \<Longrightarrow> wrap_walk (wrap_next S start n) n (wrapped S start n off) =
    Some (sorted_list_of_set {i \<in> S. off \<le> i \<and> i < start})"
proof (induction "start - off" arbitrary: off rule: less_induct)
  case less
  show ?case
  proof (cases rule: next_from_cases [of S start off])
    case none
    then have e: "{i \<in> S. off \<le> i \<and> i < start} = {}" by auto
    have "wrapped S start n off = n" using none(1) by (simp add: wrapped_def)
    then show ?thesis unfolding e by (subst wrap_walk.simps) simp
  next
    case (some b)
    then have w: "wrapped S start n off = b" by (simp add: wrapped_def)
    have "wrap_walk (wrap_next S start n) n (wrapped S start n (b + 1)) = Some (sorted_list_of_set {i \<in> S. b + 1 \<le> i \<and> i < start})"
      using some by (intro less) linarith+
    moreover have "wrap_next S start n (b + 1) = wrapped S start n (b + 1)" using some(4) by (simp add: wrap_next_def)
    ultimately show ?thesis
      unfolding w sorted_list_next [OF some(2-5)] using some(4) assms by (subst wrap_walk.simps) simp
  qed
qed

lemma wrap_walk_first:
  assumes "start \<le> n"
  shows "start < off \<Longrightarrow> wrap_walk (wrap_next S start n) n (wrap_next S start n off) =
    Some (sorted_list_of_set {i \<in> S. off \<le> i \<and> i < n} @ sorted_list_of_set {i \<in> S. i < start})"
proof (induction "n - off" arbitrary: off rule: less_induct)
  case less
  show ?case
  proof (cases rule: next_from_cases [of S n off])
    case none
    then have e: "{i \<in> S. off \<le> i \<and> i < n} = {}" by auto
    have "wrap_next S start n off = wrapped S start n 0" using none(1) less.prems by (simp add: wrap_next_def)
    then show ?thesis using wrap_walk_second [OF assms, of 0 S] unfolding e by simp
  next
    case (some b)
    then have w: "wrap_next S start n off = b" using less.prems by (simp add: wrap_next_def)
    have "wrap_walk (wrap_next S start n) n (wrap_next S start n (b + 1)) =
        Some (sorted_list_of_set {i \<in> S. b + 1 \<le> i \<and> i < n} @ sorted_list_of_set {i \<in> S. i < start})"
      using some less.prems by (intro less) linarith+
    then show ?thesis unfolding w sorted_list_next [OF some(2-5)] using some(4) by (subst wrap_walk.simps) simp
  qed
qed

lemma for_each_wrap_next:
  assumes "find_lib_ok L" "n \<le> 64 * length bm" "start \<le> n"
  shows "for_each_wrap L const c' bm n start off = wrap_next (bitmap_bits bm) start n off"
  using assms find_next_bit_spec [OF assms(1)]
  by (simp add: for_each_wrap_def wrap_next_def wrapped_def Let_def)

lemma for_each_set_bit_wrap_spec:
  assumes "find_lib_ok L" "n \<le> 64 * length bm" "start \<le> n"
  shows "for_each_set_bit_wrap L const c' bm n start =
    Some (sorted_list_of_set {i \<in> bitmap_bits bm. start \<le> i \<and> i < n} @ sorted_list_of_set {i \<in> bitmap_bits bm. i < start})"
proof -
  let ?S = "bitmap_bits bm"
  have f: "for_each_wrap L const c' bm n start = wrap_next ?S start n" by (rule ext) (rule for_each_wrap_next [OF assms])
  have s: "start \<le> 64 * length bm" using assms(2,3) by simp
  have first: "find_next_bit_wrap L const c' bm n start =
      (let b = next_from ?S n start in if b < n \<or> start = 0 then b else wrapped ?S start n 0)"
    using find_first_is_next(1) [OF assms(1) s s] find_next_bit_spec [OF assms(1)] s assms(2)
    by (simp add: find_next_bit_wrap_def wrapped_def Let_def)
  show ?thesis
  proof (cases rule: next_from_cases [of ?S n start])
    case none
    then have e: "{i \<in> ?S. start \<le> i \<and> i < n} = {}" by auto
    show ?thesis
    proof (cases "start = 0")
      case True
      then show ?thesis unfolding for_each_set_bit_wrap_def f first e using none(1) by (subst wrap_walk.simps) simp
    next
      case False
      then show ?thesis unfolding for_each_set_bit_wrap_def f first e
        using none(1) wrap_walk_second [OF assms(3), of 0 ?S] by simp
    qed
  next
    case (some b)
    then show ?thesis
      unfolding for_each_set_bit_wrap_def f first sorted_list_next [OF some(2-5)]
      using wrap_walk_first [OF assms(3), of "b + 1" ?S] by (subst wrap_walk.simps) simp
  qed
qed

end
