(* ===== verification/Bitmap.thy ===== *)
theory Bitmap
  imports Find_Sets
begin

text \<open>
  Bitmaps (kheaders/include/linux/bitmap.h). As in find.h, a bitmap whose size is known to the
  compiler to be at most a word (\<open>const\<close>) is handled inline, the others by functions of lib/bitmap.c,
  which are not in the repository: they are the fields of the argument \<open>B\<close>. Sizes and bit numbers
  are natural numbers; a function that writes gives the new bitmap.
\<close>

subsection \<open>Whole bitmaps\<close>

record bitmap_lib =
  lib_equal :: "u64 list \<Rightarrow> u64 list \<Rightarrow> nat \<Rightarrow> bool"
  lib_or_equal :: "u64 list \<Rightarrow> u64 list \<Rightarrow> u64 list \<Rightarrow> nat \<Rightarrow> bool"
  lib_complement :: "u64 list \<Rightarrow> u64 list \<Rightarrow> nat \<Rightarrow> u64 list"
  lib_shift_right :: "u64 list \<Rightarrow> u64 list \<Rightarrow> nat \<Rightarrow> nat \<Rightarrow> u64 list"
  lib_shift_left :: "u64 list \<Rightarrow> u64 list \<Rightarrow> nat \<Rightarrow> nat \<Rightarrow> u64 list"
  lib_and :: "u64 list \<Rightarrow> u64 list \<Rightarrow> u64 list \<Rightarrow> nat \<Rightarrow> bool \<times> u64 list"
  lib_or :: "u64 list \<Rightarrow> u64 list \<Rightarrow> u64 list \<Rightarrow> nat \<Rightarrow> u64 list"
  lib_xor :: "u64 list \<Rightarrow> u64 list \<Rightarrow> u64 list \<Rightarrow> nat \<Rightarrow> u64 list"
  lib_andnot :: "u64 list \<Rightarrow> u64 list \<Rightarrow> u64 list \<Rightarrow> nat \<Rightarrow> bool \<times> u64 list"
  lib_replace :: "u64 list \<Rightarrow> u64 list \<Rightarrow> u64 list \<Rightarrow> u64 list \<Rightarrow> nat \<Rightarrow> u64 list"
  lib_intersects :: "u64 list \<Rightarrow> u64 list \<Rightarrow> nat \<Rightarrow> bool"
  lib_subset :: "u64 list \<Rightarrow> u64 list \<Rightarrow> nat \<Rightarrow> bool"
  lib_weight :: "u64 list \<Rightarrow> nat \<Rightarrow> nat"
  lib_weight_and :: "u64 list \<Rightarrow> u64 list \<Rightarrow> nat \<Rightarrow> nat"
  lib_weight_andnot :: "u64 list \<Rightarrow> u64 list \<Rightarrow> nat \<Rightarrow> nat"
  lib_set :: "u64 list \<Rightarrow> nat \<Rightarrow> nat \<Rightarrow> u64 list"
  lib_clear :: "u64 list \<Rightarrow> nat \<Rightarrow> nat \<Rightarrow> u64 list"
  lib_sw_hweight64 :: "u64 \<Rightarrow> nat"

definition BITMAP_FIRST_WORD_MASK :: "nat \<Rightarrow> u64" where
  "BITMAP_FIRST_WORD_MASK start = push_bit (start AND (BITS_PER_LONG - 1)) (NOT 0)"

definition BITMAP_LAST_WORD_MASK :: "nat \<Rightarrow> u64" where
  "BITMAP_LAST_WORD_MASK nbits = drop_bit (unat (- word_of_nat nbits AND 63 :: u32)) (NOT 0)"

definition bitmap_size :: "nat \<Rightarrow> nat" where
  "bitmap_size nbits = (nbits + BITS_PER_LONG - 1) div BITS_PER_LONG * BITS_PER_LONG div 8"

text \<open>\<open>memset\<close> and \<open>memcpy\<close> of whole words.\<close>

definition fill_words :: "u64 \<Rightarrow> nat \<Rightarrow> u64 list \<Rightarrow> u64 list" where
  "fill_words w bytes bm = replicate (bytes div 8) w @ drop (bytes div 8) bm"

definition copy_words :: "u64 list \<Rightarrow> nat \<Rightarrow> u64 list \<Rightarrow> u64 list" where
  "copy_words src bytes bm = take (bytes div 8) src @ drop (bytes div 8) bm"

definition bitmap_zero :: "bool \<Rightarrow> u64 list \<Rightarrow> nat \<Rightarrow> u64 list" where
  "bitmap_zero const dst nbits =
     (if small_const_nbits const nbits then dst[0 := 0] else fill_words 0 (bitmap_size nbits) dst)"

definition bitmap_fill :: "bool \<Rightarrow> u64 list \<Rightarrow> nat \<Rightarrow> u64 list" where
  "bitmap_fill const dst nbits =
     (if small_const_nbits const nbits then dst[0 := NOT 0] else fill_words (NOT 0) (bitmap_size nbits) dst)"

definition bitmap_copy :: "bool \<Rightarrow> u64 list \<Rightarrow> u64 list \<Rightarrow> nat \<Rightarrow> u64 list" where
  "bitmap_copy const dst src nbits =
     (if small_const_nbits const nbits then dst[0 := src ! 0] else copy_words src (bitmap_size nbits) dst)"

definition bitmap_copy_clear_tail :: "bool \<Rightarrow> u64 list \<Rightarrow> u64 list \<Rightarrow> nat \<Rightarrow> u64 list" where
  "bitmap_copy_clear_tail const dst src nbits =
     (let dst = bitmap_copy const dst src nbits in
      if nbits mod BITS_PER_LONG \<noteq> 0
      then dst[nbits div BITS_PER_LONG := dst ! (nbits div BITS_PER_LONG) AND BITMAP_LAST_WORD_MASK nbits] else dst)"

definition bitmap_copy_and_extend :: "u64 list \<Rightarrow> u64 list \<Rightarrow> nat \<Rightarrow> nat \<Rightarrow> u64 list" where
  "bitmap_copy_and_extend to from count sz =
     (let copy = BITS_TO_LONGS count;
          to = copy_words from (copy * 8) to;
          to = (if count mod BITS_PER_LONG \<noteq> 0 then to[copy - 1 := to ! (copy - 1) AND BITMAP_LAST_WORD_MASK count] else to)
      in take copy to @ fill_words 0 (bitmap_size sz - copy * 8) (drop copy to))"

definition bitmap_from_arr64 :: "bool \<Rightarrow> u64 list \<Rightarrow> u64 list \<Rightarrow> nat \<Rightarrow> u64 list" where
  "bitmap_from_arr64 const bitmap buf nbits = bitmap_copy_clear_tail const bitmap buf nbits"

definition bitmap_to_arr64 :: "bool \<Rightarrow> u64 list \<Rightarrow> u64 list \<Rightarrow> nat \<Rightarrow> u64 list" where
  "bitmap_to_arr64 const buf bitmap nbits = bitmap_copy_clear_tail const buf bitmap nbits"

definition bitmap_from_u64 :: "u64 list \<Rightarrow> u64 \<Rightarrow> u64 list" where
  "bitmap_from_u64 dst m = bitmap_from_arr64 True dst [m] 64"

definition bitmap_and :: "bitmap_lib \<Rightarrow> bool \<Rightarrow> u64 list \<Rightarrow> u64 list \<Rightarrow> u64 list \<Rightarrow> nat \<Rightarrow> bool \<times> u64 list" where
  "bitmap_and B const dst src1 src2 nbits =
     (if small_const_nbits const nbits
      then let w = src1 ! 0 AND src2 ! 0 AND BITMAP_LAST_WORD_MASK nbits in (w \<noteq> 0, dst[0 := w])
      else lib_and B dst src1 src2 nbits)"

definition bitmap_or :: "bitmap_lib \<Rightarrow> bool \<Rightarrow> u64 list \<Rightarrow> u64 list \<Rightarrow> u64 list \<Rightarrow> nat \<Rightarrow> u64 list" where
  "bitmap_or B const dst src1 src2 nbits =
     (if small_const_nbits const nbits then dst[0 := src1 ! 0 OR src2 ! 0] else lib_or B dst src1 src2 nbits)"

definition bitmap_xor :: "bitmap_lib \<Rightarrow> bool \<Rightarrow> u64 list \<Rightarrow> u64 list \<Rightarrow> u64 list \<Rightarrow> nat \<Rightarrow> u64 list" where
  "bitmap_xor B const dst src1 src2 nbits =
     (if small_const_nbits const nbits then dst[0 := src1 ! 0 XOR src2 ! 0] else lib_xor B dst src1 src2 nbits)"

definition bitmap_andnot :: "bitmap_lib \<Rightarrow> bool \<Rightarrow> u64 list \<Rightarrow> u64 list \<Rightarrow> u64 list \<Rightarrow> nat \<Rightarrow> bool \<times> u64 list" where
  "bitmap_andnot B const dst src1 src2 nbits =
     (if small_const_nbits const nbits
      then let w = src1 ! 0 AND NOT (src2 ! 0) AND BITMAP_LAST_WORD_MASK nbits in (w \<noteq> 0, dst[0 := w])
      else lib_andnot B dst src1 src2 nbits)"

definition bitmap_complement :: "bitmap_lib \<Rightarrow> bool \<Rightarrow> u64 list \<Rightarrow> u64 list \<Rightarrow> nat \<Rightarrow> u64 list" where
  "bitmap_complement B const dst src nbits =
     (if small_const_nbits const nbits then dst[0 := NOT (src ! 0)] else lib_complement B dst src nbits)"

text \<open>\<open>aligned\<close>: the compiler knows that \<open>nbits\<close> is a multiple of 8, and \<open>memcmp\<close> compares the bytes.\<close>

definition bitmap_byte :: "u64 list \<Rightarrow> nat \<Rightarrow> u8" where
  "bitmap_byte bm k = ucast (drop_bit (8 * (k mod 8)) (bm ! (k div 8)))"

definition bitmap_equal :: "bitmap_lib \<Rightarrow> bool \<Rightarrow> bool \<Rightarrow> u64 list \<Rightarrow> u64 list \<Rightarrow> nat \<Rightarrow> bool" where
  "bitmap_equal B const aligned src1 src2 nbits =
     (if small_const_nbits const nbits then (src1 ! 0 XOR src2 ! 0) AND BITMAP_LAST_WORD_MASK nbits = 0
      else if aligned \<and> nbits mod 8 = 0 then list_all (\<lambda>k. bitmap_byte src1 k = bitmap_byte src2 k) [0..<nbits div 8]
      else lib_equal B src1 src2 nbits)"

definition bitmap_or_equal :: "bitmap_lib \<Rightarrow> bool \<Rightarrow> u64 list \<Rightarrow> u64 list \<Rightarrow> u64 list \<Rightarrow> nat \<Rightarrow> bool" where
  "bitmap_or_equal B const src1 src2 src3 nbits =
     (if \<not> small_const_nbits const nbits then lib_or_equal B src1 src2 src3 nbits
      else ((src1 ! 0 OR src2 ! 0) XOR src3 ! 0) AND BITMAP_LAST_WORD_MASK nbits = 0)"

definition bitmap_intersects :: "bitmap_lib \<Rightarrow> bool \<Rightarrow> u64 list \<Rightarrow> u64 list \<Rightarrow> nat \<Rightarrow> bool" where
  "bitmap_intersects B const src1 src2 nbits =
     (if small_const_nbits const nbits then (src1 ! 0 AND src2 ! 0) AND BITMAP_LAST_WORD_MASK nbits \<noteq> 0
      else lib_intersects B src1 src2 nbits)"

definition bitmap_subset :: "bitmap_lib \<Rightarrow> bool \<Rightarrow> u64 list \<Rightarrow> u64 list \<Rightarrow> nat \<Rightarrow> bool" where
  "bitmap_subset B const src1 src2 nbits =
     (if small_const_nbits const nbits then (src1 ! 0 AND NOT (src2 ! 0)) AND BITMAP_LAST_WORD_MASK nbits = 0
      else lib_subset B src1 src2 nbits)"

definition bitmap_empty :: "find_lib \<Rightarrow> bool \<Rightarrow> u64 list \<Rightarrow> nat \<Rightarrow> bool" where
  "bitmap_empty L const src nbits =
     (if small_const_nbits const nbits then src ! 0 AND BITMAP_LAST_WORD_MASK nbits = 0
      else find_first_bit L const src nbits = nbits)"

definition bitmap_full :: "find_lib \<Rightarrow> bool \<Rightarrow> u64 list \<Rightarrow> nat \<Rightarrow> bool" where
  "bitmap_full L const src nbits =
     (if small_const_nbits const nbits then NOT (src ! 0) AND BITMAP_LAST_WORD_MASK nbits = 0
      else find_first_zero_bit L const src nbits = nbits)"

definition bitmap_weight :: "bitmap_lib \<Rightarrow> bool \<Rightarrow> u64 list \<Rightarrow> nat \<Rightarrow> nat" where
  "bitmap_weight B const src nbits =
     (if small_const_nbits const nbits then hweight_long (lib_sw_hweight64 B) False (src ! 0 AND BITMAP_LAST_WORD_MASK nbits)
      else lib_weight B src nbits)"

definition bitmap_weight_and :: "bitmap_lib \<Rightarrow> bool \<Rightarrow> u64 list \<Rightarrow> u64 list \<Rightarrow> nat \<Rightarrow> nat" where
  "bitmap_weight_and B const src1 src2 nbits =
     (if small_const_nbits const nbits
      then hweight_long (lib_sw_hweight64 B) False (src1 ! 0 AND src2 ! 0 AND BITMAP_LAST_WORD_MASK nbits)
      else lib_weight_and B src1 src2 nbits)"

definition bitmap_weight_andnot :: "bitmap_lib \<Rightarrow> bool \<Rightarrow> u64 list \<Rightarrow> u64 list \<Rightarrow> nat \<Rightarrow> nat" where
  "bitmap_weight_andnot B const src1 src2 nbits =
     (if small_const_nbits const nbits
      then hweight_long (lib_sw_hweight64 B) False (src1 ! 0 AND NOT (src2 ! 0) AND BITMAP_LAST_WORD_MASK nbits)
      else lib_weight_andnot B src1 src2 nbits)"

definition bitmap_shift_right :: "bitmap_lib \<Rightarrow> bool \<Rightarrow> u64 list \<Rightarrow> u64 list \<Rightarrow> nat \<Rightarrow> nat \<Rightarrow> u64 list" where
  "bitmap_shift_right B const dst src shift nbits =
     (if small_const_nbits const nbits then dst[0 := drop_bit shift (src ! 0 AND BITMAP_LAST_WORD_MASK nbits)]
      else lib_shift_right B dst src shift nbits)"

definition bitmap_shift_left :: "bitmap_lib \<Rightarrow> bool \<Rightarrow> u64 list \<Rightarrow> u64 list \<Rightarrow> nat \<Rightarrow> nat \<Rightarrow> u64 list" where
  "bitmap_shift_left B const dst src shift nbits =
     (if small_const_nbits const nbits then dst[0 := push_bit shift (src ! 0) AND BITMAP_LAST_WORD_MASK nbits]
      else lib_shift_left B dst src shift nbits)"

definition bitmap_replace :: "bitmap_lib \<Rightarrow> bool \<Rightarrow> u64 list \<Rightarrow> u64 list \<Rightarrow> u64 list \<Rightarrow> u64 list \<Rightarrow> nat \<Rightarrow> u64 list" where
  "bitmap_replace B const dst old new m nbits =
     (if small_const_nbits const nbits then dst[0 := (old ! 0 AND NOT (m ! 0)) OR (new ! 0 AND m ! 0)]
      else lib_replace B dst old new m nbits)"

subsection \<open>The masks\<close>

lemma mask_shift: "unat (- word_of_nat n AND 63 :: u32) = (64 - n mod 64) mod 64"
proof -
  have w: "uint (word_of_nat n :: u32) mod 64 = int n mod 64"
    by (simp add: unsigned_of_nat take_bit_eq_mod zmod_int mod_mod_cancel)
  have "int (unat (- word_of_nat n AND 63 :: u32)) = uint (take_bit 6 (- word_of_nat n) :: u32)"
    by (simp add: take_bit_eq_mask mask_eq_exp_minus_1)
  also have "\<dots> = take_bit 6 (- uint (word_of_nat n :: u32))"
    by (simp add: unsigned_take_bit_eq uint_word_arith_bintrs)
  also have "\<dots> = (- (uint (word_of_nat n :: u32) mod 64)) mod 64" by (simp add: take_bit_eq_mod mod_minus_eq)
  also have "\<dots> = (- int n) mod 64" by (simp add: w mod_minus_eq)
  also have "\<dots> = int ((64 - n mod 64) mod 64)"
  proof -
    have m: "int n mod 64 = int (n mod 64)" by (simp add: zmod_int)
    show ?thesis by (cases "n mod 64 = 0") (simp_all add: zmod_zminus1_eq_if m of_nat_diff less_imp_le)
  qed
  finally show ?thesis by (simp only: of_nat_eq_iff)
qed

lemma bit_LAST_WORD_MASK: "bit (BITMAP_LAST_WORD_MASK n) i \<longleftrightarrow> i < 64 \<and> (n mod 64 = 0 \<or> i < n mod 64)"
  using mod_less_divisor [of 64 n] unfolding BITMAP_LAST_WORD_MASK_def mask_shift
  by (cases "n mod 64 = 0") (auto simp: bit_simps)

lemma bit_FIRST_WORD_MASK: "bit (BITMAP_FIRST_WORD_MASK n) i \<longleftrightarrow> i < 64 \<and> n mod 64 \<le> i"
  by (auto simp: BITMAP_FIRST_WORD_MASK_def BITS_PER_LONG_def and_63 bit_simps)

lemma bit_LAST_WORD_MASK_small: "0 < n \<Longrightarrow> n \<le> 64 \<Longrightarrow> bit (BITMAP_LAST_WORD_MASK n) i \<longleftrightarrow> i < n"
  by (cases "n = 64") (auto simp: bit_LAST_WORD_MASK)

lemma set_bits_LAST_WORD_MASK: "0 < n \<Longrightarrow> n \<le> 64 \<Longrightarrow> set_bits_of (BITMAP_LAST_WORD_MASK n) = {..<n}"
  by (auto simp: bit_LAST_WORD_MASK_small)

end
