(* ===== verification/Errno.thy ===== *)
theory Errno
  imports Prelude
begin

text \<open>Error numbers (kheaders/include/uapi/asm-generic/errno-base.h).\<close>

definition ENOMEM :: int where "ENOMEM = 12"
definition EBUSY :: int where "EBUSY = 16"
definition ENOSPC :: int where "ENOSPC = 28"

end
