(* ===== verification/Bitmap_Ranges.thy ===== *)
theory Bitmap_Ranges
  imports Bitmap Errno
begin

text \<open>
  The rest of bitmap.h: setting and clearing ranges, power-of-two regions, scattering and
  gathering, and reading and writing values at any bit; with what they do to the set of bits.
\<close>

subsection \<open>Ranges and regions\<close>

text \<open>
  What the compiler knows of a call: \<open>kn_one\<close>, that \<open>nbits\<close> is a constant; \<open>kn_sum\<close>, that
  \<open>start + nbits\<close> is; \<open>kn_low\<close>, that the low three bits of both are.
\<close>

record known =
  kn_one :: bool
  kn_sum :: bool
  kn_low :: bool

definition store_byte :: "u8 \<Rightarrow> nat \<Rightarrow> u64 list \<Rightarrow> u64 list" where
  "store_byte v k bm =
     bm[k div 8 := (bm ! (k div 8) AND NOT (push_bit (8 * (k mod 8)) 0xff)) OR push_bit (8 * (k mod 8)) (ucast v)]"

definition memset :: "u64 list \<Rightarrow> nat \<Rightarrow> u8 \<Rightarrow> nat \<Rightarrow> u64 list" where
  "memset bm at v len = fold (\<lambda>k. store_byte v (at + k)) [0..<len] bm"

definition bitmap_set :: "bitmap_lib \<Rightarrow> known \<Rightarrow> u64 list \<Rightarrow> nat \<Rightarrow> nat \<Rightarrow> u64 list" where
  "bitmap_set B kn bm start nbits =
     (if kn_one kn \<and> nbits = 1 then plain_set_bit start bm
      else if small_const_nbits (kn_sum kn) (start + nbits) then bm[0 := bm ! 0 OR GENMASK (start + nbits - 1) start]
      else if kn_low kn \<and> start mod 8 = 0 \<and> nbits mod 8 = 0 then memset bm (start div 8) 0xff (nbits div 8)
      else lib_set B bm start nbits)"

definition bitmap_clear :: "bitmap_lib \<Rightarrow> known \<Rightarrow> u64 list \<Rightarrow> nat \<Rightarrow> nat \<Rightarrow> u64 list" where
  "bitmap_clear B kn bm start nbits =
     (if kn_one kn \<and> nbits = 1 then plain_clear_bit start bm
      else if small_const_nbits (kn_sum kn) (start + nbits) then bm[0 := bm ! 0 AND NOT (GENMASK (start + nbits - 1) start)]
      else if kn_low kn \<and> start mod 8 = 0 \<and> nbits mod 8 = 0 then memset bm (start div 8) 0 (nbits div 8)
      else lib_clear B bm start nbits)"

definition bitmap_next_set_region :: "find_lib \<Rightarrow> bool \<Rightarrow> u64 list \<Rightarrow> nat \<Rightarrow> nat \<Rightarrow> nat \<times> nat" where
  "bitmap_next_set_region L const bitmap rs final =
     (let rs = find_next_bit L const bitmap final rs in (rs, find_next_zero_bit L const bitmap final (rs + 1)))"

text \<open>
  Positions and lengths of regions are \<open>unsigned int\<close>: sums and \<open>BIT(order)\<close>, an \<open>unsigned long\<close>, are
  cut to 32 bits (a shift by 64 or more is undefined in C), and a position is returned as an \<open>int\<close>.
\<close>

definition unsigned_int :: "nat \<Rightarrow> nat" where
  "unsigned_int n = take_bit 32 n"

definition signed_int :: "nat \<Rightarrow> int" where
  "signed_int n = signed_take_bit 31 (int n)"

definition bitmap_release_region :: "bitmap_lib \<Rightarrow> known \<Rightarrow> u64 list \<Rightarrow> nat \<Rightarrow> nat \<Rightarrow> u64 list" where
  "bitmap_release_region B kn bitmap pos order = bitmap_clear B kn bitmap pos (unsigned_int (unat (BIT order)))"

definition bitmap_allocate_region :: "find_lib \<Rightarrow> bitmap_lib \<Rightarrow> known \<Rightarrow> u64 list \<Rightarrow> nat \<Rightarrow> nat \<Rightarrow> int \<times> u64 list" where
  "bitmap_allocate_region L B kn bitmap pos order =
     (let len = unsigned_int (unat (BIT order)) in
      if find_next_bit L (kn_sum kn) bitmap (unsigned_int (pos + len)) pos < unsigned_int (pos + len) then (- EBUSY, bitmap)
      else (0, bitmap_set B kn bitmap pos len))"

partial_function (option) free_region_loop ::
  "find_lib \<Rightarrow> bitmap_lib \<Rightarrow> known \<Rightarrow> u64 list \<Rightarrow> nat \<Rightarrow> nat \<Rightarrow> nat \<Rightarrow> (int \<times> u64 list) option" where
  "free_region_loop L B kn bitmap bits order pos =
     (let e = unsigned_int (pos + unat (BIT order)) in
      if e \<le> bits then
        let (err, bitmap) = bitmap_allocate_region L B kn bitmap pos order in
        if err = 0 then Some (signed_int pos, bitmap) else free_region_loop L B kn bitmap bits order e
      else Some (- ENOMEM, bitmap))"

definition bitmap_find_free_region ::
  "find_lib \<Rightarrow> bitmap_lib \<Rightarrow> known \<Rightarrow> u64 list \<Rightarrow> nat \<Rightarrow> nat \<Rightarrow> (int \<times> u64 list) option" where
  "bitmap_find_free_region L B kn bitmap bits order = free_region_loop L B kn bitmap bits order 0"

subsection \<open>Scattering and gathering\<close>

definition bitmap_scatter :: "find_lib \<Rightarrow> bool \<Rightarrow> u64 list \<Rightarrow> u64 list \<Rightarrow> u64 list \<Rightarrow> nat \<Rightarrow> u64 list option" where
  "bitmap_scatter L const dst src m nbits =
     map_option (\<lambda>bits. fst (fold (\<lambda>b (dst, n). (plain_assign_bit b dst (test_bit False n src), n + 1)) bits
                                (bitmap_zero const dst nbits, 0)))
       (for_each_set_bit L const m nbits)"

definition bitmap_gather :: "find_lib \<Rightarrow> bool \<Rightarrow> u64 list \<Rightarrow> u64 list \<Rightarrow> u64 list \<Rightarrow> nat \<Rightarrow> u64 list option" where
  "bitmap_gather L const dst src m nbits =
     map_option (\<lambda>bits. fst (fold (\<lambda>b (dst, n). (plain_assign_bit n dst (test_bit False b src), n + 1)) bits
                                (bitmap_zero const dst nbits, 0)))
       (for_each_set_bit L const m nbits)"

subsection \<open>Values\<close>

definition bitmap_read :: "u64 list \<Rightarrow> nat \<Rightarrow> nat \<Rightarrow> u64" where
  "bitmap_read bm start nbits =
     (let index = BIT_WORD start; offset = start mod BITS_PER_LONG; space = BITS_PER_LONG - offset in
      if nbits = 0 \<or> nbits > BITS_PER_LONG then 0
      else if space \<ge> nbits then drop_bit offset (bm ! index) AND BITMAP_LAST_WORD_MASK nbits
      else
        let value_low = bm ! index AND BITMAP_FIRST_WORD_MASK start;
            value_high = bm ! (index + 1) AND BITMAP_LAST_WORD_MASK (start + nbits)
        in drop_bit offset value_low OR push_bit space value_high)"

definition bitmap_write :: "u64 list \<Rightarrow> u64 \<Rightarrow> nat \<Rightarrow> nat \<Rightarrow> u64 list" where
  "bitmap_write bm value start nbits =
     (if nbits = 0 \<or> nbits > BITS_PER_LONG then bm
      else
        let m = BITMAP_LAST_WORD_MASK nbits;
            value = value AND m;
            offset = start mod BITS_PER_LONG;
            space = BITS_PER_LONG - offset;
            fit = space \<ge> nbits;
            index = BIT_WORD start;
            bm = bm[index := bm ! index AND (if fit then NOT (push_bit offset m) else NOT (BITMAP_FIRST_WORD_MASK start))];
            bm = bm[index := bm ! index OR push_bit offset value]
        in if fit then bm
           else
             let bm = bm[index + 1 := bm ! (index + 1) AND BITMAP_FIRST_WORD_MASK (start + nbits)]
             in bm[index + 1 := bm ! (index + 1) OR drop_bit space value])"

definition bitmap_get_value8 :: "u64 list \<Rightarrow> nat \<Rightarrow> u64" where
  "bitmap_get_value8 bm start = bitmap_read bm start 8"

definition bitmap_set_value8 :: "u64 list \<Rightarrow> u64 \<Rightarrow> nat \<Rightarrow> u64 list" where
  "bitmap_set_value8 bm value start = bitmap_write bm value start 8"

subsection \<open>Values and bits\<close>

lemma below_two_words: "k < 128 \<Longrightarrow> k div 64 = (if k < 64 then 0 else 1 :: nat) \<and> k mod 64 = (if k < 64 then k else k - 64)"
  by (simp add: le_div_geq le_mod_geq)

lemma split_bit:
  assumes "start mod 64 = off" "i < (64 :: nat)"
  shows "(start + i) div 64 = (if off + i < 64 then start div 64 else start div 64 + 1)"
    "(start + i) mod 64 = (if off + i < 64 then off + i else off + i - 64)"
proof -
  have s: "start + i = 64 * (start div 64) + (off + i)" using assms(1) by (metis add.assoc mult_div_mod_eq)
  have "off + i < 128" using assms by auto
  note k = below_two_words [OF this]
  show "(start + i) div 64 = (if off + i < 64 then start div 64 else start div 64 + 1)"
    using k by (subst s) (simp add: div_mult_self4)
  show "(start + i) mod 64 = (if off + i < 64 then off + i else off + i - 64)"
    using k by (subst s) (simp add: mod_mult_self4)
qed

text \<open>Distances from the end of a word.\<close>

lemma word_end:
  assumes "off < (64 :: nat)"
  shows "64 - off \<le> i \<longleftrightarrow> \<not> off + i < 64" "i - (64 - off) = off + i - 64"
    "\<not> n \<le> 64 - off \<Longrightarrow> \<not> off + i < 64 \<Longrightarrow> n - (64 - off) = 0 \<or> off + i - 64 < n - (64 - off) \<longleftrightarrow> i < n"
  using assms by auto

lemma bit_word_at: "covers bm n \<Longrightarrow> bit (bm ! (n div 64)) (n mod 64) \<longleftrightarrow> n \<in> bitmap_bits bm"
  by (simp add: in_bitmap_bits)

lemma in_word:
  assumes "covers bm (start + i)" "i < 64"
  shows "start mod 64 + i < 64 \<Longrightarrow> start + i \<in> bitmap_bits bm \<longleftrightarrow> bit (bm ! (start div 64)) (start mod 64 + i)"
    "\<not> start mod 64 + i < 64 \<Longrightarrow> start + i \<in> bitmap_bits bm \<longleftrightarrow> bit (bm ! (start div 64 + 1)) (start mod 64 + i - 64)"
  using bit_word_at [OF assms(1)] split_bit [OF refl assms(2), of start] by simp_all

lemma end_mod:
  assumes "n \<le> 64" "\<not> n \<le> 64 - start mod (64 :: nat)"
  shows "(start + n) mod 64 = n - (64 - start mod 64)"
proof -
  let ?off = "start mod 64"
  have off: "?off < 64" by simp
  obtain k where n: "n = Suc k" "k < 64" using assms by (cases n) auto
  have past: "\<not> ?off + k < 64" using assms(2) n by auto
  then have "(start + k) mod 64 = ?off + k - 64" using split_bit(2) [OF refl n(2), of start] by simp
  moreover have "?off + k - 64 < 63" using off n by linarith
  ultimately have "Suc (start + k) mod 64 = Suc (?off + k - 64)" by (simp add: mod_Suc)
  moreover have "Suc (?off + k - 64) = ?off + n - 64" using n past by linarith
  ultimately show ?thesis using n word_end(2) [OF off, of n] by simp
qed

lemma bitmap_read_bits:
  assumes n: "0 < n" "n \<le> 64" and c: "covers bm (start + n - 1)"
  shows "bit (bitmap_read bm start n) i \<longleftrightarrow> i < n \<and> start + i \<in> bitmap_bits bm"
proof (cases "i < 64")
  case False
  then show ?thesis using n by (auto dest: bit_below_64)
next
  case i: True
  let ?off = "start mod 64"
  have off: "?off < 64" by simp
  have cov: "i < n \<Longrightarrow> covers bm (start + i)" by (rule covers_below [OF c]) simp
  note iw = in_word [OF cov i]
  show ?thesis
  proof (cases "n \<le> 64 - ?off")
    case True
    then have "bit (bitmap_read bm start n) i \<longleftrightarrow> i < n \<and> bit (bm ! (start div 64)) (?off + i)"
      using n by (auto simp: bitmap_read_def bit_index bit_simps bit_LAST_WORD_MASK_small add.commute)
    moreover have "i < n \<Longrightarrow> ?off + i < 64" using True by linarith
    ultimately show ?thesis using iw(1) by auto
  next
    case False
    note lw = end_mod [OF n(2) False]
    have r: "bitmap_read bm start n = drop_bit ?off (bm ! (start div 64) AND BITMAP_FIRST_WORD_MASK start) OR
        push_bit (64 - ?off) (bm ! (start div 64 + 1) AND BITMAP_LAST_WORD_MASK (start + n))"
      using False n by (simp add: bitmap_read_def bit_index Let_def)
    have 1: "bit (drop_bit ?off (bm ! (start div 64) AND BITMAP_FIRST_WORD_MASK start)) i \<longleftrightarrow>
        ?off + i < 64 \<and> bit (bm ! (start div 64)) (?off + i)"
      by (auto simp: bit_drop_bit_eq bit_and_iff bit_FIRST_WORD_MASK)
    have 2: "bit (push_bit (64 - ?off) (bm ! (start div 64 + 1) AND BITMAP_LAST_WORD_MASK (start + n))) i \<longleftrightarrow>
        \<not> ?off + i < 64 \<and> bit (bm ! (start div 64 + 1)) (?off + i - 64) \<and> i < n"
    proof -
      note e = word_end(1,2) [OF off, of i] and m = word_end(3) [OF off False, of i]
      show ?thesis using i m by (auto simp: bit_push_bit_iff bit_and_iff bit_LAST_WORD_MASK lw e)
    qed
    have "?off + i < 64 \<Longrightarrow> i < n" using False by linarith
    then show ?thesis unfolding r bit_or_iff 1 2 using iw by (cases "?off + i < 64") auto
  qed
qed

text \<open>Which bits of which word a range of at most 64 covers.\<close>

lemma range_words:
  assumes "r < 64" "j < (64 :: nat)" "n \<le> 64"
  shows "64 * q + r \<le> 64 * p + j \<and> 64 * p + j < 64 * q + r + n \<longleftrightarrow>
    (p = q \<and> r \<le> j \<and> j < r + n) \<or> (p = q + 1 \<and> j + 64 < r + n)"
proof (cases "p = q \<or> p = q + 1")
  case False
  then have "p + 1 \<le> q \<or> q + 2 \<le> p" by linarith
  then show ?thesis using assms by auto
qed (use assms in auto)

definition in_range :: "nat \<Rightarrow> nat \<Rightarrow> nat \<Rightarrow> bool" where
  "in_range start n m \<longleftrightarrow> start \<le> m \<and> m < start + n"

lemma in_range_words:
  assumes "n \<le> 64"
  shows "in_range start n m \<longleftrightarrow>
    (m div 64 = start div 64 \<and> start mod 64 \<le> m mod 64 \<and> m mod 64 < start mod 64 + n) \<or>
    (m div 64 = start div 64 + 1 \<and> m mod 64 + 64 < start mod 64 + n)"
  using range_words [of "start mod 64" "m mod 64" n "start div 64" "m div 64"] assms
  by (simp add: in_range_def)

lemma range_offset:
  "m div 64 = start div 64 \<Longrightarrow> start \<le> m \<Longrightarrow> m - start = m mod 64 - start mod (64 :: nat)"
  "m div 64 = start div 64 + 1 \<Longrightarrow> m - start = m mod 64 + 64 - start mod (64 :: nat)"
  using mult_div_mod_eq [of 64 m] mult_div_mod_eq [of 64 start] by linarith+

lemma bitmap_write_fit:
  assumes n: "0 < n" "n \<le> 64" "n \<le> 64 - start mod 64" and q: "start div 64 < length bm"
  shows "bitmap_write bm v start n = bm[start div 64 :=
    bm ! (start div 64) AND NOT (push_bit (start mod 64) (BITMAP_LAST_WORD_MASK n)) OR
    push_bit (start mod 64) (v AND BITMAP_LAST_WORD_MASK n)]"
  using n q by (simp add: bitmap_write_def bit_index Let_def)

lemma bitmap_write_across:
  assumes n: "0 < n" "n \<le> 64" "\<not> n \<le> 64 - start mod 64" and q: "start div 64 + 1 < length bm"
  shows "bitmap_write bm v start n = bm[start div 64 :=
      bm ! (start div 64) AND NOT (BITMAP_FIRST_WORD_MASK start) OR push_bit (start mod 64) (v AND BITMAP_LAST_WORD_MASK n),
    start div 64 + 1 := bm ! (start div 64 + 1) AND BITMAP_FIRST_WORD_MASK (start + n) OR
      drop_bit (64 - start mod 64) (v AND BITMAP_LAST_WORD_MASK n)]"
  using n q by (simp add: bitmap_write_def bit_index Let_def)

lemma range_shape:
  assumes "r < (64 :: nat)" "j < 64"
  shows "n \<le> 64 - r \<Longrightarrow> \<not> j + 64 < r + n" "\<not> n \<le> 64 - r \<Longrightarrow> 64 < r + n" "\<not> n \<le> 64 - r \<Longrightarrow> j < r + n"
    "64 - r + j = j + 64 - r" "64 < r + n \<Longrightarrow> n - (64 - r) \<le> j \<longleftrightarrow> \<not> j + 64 < r + n"
    "j + 64 - r < n \<longleftrightarrow> j + 64 < r + n"
  using assms by auto

lemma bitmap_write_bits:
  assumes n: "0 < n" "n \<le> 64" and c: "covers bm (start + n - 1)"
  shows "m \<in> bitmap_bits (bitmap_write bm v start n) \<longleftrightarrow> (if in_range start n m then bit v (m - start) else m \<in> bitmap_bits bm)"
proof -
  let ?q = "start div 64" and ?r = "start mod 64" and ?j = "m mod 64"
  have r: "?r < 64" and j: "?j < 64" by simp_all
  note shape = range_shape [OF r j]
  have cov: "in_range start n m \<Longrightarrow> covers bm m" by (rule covers_below [OF c]) (auto simp: in_range_def)
  have ge: "in_range start n m \<Longrightarrow> start \<le> m" by (simp add: in_range_def)
  note ir = in_range_words [OF n(2), of start m]
  have q: "?q < length bm" using covers_below [OF c, of start] n by (simp add: covers_def)
  have old: "m \<in> bitmap_bits bm \<longleftrightarrow> covers bm m \<and> bit (bm ! (m div 64)) ?j" by (simp add: in_bitmap_bits)
  show ?thesis
  proof (cases "n \<le> 64 - ?r")
    case True
    let ?w = "bm ! ?q AND NOT (push_bit ?r (BITMAP_LAST_WORD_MASK n)) OR push_bit ?r (v AND BITMAP_LAST_WORD_MASK n)"
    have w: "bit ?w ?j \<longleftrightarrow> (if ?r \<le> ?j \<and> ?j < ?r + n then bit v (?j - ?r) else bit (bm ! ?q) ?j)"
      using n by (auto simp: bit_simps bit_LAST_WORD_MASK_small)
    have ir: "in_range start n m \<longleftrightarrow> m div 64 = ?q \<and> ?r \<le> ?j \<and> ?j < ?r + n"
      unfolding ir using shape(1) [OF True] by auto
    have "in_range start n m \<Longrightarrow> m - start = ?j - ?r" using range_offset(1) [of m start] ir ge by blast
    then show ?thesis
      unfolding bitmap_write_fit [OF n True q] bitmap_bits_update
      using w ir old cov by (cases "m div 64 = ?q") auto
  next
    case False
    have q1: "?q + 1 < length bm"
    proof -
      have "?q + 1 = (start + n - 1) div 64"
        using split_bit(1) [OF refl, of "n - 1" start] n False by auto
      then show ?thesis using c by (simp add: covers_def)
    qed
    let ?w = "bm ! ?q AND NOT (BITMAP_FIRST_WORD_MASK start) OR push_bit ?r (v AND BITMAP_LAST_WORD_MASK n)"
      and ?w' = "bm ! (?q + 1) AND BITMAP_FIRST_WORD_MASK (start + n) OR drop_bit (64 - ?r) (v AND BITMAP_LAST_WORD_MASK n)"
    note rn = shape(2) [OF False]
    have w: "bit ?w ?j \<longleftrightarrow> (if ?r \<le> ?j then bit v (?j - ?r) else bit (bm ! ?q) ?j)"
      using n j rn by (auto simp: bit_simps bit_LAST_WORD_MASK_small bit_FIRST_WORD_MASK)
    have w': "bit ?w' ?j \<longleftrightarrow> (if ?j + 64 < ?r + n then bit v (?j + 64 - ?r) else bit (bm ! (?q + 1)) ?j)"
    proof -
      note e = shape(4) and e' = shape(5) [OF rn] and e'' = shape(6)
      show ?thesis using n j
        by (auto simp: bit_or_iff bit_and_iff bit_drop_bit_eq bit_LAST_WORD_MASK_small bit_FIRST_WORD_MASK end_mod [OF n(2) False] e e' e'')
    qed
    have ir: "in_range start n m \<longleftrightarrow> (m div 64 = ?q \<and> ?r \<le> ?j) \<or> (m div 64 = ?q + 1 \<and> ?j + 64 < ?r + n)"
      unfolding ir using shape(3) [OF False] by auto
    have off: "in_range start n m \<Longrightarrow> m div 64 = ?q \<Longrightarrow> m - start = ?j - ?r"
      "m div 64 = ?q + 1 \<Longrightarrow> m - start = ?j + 64 - ?r"
      using range_offset [of m start] ge by blast+
    have upd: "m \<in> bitmap_bits (bitmap_write bm v start n) \<longleftrightarrow> covers bm m \<and>
        bit (if m div 64 = ?q + 1 then ?w' else if m div 64 = ?q then ?w else bm ! (m div 64)) ?j"
      unfolding bitmap_write_across [OF n False q1] bitmap_bits_update covers_update
      using q1 by (simp add: nth_list_update covers_def)
    show ?thesis
      unfolding upd
      using w w' ir old cov off by (cases "m div 64 = ?q"; cases "m div 64 = ?q + 1") auto
  qed
qed

end
