(* ===== verification/Bitmap_Facts.thy ===== *)
theory Bitmap_Facts
  imports Bitmap_Ranges
begin

text \<open>
  What the functions of bitmap.h do to the set of bits: ranges, regions, scattering and gathering.
\<close>

subsection \<open>Ranges\<close>

text \<open>What lib/bitmap.c documents of \<open>__bitmap_set\<close> and \<open>__bitmap_clear\<close>.\<close>

definition range_lib_ok :: "bitmap_lib \<Rightarrow> bool" where
  "range_lib_ok B \<longleftrightarrow> (\<forall>bm start n. start + n \<le> 64 * length bm \<longrightarrow>
     bitmap_bits (lib_set B bm start n) = bitmap_bits bm \<union> {start..<start + n} \<and> length (lib_set B bm start n) = length bm \<and>
     bitmap_bits (lib_clear B bm start n) = bitmap_bits bm - {start..<start + n} \<and> length (lib_clear B bm start n) = length bm)"

lemma covers_iff: "covers bm n \<longleftrightarrow> n < 64 * length bm"
  by (simp add: covers_def div_less_iff_less_mult mult.commute)

lemma byte_div: "m div 8 = k \<longleftrightarrow> m div 64 = k div 8 \<and> m mod 64 div 8 = k mod (8 :: nat)"
proof -
  have "m div 64 = m div 8 div 8" by (simp flip: div_mult2_eq)
  moreover have "m mod 64 div 8 = m div 8 mod 8" using mod_mult2_eq [of m 8 8] by simp
  ultimately show ?thesis by (metis div_mult_mod_eq)
qed

lemma byte_index: "8 * (i div 8) \<le> i \<and> i - 8 * (i div 8) = i mod (8 :: nat)"
  by (simp add: minus_mult_div_eq_mod)

lemma bit_ff: "bit (0xff :: u8) j \<longleftrightarrow> j < 8"
proof -
  have "(0xff :: u8) = mask 8" by (simp add: mask_eq_exp_minus_1)
  then show ?thesis by (simp only: bit_mask_iff) auto
qed

lemma bit_byte_at:
  assumes "k < 8" "i < 64"
  shows "bit (push_bit (8 * k) (ucast (v :: u8)) :: u64) i \<longleftrightarrow> i div 8 = k \<and> bit v (i mod 8)"
    "bit (push_bit (8 * k) 0xff :: u64) i \<longleftrightarrow> i div 8 = k"
proof -
  have "bit (push_bit (8 * k) (ucast (w :: u8)) :: u64) i \<longleftrightarrow> i div 8 = k \<and> bit w (i mod 8)" for w
  proof (cases "i div 8 = k")
    case True
    then show ?thesis using assms byte_index [of i] by (auto simp: bit_push_bit_iff bit_ucast_iff)
  next
    case False
    have "\<not> (8 * k \<le> i \<and> i - 8 * k < 8)" using False by auto
    then show ?thesis using False bit_imp_le_length [of w "i - 8 * k"] by (auto simp: bit_push_bit_iff bit_ucast_iff)
  qed
  note b = this
  show "bit (push_bit (8 * k) (ucast v) :: u64) i \<longleftrightarrow> i div 8 = k \<and> bit v (i mod 8)" by (rule b)
  have "(0xff :: u64) = ucast (0xff :: u8)" by simp
  then show "bit (push_bit (8 * k) 0xff :: u64) i \<longleftrightarrow> i div 8 = k" by (simp only: b bit_ff) simp
qed

lemma store_byte_bits:
  "m \<in> bitmap_bits (store_byte v k bm) \<longleftrightarrow> covers bm m \<and> (if m div 8 = k then bit v (m mod 8) else m \<in> bitmap_bits bm)"
proof -
  have "m mod 64 mod 8 = m mod 8" by (simp add: mod_mod_cancel)
  then show ?thesis
    unfolding store_byte_def bitmap_bits_update byte_div [of m k]
    using bit_byte_at(1) [of "k mod 8" "m mod 64" v] bit_byte_at(2) [of "k mod 8" "m mod 64"] by (auto simp: bit_or_iff bit_and_iff bit_not_iff in_bitmap_bits)
qed

lemma memset_Suc: "memset bm at v (Suc len) = store_byte v (at + len) (memset bm at v len)"
  by (simp add: memset_def)

lemma length_memset [simp]: "length (memset bm at v len) = length bm"
  by (induction len) (auto simp: memset_Suc store_byte_def memset_def)

lemma memset_bits:
  "m \<in> bitmap_bits (memset bm at v len) \<longleftrightarrow>
     covers bm m \<and> (if at \<le> m div 8 \<and> m div 8 < at + len then bit v (m mod 8) else m \<in> bitmap_bits bm)"
proof (induction len)
  case 0
  then show ?case by (auto simp: memset_def in_bitmap_bits)
next
  case (Suc len)
  have "covers (memset bm at v len) m \<longleftrightarrow> covers bm m" by (simp add: covers_def)
  then show ?case unfolding memset_Suc store_byte_bits using Suc by auto
qed

lemma aligned_range: "start mod 8 = 0 \<Longrightarrow> n mod 8 = 0 \<Longrightarrow>
    start div 8 \<le> m div 8 \<and> m div 8 < start div 8 + n div 8 \<longleftrightarrow> start \<le> m \<and> m < start + (n :: nat)"
proof -
  assume "start mod 8 = 0" "n mod 8 = 0"
  then obtain a b where "start = 8 * a" "n = 8 * b" by (metis mult_div_mod_eq add.right_neutral)
  then show ?thesis by (auto simp: less_mult_imp_div_less div_less_iff_less_mult less_eq_div_iff_mult_less_eq)
qed

lemma bitmap_set_bits:
  assumes B: "range_lib_ok B" and n: "start + n \<le> 64 * length bm"
  shows "bitmap_bits (bitmap_set B kn bm start n) = bitmap_bits bm \<union> {start..<start + n}"
    "length (bitmap_set B kn bm start n) = length bm"
proof -
  have cov: "covers bm m" if "m < start + n" for m using that n by (simp add: covers_iff)
  consider (one) "kn_one kn \<and> n = 1"
    | (sum) "\<not> (kn_one kn \<and> n = 1)" "small_const_nbits (kn_sum kn) (start + n)"
    | (bytes) "\<not> (kn_one kn \<and> n = 1)" "\<not> small_const_nbits (kn_sum kn) (start + n)" "kn_low kn" "start mod 8 = 0" "n mod 8 = 0"
    | (lib) "\<not> (kn_one kn \<and> n = 1)" "\<not> small_const_nbits (kn_sum kn) (start + n)" "\<not> (kn_low kn \<and> start mod 8 = 0 \<and> n mod 8 = 0)"
    by auto
  then have "bitmap_bits (bitmap_set B kn bm start n) = bitmap_bits bm \<union> {start..<start + n} \<and>
      length (bitmap_set B kn bm start n) = length bm"
  proof cases
    case one
    then show ?thesis using cov [of start] set_bit_bits [of bm start] by (auto simp: bitmap_set_def plain_set_bit_def)
  next
    case sum
    note s = small_cases [OF sum(2) n]
    have "m \<in> bitmap_bits (bm[0 := bm ! 0 OR GENMASK (start + n - 1) start]) \<longleftrightarrow> m \<in> bitmap_bits bm \<or> start \<le> m \<and> m < start + n" for m
    proof (cases "m < 64")
      case True
      then have m: "m div 64 = 0" "m mod 64 = m" "covers bm m" using s(2) by (simp_all add: covers_def)
      have "start + n - 1 < 64" "m \<le> start + n - 1 \<longleftrightarrow> m < start + n" using s(1,3) by linarith+
      then show ?thesis using m by (simp only: bitmap_bits_update) (simp add: in_bitmap_bits bit_or_iff bit_GENMASK)
    next
      case False
      then have "m div 64 \<noteq> 0" "\<not> m < start + n" using s(1) by auto
      then show ?thesis by (simp only: bitmap_bits_update) (simp add: in_bitmap_bits)
    qed
    then have "bitmap_bits (bm[0 := bm ! 0 OR GENMASK (start + n - 1) start]) = bitmap_bits bm \<union> {start..<start + n}"
      by (intro set_eqI) simp
    then show ?thesis using sum unfolding bitmap_set_def if_not_P [OF sum(1)] by (simp add: list_update_id)
  next
    case bytes
    have "m \<in> bitmap_bits (memset bm (start div 8) 0xff (n div 8)) \<longleftrightarrow> m \<in> bitmap_bits bm \<or> start \<le> m \<and> m < start + n" for m
    proof -
      have "bit (0xff :: u8) (m mod 8)" by (simp only: bit_ff)
      then show ?thesis
        unfolding memset_bits aligned_range [OF bytes(4,5)] using cov [of m] by (auto simp: in_bitmap_bits)
    qed
    then have "bitmap_bits (memset bm (start div 8) 0xff (n div 8)) = bitmap_bits bm \<union> {start..<start + n}"
      by (intro set_eqI) simp
    then show ?thesis using bytes(3,4,5) unfolding bitmap_set_def if_not_P [OF bytes(1)] if_not_P [OF bytes(2)] by simp
  next
    case lib
    then show ?thesis using B n unfolding bitmap_set_def range_lib_ok_def by auto
  qed
  then show "bitmap_bits (bitmap_set B kn bm start n) = bitmap_bits bm \<union> {start..<start + n}"
    "length (bitmap_set B kn bm start n) = length bm" by auto
qed

lemma bitmap_clear_bits:
  assumes B: "range_lib_ok B" and n: "start + n \<le> 64 * length bm"
  shows "bitmap_bits (bitmap_clear B kn bm start n) = bitmap_bits bm - {start..<start + n}"
    "length (bitmap_clear B kn bm start n) = length bm"
proof -
  have cov: "covers bm m" if "m < start + n" for m using that n by (simp add: covers_iff)
  consider (one) "kn_one kn \<and> n = 1"
    | (sum) "\<not> (kn_one kn \<and> n = 1)" "small_const_nbits (kn_sum kn) (start + n)"
    | (bytes) "\<not> (kn_one kn \<and> n = 1)" "\<not> small_const_nbits (kn_sum kn) (start + n)" "kn_low kn" "start mod 8 = 0" "n mod 8 = 0"
    | (lib) "\<not> (kn_one kn \<and> n = 1)" "\<not> small_const_nbits (kn_sum kn) (start + n)" "\<not> (kn_low kn \<and> start mod 8 = 0 \<and> n mod 8 = 0)"
    by auto
  then have "bitmap_bits (bitmap_clear B kn bm start n) = bitmap_bits bm - {start..<start + n} \<and>
      length (bitmap_clear B kn bm start n) = length bm"
  proof cases
    case one
    then show ?thesis using cov [of start] clear_bit_bits [of bm start] by (auto simp: bitmap_clear_def plain_clear_bit_def)
  next
    case sum
    note s = small_cases [OF sum(2) n]
    have "m \<in> bitmap_bits (bm[0 := bm ! 0 AND NOT (GENMASK (start + n - 1) start)]) \<longleftrightarrow>
        m \<in> bitmap_bits bm \<and> \<not> (start \<le> m \<and> m < start + n)" for m
    proof (cases "m < 64")
      case True
      then have m: "m div 64 = 0" "m mod 64 = m" "covers bm m" using s(2) by (simp_all add: covers_def)
      have "start + n - 1 < 64" "m \<le> start + n - 1 \<longleftrightarrow> m < start + n" using s(1,3) by linarith+
      then show ?thesis using m True
        by (simp only: bitmap_bits_update) (simp add: in_bitmap_bits bit_and_iff bit_not_iff bit_GENMASK)
    next
      case False
      then have "m div 64 \<noteq> 0" "\<not> m < start + n" using s(1) by auto
      then show ?thesis by (simp only: bitmap_bits_update) (simp add: in_bitmap_bits)
    qed
    then have "bitmap_bits (bm[0 := bm ! 0 AND NOT (GENMASK (start + n - 1) start)]) = bitmap_bits bm - {start..<start + n}"
      by (intro set_eqI) simp
    then show ?thesis using sum unfolding bitmap_clear_def if_not_P [OF sum(1)] by (simp add: list_update_id)
  next
    case bytes
    have "m \<in> bitmap_bits (memset bm (start div 8) 0 (n div 8)) \<longleftrightarrow> m \<in> bitmap_bits bm \<and> \<not> (start \<le> m \<and> m < start + n)" for m
      unfolding memset_bits aligned_range [OF bytes(4,5)] by (auto simp: in_bitmap_bits)
    then have "bitmap_bits (memset bm (start div 8) 0 (n div 8)) = bitmap_bits bm - {start..<start + n}"
      by (intro set_eqI) simp
    then show ?thesis using bytes(3,4,5) unfolding bitmap_clear_def if_not_P [OF bytes(1)] if_not_P [OF bytes(2)] by simp
  next
    case lib
    then show ?thesis using B n unfolding bitmap_clear_def range_lib_ok_def by auto
  qed
  then show "bitmap_bits (bitmap_clear B kn bm start n) = bitmap_bits bm - {start..<start + n}"
    "length (bitmap_clear B kn bm start n) = length bm" by auto
qed

subsection \<open>Regions\<close>

definition region_free :: "u64 list \<Rightarrow> nat \<Rightarrow> nat \<Rightarrow> bool" where
  "region_free bm pos order \<longleftrightarrow> bitmap_bits bm \<inter> {pos..<pos + 2 ^ order} = {}"

text \<open>A region of less than \<open>2 ^ 32\<close> bits that ends below there is measured exactly; a larger one has length 0.\<close>

lemma unsigned_int_small: "n < 2 ^ 32 \<Longrightarrow> unsigned_int n = n"
  by (simp add: unsigned_int_def take_bit_nat_eq_self)

lemma signed_int_small: "n < 2 ^ 31 \<Longrightarrow> signed_int n = int n"
  by (simp add: signed_int_def signed_take_bit_int_eq_self)

lemma unat_BIT: "order < 64 \<Longrightarrow> unat (BIT order) = 2 ^ order"
  using power_strict_increasing [of order 64 "2 :: nat"]
  by (simp only: BIT_def unsigned_push_bit_eq unsigned_1) (simp add: push_bit_eq_mult take_bit_nat_eq_self)

lemma region_length: "order < 32 \<Longrightarrow> unsigned_int (2 ^ order) = 2 ^ order"
  by (intro unsigned_int_small power_strict_increasing) simp_all

lemma region_length_lost: "32 \<le> order \<Longrightarrow> unsigned_int (2 ^ order) = 0"
  using le_imp_power_dvd [of 32 order "2 :: nat"] by (simp only: unsigned_int_def take_bit_eq_mod mod_eq_0_iff_dvd)

lemma allocate_region_cases:
  assumes "find_lib_ok L" "pos + 2 ^ order \<le> 64 * length bm" "order < 32" "pos + 2 ^ order < 2 ^ 32"
  shows "bitmap_allocate_region L B kn bm pos order =
    (if region_free bm pos order then (0, bitmap_set B kn bm pos (2 ^ order)) else (- EBUSY, bm))"
proof -
  have "find_next_bit L (kn_sum kn) bm (pos + 2 ^ order) pos < pos + 2 ^ order \<longleftrightarrow> \<not> region_free bm pos order"
    unfolding find_next_bit_spec [OF assms(1,2)] next_from_less region_free_def by auto
  then show ?thesis
    using assms(3,4) by (simp add: bitmap_allocate_region_def Let_def unat_BIT region_length unsigned_int_small)
qed

text \<open>The regions tried from \<open>pos\<close> on.\<close>

definition tried_region :: "nat \<Rightarrow> nat \<Rightarrow> nat \<Rightarrow> nat \<Rightarrow> bool" where
  "tried_region bits order pos p \<longleftrightarrow> pos \<le> p \<and> 2 ^ order dvd p - pos \<and> p + 2 ^ order \<le> bits"

lemma tried_region_step: "tried_region bits order pos p \<Longrightarrow> p = pos \<or> tried_region bits order (pos + 2 ^ order) p"
proof -
  assume t: "tried_region bits order pos p"
  show ?thesis
  proof (cases "p = pos")
    case False
    then have "0 < p - pos" using t by (auto simp: tried_region_def)
    then have "2 ^ order \<le> p - pos" using t dvd_imp_le [of "2 ^ order" "p - pos"] by (auto simp: tried_region_def)
    moreover then have "2 ^ order dvd p - (pos + 2 ^ order)"
      using t dvd_diff_nat [of "2 ^ order" "p - pos" "2 ^ order"] by (auto simp: tried_region_def diff_diff_left)
    ultimately show ?thesis using t by (auto simp: tried_region_def)
  qed simp
qed

lemma tried_region_back: "tried_region bits order (pos + 2 ^ order) p \<Longrightarrow> tried_region bits order pos p"
proof -
  assume t: "tried_region bits order (pos + 2 ^ order) p"
  then obtain k where "p - (pos + 2 ^ order) = 2 ^ order * k" by (auto simp: tried_region_def)
  then have "p - pos = 2 ^ order * (k + 1)" using t by (auto simp: tried_region_def)
  then show ?thesis using t by (auto simp: tried_region_def)
qed

lemma tried_region_first: "tried_region bits order pos pos \<longleftrightarrow> pos + 2 ^ order \<le> bits"
  by (simp add: tried_region_def)

lemma free_region_loop_cases:
  assumes "find_lib_ok L" "bits \<le> 64 * length bm" "order < 32" "bits < 2 ^ 31"
  shows "pos < 2 ^ 31 \<Longrightarrow>
    (\<exists>p. free_region_loop L B kn bm bits order pos = Some (int p, bitmap_set B kn bm p (2 ^ order)) \<and>
      tried_region bits order pos p \<and> region_free bm p order \<and>
      (\<forall>p'. tried_region bits order pos p' \<and> region_free bm p' order \<longrightarrow> p \<le> p')) \<or>
    free_region_loop L B kn bm bits order pos = Some (- ENOMEM, bm) \<and>
      (\<forall>p'. tried_region bits order pos p' \<longrightarrow> \<not> region_free bm p' order)"
proof (induction "bits - pos" arbitrary: pos rule: less_induct)
  case less
  have "(2 :: nat) ^ order \<le> 2 ^ 31" using assms(3) by (intro power_increasing) simp_all
  then have sum: "pos + 2 ^ order < 2 ^ 32" using less.prems by simp
  then have e: "unsigned_int (pos + unat (BIT order)) = pos + 2 ^ order"
    using assms(3) by (simp add: unat_BIT unsigned_int_small)
  note loop = free_region_loop.simps [of L B kn bm bits order pos, unfolded e]
  show ?case
  proof (cases "pos + 2 ^ order \<le> bits")
    case False
    then have "\<not> tried_region bits order pos p" for p by (auto simp: tried_region_def)
    with False loop show ?thesis by (simp add: Let_def)
  next
    case True
    then have a: "bitmap_allocate_region L B kn bm pos order =
        (if region_free bm pos order then (0, bitmap_set B kn bm pos (2 ^ order)) else (- EBUSY, bm))"
      using sum assms by (intro allocate_region_cases) auto
    show ?thesis
    proof (cases "region_free bm pos order")
      case free: True
      then have "free_region_loop L B kn bm bits order pos = Some (int pos, bitmap_set B kn bm pos (2 ^ order))"
        using loop True a less.prems by (simp add: Let_def signed_int_small)
      then show ?thesis using free True by (auto simp: tried_region_first) (auto simp: tried_region_def)
    next
      case busy: False
      have l: "free_region_loop L B kn bm bits order pos = free_region_loop L B kn bm bits order (pos + 2 ^ order)"
        using loop True a busy by (simp add: Let_def EBUSY_def)
      have "0 < (2 :: nat) ^ order" by simp
      then have "bits - (pos + 2 ^ order) < bits - pos" "pos + 2 ^ order < 2 ^ 31" using True assms(4) by linarith+
      from less.hyps [OF this] show ?thesis unfolding l using busy tried_region_step tried_region_back by blast
    qed
  qed
qed

text \<open>An order from 32 on asks for nothing, which is always free.\<close>

lemma free_region_of_nothing:
  assumes "32 \<le> order" "order < 64"
  shows "bitmap_find_free_region L B kn bm bits order = Some (0, bitmap_set B kn bm 0 0)"
  using assms
  by (subst bitmap_find_free_region_def, subst free_region_loop.simps)
    (simp add: bitmap_allocate_region_def unat_BIT region_length_lost signed_int_def unsigned_int_small Let_def)

subsection \<open>Scattering and gathering\<close>

lemma bitmap_size_words: "bitmap_size n div 8 = (n + 63) div 64"
  by (simp add: bitmap_size_def BITS_PER_LONG_def)

lemma words_enough: "n \<le> 64 * k \<Longrightarrow> (n + 63) div 64 \<le> (k :: nat)" "m < n \<Longrightarrow> m div 64 < (n + 63) div (64 :: nat)"
  by arith+

lemma bitmap_zero_bits:
  assumes n: "n \<le> 64 * length bm"
  shows "length (bitmap_zero const bm n) = length bm" "m < n \<Longrightarrow> m \<notin> bitmap_bits (bitmap_zero const bm n)"
proof -
  let ?k = "(n + 63) div 64"
  have k: "?k \<le> length bm" by (rule words_enough(1) [OF n])
  show "length (bitmap_zero const bm n) = length bm"
    using k by (simp add: bitmap_zero_def fill_words_def bitmap_size_words)
  show "m \<notin> bitmap_bits (bitmap_zero const bm n)" if m: "m < n"
  proof (cases "small_const_nbits const n")
    case True
    then have "m div 64 = 0" using m by (auto simp: small_const_nbits_def BITS_PER_LONG_def)
    then show ?thesis using True unfolding bitmap_zero_def if_P [OF True] bitmap_bits_update by simp
  next
    case False
    have "(replicate ?k 0 @ drop ?k bm) ! (m div 64) = 0" using words_enough(2) [OF m] by (simp add: nth_append)
    then show ?thesis using False by (simp add: bitmap_zero_def fill_words_def bitmap_size_words in_bitmap_bits)
  qed
qed

text \<open>A loop that assigns the bits \<open>f b i\<close>, one for each element of the list.\<close>

definition targets :: "(nat \<Rightarrow> nat \<Rightarrow> nat) \<Rightarrow> (nat \<Rightarrow> nat \<Rightarrow> bool) \<Rightarrow> nat list \<Rightarrow> nat set" where
  "targets f g bs = (\<lambda>i. f (bs ! i) i) ` {i. i < length bs \<and> g (bs ! i) i}"

lemma targets_snoc: "targets f g (bs @ [b]) = (if g b (length bs) then insert (f b (length bs)) (targets f g bs) else targets f g bs)"
proof -
  have s: "{i. i < length (bs @ [b]) \<and> g ((bs @ [b]) ! i) i} =
      {i. i < length bs \<and> g (bs ! i) i} \<union> (if g b (length bs) then {length bs} else {})"
    by (intro set_eqI) (simp add: nth_append less_Suc_eq conj_disj_distribR cong: conj_cong)
  have "(\<lambda>i. f ((bs @ [b]) ! i) i) ` {i. i < length bs \<and> g (bs ! i) i} = targets f g bs"
    unfolding targets_def by (rule image_cong) (auto simp: nth_append)
  then show ?thesis unfolding targets_def [of f g "bs @ [b]"] s image_Un by simp
qed

lemma targets_mono: "targets f g bs \<subseteq> targets f (\<lambda>_ _. True) bs"
  by (auto simp: targets_def)

lemma fold_assigns:
  assumes "\<forall>x\<in>targets f (\<lambda>_ _. True) bs. covers bm x" "inj_on (\<lambda>i. f (bs ! i) i) {..<length bs}"
  shows "\<exists>bm'. fold (\<lambda>b (bm, n). (plain_assign_bit (f b n) bm (g b n), n + 1)) bs (bm, 0) = (bm', length bs) \<and>
    length bm' = length bm \<and> bitmap_bits bm' = bitmap_bits bm - targets f (\<lambda>_ _. True) bs \<union> targets f g bs"
  using assms
proof (induction bs rule: rev_induct)
  case Nil
  then show ?case by (simp add: targets_def)
next
  case (snoc b bs)
  let ?x = "f b (length bs)"
  have c: "covers bm ?x" and p1: "\<forall>x\<in>targets f (\<lambda>_ _. True) bs. covers bm x"
    using snoc.prems(1) by (simp_all add: targets_snoc)
  have e: "(\<lambda>i. f ((bs @ [b]) ! i) i) ` {..<length bs} = targets f (\<lambda>_ _. True) bs"
    unfolding targets_def by (intro image_cong) (auto simp: nth_append)
  have i: "inj_on (\<lambda>i. f ((bs @ [b]) ! i) i) (insert (length bs) {..<length bs})"
    using snoc.prems(2) by (simp add: lessThan_Suc)
  then have d: "?x \<notin> targets f (\<lambda>_ _. True) bs" unfolding inj_on_insert e [symmetric] by simp
  have "inj_on (\<lambda>i. f ((bs @ [b]) ! i) i) {..<length bs}" using i by (simp add: inj_on_insert)
  then have p2: "inj_on (\<lambda>i. f (bs ! i) i) {..<length bs}" by (rule inj_on_cong [THEN iffD1, rotated]) (simp add: nth_append)
  obtain bm' where f: "fold (\<lambda>b (bm, n). (plain_assign_bit (f b n) bm (g b n), n + 1)) bs (bm, 0) = (bm', length bs)"
    and l: "length bm' = length bm" and m: "bitmap_bits bm' = bitmap_bits bm - targets f (\<lambda>_ _. True) bs \<union> targets f g bs"
    using snoc.IH [OF p1 p2] by blast
  have "covers bm' ?x" using c l by (simp add: covers_def)
  note a = assign_bit_bits [OF this, of "g b (length bs)"]
  have "?x \<notin> targets f g bs" using d targets_mono by blast
  then have "bitmap_bits (plain_assign_bit ?x bm' (g b (length bs))) =
      bitmap_bits bm - targets f (\<lambda>_ _. True) (bs @ [b]) \<union> targets f g (bs @ [b])"
    unfolding a m targets_snoc using d by auto
  then show ?case using f l by simp
qed

text \<open>The bits of the mask below \<open>n\<close>, in order.\<close>

definition mask_bits :: "u64 list \<Rightarrow> nat \<Rightarrow> nat list" where
  "mask_bits m n = sorted_list_of_set {i \<in> bitmap_bits m. i < n}"

lemma mask_bits_facts:
  "set (mask_bits m n) = {i \<in> bitmap_bits m. i < n}" "distinct (mask_bits m n)"
  "length (mask_bits m n) \<le> n" "k < length (mask_bits m n) \<Longrightarrow> mask_bits m n ! k < n"
proof -
  have f: "finite {i \<in> bitmap_bits m. i < n}" by simp
  then show s: "set (mask_bits m n) = {i \<in> bitmap_bits m. i < n}" and "distinct (mask_bits m n)"
    by (simp_all add: mask_bits_def)
  have "length (mask_bits m n) = card {i \<in> bitmap_bits m. i < n}" by (simp add: mask_bits_def)
  also have "\<dots> \<le> card {..<n}" by (intro card_mono) auto
  finally show "length (mask_bits m n) \<le> n" by simp
  show "mask_bits m n ! k < n" if "k < length (mask_bits m n)" using nth_mem [OF that] unfolding s by simp
qed

lemma mask_walk: "find_lib_ok L \<Longrightarrow> n \<le> 64 * length m \<Longrightarrow> for_each_set_bit L const m n = Some (mask_bits m n)"
  unfolding for_each_set_bit_def mask_bits_def
  by (subst bit_walk_visits [where S = "bitmap_bits m"]) (auto intro: find_next_bit_spec)

lemma bitmap_scatter_bits:
  assumes L: "find_lib_ok L" and n: "n \<le> 64 * length dst" "n \<le> 64 * length src" "n \<le> 64 * length m"
  shows "\<exists>r. bitmap_scatter L const dst src m n = Some r \<and> length r = length dst \<and>
    (\<forall>b<n. b \<in> bitmap_bits r \<longleftrightarrow> (\<exists>i<length (mask_bits m n). b = mask_bits m n ! i \<and> i \<in> bitmap_bits src))"
proof -
  let ?bs = "mask_bits m n" and ?z = "bitmap_zero const dst n"
  note mb = mask_bits_facts(1-3) [of m n] mask_bits_facts(4) [of _ m n] and z = bitmap_zero_bits(1) [OF n(1), of const] bitmap_zero_bits(2) [OF n(1), of _ const]
  have c: "\<forall>x\<in>targets (\<lambda>b _. b) (\<lambda>_ _. True) ?bs. covers ?z x"
    using mb(4) n(1) z(1) by (fastforce simp: targets_def covers_iff)
  have i: "inj_on (\<lambda>i. ?bs ! i) {..<length ?bs}" using mb(2) by (intro inj_on_nth) auto
  obtain r where r: "fold (\<lambda>b (d, k). (plain_assign_bit b d (test_bit False k src), k + 1)) ?bs (?z, 0) = (r, length ?bs)"
      "length r = length ?z" "bitmap_bits r = bitmap_bits ?z - targets (\<lambda>b _. b) (\<lambda>_ _. True) ?bs \<union>
        targets (\<lambda>b _. b) (\<lambda>_ k. test_bit False k src) ?bs"
    using fold_assigns [OF c i, of "\<lambda>_ k. test_bit False k src"] by blast
  have t: "test_bit False k src \<longleftrightarrow> k \<in> bitmap_bits src" if "k < length ?bs" for k
    using that mb(3) n(2) by (intro test_bit_bits) (simp add: covers_iff)
  have "bitmap_scatter L const dst src m n = Some r"
    unfolding bitmap_scatter_def mask_walk [OF L n(3)] option.map r(1) by simp
  moreover have "\<forall>b<n. b \<in> bitmap_bits r \<longleftrightarrow> (\<exists>i<length ?bs. b = ?bs ! i \<and> i \<in> bitmap_bits src)"
    using z(2) t by (auto simp: r(3) targets_def)
  ultimately show ?thesis using r(2) z(1) by auto
qed

lemma bitmap_gather_bits:
  assumes L: "find_lib_ok L" and n: "n \<le> 64 * length dst" "n \<le> 64 * length src" "n \<le> 64 * length m"
  shows "\<exists>r. bitmap_gather L const dst src m n = Some r \<and> length r = length dst \<and>
    (\<forall>i<n. i \<in> bitmap_bits r \<longleftrightarrow> i < length (mask_bits m n) \<and> mask_bits m n ! i \<in> bitmap_bits src)"
proof -
  let ?bs = "mask_bits m n" and ?z = "bitmap_zero const dst n"
  note mb = mask_bits_facts(1-3) [of m n] mask_bits_facts(4) [of _ m n] and z = bitmap_zero_bits(1) [OF n(1), of const] bitmap_zero_bits(2) [OF n(1), of _ const]
  have c: "\<forall>x\<in>targets (\<lambda>_ i. i) (\<lambda>_ _. True) ?bs. covers ?z x"
    using mb(3) n(1) z(1) by (fastforce simp: targets_def covers_iff)
  obtain r where r: "fold (\<lambda>b (d, k). (plain_assign_bit k d (test_bit False b src), k + 1)) ?bs (?z, 0) = (r, length ?bs)"
      "length r = length ?z" "bitmap_bits r = bitmap_bits ?z - targets (\<lambda>_ i. i) (\<lambda>_ _. True) ?bs \<union>
        targets (\<lambda>_ i. i) (\<lambda>b _. test_bit False b src) ?bs"
    using fold_assigns [OF c, of "\<lambda>b _. test_bit False b src"] by (auto simp: inj_on_def)
  have t: "test_bit False (?bs ! k) src \<longleftrightarrow> ?bs ! k \<in> bitmap_bits src" if "k < length ?bs" for k
    using mb(4) [OF that] n(2) by (intro test_bit_bits) (simp add: covers_iff)
  have "bitmap_gather L const dst src m n = Some r"
    unfolding bitmap_gather_def mask_walk [OF L n(3)] option.map r(1) by simp
  moreover have "\<forall>i<n. i \<in> bitmap_bits r \<longleftrightarrow> i < length ?bs \<and> ?bs ! i \<in> bitmap_bits src"
    using z(2) t by (auto simp: r(3) targets_def)
  ultimately show ?thesis using r(2) z(1) by auto
qed

end
