(* ===== verification/Bit_Reference.thy ===== *)
theory Bit_Reference
  imports Bitmap_Facts
begin

text \<open>
  The simplest functions with the behaviour that lib/find\_bit.c and lib/bitmap.c document: they
  test the bits one after the other. They show that the hypotheses on these files can hold, and
  that what is inline in the headers does not depend on them.
\<close>

definition bit_at :: "u64 list \<Rightarrow> nat \<Rightarrow> bool" where
  "bit_at bm i \<longleftrightarrow> i div 64 < length bm \<and> bit (bm ! (i div 64)) (i mod 64)"

definition search :: "(nat \<Rightarrow> bool) \<Rightarrow> nat \<Rightarrow> nat \<Rightarrow> nat" where
  "search P n off = (case filter P [off..<n] of [] \<Rightarrow> n | k # _ \<Rightarrow> k)"

definition search_nth :: "(nat \<Rightarrow> bool) \<Rightarrow> nat \<Rightarrow> nat \<Rightarrow> nat" where
  "search_nth P n k = (let found = filter P [0..<n] in if k < length found then found ! k else n)"

definition naive_find :: find_lib where
  "naive_find = \<lparr>lib_find_next_bit = (\<lambda>bm. search (bit_at bm)),
    lib_find_next_and_bit = (\<lambda>a b. search (\<lambda>i. bit_at a i \<and> bit_at b i)),
    lib_find_next_andnot_bit = (\<lambda>a b. search (\<lambda>i. bit_at a i \<and> \<not> bit_at b i)),
    lib_find_next_or_bit = (\<lambda>a b. search (\<lambda>i. bit_at a i \<or> bit_at b i)),
    lib_find_next_zero_bit = (\<lambda>bm. search (\<lambda>i. \<not> bit_at bm i)),
    lib_find_first_bit = (\<lambda>bm n. search (bit_at bm) n 0),
    lib_find_nth_bit = (\<lambda>bm. search_nth (bit_at bm)),
    lib_find_nth_and_bit = (\<lambda>a b. search_nth (\<lambda>i. bit_at a i \<and> bit_at b i)),
    lib_find_nth_andnot_bit = (\<lambda>a b. search_nth (\<lambda>i. bit_at a i \<and> \<not> bit_at b i)),
    lib_find_nth_and_andnot_bit = (\<lambda>a b c. search_nth (\<lambda>i. bit_at a i \<and> bit_at b i \<and> \<not> bit_at c i)),
    lib_find_first_and_bit = (\<lambda>a b n. search (\<lambda>i. bit_at a i \<and> bit_at b i) n 0),
    lib_find_first_and_and_bit = (\<lambda>a b c n. search (\<lambda>i. bit_at a i \<and> bit_at b i \<and> bit_at c i) n 0),
    lib_find_first_zero_bit = (\<lambda>bm n. search (\<lambda>i. \<not> bit_at bm i) n 0),
    lib_find_last_bit = (\<lambda>bm n. case filter (bit_at bm) (rev [0..<n]) of [] \<Rightarrow> n | k # _ \<Rightarrow> k)\<rparr>"

lemma bit_at_bits: "bit_at bm i \<longleftrightarrow> i \<in> bitmap_bits bm"
  by (simp add: bit_at_def in_bitmap_bits covers_def)

lemma bitmap_bits_filter: "bitmap_bits bm = set (filter (bit_at bm) [0..<64 * length bm])"
  by (auto simp: bit_at_bits in_bitmap_bits covers_iff)

lemma bitmap_bits_code: "filter (bit_at bm) [0..<64 * length bm] = is \<Longrightarrow> bitmap_bits bm = set is"
  unfolding bitmap_bits_filter by (rule arg_cong)

lemma search_next_from: "search P n off = next_from {i. P i} n off"
proof (cases "filter P [off..<n]")
  case Nil
  then have "\<forall>i\<in>{i. P i}. off \<le> i \<longrightarrow> n \<le> i" by (auto simp: filter_empty_conv not_less [symmetric])
  then show ?thesis using Nil by (simp add: search_def next_from_empty)
next
  case (Cons k ks)
  have k: "P k" "off \<le> k" "k < n" using Cons by (auto dest!: arg_cong [where f = set])
  have "sorted (filter P [off..<n])" by (intro sorted_wrt_filter) simp
  then have "\<forall>i\<in>set (filter P [off..<n]). k \<le> i" unfolding Cons by simp
  then have *: "\<forall>i. P i \<longrightarrow> off \<le> i \<longrightarrow> i < n \<longrightarrow> k \<le> i" by simp
  have "\<forall>i\<in>{i. P i}. off \<le> i \<longrightarrow> k \<le> i" 
  proof (intro ballI impI)
    fix i
    assume "i \<in> {i. P i}" "off \<le> i"
    then show "k \<le> i" using * k(3) by (cases "i < n") auto
  qed
  then show ?thesis using Cons k by (simp add: search_def next_from_eq)
qed

theorem naive_find_ok: "find_lib_ok naive_find"
  unfolding find_lib_ok_def naive_find_def
  by (simp add: search_next_from bit_at_bits Int_def Un_def set_diff_eq Compl_eq)

subsection \<open>Ranges\<close>

definition naive_range :: "bool \<Rightarrow> u64 list \<Rightarrow> nat \<Rightarrow> nat \<Rightarrow> u64 list" where
  "naive_range v bm start n = fold (\<lambda>i bm. plain_assign_bit i bm v) [start..<start + n] bm"

text \<open>A bitmap library with these ranges; the other functions are those of \<open>B\<close>.\<close>

definition naive_ranges :: "bitmap_lib \<Rightarrow> bitmap_lib" where
  "naive_ranges B = B\<lparr>lib_set := naive_range True, lib_clear := naive_range False\<rparr>"

lemma naive_range_bits:
  "start + n \<le> 64 * length bm \<Longrightarrow> length (naive_range v bm start n) = length bm \<and>
     bitmap_bits (naive_range v bm start n) = (if v then bitmap_bits bm \<union> {start..<start + n} else bitmap_bits bm - {start..<start + n})"
proof (induction n)
  case (Suc n)
  let ?b = "naive_range v bm start n"
  have IH: "length ?b = length bm"
    "bitmap_bits ?b = (if v then bitmap_bits bm \<union> {start..<start + n} else bitmap_bits bm - {start..<start + n})"
    using Suc by auto
  have "covers ?b (start + n)" using Suc.prems IH(1) by (simp add: covers_iff)
  note a = assign_bit_bits [OF this, of v]
  have "naive_range v bm start (Suc n) = plain_assign_bit (start + n) ?b v" by (simp add: naive_range_def)
  then show ?case using a IH by (auto simp: atLeastLessThanSuc)
qed (simp add: naive_range_def)

theorem naive_ranges_ok: "range_lib_ok (naive_ranges B)"
  using naive_range_bits unfolding range_lib_ok_def naive_ranges_def by auto

subsection \<open>What is inline does not depend on the library\<close>

lemma inline_search:
  assumes "small_const_nbits const n"
  shows "find_next_bit L const a n off = find_next_bit naive_find const a n off"
    "find_next_zero_bit L const a n off = find_next_zero_bit naive_find const a n off"
    "find_next_and_bit L const a b n off = find_next_and_bit naive_find const a b n off"
    "find_next_andnot_bit L const a b n off = find_next_andnot_bit naive_find const a b n off"
    "find_next_or_bit L const a b n off = find_next_or_bit naive_find const a b n off"
    "find_first_bit L const a n = find_first_bit naive_find const a n"
    "find_first_zero_bit L const a n = find_first_zero_bit naive_find const a n"
    "find_first_and_bit L const a b n = find_first_and_bit naive_find const a b n"
  using assms by (simp_all add: find_next_bit_def find_next_zero_bit_def find_next_and_bit_def find_next_andnot_bit_def
      find_next_or_bit_def find_first_bit_def find_first_zero_bit_def find_first_and_bit_def)

lemma inline_next:
  assumes "small_const_nbits const n" "n \<le> 64 * length a" "n \<le> 64 * length b"
  shows "find_next_bit L const a n off = next_from (bitmap_bits a) n off"
    "find_next_zero_bit L const a n off = next_from (- bitmap_bits a) n off"
    "find_next_and_bit L const a b n off = next_from (bitmap_bits a \<inter> bitmap_bits b) n off"
    "find_next_andnot_bit L const a b n off = next_from (bitmap_bits a - bitmap_bits b) n off"
    "find_next_or_bit L const a b n off = next_from (bitmap_bits a \<union> bitmap_bits b) n off"
    "find_first_bit L const a n = next_from (bitmap_bits a) n 0"
    "find_first_zero_bit L const a n = next_from (- bitmap_bits a) n 0"
    "find_first_and_bit L const a b n = next_from (bitmap_bits a \<inter> bitmap_bits b) n 0"
  unfolding inline_search [OF assms(1), of L]
  using find_next_bit_spec [OF naive_find_ok assms(2)] find_next_zero_bit_spec [OF naive_find_ok assms(2)]
    find_next_two_spec [OF naive_find_ok assms(2,3)] find_first_is_next [OF naive_find_ok assms(2,3)] by simp_all

end
