(* ===== verification/Cpumask.thy ===== *)
theory Cpumask
  imports Bit_Reference
begin

text \<open>
  CPU masks (kheaders/include/linux/cpumask.h, cpumask\_types.h): a mask is a bitmap of \<open>NR_CPUS\<close>
  (32 in this build, one word) bits. \<open>small_cpumask_bits\<close> and \<open>large_cpumask_bits\<close> are that constant,
  so most functions take the inline branch of bitmap.h and find.h; \<open>nr_cpumask_bits\<close> is the variable
  \<open>nr_cpu_ids\<close>. \<open>cpumask_check\<close> warns only with CONFIG\_DEBUG\_PER\_CPU\_MAPS, off here.
\<close>

subsection \<open>Operations\<close>

definition NR_CPUS :: nat where "NR_CPUS = 32"

definition small_cpumask_bits :: nat where "small_cpumask_bits = NR_CPUS"

definition large_cpumask_bits :: nat where "large_cpumask_bits = NR_CPUS"

type_synonym cpumask = "u64 list"

text \<open>The masks of the system, the number of CPU numbers and of CPUs online.\<close>

record cpu_masks =
  cpu_possible_mask :: cpumask
  cpu_online_mask :: cpumask
  cpu_enabled_mask :: cpumask
  cpu_present_mask :: cpumask
  cpu_active_mask :: cpumask
  cpu_dying_mask :: cpumask
  num_online :: u32
  nr_cpu_ids :: nat

definition set_nr_cpu_ids :: "nat \<Rightarrow> cpu_masks \<Rightarrow> cpu_masks" where
  "set_nr_cpu_ids nr M = M\<lparr>nr_cpu_ids := nr\<rparr>"

definition cpumask_check :: "nat \<Rightarrow> nat" where
  "cpumask_check cpu = cpu"

definition cpumask_first :: "find_lib \<Rightarrow> cpumask \<Rightarrow> nat" where
  "cpumask_first L srcp = find_first_bit L True srcp small_cpumask_bits"

definition cpumask_first_zero :: "find_lib \<Rightarrow> cpumask \<Rightarrow> nat" where
  "cpumask_first_zero L srcp = find_first_zero_bit L True srcp small_cpumask_bits"

definition cpumask_first_and :: "find_lib \<Rightarrow> cpumask \<Rightarrow> cpumask \<Rightarrow> nat" where
  "cpumask_first_and L srcp1 srcp2 = find_first_and_bit L True srcp1 srcp2 small_cpumask_bits"

definition cpumask_first_and_and :: "find_lib \<Rightarrow> cpumask \<Rightarrow> cpumask \<Rightarrow> cpumask \<Rightarrow> nat" where
  "cpumask_first_and_and L srcp1 srcp2 srcp3 = find_first_and_and_bit L True srcp1 srcp2 srcp3 small_cpumask_bits"

definition cpumask_last :: "find_lib \<Rightarrow> cpumask \<Rightarrow> nat" where
  "cpumask_last L srcp = find_last_bit L True srcp small_cpumask_bits"

text \<open>\<open>n\<close> is an int: -1 to start, else a CPU number.\<close>

definition cpumask_next :: "find_lib \<Rightarrow> int \<Rightarrow> cpumask \<Rightarrow> nat" where
  "cpumask_next L n srcp = find_next_bit L True srcp small_cpumask_bits (nat (n + 1))"

definition cpumask_next_zero :: "find_lib \<Rightarrow> int \<Rightarrow> cpumask \<Rightarrow> nat" where
  "cpumask_next_zero L n srcp = find_next_zero_bit L True srcp small_cpumask_bits (nat (n + 1))"

definition cpumask_next_and :: "find_lib \<Rightarrow> int \<Rightarrow> cpumask \<Rightarrow> cpumask \<Rightarrow> nat" where
  "cpumask_next_and L n src1p src2p = find_next_and_bit L True src1p src2p small_cpumask_bits (nat (n + 1))"

definition for_each_cpu :: "find_lib \<Rightarrow> cpumask \<Rightarrow> nat list option" where
  "for_each_cpu L m = for_each_set_bit L True m small_cpumask_bits"

definition for_each_cpu_wrap :: "find_lib \<Rightarrow> bool \<Rightarrow> cpumask \<Rightarrow> nat \<Rightarrow> nat list option" where
  "for_each_cpu_wrap L c' m start = for_each_set_bit_wrap L True c' m small_cpumask_bits start"

definition for_each_cpu_and :: "find_lib \<Rightarrow> cpumask \<Rightarrow> cpumask \<Rightarrow> nat list option" where
  "for_each_cpu_and L mask1 mask2 = for_each_and_bit L True mask1 mask2 small_cpumask_bits"

definition for_each_cpu_andnot :: "find_lib \<Rightarrow> cpumask \<Rightarrow> cpumask \<Rightarrow> nat list option" where
  "for_each_cpu_andnot L mask1 mask2 = for_each_andnot_bit L True mask1 mask2 small_cpumask_bits"

definition for_each_cpu_or :: "find_lib \<Rightarrow> cpumask \<Rightarrow> cpumask \<Rightarrow> nat list option" where
  "for_each_cpu_or L mask1 mask2 = for_each_or_bit L True mask1 mask2 small_cpumask_bits"

definition for_each_cpu_from :: "find_lib \<Rightarrow> nat \<Rightarrow> cpumask \<Rightarrow> nat list option" where
  "for_each_cpu_from L cpu m = for_each_set_bit_from L True cpu m small_cpumask_bits"

text \<open>The loop leaves at the first CPU that is not \<open>cpu\<close>, or past the last.\<close>

partial_function (option) any_but_loop :: "(nat \<Rightarrow> nat) \<Rightarrow> nat \<Rightarrow> nat \<Rightarrow> nat \<Rightarrow> nat option" where
  "any_but_loop nxt sz cpu i =
     (let i = nxt i in if i < sz then if i \<noteq> cpu then Some i else any_but_loop nxt sz cpu (i + 1) else Some i)"

definition cpumask_any_but :: "find_lib \<Rightarrow> cpumask \<Rightarrow> nat \<Rightarrow> nat option" where
  "cpumask_any_but L m cpu =
     any_but_loop (find_next_bit L True m small_cpumask_bits) small_cpumask_bits (cpumask_check cpu) 0"

definition cpumask_any_and_but :: "find_lib \<Rightarrow> cpumask \<Rightarrow> cpumask \<Rightarrow> nat \<Rightarrow> nat" where
  "cpumask_any_and_but L mask1 mask2 cpu =
     (let i = cpumask_first_and L mask1 mask2 in
      if i \<noteq> cpu then i else cpumask_next_and L (int cpu) mask1 mask2)"

definition cpumask_nth :: "find_lib \<Rightarrow> nat \<Rightarrow> cpumask \<Rightarrow> nat" where
  "cpumask_nth L cpu srcp = find_nth_bit L True srcp small_cpumask_bits (cpumask_check cpu)"

definition cpumask_nth_and :: "find_lib \<Rightarrow> nat \<Rightarrow> cpumask \<Rightarrow> cpumask \<Rightarrow> nat" where
  "cpumask_nth_and L cpu srcp1 srcp2 = find_nth_and_bit L True srcp1 srcp2 small_cpumask_bits (cpumask_check cpu)"

definition cpumask_nth_andnot :: "find_lib \<Rightarrow> nat \<Rightarrow> cpumask \<Rightarrow> cpumask \<Rightarrow> nat" where
  "cpumask_nth_andnot L cpu srcp1 srcp2 =
     find_nth_andnot_bit L True srcp1 srcp2 small_cpumask_bits (cpumask_check cpu)"

definition cpumask_nth_and_andnot :: "find_lib \<Rightarrow> nat \<Rightarrow> cpumask \<Rightarrow> cpumask \<Rightarrow> cpumask \<Rightarrow> nat" where
  "cpumask_nth_and_andnot L cpu srcp1 srcp2 srcp3 =
     find_nth_and_andnot_bit L True srcp1 srcp2 srcp3 small_cpumask_bits (cpumask_check cpu)"

text \<open>Setting, clearing and testing one CPU; the atomic ones are accesses to the mask.\<close>

definition cpumask_set_cpu :: "bool \<Rightarrow> nat \<Rightarrow> unit bit_access" where
  "cpumask_set_cpu lse cpu = atomic_set_bit lse (cpumask_check cpu)"

definition plain_cpumask_set_cpu :: "nat \<Rightarrow> cpumask \<Rightarrow> cpumask" where
  "plain_cpumask_set_cpu cpu dstp = plain_set_bit (cpumask_check cpu) dstp"

definition cpumask_clear_cpu :: "bool \<Rightarrow> nat \<Rightarrow> unit bit_access" where
  "cpumask_clear_cpu lse cpu = atomic_clear_bit lse (cpumask_check cpu)"

definition plain_cpumask_clear_cpu :: "nat \<Rightarrow> cpumask \<Rightarrow> cpumask" where
  "plain_cpumask_clear_cpu cpu dstp = plain_clear_bit (cpumask_check cpu) dstp"

definition cpumask_assign_cpu :: "bool \<Rightarrow> nat \<Rightarrow> bool \<Rightarrow> unit bit_access" where
  "cpumask_assign_cpu lse cpu value = assign_bit lse (cpumask_check cpu) value"

definition plain_cpumask_assign_cpu :: "nat \<Rightarrow> cpumask \<Rightarrow> bool \<Rightarrow> cpumask" where
  "plain_cpumask_assign_cpu cpu dstp value = plain_assign_bit (cpumask_check cpu) dstp value"

definition cpumask_test_cpu :: "bool \<Rightarrow> nat \<Rightarrow> cpumask \<Rightarrow> bool" where
  "cpumask_test_cpu const cpu m = test_bit const (cpumask_check cpu) m"

definition cpumask_test_and_set_cpu :: "bool \<Rightarrow> nat \<Rightarrow> bool bit_access" where
  "cpumask_test_and_set_cpu lse cpu = test_and_set_bit lse (cpumask_check cpu)"

definition cpumask_test_and_clear_cpu :: "bool \<Rightarrow> nat \<Rightarrow> bool bit_access" where
  "cpumask_test_and_clear_cpu lse cpu = test_and_clear_bit lse (cpumask_check cpu)"

text \<open>Whole masks. \<open>ids\<close> is \<open>nr_cpu_ids\<close>.\<close>

definition cpumask_setall :: "nat \<Rightarrow> cpumask \<Rightarrow> cpumask" where
  "cpumask_setall ids dstp =
     (if small_const_nbits True small_cpumask_bits then dstp[0 := BITMAP_LAST_WORD_MASK ids]
      else bitmap_fill False dstp ids)"

definition cpumask_clear :: "cpumask \<Rightarrow> cpumask" where
  "cpumask_clear dstp = bitmap_zero True dstp large_cpumask_bits"

definition cpumask_and :: "bitmap_lib \<Rightarrow> cpumask \<Rightarrow> cpumask \<Rightarrow> cpumask \<Rightarrow> bool \<times> cpumask" where
  "cpumask_and B dstp src1p src2p = bitmap_and B True dstp src1p src2p small_cpumask_bits"

definition cpumask_or :: "bitmap_lib \<Rightarrow> cpumask \<Rightarrow> cpumask \<Rightarrow> cpumask \<Rightarrow> cpumask" where
  "cpumask_or B dstp src1p src2p = bitmap_or B True dstp src1p src2p small_cpumask_bits"

definition cpumask_xor :: "bitmap_lib \<Rightarrow> cpumask \<Rightarrow> cpumask \<Rightarrow> cpumask \<Rightarrow> cpumask" where
  "cpumask_xor B dstp src1p src2p = bitmap_xor B True dstp src1p src2p small_cpumask_bits"

definition cpumask_andnot :: "bitmap_lib \<Rightarrow> cpumask \<Rightarrow> cpumask \<Rightarrow> cpumask \<Rightarrow> bool \<times> cpumask" where
  "cpumask_andnot B dstp src1p src2p = bitmap_andnot B True dstp src1p src2p small_cpumask_bits"

definition cpumask_equal :: "bitmap_lib \<Rightarrow> cpumask \<Rightarrow> cpumask \<Rightarrow> bool" where
  "cpumask_equal B src1p src2p = bitmap_equal B True True src1p src2p small_cpumask_bits"

definition cpumask_or_equal :: "bitmap_lib \<Rightarrow> cpumask \<Rightarrow> cpumask \<Rightarrow> cpumask \<Rightarrow> bool" where
  "cpumask_or_equal B src1p src2p src3p = bitmap_or_equal B True src1p src2p src3p small_cpumask_bits"

definition cpumask_intersects :: "bitmap_lib \<Rightarrow> cpumask \<Rightarrow> cpumask \<Rightarrow> bool" where
  "cpumask_intersects B src1p src2p = bitmap_intersects B True src1p src2p small_cpumask_bits"

definition cpumask_subset :: "bitmap_lib \<Rightarrow> cpumask \<Rightarrow> cpumask \<Rightarrow> bool" where
  "cpumask_subset B src1p src2p = bitmap_subset B True src1p src2p small_cpumask_bits"

definition cpumask_empty :: "find_lib \<Rightarrow> cpumask \<Rightarrow> bool" where
  "cpumask_empty L srcp = bitmap_empty L True srcp small_cpumask_bits"

definition cpumask_full :: "find_lib \<Rightarrow> nat \<Rightarrow> cpumask \<Rightarrow> bool" where
  "cpumask_full L ids srcp = bitmap_full L False srcp ids"

definition cpumask_weight :: "bitmap_lib \<Rightarrow> cpumask \<Rightarrow> nat" where
  "cpumask_weight B srcp = bitmap_weight B True srcp small_cpumask_bits"

definition cpumask_weight_and :: "bitmap_lib \<Rightarrow> cpumask \<Rightarrow> cpumask \<Rightarrow> nat" where
  "cpumask_weight_and B srcp1 srcp2 = bitmap_weight_and B True srcp1 srcp2 small_cpumask_bits"

definition cpumask_weight_andnot :: "bitmap_lib \<Rightarrow> cpumask \<Rightarrow> cpumask \<Rightarrow> nat" where
  "cpumask_weight_andnot B srcp1 srcp2 = bitmap_weight_andnot B True srcp1 srcp2 small_cpumask_bits"

definition cpumask_shift_right :: "bitmap_lib \<Rightarrow> cpumask \<Rightarrow> cpumask \<Rightarrow> nat \<Rightarrow> cpumask" where
  "cpumask_shift_right B dstp srcp n = bitmap_shift_right B True dstp srcp n small_cpumask_bits"

definition cpumask_shift_left :: "bitmap_lib \<Rightarrow> nat \<Rightarrow> cpumask \<Rightarrow> cpumask \<Rightarrow> nat \<Rightarrow> cpumask" where
  "cpumask_shift_left B ids dstp srcp n = bitmap_shift_left B False dstp srcp n ids"

definition cpumask_copy :: "cpumask \<Rightarrow> cpumask \<Rightarrow> cpumask" where
  "cpumask_copy dstp srcp = bitmap_copy True dstp srcp large_cpumask_bits"

definition cpumask_any :: "find_lib \<Rightarrow> cpumask \<Rightarrow> nat" where
  "cpumask_any L srcp = cpumask_first L srcp"

definition cpumask_any_and :: "find_lib \<Rightarrow> cpumask \<Rightarrow> cpumask \<Rightarrow> nat" where
  "cpumask_any_and L mask1 mask2 = cpumask_first_and L mask1 mask2"

definition cpumask_size :: nat where
  "cpumask_size = bitmap_size large_cpumask_bits"

text \<open>Masks are not allocated apart (no CONFIG\_CPUMASK\_OFFSTACK): allocation succeeds, clearing when asked.\<close>

definition alloc_cpumask_var :: "cpumask \<Rightarrow> bool \<times> cpumask" where
  "alloc_cpumask_var m = (True, m)"

definition alloc_cpumask_var_node :: "cpumask \<Rightarrow> bool \<times> cpumask" where
  "alloc_cpumask_var_node m = (True, m)"

definition zalloc_cpumask_var :: "cpumask \<Rightarrow> bool \<times> cpumask" where
  "zalloc_cpumask_var m = (True, cpumask_clear m)"

definition zalloc_cpumask_var_node :: "cpumask \<Rightarrow> bool \<times> cpumask" where
  "zalloc_cpumask_var_node m = (True, cpumask_clear m)"

definition cpumask_available :: "cpumask \<Rightarrow> bool" where
  "cpumask_available m = True"

subsection \<open>The masks of the system\<close>

definition for_each_possible_cpu :: "find_lib \<Rightarrow> cpu_masks \<Rightarrow> nat list option" where
  "for_each_possible_cpu L M = for_each_cpu L (cpu_possible_mask M)"

definition for_each_online_cpu :: "find_lib \<Rightarrow> cpu_masks \<Rightarrow> nat list option" where
  "for_each_online_cpu L M = for_each_cpu L (cpu_online_mask M)"

definition for_each_enabled_cpu :: "find_lib \<Rightarrow> cpu_masks \<Rightarrow> nat list option" where
  "for_each_enabled_cpu L M = for_each_cpu L (cpu_enabled_mask M)"

definition for_each_present_cpu :: "find_lib \<Rightarrow> cpu_masks \<Rightarrow> nat list option" where
  "for_each_present_cpu L M = for_each_cpu L (cpu_present_mask M)"

text \<open>\<open>assign_cpu\<close> on one of them, with no other access in between.\<close>

definition assign_cpu :: "bool \<Rightarrow> nat \<Rightarrow> bool \<Rightarrow> cpumask \<Rightarrow> cpumask option" where
  "assign_cpu lse cpu val m = map_option snd (alone (assign_bit lse (cpumask_check cpu) val) m)"

definition set_cpu_possible :: "bool \<Rightarrow> nat \<Rightarrow> bool \<Rightarrow> cpu_masks \<Rightarrow> cpu_masks option" where
  "set_cpu_possible lse cpu v M =
     map_option (\<lambda>m. M\<lparr>cpu_possible_mask := m\<rparr>) (assign_cpu lse cpu v (cpu_possible_mask M))"

definition set_cpu_enabled :: "bool \<Rightarrow> nat \<Rightarrow> bool \<Rightarrow> cpu_masks \<Rightarrow> cpu_masks option" where
  "set_cpu_enabled lse cpu v M =
     map_option (\<lambda>m. M\<lparr>cpu_enabled_mask := m\<rparr>) (assign_cpu lse cpu v (cpu_enabled_mask M))"

definition set_cpu_present :: "bool \<Rightarrow> nat \<Rightarrow> bool \<Rightarrow> cpu_masks \<Rightarrow> cpu_masks option" where
  "set_cpu_present lse cpu v M =
     map_option (\<lambda>m. M\<lparr>cpu_present_mask := m\<rparr>) (assign_cpu lse cpu v (cpu_present_mask M))"

definition set_cpu_active :: "bool \<Rightarrow> nat \<Rightarrow> bool \<Rightarrow> cpu_masks \<Rightarrow> cpu_masks option" where
  "set_cpu_active lse cpu v M =
     map_option (\<lambda>m. M\<lparr>cpu_active_mask := m\<rparr>) (assign_cpu lse cpu v (cpu_active_mask M))"

definition set_cpu_dying :: "bool \<Rightarrow> nat \<Rightarrow> bool \<Rightarrow> cpu_masks \<Rightarrow> cpu_masks option" where
  "set_cpu_dying lse cpu v M =
     map_option (\<lambda>m. M\<lparr>cpu_dying_mask := m\<rparr>) (assign_cpu lse cpu v (cpu_dying_mask M))"

text \<open>
  The table \<open>cpu_bit_bitmap\<close> (kernel/cpu.c, an argument), as its words: a row has one word. The
  mask of \<open>cpu\<close> starts at the row of the bit, moved back by the words before the bit.
\<close>

definition get_cpu_mask :: "u64 list \<Rightarrow> nat \<Rightarrow> cpumask" where
  "get_cpu_mask cpu_bit_bitmap cpu =
     (let p = (1 + cpu mod BITS_PER_LONG) * BITS_TO_LONGS NR_CPUS - cpu div BITS_PER_LONG
      in take (BITS_TO_LONGS NR_CPUS) (drop p cpu_bit_bitmap))"

definition num_online_cpus :: "cpu_masks \<Rightarrow> u32" where
  "num_online_cpus M = raw_atomic_read (num_online M)"

definition num_possible_cpus :: "bitmap_lib \<Rightarrow> cpu_masks \<Rightarrow> nat" where
  "num_possible_cpus B M = cpumask_weight B (cpu_possible_mask M)"

definition num_enabled_cpus :: "bitmap_lib \<Rightarrow> cpu_masks \<Rightarrow> nat" where
  "num_enabled_cpus B M = cpumask_weight B (cpu_enabled_mask M)"

definition num_present_cpus :: "bitmap_lib \<Rightarrow> cpu_masks \<Rightarrow> nat" where
  "num_present_cpus B M = cpumask_weight B (cpu_present_mask M)"

definition num_active_cpus :: "bitmap_lib \<Rightarrow> cpu_masks \<Rightarrow> nat" where
  "num_active_cpus B M = cpumask_weight B (cpu_active_mask M)"

definition cpu_online :: "cpu_masks \<Rightarrow> nat \<Rightarrow> bool" where
  "cpu_online M cpu = cpumask_test_cpu False cpu (cpu_online_mask M)"

definition cpu_enabled :: "cpu_masks \<Rightarrow> nat \<Rightarrow> bool" where
  "cpu_enabled M cpu = cpumask_test_cpu False cpu (cpu_enabled_mask M)"

definition cpu_possible :: "cpu_masks \<Rightarrow> nat \<Rightarrow> bool" where
  "cpu_possible M cpu = cpumask_test_cpu False cpu (cpu_possible_mask M)"

definition cpu_present :: "cpu_masks \<Rightarrow> nat \<Rightarrow> bool" where
  "cpu_present M cpu = cpumask_test_cpu False cpu (cpu_present_mask M)"

definition cpu_active :: "cpu_masks \<Rightarrow> nat \<Rightarrow> bool" where
  "cpu_active M cpu = cpumask_test_cpu False cpu (cpu_active_mask M)"

definition cpu_dying :: "cpu_masks \<Rightarrow> nat \<Rightarrow> bool" where
  "cpu_dying M cpu = cpumask_test_cpu False cpu (cpu_dying_mask M)"

definition cpu_is_offline :: "cpu_masks \<Rightarrow> nat \<Rightarrow> bool" where
  "cpu_is_offline M cpu = (\<not> cpu_online M cpu)"

definition CPU_MASK_ALL :: cpumask where
  "CPU_MASK_ALL = (replicate (BITS_TO_LONGS NR_CPUS) 0)[BITS_TO_LONGS NR_CPUS - 1 := BITMAP_LAST_WORD_MASK NR_CPUS]"

definition CPU_MASK_NONE :: cpumask where
  "CPU_MASK_NONE = replicate (BITS_TO_LONGS NR_CPUS) 0"

definition CPU_MASK_CPU0 :: cpumask where
  "CPU_MASK_CPU0 = (replicate (BITS_TO_LONGS NR_CPUS) 0)[0 := 1]"

subsection \<open>Masks as sets of CPUs\<close>

definition cpus :: "cpumask \<Rightarrow> nat set" where
  "cpus m = {i \<in> bitmap_bits m. i < NR_CPUS}"

text \<open>A mask has the words of \<open>NR_CPUS\<close> bits.\<close>

definition is_cpumask :: "cpumask \<Rightarrow> bool" where
  "is_cpumask m \<longleftrightarrow> length m = BITS_TO_LONGS NR_CPUS"

lemmas cpu_sizes = small_cpumask_bits_def large_cpumask_bits_def NR_CPUS_def cpumask_check_def

lemma longs_32 [simp]: "BITS_TO_LONGS NR_CPUS = 1"
  by (simp add: BITS_TO_LONGS_def BITS_PER_LONG_def NR_CPUS_def)

lemma cpumask_word: "is_cpumask m \<Longrightarrow> \<exists>w. m = [w]"
  by (simp add: is_cpumask_def length_Suc_conv)

lemma small_32 [simp]: "small_const_nbits True NR_CPUS"
  by (simp add: small_const_nbits_def BITS_PER_LONG_def NR_CPUS_def)

lemma cpus_word: "cpus [w] = set_bits_of w \<inter> {..<32}"
  by (auto simp: cpus_def bitmap_bits_single NR_CPUS_def)

lemma finite_cpus [simp]: "finite (cpus m)"
  by (simp add: cpus_def)

lemma cpus_below: "i \<in> cpus m \<Longrightarrow> i < NR_CPUS"
  by (simp add: cpus_def)

lemma cpus_iff: "i \<in> cpus m \<longleftrightarrow> i \<in> bitmap_bits m \<and> i < 32"
  by (simp add: cpus_def NR_CPUS_def)

lemma word_zero: "w = 0 \<longleftrightarrow> set_bits_of w = {}"
  by simp

lemma cpu_mask_bits: "set_bits_of (BITMAP_LAST_WORD_MASK NR_CPUS) = {..<32}"
  by (simp add: set_bits_LAST_WORD_MASK NR_CPUS_def)

text \<open>Operations on masks are operations on sets of CPUs.\<close>

lemma cpumask_ops:
  assumes "is_cpumask d" "is_cpumask a" "is_cpumask b"
  shows "cpus (snd (cpumask_and B d a b)) = cpus a \<inter> cpus b \<and> (fst (cpumask_and B d a b) \<longleftrightarrow> cpus a \<inter> cpus b \<noteq> {})"
    "cpus (snd (cpumask_andnot B d a b)) = cpus a - cpus b \<and> (fst (cpumask_andnot B d a b) \<longleftrightarrow> cpus a - cpus b \<noteq> {})"
    "cpus (cpumask_or B d a b) = cpus a \<union> cpus b"
    "cpus (cpumask_xor B d a b) = (cpus a - cpus b) \<union> (cpus b - cpus a)"
    "cpus (cpumask_copy d a) = cpus a" "cpus (cpumask_clear d) = {}"
proof -
  obtain u v w where [simp]: "d = [u]" "a = [v]" "b = [w]" using assms cpumask_word by metis
  have m: "set_bits_of (BITMAP_LAST_WORD_MASK 32) = {..<32}" by (rule set_bits_LAST_WORD_MASK) simp_all
  note small = small_const_nbits_def BITS_PER_LONG_def
  show "cpus (snd (cpumask_and B d a b)) = cpus a \<inter> cpus b \<and> (fst (cpumask_and B d a b) \<longleftrightarrow> cpus a \<inter> cpus b \<noteq> {})"
    by (simp add: cpumask_and_def bitmap_and_def cpu_sizes small cpus_word word_zero m del: set_bits_empty) blast
  show "cpus (snd (cpumask_andnot B d a b)) = cpus a - cpus b \<and> (fst (cpumask_andnot B d a b) \<longleftrightarrow> cpus a - cpus b \<noteq> {})"
    by (simp add: cpumask_andnot_def bitmap_andnot_def cpu_sizes small cpus_word word_zero m del: set_bits_empty) force
  show "cpus (cpumask_or B d a b) = cpus a \<union> cpus b"
    by (simp add: cpumask_or_def bitmap_or_def cpu_sizes small cpus_word Int_Un_distrib2)
  show "cpus (cpumask_xor B d a b) = (cpus a - cpus b) \<union> (cpus b - cpus a)"
    by (simp add: cpumask_xor_def bitmap_xor_def cpu_sizes small cpus_word set_bits_xor) blast
  show "cpus (cpumask_copy d a) = cpus a"
    by (simp add: cpumask_copy_def bitmap_copy_def cpu_sizes small cpus_word)
  show "cpus (cpumask_clear d) = {}"
    by (simp add: cpumask_clear_def bitmap_zero_def cpu_sizes small cpus_word set_bits_of_def)
qed

lemma cpumask_setall_cpus: "is_cpumask d \<Longrightarrow> 0 < ids \<Longrightarrow> ids \<le> 32 \<Longrightarrow> cpus (cpumask_setall ids d) = {..<ids}"
  using cpumask_word [of d]
  by (auto simp: cpumask_setall_def cpu_sizes small_const_nbits_def BITS_PER_LONG_def cpus_word bit_LAST_WORD_MASK_small)

lemma cpumask_queries:
  assumes "is_cpumask a" "is_cpumask b" "is_cpumask c"
  shows "cpumask_equal B a b \<longleftrightarrow> cpus a = cpus b" "cpumask_subset B a b \<longleftrightarrow> cpus a \<subseteq> cpus b"
    "cpumask_intersects B a b \<longleftrightarrow> cpus a \<inter> cpus b \<noteq> {}" "cpumask_or_equal B a b c \<longleftrightarrow> cpus a \<union> cpus b = cpus c"
    "cpumask_empty L a \<longleftrightarrow> cpus a = {}" "i < 32 \<Longrightarrow> cpumask_test_cpu const i a \<longleftrightarrow> i \<in> cpus a"
proof -
  obtain u v w where [simp]: "a = [u]" "b = [v]" "c = [w]" using assms cpumask_word by metis
  have m: "set_bits_of (BITMAP_LAST_WORD_MASK 32) = {..<32}" by (rule set_bits_LAST_WORD_MASK) simp_all
  note small = small_const_nbits_def BITS_PER_LONG_def
  show "cpumask_equal B a b \<longleftrightarrow> cpus a = cpus b"
    by (simp add: cpumask_equal_def bitmap_equal_def cpu_sizes small cpus_word word_zero m set_bits_xor del: set_bits_empty) blast
  show "cpumask_subset B a b \<longleftrightarrow> cpus a \<subseteq> cpus b"
    by (simp add: cpumask_subset_def bitmap_subset_def cpu_sizes small cpus_word word_zero m del: set_bits_empty) force
  show "cpumask_intersects B a b \<longleftrightarrow> cpus a \<inter> cpus b \<noteq> {}"
    by (simp add: cpumask_intersects_def bitmap_intersects_def cpu_sizes small cpus_word word_zero m del: set_bits_empty) blast
  show "cpumask_or_equal B a b c \<longleftrightarrow> cpus a \<union> cpus b = cpus c"
    by (simp add: cpumask_or_equal_def bitmap_or_equal_def cpu_sizes small cpus_word word_zero m set_bits_xor del: set_bits_empty) blast
  show "cpumask_empty L a \<longleftrightarrow> cpus a = {}"
    by (simp add: cpumask_empty_def bitmap_empty_def cpu_sizes small cpus_word word_zero m del: set_bits_empty)
  show "cpumask_test_cpu const i a \<longleftrightarrow> i \<in> cpus a" if "i < 32"
    using test_bit_bits [of a i const] that
    by (simp add: cpumask_test_cpu_def cpumask_check_def cpus_word bitmap_bits_single covers_def)
qed

text \<open>Counting, when \<open>__sw_hweight64\<close> counts the bits of a word.\<close>

lemma cpumask_weights:
  assumes "\<And>w. lib_sw_hweight64 B w = card (set_bits_of w)" "is_cpumask a" "is_cpumask b"
  shows "cpumask_weight B a = card (cpus a)" "cpumask_weight_and B a b = card (cpus a \<inter> cpus b)"
    "cpumask_weight_andnot B a b = card (cpus a - cpus b)"
proof -
  obtain u v where [simp]: "a = [u]" "b = [v]" using assms cpumask_word by metis
  have m: "set_bits_of (BITMAP_LAST_WORD_MASK 32) = {..<32}" by (rule set_bits_LAST_WORD_MASK) simp_all
  note defs = small_const_nbits_def BITS_PER_LONG_def hweight_long_def hweight64_def arch_hweight64_def cpu_sizes
  show "cpumask_weight B a = card (cpus a)"
    by (simp add: cpumask_weight_def bitmap_weight_def defs cpus_word assms(1) m)
  have "set_bits_of u \<inter> (set_bits_of v \<inter> {..<32}) = cpus a \<inter> cpus b" by (auto simp: cpus_word)
  then show "cpumask_weight_and B a b = card (cpus a \<inter> cpus b)"
    by (simp add: cpumask_weight_and_def bitmap_weight_and_def defs assms(1) m Int_assoc)
  have "set_bits_of u \<inter> (({..<64} - set_bits_of v) \<inter> {..<32}) = cpus a - cpus b" by (auto simp: cpus_word)
  then show "cpumask_weight_andnot B a b = card (cpus a - cpus b)"
    by (simp add: cpumask_weight_andnot_def bitmap_weight_andnot_def defs assms(1) m Int_assoc)
qed

subsection \<open>Iterating\<close>

lemma cpus_search:
  assumes "is_cpumask a" "is_cpumask b"
  shows "find_next_bit L True a 32 off = next_from (cpus a) 32 off"
    "find_next_and_bit L True a b 32 off = next_from (cpus a \<inter> cpus b) 32 off"
    "find_next_andnot_bit L True a b 32 off = next_from (cpus a - cpus b) 32 off"
    "find_next_or_bit L True a b 32 off = next_from (cpus a \<union> cpus b) 32 off"
    "find_first_and_bit L True a b 32 = next_from (cpus a \<inter> cpus b) 32 0"
    "find_first_bit L True a 32 = next_from (cpus a) 32 0"
proof -
  have s: "small_const_nbits True 32" "32 \<le> 64 * length a" "32 \<le> 64 * length b"
    using assms by (auto simp: is_cpumask_def small_const_nbits_def BITS_PER_LONG_def)
  note n = inline_next [OF s, of L]
  show "find_next_bit L True a 32 off = next_from (cpus a) 32 off"
    unfolding n by (rule next_from_cong) (simp add: cpus_iff)
  show "find_next_and_bit L True a b 32 off = next_from (cpus a \<inter> cpus b) 32 off"
    unfolding n by (rule next_from_cong) (simp add: cpus_iff)
  show "find_next_andnot_bit L True a b 32 off = next_from (cpus a - cpus b) 32 off"
    unfolding n by (rule next_from_cong) (simp add: cpus_iff)
  show "find_next_or_bit L True a b 32 off = next_from (cpus a \<union> cpus b) 32 off"
    unfolding n by (rule next_from_cong) (simp add: cpus_iff)
  show "find_first_and_bit L True a b 32 = next_from (cpus a \<inter> cpus b) 32 0"
    unfolding n by (rule next_from_cong) (simp add: cpus_iff)
  show "find_first_bit L True a 32 = next_from (cpus a) 32 0"
    unfolding n by (rule next_from_cong) (simp add: cpus_iff)
qed

lemma all_below: "S \<subseteq> cpus a \<union> cpus b \<Longrightarrow> {i \<in> S. 0 \<le> i \<and> i < 32} = S"
  by (auto simp: cpus_iff)

lemma cpu_walks:
  assumes "is_cpumask a" "is_cpumask b"
  shows "for_each_cpu L a = Some (sorted_list_of_set (cpus a))"
    "for_each_cpu_and L a b = Some (sorted_list_of_set (cpus a \<inter> cpus b))"
    "for_each_cpu_andnot L a b = Some (sorted_list_of_set (cpus a - cpus b))"
    "for_each_cpu_or L a b = Some (sorted_list_of_set (cpus a \<union> cpus b))"
    "for_each_cpu_from L c a = Some (sorted_list_of_set {i \<in> cpus a. c \<le> i})"
proof -
  note walk = bit_walk_visits [OF cpus_search(1) [OF assms, of L]] bit_walk_visits [OF cpus_search(2) [OF assms, of L]]
    bit_walk_visits [OF cpus_search(3) [OF assms, of L]] bit_walk_visits [OF cpus_search(4) [OF assms, of L]]
  have sub: "cpus a \<subseteq> cpus a \<union> cpus b" "cpus a \<inter> cpus b \<subseteq> cpus a \<union> cpus b" "cpus a - cpus b \<subseteq> cpus a \<union> cpus b"
    "cpus a \<union> cpus b \<subseteq> cpus a \<union> cpus b" by auto
  show "for_each_cpu L a = Some (sorted_list_of_set (cpus a))"
    using walk(1) [of 0, unfolded all_below [OF sub(1)]] by (simp add: for_each_cpu_def for_each_set_bit_def cpu_sizes)
  show "for_each_cpu_and L a b = Some (sorted_list_of_set (cpus a \<inter> cpus b))"
    using walk(2) [of 0, unfolded all_below [OF sub(2)]] by (simp add: for_each_cpu_and_def for_each_and_bit_def cpu_sizes)
  show "for_each_cpu_andnot L a b = Some (sorted_list_of_set (cpus a - cpus b))"
    using walk(3) [of 0, unfolded all_below [OF sub(3)]]
    by (simp add: for_each_cpu_andnot_def for_each_andnot_bit_def cpu_sizes)
  show "for_each_cpu_or L a b = Some (sorted_list_of_set (cpus a \<union> cpus b))"
    using walk(4) [of 0, unfolded all_below [OF sub(4)]] by (simp add: for_each_cpu_or_def for_each_or_bit_def cpu_sizes)
  have "{i \<in> cpus a. c \<le> i \<and> i < 32} = {i \<in> cpus a. c \<le> i}" by (auto simp: cpus_iff)
  then show "for_each_cpu_from L c a = Some (sorted_list_of_set {i \<in> cpus a. c \<le> i})"
    using walk(1) [of c] by (simp add: for_each_cpu_from_def for_each_set_bit_from_def cpu_sizes)
qed

text \<open>The first other CPU.\<close>

lemma skip_member:
  assumes "k \<in> S" "off \<le> k" "\<forall>i\<in>S. off \<le> i \<longrightarrow> k \<le> i"
  shows "next_from (S - {k}) n off = next_from S n (k + 1)"
proof -
  have "i \<in> S - {k} \<and> off \<le> i \<longleftrightarrow> i \<in> S \<and> k + 1 \<le> i" for i
  proof
    assume i: "i \<in> S - {k} \<and> off \<le> i"
    then have "k \<le> i" using assms(3) by blast
    then show "i \<in> S \<and> k + 1 \<le> i" using i by auto
  qed (use assms(2) in auto)
  then have "{i \<in> S - {k}. off \<le> i \<and> i < n} = {i \<in> S. k + 1 \<le> i \<and> i < n}" by blast
  then show ?thesis by (simp add: next_from_def)
qed

lemma any_but_loop_finds:
  assumes "\<And>off. nxt off = next_from S n off"
  shows "any_but_loop nxt n cpu off = Some (next_from (S - {cpu}) n off)"
proof (induction "n - off" arbitrary: off rule: less_induct)
  case less
  show ?case
  proof (cases rule: next_from_cases [of S n off])
    case none
    then have "next_from (S - {cpu}) n off = n" by (intro next_from_empty) auto
    then show ?thesis using none(1) by (subst any_but_loop.simps) (simp add: assms Let_def)
  next
    case (some k)
    have step: "any_but_loop nxt n cpu off = (if k \<noteq> cpu then Some k else any_but_loop nxt n cpu (k + 1))"
      using some by (subst any_but_loop.simps) (simp add: assms Let_def)
    show ?thesis
    proof (cases "k = cpu")
      case True
      have "k \<notin> {i. k + 1 \<le> i}" by simp
      then have "next_from (S - {k}) n (k + 1) = next_from S n (k + 1)"
        unfolding next_from_def by (metis (no_types, lifting) Collect_cong Diff_iff mem_Collect_eq singletonD)
      then show ?thesis
        using step True less.hyps [of "k + 1"] some(2-4) skip_member [OF some(2,3,5), of n] by simp
    next
      case False
      then have "next_from (S - {cpu}) n off = k" using some by (intro next_from_eq) auto
      then show ?thesis using step False by simp
    qed
  qed
qed

lemma any_but_finds: "is_cpumask m \<Longrightarrow> cpumask_any_but L m cpu = Some (next_from (cpus m - {cpu}) 32 0)"
  unfolding cpumask_any_but_def cpu_sizes by (rule any_but_loop_finds) (rule cpus_search(1))

lemma any_and_but_finds:
  assumes "is_cpumask a" "is_cpumask b" "cpu < 32"
  shows "cpumask_any_and_but L a b cpu = next_from (cpus a \<inter> cpus b - {cpu}) 32 0"
proof (cases rule: next_from_cases [of "cpus a \<inter> cpus b" 32 0])
  case none
  then have "next_from (cpus a \<inter> cpus b - {cpu}) 32 0 = 32" by (intro next_from_empty) auto
  then show ?thesis using none(1) assms(3) cpus_search(5) [OF assms(1,2), of L]
    by (simp add: cpumask_any_and_but_def cpumask_first_and_def cpu_sizes)
next
  case (some k)
  have first: "cpumask_first_and L a b = k"
    using some(1) cpus_search(5) [OF assms(1,2), of L] by (simp add: cpumask_first_and_def cpu_sizes)
  show ?thesis
  proof (cases "k = cpu")
    case True
    have "cpumask_any_and_but L a b cpu = next_from (cpus a \<inter> cpus b) 32 (nat (int cpu + 1))"
      using first True cpus_search(2) [OF assms(1,2), of L]
      by (simp add: cpumask_any_and_but_def cpumask_next_and_def cpu_sizes)
    moreover have "nat (int cpu + 1) = cpu + 1" by simp
    ultimately show ?thesis using skip_member [OF some(2,3,5), of 32] True by simp
  next
    case False
    then have "next_from (cpus a \<inter> cpus b - {cpu}) 32 0 = k" using some by (intro next_from_eq) auto
    then show ?thesis using first False by (simp add: cpumask_any_and_but_def)
  qed
qed

subsection \<open>The masks of the system\<close>

lemma assign_cpu_cpus:
  assumes "is_cpumask m" "cpu < 32"
  shows "\<exists>m'. assign_cpu lse cpu v m = Some m' \<and> is_cpumask m' \<and> cpus m' = (if v then insert cpu (cpus m) else cpus m - {cpu})"
proof -
  have c: "covers m cpu" using assms by (simp add: is_cpumask_def covers_def)
  have "alone (assign_bit lse cpu v) m = Some ((), plain_assign_bit cpu m v)"
    by (simp add: assign_bit_def plain_assign_bit_def plain_set_bit_def plain_clear_bit_def atomic_is_plain)
  moreover have "cpus (plain_assign_bit cpu m v) = (if v then insert cpu (cpus m) else cpus m - {cpu})"
    unfolding cpus_def assign_bit_bits [OF c] using assms(2) by (auto simp: NR_CPUS_def)
  ultimately show ?thesis using assms(1) by (simp add: assign_cpu_def cpumask_check_def is_cpumask_def)
qed

end
