(* ===== verification/Bit_Claims.thy ===== *)
theory Bit_Claims
  imports Cpumask
begin

text \<open>
  Properties of bitmaps and CPU masks, each with a witness at a concrete bitmap.
\<close>

subsection \<open>Bitmaps\<close>

text \<open>C29: A value of up to 64 bits written into a bitmap at any bit, across a word boundary or not, is read back,
  cut to its width, and every range that does not overlap reads as before.\<close>

theorem bitmap_value_roundtrip:
  assumes "0 < n" "n \<le> 64" "start + n \<le> 64 * length bm"
  shows "bitmap_read (bitmap_write bm v start n) start n = v AND mask n \<and>
    (\<forall>s k. 0 < k \<and> k \<le> 64 \<and> s + k \<le> 64 * length bm \<and> (s + k \<le> start \<or> start + n \<le> s) \<longrightarrow>
       bitmap_read (bitmap_write bm v start n) s k = bitmap_read bm s k)"
proof -
  let ?w = "bitmap_write bm v start n"
  have len: "length ?w = length bm" by (simp add: bitmap_write_def Let_def)
  have cov: "covers bm (s + k - 1)" if "0 < k" "s + k \<le> 64 * length bm" for s k
    using that by (simp add: covers_iff)
  note c = cov [OF assms(1,3)]
  then have cw: "covers ?w (start + n - 1)" by (simp add: covers_def len)
  have "bit (bitmap_read ?w start n) i \<longleftrightarrow> bit (v AND mask n) i" for i
    unfolding bitmap_read_bits [OF assms(1,2) cw] bitmap_write_bits [OF assms(1,2) c]
    using assms(2) by (auto simp: in_range_def bit_and_iff bit_mask_iff dest: bit_below_64)
  then have "bitmap_read ?w start n = v AND mask n" by (intro bit_word_eqI) simp
  moreover have "bitmap_read ?w s k = bitmap_read bm s k"
    if k: "0 < k" "k \<le> 64" "s + k \<le> 64 * length bm" and d: "s + k \<le> start \<or> start + n \<le> s" for s k
  proof -
    note ck = cov [OF k(1,3)]
    then have "covers ?w (s + k - 1)" by (simp add: covers_def len)
    note r = bitmap_read_bits [OF k(1,2) this] bitmap_read_bits [OF k(1,2) ck]
    have "i < k \<Longrightarrow> \<not> in_range start n (s + i)" for i using d by (auto simp: in_range_def)
    then have "bit (bitmap_read ?w s k) i \<longleftrightarrow> bit (bitmap_read bm s k) i" for i
      unfolding r bitmap_write_bits [OF assms(1,2) c] by auto
    then show ?thesis by (intro bit_word_eqI) simp
  qed
  ultimately show ?thesis by blast
qed

text \<open>Twelve bits across the boundary of the two words.\<close>

theorem bitmap_value_roundtrip_witness:
  "bitmap_read (bitmap_write [0, 0xff] 0xfabc 58 12) 58 12 = 0xabc \<and>
   bitmap_read (bitmap_write [0, 0xff] 0xfabc 58 12) 70 8 = bitmap_read [0, 0xff] 70 8"
proof -
  note r = bitmap_value_roundtrip [of 12 58 "[0, 0xff]" "0xfabc"]
  have "0xfabc AND mask 12 = (0xabc :: u64)" by (simp add: mask_eq_exp_minus_1)
  then show ?thesis using r by auto
qed

text \<open>C30: Iterating over a bitmap ends and visits what it should: from a starting bit and around the end, every set
  bit once, first those from the start on in ascending order, then those below it; range by range,
  the maximal runs of set bits in ascending order, which together are the set bits.\<close>

theorem bitmap_iteration:
  assumes "find_lib_ok L" "n \<le> 64 * length bm" "start \<le> n"
  shows "for_each_set_bit_wrap L const c' bm n start =
      Some (sorted_list_of_set {i \<in> bitmap_bits bm. start \<le> i \<and> i < n} @ sorted_list_of_set {i \<in> bitmap_bits bm. i < start}) \<and>
    (\<exists>rs. for_each_set_bitrange L const bm n = Some rs \<and> maximal_runs (bitmap_bits bm) n 0 rs \<and>
       concat (map (\<lambda>(b, e). [b..<e]) rs) = sorted_list_of_set {i \<in> bitmap_bits bm. i < n})"
proof -
  have "\<exists>rs. range_walk (find_next_bit L const bm n) (find_next_zero_bit L const bm n) n 0 = Some rs \<and>
      maximal_runs (bitmap_bits bm) n 0 rs \<and> concat (map (\<lambda>(b, e). [b..<e]) rs) = sorted_list_of_set {i \<in> bitmap_bits bm. 0 \<le> i \<and> i < n}"
    by (rule range_walk_visits) (rule find_next_bit_spec [OF assms(1,2)] find_next_zero_bit_spec [OF assms(1,2)])+
  then show ?thesis
    using for_each_set_bit_wrap_spec [OF assms, of const c'] by (simp add: for_each_set_bitrange_def)
qed

text \<open>Bits 2, 3 and 65 of two words, from bit 3 on.\<close>

theorem bitmap_iteration_witness:
  "for_each_set_bit_wrap naive_find False False [0xc, 2] 100 3 = Some [3, 65, 2]"
proof -
  have "filter (bit_at [0xc, 2]) [0..<64 * length [0xc, 2 :: u64]] = [2, 3, 65]" by code_simp
  then have b: "bitmap_bits [0xc, 2] = {2, 3, 65}" unfolding bitmap_bits_filter by simp
  have s: "{i \<in> bitmap_bits [0xc, 2]. 3 \<le> i \<and> i < 100} = {3, 65}" "{i \<in> bitmap_bits [0xc, 2]. i < 3} = {2}"
    unfolding b by auto
  show ?thesis using bitmap_iteration [OF naive_find_ok, of 100 "[0xc, 2]" 3 False False] unfolding s by simp
qed

text \<open>C31: The search for a free region of \<open>2 ^ order\<close> bits in a bitmap of fewer than \<open>2 ^ 31\<close> returns. With an
  order below 32 it takes the first aligned region that has no bit set, sets all of its bits and no other, and returns its
  position; when there is none it returns -ENOMEM and leaves the bitmap alone. With an order from 32 to 63 the length is lost
  in an \<open>unsigned int\<close>, and it reports success at 0, taking nothing, whatever is set.\<close>

theorem free_region_search:
  assumes "find_lib_ok L" "range_lib_ok B" "bits \<le> 64 * length bm" "bits < 2 ^ 31" "order < 64"
  shows "if order < 32 then
     (\<exists>p bm'. bitmap_find_free_region L B kn bm bits order = Some (int p, bm') \<and> 2 ^ order dvd p \<and> p + 2 ^ order \<le> bits \<and>
        bitmap_bits bm \<inter> {p..<p + 2 ^ order} = {} \<and> bitmap_bits bm' = bitmap_bits bm \<union> {p..<p + 2 ^ order} \<and>
        (\<forall>p'<p. 2 ^ order dvd p' \<longrightarrow> bitmap_bits bm \<inter> {p'..<p' + 2 ^ order} \<noteq> {})) \<or>
      bitmap_find_free_region L B kn bm bits order = Some (- ENOMEM, bm) \<and>
        (\<forall>p. 2 ^ order dvd p \<and> p + 2 ^ order \<le> bits \<longrightarrow> bitmap_bits bm \<inter> {p..<p + 2 ^ order} \<noteq> {})
   else \<exists>bm'. bitmap_find_free_region L B kn bm bits order = Some (0, bm') \<and> bitmap_bits bm' = bitmap_bits bm"
proof (cases "order < 32")
  case True
  have t: "tried_region bits order 0 p \<longleftrightarrow> 2 ^ order dvd p \<and> p + 2 ^ order \<le> bits" for p
    by (simp add: tried_region_def)
  have "0 < (2 :: nat) ^ 31" by simp
  from free_region_loop_cases [OF assms(1,3) True assms(4) this, of B kn]
  have "(\<exists>p bm'. bitmap_find_free_region L B kn bm bits order = Some (int p, bm') \<and> 2 ^ order dvd p \<and> p + 2 ^ order \<le> bits \<and>
        bitmap_bits bm \<inter> {p..<p + 2 ^ order} = {} \<and> bitmap_bits bm' = bitmap_bits bm \<union> {p..<p + 2 ^ order} \<and>
        (\<forall>p'<p. 2 ^ order dvd p' \<longrightarrow> bitmap_bits bm \<inter> {p'..<p' + 2 ^ order} \<noteq> {})) \<or>
      bitmap_find_free_region L B kn bm bits order = Some (- ENOMEM, bm) \<and>
        (\<forall>p. 2 ^ order dvd p \<and> p + 2 ^ order \<le> bits \<longrightarrow> bitmap_bits bm \<inter> {p..<p + 2 ^ order} \<noteq> {})"
  proof
    assume "\<exists>p. free_region_loop L B kn bm bits order 0 = Some (int p, bitmap_set B kn bm p (2 ^ order)) \<and>
      tried_region bits order 0 p \<and> region_free bm p order \<and>
      (\<forall>p'. tried_region bits order 0 p' \<and> region_free bm p' order \<longrightarrow> p \<le> p')"
    then obtain p where p: "free_region_loop L B kn bm bits order 0 = Some (int p, bitmap_set B kn bm p (2 ^ order))"
      "2 ^ order dvd p" "p + 2 ^ order \<le> bits" "region_free bm p order"
      "\<forall>p'. tried_region bits order 0 p' \<and> region_free bm p' order \<longrightarrow> p \<le> p'" unfolding t by blast
    have "bitmap_bits (bitmap_set B kn bm p (2 ^ order)) = bitmap_bits bm \<union> {p..<p + 2 ^ order}"
      using p(3) assms(3) by (intro bitmap_set_bits [OF assms(2)]) simp
    moreover have "\<forall>p'<p. 2 ^ order dvd p' \<longrightarrow> bitmap_bits bm \<inter> {p'..<p' + 2 ^ order} \<noteq> {}"
    proof (intro allI impI notI)
      fix p'
      assume "p' < p" "2 ^ order dvd p'" "bitmap_bits bm \<inter> {p'..<p' + 2 ^ order} = {}"
      then have "tried_region bits order 0 p'" "region_free bm p' order" using p(3) by (auto simp: t region_free_def)
      then show False using p(5) \<open>p' < p\<close> by auto
    qed
    ultimately show ?thesis using p(1-4) by (intro disjI1) (auto simp: bitmap_find_free_region_def region_free_def)
  next
    assume "free_region_loop L B kn bm bits order 0 = Some (- ENOMEM, bm) \<and>
      (\<forall>p'. tried_region bits order 0 p' \<longrightarrow> \<not> region_free bm p' order)"
    then show ?thesis unfolding t by (intro disjI2) (auto simp: bitmap_find_free_region_def region_free_def)
  qed
  with True show ?thesis by simp
next
  case False
  moreover have "bitmap_bits (bitmap_set B kn bm 0 0) = bitmap_bits bm"
    using bitmap_set_bits [OF assms(2), of 0 0 bm kn] by simp
  ultimately show ?thesis using free_region_of_nothing [of order L B kn bm bits] assms(5) by simp
qed

text \<open>Bits 0 and 5 are taken: the first four free bits at a multiple of four are 8 to 11; and \<open>2 ^ 32\<close> free bits of 16 are
  at 0.\<close>

theorem free_region_search_witness:
  "\<forall>B kn. map_option fst (bitmap_find_free_region naive_find (naive_ranges B) kn [0x21] 16 2) = Some 8 \<and>
     map_option fst (bitmap_find_free_region naive_find (naive_ranges B) kn [0x21] 16 32) = Some 0"
proof (intro allI conjI)
  fix B kn
  have "16 \<le> 64 * length [0x21 :: u64]" "16 < (2 :: nat) ^ 31" "32 < (64 :: nat)" by simp_all
  from free_region_search [OF naive_find_ok naive_ranges_ok this, of B kn]
  show "map_option fst (bitmap_find_free_region naive_find (naive_ranges B) kn [0x21] 16 32) = Some 0" by auto
next
  fix B kn
  have "filter (bit_at [0x21]) [0..<64 * length [0x21 :: u64]] = [0, 5]" by code_simp
  then have b: "bitmap_bits [0x21] = {0, 5}" unfolding bitmap_bits_filter by simp
  let ?r = "bitmap_find_free_region naive_find (naive_ranges B) kn [0x21] 16 2"
  have free: "{0, 5} \<inter> {8..<8 + 2 ^ 2} = ({} :: nat set)" "2 ^ 2 dvd (8 :: nat)" "8 + 2 ^ 2 \<le> (16 :: nat)" by auto
  have "16 \<le> 64 * length [0x21 :: u64]" "16 < (2 :: nat) ^ 31" "2 < (64 :: nat)" "2 < (32 :: nat)" by simp_all
  from free_region_search [OF naive_find_ok naive_ranges_ok this(1-3), of B kn, unfolded b if_P [OF this(4)]]
  show "map_option fst ?r = Some 8"
  proof (elim disjE exE conjE)
    fix p bm'
    assume p: "?r = Some (int p, bm')" "2 ^ 2 dvd p" "{0, 5} \<inter> {p..<p + 2 ^ 2} = {}"
      and first: "\<forall>p'<p. 2 ^ 2 dvd p' \<longrightarrow> {0, 5} \<inter> {p'..<p' + 2 ^ 2} \<noteq> {}"
    from p(2) obtain k where k: "p = 4 * k" by auto
    have "\<not> 8 < p" using first free by blast
    then have "k = 0 \<or> k = 1 \<or> k = 2" using k by linarith
    then show ?thesis using p k by auto
  next
    assume "\<forall>p. 2 ^ 2 dvd p \<and> p + 2 ^ 2 \<le> 16 \<longrightarrow> {0, 5} \<inter> {p..<p + 2 ^ 2} \<noteq> ({} :: nat set)"
    then show ?thesis using free by blast
  qed
qed



subsection \<open>CPU masks\<close>

text \<open>C33: CPU masks are sets of CPUs: the operations on masks are the set operations, whose returned flag says whether
  the result has a CPU, and the tests decide equality, inclusion, disjointness, emptiness and
  membership.\<close>

theorem cpumasks_are_sets:
  assumes "is_cpumask d" "is_cpumask a" "is_cpumask b" "cpu < 32"
  shows "cpus (snd (cpumask_and B d a b)) = cpus a \<inter> cpus b \<and> (fst (cpumask_and B d a b) \<longleftrightarrow> cpus a \<inter> cpus b \<noteq> {}) \<and>
    cpus (snd (cpumask_andnot B d a b)) = cpus a - cpus b \<and> (fst (cpumask_andnot B d a b) \<longleftrightarrow> cpus a - cpus b \<noteq> {}) \<and>
    cpus (cpumask_or B d a b) = cpus a \<union> cpus b \<and> cpus (cpumask_xor B d a b) = (cpus a - cpus b) \<union> (cpus b - cpus a) \<and>
    cpus (cpumask_copy d a) = cpus a \<and> cpus (cpumask_clear d) = {} \<and>
    (cpumask_equal B a b \<longleftrightarrow> cpus a = cpus b) \<and> (cpumask_subset B a b \<longleftrightarrow> cpus a \<subseteq> cpus b) \<and>
    (cpumask_intersects B a b \<longleftrightarrow> cpus a \<inter> cpus b \<noteq> {}) \<and> (cpumask_empty L a \<longleftrightarrow> cpus a = {}) \<and>
    (cpumask_test_cpu const cpu a \<longleftrightarrow> cpu \<in> cpus a)"
  using cpumask_ops(1-4) [OF assms(1-3), of B] cpumask_ops(5,6) [OF assms(1-3)] cpumask_queries(1-4) [OF assms(2,3,3), of B] cpumask_queries(5) [OF assms(2,3,3), of L]
    cpumask_queries(6) [OF assms(2,3,3,4), of const]
  by simp

text \<open>CPUs 0 to 3 and CPUs 2 to 5, with stray bits above the CPUs in one mask.\<close>

theorem cpumasks_are_sets_witness:
  "\<forall>B. cpus (snd (cpumask_and B [0] [0xf] [0xff0000003c])) = {2, 3} \<and> cpumask_empty naive_find [0xff00000000]"
proof
  fix B
  have b: "bitmap_bits [0xf] = {0, 1, 2, 3}"
  proof -
    have "filter (bit_at [0xf]) [0..<64 * length [0xf :: u64]] = [0, 1, 2, 3]" by code_simp
    then show ?thesis unfolding bitmap_bits_filter by simp
  qed
  have c: "bitmap_bits [0xff0000003c] = {2, 3, 4, 5, 32, 33, 34, 35, 36, 37, 38, 39}"
  proof -
    have "filter (bit_at [0xff0000003c]) [0..<64 * length [0xff0000003c :: u64]] = [2, 3, 4, 5, 32, 33, 34, 35, 36, 37, 38, 39]"
      by code_simp
    then show ?thesis unfolding bitmap_bits_filter by simp
  qed
  have d: "bitmap_bits [0xff00000000] = {32, 33, 34, 35, 36, 37, 38, 39}"
  proof -
    have "filter (bit_at [0xff00000000]) [0..<64 * length [0xff00000000 :: u64]] = [32, 33, 34, 35, 36, 37, 38, 39]"
      by code_simp
    then show ?thesis unfolding bitmap_bits_filter by simp
  qed
  have m: "is_cpumask [w]" for w by (simp add: is_cpumask_def)
  have e: "cpus [0xf] \<inter> cpus [0xff0000003c] = {2, 3}" "cpus [0xff00000000] = {}"
    unfolding cpus_def NR_CPUS_def b c d by auto
  show "cpus (snd (cpumask_and B [0] [0xf] [0xff0000003c])) = {2, 3} \<and> cpumask_empty naive_find [0xff00000000]"
    using cpumasks_are_sets [OF m m m, of 0 B 0 "0xf" "0xff0000003c"]
      cpumasks_are_sets [OF m m m, of 0 B 0 "0xff00000000" 0 naive_find] unfolding e by simp
qed

text \<open>C34: Choosing another CPU: the loops over masks visit exactly their CPUs in ascending order, and the searches for a
  CPU other than a given one, in one mask or in two at once, find the first such CPU, or
  return 32, which is no CPU, exactly when there is none.\<close>

theorem other_cpu_found:
  assumes "is_cpumask a" "is_cpumask b" "cpu < 32"
  shows "for_each_cpu L a = Some (sorted_list_of_set (cpus a)) \<and>
    for_each_cpu_and L a b = Some (sorted_list_of_set (cpus a \<inter> cpus b)) \<and>
    (case cpumask_any_but L a cpu of None \<Rightarrow> False
     | Some i \<Rightarrow> if cpus a \<subseteq> {cpu} then i = 32 else i \<in> cpus a - {cpu} \<and> (\<forall>c\<in>cpus a - {cpu}. i \<le> c)) \<and>
    (if cpus a \<inter> cpus b \<subseteq> {cpu} then cpumask_any_and_but L a b cpu = 32
     else cpumask_any_and_but L a b cpu \<in> cpus a \<inter> cpus b - {cpu} \<and>
       (\<forall>c\<in>cpus a \<inter> cpus b - {cpu}. cpumask_any_and_but L a b cpu \<le> c))"
proof -
  have first: "if S \<subseteq> {cpu} then next_from (S - {cpu}) 32 0 = 32
      else next_from (S - {cpu}) 32 0 \<in> S - {cpu} \<and> (\<forall>c\<in>S - {cpu}. next_from (S - {cpu}) 32 0 \<le> c)"
    if "\<forall>i\<in>S. i < 32" for S
    using that by (cases rule: next_from_cases [of "S - {cpu}" 32 0]) (auto simp: not_less [symmetric])
  have "\<forall>i\<in>cpus a. i < 32" "\<forall>i\<in>cpus a \<inter> cpus b. i < 32" by (auto simp: cpus_iff)
  note f = first [OF this(1)] first [OF this(2)]
  show ?thesis
    unfolding any_but_finds [OF assms(1)] any_and_but_finds [OF assms] cpu_walks(1,2) [OF assms(1,2)] option.case
    using f by (intro conjI refl)
qed

text \<open>CPUs 0 and 1 are in both masks: the other one than CPU 0 is CPU 1.\<close>

theorem other_cpu_found_witness: "cpumask_any_and_but naive_find [3] [7] 0 = 1 \<and> cpumask_any_but naive_find [1] 0 = Some 32"
proof -
  have "filter (bit_at [3]) [0..<64 * length [3 :: u64]] = [0, 1]" "filter (bit_at [7]) [0..<64 * length [7 :: u64]] = [0, 1, 2]"
    "filter (bit_at [1]) [0..<64 * length [1 :: u64]] = [0]" by code_simp+
  note b = this [THEN bitmap_bits_code, unfolded list.set]
  have c: "cpus [3] \<inter> cpus [7] = {0, 1}" "cpus [1] = {0}" unfolding cpus_def NR_CPUS_def b by auto
  have m: "is_cpumask [w]" for w by (simp add: is_cpumask_def)
  have "\<not> {0, 1} \<subseteq> {0 :: nat}" "{0} \<subseteq> {0 :: nat}" by auto
  note subs = if_not_P [OF this(1)] if_P [OF this(2)]
  have zero: "(0 :: nat) < 32" by simp
  note found = other_cpu_found [where a = "[3]" and b = "[7]" and cpu = 0 and L = naive_find, OF m m zero, unfolded c subs] other_cpu_found [where a = "[1]" and b = "[1]" and cpu = 0 and L = naive_find, OF m m zero, unfolded c subs]
  have "cpumask_any_and_but naive_find [3] [7] 0 \<in> {0, 1} - {0}" using found(1) by (elim conjE)
  moreover have "case cpumask_any_but naive_find [1] 0 of None \<Rightarrow> False | Some i \<Rightarrow> i = 32" using found(2) by (elim conjE)
  ultimately show ?thesis by (cases "cpumask_any_but naive_find [1] 0") auto
qed

end
