(* ===== verification/Min_Heap.thy ===== *)
theory Min_Heap
  imports Prelude "HOL-Library.Multiset"
begin

text \<open>
  Array heaps (kheaders/include/linux/min\_heap.h). The elements are the values of the array
  \<open>data\<close>, of which the first \<open>nr\<close> are in the heap; copying \<open>elem_size\<close> bytes copies an element. The
  callbacks \<open>less\<close> and \<open>swp\<close> are the caller's and arguments: \<open>swp\<close> gives the new contents of the two
  cells it is called on. Numbers of elements are natural numbers; they are ints in the code, so a heap
  has fewer than \<open>2 ^ 30\<close> elements.
\<close>

subsection \<open>The heap and its operations\<close>

record 'a min_heap =
  heap_nr :: nat
  heap_size :: nat
  heap_data :: "'a list"

record 'a heap_calls =
  call_less :: "'a \<Rightarrow> 'a \<Rightarrow> bool"
  call_swp :: "'a \<times> 'a \<Rightarrow> 'a \<times> 'a"

definition swap_cells :: "'a heap_calls \<Rightarrow> nat \<Rightarrow> nat \<Rightarrow> 'a list \<Rightarrow> 'a list" where
  "swap_cells func i j d = (let (x, y) = call_swp func (d ! i, d ! j) in d[i := x, j := y])"

text \<open>\<open>None\<close> is no array given: the preallocated one is used.\<close>

definition min_heap_init :: "'a list option \<Rightarrow> 'a list \<Rightarrow> nat \<Rightarrow> 'a min_heap" where
  "min_heap_init d preallocated sz =
     \<lparr>heap_nr = 0, heap_size = sz, heap_data = (case d of Some d \<Rightarrow> d | None \<Rightarrow> preallocated)\<rparr>"

definition min_heap_peek :: "'a min_heap \<Rightarrow> 'a option" where
  "min_heap_peek h = (if heap_nr h \<noteq> 0 then Some (heap_data h ! 0) else None)"

definition min_heap_full :: "'a min_heap \<Rightarrow> bool" where
  "min_heap_full h \<longleftrightarrow> heap_nr h = heap_size h"

text \<open>The three loops of \<open>__min_heap_sift_down\<close>: down to a leaf, up again, and the exchanges.\<close>

function sift_leaf :: "'a heap_calls \<Rightarrow> nat \<Rightarrow> 'a list \<Rightarrow> nat \<Rightarrow> nat" where
  "sift_leaf func nr d i =
     (if i * 2 + 2 \<ge> nr then i
      else sift_leaf func nr d (if call_less func (d ! (i * 2 + 1)) (d ! (i * 2 + 2)) then i * 2 + 1 else i * 2 + 2))"
  by pat_completeness auto
termination by (relation "measure (\<lambda>(func, nr, d, i). nr - i)") auto

partial_function (option) sift_back :: "'a heap_calls \<Rightarrow> 'a list \<Rightarrow> nat \<Rightarrow> nat \<Rightarrow> nat option" where
  "sift_back func d pos i =
     (if i \<noteq> pos \<and> call_less func (d ! pos) (d ! i) then sift_back func d pos ((i - 1) div 2) else Some i)"

partial_function (option) sift_exchange :: "'a heap_calls \<Rightarrow> nat \<Rightarrow> nat \<Rightarrow> nat \<Rightarrow> 'a list \<Rightarrow> 'a list option" where
  "sift_exchange func pos j i d =
     (if i \<noteq> pos then let i = (i - 1) div 2 in sift_exchange func pos j i (swap_cells func i j d) else Some d)"

definition min_heap_sift_down :: "'a heap_calls \<Rightarrow> nat \<Rightarrow> 'a min_heap \<Rightarrow> 'a min_heap option" where
  "min_heap_sift_down func pos h =
     (let nr = heap_nr h; d = heap_data h;
          i = sift_leaf func nr d pos;
          i = (if i * 2 + 2 = nr then i * 2 + 1 else i)
      in Option.bind (sift_back func d pos i) (\<lambda>i.
         map_option (\<lambda>d. h\<lparr>heap_data := d\<rparr>) (sift_exchange func pos i i d)))"

function min_heap_sift_up :: "'a heap_calls \<Rightarrow> nat \<Rightarrow> 'a list \<Rightarrow> 'a list" where
  "min_heap_sift_up func idx d =
     (if idx \<noteq> 0 then
        let parent = (idx - 1) div 2 in
        if call_less func (d ! parent) (d ! idx) then d
        else min_heap_sift_up func parent (swap_cells func parent idx d)
      else d)"
  by pat_completeness auto
termination by (relation "measure (\<lambda>(func, idx, d). idx)") auto

text \<open>\<open>i\<close> counts down from \<open>nr / 2 - 1\<close> to 0; \<open>k\<close> is \<open>i + 1\<close>.\<close>

fun heapify_loop :: "'a heap_calls \<Rightarrow> nat \<Rightarrow> 'a min_heap \<Rightarrow> 'a min_heap option" where
  "heapify_loop func 0 h = Some h"
| "heapify_loop func (Suc k) h = Option.bind (min_heap_sift_down func k h) (heapify_loop func k)"

definition min_heapify_all :: "'a heap_calls \<Rightarrow> 'a min_heap \<Rightarrow> 'a min_heap option" where
  "min_heapify_all func h = heapify_loop func (heap_nr h div 2) h"

definition min_heap_pop :: "'a heap_calls \<Rightarrow> 'a min_heap \<Rightarrow> (bool \<times> 'a min_heap) option" where
  "min_heap_pop func h =
     (if heap_nr h = 0 then Some (False, h)
      else
        let h = h\<lparr>heap_nr := heap_nr h - 1\<rparr>;
            h = h\<lparr>heap_data := (heap_data h)[0 := heap_data h ! heap_nr h]\<rparr>
        in map_option (Pair True) (min_heap_sift_down func 0 h))"

definition min_heap_pop_push :: "'a heap_calls \<Rightarrow> 'a \<Rightarrow> 'a min_heap \<Rightarrow> 'a min_heap option" where
  "min_heap_pop_push func e h = min_heap_sift_down func 0 (h\<lparr>heap_data := (heap_data h)[0 := e]\<rparr>)"

definition min_heap_push :: "'a heap_calls \<Rightarrow> 'a \<Rightarrow> 'a min_heap \<Rightarrow> bool \<times> 'a min_heap" where
  "min_heap_push func e h =
     (if heap_nr h \<ge> heap_size h then (False, h)
      else
        let pos = heap_nr h;
            d = (heap_data h)[pos := e]
        in (True, h\<lparr>heap_nr := pos + 1, heap_data := min_heap_sift_up func pos d\<rparr>))"

definition min_heap_del :: "'a heap_calls \<Rightarrow> nat \<Rightarrow> 'a min_heap \<Rightarrow> (bool \<times> 'a min_heap) option" where
  "min_heap_del func idx h =
     (if heap_nr h = 0 then Some (False, h)
      else
        let h = h\<lparr>heap_nr := heap_nr h - 1\<rparr> in
        if idx = heap_nr h then Some (True, h)
        else
          let h = h\<lparr>heap_data := swap_cells func idx (heap_nr h) (heap_data h)\<rparr>;
              h = h\<lparr>heap_data := min_heap_sift_up func idx (heap_data h)\<rparr>
          in map_option (Pair True) (min_heap_sift_down func idx h))"

declare sift_leaf.simps [simp del] min_heap_sift_up.simps [simp del]

subsection \<open>What is asked of the callbacks\<close>

definition calls_ok :: "'a heap_calls \<Rightarrow> bool" where
  "calls_ok func \<longleftrightarrow> (\<forall>x y. call_swp func (x, y) = (y, x)) \<and>
     (\<forall>x y. call_less func x y \<longrightarrow> \<not> call_less func y x) \<and>
     (\<forall>x y z. call_less func x z \<longrightarrow> call_less func x y \<or> call_less func y z)"

definition below :: "'a heap_calls \<Rightarrow> 'a \<Rightarrow> 'a \<Rightarrow> bool" where
  "below func x y \<longleftrightarrow> \<not> call_less func y x"

lemma below_trans: "calls_ok func \<Longrightarrow> below func x y \<Longrightarrow> below func y z \<Longrightarrow> below func x z"
  unfolding calls_ok_def below_def by blast

lemma below_refl [simp]: "calls_ok func \<Longrightarrow> below func x x"
  unfolding calls_ok_def below_def by blast

lemma less_below: "calls_ok func \<Longrightarrow> call_less func x y \<Longrightarrow> below func x y"
  unfolding calls_ok_def below_def by blast

lemma not_less_below: "\<not> call_less func x y \<Longrightarrow> below func y x"
  unfolding below_def .

lemma swap_cells_eq: "calls_ok func \<Longrightarrow> swap_cells func i j d = d[i := d ! j, j := d ! i]"
  by (simp add: swap_cells_def calls_ok_def)

lemma length_swap_cells [simp]: "length (swap_cells func i j d) = length d"
  by (simp add: swap_cells_def split: prod.split)

subsection \<open>The heap order\<close>

definition up :: "nat \<Rightarrow> nat" where
  "up i = (i - 1) div 2"

lemma up_children: "0 < i \<Longrightarrow> up i = q \<longleftrightarrow> i = q * 2 + 1 \<or> i = q * 2 + 2"
  unfolding up_def by (cases i) auto

lemma up_less: "0 < i \<Longrightarrow> up i < i"
  unfolding up_def by (cases i) auto

text \<open>The order holds between every cell that is in the heap and its parent, for parents in \<open>Q\<close>.\<close>

definition heap_order :: "'a heap_calls \<Rightarrow> nat \<Rightarrow> (nat \<Rightarrow> bool) \<Rightarrow> 'a list \<Rightarrow> bool" where
  "heap_order func nr Q d \<longleftrightarrow> (\<forall>i<nr. 0 < i \<longrightarrow> Q (up i) \<longrightarrow> below func (d ! up i) (d ! i))"

lemma heap_order_root:
  assumes "calls_ok func" "heap_order func nr (\<lambda>q. True) d"
  shows "i < nr \<Longrightarrow> below func (d ! 0) (d ! i)"
proof (induction i rule: less_induct)
  case (less i)
  show ?case
  proof (cases "i = 0")
    case False
    then have "up i < i" by (simp add: up_less)
    then have "below func (d ! 0) (d ! up i)" using less by simp
    moreover have "below func (d ! up i) (d ! i)" using assms(2) less.prems False by (simp add: heap_order_def)
    ultimately show ?thesis by (rule below_trans [OF assms(1)])
  qed (simp add: assms)
qed

text \<open>Exchanging two cells of the heap.\<close>

lemma take_swap: "i < nr \<Longrightarrow> j < nr \<Longrightarrow> nr \<le> length d \<Longrightarrow> mset (take nr (d[i := d ! j, j := d ! i])) = mset (take nr d)"
  using mset_swap [of j "take nr d" i] by (simp add: take_update_swap)

subsection \<open>Sifting up\<close>

text \<open>The order may be broken between \<open>idx\<close> and its parent, nowhere else.\<close>

definition heap_but :: "'a heap_calls \<Rightarrow> nat \<Rightarrow> nat \<Rightarrow> 'a list \<Rightarrow> bool" where
  "heap_but func nr idx d \<longleftrightarrow> (\<forall>i<nr. 0 < i \<longrightarrow> i \<noteq> idx \<longrightarrow> below func (d ! up i) (d ! i)) \<and>
     (\<forall>i<nr. 0 < i \<longrightarrow> up i = idx \<longrightarrow> 0 < idx \<longrightarrow> below func (d ! up idx) (d ! i))"

lemma heap_but_swap:
  assumes c: "calls_ok func" and h: "heap_but func nr idx d" and idx: "0 < idx" "idx < nr" "nr \<le> length d"
    and l: "below func (d ! idx) (d ! up idx)"
  shows "heap_but func nr (up idx) (swap_cells func (up idx) idx d)"
proof -
  let ?p = "up idx"
  have p: "?p < idx" "?p < length d" "idx < length d" using idx up_less [of idx] by auto
  let ?e = "d[?p := d ! idx, idx := d ! ?p]"
  have e: "?e ! k = (if k = idx then d ! ?p else if k = ?p then d ! idx else d ! k)" for k
    using p by (auto simp: nth_list_update)
  have h1: "below func (d ! up i) (d ! i)" if "i < nr" "0 < i" "i \<noteq> idx" for i using h that by (simp add: heap_but_def)
  have h2: "below func (d ! ?p) (d ! i)" if "i < nr" "0 < i" "up i = idx" for i using h that idx(1) by (simp add: heap_but_def)
  have "below func (?e ! up i) (?e ! i)" if i: "i < nr" "0 < i" "i \<noteq> ?p" for i
  proof -
    have u: "up i < i" using i(2) by (rule up_less)
    consider "i = idx" | "i \<noteq> idx" "up i = idx" | "i \<noteq> idx" "up i = ?p" "up i \<noteq> idx" | "i \<noteq> idx" "up i \<noteq> idx" "up i \<noteq> ?p" by blast
    then show ?thesis
    proof cases
      case 1
      then show ?thesis using l p by (simp add: e)
    next
      case 2
      then show ?thesis using h2 [of i] i by (simp add: e)
    next
      case 3
      then show ?thesis using h1 [OF i(1,2)] i below_trans [OF c l] by (simp add: e)
    next
      case 4
      then show ?thesis using h1 [of i] i by (simp add: e)
    qed
  qed
  moreover have "below func (?e ! up ?p) (?e ! i)" if i: "i < nr" "0 < i" "up i = ?p" "0 < ?p" for i
  proof -
    have pp: "up ?p < ?p" using i(4) by (rule up_less)
    have a: "below func (d ! up ?p) (d ! ?p)" using h1 [of ?p] i p idx by simp
    have "i = idx \<or> below func (d ! ?p) (d ! i)" using h1 [of i] i by auto
    then show ?thesis
    proof
      assume "i = idx"
      then show ?thesis using a pp p by (simp add: e)
    next
      assume b: "below func (d ! ?p) (d ! i)"
      have "i \<noteq> ?p" using up_less [OF i(2)] i(3) by simp
      then show ?thesis using a below_trans [OF c a b] pp p by (simp add: e)
    qed
  qed
  ultimately show ?thesis unfolding swap_cells_eq [OF c] heap_but_def by blast
qed

lemma sift_up_heap:
  assumes "calls_ok func" "heap_but func nr idx d" "idx < nr" "nr \<le> length d"
  shows "heap_order func nr (\<lambda>q. True) (min_heap_sift_up func idx d) \<and> length (min_heap_sift_up func idx d) = length d \<and>
    mset (take nr (min_heap_sift_up func idx d)) = mset (take nr d)"
  using assms
proof (induction func idx d rule: min_heap_sift_up.induct)
  case (1 func idx d)
  note step = min_heap_sift_up.simps [of func idx d, folded up_def]
  show ?case
  proof (cases "idx = 0")
    case True
    then show ?thesis using "1.prems"(2) unfolding step by (simp add: heap_order_def heap_but_def)
  next
    case False
    show ?thesis
    proof (cases "call_less func (d ! up idx) (d ! idx)")
      case True
      then have "below func (d ! up idx) (d ! idx)" by (rule less_below [OF "1.prems"(1)])
      then have "heap_order func nr (\<lambda>q. True) d" using "1.prems"(2) by (auto simp: heap_order_def heap_but_def)
      then show ?thesis using True False unfolding step by simp
    next
      case no: False
      let ?e = "swap_cells func (up idx) idx d"
      have up: "up idx < nr" using up_less [of idx] False "1.prems"(3) by simp
      have b: "heap_but func nr (up idx) ?e"
        using heap_but_swap [OF "1.prems"(1,2) _ "1.prems"(3,4)] False not_less_below [OF no] by simp
      have "mset (take nr ?e) = mset (take nr d)"
        unfolding swap_cells_eq [OF "1.prems"(1)] using up "1.prems"(3,4) by (rule take_swap)
      moreover have "min_heap_sift_up func idx d = min_heap_sift_up func (up idx) ?e" unfolding step using False no by (simp add: Let_def)
      ultimately show ?thesis
        using "1.IH" [folded up_def, OF False refl no "1.prems"(1) b up] "1.prems"(4) by simp
    qed
  qed
qed

subsection \<open>Sifting down\<close>

text \<open>The way the first loop takes: at each cell the lesser child, to a cell with no children.\<close>

function sift_path :: "'a heap_calls \<Rightarrow> nat \<Rightarrow> 'a list \<Rightarrow> nat \<Rightarrow> nat list" where
  "sift_path func nr d i = i #
     (if i * 2 + 2 < nr then sift_path func nr d (if call_less func (d ! (i * 2 + 1)) (d ! (i * 2 + 2)) then i * 2 + 1 else i * 2 + 2)
      else if i * 2 + 2 = nr then [i * 2 + 1] else [])"
  by pat_completeness auto
termination by (relation "measure (\<lambda>(func, nr, d, i). nr - i)") auto

declare sift_path.simps [simp del]

fun good_path :: "'a heap_calls \<Rightarrow> nat \<Rightarrow> 'a list \<Rightarrow> nat list \<Rightarrow> bool" where
  "good_path func nr d [] = False"
| "good_path func nr d [i] = (\<forall>x<nr. 0 < x \<longrightarrow> up x \<noteq> i)"
| "good_path func nr d (i # j # ps) = (0 < j \<and> j < nr \<and> up j = i \<and>
     (\<forall>x<nr. 0 < x \<longrightarrow> up x = i \<longrightarrow> below func (d ! j) (d ! x)) \<and> good_path func nr d (j # ps))"

lemma sift_path_last:
  "last (sift_path func nr d i) =
     (let l = sift_leaf func nr d i in if l * 2 + 2 = nr then l * 2 + 1 else l)"
proof (induction func nr d i rule: sift_path.induct)
  case (1 func nr d i)
  note p = sift_path.simps [of func nr d i] and l = sift_leaf.simps [of func nr d i]
  show ?case
  proof (cases "i * 2 + 2 < nr")
    case True
    have "sift_path func nr d k \<noteq> []" for k by (subst sift_path.simps) simp
    then show ?thesis using 1 [OF True] True unfolding p l by simp
  next
    case False
    then show ?thesis unfolding p l by simp
  qed
qed

lemma sift_path_Cons: "\<exists>ps. sift_path func nr d i = i # ps"
  by (subst sift_path.simps) simp

lemma sift_path_good: "calls_ok func \<Longrightarrow> good_path func nr d (sift_path func nr d i)"
proof (induction func nr d i rule: sift_path.induct)
  case (1 func nr d i)
  note p = sift_path.simps [of func nr d i]
  show ?case
  proof (cases "i * 2 + 2 < nr")
    case True
    define c where "c = (if call_less func (d ! (i * 2 + 1)) (d ! (i * 2 + 2)) then i * 2 + 1 else i * 2 + 2)"
    obtain ps where ps: "sift_path func nr d c = c # ps" using sift_path_Cons by blast
    have "below func (d ! c) (d ! x)" if "0 < x" "up x = i" for x
      using that up_children [OF that(1), of i] less_below [OF "1.prems"] not_less_below [of func "d ! (i * 2 + 1)" "d ! (i * 2 + 2)"] "1.prems"
      by (auto simp: c_def)
    moreover have "0 < c" "c < nr" "up c = i" using up_children [of c i] True by (auto simp: c_def)
    moreover have "good_path func nr d (c # ps)" using 1 True ps by (simp add: c_def)
    moreover have "sift_path func nr d i = i # c # ps" using True ps unfolding p c_def [symmetric] by simp
    ultimately show ?thesis by simp
  next
    case False
    note leaf = this
    show ?thesis
    proof (cases "i * 2 + 2 = nr")
      case True
      have "x = i * 2 + 1" if "x < nr" "0 < x" "up x = i" for x using that up_children [of x i] True by auto
      moreover have "up x \<noteq> i * 2 + 1" if "x < nr" "0 < x" for x using that up_children [of x "i * 2 + 1"] True by auto
      ultimately show ?thesis using True "1.prems" up_children [of "i * 2 + 1" i] unfolding p by auto
    next
      case no: False
      have "up x \<noteq> i" if "x < nr" "0 < x" for x using that up_children [of x i] leaf no by auto
      then show ?thesis using leaf no unfolding p by simp
    qed
  qed
qed

lemma good_path_ascends: "good_path func nr d (i # ps) \<Longrightarrow> (\<forall>j\<in>set ps. i < j \<and> j < nr) \<and> distinct (i # ps)"
proof (induction ps arbitrary: i)
  case (Cons j ps)
  then have "i < j" using up_less [of j] by auto
  then show ?case using Cons by fastforce
qed simp

lemma good_path_update: "good_path func nr d (i # ps) \<Longrightarrow> p < i \<Longrightarrow> good_path func nr (d[p := v]) (i # ps)"
proof (induction ps arbitrary: i)
  case (Cons j ps)
  have "d[p := v] ! x = d ! x" if "0 < x" "up x = i" for x using up_less [OF that(1)] that(2) Cons.prems(2) by simp
  moreover have "p < j" using Cons.prems up_less [of j] by auto
  ultimately show ?case using Cons.IH [of j] Cons.prems(1) by auto
qed simp

text \<open>The elements of the first \<open>m\<close> cells of the way move up by one, \<open>r\<close> gets the next cell.\<close>

fun moved_up :: "'a \<Rightarrow> 'a list \<Rightarrow> nat list \<Rightarrow> nat \<Rightarrow> 'a list" where
  "moved_up r d (p # q # ps) (Suc m) = moved_up r (d[p := d ! q]) (q # ps) m"
| "moved_up r d (p # ps) m = d[p := r]"
| "moved_up r d [] m = d"

text \<open>Where \<open>r\<close> may stop.\<close>

definition stops_at :: "'a heap_calls \<Rightarrow> 'a \<Rightarrow> 'a list \<Rightarrow> nat list \<Rightarrow> nat \<Rightarrow> bool" where
  "stops_at func r d ps m \<longleftrightarrow> m < length ps \<and> (0 < m \<longrightarrow> below func (d ! (ps ! m)) r) \<and>
     (m + 1 < length ps \<longrightarrow> call_less func r (d ! (ps ! (m + 1))))"

lemma path_chain:
  assumes "calls_ok func" "good_path func nr d (i # ps)" "\<forall>x<nr. 0 < x \<longrightarrow> i \<le> up x \<longrightarrow> below func (d ! up x) (d ! x)"
  shows "m < length (i # ps) \<Longrightarrow> below func (d ! i) (d ! ((i # ps) ! m))"
  using assms(2,3)
proof (induction ps arbitrary: i m)
  case (Cons j ps)
  have ij: "i < j" "up j = i" "j < nr" "0 < j" using Cons.prems(2) up_less [of j] by auto
  show ?case
  proof (cases m)
    case (Suc k)
    have "\<forall>x<nr. 0 < x \<longrightarrow> j \<le> up x \<longrightarrow> below func (d ! up x) (d ! x)" using Cons.prems(3) ij(1) by simp
    then have "below func (d ! j) (d ! ((j # ps) ! k))" using Cons.IH [of k j] Cons.prems(1,2) Suc by simp
    moreover have "below func (d ! i) (d ! j)" using Cons.prems(3) ij by auto
    ultimately show ?thesis using below_trans [OF assms(1)] Suc by simp
  qed (simp add: assms(1))
qed (simp add: assms(1))

text \<open>The order among the cells apart from \<open>p\<close>, with room for \<open>r\<close> below the parent of \<open>p\<close>.\<close>

definition hole_at :: "'a heap_calls \<Rightarrow> nat \<Rightarrow> (nat \<Rightarrow> bool) \<Rightarrow> 'a \<Rightarrow> 'a list \<Rightarrow> nat \<Rightarrow> bool" where
  "hole_at func nr Q r d p \<longleftrightarrow> p < nr \<and> nr \<le> length d \<and> (\<forall>x\<ge>p. Q x) \<and>
     (\<forall>x<nr. 0 < x \<longrightarrow> Q (up x) \<longrightarrow> up x \<noteq> p \<longrightarrow> x \<noteq> p \<longrightarrow> below func (d ! up x) (d ! x)) \<and>
     (0 < p \<longrightarrow> Q (up p) \<longrightarrow> below func (d ! up p) r \<and> (\<forall>x<nr. 0 < x \<longrightarrow> up x = p \<longrightarrow> below func (d ! up p) (d ! x)))"

lemma hole_filled:
  assumes "hole_at func nr Q r d p" "\<forall>x<nr. 0 < x \<longrightarrow> up x = p \<longrightarrow> below func r (d ! x)"
  shows "heap_order func nr Q (d[p := r])"
  unfolding heap_order_def
proof (intro allI impI)
  fix x
  assume x: "x < nr" "0 < x" "Q (up x)"
  have u: "up x < x" using x(2) by (rule up_less)
  consider "x = p" | "x \<noteq> p" "up x = p" | "x \<noteq> p" "up x \<noteq> p" by blast
  then show "below func (d[p := r] ! up x) (d[p := r] ! x)"
    using assms x u by cases (auto simp: hole_at_def)
qed

lemma hole_sinks:
  assumes c: "calls_ok func" and g: "good_path func nr d (p # q # qs)" and h: "hole_at func nr Q r d p"
    and s: "stops_at func r d (p # q # qs) (Suc m)"
  shows "hole_at func nr Q r (d[p := d ! q]) q" "stops_at func r (d[p := d ! q]) (q # qs) m"
proof -
  let ?e = "d[p := d ! q]"
  have q: "0 < q" "q < nr" "up q = p" "p < q" using g up_less [of q] by auto
  have e: "?e ! x = (if x = p then d ! q else d ! x)" for x
    using h by (auto simp: hole_at_def nth_list_update)
  have asc: "\<forall>j\<in>set (q # qs). p < j" using good_path_ascends [OF g] by simp
  show "stops_at func r ?e (q # qs) m"
  proof -
    have "?e ! ((q # qs) ! k) = d ! ((q # qs) ! k)" if "k < length (q # qs)" for k
      using asc nth_mem [OF that] e by (auto simp del: nth_list_update)
    from this [of m] this [of "Suc m"] show ?thesis using s unfolding stops_at_def by (cases m) auto
  qed
  have sib: "below func (d ! q) (d ! x)" if "x < nr" "0 < x" "up x = p" for x using g that by simp
  have ord: "below func (d ! up x) (d ! x)" if "x < nr" "0 < x" "Q (up x)" "up x \<noteq> p" "x \<noteq> p" for x
    using h that by (simp add: hole_at_def)
  have above: "below func (d ! up p) (d ! q)" if "0 < p" "Q (up p)" using h that q by (simp add: hole_at_def)
  have Q: "\<forall>x\<ge>p. Q x" using h by (simp add: hole_at_def)
  have "below func (?e ! up x) (?e ! x)" if x: "x < nr" "0 < x" "Q (up x)" "up x \<noteq> q" "x \<noteq> q" for x
  proof -
    have u: "up x < x" using x(2) by (rule up_less)
    consider "x = p" | "x \<noteq> p" "up x = p" | "x \<noteq> p" "up x \<noteq> p" by blast
    then show ?thesis using x u sib [of x] ord [of x] above by cases (auto simp: e)
  qed
  moreover have "below func (?e ! up q) r \<and> (\<forall>x<nr. 0 < x \<longrightarrow> up x = q \<longrightarrow> below func (?e ! up q) (?e ! x))"
  proof
    have "\<forall>x<nr. 0 < x \<longrightarrow> q \<le> up x \<longrightarrow> below func (d ! up x) (d ! x)"
    proof (intro allI impI)
      fix x
      assume x: "x < nr" "0 < x" "q \<le> up x"
      have "up x < x" using x(2) by (rule up_less)
      then show "below func (d ! up x) (d ! x)" using ord [of x] x Q q(4) by simp
    qed
    moreover have "m < length (q # qs)" using s by (simp add: stops_at_def)
    ultimately have "below func (d ! q) (d ! ((q # qs) ! m))" using path_chain [OF c, of nr d q qs m] g by simp
    moreover have "below func (d ! ((q # qs) ! m)) r" using s by (simp add: stops_at_def)
    ultimately show "below func (?e ! up q) r" using below_trans [OF c] by (simp add: e q(3))
    show "\<forall>x<nr. 0 < x \<longrightarrow> up x = q \<longrightarrow> below func (?e ! up q) (?e ! x)"
    proof (intro allI impI)
      fix x
      assume x: "x < nr" "0 < x" "up x = q"
      have "q < x" using up_less [OF x(2)] x(3) by simp
      then show "below func (?e ! up q) (?e ! x)" using ord [of x] x Q q by (simp add: e)
    qed
  qed
  ultimately show "hole_at func nr Q r ?e q"
    using q Q h unfolding hole_at_def by simp
qed

lemma moved_up_heap:
  assumes "calls_ok func"
  shows "good_path func nr d (p # ps) \<Longrightarrow> hole_at func nr Q r d p \<Longrightarrow> stops_at func r d (p # ps) m \<Longrightarrow>
    heap_order func nr Q (moved_up r d (p # ps) m)"
proof (induction m arbitrary: d p ps)
  case 0
  have "\<forall>x<nr. 0 < x \<longrightarrow> up x = p \<longrightarrow> below func r (d ! x)"
  proof (cases ps)
    case Nil
    then show ?thesis using "0.prems"(1) by simp
  next
    case (Cons q qs)
    then have "below func r (d ! q)" using "0.prems"(3) less_below [OF assms] by (simp add: stops_at_def)
    then show ?thesis using Cons "0.prems"(1) below_trans [OF assms, of r "d ! q"] by auto
  qed
  then have "heap_order func nr Q (d[p := r])" by (rule hole_filled [OF "0.prems"(2)])
  then show ?case by (cases ps) simp_all
next
  case (Suc m)
  then obtain q qs where ps: "ps = q # qs" by (cases ps) (auto simp: stops_at_def)
  note sink = hole_sinks [OF assms Suc.prems(1,2,3) [unfolded ps]]
  have "p < q" using Suc.prems(1) up_less [of q] ps by auto
  then have "good_path func nr (d[p := d ! q]) (q # qs)" using good_path_update [of func nr d q qs p] Suc.prems(1) ps by simp
  from Suc.IH [OF this sink] show ?case by (simp add: ps)
qed

text \<open>The second loop finds where \<open>r\<close> may stop.\<close>

lemma sift_back_finds:
  assumes "\<forall>k. k + 1 < length ps \<longrightarrow> up (ps ! (k + 1)) = ps ! k" "distinct ps" "ps \<noteq> []"
  shows "k < length ps \<Longrightarrow> (k + 1 < length ps \<longrightarrow> call_less func (d ! (ps ! 0)) (d ! (ps ! (k + 1)))) \<Longrightarrow>
    \<exists>m. sift_back func d (ps ! 0) (ps ! k) = Some (ps ! m) \<and> stops_at func (d ! (ps ! 0)) d ps m"
proof (induction k)
  case 0
  then have "sift_back func d (ps ! 0) (ps ! 0) = Some (ps ! 0)" by (subst sift_back.simps) simp
  then show ?case using 0 by (auto simp: stops_at_def)
next
  case (Suc k)
  have ne: "ps ! Suc k \<noteq> ps ! 0" using nth_eq_iff_index_eq [OF assms(2), of "Suc k" 0] Suc.prems(1) assms(3) by simp
  show ?case
  proof (cases "call_less func (d ! (ps ! 0)) (d ! (ps ! Suc k))")
    case True
    have "(ps ! Suc k - 1) div 2 = ps ! k" using assms(1) Suc.prems(1) by (simp add: up_def)
    then have "sift_back func d (ps ! 0) (ps ! Suc k) = sift_back func d (ps ! 0) (ps ! k)"
      using True ne by (subst sift_back.simps) simp
    then show ?thesis using Suc.IH Suc.prems True by simp
  next
    case False
    then have "sift_back func d (ps ! 0) (ps ! Suc k) = Some (ps ! Suc k)" by (subst sift_back.simps) simp
    moreover have "stops_at func (d ! (ps ! 0)) d ps (Suc k)"
      using Suc.prems not_less_below [OF False] by (simp add: stops_at_def)
    ultimately show ?thesis by blast
  qed
qed

text \<open>The third loop.\<close>

lemma nth_notin_take: "distinct xs \<Longrightarrow> m < length xs \<Longrightarrow> xs ! m \<notin> set (take m xs)"
  using nth_eq_iff_index_eq [of xs] by (auto simp: in_set_conv_nth)

lemma sift_exchange_moves:
  assumes c: "calls_ok func" and up: "\<forall>k. k + 1 < length ps \<longrightarrow> up (ps ! (k + 1)) = ps ! k" and dist: "distinct ps"
    and nr: "\<forall>p\<in>set ps. p < nr" "j < nr"
  shows "k < length ps \<Longrightarrow> j \<notin> set (take k ps) \<Longrightarrow> nr \<le> length d \<Longrightarrow>
    \<exists>e. sift_exchange func (ps ! 0) j (ps ! k) d = Some e \<and> length e = length d \<and> mset (take nr e) = mset (take nr d) \<and>
      e ! j = d ! (if k = 0 then j else ps ! 0) \<and>
      (\<forall>t<k. e ! (ps ! t) = d ! (if t + 1 < k then ps ! (t + 1) else j)) \<and>
      (\<forall>x. x \<noteq> j \<longrightarrow> x \<notin> set (take k ps) \<longrightarrow> e ! x = d ! x)"
proof (induction k arbitrary: d)
  case 0
  then show ?case by (subst sift_exchange.simps) simp
next
  case (Suc k)
  have eq: "ps ! s = ps ! t \<longleftrightarrow> s = t" if "s < length ps" "t < length ps" for s t
    using nth_eq_iff_index_eq [OF dist that] .
  have "ps \<noteq> []" using Suc.prems(1) by auto
  then have ne: "ps ! Suc k \<noteq> ps ! 0" using eq [of "Suc k" 0] Suc.prems(1) by simp
  have k: "k < length ps" using Suc.prems(1) by simp
  have tk: "set (take (Suc k) ps) = insert (ps ! k) (set (take k ps))" using k by (simp add: take_Suc_conv_app_nth)
  then have j: "j \<noteq> ps ! k" "j \<notin> set (take k ps)" using Suc.prems(2) by auto
  let ?c = "d[ps ! k := d ! j, j := d ! (ps ! k)]"
  have "ps ! k < nr" using nr(1) nth_mem [OF k] by simp
  then have lens: "ps ! k < nr" "ps ! k < length d" "j < length d" using nr(2) Suc.prems(3) by simp_all
  have cn: "?c ! x = (if x = j then d ! (ps ! k) else if x = ps ! k then d ! j else d ! x)" for x
    using lens by (auto simp: nth_list_update)
  have "(ps ! Suc k - 1) div 2 = ps ! k" using up Suc.prems(1) by (simp add: up_def)
  then have step: "sift_exchange func (ps ! 0) j (ps ! Suc k) d = sift_exchange func (ps ! 0) j (ps ! k) ?c"
    using ne by (subst sift_exchange.simps) (simp add: Let_def swap_cells_eq [OF c])
  obtain e where e: "sift_exchange func (ps ! 0) j (ps ! k) ?c = Some e" "length e = length ?c" "mset (take nr e) = mset (take nr ?c)"
    "e ! j = ?c ! (if k = 0 then j else ps ! 0)" "\<forall>t<k. e ! (ps ! t) = ?c ! (if t + 1 < k then ps ! (t + 1) else j)"
    "\<forall>x. x \<noteq> j \<longrightarrow> x \<notin> set (take k ps) \<longrightarrow> e ! x = ?c ! x"
    using Suc.IH [OF k j(2), of ?c] Suc.prems(3) by auto
  have m: "mset (take nr e) = mset (take nr d)" using e(3) take_swap [OF lens(1) nr(2) Suc.prems(3)] by simp
  have before: "ps ! t \<noteq> ps ! k \<and> ps ! t \<noteq> j" if "t < k" for t
    using eq [of t k] that k j(2) by (auto simp: in_set_conv_nth)
  note notin = nth_notin_take [OF dist k]
  have "e ! j = d ! (ps ! 0)"
  proof (cases "k = 0")
    case False
    then show ?thesis using e(4) before [of 0] by (simp add: cn)
  next
    case True
    then show ?thesis using e(4) cn [of j] by simp
  qed
  moreover have "e ! (ps ! t) = d ! (if t + 1 < Suc k then ps ! (t + 1) else j)" if "t < Suc k" for t
  proof -
    consider "t = k" | "t + 1 = k" | "t + 1 < k" using \<open>t < Suc k\<close> by linarith
    then show ?thesis
    proof cases
      case 1
      then show ?thesis using e(6) j(1) notin by (simp add: cn)
    next
      case 2
      then show ?thesis using e(5) by (auto simp: cn)
    next
      case 3
      then show ?thesis using e(5) before [of "t + 1"] by (simp add: cn)
    qed
  qed
  moreover have "e ! x = d ! x" if "x \<noteq> j" "x \<notin> set (take (Suc k) ps)" for x
    using e(6) that by (simp add: tk cn)
  ultimately show ?case using step e(1,2) m by auto
qed

text \<open>Both loops together.\<close>

lemma moved_up_nth:
  "distinct ps \<Longrightarrow> m < length ps \<Longrightarrow> \<forall>p\<in>set ps. p < length d \<Longrightarrow>
    length (moved_up r d ps m) = length d \<and> moved_up r d ps m ! (ps ! m) = r \<and>
    (\<forall>t<m. moved_up r d ps m ! (ps ! t) = d ! (ps ! (t + 1))) \<and>
    (\<forall>x. x \<notin> set (take (m + 1) ps) \<longrightarrow> moved_up r d ps m ! x = d ! x)"
proof (induction r d ps m rule: moved_up.induct)
  case (1 r d p q ps m)
  let ?e = "d[p := d ! q]"
  have IH: "length (moved_up r ?e (q # ps) m) = length ?e \<and> moved_up r ?e (q # ps) m ! ((q # ps) ! m) = r \<and>
      (\<forall>t<m. moved_up r ?e (q # ps) m ! ((q # ps) ! t) = ?e ! ((q # ps) ! (t + 1))) \<and>
      (\<forall>x. x \<notin> set (take (m + 1) (q # ps)) \<longrightarrow> moved_up r ?e (q # ps) m ! x = ?e ! x)"
    using 1 by simp
  have p: "p \<notin> set (take (m + 1) (q # ps))" using "1.prems"(1) by (auto dest: in_set_takeD)
  have "moved_up r d (p # q # ps) (Suc m) ! ((p # q # ps) ! t) = d ! ((p # q # ps) ! (t + 1))" if t: "t < Suc m" for t
  proof (cases t)
    case 0
    then show ?thesis using IH p "1.prems"(3) by simp
  next
    case (Suc s)
    have "(q # ps) ! (s + 1) \<noteq> p" using "1.prems"(1,2) t Suc nth_mem [of "s + 1" "q # ps"] by auto
    then show ?thesis using IH t Suc by simp
  qed
  then show ?case using IH by auto
next
  case "2_1"
  then show ?case by (auto simp: nth_list_update)
next
  case "2_2"
  then show ?case by (auto simp: nth_list_update nth_Cons split: nat.splits)
qed simp_all

lemma in_take_nth: "x \<in> set (take (m + 1) xs) \<Longrightarrow> \<exists>t\<le>m. x = xs ! t"
  by (auto simp: in_set_conv_nth less_Suc_eq_le)

lemma good_path_ups: "good_path func nr d (i # ps) \<Longrightarrow> k + 1 < length (i # ps) \<Longrightarrow> up ((i # ps) ! (k + 1)) = (i # ps) ! k"
proof (induction ps arbitrary: i k)
  case (Cons j ps)
  then show ?case by (cases k) auto
qed simp

lemma sift_down_heap:
  assumes c: "calls_ok func" and h: "hole_at func (heap_nr h) Q (heap_data h ! pos) (heap_data h) pos"
  shows "\<exists>e. min_heap_sift_down func pos h = Some (h\<lparr>heap_data := e\<rparr>) \<and> length e = length (heap_data h) \<and>
    mset (take (heap_nr h) e) = mset (take (heap_nr h) (heap_data h)) \<and> heap_order func (heap_nr h) Q e"
proof -
  let ?d = "heap_data h" and ?nr = "heap_nr h"
  let ?ps = "sift_path func ?nr ?d pos"
  obtain qs where ps: "?ps = pos # qs" using sift_path_Cons by blast
  have good: "good_path func ?nr ?d (pos # qs)" using sift_path_good [OF c, of ?nr ?d pos] ps by simp
  have asc: "\<forall>j\<in>set qs. pos < j \<and> j < ?nr" and dist: "distinct (pos # qs)" using good_path_ascends [OF good] by auto
  have pos: "pos < ?nr" "?nr \<le> length ?d" using h by (auto simp: hole_at_def)
  have nr: "\<forall>p\<in>set (pos # qs). p < ?nr" using asc pos by auto
  have ups: "\<forall>k. k + 1 < length (pos # qs) \<longrightarrow> up ((pos # qs) ! (k + 1)) = (pos # qs) ! k"
    using good_path_ups [OF good] by blast
  have last: "last (pos # qs) = (pos # qs) ! length qs" by (simp add: last_conv_nth)
  obtain m where m: "sift_back func ?d pos (last (pos # qs)) = Some ((pos # qs) ! m)" "stops_at func (?d ! pos) ?d (pos # qs) m"
    using sift_back_finds [OF ups dist, of "length qs" func ?d] last by auto
  have ml: "m < length (pos # qs)" using m(2) by (simp add: stops_at_def)
  have jm: "(pos # qs) ! m < ?nr" "(pos # qs) ! m \<notin> set (take m (pos # qs))"
    using nr nth_mem [OF ml] nth_notin_take [OF dist ml] by blast+
  obtain e where e: "sift_exchange func pos ((pos # qs) ! m) ((pos # qs) ! m) ?d = Some e" "length e = length ?d"
    "mset (take ?nr e) = mset (take ?nr ?d)" "e ! ((pos # qs) ! m) = ?d ! (if m = 0 then (pos # qs) ! m else pos)"
    "\<forall>t<m. e ! ((pos # qs) ! t) = ?d ! (if t + 1 < m then (pos # qs) ! (t + 1) else (pos # qs) ! m)"
    "\<forall>x. x \<noteq> (pos # qs) ! m \<longrightarrow> x \<notin> set (take m (pos # qs)) \<longrightarrow> e ! x = ?d ! x"
    using sift_exchange_moves [OF c ups dist nr jm(1) ml jm(2) pos(2)] by auto
  have lens: "\<forall>p\<in>set (pos # qs). p < length ?d" using nr pos(2) by auto
  note mv = moved_up_nth [OF dist ml lens, of "?d ! pos"]
  have "e ! x = moved_up (?d ! pos) ?d (pos # qs) m ! x" if "x < length e" for x
  proof (cases "x \<in> set (take (m + 1) (pos # qs))")
    case True
    then obtain t where t: "t \<le> m" "x = (pos # qs) ! t" using in_take_nth [OF True] by blast
    show ?thesis
    proof (cases "t = m")
      case True
      then show ?thesis using t e(4) mv by (auto split: if_splits)
    next
      case False
      then have "t + 1 < m \<or> t + 1 = m" using t by linarith
      then show ?thesis using t e(5) mv False by auto
    qed
  next
    case False
    have "set (take (m + 1) (pos # qs)) = insert ((pos # qs) ! m) (set (take m (pos # qs)))"
      unfolding Suc_eq_plus1 [symmetric] take_Suc_conv_app_nth [OF ml] by auto
    then have "x \<noteq> (pos # qs) ! m" "x \<notin> set (take m (pos # qs))" using False by blast+
    then have "e ! x = ?d ! x" using e(6) by blast
    moreover have "moved_up (?d ! pos) ?d (pos # qs) m ! x = ?d ! x" using mv False by blast
    ultimately show ?thesis by simp
  qed
  then have "e = moved_up (?d ! pos) ?d (pos # qs) m" using mv e(2) by (intro nth_equalityI) auto
  then have "heap_order func ?nr Q e" using moved_up_heap [OF c good h m(2)] by simp
  moreover have "min_heap_sift_down func pos h = Some (h\<lparr>heap_data := e\<rparr>)"
    using m(1) e(1) sift_path_last [of func ?nr ?d pos] unfolding ps min_heap_sift_down_def by (simp add: Let_def)
  ultimately show ?thesis using e(2,3) by blast
qed

lemma sift_down_past: "heap_nr h \<le> pos \<Longrightarrow> min_heap_sift_down func pos h = Some h"
proof -
  assume "heap_nr h \<le> pos"
  then have l: "pos * 2 + 2 \<noteq> heap_nr h" "heap_nr h \<le> pos * 2 + 2" by auto
  then have "sift_leaf func (heap_nr h) (heap_data h) pos = pos" by (subst sift_leaf.simps) simp
  moreover have "sift_back func (heap_data h) pos pos = Some pos" by (subst sift_back.simps) simp
  moreover have "sift_exchange func pos pos pos (heap_data h) = Some (heap_data h)" by (subst sift_exchange.simps) simp
  ultimately show ?thesis using l by (simp add: min_heap_sift_down_def)
qed

end
