(* ===== verification/Heap_Facts.thy ===== *)
theory Heap_Facts
  imports Min_Heap
begin

text \<open>
  What the operations on array heaps do: each keeps the heap order and changes the multiset of the
  elements as a priority queue does.
\<close>

definition heap_ok :: "'a heap_calls \<Rightarrow> 'a min_heap \<Rightarrow> bool" where
  "heap_ok func h \<longleftrightarrow> heap_nr h \<le> heap_size h \<and> heap_size h \<le> length (heap_data h) \<and>
     heap_order func (heap_nr h) (\<lambda>q. True) (heap_data h)"

definition heap_elems :: "'a min_heap \<Rightarrow> 'a multiset" where
  "heap_elems h = mset (take (heap_nr h) (heap_data h))"

lemma heap_init:
  assumes "sz \<le> length (case d of Some d \<Rightarrow> d | None \<Rightarrow> pre)"
  shows "heap_ok func (min_heap_init d pre sz)" "heap_elems (min_heap_init d pre sz) = {#}"
  using assms by (simp_all add: min_heap_init_def heap_ok_def heap_order_def heap_elems_def)

lemma heap_elems_Suc: "n < length d \<Longrightarrow> mset (take (Suc n) d) = add_mset (d ! n) (mset (take n d))"
  by (simp add: take_Suc_conv_app_nth)

lemma heap_order_fewer: "heap_order func nr Q d \<Longrightarrow> n \<le> nr \<Longrightarrow> heap_order func n Q d"
  by (simp add: heap_order_def)

lemma hole_of_heap:
  assumes c: "calls_ok func" and o: "heap_order func nr (\<lambda>q. True) d" and idx: "idx < nr" "nr \<le> length d"
    and r: "0 < idx \<longrightarrow> below func (d ! up idx) r"
  shows "hole_at func nr (\<lambda>q. True) r (d[idx := r]) idx"
proof -
  have ord: "below func (d ! up x) (d ! x)" if "x < nr" "0 < x" for x using o that by (simp add: heap_order_def)
  have "below func (d[idx := r] ! up idx) (d[idx := r] ! x)" if "0 < idx" "x < nr" "0 < x" "up x = idx" for x
  proof -
    have "up idx < idx" "idx < x" using up_less that by auto
    then show ?thesis using ord [of idx] ord [of x] that idx below_trans [OF c, of "d ! up idx" "d ! idx"] by simp
  qed
  moreover have "below func (d[idx := r] ! up x) (d[idx := r] ! x)" if "x < nr" "0 < x" "up x \<noteq> idx" "x \<noteq> idx" for x
    using ord [of x] that by simp
  moreover have "below func (d[idx := r] ! up idx) r" if "0 < idx"
    using r that up_less [OF that] by simp
  ultimately show ?thesis using idx by (simp add: hole_at_def)
qed

subsection \<open>Adding and looking\<close>

lemma heap_push:
  assumes c: "calls_ok func" and h: "heap_ok func h" and room: "heap_nr h < heap_size h"
  shows "\<exists>h'. min_heap_push func e h = (True, h') \<and> heap_ok func h' \<and> heap_elems h' = add_mset e (heap_elems h) \<and>
    heap_size h' = heap_size h"
proof -
  let ?n = "heap_nr h" and ?d = "(heap_data h)[heap_nr h := e]"
  have len: "?n < length (heap_data h)" using h room by (simp add: heap_ok_def)
  have "heap_but func (Suc ?n) ?n ?d"
    unfolding heap_but_def
  proof (intro conjI allI impI)
    fix i
    assume i: "i < Suc ?n" "0 < i"
    note u = up_less [OF i(2)]
    show "below func (?d ! up i) (?d ! i)" if "i \<noteq> ?n"
      using h i u that by (simp add: heap_ok_def heap_order_def)
    show "below func (?d ! up ?n) (?d ! i)" if "up i = ?n" using u i(1) that by simp
  qed
  from sift_up_heap [OF c this] have s: "heap_order func (Suc ?n) (\<lambda>q. True) (min_heap_sift_up func ?n ?d)"
    "length (min_heap_sift_up func ?n ?d) = length ?d" "mset (take (Suc ?n) (min_heap_sift_up func ?n ?d)) = mset (take (Suc ?n) ?d)"
    using len by auto
  have "mset (take (Suc ?n) ?d) = add_mset e (heap_elems h)"
    using heap_elems_Suc [of ?n ?d] len by (simp add: heap_elems_def)
  then show ?thesis using s room h by (simp add: min_heap_push_def Let_def heap_ok_def heap_elems_def)
qed

lemma heap_push_full: "heap_size h \<le> heap_nr h \<Longrightarrow> min_heap_push func e h = (False, h)"
  by (simp add: min_heap_push_def)

lemma heap_peek:
  assumes c: "calls_ok func" and h: "heap_ok func h"
  shows "min_heap_peek h = (if heap_elems h = {#} then None else Some (heap_data h ! 0))"
    "heap_elems h \<noteq> {#} \<Longrightarrow> heap_data h ! 0 \<in># heap_elems h \<and> (\<forall>y\<in>#heap_elems h. below func (heap_data h ! 0) y)"
proof -
  have len: "heap_nr h \<le> length (heap_data h)" using h by (simp add: heap_ok_def)
  have e: "heap_elems h = {#} \<longleftrightarrow> heap_nr h = 0" using len by (auto simp: heap_elems_def)
  then show "min_heap_peek h = (if heap_elems h = {#} then None else Some (heap_data h ! 0))" by (simp add: min_heap_peek_def)
  assume "heap_elems h \<noteq> {#}"
  then have n: "0 < heap_nr h" using e by simp
  have "heap_data h ! 0 \<in># heap_elems h"
    using n len in_set_conv_nth [of "heap_data h ! 0" "take (heap_nr h) (heap_data h)"] by (force simp: heap_elems_def)
  moreover have "\<forall>y\<in>#heap_elems h. below func (heap_data h ! 0) y"
    using heap_order_root [OF c] h by (auto simp: heap_ok_def heap_elems_def in_set_conv_nth)
  ultimately show "heap_data h ! 0 \<in># heap_elems h \<and> (\<forall>y\<in>#heap_elems h. below func (heap_data h ! 0) y)" by blast
qed

subsection \<open>Taking out\<close>

text \<open>Sifting down an element put into a cell.\<close>

lemma heap_refill:
  assumes c: "calls_ok func" and o: "heap_order func (heap_nr h) (\<lambda>q. True) d" and idx: "idx < heap_nr h"
    and len: "heap_nr h \<le> heap_size h" "heap_size h \<le> length d" and r: "0 < idx \<longrightarrow> below func (d ! up idx) r"
  shows "\<exists>h'. min_heap_sift_down func idx (h\<lparr>heap_data := d[idx := r]\<rparr>) = Some h' \<and> heap_ok func h' \<and>
    heap_elems h' = mset (take (heap_nr h) (d[idx := r])) \<and> heap_nr h' = heap_nr h \<and> heap_size h' = heap_size h"
proof -
  let ?h = "h\<lparr>heap_data := d[idx := r]\<rparr>"
  have nr: "heap_nr h \<le> length d" using len by simp
  have "(d[idx := r]) ! idx = r" using idx nr by simp
  then have "hole_at func (heap_nr ?h) (\<lambda>q. True) (heap_data ?h ! idx) (heap_data ?h) idx"
    using hole_of_heap [OF c o idx nr r] by simp
  from sift_down_heap [OF c this] show ?thesis using len by (force simp: heap_ok_def heap_elems_def)
qed

lemma heap_pop:
  assumes c: "calls_ok func" and h: "heap_ok func h" and ne: "heap_elems h \<noteq> {#}"
  shows "\<exists>h'. min_heap_pop func h = Some (True, h') \<and> heap_ok func h' \<and> heap_elems h' = heap_elems h - {#heap_data h ! 0#} \<and>
    heap_size h' = heap_size h"
proof -
  let ?d = "heap_data h"
  have len: "heap_nr h \<le> heap_size h" "heap_size h \<le> length ?d" and o: "heap_order func (heap_nr h) (\<lambda>q. True) ?d"
    using h by (simp_all add: heap_ok_def)
  have "heap_nr h \<noteq> 0" using ne by (auto simp: heap_elems_def)
  then obtain n where n: "heap_nr h = Suc n" "n < length ?d" using len by (cases "heap_nr h") auto
  have fits: "n \<le> heap_size h" using n(1) len(1) by simp
  let ?h = "h\<lparr>heap_nr := n\<rparr>"
  have elems: "heap_elems h = add_mset (?d ! n) (mset (take n ?d))" using heap_elems_Suc [OF n(2)] n(1) by (simp add: heap_elems_def)
  have pop: "min_heap_pop func h = map_option (Pair True) (min_heap_sift_down func 0 (?h\<lparr>heap_data := ?d[0 := ?d ! n]\<rparr>))"
    using n(1) by (simp add: min_heap_pop_def Let_def)
  show ?thesis
  proof (cases "n = 0")
    case True
    then have "min_heap_pop func h = Some (True, ?h\<lparr>heap_data := ?d[0 := ?d ! n]\<rparr>)"
      unfolding pop by (subst sift_down_past) simp_all
    then show ?thesis using len True elems n by (simp add: heap_ok_def heap_order_def heap_elems_def)
  next
    case False
    have "heap_order func (heap_nr ?h) (\<lambda>q. True) ?d" using heap_order_fewer [OF o, of n] n(1) by simp
    from heap_refill [OF c this, of 0 "?d ! n"] False len fits
    obtain h' where h': "min_heap_sift_down func 0 (?h\<lparr>heap_data := ?d[0 := ?d ! n]\<rparr>) = Some h'" "heap_ok func h'"
      "heap_elems h' = mset (take n (?d[0 := ?d ! n]))" "heap_size h' = heap_size h" by auto
    have t: "0 < length (take n ?d)" "take n ?d ! 0 = ?d ! 0" using False n(2) by auto
    have "mset (take n (?d[0 := ?d ! n])) = add_mset (?d ! n) (mset (take n ?d) - {#?d ! 0#})"
      using mset_update [OF t(1), of "?d ! n"] t(2) by (simp add: take_update_swap)
    moreover have "?d ! 0 \<in># mset (take n ?d)" using t nth_mem [OF t(1)] by simp
    ultimately have "heap_elems h' = heap_elems h - {#?d ! 0#}" using h'(3) elems by simp
    then show ?thesis using pop h' by simp
  qed
qed

lemma heap_pop_empty: "heap_ok func h \<Longrightarrow> heap_elems h = {#} \<Longrightarrow> min_heap_pop func h = Some (False, h)"
  by (auto simp: min_heap_pop_def heap_elems_def heap_ok_def)

lemma heap_pop_push:
  assumes c: "calls_ok func" and h: "heap_ok func h" and ne: "heap_elems h \<noteq> {#}"
  shows "\<exists>h'. min_heap_pop_push func e h = Some h' \<and> heap_ok func h' \<and>
    heap_elems h' = add_mset e (heap_elems h - {#heap_data h ! 0#}) \<and> heap_size h' = heap_size h"
proof -
  let ?d = "heap_data h"
  have len: "heap_nr h \<le> heap_size h" "heap_size h \<le> length ?d" "0 < heap_nr h" using h ne by (auto simp: heap_ok_def heap_elems_def)
  have t: "0 < length (take (heap_nr h) ?d)" "take (heap_nr h) ?d ! 0 = ?d ! 0" using len by auto
  have "mset (take (heap_nr h) (?d[0 := e])) = add_mset e (heap_elems h - {#?d ! 0#})"
    using mset_update [OF t(1), of e] t(2) by (simp add: take_update_swap heap_elems_def)
  then show ?thesis using heap_refill [OF c, of h ?d 0 e] h len by (auto simp: heap_ok_def min_heap_pop_push_def)
qed

subsection \<open>Deleting anywhere\<close>

lemma heap_del:
  assumes c: "calls_ok func" and h: "heap_ok func h" and idx: "idx < heap_nr h"
  shows "\<exists>h'. min_heap_del func idx h = Some (True, h') \<and> heap_ok func h' \<and> heap_elems h' = heap_elems h - {#heap_data h ! idx#} \<and>
    heap_size h' = heap_size h"
proof -
  let ?d = "heap_data h"
  have len: "heap_nr h \<le> heap_size h" "heap_size h \<le> length ?d" and o: "heap_order func (heap_nr h) (\<lambda>q. True) ?d"
    using h by (simp_all add: heap_ok_def)
  obtain n where n: "heap_nr h = Suc n" "n < length ?d" using idx len by (cases "heap_nr h") auto
  have fits: "n \<le> heap_size h" using n(1) len(1) by simp
  let ?h = "h\<lparr>heap_nr := n\<rparr>"
  have ord: "below func (?d ! up x) (?d ! x)" if "x < Suc n" "0 < x" for x using o that n(1) by (simp add: heap_order_def)
  show ?thesis
  proof (cases "idx = n")
    case True
    then have "min_heap_del func idx h = Some (True, ?h)" using n(1) by (simp add: min_heap_del_def Let_def)
    moreover have "heap_order func n (\<lambda>q. True) ?d" using heap_order_fewer [OF o, of n] n(1) by simp
    moreover have "heap_elems h = add_mset (?d ! n) (mset (take n ?d))"
      using heap_elems_Suc [OF n(2)] n(1) by (simp add: heap_elems_def)
    ultimately show ?thesis using True len fits by (simp add: heap_ok_def heap_elems_def)
  next
    case False
    then have i: "idx < n" using idx n(1) by simp
    let ?y = "?d ! n"
    let ?c = "swap_cells func idx n ?d"
    have cn: "?c ! x = (if x = n then ?d ! idx else if x = idx then ?y else ?d ! x)" for x
      using n(2) i by (auto simp: swap_cells_eq [OF c] nth_list_update)
    have "mset (take (Suc n) ?c) = mset (take (Suc n) ?d)"
      unfolding swap_cells_eq [OF c] using i n(2) by (intro take_swap) auto
    moreover have "mset (take (Suc n) ?c) = add_mset (?d ! idx) (mset (take n ?c))"
      using heap_elems_Suc [of n ?c] n(2) by (simp add: cn)
    ultimately have "heap_elems h = add_mset (?d ! idx) (mset (take n ?c))" using n(1) by (simp add: heap_elems_def)
    then have rest: "mset (take n ?c) = heap_elems h - {#?d ! idx#}" by simp
    have del: "min_heap_del func idx h =
        map_option (Pair True) (min_heap_sift_down func idx (?h\<lparr>heap_data := min_heap_sift_up func idx ?c\<rparr>))"
      using n(1) False by (simp add: min_heap_del_def Let_def)
    show ?thesis
    proof (cases "0 < idx \<and> \<not> call_less func (?d ! up idx) ?y")
      case True
      have u: "up idx < idx" using True by (simp add: up_less)
      have y: "below func ?y (?d ! up idx)" using True by (simp add: below_def)
      have "heap_but func n idx ?c"
        unfolding heap_but_def
      proof (intro conjI allI impI)
        fix x
        assume x: "x < n" "0 < x"
        note ux = up_less [OF x(2)]
        have child: "below func (?d ! up idx) (?d ! x)" if "up x = idx"
          using ord [of x] ord [of idx] x i True below_trans [OF c, of "?d ! up idx" "?d ! idx"] that by simp
        show "below func (?c ! up x) (?c ! x)" if "x \<noteq> idx"
          using ord [of x] x ux that i child below_trans [OF c y] by (auto simp: cn)
        show "below func (?c ! up idx) (?c ! x)" if "up x = idx"
          using child [OF that] that ux x u i by (simp add: cn)
      qed
      from sift_up_heap [OF c this i] n(2) obtain e where e: "min_heap_sift_up func idx ?c = e"
        "heap_order func n (\<lambda>q. True) e" "length e = length ?d" "mset (take n e) = mset (take n ?c)" by auto
      have "0 < idx \<longrightarrow> below func (e ! up idx) (e ! idx)" using e(2) i by (simp add: heap_order_def)
      from heap_refill [OF c, of ?h e idx "e ! idx"] this e(2,3) i len fits
      obtain h' where "min_heap_sift_down func idx (?h\<lparr>heap_data := e\<rparr>) = Some h'" "heap_ok func h'"
        "heap_elems h' = mset (take n e)" "heap_size h' = heap_size h" by auto
      then show ?thesis unfolding del using e rest by simp
    next
      case stays: False
      have "min_heap_sift_up func idx ?c = ?c"
        using stays i up_less [of idx] by (subst min_heap_sift_up.simps) (auto simp: Let_def cn up_def)
      moreover have "?c = (?d[n := ?d ! idx])[idx := ?y]"
        unfolding swap_cells_eq [OF c] using False by (simp add: list_update_swap)
      moreover have "\<exists>h'. min_heap_sift_down func idx (?h\<lparr>heap_data := (?d[n := ?d ! idx])[idx := ?y]\<rparr>) = Some h' \<and> heap_ok func h' \<and>
          heap_elems h' = mset (take (heap_nr ?h) ((?d[n := ?d ! idx])[idx := ?y])) \<and> heap_nr h' = heap_nr ?h \<and> heap_size h' = heap_size ?h"
      proof (rule heap_refill [OF c])
        show "heap_order func (heap_nr ?h) (\<lambda>q. True) (?d[n := ?d ! idx])"
          unfolding heap_order_def
        proof (intro allI impI)
          fix x
          assume x: "x < heap_nr ?h" "0 < x"
          then show "below func (?d[n := ?d ! idx] ! up x) (?d[n := ?d ! idx] ! x)" using ord [of x] up_less [of x] by simp
        qed
        show "0 < idx \<longrightarrow> below func (?d[n := ?d ! idx] ! up idx) ?y"
          using stays i up_less [of idx] less_below [OF c] by auto
      qed (use i len fits in auto)
      ultimately show ?thesis unfolding del using rest by auto
    qed
  qed
qed

subsection \<open>Building a heap\<close>

lemma heapify_loop_heap:
  assumes c: "calls_ok func"
  shows "k \<le> heap_nr h div 2 \<Longrightarrow> heap_nr h \<le> length (heap_data h) \<Longrightarrow> heap_order func (heap_nr h) (\<lambda>q. k \<le> q) (heap_data h) \<Longrightarrow>
    \<exists>e. heapify_loop func k h = Some (h\<lparr>heap_data := e\<rparr>) \<and> length e = length (heap_data h) \<and>
      mset (take (heap_nr h) e) = mset (take (heap_nr h) (heap_data h)) \<and> heap_order func (heap_nr h) (\<lambda>q. True) e"
proof (induction k arbitrary: h)
  case (Suc k)
  have "k < heap_nr h" using Suc.prems(1) by simp
  moreover have "\<not> k \<le> up k" if "0 < k" using up_less [OF that] by simp
  ultimately have "hole_at func (heap_nr h) (\<lambda>q. k \<le> q) (heap_data h ! k) (heap_data h) k"
    using Suc.prems(2,3) by (auto simp: hole_at_def heap_order_def)
  from sift_down_heap [OF c this] obtain e where e: "min_heap_sift_down func k h = Some (h\<lparr>heap_data := e\<rparr>)"
    "length e = length (heap_data h)" "mset (take (heap_nr h) e) = mset (take (heap_nr h) (heap_data h))"
    "heap_order func (heap_nr h) (\<lambda>q. k \<le> q) e" by blast
  then show ?case using Suc.IH [of "h\<lparr>heap_data := e\<rparr>"] Suc.prems(1,2) by auto
next
  case 0
  then show ?case by (intro exI [of _ "heap_data h"]) simp
qed

lemma heap_heapify:
  assumes c: "calls_ok func" and len: "heap_nr h \<le> heap_size h" "heap_size h \<le> length (heap_data h)"
  shows "\<exists>h'. min_heapify_all func h = Some h' \<and> heap_ok func h' \<and> heap_elems h' = heap_elems h \<and> heap_size h' = heap_size h"
proof -
  have "\<not> heap_nr h div 2 \<le> up x" if "x < heap_nr h" "0 < x" for x using that by (auto simp: up_def)
  then have "heap_order func (heap_nr h) (\<lambda>q. heap_nr h div 2 \<le> q) (heap_data h)" by (auto simp: heap_order_def)
  from heapify_loop_heap [OF c order.refl _ this] len show ?thesis
    by (force simp: min_heapify_all_def heap_ok_def heap_elems_def)
qed

subsection \<open>A priority queue\<close>

text \<open>Taking the elements out one after the other.\<close>

fun drain :: "('q \<Rightarrow> 'a option) \<Rightarrow> ('q \<Rightarrow> 'q option) \<Rightarrow> nat \<Rightarrow> 'q \<Rightarrow> 'a list" where
  "drain peek pop 0 q = []"
| "drain peek pop (Suc n) q =
     (case (peek q, pop q) of (Some x, Some q') \<Rightarrow> x # drain peek pop n q' | _ \<Rightarrow> [])"

locale priority_queue =
  fixes peek :: "'q \<Rightarrow> 'a::linorder option" and pop :: "'q \<Rightarrow> 'q option" and ok :: "'q \<Rightarrow> bool" and elems :: "'q \<Rightarrow> 'a multiset"
  assumes peek_least: "ok q \<Longrightarrow> elems q \<noteq> {#} \<Longrightarrow> peek q = Some (Min_mset (elems q))"
    and pop_least: "ok q \<Longrightarrow> elems q \<noteq> {#} \<Longrightarrow> \<exists>q'. pop q = Some q' \<and> ok q' \<and> elems q' = elems q - {#Min_mset (elems q)#}"
begin

lemma drain_sorts: "ok q \<Longrightarrow> sorted (drain peek pop (size (elems q)) q) \<and> mset (drain peek pop (size (elems q)) q) = elems q"
proof (induction "size (elems q)" arbitrary: q)
  case (Suc n)
  then have ne: "elems q \<noteq> {#}" by auto
  let ?x = "Min_mset (elems q)"
  obtain q' where q': "pop q = Some q'" "ok q'" "elems q' = elems q - {#?x#}" using pop_least [OF Suc.prems ne] by blast
  have x: "?x \<in># elems q" using ne by simp
  then have n: "n = size (elems q')" using Suc.hyps(2) q'(3) by (simp add: size_Diff_singleton)
  have d: "drain peek pop (size (elems q)) q = ?x # drain peek pop n q'"
    using Suc.hyps(2) peek_least [OF Suc.prems ne] q'(1) by (metis drain.simps(2) option.simps(5) prod.case)
  note IH = Suc.hyps(1) [OF n q'(2), folded n]
  have "set_mset (elems q') \<subseteq> set_mset (elems q)" using q'(3) by (auto dest: in_diffD)
  then have "\<forall>y\<in>set (drain peek pop n q'). ?x \<le> y" using IH by (metis Min_le finite_set_mset set_mset_mset subsetD)
  then show ?case unfolding d using IH q'(3) x by simp
qed simp

end

text \<open>The heap of the code, over values ordered by \<open><\<close>.\<close>

definition lin_calls :: "'a::linorder heap_calls" where
  "lin_calls = \<lparr>call_less = (<), call_swp = (\<lambda>(x, y). (y, x))\<rparr>"

definition heap_next :: "'a::linorder min_heap \<Rightarrow> 'a min_heap option" where
  "heap_next h = (case min_heap_pop lin_calls h of Some (True, h') \<Rightarrow> Some h' | _ \<Rightarrow> None)"

lemma lin_calls_ok: "calls_ok lin_calls"
  by (auto simp: calls_ok_def lin_calls_def)

lemma lin_below: "below lin_calls x y \<longleftrightarrow> x \<le> y"
  by (auto simp: below_def lin_calls_def)

lemma heap_top_Min:
  fixes h :: "'a::linorder min_heap"
  assumes "heap_ok lin_calls h" "heap_elems h \<noteq> {#}"
  shows "heap_data h ! 0 = Min_mset (heap_elems h)"
  using heap_peek(2) [OF lin_calls_ok assms] by (intro Min_eqI [symmetric]) (auto simp: lin_below)

interpretation heap_queue: priority_queue min_heap_peek heap_next "heap_ok lin_calls" heap_elems
proof unfold_locales
  fix h :: "'a min_heap"
  assume h: "heap_ok lin_calls h" "heap_elems h \<noteq> {#}"
  show "min_heap_peek h = Some (Min_mset (heap_elems h))"
    using heap_peek(1) [OF lin_calls_ok h(1)] heap_top_Min [OF h] h(2) by simp
  show "\<exists>h'. heap_next h = Some h' \<and> heap_ok lin_calls h' \<and> heap_elems h' = heap_elems h - {#Min_mset (heap_elems h)#}"
    using heap_pop [OF lin_calls_ok h] heap_top_Min [OF h] by (auto simp: heap_next_def)
qed

end
