(* ===== verification/Ptr_Ring.thy ===== *)
theory Ptr_Ring
  imports Errno
begin

text \<open>
  Rings of pointers between producers and consumers (kheaders/include/linux/ptr\_ring.h). A pointer is a word
  and NULL is 0; positions are ints that are never negative in a ring, and are natural numbers here; an
  array is its address with its cells, and NULL is the address 0 with none. An operation that reads or writes outside of the array, or waits for a
  lock it never gets, or does not end, is \<open>None\<close>. The spinlock operations are the arguments
  \<open>spin_calls\<close>, the allocator of zeroed arrays is the argument \<open>alloc\<close>, \<open>destroy\<close> says whether a callback is given,
  and the pointers handed to it are in the result in their order. Two underscores before a name are
  the prefix \<open>plain\<close>.
\<close>

subsection \<open>The ring and its cells\<close>

record 'l ptr_ring =
  producer :: nat
  producer_lock :: 'l
  consumer_head :: nat
  consumer_tail :: nat
  consumer_lock :: 'l
  ring_size :: nat
  ring_batch :: nat
  queue_addr :: u64
  ring_queue :: "u64 list"

text \<open>What the allocator gives: the address of an array and its cells.\<close>

type_synonym ring_array = "u64 \<times> u64 list"

definition slot :: "'l ptr_ring \<Rightarrow> nat \<Rightarrow> u64 option" where
  "slot r i = (if i < length (ring_queue r) then Some (ring_queue r ! i) else None)"

definition put_slot :: "'l ptr_ring \<Rightarrow> nat \<Rightarrow> u64 \<Rightarrow> 'l ptr_ring option" where
  "put_slot r i v = (if i < length (ring_queue r) then Some (r\<lparr>ring_queue := (ring_queue r)[i := v]\<rparr>) else None)"

subsection \<open>Without the locks\<close>

definition plain_ptr_ring_full :: "'l ptr_ring \<Rightarrow> bool option" where
  "plain_ptr_ring_full r = map_option (\<lambda>v. v \<noteq> 0) (slot r (producer r))"

definition produce_end :: "'l ptr_ring \<Rightarrow> 'l ptr_ring" where
  "produce_end r =
     (let r = r\<lparr>producer := producer r + 1\<rparr> in if producer r \<ge> ring_size r then r\<lparr>producer := 0\<rparr> else r)"

definition plain_ptr_ring_produce :: "u64 \<Rightarrow> 'l ptr_ring \<Rightarrow> (int \<times> 'l ptr_ring) option" where
  "plain_ptr_ring_produce ptr r =
     (if ring_size r = 0 then Some (- ENOSPC, r)
      else Option.bind (slot r (producer r)) (\<lambda>v.
        if v \<noteq> 0 then Some (- ENOSPC, r)
        else map_option (\<lambda>r. (0, produce_end r)) (put_slot r (producer r) ptr)))"

definition plain_ptr_ring_peek :: "'l ptr_ring \<Rightarrow> u64 option" where
  "plain_ptr_ring_peek r = (if ring_size r \<noteq> 0 then slot r (consumer_head r) else Some 0)"

definition plain_ptr_ring_empty :: "'l ptr_ring \<Rightarrow> bool option" where
  "plain_ptr_ring_empty r =
     (if ring_size r \<noteq> 0 then map_option (\<lambda>v. v = 0) (slot r (consumer_head r)) else Some True)"

text \<open>\<open>while (head >= tail) queue[head--] = NULL\<close>, with \<open>head + 1\<close> as the argument.\<close>

fun clear_down :: "nat \<Rightarrow> nat \<Rightarrow> 'l ptr_ring \<Rightarrow> 'l ptr_ring option" where
  "clear_down final 0 r = Some r"
| "clear_down final (Suc h) r = (if h \<ge> final then Option.bind (put_slot r h 0) (clear_down final h) else Some r)"

text \<open>Whether the cells from the tail on are cleared now, and what is left when they are, or are not.\<close>

definition discard_clears :: "'l ptr_ring \<Rightarrow> bool" where
  "discard_clears r \<longleftrightarrow>
     (let new = consumer_head r + 1 in int new - int (consumer_tail r) \<ge> int (ring_batch r) \<or> new \<ge> ring_size r)"

definition discard_end :: "bool \<Rightarrow> 'l ptr_ring \<Rightarrow> 'l ptr_ring" where
  "discard_end cleared r =
     (let new = consumer_head r + 1;
          r = (if cleared then r\<lparr>consumer_tail := new\<rparr> else r)
      in if new \<ge> ring_size r then r\<lparr>consumer_tail := 0, consumer_head := 0\<rparr> else r\<lparr>consumer_head := new\<rparr>)"

definition plain_ptr_ring_discard_one :: "'l ptr_ring \<Rightarrow> 'l ptr_ring option" where
  "plain_ptr_ring_discard_one r =
     (if discard_clears r then map_option (discard_end True) (clear_down (consumer_tail r) (consumer_head r + 1) r)
      else Some (discard_end False r))"

lemmas discard_defs = plain_ptr_ring_discard_one_def discard_clears_def discard_end_def Let_def

definition plain_ptr_ring_consume :: "'l ptr_ring \<Rightarrow> (u64 \<times> 'l ptr_ring) option" where
  "plain_ptr_ring_consume r =
     Option.bind (plain_ptr_ring_peek r) (\<lambda>ptr.
       if ptr \<noteq> 0 then map_option (Pair ptr) (plain_ptr_ring_discard_one r) else Some (0, r))"

text \<open>\<open>i\<close> counts up, the first argument is \<open>n - i\<close>.\<close>

fun batched_loop :: "nat \<Rightarrow> nat \<Rightarrow> u64 list \<Rightarrow> 'l ptr_ring \<Rightarrow> ((nat \<times> u64 list) \<times> 'l ptr_ring) option" where
  "batched_loop 0 i array r = Some ((i, array), r)"
| "batched_loop (Suc k) i array r = Option.bind (plain_ptr_ring_consume r) (\<lambda>(ptr, r).
     if ptr = 0 then Some ((i, array), r)
     else if i < length array then batched_loop k (i + 1) (array[i := ptr]) r else None)"

definition plain_ptr_ring_consume_batched ::
  "u64 list \<Rightarrow> nat \<Rightarrow> 'l ptr_ring \<Rightarrow> ((nat \<times> u64 list) \<times> 'l ptr_ring) option" where
  "plain_ptr_ring_consume_batched array n r = batched_loop n 0 array r"

definition plain_PTR_RING_PEEK_CALL :: "'l ptr_ring \<Rightarrow> (u64 \<Rightarrow> 'a) \<Rightarrow> 'a option" where
  "plain_PTR_RING_PEEK_CALL r f = map_option f (plain_ptr_ring_peek r)"

subsection \<open>Under a lock\<close>

record 'l spin_calls =
  spin_lock :: "'l \<Rightarrow> 'l option"
  spin_unlock :: "'l \<Rightarrow> 'l option"
  spin_lock_irq :: "'l \<Rightarrow> 'l option"
  spin_unlock_irq :: "'l \<Rightarrow> 'l option"
  spin_lock_bh :: "'l \<Rightarrow> 'l option"
  spin_unlock_bh :: "'l \<Rightarrow> 'l option"
  spin_lock_irqsave :: "'l \<Rightarrow> (u64 \<times> 'l) option"
  spin_unlock_irqrestore :: "u64 \<Rightarrow> 'l \<Rightarrow> 'l option"
  spin_lock_init :: "'l \<Rightarrow> 'l"

type_synonym ('l, 'a) ring_op = "'l ptr_ring \<Rightarrow> ('a \<times> 'l ptr_ring) option"

text \<open>An operation between taking and giving back a lock; the flags saved by the first are given to the second.\<close>

definition under_producer :: "('l \<Rightarrow> ('f \<times> 'l) option) \<Rightarrow> ('f \<Rightarrow> 'l \<Rightarrow> 'l option) \<Rightarrow> ('l, 'a) ring_op \<Rightarrow> ('l, 'a) ring_op" where
  "under_producer lock unlock body r =
     Option.bind (lock (producer_lock r)) (\<lambda>(flags, l).
     Option.bind (body (r\<lparr>producer_lock := l\<rparr>)) (\<lambda>(ret, r).
     map_option (\<lambda>l. (ret, r\<lparr>producer_lock := l\<rparr>)) (unlock flags (producer_lock r))))"

definition under_consumer :: "('l \<Rightarrow> ('f \<times> 'l) option) \<Rightarrow> ('f \<Rightarrow> 'l \<Rightarrow> 'l option) \<Rightarrow> ('l, 'a) ring_op \<Rightarrow> ('l, 'a) ring_op" where
  "under_consumer lock unlock body r =
     Option.bind (lock (consumer_lock r)) (\<lambda>(flags, l).
     Option.bind (body (r\<lparr>consumer_lock := l\<rparr>)) (\<lambda>(ret, r).
     map_option (\<lambda>l. (ret, r\<lparr>consumer_lock := l\<rparr>)) (unlock flags (consumer_lock r))))"

definition no_flags :: "('l \<Rightarrow> 'l option) \<Rightarrow> 'l \<Rightarrow> (unit \<times> 'l) option" where
  "no_flags lock l = map_option (Pair ()) (lock l)"

text \<open>An operation that only reads the ring.\<close>

definition reads :: "('l ptr_ring \<Rightarrow> 'a option) \<Rightarrow> ('l, 'a) ring_op" where
  "reads body r = map_option (\<lambda>ret. (ret, r)) (body r)"

definition ptr_ring_full :: "'l spin_calls \<Rightarrow> ('l, bool) ring_op" where
  "ptr_ring_full S = under_producer (no_flags (spin_lock S)) (\<lambda>_. spin_unlock S) (reads plain_ptr_ring_full)"

definition ptr_ring_full_irq :: "'l spin_calls \<Rightarrow> ('l, bool) ring_op" where
  "ptr_ring_full_irq S = under_producer (no_flags (spin_lock_irq S)) (\<lambda>_. spin_unlock_irq S) (reads plain_ptr_ring_full)"

definition ptr_ring_full_any :: "'l spin_calls \<Rightarrow> ('l, bool) ring_op" where
  "ptr_ring_full_any S = under_producer (spin_lock_irqsave S) (spin_unlock_irqrestore S) (reads plain_ptr_ring_full)"

definition ptr_ring_full_bh :: "'l spin_calls \<Rightarrow> ('l, bool) ring_op" where
  "ptr_ring_full_bh S = under_producer (no_flags (spin_lock_bh S)) (\<lambda>_. spin_unlock_bh S) (reads plain_ptr_ring_full)"

definition ptr_ring_produce :: "'l spin_calls \<Rightarrow> u64 \<Rightarrow> ('l, int) ring_op" where
  "ptr_ring_produce S ptr = under_producer (no_flags (spin_lock S)) (\<lambda>_. spin_unlock S) (plain_ptr_ring_produce ptr)"

definition ptr_ring_produce_irq :: "'l spin_calls \<Rightarrow> u64 \<Rightarrow> ('l, int) ring_op" where
  "ptr_ring_produce_irq S ptr =
     under_producer (no_flags (spin_lock_irq S)) (\<lambda>_. spin_unlock_irq S) (plain_ptr_ring_produce ptr)"

definition ptr_ring_produce_any :: "'l spin_calls \<Rightarrow> u64 \<Rightarrow> ('l, int) ring_op" where
  "ptr_ring_produce_any S ptr =
     under_producer (spin_lock_irqsave S) (spin_unlock_irqrestore S) (plain_ptr_ring_produce ptr)"

definition ptr_ring_produce_bh :: "'l spin_calls \<Rightarrow> u64 \<Rightarrow> ('l, int) ring_op" where
  "ptr_ring_produce_bh S ptr =
     under_producer (no_flags (spin_lock_bh S)) (\<lambda>_. spin_unlock_bh S) (plain_ptr_ring_produce ptr)"

definition ptr_ring_empty :: "'l spin_calls \<Rightarrow> ('l, bool) ring_op" where
  "ptr_ring_empty S = under_consumer (no_flags (spin_lock S)) (\<lambda>_. spin_unlock S) (reads plain_ptr_ring_empty)"

definition ptr_ring_empty_irq :: "'l spin_calls \<Rightarrow> ('l, bool) ring_op" where
  "ptr_ring_empty_irq S = under_consumer (no_flags (spin_lock_irq S)) (\<lambda>_. spin_unlock_irq S) (reads plain_ptr_ring_empty)"

definition ptr_ring_empty_any :: "'l spin_calls \<Rightarrow> ('l, bool) ring_op" where
  "ptr_ring_empty_any S = under_consumer (spin_lock_irqsave S) (spin_unlock_irqrestore S) (reads plain_ptr_ring_empty)"

definition ptr_ring_empty_bh :: "'l spin_calls \<Rightarrow> ('l, bool) ring_op" where
  "ptr_ring_empty_bh S = under_consumer (no_flags (spin_lock_bh S)) (\<lambda>_. spin_unlock_bh S) (reads plain_ptr_ring_empty)"

definition ptr_ring_consume :: "'l spin_calls \<Rightarrow> ('l, u64) ring_op" where
  "ptr_ring_consume S = under_consumer (no_flags (spin_lock S)) (\<lambda>_. spin_unlock S) plain_ptr_ring_consume"

definition ptr_ring_consume_irq :: "'l spin_calls \<Rightarrow> ('l, u64) ring_op" where
  "ptr_ring_consume_irq S = under_consumer (no_flags (spin_lock_irq S)) (\<lambda>_. spin_unlock_irq S) plain_ptr_ring_consume"

definition ptr_ring_consume_any :: "'l spin_calls \<Rightarrow> ('l, u64) ring_op" where
  "ptr_ring_consume_any S = under_consumer (spin_lock_irqsave S) (spin_unlock_irqrestore S) plain_ptr_ring_consume"

definition ptr_ring_consume_bh :: "'l spin_calls \<Rightarrow> ('l, u64) ring_op" where
  "ptr_ring_consume_bh S = under_consumer (no_flags (spin_lock_bh S)) (\<lambda>_. spin_unlock_bh S) plain_ptr_ring_consume"

definition ptr_ring_consume_batched :: "'l spin_calls \<Rightarrow> u64 list \<Rightarrow> nat \<Rightarrow> ('l, nat \<times> u64 list) ring_op" where
  "ptr_ring_consume_batched S array n =
     under_consumer (no_flags (spin_lock S)) (\<lambda>_. spin_unlock S) (plain_ptr_ring_consume_batched array n)"

definition ptr_ring_consume_batched_irq :: "'l spin_calls \<Rightarrow> u64 list \<Rightarrow> nat \<Rightarrow> ('l, nat \<times> u64 list) ring_op" where
  "ptr_ring_consume_batched_irq S array n =
     under_consumer (no_flags (spin_lock_irq S)) (\<lambda>_. spin_unlock_irq S) (plain_ptr_ring_consume_batched array n)"

definition ptr_ring_consume_batched_any :: "'l spin_calls \<Rightarrow> u64 list \<Rightarrow> nat \<Rightarrow> ('l, nat \<times> u64 list) ring_op" where
  "ptr_ring_consume_batched_any S array n =
     under_consumer (spin_lock_irqsave S) (spin_unlock_irqrestore S) (plain_ptr_ring_consume_batched array n)"

definition ptr_ring_consume_batched_bh :: "'l spin_calls \<Rightarrow> u64 list \<Rightarrow> nat \<Rightarrow> ('l, nat \<times> u64 list) ring_op" where
  "ptr_ring_consume_batched_bh S array n =
     under_consumer (no_flags (spin_lock_bh S)) (\<lambda>_. spin_unlock_bh S) (plain_ptr_ring_consume_batched array n)"

definition PTR_RING_PEEK_CALL :: "'l spin_calls \<Rightarrow> (u64 \<Rightarrow> 'a) \<Rightarrow> ('l, 'a) ring_op" where
  "PTR_RING_PEEK_CALL S f =
     under_consumer (no_flags (spin_lock S)) (\<lambda>_. spin_unlock S) (reads (\<lambda>r. plain_PTR_RING_PEEK_CALL r f))"

definition PTR_RING_PEEK_CALL_IRQ :: "'l spin_calls \<Rightarrow> (u64 \<Rightarrow> 'a) \<Rightarrow> ('l, 'a) ring_op" where
  "PTR_RING_PEEK_CALL_IRQ S f =
     under_consumer (no_flags (spin_lock_irq S)) (\<lambda>_. spin_unlock_irq S) (reads (\<lambda>r. plain_PTR_RING_PEEK_CALL r f))"

definition PTR_RING_PEEK_CALL_BH :: "'l spin_calls \<Rightarrow> (u64 \<Rightarrow> 'a) \<Rightarrow> ('l, 'a) ring_op" where
  "PTR_RING_PEEK_CALL_BH S f =
     under_consumer (no_flags (spin_lock_bh S)) (\<lambda>_. spin_unlock_bh S) (reads (\<lambda>r. plain_PTR_RING_PEEK_CALL r f))"

definition PTR_RING_PEEK_CALL_ANY :: "'l spin_calls \<Rightarrow> (u64 \<Rightarrow> 'a) \<Rightarrow> ('l, 'a) ring_op" where
  "PTR_RING_PEEK_CALL_ANY S f =
     under_consumer (spin_lock_irqsave S) (spin_unlock_irqrestore S) (reads (\<lambda>r. plain_PTR_RING_PEEK_CALL r f))"

subsection \<open>Arrays and sizes\<close>

definition SMP_CACHE_BYTES :: nat where "SMP_CACHE_BYTES = 64"
definition KMALLOC_MAX_SIZE :: nat where "KMALLOC_MAX_SIZE = 2 ^ (10 + 12)"

definition plain_ptr_ring_init_queue_alloc :: "(nat \<Rightarrow> ring_array option) \<Rightarrow> u32 \<Rightarrow> ring_array option" where
  "plain_ptr_ring_init_queue_alloc alloc sz =
     (if unat sz > KMALLOC_MAX_SIZE div 8 then None else alloc (unat sz))"

definition plain_ptr_ring_set_size :: "nat \<Rightarrow> 'l ptr_ring \<Rightarrow> 'l ptr_ring" where
  "plain_ptr_ring_set_size sz r =
     (let r = r\<lparr>ring_size := sz, ring_batch := SMP_CACHE_BYTES * 2 div 8\<rparr> in
      if ring_batch r > ring_size r div 2 \<or> ring_batch r = 0 then r\<lparr>ring_batch := 1\<rparr> else r)"

text \<open>A size is an int that the allocation reads as unsigned: negative sizes are refused there.\<close>

definition ptr_ring_init :: "'l spin_calls \<Rightarrow> (nat \<Rightarrow> ring_array option) \<Rightarrow> s32 \<Rightarrow> 'l ptr_ring \<Rightarrow> int \<times> 'l ptr_ring" where
  "ptr_ring_init S alloc sz r =
     (case plain_ptr_ring_init_queue_alloc alloc sz of
        None \<Rightarrow> (- ENOMEM, r\<lparr>queue_addr := 0, ring_queue := []\<rparr>)
      | Some (addr, queue) \<Rightarrow>
          let r = plain_ptr_ring_set_size (unat sz) (r\<lparr>queue_addr := addr, ring_queue := queue\<rparr>) in
          (0, r\<lparr>producer := 0, consumer_head := 0, consumer_tail := 0,
                producer_lock := spin_lock_init S (producer_lock r), consumer_lock := spin_lock_init S (consumer_lock r)\<rparr>))"

subsection \<open>Giving pointers back\<close>

text \<open>The number of pointers that are left is in the result.\<close>

fun unconsume_loop :: "u64 list \<Rightarrow> nat \<Rightarrow> ('l, nat) ring_op" where
  "unconsume_loop batch 0 r = Some (0, r)"
| "unconsume_loop batch (Suc n) r =
     (let h = (if consumer_head r = 0 then ring_size r - 1 else consumer_head r - 1) in
      Option.bind (slot r h) (\<lambda>v.
        if v \<noteq> 0 then Some (Suc n, r)
        else if n < length batch then
          Option.bind (put_slot r h (batch ! n)) (\<lambda>r. unconsume_loop batch n (r\<lparr>consumer_tail := h, consumer_head := h\<rparr>))
        else None))"

text \<open>The pointers destroyed are the last \<open>n\<close> of \<open>batch\<close> that are left, from the end.\<close>

definition unconsume_locked :: "u64 list \<Rightarrow> nat \<Rightarrow> ('l, u64 list) ring_op" where
  "unconsume_locked batch n r =
     map_option (\<lambda>(n, r). (rev (take n batch), r))
       (if ring_size r = 0 then Some (n, r)
        else Option.bind (clear_down (consumer_tail r) (consumer_head r) r) (\<lambda>r.
          unconsume_loop batch n (r\<lparr>consumer_tail := consumer_head r\<rparr>)))"

definition ptr_ring_unconsume :: "'l spin_calls \<Rightarrow> u64 list \<Rightarrow> nat \<Rightarrow> ('l, u64 list) ring_op" where
  "ptr_ring_unconsume S batch n =
     under_consumer (spin_lock_irqsave S) (spin_unlock_irqrestore S)
       (under_producer (no_flags (spin_lock S)) (\<lambda>_. spin_unlock S) (unconsume_locked batch n))"

subsection \<open>Changing the array\<close>

text \<open>The pointers taken out go to the new array, then to \<open>destroy\<close>.\<close>

partial_function (option) swap_loop ::
  "bool \<Rightarrow> nat \<Rightarrow> nat \<Rightarrow> u64 list \<Rightarrow> u64 list \<Rightarrow> 'l ptr_ring \<Rightarrow> (nat \<times> u64 list \<times> u64 list \<times> 'l ptr_ring) option" where
  "swap_loop destroy sz p queue gone r = Option.bind (plain_ptr_ring_consume r) (\<lambda>(ptr, r).
     if ptr = 0 then Some (p, queue, gone, r)
     else if p < sz then
       (if p < length queue then swap_loop destroy sz (p + 1) (queue[p := ptr]) gone r else None)
     else swap_loop destroy sz p queue (if destroy then gone @ [ptr] else gone) r)"

text \<open>The result is the address of the old array and the pointers destroyed.\<close>

definition plain_ptr_ring_swap_queue :: "bool \<Rightarrow> nat \<Rightarrow> ring_array \<Rightarrow> ('l, u64 \<times> u64 list) ring_op" where
  "plain_ptr_ring_swap_queue destroy sz new r =
     map_option (\<lambda>(p, queue, gone, r).
       let p = (if p \<ge> sz then 0 else p);
           r = (plain_ptr_ring_set_size sz r)\<lparr>producer := p, consumer_head := 0, consumer_tail := 0\<rparr>;
           old = queue_addr r
       in ((old, gone), r\<lparr>queue_addr := fst new, ring_queue := queue\<rparr>))
     (swap_loop destroy sz 0 (snd new) [] r)"

text \<open>The result is the return value, the arrays given to \<open>kvfree\<close> and the pointers destroyed.\<close>

definition ptr_ring_resize ::
  "'l spin_calls \<Rightarrow> (nat \<Rightarrow> ring_array option) \<Rightarrow> s32 \<Rightarrow> bool \<Rightarrow> ('l, int \<times> u64 list \<times> u64 list) ring_op" where
  "ptr_ring_resize S alloc sz destroy r =
     (case plain_ptr_ring_init_queue_alloc alloc sz of
        None \<Rightarrow> Some ((- ENOMEM, [], []), r)
      | Some queue \<Rightarrow>
          map_option (\<lambda>((old, gone), r). ((0, [old], gone), r))
            (under_consumer (spin_lock_irqsave S) (spin_unlock_irqrestore S)
               (under_producer (no_flags (spin_lock S)) (\<lambda>_. spin_unlock S)
                  (plain_ptr_ring_swap_queue destroy (unat sz) queue)) r))"

text \<open>
  The allocations of the first loop: \<open>allocs i\<close> is the allocator at the \<open>i\<close>-th. The arrays got, and whether all
  were.
\<close>

fun alloc_loop :: "(nat \<Rightarrow> nat \<Rightarrow> ring_array option) \<Rightarrow> u32 \<Rightarrow> nat \<Rightarrow> nat \<Rightarrow> ring_array list \<Rightarrow> bool \<times> ring_array list" where
  "alloc_loop allocs sz i 0 queues = (True, queues)"
| "alloc_loop allocs sz i (Suc k) queues =
     (case plain_ptr_ring_init_queue_alloc (allocs i) sz of
        None \<Rightarrow> (False, queues)
      | Some queue \<Rightarrow> alloc_loop allocs sz (i + 1) k (queues @ [queue]))"

fun swap_rings ::
  "'l spin_calls \<Rightarrow> bool \<Rightarrow> nat \<Rightarrow> ring_array list \<Rightarrow> 'l ptr_ring list \<Rightarrow> (u64 list \<times> u64 list \<times> 'l ptr_ring list) option" where
  "swap_rings S destroy sz (queue # queues) (r # rings) =
     Option.bind
       (under_consumer (no_flags (spin_lock_bh S)) (\<lambda>_. spin_unlock_bh S)
          (under_producer (no_flags (spin_lock S)) (\<lambda>_. spin_unlock S) (plain_ptr_ring_swap_queue destroy sz queue)) r)
       (\<lambda>((old, gone), r).
          map_option (\<lambda>(olds, gones, rings). (old # olds, gone @ gones, r # rings)) (swap_rings S destroy sz queues rings))"
| "swap_rings S destroy sz queues rings = Some ([], [], rings)"

text \<open>
  The array of arrays is given when \<open>room\<close>. When an allocation fails, those before it are freed, the last first.
\<close>

definition ptr_ring_resize_multiple_bh ::
  "'l spin_calls \<Rightarrow> bool \<Rightarrow> (nat \<Rightarrow> nat \<Rightarrow> ring_array option) \<Rightarrow> s32 \<Rightarrow> bool \<Rightarrow> 'l ptr_ring list \<Rightarrow>
     ((int \<times> u64 list \<times> u64 list) \<times> 'l ptr_ring list) option" where
  "ptr_ring_resize_multiple_bh S room allocs sz destroy rings =
     (if \<not> room then Some ((- ENOMEM, [], []), rings)
      else case alloc_loop allocs sz 0 (length rings) [] of
        (False, queues) \<Rightarrow> Some ((- ENOMEM, rev (map fst queues), []), rings)
      | (True, queues) \<Rightarrow>
          map_option (\<lambda>(olds, gone, rings). ((0, olds, gone), rings)) (swap_rings S destroy (unat sz) queues rings))"

subsection \<open>The end of a ring\<close>

partial_function (option) cleanup_loop :: "'l spin_calls \<Rightarrow> u64 list \<Rightarrow> ('l, u64 list) ring_op" where
  "cleanup_loop S gone r = Option.bind (ptr_ring_consume S r) (\<lambda>(ptr, r).
     if ptr = 0 then Some (gone, r) else cleanup_loop S (gone @ [ptr]) r)"

text \<open>The array freed and the pointers destroyed.\<close>

definition ptr_ring_cleanup :: "'l spin_calls \<Rightarrow> bool \<Rightarrow> ('l, u64 \<times> u64 list) ring_op" where
  "ptr_ring_cleanup S destroy r =
     map_option (\<lambda>(gone, r). ((queue_addr r, gone), r)) (if destroy then cleanup_loop S [] r else Some ([], r))"

end
