(* ===== verification/Ring_Facts.thy ===== *)
theory Ring_Facts
  imports Ptr_Ring
begin

text \<open>
  What the operations on pointer rings do. Read from the consumer's head on and around, the array holds the
  pointers in the ring, free cells, and cells whose pointers are consumed and that are not cleared yet.
\<close>

subsection \<open>Reading around\<close>

definition turned :: "nat \<Rightarrow> 'a list \<Rightarrow> 'a list" where
  "turned h xs = drop h xs @ take h xs"

lemma length_turned [simp]: "length (turned h xs) = length xs"
  by (simp add: turned_def)

lemma nth_turned:
  assumes "h \<le> length xs" "k < length xs"
  shows "turned h xs ! k = xs ! ((h + k) mod length xs)"
proof -
  have "turned h xs = rotate h xs" using assms(1) by (cases "h = length xs") (simp_all add: turned_def rotate_drop_take)
  then show ?thesis using assms(2) by (simp add: nth_rotate add.commute)
qed

lemma around_inj: "h \<le> n \<Longrightarrow> j < n \<Longrightarrow> k < n \<Longrightarrow> (h + j) mod n = (h + k) mod n \<Longrightarrow> j = (k :: nat)"
  by (auto simp: mod_if split: if_splits)

lemma turned_all: "length xs \<le> h \<Longrightarrow> turned 0 xs = turned h xs"
  by (simp add: turned_def)

lemma take_split: "t \<le> h \<Longrightarrow> take h xs = take t xs @ take (h - t) (drop t xs)"
  using take_add [of t "h - t" xs] by simp

lemma prefix_part: "as @ bs = cs @ ds \<Longrightarrow> length bs = length ds \<Longrightarrow> as = cs"
  by simp

text \<open>Clearing the cells from \<open>t\<close> to \<open>h\<close>, seen from \<open>h\<close>.\<close>

lemma turned_cleared:
  assumes "t \<le> h" "h \<le> length xs"
  shows "turned h (take t xs @ replicate (h - t) x @ drop h xs) = drop h xs @ take t xs @ replicate (h - t) x"
proof -
  obtain A where A: "A = take t xs @ replicate (h - t) x" by blast
  then have "length A = h" using assms by simp
  then have "turned h (A @ drop h xs) = drop h xs @ A" by (simp add: turned_def)
  then show ?thesis unfolding A append_assoc .
qed

lemma turned_update:
  assumes "h \<le> length xs" "k < length xs"
  shows "turned h (xs[(h + k) mod length xs := v]) = (turned h xs)[k := v]"
proof (rule nth_equalityI)
  fix j
  assume "j < length (turned h (xs[(h + k) mod length xs := v]))"
  then have j: "j < length xs" by simp
  have b: "(h + k) mod length xs < length xs" "(h + j) mod length xs < length xs" using assms j by (auto intro: mod_less_divisor)
  have "(h + j) mod length xs = (h + k) mod length xs \<longleftrightarrow> j = k" using around_inj [OF assms(1) j assms(2)] by auto
  with b show "turned h (xs[(h + k) mod length xs := v]) ! j = (turned h xs)[k := v] ! j"
    using assms j by (cases "j = k") (simp_all add: nth_turned)
qed simp

subsection \<open>What a ring holds\<close>

definition ring_holds :: "'l ptr_ring \<Rightarrow> u64 list \<Rightarrow> bool" where
  "ring_holds r q \<longleftrightarrow> length (ring_queue r) = ring_size r \<and> 0 < ring_batch r \<and>
     consumer_tail r \<le> consumer_head r \<and> consumer_head r < consumer_tail r + ring_batch r \<and>
     (if ring_size r = 0 then consumer_head r = 0 \<and> producer r = 0 \<and> q = []
      else consumer_head r < ring_size r \<and> producer r = (consumer_head r + length q) mod ring_size r) \<and>
     (\<exists>free stale. turned (consumer_head r) (ring_queue r) = q @ replicate free 0 @ stale \<and>
        length stale = consumer_head r - consumer_tail r \<and> 0 \<notin> set q \<and> 0 \<notin> set stale)"

definition ring_used :: "'l ptr_ring \<Rightarrow> u64 list \<Rightarrow> nat" where
  "ring_used r q = length q + (consumer_head r - consumer_tail r)"

lemma ring_holdsE:
  assumes "ring_holds r q" "0 < ring_size r"
  obtains free stale where "turned (consumer_head r) (ring_queue r) = q @ replicate free 0 @ stale"
    "length stale = consumer_head r - consumer_tail r" "0 \<notin> set q" "0 \<notin> set stale"
    "length (ring_queue r) = ring_size r" "length q + free + length stale = ring_size r"
    "consumer_tail r \<le> consumer_head r" "consumer_head r < ring_size r"
    "producer r = (consumer_head r + length q) mod ring_size r"
proof -
  from assms obtain free stale where f: "turned (consumer_head r) (ring_queue r) = q @ replicate free 0 @ stale"
    "length stale = consumer_head r - consumer_tail r" "0 \<notin> set q" "0 \<notin> set stale" by (auto simp: ring_holds_def)
  moreover have "length (ring_queue r) = ring_size r" using assms by (simp add: ring_holds_def)
  moreover from this have "length q + free + length stale = ring_size r" using arg_cong [OF f(1), of length] by simp
  ultimately show thesis using that assms by (simp add: ring_holds_def)
qed

lemma ring_holds_length:
  assumes h: "ring_holds r q"
  shows "length q \<le> ring_size r"
proof (cases "ring_size r = 0")
  case True
  then show ?thesis using h by (simp add: ring_holds_def)
next
  case False
  then have n: "0 < ring_size r" by simp
  show ?thesis by (rule ring_holdsE [OF h n]) simp
qed

lemma ring_slot_head:
  assumes "ring_holds r q" "0 < ring_size r"
  shows "slot r (consumer_head r) = Some (case q of [] \<Rightarrow> 0 | x # _ \<Rightarrow> x)"
proof -
  from ring_holdsE [OF assms] obtain free stale where h: "turned (consumer_head r) (ring_queue r) = q @ replicate free 0 @ stale"
    "length stale = consumer_head r - consumer_tail r" "length (ring_queue r) = ring_size r"
    "length q + free + length stale = ring_size r" "consumer_head r < ring_size r" by metis
  have "ring_queue r ! consumer_head r = (q @ replicate free 0 @ stale) ! 0"
    using nth_turned [of "consumer_head r" "ring_queue r" 0] h by simp
  moreover have "q = [] \<Longrightarrow> 0 < free" using h by (cases free) auto
  ultimately show ?thesis using h by (cases q) (auto simp: slot_def nth_append split: list.split)
qed

lemma ring_peek: "ring_holds r q \<Longrightarrow> plain_ptr_ring_peek r = Some (case q of [] \<Rightarrow> 0 | x # _ \<Rightarrow> x)"
  using ring_slot_head [of r q] by (auto simp: plain_ptr_ring_peek_def ring_holds_def)

lemma ring_nonzero: "ring_holds r q \<Longrightarrow> 0 \<notin> set q"
  by (auto simp: ring_holds_def)

lemma ring_empty: "ring_holds r q \<Longrightarrow> plain_ptr_ring_empty r = Some (q = [])"
  using ring_slot_head [of r q] ring_nonzero [of r q]
  by (cases "ring_size r = 0"; cases q) (auto simp: plain_ptr_ring_empty_def ring_holds_def)

subsection \<open>Producing\<close>

lemma ring_slot_producer:
  assumes "ring_holds r q" "0 < ring_size r"
  shows "\<exists>v. slot r (producer r) = Some v \<and> (v = 0 \<longleftrightarrow> ring_used r q < ring_size r)"
proof -
  from ring_holdsE [OF assms] obtain free stale where h: "turned (consumer_head r) (ring_queue r) = q @ replicate free 0 @ stale"
    "length stale = consumer_head r - consumer_tail r" "0 \<notin> set q" "0 \<notin> set stale" "length (ring_queue r) = ring_size r"
    "length q + free + length stale = ring_size r" "consumer_head r < ring_size r"
    "producer r = (consumer_head r + length q) mod ring_size r" by metis
  have u: "ring_used r q < ring_size r \<longleftrightarrow> 0 < free" using h by (auto simp: ring_used_def)
  have p: "producer r < ring_size r" using assms(2) h(8) by simp
  show ?thesis
  proof (cases "length q < ring_size r")
    case True
    then have "ring_queue r ! producer r = (q @ replicate free 0 @ stale) ! length q"
      using nth_turned [of "consumer_head r" "ring_queue r" "length q"] h by simp
    moreover have "free = 0 \<Longrightarrow> stale ! 0 \<in> set stale" using True h(6) by (intro nth_mem) auto
    ultimately show ?thesis using u p h(4,5) True by (cases free) (auto simp: slot_def nth_append)
  next
    case False
    then have "length q = ring_size r" "free = 0" using h by auto
    then have "producer r = consumer_head r" "free = 0" using h by auto
    moreover have "q \<noteq> []" using False assms(2) by auto
    ultimately show ?thesis using ring_slot_head [OF assms] h(3) u by (cases q) auto
  qed
qed

lemma ring_full: "ring_holds r q \<Longrightarrow> 0 < ring_size r \<Longrightarrow> plain_ptr_ring_full r = Some (ring_size r \<le> ring_used r q)"
  using ring_slot_producer [of r q] by (auto simp: plain_ptr_ring_full_def)

text \<open>What the operations without the locks leave alone.\<close>

definition same_frame :: "'l ptr_ring \<Rightarrow> 'l ptr_ring \<Rightarrow> bool" where
  "same_frame r r' \<longleftrightarrow> ring_size r' = ring_size r \<and> ring_batch r' = ring_batch r \<and> producer_lock r' = producer_lock r \<and>
     consumer_lock r' = consumer_lock r \<and> queue_addr r' = queue_addr r"

lemma same_frame_trans: "same_frame r s \<Longrightarrow> same_frame s t \<Longrightarrow> same_frame r t"
  by (simp add: same_frame_def)

lemma same_frame_refl [simp]: "same_frame r r"
  by (simp add: same_frame_def)

lemma ring_produce_full: "ring_holds r q \<Longrightarrow> ring_size r \<le> ring_used r q \<Longrightarrow> plain_ptr_ring_produce ptr r = Some (- ENOSPC, r)"
  using ring_slot_producer [of r q] by (cases "ring_size r = 0") (auto simp: plain_ptr_ring_produce_def)

lemma ring_produce:
  assumes h: "ring_holds r q" and room: "ring_used r q < ring_size r" and ptr: "ptr \<noteq> 0"
  shows "\<exists>r'. plain_ptr_ring_produce ptr r = Some (0, r') \<and> ring_holds r' (q @ [ptr]) \<and> same_frame r r' \<and>
    consumer_head r' = consumer_head r \<and> consumer_tail r' = consumer_tail r"
proof -
  have n: "0 < ring_size r" using room by simp
  from ring_holdsE [OF h n] obtain free stale where f: "turned (consumer_head r) (ring_queue r) = q @ replicate free 0 @ stale"
    "length stale = consumer_head r - consumer_tail r" "0 \<notin> set q" "0 \<notin> set stale" "length (ring_queue r) = ring_size r"
    "length q + free + length stale = ring_size r" "consumer_head r < ring_size r"
    "producer r = (consumer_head r + length q) mod ring_size r" by metis
  obtain k where k: "free = Suc k" using room f by (cases free) (auto simp: ring_used_def)
  let ?p = "producer r" and ?h = "consumer_head r"
  let ?Q = "(ring_queue r)[?p := ptr]"
  have p: "?p < ring_size r" using n f(8) by simp
  have "turned ?h ?Q = (turned ?h (ring_queue r))[length q := ptr]"
    using turned_update [of ?h "ring_queue r" "length q" ptr] f(5-8) k by simp
  also have "\<dots> = (q @ [ptr]) @ replicate k 0 @ stale" by (simp add: f(1) k list_update_append)
  finally have t: "turned ?h ?Q = (q @ [ptr]) @ replicate k 0 @ stale" .
  have e: "(if ?p + 1 \<ge> ring_size r then 0 else ?p + 1) = (?h + length (q @ [ptr])) mod ring_size r"
  proof -
    define m where "m = (?h + length q) mod ring_size r"
    have "(?h + length (q @ [ptr])) mod ring_size r = (if Suc m = ring_size r then 0 else Suc m)" by (simp add: m_def mod_Suc)
    moreover have "?p = m" using f(8) by (simp add: m_def)
    ultimately show ?thesis using p by auto
  qed
  let ?r = "r\<lparr>ring_queue := ?Q, producer := (?h + length (q @ [ptr])) mod ring_size r\<rparr>"
  have "plain_ptr_ring_produce ptr r = Some (0, r\<lparr>ring_queue := ?Q, producer := (if ?p + 1 \<ge> ring_size r then 0 else ?p + 1)\<rparr>)"
    using ring_slot_producer [OF h n] room n p f(5) by (auto simp: plain_ptr_ring_produce_def produce_end_def put_slot_def Let_def)
  then have "plain_ptr_ring_produce ptr r = Some (0, ?r)" unfolding e .
  moreover have "ring_holds ?r (q @ [ptr])"
    using h n ptr t f(2-5,7) unfolding ring_holds_def by (auto intro!: exI)
  ultimately show ?thesis by (simp add: same_frame_def)
qed

subsection \<open>Consuming\<close>

lemma clear_down_effect:
  "final \<le> h \<Longrightarrow> h \<le> length (ring_queue r) \<Longrightarrow>
   clear_down final h r = Some (r\<lparr>ring_queue := take final (ring_queue r) @ replicate (h - final) 0 @ drop h (ring_queue r)\<rparr>)"
proof (induction h arbitrary: r)
  case (Suc h)
  show ?case
  proof (cases "final = Suc h")
    case False
    then have f: "final \<le> h" "h < length (ring_queue r)" using Suc.prems by auto
    then have "drop h ((ring_queue r)[h := 0]) = 0 # drop (Suc h) (ring_queue r)"
      by (metis Cons_nth_drop_Suc drop_update_cancel length_list_update lessI nth_list_update_eq)
    then show ?thesis using Suc.IH [of "r\<lparr>ring_queue := (ring_queue r)[h := 0]\<rparr>"] f
      by (simp add: put_slot_def take_update_cancel Suc_diff_le replicate_app_Cons_same)
  qed simp
qed simp

lemma turned_Suc: "h < length xs \<Longrightarrow> turned (Suc h) xs = tl (turned h xs) @ [xs ! h]"
  by (simp add: turned_def take_Suc_conv_app_nth drop_Suc tl_drop Cons_nth_drop_Suc [symmetric] del: drop_Suc)

lemma ring_discard:
  assumes h: "ring_holds r (x # q)"
  shows "\<exists>r'. plain_ptr_ring_discard_one r = Some r' \<and> ring_holds r' q \<and> same_frame r r' \<and> producer r' = producer r \<and>
    ring_used r' q \<le> ring_used r (x # q)"
proof -
  have n: "0 < ring_size r" using h by (auto simp: ring_holds_def split: if_splits)
  from ring_holdsE [OF h n] obtain free stale where f: "turned (consumer_head r) (ring_queue r) = (x # q) @ replicate free 0 @ stale"
    "length stale = consumer_head r - consumer_tail r" "0 \<notin> set (x # q)" "0 \<notin> set stale" "length (ring_queue r) = ring_size r"
    "length (x # q) + free + length stale = ring_size r" "consumer_tail r \<le> consumer_head r" "consumer_head r < ring_size r"
    "producer r = (consumer_head r + length (x # q)) mod ring_size r" by metis
  let ?h = "consumer_head r" and ?t = "consumer_tail r" and ?Q = "ring_queue r" and ?n = "ring_size r"
  have x: "?Q ! ?h = x" using nth_turned [of ?h ?Q 0] f(5,8) n by (simp add: f(1))
  have T: "turned (Suc ?h) ?Q = q @ replicate free 0 @ stale @ [x]"
    using turned_Suc [of ?h ?Q] f(5,8) x by (simp add: f(1))
  let ?C = "take ?t ?Q @ replicate (Suc ?h - ?t) 0 @ drop (Suc ?h) ?Q"
  have c: "clear_down ?t (Suc ?h) r = Some (r\<lparr>ring_queue := ?C\<rparr>)"
    using f(5,7,8) by (intro clear_down_effect) simp_all
  have D: "drop (Suc ?h) ?Q @ take ?t ?Q = q @ replicate free 0"
  proof -
    have "(drop (Suc ?h) ?Q @ take ?t ?Q) @ take (Suc ?h - ?t) (drop ?t ?Q) = (q @ replicate free 0) @ (stale @ [x])"
      using T take_split [of ?t "Suc ?h" ?Q] f(7) by (simp add: turned_def)
    moreover have "length (take (Suc ?h - ?t) (drop ?t ?Q)) = length (stale @ [x])" using f(2,5,7,8) by simp
    ultimately show ?thesis by (rule prefix_part)
  qed
  have C: "turned (Suc ?h) ?C = q @ replicate (free + (Suc ?h - ?t)) 0"
  proof -
    have "turned (Suc ?h) ?C = drop (Suc ?h) ?Q @ take ?t ?Q @ replicate (Suc ?h - ?t) 0"
      using f(5,7,8) by (intro turned_cleared) simp_all
    then show ?thesis using D by (simp only: append_assoc [symmetric] replicate_add)
  qed
  have len: "length ?C = ?n" using f(5,7,8) by simp
  have z: "0 < ring_batch r" using h by (simp add: ring_holds_def)
  have p: "Suc ?h < ?n \<Longrightarrow> producer r = (Suc ?h + length q) mod ?n" using f(9) by simp
  have pw: "?n \<le> Suc ?h \<Longrightarrow> producer r = length q mod ?n"
  proof -
    assume "?n \<le> Suc ?h"
    then have "?h + length (x # q) = length q + ?n" using f(8) by simp
    then have "(?h + length (x # q)) mod ?n = length q mod ?n" by (simp only: mod_add_self2)
    then show ?thesis using f(9) by simp
  qed
  consider "?n \<le> Suc ?h" | "Suc ?h < ?n" "ring_batch r \<le> Suc ?h - ?t" | "Suc ?h < ?n" "Suc ?h - ?t < ring_batch r" by linarith
  then show ?thesis
  proof cases
    case 1
    let ?r = "r\<lparr>ring_queue := ?C, consumer_tail := 0, consumer_head := 0\<rparr>"
    have "plain_ptr_ring_discard_one r = Some ?r" using c 1 by (simp add: discard_defs)
    moreover have "turned 0 ?C = turned (Suc ?h) ?C" using 1 by (intro turned_all) (simp only: len)
    then have "turned 0 ?C = q @ replicate (free + (Suc ?h - ?t)) 0 @ []" using C by simp
    then have "ring_holds ?r q" using n z len f(3) pw 1 unfolding ring_holds_def by (auto intro!: exI)
    ultimately show ?thesis by (simp add: same_frame_def ring_used_def)
  next
    case 2
    let ?r = "r\<lparr>ring_queue := ?C, consumer_tail := Suc ?h, consumer_head := Suc ?h\<rparr>"
    have "plain_ptr_ring_discard_one r = Some ?r" using c 2 f(7) by (simp add: discard_defs of_nat_diff)
    moreover have "turned (Suc ?h) ?C = q @ replicate (free + (Suc ?h - ?t)) 0 @ []" using C by simp
    then have "ring_holds ?r q" using n z len f(3) p 2 unfolding ring_holds_def by (auto intro!: exI)
    ultimately show ?thesis by (simp add: same_frame_def ring_used_def)
  next
    case 3
    let ?r = "r\<lparr>consumer_head := Suc ?h\<rparr>"
    have "\<not> int (?h + 1) - int ?t \<ge> int (ring_batch r)" using 3 f(7) by linarith
    then have "plain_ptr_ring_discard_one r = Some ?r" using 3(1) by (simp add: discard_defs)
    moreover have "ring_holds ?r q"
    proof -
      have "length (stale @ [x]) = Suc ?h - ?t" "0 \<notin> set (stale @ [x])" using f(2-4,7) by auto
      then show ?thesis using n z T f(3,5,7) p 3 unfolding ring_holds_def by (auto intro!: exI)
    qed
    ultimately show ?thesis using f(7) by (simp add: same_frame_def ring_used_def)
  qed
qed

lemma ring_consume:
  assumes h: "ring_holds r q"
  shows "\<exists>r'. plain_ptr_ring_consume r = Some (case q of [] \<Rightarrow> 0 | x # _ \<Rightarrow> x, r') \<and> ring_holds r' (tl q) \<and> same_frame r r' \<and>
    producer r' = producer r \<and> ring_used r' (tl q) \<le> ring_used r q"
proof (cases q)
  case Nil
  then show ?thesis using ring_peek [OF h] h by (simp add: plain_ptr_ring_consume_def)
next
  case (Cons x xs)
  then have "x \<noteq> 0" using ring_nonzero [OF h] by auto
  then show ?thesis using ring_peek [OF h] ring_discard [of r x xs] h Cons by (auto simp: plain_ptr_ring_consume_def)
qed

lemma ring_batched_loop:
  assumes "ring_holds r q" "i + k \<le> length array"
  shows "\<exists>r'. batched_loop k i array r =
      Some ((i + length (take k q), take i array @ take k q @ drop (i + length (take k q)) array), r') \<and>
    ring_holds r' (drop k q) \<and> same_frame r r'"
  using assms
proof (induction k arbitrary: i array r q)
  case (Suc k)
  obtain r1 where r1: "plain_ptr_ring_consume r = Some (case q of [] \<Rightarrow> 0 | x # _ \<Rightarrow> x, r1)" "ring_holds r1 (tl q)" "same_frame r r1"
    using ring_consume [OF Suc.prems(1)] by blast
  show ?case
  proof (cases q)
    case Nil
    then show ?thesis using r1 Suc.prems by simp
  next
    case (Cons x xs)
    then have "x \<noteq> 0" using ring_nonzero [OF Suc.prems(1)] by auto
    moreover obtain r2 where "batched_loop k (i + 1) (array[i := x]) r1 =
        Some ((i + 1 + length (take k xs), take (i + 1) (array[i := x]) @ take k xs @ drop (i + 1 + length (take k xs)) (array[i := x])), r2)"
      "ring_holds r2 (drop k xs)" "same_frame r1 r2"
      using Suc.IH [of r1 xs "i + 1" "array[i := x]"] r1(2) Cons Suc.prems(2) by auto
    moreover have "take (i + 1) (array[i := x]) = take i array @ [x]" using Suc.prems(2) by (simp add: take_Suc_conv_app_nth)
    ultimately show ?thesis using r1 Cons Suc.prems(2) same_frame_trans by auto
  qed
qed simp

lemma ring_batched:
  assumes "ring_holds r q" "n \<le> length array"
  shows "\<exists>r'. plain_ptr_ring_consume_batched array n r = Some ((length (take n q), take n q @ drop (length (take n q)) array), r') \<and>
    ring_holds r' (drop n q) \<and> same_frame r r'"
  using ring_batched_loop [OF assms(1), of 0 n array] assms(2) by (simp add: plain_ptr_ring_consume_batched_def)

subsection \<open>Giving pointers back\<close>

text \<open>The cells of consumed pointers are cleared first.\<close>

lemma ring_clear_stale:
  assumes h: "ring_holds r q" and n: "0 < ring_size r"
  shows "\<exists>Q. clear_down (consumer_tail r) (consumer_head r) r = Some (r\<lparr>ring_queue := Q\<rparr>) \<and>
    ring_holds (r\<lparr>ring_queue := Q, consumer_tail := consumer_head r\<rparr>) q"
proof -
  from ring_holdsE [OF h n] obtain free stale where f: "turned (consumer_head r) (ring_queue r) = q @ replicate free 0 @ stale"
    "length stale = consumer_head r - consumer_tail r" "0 \<notin> set q" "length (ring_queue r) = ring_size r"
    "consumer_tail r \<le> consumer_head r" "consumer_head r < ring_size r" by metis
  let ?h = "consumer_head r" and ?t = "consumer_tail r" and ?Q = "ring_queue r"
  let ?C = "take ?t ?Q @ replicate (?h - ?t) 0 @ drop ?h ?Q"
  have c: "clear_down ?t ?h r = Some (r\<lparr>ring_queue := ?C\<rparr>)" using f(4,5,6) by (intro clear_down_effect) simp_all
  have "(drop ?h ?Q @ take ?t ?Q) @ take (?h - ?t) (drop ?t ?Q) = (q @ replicate free 0) @ stale"
    using f(1) take_split [OF f(5), of ?Q] by (simp add: turned_def)
  moreover have "length (take (?h - ?t) (drop ?t ?Q)) = length stale" using f(2,4,5,6) by simp
  ultimately have D: "drop ?h ?Q @ take ?t ?Q = q @ replicate free 0" by (rule prefix_part)
  have "turned ?h ?C = drop ?h ?Q @ take ?t ?Q @ replicate (?h - ?t) 0" using f(4,5,6) by (intro turned_cleared) simp_all
  then have "turned ?h ?C = q @ replicate (free + (?h - ?t)) 0 @ []" using D by (simp add: replicate_add)
  moreover have "length ?C = ring_size r" using f(4,5,6) by simp
  ultimately have "ring_holds (r\<lparr>ring_queue := ?C, consumer_tail := ?h\<rparr>) q"
    using h n f(3) unfolding ring_holds_def by (auto intro!: exI)
  with c show ?thesis by blast
qed

lemma last_turned: "xs \<noteq> [] \<Longrightarrow> h < length xs \<Longrightarrow> turned (if h = 0 then length xs - 1 else h - 1) xs = last (turned h xs) # butlast (turned h xs)"
proof -
  assume xs: "xs \<noteq> []" "h < length xs"
  show ?thesis
  proof (cases h)
    case 0
    have "xs = butlast xs @ [last xs]" using xs by simp
    then have "turned (length xs - 1) xs = last xs # butlast xs"
      unfolding turned_def by (metis append_eq_conv_conj append_Cons append_Nil length_butlast)
    with 0 show ?thesis by (simp add: turned_def)
  next
    case (Suc k)
    then have "drop k xs = xs ! k # drop (Suc k) xs" "take (Suc k) xs = take k xs @ [xs ! k]"
      using xs(2) by (simp_all add: Cons_nth_drop_Suc take_Suc_conv_app_nth)
    with Suc show ?thesis by (simp add: turned_def butlast_append)
  qed
qed

text \<open>One pointer is put in front of the others.\<close>

lemma ring_put_front:
  assumes h: "ring_holds r q" and n: "0 < ring_size r" and t: "consumer_tail r = consumer_head r" and ptr: "ptr \<noteq> 0"
  defines "b \<equiv> (if consumer_head r = 0 then ring_size r - 1 else consumer_head r - 1)"
  shows "if length q < ring_size r then slot r b = Some 0 \<and>
      (\<exists>Q. put_slot r b ptr = Some (r\<lparr>ring_queue := Q\<rparr>) \<and> ring_holds (r\<lparr>ring_queue := Q, consumer_tail := b, consumer_head := b\<rparr>) (ptr # q))
    else \<exists>v. slot r b = Some v \<and> v \<noteq> 0"
proof -
  from ring_holdsE [OF h n] obtain free stale where f: "turned (consumer_head r) (ring_queue r) = q @ replicate free 0 @ stale"
    "length stale = consumer_head r - consumer_tail r" "0 \<notin> set q" "length (ring_queue r) = ring_size r"
    "length q + free + length stale = ring_size r" "consumer_head r < ring_size r"
    "producer r = (consumer_head r + length q) mod ring_size r" by metis
  then have s: "stale = []" using t by simp
  let ?Q = "ring_queue r"
  have ne: "?Q \<noteq> []" using f(4) n by auto
  have b: "b < ring_size r" using f(6) n by (auto simp: b_def)
  have T: "turned b ?Q = last (turned (consumer_head r) ?Q) # butlast (turned (consumer_head r) ?Q)"
    using last_turned [OF ne, of "consumer_head r"] f(4,6) by (cases "consumer_head r = 0") (simp_all add: b_def)
  have v: "?Q ! b = last (turned (consumer_head r) ?Q)" using T nth_turned [of b ?Q 0] b f(4) n by simp
  show ?thesis
  proof (cases free)
    case 0
    then have "q \<noteq> []" "\<not> length q < ring_size r" using f(5) s n by auto
    moreover from this have "last q \<noteq> 0" using f(3) by (metis last_in_set)
    ultimately show ?thesis using v f(1) 0 s b f(4) by (simp add: slot_def)
  next
    case (Suc k)
    have sw: "replicate (Suc k) (0 :: u64) = replicate k 0 @ [0]" by (simp add: replicate_append_same)
    have tq: "turned b ?Q = 0 # q @ replicate k 0" using T by (simp add: f(1) s Suc sw butlast_append del: replicate_Suc)
    have "turned b (?Q[b := ptr]) = (turned b ?Q)[0 := ptr]" using turned_update [of b ?Q 0 ptr] b f(4) n by simp
    then have t2: "turned b (?Q[b := ptr]) = (ptr # q) @ replicate k 0 @ []" by (simp add: tq)
    have "(b + length (ptr # q)) mod ring_size r = producer r"
    proof (cases "consumer_head r")
      case 0
      then have "b + length (ptr # q) = length q + ring_size r" using n by (simp add: b_def)
      then have "(b + length (ptr # q)) mod ring_size r = length q mod ring_size r" by (simp only: mod_add_self2)
      then show ?thesis using f(7) 0 by simp
    next
      case (Suc m)
      then show ?thesis using f(7) by (simp add: b_def)
    qed
    then have "ring_holds (r\<lparr>ring_queue := ?Q[b := ptr], consumer_tail := b, consumer_head := b\<rparr>) (ptr # q)"
      using h n b t2 f(3) ptr unfolding ring_holds_def by (auto intro!: exI)
    moreover have "slot r b = Some 0" "put_slot r b ptr = Some (r\<lparr>ring_queue := ?Q[b := ptr]\<rparr>)"
      using v b f(4) by (simp_all add: slot_def put_slot_def f(1) s Suc sw del: replicate_Suc)
    moreover have "length q < ring_size r" using f(5) Suc by simp
    ultimately show ?thesis by auto
  qed
qed

lemma ring_unconsume_loop:
  assumes "ring_holds r q" "0 < ring_size r" "consumer_tail r = consumer_head r" "n \<le> length batch" "0 \<notin> set (take n batch)"
  shows "\<exists>r'. unconsume_loop batch n r = Some (n - (ring_size r - length q), r') \<and>
    ring_holds r' (drop (n - (ring_size r - length q)) (take n batch) @ q) \<and> same_frame r r'"
  using assms
proof (induction n arbitrary: r q)
  case (Suc n)
  let ?b = "if consumer_head r = 0 then ring_size r - 1 else consumer_head r - 1"
  have tk: "take (Suc n) batch = take n batch @ [batch ! n]" using Suc.prems(4) by (simp add: take_Suc_conv_app_nth)
  then have x: "batch ! n \<noteq> 0" using Suc.prems(5) by auto
  note front = ring_put_front [OF Suc.prems(1-3) x]
  show ?case
  proof (cases "length q < ring_size r")
    case True
    with front obtain Q where Q: "slot r ?b = Some 0" "put_slot r ?b (batch ! n) = Some (r\<lparr>ring_queue := Q\<rparr>)"
      "ring_holds (r\<lparr>ring_queue := Q, consumer_tail := ?b, consumer_head := ?b\<rparr>) (batch ! n # q)" by auto
    let ?r = "r\<lparr>ring_queue := Q, consumer_tail := ?b, consumer_head := ?b\<rparr>"
    obtain r' where r': "unconsume_loop batch n ?r = Some (n - (ring_size r - Suc (length q)), r')"
      "ring_holds r' (drop (n - (ring_size r - Suc (length q))) (take n batch) @ batch ! n # q)" "same_frame ?r r'"
      using Suc.IH [OF Q(3)] Suc.prems(2,4,5) tk by auto
    have e: "Suc n - (ring_size r - length q) = n - (ring_size r - Suc (length q))" using True by simp
    have "unconsume_loop batch (Suc n) r = Some (n - (ring_size r - Suc (length q)), r')"
      using Q(1,2) r'(1) Suc.prems(4) by (simp add: Let_def)
    moreover have "drop (n - (ring_size r - Suc (length q))) (take (Suc n) batch) =
      drop (n - (ring_size r - Suc (length q))) (take n batch) @ [batch ! n]"
      using Suc.prems(4) unfolding tk by simp
    ultimately show ?thesis using r'(2,3) e by (auto simp: same_frame_def)
  next
    case False
    with front obtain v where "slot r ?b = Some v" "v \<noteq> 0" by auto
    moreover have "ring_size r - length q = 0" using False by simp
    ultimately show ?thesis using Suc.prems(1,4) by (auto simp: Let_def)
  qed
qed simp

lemma ring_unconsume:
  assumes h: "ring_holds r q" and b: "n \<le> length batch" "0 \<notin> set (take n batch)"
  shows "\<exists>r'. unconsume_locked batch n r = Some (rev (take (n - (ring_size r - length q)) batch), r') \<and>
    ring_holds r' (drop (n - (ring_size r - length q)) (take n batch) @ q) \<and> same_frame r r'"
proof (cases "ring_size r = 0")
  case True
  then show ?thesis using h by (auto simp: unconsume_locked_def ring_holds_def)
next
  case False
  then obtain Q where Q: "clear_down (consumer_tail r) (consumer_head r) r = Some (r\<lparr>ring_queue := Q\<rparr>)"
    "ring_holds (r\<lparr>ring_queue := Q, consumer_tail := consumer_head r\<rparr>) q" using ring_clear_stale [OF h] by auto
  then show ?thesis using ring_unconsume_loop [OF Q(2) _ _ b] False by (auto simp: unconsume_locked_def same_frame_def)
qed

subsection \<open>Changing the array\<close>

lemma ring_swap_loop:
  assumes "ring_holds r q" "p \<le> length queue" "length queue = sz"
  shows "\<exists>r'. swap_loop destroy sz p queue gone r =
      Some (min sz (p + length q), take p queue @ take (sz - p) q @ drop (p + length (take (sz - p) q)) queue,
        gone @ (if destroy then drop (sz - p) q else []), r') \<and>
    ring_holds r' [] \<and> same_frame r r'"
  using assms
proof (induction q arbitrary: p queue gone r)
  case Nil
  then show ?case using ring_consume [OF Nil.prems(1)] by (subst swap_loop.simps) auto
next
  case (Cons x xs)
  obtain r1 where r1: "plain_ptr_ring_consume r = Some (x, r1)" "ring_holds r1 xs" "same_frame r r1"
    using ring_consume [OF Cons.prems(1)] by auto
  have x: "x \<noteq> 0" using ring_nonzero [OF Cons.prems(1)] by auto
  show ?case
  proof (cases "p < sz")
    case True
    then obtain k where k: "sz - p = Suc k" "sz - Suc p = k" by (metis Suc_diff_Suc)
    have "take (p + 1) (queue[p := x]) = take p queue @ [x]" using True Cons.prems(3) by (simp add: take_Suc_conv_app_nth)
    then show ?thesis
      using Cons.IH [OF r1(2), of "p + 1" "queue[p := x]" gone] Cons.prems(2,3) True r1(1,3) x k same_frame_trans
      by (subst swap_loop.simps) (auto simp: min_def)
  next
    case False
    then show ?thesis
      using Cons.IH [OF r1(2), of p queue "if destroy then gone @ [x] else gone"] Cons.prems(2,3) r1(1,3) x same_frame_trans
      by (subst swap_loop.simps) auto
  qed
qed

lemma set_size_batch: "0 < ring_batch (plain_ptr_ring_set_size sz r)"
  by (simp add: plain_ptr_ring_set_size_def Let_def SMP_CACHE_BYTES_def)

lemma set_size_frame [simp]:
  "ring_size (plain_ptr_ring_set_size sz r) = sz" "ring_queue (plain_ptr_ring_set_size sz r) = ring_queue r"
  "producer_lock (plain_ptr_ring_set_size sz r) = producer_lock r" "consumer_lock (plain_ptr_ring_set_size sz r) = consumer_lock r"
  "queue_addr (plain_ptr_ring_set_size sz r) = queue_addr r"
  by (simp_all add: plain_ptr_ring_set_size_def Let_def)

lemma fresh_ring_holds:
  assumes "0 \<notin> set q" "length q \<le> sz" "0 < b"
  shows "ring_holds \<lparr>producer = (if sz \<le> length q then 0 else length q), producer_lock = pl, consumer_head = 0, consumer_tail = 0,
    consumer_lock = cl, ring_size = sz, ring_batch = b, queue_addr = a, ring_queue = q @ replicate (sz - length q) 0\<rparr> q"
  using assms by (auto simp: ring_holds_def turned_def)

lemma ring_swap:
  assumes h: "ring_holds r q"
  shows "\<exists>r'. plain_ptr_ring_swap_queue destroy sz (a, replicate sz 0) r = Some ((queue_addr r, if destroy then drop sz q else []), r') \<and>
    ring_holds r' (take sz q) \<and> ring_size r' = sz \<and> queue_addr r' = a \<and>
    producer_lock r' = producer_lock r \<and> consumer_lock r' = consumer_lock r"
proof -
  obtain s where s: "swap_loop destroy sz 0 (replicate sz 0) [] r =
      Some (min sz (length q), take sz q @ replicate (sz - length q) 0, if destroy then drop sz q else [], s)" "same_frame r s"
    using ring_swap_loop [OF h, of 0 "replicate sz 0" sz destroy "[]"] by (auto simp: min_def)
  let ?p = "if sz \<le> min sz (length q) then 0 else min sz (length q)"
  let ?t = "(plain_ptr_ring_set_size sz s)\<lparr>producer := ?p, consumer_head := 0, consumer_tail := 0\<rparr>"
  let ?r = "?t\<lparr>queue_addr := a, ring_queue := take sz q @ replicate (sz - length q) 0\<rparr>"
  have "plain_ptr_ring_swap_queue destroy sz (a, replicate sz 0) r = Some ((queue_addr s, if destroy then drop sz q else []), ?r)"
    using s(1) by (simp add: plain_ptr_ring_swap_queue_def Let_def)
  moreover have "ring_holds ?r (take sz q)"
  proof -
    have e: "?r = \<lparr>producer = (if sz \<le> length (take sz q) then 0 else length (take sz q)), producer_lock = producer_lock s,
      consumer_head = 0, consumer_tail = 0, consumer_lock = consumer_lock s, ring_size = sz,
      ring_batch = ring_batch (plain_ptr_ring_set_size sz s), queue_addr = a, ring_queue = take sz q @ replicate (sz - length (take sz q)) 0\<rparr>"
      by (simp add: min_def)
    have "0 \<notin> set (take sz q)" "length (take sz q) \<le> sz" using ring_nonzero [OF h] by (auto dest: in_set_takeD)
    then show ?thesis unfolding e by (rule fresh_ring_holds [OF _ _ set_size_batch])
  qed
  ultimately show ?thesis using s(2) by (auto simp: same_frame_def)
qed

text \<open>The allocator gives zeroed arrays of the asked length at an address that is not NULL, or nothing.\<close>

definition alloc_ok :: "(nat \<Rightarrow> ring_array option) \<Rightarrow> bool" where
  "alloc_ok alloc \<longleftrightarrow> (\<forall>n addr q. alloc n = Some (addr, q) \<longrightarrow> addr \<noteq> 0 \<and> q = replicate n 0)"

text \<open>The array the allocator gives for \<open>n\<close> cells, when it gives one.\<close>

definition array_at :: "(nat \<Rightarrow> ring_array option) \<Rightarrow> nat \<Rightarrow> u64" where
  "array_at alloc n = fst (the (alloc n))"

lemma alloc_okE:
  assumes "alloc_ok alloc" "alloc n \<noteq> None"
  shows "alloc n = Some (array_at alloc n, replicate n 0)"
  using assms by (cases "alloc n") (auto simp: alloc_ok_def array_at_def)

lemma ring_init:
  assumes "alloc_ok alloc"
  shows "if unat sz \<le> 2 ^ 19 \<and> alloc (unat sz) \<noteq> None
    then \<exists>r'. ptr_ring_init S alloc sz r = (0, r') \<and> ring_holds r' [] \<and> ring_size r' = unat sz \<and>
      queue_addr r' = array_at alloc (unat sz)
    else ptr_ring_init S alloc sz r = (- ENOMEM, r\<lparr>queue_addr := 0, ring_queue := []\<rparr>)"
proof (cases "unat sz \<le> 2 ^ 19 \<and> alloc (unat sz) \<noteq> None")
  case True
  let ?a = "array_at alloc (unat sz)" and ?Q = "replicate (unat sz) 0"
  have Q: "alloc (unat sz) = Some (?a, ?Q)" using alloc_okE [OF assms] True by blast
  let ?t = "plain_ptr_ring_set_size (unat sz) (r\<lparr>queue_addr := ?a, ring_queue := ?Q\<rparr>)"
  let ?r = "?t\<lparr>producer := 0, consumer_head := 0, consumer_tail := 0,
    producer_lock := spin_lock_init S (producer_lock ?t), consumer_lock := spin_lock_init S (consumer_lock ?t)\<rparr>"
  have "ptr_ring_init S alloc sz r = (0, ?r)"
    using True Q by (simp add: ptr_ring_init_def plain_ptr_ring_init_queue_alloc_def KMALLOC_MAX_SIZE_def Let_def)
  moreover have "ring_holds ?r []"
    using set_size_batch [of "unat sz" "r\<lparr>queue_addr := ?a, ring_queue := ?Q\<rparr>"] by (simp add: ring_holds_def turned_def)
  ultimately show ?thesis using True by auto
next
  case False
  then have "plain_ptr_ring_init_queue_alloc alloc sz = None"
    by (auto simp: plain_ptr_ring_init_queue_alloc_def KMALLOC_MAX_SIZE_def simp del: split_paired_Ex split_paired_All)
  then show ?thesis unfolding if_not_P [OF False] by (simp add: ptr_ring_init_def)
qed

subsection \<open>A queue\<close>

datatype 'a queue_call = Put 'a | Get

text \<open>A sequence of calls: what was put, what was got, and the queue after.\<close>

fun queue_run :: "('a \<Rightarrow> 'q \<Rightarrow> 'q option) \<Rightarrow> ('q \<Rightarrow> ('a \<times> 'q) option) \<Rightarrow> 'a queue_call list \<Rightarrow> 'q \<Rightarrow> 'a list \<times> 'a list \<times> 'q" where
  "queue_run put get [] q = ([], [], q)"
| "queue_run put get (Put x # cs) q = (case put x q of
     None \<Rightarrow> queue_run put get cs q
   | Some q \<Rightarrow> (let (ins, outs, q) = queue_run put get cs q in (x # ins, outs, q)))"
| "queue_run put get (Get # cs) q = (case get q of
     None \<Rightarrow> queue_run put get cs q
   | Some (x, q) \<Rightarrow> (let (ins, outs, q) = queue_run put get cs q in (ins, x # outs, q)))"

locale fifo_queue =
  fixes holds :: "'q \<Rightarrow> 'a list \<Rightarrow> bool" and put :: "'a \<Rightarrow> 'q \<Rightarrow> 'q option" and get :: "'q \<Rightarrow> ('a \<times> 'q) option" and valid :: "'a \<Rightarrow> bool"
  assumes put_end: "holds q xs \<Longrightarrow> valid x \<Longrightarrow> put x q = Some q' \<Longrightarrow> holds q' (xs @ [x])"
    and get_none: "holds q [] \<Longrightarrow> get q = None"
    and get_front: "holds q (x # xs) \<Longrightarrow> \<exists>q'. get q = Some (x, q') \<and> holds q' xs"
begin

lemma run_in_order:
  "holds q xs \<Longrightarrow> \<forall>x. Put x \<in> set cs \<longrightarrow> valid x \<Longrightarrow> queue_run put get cs q = (ins, outs, q') \<Longrightarrow>
    \<exists>ys. xs @ ins = outs @ ys \<and> holds q' ys"
proof (induction cs arbitrary: q xs ins outs)
  case (Cons c cs)
  show ?case
  proof (cases c)
    case (Put x)
    show ?thesis
    proof (cases "put x q")
      case None
      then show ?thesis using Cons.IH [OF Cons.prems(1)] Cons.prems(2,3) Put by simp
    next
      case (Some r)
      obtain ps where i: "ins = x # ps" "queue_run put get cs r = (ps, outs, q')"
        using Cons.prems(3) Some Put by (auto split: prod.splits)
      have "holds r (xs @ [x])" using put_end Cons.prems(1,2) Some Put by simp
      from Cons.IH [OF this _ i(2)] Cons.prems(2) i(1) show ?thesis by simp
    qed
  next
    case Get
    show ?thesis
    proof (cases xs)
      case Nil
      then have "get q = None" using get_none Cons.prems(1) by simp
      then show ?thesis using Cons.IH [OF Cons.prems(1)] Cons.prems(2,3) Get by simp
    next
      case xs: (Cons x ys)
      then obtain r where r: "get q = Some (x, r)" "holds r ys" using get_front Cons.prems(1) by blast
      obtain os where i: "outs = x # os" "queue_run put get cs r = (ins, os, q')"
        using Cons.prems(3) r(1) Get by (auto split: prod.splits)
      from Cons.IH [OF r(2) _ i(2)] Cons.prems(2) i(1) xs show ?thesis by simp
    qed
  qed
qed simp

end

definition ring_put :: "u64 \<Rightarrow> 'l ptr_ring \<Rightarrow> 'l ptr_ring option" where
  "ring_put ptr r = (case plain_ptr_ring_produce ptr r of Some (ret, r) \<Rightarrow> if ret = 0 then Some r else None | None \<Rightarrow> None)"

definition ring_get :: "'l ptr_ring \<Rightarrow> (u64 \<times> 'l ptr_ring) option" where
  "ring_get r = (case plain_ptr_ring_consume r of Some (ptr, r) \<Rightarrow> if ptr = 0 then None else Some (ptr, r) | None \<Rightarrow> None)"

interpretation ring_fifo: fifo_queue ring_holds ring_put ring_get "\<lambda>ptr. ptr \<noteq> 0"
proof unfold_locales
  fix r :: "'l ptr_ring" and q x r'
  assume h: "ring_holds r q" "x \<noteq> 0" "ring_put x r = Some r'"
  then have room: "ring_used r q < ring_size r"
    using ring_produce_full [OF h(1), of x] by (fastforce simp: ring_put_def ENOSPC_def split: if_splits)
  from ring_produce [OF h(1) room h(2)] show "ring_holds r' (q @ [x])" using h(3) by (auto simp: ring_put_def)
next
  fix r :: "'l ptr_ring"
  assume "ring_holds r []"
  then show "ring_get r = None" using ring_consume [of r "[]"] by (auto simp: ring_get_def)
next
  fix r :: "'l ptr_ring" and x q
  assume h: "ring_holds r (x # q)"
  then have "x \<noteq> 0" using ring_nonzero by fastforce
  then show "\<exists>r'. ring_get r = Some (x, r') \<and> ring_holds r' q" using ring_consume [OF h] by (auto simp: ring_get_def)
qed

end
