(* ===== verification/Ring_Locks.thy ===== *)
theory Ring_Locks
  imports Ring_Facts
begin

text \<open>
  The operations on pointer rings under their locks: the ways of locking make no difference to what they
  do, and those that take both locks do to the contents what they say.
\<close>

subsection \<open>Under the locks\<close>

text \<open>A lock in this state is given by every way of taking it, and giving it back brings the state back.\<close>

definition spin_ok :: "'l spin_calls \<Rightarrow> 'l \<Rightarrow> bool" where
  "spin_ok S l \<longleftrightarrow> (\<exists>h. spin_lock S l = Some h \<and> spin_unlock S h = Some l) \<and>
     (\<exists>h. spin_lock_irq S l = Some h \<and> spin_unlock_irq S h = Some l) \<and>
     (\<exists>h. spin_lock_bh S l = Some h \<and> spin_unlock_bh S h = Some l) \<and>
     (\<exists>f h. spin_lock_irqsave S l = Some (f, h) \<and> spin_unlock_irqrestore S f h = Some l)"

text \<open>Operations that neither read nor change the locks do under a lock what they do without it.\<close>

definition blind :: "('l, 'a) ring_op \<Rightarrow> bool" where
  "blind body \<longleftrightarrow> (\<forall>r l. body (r\<lparr>producer_lock := l\<rparr>) = map_option (\<lambda>(x, r). (x, r\<lparr>producer_lock := l\<rparr>)) (body r)) \<and>
     (\<forall>r l. body (r\<lparr>consumer_lock := l\<rparr>) = map_option (\<lambda>(x, r). (x, r\<lparr>consumer_lock := l\<rparr>)) (body r))"

lemma blindD:
  "blind body \<Longrightarrow> body (r\<lparr>producer_lock := l\<rparr>) = map_option (\<lambda>(x, r). (x, r\<lparr>producer_lock := l\<rparr>)) (body r)"
  "blind body \<Longrightarrow> body (r\<lparr>consumer_lock := l\<rparr>) = map_option (\<lambda>(x, r). (x, r\<lparr>consumer_lock := l\<rparr>)) (body r)"
  by (simp_all add: blind_def)

lemma under_producer_blind:
  assumes b: "blind body" and l: "lock (producer_lock r) = Some (f, h)" "unlock f h = Some (producer_lock r)"
  shows "under_producer lock unlock body r = body r"
proof (cases "body r")
  case None
  then show ?thesis using b l(1) by (simp add: under_producer_def blind_def)
next
  case (Some y)
  obtain x r' where y: "y = (x, r')" by (cases y)
  have "body (r\<lparr>producer_lock := producer_lock r\<rparr>) = map_option (\<lambda>(x, s). (x, s\<lparr>producer_lock := producer_lock r\<rparr>)) (body r)"
    using b unfolding blind_def by blast
  then have "r'\<lparr>producer_lock := producer_lock r\<rparr> = r'" using Some y by simp
  moreover have "body (r\<lparr>producer_lock := h\<rparr>) = Some (x, r'\<lparr>producer_lock := h\<rparr>)" using b Some y by (simp add: blind_def)
  ultimately show ?thesis using Some y l by (simp add: under_producer_def)
qed

lemma under_consumer_blind:
  assumes b: "blind body" and l: "lock (consumer_lock r) = Some (f, h)" "unlock f h = Some (consumer_lock r)"
  shows "under_consumer lock unlock body r = body r"
proof (cases "body r")
  case None
  then show ?thesis using b l(1) by (simp add: under_consumer_def blind_def)
next
  case (Some y)
  obtain x r' where y: "y = (x, r')" by (cases y)
  have "body (r\<lparr>consumer_lock := consumer_lock r\<rparr>) = map_option (\<lambda>(x, s). (x, s\<lparr>consumer_lock := consumer_lock r\<rparr>)) (body r)"
    using b unfolding blind_def by blast
  then have "r'\<lparr>consumer_lock := consumer_lock r\<rparr> = r'" using Some y by simp
  moreover have "body (r\<lparr>consumer_lock := h\<rparr>) = Some (x, r'\<lparr>consumer_lock := h\<rparr>)" using b Some y by (simp add: blind_def)
  ultimately show ?thesis using Some y l by (simp add: under_consumer_def)
qed

lemma slot_blind [simp]: "slot (r\<lparr>producer_lock := l\<rparr>) i = slot r i" "slot (r\<lparr>consumer_lock := l\<rparr>) i = slot r i"
  by (simp_all add: slot_def)

lemma put_slot_blind [simp]:
  "put_slot (r\<lparr>producer_lock := l\<rparr>) i v = map_option (\<lambda>r. r\<lparr>producer_lock := l\<rparr>) (put_slot r i v)"
  "put_slot (r\<lparr>consumer_lock := l\<rparr>) i v = map_option (\<lambda>r. r\<lparr>consumer_lock := l\<rparr>) (put_slot r i v)"
  by (simp_all add: put_slot_def)

lemma clear_down_blind [simp]:
  "clear_down t h (r\<lparr>producer_lock := l\<rparr>) = map_option (\<lambda>r. r\<lparr>producer_lock := l\<rparr>) (clear_down t h r)"
  "clear_down t h (r\<lparr>consumer_lock := l\<rparr>) = map_option (\<lambda>r. r\<lparr>consumer_lock := l\<rparr>) (clear_down t h r)"
  by (induction h arbitrary: r) (auto simp: option.map_comp o_def split: bind_split)

lemma full_blind: "blind (reads plain_ptr_ring_full)"
  by (auto simp: blind_def reads_def plain_ptr_ring_full_def option.map_comp o_def)

lemma empty_blind: "blind (reads plain_ptr_ring_empty)"
  by (auto simp: blind_def reads_def plain_ptr_ring_empty_def option.map_comp o_def)

lemma peek_call_blind: "blind (reads (\<lambda>r. plain_PTR_RING_PEEK_CALL r f))"
  by (auto simp: blind_def reads_def plain_PTR_RING_PEEK_CALL_def plain_ptr_ring_peek_def option.map_comp o_def)

lemma produce_blind: "blind (plain_ptr_ring_produce ptr)"
  by (auto simp: blind_def plain_ptr_ring_produce_def produce_end_def Let_def slot_def put_slot_def)

lemma discard_blind:
  "plain_ptr_ring_discard_one (r\<lparr>producer_lock := l\<rparr>) = map_option (\<lambda>r. r\<lparr>producer_lock := l\<rparr>) (plain_ptr_ring_discard_one r)"
  "plain_ptr_ring_discard_one (r\<lparr>consumer_lock := l\<rparr>) = map_option (\<lambda>r. r\<lparr>consumer_lock := l\<rparr>) (plain_ptr_ring_discard_one r)"
  by (cases "clear_down (consumer_tail r) (consumer_head r + 1) r"; simp add: discard_defs)+

lemma consume_blind: "blind plain_ptr_ring_consume"
  by (auto simp: blind_def plain_ptr_ring_consume_def plain_ptr_ring_peek_def discard_blind slot_def option.map_comp o_def)

lemma batched_loop_blind: "blind (batched_loop k i array)"
proof (induction k arbitrary: i array)
  case (Suc k)
  note c = blindD [OF consume_blind] and IH = blindD [OF Suc]
  have "batched_loop (Suc k) i array (r\<lparr>producer_lock := l\<rparr>) = map_option (\<lambda>(x, r). (x, r\<lparr>producer_lock := l\<rparr>)) (batched_loop (Suc k) i array r)"
    "batched_loop (Suc k) i array (r\<lparr>consumer_lock := l\<rparr>) = map_option (\<lambda>(x, r). (x, r\<lparr>consumer_lock := l\<rparr>)) (batched_loop (Suc k) i array r)" for r :: "'a ptr_ring" and l
    by (cases "plain_ptr_ring_consume r"; simp add: c IH split: prod.split)+
  then show ?case unfolding blind_def by blast
qed (simp add: blind_def)

lemma batched_blind: "blind (plain_ptr_ring_consume_batched array n)"
  using batched_loop_blind by (simp add: blind_def plain_ptr_ring_consume_batched_def)

text \<open>Both locks in the same state, and how the ways of locking give an operation without locks.\<close>

lemma spin_okE:
  assumes "spin_ok S l"
  obtains h where "no_flags (spin_lock S) l = Some ((), h)" "spin_unlock S h = Some l"
  using assms unfolding spin_ok_def no_flags_def by auto

lemma spin_ok_irqE:
  assumes "spin_ok S l"
  obtains h where "no_flags (spin_lock_irq S) l = Some ((), h)" "spin_unlock_irq S h = Some l"
  using assms unfolding spin_ok_def no_flags_def by auto

lemma spin_ok_bhE:
  assumes "spin_ok S l"
  obtains h where "no_flags (spin_lock_bh S) l = Some ((), h)" "spin_unlock_bh S h = Some l"
  using assms unfolding spin_ok_def no_flags_def by auto

lemma spin_ok_anyE:
  assumes "spin_ok S l"
  obtains f h where "spin_lock_irqsave S l = Some (f, h)" "spin_unlock_irqrestore S f h = Some l"
  using assms unfolding spin_ok_def by auto

lemma producer_variants:
  assumes b: "blind body" and l: "spin_ok S (producer_lock r)"
  shows "under_producer (no_flags (spin_lock S)) (\<lambda>_. spin_unlock S) body r = body r"
    "under_producer (no_flags (spin_lock_irq S)) (\<lambda>_. spin_unlock_irq S) body r = body r"
    "under_producer (no_flags (spin_lock_bh S)) (\<lambda>_. spin_unlock_bh S) body r = body r"
    "under_producer (spin_lock_irqsave S) (spin_unlock_irqrestore S) body r = body r"
  by (rule spin_okE [OF l], erule (1) under_producer_blind [OF b], rule spin_ok_irqE [OF l], erule (1) under_producer_blind [OF b],
      rule spin_ok_bhE [OF l], erule (1) under_producer_blind [OF b], rule spin_ok_anyE [OF l], erule (1) under_producer_blind [OF b])

lemma consumer_variants:
  assumes b: "blind body" and l: "spin_ok S (consumer_lock r)"
  shows "under_consumer (no_flags (spin_lock S)) (\<lambda>_. spin_unlock S) body r = body r"
    "under_consumer (no_flags (spin_lock_irq S)) (\<lambda>_. spin_unlock_irq S) body r = body r"
    "under_consumer (no_flags (spin_lock_bh S)) (\<lambda>_. spin_unlock_bh S) body r = body r"
    "under_consumer (spin_lock_irqsave S) (spin_unlock_irqrestore S) body r = body r"
  by (rule spin_okE [OF l], erule (1) under_consumer_blind [OF b], rule spin_ok_irqE [OF l], erule (1) under_consumer_blind [OF b],
      rule spin_ok_bhE [OF l], erule (1) under_consumer_blind [OF b], rule spin_ok_anyE [OF l], erule (1) under_consumer_blind [OF b])

lemmas ring_lock_defs = ptr_ring_full_def ptr_ring_full_irq_def ptr_ring_full_bh_def ptr_ring_full_any_def
  ptr_ring_produce_def ptr_ring_produce_irq_def ptr_ring_produce_bh_def ptr_ring_produce_any_def
  ptr_ring_empty_def ptr_ring_empty_irq_def ptr_ring_empty_bh_def ptr_ring_empty_any_def
  ptr_ring_consume_def ptr_ring_consume_irq_def ptr_ring_consume_bh_def ptr_ring_consume_any_def
  ptr_ring_consume_batched_def ptr_ring_consume_batched_irq_def ptr_ring_consume_batched_bh_def ptr_ring_consume_batched_any_def
  PTR_RING_PEEK_CALL_def PTR_RING_PEEK_CALL_IRQ_def PTR_RING_PEEK_CALL_BH_def PTR_RING_PEEK_CALL_ANY_def

text \<open>Under both locks, for operations that go on from what the ring holds.\<close>

lemma ring_holds_locks [simp]:
  "ring_holds (r\<lparr>producer_lock := l\<rparr>) q = ring_holds r q" "ring_holds (r\<lparr>consumer_lock := l\<rparr>) q = ring_holds r q"
  by (simp_all add: ring_holds_def)

lemma under_both:
  assumes c: "lockc (consumer_lock r) = Some (fc, hc)" "unlockc fc hc = Some (consumer_lock r)"
    and p: "lockp (producer_lock r) = Some (fp, hp)" "unlockp fp hp = Some (producer_lock r)"
    and b: "body (r\<lparr>consumer_lock := hc, producer_lock := hp\<rparr>) = Some (x, r')" "producer_lock r' = hp" "consumer_lock r' = hc"
  shows "under_consumer lockc unlockc (under_producer lockp unlockp body) r =
    Some (x, r'\<lparr>producer_lock := producer_lock r, consumer_lock := consumer_lock r\<rparr>)"
  using assms by (simp add: under_consumer_def under_producer_def)

lemma under_both_result:
  assumes c: "spin_ok S (consumer_lock r)" and p: "spin_ok S (producer_lock r)" and h: "ring_holds r q"
    and b: "\<And>s. ring_holds s q \<Longrightarrow> ring_size s = ring_size r \<Longrightarrow> queue_addr s = queue_addr r \<Longrightarrow> \<exists>x s'. body s = Some (x, s') \<and> P x \<and> R s' \<and>
      producer_lock s' = producer_lock s \<and> consumer_lock s' = consumer_lock s"
  shows "\<exists>x r'. under_consumer (spin_lock_irqsave S) (spin_unlock_irqrestore S)
        (under_producer (no_flags (spin_lock S)) (\<lambda>_. spin_unlock S) body) r =
      Some (x, r'\<lparr>producer_lock := producer_lock r, consumer_lock := consumer_lock r\<rparr>) \<and> P x \<and> R r'"
    "\<exists>x r'. under_consumer (no_flags (spin_lock_bh S)) (\<lambda>_. spin_unlock_bh S)
        (under_producer (no_flags (spin_lock S)) (\<lambda>_. spin_unlock S) body) r =
      Some (x, r'\<lparr>producer_lock := producer_lock r, consumer_lock := consumer_lock r\<rparr>) \<and> P x \<and> R r'"
proof -
  obtain hp where hp: "no_flags (spin_lock S) (producer_lock r) = Some ((), hp)" "spin_unlock S hp = Some (producer_lock r)"
    using p by (rule spin_okE)
  have body: "\<exists>x s'. body (r\<lparr>consumer_lock := hc, producer_lock := hp\<rparr>) = Some (x, s') \<and> P x \<and> R s' \<and>
    producer_lock s' = hp \<and> consumer_lock s' = hc" for hc
    using b [of "r\<lparr>consumer_lock := hc, producer_lock := hp\<rparr>"] h by simp
  obtain f hc where hc: "spin_lock_irqsave S (consumer_lock r) = Some (f, hc)" "spin_unlock_irqrestore S f hc = Some (consumer_lock r)"
    using c by (rule spin_ok_anyE)
  obtain x s' where s: "body (r\<lparr>consumer_lock := hc, producer_lock := hp\<rparr>) = Some (x, s')" "P x" "R s'"
    "producer_lock s' = hp" "consumer_lock s' = hc" using body by blast
  show "\<exists>x r'. under_consumer (spin_lock_irqsave S) (spin_unlock_irqrestore S)
        (under_producer (no_flags (spin_lock S)) (\<lambda>_. spin_unlock S) body) r =
      Some (x, r'\<lparr>producer_lock := producer_lock r, consumer_lock := consumer_lock r\<rparr>) \<and> P x \<and> R r'"
    using under_both [where r = r and body = body and lockc = "spin_lock_irqsave S" and unlockc = "spin_unlock_irqrestore S" and
      lockp = "no_flags (spin_lock S)" and unlockp = "\<lambda>_. spin_unlock S", OF hc hp s(1,4,5)] s(2,3) by blast
  obtain hc where hc: "no_flags (spin_lock_bh S) (consumer_lock r) = Some ((), hc)" "spin_unlock_bh S hc = Some (consumer_lock r)"
    using c by (rule spin_ok_bhE)
  obtain x s' where s: "body (r\<lparr>consumer_lock := hc, producer_lock := hp\<rparr>) = Some (x, s')" "P x" "R s'"
    "producer_lock s' = hp" "consumer_lock s' = hc" using body by blast
  show "\<exists>x r'. under_consumer (no_flags (spin_lock_bh S)) (\<lambda>_. spin_unlock_bh S)
        (under_producer (no_flags (spin_lock S)) (\<lambda>_. spin_unlock S) body) r =
      Some (x, r'\<lparr>producer_lock := producer_lock r, consumer_lock := consumer_lock r\<rparr>) \<and> P x \<and> R r'"
    using under_both [where r = r and body = body and lockc = "no_flags (spin_lock_bh S)" and unlockc = "\<lambda>_. spin_unlock_bh S" and
      lockp = "no_flags (spin_lock S)" and unlockp = "\<lambda>_. spin_unlock S", OF hc hp s(1,4,5)] s(2,3) by blast
qed

lemma ring_unconsume_done:
  assumes h: "ring_holds r q" and l: "spin_ok S (consumer_lock r)" "spin_ok S (producer_lock r)"
    and b: "n \<le> length batch" "0 \<notin> set (take n batch)"
  shows "\<exists>r'. ptr_ring_unconsume S batch n r = Some (rev (take (n - (ring_size r - length q)) batch), r') \<and>
    ring_holds r' (drop (n - (ring_size r - length q)) (take n batch) @ q) \<and> ring_size r' = ring_size r"
proof -
  let ?k = "n - (ring_size r - length q)"
  let ?R = "\<lambda>s'. ring_holds s' (drop ?k (take n batch) @ q) \<and> ring_size s' = ring_size r"
  have "\<exists>x s'. unconsume_locked batch n s = Some (x, s') \<and> x = rev (take ?k batch) \<and> ?R s' \<and>
      producer_lock s' = producer_lock s \<and> consumer_lock s' = consumer_lock s"
    if "ring_holds s q" "ring_size s = ring_size r" "queue_addr s = queue_addr r" for s
    using ring_unconsume [OF that(1) b] that(2) by (auto simp: same_frame_def)
  from under_both_result(1) [where body = "unconsume_locked batch n" and P = "\<lambda>x. x = rev (take ?k batch)" and R = ?R, OF l h this]
  obtain r' where "ptr_ring_unconsume S batch n r =
      Some (rev (take ?k batch), r'\<lparr>producer_lock := producer_lock r, consumer_lock := consumer_lock r\<rparr>)" "?R r'"
    unfolding ptr_ring_unconsume_def by blast
  then show ?thesis
    by (intro exI [of _ "r'\<lparr>producer_lock := producer_lock r, consumer_lock := consumer_lock r\<rparr>"]) simp
qed

subsection \<open>Changing the array of one ring, of many, and the end\<close>

lemma ring_swap_done:
  assumes h: "ring_holds r q" and l: "spin_ok S (consumer_lock r)" "spin_ok S (producer_lock r)"
  shows "\<exists>r'. under_consumer (spin_lock_irqsave S) (spin_unlock_irqrestore S)
        (under_producer (no_flags (spin_lock S)) (\<lambda>_. spin_unlock S) (plain_ptr_ring_swap_queue destroy sz (a, replicate sz 0))) r =
      Some ((queue_addr r, if destroy then drop sz q else []), r') \<and> ring_holds r' (take sz q) \<and> ring_size r' = sz \<and>
      queue_addr r' = a \<and> producer_lock r' = producer_lock r \<and> consumer_lock r' = consumer_lock r"
    "\<exists>r'. under_consumer (no_flags (spin_lock_bh S)) (\<lambda>_. spin_unlock_bh S)
        (under_producer (no_flags (spin_lock S)) (\<lambda>_. spin_unlock S) (plain_ptr_ring_swap_queue destroy sz (a, replicate sz 0))) r =
      Some ((queue_addr r, if destroy then drop sz q else []), r') \<and> ring_holds r' (take sz q) \<and> ring_size r' = sz \<and>
      queue_addr r' = a \<and> producer_lock r' = producer_lock r \<and> consumer_lock r' = consumer_lock r"
proof -
  let ?P = "\<lambda>x. x = (queue_addr r, if destroy then drop sz q else [])"
    and ?R = "\<lambda>s'. ring_holds s' (take sz q) \<and> ring_size s' = sz \<and> queue_addr s' = a"
  have "\<exists>x s'. plain_ptr_ring_swap_queue destroy sz (a, replicate sz 0) s = Some (x, s') \<and> ?P x \<and> ?R s' \<and>
      producer_lock s' = producer_lock s \<and> consumer_lock s' = consumer_lock s" if "ring_holds s q" "ring_size s = ring_size r" "queue_addr s = queue_addr r" for s
    using ring_swap [OF that(1), of destroy sz a] that(3) by auto
  note u = under_both_result [where body = "plain_ptr_ring_swap_queue destroy sz (a, replicate sz 0)" and P = ?P and R = ?R, OF l h this]
  show "\<exists>r'. under_consumer (spin_lock_irqsave S) (spin_unlock_irqrestore S)
        (under_producer (no_flags (spin_lock S)) (\<lambda>_. spin_unlock S) (plain_ptr_ring_swap_queue destroy sz (a, replicate sz 0))) r =
      Some ((queue_addr r, if destroy then drop sz q else []), r') \<and> ring_holds r' (take sz q) \<and> ring_size r' = sz \<and>
      queue_addr r' = a \<and> producer_lock r' = producer_lock r \<and> consumer_lock r' = consumer_lock r"
  proof -
    obtain r' where "under_consumer (spin_lock_irqsave S) (spin_unlock_irqrestore S)
        (under_producer (no_flags (spin_lock S)) (\<lambda>_. spin_unlock S) (plain_ptr_ring_swap_queue destroy sz (a, replicate sz 0))) r =
      Some ((queue_addr r, if destroy then drop sz q else []), r'\<lparr>producer_lock := producer_lock r, consumer_lock := consumer_lock r\<rparr>)"
      "?R r'" using u(1) by blast
    then show ?thesis
      by (intro exI [of _ "r'\<lparr>producer_lock := producer_lock r, consumer_lock := consumer_lock r\<rparr>"]) simp
  qed
  show "\<exists>r'. under_consumer (no_flags (spin_lock_bh S)) (\<lambda>_. spin_unlock_bh S)
        (under_producer (no_flags (spin_lock S)) (\<lambda>_. spin_unlock S) (plain_ptr_ring_swap_queue destroy sz (a, replicate sz 0))) r =
      Some ((queue_addr r, if destroy then drop sz q else []), r') \<and> ring_holds r' (take sz q) \<and> ring_size r' = sz \<and>
      queue_addr r' = a \<and> producer_lock r' = producer_lock r \<and> consumer_lock r' = consumer_lock r"
  proof -
    obtain r' where "under_consumer (no_flags (spin_lock_bh S)) (\<lambda>_. spin_unlock_bh S)
        (under_producer (no_flags (spin_lock S)) (\<lambda>_. spin_unlock S) (plain_ptr_ring_swap_queue destroy sz (a, replicate sz 0))) r =
      Some ((queue_addr r, if destroy then drop sz q else []), r'\<lparr>producer_lock := producer_lock r, consumer_lock := consumer_lock r\<rparr>)"
      "?R r'" using u(2) by blast
    then show ?thesis
      by (intro exI [of _ "r'\<lparr>producer_lock := producer_lock r, consumer_lock := consumer_lock r\<rparr>"]) simp
  qed
qed

lemma queue_alloc:
  assumes "alloc_ok alloc"
  shows "plain_ptr_ring_init_queue_alloc alloc sz =
    (if unat sz \<le> 2 ^ 19 \<and> alloc (unat sz) \<noteq> None then Some (array_at alloc (unat sz), replicate (unat sz) 0) else None)"
  using alloc_okE [OF assms] by (auto simp: plain_ptr_ring_init_queue_alloc_def KMALLOC_MAX_SIZE_def simp del: split_paired_Ex split_paired_All)

lemma ring_resize:
  assumes h: "ring_holds r q" and l: "spin_ok S (consumer_lock r)" "spin_ok S (producer_lock r)" and a: "alloc_ok alloc"
  shows "if unat sz \<le> 2 ^ 19 \<and> alloc (unat sz) \<noteq> None
    then \<exists>r'. ptr_ring_resize S alloc sz destroy r = Some ((0, [queue_addr r], if destroy then drop (unat sz) q else []), r') \<and>
      ring_holds r' (take (unat sz) q) \<and> ring_size r' = unat sz \<and> queue_addr r' = array_at alloc (unat sz)
    else ptr_ring_resize S alloc sz destroy r = Some ((- ENOMEM, [], []), r)"
  using ring_swap_done(1) [OF h l, of destroy "unat sz" "array_at alloc (unat sz)"] by (auto simp: ptr_ring_resize_def queue_alloc [OF a] simp del: split_paired_Ex split_paired_All)

text \<open>Many rings: each ring and what it holds.\<close>

definition rings_hold :: "'l spin_calls \<Rightarrow> 'l ptr_ring list \<Rightarrow> u64 list list \<Rightarrow> bool" where
  "rings_hold S rings qs \<longleftrightarrow> list_all2 (\<lambda>r q. ring_holds r q \<and> spin_ok S (consumer_lock r) \<and> spin_ok S (producer_lock r)) rings qs"

text \<open>New arrays of \<open>n\<close> zeroed cells each, at the addresses given.\<close>

definition fresh_arrays :: "nat \<Rightarrow> u64 list \<Rightarrow> ring_array list" where
  "fresh_arrays n addrs = map (\<lambda>a. (a, replicate n 0)) addrs"

lemma swap_rings_done:
  assumes "rings_hold S rings qs" "length addrs = length rings"
  shows "\<exists>rings'. swap_rings S destroy sz (fresh_arrays sz addrs) rings =
      Some (map queue_addr rings, if destroy then concat (map (drop sz) qs) else [], rings') \<and>
    rings_hold S rings' (map (take sz) qs) \<and> map queue_addr rings' = addrs \<and> map ring_size rings' = replicate (length rings) sz"
  using assms
proof (induction rings arbitrary: qs addrs)
  case (Cons r rings)
  then obtain q qs' a as where q: "qs = q # qs'" "ring_holds r q" "spin_ok S (consumer_lock r)" "spin_ok S (producer_lock r)"
    "rings_hold S rings qs'" "addrs = a # as" "length as = length rings" by (auto simp: rings_hold_def list_all2_Cons1 length_Suc_conv)
  obtain rings' where IH: "swap_rings S destroy sz (fresh_arrays sz as) rings =
      Some (map queue_addr rings, if destroy then concat (map (drop sz) qs') else [], rings')"
    "rings_hold S rings' (map (take sz) qs')" "map queue_addr rings' = as" "map ring_size rings' = replicate (length rings) sz"
    using Cons.IH [OF q(5,7)] by blast
  obtain r' where r: "under_consumer (no_flags (spin_lock_bh S)) (\<lambda>_. spin_unlock_bh S)
        (under_producer (no_flags (spin_lock S)) (\<lambda>_. spin_unlock S) (plain_ptr_ring_swap_queue destroy sz (a, replicate sz 0))) r =
      Some ((queue_addr r, if destroy then drop sz q else []), r')" "ring_holds r' (take sz q)" "ring_size r' = sz"
      "queue_addr r' = a" "producer_lock r' = producer_lock r" "consumer_lock r' = consumer_lock r"
    using ring_swap_done(2) [OF q(2-4), of destroy sz a] by blast
  have "swap_rings S destroy sz (fresh_arrays sz addrs) (r # rings) =
      Some (map queue_addr (r # rings), if destroy then concat (map (drop sz) qs) else [], r' # rings')"
    using r(1) IH(1) by (simp add: q(1,6) fresh_arrays_def)
  moreover have "rings_hold S (r' # rings') (map (take sz) qs)" using r IH(2) q(3,4) by (simp add: q(1) rings_hold_def)
  moreover have "map queue_addr (r' # rings') = addrs" "map ring_size (r' # rings') = replicate (length (r # rings)) sz"
    using r(3,4) IH(3,4) q(6) by simp_all
  ultimately show ?case by blast
qed (simp_all add: rings_hold_def fresh_arrays_def)

text \<open>The addresses the allocators from the \<open>i\<close>-th on give, \<open>k\<close> of them.\<close>

definition arrays_from :: "(nat \<Rightarrow> nat \<Rightarrow> ring_array option) \<Rightarrow> nat \<Rightarrow> nat \<Rightarrow> nat \<Rightarrow> u64 list" where
  "arrays_from allocs n i k = map (\<lambda>j. array_at (allocs j) n) [i..<i + k]"

lemma arrays_from_simps [simp]: "arrays_from allocs n i 0 = []" "length (arrays_from allocs n i k) = k"
  "arrays_from allocs n i (Suc k) = array_at (allocs i) n # arrays_from allocs n (Suc i) k"
  by (simp_all add: arrays_from_def upt_conv_Cons del: upt_Suc)

lemma fresh_arrays_simps [simp]: "fresh_arrays n [] = []" "fresh_arrays n (a # as) = (a, replicate n 0) # fresh_arrays n as"
  "map fst (fresh_arrays n as) = as"
  by (simp_all add: fresh_arrays_def o_def)

lemma alloc_loop_done:
  assumes "\<forall>j. alloc_ok (allocs j)"
  shows "alloc_loop allocs sz i k queues =
    (if (k = 0 \<or> unat sz \<le> 2 ^ 19) \<and> (\<forall>j<k. allocs (i + j) (unat sz) \<noteq> None)
     then (True, queues @ fresh_arrays (unat sz) (arrays_from allocs (unat sz) i k))
     else (False, queues @ fresh_arrays (unat sz) (arrays_from allocs (unat sz) i
        (if unat sz \<le> 2 ^ 19 then LEAST j. allocs (i + j) (unat sz) = None else 0))))"
proof (induction k arbitrary: i queues)
  case (Suc k)
  show ?case
  proof (cases "unat sz \<le> 2 ^ 19 \<and> allocs i (unat sz) \<noteq> None")
    case True
    then have step: "alloc_loop allocs sz i (Suc k) queues =
        alloc_loop allocs sz (i + 1) k (queues @ [(array_at (allocs i) (unat sz), replicate (unat sz) 0)])"
      by (simp add: queue_alloc [OF spec [OF assms]])
    show ?thesis
    proof (cases "\<forall>j<Suc k. allocs (i + j) (unat sz) \<noteq> None")
      case all: True
      then have "\<forall>j<k. allocs (i + 1 + j) (unat sz) \<noteq> None" by auto
      then show ?thesis unfolding step Suc.IH using True all by simp
    next
      case some: False
      then obtain j where "allocs (i + j) (unat sz) = None" by blast
      from Least_Suc [of "\<lambda>j. allocs (i + j) (unat sz) = None", OF this]
      have "(LEAST j. allocs (i + j) (unat sz) = None) = Suc (LEAST j. allocs (i + 1 + j) (unat sz) = None)" using True by simp
      moreover have "\<not> (\<forall>j<k. allocs (i + 1 + j) (unat sz) \<noteq> None)" using some True by (auto simp: All_less_Suc2)
      ultimately show ?thesis unfolding step Suc.IH using True some by simp
    qed
  next
    case False
    have "allocs (i + 0) (unat sz) = None" if "unat sz \<le> 2 ^ 19" using that False by (simp del: split_paired_Ex split_paired_All)
    then have "(LEAST j. allocs (i + j) (unat sz) = None) = 0" if "unat sz \<le> 2 ^ 19" using that by (intro Least_eq_0) blast
    moreover have "alloc_loop allocs sz i (Suc k) queues = (False, queues)"
      using False by (auto simp: queue_alloc [OF spec [OF assms]] simp del: split_paired_Ex split_paired_All)
    moreover have "\<not> (unat sz \<le> 2 ^ 19 \<and> (\<forall>j<Suc k. allocs (i + j) (unat sz) \<noteq> None))" using False by auto
    ultimately show ?thesis by (simp del: split_paired_Ex split_paired_All)
  qed
qed simp

lemma ring_cleanup:
  assumes h: "ring_holds r q" and l: "spin_ok S (consumer_lock r)"
  shows "\<exists>r'. ptr_ring_cleanup S destroy r = Some ((queue_addr r, if destroy then q else []), r') \<and> queue_addr r' = queue_addr r"
proof -
  have "\<exists>r'. cleanup_loop S gone r = Some (gone @ q, r') \<and> queue_addr r' = queue_addr r" for gone
    using h l
  proof (induction q arbitrary: r gone)
    case Nil
    then show ?case using ring_consume [OF Nil.prems(1)] consumer_variants(1) [OF consume_blind Nil.prems(2)]
      by (subst cleanup_loop.simps) (auto simp: ptr_ring_consume_def same_frame_def)
  next
    case (Cons x xs)
    obtain r1 where r1: "ptr_ring_consume S r = Some (x, r1)" "ring_holds r1 xs" "spin_ok S (consumer_lock r1)" "queue_addr r1 = queue_addr r"
      using ring_consume [OF Cons.prems(1)] consumer_variants(1) [OF consume_blind Cons.prems(2)] Cons.prems(2)
      by (auto simp: ptr_ring_consume_def same_frame_def)
    have "x \<noteq> 0" using ring_nonzero [OF Cons.prems(1)] by auto
    then show ?case using Cons.IH [OF r1(2,3), of "gone @ [x]"] r1(1,4) by (subst cleanup_loop.simps) auto
  qed
  from this [of "[]"] show ?thesis by (auto simp: ptr_ring_cleanup_def)
qed

end
