(* ===== verification/Ring_Race.thy ===== *)
theory Ring_Race
  imports Ring_Facts
begin

text \<open>
  A producer and a consumer on one ring, access by access. Producers exclude each other by their lock and
  consumers by theirs, but the two sides share the cells without a lock: one access to a cell of the array is one
  step, and the fields that only one side uses change with its next step.
\<close>

subsection \<open>Steps\<close>

datatype produce_phase = P_idle | P_store u64

datatype consume_phase = C_idle | C_has u64 | C_clear u64 nat

record 'l ptr_ring_race =
  race_ring :: "'l ptr_ring"
  race_producer :: produce_phase
  race_consumer :: consume_phase
  sent :: "u64 list"
  got :: "u64 list"

text \<open>
  \<open>P_store\<close>: the producer has seen its cell free and is about to store. \<open>C_has\<close>: the consumer has read a pointer.
  \<open>C_clear\<close>: it is clearing cells, the next one has the number before the argument.
\<close>

inductive ptr_ring_step :: "'l ptr_ring_race \<Rightarrow> 'l ptr_ring_race \<Rightarrow> bool" where
  full: "race_producer s = P_idle \<Longrightarrow> slot (race_ring s) (producer (race_ring s)) = Some v \<Longrightarrow> v \<noteq> 0 \<Longrightarrow> ptr_ring_step s s"
| free: "race_producer s = P_idle \<Longrightarrow> slot (race_ring s) (producer (race_ring s)) = Some 0 \<Longrightarrow> ptr \<noteq> 0 \<Longrightarrow>
    ptr_ring_step s (s\<lparr>race_producer := P_store ptr\<rparr>)"
| store: "race_producer s = P_store ptr \<Longrightarrow> put_slot (race_ring s) (producer (race_ring s)) ptr = Some r \<Longrightarrow>
    ptr_ring_step s (s\<lparr>race_ring := produce_end r, race_producer := P_idle, sent := sent s @ [ptr]\<rparr>)"
| none: "race_consumer s = C_idle \<Longrightarrow> slot (race_ring s) (consumer_head (race_ring s)) = Some 0 \<Longrightarrow> ptr_ring_step s s"
| has: "race_consumer s = C_idle \<Longrightarrow> slot (race_ring s) (consumer_head (race_ring s)) = Some v \<Longrightarrow> v \<noteq> 0 \<Longrightarrow>
    ptr_ring_step s (s\<lparr>race_consumer := C_has v\<rparr>)"
| keep: "race_consumer s = C_has v \<Longrightarrow> \<not> discard_clears (race_ring s) \<Longrightarrow>
    ptr_ring_step s (s\<lparr>race_ring := discard_end False (race_ring s), race_consumer := C_idle, got := got s @ [v]\<rparr>)"
| start: "race_consumer s = C_has v \<Longrightarrow> discard_clears (race_ring s) \<Longrightarrow>
    ptr_ring_step s (s\<lparr>race_consumer := C_clear v (consumer_head (race_ring s) + 1)\<rparr>)"
| clear: "race_consumer s = C_clear v (Suc h) \<Longrightarrow> consumer_tail (race_ring s) \<le> h \<Longrightarrow> put_slot (race_ring s) h 0 = Some r \<Longrightarrow>
    ptr_ring_step s (s\<lparr>race_ring := r, race_consumer := C_clear v h\<rparr>)"
| cleared: "race_consumer s = C_clear v h \<Longrightarrow> h \<le> consumer_tail (race_ring s) \<Longrightarrow>
    ptr_ring_step s (s\<lparr>race_ring := discard_end True (race_ring s), race_consumer := C_idle, got := got s @ [v]\<rparr>)"

inductive ptr_ring_reach :: "'l ptr_ring_race \<Rightarrow> 'l ptr_ring_race \<Rightarrow> bool" where
  reach_refl: "ptr_ring_reach s s"
| reach_step: "ptr_ring_reach s t \<Longrightarrow> ptr_ring_step t u \<Longrightarrow> ptr_ring_reach s u"

definition race_start :: "'l ptr_ring \<Rightarrow> 'l ptr_ring_race" where
  "race_start r = \<lparr>race_ring = r, race_producer = P_idle, race_consumer = C_idle, sent = [], got = []\<rparr>"

subsection \<open>The cells\<close>

text \<open>
  Read from cell \<open>b\<close> on: the pointers to consume, free cells, consumed cells not cleared, and cleared
  cells behind them.
\<close>

definition laid_out :: "'l ptr_ring \<Rightarrow> nat \<Rightarrow> u64 list \<Rightarrow> nat \<Rightarrow> u64 list \<Rightarrow> nat \<Rightarrow> bool" where
  "laid_out r b q free stale m \<longleftrightarrow> 0 < ring_size r \<and> length (ring_queue r) = ring_size r \<and> b \<le> ring_size r \<and>
     turned b (ring_queue r) = q @ replicate free 0 @ stale @ replicate m 0 \<and> producer r = (b + length q) mod ring_size r \<and>
     (stale = [] \<longrightarrow> m = 0) \<and> 0 \<notin> set q \<and> 0 \<notin> set stale"

lemma laid_out_length: "laid_out r b q free stale m \<Longrightarrow> length q + free + length stale + m = ring_size r"
  unfolding laid_out_def by (metis length_append length_replicate length_turned add.assoc)

lemma laid_out_producer:
  assumes l: "laid_out r b q free stale m"
  shows "\<exists>v. slot r (producer r) = Some v \<and> (v = 0 \<longleftrightarrow> 0 < free)"
proof -
  note len = laid_out_length [OF l]
  have d: "0 < ring_size r" "length (ring_queue r) = ring_size r" "b \<le> ring_size r"
    "turned b (ring_queue r) = q @ replicate free 0 @ stale @ replicate m 0" "producer r = (b + length q) mod ring_size r"
    "stale = [] \<longrightarrow> m = 0" "0 \<notin> set q" "0 \<notin> set stale" using l by (auto simp: laid_out_def)
  have p: "producer r < ring_size r" using d(1,5) by simp
  have "ring_queue r ! producer r = 0 \<longleftrightarrow> 0 < free"
  proof (cases "length q < ring_size r")
    case True
    then have v: "ring_queue r ! producer r = (q @ replicate free 0 @ stale @ replicate m 0) ! length q"
      using nth_turned [of b "ring_queue r" "length q"] d by simp
    show ?thesis
    proof (cases free)
      case 0
      then have "stale \<noteq> []" using True len d(6) by auto
      then obtain x xs where "stale = x # xs" by (cases stale) auto
      then show ?thesis using v d(8) 0 by (auto simp: nth_append)
    next
      case (Suc k)
      then show ?thesis using v by (simp add: nth_append)
    qed
  next
    case False
    then have z: "length q = ring_size r" "free = 0" using len by auto
    have "ring_queue r ! producer r = q ! 0"
      using nth_turned [of b "ring_queue r" 0] d(1-5) z False by (simp add: nth_append)
    moreover have "q ! 0 \<in> set q" using z(1) d(1) by (intro nth_mem) simp
    ultimately show ?thesis using d(7) z(2) by auto
  qed
  then show ?thesis using p d(2) by (simp add: slot_def)
qed

lemma laid_out_store:
  assumes l: "laid_out r b q (Suc free) stale m" and ptr: "ptr \<noteq> 0" and s: "put_slot r (producer r) ptr = Some r'"
  shows "laid_out (produce_end r') b (q @ [ptr]) free stale m"
proof -
  note len = laid_out_length [OF l]
  have d: "0 < ring_size r" "length (ring_queue r) = ring_size r" "b \<le> ring_size r"
    "turned b (ring_queue r) = q @ replicate (Suc free) 0 @ stale @ replicate m 0" "producer r = (b + length q) mod ring_size r"
    "stale = [] \<longrightarrow> m = 0" "0 \<notin> set q" "0 \<notin> set stale" using l by (auto simp: laid_out_def)
  have p: "producer r < ring_size r" using d(1,5) by simp
  have r': "r' = r\<lparr>ring_queue := (ring_queue r)[producer r := ptr]\<rparr>" using s p d(2) by (simp add: put_slot_def)
  have "turned b ((ring_queue r)[producer r := ptr]) = (turned b (ring_queue r))[length q := ptr]"
    using turned_update [of b "ring_queue r" "length q" ptr] d(2,3,5) len by simp
  then have t: "turned b ((ring_queue r)[producer r := ptr]) = (q @ [ptr]) @ replicate free 0 @ stale @ replicate m 0"
    by (simp add: d(4) list_update_append)
  have e: "producer (produce_end r') = (b + length (q @ [ptr])) mod ring_size r"
    using p by (auto simp: r' produce_end_def Let_def d(5) mod_Suc)
  have f: "ring_queue (produce_end r') = (ring_queue r)[producer r := ptr]" "ring_size (produce_end r') = ring_size r"
    by (simp_all add: r' produce_end_def Let_def)
  show ?thesis using t d ptr e f by (simp add: laid_out_def)
qed

text \<open>Clearing the last of the consumed cells.\<close>

lemma laid_out_clear:
  assumes l: "laid_out r b q free stale m" and h: "b = h + 1 + m" "stale \<noteq> []" and s: "put_slot r h 0 = Some r'"
  shows "if length stale = 1 then laid_out r' b q (free + 1 + m) [] 0 else laid_out r' b q free (butlast stale) (Suc m)"
proof -
  note len = laid_out_length [OF l]
  have d: "0 < ring_size r" "length (ring_queue r) = ring_size r" "b \<le> ring_size r"
    "turned b (ring_queue r) = q @ replicate free 0 @ stale @ replicate m 0" "producer r = (b + length q) mod ring_size r"
    "0 \<notin> set q" "0 \<notin> set stale" using l by (auto simp: laid_out_def)
  obtain st x where st: "stale = st @ [x]" using h(2) by (cases stale rule: rev_cases) auto
  have r': "r' = r\<lparr>ring_queue := (ring_queue r)[h := 0]\<rparr>" using s d(2,3) h(1) by (simp add: put_slot_def)
  let ?k = "length q + free + length st"
  have k: "?k < ring_size r" "b + ?k = h + ring_size r" using len st h(1) by auto
  moreover have "h < ring_size r" using d(3) h(1) by simp
  ultimately have "(b + ?k) mod ring_size r = h" by (simp only: mod_add_self2 mod_less)
  then have "turned b ((ring_queue r)[h := 0]) = (turned b (ring_queue r))[?k := 0]"
    using turned_update [of b "ring_queue r" ?k 0] d(2,3) k(1) by simp
  also have "\<dots> = q @ replicate free 0 @ st @ 0 # replicate m 0"
    by (simp add: d(4) st list_update_append)
  finally have t: "turned b ((ring_queue r)[h := 0]) = q @ replicate free 0 @ st @ replicate (Suc m) 0" by simp
  show ?thesis
  proof (cases "st = []")
    case True
    then have "turned b ((ring_queue r)[h := 0]) = q @ replicate (free + 1 + m) 0 @ [] @ replicate 0 0"
      using t by (simp add: replicate_add replicate_append_same)
    then show ?thesis using d r' st True by (simp add: laid_out_def)
  next
    case False
    then show ?thesis using t d r' st by (simp add: laid_out_def)
  qed
qed

lemma laid_out_ring:
  assumes "0 < ring_size r"
  shows "ring_holds r q \<longleftrightarrow> 0 < ring_batch r \<and> consumer_tail r \<le> consumer_head r \<and>
    consumer_head r < consumer_tail r + ring_batch r \<and> consumer_head r < ring_size r \<and>
    (\<exists>free stale. laid_out r (consumer_head r) q free stale 0 \<and> length stale = consumer_head r - consumer_tail r)"
  using assms by (auto simp: ring_holds_def laid_out_def)

subsection \<open>The invariant\<close>

definition consumer_ok :: "'l ptr_ring \<Rightarrow> consume_phase \<Rightarrow> u64 list \<Rightarrow> bool" where
  "consumer_ok r c pending \<longleftrightarrow> (case c of
     C_idle \<Rightarrow> ring_holds r pending
   | C_has v \<Rightarrow> ring_holds r pending \<and> (\<exists>q. pending = v # q)
   | C_clear v h \<Rightarrow> v \<noteq> 0 \<and> consumer_head r < ring_size r \<and> 0 < ring_batch r \<and> consumer_tail r \<le> h \<and>
       (\<exists>q free stale m. pending = v # q \<and> laid_out r (consumer_head r + 1) q free stale m \<and>
          (if stale = [] then h = consumer_tail r
           else length stale = h - consumer_tail r \<and> consumer_head r + 1 = h + m)))"

definition race_ok :: "'l ptr_ring_race \<Rightarrow> bool" where
  "race_ok s \<longleftrightarrow> 0 < ring_size (race_ring s) \<and>
     (\<exists>pending. sent s = got s @ pending \<and> consumer_ok (race_ring s) (race_consumer s) pending) \<and>
     (\<forall>ptr. race_producer s = P_store ptr \<longrightarrow>
        ptr \<noteq> 0 \<and> slot (race_ring s) (producer (race_ring s)) = Some 0)"

lemma clear_okI:
  assumes "laid_out r (consumer_head r + 1) q free stale m" "consumer_head r < ring_size r" "0 < ring_batch r" "consumer_tail r \<le> h"
    "if stale = [] then h = consumer_tail r else length stale = h - consumer_tail r \<and> consumer_head r + 1 = h + m" "v \<noteq> 0"
  shows "consumer_ok r (C_clear v h) (v # q)"
  unfolding consumer_ok_def consume_phase.case using assms by blast

lemma clear_okE:
  assumes "consumer_ok r (C_clear v h) pending"
  obtains q free stale m where "pending = v # q" "laid_out r (consumer_head r + 1) q free stale m"
    "if stale = [] then h = consumer_tail r else length stale = h - consumer_tail r \<and> consumer_head r + 1 = h + m"
    "consumer_head r < ring_size r" "0 < ring_batch r" "consumer_tail r \<le> h" "v \<noteq> 0"
  using assms unfolding consumer_ok_def consume_phase.case by blast

lemma consumer_ok_clears:
  assumes "consumer_ok r (C_clear v (Suc h)) pending" "consumer_tail r \<le> h"
  shows "put_slot r h 0 \<noteq> None"
proof -
  from assms(1) obtain q free stale m where "laid_out r (consumer_head r + 1) q free stale m"
    "if stale = [] then Suc h = consumer_tail r else length stale = Suc h - consumer_tail r \<and> consumer_head r + 1 = Suc h + m"
    "consumer_head r < ring_size r" by (rule clear_okE)
  then have "h < length (ring_queue r)" using assms(2) by (auto simp: laid_out_def split: if_splits)
  then show ?thesis by (simp add: put_slot_def)
qed

lemma produce_end_frame [simp]:
  "consumer_head (produce_end r) = consumer_head r" "consumer_tail (produce_end r) = consumer_tail r"
  "ring_size (produce_end r) = ring_size r" "ring_batch (produce_end r) = ring_batch r" "ring_queue (produce_end r) = ring_queue r"
  by (simp_all add: produce_end_def Let_def)

lemma discard_end_frame [simp]:
  "producer (discard_end c r) = producer r" "ring_size (discard_end c r) = ring_size r" "ring_queue (discard_end c r) = ring_queue r"
  "ring_batch (discard_end c r) = ring_batch r"
  by (simp_all add: discard_end_def Let_def)

lemma put_slot_frame:
  assumes "put_slot r i v = Some r'"
  shows "consumer_head r' = consumer_head r" "consumer_tail r' = consumer_tail r" "ring_size r' = ring_size r"
    "ring_batch r' = ring_batch r" "producer r' = producer r"
  using assms by (auto simp: put_slot_def split: if_splits)

lemma consumer_ok_store:
  assumes c: "consumer_ok r c pending" and n: "0 < ring_size r" and z: "slot r (producer r) = Some 0" and ptr: "ptr \<noteq> 0"
    and s: "put_slot r (producer r) ptr = Some r'"
  shows "consumer_ok (produce_end r') c (pending @ [ptr])"
proof -
  note fr = put_slot_frame [OF s]
  have holds: "ring_holds (produce_end r') (pending @ [ptr])" if h: "ring_holds r pending"
  proof -
    have "ring_used r pending < ring_size r" using ring_slot_producer [OF h n] z by auto
    from ring_produce [OF h this ptr] show ?thesis using n z s by (auto simp: plain_ptr_ring_produce_def)
  qed
  show ?thesis
  proof (cases c)
    case (C_clear v h)
    from c [unfolded this] obtain q free stale m where l: "pending = v # q" "laid_out r (consumer_head r + 1) q free stale m"
      "if stale = [] then h = consumer_tail r else length stale = h - consumer_tail r \<and> consumer_head r + 1 = h + m"
      "consumer_head r < ring_size r" "0 < ring_batch r" "consumer_tail r \<le> h" "v \<noteq> 0" by (rule clear_okE)
    obtain k where k: "free = Suc k" using laid_out_producer [OF l(2)] z by (cases free) auto
    have "laid_out (produce_end r') (consumer_head (produce_end r') + 1) (q @ [ptr]) k stale m"
      using laid_out_store [OF l(2) [unfolded k] ptr s] fr by simp
    from clear_okI [OF this, where h = h and v = v] show ?thesis using l(1,3-7) fr C_clear by (cases "stale = []") simp_all
  qed (use c holds in \<open>auto simp: consumer_ok_def\<close>)
qed

lemma consumer_ok_start:
  assumes h: "ring_holds r (v # q)" and n: "0 < ring_size r"
  shows "consumer_ok r (C_clear v (consumer_head r + 1)) (v # q)"
proof -
  from h laid_out_ring [OF n] obtain free stale where l: "laid_out r (consumer_head r) (v # q) free stale 0"
    "length stale = consumer_head r - consumer_tail r" "0 < ring_batch r" "consumer_tail r \<le> consumer_head r"
    "consumer_head r < ring_size r" by blast
  have d: "length (ring_queue r) = ring_size r" "turned (consumer_head r) (ring_queue r) = (v # q) @ replicate free 0 @ stale"
    "producer r = (consumer_head r + length (v # q)) mod ring_size r" "0 \<notin> set (v # q)" "0 \<notin> set stale"
    using l(1) by (auto simp: laid_out_def)
  have "ring_queue r ! consumer_head r = v" using nth_turned [of "consumer_head r" "ring_queue r" 0] d(1,2) l(5) n by simp
  then have "turned (Suc (consumer_head r)) (ring_queue r) = q @ replicate free 0 @ (stale @ [v]) @ replicate 0 0"
    using turned_Suc [of "consumer_head r" "ring_queue r"] d(1,2) l(5) by simp
  then have lo: "laid_out r (consumer_head r + 1) q free (stale @ [v]) 0" using d l(5) n by (simp add: laid_out_def)
  have "length (stale @ [v]) = consumer_head r + 1 - consumer_tail r" using l(2,4) by simp
  with lo show ?thesis using l(3-5) d(4) by (intro clear_okI [of _ q free "stale @ [v]" 0]) simp_all
qed

lemma consumer_ok_clear:
  assumes c: "consumer_ok r (C_clear v (Suc h)) pending" and t: "consumer_tail r \<le> h" and s: "put_slot r h 0 = Some r'"
  shows "consumer_ok r' (C_clear v h) pending"
proof -
  note fr = put_slot_frame [OF s]
  from c obtain q free stale m where l: "pending = v # q" "laid_out r (consumer_head r + 1) q free stale m"
    "if stale = [] then Suc h = consumer_tail r else length stale = Suc h - consumer_tail r \<and> consumer_head r + 1 = Suc h + m"
    "consumer_head r < ring_size r" "0 < ring_batch r" "v \<noteq> 0" by (rule clear_okE)
  have ne: "stale \<noteq> []" "length stale = Suc h - consumer_tail r" "consumer_head r + 1 = h + 1 + m" using l(3) t by (auto split: if_splits)
  note k = laid_out_clear [OF l(2) ne(3,1) s]
  show ?thesis
  proof (cases "length stale = 1")
    case True
    then have "h = consumer_tail r'" using ne(2) t fr by simp
    moreover have "laid_out r' (consumer_head r' + 1) q (free + 1 + m) [] 0" using k True fr by simp
    ultimately show ?thesis using l(1,4-6) fr clear_okI [of r' q "free + 1 + m" "[]" 0 h v] by simp
  next
    case False
    then have "butlast stale \<noteq> []" "length (butlast stale) = h - consumer_tail r'" "consumer_head r' + 1 = h + Suc m"
      using ne fr t by (auto simp: butlast_conv_take)
    moreover have "laid_out r' (consumer_head r' + 1) q free (butlast stale) (Suc m)" using k False fr by simp
    ultimately show ?thesis using l(1,4-6) fr t clear_okI [of r' q free "butlast stale" "Suc m" h v] by simp
  qed
qed

lemma consumer_ok_cleared:
  assumes c: "consumer_ok r (C_clear v h) pending" and t: "h \<le> consumer_tail r"
  shows "\<exists>q. pending = v # q \<and> ring_holds (discard_end True r) q"
proof -
  from c obtain q free stale m where l: "pending = v # q" "laid_out r (consumer_head r + 1) q free stale m"
    "if stale = [] then h = consumer_tail r else length stale = h - consumer_tail r \<and> consumer_head r + 1 = h + m"
    "consumer_head r < ring_size r" "0 < ring_batch r" "v \<noteq> 0" by (rule clear_okE)
  have "stale = []" using l(3) t by (auto split: if_splits)
  then have d: "turned (Suc (consumer_head r)) (ring_queue r) = q @ replicate free 0 @ []" "length (ring_queue r) = ring_size r"
    "producer r = (Suc (consumer_head r) + length q) mod ring_size r" "0 \<notin> set q" "0 < ring_size r"
    using l(2) by (auto simp: laid_out_def)
  have "ring_holds (discard_end True r) q"
  proof (cases "ring_size r \<le> Suc (consumer_head r)")
    case True
    then have n: "Suc (consumer_head r) = ring_size r" using l(4) by simp
    have "turned 0 (ring_queue r) = q @ replicate free 0 @ []" using turned_all [of "ring_queue r" "Suc (consumer_head r)"] d(1,2) True by simp
    moreover have "producer r = length q mod ring_size r" using d(3) unfolding n by simp
    ultimately show ?thesis using True d(2,4,5) l(5) unfolding ring_holds_def by (auto simp: discard_end_def Let_def intro!: exI)
  next
    case False
    then show ?thesis using d l(5) unfolding ring_holds_def by (auto simp: discard_end_def Let_def intro!: exI)
  qed
  with l(1) show ?thesis by blast
qed

lemma consumer_ok_keep:
  assumes h: "ring_holds r (v # q)" and "\<not> discard_clears r"
  shows "ring_holds (discard_end False r) q"
  using ring_discard [OF h] assms(2) by (simp add: plain_ptr_ring_discard_one_def)

lemma slot_put: "put_slot r h v = Some r' \<Longrightarrow> slot r' i = (if i = h then Some v else slot r i)"
  by (auto simp: put_slot_def slot_def split: if_splits)

lemma race_okE:
  assumes "race_ok s"
  obtains pending where "0 < ring_size (race_ring s)" "sent s = got s @ pending" "consumer_ok (race_ring s) (race_consumer s) pending"
    "\<forall>ptr. race_producer s = P_store ptr \<longrightarrow> ptr \<noteq> 0 \<and> slot (race_ring s) (producer (race_ring s)) = Some 0"
  using assms unfolding race_ok_def by blast

lemma slot_discard_end [simp]: "slot (discard_end c r) i = slot r i"
  by (simp add: slot_def)

theorem race_ok_step:
  assumes "ptr_ring_step s t" "race_ok s"
  shows "race_ok t"
proof -
  from assms(2) obtain p where p: "0 < ring_size (race_ring s)" "sent s = got s @ p" "consumer_ok (race_ring s) (race_consumer s) p"
    "\<forall>ptr. race_producer s = P_store ptr \<longrightarrow> ptr \<noteq> 0 \<and> slot (race_ring s) (producer (race_ring s)) = Some 0"
    by (rule race_okE)
  from assms(1) show ?thesis
  proof cases
    case (store ptr r)
    then have "consumer_ok (produce_end r) (race_consumer s) (p @ [ptr])" using consumer_ok_store [OF p(3,1)] p(4) by blast
    then show ?thesis using p(1,2) store put_slot_frame [OF store(3)] by (auto simp: race_ok_def)
  next
    case (has v)
    then have "\<exists>q. p = v # q" using ring_slot_head [of "race_ring s" p] p(1,3) by (cases p) (auto simp: consumer_ok_def)
    then show ?thesis using p has by (auto simp: race_ok_def consumer_ok_def)
  next
    case (keep v)
    then obtain q where q: "p = v # q" "ring_holds (race_ring s) (v # q)" using p(3) by (auto simp: consumer_ok_def)
    from consumer_ok_keep [OF q(2) keep(3)] show ?thesis using p(1,2,4) keep q(1) by (auto simp: race_ok_def consumer_ok_def)
  next
    case (start v)
    then obtain q where q: "p = v # q" "ring_holds (race_ring s) (v # q)" using p(3) by (auto simp: consumer_ok_def)
    from consumer_ok_start [OF q(2) p(1)] show ?thesis using p(1,2,4) start q(1) by (auto simp: race_ok_def)
  next
    case (clear v h r)
    then have "consumer_ok r (C_clear v h) p" using consumer_ok_clear p(3) by metis
    then show ?thesis using p(1,2,4) clear put_slot_frame [OF clear(4)] slot_put [OF clear(4)] by (auto simp: race_ok_def)
  next
    case (cleared v h)
    then obtain q where q: "p = v # q" "ring_holds (discard_end True (race_ring s)) q" using consumer_ok_cleared p(3) by metis
    then show ?thesis using p(1,2,4) cleared by (auto simp: race_ok_def consumer_ok_def)
  qed (use p assms(2) in \<open>auto simp: race_ok_def\<close>)
qed

theorem race_ok_reach: "ptr_ring_reach s t \<Longrightarrow> race_ok s \<Longrightarrow> race_ok t"
  by (induction rule: ptr_ring_reach.induct) (auto dest: race_ok_step)

lemma race_start_ok: "ring_holds r [] \<Longrightarrow> 0 < ring_size r \<Longrightarrow> race_ok (race_start r)"
  by (simp add: race_ok_def race_start_def consumer_ok_def)

lemma consumer_ok_cells:
  assumes c: "consumer_ok r c p" and n: "0 < ring_size r"
  shows "slot r (producer r) \<noteq> None" "slot r (consumer_head r) \<noteq> None" "0 \<notin> set p"
proof -
  have "slot r (producer r) \<noteq> None \<and> slot r (consumer_head r) \<noteq> None \<and> 0 \<notin> set p"
  proof (cases c)
    case (C_clear v h)
    from c [unfolded this] show ?thesis
    proof (rule clear_okE)
      fix q free stale m
      assume l: "p = v # q" "laid_out r (consumer_head r + 1) q free stale m" "consumer_head r < ring_size r" "v \<noteq> 0"
      then show ?thesis using laid_out_producer [OF l(2)] by (auto simp: laid_out_def slot_def)
    qed
  qed (use c ring_slot_producer [OF _ n] ring_slot_head [OF _ n] ring_nonzero in \<open>fastforce simp: consumer_ok_def\<close>)+
  then show "slot r (producer r) \<noteq> None" "slot r (consumer_head r) \<noteq> None" "0 \<notin> set p" by blast+
qed

subsection \<open>Steps without interruption\<close>

lemma ptr_ring_reach_trans: "ptr_ring_reach t u \<Longrightarrow> ptr_ring_reach s t \<Longrightarrow> ptr_ring_reach s u"
  by (induction rule: ptr_ring_reach.induct) (auto intro: reach_step)

lemma step_reach: "ptr_ring_step s t \<Longrightarrow> ptr_ring_reach s t"
  by (rule reach_step [OF reach_refl])

text \<open>The steps of one side, one after the other, are the operation.\<close>

lemma produce_steps:
  assumes "race_producer s = P_idle" "ptr \<noteq> 0" "0 < ring_size (race_ring s)" "plain_ptr_ring_produce ptr (race_ring s) = Some (0, r)"
  shows "ptr_ring_reach s (s\<lparr>race_ring := r, sent := sent s @ [ptr]\<rparr>)"
proof -
  let ?r = "race_ring s"
  obtain r1 where r1: "slot ?r (producer ?r) = Some 0" "put_slot ?r (producer ?r) ptr = Some r1" "r = produce_end r1"
    using assms(3,4) by (auto simp: plain_ptr_ring_produce_def ENOSPC_def split: bind_splits if_splits)
  let ?t = "s\<lparr>race_producer := P_store ptr\<rparr>"
  have a: "ptr_ring_step s ?t" using assms(1,2) r1(1) by (intro ptr_ring_step.free)
  have b: "ptr_ring_step ?t (?t\<lparr>race_ring := produce_end r1, race_producer := P_idle, sent := sent ?t @ [ptr]\<rparr>)"
    using r1(2) by (intro ptr_ring_step.store) simp_all
  have e: "?t\<lparr>race_ring := produce_end r1, race_producer := P_idle, sent := sent ?t @ [ptr]\<rparr> = s\<lparr>race_ring := r, sent := sent s @ [ptr]\<rparr>"
    using r1(3) assms(1) by (cases s) simp
  from ptr_ring_reach_trans [OF step_reach [OF b] step_reach [OF a]] show ?thesis unfolding e .
qed

lemma race_same: "race_ring s = r \<Longrightarrow> race_consumer s = c \<Longrightarrow> s\<lparr>race_ring := r, race_consumer := c\<rparr> = s"
  by (cases s) simp

lemma clear_steps:
  assumes "clear_down t h r = Some r'" "race_ring s = r" "race_consumer s = C_clear v h" "consumer_tail r = t"
  shows "\<exists>k. k \<le> t \<and> ptr_ring_reach s (s\<lparr>race_ring := r', race_consumer := C_clear v k\<rparr>) \<and> consumer_tail r' = t"
  using assms
proof (induction t h r arbitrary: s rule: clear_down.induct)
  case (1 t r)
  then have "s\<lparr>race_ring := r', race_consumer := C_clear v 0\<rparr> = s" "consumer_tail r' = t" using race_same [of s] by simp_all
  then show ?case using reach_refl [of s] by (intro exI [of _ 0]) simp
next
  case (2 t h r)
  show ?case
  proof (cases "t \<le> h")
    case True
    with 2(2) obtain r1 where r1: "put_slot r h 0 = Some r1" "clear_down t h r1 = Some r'" by (auto split: bind_splits)
    let ?u = "s\<lparr>race_ring := r1, race_consumer := C_clear v h\<rparr>"
    have "ptr_ring_step s ?u" using 2(3-5) True r1(1) by (intro ptr_ring_step.clear) simp_all
    then have u: "ptr_ring_reach s ?u" by (rule step_reach)
    obtain k where k: "k \<le> t" "ptr_ring_reach ?u (?u\<lparr>race_ring := r', race_consumer := C_clear v k\<rparr>)" "consumer_tail r' = t"
      using 2(1) [OF True r1(1,2), of ?u] put_slot_frame(2) [OF r1(1)] 2(5) by auto
    from ptr_ring_reach_trans [OF k(2) u] k(1,3) show ?thesis by (intro exI [of _ k]) simp
  next
    case False
    then have "s\<lparr>race_ring := r', race_consumer := C_clear v (Suc h)\<rparr> = s" "consumer_tail r' = t"
      using 2(2-5) race_same [of s] by simp_all
    then show ?thesis using False reach_refl [of s] by (intro exI [of _ "Suc h"]) simp
  qed
qed

lemma consume_steps:
  assumes "race_consumer s = C_idle" "plain_ptr_ring_consume (race_ring s) = Some (v, r)" "v \<noteq> 0"
  shows "ptr_ring_reach s (s\<lparr>race_ring := r, got := got s @ [v]\<rparr>)"
proof -
  let ?r = "race_ring s"
  have d: "slot ?r (consumer_head ?r) = Some v" "plain_ptr_ring_discard_one ?r = Some r"
    using assms(2,3) by (auto simp: plain_ptr_ring_consume_def plain_ptr_ring_peek_def split: bind_splits if_splits)
  let ?t = "s\<lparr>race_consumer := C_has v\<rparr>" and ?e = "s\<lparr>race_ring := r, got := got s @ [v]\<rparr>"
  have t: "ptr_ring_step s ?t" using assms(1,3) d(1) by (intro ptr_ring_step.has)
  have "ptr_ring_reach ?t ?e"
  proof (cases "discard_clears ?r")
    case True
    then obtain c where c: "clear_down (consumer_tail ?r) (consumer_head ?r + 1) ?r = Some c" "r = discard_end True c"
      using d(2) by (auto simp: plain_ptr_ring_discard_one_def)
    let ?u = "s\<lparr>race_consumer := C_clear v (consumer_head ?r + 1)\<rparr>"
    have "ptr_ring_step ?t (?t\<lparr>race_consumer := C_clear v (consumer_head (race_ring ?t) + 1)\<rparr>)" using True by (intro ptr_ring_step.start) simp_all
    then have u: "ptr_ring_step ?t ?u" by (cases s) simp
    obtain k where k: "k \<le> consumer_tail ?r" "ptr_ring_reach ?u (?u\<lparr>race_ring := c, race_consumer := C_clear v k\<rparr>)" "consumer_tail c = consumer_tail ?r"
      using clear_steps [OF c(1), of ?u v] by auto
    let ?w = "?u\<lparr>race_ring := c, race_consumer := C_clear v k\<rparr>"
    have "ptr_ring_step ?w (?w\<lparr>race_ring := discard_end True (race_ring ?w), race_consumer := C_idle, got := got ?w @ [v]\<rparr>)"
      using k(1,3) by (intro ptr_ring_step.cleared) simp_all
    then have w: "ptr_ring_reach ?w (?w\<lparr>race_ring := discard_end True (race_ring ?w), race_consumer := C_idle, got := got ?w @ [v]\<rparr>)"
      by (rule step_reach)
    have e: "?w\<lparr>race_ring := discard_end True (race_ring ?w), race_consumer := C_idle, got := got ?w @ [v]\<rparr> = ?e"
      using c(2) assms(1) by (cases s) simp
    from ptr_ring_reach_trans [OF ptr_ring_reach_trans [OF w k(2)] step_reach [OF u]] show ?thesis unfolding e .
  next
    case False
    have "ptr_ring_step ?t (?t\<lparr>race_ring := discard_end False (race_ring ?t), race_consumer := C_idle, got := got ?t @ [v]\<rparr>)"
      using False by (intro ptr_ring_step.keep) simp_all
    then have w: "ptr_ring_reach ?t (?t\<lparr>race_ring := discard_end False (race_ring ?t), race_consumer := C_idle, got := got ?t @ [v]\<rparr>)"
      by (rule step_reach)
    have e: "?t\<lparr>race_ring := discard_end False (race_ring ?t), race_consumer := C_idle, got := got ?t @ [v]\<rparr> = ?e"
      using d(2) False assms(1) by (cases s) (simp add: plain_ptr_ring_discard_one_def)
    from w show ?thesis unfolding e .
  qed
  from ptr_ring_reach_trans [OF this step_reach [OF t]] show ?thesis .
qed

end
