(* ===== verification/Queue_Claims.thy ===== *)
theory Queue_Claims
  imports Heap_Facts Ring_Locks Ring_Race
begin

text \<open>
  Properties of the array heaps and of the pointer rings, each with a witness at a concrete heap or ring.
\<close>

subsection \<open>Array heaps\<close>

text \<open>C35: An array heap is a bounded priority queue, whatever the order the callback \<open>less\<close> gives: peeking shows
  a least element; pushing adds the element, or reports false when the array is full; popping takes the
  element peeked at, or reports false on an empty heap; popping and pushing at once replaces that element;
  deleting takes out the element of the given cell. Every operation ends, keeps the heap order and
  loses or invents no element.\<close>

theorem min_heap_is_priority_queue:
  assumes c: "calls_ok func" and h: "heap_ok func h"
  shows "(case min_heap_peek h of None \<Rightarrow> heap_elems h = {#}
      | Some x \<Rightarrow> x \<in># heap_elems h \<and> (\<forall>y\<in>#heap_elems h. \<not> call_less func y x)) \<and>
    (if min_heap_full h then min_heap_push func e h = (False, h)
     else \<exists>h'. min_heap_push func e h = (True, h') \<and> heap_ok func h' \<and> heap_elems h' = add_mset e (heap_elems h)) \<and>
    (case min_heap_peek h of None \<Rightarrow> min_heap_pop func h = Some (False, h)
      | Some x \<Rightarrow> (\<exists>h'. min_heap_pop func h = Some (True, h') \<and> heap_ok func h' \<and> heap_elems h' = heap_elems h - {#x#}) \<and>
          (\<exists>h'. min_heap_pop_push func e h = Some h' \<and> heap_ok func h' \<and> heap_elems h' = add_mset e (heap_elems h - {#x#}))) \<and>
    (\<forall>i<heap_nr h. \<exists>h'. min_heap_del func i h = Some (True, h') \<and> heap_ok func h' \<and>
       heap_elems h' = heap_elems h - {#heap_data h ! i#})"
proof (intro conjI)
  note p = heap_peek [OF c h]
  show "case min_heap_peek h of None \<Rightarrow> heap_elems h = {#}
      | Some x \<Rightarrow> x \<in># heap_elems h \<and> (\<forall>y\<in>#heap_elems h. \<not> call_less func y x)"
    using p by (simp add: below_def)
  show "if min_heap_full h then min_heap_push func e h = (False, h)
     else \<exists>h'. min_heap_push func e h = (True, h') \<and> heap_ok func h' \<and> heap_elems h' = add_mset e (heap_elems h)"
    using heap_push_full [of h] heap_push [OF c h, of e] h by (auto simp: min_heap_full_def heap_ok_def)
  show "case min_heap_peek h of None \<Rightarrow> min_heap_pop func h = Some (False, h)
      | Some x \<Rightarrow> (\<exists>h'. min_heap_pop func h = Some (True, h') \<and> heap_ok func h' \<and> heap_elems h' = heap_elems h - {#x#}) \<and>
          (\<exists>h'. min_heap_pop_push func e h = Some h' \<and> heap_ok func h' \<and> heap_elems h' = add_mset e (heap_elems h - {#x#}))"
    unfolding p(1) using heap_pop [OF c h] heap_pop_push [OF c h, of e] heap_pop_empty [OF h] by auto
  show "\<forall>i<heap_nr h. \<exists>h'. min_heap_del func i h = Some (True, h') \<and> heap_ok func h' \<and>
       heap_elems h' = heap_elems h - {#heap_data h ! i#}"
    using heap_del [OF c h] by blast
qed

text \<open>The heap 1, 3, 2 in an array of four: popping takes 1, and there is room for another element.\<close>

definition three_heap :: "nat min_heap" where
  "three_heap = \<lparr>heap_nr = 3, heap_size = 4, heap_data = [1, 3, 2, 0]\<rparr>"

lemma three_heap_ok: "heap_ok lin_calls three_heap"
proof -
  have "below lin_calls ([1, 3, 2, 0] ! up i) ([1, 3, 2, 0::nat] ! i)" if "i < 3" "0 < i" for i
  proof -
    from that consider "i = 1" | "i = 2" by linarith
    then show ?thesis by cases (simp_all add: lin_below up_def)
  qed
  then show ?thesis by (simp add: heap_ok_def heap_order_def three_heap_def)
qed

theorem min_heap_is_priority_queue_witness:
  "(\<exists>h'. min_heap_pop lin_calls three_heap = Some (True, h') \<and> heap_ok lin_calls h' \<and> heap_elems h' = {#2, 3#}) \<and>
   (\<exists>h'. min_heap_push lin_calls 5 three_heap = (True, h') \<and> heap_ok lin_calls h' \<and> heap_elems h' = {#1, 2, 3, 5#})"
proof -
  note w = min_heap_is_priority_queue [OF lin_calls_ok three_heap_ok, of 5]
  have "min_heap_peek three_heap = Some 1" "\<not> min_heap_full three_heap" "heap_elems three_heap = {#1, 2, 3#}"
    by (simp_all add: min_heap_peek_def min_heap_full_def heap_elems_def three_heap_def)
  with w show ?thesis by (simp add: add_mset_commute)
qed

text \<open>C36: Any array of values becomes a heap of the same values, and popping the heap until it is empty gives them
  in sorted order: heapify and pop are a heap sort.\<close>

theorem heapify_then_drain_sorts:
  fixes h :: "'a::linorder min_heap"
  assumes "heap_nr h \<le> heap_size h" "heap_size h \<le> length (heap_data h)"
  shows "\<exists>h'. min_heapify_all lin_calls h = Some h' \<and> heap_ok lin_calls h' \<and> heap_elems h' = heap_elems h \<and>
    drain min_heap_peek heap_next (heap_nr h) h' = sort (take (heap_nr h) (heap_data h))"
proof -
  obtain h' where h': "min_heapify_all lin_calls h = Some h'" "heap_ok lin_calls h'" "heap_elems h' = heap_elems h"
    using heap_heapify [OF lin_calls_ok assms] by blast
  have "size (heap_elems h') = heap_nr h" using assms by (simp add: h'(3)) (simp add: heap_elems_def)
  note d = heap_queue.drain_sorts [OF h'(2), unfolded this, unfolded h'(3)]
  have "drain min_heap_peek heap_next (heap_nr h) h' = sort (take (heap_nr h) (heap_data h))"
    using d by (intro properties_for_sort [symmetric]) (simp_all add: heap_elems_def)
  with h' show ?thesis by blast
qed

theorem heapify_then_drain_sorts_witness:
  "\<exists>h'. min_heapify_all lin_calls \<lparr>heap_nr = 5, heap_size = 6, heap_data = [4, 1, 3, 5, 2, 0 :: nat]\<rparr> = Some h' \<and>
     drain min_heap_peek heap_next 5 h' = [1, 2, 3, 4, 5]"
proof -
  have "sort [4, 1, 3, 5, 2 :: nat] = [1, 2, 3, 4, 5]" by simp
  with heapify_then_drain_sorts [of "\<lparr>heap_nr = 5, heap_size = 6, heap_data = [4, 1, 3, 5, 2, 0 :: nat]\<rparr>"]
  show ?thesis by auto
qed

subsection \<open>Pointer rings\<close>

lemma take_nonzero: "0 \<notin> set q \<Longrightarrow> 0 \<notin> set (take n q)"
  by (auto dest: in_set_takeD)

text \<open>C37: A pointer ring is a bounded first-in first-out queue, with every way of locking. Producing puts a pointer at the
  end, or is refused with -ENOSPC and no change when no cell is free; consuming takes the first pointer, or gives NULL on an
  empty ring; a batch takes the first ones into the array; the tests for empty and full and peeking tell the truth.
  Fewer than a batch of cells wait to be cleared. Whatever sequence of calls is made, what was
  consumed is a prefix of what was produced. Only the test for full has no guard for a ring without cells.\<close>

theorem ring_is_bounded_fifo:
  assumes h: "ring_holds r q" and l: "spin_ok S (producer_lock r)" "spin_ok S (consumer_lock r)" and ptr: "ptr \<noteq> 0"
    and n: "n \<le> length array"
  shows "(\<forall>op\<in>{ptr_ring_produce S ptr, ptr_ring_produce_irq S ptr, ptr_ring_produce_bh S ptr, ptr_ring_produce_any S ptr}.
      if ring_used r q < ring_size r then \<exists>r'. op r = Some (0, r') \<and> ring_holds r' (q @ [ptr]) else op r = Some (- ENOSPC, r)) \<and>
    (\<forall>op\<in>{ptr_ring_consume S, ptr_ring_consume_irq S, ptr_ring_consume_bh S, ptr_ring_consume_any S}.
      \<exists>r'. op r = Some (case q of [] \<Rightarrow> 0 | x # _ \<Rightarrow> x, r') \<and> ring_holds r' (tl q)) \<and>
    (\<forall>op\<in>{ptr_ring_consume_batched S array n, ptr_ring_consume_batched_irq S array n, ptr_ring_consume_batched_bh S array n,
        ptr_ring_consume_batched_any S array n}.
      \<exists>r'. op r = Some ((length (take n q), take n q @ drop (length (take n q)) array), r') \<and> ring_holds r' (drop n q)) \<and>
    (\<forall>op\<in>{ptr_ring_empty S, ptr_ring_empty_irq S, ptr_ring_empty_bh S, ptr_ring_empty_any S}. op r = Some (q = [], r)) \<and>
    (\<forall>op\<in>{ptr_ring_full S, ptr_ring_full_irq S, ptr_ring_full_bh S, ptr_ring_full_any S}.
      op r = (if ring_size r = 0 then None else Some (ring_size r \<le> ring_used r q, r))) \<and>
    (\<forall>op\<in>{PTR_RING_PEEK_CALL S f, PTR_RING_PEEK_CALL_IRQ S f, PTR_RING_PEEK_CALL_BH S f, PTR_RING_PEEK_CALL_ANY S f}.
      op r = Some (f (case q of [] \<Rightarrow> 0 | x # _ \<Rightarrow> x), r)) \<and>
    length q \<le> ring_size r \<and> length q \<le> ring_used r q \<and> ring_used r q < length q + ring_batch r \<and>
    (\<forall>cs ins outs r'. (\<forall>x. Put x \<in> set cs \<longrightarrow> x \<noteq> 0) \<and> queue_run ring_put ring_get cs r = (ins, outs, r') \<longrightarrow>
      (\<exists>rest. q @ ins = outs @ rest \<and> ring_holds r' rest))"
proof (intro conjI)
  note p = producer_variants [OF _ l(1)] and c = consumer_variants [OF _ l(2)]
  show "\<forall>op\<in>{ptr_ring_produce S ptr, ptr_ring_produce_irq S ptr, ptr_ring_produce_bh S ptr, ptr_ring_produce_any S ptr}.
      if ring_used r q < ring_size r then \<exists>r'. op r = Some (0, r') \<and> ring_holds r' (q @ [ptr]) else op r = Some (- ENOSPC, r)"
    using ring_produce [OF h _ ptr] ring_produce_full [OF h, of ptr] by (auto simp: ring_lock_defs p [OF produce_blind])
  show "\<forall>op\<in>{ptr_ring_consume S, ptr_ring_consume_irq S, ptr_ring_consume_bh S, ptr_ring_consume_any S}.
      \<exists>r'. op r = Some (case q of [] \<Rightarrow> 0 | x # _ \<Rightarrow> x, r') \<and> ring_holds r' (tl q)"
    using ring_consume [OF h] by (auto simp: ring_lock_defs c [OF consume_blind])
  show "\<forall>op\<in>{ptr_ring_consume_batched S array n, ptr_ring_consume_batched_irq S array n, ptr_ring_consume_batched_bh S array n,
        ptr_ring_consume_batched_any S array n}.
      \<exists>r'. op r = Some ((length (take n q), take n q @ drop (length (take n q)) array), r') \<and> ring_holds r' (drop n q)"
    using ring_batched [OF h n] by (auto simp: ring_lock_defs c [OF batched_blind])
  show "\<forall>op\<in>{ptr_ring_empty S, ptr_ring_empty_irq S, ptr_ring_empty_bh S, ptr_ring_empty_any S}. op r = Some (q = [], r)"
    using ring_empty [OF h] by (simp add: ring_lock_defs c [OF empty_blind] reads_def)
  have "ring_size r = 0 \<Longrightarrow> plain_ptr_ring_full r = None"
    using h by (simp add: plain_ptr_ring_full_def slot_def ring_holds_def)
  then show "\<forall>op\<in>{ptr_ring_full S, ptr_ring_full_irq S, ptr_ring_full_bh S, ptr_ring_full_any S}.
      op r = (if ring_size r = 0 then None else Some (ring_size r \<le> ring_used r q, r))"
    using ring_full [OF h] by (auto simp: ring_lock_defs p [OF full_blind] reads_def)
  have peek: "reads (\<lambda>r. plain_PTR_RING_PEEK_CALL r f) r = Some (f (case q of [] \<Rightarrow> 0 | x # _ \<Rightarrow> x), r)"
    using ring_peek [OF h] by (simp add: reads_def plain_PTR_RING_PEEK_CALL_def)
  show "\<forall>op\<in>{PTR_RING_PEEK_CALL S f, PTR_RING_PEEK_CALL_IRQ S f, PTR_RING_PEEK_CALL_BH S f, PTR_RING_PEEK_CALL_ANY S f}.
      op r = Some (f (case q of [] \<Rightarrow> 0 | x # _ \<Rightarrow> x), r)"
    using peek by (simp add: ring_lock_defs c [OF peek_call_blind])
  show "length q \<le> ring_size r" using ring_holds_length [OF h] .
  show "length q \<le> ring_used r q" "ring_used r q < length q + ring_batch r" using h by (auto simp: ring_used_def ring_holds_def)
  show "\<forall>cs ins outs r'. (\<forall>x. Put x \<in> set cs \<longrightarrow> x \<noteq> 0) \<and> queue_run ring_put ring_get cs r = (ins, outs, r') \<longrightarrow>
      (\<exists>rest. q @ ins = outs @ rest \<and> ring_holds r' rest)"
    using ring_fifo.run_in_order [OF h] by blast
qed

text \<open>A spinlock as a truth value, and a ring of four cells that holds 7 and 8 around the end of its array.\<close>

definition bool_lock :: "bool spin_calls" where
  "bool_lock =
     (let lock = (\<lambda>l. if l then None else Some True); unlock = (\<lambda>l. Some False) in
      \<lparr>spin_lock = lock, spin_unlock = unlock, spin_lock_irq = lock, spin_unlock_irq = unlock, spin_lock_bh = lock,
       spin_unlock_bh = unlock, spin_lock_irqsave = (\<lambda>l. map_option (Pair 0) (lock l)),
       spin_unlock_irqrestore = (\<lambda>_. unlock), spin_lock_init = (\<lambda>_. False)\<rparr>)"

lemma bool_lock_ok: "spin_ok bool_lock False"
  by (auto simp: spin_ok_def bool_lock_def Let_def)

definition ring_7_8 :: "bool ptr_ring" where
  "ring_7_8 = \<lparr>producer = 1, producer_lock = False, consumer_head = 3, consumer_tail = 3, consumer_lock = False,
     ring_size = 4, ring_batch = 1, queue_addr = 0x1000, ring_queue = [8, 0, 0, 7]\<rparr>"

lemma ring_7_8_holds: "ring_holds ring_7_8 [7, 8]"
proof -
  have "[7, 8, 0, 0] = [7, 8 :: u64] @ replicate 2 0 @ []" by (simp add: eval_nat_numeral)
  then show ?thesis unfolding ring_holds_def ring_7_8_def turned_def by (auto intro!: exI)
qed

theorem ring_is_bounded_fifo_witness:
  "(\<exists>r'. ptr_ring_consume_bh bool_lock ring_7_8 = Some (7, r') \<and> ring_holds r' [8]) \<and>
   (\<exists>r'. ptr_ring_produce bool_lock 9 ring_7_8 = Some (0, r') \<and> ring_holds r' [7, 8, 9])"
proof -
  have l: "spin_ok bool_lock (producer_lock ring_7_8)" "spin_ok bool_lock (consumer_lock ring_7_8)"
    using bool_lock_ok by (simp_all add: ring_7_8_def)
  note w = ring_is_bounded_fifo [OF ring_7_8_holds l, of 9 0 "[]" id]
  have "ring_used ring_7_8 [7, 8] < ring_size ring_7_8" by (simp add: ring_used_def ring_7_8_def)
  with w show ?thesis by simp
qed

text \<open>C38: Pointers that were consumed in a batch and are given back with unconsume are in the ring again as before,
  and none is destroyed; in general as many of the last ones are put back in front as there is
  room for, and the first ones are destroyed, the latest first. After a change of size, to a larger or smaller
  array, the ring holds the first pointers that fit, in order, and the others are destroyed; its array is the one
  allocated and the one it had is freed; when the array cannot be allocated nothing changes and nothing is freed.
  Cleaning up destroys what is left, in order, and frees the array.\<close>

theorem ring_gives_back_and_resizes:
  assumes h: "ring_holds r q" and l: "spin_ok S (consumer_lock r)" "spin_ok S (producer_lock r)"
    and b: "n \<le> length batch" "0 \<notin> set (take n batch)" and a: "alloc_ok alloc"
  shows "(\<exists>k array r1 r2. ptr_ring_consume_batched S batch n r = Some ((k, array), r1) \<and>
      ptr_ring_unconsume S array k r1 = Some ([], r2) \<and> ring_holds r2 q) \<and>
    (let k = n - (ring_size r - length q) in
       \<exists>r'. ptr_ring_unconsume S batch n r = Some (rev (take k batch), r') \<and> ring_holds r' (drop k (take n batch) @ q)) \<and>
    (if unat sz \<le> 2 ^ 19 \<and> alloc (unat sz) \<noteq> None
     then \<exists>r'. ptr_ring_resize S alloc sz destroy r = Some ((0, [queue_addr r], if destroy then drop (unat sz) q else []), r') \<and>
       ring_holds r' (take (unat sz) q) \<and> ring_size r' = unat sz \<and> queue_addr r' = array_at alloc (unat sz)
     else ptr_ring_resize S alloc sz destroy r = Some ((- ENOMEM, [], []), r)) \<and>
    (\<exists>r'. ptr_ring_cleanup S destroy r = Some ((queue_addr r, if destroy then q else []), r'))"
proof (intro conjI)
  obtain r1 where r1: "plain_ptr_ring_consume_batched batch n r = Some ((length (take n q), take n q @ drop (length (take n q)) batch), r1)"
    "ring_holds r1 (drop n q)" "same_frame r r1" using ring_batched [OF h b(1)] by blast
  let ?a = "take n q @ drop (length (take n q)) batch" and ?k = "length (take n q)"
  have l1: "spin_ok S (consumer_lock r1)" "spin_ok S (producer_lock r1)" "ring_size r1 = ring_size r" using r1(3) l by (simp_all add: same_frame_def)
  have "?k - (ring_size r1 - length (drop n q)) = 0" using ring_holds_length [OF h] l1(3) by simp
  moreover have "take ?k ?a = take n q" by (simp add: min_def)
  ultimately obtain r2 where r2: "ptr_ring_unconsume S ?a ?k r1 = Some ([], r2)" "ring_holds r2 q"
    using ring_unconsume_done [OF r1(2) l1(1,2), of ?k ?a] take_nonzero [OF ring_nonzero [OF h]] by auto
  moreover have "ptr_ring_consume_batched S batch n r = Some ((?k, ?a), r1)"
    using r1(1) consumer_variants(1) [OF batched_blind l(1)] by (simp add: ptr_ring_consume_batched_def)
  ultimately show "\<exists>k array r1 r2. ptr_ring_consume_batched S batch n r = Some ((k, array), r1) \<and>
      ptr_ring_unconsume S array k r1 = Some ([], r2) \<and> ring_holds r2 q" by blast
  show "let k = n - (ring_size r - length q) in
       \<exists>r'. ptr_ring_unconsume S batch n r = Some (rev (take k batch), r') \<and> ring_holds r' (drop k (take n batch) @ q)"
    using ring_unconsume_done [OF h l b] by (auto simp: Let_def)
  show "if unat sz \<le> 2 ^ 19 \<and> alloc (unat sz) \<noteq> None
     then \<exists>r'. ptr_ring_resize S alloc sz destroy r = Some ((0, [queue_addr r], if destroy then drop (unat sz) q else []), r') \<and>
       ring_holds r' (take (unat sz) q) \<and> ring_size r' = unat sz \<and> queue_addr r' = array_at alloc (unat sz)
     else ptr_ring_resize S alloc sz destroy r = Some ((- ENOMEM, [], []), r)"
    by (rule ring_resize [OF h l a])
  show "\<exists>r'. ptr_ring_cleanup S destroy r = Some ((queue_addr r, if destroy then q else []), r')"
    using ring_cleanup [OF h l(1)] by blast
qed

text \<open>An allocator that never fails; resizing the ring of four to one cell.\<close>

definition zeroed :: "nat \<Rightarrow> ring_array option" where
  "zeroed n = Some (0x2000, replicate n 0)"

lemma zeroed_ok: "alloc_ok zeroed"
  by (simp add: alloc_ok_def zeroed_def)

lemma ring_7_8_locks: "spin_ok bool_lock (consumer_lock ring_7_8)" "spin_ok bool_lock (producer_lock ring_7_8)"
  using bool_lock_ok by (simp_all add: ring_7_8_def)

theorem ring_gives_back_and_resizes_witness:
  "\<exists>r'. ptr_ring_resize bool_lock zeroed 1 True ring_7_8 = Some ((0, [0x1000], [8]), r') \<and> ring_holds r' [7] \<and>
     queue_addr r' = 0x2000 \<and>
     (\<exists>r2. ptr_ring_unconsume bool_lock [5, 6, 4] 3 ring_7_8 = Some ([5], r2) \<and> ring_holds r2 [6, 4, 7, 8])"
proof -
  note w = ring_gives_back_and_resizes [OF ring_7_8_holds ring_7_8_locks _ _ zeroed_ok, of 3 "[5, 6, 4]" 1 True]
  have "ring_size ring_7_8 = 4" "queue_addr ring_7_8 = 0x1000" "zeroed 1 \<noteq> None" "array_at zeroed 1 = 0x2000"
    by (simp_all add: ring_7_8_def zeroed_def array_at_def)
  with w show ?thesis by (auto simp: Let_def)
qed

text \<open>C39: Changing the size of many rings is all or nothing. Either every ring gets its new array, the one allocated for
  it, of the new size, and keeps the first of its pointers that fit, in order; the others are destroyed, ring after
  ring, and exactly the arrays the rings had are freed. Or an allocation fails: no ring changes, no
  pointer is destroyed, and exactly the arrays allocated before it are freed, the latest first.\<close>

theorem resize_multiple_all_or_nothing:
  assumes h: "rings_hold S rings qs" and a: "\<forall>i. alloc_ok (allocs i)"
  shows "if room \<and> (rings = [] \<or> unat sz \<le> 2 ^ 19) \<and> (\<forall>i<length rings. allocs i (unat sz) \<noteq> None)
    then \<exists>rings'. ptr_ring_resize_multiple_bh S room allocs sz destroy rings =
        Some ((0, map queue_addr rings, if destroy then concat (map (drop (unat sz)) qs) else []), rings') \<and>
      rings_hold S rings' (map (take (unat sz)) qs) \<and> map ring_size rings' = replicate (length rings) (unat sz) \<and>
      map queue_addr rings' = arrays_from allocs (unat sz) 0 (length rings)
    else ptr_ring_resize_multiple_bh S room allocs sz destroy rings =
      Some ((- ENOMEM, rev (arrays_from allocs (unat sz) 0
        (if room \<and> unat sz \<le> 2 ^ 19 then LEAST i. allocs i (unat sz) = None else 0)), []), rings)"
proof -
  note al = alloc_loop_done [OF a, of sz 0 "length rings" "[]"]
  show ?thesis
  proof (cases "room \<and> (rings = [] \<or> unat sz \<le> 2 ^ 19) \<and> (\<forall>i<length rings. allocs i (unat sz) \<noteq> None)")
    case True
    have all: "alloc_loop allocs sz 0 (length rings) [] =
      (True, fresh_arrays (unat sz) (arrays_from allocs (unat sz) 0 (length rings)))" unfolding al using True by simp
    obtain rings' where r: "swap_rings S destroy (unat sz) (fresh_arrays (unat sz) (arrays_from allocs (unat sz) 0 (length rings))) rings =
        Some (map queue_addr rings, if destroy then concat (map (drop (unat sz)) qs) else [], rings')"
      "rings_hold S rings' (map (take (unat sz)) qs)" "map ring_size rings' = replicate (length rings) (unat sz)"
      "map queue_addr rings' = arrays_from allocs (unat sz) 0 (length rings)"
      using swap_rings_done [OF h arrays_from_simps(2), of destroy "unat sz" allocs "unat sz" 0] by blast
    have "ptr_ring_resize_multiple_bh S room allocs sz destroy rings =
        Some ((0, map queue_addr rings, if destroy then concat (map (drop (unat sz)) qs) else []), rings')"
      using all r(1) True by (simp add: ptr_ring_resize_multiple_bh_def)
    then show ?thesis unfolding if_P [OF True] using r(2-4) by simp
  next
    case False
    show ?thesis
    proof (cases room)
      case True
      then have "alloc_loop allocs sz 0 (length rings) [] = (False, fresh_arrays (unat sz) (arrays_from allocs (unat sz) 0
        (if unat sz \<le> 2 ^ 19 then LEAST i. allocs i (unat sz) = None else 0)))"
        unfolding al using False by (simp del: split_paired_Ex split_paired_All)
      with True show ?thesis unfolding if_not_P [OF False] by (simp add: ptr_ring_resize_multiple_bh_def)
    next
      case no: False
      then show ?thesis unfolding if_not_P [OF False] by (simp add: ptr_ring_resize_multiple_bh_def)
    qed
  qed
qed

text \<open>Two rings, and an allocator that fails at the second.\<close>

theorem resize_multiple_all_or_nothing_witness:
  "ptr_ring_resize_multiple_bh bool_lock True (\<lambda>i n. if i = 0 then zeroed n else None) 8 True
     [ring_7_8, ring_7_8\<lparr>queue_addr := 0x1800\<rparr>] =
     Some ((- ENOMEM, [0x2000], []), [ring_7_8, ring_7_8\<lparr>queue_addr := 0x1800\<rparr>])"
proof -
  let ?rs = "[ring_7_8, ring_7_8\<lparr>queue_addr := 0x1800\<rparr>]"
  have "ring_holds (ring_7_8\<lparr>queue_addr := 0x1800\<rparr>) [7, 8]" using ring_7_8_holds by (simp add: ring_holds_def)
  then have h: "rings_hold bool_lock ?rs [[7, 8], [7, 8]]"
    using ring_7_8_holds ring_7_8_locks by (simp add: rings_hold_def)
  define allocs where "allocs = (\<lambda>i n. if i = (0 :: nat) then zeroed n else None)"
  have a: "\<forall>i. alloc_ok (allocs i)" using zeroed_ok by (simp add: alloc_ok_def allocs_def)
  have l: "(LEAST i. allocs i 8 = None) = 1" by (rule Least_equality) (auto simp: allocs_def zeroed_def intro: ccontr)
  have n: "\<not> (\<forall>i<length ?rs. allocs i 8 \<noteq> None)" by (auto simp: allocs_def intro!: exI [of _ 1])
  have f: "arrays_from allocs 8 0 1 = [0x2000]" by (simp add: arrays_from_def array_at_def allocs_def zeroed_def)
  have c: "\<not> (True \<and> (?rs = [] \<or> unat (8 :: s32) \<le> 2 ^ 19) \<and> (\<forall>i<length ?rs. allocs i (unat (8 :: s32)) \<noteq> None))"
    using n by (simp del: split_paired_Ex split_paired_All)
  have "ptr_ring_resize_multiple_bh bool_lock True allocs 8 True ?rs = Some ((- ENOMEM, rev (arrays_from allocs 8 0 1), []), ?rs)"
    using resize_multiple_all_or_nothing [OF h a, of True 8 True] l unfolding if_not_P [OF c] by simp
  then have "ptr_ring_resize_multiple_bh bool_lock True allocs 8 True ?rs = Some ((- ENOMEM, [0x2000], []), ?rs)"
    unfolding f by simp
  then show ?thesis unfolding allocs_def .
qed

text \<open>C40: However the accesses of one producer and one consumer to the cells are interleaved, with no lock between them, the
  ring stays a queue: no pointer is lost, doubled or reordered, what was consumed and what is in the ring are
  what was produced; neither side leaves the array, also when it clears consumed cells; the consumer is told that the ring is empty only when it is, and
  the producer stores only into a free cell. An operation that is not interrupted is the sequential one.\<close>

theorem ring_fifo_under_races:
  assumes h: "ring_holds r []" "0 < ring_size r" and s: "ptr_ring_reach (race_start r) s"
  shows "\<exists>pending. sent s = got s @ pending \<and> 0 \<notin> set pending \<and>
    slot (race_ring s) (producer (race_ring s)) \<noteq> None \<and> slot (race_ring s) (consumer_head (race_ring s)) \<noteq> None \<and>
    (race_consumer s = C_idle \<longrightarrow> ring_holds (race_ring s) pending \<and>
       slot (race_ring s) (consumer_head (race_ring s)) = Some (case pending of [] \<Rightarrow> 0 | x # _ \<Rightarrow> x)) \<and>
    (\<forall>v h. race_consumer s = C_clear v (Suc h) \<and> consumer_tail (race_ring s) \<le> h \<longrightarrow> put_slot (race_ring s) h 0 \<noteq> None) \<and>
    (\<forall>ptr. race_producer s = P_store ptr \<longrightarrow> ptr \<noteq> 0 \<and> slot (race_ring s) (producer (race_ring s)) = Some 0) \<and>
    (\<forall>ptr r'. race_producer s = P_idle \<and> ptr \<noteq> 0 \<and> plain_ptr_ring_produce ptr (race_ring s) = Some (0, r') \<longrightarrow>
       ptr_ring_reach s (s\<lparr>race_ring := r', sent := sent s @ [ptr]\<rparr>)) \<and>
    (\<forall>v r'. race_consumer s = C_idle \<and> v \<noteq> 0 \<and> plain_ptr_ring_consume (race_ring s) = Some (v, r') \<longrightarrow>
       ptr_ring_reach s (s\<lparr>race_ring := r', got := got s @ [v]\<rparr>))"
proof -
  have "race_ok s" by (rule race_ok_reach [OF s race_start_ok [OF h]])
  then obtain p where p: "0 < ring_size (race_ring s)" "sent s = got s @ p" "consumer_ok (race_ring s) (race_consumer s) p"
    "\<forall>ptr. race_producer s = P_store ptr \<longrightarrow> ptr \<noteq> 0 \<and> slot (race_ring s) (producer (race_ring s)) = Some 0"
    by (rule race_okE)
  note c = consumer_ok_cells [OF p(3,1)]
  have k: "put_slot (race_ring s) h 0 \<noteq> None" if "race_consumer s = C_clear v (Suc h)" "consumer_tail (race_ring s) \<le> h" for v h
    using consumer_ok_clears [of "race_ring s" v h p] p(3) that by simp
  have "race_consumer s = C_idle \<Longrightarrow> ring_holds (race_ring s) p" using p(3) by (simp add: consumer_ok_def)
  then show ?thesis using p c k ring_slot_head [OF _ p(1)] produce_steps [of s] consume_steps [of s] by (intro exI [of _ p]) blast
qed

text \<open>In a ring of two cells, 5 is produced and read, and while its cell is still to be cleared 6 is produced.\<close>

definition two_cells :: "bool ptr_ring" where
  "two_cells = \<lparr>producer = 0, producer_lock = False, consumer_head = 0, consumer_tail = 0, consumer_lock = False,
     ring_size = 2, ring_batch = 1, queue_addr = 0x1000, ring_queue = [0, 0]\<rparr>"

definition five_six :: "produce_phase \<Rightarrow> bool ptr_ring_race" where
  "five_six ph = \<lparr>race_ring = two_cells\<lparr>ring_queue := [5, 0], producer := 1\<rparr>, race_producer = ph,
     race_consumer = C_clear 5 1, sent = [5], got = []\<rparr>"

lemma two_cells_holds: "ring_holds two_cells []" "0 < ring_size two_cells"
  by (auto simp: ring_holds_def two_cells_def turned_def eval_nat_numeral intro!: exI [of _ "2 :: nat"] exI [of _ "[]"])

lemma five_six_reached: "ptr_ring_reach (race_start two_cells) (five_six P_idle)"
proof -
  let ?a = "race_start two_cells" and ?r = "two_cells\<lparr>ring_queue := [5, 0]\<rparr>"
  have p: "plain_ptr_ring_produce 5 two_cells = Some (0, ?r\<lparr>producer := 1\<rparr>)"
    by (simp add: plain_ptr_ring_produce_def produce_end_def slot_def put_slot_def two_cells_def)
  let ?b = "?a\<lparr>race_ring := ?r\<lparr>producer := 1\<rparr>, sent := sent ?a @ [5]\<rparr>"
  have 1: "ptr_ring_reach ?a ?b" using p by (intro produce_steps) (simp_all add: race_start_def two_cells_holds)
  let ?c = "?b\<lparr>race_consumer := C_has 5\<rparr>"
  have 2: "ptr_ring_step ?b ?c" by (rule ptr_ring_step.has) (simp_all add: race_start_def slot_def two_cells_def)
  have 3: "ptr_ring_step ?c (?c\<lparr>race_consumer := C_clear 5 (consumer_head (race_ring ?c) + 1)\<rparr>)"
    by (rule ptr_ring_step.start) (simp_all add: race_start_def discard_clears_def two_cells_def)
  have "?c\<lparr>race_consumer := C_clear 5 (consumer_head (race_ring ?c) + 1)\<rparr> = five_six P_idle"
    by (simp add: five_six_def race_start_def two_cells_def)
  with reach_step [OF reach_step [OF 1 2] 3] show ?thesis by simp
qed

theorem ring_fifo_under_races_witness:
  "\<exists>s pending. ptr_ring_reach (race_start two_cells) s \<and> race_consumer s = C_clear 5 1 \<and> sent s = [5, 6] \<and> sent s = got s @ pending \<and>
     slot (race_ring s) (producer (race_ring s)) \<noteq> None"
proof -
  have "plain_ptr_ring_produce 6 (race_ring (five_six P_idle)) = Some (0, two_cells\<lparr>ring_queue := [5, 6], producer := 0\<rparr>)"
    by (simp add: plain_ptr_ring_produce_def produce_end_def slot_def put_slot_def two_cells_def five_six_def)
  from produce_steps [OF _ _ _ this]
  have "ptr_ring_reach (five_six P_idle)
      ((five_six P_idle)\<lparr>race_ring := two_cells\<lparr>ring_queue := [5, 6], producer := 0\<rparr>, sent := sent (five_six P_idle) @ [6]\<rparr>)"
    (is "ptr_ring_reach _ ?s") by (simp add: five_six_def two_cells_def)
  from ptr_ring_reach_trans [OF this five_six_reached] have s: "ptr_ring_reach (race_start two_cells) ?s" .
  have "race_consumer ?s = C_clear 5 1" "sent ?s = [5, 6]" by (simp_all add: five_six_def)
  with s ring_fifo_under_races [OF two_cells_holds s] show ?thesis by blast
qed

end
