(* ===== verification/Atomic_Claims.thy ===== *)
theory Atomic_Claims
  imports Atomic_Raw
begin

text \<open>
  Properties of the atomic operations: what every operation does to the counter and returns
  whatever the other CPUs do, on a CPU with and without the single-instruction atomics.
\<close>

text \<open>C21: Every unconditional atomic read-modify-write operation on a 32-bit or 64-bit counter, on both kinds of CPU,
  replaces a value the counter had during the operation by the one its name says, in one
  indivisible access of at least the ordering asked for, returns the old value (fetch), the new
  value (return) or the test of the new value, and can be kept from finishing only if every
  store-exclusive it tries is disturbed. The operations arm64 does not provide (increment,
  decrement, the tests) get this from the ones they are built from.\<close>

theorem atomic_ops_implement:
  "implements (raw_atomic_add lse i) (\<lambda>_. ()) (\<lambda>v. v + i) Relaxed \<and>
   implements (raw_atomic_add_return lse ord i) (\<lambda>v. v + i) (\<lambda>v. v + i) ord \<and>
   implements (raw_atomic_fetch_add lse ord i) (\<lambda>v. v) (\<lambda>v. v + i) ord \<and>
   implements (raw_atomic_sub lse i) (\<lambda>_. ()) (\<lambda>v. v - i) Relaxed \<and>
   implements (raw_atomic_sub_return lse ord i) (\<lambda>v. v - i) (\<lambda>v. v - i) ord \<and>
   implements (raw_atomic_fetch_sub lse ord i) (\<lambda>v. v) (\<lambda>v. v - i) ord \<and>
   implements (raw_atomic_inc lse) (\<lambda>_. ()) (\<lambda>v. v + 1) Relaxed \<and>
   implements (raw_atomic_inc_return lse ord) (\<lambda>v. v + 1) (\<lambda>v. v + 1) ord \<and>
   implements (raw_atomic_fetch_inc lse ord) (\<lambda>v. v) (\<lambda>v. v + 1) ord \<and>
   implements (raw_atomic_dec lse) (\<lambda>_. ()) (\<lambda>v. v - 1) Relaxed \<and>
   implements (raw_atomic_dec_return lse ord) (\<lambda>v. v - 1) (\<lambda>v. v - 1) ord \<and>
   implements (raw_atomic_fetch_dec lse ord) (\<lambda>v. v) (\<lambda>v. v - 1) ord \<and>
   implements (raw_atomic_and lse i) (\<lambda>_. ()) (\<lambda>v. v AND i) Relaxed \<and>
   implements (raw_atomic_fetch_and lse ord i) (\<lambda>v. v) (\<lambda>v. v AND i) ord \<and>
   implements (raw_atomic_andnot lse i) (\<lambda>_. ()) (\<lambda>v. v AND NOT i) Relaxed \<and>
   implements (raw_atomic_fetch_andnot lse ord i) (\<lambda>v. v) (\<lambda>v. v AND NOT i) ord \<and>
   implements (raw_atomic_or lse i) (\<lambda>_. ()) (\<lambda>v. v OR i) Relaxed \<and>
   implements (raw_atomic_fetch_or lse ord i) (\<lambda>v. v) (\<lambda>v. v OR i) ord \<and>
   implements (raw_atomic_xor lse i) (\<lambda>_. ()) (\<lambda>v. v XOR i) Relaxed \<and>
   implements (raw_atomic_fetch_xor lse ord i) (\<lambda>v. v) (\<lambda>v. v XOR i) ord \<and>
   implements (raw_atomic_xchg lse ord x) (\<lambda>v. v) (\<lambda>_. x) ord \<and>
   implements (raw_atomic_sub_and_test lse i) (\<lambda>v. v - i = 0) (\<lambda>v. v - i) Full \<and>
   implements (raw_atomic_dec_and_test lse) (\<lambda>v. v - 1 = 0) (\<lambda>v. v - 1) Full \<and>
   implements (raw_atomic_inc_and_test lse) (\<lambda>v. v + 1 = 0) (\<lambda>v. v + 1) Full \<and>
   implements (raw_atomic_add_negative lse ord i) (\<lambda>v. v + i <s 0) (\<lambda>v. v + i) ord \<and>
   implements (raw_atomic64_add lse j) (\<lambda>_. ()) (\<lambda>v. v + j) Relaxed \<and>
   implements (raw_atomic64_add_return lse ord j) (\<lambda>v. v + j) (\<lambda>v. v + j) ord \<and>
   implements (raw_atomic64_fetch_add lse ord j) (\<lambda>v. v) (\<lambda>v. v + j) ord \<and>
   implements (raw_atomic64_sub lse j) (\<lambda>_. ()) (\<lambda>v. v - j) Relaxed \<and>
   implements (raw_atomic64_sub_return lse ord j) (\<lambda>v. v - j) (\<lambda>v. v - j) ord \<and>
   implements (raw_atomic64_fetch_sub lse ord j) (\<lambda>v. v) (\<lambda>v. v - j) ord \<and>
   implements (raw_atomic64_inc lse) (\<lambda>_. ()) (\<lambda>v. v + 1) Relaxed \<and>
   implements (raw_atomic64_inc_return lse ord) (\<lambda>v. v + 1) (\<lambda>v. v + 1) ord \<and>
   implements (raw_atomic64_fetch_inc lse ord) (\<lambda>v. v) (\<lambda>v. v + 1) ord \<and>
   implements (raw_atomic64_dec lse) (\<lambda>_. ()) (\<lambda>v. v - 1) Relaxed \<and>
   implements (raw_atomic64_dec_return lse ord) (\<lambda>v. v - 1) (\<lambda>v. v - 1) ord \<and>
   implements (raw_atomic64_fetch_dec lse ord) (\<lambda>v. v) (\<lambda>v. v - 1) ord \<and>
   implements (raw_atomic64_and lse j) (\<lambda>_. ()) (\<lambda>v. v AND j) Relaxed \<and>
   implements (raw_atomic64_fetch_and lse ord j) (\<lambda>v. v) (\<lambda>v. v AND j) ord \<and>
   implements (raw_atomic64_andnot lse j) (\<lambda>_. ()) (\<lambda>v. v AND NOT j) Relaxed \<and>
   implements (raw_atomic64_fetch_andnot lse ord j) (\<lambda>v. v) (\<lambda>v. v AND NOT j) ord \<and>
   implements (raw_atomic64_or lse j) (\<lambda>_. ()) (\<lambda>v. v OR j) Relaxed \<and>
   implements (raw_atomic64_fetch_or lse ord j) (\<lambda>v. v) (\<lambda>v. v OR j) ord \<and>
   implements (raw_atomic64_xor lse j) (\<lambda>_. ()) (\<lambda>v. v XOR j) Relaxed \<and>
   implements (raw_atomic64_fetch_xor lse ord j) (\<lambda>v. v) (\<lambda>v. v XOR j) ord \<and>
   implements (raw_atomic64_xchg lse ord y) (\<lambda>v. v) (\<lambda>_. y) ord \<and>
   implements (raw_atomic64_sub_and_test lse j) (\<lambda>v. v - j = 0) (\<lambda>v. v - j) Full \<and>
   implements (raw_atomic64_dec_and_test lse) (\<lambda>v. v - 1 = 0) (\<lambda>v. v - 1) Full \<and>
   implements (raw_atomic64_inc_and_test lse) (\<lambda>v. v + 1 = 0) (\<lambda>v. v + 1) Full \<and>
   implements (raw_atomic64_add_negative lse ord j) (\<lambda>v. v + j <s 0) (\<lambda>v. v + j) ord"
  by (intro conjI raw_atomic_implements raw_atomic64_implements)

subsection \<open>Conditional operations\<close>

text \<open>
  A conditional operation on a counter found at \<open>v\<close>, with the rounds \<open>tss\<close> of its exchange. It is lock-free: as
  long as it runs, every round was disturbed. When it ends it has tested and changed one and the same value
  \<open>c\<close> that the counter had: it leaves \<open>c\<close> if \<open>stop c\<close> and else stores \<open>upd c\<close>, fully ordered, and returns
  \<open>res c\<close>. Left alone, it ends at the first exchange.
\<close>

definition conditional_op ::
  "('n::len word \<Rightarrow> 'n tries list \<Rightarrow> ('r, 'n) outcome option) \<Rightarrow> ('n word \<Rightarrow> bool) \<Rightarrow> ('n word \<Rightarrow> 'n word) \<Rightarrow> ('n word \<Rightarrow> 'r) \<Rightarrow> bool" where
  "conditional_op p stop upd res \<longleftrightarrow>
     (\<forall>v tss. p v tss = None \<longrightarrow> disturbed v tss) \<and>
     (\<forall>v tss r new got. p v tss = Some (r, new, got) \<longrightarrow>
        (\<exists>c\<in>insert v (\<Union>ts\<in>set tss. fst ` set ts). r = res c \<and> new = (if stop c then c else upd c) \<and> (stop c \<or> got = Full))) \<and>
     (\<forall>v. p v [[(v, True)]] = Some (res v, if stop v then v else upd v, if stop v then Relaxed else Full))"

text \<open>The same of an operation that reads the counter anew with every try.\<close>

definition conditional_arch_op ::
  "('n::len tries \<Rightarrow> ('r, 'n) outcome option) \<Rightarrow> ('n word \<Rightarrow> bool) \<Rightarrow> ('n word \<Rightarrow> 'n word) \<Rightarrow> ('n word \<Rightarrow> 'r) \<Rightarrow> bool" where
  "conditional_arch_op p stop upd res \<longleftrightarrow>
     (\<forall>ts. p ts = None \<longrightarrow> (\<forall>t\<in>set ts. \<not> snd t \<and> \<not> stop (fst t))) \<and>
     (\<forall>ts r new got. p ts = Some (r, new, got) \<longrightarrow>
        (\<exists>c\<in>fst ` set ts. r = res c \<and> new = (if stop c then c else upd c) \<and> (stop c \<or> got = Full))) \<and>
     (\<forall>v. p [(v, True)] = Some (res v, if stop v then v else upd v, if stop v then Relaxed else Full))"

lemma loop_is_conditional:
  assumes "\<And>v tss. p v tss = map_option (map_result k) (raw_atomic_loop lse stop upd v tss)"
    and "\<And>c. k (\<not> stop c, c) = res c"
  shows "conditional_op p stop upd res"
  unfolding conditional_op_def
proof (intro conjI allI impI)
  fix v tss r new got
  assume "p v tss = Some (r, new, got)"
  then obtain b c where l: "raw_atomic_loop lse stop upd v tss = Some ((b, c), new, got)" "r = k (b, c)"
    by (auto simp: assms(1))
  from raw_atomic_loop_Some [OF l(1)] l(2) assms(2) [of c]
  show "\<exists>c\<in>insert v (\<Union>ts\<in>set tss. fst ` set ts). r = res c \<and> new = (if stop c then c else upd c) \<and> (stop c \<or> got = Full)"
    by (intro bexI [of _ c]) auto
next
  show "p v [[(v, True)]] = Some (res v, if stop v then v else upd v, if stop v then Relaxed else Full)" for v
    using assms(2) [of v] by (cases "stop v") (simp_all add: assms(1) raw_atomic_loop_stop raw_atomic_loop_uncontended)
qed (use raw_atomic_loop_None in \<open>auto simp: assms(1)\<close>)

lemma loop64_is_conditional:
  assumes "\<And>v tss. p v tss = map_option (map_result k) (raw_atomic64_loop lse stop upd v tss)"
    and "\<And>c. k (\<not> stop c, c) = res c"
  shows "conditional_op p stop upd res"
  unfolding conditional_op_def
proof (intro conjI allI impI)
  fix v tss r new got
  assume "p v tss = Some (r, new, got)"
  then obtain b c where l: "raw_atomic64_loop lse stop upd v tss = Some ((b, c), new, got)" "r = k (b, c)"
    by (auto simp: assms(1))
  from raw_atomic64_loop_Some [OF l(1)] l(2) assms(2) [of c]
  show "\<exists>c\<in>insert v (\<Union>ts\<in>set tss. fst ` set ts). r = res c \<and> new = (if stop c then c else upd c) \<and> (stop c \<or> got = Full)"
    by (intro bexI [of _ c]) auto
next
  show "p v [[(v, True)]] = Some (res v, if stop v then v else upd v, if stop v then Relaxed else Full)" for v
    using assms(2) [of v] by (cases "stop v") (simp_all add: assms(1) raw_atomic64_loop_stop raw_atomic64_loop_uncontended)
qed (use raw_atomic64_loop_None in \<open>auto simp: assms(1)\<close>)

lemmas conditional_op_defs = raw_atomic_fetch_add_unless_def raw_atomic_add_unless_def raw_atomic_inc_not_zero_def
  raw_atomic_inc_unless_negative_def raw_atomic_dec_unless_positive_def raw_atomic_dec_if_positive_def raw_atomic_read_def
  raw_atomic64_fetch_add_unless_def raw_atomic64_add_unless_def raw_atomic64_inc_not_zero_def
  raw_atomic64_inc_unless_negative_def raw_atomic64_dec_unless_positive_def raw_atomic64_read_def

lemma map_result_twice: "map_result f (map_result g x) = map_result (f \<circ> g) x"
  by (cases x) simp

lemmas result_maps = option.map_comp o_def map_result_twice

lemma add_unless_conditional:
  "conditional_op (raw_atomic_fetch_add_unless lse a u) (\<lambda>c. c = u) (\<lambda>c. c + a) (\<lambda>c. c)"
  "conditional_op (raw_atomic_add_unless lse a u) (\<lambda>c. c = u) (\<lambda>c. c + a) (\<lambda>c. c \<noteq> u)"
  "conditional_op (raw_atomic_inc_not_zero lse) (\<lambda>c. c = 0) (\<lambda>c. c + 1) (\<lambda>c. c \<noteq> 0)"
  by (rule loop_is_conditional [where k = snd] loop_is_conditional [where k = "\<lambda>r. snd r \<noteq> u"]
      loop_is_conditional [where k = "\<lambda>r. snd r \<noteq> 0"]; simp add: conditional_op_defs result_maps)+

lemma add_unless64_conditional:
  "conditional_op (raw_atomic64_fetch_add_unless lse a u) (\<lambda>c. c = u) (\<lambda>c. c + a) (\<lambda>c. c)"
  "conditional_op (raw_atomic64_add_unless lse a u) (\<lambda>c. c = u) (\<lambda>c. c + a) (\<lambda>c. c \<noteq> u)"
  "conditional_op (raw_atomic64_inc_not_zero lse) (\<lambda>c. c = 0) (\<lambda>c. c + 1) (\<lambda>c. c \<noteq> 0)"
  by (rule loop64_is_conditional [where k = snd] loop64_is_conditional [where k = "\<lambda>r. snd r \<noteq> u"]
      loop64_is_conditional [where k = "\<lambda>r. snd r \<noteq> 0"]; simp add: conditional_op_defs result_maps)+

lemma sign_tests_conditional:
  "conditional_op (raw_atomic_inc_unless_negative lse) (\<lambda>c. c <s 0) (\<lambda>c. c + 1) (\<lambda>c. \<not> c <s 0)"
  "conditional_op (raw_atomic_dec_unless_positive lse) (\<lambda>c. 0 <s c) (\<lambda>c. c - 1) (\<lambda>c. \<not> 0 <s c)"
  "conditional_op (raw_atomic_dec_if_positive lse) (\<lambda>c. c - 1 <s 0) (\<lambda>c. c - 1) (\<lambda>c. c - 1)"
  by (rule loop_is_conditional [where k = fst] loop_is_conditional [where k = "\<lambda>(b, c). c - 1"];
      simp add: conditional_op_defs result_maps)+

lemma sign_tests64_conditional:
  "conditional_op (raw_atomic64_inc_unless_negative lse) (\<lambda>c. c <s 0) (\<lambda>c. c + 1) (\<lambda>c. \<not> c <s 0)"
  "conditional_op (raw_atomic64_dec_unless_positive lse) (\<lambda>c. 0 <s c) (\<lambda>c. c - 1) (\<lambda>c. \<not> 0 <s c)"
  by (rule loop64_is_conditional [where k = fst]; simp add: conditional_op_defs result_maps)+

lemma arch_dec_if_positive:
  "conditional_arch_op (raw_atomic64_dec_if_positive lse) (\<lambda>c. c <s 1) (\<lambda>c. c - 1) (\<lambda>c. c - 1)"
proof -
  have e: "raw_atomic64_dec_if_positive lse ts = lse_atomic64_dec_if_positive ts" for ts
    by (simp add: raw_atomic64_dec_if_positive_def arch_atomic64_dec_if_positive_def dec_if_positive_variants)
  have none: "lse_atomic64_dec_if_positive ts = None \<Longrightarrow> \<forall>t\<in>set ts. \<not> snd t \<and> \<not> fst t <s 1" for ts
    by (induction ts rule: lse_atomic64_dec_if_positive.induct) (auto split: if_splits)
  have some: "lse_atomic64_dec_if_positive ts = Some (r, new, got) \<Longrightarrow>
      \<exists>c\<in>fst ` set ts. r = c - 1 \<and> new = (if c <s 1 then c else c - 1) \<and> (c <s 1 \<or> got = Full)" for ts r new got
    by (induction ts rule: lse_atomic64_dec_if_positive.induct) (auto split: if_splits)
  show ?thesis unfolding conditional_arch_op_def e using none some by auto
qed

text \<open>C22: The conditional operations test and change one and the same value of the counter, whatever the other CPUs
  store meanwhile, and are lock-free: adding unless a value is there, incrementing unless zero or negative,
  decrementing unless positive or if positive, for both widths. Left alone they end at
  the first exchange; one that is still running after a number of rounds has in every round either had no exchange
  get through or found the counter changed by another CPU. The 64-bit decrement-if-positive is the one arm64 provides.\<close>

theorem conditional_ops_lock_free:
  "conditional_op (raw_atomic_fetch_add_unless lse a u) (\<lambda>c. c = u) (\<lambda>c. c + a) (\<lambda>c. c) \<and>
   conditional_op (raw_atomic_add_unless lse a u) (\<lambda>c. c = u) (\<lambda>c. c + a) (\<lambda>c. c \<noteq> u) \<and>
   conditional_op (raw_atomic_inc_not_zero lse) (\<lambda>c. c = 0) (\<lambda>c. c + 1) (\<lambda>c. c \<noteq> 0) \<and>
   conditional_op (raw_atomic_inc_unless_negative lse) (\<lambda>c. c <s 0) (\<lambda>c. c + 1) (\<lambda>c. \<not> c <s 0) \<and>
   conditional_op (raw_atomic_dec_unless_positive lse) (\<lambda>c. 0 <s c) (\<lambda>c. c - 1) (\<lambda>c. \<not> 0 <s c) \<and>
   conditional_op (raw_atomic_dec_if_positive lse) (\<lambda>c. c - 1 <s 0) (\<lambda>c. c - 1) (\<lambda>c. c - 1) \<and>
   conditional_op (raw_atomic64_fetch_add_unless lse a' u') (\<lambda>c. c = u') (\<lambda>c. c + a') (\<lambda>c. c) \<and>
   conditional_op (raw_atomic64_add_unless lse a' u') (\<lambda>c. c = u') (\<lambda>c. c + a') (\<lambda>c. c \<noteq> u') \<and>
   conditional_op (raw_atomic64_inc_not_zero lse) (\<lambda>c. c = 0) (\<lambda>c. c + 1) (\<lambda>c. c \<noteq> 0) \<and>
   conditional_op (raw_atomic64_inc_unless_negative lse) (\<lambda>c. c <s 0) (\<lambda>c. c + 1) (\<lambda>c. \<not> c <s 0) \<and>
   conditional_op (raw_atomic64_dec_unless_positive lse) (\<lambda>c. 0 <s c) (\<lambda>c. c - 1) (\<lambda>c. \<not> 0 <s c) \<and>
   conditional_arch_op (raw_atomic64_dec_if_positive lse) (\<lambda>c. c <s 1) (\<lambda>c. c - 1) (\<lambda>c. c - 1)"
  by (intro conjI add_unless_conditional add_unless64_conditional sign_tests_conditional sign_tests64_conditional arch_dec_if_positive)

text \<open>
  Decrementing only if positive. The generic 32-bit loop tests the difference, the 64-bit
  operation of arm64 the carry-corrected comparison: at the least value they part.
\<close>

lemma dec_if_positive_at_the_least_value:
  "raw_atomic_dec_if_positive lse 0x80000000 [[(0x80000000, True)]] = Some (0x7fffffff, 0x7fffffff, Full)"
  "raw_atomic64_dec_if_positive lse [(0x8000000000000000, True)]
     = Some (0x7fffffffffffffff, 0x8000000000000000, Relaxed)"
proof -
  have "\<not> (0x80000000 - 1 :: s32) <s 0" by (simp add: word_sless_alt)
  then show "raw_atomic_dec_if_positive lse 0x80000000 [[(0x80000000, True)]] = Some (0x7fffffff, 0x7fffffff, Full)"
    by (simp add: raw_atomic_dec_if_positive_def raw_atomic_read_def raw_atomic_loop_uncontended)
  have "(0x8000000000000000 :: s64) <s 1" by (simp add: word_sless_alt)
  then show "raw_atomic64_dec_if_positive lse [(0x8000000000000000, True)]
      = Some (0x7fffffffffffffff, 0x8000000000000000, Relaxed)"
    by (simp add: raw_atomic64_dec_if_positive_def arch_atomic64_dec_if_positive_def)
qed

text \<open>
  The 32-bit subtraction that returns the difference does not pass its ordering on to the
  instruction; the 64-bit one does. The exclusive loops do.
\<close>

lemma lse_sub_return_is_fully_ordered:
  "lse_atomic_sub_return ord i v = (v - i, v - i, Full)"
  "lse_atomic64_sub_return ord i' v' = (v' - i', v' - i', ord)"
  by (simp_all add: arch_simps)

end
