(* ===== verification/Insn.thy ===== *)
theory Insn
  imports Prelude
begin

text \<open>
  Classes of A64 instructions (kheaders/arch/arm64/include/asm/insn.h), by which the kprobe code
  decides where a probe may sit. A line \<open>__AARCH64_INSN_FUNCS(abbr, mask, val)\<close> is the pair
  \<open>insn_abbr\<close>, and the function \<open>aarch64_insn_is_abbr\<close> it defines is \<open>aarch64_insn_is insn_abbr\<close>.
  The encoders declared there (lib/insn.c) are not in the repository.
\<close>

type_synonym insn_class = "u32 \<times> u32"

fun aarch64_insn_is :: "insn_class \<Rightarrow> u32 \<Rightarrow> bool" where
  "aarch64_insn_is (msk, val) code \<longleftrightarrow> code AND msk = val"

text \<open>The \<open>BUILD_BUG_ON\<close> of the macro.\<close>

fun well_encoded :: "insn_class \<Rightarrow> bool" where
  "well_encoded (msk, val) \<longleftrightarrow> NOT msk AND val = 0"

fun aarch64_insn_get_value :: "insn_class \<Rightarrow> u32" where
  "aarch64_insn_get_value (msk, val) = val"

subsection \<open>The classes\<close>

definition insn_class_branch_sys :: insn_class where "insn_class_branch_sys = (0x1c000000, 0x14000000)"
definition insn_adr :: insn_class where "insn_adr = (0x9F000000, 0x10000000)"
definition insn_adrp :: insn_class where "insn_adrp = (0x9F000000, 0x90000000)"
definition insn_prfm :: insn_class where "insn_prfm = (0x3FC00000, 0x39800000)"
definition insn_prfm_lit :: insn_class where "insn_prfm_lit = (0xFF000000, 0xD8000000)"
definition insn_store_imm :: insn_class where "insn_store_imm = (0x3FC00000, 0x39000000)"
definition insn_load_imm :: insn_class where "insn_load_imm = (0x3FC00000, 0x39400000)"
definition insn_signed_load_imm :: insn_class where "insn_signed_load_imm = (0x3FC00000, 0x39800000)"
definition insn_store_pre :: insn_class where "insn_store_pre = (0x3FE00C00, 0x38000C00)"
definition insn_load_pre :: insn_class where "insn_load_pre = (0x3FE00C00, 0x38400C00)"
definition insn_store_post :: insn_class where "insn_store_post = (0x3FE00C00, 0x38000400)"
definition insn_load_post :: insn_class where "insn_load_post = (0x3FE00C00, 0x38400400)"
definition insn_str_reg :: insn_class where "insn_str_reg = (0x3FE0EC00, 0x38206800)"
definition insn_str_imm :: insn_class where "insn_str_imm = (0x3FC00000, 0x39000000)"
definition insn_ldadd :: insn_class where "insn_ldadd = (0x3F20FC00, 0x38200000)"
definition insn_ldclr :: insn_class where "insn_ldclr = (0x3F20FC00, 0x38201000)"
definition insn_ldeor :: insn_class where "insn_ldeor = (0x3F20FC00, 0x38202000)"
definition insn_ldset :: insn_class where "insn_ldset = (0x3F20FC00, 0x38203000)"
definition insn_swp :: insn_class where "insn_swp = (0x3F20FC00, 0x38208000)"
definition insn_cas :: insn_class where "insn_cas = (0x3FA07C00, 0x08A07C00)"
definition insn_ldr_reg :: insn_class where "insn_ldr_reg = (0x3FE0EC00, 0x38606800)"
definition insn_signed_ldr_reg :: insn_class where "insn_signed_ldr_reg = (0x3FE0FC00, 0x38A0E800)"
definition insn_ldr_imm :: insn_class where "insn_ldr_imm = (0x3FC00000, 0x39400000)"
definition insn_ldr_lit :: insn_class where "insn_ldr_lit = (0xBF000000, 0x18000000)"
definition insn_ldrsw_lit :: insn_class where "insn_ldrsw_lit = (0xFF000000, 0x98000000)"
definition insn_exclusive :: insn_class where "insn_exclusive = (0x3F800000, 0x08000000)"
definition insn_load_ex :: insn_class where "insn_load_ex = (0x3F400000, 0x08400000)"
definition insn_store_ex :: insn_class where "insn_store_ex = (0x3F400000, 0x08000000)"
definition insn_mops :: insn_class where "insn_mops = (0x3B200C00, 0x19000400)"
definition insn_stp :: insn_class where "insn_stp = (0x7FC00000, 0x29000000)"
definition insn_ldp :: insn_class where "insn_ldp = (0x7FC00000, 0x29400000)"
definition insn_stp_post :: insn_class where "insn_stp_post = (0x7FC00000, 0x28800000)"
definition insn_ldp_post :: insn_class where "insn_ldp_post = (0x7FC00000, 0x28C00000)"
definition insn_stp_pre :: insn_class where "insn_stp_pre = (0x7FC00000, 0x29800000)"
definition insn_ldp_pre :: insn_class where "insn_ldp_pre = (0x7FC00000, 0x29C00000)"
definition insn_add_imm :: insn_class where "insn_add_imm = (0x7F000000, 0x11000000)"
definition insn_adds_imm :: insn_class where "insn_adds_imm = (0x7F000000, 0x31000000)"
definition insn_sub_imm :: insn_class where "insn_sub_imm = (0x7F000000, 0x51000000)"
definition insn_subs_imm :: insn_class where "insn_subs_imm = (0x7F000000, 0x71000000)"
definition insn_movn :: insn_class where "insn_movn = (0x7F800000, 0x12800000)"
definition insn_sbfm :: insn_class where "insn_sbfm = (0x7F800000, 0x13000000)"
definition insn_bfm :: insn_class where "insn_bfm = (0x7F800000, 0x33000000)"
definition insn_movz :: insn_class where "insn_movz = (0x7F800000, 0x52800000)"
definition insn_ubfm :: insn_class where "insn_ubfm = (0x7F800000, 0x53000000)"
definition insn_movk :: insn_class where "insn_movk = (0x7F800000, 0x72800000)"
definition insn_add :: insn_class where "insn_add = (0x7F200000, 0x0B000000)"
definition insn_adds :: insn_class where "insn_adds = (0x7F200000, 0x2B000000)"
definition insn_sub :: insn_class where "insn_sub = (0x7F200000, 0x4B000000)"
definition insn_subs :: insn_class where "insn_subs = (0x7F200000, 0x6B000000)"
definition insn_madd :: insn_class where "insn_madd = (0x7FE08000, 0x1B000000)"
definition insn_msub :: insn_class where "insn_msub = (0x7FE08000, 0x1B008000)"
definition insn_udiv :: insn_class where "insn_udiv = (0x7FE0FC00, 0x1AC00800)"
definition insn_sdiv :: insn_class where "insn_sdiv = (0x7FE0FC00, 0x1AC00C00)"
definition insn_lslv :: insn_class where "insn_lslv = (0x7FE0FC00, 0x1AC02000)"
definition insn_lsrv :: insn_class where "insn_lsrv = (0x7FE0FC00, 0x1AC02400)"
definition insn_asrv :: insn_class where "insn_asrv = (0x7FE0FC00, 0x1AC02800)"
definition insn_rorv :: insn_class where "insn_rorv = (0x7FE0FC00, 0x1AC02C00)"
definition insn_rev16 :: insn_class where "insn_rev16 = (0x7FFFFC00, 0x5AC00400)"
definition insn_rev32 :: insn_class where "insn_rev32 = (0x7FFFFC00, 0x5AC00800)"
definition insn_rev64 :: insn_class where "insn_rev64 = (0x7FFFFC00, 0x5AC00C00)"
definition insn_and :: insn_class where "insn_and = (0x7F200000, 0x0A000000)"
definition insn_bic :: insn_class where "insn_bic = (0x7F200000, 0x0A200000)"
definition insn_orr :: insn_class where "insn_orr = (0x7F200000, 0x2A000000)"
definition insn_mov_reg :: insn_class where "insn_mov_reg = (0x7FE0FFE0, 0x2A0003E0)"
definition insn_orn :: insn_class where "insn_orn = (0x7F200000, 0x2A200000)"
definition insn_eor :: insn_class where "insn_eor = (0x7F200000, 0x4A000000)"
definition insn_eon :: insn_class where "insn_eon = (0x7F200000, 0x4A200000)"
definition insn_ands :: insn_class where "insn_ands = (0x7F200000, 0x6A000000)"
definition insn_bics :: insn_class where "insn_bics = (0x7F200000, 0x6A200000)"
definition insn_and_imm :: insn_class where "insn_and_imm = (0x7F800000, 0x12000000)"
definition insn_orr_imm :: insn_class where "insn_orr_imm = (0x7F800000, 0x32000000)"
definition insn_eor_imm :: insn_class where "insn_eor_imm = (0x7F800000, 0x52000000)"
definition insn_ands_imm :: insn_class where "insn_ands_imm = (0x7F800000, 0x72000000)"
definition insn_extr :: insn_class where "insn_extr = (0x7FA00000, 0x13800000)"
definition insn_b :: insn_class where "insn_b = (0xFC000000, 0x14000000)"
definition insn_bl :: insn_class where "insn_bl = (0xFC000000, 0x94000000)"
definition insn_cbz :: insn_class where "insn_cbz = (0x7F000000, 0x34000000)"
definition insn_cbnz :: insn_class where "insn_cbnz = (0x7F000000, 0x35000000)"
definition insn_tbz :: insn_class where "insn_tbz = (0x7F000000, 0x36000000)"
definition insn_tbnz :: insn_class where "insn_tbnz = (0x7F000000, 0x37000000)"
definition insn_bcond :: insn_class where "insn_bcond = (0xFF000010, 0x54000000)"
definition insn_svc :: insn_class where "insn_svc = (0xFFE0001F, 0xD4000001)"
definition insn_hvc :: insn_class where "insn_hvc = (0xFFE0001F, 0xD4000002)"
definition insn_smc :: insn_class where "insn_smc = (0xFFE0001F, 0xD4000003)"
definition insn_brk :: insn_class where "insn_brk = (0xFFE0001F, 0xD4200000)"
definition insn_exception :: insn_class where "insn_exception = (0xFF000000, 0xD4000000)"
definition insn_hint :: insn_class where "insn_hint = (0xFFFFF01F, 0xD503201F)"
definition insn_br :: insn_class where "insn_br = (0xFFFFFC1F, 0xD61F0000)"
definition insn_br_auth :: insn_class where "insn_br_auth = (0xFEFFF800, 0xD61F0800)"
definition insn_blr :: insn_class where "insn_blr = (0xFFFFFC1F, 0xD63F0000)"
definition insn_blr_auth :: insn_class where "insn_blr_auth = (0xFEFFF800, 0xD63F0800)"
definition insn_ret :: insn_class where "insn_ret = (0xFFFFFC1F, 0xD65F0000)"
definition insn_ret_auth :: insn_class where "insn_ret_auth = (0xFFFFFBFF, 0xD65F0BFF)"
definition insn_eret :: insn_class where "insn_eret = (0xFFFFFFFF, 0xD69F03E0)"
definition insn_eret_auth :: insn_class where "insn_eret_auth = (0xFFFFFBFF, 0xD69F0BFF)"
definition insn_mrs :: insn_class where "insn_mrs = (0xFFF00000, 0xD5300000)"
definition insn_msr_imm :: insn_class where "insn_msr_imm = (0xFFF8F01F, 0xD500401F)"
definition insn_msr_reg :: insn_class where "insn_msr_reg = (0xFFF00000, 0xD5100000)"
definition insn_dmb :: insn_class where "insn_dmb = (0xFFFFF0FF, 0xD50330BF)"
definition insn_dsb_base :: insn_class where "insn_dsb_base = (0xFFFFF0FF, 0xD503309F)"
definition insn_dsb_nxs :: insn_class where "insn_dsb_nxs = (0xFFFFF3FF, 0xD503323F)"
definition insn_isb :: insn_class where "insn_isb = (0xFFFFF0FF, 0xD50330DF)"
definition insn_sb :: insn_class where "insn_sb = (0xFFFFFFFF, 0xD50330FF)"
definition insn_clrex :: insn_class where "insn_clrex = (0xFFFFF0FF, 0xD503305F)"
definition insn_ssbb :: insn_class where "insn_ssbb = (0xFFFFFFFF, 0xD503309F)"
definition insn_pssbb :: insn_class where "insn_pssbb = (0xFFFFFFFF, 0xD503349F)"
definition insn_bti :: insn_class where "insn_bti = (0xFFFFFF3F, 0xD503241f)"

definition all_classes :: "insn_class list" where
  "all_classes =
    [insn_class_branch_sys, insn_adr, insn_adrp, insn_prfm, insn_prfm_lit, insn_store_imm, insn_load_imm, 
     insn_signed_load_imm, insn_store_pre, insn_load_pre, insn_store_post, insn_load_post, insn_str_reg, insn_str_imm, 
     insn_ldadd, insn_ldclr, insn_ldeor, insn_ldset, insn_swp, insn_cas, insn_ldr_reg, 
     insn_signed_ldr_reg, insn_ldr_imm, insn_ldr_lit, insn_ldrsw_lit, insn_exclusive, insn_load_ex, insn_store_ex, 
     insn_mops, insn_stp, insn_ldp, insn_stp_post, insn_ldp_post, insn_stp_pre, insn_ldp_pre, 
     insn_add_imm, insn_adds_imm, insn_sub_imm, insn_subs_imm, insn_movn, insn_sbfm, insn_bfm, 
     insn_movz, insn_ubfm, insn_movk, insn_add, insn_adds, insn_sub, insn_subs, 
     insn_madd, insn_msub, insn_udiv, insn_sdiv, insn_lslv, insn_lsrv, insn_asrv, 
     insn_rorv, insn_rev16, insn_rev32, insn_rev64, insn_and, insn_bic, insn_orr, 
     insn_mov_reg, insn_orn, insn_eor, insn_eon, insn_ands, insn_bics, insn_and_imm, 
     insn_orr_imm, insn_eor_imm, insn_ands_imm, insn_extr, insn_b, insn_bl, insn_cbz, 
     insn_cbnz, insn_tbz, insn_tbnz, insn_bcond, insn_svc, insn_hvc, insn_smc, 
     insn_brk, insn_exception, insn_hint, insn_br, insn_br_auth, insn_blr, insn_blr_auth, 
     insn_ret, insn_ret_auth, insn_eret, insn_eret_auth, insn_mrs, insn_msr_imm, insn_msr_reg, 
     insn_dmb, insn_dsb_base, insn_dsb_nxs, insn_isb, insn_sb, insn_clrex, insn_ssbb, 
     insn_pssbb, insn_bti]"

lemmas insn_defs = insn_class_branch_sys_def insn_adr_def insn_adrp_def insn_prfm_def
    insn_prfm_lit_def insn_store_imm_def insn_load_imm_def insn_signed_load_imm_def
    insn_store_pre_def insn_load_pre_def insn_store_post_def insn_load_post_def insn_str_reg_def
    insn_str_imm_def insn_ldadd_def insn_ldclr_def insn_ldeor_def insn_ldset_def insn_swp_def
    insn_cas_def insn_ldr_reg_def insn_signed_ldr_reg_def insn_ldr_imm_def insn_ldr_lit_def
    insn_ldrsw_lit_def insn_exclusive_def insn_load_ex_def insn_store_ex_def insn_mops_def
    insn_stp_def insn_ldp_def insn_stp_post_def insn_ldp_post_def insn_stp_pre_def insn_ldp_pre_def
    insn_add_imm_def insn_adds_imm_def insn_sub_imm_def insn_subs_imm_def insn_movn_def
    insn_sbfm_def insn_bfm_def insn_movz_def insn_ubfm_def insn_movk_def insn_add_def insn_adds_def
    insn_sub_def insn_subs_def insn_madd_def insn_msub_def insn_udiv_def insn_sdiv_def insn_lslv_def
    insn_lsrv_def insn_asrv_def insn_rorv_def insn_rev16_def insn_rev32_def insn_rev64_def
    insn_and_def insn_bic_def insn_orr_def insn_mov_reg_def insn_orn_def insn_eor_def insn_eon_def
    insn_ands_def insn_bics_def insn_and_imm_def insn_orr_imm_def insn_eor_imm_def insn_ands_imm_def
    insn_extr_def insn_b_def insn_bl_def insn_cbz_def insn_cbnz_def insn_tbz_def insn_tbnz_def
    insn_bcond_def insn_svc_def insn_hvc_def insn_smc_def insn_brk_def insn_exception_def
    insn_hint_def insn_br_def insn_br_auth_def insn_blr_def insn_blr_auth_def insn_ret_def
    insn_ret_auth_def insn_eret_def insn_eret_auth_def insn_mrs_def insn_msr_imm_def
    insn_msr_reg_def insn_dmb_def insn_dsb_base_def insn_dsb_nxs_def insn_isb_def insn_sb_def
    insn_clrex_def insn_ssbb_def insn_pssbb_def insn_bti_def

subsection \<open>Hints\<close>

datatype aarch64_insn_hint_cr_op =
  AARCH64_INSN_HINT_NOP
  | AARCH64_INSN_HINT_YIELD
  | AARCH64_INSN_HINT_WFE
  | AARCH64_INSN_HINT_WFI
  | AARCH64_INSN_HINT_SEV
  | AARCH64_INSN_HINT_SEVL
  | AARCH64_INSN_HINT_XPACLRI
  | AARCH64_INSN_HINT_PACIA_1716
  | AARCH64_INSN_HINT_PACIB_1716
  | AARCH64_INSN_HINT_AUTIA_1716
  | AARCH64_INSN_HINT_AUTIB_1716
  | AARCH64_INSN_HINT_PACIAZ
  | AARCH64_INSN_HINT_PACIASP
  | AARCH64_INSN_HINT_PACIBZ
  | AARCH64_INSN_HINT_PACIBSP
  | AARCH64_INSN_HINT_AUTIAZ
  | AARCH64_INSN_HINT_AUTIASP
  | AARCH64_INSN_HINT_AUTIBZ
  | AARCH64_INSN_HINT_AUTIBSP
  | AARCH64_INSN_HINT_ESB
  | AARCH64_INSN_HINT_PSB
  | AARCH64_INSN_HINT_TSB
  | AARCH64_INSN_HINT_CSDB
  | AARCH64_INSN_HINT_CLEARBHB
  | AARCH64_INSN_HINT_BTI
  | AARCH64_INSN_HINT_BTIC
  | AARCH64_INSN_HINT_BTIJ
  | AARCH64_INSN_HINT_BTIJC

fun hint_value :: "aarch64_insn_hint_cr_op \<Rightarrow> u32" where
  "hint_value AARCH64_INSN_HINT_NOP = push_bit 5 0x0"
| "hint_value AARCH64_INSN_HINT_YIELD = push_bit 5 0x1"
| "hint_value AARCH64_INSN_HINT_WFE = push_bit 5 0x2"
| "hint_value AARCH64_INSN_HINT_WFI = push_bit 5 0x3"
| "hint_value AARCH64_INSN_HINT_SEV = push_bit 5 0x4"
| "hint_value AARCH64_INSN_HINT_SEVL = push_bit 5 0x5"
| "hint_value AARCH64_INSN_HINT_XPACLRI = push_bit 5 0x07"
| "hint_value AARCH64_INSN_HINT_PACIA_1716 = push_bit 5 0x08"
| "hint_value AARCH64_INSN_HINT_PACIB_1716 = push_bit 5 0x0A"
| "hint_value AARCH64_INSN_HINT_AUTIA_1716 = push_bit 5 0x0C"
| "hint_value AARCH64_INSN_HINT_AUTIB_1716 = push_bit 5 0x0E"
| "hint_value AARCH64_INSN_HINT_PACIAZ = push_bit 5 0x18"
| "hint_value AARCH64_INSN_HINT_PACIASP = push_bit 5 0x19"
| "hint_value AARCH64_INSN_HINT_PACIBZ = push_bit 5 0x1A"
| "hint_value AARCH64_INSN_HINT_PACIBSP = push_bit 5 0x1B"
| "hint_value AARCH64_INSN_HINT_AUTIAZ = push_bit 5 0x1C"
| "hint_value AARCH64_INSN_HINT_AUTIASP = push_bit 5 0x1D"
| "hint_value AARCH64_INSN_HINT_AUTIBZ = push_bit 5 0x1E"
| "hint_value AARCH64_INSN_HINT_AUTIBSP = push_bit 5 0x1F"
| "hint_value AARCH64_INSN_HINT_ESB = push_bit 5 0x10"
| "hint_value AARCH64_INSN_HINT_PSB = push_bit 5 0x11"
| "hint_value AARCH64_INSN_HINT_TSB = push_bit 5 0x12"
| "hint_value AARCH64_INSN_HINT_CSDB = push_bit 5 0x14"
| "hint_value AARCH64_INSN_HINT_CLEARBHB = push_bit 5 0x16"
| "hint_value AARCH64_INSN_HINT_BTI = push_bit 5 0x20"
| "hint_value AARCH64_INSN_HINT_BTIC = push_bit 5 0x22"
| "hint_value AARCH64_INSN_HINT_BTIJ = push_bit 5 0x24"
| "hint_value AARCH64_INSN_HINT_BTIJC = push_bit 5 0x26"

definition aarch64_insn_gen_hint :: "aarch64_insn_hint_cr_op \<Rightarrow> u32" where
  "aarch64_insn_gen_hint op = aarch64_insn_get_value insn_hint OR hint_value op"

definition aarch64_insn_gen_nop :: u32 where
  "aarch64_insn_gen_nop = aarch64_insn_gen_hint AARCH64_INSN_HINT_NOP"

definition steppable_hints :: "aarch64_insn_hint_cr_op list" where
  "steppable_hints =
    [AARCH64_INSN_HINT_XPACLRI, AARCH64_INSN_HINT_PACIA_1716, AARCH64_INSN_HINT_PACIB_1716,
     AARCH64_INSN_HINT_PACIAZ, AARCH64_INSN_HINT_PACIASP, AARCH64_INSN_HINT_PACIBZ,
     AARCH64_INSN_HINT_PACIBSP, AARCH64_INSN_HINT_BTI, AARCH64_INSN_HINT_BTIC,
     AARCH64_INSN_HINT_BTIJ, AARCH64_INSN_HINT_BTIJC, AARCH64_INSN_HINT_NOP]"

definition aarch64_insn_is_steppable_hint :: "u32 \<Rightarrow> bool" where
  "aarch64_insn_is_steppable_hint insn \<longleftrightarrow>
     (if \<not> aarch64_insn_is insn_hint insn then False
      else insn AND 0xFE0 \<in> set (map hint_value steppable_hints))"

subsection \<open>Groups\<close>

text \<open>A function of the header that tests one class after the other is the list of the classes.\<close>

definition in_one_of :: "insn_class list \<Rightarrow> u32 \<Rightarrow> bool" where
  "in_one_of cs insn \<longleftrightarrow> list_ex (\<lambda>c. aarch64_insn_is c insn) cs"

definition branch_classes :: "insn_class list" where
  "branch_classes = [insn_b, insn_bl, insn_cbz, insn_cbnz, insn_tbz, insn_tbnz, insn_ret,
    insn_ret_auth, insn_br, insn_br_auth, insn_blr, insn_blr_auth, insn_bcond]"

definition aarch64_insn_is_branch :: "u32 \<Rightarrow> bool" where
  "aarch64_insn_is_branch insn \<longleftrightarrow> in_one_of branch_classes insn"

definition branch_imm_classes :: "insn_class list" where
  "branch_imm_classes = [insn_b, insn_bl, insn_tbz, insn_tbnz, insn_cbz, insn_cbnz, insn_bcond]"

definition aarch64_insn_is_branch_imm :: "u32 \<Rightarrow> bool" where
  "aarch64_insn_is_branch_imm insn \<longleftrightarrow> in_one_of branch_imm_classes insn"

definition adr_adrp_classes :: "insn_class list" where
  "adr_adrp_classes = [insn_adr, insn_adrp]"

definition aarch64_insn_is_adr_adrp :: "u32 \<Rightarrow> bool" where
  "aarch64_insn_is_adr_adrp insn \<longleftrightarrow> in_one_of adr_adrp_classes insn"

definition dsb_classes :: "insn_class list" where
  "dsb_classes = [insn_dsb_base, insn_dsb_nxs]"

definition aarch64_insn_is_dsb :: "u32 \<Rightarrow> bool" where
  "aarch64_insn_is_dsb insn \<longleftrightarrow> in_one_of dsb_classes insn"

definition barrier_classes :: "insn_class list" where
  "barrier_classes = [insn_dmb] @ dsb_classes @ [insn_isb, insn_sb, insn_clrex, insn_ssbb, insn_pssbb]"

definition aarch64_insn_is_barrier :: "u32 \<Rightarrow> bool" where
  "aarch64_insn_is_barrier insn \<longleftrightarrow> in_one_of barrier_classes insn"

definition store_single_classes :: "insn_class list" where
  "store_single_classes = [insn_store_imm, insn_store_pre, insn_store_post]"

definition aarch64_insn_is_store_single :: "u32 \<Rightarrow> bool" where
  "aarch64_insn_is_store_single insn \<longleftrightarrow> in_one_of store_single_classes insn"

definition store_pair_classes :: "insn_class list" where
  "store_pair_classes = [insn_stp, insn_stp_pre, insn_stp_post]"

definition aarch64_insn_is_store_pair :: "u32 \<Rightarrow> bool" where
  "aarch64_insn_is_store_pair insn \<longleftrightarrow> in_one_of store_pair_classes insn"

definition load_single_classes :: "insn_class list" where
  "load_single_classes = [insn_load_imm, insn_load_pre, insn_load_post]"

definition aarch64_insn_is_load_single :: "u32 \<Rightarrow> bool" where
  "aarch64_insn_is_load_single insn \<longleftrightarrow> in_one_of load_single_classes insn"

definition load_pair_classes :: "insn_class list" where
  "load_pair_classes = [insn_ldp, insn_ldp_pre, insn_ldp_post]"

definition aarch64_insn_is_load_pair :: "u32 \<Rightarrow> bool" where
  "aarch64_insn_is_load_pair insn \<longleftrightarrow> in_one_of load_pair_classes insn"

definition uses_literal_classes :: "insn_class list" where
  "uses_literal_classes = [insn_ldr_lit, insn_ldrsw_lit] @ adr_adrp_classes @ [insn_prfm_lit]"

definition aarch64_insn_uses_literal :: "u32 \<Rightarrow> bool" where
  "aarch64_insn_uses_literal insn \<longleftrightarrow> in_one_of uses_literal_classes insn"

lemmas group_defs = branch_classes_def branch_imm_classes_def adr_adrp_classes_def dsb_classes_def
    barrier_classes_def store_single_classes_def store_pair_classes_def load_single_classes_def
    load_pair_classes_def uses_literal_classes_def

subsection \<open>Which classes meet\<close>

text \<open>
  Two classes have an instruction in common exactly when their values agree where both masks
  look, and one is part of the other when it fixes every bit the other looks at.
\<close>

fun compatible :: "insn_class \<Rightarrow> insn_class \<Rightarrow> bool" where
  "compatible (m1, v1) (m2, v2) \<longleftrightarrow> (v1 XOR v2) AND m1 AND m2 = 0"

fun part_of :: "insn_class \<Rightarrow> insn_class \<Rightarrow> bool" where
  "part_of (m1, v1) (m2, v2) \<longleftrightarrow> m1 AND m2 = m2 \<and> v1 AND m2 = v2"

lemma classes_meet:
  assumes "well_encoded c" "well_encoded d"
  shows "(\<exists>code. aarch64_insn_is c code \<and> aarch64_insn_is d code) \<longleftrightarrow> compatible c d"
proof -
  obtain m1 v1 m2 v2 where c: "c = (m1, v1)" and d: "d = (m2, v2)" by (cases c, cases d)
  have v: "\<not> bit v1 n" if "\<not> bit m1 n" "n < 32" for n
    using assms(1) that unfolding c well_encoded.simps by (auto simp: bit_eq_iff bit_simps)
  have w: "\<not> bit v2 n" if "\<not> bit m2 n" "n < 32" for n
    using assms(2) that unfolding d well_encoded.simps by (auto simp: bit_eq_iff bit_simps)
  show ?thesis
  proof
    assume "\<exists>code. aarch64_insn_is c code \<and> aarch64_insn_is d code"
    then obtain code where "v1 = code AND m1" "v2 = code AND m2" by (auto simp: c d)
    then show "compatible c d" unfolding c d compatible.simps
      by (intro bit_eqI) (auto simp: bit_simps)
  next
    assume k: "compatible c d"
    then have k: "bit m1 n \<Longrightarrow> bit m2 n \<Longrightarrow> n < 32 \<Longrightarrow> bit v1 n = bit v2 n" for n
      unfolding c d compatible.simps by (auto simp: bit_eq_iff bit_simps)
    have "(v1 OR v2) AND m1 = v1"
      by (rule bit_word_eqI) (use v w k in \<open>auto simp: bit_simps\<close>)
    moreover have "(v1 OR v2) AND m2 = v2"
      by (rule bit_word_eqI) (use v w k in \<open>auto simp: bit_simps\<close>)
    ultimately show "\<exists>code. aarch64_insn_is c code \<and> aarch64_insn_is d code"
      by (intro exI [of _ "v1 OR v2"]) (simp add: c d)
  qed
qed

lemma incompatible_apart: "\<not> compatible c d \<Longrightarrow> aarch64_insn_is c code \<Longrightarrow> \<not> aarch64_insn_is d code"
proof (cases c, cases d)
  fix m1 v1 m2 v2
  assume n: "\<not> compatible c d" "aarch64_insn_is c code" and cd: "c = (m1, v1)" "d = (m2, v2)"
  then have "v1 = code AND m1" by simp
  moreover have "(code AND m1 XOR code AND m2) AND m1 AND m2 = 0"
    by (intro bit_eqI) (auto simp: bit_simps)
  ultimately show "\<not> aarch64_insn_is d code" using n(1) cd by auto
qed

lemma part_of_is: "part_of c d \<Longrightarrow> aarch64_insn_is c code \<Longrightarrow> aarch64_insn_is d code"
  by (cases c, cases d) (auto simp: and.assoc)

end
