(* ===== verification/Esr.thy ===== *)
theory Esr
  imports Insn Bits
begin

text \<open>
  The exception syndrome register of arm64 (kheaders/arch/arm64/include/asm/esr.h), the
  breakpoint numbers (brk-imm.h), the break instructions (insn-def.h, debug-monitors.h) and the
  system-register encoding (sysreg.h). Constants are \<open>unsigned long\<close>; shift counts are numbers.
\<close>

subsection \<open>Breakpoint numbers and instructions\<close>

definition KPROBES_BRK_IMM :: u64 where "KPROBES_BRK_IMM = 0x004"
definition UPROBES_BRK_IMM :: u64 where "UPROBES_BRK_IMM = 0x005"
definition KPROBES_BRK_SS_IMM :: u64 where "KPROBES_BRK_SS_IMM = 0x006"
definition KRETPROBES_BRK_IMM :: u64 where "KRETPROBES_BRK_IMM = 0x007"
definition FAULT_BRK_IMM :: u64 where "FAULT_BRK_IMM = 0x100"
definition KGDB_DYN_DBG_BRK_IMM :: u64 where "KGDB_DYN_DBG_BRK_IMM = 0x400"
definition KGDB_COMPILED_DBG_BRK_IMM :: u64 where "KGDB_COMPILED_DBG_BRK_IMM = 0x401"
definition BUG_BRK_IMM :: u64 where "BUG_BRK_IMM = 0x800"
definition KASAN_BRK_IMM :: u64 where "KASAN_BRK_IMM = 0x900"
definition KASAN_BRK_MASK :: u64 where "KASAN_BRK_MASK = 0x0ff"
definition UBSAN_BRK_IMM :: u64 where "UBSAN_BRK_IMM = 0x5500"
definition UBSAN_BRK_MASK :: u64 where "UBSAN_BRK_MASK = 0x00ff"
definition CFI_BRK_IMM_TARGET :: u64 where "CFI_BRK_IMM_TARGET = GENMASK 4 0"
definition CFI_BRK_IMM_TYPE :: u64 where "CFI_BRK_IMM_TYPE = GENMASK 9 5"
definition CFI_BRK_IMM_BASE :: u64 where "CFI_BRK_IMM_BASE = 0x8000"
definition CFI_BRK_IMM_MASK :: u64 where "CFI_BRK_IMM_MASK = CFI_BRK_IMM_TARGET OR CFI_BRK_IMM_TYPE"
definition AARCH64_INSN_SIZE :: u64 where "AARCH64_INSN_SIZE = 4"
definition AARCH64_BREAK_MON :: u64 where "AARCH64_BREAK_MON = 0xd4200000"
definition AARCH64_BREAK_FAULT :: u64 where
  "AARCH64_BREAK_FAULT = AARCH64_BREAK_MON OR push_bit 5 FAULT_BRK_IMM"
definition DBG_ESR_EVT :: "u64 \<Rightarrow> u64" where
  "DBG_ESR_EVT x = drop_bit 27 x AND 0x7"
definition DBG_ESR_EVT_HWBP :: u64 where "DBG_ESR_EVT_HWBP = 0x0"
definition DBG_ESR_EVT_HWSS :: u64 where "DBG_ESR_EVT_HWSS = 0x1"
definition DBG_ESR_EVT_HWWP :: u64 where "DBG_ESR_EVT_HWWP = 0x2"
definition DBG_ESR_EVT_BRK :: u64 where "DBG_ESR_EVT_BRK = 0x6"
definition AARCH64_BREAK_KGDB_DYN_DBG :: u64 where
  "AARCH64_BREAK_KGDB_DYN_DBG = AARCH64_BREAK_MON OR push_bit 5 KGDB_DYN_DBG_BRK_IMM"
definition BRK64_OPCODE_KPROBES :: u64 where
  "BRK64_OPCODE_KPROBES = AARCH64_BREAK_MON OR push_bit 5 KPROBES_BRK_IMM"
definition BRK64_OPCODE_KPROBES_SS :: u64 where
  "BRK64_OPCODE_KPROBES_SS = AARCH64_BREAK_MON OR push_bit 5 KPROBES_BRK_SS_IMM"
definition BRK64_OPCODE_UPROBES :: u64 where
  "BRK64_OPCODE_UPROBES = AARCH64_BREAK_MON OR push_bit 5 UPROBES_BRK_IMM"
definition DBG_ESR_EVT_BKPT :: u64 where "DBG_ESR_EVT_BKPT = 0x4"
definition DBG_ESR_EVT_VECC :: u64 where "DBG_ESR_EVT_VECC = 0x5"

subsection \<open>System registers\<close>

definition Op0_shift :: nat where "Op0_shift = 19"
definition Op0_mask :: u64 where "Op0_mask = 0x3"
definition Op1_shift :: nat where "Op1_shift = 16"
definition Op1_mask :: u64 where "Op1_mask = 0x7"
definition CRn_shift :: nat where "CRn_shift = 12"
definition CRn_mask :: u64 where "CRn_mask = 0xf"
definition CRm_shift :: nat where "CRm_shift = 8"
definition CRm_mask :: u64 where "CRm_mask = 0xf"
definition Op2_shift :: nat where "Op2_shift = 5"
definition Op2_mask :: u64 where "Op2_mask = 0x7"
definition sys_reg :: "u64 \<Rightarrow> u64 \<Rightarrow> u64 \<Rightarrow> u64 \<Rightarrow> u64 \<Rightarrow> u64" where
  "sys_reg op0 op1 crn crm op2 = push_bit Op0_shift op0 OR push_bit Op1_shift op1 OR push_bit
     CRn_shift crn OR push_bit CRm_shift crm OR push_bit Op2_shift op2"
definition sys_reg_Op0 :: "u64 \<Rightarrow> u64" where
  "sys_reg_Op0 reg_id = drop_bit Op0_shift reg_id AND Op0_mask"
definition sys_reg_Op1 :: "u64 \<Rightarrow> u64" where
  "sys_reg_Op1 reg_id = drop_bit Op1_shift reg_id AND Op1_mask"
definition sys_reg_CRn :: "u64 \<Rightarrow> u64" where
  "sys_reg_CRn reg_id = drop_bit CRn_shift reg_id AND CRn_mask"
definition sys_reg_CRm :: "u64 \<Rightarrow> u64" where
  "sys_reg_CRm reg_id = drop_bit CRm_shift reg_id AND CRm_mask"
definition sys_reg_Op2 :: "u64 \<Rightarrow> u64" where
  "sys_reg_Op2 reg_id = drop_bit Op2_shift reg_id AND Op2_mask"

subsection \<open>Fields of the syndrome\<close>

definition ESR_ELx_EC_UNKNOWN :: u64 where "ESR_ELx_EC_UNKNOWN = 0x00"
definition ESR_ELx_EC_WFx :: u64 where "ESR_ELx_EC_WFx = 0x01"
definition ESR_ELx_EC_CP15_32 :: u64 where "ESR_ELx_EC_CP15_32 = 0x03"
definition ESR_ELx_EC_CP15_64 :: u64 where "ESR_ELx_EC_CP15_64 = 0x04"
definition ESR_ELx_EC_CP14_MR :: u64 where "ESR_ELx_EC_CP14_MR = 0x05"
definition ESR_ELx_EC_CP14_LS :: u64 where "ESR_ELx_EC_CP14_LS = 0x06"
definition ESR_ELx_EC_FP_ASIMD :: u64 where "ESR_ELx_EC_FP_ASIMD = 0x07"
definition ESR_ELx_EC_CP10_ID :: u64 where "ESR_ELx_EC_CP10_ID = 0x08"
definition ESR_ELx_EC_PAC :: u64 where "ESR_ELx_EC_PAC = 0x09"
definition ESR_ELx_EC_CP14_64 :: u64 where "ESR_ELx_EC_CP14_64 = 0x0C"
definition ESR_ELx_EC_BTI :: u64 where "ESR_ELx_EC_BTI = 0x0D"
definition ESR_ELx_EC_ILL :: u64 where "ESR_ELx_EC_ILL = 0x0E"
definition ESR_ELx_EC_SVC32 :: u64 where "ESR_ELx_EC_SVC32 = 0x11"
definition ESR_ELx_EC_HVC32 :: u64 where "ESR_ELx_EC_HVC32 = 0x12"
definition ESR_ELx_EC_SMC32 :: u64 where "ESR_ELx_EC_SMC32 = 0x13"
definition ESR_ELx_EC_SVC64 :: u64 where "ESR_ELx_EC_SVC64 = 0x15"
definition ESR_ELx_EC_HVC64 :: u64 where "ESR_ELx_EC_HVC64 = 0x16"
definition ESR_ELx_EC_SMC64 :: u64 where "ESR_ELx_EC_SMC64 = 0x17"
definition ESR_ELx_EC_SYS64 :: u64 where "ESR_ELx_EC_SYS64 = 0x18"
definition ESR_ELx_EC_SVE :: u64 where "ESR_ELx_EC_SVE = 0x19"
definition ESR_ELx_EC_ERET :: u64 where "ESR_ELx_EC_ERET = 0x1a"
definition ESR_ELx_EC_FPAC :: u64 where "ESR_ELx_EC_FPAC = 0x1C"
definition ESR_ELx_EC_SME :: u64 where "ESR_ELx_EC_SME = 0x1D"
definition ESR_ELx_EC_IMP_DEF :: u64 where "ESR_ELx_EC_IMP_DEF = 0x1f"
definition ESR_ELx_EC_IABT_LOW :: u64 where "ESR_ELx_EC_IABT_LOW = 0x20"
definition ESR_ELx_EC_IABT_CUR :: u64 where "ESR_ELx_EC_IABT_CUR = 0x21"
definition ESR_ELx_EC_PC_ALIGN :: u64 where "ESR_ELx_EC_PC_ALIGN = 0x22"
definition ESR_ELx_EC_DABT_LOW :: u64 where "ESR_ELx_EC_DABT_LOW = 0x24"
definition ESR_ELx_EC_DABT_CUR :: u64 where "ESR_ELx_EC_DABT_CUR = 0x25"
definition ESR_ELx_EC_SP_ALIGN :: u64 where "ESR_ELx_EC_SP_ALIGN = 0x26"
definition ESR_ELx_EC_MOPS :: u64 where "ESR_ELx_EC_MOPS = 0x27"
definition ESR_ELx_EC_FP_EXC32 :: u64 where "ESR_ELx_EC_FP_EXC32 = 0x28"
definition ESR_ELx_EC_FP_EXC64 :: u64 where "ESR_ELx_EC_FP_EXC64 = 0x2C"
definition ESR_ELx_EC_SERROR :: u64 where "ESR_ELx_EC_SERROR = 0x2F"
definition ESR_ELx_EC_BREAKPT_LOW :: u64 where "ESR_ELx_EC_BREAKPT_LOW = 0x30"
definition ESR_ELx_EC_BREAKPT_CUR :: u64 where "ESR_ELx_EC_BREAKPT_CUR = 0x31"
definition ESR_ELx_EC_SOFTSTP_LOW :: u64 where "ESR_ELx_EC_SOFTSTP_LOW = 0x32"
definition ESR_ELx_EC_SOFTSTP_CUR :: u64 where "ESR_ELx_EC_SOFTSTP_CUR = 0x33"
definition ESR_ELx_EC_WATCHPT_LOW :: u64 where "ESR_ELx_EC_WATCHPT_LOW = 0x34"
definition ESR_ELx_EC_WATCHPT_CUR :: u64 where "ESR_ELx_EC_WATCHPT_CUR = 0x35"
definition ESR_ELx_EC_BKPT32 :: u64 where "ESR_ELx_EC_BKPT32 = 0x38"
definition ESR_ELx_EC_VECTOR32 :: u64 where "ESR_ELx_EC_VECTOR32 = 0x3A"
definition ESR_ELx_EC_BRK64 :: u64 where "ESR_ELx_EC_BRK64 = 0x3C"
definition ESR_ELx_EC_MAX :: u64 where "ESR_ELx_EC_MAX = 0x3F"
definition ESR_ELx_EC_SHIFT :: nat where "ESR_ELx_EC_SHIFT = 26"
definition ESR_ELx_EC_WIDTH :: nat where "ESR_ELx_EC_WIDTH = 6"
definition ESR_ELx_EC_MASK :: u64 where "ESR_ELx_EC_MASK = push_bit ESR_ELx_EC_SHIFT 0x3F"
definition ESR_ELx_EC :: "u64 \<Rightarrow> u64" where
  "ESR_ELx_EC esr = drop_bit ESR_ELx_EC_SHIFT (esr AND ESR_ELx_EC_MASK)"
definition ESR_ELx_IL_SHIFT :: nat where "ESR_ELx_IL_SHIFT = 25"
definition ESR_ELx_IL :: u64 where "ESR_ELx_IL = push_bit ESR_ELx_IL_SHIFT 1"
definition ESR_ELx_ISS_MASK :: u64 where "ESR_ELx_ISS_MASK = GENMASK 24 0"
definition ESR_ELx_ISS :: "u64 \<Rightarrow> u64" where
  "ESR_ELx_ISS esr = esr AND ESR_ELx_ISS_MASK"
definition ESR_ELx_ISS2_SHIFT :: nat where "ESR_ELx_ISS2_SHIFT = 32"
definition ESR_ELx_ISS2_MASK :: u64 where "ESR_ELx_ISS2_MASK = GENMASK 55 32"
definition ESR_ELx_ISS2 :: "u64 \<Rightarrow> u64" where
  "ESR_ELx_ISS2 esr = drop_bit ESR_ELx_ISS2_SHIFT (esr AND ESR_ELx_ISS2_MASK)"
definition ESR_ELx_WNR_SHIFT :: nat where "ESR_ELx_WNR_SHIFT = 6"
definition ESR_ELx_WNR :: u64 where "ESR_ELx_WNR = push_bit ESR_ELx_WNR_SHIFT 1"
definition ESR_ELx_IDS_SHIFT :: nat where "ESR_ELx_IDS_SHIFT = 24"
definition ESR_ELx_IDS :: u64 where "ESR_ELx_IDS = push_bit ESR_ELx_IDS_SHIFT 1"
definition ESR_ELx_AET_SHIFT :: nat where "ESR_ELx_AET_SHIFT = 10"
definition ESR_ELx_AET :: u64 where "ESR_ELx_AET = push_bit ESR_ELx_AET_SHIFT 0x7"
definition ESR_ELx_AET_UC :: u64 where "ESR_ELx_AET_UC = push_bit ESR_ELx_AET_SHIFT 0"
definition ESR_ELx_AET_UEU :: u64 where "ESR_ELx_AET_UEU = push_bit ESR_ELx_AET_SHIFT 1"
definition ESR_ELx_AET_UEO :: u64 where "ESR_ELx_AET_UEO = push_bit ESR_ELx_AET_SHIFT 2"
definition ESR_ELx_AET_UER :: u64 where "ESR_ELx_AET_UER = push_bit ESR_ELx_AET_SHIFT 3"
definition ESR_ELx_AET_CE :: u64 where "ESR_ELx_AET_CE = push_bit ESR_ELx_AET_SHIFT 6"
definition ESR_ELx_SET_SHIFT :: nat where "ESR_ELx_SET_SHIFT = 11"
definition ESR_ELx_SET_MASK :: u64 where "ESR_ELx_SET_MASK = push_bit ESR_ELx_SET_SHIFT 3"
definition ESR_ELx_FnV_SHIFT :: nat where "ESR_ELx_FnV_SHIFT = 10"
definition ESR_ELx_FnV :: u64 where "ESR_ELx_FnV = push_bit ESR_ELx_FnV_SHIFT 1"
definition ESR_ELx_EA_SHIFT :: nat where "ESR_ELx_EA_SHIFT = 9"
definition ESR_ELx_EA :: u64 where "ESR_ELx_EA = push_bit ESR_ELx_EA_SHIFT 1"
definition ESR_ELx_S1PTW_SHIFT :: nat where "ESR_ELx_S1PTW_SHIFT = 7"
definition ESR_ELx_S1PTW :: u64 where "ESR_ELx_S1PTW = push_bit ESR_ELx_S1PTW_SHIFT 1"
definition ESR_ELx_FSC :: u64 where "ESR_ELx_FSC = 0x3F"
definition ESR_ELx_FSC_TYPE :: u64 where "ESR_ELx_FSC_TYPE = 0x3C"
definition ESR_ELx_FSC_LEVEL :: u64 where "ESR_ELx_FSC_LEVEL = 0x03"
definition ESR_ELx_FSC_EXTABT :: u64 where "ESR_ELx_FSC_EXTABT = 0x10"
definition ESR_ELx_FSC_MTE :: u64 where "ESR_ELx_FSC_MTE = 0x11"
definition ESR_ELx_FSC_SERROR :: u64 where "ESR_ELx_FSC_SERROR = 0x11"
definition ESR_ELx_FSC_ACCESS :: u64 where "ESR_ELx_FSC_ACCESS = 0x08"
definition ESR_ELx_FSC_FAULT :: u64 where "ESR_ELx_FSC_FAULT = 0x04"
definition ESR_ELx_FSC_PERM :: u64 where "ESR_ELx_FSC_PERM = 0x0C"
definition ESR_ELx_FSC_SEA_TTW :: "u64 \<Rightarrow> u64" where
  "ESR_ELx_FSC_SEA_TTW n = 0x14 + n"
definition ESR_ELx_FSC_SECC :: u64 where "ESR_ELx_FSC_SECC = 0x18"
definition ESR_ELx_FSC_SECC_TTW :: "u64 \<Rightarrow> u64" where
  "ESR_ELx_FSC_SECC_TTW n = 0x1c + n"
definition ESR_ELx_FSC_ACCESS_L :: "u64 \<Rightarrow> u64" where
  "ESR_ELx_FSC_ACCESS_L n = ESR_ELx_FSC_ACCESS + n"
definition ESR_ELx_FSC_PERM_L :: "u64 \<Rightarrow> u64" where
  "ESR_ELx_FSC_PERM_L n = ESR_ELx_FSC_PERM + n"
definition ESR_ELx_FSC_FAULT_nL :: u64 where "ESR_ELx_FSC_FAULT_nL = 0x2C"
definition ESR_ELx_FSC_FAULT_L :: "int \<Rightarrow> u64" where
  "ESR_ELx_FSC_FAULT_L n = (if n < 0 then ESR_ELx_FSC_FAULT_nL else ESR_ELx_FSC_FAULT) + word_of_int n"
definition ESR_ELx_ISV_SHIFT :: nat where "ESR_ELx_ISV_SHIFT = 24"
definition ESR_ELx_ISV :: u64 where "ESR_ELx_ISV = push_bit ESR_ELx_ISV_SHIFT 1"
definition ESR_ELx_SAS_SHIFT :: nat where "ESR_ELx_SAS_SHIFT = 22"
definition ESR_ELx_SAS :: u64 where "ESR_ELx_SAS = push_bit ESR_ELx_SAS_SHIFT 3"
definition ESR_ELx_SSE_SHIFT :: nat where "ESR_ELx_SSE_SHIFT = 21"
definition ESR_ELx_SSE :: u64 where "ESR_ELx_SSE = push_bit ESR_ELx_SSE_SHIFT 1"
definition ESR_ELx_SRT_SHIFT :: nat where "ESR_ELx_SRT_SHIFT = 16"
definition ESR_ELx_SRT_MASK :: u64 where "ESR_ELx_SRT_MASK = push_bit ESR_ELx_SRT_SHIFT 0x1F"
definition ESR_ELx_SF_SHIFT :: nat where "ESR_ELx_SF_SHIFT = 15"
definition ESR_ELx_SF :: u64 where "ESR_ELx_SF = push_bit ESR_ELx_SF_SHIFT 1"
definition ESR_ELx_AR_SHIFT :: nat where "ESR_ELx_AR_SHIFT = 14"
definition ESR_ELx_AR :: u64 where "ESR_ELx_AR = push_bit ESR_ELx_AR_SHIFT 1"
definition ESR_ELx_CM_SHIFT :: nat where "ESR_ELx_CM_SHIFT = 8"
definition ESR_ELx_CM :: u64 where "ESR_ELx_CM = push_bit ESR_ELx_CM_SHIFT 1"
definition ESR_ELx_TnD_SHIFT :: nat where "ESR_ELx_TnD_SHIFT = 10"
definition ESR_ELx_TnD :: u64 where "ESR_ELx_TnD = push_bit ESR_ELx_TnD_SHIFT 1"
definition ESR_ELx_TagAccess_SHIFT :: nat where "ESR_ELx_TagAccess_SHIFT = 9"
definition ESR_ELx_TagAccess :: u64 where "ESR_ELx_TagAccess = push_bit ESR_ELx_TagAccess_SHIFT 1"
definition ESR_ELx_GCS_SHIFT :: nat where "ESR_ELx_GCS_SHIFT = 8"
definition ESR_ELx_GCS :: u64 where "ESR_ELx_GCS = push_bit ESR_ELx_GCS_SHIFT 1"
definition ESR_ELx_Overlay_SHIFT :: nat where "ESR_ELx_Overlay_SHIFT = 6"
definition ESR_ELx_Overlay :: u64 where "ESR_ELx_Overlay = push_bit ESR_ELx_Overlay_SHIFT 1"
definition ESR_ELx_DirtyBit_SHIFT :: nat where "ESR_ELx_DirtyBit_SHIFT = 5"
definition ESR_ELx_DirtyBit :: u64 where "ESR_ELx_DirtyBit = push_bit ESR_ELx_DirtyBit_SHIFT 1"
definition ESR_ELx_Xs_SHIFT :: nat where "ESR_ELx_Xs_SHIFT = 0"
definition ESR_ELx_Xs_MASK :: u64 where "ESR_ELx_Xs_MASK = GENMASK 4 0"
definition ESR_ELx_FSC_ADDRSZ :: u64 where "ESR_ELx_FSC_ADDRSZ = 0x00"
definition ESR_ELx_FSC_ADDRSZ_L :: "u64 \<Rightarrow> u64" where
  "ESR_ELx_FSC_ADDRSZ_L n = ESR_ELx_FSC_ADDRSZ + n"
definition ESR_ELx_CV :: u64 where "ESR_ELx_CV = push_bit 24 1"
definition ESR_ELx_COND_SHIFT :: nat where "ESR_ELx_COND_SHIFT = 20"
definition ESR_ELx_COND_MASK :: u64 where "ESR_ELx_COND_MASK = push_bit ESR_ELx_COND_SHIFT 0xF"
definition ESR_ELx_WFx_ISS_RN :: u64 where "ESR_ELx_WFx_ISS_RN = push_bit 5 0x1F"
definition ESR_ELx_WFx_ISS_RV :: u64 where "ESR_ELx_WFx_ISS_RV = push_bit 2 1"
definition ESR_ELx_WFx_ISS_TI :: u64 where "ESR_ELx_WFx_ISS_TI = push_bit 0 3"
definition ESR_ELx_WFx_ISS_WFxT :: u64 where "ESR_ELx_WFx_ISS_WFxT = push_bit 0 2"
definition ESR_ELx_WFx_ISS_WFI :: u64 where "ESR_ELx_WFx_ISS_WFI = push_bit 0 0"
definition ESR_ELx_WFx_ISS_WFE :: u64 where "ESR_ELx_WFx_ISS_WFE = push_bit 0 1"
definition ESR_ELx_xVC_IMM_MASK :: u64 where "ESR_ELx_xVC_IMM_MASK = push_bit 16 1 - 1"
definition DISR_EL1_IDS :: u64 where "DISR_EL1_IDS = push_bit 24 1"
definition DISR_EL1_ESR_MASK :: u64 where
  "DISR_EL1_ESR_MASK = ESR_ELx_AET OR ESR_ELx_EA OR ESR_ELx_FSC"
definition ESR_ELx_WFx_MASK :: u64 where
  "ESR_ELx_WFx_MASK = ESR_ELx_EC_MASK OR ESR_ELx_WFx_ISS_TI AND NOT ESR_ELx_WFx_ISS_WFxT"
definition ESR_ELx_WFx_WFI_VAL :: u64 where
  "ESR_ELx_WFx_WFI_VAL = push_bit ESR_ELx_EC_SHIFT ESR_ELx_EC_WFx OR ESR_ELx_WFx_ISS_WFI"
definition ESR_ELx_BRK64_ISS_COMMENT_MASK :: u64 where "ESR_ELx_BRK64_ISS_COMMENT_MASK = 0xffff"
definition ESR_ELx_SYS64_ISS_RES0_SHIFT :: nat where "ESR_ELx_SYS64_ISS_RES0_SHIFT = 22"
definition ESR_ELx_SYS64_ISS_RES0_MASK :: u64 where
  "ESR_ELx_SYS64_ISS_RES0_MASK = push_bit ESR_ELx_SYS64_ISS_RES0_SHIFT 0x7"
definition ESR_ELx_SYS64_ISS_DIR_MASK :: u64 where "ESR_ELx_SYS64_ISS_DIR_MASK = 0x1"
definition ESR_ELx_SYS64_ISS_DIR_READ :: u64 where "ESR_ELx_SYS64_ISS_DIR_READ = 0x1"
definition ESR_ELx_SYS64_ISS_DIR_WRITE :: u64 where "ESR_ELx_SYS64_ISS_DIR_WRITE = 0x0"
definition ESR_ELx_SYS64_ISS_RT_SHIFT :: nat where "ESR_ELx_SYS64_ISS_RT_SHIFT = 5"
definition ESR_ELx_SYS64_ISS_RT_MASK :: u64 where
  "ESR_ELx_SYS64_ISS_RT_MASK = push_bit ESR_ELx_SYS64_ISS_RT_SHIFT 0x1f"
definition ESR_ELx_SYS64_ISS_CRM_SHIFT :: nat where "ESR_ELx_SYS64_ISS_CRM_SHIFT = 1"
definition ESR_ELx_SYS64_ISS_CRM_MASK :: u64 where
  "ESR_ELx_SYS64_ISS_CRM_MASK = push_bit ESR_ELx_SYS64_ISS_CRM_SHIFT 0xf"
definition ESR_ELx_SYS64_ISS_CRN_SHIFT :: nat where "ESR_ELx_SYS64_ISS_CRN_SHIFT = 10"
definition ESR_ELx_SYS64_ISS_CRN_MASK :: u64 where
  "ESR_ELx_SYS64_ISS_CRN_MASK = push_bit ESR_ELx_SYS64_ISS_CRN_SHIFT 0xf"
definition ESR_ELx_SYS64_ISS_OP1_SHIFT :: nat where "ESR_ELx_SYS64_ISS_OP1_SHIFT = 14"
definition ESR_ELx_SYS64_ISS_OP1_MASK :: u64 where
  "ESR_ELx_SYS64_ISS_OP1_MASK = push_bit ESR_ELx_SYS64_ISS_OP1_SHIFT 0x7"
definition ESR_ELx_SYS64_ISS_OP2_SHIFT :: nat where "ESR_ELx_SYS64_ISS_OP2_SHIFT = 17"
definition ESR_ELx_SYS64_ISS_OP2_MASK :: u64 where
  "ESR_ELx_SYS64_ISS_OP2_MASK = push_bit ESR_ELx_SYS64_ISS_OP2_SHIFT 0x7"
definition ESR_ELx_SYS64_ISS_OP0_SHIFT :: nat where "ESR_ELx_SYS64_ISS_OP0_SHIFT = 20"
definition ESR_ELx_SYS64_ISS_OP0_MASK :: u64 where
  "ESR_ELx_SYS64_ISS_OP0_MASK = push_bit ESR_ELx_SYS64_ISS_OP0_SHIFT 0x3"
definition ESR_ELx_SYS64_ISS_SYS_MASK :: u64 where
  "ESR_ELx_SYS64_ISS_SYS_MASK = ESR_ELx_SYS64_ISS_OP0_MASK OR ESR_ELx_SYS64_ISS_OP1_MASK OR
     ESR_ELx_SYS64_ISS_OP2_MASK OR ESR_ELx_SYS64_ISS_CRN_MASK OR ESR_ELx_SYS64_ISS_CRM_MASK"
definition ESR_ELx_SYS64_ISS_SYS_VAL :: "u64 \<Rightarrow> u64 \<Rightarrow> u64 \<Rightarrow> u64 \<Rightarrow> u64 \<Rightarrow> u64" where
  "ESR_ELx_SYS64_ISS_SYS_VAL op0 op1 op2 crn crm = push_bit ESR_ELx_SYS64_ISS_OP0_SHIFT op0 OR
     push_bit ESR_ELx_SYS64_ISS_OP1_SHIFT op1 OR push_bit ESR_ELx_SYS64_ISS_OP2_SHIFT op2 OR
     push_bit ESR_ELx_SYS64_ISS_CRN_SHIFT crn OR push_bit ESR_ELx_SYS64_ISS_CRM_SHIFT crm"
definition ESR_ELx_SYS64_ISS_SYS_OP_MASK :: u64 where
  "ESR_ELx_SYS64_ISS_SYS_OP_MASK = ESR_ELx_SYS64_ISS_SYS_MASK OR ESR_ELx_SYS64_ISS_DIR_MASK"
definition ESR_ELx_SYS64_ISS_RT :: "u64 \<Rightarrow> u64" where
  "ESR_ELx_SYS64_ISS_RT esr = drop_bit ESR_ELx_SYS64_ISS_RT_SHIFT (esr AND
     ESR_ELx_SYS64_ISS_RT_MASK)"
definition ESR_ELx_SYS64_ISS_CRM_DC_CIVAC :: u64 where "ESR_ELx_SYS64_ISS_CRM_DC_CIVAC = 14"
definition ESR_ELx_SYS64_ISS_CRM_DC_CVADP :: u64 where "ESR_ELx_SYS64_ISS_CRM_DC_CVADP = 13"
definition ESR_ELx_SYS64_ISS_CRM_DC_CVAP :: u64 where "ESR_ELx_SYS64_ISS_CRM_DC_CVAP = 12"
definition ESR_ELx_SYS64_ISS_CRM_DC_CVAU :: u64 where "ESR_ELx_SYS64_ISS_CRM_DC_CVAU = 11"
definition ESR_ELx_SYS64_ISS_CRM_DC_CVAC :: u64 where "ESR_ELx_SYS64_ISS_CRM_DC_CVAC = 10"
definition ESR_ELx_SYS64_ISS_CRM_IC_IVAU :: u64 where "ESR_ELx_SYS64_ISS_CRM_IC_IVAU = 5"
definition ESR_ELx_SYS64_ISS_EL0_CACHE_OP_MASK :: u64 where
  "ESR_ELx_SYS64_ISS_EL0_CACHE_OP_MASK = ESR_ELx_SYS64_ISS_OP0_MASK OR
     ESR_ELx_SYS64_ISS_OP1_MASK OR ESR_ELx_SYS64_ISS_OP2_MASK OR ESR_ELx_SYS64_ISS_CRN_MASK OR
     ESR_ELx_SYS64_ISS_DIR_MASK"
definition ESR_ELx_SYS64_ISS_EL0_CACHE_OP_VAL :: u64 where
  "ESR_ELx_SYS64_ISS_EL0_CACHE_OP_VAL = ESR_ELx_SYS64_ISS_SYS_VAL 1 3 1 7 0 OR
     ESR_ELx_SYS64_ISS_DIR_WRITE"
definition ESR_ELx_SYS64_ISS_SYS_MRS_OP_MASK :: u64 where
  "ESR_ELx_SYS64_ISS_SYS_MRS_OP_MASK = ESR_ELx_SYS64_ISS_OP0_MASK OR
     ESR_ELx_SYS64_ISS_OP1_MASK OR ESR_ELx_SYS64_ISS_CRN_MASK OR ESR_ELx_SYS64_ISS_DIR_MASK"
definition ESR_ELx_SYS64_ISS_SYS_MRS_OP_VAL :: u64 where
  "ESR_ELx_SYS64_ISS_SYS_MRS_OP_VAL = ESR_ELx_SYS64_ISS_SYS_VAL 3 0 0 0 0 OR
     ESR_ELx_SYS64_ISS_DIR_READ"
definition ESR_ELx_SYS64_ISS_SYS_CTR :: u64 where
  "ESR_ELx_SYS64_ISS_SYS_CTR = ESR_ELx_SYS64_ISS_SYS_VAL 3 3 1 0 0"
definition ESR_ELx_SYS64_ISS_SYS_CTR_READ :: u64 where
  "ESR_ELx_SYS64_ISS_SYS_CTR_READ = ESR_ELx_SYS64_ISS_SYS_CTR OR ESR_ELx_SYS64_ISS_DIR_READ"
definition ESR_ELx_SYS64_ISS_SYS_CNTVCT :: u64 where
  "ESR_ELx_SYS64_ISS_SYS_CNTVCT = ESR_ELx_SYS64_ISS_SYS_VAL 3 3 2 14 0 OR
     ESR_ELx_SYS64_ISS_DIR_READ"
definition ESR_ELx_SYS64_ISS_SYS_CNTVCTSS :: u64 where
  "ESR_ELx_SYS64_ISS_SYS_CNTVCTSS = ESR_ELx_SYS64_ISS_SYS_VAL 3 3 6 14 0 OR
     ESR_ELx_SYS64_ISS_DIR_READ"
definition ESR_ELx_SYS64_ISS_SYS_CNTFRQ :: u64 where
  "ESR_ELx_SYS64_ISS_SYS_CNTFRQ = ESR_ELx_SYS64_ISS_SYS_VAL 3 3 0 14 0 OR
     ESR_ELx_SYS64_ISS_DIR_READ"
definition esr_sys64_to_sysreg :: "u64 \<Rightarrow> u64" where
  "esr_sys64_to_sysreg e =
     sys_reg (drop_bit ESR_ELx_SYS64_ISS_OP0_SHIFT (e AND ESR_ELx_SYS64_ISS_OP0_MASK)) (drop_bit
     ESR_ELx_SYS64_ISS_OP1_SHIFT (e AND ESR_ELx_SYS64_ISS_OP1_MASK)) (drop_bit
     ESR_ELx_SYS64_ISS_CRN_SHIFT (e AND ESR_ELx_SYS64_ISS_CRN_MASK)) (drop_bit
     ESR_ELx_SYS64_ISS_CRM_SHIFT (e AND ESR_ELx_SYS64_ISS_CRM_MASK)) (drop_bit
     ESR_ELx_SYS64_ISS_OP2_SHIFT (e AND ESR_ELx_SYS64_ISS_OP2_MASK))"
definition esr_cp15_to_sysreg :: "u64 \<Rightarrow> u64" where
  "esr_cp15_to_sysreg e =
     sys_reg 3 (drop_bit ESR_ELx_SYS64_ISS_OP1_SHIFT (e AND ESR_ELx_SYS64_ISS_OP1_MASK))
     (drop_bit ESR_ELx_SYS64_ISS_CRN_SHIFT (e AND ESR_ELx_SYS64_ISS_CRN_MASK)) (drop_bit
     ESR_ELx_SYS64_ISS_CRM_SHIFT (e AND ESR_ELx_SYS64_ISS_CRM_MASK)) (drop_bit
     ESR_ELx_SYS64_ISS_OP2_SHIFT (e AND ESR_ELx_SYS64_ISS_OP2_MASK))"
definition ESR_ELx_ERET_ISS_ERET :: u64 where "ESR_ELx_ERET_ISS_ERET = 0x2"
definition ESR_ELx_ERET_ISS_ERETA :: u64 where "ESR_ELx_ERET_ISS_ERETA = 0x1"
definition ESR_ELx_FP_EXC_TFV :: u64 where "ESR_ELx_FP_EXC_TFV = push_bit 23 1"
definition ESR_ELx_CP15_32_ISS_DIR_MASK :: u64 where "ESR_ELx_CP15_32_ISS_DIR_MASK = 0x1"
definition ESR_ELx_CP15_32_ISS_DIR_READ :: u64 where "ESR_ELx_CP15_32_ISS_DIR_READ = 0x1"
definition ESR_ELx_CP15_32_ISS_DIR_WRITE :: u64 where "ESR_ELx_CP15_32_ISS_DIR_WRITE = 0x0"
definition ESR_ELx_CP15_32_ISS_RT_SHIFT :: nat where "ESR_ELx_CP15_32_ISS_RT_SHIFT = 5"
definition ESR_ELx_CP15_32_ISS_RT_MASK :: u64 where
  "ESR_ELx_CP15_32_ISS_RT_MASK = push_bit ESR_ELx_CP15_32_ISS_RT_SHIFT 0x1f"
definition ESR_ELx_CP15_32_ISS_CRM_SHIFT :: nat where "ESR_ELx_CP15_32_ISS_CRM_SHIFT = 1"
definition ESR_ELx_CP15_32_ISS_CRM_MASK :: u64 where
  "ESR_ELx_CP15_32_ISS_CRM_MASK = push_bit ESR_ELx_CP15_32_ISS_CRM_SHIFT 0xf"
definition ESR_ELx_CP15_32_ISS_CRN_SHIFT :: nat where "ESR_ELx_CP15_32_ISS_CRN_SHIFT = 10"
definition ESR_ELx_CP15_32_ISS_CRN_MASK :: u64 where
  "ESR_ELx_CP15_32_ISS_CRN_MASK = push_bit ESR_ELx_CP15_32_ISS_CRN_SHIFT 0xf"
definition ESR_ELx_CP15_32_ISS_OP1_SHIFT :: nat where "ESR_ELx_CP15_32_ISS_OP1_SHIFT = 14"
definition ESR_ELx_CP15_32_ISS_OP1_MASK :: u64 where
  "ESR_ELx_CP15_32_ISS_OP1_MASK = push_bit ESR_ELx_CP15_32_ISS_OP1_SHIFT 0x7"
definition ESR_ELx_CP15_32_ISS_OP2_SHIFT :: nat where "ESR_ELx_CP15_32_ISS_OP2_SHIFT = 17"
definition ESR_ELx_CP15_32_ISS_OP2_MASK :: u64 where
  "ESR_ELx_CP15_32_ISS_OP2_MASK = push_bit ESR_ELx_CP15_32_ISS_OP2_SHIFT 0x7"
definition ESR_ELx_CP15_32_ISS_SYS_MASK :: u64 where
  "ESR_ELx_CP15_32_ISS_SYS_MASK = ESR_ELx_CP15_32_ISS_OP1_MASK OR ESR_ELx_CP15_32_ISS_OP2_MASK
     OR ESR_ELx_CP15_32_ISS_CRN_MASK OR ESR_ELx_CP15_32_ISS_CRM_MASK OR
     ESR_ELx_CP15_32_ISS_DIR_MASK"
definition ESR_ELx_CP15_32_ISS_SYS_VAL :: "u64 \<Rightarrow> u64 \<Rightarrow> u64 \<Rightarrow> u64 \<Rightarrow> u64" where
  "ESR_ELx_CP15_32_ISS_SYS_VAL op1 op2 crn crm = push_bit ESR_ELx_CP15_32_ISS_OP1_SHIFT op1 OR
     push_bit ESR_ELx_CP15_32_ISS_OP2_SHIFT op2 OR push_bit ESR_ELx_CP15_32_ISS_CRN_SHIFT crn OR
     push_bit ESR_ELx_CP15_32_ISS_CRM_SHIFT crm"
definition ESR_ELx_CP15_64_ISS_DIR_MASK :: u64 where "ESR_ELx_CP15_64_ISS_DIR_MASK = 0x1"
definition ESR_ELx_CP15_64_ISS_DIR_READ :: u64 where "ESR_ELx_CP15_64_ISS_DIR_READ = 0x1"
definition ESR_ELx_CP15_64_ISS_DIR_WRITE :: u64 where "ESR_ELx_CP15_64_ISS_DIR_WRITE = 0x0"
definition ESR_ELx_CP15_64_ISS_RT_SHIFT :: nat where "ESR_ELx_CP15_64_ISS_RT_SHIFT = 5"
definition ESR_ELx_CP15_64_ISS_RT_MASK :: u64 where
  "ESR_ELx_CP15_64_ISS_RT_MASK = push_bit ESR_ELx_CP15_64_ISS_RT_SHIFT 0x1f"
definition ESR_ELx_CP15_64_ISS_RT2_SHIFT :: nat where "ESR_ELx_CP15_64_ISS_RT2_SHIFT = 10"
definition ESR_ELx_CP15_64_ISS_RT2_MASK :: u64 where
  "ESR_ELx_CP15_64_ISS_RT2_MASK = push_bit ESR_ELx_CP15_64_ISS_RT2_SHIFT 0x1f"
definition ESR_ELx_CP15_64_ISS_OP1_SHIFT :: nat where "ESR_ELx_CP15_64_ISS_OP1_SHIFT = 16"
definition ESR_ELx_CP15_64_ISS_OP1_MASK :: u64 where
  "ESR_ELx_CP15_64_ISS_OP1_MASK = push_bit ESR_ELx_CP15_64_ISS_OP1_SHIFT 0xf"
definition ESR_ELx_CP15_64_ISS_CRM_SHIFT :: nat where "ESR_ELx_CP15_64_ISS_CRM_SHIFT = 1"
definition ESR_ELx_CP15_64_ISS_CRM_MASK :: u64 where
  "ESR_ELx_CP15_64_ISS_CRM_MASK = push_bit ESR_ELx_CP15_64_ISS_CRM_SHIFT 0xf"
definition ESR_ELx_CP15_64_ISS_SYS_VAL :: "u64 \<Rightarrow> u64 \<Rightarrow> u64" where
  "ESR_ELx_CP15_64_ISS_SYS_VAL op1 crm = push_bit ESR_ELx_CP15_64_ISS_OP1_SHIFT op1 OR
     push_bit ESR_ELx_CP15_64_ISS_CRM_SHIFT crm"
definition ESR_ELx_CP15_64_ISS_SYS_MASK :: u64 where
  "ESR_ELx_CP15_64_ISS_SYS_MASK = ESR_ELx_CP15_64_ISS_OP1_MASK OR ESR_ELx_CP15_64_ISS_CRM_MASK
     OR ESR_ELx_CP15_64_ISS_DIR_MASK"
definition ESR_ELx_CP15_64_ISS_SYS_CNTVCT :: u64 where
  "ESR_ELx_CP15_64_ISS_SYS_CNTVCT = ESR_ELx_CP15_64_ISS_SYS_VAL 1 14 OR
     ESR_ELx_CP15_64_ISS_DIR_READ"
definition ESR_ELx_CP15_64_ISS_SYS_CNTVCTSS :: u64 where
  "ESR_ELx_CP15_64_ISS_SYS_CNTVCTSS = ESR_ELx_CP15_64_ISS_SYS_VAL 9 14 OR
     ESR_ELx_CP15_64_ISS_DIR_READ"
definition ESR_ELx_CP15_32_ISS_SYS_CNTFRQ :: u64 where
  "ESR_ELx_CP15_32_ISS_SYS_CNTFRQ = ESR_ELx_CP15_32_ISS_SYS_VAL 0 0 14 0 OR
     ESR_ELx_CP15_32_ISS_DIR_READ"
definition ESR_ELx_SME_ISS_SMTC_MASK :: u64 where "ESR_ELx_SME_ISS_SMTC_MASK = GENMASK 2 0"
definition ESR_ELx_SME_ISS_SMTC :: "u64 \<Rightarrow> u64" where
  "ESR_ELx_SME_ISS_SMTC esr = esr AND ESR_ELx_SME_ISS_SMTC_MASK"
definition ESR_ELx_SME_ISS_SMTC_SME_DISABLED :: u64 where "ESR_ELx_SME_ISS_SMTC_SME_DISABLED = 0"
definition ESR_ELx_SME_ISS_SMTC_ILL :: u64 where "ESR_ELx_SME_ISS_SMTC_ILL = 1"
definition ESR_ELx_SME_ISS_SMTC_SM_DISABLED :: u64 where "ESR_ELx_SME_ISS_SMTC_SM_DISABLED = 2"
definition ESR_ELx_SME_ISS_SMTC_ZA_DISABLED :: u64 where "ESR_ELx_SME_ISS_SMTC_ZA_DISABLED = 3"
definition ESR_ELx_SME_ISS_SMTC_ZT_DISABLED :: u64 where "ESR_ELx_SME_ISS_SMTC_ZT_DISABLED = 4"
definition ESR_ELx_MOPS_ISS_MEM_INST :: u64 where "ESR_ELx_MOPS_ISS_MEM_INST = push_bit 24 1"
definition ESR_ELx_MOPS_ISS_FROM_EPILOGUE :: u64 where
  "ESR_ELx_MOPS_ISS_FROM_EPILOGUE = push_bit 18 1"
definition ESR_ELx_MOPS_ISS_WRONG_OPTION :: u64 where
  "ESR_ELx_MOPS_ISS_WRONG_OPTION = push_bit 17 1"
definition ESR_ELx_MOPS_ISS_OPTION_A :: u64 where "ESR_ELx_MOPS_ISS_OPTION_A = push_bit 16 1"
definition ESR_ELx_MOPS_ISS_DESTREG :: "u64 \<Rightarrow> u64" where
  "ESR_ELx_MOPS_ISS_DESTREG esr = drop_bit 10 (esr AND push_bit 10 0x1f)"
definition ESR_ELx_MOPS_ISS_SRCREG :: "u64 \<Rightarrow> u64" where
  "ESR_ELx_MOPS_ISS_SRCREG esr = drop_bit 5 (esr AND push_bit 5 0x1f)"
definition ESR_ELx_MOPS_ISS_SIZEREG :: "u64 \<Rightarrow> u64" where
  "ESR_ELx_MOPS_ISS_SIZEREG esr = drop_bit 0 (esr AND push_bit 0 0x1f)"

subsection \<open>Predicates\<close>

definition esr_brk_comment :: "u64 \<Rightarrow> u64" where
  "esr_brk_comment esr = esr AND ESR_ELx_BRK64_ISS_COMMENT_MASK"

definition esr_is_data_abort :: "u64 \<Rightarrow> bool" where
  "esr_is_data_abort esr \<longleftrightarrow>
     (let ec = ESR_ELx_EC esr in ec = ESR_ELx_EC_DABT_LOW \<or> ec = ESR_ELx_EC_DABT_CUR)"

definition esr_is_cfi_brk :: "u64 \<Rightarrow> bool" where
  "esr_is_cfi_brk esr \<longleftrightarrow> ESR_ELx_EC esr = ESR_ELx_EC_BRK64 \<and>
     esr_brk_comment esr AND NOT CFI_BRK_IMM_MASK = CFI_BRK_IMM_BASE"

definition esr_fsc_is_translation_fault :: "u64 \<Rightarrow> bool" where
  "esr_fsc_is_translation_fault esr \<longleftrightarrow>
     (let esr = esr AND ESR_ELx_FSC
      in esr = ESR_ELx_FSC_FAULT_L 3 \<or> esr = ESR_ELx_FSC_FAULT_L 2 \<or> esr = ESR_ELx_FSC_FAULT_L 1 \<or>
         esr = ESR_ELx_FSC_FAULT_L 0 \<or> esr = ESR_ELx_FSC_FAULT_L (- 1))"

definition esr_fsc_is_permission_fault :: "u64 \<Rightarrow> bool" where
  "esr_fsc_is_permission_fault esr \<longleftrightarrow>
     (let esr = esr AND ESR_ELx_FSC
      in esr = ESR_ELx_FSC_PERM_L 3 \<or> esr = ESR_ELx_FSC_PERM_L 2 \<or> esr = ESR_ELx_FSC_PERM_L 1 \<or>
         esr = ESR_ELx_FSC_PERM_L 0)"

definition esr_fsc_is_access_flag_fault :: "u64 \<Rightarrow> bool" where
  "esr_fsc_is_access_flag_fault esr \<longleftrightarrow>
     (let esr = esr AND ESR_ELx_FSC
      in esr = ESR_ELx_FSC_ACCESS_L 3 \<or> esr = ESR_ELx_FSC_ACCESS_L 2 \<or> esr = ESR_ELx_FSC_ACCESS_L 1 \<or>
         esr = ESR_ELx_FSC_ACCESS_L 0)"

definition esr_iss_is_eretax :: "u64 \<Rightarrow> bool" where
  "esr_iss_is_eretax esr \<longleftrightarrow> esr AND ESR_ELx_ERET_ISS_ERET \<noteq> 0"

definition esr_iss_is_eretab :: "u64 \<Rightarrow> bool" where
  "esr_iss_is_eretab esr \<longleftrightarrow> esr AND ESR_ELx_ERET_ISS_ERETA \<noteq> 0"

end
