(* ===== verification/Trap_Claims.thy ===== *)
theory Trap_Claims
  imports Esr
begin

text \<open>
  Properties of the breakpoint path: which instructions a probe may sit on, and that the trap
  of a probe is recognised for what it is.
\<close>

subsection \<open>Instruction classes\<close>

lemma all_well_encoded: "list_all well_encoded all_classes"
  by (simp add: all_classes_def insn_defs)

text \<open>Two lists of classes with no instruction in common.\<close>

definition apart :: "insn_class list \<Rightarrow> insn_class list \<Rightarrow> bool" where
  "apart cs ds \<longleftrightarrow> list_all (\<lambda>c. list_all (\<lambda>d. \<not> compatible c d) ds) cs"

lemma apart_not_both: "apart cs ds \<Longrightarrow> in_one_of cs code \<Longrightarrow> \<not> in_one_of ds code"
  by (auto simp: apart_def in_one_of_def list_all_iff list_ex_iff dest: incompatible_apart)

lemma branches_apart:
  "apart branch_classes uses_literal_classes" "apart branch_classes barrier_classes"
  "apart branch_classes (load_single_classes @ store_single_classes)"
  "apart branch_classes (load_pair_classes @ store_pair_classes)"
  by (simp_all add: apart_def group_defs insn_defs)

lemma branches_are_branches: "c \<in> set branch_classes \<Longrightarrow> part_of c insn_class_branch_sys"
  by (auto simp: group_defs insn_defs)

fun pairwise_apart :: "insn_class list \<Rightarrow> bool" where
  "pairwise_apart [] \<longleftrightarrow> True"
| "pairwise_apart (c # cs) \<longleftrightarrow> list_all (\<lambda>d. \<not> compatible c d) cs \<and> pairwise_apart cs"

lemma pairwise_apart_unique:
  "pairwise_apart cs \<Longrightarrow> distinct cs \<Longrightarrow> in_one_of cs code \<Longrightarrow> \<exists>!c. c \<in> set cs \<and> aarch64_insn_is c code"
proof (induction cs)
  case (Cons c cs)
  show ?case
  proof (cases "aarch64_insn_is c code")
    case True
    then have "\<not> aarch64_insn_is d code" if "d \<in> set cs" for d
      using Cons.prems(1) that by (intro incompatible_apart [OF _ True]) (simp add: list_all_iff)
    then show ?thesis using True by auto
  next
    case False
    then have "\<exists>!d. d \<in> set cs \<and> aarch64_insn_is d code" using Cons by (simp add: in_one_of_def)
    then show ?thesis using False by auto
  qed
qed (simp add: in_one_of_def)

lemma branches_pairwise_apart: "pairwise_apart branch_classes" "distinct branch_classes"
  by (simp_all add: group_defs insn_defs)

text \<open>C25: An instruction the kprobe code takes for a branch belongs to the branch-and-system class,
  is exactly one of the thirteen branch instructions, and is neither taken for one that uses a
  literal, a barrier, nor a load or store: the cases of its decoder do not overlap.\<close>

theorem branch_classes_exact:
  assumes "aarch64_insn_is_branch code"
  shows "aarch64_insn_is insn_class_branch_sys code \<and>
    (\<exists>!c. c \<in> set branch_classes \<and> aarch64_insn_is c code) \<and>
    \<not> aarch64_insn_uses_literal code \<and> \<not> aarch64_insn_is_barrier code \<and>
    \<not> aarch64_insn_is_load_single code \<and> \<not> aarch64_insn_is_store_single code \<and>
    \<not> aarch64_insn_is_load_pair code \<and> \<not> aarch64_insn_is_store_pair code"
proof -
  have b: "in_one_of branch_classes code" using assms by (simp add: aarch64_insn_is_branch_def)
  obtain c where "c \<in> set branch_classes" "aarch64_insn_is c code"
    using b unfolding in_one_of_def list_ex_iff by blast
  then have "aarch64_insn_is insn_class_branch_sys code"
    by (intro part_of_is [OF branches_are_branches])
  moreover note pairwise_apart_unique [OF branches_pairwise_apart b] branches_apart [THEN apart_not_both, OF b]
  ultimately show ?thesis
    by (simp add: aarch64_insn_uses_literal_def aarch64_insn_is_barrier_def aarch64_insn_is_load_single_def
        aarch64_insn_is_store_single_def aarch64_insn_is_load_pair_def aarch64_insn_is_store_pair_def
        in_one_of_def)
qed

theorem branch_classes_exact_witness:
  "aarch64_insn_is_branch 0xd65f03c0 \<and> \<not> aarch64_insn_uses_literal 0xd65f03c0"
proof -
  have b: "aarch64_insn_is_branch 0xd65f03c0"
    by (simp add: aarch64_insn_is_branch_def in_one_of_def branch_classes_def insn_defs)
  with branch_classes_exact [OF b] show ?thesis by simp
qed

text \<open>The instructions taken for hints that may be stepped out of line are exactly the twelve
  encodings of no-operation, the landing pads and the pointer signing that cannot fault, and
  none of the waiting, event, barrier or authenticating hints.\<close>

theorem steppable_hints_exact:
  "aarch64_insn_is_steppable_hint insn \<longleftrightarrow> insn \<in> set (map aarch64_insn_gen_hint steppable_hints)"
proof
  assume "insn \<in> set (map aarch64_insn_gen_hint steppable_hints)"
  then show "aarch64_insn_is_steppable_hint insn"
    by (auto simp: aarch64_insn_is_steppable_hint_def steppable_hints_def aarch64_insn_gen_hint_def insn_hint_def)
next
  assume s: "aarch64_insn_is_steppable_hint insn"
  have "(0xFFFFF01F OR 0xFE0 :: u32) = - 1" by simp
  then have "insn = insn AND (0xFFFFF01F OR 0xFE0)" by (metis and.right_neutral)
  then have "insn = insn AND 0xFFFFF01F OR insn AND 0xFE0" by (simp only: bit.conj_disj_distrib)
  moreover have "insn AND 0xFFFFF01F = 0xD503201F" "insn AND 0xFE0 \<in> set (map hint_value steppable_hints)"
    using s by (auto simp: aarch64_insn_is_steppable_hint_def insn_hint_def split: if_splits)
  ultimately have "\<exists>v\<in>set (map hint_value steppable_hints). insn = 0xD503201F OR v" by metis
  then show "insn \<in> set (map aarch64_insn_gen_hint steppable_hints)"
    by (auto simp: aarch64_insn_gen_hint_def insn_hint_def)
qed

subsection \<open>The trap of a probe\<close>

lemmas brk_defs = KPROBES_BRK_IMM_def UPROBES_BRK_IMM_def KPROBES_BRK_SS_IMM_def KRETPROBES_BRK_IMM_def
  FAULT_BRK_IMM_def KGDB_DYN_DBG_BRK_IMM_def KGDB_COMPILED_DBG_BRK_IMM_def BUG_BRK_IMM_def
  KASAN_BRK_IMM_def KASAN_BRK_MASK_def UBSAN_BRK_IMM_def UBSAN_BRK_MASK_def CFI_BRK_IMM_TARGET_def
  CFI_BRK_IMM_TYPE_def CFI_BRK_IMM_BASE_def CFI_BRK_IMM_MASK_def AARCH64_BREAK_MON_def GENMASK_def

lemmas ec_defs = ESR_ELx_EC_def ESR_ELx_EC_MASK_def ESR_ELx_EC_SHIFT_def ESR_ELx_EC_BRK64_def
  ESR_ELx_EC_DABT_LOW_def ESR_ELx_EC_DABT_CUR_def ESR_ELx_IL_def ESR_ELx_IL_SHIFT_def
  ESR_ELx_BRK64_ISS_COMMENT_MASK_def

text \<open>
  The syndrome the CPU reports for a break instruction (architecture manual): class BRK64, a
  32-bit instruction, and the instruction's 16-bit immediate in the low bits.
\<close>

definition reports_breaks :: "(u32 \<Rightarrow> u64) \<Rightarrow> bool" where
  "reports_breaks syndrome \<longleftrightarrow>
     (\<forall>code. aarch64_insn_is insn_brk code \<longrightarrow>
        syndrome code = push_bit ESR_ELx_EC_SHIFT ESR_ELx_EC_BRK64 OR ESR_ELx_IL OR
                        (drop_bit 5 (ucast code) AND 0xffff))"

text \<open>The break instruction with an immediate, as the opcodes of debug-monitors.h are built.\<close>

definition break_insn :: "u64 \<Rightarrow> u32" where
  "break_insn imm = ucast (AARCH64_BREAK_MON OR push_bit 5 imm)"

text \<open>The immediates of the kernel's break hooks, each with the bits it does not look at.\<close>

definition break_numbers :: "(u64 \<times> u64) list" where
  "break_numbers =
    [(KPROBES_BRK_IMM, 0), (UPROBES_BRK_IMM, 0), (KPROBES_BRK_SS_IMM, 0), (KRETPROBES_BRK_IMM, 0),
     (FAULT_BRK_IMM, 0), (KGDB_DYN_DBG_BRK_IMM, 0), (KGDB_COMPILED_DBG_BRK_IMM, 0), (BUG_BRK_IMM, 0),
     (KASAN_BRK_IMM, KASAN_BRK_MASK), (UBSAN_BRK_IMM, UBSAN_BRK_MASK), (CFI_BRK_IMM_BASE, CFI_BRK_IMM_MASK)]"

lemma imm_masked:
  assumes "imm < (0x10000 :: u64)"
  shows "imm = imm AND 0xFFFF"
proof -
  have "uint imm < 2 ^ 16" using assms by (simp add: word_less_def)
  then have "imm AND mask 16 = imm" by (simp only: mask_eq_iff)
  then show ?thesis by (simp add: mask_eq_exp_minus_1)
qed

text \<open>What the masks of the headers do to an immediate in its place.\<close>

lemma imm_fields:
  assumes "imm < (0x10000 :: u64)"
  shows "push_bit 5 imm AND 0xFFE0001F = 0" "imm AND 0xFC000000 = 0"
proof -
  have "push_bit 5 (imm AND 0xFFFF) AND 0xFFE0001F = 0" "(imm AND 0xFFFF) AND 0xFC000000 = 0"
    by (simp_all add: push_bit_and and.assoc)
  then show "push_bit 5 imm AND 0xFFE0001F = 0" "imm AND 0xFC000000 = 0"
    by (simp_all flip: imm_masked [OF assms])
qed

lemma break_insn_is_brk:
  assumes "imm < 0x10000"
  shows "aarch64_insn_is insn_brk (break_insn imm)"
proof -
  have "(AARCH64_BREAK_MON OR push_bit 5 imm) AND 0xFFE0001F = 0xD4200000"
    by (simp add: AARCH64_BREAK_MON_def bit.conj_disj_distrib2 imm_fields [OF assms])
  then have "ucast ((AARCH64_BREAK_MON OR push_bit 5 imm) AND 0xFFE0001F) = (0xD4200000 :: u32)"
    by (simp only:) simp
  then show ?thesis by (simp add: insn_brk_def break_insn_def unsigned_and_eq)
qed

lemma break_insn_immediate:
  assumes "imm < 0x10000"
  shows "drop_bit 5 (ucast (break_insn imm)) AND 0xFFFF = imm"
proof -
  have m: "(0xFFFF :: u64) = mask 16" by (simp add: mask_eq_exp_minus_1)
  have "take_bit 16 (drop_bit 5 (push_bit 5 imm)) = take_bit 16 imm"
    by (rule bit_eqI) (auto simp: bit_take_bit_iff bit_drop_bit_eq bit_push_bit_iff)
  also have "\<dots> = imm" using imm_masked [OF assms] by (simp only: m take_bit_eq_mask)
  finally have i: "take_bit 16 (drop_bit 5 (push_bit 5 imm)) = imm" .
  have o': "take_bit 16 (drop_bit 5 AARCH64_BREAK_MON) = 0" by (simp add: AARCH64_BREAK_MON_def)
  have "drop_bit 5 (ucast (break_insn imm)) AND 0xFFFF =
      take_bit 16 (drop_bit 5 (take_bit 32 (AARCH64_BREAK_MON OR push_bit 5 imm)))"
    by (simp add: break_insn_def unsigned_ucast_eq m flip: take_bit_eq_mask)
  also have "\<dots> = take_bit 16 (drop_bit 5 AARCH64_BREAK_MON) OR take_bit 16 (drop_bit 5 (push_bit 5 imm))"
    by (simp only: drop_bit_take_bit take_bit_take_bit drop_bit_or take_bit_or) simp
  finally show ?thesis by (simp only: i o') simp
qed

text \<open>The syndrome of a break instruction, read back with the macros of esr.h.\<close>

lemma break_syndrome:
  assumes "reports_breaks syndrome" "imm < 0x10000"
  shows "ESR_ELx_EC (syndrome (break_insn imm)) = ESR_ELx_EC_BRK64"
    "esr_brk_comment (syndrome (break_insn imm)) = imm"
proof -
  have s: "syndrome (break_insn imm) = 0xF2000000 OR imm"
    using assms(1) break_insn_is_brk [OF assms(2)] break_insn_immediate [OF assms(2)]
    by (simp add: reports_breaks_def ec_defs flip: or.assoc)
  show "ESR_ELx_EC (syndrome (break_insn imm)) = ESR_ELx_EC_BRK64"
    by (simp add: s ec_defs bit.conj_disj_distrib2 imm_fields [OF assms(2)])
  show "esr_brk_comment (syndrome (break_insn imm)) = imm"
    using imm_masked [OF assms(2)] by (simp add: s esr_brk_comment_def ec_defs bit.conj_disj_distrib2)
qed

text \<open>Two break numbers, each with the bits its hook does not look at, that no comment matches both.\<close>

fun answers :: "u64 \<Rightarrow> u64 \<times> u64 \<Rightarrow> bool" where
  "answers c (imm, msk) \<longleftrightarrow> c AND NOT msk = imm"

fun numbers_apart :: "u64 \<times> u64 \<Rightarrow> u64 \<times> u64 \<Rightarrow> bool" where
  "numbers_apart (i, m) (j, n) \<longleftrightarrow> (i XOR j) AND NOT (m OR n) \<noteq> 0"

lemma numbers_apart_answers: "numbers_apart p q \<Longrightarrow> answers c p \<Longrightarrow> \<not> answers c q"
proof (cases p; cases q)
  fix i m j n
  assume "numbers_apart p q" "answers c p" and pq: "p = (i, m)" "q = (j, n)"
  then have ne: "(i XOR j) AND NOT (m OR n) \<noteq> 0" and ci: "c AND NOT m = i" by simp_all
  show "\<not> answers c q"
  proof
    assume "answers c q"
    then have cj: "c AND NOT n = j" using pq by simp
    have "(c AND NOT m XOR c AND NOT n) AND NOT (m OR n) = 0"
      by (rule bit_eqI) (auto simp: bit_and_iff bit_xor_iff bit_or_iff bit_not_iff)
    then show False using ne ci cj by simp
  qed
qed

lemma break_numbers_apart: "sorted_wrt numbers_apart break_numbers"
  by (simp add: break_numbers_def brk_defs mask_eq_exp_minus_1)

lemma apart_answered_once:
  "sorted_wrt numbers_apart ps \<Longrightarrow> length (filter (answers c) ps) \<le> 1"
proof (induction ps)
  case (Cons p ps)
  then have "filter (answers c) ps = []" if "answers c p"
    using numbers_apart_answers [OF _ that] Cons.prems by (simp add: filter_empty_conv del: answers.simps)
  then show ?case using Cons by auto
qed simp

lemma cfi_is_its_number:
  "esr_is_cfi_brk esr \<longleftrightarrow>
     ESR_ELx_EC esr = ESR_ELx_EC_BRK64 \<and> answers (esr_brk_comment esr) (CFI_BRK_IMM_BASE, CFI_BRK_IMM_MASK)"
  by (simp add: esr_is_cfi_brk_def)

text \<open>C26: The trap of a break instruction is recognised for what it is. On a CPU that reports break
  instructions as the architecture says, the instruction built for an immediate is one the
  kernel's own decoder takes for a break, its syndrome is of the break class and of no data
  abort, and its comment is the immediate; at most one of the kernel's break hooks (kprobes, the
  step after one, kretprobes, uprobes, kgdb, BUG, the sanitizers, control flow) answers to it,
  and a probe's break is never taken for a control-flow check.\<close>

theorem probe_trap_recognised:
  assumes "reports_breaks syndrome" "imm < 0x10000"
  defines "esr \<equiv> syndrome (break_insn imm)"
  shows "aarch64_insn_is insn_brk (break_insn imm) \<and> ESR_ELx_EC esr = ESR_ELx_EC_BRK64 \<and>
    \<not> esr_is_data_abort esr \<and> esr_brk_comment esr = imm \<and>
    length (filter (answers (esr_brk_comment esr)) break_numbers) \<le> 1 \<and>
    (imm \<in> {KPROBES_BRK_IMM, KPROBES_BRK_SS_IMM, KRETPROBES_BRK_IMM} \<longrightarrow> \<not> esr_is_cfi_brk esr)"
proof -
  note b = break_syndrome [OF assms(1,2), folded esr_def]
  have "\<not> esr_is_data_abort esr" by (simp add: esr_is_data_abort_def b(1)) (simp add: ec_defs)
  moreover have "\<not> esr_is_cfi_brk esr" if "imm \<in> {KPROBES_BRK_IMM, KPROBES_BRK_SS_IMM, KRETPROBES_BRK_IMM}"
    using that by (auto simp: cfi_is_its_number b(2) brk_defs mask_eq_exp_minus_1)
  ultimately show ?thesis
    using b break_insn_is_brk [OF assms(2)] apart_answered_once [OF break_numbers_apart] by simp
qed

lemma a_reporting_cpu:
  "reports_breaks (\<lambda>code. push_bit ESR_ELx_EC_SHIFT ESR_ELx_EC_BRK64 OR ESR_ELx_IL OR (drop_bit 5 (ucast code) AND 0xffff))"
  by (simp add: reports_breaks_def)

theorem probe_trap_recognised_witness:
  "aarch64_insn_is insn_brk (break_insn KPROBES_BRK_IMM) \<and> break_insn KPROBES_BRK_IMM = ucast BRK64_OPCODE_KPROBES"
proof -
  have "KPROBES_BRK_IMM < 0x10000" by (simp add: brk_defs)
  from probe_trap_recognised [OF a_reporting_cpu this] show ?thesis
    by (simp add: break_insn_def BRK64_OPCODE_KPROBES_def)
qed

subsection \<open>Trapped system registers\<close>

lemmas sys64_defs = esr_sys64_to_sysreg_def ESR_ELx_SYS64_ISS_SYS_VAL_def
  ESR_ELx_SYS64_ISS_OP0_SHIFT_def ESR_ELx_SYS64_ISS_OP0_MASK_def ESR_ELx_SYS64_ISS_OP1_SHIFT_def
  ESR_ELx_SYS64_ISS_OP1_MASK_def ESR_ELx_SYS64_ISS_OP2_SHIFT_def ESR_ELx_SYS64_ISS_OP2_MASK_def
  ESR_ELx_SYS64_ISS_CRN_SHIFT_def ESR_ELx_SYS64_ISS_CRN_MASK_def ESR_ELx_SYS64_ISS_CRM_SHIFT_def
  ESR_ELx_SYS64_ISS_CRM_MASK_def ESR_ELx_SYS64_ISS_SYS_MASK_def

lemmas sys_reg_defs = sys_reg_def sys_reg_Op0_def sys_reg_Op1_def sys_reg_CRn_def sys_reg_CRm_def
  sys_reg_Op2_def Op0_shift_def Op0_mask_def Op1_shift_def Op1_mask_def CRn_shift_def CRn_mask_def
  CRm_shift_def CRm_mask_def Op2_shift_def Op2_mask_def

text \<open>The field of width \<open>w\<close> at bit \<open>i\<close>.\<close>

definition field_at :: "nat \<Rightarrow> nat \<Rightarrow> u64 \<Rightarrow> u64" where
  "field_at i w e = take_bit w (drop_bit i e)"

lemma field_at_or [simp]: "field_at i w (a OR b) = field_at i w a OR field_at i w b"
  by (simp add: field_at_def)

lemma field_at_push:
  assumes "x = take_bit v (x :: u64)"
  shows "i = j \<Longrightarrow> v = w \<Longrightarrow> i + w \<le> 64 \<Longrightarrow> field_at i w (push_bit j x) = x"
    "j + v \<le> i \<or> i + w \<le> j \<Longrightarrow> field_at i w (push_bit j x) = 0"
proof -
  have b: "bit x n \<Longrightarrow> n < v" for n using assms by (metis bit_take_bit_iff)
  show "field_at i w (push_bit j x) = x" if "i = j" "v = w" "i + w \<le> 64"
    using that by (intro bit_eqI) (auto simp: field_at_def bit_take_bit_iff bit_drop_bit_eq bit_push_bit_iff dest: b)
  show "field_at i w (push_bit j x) = 0" if "j + v \<le> i \<or> i + w \<le> j"
    using that b by (intro bit_eqI) (fastforce simp: field_at_def bit_take_bit_iff bit_drop_bit_eq bit_push_bit_iff)
qed

lemma masked_field: "drop_bit i e AND m = field_at i w e" if "m = mask w"
  using that by (simp add: field_at_def take_bit_eq_mask)

lemma field_of_masked: "drop_bit i (e AND push_bit i m) = field_at i w e" if "m = mask w" "i + w \<le> 64"
  using that by (intro bit_eqI) (auto simp: field_at_def bit_take_bit_iff bit_drop_bit_eq bit_push_bit_iff bit_and_iff bit_mask_iff)

lemma field_free: "field_at i w e = 0" if "e AND s = 0" "s AND push_bit i m = push_bit i m" "m = mask w" "i + w \<le> 64"
proof -
  have "e AND push_bit i m = (e AND s) AND push_bit i m" by (simp only: and.assoc that(2))
  then have "e AND push_bit i m = 0" by (simp add: that(1))
  then show ?thesis using field_of_masked [OF that(3,4), of e] by simp
qed

lemma sys_reg_fields:
  "sys_reg_Op0 r = field_at 19 2 r" "sys_reg_Op1 r = field_at 16 3 r" "sys_reg_CRn r = field_at 12 4 r"
  "sys_reg_CRm r = field_at 8 4 r" "sys_reg_Op2 r = field_at 5 3 r"
  unfolding sys_reg_defs by (rule masked_field; simp add: mask_eq_exp_minus_1)+

lemma sys64_fields:
  "esr_sys64_to_sysreg e =
     sys_reg (field_at 20 2 e) (field_at 14 3 e) (field_at 10 4 e) (field_at 1 4 e) (field_at 17 3 e)"
proof -
  have "drop_bit 20 (e AND push_bit 20 3) = field_at 20 2 e" "drop_bit 14 (e AND push_bit 14 7) = field_at 14 3 e"
    "drop_bit 10 (e AND push_bit 10 15) = field_at 10 4 e" "drop_bit 1 (e AND push_bit 1 15) = field_at 1 4 e"
    "drop_bit 17 (e AND push_bit 17 7) = field_at 17 3 e"
    by (rule field_of_masked; simp add: mask_eq_exp_minus_1)+
  then show ?thesis by (simp only: sys64_defs)
qed

lemma small_field:
  "x < 4 \<Longrightarrow> (x :: u64) = take_bit 2 x" "x < 8 \<Longrightarrow> x = take_bit 3 x" "x < 16 \<Longrightarrow> x = take_bit 4 x"
proof -
  have *: "x = take_bit n x" if "uint x < 2 ^ n" for n
    using that mask_eq_iff [of x n] by (simp add: take_bit_eq_mask)
  show "x < 4 \<Longrightarrow> x = take_bit 2 x" "x < 8 \<Longrightarrow> x = take_bit 3 x" "x < 16 \<Longrightarrow> x = take_bit 4 x"
    by (rule *; simp add: word_less_def)+
qed

text \<open>A trapped system-register access is decoded without loss. Whatever direction and general
  register the syndrome carries besides, the register number the kernel computes from it is that
  of the instruction's five operands, and each operand is read back from the number.\<close>

theorem sysreg_roundtrip:
  assumes "op0 < 4" "op1 < 8" "op2 < 8" "crn < 16" "crm < 16" "rest AND ESR_ELx_SYS64_ISS_SYS_MASK = 0"
  defines "reg \<equiv> esr_sys64_to_sysreg (ESR_ELx_SYS64_ISS_SYS_VAL op0 op1 op2 crn crm OR rest)"
  shows "reg = sys_reg op0 op1 crn crm op2 \<and> sys_reg_Op0 reg = op0 \<and> sys_reg_Op1 reg = op1 \<and>
    sys_reg_CRn reg = crn \<and> sys_reg_CRm reg = crm \<and> sys_reg_Op2 reg = op2"
proof -
  note push = small_field(1) [OF assms(1), THEN field_at_push(1)] small_field(1) [OF assms(1), THEN field_at_push(2)]
    small_field(2) [OF assms(2), THEN field_at_push(1)] small_field(2) [OF assms(2), THEN field_at_push(2)]
    small_field(2) [OF assms(3), THEN field_at_push(1)] small_field(2) [OF assms(3), THEN field_at_push(2)]
    small_field(3) [OF assms(4), THEN field_at_push(1)] small_field(3) [OF assms(4), THEN field_at_push(2)]
    small_field(3) [OF assms(5), THEN field_at_push(1)] small_field(3) [OF assms(5), THEN field_at_push(2)]
  note free = field_free [OF assms(6)]
  have r: "field_at 20 2 rest = 0" "field_at 14 3 rest = 0" "field_at 10 4 rest = 0"
    "field_at 1 4 rest = 0" "field_at 17 3 rest = 0"
    by (rule free [where m = 3], simp_all add: sys64_defs mask_eq_exp_minus_1)
      ((rule free [where m = 7] free [where m = 15], simp_all add: sys64_defs mask_eq_exp_minus_1; fail)+)
  have reg: "reg = sys_reg op0 op1 crn crm op2"
    by (simp add: reg_def sys64_fields r sys64_defs push del: One_nat_def push_bit_Suc)
  show ?thesis by (simp add: reg sys_reg_fields) (simp add: sys_reg_defs push)
qed

text \<open>A read of the counter register into a general register.\<close>

theorem sysreg_roundtrip_witness:
  "esr_sys64_to_sysreg (ESR_ELx_SYS64_ISS_SYS_VAL 3 3 2 14 0 OR 0x61) = sys_reg 3 3 14 0 2"
proof -
  have "0x61 AND ESR_ELx_SYS64_ISS_SYS_MASK = 0" by (simp add: sys64_defs)
  from sysreg_roundtrip [OF _ _ _ _ _ this, of 3 3 2 14 0] show ?thesis by simp
qed

end
