(* ===== verification/Spec2Isabelle.thy ===== *)
theory Spec2Isabelle
  imports Runtime_Claims Load_Claims Interference_Claims List_Claims Pool_Claims Tree_Claims Seq_Claims Bit_Claims Queue_Claims Atomic_Claims Trap_Claims
begin

text \<open>
  Verification library of the charging runtime of the K100 Pro Max (src/K100PM\_CHG\_RUNTIME.c)
  and of the kernel code it stands on (the headers under kheaders/).

  The program is a kernel module of kretprobes. On load it registers a table of probes on the
  vendor's charging functions; the entry handlers of the voter and buck functions rewrite the
  current, voltage or thermal value passed in an argument register to a table value chosen by
  the battery temperature; the handlers of the fuel-gauge temperature getters publish the
  reading and clamp what the vendor sees; the handlers of the voltage cut-off functions replace
  three thresholds in the vendor's memory. Settings are module parameters that may be
  stored while handlers run; the hit counters are read back through sysfs.

  Components and theories. Each operation of the C file is one definition of the same name.

  \<^item> \<^bold>\<open>Prelude\<close>: integer types as words, results that may fault, signed comparison, lemma
    collections. \<^bold>\<open>Kernel\_Mem\<close>: kernel memory as a map from addresses to 32-bit cells; a bad
    address is an error value. \<^bold>\<open>Pt\_Regs\<close>: struct pt\_regs of arm64 and its accessors
    (asm/ptrace.h).
  \<^item> \<^bold>\<open>Module\_State\<close>: the static variables as a record, the counters and \<open>k100pm_count\<close>.
    \<^bold>\<open>Module\_Params\<close>: the module\_param table, its permission check and assignment.
  \<^item> \<^bold>\<open>Charge\_Maps\<close>: temperature bands and the value tables (\<open>k100pm_map_*\<close>).
    \<^bold>\<open>Voter\_Hooks\<close>: the seven rewriting entry handlers; \<^bold>\<open>Voter\_Contract\<close>: what they promise,
    as a locale interpreted on each, and \<^bold>\<open>Voter\_Tables\<close>: flat tables of what replaces each value, the
    reference the handlers are compared with. \<^bold>\<open>Fg\_Hooks\<close>: the temperature pair with its probe context.
    \<^bold>\<open>Cutoff\_Spec\<close>: the threshold handlers and the specification they refine.
  \<^item> \<^bold>\<open>Probe\_Table\<close>: the table, registration with rollback, unload; the kernel's
    register and unregister functions are arguments with the hypothesis \<open>kretprobe_api\<close>.
    \<^bold>\<open>Runtime\<close>: calls of the hooked functions as steps of the whole system, and its invariants.
  \<^item> \<^bold>\<open>Interference\<close> and \<^bold>\<open>Temperature\_Races\<close>: the handlers again as programs of single memory
    accesses, run while other CPUs change the module's variables between them.
  \<^item> Kernel code below: \<^bold>\<open>Linked\_List\<close> and \<^bold>\<open>Hash\_List\<close> (list.h, llist.h: what probes and
    instances are kept on) with \<^bold>\<open>List\_Walks\<close> (the loops over them), \<^bold>\<open>Objpool\<close> (objpool.h: the pool of kretprobe instances) and
    \<^bold>\<open>Objpool\_Race\<close> (one of its rings, an access at a time, raced by other CPUs) and
    \<^bold>\<open>Pool\_Race\<close> (all CPUs and rings together),
    \<^bold>\<open>Refcount\<close> (refcount.h) and \<^bold>\<open>Refcount\_Race\<close> (the same, one atomic access at a time,
    raced by any number of threads), \<^bold>\<open>Atomic\_Arch\<close> (the atomic instructions and exclusive loops of
    arm64) and \<^bold>\<open>Atomic\_Raw\<close> (the generic atomic operations built on them);
    \<^bold>\<open>Rbtree\<close>, \<^bold>\<open>Rb\_Trees\<close>, \<^bold>\<open>Rb\_Search\<close> and \<^bold>\<open>Rb\_Erase\<close> (rbtree.h, rbtree\_augmented.h:
    the code, the trees its memory holds, search and insertion, removal against the contract of
    the augmentation callbacks), \<^bold>\<open>Interval\_Tree\<close> and \<^bold>\<open>Interval\_Search\<close>
    (interval\_tree\_generic.h: the callbacks as an instance of that contract, and the tree functions);
    \<^bold>\<open>Seqlock\<close> (seqlock.h: counters, latches, locks), \<^bold>\<open>Seq\_Race\<close> (one writer and any number of
    readers, an access at a time) and \<^bold>\<open>Latch\_Tree\<close> (rbtree\_latch.h, its updates raced by
    lookups: how addresses are resolved to modules while modules load);
    \<^bold>\<open>Insn\<close> (asm/insn.h: the instruction classes that decide what a probe may replace) and
    \<^bold>\<open>Esr\<close> (asm/esr.h, brk-imm.h, debug-monitors.h, insn-def.h and the number encoding of
    sysreg.h: how the trap of a probe is told from others).
  \<^item> \<^bold>\<open>Atomic\_Long\<close> (atomic-long.h); \<^bold>\<open>Bits\<close> (bits.h, bitops.h: bits of words), \<^bold>\<open>Bitops\<close> (bits of
    bitmaps: plain, atomic, locking and little-endian) and \<^bold>\<open>Bit\_Sets\<close> (bitmaps as sets of numbers);
    \<^bold>\<open>Find\_Bit\<close> and \<^bold>\<open>Find\_Sets\<close> (find.h: the searches and the loops built on them);
    \<^bold>\<open>Bitmap\<close>, \<^bold>\<open>Bitmap\_Ranges\<close> and \<^bold>\<open>Bitmap\_Facts\<close> (bitmap.h: whole bitmaps; ranges, regions and
    values in them); \<^bold>\<open>Bit\_Reference\<close>: naive searches the loops are compared with; \<^bold>\<open>Cpumask\<close>
    (cpumask.h: masks of CPUs and the masks of the system).
  \<^item> \<^bold>\<open>Min\_Heap\<close> and \<^bold>\<open>Heap\_Facts\<close> (min\_heap.h: heaps in arrays as priority queues); \<^bold>\<open>Ptr\_Ring\<close>,
    \<^bold>\<open>Ring\_Facts\<close>, \<^bold>\<open>Ring\_Locks\<close> and \<^bold>\<open>Ring\_Race\<close> (ptr\_ring.h: rings of pointers as queues, the
    operations under their locks, and a producer and a consumer an access at a time);
    \<^bold>\<open>Errno\<close>: the error numbers they return.
  \<^item> \<^bold>\<open>Charge\_Claims\<close>, \<^bold>\<open>Memory\_Claims\<close>, \<^bold>\<open>Cutoff\_Claims\<close>, \<^bold>\<open>Load\_Claims\<close>, \<^bold>\<open>Runtime\_Claims\<close>,
    \<^bold>\<open>Interference\_Claims\<close>, \<^bold>\<open>List\_Claims\<close>, \<^bold>\<open>Pool\_Claims\<close>, \<^bold>\<open>Tree\_Claims\<close>, \<^bold>\<open>Seq\_Claims\<close>, \<^bold>\<open>Atomic\_Claims\<close>,
    \<^bold>\<open>Trap\_Claims\<close>, \<^bold>\<open>Bit\_Claims\<close>, \<^bold>\<open>Queue\_Claims\<close>: the properties, by
    component, each with a witness at a concrete state where it has a hypothesis.

  What is shown. For the module: no handler writes outside the addresses it was given or past
  its probe data, in any run of calls; the rewriting handlers do what the flat tables of replacements say and
  keep within the charge limits, also when settings and temperature change between their reads;
  the threshold handlers refine a one-step specification; loading registers all probes or none,
  and unloading undoes it; counters never exceed the calls. For the kernel code: a run of list
  operations is the run on the abstract sequence, and every loop over a list ends, in its order, with what its
  body may take off; the pool neither loses nor
  duplicates objects, also when all CPUs race on it, and each of its rings stays a first-in
  first-out queue; removal from an augmented red-black tree takes out one node, keeps the values
  right and names the place that lacks a black node, insertion adds one at its place and leaves at most
  one red node under a red parent, in an interval tree with the largest ends right, and
  iteration over an interval tree visits exactly the overlapping intervals; what a reader of a
  sequence counter accepts is the data of a moment after it began, and a lookup in a latched tree sees a whole tree; reference counts balance or saturate, and a saturated one is never freed by racing
  threads, each call of which does, when it runs alone, what the sequential operation does; every atomic operation acts on one value of its cell with at least the ordering asked
  for, on CPUs with and without the single instructions, and the conditional ones act on one value, too, and
  are lock-free;
  the instruction classes the kprobe decoder uses do not overlap, and the trap of a probe's
  break instruction is answered by at most one hook, and never taken for another kind of trap;
  operations on CPU masks are those on sets of CPUs, iterating over a bitmap visits its set bits or
  ranges once and in order, values written at any bit are read back, and a search for a free
  region finds the first one or reports that there is none; an array heap is a bounded
  priority queue and sorts, and a pointer ring is a bounded first-in first-out queue with every
  way of locking, when it is resized (with every array freed once it is replaced and no other), and when a producer and a consumer race on it.

  Bounds. Words have the width of the C types. Loops that recurse on a list, a counter or the
  probe table are total functions. The loops over linked structures are partial functions whose
  value \<open>None\<close> is a loop that does not end; that they return is part of their properties. A
  compare-and-exchange or exclusive loop takes the list of what each try finds, and \<open>None\<close>
  means still running when the list ends: what it takes to keep one running is proved.
  Interference is every change of the shared variables the hypotheses allow, between any two
  accesses; memory is sequentially consistent. The
  ring property counts runs that take fewer than \<open>2 ^ 32 - nr\<close> objects (then no index
  recurs), the two properties of sequence counters runs with fewer than \<open>2 ^ 32\<close> increments (then no
  count recurs); between the accesses of an update the tree that is being changed may hold
  anything. The saturation property counts threads whose amounts sum below \<open>2 ^ 30\<close>, the distance of
  the saturation value from both ends of the negative range.

  Bit numbers, numbers of elements and positions in rings are natural numbers: bitmaps are shorter than
  \<open>2 ^ 32\<close> bits, heaps than \<open>2 ^ 30\<close> elements and rings than \<open>2 ^ 19 + 1\<close> cells, the most that the
  allocation of a ring grants, so that no int or unsigned int of the code wraps on them. Where one does, it is
  written out: the lengths and positions of the region functions are cut to 32 bits, for bitmaps shorter than
  \<open>2 ^ 31\<close> bits and orders below 64, the positions an int holds and the shifts C defines.

  Not modelled. The kernel's kprobe core (kernel/kprobes.c), sysfs text parsing, the pool and
  reference-count functions of lib/, the rebalancing of lib/rbtree.c, the functions of lib/find\_bit.c
  and lib/bitmap.c, the table of kernel/cpu.c, spinlocks and allocators are not in the
  repository; where modelled code calls them they are arguments, with what they promise as hypotheses. The
  remaining headers are what the module is compiled against, of subsystems it never enters: most declare
  functions implemented elsewhere, constants and register layouts, which have no behaviour to state, and
  the inline helpers among them are left out. The shell scripts and manifests package the module and run none of its logic.
\<close>

end
